(* ===== verification/Prelude.thy ===== *)
theory Prelude
  imports Main
begin

text \<open>
  The vocabulary every component shares.

  Text: a Rust \<open>str\<close> is a sequence of Unicode scalar values, so \<open>rstr\<close> is a list of code
  points; \<open>str_len\<close> is the byte length \<open>str::len\<close> returns (the UTF-8 width), while
  \<open>length\<close> counts characters; \<open>trim\<close> is \<open>str::trim\<close> (Unicode White_Space);
  \<open>lit\<close> turns an ASCII literal into such a sequence.

  Control: \<open>try_tx\<close> is the \<open>?\<close> operator inside a transaction (an error leaves the database as it
  was when the transaction began), \<open>bindE\<close> is \<open>?\<close> in a pure function, \<open>run_calls\<close> executes a
  sequence of operations.

  Tables: rows are kept in insertion order; \<open>find_row\<close>, \<open>update_rows\<close> and \<open>count_rows\<close> are the
  SELECT ... WHERE, UPDATE ... WHERE and its affected-row count.
\<close>

section \<open>Text\<close>

type_synonym rstr = "nat list"

definition lit :: "string \<Rightarrow> rstr" where
  "lit s = map of_char s"

definition utf8_width :: "nat \<Rightarrow> nat" where
  "utf8_width c = (if c < 128 then 1 else if c < 2048 then 2 else if c < 65536 then 3 else 4)"

definition str_len :: "rstr \<Rightarrow> nat" where
  "str_len s = sum_list (map utf8_width s)"

definition is_whitespace :: "nat \<Rightarrow> bool" where
  "is_whitespace c \<longleftrightarrow>
     9 \<le> c \<and> c \<le> 13 \<or> c = 32 \<or> c = 133 \<or> c = 160 \<or> c = 5760 \<or> 8192 \<le> c \<and> c \<le> 8202 \<or>
     c = 8232 \<or> c = 8233 \<or> c = 8239 \<or> c = 8287 \<or> c = 12288"

definition trim_start :: "rstr \<Rightarrow> rstr" where
  "trim_start s = dropWhile is_whitespace s"

definition trim_end :: "rstr \<Rightarrow> rstr" where
  "trim_end s = rev (dropWhile is_whitespace (rev s))"

definition trim :: "rstr \<Rightarrow> rstr" where
  "trim s = trim_end (trim_start s)"

definition is_ascii_lower :: "nat \<Rightarrow> bool" where
  "is_ascii_lower c \<longleftrightarrow> 97 \<le> c \<and> c \<le> 122"

definition is_ascii_upper :: "nat \<Rightarrow> bool" where
  "is_ascii_upper c \<longleftrightarrow> 65 \<le> c \<and> c \<le> 90"

definition is_ascii_digit :: "nat \<Rightarrow> bool" where
  "is_ascii_digit c \<longleftrightarrow> 48 \<le> c \<and> c \<le> 57"

definition is_ascii_alphanumeric :: "nat \<Rightarrow> bool" where
  "is_ascii_alphanumeric c \<longleftrightarrow> is_ascii_lower c \<or> is_ascii_upper c \<or> is_ascii_digit c"

definition is_ascii_control :: "nat \<Rightarrow> bool" where
  "is_ascii_control c \<longleftrightarrow> c < 32 \<or> c = 127"

definition is_ascii_graphic :: "nat \<Rightarrow> bool" where
  "is_ascii_graphic c \<longleftrightarrow> 33 \<le> c \<and> c \<le> 126"

text \<open>\<open>char::is_ascii_whitespace\<close>: space, tab, line feed, form feed, carriage return (not VT).\<close>

definition is_ascii_whitespace :: "nat \<Rightarrow> bool" where
  "is_ascii_whitespace c \<longleftrightarrow> c = 32 \<or> c = 9 \<or> c = 10 \<or> c = 12 \<or> c = 13"

definition to_ascii_lowercase :: "rstr \<Rightarrow> rstr" where
  "to_ascii_lowercase s = map (\<lambda>c. if is_ascii_upper c then c + 32 else c) s"

definition starts_with :: "rstr \<Rightarrow> rstr \<Rightarrow> bool" where
  "starts_with s p \<longleftrightarrow> take (length p) s = p"

fun split_once :: "nat \<Rightarrow> rstr \<Rightarrow> (rstr \<times> rstr) option" where
  "split_once d [] = None"
| "split_once d (c # cs) =
     (if c = d then Some ([], cs) else map_option (\<lambda>(a, b). (c # a, b)) (split_once d cs))"

text \<open>Decimal rendering of \<open>{}\<close> for the integers the messages print.\<close>

fun show_nat :: "nat \<Rightarrow> rstr" where
  "show_nat n = (if n < 10 then [48 + n] else show_nat (n div 10) @ [48 + n mod 10])"

declare show_nat.simps [simp del]

definition show_int :: "int \<Rightarrow> rstr" where
  "show_int i = (if i < 0 then 45 # show_nat (nat (- i)) else show_nat (nat i))"

lemma str_len_Nil [simp]: "str_len [] = 0"
  by (simp add: str_len_def)

lemma str_len_Cons [simp]: "str_len (c # s) = utf8_width c + str_len s"
  by (simp add: str_len_def)

lemma str_len_append [simp]: "str_len (s @ t) = str_len s + str_len t"
  by (simp add: str_len_def)

lemma utf8_width_pos: "0 < utf8_width c"
  by (simp add: utf8_width_def)

lemma utf8_width_le: "utf8_width c \<le> 4"
  by (simp add: utf8_width_def)

lemma length_le_str_len: "length s \<le> str_len s"
proof (induction s)
  case (Cons c s)
  then show ?case using utf8_width_pos [of c] by simp
qed simp

lemma str_len_le_length: "str_len s \<le> 4 * length s"
proof (induction s)
  case (Cons c s)
  then show ?case using utf8_width_le [of c] by simp
qed simp

lemma lit_Nil [simp]: "lit [] = []"
  by (simp add: lit_def)

lemma lit_eq_iff [simp]: "lit s = lit t \<longleftrightarrow> s = t"
  by (simp add: lit_def inj_def)

lemma lit_eq_Nil [simp]: "lit s = [] \<longleftrightarrow> s = []" "[] = lit s \<longleftrightarrow> s = []"
  by (simp_all add: lit_def)

lemma lit_Cons: "lit (c # s) = of_char c # lit s"
  by (simp add: lit_def)

subsection \<open>Trimming\<close>

lemma trim_start_eq: "trim_start s = s \<longleftrightarrow> (s = [] \<or> \<not> is_whitespace (hd s))"
  unfolding trim_start_def
proof (cases s)
  case (Cons c cs)
  have "length (dropWhile is_whitespace cs) \<le> length cs"
    by (rule length_dropWhile_le)
  then have "dropWhile is_whitespace cs \<noteq> c # cs" by auto
  with Cons show "(dropWhile is_whitespace s = s) = (s = [] \<or> \<not> is_whitespace (hd s))" by auto
qed simp

lemma trim_end_eq: "trim_end s = s \<longleftrightarrow> (s = [] \<or> \<not> is_whitespace (last s))"
  using trim_start_eq [of "rev s"]
  by (simp add: trim_end_def trim_start_def rev_swap hd_rev)

lemma trim_end_prefix: "\<exists>t. s = trim_end s @ t"
  unfolding trim_end_def
  by (metis rev_append rev_rev_ident takeWhile_dropWhile_id)

lemma hd_trim_end:
  assumes "trim_end s \<noteq> []"
  shows "hd (trim_end s) = hd s"
proof -
  obtain t where "s = trim_end s @ t" using trim_end_prefix by blast
  then have "hd s = hd (trim_end s @ t)" by (rule arg_cong)
  with assms show ?thesis by simp
qed

lemma trim_fixpoint:
  "trim s = s \<longleftrightarrow> s = [] \<or> (\<not> is_whitespace (hd s) \<and> \<not> is_whitespace (last s))"
proof
  assume t: "trim s = s"
  have "length (trim_end (trim_start s)) \<le> length (trim_start s)"
    by (metis trim_end_def length_dropWhile_le length_rev)
  moreover have "length (trim_start s) \<le> length s"
    by (simp add: trim_start_def length_dropWhile_le)
  ultimately have "length (trim_start s) = length s"
    using t by (simp add: trim_def)
  then have ts: "trim_start s = s"
    unfolding trim_start_def
    by (metis append_self_conv2 length_append add_cancel_left_left length_0_conv
        takeWhile_dropWhile_id)
  with t have te: "trim_end s = s" by (simp add: trim_def)
  from ts te show "s = [] \<or> (\<not> is_whitespace (hd s) \<and> \<not> is_whitespace (last s))"
    using trim_start_eq [of s] trim_end_eq [of s] by blast
next
  assume "s = [] \<or> (\<not> is_whitespace (hd s) \<and> \<not> is_whitespace (last s))"
  then show "trim s = s"
    by (metis trim_def trim_start_eq trim_end_eq)
qed

lemma trim_not_Nil_ends:
  assumes "trim s \<noteq> []"
  shows "\<not> is_whitespace (hd (trim s))" and "\<not> is_whitespace (last (trim s))"
proof -
  have ne: "trim_end (trim_start s) \<noteq> []" using assms by (simp add: trim_def)
  then have "trim_start s \<noteq> []" by (auto simp: trim_end_def)
  then have "\<not> is_whitespace (hd (trim_start s))"
    unfolding trim_start_def by (rule hd_dropWhile)
  with hd_trim_end [OF ne] show "\<not> is_whitespace (hd (trim s))" by (simp add: trim_def)
  have "dropWhile is_whitespace (rev (trim_start s)) \<noteq> []"
    using ne by (simp add: trim_end_def)
  then have "\<not> is_whitespace (hd (dropWhile is_whitespace (rev (trim_start s))))"
    by (rule hd_dropWhile)
  with ne show "\<not> is_whitespace (last (trim s))"
    by (simp add: trim_def trim_end_def last_rev)
qed

lemma trim_trim [simp]: "trim (trim s) = trim s"
  using trim_fixpoint trim_not_Nil_ends by blast

lemma set_trim: "set (trim s) \<subseteq> set s"
proof -
  have "set (trim_end t) \<subseteq> set t" for t
    unfolding trim_end_def using set_dropWhileD by fastforce
  moreover have "set (trim_start t) \<subseteq> set t" for t
    unfolding trim_start_def using set_dropWhileD by fastforce
  ultimately show ?thesis unfolding trim_def by blast
qed

subsection \<open>Splitting\<close>

lemma split_once_append [simp]:
  "d \<notin> set p \<Longrightarrow> split_once d (p @ d # r) = Some (p, r)"
  by (induction p) auto

lemma split_once_Some:
  "split_once d s = Some (p, r) \<Longrightarrow> s = p @ d # r \<and> d \<notin> set p"
  by (induction d s arbitrary: p r rule: split_once.induct) (auto split: if_splits)

lemma starts_with_append [simp]: "starts_with (p @ s) p"
  by (simp add: starts_with_def)

lemma starts_withD: "starts_with s p \<Longrightarrow> \<exists>t. s = p @ t"
  unfolding starts_with_def by (metis append_take_drop_id)

section \<open>Fallible computations and transactions\<close>

definition bindE :: "'e + 'a \<Rightarrow> ('a \<Rightarrow> 'e + 'b) \<Rightarrow> 'e + 'b" where
  "bindE m f = (case m of Inl x \<Rightarrow> Inl x | Inr y \<Rightarrow> f y)"

definition try_tx :: "'s \<Rightarrow> 'e + 'a \<Rightarrow> ('a \<Rightarrow> ('e + 'b) \<times> 's) \<Rightarrow> ('e + 'b) \<times> 's" where
  "try_tx s m k = (case m of Inl x \<Rightarrow> (Inl x, s) | Inr y \<Rightarrow> k y)"

definition mapE :: "('e \<Rightarrow> 'f) \<Rightarrow> 'e + 'a \<Rightarrow> 'f + 'a" where
  "mapE f m = (case m of Inl x \<Rightarrow> Inl (f x) | Inr y \<Rightarrow> Inr y)"

lemma bindE_simps [simp]: "bindE (Inl x) f = Inl x" "bindE (Inr y) f = f y"
  by (simp_all add: bindE_def)

lemma try_tx_simps [simp]: "try_tx s (Inl x) k = (Inl x, s)" "try_tx s (Inr y) k = k y"
  by (simp_all add: try_tx_def)

lemma mapE_simps [simp]: "mapE f (Inl x) = Inl (f x)" "mapE f (Inr y) = Inr y"
  by (simp_all add: mapE_def)

lemma mapE_eq_Inr [simp]: "mapE f m = Inr y \<longleftrightarrow> m = Inr y"
  by (cases m) simp_all

lemma bindE_eq_Inr: "bindE m f = Inr z \<longleftrightarrow> (\<exists>y. m = Inr y \<and> f y = Inr z)"
  by (cases m) simp_all

lemma bindE_eq_Inl: "bindE m f = Inl x \<longleftrightarrow> m = Inl x \<or> (\<exists>y. m = Inr y \<and> f y = Inl x)"
  by (cases m) simp_all

lemma try_tx_split:
  "P (try_tx s m k) \<longleftrightarrow> (\<forall>x. m = Inl x \<longrightarrow> P (Inl x, s)) \<and> (\<forall>y. m = Inr y \<longrightarrow> P (k y))"
  by (cases m) simp_all

lemma try_tx_split_asm:
  "P (try_tx s m k) \<longleftrightarrow> \<not> ((\<exists>x. m = Inl x \<and> \<not> P (Inl x, s)) \<or> (\<exists>y. m = Inr y \<and> \<not> P (k y)))"
  by (cases m) simp_all

lemmas try_tx_splits = try_tx_split try_tx_split_asm

lemma try_tx_cong [fundef_cong]:
  "s = s' \<Longrightarrow> m = m' \<Longrightarrow> (\<And>y. m' = Inr y \<Longrightarrow> k y = k' y) \<Longrightarrow> try_tx s m k = try_tx s' m' k'"
  by (cases m') simp_all

text \<open>
  Reasoning about an operation by its branches: \<open>outcome P x\<close> says that the result and the new state
  of \<open>x\<close> satisfy \<open>P\<close>; the rules collected in \<open>outcome\<close> follow the control flow of an operation once.
\<close>

definition outcome :: "('r \<Rightarrow> 's \<Rightarrow> bool) \<Rightarrow> 'r \<times> 's \<Rightarrow> bool" where
  "outcome P x \<longleftrightarrow> P (fst x) (snd x)"

named_theorems outcome \<open>branches of an operation\<close>

lemma outcome_pair [outcome]: "P r s \<Longrightarrow> outcome P (r, s)"
  by (simp add: outcome_def)

lemma outcome_try [outcome]:
  "(\<And>x. m = Inl x \<Longrightarrow> P (Inl x) s) \<Longrightarrow> (\<And>y. m = Inr y \<Longrightarrow> outcome P (k y)) \<Longrightarrow> outcome P (try_tx s m k)"
  by (cases m) (simp_all add: outcome_def)

lemma outcome_if [outcome]:
  "(c \<Longrightarrow> outcome P x) \<Longrightarrow> (\<not> c \<Longrightarrow> outcome P y) \<Longrightarrow> outcome P (if c then x else y)"
  by simp

lemma outcome_option [outcome]:
  "(x = None \<Longrightarrow> outcome P u) \<Longrightarrow> (\<And>v. x = Some v \<Longrightarrow> outcome P (f v)) \<Longrightarrow>
   outcome P (case x of None \<Rightarrow> u | Some v \<Rightarrow> f v)"
  by (cases x) simp_all

lemma outcomeD: "outcome P x \<Longrightarrow> x = (r, s) \<Longrightarrow> P r s"
  by (simp add: outcome_def)

lemma outcome_snd: "outcome (\<lambda>r. P) x \<Longrightarrow> P (snd x)"
  by (simp add: outcome_def)

text \<open>Executing a sequence of operations, each a state transformer.\<close>

fun run_calls :: "('c \<Rightarrow> 's \<Rightarrow> 's) \<Rightarrow> 'c list \<Rightarrow> 's \<Rightarrow> 's" where
  "run_calls f [] s = s"
| "run_calls f (c # cs) s = run_calls f cs (f c s)"

lemma run_calls_append: "run_calls f (cs @ ds) s = run_calls f ds (run_calls f cs s)"
  by (induction cs arbitrary: s) simp_all

section \<open>Tables\<close>

definition find_row :: "('r \<Rightarrow> bool) \<Rightarrow> 'r list \<Rightarrow> 'r option" where
  "find_row p rows = find p rows"

definition update_rows :: "('r \<Rightarrow> bool) \<Rightarrow> ('r \<Rightarrow> 'r) \<Rightarrow> 'r list \<Rightarrow> 'r list" where
  "update_rows p f rows = map (\<lambda>r. if p r then f r else r) rows"

definition count_rows :: "('r \<Rightarrow> bool) \<Rightarrow> 'r list \<Rightarrow> nat" where
  "count_rows p rows = length (filter p rows)"

definition opt_holds :: "('a \<Rightarrow> bool) \<Rightarrow> 'a option \<Rightarrow> bool" where
  "opt_holds p x = (case x of None \<Rightarrow> False | Some v \<Rightarrow> p v)"

text \<open>\<open>Option::is_none_or\<close>.\<close>

definition none_or :: "('a \<Rightarrow> bool) \<Rightarrow> 'a option \<Rightarrow> bool" where
  "none_or p x = (case x of None \<Rightarrow> True | Some v \<Rightarrow> p v)"

lemma opt_holds_simps [simp]: "\<not> opt_holds p None" "opt_holds p (Some v) = p v"
  by (simp_all add: opt_holds_def)

lemma none_or_simps [simp]: "none_or p None" "none_or p (Some v) = p v"
  by (simp_all add: none_or_def)

lemma opt_holds_iff: "opt_holds p x \<longleftrightarrow> (\<exists>v. x = Some v \<and> p v)"
  by (cases x) simp_all

lemma none_or_iff: "none_or p x \<longleftrightarrow> (\<forall>v. x = Some v \<longrightarrow> p v)"
  by (cases x) simp_all

lemma find_row_Nil [simp]: "find_row p [] = None"
  by (simp add: find_row_def)

lemma find_row_Cons [simp]: "find_row p (r # rs) = (if p r then Some r else find_row p rs)"
  by (simp add: find_row_def)

lemma find_row_SomeD: "find_row p rows = Some r \<Longrightarrow> r \<in> set rows \<and> p r"
  by (induction rows) (auto split: if_splits)

lemma find_row_None: "find_row p rows = None \<longleftrightarrow> (\<forall>r \<in> set rows. \<not> p r)"
  by (induction rows) auto

lemma find_row_append:
  "find_row p (xs @ ys) = (case find_row p xs of None \<Rightarrow> find_row p ys | Some r \<Rightarrow> Some r)"
  by (induction xs) auto

lemma find_row_unique:
  assumes "r \<in> set rows" and "p r" and "\<And>r'. r' \<in> set rows \<Longrightarrow> p r' \<Longrightarrow> r' = r"
  shows "find_row p rows = Some r"
proof (cases "find_row p rows")
  case None
  with assms(1,2) show ?thesis by (simp add: find_row_None)
next
  case (Some r')
  from find_row_SomeD [OF Some] assms(3) have "r' = r" by blast
  with Some show ?thesis by simp
qed

lemma find_row_key:
  assumes "distinct (map k rows)" and "r \<in> set rows"
  shows "find_row (\<lambda>r'. k r' = k r) rows = Some r"
  using assms by (intro find_row_unique) (auto simp: distinct_map inj_on_def)

lemma set_update_rows: "set (update_rows p f rows) = (\<lambda>r. if p r then f r else r) ` set rows"
  by (simp add: update_rows_def)

lemma length_update_rows [simp]: "length (update_rows p f rows) = length rows"
  by (simp add: update_rows_def)

lemma update_rows_Nil [simp]: "update_rows p f [] = []"
  by (simp add: update_rows_def)

lemma update_rows_Cons [simp]:
  "update_rows p f (r # rs) = (if p r then f r else r) # update_rows p f rs"
  by (simp add: update_rows_def)

lemma map_update_rows: "(\<And>r. p r \<Longrightarrow> k (f r) = k r) \<Longrightarrow> map k (update_rows p f rows) = map k rows"
  by (simp add: update_rows_def)

lemma find_row_update_rows:
  assumes "\<And>r. q r \<Longrightarrow> p (f r) = p r"
  shows "find_row p (update_rows q f rows) = map_option (\<lambda>r. if q r then f r else r) (find_row p rows)"
proof (induction rows)
  case (Cons r rs)
  then show ?case using assms [of r] by (cases "q r") simp_all
qed simp

lemma count_rows_key:
  assumes "distinct (map k rows)" and "r \<in> set rows" and "q r"
  shows "count_rows (\<lambda>r'. k r' = k r \<and> q r') rows = 1"
  using assms
proof (induction rows)
  case (Cons x xs)
  show ?case
  proof (cases "x = r")
    case True
    with Cons.prems have "k r \<notin> k ` set xs" by simp
    then have "\<forall>y \<in> set xs. k y \<noteq> k r" by (metis imageI)
    then have "filter (\<lambda>r'. k r' = k r \<and> q r') xs = []" by (simp add: filter_empty_conv)
    with True Cons.prems show ?thesis by (simp add: count_rows_def)
  next
    case False
    with Cons.prems have "k x \<noteq> k r" by force
    with False Cons show ?thesis by (simp add: count_rows_def)
  qed
qed simp

lemma count_rows_pos: "0 < count_rows p rows \<longleftrightarrow> (\<exists>r \<in> set rows. p r)"
  by (simp add: count_rows_def filter_empty_conv)

subsection \<open>Keyed tables and sequence columns\<close>

text \<open>A table with a primary key and a UNIQUE key; a table with an AUTOINCREMENT column.\<close>

definition keyed_table :: "('r \<Rightarrow> 'i) \<Rightarrow> ('r \<Rightarrow> 'k) \<Rightarrow> 'r list \<Rightarrow> bool" where
  "keyed_table i k rows \<longleftrightarrow> distinct (map i rows) \<and> distinct (map k rows)"

definition seq_table :: "('r \<Rightarrow> int) \<Rightarrow> int \<Rightarrow> 'r list \<Rightarrow> bool" where
  "seq_table sq c rows \<longleftrightarrow>
     sorted_wrt (\<lambda>x y. sq x < sq y) rows \<and> (\<forall>r \<in> set rows. 0 < sq r \<and> sq r \<le> c) \<and> 0 \<le> c"

lemma keyed_table_Nil [simp]: "keyed_table i k []"
  by (simp add: keyed_table_def)

lemma seq_table_Nil [simp]: "seq_table sq c [] \<longleftrightarrow> 0 \<le> c"
  by (simp add: seq_table_def)

lemma keyed_table_append:
  assumes "keyed_table i k rows" and "find_row (\<lambda>x. i x = i r) rows = None"
    and "find_row (\<lambda>x. k x = k r) rows = None"
  shows "keyed_table i k (rows @ [r])"
  using assms by (fastforce simp: keyed_table_def find_row_None)

lemma keyed_table_update:
  assumes "keyed_table i k rows" and "\<And>r. p r \<Longrightarrow> i (f r) = i r" and "\<And>r. p r \<Longrightarrow> k (f r) = k r"
  shows "keyed_table i k (update_rows p f rows)"
  using assms by (simp add: keyed_table_def map_update_rows)

lemma keyed_table_find: "keyed_table i k rows \<Longrightarrow> r \<in> set rows \<Longrightarrow> find_row (\<lambda>x. i x = i r) rows = Some r"
  by (simp add: keyed_table_def find_row_key)

lemma keyed_table_find_key:
  "keyed_table i k rows \<Longrightarrow> r \<in> set rows \<Longrightarrow> find_row (\<lambda>x. k x = k r) rows = Some r"
  by (simp add: keyed_table_def find_row_key)

lemma seq_table_append:
  "seq_table sq c rows \<Longrightarrow> sq r = c + 1 \<Longrightarrow> seq_table sq (c + 1) (rows @ [r])"
  by (fastforce simp: seq_table_def sorted_wrt_append)

lemma seq_table_update:
  assumes "seq_table sq c rows" and "\<And>r. p r \<Longrightarrow> sq (f r) = sq r"
  shows "seq_table sq c (update_rows p f rows)"
proof -
  have m: "map sq (update_rows p f rows) = map sq rows" using assms(2) by (rule map_update_rows)
  have char: "seq_table sq c rows' \<longleftrightarrow>
      sorted_wrt (<) (map sq rows') \<and> (\<forall>x \<in> set (map sq rows'). 0 < x \<and> x \<le> c) \<and> 0 \<le> c" for rows'
    by (simp add: seq_table_def sorted_wrt_map)
  show ?thesis using assms(1) unfolding char m .
qed

lemma seq_table_sorted: "seq_table sq c rows \<Longrightarrow> sorted_wrt (\<lambda>x y. sq x < sq y) rows"
  by (simp add: seq_table_def)

text \<open>Every row of one table has a successor in a later one.\<close>

definition rows_le :: "('r \<Rightarrow> 'r \<Rightarrow> bool) \<Rightarrow> 'r list \<Rightarrow> 'r list \<Rightarrow> bool" where
  "rows_le le xs ys \<longleftrightarrow> (\<forall>x \<in> set xs. \<exists>y \<in> set ys. le x y)"

lemma rows_le_refl: "(\<And>x. le x x) \<Longrightarrow> set xs \<subseteq> set ys \<Longrightarrow> rows_le le xs ys"
  unfolding rows_le_def by blast

lemma rows_le_trans:
  "(\<And>x y z. le x y \<Longrightarrow> le y z \<Longrightarrow> le x z) \<Longrightarrow> rows_le le xs ys \<Longrightarrow> rows_le le ys zs \<Longrightarrow> rows_le le xs zs"
  unfolding rows_le_def by meson

lemma rows_le_update:
  assumes "\<And>r. le r r" and "\<And>r. r \<in> set rows \<Longrightarrow> p r \<Longrightarrow> le r (f r)"
  shows "rows_le le rows (update_rows p f rows)"
  unfolding rows_le_def set_update_rows
proof (intro ballI)
  fix r assume r: "r \<in> set rows"
  then have "le r (if p r then f r else r)" using assms by simp
  with r show "\<exists>y \<in> (\<lambda>r. if p r then f r else r) ` set rows. le r y" by blast
qed

lemma map_filter_update:
  assumes "\<And>x. P x \<Longrightarrow> h (f x) = h x" and "\<And>x. P x \<Longrightarrow> k (f x) = k x"
  shows "map k (filter (\<lambda>x. h x = g) (update_rows P f xs)) = map k (filter (\<lambda>x. h x = g) xs)"
  using assms by (induction xs) auto

end
