(* ===== verification/Core_Ids.thy ===== *)
theory Core_Ids
  imports Prelude
begin

text \<open>
  Identifiers of \<open>crates/agentpalace-core/src/ids.rs\<close>: the character check every id passes
  (\<open>validate_id\<close>) and the canonical spelling of a wing (\<open>WingId::normalized\<close>). The newtype
  \<open>WingId(String)\<close> is the string it wraps. The reserved wings are those of \<open>diary.rs\<close>.
\<close>

datatype id_error =
  IdEmpty rstr
| IdInvalidCharacter rstr nat

text \<open>\<open>matches!(ch, '_' | '-' | '/' | '.')\<close> and ASCII alphanumerics.\<close>

definition id_char :: "nat \<Rightarrow> bool" where
  "id_char ch \<longleftrightarrow> is_ascii_alphanumeric ch \<or> ch = 95 \<or> ch = 45 \<or> ch = 47 \<or> ch = 46"

definition validate_id :: "rstr \<Rightarrow> rstr \<Rightarrow> id_error + unit" where
  "validate_id kind value =
     (if value = [] then Inl (IdEmpty kind)
      else case find (\<lambda>ch. \<not> id_char ch) value of
             Some ch \<Rightarrow> Inl (IdInvalidCharacter kind ch)
           | None \<Rightarrow> Inr ())"

definition new_id :: "rstr \<Rightarrow> rstr \<Rightarrow> id_error + rstr" where
  "new_id kind value = bindE (validate_id kind value) (\<lambda>_. Inr value)"

definition WING_PREFIX :: rstr where "WING_PREFIX = lit ''wing_''"
definition UNSCOPED_WING :: rstr where "UNSCOPED_WING = lit ''wing_unscoped''"
definition SHARED_AGENT_DIARY_WING :: rstr where "SHARED_AGENT_DIARY_WING = lit ''wing_agents''"

definition canonical_char :: "nat \<Rightarrow> nat" where
  "canonical_char ch =
     (if is_ascii_lower ch \<or> is_ascii_digit ch \<or> ch = 95 \<or> ch = 45 \<or> ch = 47 \<or> ch = 46
      then ch else 95)"

definition wing_normalized :: "rstr \<Rightarrow> id_error + rstr" where
  "wing_normalized value =
     (let canonical = map canonical_char (to_ascii_lowercase (trim value))
      in if canonical = [] then Inl (IdEmpty (lit ''wing''))
         else let prefixed = (if starts_with canonical WING_PREFIX then canonical
                              else WING_PREFIX @ canonical)
              in new_id (lit ''wing'') prefixed)"

section \<open>Lemmas\<close>

lemma validate_id_ok: "validate_id kind s = Inr () \<longleftrightarrow> s \<noteq> [] \<and> (\<forall>ch \<in> set s. id_char ch)"
  by (auto simp: validate_id_def find_None_iff find_Some_iff split: option.splits)

lemma new_id_ok: "new_id kind s = Inr v \<longleftrightarrow> v = s \<and> s \<noteq> [] \<and> (\<forall>ch \<in> set s. id_char ch)"
  by (auto simp: new_id_def bindE_eq_Inr validate_id_ok)

text \<open>The characters of a canonical wing: lower-case letters, digits and the four separators.\<close>

definition wing_char :: "nat \<Rightarrow> bool" where
  "wing_char ch \<longleftrightarrow> is_ascii_lower ch \<or> is_ascii_digit ch \<or> ch = 95 \<or> ch = 45 \<or> ch = 47 \<or> ch = 46"

lemma wing_char_id_char: "wing_char ch \<Longrightarrow> id_char ch"
  by (auto simp: wing_char_def id_char_def is_ascii_alphanumeric_def)

lemma wing_char_canonical [simp]: "wing_char (canonical_char ch)"
  by (simp add: wing_char_def canonical_char_def)

lemma canonical_char_id: "wing_char ch \<Longrightarrow> canonical_char ch = ch"
  by (simp add: wing_char_def canonical_char_def)

lemma wing_char_not_upper: "wing_char ch \<Longrightarrow> \<not> is_ascii_upper ch"
  by (auto simp: wing_char_def is_ascii_upper_def is_ascii_lower_def is_ascii_digit_def)

lemma wing_char_not_whitespace: "wing_char ch \<Longrightarrow> \<not> is_whitespace ch"
  by (auto simp: wing_char_def is_whitespace_def is_ascii_lower_def is_ascii_digit_def)

lemma wing_prefix_chars: "ch \<in> set WING_PREFIX \<Longrightarrow> wing_char ch"
  by (auto simp: WING_PREFIX_def lit_def wing_char_def is_ascii_lower_def)

lemma wing_prefix_not_Nil [simp]: "WING_PREFIX \<noteq> []"
  by (simp add: WING_PREFIX_def lit_def)

lemma wing_normalized_Inr:
  assumes "wing_normalized s = Inr w"
  shows "w \<noteq> []" and "\<forall>ch \<in> set w. wing_char ch" and "starts_with w WING_PREFIX"
  using assms wing_prefix_chars
  by (auto simp: wing_normalized_def Let_def new_id_ok split: if_splits)

lemma to_ascii_lowercase_id:
  "(\<And>ch. ch \<in> set s \<Longrightarrow> \<not> is_ascii_upper ch) \<Longrightarrow> to_ascii_lowercase s = s"
  by (induction s) (auto simp: to_ascii_lowercase_def)

lemma wing_normalized_canonical:
  assumes "w \<noteq> []" and "\<forall>ch \<in> set w. wing_char ch" and "starts_with w WING_PREFIX"
  shows "wing_normalized w = Inr w"
proof -
  have "trim w = w"
    using assms(1,2) by (simp add: trim_fixpoint wing_char_not_whitespace)
  moreover have "to_ascii_lowercase w = w"
    using assms(2) by (intro to_ascii_lowercase_id) (auto dest: wing_char_not_upper)
  moreover have "map canonical_char w = w"
    using assms(2) by (intro map_idI) (auto simp: canonical_char_id)
  ultimately show ?thesis
    using assms by (auto simp: wing_normalized_def Let_def new_id_ok wing_char_id_char)
qed

lemma wing_normalized_fixed: "wing_normalized s = Inr w \<Longrightarrow> wing_normalized w = Inr w"
  by (rule wing_normalized_canonical) (auto dest: wing_normalized_Inr)

lemma wing_normalized_error:
  assumes "wing_normalized s = Inl x"
  shows "x = IdEmpty (lit ''wing'') \<and> trim s = []"
proof -
  let ?c = "map canonical_char (to_ascii_lowercase (trim s))"
  let ?p = "if starts_with ?c WING_PREFIX then ?c else WING_PREFIX @ ?c"
  have "\<forall>ch \<in> set ?p. id_char ch"
    using wing_prefix_chars by (auto intro: wing_char_id_char)
  moreover have "?p \<noteq> []" if "?c \<noteq> []" using that by simp
  ultimately have "?c \<noteq> [] \<Longrightarrow> new_id (lit ''wing'') ?p = Inr ?p"
    by (simp only: new_id_ok) blast
  with assms show ?thesis
    by (auto simp: wing_normalized_def Let_def to_ascii_lowercase_def split: if_splits)
qed

end
