(* ===== verification/Env.thy ===== *)
theory Env
  imports Core_Ids "HOL-Library.Word"
begin

text \<open>
  What the storage code takes from outside the repository. \<open>json\<close> is \<open>serde_json::Value\<close> (an
  object is its key/value list, keys unique); \<open>env\<close> collects the functions of third-party crates
  and the two non-deterministic inputs of a call, the clock and the random identifiers. An instant
  is the number of nanoseconds since the Unix epoch (an \<open>OffsetDateTime\<close> in UTC). A timestamp
  column holds the RFC 3339 text of an instant; the model keeps the instant it denotes and asks
  \<open>env_rfc3339\<close> for the text where the code formats it, which can fail, and where SQL orders by it.
\<close>

datatype json_number = JInt int | JFloat "64 word"

datatype json =
  JNull
| JBool bool
| JNumber json_number
| JString rstr
| JArray "json list"
| JObject "(rstr \<times> json) list"

text \<open>\<open>Value::get\<close> with a string index: the field of an object, nothing for any other value.\<close>

fun json_get :: "json \<Rightarrow> rstr \<Rightarrow> json option" where
  "json_get (JObject fields) k = map_of fields k"
| "json_get _ k = None"

fun json_str :: "json \<Rightarrow> rstr option" where
  "json_str (JString s) = Some s"
| "json_str _ = None"

record env =
  env_now :: int                              \<comment> \<open>\<open>OffsetDateTime::now_utc\<close>\<close>
  env_uuid :: "nat \<Rightarrow> rstr"                    \<comment> \<open>the n-th \<open>Uuid::new_v4().simple()\<close> of the call\<close>
  env_json_len :: "json \<Rightarrow> nat"                \<comment> \<open>\<open>serde_json::to_vec(v).len()\<close>\<close>
  env_blake3_hex :: "rstr \<Rightarrow> rstr"             \<comment> \<open>\<open>blake3::hash(bytes).to_hex()\<close>\<close>
  env_blake3_json :: "json \<Rightarrow> rstr"            \<comment> \<open>the same over the encoded JSON value\<close>
  env_rfc3339 :: "int \<Rightarrow> rstr + rstr"          \<comment> \<open>\<open>format(&Rfc3339)\<close>: the error's text or the text\<close>
  env_year :: "int \<Rightarrow> int"                     \<comment> \<open>\<open>OffsetDateTime::year\<close>\<close>
  env_checked_add :: "int \<Rightarrow> int \<Rightarrow> int option"   \<comment> \<open>\<open>OffsetDateTime::checked_add\<close>\<close>
  env_yield_error :: "json \<Rightarrow> rstr"            \<comment> \<open>the text of serde's error for bad yield details\<close>

end
