(* ===== verification/Rust_Strings.thy ===== *)
theory Rust_Strings
  imports Prelude
begin

text \<open>
  The operations of \<open>str\<close> on delimiters, prefixes and lines. Splitting keeps empty parts, so a text has
  one part more than it has delimiters, and joining the parts gives the text back.
\<close>

definition ends_with :: "rstr \<Rightarrow> rstr \<Rightarrow> bool" where
  "ends_with s t = (length t \<le> length s \<and> drop (length s - length t) s = t)"

definition strip_prefix :: "rstr \<Rightarrow> rstr \<Rightarrow> rstr option" where
  "strip_prefix p s = (if starts_with s p then Some (drop (length p) s) else None)"

definition strip_suffix :: "rstr \<Rightarrow> rstr \<Rightarrow> rstr option" where
  "strip_suffix p s = (if ends_with s p then Some (take (length s - length p) s) else None)"

text \<open>\<open>str::contains\<close> of a text.\<close>

fun contains_str :: "rstr \<Rightarrow> rstr \<Rightarrow> bool" where
  "contains_str [] d = (d = [])"
| "contains_str (c # cs) d = (starts_with (c # cs) d \<or> contains_str cs d)"

definition replace_char :: "nat \<Rightarrow> nat \<Rightarrow> rstr \<Rightarrow> rstr" where
  "replace_char c d s = map (\<lambda>x. if x = c then d else x) s"

fun split_char :: "nat \<Rightarrow> rstr \<Rightarrow> rstr list" where
  "split_char d [] = [[]]"
| "split_char d (c # cs) =
     (if c = d then [] # split_char d cs
      else case split_char d cs of [] \<Rightarrow> [[c]] | p # ps \<Rightarrow> (c # p) # ps)"

fun join_on :: "nat \<Rightarrow> rstr list \<Rightarrow> rstr" where
  "join_on d [] = []"
| "join_on d [p] = p"
| "join_on d (p # q # ps) = p @ d # join_on d (q # ps)"

text \<open>\<open>rsplit_once\<close>: the parts before and after the last delimiter.\<close>

fun rsplit_once :: "nat \<Rightarrow> rstr \<Rightarrow> (rstr \<times> rstr) option" where
  "rsplit_once d [] = None"
| "rsplit_once d (c # cs) =
     (case rsplit_once d cs of
        Some (a, b) \<Rightarrow> Some (c # a, b)
      | None \<Rightarrow> if c = d then Some ([], cs) else None)"

text \<open>\<open>str::lines\<close>: a line ends at a newline, a carriage return before it goes with it, and the text
  after the last newline is a line when there is any.\<close>

definition strip_cr :: "rstr \<Rightarrow> rstr" where
  "strip_cr l = (case strip_suffix [13] l of Some l' \<Rightarrow> l' | None \<Rightarrow> l)"

definition str_lines :: "rstr \<Rightarrow> rstr list" where
  "str_lines s =
     (let ps = split_char 10 s in
      map strip_cr (butlast ps) @ (if last ps = [] then [] else [last ps]))"

section \<open>Splitting and joining\<close>

lemma split_char_not_Nil [simp]: "split_char d s \<noteq> []"
  by (induction s) (auto split: list.splits)

lemma join_on_Cons: "ps \<noteq> [] \<Longrightarrow> join_on d (p # ps) = p @ d # join_on d ps"
  by (cases ps) simp_all

lemma join_on_cons_char: "join_on d ((c # p) # ps) = c # join_on d (p # ps)"
  by (cases ps) simp_all

lemma join_split [simp]: "join_on d (split_char d s) = s"
  by (induction s) (auto simp: join_on_Cons join_on_cons_char split: list.splits)

lemma split_char_parts: "p \<in> set (split_char d s) \<Longrightarrow> d \<notin> set p"
  by (induction s arbitrary: p) (auto split: list.splits if_splits)

lemma split_char_plain: "d \<notin> set p \<Longrightarrow> split_char d p = [p]"
  by (induction p) auto

lemma split_char_append: "d \<notin> set p \<Longrightarrow> split_char d (p @ d # s) = p # split_char d s"
  by (induction p) auto

lemma split_join: "ps \<noteq> [] \<Longrightarrow> (\<And>p. p \<in> set ps \<Longrightarrow> d \<notin> set p) \<Longrightarrow> split_char d (join_on d ps) = ps"
  by (induction d ps rule: join_on.induct) (simp_all add: split_char_plain split_char_append)

lemma split_char_infix: "split_char d (s @ d # t) = split_char d s @ split_char d t"
  by (induction s) (auto split: list.splits)

lemma rsplit_once_None: "rsplit_once d s = None \<longleftrightarrow> d \<notin> set s"
  by (induction s) (auto split: option.splits)

lemma rsplit_once_Some: "rsplit_once d s = Some (a, b) \<longleftrightarrow> s = a @ d # b \<and> d \<notin> set b"
proof (induction s arbitrary: a)
  case (Cons c s)
  show ?case
  proof (cases "rsplit_once d s")
    case None
    then have "d \<notin> set s" by (simp add: rsplit_once_None)
    then show ?thesis using None by (cases a) auto
  next
    case (Some x)
    then have "d \<in> set s" using rsplit_once_None [of d s] by auto
    with Some Cons.IH show ?thesis by (cases a) (auto split: prod.splits)
  qed
qed simp

lemma rsplit_once_shorter: "rsplit_once d s = Some (a, b) \<Longrightarrow> length a < length s"
  by (simp add: rsplit_once_Some)

lemma strip_prefix_Some: "strip_prefix p s = Some r \<longleftrightarrow> s = p @ r"
  by (auto simp: strip_prefix_def dest: starts_withD)

end
