(* ===== verification/Provenance.thy ===== *)
theory Provenance
  imports Env Rust_Strings
begin

text \<open>
  \<open>crates/agentpalace-core/src/provenance.rs\<close>: the bounded validators of every attribution field,
  owner identities, storage origins, owner-scoped operation keys, the provenance envelope with its
  owner-scope check, the persisted provenance with its bounded history, and the redacted response.
  The validated newtypes (\<open>OwnerId\<close>, \<open>Issuer\<close>, ...) are the strings they wrap, their \<open>new\<close> the
  functions below. Serde's derived and hand-written (de)serialisers are not modelled.
\<close>

definition MAX_OWNER_ID_CHARS :: nat where "MAX_OWNER_ID_CHARS = 128"
definition MAX_ISSUER_CHARS :: nat where "MAX_ISSUER_CHARS = 256"
definition MAX_SUBJECT_CHARS :: nat where "MAX_SUBJECT_CHARS = 256"
definition MAX_EMAIL_CHARS :: nat where "MAX_EMAIL_CHARS = 254"
definition MIN_EMAIL_CHARS :: nat where "MIN_EMAIL_CHARS = 3"
definition MAX_AGENT_NAME_CHARS :: nat where "MAX_AGENT_NAME_CHARS = 128"
definition MAX_SOURCE_AUTHOR_CHARS :: nat where "MAX_SOURCE_AUTHOR_CHARS = 256"
definition MAX_SOURCE_REF_CHARS :: nat where "MAX_SOURCE_REF_CHARS = 2048"
definition MAX_ORIGIN_ID_CHARS :: nat where "MAX_ORIGIN_ID_CHARS = 256"
definition MAX_RECORD_ID_CHARS :: nat where "MAX_RECORD_ID_CHARS = 256"
definition MAX_OPERATION_ID_CHARS :: nat where "MAX_OPERATION_ID_CHARS = 128"
definition MAX_SOURCE_REFS :: nat where "MAX_SOURCE_REFS = 128"
definition MAX_PROVENANCE_HISTORY :: nat where "MAX_PROVENANCE_HISTORY = 128"

datatype provenance_error =
  EmptyField rstr
| ValueTooLong rstr nat nat          \<comment> \<open>field, len, max\<close>
| InvalidCharacter rstr nat
| InvalidEmail rstr
| InvalidRecordingTime rstr
| InvalidStorageOrigin rstr
| InvalidProvenance rstr
| TooManySourceRefs nat nat          \<comment> \<open>count, max\<close>
| TooManyHistoryEntries nat nat
| UnauthenticatedOwnerClaim rstr
| OwnerScopeMismatch rstr rstr       \<comment> \<open>expected, actual\<close>
| ReservedIdentifier rstr rstr       \<comment> \<open>field, value\<close>

text \<open>The \<open>Display\<close> text \<open>thiserror\<close> derives from the \<open>#[error]\<close> attributes.\<close>

fun provenance_error_text :: "provenance_error \<Rightarrow> rstr" where
  "provenance_error_text (EmptyField f) = f @ lit '' cannot be empty''"
| "provenance_error_text (ValueTooLong f len mx) =
     f @ lit '' exceeds maximum length of '' @ show_nat mx @ lit '' bytes (got '' @ show_nat len @ lit '')''"
| "provenance_error_text (InvalidCharacter f ch) =
     f @ lit '' contains invalid character `'' @ [ch] @ lit ''`''"
| "provenance_error_text (InvalidEmail s) = lit ''invalid email address `'' @ s @ lit ''`''"
| "provenance_error_text (InvalidRecordingTime s) =
     lit ''invalid RFC 3339 recording timestamp: '' @ s"
| "provenance_error_text (InvalidStorageOrigin s) = lit ''invalid storage origin: '' @ s"
| "provenance_error_text (InvalidProvenance s) = lit ''invalid provenance: '' @ s"
| "provenance_error_text (TooManySourceRefs count mx) =
     lit ''source references count ('' @ show_nat count @ lit '') exceeds maximum allowed ('' @ show_nat mx @ lit '')''"
| "provenance_error_text (TooManyHistoryEntries count mx) =
     lit ''provenance history count ('' @ show_nat count @ lit '') exceeds maximum allowed ('' @ show_nat mx @ lit '')''"
| "provenance_error_text (UnauthenticatedOwnerClaim s) =
     lit ''authenticated owner cannot be claimed in writable request payloads: '' @ s"
| "provenance_error_text (OwnerScopeMismatch expected actual) =
     lit ''owner scoping mismatch: expected '' @ expected @ lit '', got '' @ actual"
| "provenance_error_text (ReservedIdentifier f v) =
     f @ lit '' `'' @ v @ lit ''` is a reserved sentinel identifier and cannot be used for authenticated owners''"

section \<open>Field validators\<close>

text \<open>The loop \<open>for ch in s.chars() { if bad(ch) { return Err(..) } }\<close> every validator ends with.\<close>

definition check_chars :: "rstr \<Rightarrow> (nat \<Rightarrow> bool) \<Rightarrow> rstr \<Rightarrow> provenance_error + unit" where
  "check_chars field ok s =
     (case find (\<lambda>ch. \<not> ok ch) s of Some ch \<Rightarrow> Inl (InvalidCharacter field ch) | None \<Rightarrow> Inr ())"

text \<open>The shape the validators share: not empty, at most \<open>mx\<close> bytes, every character allowed.\<close>

definition check_text :: "rstr \<Rightarrow> nat \<Rightarrow> (nat \<Rightarrow> bool) \<Rightarrow> rstr \<Rightarrow> provenance_error + unit" where
  "check_text field mx ok s =
     (if s = [] then Inl (EmptyField field)
      else if str_len s > mx then Inl (ValueTooLong field (str_len s) mx)
      else check_chars field ok s)"

definition reserved_owner_ids :: "rstr list" where
  "reserved_owner_ids = [lit ''legacy'', lit ''unknown'', lit ''none'', lit ''null'']"

definition owner_id_char :: "nat \<Rightarrow> bool" where
  "owner_id_char ch \<longleftrightarrow> is_ascii_alphanumeric ch \<or> ch = 95 \<or> ch = 45 \<or> ch = 46"

definition validate_owner_id :: "rstr \<Rightarrow> provenance_error + unit" where
  "validate_owner_id s =
     (let field = lit ''owner_id'' in
      if s = [] then Inl (EmptyField field)
      else if str_len s > MAX_OWNER_ID_CHARS
      then Inl (ValueTooLong field (str_len s) MAX_OWNER_ID_CHARS)
      else if to_ascii_lowercase s \<in> set reserved_owner_ids then Inl (ReservedIdentifier field s)
      else check_chars field owner_id_char s)"

definition validate_issuer :: "rstr \<Rightarrow> provenance_error + unit" where
  "validate_issuer s = check_text (lit ''issuer'') MAX_ISSUER_CHARS is_ascii_graphic s"

definition validate_subject :: "rstr \<Rightarrow> provenance_error + unit" where
  "validate_subject s = check_text (lit ''subject'') MAX_SUBJECT_CHARS is_ascii_graphic s"

definition agent_name_char :: "nat \<Rightarrow> bool" where
  "agent_name_char ch \<longleftrightarrow>
     is_ascii_alphanumeric ch \<or> ch = 95 \<or> ch = 45 \<or> ch = 46 \<or> ch = 47 \<or> ch = 58"

definition validate_agent_name :: "rstr \<Rightarrow> provenance_error + unit" where
  "validate_agent_name s = check_text (lit ''agent_name'') MAX_AGENT_NAME_CHARS agent_name_char s"

definition validate_source_author :: "rstr \<Rightarrow> provenance_error + unit" where
  "validate_source_author s =
     check_text (lit ''source_author'') MAX_SOURCE_AUTHOR_CHARS (\<lambda>ch. \<not> is_ascii_control ch) s"

definition validate_source_reference :: "rstr \<Rightarrow> provenance_error + unit" where
  "validate_source_reference s =
     check_text (lit ''source_reference'') MAX_SOURCE_REF_CHARS (\<lambda>ch. \<not> is_ascii_control ch) s"

definition validate_origin_id :: "rstr \<Rightarrow> provenance_error + unit" where
  "validate_origin_id s = check_text (lit ''origin_id'') MAX_ORIGIN_ID_CHARS is_ascii_graphic s"

definition validate_record_id :: "rstr \<Rightarrow> provenance_error + unit" where
  "validate_record_id s =
     check_text (lit ''original_record_id'') MAX_RECORD_ID_CHARS (\<lambda>ch. \<not> is_ascii_control ch) s"

definition validate_email :: "rstr \<Rightarrow> provenance_error + unit" where
  "validate_email s =
     (let field = lit ''email_at_write''; trimmed = trim s in
      if trimmed = [] then Inl (EmptyField field)
      else if str_len trimmed < MIN_EMAIL_CHARS
      then Inl (InvalidEmail (lit ''email too short: `'' @ trimmed @ lit ''`''))
      else if str_len trimmed > MAX_EMAIL_CHARS
      then Inl (ValueTooLong field (str_len trimmed) MAX_EMAIL_CHARS)
      else bindE (check_chars field (\<lambda>ch. \<not> (is_ascii_whitespace ch \<or> is_ascii_control ch)) trimmed)
        (\<lambda>_. case split_char 64 trimmed of
               [l, d] \<Rightarrow>
                 if l \<noteq> [] \<and> d \<noteq> [] \<and> hd d \<noteq> 46 \<and> last d \<noteq> 46 then Inr ()
                 else Inl (InvalidEmail trimmed)
             | _ \<Rightarrow> Inl (InvalidEmail trimmed)))"

definition new_owner_id :: "rstr \<Rightarrow> provenance_error + rstr" where
  "new_owner_id s = bindE (validate_owner_id s) (\<lambda>_. Inr s)"

definition new_issuer :: "rstr \<Rightarrow> provenance_error + rstr" where
  "new_issuer s = bindE (validate_issuer s) (\<lambda>_. Inr s)"

definition new_subject :: "rstr \<Rightarrow> provenance_error + rstr" where
  "new_subject s = bindE (validate_subject s) (\<lambda>_. Inr s)"

definition new_email_at_write :: "rstr \<Rightarrow> provenance_error + rstr" where
  "new_email_at_write s = bindE (validate_email s) (\<lambda>_. Inr (trim s))"

definition new_agent_name :: "rstr \<Rightarrow> provenance_error + rstr" where
  "new_agent_name s = bindE (validate_agent_name s) (\<lambda>_. Inr s)"

definition new_source_author :: "rstr \<Rightarrow> provenance_error + rstr" where
  "new_source_author s = (let trimmed = trim s in bindE (validate_source_author trimmed) (\<lambda>_. Inr trimmed))"

definition new_source_reference :: "rstr \<Rightarrow> provenance_error + rstr" where
  "new_source_reference s =
     (let trimmed = trim s in bindE (validate_source_reference trimmed) (\<lambda>_. Inr trimmed))"

section \<open>Owners, agents and origins\<close>

record authenticated_owner =
  ao_id :: rstr
  ao_issuer :: rstr
  ao_subject :: rstr
  ao_email :: rstr

definition parse_authenticated_owner ::
  "rstr \<Rightarrow> rstr \<Rightarrow> rstr \<Rightarrow> rstr \<Rightarrow> provenance_error + authenticated_owner" where
  "parse_authenticated_owner oid issuer subject email =
     bindE (new_owner_id oid) (\<lambda>i.
     bindE (new_issuer issuer) (\<lambda>iss.
     bindE (new_subject subject) (\<lambda>sub.
     bindE (new_email_at_write email) (\<lambda>em.
       Inr \<lparr>ao_id = i, ao_issuer = iss, ao_subject = sub, ao_email = em\<rparr>))))"

definition validate_authenticated_owner :: "authenticated_owner \<Rightarrow> provenance_error + unit" where
  "validate_authenticated_owner o' =
     bindE (validate_owner_id (ao_id o')) (\<lambda>_.
     bindE (validate_issuer (ao_issuer o')) (\<lambda>_.
     bindE (validate_subject (ao_subject o')) (\<lambda>_.
     bindE (validate_email (ao_email o')) (\<lambda>_. Inr ()))))"

datatype owner_identity = OwnerUnknown | OwnerAuthenticated authenticated_owner

fun owner_identity_id :: "owner_identity \<Rightarrow> rstr option" where
  "owner_identity_id (OwnerAuthenticated o') = Some (ao_id o')"
| "owner_identity_id OwnerUnknown = None"

fun validate_owner_identity :: "owner_identity \<Rightarrow> provenance_error + unit" where
  "validate_owner_identity OwnerUnknown = Inr ()"
| "validate_owner_identity (OwnerAuthenticated o') = validate_authenticated_owner o'"

text \<open>\<open>AgentAttribution\<close>: the assurance has the single value \<open>CallerAsserted\<close>.\<close>

datatype agent_assurance = CallerAsserted

record agent_attribution =
  aa_name :: rstr
  aa_assurance :: agent_assurance

definition validate_agent :: "agent_attribution \<Rightarrow> provenance_error + unit" where
  "validate_agent a = validate_agent_name (aa_name a)"

definition caller_asserted :: "rstr \<Rightarrow> provenance_error + agent_attribution" where
  "caller_asserted name =
     bindE (new_agent_name name) (\<lambda>n. Inr \<lparr>aa_name = n, aa_assurance = CallerAsserted\<rparr>)"

datatype storage_origin = LocalOrigin rstr | FederatedOrigin rstr "rstr option"

definition new_local_origin :: "rstr \<Rightarrow> provenance_error + storage_origin" where
  "new_local_origin oid = bindE (validate_origin_id oid) (\<lambda>_. Inr (LocalOrigin oid))"

text \<open>\<open>if let Some(x) = opt { check(x)? }\<close>.\<close>

definition validate_opt :: "('a \<Rightarrow> provenance_error + unit) \<Rightarrow> 'a option \<Rightarrow> provenance_error + unit" where
  "validate_opt f x = (case x of None \<Rightarrow> Inr () | Some v \<Rightarrow> f v)"

definition new_federated_origin :: "rstr \<Rightarrow> rstr option \<Rightarrow> provenance_error + storage_origin" where
  "new_federated_origin oid rec =
     bindE (validate_origin_id oid) (\<lambda>_.
     bindE (validate_opt validate_record_id rec) (\<lambda>_. Inr (FederatedOrigin oid rec)))"

fun validate_storage_origin :: "storage_origin \<Rightarrow> provenance_error + unit" where
  "validate_storage_origin (LocalOrigin oid) = validate_origin_id oid"
| "validate_storage_origin (FederatedOrigin oid rec) =
     bindE (validate_origin_id oid) (\<lambda>_. validate_opt validate_record_id rec)"

fun is_federated :: "storage_origin \<Rightarrow> bool" where
  "is_federated (LocalOrigin _) = False"
| "is_federated (FederatedOrigin _ _) = True"

fun original_record_id :: "storage_origin \<Rightarrow> rstr option" where
  "original_record_id (LocalOrigin _) = None"
| "original_record_id (FederatedOrigin _ rec) = rec"

text \<open>\<open>RecordingTime\<close>: an instant (already in UTC here) whose year RFC 3339 can express.\<close>

definition validate_recording_time :: "env \<Rightarrow> int \<Rightarrow> provenance_error + int" where
  "validate_recording_time e t =
     (let year = env_year e t in
      if \<not> (0 \<le> year \<and> year \<le> 9999)
      then Inl (InvalidRecordingTime (lit ''UTC recording time year '' @ show_int year @
             lit '' is out of RFC 3339 representable range (0000..=9999)''))
      else bindE (mapE InvalidRecordingTime (env_rfc3339 e t)) (\<lambda>_. Inr t))"

end
