(* ===== verification/Owner_Keys.thy ===== *)
theory Owner_Keys
  imports Provenance
begin

text \<open>
  \<open>OwnerScopedKey\<close> of \<open>provenance.rs\<close>: an idempotency key together with the authenticated owner it
  belongs to (none: a legacy key), its composite text \<open>owner:key\<close> and the parser of that text. The
  receipts table stores such a key as the columns \<open>owner_scope\<close> and \<open>operation_id\<close>.
\<close>

record owner_scoped_key =
  osk_owner :: "rstr option"
  osk_raw :: rstr

definition validate_operation_key :: "rstr \<Rightarrow> provenance_error + unit" where
  "validate_operation_key s = check_chars (lit ''raw_key'') (\<lambda>ch. \<not> is_ascii_control ch) s"

definition new_scoped_key :: "rstr option \<Rightarrow> rstr \<Rightarrow> provenance_error + owner_scoped_key" where
  "new_scoped_key owner raw =
     (let trimmed = trim raw in
      if trimmed = [] then Inl (EmptyField (lit ''raw_key''))
      else if str_len trimmed > MAX_OPERATION_ID_CHARS
      then Inl (ValueTooLong (lit ''raw_key'') (str_len trimmed) MAX_OPERATION_ID_CHARS)
      else bindE (validate_operation_key trimmed) (\<lambda>_.
           bindE (validate_opt validate_owner_id owner) (\<lambda>_.
             Inr \<lparr>osk_owner = owner, osk_raw = trimmed\<rparr>)))"

definition with_owner_id :: "owner_scoped_key \<Rightarrow> rstr option \<Rightarrow> provenance_error + owner_scoped_key" where
  "with_owner_id key owner = new_scoped_key owner (osk_raw key)"

definition validate_scoped_key :: "owner_scoped_key \<Rightarrow> provenance_error + unit" where
  "validate_scoped_key key =
     (let trimmed = trim (osk_raw key) in
      if trimmed = [] then Inl (EmptyField (lit ''raw_key''))
      else if str_len trimmed > MAX_OPERATION_ID_CHARS
      then Inl (ValueTooLong (lit ''raw_key'') (str_len trimmed) MAX_OPERATION_ID_CHARS)
      else if osk_raw key \<noteq> trimmed then Inl (InvalidCharacter (lit ''raw_key'') 32)
      else bindE (validate_operation_key trimmed) (\<lambda>_.
             validate_opt validate_owner_id (osk_owner key)))"

definition composite_key :: "owner_scoped_key \<Rightarrow> rstr" where
  "composite_key key =
     (case osk_owner key of
        Some owner \<Rightarrow> owner @ lit '':'' @ osk_raw key
      | None \<Rightarrow> lit ''legacy:'' @ osk_raw key)"

definition parse_scoped_key :: "rstr \<Rightarrow> provenance_error + owner_scoped_key" where
  "parse_scoped_key s =
     (let trimmed = trim s in
      if trimmed = [] then Inl (EmptyField (lit ''raw_key''))
      else case split_once 58 trimmed of
             Some (prefix, rest) \<Rightarrow>
               (let prefix_lower = to_ascii_lowercase prefix in
                if prefix_lower = lit ''legacy'' \<or> prefix_lower = lit ''unknown''
                then new_scoped_key None rest
                else bindE (new_owner_id prefix) (\<lambda>owner. new_scoped_key (Some owner) rest))
           | None \<Rightarrow> new_scoped_key None trimmed)"

section \<open>Lemmas\<close>

lemma check_chars_ok: "check_chars f ok s = Inr () \<longleftrightarrow> (\<forall>ch \<in> set s. ok ch)"
  by (auto simp: check_chars_def find_None_iff find_Some_iff split: option.splits)

lemma check_text_ok:
  "check_text f mx ok s = Inr () \<longleftrightarrow> s \<noteq> [] \<and> str_len s \<le> mx \<and> (\<forall>ch \<in> set s. ok ch)"
  by (auto simp: check_text_def check_chars_ok)

lemma validate_owner_id_ok:
  "validate_owner_id s = Inr () \<longleftrightarrow>
     s \<noteq> [] \<and> str_len s \<le> MAX_OWNER_ID_CHARS \<and>
     to_ascii_lowercase s \<notin> set reserved_owner_ids \<and> (\<forall>ch \<in> set s. owner_id_char ch)"
  by (auto simp: validate_owner_id_def Let_def check_chars_ok)

lemma validate_opt_ok: "validate_opt f x = Inr () \<longleftrightarrow> (\<forall>v. x = Some v \<longrightarrow> f v = Inr ())"
  by (cases x) (simp_all add: validate_opt_def)

text \<open>A valid key: a trimmed, non-empty, bounded raw part and a valid owner.\<close>

definition wf_scoped_key :: "owner_scoped_key \<Rightarrow> bool" where
  "wf_scoped_key key \<longleftrightarrow>
     osk_raw key \<noteq> [] \<and> trim (osk_raw key) = osk_raw key \<and>
     str_len (osk_raw key) \<le> MAX_OPERATION_ID_CHARS \<and>
     (\<forall>ch \<in> set (osk_raw key). \<not> is_ascii_control ch) \<and>
     (\<forall>owner. osk_owner key = Some owner \<longrightarrow> validate_owner_id owner = Inr ())"

lemma validate_scoped_key_ok: "validate_scoped_key key = Inr () \<longleftrightarrow> wf_scoped_key key"
  by (auto simp: validate_scoped_key_def wf_scoped_key_def Let_def bindE_eq_Inr
      validate_operation_key_def check_chars_ok validate_opt_ok)

lemma new_scoped_key_ok:
  "new_scoped_key owner raw = Inr key \<longleftrightarrow>
     key = \<lparr>osk_owner = owner, osk_raw = trim raw\<rparr> \<and> wf_scoped_key key"
  by (auto simp: new_scoped_key_def wf_scoped_key_def Let_def bindE_eq_Inr
      validate_operation_key_def check_chars_ok validate_opt_ok)

lemma owner_id_char_facts:
  assumes "validate_owner_id s = Inr ()" and "ch \<in> set s"
  shows "ch \<noteq> 58" and "\<not> is_whitespace ch"
proof -
  have "owner_id_char ch" using assms by (simp add: validate_owner_id_ok)
  then show "ch \<noteq> 58" and "\<not> is_whitespace ch"
    by (auto simp: owner_id_char_def is_ascii_alphanumeric_def is_ascii_lower_def
        is_ascii_upper_def is_ascii_digit_def is_whitespace_def)
qed

lemma lit_colon: "lit '':'' = [58]"
  by (simp add: lit_def)

lemma lit_legacy_colon: "lit ''legacy:'' = lit ''legacy'' @ [58]"
  by (simp add: lit_def)

lemma reserved_lower: "to_ascii_lowercase (lit ''legacy'') = lit ''legacy''"
  by code_simp

lemma legacy_no_colon: "58 \<notin> set (lit ''legacy'')"
  by (simp add: lit_def)

text \<open>The prefix of a composite key and its two parts.\<close>

definition key_scope :: "owner_scoped_key \<Rightarrow> rstr" where
  "key_scope key = (case osk_owner key of Some owner \<Rightarrow> owner | None \<Rightarrow> lit ''legacy'')"

lemma composite_key_scope: "composite_key key = key_scope key @ 58 # osk_raw key"
  by (simp add: composite_key_def key_scope_def lit_colon lit_legacy_colon split: option.splits)

lemma key_scope_no_colon: "wf_scoped_key key \<Longrightarrow> 58 \<notin> set (key_scope key)"
  using owner_id_char_facts(1)
  by (auto simp: key_scope_def wf_scoped_key_def legacy_no_colon split: option.splits)

lemma key_scope_hd:
  assumes "wf_scoped_key key"
  shows "key_scope key \<noteq> [] \<and> \<not> is_whitespace (hd (key_scope key))"
proof (cases "osk_owner key")
  case None
  then show ?thesis by (simp add: key_scope_def lit_def is_whitespace_def)
next
  case (Some owner)
  with assms have "validate_owner_id owner = Inr ()" by (simp add: wf_scoped_key_def)
  moreover from this have "owner \<noteq> []" by (simp add: validate_owner_id_ok)
  ultimately show ?thesis using Some owner_id_char_facts(2) [of owner "hd owner"]
    by (simp add: key_scope_def)
qed

lemma trim_composite_key:
  assumes "wf_scoped_key key"
  shows "trim (composite_key key) = composite_key key"
proof -
  have raw: "osk_raw key \<noteq> []" "trim (osk_raw key) = osk_raw key"
    using assms by (simp_all add: wf_scoped_key_def)
  then have "\<not> is_whitespace (last (osk_raw key))"
    using trim_fixpoint [of "osk_raw key"] by simp
  with raw(1) key_scope_hd [OF assms] show ?thesis
    by (simp add: trim_fixpoint composite_key_scope)
qed

text \<open>The owner scope column never confuses an owner with the legacy scope.\<close>

lemma key_scope_inject:
  assumes "wf_scoped_key k1" and "wf_scoped_key k2" and "key_scope k1 = key_scope k2"
  shows "osk_owner k1 = osk_owner k2"
proof -
  have "validate_owner_id (lit ''legacy'') \<noteq> Inr ()"
    by (simp add: validate_owner_id_ok reserved_lower reserved_owner_ids_def)
  with assms show ?thesis
    by (auto simp: key_scope_def wf_scoped_key_def split: option.splits)
qed

lemma owner_scoped_key_eqI:
  "osk_owner k1 = osk_owner k2 \<Longrightarrow> osk_raw k1 = osk_raw k2 \<Longrightarrow> k1 = (k2 :: owner_scoped_key)"
  by simp

lemma append_sep_inject:
  "d \<notin> set a \<Longrightarrow> d \<notin> set b \<Longrightarrow> a @ d # r = b @ d # s \<longleftrightarrow> a = b \<and> r = s"
proof (induction a arbitrary: b)
  case Nil
  then show ?case by (cases b) auto
next
  case (Cons x xs)
  then show ?case by (cases b) auto
qed

lemma parse_composite:
  assumes wf: "wf_scoped_key key"
  shows "parse_scoped_key (composite_key key) = Inr key"
proof -
  have ne: "composite_key key \<noteq> []" by (simp add: composite_key_scope)
  have sp: "split_once 58 (composite_key key) = Some (key_scope key, osk_raw key)"
    using key_scope_no_colon [OF wf] by (simp add: composite_key_scope)
  have raw: "trim (osk_raw key) = osk_raw key" using wf by (simp add: wf_scoped_key_def)
  show ?thesis
  proof (cases "osk_owner key")
    case None
    then have "key_scope key = lit ''legacy''" by (simp add: key_scope_def)
    with None ne sp raw wf show ?thesis
      by (simp add: parse_scoped_key_def trim_composite_key Let_def reserved_lower new_scoped_key_ok)
  next
    case (Some owner)
    then have sc: "key_scope key = owner" by (simp add: key_scope_def)
    have v: "validate_owner_id owner = Inr ()" using Some wf by (simp add: wf_scoped_key_def)
    then have "to_ascii_lowercase owner \<noteq> lit ''legacy''" "to_ascii_lowercase owner \<noteq> lit ''unknown''"
      by (auto simp: validate_owner_id_ok reserved_owner_ids_def)
    with Some sc v ne sp raw wf show ?thesis
      by (simp add: parse_scoped_key_def trim_composite_key Let_def new_owner_id_def new_scoped_key_ok)
  qed
qed

end
