(* ===== verification/Provenance_Records.thy ===== *)
theory Provenance_Records
  imports Owner_Keys
begin

text \<open>
  The composite attribution records of \<open>provenance.rs\<close>: the envelope of a mutation
  (\<open>ProvenanceEnvelope\<close>) with its builders and owner-scope check, the durable
  \<open>PersistedProvenance\<close> with its bounded, append-only history, and the redacted
  \<open>ProvenanceResponse\<close> an ordinary reader receives.
\<close>

section \<open>The envelope\<close>

record provenance_envelope =
  pe_owner :: owner_identity
  pe_actor :: "agent_attribution option"
  pe_recorded_at :: int
  pe_origin :: storage_origin
  pe_operation_id :: "owner_scoped_key option"
  pe_source_author :: "rstr option"
  pe_source_refs :: "rstr list"

definition new_envelope :: "owner_identity \<Rightarrow> int \<Rightarrow> storage_origin \<Rightarrow> provenance_envelope" where
  "new_envelope owner recorded_at origin =
     \<lparr>pe_owner = owner, pe_actor = None, pe_recorded_at = recorded_at, pe_origin = origin,
      pe_operation_id = None, pe_source_author = None, pe_source_refs = []\<rparr>"

definition with_actor :: "provenance_envelope \<Rightarrow> agent_attribution \<Rightarrow> provenance_envelope" where
  "with_actor env actor = env\<lparr>pe_actor := Some actor\<rparr>"

definition with_operation_id ::
  "provenance_envelope \<Rightarrow> rstr \<Rightarrow> provenance_error + provenance_envelope" where
  "with_operation_id env raw =
     bindE (new_scoped_key (owner_identity_id (pe_owner env)) raw) (\<lambda>key.
       Inr (env\<lparr>pe_operation_id := Some key\<rparr>))"

definition check_owner_scope :: "provenance_envelope \<Rightarrow> owner_scoped_key \<Rightarrow> provenance_error + unit" where
  "check_owner_scope env key =
     (case (pe_owner env, osk_owner key) of
        (OwnerAuthenticated owner, Some op_owner) \<Rightarrow>
          if ao_id owner \<noteq> op_owner then Inl (OwnerScopeMismatch (ao_id owner) op_owner) else Inr ()
      | (OwnerAuthenticated owner, None) \<Rightarrow>
          Inl (OwnerScopeMismatch (ao_id owner) (lit ''unscoped/legacy''))
      | (OwnerUnknown, Some op_owner) \<Rightarrow> Inl (OwnerScopeMismatch (lit ''unknown'') op_owner)
      | (OwnerUnknown, None) \<Rightarrow> Inr ())"

definition with_operation_key ::
  "provenance_envelope \<Rightarrow> owner_scoped_key \<Rightarrow> provenance_error + provenance_envelope" where
  "with_operation_key env key =
     bindE (validate_scoped_key key) (\<lambda>_.
     bindE (check_owner_scope env key) (\<lambda>_. Inr (env\<lparr>pe_operation_id := Some key\<rparr>)))"

definition with_source_author :: "provenance_envelope \<Rightarrow> rstr \<Rightarrow> provenance_envelope" where
  "with_source_author env author = env\<lparr>pe_source_author := Some author\<rparr>"

text \<open>\<open>for r in &refs { r.validate()? }\<close>.\<close>

fun validate_all :: "('a \<Rightarrow> provenance_error + unit) \<Rightarrow> 'a list \<Rightarrow> provenance_error + unit" where
  "validate_all f [] = Inr ()"
| "validate_all f (x # xs) = bindE (f x) (\<lambda>_. validate_all f xs)"

definition with_source_refs ::
  "provenance_envelope \<Rightarrow> rstr list \<Rightarrow> provenance_error + provenance_envelope" where
  "with_source_refs env refs =
     (if length refs > MAX_SOURCE_REFS then Inl (TooManySourceRefs (length refs) MAX_SOURCE_REFS)
      else bindE (validate_all validate_source_reference refs) (\<lambda>_.
             Inr (env\<lparr>pe_source_refs := refs\<rparr>)))"

definition validate_envelope :: "env \<Rightarrow> provenance_envelope \<Rightarrow> provenance_error + unit" where
  "validate_envelope e env =
     bindE (validate_owner_identity (pe_owner env)) (\<lambda>_.
     bindE (validate_opt validate_agent (pe_actor env)) (\<lambda>_.
     bindE (validate_recording_time e (pe_recorded_at env)) (\<lambda>_.
     bindE (validate_storage_origin (pe_origin env)) (\<lambda>_.
     if length (pe_source_refs env) > MAX_SOURCE_REFS
     then Inl (TooManySourceRefs (length (pe_source_refs env)) MAX_SOURCE_REFS)
     else bindE (validate_all validate_source_reference (pe_source_refs env)) (\<lambda>_.
          bindE (validate_opt validate_source_author (pe_source_author env)) (\<lambda>_.
          case pe_operation_id env of
            None \<Rightarrow> Inr ()
          | Some key \<Rightarrow> bindE (validate_scoped_key key) (\<lambda>_. check_owner_scope env key)))))))"

definition reject_payload_owner_claim :: "'a option \<Rightarrow> provenance_error + unit" where
  "reject_payload_owner_claim claimed =
     (if claimed \<noteq> None
      then Inl (UnauthenticatedOwnerClaim (lit ''owner identity must be established via authenticated token context, not request payload''))
      else Inr ())"

section \<open>Persisted provenance\<close>

datatype provenance_action = Created | Modified | AdditionalSubmission | Deleted | Invalidated

text \<open>\<open>{:?}\<close> of an action: the name of the variant.\<close>

fun show_action :: "provenance_action \<Rightarrow> rstr" where
  "show_action Created = lit ''Created''"
| "show_action Modified = lit ''Modified''"
| "show_action AdditionalSubmission = lit ''AdditionalSubmission''"
| "show_action Deleted = lit ''Deleted''"
| "show_action Invalidated = lit ''Invalidated''"

record history_entry =
  he_action :: provenance_action
  he_owner :: owner_identity
  he_agent :: "agent_attribution option"
  he_recorded_at :: int

definition validate_history_entry :: "env \<Rightarrow> history_entry \<Rightarrow> provenance_error + unit" where
  "validate_history_entry e h =
     bindE (validate_owner_identity (he_owner h)) (\<lambda>_.
     bindE (validate_opt validate_agent (he_agent h)) (\<lambda>_.
     bindE (validate_recording_time e (he_recorded_at h)) (\<lambda>_. Inr ())))"

definition require_provenance_action ::
  "history_entry \<Rightarrow> rstr \<Rightarrow> provenance_action \<Rightarrow> provenance_error + unit" where
  "require_provenance_action entry field expected =
     (if he_action entry \<noteq> expected
      then Inl (InvalidProvenance (field @ lit '' must use action '' @ show_action expected @
             lit '', got '' @ show_action (he_action entry)))
      else Inr ())"

record federated_original =
  fo_origin :: storage_origin
  fo_record_id :: "rstr option"
  fo_creator :: owner_identity
  fo_source_author :: "rstr option"
  fo_source_refs :: "rstr list"

definition validate_federated_original :: "federated_original \<Rightarrow> provenance_error + unit" where
  "validate_federated_original fo =
     bindE (validate_storage_origin (fo_origin fo)) (\<lambda>_.
     if \<not> is_federated (fo_origin fo)
     then Inl (InvalidProvenance (lit ''federated_original.origin must be federated''))
     else bindE (validate_opt validate_record_id (fo_record_id fo)) (\<lambda>_.
     if fo_record_id fo \<noteq> original_record_id (fo_origin fo)
     then Inl (InvalidProvenance (lit ''federated_original.record_id must match origin.original_record_id''))
     else bindE (validate_owner_identity (fo_creator fo)) (\<lambda>_.
          bindE (validate_opt validate_source_author (fo_source_author fo)) (\<lambda>_.
          if length (fo_source_refs fo) > MAX_SOURCE_REFS
          then Inl (TooManySourceRefs (length (fo_source_refs fo)) MAX_SOURCE_REFS)
          else validate_all validate_source_reference (fo_source_refs fo)))))"

record persisted_provenance =
  pp_creator :: history_entry
  pp_submitter :: owner_identity
  pp_source_author :: "rstr option"
  pp_source_refs :: "rstr list"
  pp_storage_origin :: storage_origin
  pp_federated_original :: "federated_original option"
  pp_history :: "history_entry list"
  pp_deleted_by :: "history_entry option"
  pp_invalidated_by :: "history_entry option"

definition history_action :: "history_entry \<Rightarrow> provenance_error + unit" where
  "history_action entry =
     (if he_action entry = Modified \<or> he_action entry = AdditionalSubmission then Inr ()
      else Inl (InvalidProvenance
             (lit ''history entries must use action Modified or AdditionalSubmission, got '' @
              show_action (he_action entry))))"

definition validate_persisted :: "env \<Rightarrow> persisted_provenance \<Rightarrow> provenance_error + unit" where
  "validate_persisted e p =
     bindE (validate_history_entry e (pp_creator p)) (\<lambda>_.
     bindE (require_provenance_action (pp_creator p) (lit ''creator'') Created) (\<lambda>_.
     bindE (validate_owner_identity (pp_submitter p)) (\<lambda>_.
     bindE (validate_opt validate_source_author (pp_source_author p)) (\<lambda>_.
     if length (pp_source_refs p) > MAX_SOURCE_REFS
     then Inl (TooManySourceRefs (length (pp_source_refs p)) MAX_SOURCE_REFS)
     else bindE (validate_all validate_source_reference (pp_source_refs p)) (\<lambda>_.
     bindE (validate_storage_origin (pp_storage_origin p)) (\<lambda>_.
     bindE (validate_opt validate_federated_original (pp_federated_original p)) (\<lambda>_.
     if length (pp_history p) > MAX_PROVENANCE_HISTORY
     then Inl (TooManyHistoryEntries (length (pp_history p)) MAX_PROVENANCE_HISTORY)
     else bindE (validate_all (\<lambda>h. bindE (validate_history_entry e h) (\<lambda>_. history_action h))
                  (pp_history p)) (\<lambda>_.
     bindE (validate_opt (\<lambda>h. bindE (validate_history_entry e h) (\<lambda>_.
              require_provenance_action h (lit ''deleted_by'') Deleted)) (pp_deleted_by p)) (\<lambda>_.
     validate_opt (\<lambda>h. bindE (validate_history_entry e h) (\<lambda>_.
              require_provenance_action h (lit ''invalidated_by'') Invalidated))
        (pp_invalidated_by p))))))))))"

text \<open>\<open>PersistedProvenance::new\<close>: the record itself, if it validates.\<close>

definition new_persisted :: "env \<Rightarrow> persisted_provenance \<Rightarrow> provenance_error + persisted_provenance" where
  "new_persisted e p = bindE (validate_persisted e p) (\<lambda>_. Inr p)"

definition append_history ::
  "env \<Rightarrow> persisted_provenance \<Rightarrow> history_entry \<Rightarrow> (provenance_error + unit) \<times> persisted_provenance" where
  "append_history e p entry =
     (if length (pp_history p) \<ge> MAX_PROVENANCE_HISTORY
      then (Inl (TooManyHistoryEntries (length (pp_history p) + 1) MAX_PROVENANCE_HISTORY), p)
      else try_tx p (validate_history_entry e entry) (\<lambda>_.
           try_tx p (history_action entry) (\<lambda>_.
             (Inr (), p\<lparr>pp_history := pp_history p @ [entry]\<rparr>))))"

section \<open>The redacted response\<close>

datatype owner_summary_status = SummaryAuthenticated | SummaryUnknown

record owner_summary =
  os_id :: "rstr option"
  os_email :: "rstr option"
  os_status :: owner_summary_status

fun owner_summary_of :: "owner_identity \<Rightarrow> owner_summary" where
  "owner_summary_of (OwnerAuthenticated owner) =
     \<lparr>os_id = Some (ao_id owner), os_email = Some (ao_email owner), os_status = SummaryAuthenticated\<rparr>"
| "owner_summary_of OwnerUnknown = \<lparr>os_id = None, os_email = None, os_status = SummaryUnknown\<rparr>"

record response_event =
  re_action :: provenance_action
  re_owner :: owner_summary
  re_agent :: "agent_attribution option"
  re_recorded_at :: int

definition response_event_of :: "history_entry \<Rightarrow> response_event" where
  "response_event_of h =
     \<lparr>re_action = he_action h, re_owner = owner_summary_of (he_owner h), re_agent = he_agent h,
      re_recorded_at = he_recorded_at h\<rparr>"

record federated_summary =
  fs_origin :: storage_origin
  fs_record_id :: "rstr option"
  fs_creator :: owner_summary
  fs_source_author :: "rstr option"
  fs_source_refs :: "rstr list"

definition federated_summary_of :: "federated_original \<Rightarrow> federated_summary" where
  "federated_summary_of fo =
     \<lparr>fs_origin = fo_origin fo, fs_record_id = fo_record_id fo,
      fs_creator = owner_summary_of (fo_creator fo), fs_source_author = fo_source_author fo,
      fs_source_refs = fo_source_refs fo\<rparr>"

record provenance_response =
  pr_creator :: owner_summary
  pr_submitter :: owner_summary
  pr_creator_agent :: "agent_attribution option"
  pr_source_author :: "rstr option"
  pr_source_refs :: "rstr list"
  pr_storage_origin :: storage_origin
  pr_federated_original :: "federated_summary option"
  pr_history :: "response_event list"
  pr_deleted_by :: "response_event option"
  pr_invalidated_by :: "response_event option"

definition provenance_response_of :: "persisted_provenance \<Rightarrow> provenance_response" where
  "provenance_response_of p =
     \<lparr>pr_creator = owner_summary_of (he_owner (pp_creator p)),
      pr_submitter = owner_summary_of (pp_submitter p),
      pr_creator_agent = he_agent (pp_creator p),
      pr_source_author = pp_source_author p,
      pr_source_refs = pp_source_refs p,
      pr_storage_origin = pp_storage_origin p,
      pr_federated_original = map_option federated_summary_of (pp_federated_original p),
      pr_history = map response_event_of (pp_history p),
      pr_deleted_by = map_option response_event_of (pp_deleted_by p),
      pr_invalidated_by = map_option response_event_of (pp_invalidated_by p)\<rparr>"

section \<open>Lemmas\<close>

lemma validate_all_ok: "validate_all f xs = Inr () \<longleftrightarrow> (\<forall>x \<in> set xs. f x = Inr ())"
  by (induction xs) (auto simp: bindE_eq_Inr)

lemma check_owner_scope_ok:
  "check_owner_scope env key = Inr () \<longleftrightarrow> osk_owner key = owner_identity_id (pe_owner env)"
  by (auto simp: check_owner_scope_def split: owner_identity.splits option.splits)

lemma history_action_ok:
  "history_action h = Inr () \<longleftrightarrow> he_action h \<in> {Modified, AdditionalSubmission}"
  by (auto simp: history_action_def)

text \<open>What the validator of persisted provenance accepts, as one predicate.\<close>

definition wf_persisted :: "env \<Rightarrow> persisted_provenance \<Rightarrow> bool" where
  "wf_persisted e p \<longleftrightarrow>
     validate_history_entry e (pp_creator p) = Inr () \<and> he_action (pp_creator p) = Created \<and>
     validate_owner_identity (pp_submitter p) = Inr () \<and>
     validate_opt validate_source_author (pp_source_author p) = Inr () \<and>
     length (pp_source_refs p) \<le> MAX_SOURCE_REFS \<and>
     (\<forall>r \<in> set (pp_source_refs p). validate_source_reference r = Inr ()) \<and>
     validate_storage_origin (pp_storage_origin p) = Inr () \<and>
     validate_opt validate_federated_original (pp_federated_original p) = Inr () \<and>
     length (pp_history p) \<le> MAX_PROVENANCE_HISTORY \<and>
     (\<forall>h \<in> set (pp_history p). validate_history_entry e h = Inr () \<and>
        he_action h \<in> {Modified, AdditionalSubmission}) \<and>
     (\<forall>h. pp_deleted_by p = Some h \<longrightarrow> validate_history_entry e h = Inr () \<and> he_action h = Deleted) \<and>
     (\<forall>h. pp_invalidated_by p = Some h \<longrightarrow>
        validate_history_entry e h = Inr () \<and> he_action h = Invalidated)"

lemma require_action_ok: "require_provenance_action h f a = Inr () \<longleftrightarrow> he_action h = a"
  by (simp add: require_provenance_action_def)

lemma validate_persisted_ok: "validate_persisted e p = Inr () \<longleftrightarrow> wf_persisted e p"
  by (auto simp: validate_persisted_def wf_persisted_def bindE_eq_Inr validate_all_ok
      history_action_ok require_action_ok validate_opt_ok not_less split: if_splits)

text \<open>Forgetting the provider's issuer and subject of every owner in a record.\<close>

fun erase_owner :: "owner_identity \<Rightarrow> owner_identity" where
  "erase_owner (OwnerAuthenticated owner) = OwnerAuthenticated (owner\<lparr>ao_issuer := [], ao_subject := []\<rparr>)"
| "erase_owner OwnerUnknown = OwnerUnknown"

definition erase_entry :: "history_entry \<Rightarrow> history_entry" where
  "erase_entry h = h\<lparr>he_owner := erase_owner (he_owner h)\<rparr>"

definition erase_federated :: "federated_original \<Rightarrow> federated_original" where
  "erase_federated fo = fo\<lparr>fo_creator := erase_owner (fo_creator fo)\<rparr>"

definition erase_provider :: "persisted_provenance \<Rightarrow> persisted_provenance" where
  "erase_provider p =
     p\<lparr>pp_creator := erase_entry (pp_creator p),
       pp_submitter := erase_owner (pp_submitter p),
       pp_federated_original := map_option erase_federated (pp_federated_original p),
       pp_history := map erase_entry (pp_history p),
       pp_deleted_by := map_option erase_entry (pp_deleted_by p),
       pp_invalidated_by := map_option erase_entry (pp_invalidated_by p)\<rparr>"

lemma owner_summary_erase [simp]: "owner_summary_of (erase_owner i) = owner_summary_of i"
  by (cases i) simp_all

lemma response_event_erase [simp]: "response_event_of (erase_entry h) = response_event_of h"
  by (simp add: response_event_of_def erase_entry_def)

lemma federated_summary_erase [simp]: "federated_summary_of (erase_federated fo) = federated_summary_of fo"
  by (simp add: federated_summary_of_def erase_federated_def)

lemma response_erase: "provenance_response_of (erase_provider p) = provenance_response_of p"
  by (simp add: provenance_response_of_def erase_provider_def option.map_comp o_def) (simp add: erase_entry_def)

end
