(* ===== verification/Storage_Base.thy ===== *)
theory Storage_Base
  imports Provenance_Records "HOL-Library.List_Lexorder"
begin

text \<open>
  What the SQLite stores of \<open>crates/agentpalace-storage\<close> share: the error type, the outcome of a
  compare-and-swap write (\<open>types.rs\<close>), the validators of the modules' inputs and the rendering of a
  timestamp. SQLite reports a broken UNIQUE or FOREIGN KEY constraint as an error of the statement;
  the transaction is then dropped, which rolls it back.
\<close>

datatype sqlite_error =
  UniqueViolation rstr | ForeignKeyViolation rstr | NotNullViolation rstr | InvalidColumn rstr | NoRow rstr
| CheckViolation rstr

datatype storage_error =
  InvalidId id_error
| ProvenanceErr provenance_error
| Sqlite sqlite_error
| Lance rstr
| MissingRecord rstr rstr
| DuplicateDrawers "rstr list"
| InvalidEmbeddingDimensions rstr nat nat
| Invariant rstr

datatype 'a revisioned_write =
  Applied 'a
| Conflict "int option"

definition MAX_PAYLOAD_BYTES :: nat where "MAX_PAYLOAD_BYTES = 1024 * 1024"
definition MAX_TASK_TEXT_BYTES :: nat where "MAX_TASK_TEXT_BYTES = 1024 * 1024"
definition MAX_KEY_BYTES :: nat where "MAX_KEY_BYTES = 256"

definition validate_actor :: "rstr \<Rightarrow> storage_error + unit" where
  "validate_actor v =
     (if trim v = [] then Inl (Invariant (lit ''actor must not be empty'')) else Inr ())"

definition validate_key :: "rstr \<Rightarrow> storage_error + unit" where
  "validate_key v =
     (if trim v = [] \<or> str_len v > MAX_KEY_BYTES
      then Inl (Invariant (lit ''idempotency key must contain 1..=256 bytes'')) else Inr ())"

definition bounded_json :: "env \<Rightarrow> json \<Rightarrow> storage_error + unit" where
  "bounded_json e v =
     (if env_json_len e v > MAX_PAYLOAD_BYTES then Inl (Invariant (lit ''payload exceeds 1 MiB''))
      else Inr ())"

definition bounded_text :: "rstr \<Rightarrow> rstr \<Rightarrow> storage_error + unit" where
  "bounded_text value name =
     (if str_len value > MAX_TASK_TEXT_BYTES then Inl (Invariant (name @ lit '' exceeds 1 MiB''))
      else Inr ())"

definition format_time :: "env \<Rightarrow> int \<Rightarrow> storage_error + int" where
  "format_time e t = bindE (mapE Invariant (env_rfc3339 e t)) (\<lambda>_. Inr t)"

definition format_time_opt :: "env \<Rightarrow> int option \<Rightarrow> storage_error + int option" where
  "format_time_opt e t =
     (case t of None \<Rightarrow> Inr None | Some v \<Rightarrow> bindE (format_time e v) (\<lambda>x. Inr (Some x)))"

text \<open>\<open>WingId::normalized(..)?\<close>, whose error converts into \<open>StorageError::InvalidId\<close>.\<close>

definition normalize_wing :: "rstr \<Rightarrow> storage_error + rstr" where
  "normalize_wing w = mapE InvalidId (wing_normalized w)"

section \<open>Lemmas\<close>

lemma validate_actor_ok: "validate_actor v = Inr () \<longleftrightarrow> trim v \<noteq> []"
  by (simp add: validate_actor_def)

lemma validate_key_ok: "validate_key v = Inr () \<longleftrightarrow> trim v \<noteq> [] \<and> str_len v \<le> MAX_KEY_BYTES"
  by (auto simp: validate_key_def)

lemma format_time_InrD: "format_time e t = Inr t' \<Longrightarrow> t' = t"
  by (auto simp: format_time_def bindE_eq_Inr)

lemma format_time_opt_InrD: "format_time_opt e t = Inr t' \<Longrightarrow> t' = t"
  by (auto simp: format_time_opt_def bindE_eq_Inr dest: format_time_InrD split: option.splits)

lemma normalize_wing_eq_Inr [simp]: "normalize_wing w = Inr v \<longleftrightarrow> wing_normalized w = Inr v"
  by (simp add: normalize_wing_def)

end
