(* ===== verification/Coordination_Types.thy ===== *)
theory Coordination_Types
  imports Storage_Base
begin

text \<open>
  The data of \<open>crates/agentpalace-storage/src/coordination.rs\<close>: task states and their transition
  table, the records, the five tables with their AUTOINCREMENT counters, and the row accessors the
  operations of the other \<open>Coordination_*\<close> theories are built from.
\<close>

section \<open>Conflict messages\<close>

definition LEASE_HELD_BY_ANOTHER_WORKER :: rstr where
  "LEASE_HELD_BY_ANOTHER_WORKER = lit ''task lease is held by another worker''"
definition TERMINAL_TASK_CANNOT_BE_CLAIMED :: rstr where
  "TERMINAL_TASK_CANNOT_BE_CLAIMED = lit ''terminal task cannot be claimed''"
definition TASK_HAS_EXPIRED :: rstr where
  "TASK_HAS_EXPIRED = lit ''task has expired''"
definition INVALID_TRANSITION_PREFIX :: rstr where
  "INVALID_TRANSITION_PREFIX = lit ''invalid transition ''"
definition ONLY_OWNER_MAY_TRANSITION :: rstr where
  "ONLY_OWNER_MAY_TRANSITION = lit ''only the owner may transition this task''"
definition ONLY_LEASE_OWNER_MAY_RENEW :: rstr where
  "ONLY_LEASE_OWNER_MAY_RENEW = lit ''only the lease owner may renew''"
definition LEASE_HAS_EXPIRED :: rstr where
  "LEASE_HAS_EXPIRED = lit ''lease has expired''"
definition ONLY_RECIPIENT_MAY_ACKNOWLEDGE :: rstr where
  "ONLY_RECIPIENT_MAY_ACKNOWLEDGE = lit ''only the recipient may acknowledge''"
definition LEASE_DURATION_OUT_OF_RANGE :: rstr where
  "LEASE_DURATION_OUT_OF_RANGE = lit ''lease duration is out of range''"
definition NOT_FOUND_SUFFIX :: rstr where
  "NOT_FOUND_SUFFIX = lit '' not found''"
definition EXECUTOR_AFFINITY_CONFLICT :: rstr where
  "EXECUTOR_AFFINITY_CONFLICT = lit ''task checkpoint is assigned to another executor''"

section \<open>Task states\<close>

datatype task_state =
  TPending | TRunning | TInputRequired | TCompleted | TCancelled | TFailed | TExpired

fun task_state_str :: "task_state \<Rightarrow> rstr" where
  "task_state_str TPending = lit ''pending''"
| "task_state_str TRunning = lit ''running''"
| "task_state_str TInputRequired = lit ''input_required''"
| "task_state_str TCompleted = lit ''completed''"
| "task_state_str TCancelled = lit ''cancelled''"
| "task_state_str TFailed = lit ''failed''"
| "task_state_str TExpired = lit ''expired''"

definition parse_task_state :: "rstr \<Rightarrow> storage_error + task_state" where
  "parse_task_state value =
     (if value = lit ''pending'' then Inr TPending
      else if value = lit ''running'' then Inr TRunning
      else if value = lit ''input_required'' then Inr TInputRequired
      else if value = lit ''completed'' then Inr TCompleted
      else if value = lit ''cancelled'' then Inr TCancelled
      else if value = lit ''failed'' then Inr TFailed
      else if value = lit ''expired'' then Inr TExpired
      else Inl (Invariant (lit ''unknown task state `'' @ value @ lit ''`'')))"

fun task_terminal :: "task_state \<Rightarrow> bool" where
  "task_terminal TCompleted = True"
| "task_terminal TCancelled = True"
| "task_terminal TFailed = True"
| "task_terminal TExpired = True"
| "task_terminal _ = False"

definition allowed_transition :: "task_state \<Rightarrow> task_state \<Rightarrow> bool" where
  "allowed_transition src dst \<longleftrightarrow>
     (if task_terminal src then False
      else case src of
        TPending \<Rightarrow> dst \<in> {TCancelled, TExpired}
      | TRunning \<Rightarrow> dst \<in> {TInputRequired, TCompleted, TCancelled, TFailed, TExpired}
      | TInputRequired \<Rightarrow> dst \<in> {TPending, TRunning, TCancelled, TFailed, TExpired}
      | _ \<Rightarrow> False)"

section \<open>Records and tables\<close>

record new_task =
  nt_title :: rstr
  nt_description :: rstr
  nt_created_by :: rstr
  nt_wing :: rstr
  nt_idempotency_key :: rstr
  nt_parent_id :: "rstr option"
  nt_dependencies :: "rstr list"
  nt_budget :: "json option"
  nt_expires_at :: "int option"

record task =
  t_task_id :: rstr
  t_title :: rstr
  t_description :: rstr
  t_state :: task_state
  t_revision :: int
  t_created_by :: rstr
  t_wing :: rstr
  t_owner :: "rstr option"
  t_executor_affinity :: "rstr option"
  t_parent_id :: "rstr option"
  t_dependencies :: "rstr list"
  t_budget :: "json option"
  t_lease_expires_at :: "int option"
  t_expires_at :: "int option"
  t_created_at :: int
  t_updated_at :: int
  t_provenance :: "persisted_provenance option"

text \<open>A row of \<open>coordination_tasks\<close>: the task and the columns a \<open>Task\<close> does not show.\<close>

record task_row =
  tr_task :: task
  tr_key :: rstr
  tr_sequence :: int

record new_message =
  nm_task_id :: rstr
  nm_sender :: rstr
  nm_recipient :: rstr
  nm_kind :: rstr
  nm_payload :: json
  nm_idempotency_key :: rstr
  nm_envelope_version :: int

record message =
  m_message_id :: rstr
  m_sequence :: int
  m_task_id :: rstr
  m_sender :: rstr
  m_recipient :: rstr
  m_kind :: rstr
  m_payload :: json
  m_envelope_version :: int
  m_acknowledged_at :: "int option"
  m_acknowledged_by :: "rstr option"
  m_created_at :: int
  m_provenance :: "persisted_provenance option"

record message_row =
  mr_message :: message
  mr_key :: rstr

record new_artifact =
  na_task_id :: rstr
  na_created_by :: rstr
  na_role :: rstr
  na_media_type :: rstr
  na_content :: rstr
  na_idempotency_key :: rstr

record artifact =
  a_artifact_id :: rstr
  a_task_id :: rstr
  a_created_by :: rstr
  a_role :: rstr
  a_media_type :: rstr
  a_content :: rstr
  a_content_hash :: rstr
  a_created_at :: int
  a_provenance :: "persisted_provenance option"

record artifact_row =
  ar_artifact :: artifact
  ar_key :: rstr

record new_task_result =
  nr_task_id :: rstr
  nr_created_by :: rstr
  nr_payload :: json
  nr_idempotency_key :: rstr

record task_result =
  r_result_id :: rstr
  r_task_id :: rstr
  r_created_by :: rstr
  r_payload :: json
  r_created_at :: int
  r_provenance :: "persisted_provenance option"

record result_row =
  rr_result :: task_result
  rr_key :: rstr

record coordination_event =
  ev_sequence :: int
  ev_event_id :: rstr
  ev_entity_type :: rstr
  ev_entity_id :: rstr
  ev_task_id :: "rstr option"
  ev_wing :: rstr
  ev_event_type :: rstr
  ev_actor :: rstr
  ev_from_state :: "task_state option"
  ev_to_state :: "task_state option"
  ev_revision :: "int option"
  ev_details :: "json option"
  ev_occurred_at :: int

record coord =
  cd_tasks :: "task_row list"
  cd_messages :: "message_row list"
  cd_artifacts :: "artifact_row list"
  cd_results :: "result_row list"
  cd_events :: "coordination_event list"
  cd_task_seq :: int       \<comment> \<open>last AUTOINCREMENT value of \<open>coordination_task_sequences\<close>\<close>
  cd_message_seq :: int
  cd_event_seq :: int

definition coord_init :: coord where
  "coord_init = \<lparr>cd_tasks = [], cd_messages = [], cd_artifacts = [], cd_results = [], cd_events = [],
     cd_task_seq = 0, cd_message_seq = 0, cd_event_seq = 0\<rparr>"

section \<open>Row access\<close>

definition find_task :: "coord \<Rightarrow> rstr \<Rightarrow> task option" where
  "find_task db tid =
     map_option tr_task (find_row (\<lambda>r. t_task_id (tr_task r) = tid) (cd_tasks db))"

definition task_not_found :: "rstr \<Rightarrow> storage_error" where
  "task_not_found tid = Invariant (lit ''task `'' @ tid @ lit ''`'' @ NOT_FOUND_SUFFIX)"

definition require_task :: "coord \<Rightarrow> rstr \<Rightarrow> storage_error + task" where
  "require_task db tid =
     (case find_task db tid of Some t \<Rightarrow> Inr t | None \<Rightarrow> Inl (task_not_found tid))"

definition task_wing :: "coord \<Rightarrow> rstr \<Rightarrow> storage_error + rstr" where
  "task_wing db tid =
     (case find_task db tid of Some t \<Rightarrow> Inr (t_wing t) | None \<Rightarrow> Inl (task_not_found tid))"

definition find_task_by_key :: "coord \<Rightarrow> rstr \<Rightarrow> rstr \<Rightarrow> storage_error + task option" where
  "find_task_by_key db actor key =
     (case find_row (\<lambda>r. t_created_by (tr_task r) = actor \<and> tr_key r = key) (cd_tasks db) of
        None \<Rightarrow> Inr None
      | Some r \<Rightarrow> bindE (require_task db (t_task_id (tr_task r))) (\<lambda>t. Inr (Some t)))"

definition get_message :: "coord \<Rightarrow> rstr \<Rightarrow> message option" where
  "get_message db mid =
     map_option mr_message (find_row (\<lambda>r. m_message_id (mr_message r) = mid) (cd_messages db))"

definition find_message_by_key :: "coord \<Rightarrow> rstr \<Rightarrow> rstr \<Rightarrow> storage_error + message option" where
  "find_message_by_key db actor key =
     (case find_row (\<lambda>r. m_sender (mr_message r) = actor \<and> mr_key r = key) (cd_messages db) of
        None \<Rightarrow> Inr None
      | Some r \<Rightarrow>
          (case get_message db (m_message_id (mr_message r)) of
             Some v \<Rightarrow> Inr (Some v)
           | None \<Rightarrow> Inl (Invariant (lit ''message key points to missing row''))))"

definition get_artifact :: "coord \<Rightarrow> rstr \<Rightarrow> artifact option" where
  "get_artifact db aid =
     map_option ar_artifact (find_row (\<lambda>r. a_artifact_id (ar_artifact r) = aid) (cd_artifacts db))"

definition find_artifact_by_key :: "coord \<Rightarrow> rstr \<Rightarrow> rstr \<Rightarrow> storage_error + artifact option" where
  "find_artifact_by_key db actor key =
     (case find_row (\<lambda>r. a_created_by (ar_artifact r) = actor \<and> ar_key r = key) (cd_artifacts db) of
        None \<Rightarrow> Inr None
      | Some r \<Rightarrow>
          (case get_artifact db (a_artifact_id (ar_artifact r)) of
             Some v \<Rightarrow> Inr (Some v)
           | None \<Rightarrow> Inl (Invariant (lit ''artifact key points to missing row''))))"

definition get_result :: "coord \<Rightarrow> rstr \<Rightarrow> task_result option" where
  "get_result db rid =
     map_option rr_result (find_row (\<lambda>r. r_result_id (rr_result r) = rid) (cd_results db))"

definition find_result_by_key :: "coord \<Rightarrow> rstr \<Rightarrow> rstr \<Rightarrow> storage_error + task_result option" where
  "find_result_by_key db actor key =
     (case find_row (\<lambda>r. r_created_by (rr_result r) = actor \<and> rr_key r = key) (cd_results db) of
        None \<Rightarrow> Inr None
      | Some r \<Rightarrow>
          (case get_result db (r_result_id (rr_result r)) of
             Some v \<Rightarrow> Inr (Some v)
           | None \<Rightarrow> Inl (Invariant (lit ''result key points to missing row''))))"

definition get_event :: "coord \<Rightarrow> rstr \<Rightarrow> coordination_event option" where
  "get_event db eid = find_row (\<lambda>ev. ev_event_id ev = eid) (cd_events db)"

text \<open>\<open>UPDATE coordination_tasks SET .. WHERE task_id=?1\<close> on the columns a task shows.\<close>

definition update_task :: "(task \<Rightarrow> task) \<Rightarrow> rstr \<Rightarrow> coord \<Rightarrow> coord" where
  "update_task f tid db =
     db\<lparr>cd_tasks := update_rows (\<lambda>r. t_task_id (tr_task r) = tid)
          (\<lambda>r. r\<lparr>tr_task := f (tr_task r)\<rparr>) (cd_tasks db)\<rparr>"

text \<open>\<open>append_event\<close>: \<open>n\<close> says which random identifier of the call the event draws.\<close>

definition append_event ::
  "env \<Rightarrow> nat \<Rightarrow> rstr \<Rightarrow> rstr \<Rightarrow> rstr option \<Rightarrow> rstr \<Rightarrow> rstr \<Rightarrow> rstr \<Rightarrow> task_state option \<Rightarrow>
   task_state option \<Rightarrow> int option \<Rightarrow> json option \<Rightarrow> int \<Rightarrow> coord \<Rightarrow> storage_error + coord" where
  "append_event e n entity_type entity_id tid wing event_type actor src dst revision details at db =
     (let eid = lit ''event_'' @ env_uuid e n in
      bindE (format_time e at) (\<lambda>occurred_at.
      if get_event db eid \<noteq> None
      then Inl (Sqlite (UniqueViolation (lit ''coordination_events.event_id'')))
      else Inr (db\<lparr>cd_events := cd_events db @
              [\<lparr>ev_sequence = cd_event_seq db + 1, ev_event_id = eid, ev_entity_type = entity_type,
                ev_entity_id = entity_id, ev_task_id = tid, ev_wing = wing,
                ev_event_type = event_type, ev_actor = actor, ev_from_state = src,
                ev_to_state = dst, ev_revision = revision, ev_details = details,
                ev_occurred_at = occurred_at\<rparr>],
              cd_event_seq := cd_event_seq db + 1\<rparr>)))"

end
