(* ===== verification/Coordination_Tasks.thy ===== *)
theory Coordination_Tasks
  imports Coordination_Types
begin

text \<open>
  The task operations of \<open>CoordinationStore\<close>: \<open>create_task\<close>, \<open>import_task\<close>, \<open>claim_task\<close>,
  \<open>renew_lease\<close> and \<open>transition_task\<close>. Each runs in one immediate transaction, so it is a function
  from the database to a result and the database it commits; \<open>try_tx db\<close> is the \<open>?\<close> of the source,
  which drops the transaction and leaves \<open>db\<close>.
\<close>

section \<open>Creation\<close>

text \<open>\<open>for dependency in &input.dependencies { require_task(&tx, dependency)?; }\<close>\<close>

fun require_all :: "coord \<Rightarrow> rstr list \<Rightarrow> storage_error + unit" where
  "require_all db [] = Inr ()"
| "require_all db (d # ds) = bindE (require_task db d) (\<lambda>_. require_all db ds)"

definition opt_check :: "('a \<Rightarrow> 'e + unit) \<Rightarrow> 'a option \<Rightarrow> 'e + unit" where
  "opt_check f x = (case x of None \<Rightarrow> Inr () | Some v \<Rightarrow> f v)"

text \<open>The INSERT, with the table's constraints and the trigger that assigns the row's sequence.\<close>

definition insert_task :: "task \<Rightarrow> rstr \<Rightarrow> coord \<Rightarrow> storage_error + coord" where
  "insert_task t key db =
     (if find_task db (t_task_id t) \<noteq> None
      then Inl (Sqlite (UniqueViolation (lit ''coordination_tasks.task_id'')))
      else if find_row (\<lambda>r. t_created_by (tr_task r) = t_created_by t \<and> tr_key r = key) (cd_tasks db) \<noteq> None
      then Inl (Sqlite (UniqueViolation (lit ''coordination_tasks.created_by, coordination_tasks.idempotency_key'')))
      else if opt_holds (\<lambda>p. p \<noteq> t_task_id t \<and> find_task db p = None) (t_parent_id t)
      then Inl (Sqlite (ForeignKeyViolation (lit ''coordination_tasks.parent_id'')))
      else Inr (db\<lparr>cd_tasks := cd_tasks db @
                   [\<lparr>tr_task = t, tr_key = key, tr_sequence = cd_task_seq db + 1\<rparr>],
                 cd_task_seq := cd_task_seq db + 1\<rparr>))"

definition create_task_with_state ::
  "env \<Rightarrow> coord \<Rightarrow> new_task \<Rightarrow> task_state \<Rightarrow> bool \<Rightarrow> persisted_provenance option \<Rightarrow>
   (storage_error + task \<times> bool) \<times> coord" where
  "create_task_with_state e db input initial_state is_import provenance =
     try_tx db (validate_key (nt_idempotency_key input)) (\<lambda>_.
     try_tx db (validate_actor (nt_created_by input)) (\<lambda>_.
     try_tx db (bounded_text (nt_title input) (lit ''task title'')) (\<lambda>_.
     try_tx db (bounded_text (nt_description input) (lit ''task description'')) (\<lambda>_.
     try_tx db (opt_check (bounded_json e) (nt_budget input)) (\<lambda>_.
     try_tx db (normalize_wing (nt_wing input)) (\<lambda>wing.
     if wing = UNSCOPED_WING
     then (Inl (Invariant (lit ''`'' @ UNSCOPED_WING @ lit ''` is reserved for tasks migrated from before wings existed; new tasks must specify a real wing'')), db)
     else
     try_tx db (find_task_by_key db (nt_created_by input) (nt_idempotency_key input)) (\<lambda>existing.
     case existing of
       Some t \<Rightarrow> (Inr (t, True), db)
     | None \<Rightarrow>
     try_tx db (require_all db (nt_dependencies input)) (\<lambda>_.
     try_tx db (opt_check (\<lambda>p. bindE (require_task db p) (\<lambda>_. Inr ())) (nt_parent_id input)) (\<lambda>_.
     let now = env_now e; tid = lit ''task_'' @ env_uuid e 0 in
     try_tx db (format_time_opt e (nt_expires_at input)) (\<lambda>expires_at.
     try_tx db (format_time e now) (\<lambda>created_at.
     try_tx db (insert_task
         \<lparr>t_task_id = tid, t_title = nt_title input, t_description = nt_description input,
          t_state = initial_state, t_revision = 0, t_created_by = nt_created_by input,
          t_wing = wing, t_owner = None, t_executor_affinity = None,
          t_parent_id = nt_parent_id input, t_dependencies = nt_dependencies input,
          t_budget = nt_budget input, t_lease_expires_at = None, t_expires_at = expires_at,
          t_created_at = created_at, t_updated_at = created_at, t_provenance = provenance\<rparr>
         (nt_idempotency_key input) db) (\<lambda>db1.
     let details = (if is_import then Some (JObject [(lit ''imported'', JBool True)]) else None) in
     try_tx db (append_event e 1 (lit ''task'') tid (Some tid) wing (lit ''task_created'')
         (nt_created_by input) None (Some initial_state) (Some 0) details now db1) (\<lambda>db2.
     case find_task db2 tid of
       None \<Rightarrow> (Inl (Invariant (lit ''created task disappeared'')), db)
     | Some t \<Rightarrow> (Inr (t, False), db2))))))))))))))"

definition create_task ::
  "env \<Rightarrow> coord \<Rightarrow> new_task \<Rightarrow> persisted_provenance option \<Rightarrow> (storage_error + task) \<times> coord" where
  "create_task e db input provenance =
     (case create_task_with_state e db input TPending False provenance of
        (Inl x, db') \<Rightarrow> (Inl x, db') | (Inr (t, _), db') \<Rightarrow> (Inr t, db'))"

definition import_task ::
  "env \<Rightarrow> coord \<Rightarrow> new_task \<Rightarrow> task_state \<Rightarrow> (storage_error + task \<times> bool) \<times> coord" where
  "import_task e db input initial_state =
     (if initial_state = TExpired
      then (Inl (Invariant (lit ''TaskState::Expired is a lifecycle outcome this palace produces itself; an imported task cannot assert it as an initial state'')), db)
      else create_task_with_state e db input initial_state True None)"

section \<open>Leases\<close>

definition claim_task ::
  "env \<Rightarrow> coord \<Rightarrow> rstr \<Rightarrow> rstr \<Rightarrow> int \<Rightarrow> int \<Rightarrow>
   (storage_error + task revisioned_write) \<times> coord" where
  "claim_task e db tid worker expected_revision ttl =
     try_tx db (validate_actor worker) (\<lambda>_.
     if ttl \<le> 0 then (Inl (Invariant (lit ''lease ttl must be positive'')), db) else
     try_tx db (require_task db tid) (\<lambda>t.
     let now = env_now e in
     if t_revision t \<noteq> expected_revision then (Inr (Conflict (Some (t_revision t))), db)
     else if task_terminal (t_state t) then (Inl (Invariant TERMINAL_TASK_CANNOT_BE_CLAIMED), db)
     else if opt_holds (\<lambda>v. v \<le> now) (t_expires_at t) then
       (let nxt = t_revision t + 1 in
        try_tx db (format_time e now) (\<lambda>updated_at.
        try_tx db (append_event e 0 (lit ''task'') tid (Some tid) (t_wing t) (lit ''task_expired'')
            worker (Some (t_state t)) (Some TExpired) (Some nxt) None now
            (update_task (\<lambda>r. r\<lparr>t_state := TExpired, t_revision := nxt, t_owner := None,
               t_executor_affinity := None, t_lease_expires_at := None,
               t_updated_at := updated_at\<rparr>) tid db)) (\<lambda>db1.
          (Inl (Invariant TASK_HAS_EXPIRED), db1))))
     else if opt_holds (\<lambda>executor. executor \<noteq> worker) (t_executor_affinity t)
     then (Inl (Invariant EXECUTOR_AFFINITY_CONFLICT), db)
     else if opt_holds (\<lambda>owner. owner \<noteq> worker) (t_owner t)
           \<and> opt_holds (\<lambda>expiry. expiry > now) (t_lease_expires_at t)
     then (Inl (Invariant LEASE_HELD_BY_ANOTHER_WORKER), db)
     else
       (let nxt = t_revision t + 1 in
        case env_checked_add e now ttl of
          None \<Rightarrow> (Inl (Invariant LEASE_DURATION_OUT_OF_RANGE), db)
        | Some expiry \<Rightarrow>
        try_tx db (format_time e expiry) (\<lambda>lease.
        try_tx db (format_time e now) (\<lambda>updated_at.
        if count_rows (\<lambda>r. t_task_id (tr_task r) = tid \<and> t_revision (tr_task r) = expected_revision)
             (cd_tasks db) \<noteq> 1
        then (Inr (Conflict None), db)
        else
        try_tx db (append_event e 0 (lit ''task'') tid (Some tid) (t_wing t)
            (if t_state t = TPending \<and> t_executor_affinity t \<noteq> None \<and> t_lease_expires_at t = None
             then lit ''task_resumed''
             else if t_owner t \<noteq> None then lit ''task_reclaimed'' else lit ''task_claimed'')
            worker (Some (t_state t)) (Some TRunning) (Some nxt) None now
            (update_task (\<lambda>r. r\<lparr>t_state := TRunning, t_revision := nxt, t_owner := Some worker,
               t_lease_expires_at := Some lease, t_updated_at := updated_at\<rparr>) tid db)) (\<lambda>db1.
        try_tx db (require_task db1 tid) (\<lambda>result. (Inr (Applied result), db1))))))))"

definition renew_lease ::
  "env \<Rightarrow> coord \<Rightarrow> rstr \<Rightarrow> rstr \<Rightarrow> int \<Rightarrow> int \<Rightarrow>
   (storage_error + task revisioned_write) \<times> coord" where
  "renew_lease e db tid worker expected_revision ttl =
     try_tx db (validate_actor worker) (\<lambda>_.
     if ttl \<le> 0 then (Inl (Invariant (lit ''lease ttl must be positive'')), db) else
     try_tx db (require_task db tid) (\<lambda>t.
     let now = env_now e in
     if t_revision t \<noteq> expected_revision then (Inr (Conflict (Some (t_revision t))), db)
     else if t_owner t \<noteq> Some worker then (Inl (Invariant ONLY_LEASE_OWNER_MAY_RENEW), db)
     else if none_or (\<lambda>v. v \<le> now) (t_lease_expires_at t)
     then (Inl (Invariant LEASE_HAS_EXPIRED), db)
     else
       (let nxt = t_revision t + 1 in
        case env_checked_add e now ttl of
          None \<Rightarrow> (Inl (Invariant LEASE_DURATION_OUT_OF_RANGE), db)
        | Some expiry \<Rightarrow>
        try_tx db (format_time e expiry) (\<lambda>lease.
        try_tx db (format_time e now) (\<lambda>updated_at.
        try_tx db (append_event e 0 (lit ''task'') tid (Some tid) (t_wing t) (lit ''lease_renewed'')
            worker None None (Some nxt) None now
            (update_task (\<lambda>r. r\<lparr>t_revision := nxt, t_lease_expires_at := Some lease,
               t_updated_at := updated_at\<rparr>) tid db)) (\<lambda>db1.
        try_tx db (require_task db1 tid) (\<lambda>result. (Inr (Applied result), db1))))))))"

section \<open>Yield details\<close>

text \<open>
  \<open>YieldDetails\<close> and \<open>CheckpointHandoff\<close> with their derived \<open>Deserialize\<close>: a struct is read from an
  object (unknown fields ignored) or from an array of its fields in order; a missing or null
  \<open>checkpoint_handoff\<close> is \<open>None\<close>.
\<close>

record checkpoint_handoff =
  ch_executor :: rstr
  ch_artifact_id :: rstr

record yield_details =
  yd_reason :: rstr
  yd_handoff :: "checkpoint_handoff option"

fun parse_handoff :: "json \<Rightarrow> checkpoint_handoff option" where
  "parse_handoff (JObject fs) =
     (case (map_of fs (lit ''executor''), map_of fs (lit ''artifact_id'')) of
        (Some (JString executor), Some (JString aid)) \<Rightarrow>
          Some \<lparr>ch_executor = executor, ch_artifact_id = aid\<rparr>
      | _ \<Rightarrow> None)"
| "parse_handoff (JArray [JString executor, JString aid]) =
     Some \<lparr>ch_executor = executor, ch_artifact_id = aid\<rparr>"
| "parse_handoff _ = None"

fun parse_handoff_opt :: "json option \<Rightarrow> checkpoint_handoff option option" where
  "parse_handoff_opt None = Some None"
| "parse_handoff_opt (Some JNull) = Some None"
| "parse_handoff_opt (Some v) = map_option Some (parse_handoff v)"

definition build_yield :: "json option \<Rightarrow> json option \<Rightarrow> yield_details option" where
  "build_yield reason handoff =
     (case (reason, parse_handoff_opt handoff) of
        (Some (JString r), Some h) \<Rightarrow> Some \<lparr>yd_reason = r, yd_handoff = h\<rparr>
      | _ \<Rightarrow> None)"

fun parse_yield :: "json \<Rightarrow> yield_details option" where
  "parse_yield (JObject fs) =
     build_yield (map_of fs (lit ''reason'')) (map_of fs (lit ''checkpoint_handoff''))"
| "parse_yield (JArray [r]) = build_yield (Some r) None"
| "parse_yield (JArray [r, h]) = build_yield (Some r) (Some h)"
| "parse_yield _ = None"

section \<open>Transitions\<close>

text \<open>The artifact check of a checkpoint handoff.\<close>

definition check_handoff :: "coord \<Rightarrow> rstr \<Rightarrow> rstr \<Rightarrow> checkpoint_handoff \<Rightarrow> storage_error + unit" where
  "check_handoff db tid executor handoff =
     (if trim executor = [] then Inl (Invariant (lit ''checkpoint_handoff.executor must not be empty''))
      else case get_artifact db (ch_artifact_id handoff) of
        None \<Rightarrow> Inl (Invariant (lit ''checkpoint handoff requires an existing artifact''))
      | Some a \<Rightarrow>
          if a_task_id a \<noteq> tid \<or> a_role a \<noteq> lit ''checkpoint''
          then Inl (Invariant (lit ''handoff artifact must be a checkpoint for this task''))
          else Inr ())"

text \<open>The yielding branch of \<open>transition_task\<close>.\<close>

definition yield_task ::
  "env \<Rightarrow> coord \<Rightarrow> rstr \<Rightarrow> rstr \<Rightarrow> task \<Rightarrow> json option \<Rightarrow>
   (storage_error + task revisioned_write) \<times> coord" where
  "yield_task e db tid actor t details_opt =
     (let now = env_now e in
      if t_owner t \<noteq> Some actor then (Inl (Invariant ONLY_OWNER_MAY_TRANSITION), db)
      else if opt_holds (\<lambda>expiry. expiry \<le> now) (t_expires_at t)
      then (Inl (Invariant TASK_HAS_EXPIRED), db)
      else if t_state t = TRunning \<and> none_or (\<lambda>expiry. expiry \<le> now) (t_lease_expires_at t)
      then (Inl (Invariant LEASE_HAS_EXPIRED), db)
      else case details_opt of
        None \<Rightarrow> (Inl (Invariant (lit ''yield requires details.reason'')), db)
      | Some details \<Rightarrow>
        try_tx db (bounded_json e details) (\<lambda>_.
        case parse_yield details of
          None \<Rightarrow> (Inl (Invariant (lit ''invalid yield details: '' @ env_yield_error e details)), db)
        | Some parsed \<Rightarrow>
          if trim (yd_reason parsed) = []
          then (Inl (Invariant (lit ''yield requires non-empty details.reason'')), db)
          else
            (let handoff = yd_handoff parsed;
                 executor = (case handoff of None \<Rightarrow> actor | Some h \<Rightarrow> ch_executor h) in
             try_tx db (opt_check (check_handoff db tid executor) handoff) (\<lambda>_.
             if t_state t = TPending \<and> t_lease_expires_at t = None \<and> handoff = None
             then (Inr (Applied t), db)
             else
               (let nxt = t_revision t + 1 in
                try_tx db (format_time e now) (\<lambda>updated_at.
                try_tx db (append_event e 0 (lit ''task'') tid (Some tid) (t_wing t)
                    (if handoff \<noteq> None then lit ''task_checkpoint_handed_off'' else lit ''task_yielded'')
                    actor (Some (t_state t)) (Some TPending) (Some nxt) (Some details) now
                    (update_task (\<lambda>r. r\<lparr>t_state := TPending, t_revision := nxt,
                       t_owner := Some executor, t_executor_affinity := Some executor,
                       t_lease_expires_at := None, t_updated_at := updated_at\<rparr>) tid db)) (\<lambda>db1.
                try_tx db (require_task db1 tid) (\<lambda>result. (Inr (Applied result), db1)))))))))"

definition transition_task ::
  "env \<Rightarrow> coord \<Rightarrow> rstr \<Rightarrow> rstr \<Rightarrow> int \<Rightarrow> task_state \<Rightarrow> json option \<Rightarrow>
   (storage_error + task revisioned_write) \<times> coord" where
  "transition_task e db tid actor expected_revision dst details =
     try_tx db (validate_actor actor) (\<lambda>_.
     try_tx db (require_task db tid) (\<lambda>t.
     let now = env_now e in
     if t_revision t \<noteq> expected_revision then (Inr (Conflict (Some (t_revision t))), db)
     else
       (let yielding = (dst = TPending \<and>
              (t_state t = TRunning \<or> (t_state t = TPending \<and> t_executor_affinity t \<noteq> None))) in
        if \<not> yielding \<and>
           opt_holds (\<lambda>d. opt_holds (\<lambda>h. h \<noteq> JNull) (json_get d (lit ''checkpoint_handoff''))) details
        then (Inl (Invariant (lit ''checkpoint handoff requires a running or yielded pending task transitioning to pending'')), db)
        else if yielding then yield_task e db tid actor t details
        else if \<not> allowed_transition (t_state t) dst
        then (Inl (Invariant (INVALID_TRANSITION_PREFIX @ task_state_str (t_state t) @ lit '' -> '' @
                task_state_str dst)), db)
        else if t_owner t \<noteq> None \<and> t_owner t \<noteq> Some actor \<and> dst \<noteq> TCancelled
        then (Inl (Invariant ONLY_OWNER_MAY_TRANSITION), db)
        else
          (let nxt = t_revision t + 1; clear = task_terminal dst in
           try_tx db (format_time e now) (\<lambda>updated_at.
           try_tx db (append_event e 0 (lit ''task'') tid (Some tid) (t_wing t)
               (lit ''task_transitioned'') actor (Some (t_state t)) (Some dst) (Some nxt) details now
               (update_task (\<lambda>r. r\<lparr>t_state := dst, t_revision := nxt,
                  t_owner := (if clear then None else t_owner r),
                  t_executor_affinity := (if clear then None else t_executor_affinity r),
                  t_lease_expires_at := (if clear then None else t_lease_expires_at r),
                  t_updated_at := updated_at\<rparr>) tid db)) (\<lambda>db1.
           try_tx db (require_task db1 tid) (\<lambda>result. (Inr (Applied result), db1))))))))"

end
