(* ===== verification/Coordination_Feeds.thy ===== *)
theory Coordination_Feeds
  imports Coordination_Tasks
begin

text \<open>
  The read side of \<open>CoordinationStore\<close>: \<open>inbox\<close>, \<open>events\<close>, \<open>tasks\<close> and \<open>list_wings\<close>. The wing
  visibility is part of the SQL predicate, applied before LIMIT and before the cursor is computed.
\<close>

text \<open>
  The records hanging off a task: \<open>send_message\<close>, \<open>acknowledge_message\<close>, \<open>put_artifact\<close> and
  \<open>put_result\<close> of \<open>CoordinationStore\<close>. Each creation is keyed by its author and idempotency key and
  replays the stored row; each append goes with an audit event carrying the owning task's wing.
\<close>

section \<open>Inserts with the tables' constraints\<close>

definition insert_message :: "message \<Rightarrow> rstr \<Rightarrow> coord \<Rightarrow> storage_error + coord" where
  "insert_message m key db =
     (if get_message db (m_message_id m) \<noteq> None
      then Inl (Sqlite (UniqueViolation (lit ''coordination_messages.message_id'')))
      else if find_row (\<lambda>r. m_sender (mr_message r) = m_sender m \<and> mr_key r = key) (cd_messages db) \<noteq> None
      then Inl (Sqlite (UniqueViolation (lit ''coordination_messages.sender, coordination_messages.idempotency_key'')))
      else if find_task db (m_task_id m) = None
      then Inl (Sqlite (ForeignKeyViolation (lit ''coordination_messages.task_id'')))
      else Inr (db\<lparr>cd_messages := cd_messages db @
                   [\<lparr>mr_message = m\<lparr>m_sequence := cd_message_seq db + 1\<rparr>, mr_key = key\<rparr>],
                 cd_message_seq := cd_message_seq db + 1\<rparr>))"

definition insert_artifact :: "artifact \<Rightarrow> rstr \<Rightarrow> coord \<Rightarrow> storage_error + coord" where
  "insert_artifact a key db =
     (if get_artifact db (a_artifact_id a) \<noteq> None
      then Inl (Sqlite (UniqueViolation (lit ''coordination_artifacts.artifact_id'')))
      else if find_row (\<lambda>r. a_created_by (ar_artifact r) = a_created_by a \<and> ar_key r = key) (cd_artifacts db) \<noteq> None
      then Inl (Sqlite (UniqueViolation (lit ''coordination_artifacts.created_by, coordination_artifacts.idempotency_key'')))
      else if find_task db (a_task_id a) = None
      then Inl (Sqlite (ForeignKeyViolation (lit ''coordination_artifacts.task_id'')))
      else Inr (db\<lparr>cd_artifacts := cd_artifacts db @ [\<lparr>ar_artifact = a, ar_key = key\<rparr>]\<rparr>))"

definition insert_result :: "task_result \<Rightarrow> rstr \<Rightarrow> coord \<Rightarrow> storage_error + coord" where
  "insert_result v key db =
     (if get_result db (r_result_id v) \<noteq> None
      then Inl (Sqlite (UniqueViolation (lit ''coordination_results.result_id'')))
      else if find_row (\<lambda>r. r_created_by (rr_result r) = r_created_by v \<and> rr_key r = key) (cd_results db) \<noteq> None
      then Inl (Sqlite (UniqueViolation (lit ''coordination_results.created_by, coordination_results.idempotency_key'')))
      else if find_task db (r_task_id v) = None
      then Inl (Sqlite (ForeignKeyViolation (lit ''coordination_results.task_id'')))
      else Inr (db\<lparr>cd_results := cd_results db @ [\<lparr>rr_result = v, rr_key = key\<rparr>]\<rparr>))"

section \<open>Messages\<close>

definition send_message ::
  "env \<Rightarrow> coord \<Rightarrow> new_message \<Rightarrow> persisted_provenance option \<Rightarrow> (storage_error + message) \<times> coord" where
  "send_message e db input provenance =
     try_tx db (validate_key (nm_idempotency_key input)) (\<lambda>_.
     try_tx db (validate_actor (nm_sender input)) (\<lambda>_.
     try_tx db (validate_actor (nm_recipient input)) (\<lambda>_.
     try_tx db (bounded_json e (nm_payload input)) (\<lambda>_.
     try_tx db (find_message_by_key db (nm_sender input) (nm_idempotency_key input)) (\<lambda>existing.
     case existing of
       Some v \<Rightarrow> (Inr v, db)
     | None \<Rightarrow>
     try_tx db (require_task db (nm_task_id input)) (\<lambda>t.
     let now = env_now e; mid = lit ''message_'' @ env_uuid e 0 in
     try_tx db (format_time e now) (\<lambda>created_at.
     try_tx db (insert_message
         \<lparr>m_message_id = mid, m_sequence = 0, m_task_id = nm_task_id input,
          m_sender = nm_sender input, m_recipient = nm_recipient input, m_kind = nm_kind input,
          m_payload = nm_payload input, m_envelope_version = nm_envelope_version input,
          m_acknowledged_at = None, m_acknowledged_by = None, m_created_at = created_at,
          m_provenance = provenance\<rparr> (nm_idempotency_key input) db) (\<lambda>db1.
     try_tx db (append_event e 1 (lit ''message'') mid (Some (nm_task_id input)) (t_wing t)
         (lit ''message_sent'') (nm_sender input) None None None
         (Some (JObject [(lit ''kind'', JString (nm_kind input)),
                         (lit ''recipient'', JString (nm_recipient input))])) now db1) (\<lambda>db2.
     case get_message db2 mid of
       None \<Rightarrow> (Inl (Invariant (lit ''created message disappeared'')), db)
     | Some v \<Rightarrow> (Inr v, db2))))))))))"

definition update_message :: "(message \<Rightarrow> message) \<Rightarrow> rstr \<Rightarrow> coord \<Rightarrow> coord" where
  "update_message f mid db =
     db\<lparr>cd_messages := update_rows (\<lambda>r. m_message_id (mr_message r) = mid)
          (\<lambda>r. r\<lparr>mr_message := f (mr_message r)\<rparr>) (cd_messages db)\<rparr>"

definition acknowledge_message ::
  "env \<Rightarrow> coord \<Rightarrow> rstr \<Rightarrow> rstr \<Rightarrow> (storage_error + message) \<times> coord" where
  "acknowledge_message e db mid actor =
     (case get_message db mid of
        None \<Rightarrow> (Inl (Invariant (lit ''message `'' @ mid @ lit ''`'' @ NOT_FOUND_SUFFIX)), db)
      | Some msg \<Rightarrow>
     if m_recipient msg \<noteq> actor then (Inl (Invariant ONLY_RECIPIENT_MAY_ACKNOWLEDGE), db)
     else if m_acknowledged_at msg \<noteq> None then (Inr msg, db)
     else
     let now = env_now e in
     try_tx db (task_wing db (m_task_id msg)) (\<lambda>wing.
     try_tx db (format_time e now) (\<lambda>at.
     try_tx db (append_event e 0 (lit ''message'') mid (Some (m_task_id msg)) wing
         (lit ''message_acknowledged'') actor None None None None now
         (update_message (\<lambda>m. m\<lparr>m_acknowledged_at := Some at, m_acknowledged_by := Some actor\<rparr>) mid db))
       (\<lambda>db1.
     case get_message db1 mid of
       None \<Rightarrow> (Inl (Invariant (lit ''acknowledged message disappeared'')), db)
     | Some v \<Rightarrow> (Inr v, db1)))))"

section \<open>Artifacts and results\<close>

definition put_artifact ::
  "env \<Rightarrow> coord \<Rightarrow> new_artifact \<Rightarrow> persisted_provenance option \<Rightarrow> (storage_error + artifact) \<times> coord" where
  "put_artifact e db input provenance =
     try_tx db (validate_key (na_idempotency_key input)) (\<lambda>_.
     try_tx db (validate_actor (na_created_by input)) (\<lambda>_.
     if str_len (na_content input) > MAX_PAYLOAD_BYTES
     then (Inl (Invariant (lit ''artifact exceeds 1 MiB'')), db) else
     try_tx db (find_artifact_by_key db (na_created_by input) (na_idempotency_key input)) (\<lambda>existing.
     case existing of
       Some v \<Rightarrow> (Inr v, db)
     | None \<Rightarrow>
     try_tx db (require_task db (na_task_id input)) (\<lambda>t.
     let now = env_now e; aid = lit ''artifact_'' @ env_uuid e 0;
         hash = env_blake3_hex e (na_content input) in
     try_tx db (format_time e now) (\<lambda>created_at.
     try_tx db (insert_artifact
         \<lparr>a_artifact_id = aid, a_task_id = na_task_id input, a_created_by = na_created_by input,
          a_role = na_role input, a_media_type = na_media_type input, a_content = na_content input,
          a_content_hash = hash, a_created_at = created_at, a_provenance = provenance\<rparr>
         (na_idempotency_key input) db) (\<lambda>db1.
     try_tx db (append_event e 1 (lit ''artifact'') aid (Some (na_task_id input)) (t_wing t)
         (lit ''artifact_created'') (na_created_by input) None None None
         (Some (JObject [(lit ''content_hash'', JString hash), (lit ''role'', JString (na_role input))]))
         now db1) (\<lambda>db2.
     case get_artifact db2 aid of
       None \<Rightarrow> (Inl (Invariant (lit ''created artifact disappeared'')), db)
     | Some v \<Rightarrow> (Inr v, db2))))))))"

definition put_result ::
  "env \<Rightarrow> coord \<Rightarrow> new_task_result \<Rightarrow> persisted_provenance option \<Rightarrow> (storage_error + task_result) \<times> coord" where
  "put_result e db input provenance =
     try_tx db (validate_key (nr_idempotency_key input)) (\<lambda>_.
     try_tx db (validate_actor (nr_created_by input)) (\<lambda>_.
     try_tx db (bounded_json e (nr_payload input)) (\<lambda>_.
     try_tx db (find_result_by_key db (nr_created_by input) (nr_idempotency_key input)) (\<lambda>existing.
     case existing of
       Some v \<Rightarrow> (Inr v, db)
     | None \<Rightarrow>
     try_tx db (require_task db (nr_task_id input)) (\<lambda>t.
     let now = env_now e; rid = lit ''result_'' @ env_uuid e 0 in
     try_tx db (format_time e now) (\<lambda>created_at.
     try_tx db (insert_result
         \<lparr>r_result_id = rid, r_task_id = nr_task_id input, r_created_by = nr_created_by input,
          r_payload = nr_payload input, r_created_at = created_at, r_provenance = provenance\<rparr>
         (nr_idempotency_key input) db) (\<lambda>db1.
     try_tx db (append_event e 1 (lit ''result'') rid (Some (nr_task_id input)) (t_wing t)
         (lit ''result_created'') (nr_created_by input) None None None None now db1) (\<lambda>db2.
     case get_result db2 rid of
       None \<Rightarrow> (Inl (Invariant (lit ''created result disappeared'')), db)
     | Some v \<Rightarrow> (Inr v, db2)))))))))"

datatype coordination_visibility = Trusted | Federated "rstr list option"

definition cursor_start :: "int option \<Rightarrow> int" where
  "cursor_start c = (case c of None \<Rightarrow> 0 | Some v \<Rightarrow> v)"

definition clamp :: "nat \<Rightarrow> nat \<Rightarrow> nat \<Rightarrow> nat" where
  "clamp lo hi n = (if n < lo then lo else if hi < n then hi else n)"

text \<open>The predicates \<open>Federated\<close> adds on the wing column.\<close>

fun wing_visible :: "coordination_visibility \<Rightarrow> rstr \<Rightarrow> bool" where
  "wing_visible Trusted w = True"
| "wing_visible (Federated restrict) w \<longleftrightarrow>
     w \<noteq> SHARED_AGENT_DIARY_WING \<and> w \<noteq> UNSCOPED_WING \<and> none_or (\<lambda>ws. w \<in> set ws) restrict"

fun nothing_visible :: "coordination_visibility \<Rightarrow> bool" where
  "nothing_visible (Federated (Some ws)) = (ws = [])"
| "nothing_visible _ = False"

text \<open>\<open>wing.map(WingId::normalized).transpose()?\<close>\<close>

definition normalize_wing_opt :: "rstr option \<Rightarrow> storage_error + rstr option" where
  "normalize_wing_opt w =
     (case w of None \<Rightarrow> Inr None | Some v \<Rightarrow> bindE (normalize_wing v) (\<lambda>x. Inr (Some x)))"

text \<open>
  \<open>ORDER BY sequence LIMIT requested + 1\<close>, the page of at most \<open>requested\<close> rows and the cursor after
  its last row, given only when another row follows.
\<close>

definition take_page :: "('r \<Rightarrow> int) \<Rightarrow> nat \<Rightarrow> 'r list \<Rightarrow> 'r list \<times> int option" where
  "take_page sq requested rows =
     (let values = take (requested + 1) (sort_key sq rows);
          has_more = requested < length values;
          page = take requested values in
      (page, if has_more \<and> page \<noteq> [] then Some (sq (last page)) else None))"

definition inbox ::
  "coord \<Rightarrow> rstr \<Rightarrow> int option \<Rightarrow> rstr option \<Rightarrow> nat \<Rightarrow> bool \<Rightarrow> coordination_visibility \<Rightarrow>
   storage_error + message list \<times> int option" where
  "inbox db recipient cursor wing limit unacknowledged_only visibility =
     (if nothing_visible visibility then Inr ([], None)
      else
        (let requested = clamp 1 500 limit;
             needs_task_join = (wing \<noteq> None \<or> visibility \<noteq> Trusted) in
         bindE (normalize_wing_opt wing) (\<lambda>normalized.
         Inr (take_page m_sequence requested
           (filter (\<lambda>m. m_recipient m = recipient \<and> cursor_start cursor < m_sequence m \<and>
                (needs_task_join \<longrightarrow>
                  opt_holds (\<lambda>t. none_or (\<lambda>w. t_wing t = w) normalized \<and> wing_visible visibility (t_wing t))
                    (find_task db (m_task_id m))) \<and>
                (unacknowledged_only \<longrightarrow> m_acknowledged_at m = None))
             (map mr_message (cd_messages db)))))))"

definition events ::
  "coord \<Rightarrow> int option \<Rightarrow> rstr option \<Rightarrow> rstr option \<Rightarrow> nat \<Rightarrow> coordination_visibility \<Rightarrow>
   storage_error + coordination_event list \<times> int option" where
  "events db cursor tid wing limit visibility =
     (if nothing_visible visibility then Inr ([], None)
      else
        (let requested = clamp 1 500 limit in
         bindE (normalize_wing_opt wing) (\<lambda>normalized.
         Inr (take_page ev_sequence requested
           (filter (\<lambda>ev. cursor_start cursor < ev_sequence ev \<and>
                none_or (\<lambda>t. ev_task_id ev = Some t) tid \<and>
                none_or (\<lambda>w. ev_wing ev = w) normalized \<and>
                wing_visible visibility (ev_wing ev))
             (cd_events db))))))"

section \<open>Task discovery\<close>

definition TASK_LIST_TITLE_BYTES :: nat where "TASK_LIST_TITLE_BYTES = 1024"
definition TASK_LIST_PAGE_BYTES :: nat where "TASK_LIST_PAGE_BYTES = 256 * 1024"
definition TASK_LIST_MAX_LIMIT :: nat where "TASK_LIST_MAX_LIMIT = 200"

record task_list_item =
  li_task_id :: rstr
  li_wing :: rstr
  li_state :: task_state
  li_revision :: int
  li_title :: rstr
  li_title_truncated :: bool
  li_owner :: "rstr option"
  li_executor_affinity :: "rstr option"
  li_lease_expires_at :: "int option"
  li_parent_id :: "rstr option"
  li_dependency_count :: nat
  li_created_by :: rstr
  li_created_at :: int
  li_expires_at :: "int option"

record task_list_filter =
  lf_wing :: "rstr option"
  lf_state :: "task_state option"
  lf_owner :: "rstr option"
  lf_created_by :: "rstr option"
  lf_parent_id :: "rstr option"

record task_list_page =
  lp_tasks :: "task_list_item list"
  lp_next_cursor :: "rstr option"

text \<open>
  The whole characters among the first \<open>n\<close> bytes of a text: \<open>substr(CAST(title AS BLOB),1,n)\<close> cut
  at \<open>Utf8Error::valid_up_to\<close> when the last character is incomplete.
\<close>

fun utf8_prefix :: "nat \<Rightarrow> rstr \<Rightarrow> rstr" where
  "utf8_prefix n [] = []"
| "utf8_prefix n (c # cs) =
     (if utf8_width c \<le> n then c # utf8_prefix (n - utf8_width c) cs else [])"

definition list_item :: "task \<Rightarrow> task_list_item" where
  "list_item t =
     (let title = utf8_prefix TASK_LIST_TITLE_BYTES (t_title t) in
      \<lparr>li_task_id = t_task_id t, li_wing = t_wing t, li_state = t_state t,
       li_revision = t_revision t, li_title = title,
       li_title_truncated = (str_len (t_title t) > str_len title), li_owner = t_owner t,
       li_executor_affinity = t_executor_affinity t, li_lease_expires_at = t_lease_expires_at t,
       li_parent_id = t_parent_id t, li_dependency_count = length (t_dependencies t),
       li_created_by = t_created_by t, li_created_at = t_created_at t,
       li_expires_at = t_expires_at t\<rparr>)"

text \<open>
  The row loop. \<open>page_len\<close> is \<open>serde_json::to_vec(&page)?.len()\<close>; the longest cursor is reserved
  while the page is measured.
\<close>

fun list_loop ::
  "(task_list_page \<Rightarrow> nat) \<Rightarrow> nat \<Rightarrow> nat \<Rightarrow> task_row list \<Rightarrow> task_list_item list \<Rightarrow> rstr option \<Rightarrow>
   storage_error + task_list_page" where
  "list_loop page_len budget limit [] acc lst = Inr \<lparr>lp_tasks = acc, lp_next_cursor = None\<rparr>"
| "list_loop page_len budget limit (r # rs) acc lst =
     (if length acc = limit then Inr \<lparr>lp_tasks = acc, lp_next_cursor = lst\<rparr>
      else
        (let item = list_item (tr_task r); acc' = acc @ [item] in
         if page_len \<lparr>lp_tasks = acc', lp_next_cursor = Some (show_int (2 ^ 63 - 1))\<rparr> > budget
         then (if acc = []
               then Inl (Invariant (lit ''task list item '' @ li_task_id item @
                      lit '' exceeds byte budget '' @ show_nat budget @
                      lit ''; identities are not truncated; use task_get or increase the budget''))
               else Inr \<lparr>lp_tasks = acc, lp_next_cursor = lst\<rparr>)
         else list_loop page_len budget limit rs acc' (Some (show_int (tr_sequence r)))))"

definition tasks ::
  "(task_list_page \<Rightarrow> nat) \<Rightarrow> coord \<Rightarrow> int option \<Rightarrow> task_list_filter \<Rightarrow> nat \<Rightarrow> nat \<Rightarrow>
   coordination_visibility \<Rightarrow> storage_error + task_list_page" where
  "tasks page_len db cursor flt limit byte_budget visibility =
     (let budget = min byte_budget TASK_LIST_PAGE_BYTES in
      if budget < 128 then Inl (Invariant (lit ''task list byte budget must be at least 128''))
      else if nothing_visible visibility then Inr \<lparr>lp_tasks = [], lp_next_cursor = None\<rparr>
      else
        bindE (normalize_wing_opt (lf_wing flt)) (\<lambda>wing.
        let lim = clamp 1 TASK_LIST_MAX_LIMIT limit;
            rows = take (lim + 1) (sort_key tr_sequence (filter (\<lambda>r. let t = tr_task r in
                cursor_start cursor < tr_sequence r \<and>
                none_or (\<lambda>w. t_wing t = w) wing \<and>
                none_or (\<lambda>s. t_state t = s) (lf_state flt) \<and>
                none_or (\<lambda>v. t_owner t = Some v) (lf_owner flt) \<and>
                none_or (\<lambda>v. t_created_by t = v) (lf_created_by flt) \<and>
                none_or (\<lambda>v. t_parent_id t = Some v) (lf_parent_id flt) \<and>
                wing_visible visibility (t_wing t)) (cd_tasks db)))
        in list_loop page_len budget lim rows [] None))"

text \<open>\<open>list_wings\<close>: text compares by code point, as its UTF-8 bytes do under BINARY collation.\<close>

definition list_wings :: "coord \<Rightarrow> rstr list" where
  "list_wings db =
     sort (remdups (filter (\<lambda>w. w \<noteq> UNSCOPED_WING)
       (map (\<lambda>r. t_wing (tr_task r)) (cd_tasks db) @ map ev_wing (cd_events db))))"

section \<open>Lemmas\<close>

lemma clamp_ge1: "1 \<le> hi \<Longrightarrow> 1 \<le> clamp 1 hi n"
  by (simp add: clamp_def)

lemma nothing_visible_no_wing: "nothing_visible v \<Longrightarrow> \<not> wing_visible v w"
  by (cases v rule: nothing_visible.cases) auto

lemma wing_visible_federated:
  "wing_visible (Federated r) w \<Longrightarrow> w \<noteq> SHARED_AGENT_DIARY_WING \<and> w \<noteq> UNSCOPED_WING"
  by simp

subsection \<open>Pages of a sorted table\<close>

lemma sort_key_sorted: "sorted_wrt (\<lambda>x y. sq x < sq y) rows \<Longrightarrow> sort_key sq rows = rows"
  for sq :: "'r \<Rightarrow> int"
  by (intro sort_key_id_if_sorted) (auto simp: sorted_map sorted_wrt_iff_nth_less less_imp_le)

lemma sorted_wrt_filterI: "sorted_wrt P xs \<Longrightarrow> sorted_wrt P (filter q xs)"
  by (induction xs) auto

lemma take_page_sorted:
  assumes "sorted_wrt (\<lambda>x y. sq x < sq y) rows" and "0 < n"
  shows "take_page sq n rows =
    (take n rows, if n < length rows then Some (sq (rows ! (n - 1))) else None)"
proof -
  have e: "last (take n rows) = rows ! (n - 1)" if "n < length rows"
    using that assms(2) by (subst last_conv_nth) auto
  show ?thesis
    using assms(2) e by (auto simp: take_page_def sort_key_sorted [OF assms(1)] Let_def min_def)
qed

lemma filter_after_cut:
  assumes "sorted_wrt (\<lambda>x y. sq x < (sq y :: int)) rows" and "0 < n" and "n < length rows"
  shows "filter (\<lambda>r. sq (rows ! (n - 1)) < sq r) rows = drop n rows"
proof -
  let ?c = "sq (rows ! (n - 1))"
  have le: "sq r \<le> ?c" if "r \<in> set (take n rows)" for r
  proof -
    from that assms(3) obtain i where i: "i < n" "r = rows ! i" by (auto simp: in_set_conv_nth)
    show ?thesis
    proof (cases "i = n - 1")
      case False
      with i have "i < n - 1" by simp
      with assms i show ?thesis by (simp add: sorted_wrt_iff_nth_less less_imp_le)
    qed (use i in simp)
  qed
  have gt: "?c < sq r" if "r \<in> set (drop n rows)" for r
  proof -
    from that obtain j where j: "j < length rows - n" "r = rows ! (n + j)"
      by (auto simp: in_set_conv_nth)
    with assms show ?thesis by (simp add: sorted_wrt_iff_nth_less)
  qed
  have "filter (\<lambda>r. ?c < sq r) (take n rows) = []" using le by (fastforce simp: filter_empty_conv)
  moreover have "filter (\<lambda>r. ?c < sq r) (drop n rows) = drop n rows" using gt by (simp add: filter_id_conv)
  ultimately show ?thesis by (metis append_Nil append_take_drop_id filter_append)
qed

text \<open>
  A reader that follows the cursors: \<open>drain\<close> calls a feed until it returns no cursor, with fuel for
  the number of calls.
\<close>

fun drain :: "nat \<Rightarrow> (int option \<Rightarrow> 'e + 'r list \<times> int option) \<Rightarrow> int option \<Rightarrow> ('e + 'r list) option" where
  "drain 0 feed c = None"
| "drain (Suc k) feed c =
     (case feed c of
        Inl x \<Rightarrow> Some (Inl x)
      | Inr (page, None) \<Rightarrow> Some (Inr page)
      | Inr (page, Some c') \<Rightarrow> map_option (\<lambda>m. bindE m (\<lambda>rest. Inr (page @ rest))) (drain k feed (Some c')))"

lemma drain_sorted:
  fixes sq :: "'r \<Rightarrow> int"
  assumes "\<And>c. feed c = Inr (take_page sq n (filter (\<lambda>r. cursor_start c < sq r) rows))"
    and "sorted_wrt (\<lambda>x y. sq x < sq y) rows" and n: "0 < n"
    and "length (filter (\<lambda>r. cursor_start c < sq r) rows) < k"
  shows "drain k feed c = Some (Inr (filter (\<lambda>r. cursor_start c < sq r) rows))"
  using assms(4)
proof (induction k arbitrary: c)
  case (Suc k)
  let ?F = "filter (\<lambda>r. cursor_start c < sq r) rows"
  have srt: "sorted_wrt (\<lambda>x y. sq x < sq y) ?F" using assms(2) by (rule sorted_wrt_filterI)
  show ?case
  proof (cases "n < length ?F")
    case False
    then show ?thesis by (simp add: assms(1) take_page_sorted [OF srt n])
  next
    case True
    let ?c = "sq (?F ! (n - 1))"
    have "?F ! (n - 1) \<in> set ?F" using True by (intro nth_mem) simp
    then have "cursor_start c < ?c" by simp
    then have "filter (\<lambda>r. cursor_start (Some ?c) < sq r) rows = filter (\<lambda>r. ?c < sq r) ?F"
      by (auto simp: cursor_start_def intro!: filter_cong)
    also have "\<dots> = drop n ?F" by (rule filter_after_cut [OF srt n True])
    finally have rest: "filter (\<lambda>r. cursor_start (Some ?c) < sq r) rows = drop n ?F" .
    have "length (drop n ?F) < k" using Suc.prems n True by simp
    then have "drain k feed (Some ?c) = Some (Inr (drop n ?F))"
      using Suc.IH [of "Some ?c"] unfolding rest by blast
    moreover have "feed c = Inr (take n ?F, Some ?c)"
      using True by (simp add: assms(1) take_page_sorted [OF srt n])
    ultimately show ?thesis by simp
  qed
qed simp

subsection \<open>Title prefixes\<close>

lemma utf8_prefix_is_prefix: "\<exists>t. s = utf8_prefix n s @ t"
  by (induction n s rule: utf8_prefix.induct) auto

lemma utf8_prefix_bytes: "str_len (utf8_prefix n s) \<le> n"
  by (induction n s rule: utf8_prefix.induct) auto

lemma utf8_prefix_id: "str_len s \<le> n \<Longrightarrow> utf8_prefix n s = s"
  by (induction n s rule: utf8_prefix.induct) auto

lemma utf8_prefix_maximal:
  "utf8_prefix n s = s \<or>
   (\<exists>c rest. s = utf8_prefix n s @ c # rest \<and> n < str_len (utf8_prefix n s @ [c]))"
proof (induction n s rule: utf8_prefix.induct)
  case (2 n c cs)
  show ?case
  proof (cases "utf8_width c \<le> n")
    case True
    from "2.IH" [OF True] show ?thesis
    proof (elim disjE exE conjE)
      fix d rest
      assume "cs = utf8_prefix (n - utf8_width c) cs @ d # rest"
        and "n - utf8_width c < str_len (utf8_prefix (n - utf8_width c) cs @ [d])"
      then show ?thesis using True by (intro disjI2 exI [of _ d] exI [of _ rest]) auto
    qed (use True in simp)
  qed (auto simp: not_le)
qed simp

end
