(* ===== verification/Coordination_Spec.thy ===== *)
theory Coordination_Spec
  imports Coordination_Feeds
begin

text \<open>
  What the coordination store promises, abstractly, and the proof that its operations do no more:
  \<open>lifecycle\<close> is the diagram of task states, \<open>task_change\<close> the changes a call may make to one task
  and who may make them, and \<open>coord_step\<close> the database steps, each of which appends exactly one audit
  event. \<open>coord_exec\<close> runs one call; \<open>coord_exec_refines\<close> says that every call takes one abstract
  step or none.
\<close>

section \<open>The abstract machine\<close>

inductive lifecycle :: "task_state \<Rightarrow> task_state \<Rightarrow> bool" where
  lc_claim: "\<not> task_terminal s \<Longrightarrow> lifecycle s TRunning"
| lc_expire: "\<not> task_terminal s \<Longrightarrow> lifecycle s TExpired"
| lc_yield: "s = TRunning \<or> s = TPending \<Longrightarrow> lifecycle s TPending"
| lc_transition: "allowed_transition s s' \<Longrightarrow> lifecycle s s'"

inductive_cases lifecycleE: "lifecycle s s'"

text \<open>
  \<open>task_change now actor t t' src dst\<close>: at time \<open>now\<close>, \<open>actor\<close> may turn task \<open>t\<close> into \<open>t'\<close>,
  recorded as a move from \<open>src\<close> to \<open>dst\<close>.
\<close>

definition lease_live :: "int \<Rightarrow> task \<Rightarrow> bool" where
  "lease_live now t \<longleftrightarrow> opt_holds (\<lambda>expiry. expiry > now) (t_lease_expires_at t)"

definition claimed :: "int \<Rightarrow> rstr \<Rightarrow> int \<Rightarrow> task \<Rightarrow> task" where
  "claimed now w l t = t\<lparr>t_state := TRunning, t_revision := t_revision t + 1, t_owner := Some w,
     t_lease_expires_at := Some l, t_updated_at := now\<rparr>"

definition expired :: "int \<Rightarrow> task \<Rightarrow> task" where
  "expired now t = t\<lparr>t_state := TExpired, t_revision := t_revision t + 1, t_owner := None,
     t_executor_affinity := None, t_lease_expires_at := None, t_updated_at := now\<rparr>"

definition renewed :: "int \<Rightarrow> int \<Rightarrow> task \<Rightarrow> task" where
  "renewed now l t =
     t\<lparr>t_revision := t_revision t + 1, t_lease_expires_at := Some l, t_updated_at := now\<rparr>"

definition yielded :: "int \<Rightarrow> rstr \<Rightarrow> task \<Rightarrow> task" where
  "yielded now x t = t\<lparr>t_state := TPending, t_revision := t_revision t + 1, t_owner := Some x,
     t_executor_affinity := Some x, t_lease_expires_at := None, t_updated_at := now\<rparr>"

definition moved :: "int \<Rightarrow> task_state \<Rightarrow> task \<Rightarrow> task" where
  "moved now dst t = t\<lparr>t_state := dst, t_revision := t_revision t + 1,
     t_owner := (if task_terminal dst then None else t_owner t),
     t_executor_affinity := (if task_terminal dst then None else t_executor_affinity t),
     t_lease_expires_at := (if task_terminal dst then None else t_lease_expires_at t),
     t_updated_at := now\<rparr>"

definition acknowledged :: "int \<Rightarrow> rstr \<Rightarrow> message \<Rightarrow> message" where
  "acknowledged now actor m = m\<lparr>m_acknowledged_at := Some now, m_acknowledged_by := Some actor\<rparr>"

text \<open>What no operation changes in a task once it exists, and the tasks it refers to.\<close>

definition same_static :: "task \<Rightarrow> task \<Rightarrow> bool" where
  "same_static t t' \<longleftrightarrow> t_task_id t' = t_task_id t \<and> t_title t' = t_title t \<and>
     t_description t' = t_description t \<and> t_created_by t' = t_created_by t \<and> t_wing t' = t_wing t \<and>
     t_parent_id t' = t_parent_id t \<and> t_dependencies t' = t_dependencies t \<and>
     t_budget t' = t_budget t \<and> t_expires_at t' = t_expires_at t \<and>
     t_created_at t' = t_created_at t \<and> t_provenance t' = t_provenance t"

definition task_links :: "task \<Rightarrow> rstr list" where
  "task_links t = t_dependencies t @ (case t_parent_id t of None \<Rightarrow> [] | Some p \<Rightarrow> [p])"

lemmas task_changes = claimed_def expired_def renewed_def yielded_def moved_def

inductive task_change ::
  "int \<Rightarrow> rstr \<Rightarrow> task \<Rightarrow> task \<Rightarrow> task_state option \<Rightarrow> task_state option \<Rightarrow> bool" where
  tc_claim:
    "\<not> task_terminal (t_state t) \<Longrightarrow> \<not> opt_holds (\<lambda>v. v \<le> now) (t_expires_at t) \<Longrightarrow>
     none_or (\<lambda>x. x = w) (t_executor_affinity t) \<Longrightarrow>
     none_or (\<lambda>x. x = w) (t_owner t) \<or> \<not> lease_live now t \<Longrightarrow>
     task_change now w t (claimed now w l t) (Some (t_state t)) (Some TRunning)"
| tc_expire:
    "\<not> task_terminal (t_state t) \<Longrightarrow> opt_holds (\<lambda>v. v \<le> now) (t_expires_at t) \<Longrightarrow>
     task_change now w t (expired now t) (Some (t_state t)) (Some TExpired)"
| tc_renew:
    "t_owner t = Some w \<Longrightarrow> lease_live now t \<Longrightarrow> task_change now w t (renewed now l t) None None"
| tc_yield:
    "t_state t = TRunning \<and> lease_live now t \<or> t_state t = TPending \<and> t_executor_affinity t \<noteq> None \<Longrightarrow>
     t_owner t = Some w \<Longrightarrow> trim x \<noteq> [] \<Longrightarrow>
     task_change now w t (yielded now x t) (Some (t_state t)) (Some TPending)"
| tc_transition:
    "allowed_transition (t_state t) dst \<Longrightarrow> t_owner t = None \<or> t_owner t = Some w \<or> dst = TCancelled \<Longrightarrow>
     task_change now w t (moved now dst t) (Some (t_state t)) (Some dst)"

text \<open>The audit event a step appends: the next number, a new id, the task's own wing.\<close>

definition next_event :: "coord \<Rightarrow> task \<Rightarrow> coordination_event \<Rightarrow> bool" where
  "next_event db t ev \<longleftrightarrow>
     ev_sequence ev = cd_event_seq db + 1 \<and> get_event db (ev_event_id ev) = None \<and>
     ev_task_id ev = Some (t_task_id t) \<and> ev_wing ev = t_wing t"

definition task_event :: "task \<Rightarrow> coordination_event \<Rightarrow> bool" where
  "task_event t ev \<longleftrightarrow> ev_entity_type ev = lit ''task'' \<and> ev_entity_id ev = t_task_id t"

definition add_event :: "coordination_event \<Rightarrow> coord \<Rightarrow> coord" where
  "add_event ev db = db\<lparr>cd_events := cd_events db @ [ev], cd_event_seq := cd_event_seq db + 1\<rparr>"

text \<open>A task was rewritten, with its event.\<close>

definition task_written ::
  "int \<Rightarrow> rstr \<Rightarrow> rstr \<Rightarrow> task \<Rightarrow> task \<Rightarrow> task_state option \<Rightarrow> task_state option \<Rightarrow> coord \<Rightarrow> coord \<Rightarrow> bool" where
  "task_written now w tid t t' src dst db db' \<longleftrightarrow>
     find_task db tid = Some t \<and> task_change now w t t' src dst \<and>
     (\<exists>ev f. db' = add_event ev (update_task f tid db) \<and> next_event db t ev \<and> task_event t ev \<and>
        ev_from_state ev = src \<and> ev_to_state ev = dst \<and> ev_revision ev = Some (t_revision t') \<and>
        ev_actor ev = w \<and> f t = t' \<and>
        (\<forall>r. same_static r (f r)))"

definition fresh_task :: "task \<Rightarrow> bool" where
  "fresh_task t \<longleftrightarrow> t_revision t = 0 \<and> t_owner t = None \<and> t_executor_affinity t = None \<and>
     t_lease_expires_at t = None \<and> t_state t \<noteq> TExpired \<and>
     wing_normalized (t_wing t) = Inr (t_wing t) \<and> t_wing t \<noteq> UNSCOPED_WING"

inductive coord_step :: "int \<Rightarrow> coord \<Rightarrow> coord \<Rightarrow> bool" where
  step_create:
    "insert_task t key db = Inr db1 \<Longrightarrow> fresh_task t \<Longrightarrow>
     \<forall>d \<in> set (task_links t). find_task db d \<noteq> None \<Longrightarrow> next_event db t ev \<Longrightarrow> task_event t ev \<Longrightarrow>
     ev_from_state ev = None \<Longrightarrow> ev_to_state ev = Some (t_state t) \<Longrightarrow> ev_revision ev = Some 0 \<Longrightarrow>
     coord_step now db (add_event ev db1)"
| step_task:
    "task_written now w tid t t' src dst db db' \<Longrightarrow> coord_step now db db'"
| step_message:
    "find_task db (m_task_id m) = Some t \<Longrightarrow> insert_message m key db = Inr db1 \<Longrightarrow>
     next_event db t ev \<Longrightarrow> ev_entity_type ev = lit ''message'' \<Longrightarrow>
     m_acknowledged_at m = None \<Longrightarrow> m_acknowledged_by m = None \<Longrightarrow>
     coord_step now db (add_event ev db1)"
| step_artifact:
    "find_task db (a_task_id a) = Some t \<Longrightarrow> insert_artifact a key db = Inr db1 \<Longrightarrow>
     next_event db t ev \<Longrightarrow> ev_entity_type ev = lit ''artifact'' \<Longrightarrow>
     coord_step now db (add_event ev db1)"
| step_result:
    "find_task db (r_task_id v) = Some t \<Longrightarrow> insert_result v key db = Inr db1 \<Longrightarrow>
     next_event db t ev \<Longrightarrow> ev_entity_type ev = lit ''result'' \<Longrightarrow>
     coord_step now db (add_event ev db1)"
| step_acknowledge:
    "get_message db mid = Some m \<Longrightarrow> m_acknowledged_at m = None \<Longrightarrow>
     find_task db (m_task_id m) = Some t \<Longrightarrow> next_event db t ev \<Longrightarrow>
     ev_entity_type ev = lit ''message'' \<Longrightarrow> ev_actor ev = m_recipient m \<Longrightarrow>
     coord_step now db (add_event ev (update_message (acknowledged now (m_recipient m)) mid db))"

inductive_cases coord_stepE: "coord_step now db db'"

section \<open>Calls\<close>

datatype coord_call =
  CallCreate env new_task "persisted_provenance option"
| CallImport env new_task task_state
| CallClaim env rstr rstr int int
| CallRenew env rstr rstr int int
| CallTransition env rstr rstr int task_state "json option"
| CallSend env new_message "persisted_provenance option"
| CallAck env rstr rstr
| CallArtifact env new_artifact "persisted_provenance option"
| CallResult env new_task_result "persisted_provenance option"

fun coord_exec :: "coord_call \<Rightarrow> coord \<Rightarrow> coord" where
  "coord_exec (CallCreate e i p) db = snd (create_task e db i p)"
| "coord_exec (CallImport e i s) db = snd (import_task e db i s)"
| "coord_exec (CallClaim e t w r ttl) db = snd (claim_task e db t w r ttl)"
| "coord_exec (CallRenew e t w r ttl) db = snd (renew_lease e db t w r ttl)"
| "coord_exec (CallTransition e t a r s d) db = snd (transition_task e db t a r s d)"
| "coord_exec (CallSend e i p) db = snd (send_message e db i p)"
| "coord_exec (CallAck e m a) db = snd (acknowledge_message e db m a)"
| "coord_exec (CallArtifact e i p) db = snd (put_artifact e db i p)"
| "coord_exec (CallResult e i p) db = snd (put_result e db i p)"

fun call_env :: "coord_call \<Rightarrow> env" where
  "call_env (CallCreate e i p) = e"
| "call_env (CallImport e i s) = e"
| "call_env (CallClaim e t w r ttl) = e"
| "call_env (CallRenew e t w r ttl) = e"
| "call_env (CallTransition e t a r s d) = e"
| "call_env (CallSend e i p) = e"
| "call_env (CallAck e m a) = e"
| "call_env (CallArtifact e i p) = e"
| "call_env (CallResult e i p) = e"

section \<open>Row access facts\<close>

lemma find_task_id: "find_task db tid = Some t \<Longrightarrow> t_task_id t = tid"
  by (auto simp: find_task_def dest: find_row_SomeD)

lemma require_task_Inr [simp]: "require_task db tid = Inr t \<longleftrightarrow> find_task db tid = Some t"
  by (auto simp: require_task_def split: option.splits)

lemma require_task_Inl: "require_task db tid = Inl x \<longleftrightarrow> find_task db tid = None \<and> x = task_not_found tid"
  by (auto simp: require_task_def split: option.splits)

lemma task_wing_Inr [simp]: "task_wing db tid = Inr w \<longleftrightarrow> (\<exists>t. find_task db tid = Some t \<and> t_wing t = w)"
  by (auto simp: task_wing_def split: option.splits)

lemma get_message_id: "get_message db mid = Some m \<Longrightarrow> m_message_id m = mid"
  by (auto simp: get_message_def dest: find_row_SomeD)

lemma find_task_add_event [simp]: "find_task (add_event ev db) = find_task db"
  by (simp add: find_task_def add_event_def fun_eq_iff)

lemma get_message_add_event [simp]: "get_message (add_event ev db) = get_message db"
  by (simp add: get_message_def add_event_def fun_eq_iff)

lemma get_artifact_add_event [simp]: "get_artifact (add_event ev db) = get_artifact db"
  by (simp add: get_artifact_def add_event_def fun_eq_iff)

lemma get_result_add_event [simp]: "get_result (add_event ev db) = get_result db"
  by (simp add: get_result_def add_event_def fun_eq_iff)

lemma find_task_update_task:
  assumes "\<And>r. t_task_id (f r) = t_task_id r"
  shows "find_task (update_task f tid db) tid' =
    map_option (\<lambda>t. if t_task_id t = tid then f t else t) (find_task db tid')"
  using find_row_update_rows [of "\<lambda>r. t_task_id (tr_task r) = tid" "\<lambda>r. t_task_id (tr_task r) = tid'"
      "\<lambda>r. r\<lparr>tr_task := f (tr_task r)\<rparr>" "cd_tasks db"] assms
  by (auto simp: find_task_def update_task_def option.map_comp intro!: option.map_cong)

lemma append_event_InrD:
  assumes "append_event e n ety eid tid wing ty actor src dst r d at db = Inr db'"
  obtains ev where "db' = add_event ev db" "ev_sequence ev = cd_event_seq db + 1"
    "get_event db (ev_event_id ev) = None" "ev_task_id ev = tid" "ev_wing ev = wing"
    "ev_entity_type ev = ety" "ev_entity_id ev = eid" "ev_actor ev = actor"
    "ev_from_state ev = src" "ev_to_state ev = dst" "ev_revision ev = r" "ev_event_type ev = ty"
    "ev_details ev = d" "ev_occurred_at ev = at"
  using assms
  by (fastforce simp: append_event_def Let_def bindE_eq_Inr add_event_def
      dest: format_time_InrD split: if_splits)

lemma update_task_events [simp]:
  "cd_events (update_task f tid db) = cd_events db" "cd_event_seq (update_task f tid db) = cd_event_seq db"
  by (simp_all add: update_task_def)

lemma task_written_intro:
  assumes "append_event e n (lit ''task'') tid (Some tid) (t_wing t) ty w src dst (Some rv) d at
             (update_task f tid db) = Inr db'"
    and "find_task db tid = Some t" and "task_change now w t (f t) src dst"
    and "rv = t_revision (f t)"
    and "\<And>r. same_static r (f r)"
  shows "task_written now w tid t (f t) src dst db db'"
proof -
  from assms(1) obtain ev where ev: "db' = add_event ev (update_task f tid db)"
    "ev_sequence ev = cd_event_seq db + 1" "get_event db (ev_event_id ev) = None"
    "ev_task_id ev = Some tid" "ev_wing ev = t_wing t" "ev_entity_type ev = lit ''task''"
    "ev_entity_id ev = tid" "ev_actor ev = w" "ev_from_state ev = src" "ev_to_state ev = dst"
    "ev_revision ev = Some rv"
    by (auto simp: get_event_def elim!: append_event_InrD)
  have tid: "t_task_id t = tid" using assms(2) by (rule find_task_id)
  show ?thesis
    unfolding task_written_def
    by (intro conjI exI [of _ ev] exI [of _ f] assms(2,3) ev(1))
      (use ev assms(4,5) tid in \<open>auto simp: next_event_def task_event_def\<close>)
qed

lemma task_written_find:
  assumes "task_written now w tid t t' src dst db db'"
  shows "find_task db' tid = Some t'"
    and "tid' \<noteq> tid \<Longrightarrow> find_task db' tid' = find_task db tid'"
proof -
  from assms obtain ev f where f: "db' = add_event ev (update_task f tid db)" "f t = t'"
    "find_task db tid = Some t" "\<And>r. t_task_id (f r) = t_task_id r"
    by (auto simp: task_written_def same_static_def)
  from find_task_id [OF f(3)] f show "find_task db' tid = Some t'"
    by (simp add: find_task_update_task)
  assume "tid' \<noteq> tid"
  with f find_task_id [of db tid'] show "find_task db' tid' = find_task db tid'"
    by (cases "find_task db tid'") (auto simp: find_task_update_task)
qed

lemma task_change_revision:
  "task_change now w t t' src dst \<Longrightarrow> t_revision t' = t_revision t + 1 \<and> same_static t t'"
  by (auto simp: task_changes same_static_def elim!: task_change.cases)

end
