(* ===== verification/Coordination_Outcomes.thy ===== *)
theory Coordination_Outcomes
  imports Coordination_Spec
begin

text \<open>
  The branches of every operation of the coordination store, each stated as its result and its effect
  on the database, and the refinement of the abstract machine of \<open>Coordination_Spec\<close>.
\<close>

section \<open>Leases\<close>

text \<open>The event and the UPDATE of each operation, as a \<open>task_written\<close> step with the row read back.\<close>

lemma written_expired:
  assumes "append_event e n (lit ''task'') tid (Some tid) (t_wing t) ty w (Some (t_state t))
      (Some TExpired) (Some (t_revision t + 1)) d at
      (update_task (\<lambda>x. x\<lparr>t_state := TExpired, t_revision := t_revision t + 1, t_owner := None,
         t_executor_affinity := None, t_lease_expires_at := None, t_updated_at := now\<rparr>) tid db) = Inr db'"
    and "find_task db tid = Some t" and "\<not> task_terminal (t_state t)"
    and "opt_holds (\<lambda>v. v \<le> now) (t_expires_at t)"
  shows "task_written now w tid t (expired now t) (Some (t_state t)) (Some TExpired) db db'"
  using task_written_intro [OF assms(1,2), of now] tc_expire [OF assms(3,4), of w]
  by (simp add: expired_def same_static_def)

lemma written_claimed:
  assumes "append_event e n (lit ''task'') tid (Some tid) (t_wing t) ty w (Some (t_state t))
      (Some TRunning) (Some (t_revision t + 1)) d at
      (update_task (\<lambda>x. x\<lparr>t_state := TRunning, t_revision := t_revision t + 1, t_owner := Some w,
         t_lease_expires_at := Some l, t_updated_at := now\<rparr>) tid db) = Inr db'"
    and "find_task db tid = Some t" and "\<not> task_terminal (t_state t)"
    and "\<not> opt_holds (\<lambda>v. v \<le> now) (t_expires_at t)"
    and "\<not> opt_holds (\<lambda>x. x \<noteq> w) (t_executor_affinity t)"
    and "\<not> (opt_holds (\<lambda>x. x \<noteq> w) (t_owner t) \<and> opt_holds (\<lambda>v. v > now) (t_lease_expires_at t))"
  shows "task_written now w tid t (claimed now w l t) (Some (t_state t)) (Some TRunning) db db'"
proof -
  have "none_or (\<lambda>x. x = w) (t_executor_affinity t)"
    and "none_or (\<lambda>x. x = w) (t_owner t) \<or> \<not> lease_live now t"
    using assms(5,6) by (auto simp: none_or_iff opt_holds_iff lease_live_def)
  from tc_claim [OF assms(3,4) this, of l] task_written_intro [OF assms(1,2), of now] show ?thesis
    by (simp add: claimed_def same_static_def)
qed

lemma written_renewed:
  assumes "append_event e n (lit ''task'') tid (Some tid) (t_wing t) ty w None None
      (Some (t_revision t + 1)) d at
      (update_task (\<lambda>x. x\<lparr>t_revision := t_revision t + 1, t_lease_expires_at := Some l,
         t_updated_at := now\<rparr>) tid db) = Inr db'"
    and "find_task db tid = Some t" and "t_owner t = Some w"
    and "\<not> none_or (\<lambda>v. v \<le> now) (t_lease_expires_at t)"
  shows "task_written now w tid t (renewed now l t) None None db db'"
proof -
  have "lease_live now t" using assms(4) by (auto simp: none_or_iff lease_live_def)
  from tc_renew [OF assms(3) this, of l] task_written_intro [OF assms(1,2), of now] show ?thesis
    by (simp add: renewed_def same_static_def)
qed

lemma written_yielded:
  assumes "append_event e n (lit ''task'') tid (Some tid) (t_wing t) ty w (Some (t_state t))
      (Some TPending) (Some (t_revision t + 1)) d at
      (update_task (\<lambda>r. r\<lparr>t_state := TPending, t_revision := t_revision t + 1, t_owner := Some x,
         t_executor_affinity := Some x, t_lease_expires_at := None, t_updated_at := now\<rparr>) tid db) = Inr db'"
    and "find_task db tid = Some t" and "t_owner t = Some w" and "trim x \<noteq> []"
    and "t_state t = TRunning \<and> \<not> none_or (\<lambda>v. v \<le> now) (t_lease_expires_at t) \<or>
         t_state t = TPending \<and> t_executor_affinity t \<noteq> None"
  shows "task_written now w tid t (yielded now x t) (Some (t_state t)) (Some TPending) db db'"
proof -
  have "t_state t = TRunning \<and> lease_live now t \<or> t_state t = TPending \<and> t_executor_affinity t \<noteq> None"
    using assms(5) by (auto simp: none_or_iff lease_live_def)
  from tc_yield [OF this assms(3,4)] task_written_intro [OF assms(1,2), of now] show ?thesis
    by (simp add: yielded_def same_static_def)
qed

lemma written_moved:
  assumes "append_event e n (lit ''task'') tid (Some tid) (t_wing t) ty w (Some (t_state t))
      (Some dst) (Some (t_revision t + 1)) d at
      (update_task (\<lambda>r. r\<lparr>t_state := dst, t_revision := t_revision t + 1,
         t_owner := (if task_terminal dst then None else t_owner r),
         t_executor_affinity := (if task_terminal dst then None else t_executor_affinity r),
         t_lease_expires_at := (if task_terminal dst then None else t_lease_expires_at r),
         t_updated_at := now\<rparr>) tid db) = Inr db'"
    and "find_task db tid = Some t" and "allowed_transition (t_state t) dst"
    and "\<not> (t_owner t \<noteq> None \<and> t_owner t \<noteq> Some w \<and> dst \<noteq> TCancelled)"
  shows "task_written now w tid t (moved now dst t) (Some (t_state t)) (Some dst) db db'"
proof -
  have "t_owner t = None \<or> t_owner t = Some w \<or> dst = TCancelled" using assms(4) by blast
  from tc_transition [OF assms(3) this] task_written_intro [OF assms(1,2), of now] show ?thesis
    by (simp add: moved_def same_static_def)
qed

inductive claim_spec ::
  "env \<Rightarrow> coord \<Rightarrow> rstr \<Rightarrow> rstr \<Rightarrow> int \<Rightarrow> int \<Rightarrow> storage_error + task revisioned_write \<Rightarrow> coord \<Rightarrow> bool"
  for e db tid w r ttl where
  claim_error: "claim_spec e db tid w r ttl (Inl x) db"
| claim_stale:
    "find_task db tid = Some t \<Longrightarrow> t_revision t \<noteq> r \<Longrightarrow>
     claim_spec e db tid w r ttl (Inr (Conflict (Some (t_revision t)))) db"
| claim_raced:
    "count_rows (\<lambda>x. t_task_id (tr_task x) = tid \<and> t_revision (tr_task x) = r) (cd_tasks db) \<noteq> 1 \<Longrightarrow>
     find_task db tid = Some t \<Longrightarrow> t_revision t = r \<Longrightarrow>
     claim_spec e db tid w r ttl (Inr (Conflict None)) db"
| claim_expired:
    "t_revision t = r \<Longrightarrow> opt_holds (\<lambda>v. v \<le> env_now e) (t_expires_at t) \<Longrightarrow>
     task_written (env_now e) w tid t (expired (env_now e) t) (Some (t_state t)) (Some TExpired) db db' \<Longrightarrow>
     claim_spec e db tid w r ttl (Inl (Invariant TASK_HAS_EXPIRED)) db'"
| claim_applied:
    "t_revision t = r \<Longrightarrow> env_checked_add e (env_now e) ttl = Some l \<Longrightarrow> 0 < ttl \<Longrightarrow> trim w \<noteq> [] \<Longrightarrow>
     \<not> task_terminal (t_state t) \<Longrightarrow> \<not> opt_holds (\<lambda>v. v \<le> env_now e) (t_expires_at t) \<Longrightarrow>
     none_or (\<lambda>x. x = w) (t_executor_affinity t) \<Longrightarrow>
     none_or (\<lambda>x. x = w) (t_owner t) \<or> \<not> lease_live (env_now e) t \<Longrightarrow>
     task_written (env_now e) w tid t (claimed (env_now e) w l t) (Some (t_state t)) (Some TRunning) db db' \<Longrightarrow>
     claim_spec e db tid w r ttl (Inr (Applied (claimed (env_now e) w l t))) db'"

lemma read_back: "task_written now w tid t t' src dst db db' \<Longrightarrow> find_task db' tid = Some t'' \<Longrightarrow> t'' = t'"
  using task_written_find(1) by fastforce

lemma claim_expiredI:
  assumes "require_task db tid = Inr t" and "\<not> t_revision t \<noteq> r" and "\<not> task_terminal (t_state t)"
    and "opt_holds (\<lambda>v. v \<le> env_now e) (t_expires_at t)" and "format_time e (env_now e) = Inr up"
    and "append_event e n (lit ''task'') tid (Some tid) (t_wing t) ty w (Some (t_state t))
      (Some TExpired) (Some (t_revision t + 1)) d at
      (update_task (\<lambda>x. x\<lparr>t_state := TExpired, t_revision := t_revision t + 1, t_owner := None,
         t_executor_affinity := None, t_lease_expires_at := None, t_updated_at := up\<rparr>) tid db) = Inr db'"
  shows "claim_spec e db tid w r ttl (Inl (Invariant TASK_HAS_EXPIRED)) db'"
proof (rule claim_expired)
  from assms(5) have up: "up = env_now e" by (rule format_time_InrD)
  show "task_written (env_now e) w tid t (expired (env_now e) t) (Some (t_state t)) (Some TExpired) db db'"
    by (rule written_expired [OF assms(6) [unfolded up] _ assms(3,4)]) (use assms(1) in simp)
qed (use assms in simp_all)

lemma claim_appliedI:
  assumes "validate_actor w = Inr u" and "\<not> ttl \<le> 0" and "require_task db tid = Inr t"
    and "\<not> t_revision t \<noteq> r" and "\<not> task_terminal (t_state t)"
    and "\<not> opt_holds (\<lambda>v. v \<le> env_now e) (t_expires_at t)"
    and "\<not> opt_holds (\<lambda>x. x \<noteq> w) (t_executor_affinity t)"
    and "\<not> (opt_holds (\<lambda>x. x \<noteq> w) (t_owner t) \<and> opt_holds (\<lambda>v. v > env_now e) (t_lease_expires_at t))"
    and "env_checked_add e (env_now e) ttl = Some l"
    and "format_time e l = Inr l'" and "format_time e (env_now e) = Inr up"
    and "append_event e n (lit ''task'') tid (Some tid) (t_wing t) ty w (Some (t_state t))
      (Some TRunning) (Some (t_revision t + 1)) d at
      (update_task (\<lambda>x. x\<lparr>t_state := TRunning, t_revision := t_revision t + 1, t_owner := Some w,
         t_lease_expires_at := Some l', t_updated_at := up\<rparr>) tid db) = Inr db'"
    and "require_task db' tid = Inr t'"
  shows "claim_spec e db tid w r ttl (Inr (Applied t')) db'"
proof -
  from assms(10,11) have eq: "l' = l" "up = env_now e" by (auto dest: format_time_InrD)
  have w: "task_written (env_now e) w tid t (claimed (env_now e) w l t) (Some (t_state t)) (Some TRunning) db db'"
    by (rule written_claimed [OF assms(12) [unfolded eq] _ assms(5,6,7,8)]) (use assms(3) in simp)
  have "t' = claimed (env_now e) w l t" by (rule read_back [OF w]) (use assms(13) in simp)
  moreover have "t_revision t = r" and "0 < ttl" and "trim w \<noteq> []"
    using assms(1,2,4) by (auto simp: validate_actor_ok)
  moreover have "none_or (\<lambda>x. x = w) (t_executor_affinity t)"
    and "none_or (\<lambda>x. x = w) (t_owner t) \<or> \<not> lease_live (env_now e) t"
    using assms(7,8) by (auto simp: none_or_iff opt_holds_iff lease_live_def)
  ultimately show ?thesis using claim_applied [OF _ assms(9) _ _ assms(5,6) _ _ w] by blast
qed

lemma claim_task_outcome: "outcome (claim_spec e db tid w r ttl) (claim_task e db tid w r ttl)"
  unfolding claim_task_def Let_def
  by (intro outcome)
    ((auto intro: claim_spec.intros; fail) | (rule claim_expiredI; assumption) |
     (rule claim_appliedI; assumption))+

inductive renew_spec ::
  "env \<Rightarrow> coord \<Rightarrow> rstr \<Rightarrow> rstr \<Rightarrow> int \<Rightarrow> int \<Rightarrow> storage_error + task revisioned_write \<Rightarrow> coord \<Rightarrow> bool"
  for e db tid w r ttl where
  renew_error: "renew_spec e db tid w r ttl (Inl x) db"
| renew_stale:
    "find_task db tid = Some t \<Longrightarrow> t_revision t \<noteq> r \<Longrightarrow>
     renew_spec e db tid w r ttl (Inr (Conflict (Some (t_revision t)))) db"
| renew_applied:
    "t_revision t = r \<Longrightarrow> env_checked_add e (env_now e) ttl = Some l \<Longrightarrow> 0 < ttl \<Longrightarrow>
     task_written (env_now e) w tid t (renewed (env_now e) l t) None None db db' \<Longrightarrow>
     renew_spec e db tid w r ttl (Inr (Applied (renewed (env_now e) l t))) db'"

lemma renew_appliedI:
  assumes "\<not> ttl \<le> 0" and "require_task db tid = Inr t"
    and "\<not> t_revision t \<noteq> r" and "\<not> t_owner t \<noteq> Some w"
    and "\<not> none_or (\<lambda>v. v \<le> env_now e) (t_lease_expires_at t)"
    and "env_checked_add e (env_now e) ttl = Some l"
    and "format_time e l = Inr l'" and "format_time e (env_now e) = Inr up"
    and "append_event e n (lit ''task'') tid (Some tid) (t_wing t) ty w None None
      (Some (t_revision t + 1)) d at
      (update_task (\<lambda>x. x\<lparr>t_revision := t_revision t + 1, t_lease_expires_at := Some l',
         t_updated_at := up\<rparr>) tid db) = Inr db'"
    and "require_task db' tid = Inr t'"
  shows "renew_spec e db tid w r ttl (Inr (Applied t')) db'"
proof -
  from assms(7,8) have eq: "l' = l" "up = env_now e" by (auto dest: format_time_InrD)
  have w: "task_written (env_now e) w tid t (renewed (env_now e) l t) None None db db'"
    by (rule written_renewed [OF assms(9) [unfolded eq] _ _ assms(5)]) (use assms(2,4) in simp_all)
  have "t' = renewed (env_now e) l t" by (rule read_back [OF w]) (use assms(10) in simp)
  moreover have "t_revision t = r" and "0 < ttl" using assms(1,3) by auto
  ultimately show ?thesis using renew_applied [OF _ assms(6) _ w] by blast
qed

lemma renew_lease_outcome: "outcome (renew_spec e db tid w r ttl) (renew_lease e db tid w r ttl)"
  unfolding renew_lease_def Let_def
  by (intro outcome)
    ((auto intro: renew_spec.intros; fail) | (rule renew_appliedI; assumption))+

section \<open>Transitions\<close>

inductive transition_spec ::
  "env \<Rightarrow> coord \<Rightarrow> rstr \<Rightarrow> rstr \<Rightarrow> int \<Rightarrow> task_state \<Rightarrow> json option \<Rightarrow>
   storage_error + task revisioned_write \<Rightarrow> coord \<Rightarrow> bool"
  for e db tid w r dst details where
  tr_error: "transition_spec e db tid w r dst details (Inl x) db"
| tr_stale:
    "find_task db tid = Some t \<Longrightarrow> t_revision t \<noteq> r \<Longrightarrow>
     transition_spec e db tid w r dst details (Inr (Conflict (Some (t_revision t)))) db"
| tr_yield_again:
    "find_task db tid = Some t \<Longrightarrow> t_revision t = r \<Longrightarrow> dst = TPending \<Longrightarrow> t_state t = TPending \<Longrightarrow>
     t_owner t = Some w \<Longrightarrow> t_executor_affinity t \<noteq> None \<Longrightarrow> t_lease_expires_at t = None \<Longrightarrow>
     transition_spec e db tid w r dst details (Inr (Applied t)) db"
| tr_yielded:
    "t_revision t = r \<Longrightarrow> dst = TPending \<Longrightarrow> t_owner t = Some w \<Longrightarrow>
     details = Some d \<Longrightarrow> parse_yield d = Some parsed \<Longrightarrow> trim (yd_reason parsed) \<noteq> [] \<Longrightarrow>
     x = (case yd_handoff parsed of None \<Rightarrow> w | Some h \<Rightarrow> ch_executor h) \<Longrightarrow>
     opt_check (check_handoff db tid x) (yd_handoff parsed) = Inr () \<Longrightarrow>
     task_written (env_now e) w tid t (yielded (env_now e) x t) (Some (t_state t)) (Some TPending) db db' \<Longrightarrow>
     transition_spec e db tid w r dst details (Inr (Applied (yielded (env_now e) x t))) db'"
| tr_moved:
    "t_revision t = r \<Longrightarrow> allowed_transition (t_state t) dst \<Longrightarrow>
     t_owner t = None \<or> t_owner t = Some w \<or> dst = TCancelled \<Longrightarrow>
     \<not> (dst = TPending \<and> (t_state t = TRunning \<or> t_state t = TPending \<and> t_executor_affinity t \<noteq> None)) \<Longrightarrow>
     task_written (env_now e) w tid t (moved (env_now e) dst t) (Some (t_state t)) (Some dst) db db' \<Longrightarrow>
     transition_spec e db tid w r dst details (Inr (Applied (moved (env_now e) dst t))) db'"

lemma opt_check_handoff: "opt_check (check_handoff db tid x) h = Inr () \<Longrightarrow> h \<noteq> None \<Longrightarrow> trim x \<noteq> []"
  by (auto simp: opt_check_def check_handoff_def split: if_splits)

lemma tr_yieldedI:
  assumes "validate_actor w = Inr u" and "require_task db tid = Inr t" and "\<not> t_revision t \<noteq> r"
    and "dst = TPending \<and> (t_state t = TRunning \<or> t_state t = TPending \<and> t_executor_affinity t \<noteq> None)"
    and "\<not> t_owner t \<noteq> Some w"
    and "\<not> (t_state t = TRunning \<and> none_or (\<lambda>v. v \<le> env_now e) (t_lease_expires_at t))"
    and "details = Some d" and "parse_yield d = Some parsed" and "\<not> trim (yd_reason parsed) = []"
    and "opt_check (check_handoff db tid (case yd_handoff parsed of None \<Rightarrow> w | Some h \<Rightarrow> ch_executor h))
           (yd_handoff parsed) = Inr u'"
    and "format_time e (env_now e) = Inr up"
    and "append_event e n (lit ''task'') tid (Some tid) (t_wing t) ty w (Some (t_state t))
      (Some TPending) (Some (t_revision t + 1)) dd at
      (update_task (\<lambda>r. r\<lparr>t_state := TPending, t_revision := t_revision t + 1,
         t_owner := Some (case yd_handoff parsed of None \<Rightarrow> w | Some h \<Rightarrow> ch_executor h),
         t_executor_affinity := Some (case yd_handoff parsed of None \<Rightarrow> w | Some h \<Rightarrow> ch_executor h),
         t_lease_expires_at := None, t_updated_at := up\<rparr>) tid db) = Inr db'"
    and "require_task db' tid = Inr t'"
  shows "transition_spec e db tid w r dst details (Inr (Applied t')) db'"
proof -
  define x where "x = (case yd_handoff parsed of None \<Rightarrow> w | Some h \<Rightarrow> ch_executor h)"
  have chk: "opt_check (check_handoff db tid x) (yd_handoff parsed) = Inr ()"
    using assms(10) by (simp add: x_def)
  have x: "trim x \<noteq> []"
    using opt_check_handoff [OF chk] assms(1) by (cases "yd_handoff parsed") (auto simp: x_def validate_actor_ok)
  have up: "up = env_now e" using assms(11) by (rule format_time_InrD)
  have w: "task_written (env_now e) w tid t (yielded (env_now e) x t) (Some (t_state t)) (Some TPending) db db'"
    by (rule written_yielded [OF assms(12) [folded x_def, unfolded up] _ _ x]) (use assms(2,4,5,6) in auto)
  have "t' = yielded (env_now e) x t" by (rule read_back [OF w]) (use assms(13) in simp)
  with tr_yielded [OF _ _ _ assms(7,8,9) x_def chk w] assms(3,4,5) show ?thesis by simp
qed

lemma tr_movedI:
  assumes "require_task db tid = Inr t" and "\<not> t_revision t \<noteq> r"
    and "\<not> (dst = TPending \<and> (t_state t = TRunning \<or> t_state t = TPending \<and> t_executor_affinity t \<noteq> None))"
    and "\<not> \<not> allowed_transition (t_state t) dst"
    and "\<not> (t_owner t \<noteq> None \<and> t_owner t \<noteq> Some w \<and> dst \<noteq> TCancelled)"
    and "format_time e (env_now e) = Inr up"
    and "append_event e n (lit ''task'') tid (Some tid) (t_wing t) ty w (Some (t_state t))
      (Some dst) (Some (t_revision t + 1)) d at
      (update_task (\<lambda>r. r\<lparr>t_state := dst, t_revision := t_revision t + 1,
         t_owner := (if task_terminal dst then None else t_owner r),
         t_executor_affinity := (if task_terminal dst then None else t_executor_affinity r),
         t_lease_expires_at := (if task_terminal dst then None else t_lease_expires_at r),
         t_updated_at := up\<rparr>) tid db) = Inr db'"
    and "require_task db' tid = Inr t'"
  shows "transition_spec e db tid w r dst details (Inr (Applied t')) db'"
proof -
  from assms(6) have up: "up = env_now e" by (rule format_time_InrD)
  have w: "task_written (env_now e) w tid t (moved (env_now e) dst t) (Some (t_state t)) (Some dst) db db'"
    by (rule written_moved [OF assms(7) [unfolded up] _ _ assms(5)]) (use assms(1,4) in simp_all)
  have "t' = moved (env_now e) dst t" by (rule read_back [OF w]) (use assms(8) in simp)
  with tr_moved [OF _ _ _ assms(3) w] assms(2,4,5) show ?thesis by simp
qed

lemma transition_task_outcome:
  "outcome (transition_spec e db tid w r dst details) (transition_task e db tid w r dst details)"
  unfolding transition_task_def yield_task_def Let_def
  by (intro outcome)
    ((auto intro: transition_spec.intros; fail) | (rule tr_yieldedI; assumption) |
     (rule tr_movedI; assumption))+

end
