(* ===== verification/Coordination_Creations.thy ===== *)
theory Coordination_Creations
  imports Coordination_Outcomes
begin

text \<open>
  The branches of the keyed creations (tasks, messages, artifacts, results) and of
  \<open>acknowledge_message\<close>, and the refinement theorem \<open>coord_exec_refines\<close>: one abstract step or none.
\<close>

section \<open>Inserts and row access\<close>

lemma insert_task_InrD:
  assumes "insert_task t key db = Inr db1"
  shows "find_task db (t_task_id t) = None"
    and "find_row (\<lambda>r. t_created_by (tr_task r) = t_created_by t \<and> tr_key r = key) (cd_tasks db) = None"
    and "db1 = db\<lparr>cd_tasks := cd_tasks db @ [\<lparr>tr_task = t, tr_key = key, tr_sequence = cd_task_seq db + 1\<rparr>],
                 cd_task_seq := cd_task_seq db + 1\<rparr>"
  using assms by (auto simp: insert_task_def split: if_splits)

lemma insert_message_InrD:
  assumes "insert_message m key db = Inr db1"
  shows "get_message db (m_message_id m) = None"
    and "find_row (\<lambda>r. m_sender (mr_message r) = m_sender m \<and> mr_key r = key) (cd_messages db) = None"
    and "find_task db (m_task_id m) \<noteq> None"
    and "db1 = db\<lparr>cd_messages := cd_messages db @
                   [\<lparr>mr_message = m\<lparr>m_sequence := cd_message_seq db + 1\<rparr>, mr_key = key\<rparr>],
                 cd_message_seq := cd_message_seq db + 1\<rparr>"
  using assms by (auto simp: insert_message_def split: if_splits)

lemma insert_artifact_InrD:
  assumes "insert_artifact a key db = Inr db1"
  shows "get_artifact db (a_artifact_id a) = None"
    and "find_row (\<lambda>r. a_created_by (ar_artifact r) = a_created_by a \<and> ar_key r = key) (cd_artifacts db) = None"
    and "find_task db (a_task_id a) \<noteq> None"
    and "db1 = db\<lparr>cd_artifacts := cd_artifacts db @ [\<lparr>ar_artifact = a, ar_key = key\<rparr>]\<rparr>"
  using assms by (auto simp: insert_artifact_def split: if_splits)

lemma insert_result_InrD:
  assumes "insert_result v key db = Inr db1"
  shows "get_result db (r_result_id v) = None"
    and "find_row (\<lambda>r. r_created_by (rr_result r) = r_created_by v \<and> rr_key r = key) (cd_results db) = None"
    and "find_task db (r_task_id v) \<noteq> None"
    and "db1 = db\<lparr>cd_results := cd_results db @ [\<lparr>rr_result = v, rr_key = key\<rparr>]\<rparr>"
  using assms by (auto simp: insert_result_def split: if_splits)

lemma find_task_insert:
  assumes "insert_task t key db = Inr db1"
  shows "find_task db1 tid = (if tid = t_task_id t then Some t else find_task db tid)"
  using insert_task_InrD [OF assms]
  by (auto simp: find_task_def find_row_append split: option.splits)

lemma find_task_insert_keeps:
  "insert_task t key db = Inr db1 \<Longrightarrow> find_task db tid = Some u \<Longrightarrow> find_task db1 tid = Some u"
  using find_task_insert insert_task_InrD(1) by fastforce

lemma get_message_insert:
  assumes "insert_message m key db = Inr db1"
  shows "get_message db1 mid =
    (if mid = m_message_id m then Some (m\<lparr>m_sequence := cd_message_seq db + 1\<rparr>) else get_message db mid)"
  using insert_message_InrD [OF assms]
  by (auto simp: get_message_def find_row_append split: option.splits)

lemma get_artifact_insert:
  assumes "insert_artifact a key db = Inr db1"
  shows "get_artifact db1 aid = (if aid = a_artifact_id a then Some a else get_artifact db aid)"
  using insert_artifact_InrD [OF assms]
  by (auto simp: get_artifact_def find_row_append split: option.splits)

lemma get_result_insert:
  assumes "insert_result v key db = Inr db1"
  shows "get_result db1 rid = (if rid = r_result_id v then Some v else get_result db rid)"
  using insert_result_InrD [OF assms]
  by (auto simp: get_result_def find_row_append split: option.splits)

lemma insert_events:
  "insert_task t key db = Inr db1 \<Longrightarrow> cd_events db1 = cd_events db \<and> cd_event_seq db1 = cd_event_seq db"
  "insert_message m key db = Inr db1 \<Longrightarrow> cd_events db1 = cd_events db \<and> cd_event_seq db1 = cd_event_seq db"
  "insert_artifact a key db = Inr db1 \<Longrightarrow> cd_events db1 = cd_events db \<and> cd_event_seq db1 = cd_event_seq db"
  "insert_result v key db = Inr db1 \<Longrightarrow> cd_events db1 = cd_events db \<and> cd_event_seq db1 = cd_event_seq db"
  by (auto dest!: insert_task_InrD(3) insert_message_InrD(4) insert_artifact_InrD(4) insert_result_InrD(4))

text \<open>The event that goes with an insert, seen from the database before the insert.\<close>

lemma append_event_next:
  assumes "append_event e n ety eid (Some (t_task_id t)) (t_wing t) ty actor src dst r d at db1 = Inr db'"
    and "cd_events db1 = cd_events db \<and> cd_event_seq db1 = cd_event_seq db"
  obtains ev where "db' = add_event ev db1" "next_event db t ev" "ev_entity_type ev = ety"
    "ev_entity_id ev = eid" "ev_actor ev = actor" "ev_from_state ev = src" "ev_to_state ev = dst"
    "ev_revision ev = r" "ev_event_type ev = ty"
proof (rule append_event_InrD [OF assms(1)])
  fix ev
  assume "db' = add_event ev db1" and sq: "ev_sequence ev = cd_event_seq db1 + 1"
    "get_event db1 (ev_event_id ev) = None" "ev_task_id ev = Some (t_task_id t)" "ev_wing ev = t_wing t"
    and "ev_entity_type ev = ety" "ev_entity_id ev = eid" "ev_actor ev = actor"
    "ev_from_state ev = src" "ev_to_state ev = dst" "ev_revision ev = r" "ev_event_type ev = ty"
  moreover have "next_event db t ev"
    using sq assms(2) by (simp add: next_event_def get_event_def)
  ultimately show thesis by (intro that)
qed

section \<open>Tasks\<close>

inductive create_spec ::
  "coord \<Rightarrow> new_task \<Rightarrow> task_state \<Rightarrow> storage_error + task \<times> bool \<Rightarrow> coord \<Rightarrow> bool"
  for db input s where
  create_error: "create_spec db input s (Inl x) db"
| create_replay:
    "find_task_by_key db (nt_created_by input) (nt_idempotency_key input) = Inr (Some t) \<Longrightarrow>
     create_spec db input s (Inr (t, True)) db"
| create_new:
    "find_task_by_key db (nt_created_by input) (nt_idempotency_key input) = Inr None \<Longrightarrow>
     insert_task t (nt_idempotency_key input) db = Inr db1 \<Longrightarrow> wing_normalized (nt_wing input) = Inr (t_wing t) \<Longrightarrow>
     t_created_by t = nt_created_by input \<Longrightarrow> t_state t = s \<Longrightarrow>
     t_title t = nt_title input \<Longrightarrow> t_dependencies t = nt_dependencies input \<Longrightarrow>
     t_parent_id t = nt_parent_id input \<Longrightarrow>
     s \<noteq> TExpired \<longrightarrow> fresh_task t \<Longrightarrow> \<forall>d \<in> set (task_links t). find_task db d \<noteq> None \<Longrightarrow>
     next_event db t ev \<Longrightarrow> task_event t ev \<Longrightarrow> ev_from_state ev = None \<Longrightarrow>
     ev_to_state ev = Some s \<Longrightarrow> ev_revision ev = Some 0 \<Longrightarrow>
     create_spec db input s (Inr (t, False)) (add_event ev db1)"

lemma require_all_Inr: "require_all db ds = Inr u \<Longrightarrow> \<forall>d \<in> set ds. find_task db d \<noteq> None"
  by (induction ds) (auto simp: bindE_eq_Inr)

lemma create_newI:
  assumes "wing_normalized (nt_wing input) = Inr wing" and "wing \<noteq> UNSCOPED_WING"
    and "find_task_by_key db (nt_created_by input) (nt_idempotency_key input) = Inr None"
    and deps: "require_all db (nt_dependencies input) = Inr u"
    and par: "opt_check (\<lambda>p. bindE (require_task db p) (\<lambda>_. Inr ())) (nt_parent_id input) = Inr u'"
    and t: "t = \<lparr>t_task_id = tid, t_title = nt_title input, t_description = nt_description input,
          t_state = s, t_revision = 0, t_created_by = nt_created_by input,
          t_wing = wing, t_owner = None, t_executor_affinity = None,
          t_parent_id = nt_parent_id input, t_dependencies = nt_dependencies input,
          t_budget = b, t_lease_expires_at = None, t_expires_at = ex,
          t_created_at = ct, t_updated_at = ct, t_provenance = p\<rparr>"
    and ins: "insert_task t (nt_idempotency_key input) db = Inr db1"
    and app: "append_event e n (lit ''task'') tid (Some tid) wing ty w None (Some s) (Some 0) d at db1 = Inr db2"
    and read: "find_task db2 tid = Some t'"
  shows "create_spec db input s (Inr (t', False)) db2"
proof -
  have "append_event e n (lit ''task'') tid (Some (t_task_id t)) (t_wing t) ty w None (Some s) (Some 0) d at db1 = Inr db2"
    using app by (simp add: t)
  from append_event_next [OF this insert_events(1) [OF ins]]
  obtain ev where ev: "db2 = add_event ev db1" "next_event db t ev" "ev_entity_type ev = lit ''task''"
    "ev_entity_id ev = tid" "ev_from_state ev = None" "ev_to_state ev = Some s" "ev_revision ev = Some 0"
    by metis
  have teq: "t' = t" using read ev(1) by (simp add: find_task_insert [OF ins] t)
  have fr: "s \<noteq> TExpired \<longrightarrow> fresh_task t"
    using assms(1,2) by (auto simp: t fresh_task_def dest: wing_normalized_fixed)
  have te: "task_event t ev" using ev by (simp add: t task_event_def)
  have ln: "\<forall>d \<in> set (task_links t). find_task db d \<noteq> None"
    using require_all_Inr [OF deps] par
    by (auto simp: task_links_def t opt_check_def bindE_eq_Inr split: option.splits)
  show ?thesis
    unfolding ev(1) teq
    by (rule create_new [OF assms(3) ins]; (fact ev fr te ln | simp add: t assms(1)))
qed

lemma create_task_with_state_outcome:
  "outcome (create_spec db input s) (create_task_with_state e db input s imp p)"
  unfolding create_task_with_state_def Let_def normalize_wing_def
  by (intro outcome)
    ((auto intro: create_spec.intros; fail) |
     (rule create_newI [OF _ _ _ _ _ refl]; (assumption | simp)))+

section \<open>Messages, artifacts and results\<close>

inductive send_spec ::
  "env \<Rightarrow> coord \<Rightarrow> new_message \<Rightarrow> storage_error + message \<Rightarrow> coord \<Rightarrow> bool"
  for e db input where
  send_error: "send_spec e db input (Inl x) db"
| send_replay:
    "find_message_by_key db (nm_sender input) (nm_idempotency_key input) = Inr (Some v) \<Longrightarrow>
     send_spec e db input (Inr v) db"
| send_new:
    "find_message_by_key db (nm_sender input) (nm_idempotency_key input) = Inr None \<Longrightarrow>
     find_task db (m_task_id m) = Some t \<Longrightarrow> insert_message m (nm_idempotency_key input) db = Inr db1 \<Longrightarrow>
     next_event db t ev \<Longrightarrow> ev_entity_type ev = lit ''message'' \<Longrightarrow>
     m_task_id m = nm_task_id input \<Longrightarrow> m_sender m = nm_sender input \<Longrightarrow>
     m_recipient m = nm_recipient input \<Longrightarrow> m_payload m = nm_payload input \<Longrightarrow>
     m_acknowledged_at m = None \<Longrightarrow> m_acknowledged_by m = None \<Longrightarrow>
     send_spec e db input (Inr (m\<lparr>m_sequence := cd_message_seq db + 1\<rparr>)) (add_event ev db1)"

lemma send_newI:
  assumes "find_message_by_key db (nm_sender input) (nm_idempotency_key input) = Inr None"
    and "require_task db (nm_task_id input) = Inr t"
    and m: "m = \<lparr>m_message_id = mid, m_sequence = 0, m_task_id = nm_task_id input,
          m_sender = nm_sender input, m_recipient = nm_recipient input, m_kind = nm_kind input,
          m_payload = nm_payload input, m_envelope_version = nm_envelope_version input,
          m_acknowledged_at = None, m_acknowledged_by = None, m_created_at = ct, m_provenance = p\<rparr>"
    and ins: "insert_message m (nm_idempotency_key input) db = Inr db1"
    and app: "append_event e n (lit ''message'') mid (Some (nm_task_id input)) (t_wing t) ty w None None
           None d at db1 = Inr db2"
    and read: "get_message db2 mid = Some v"
  shows "send_spec e db input (Inr v) db2"
proof -
  have t: "find_task db (m_task_id m) = Some t" "t_task_id t = nm_task_id input"
    using assms(2) by (auto simp: m dest: find_task_id)
  from append_event_next [OF app [folded t(2)] insert_events(2) [OF ins]]
  obtain ev where ev: "db2 = add_event ev db1" "next_event db t ev" "ev_entity_type ev = lit ''message''"
    by metis
  have v: "v = m\<lparr>m_sequence := cd_message_seq db + 1\<rparr>"
    using read ev(1) get_message_insert [OF ins, of mid] by (simp add: m)
  show ?thesis
    unfolding ev(1) v by (rule send_new [OF assms(1) t(1) ins]; (fact ev | simp add: m))
qed

lemma send_message_outcome: "outcome (send_spec e db input) (send_message e db input p)"
  unfolding send_message_def Let_def
  by (intro outcome)
    ((auto intro: send_spec.intros; fail) | (rule send_newI [OF _ _ refl]; (assumption | simp)))+

inductive artifact_spec ::
  "env \<Rightarrow> coord \<Rightarrow> new_artifact \<Rightarrow> storage_error + artifact \<Rightarrow> coord \<Rightarrow> bool"
  for e db input where
  artifact_error: "artifact_spec e db input (Inl x) db"
| artifact_replay:
    "find_artifact_by_key db (na_created_by input) (na_idempotency_key input) = Inr (Some v) \<Longrightarrow>
     artifact_spec e db input (Inr v) db"
| artifact_new:
    "find_artifact_by_key db (na_created_by input) (na_idempotency_key input) = Inr None \<Longrightarrow>
     find_task db (a_task_id a) = Some t \<Longrightarrow> insert_artifact a (na_idempotency_key input) db = Inr db1 \<Longrightarrow>
     next_event db t ev \<Longrightarrow> ev_entity_type ev = lit ''artifact'' \<Longrightarrow>
     a_task_id a = na_task_id input \<Longrightarrow> a_created_by a = na_created_by input \<Longrightarrow>
     a_content a = na_content input \<Longrightarrow> a_content_hash a = env_blake3_hex e (na_content input) \<Longrightarrow>
     artifact_spec e db input (Inr a) (add_event ev db1)"

lemma artifact_newI:
  assumes "find_artifact_by_key db (na_created_by input) (na_idempotency_key input) = Inr None"
    and "require_task db (na_task_id input) = Inr t"
    and a: "a = \<lparr>a_artifact_id = aid, a_task_id = na_task_id input, a_created_by = na_created_by input,
          a_role = na_role input, a_media_type = na_media_type input, a_content = na_content input,
          a_content_hash = env_blake3_hex e (na_content input), a_created_at = ct, a_provenance = p\<rparr>"
    and ins: "insert_artifact a (na_idempotency_key input) db = Inr db1"
    and app: "append_event e n (lit ''artifact'') aid (Some (na_task_id input)) (t_wing t) ty w None None
           None d at db1 = Inr db2"
    and read: "get_artifact db2 aid = Some v"
  shows "artifact_spec e db input (Inr v) db2"
proof -
  have t: "find_task db (a_task_id a) = Some t" "t_task_id t = na_task_id input"
    using assms(2) by (auto simp: a dest: find_task_id)
  from append_event_next [OF app [folded t(2)] insert_events(3) [OF ins]]
  obtain ev where ev: "db2 = add_event ev db1" "next_event db t ev" "ev_entity_type ev = lit ''artifact''"
    by metis
  have v: "v = a" using read ev(1) get_artifact_insert [OF ins, of aid] by (simp add: a)
  show ?thesis
    unfolding ev(1) v by (rule artifact_new [OF assms(1) t(1) ins]; (fact ev | simp add: a))
qed

lemma put_artifact_outcome: "outcome (artifact_spec e db input) (put_artifact e db input p)"
  unfolding put_artifact_def Let_def
  by (intro outcome)
    ((auto intro: artifact_spec.intros; fail) | (rule artifact_newI [OF _ _ refl]; (assumption | simp)))+

inductive result_spec ::
  "env \<Rightarrow> coord \<Rightarrow> new_task_result \<Rightarrow> storage_error + task_result \<Rightarrow> coord \<Rightarrow> bool"
  for e db input where
  result_error: "result_spec e db input (Inl x) db"
| result_replay:
    "find_result_by_key db (nr_created_by input) (nr_idempotency_key input) = Inr (Some v) \<Longrightarrow>
     result_spec e db input (Inr v) db"
| result_new:
    "find_result_by_key db (nr_created_by input) (nr_idempotency_key input) = Inr None \<Longrightarrow>
     find_task db (r_task_id v) = Some t \<Longrightarrow> insert_result v (nr_idempotency_key input) db = Inr db1 \<Longrightarrow>
     next_event db t ev \<Longrightarrow> ev_entity_type ev = lit ''result'' \<Longrightarrow>
     r_task_id v = nr_task_id input \<Longrightarrow> r_created_by v = nr_created_by input \<Longrightarrow>
     r_payload v = nr_payload input \<Longrightarrow>
     result_spec e db input (Inr v) (add_event ev db1)"

lemma result_newI:
  assumes "find_result_by_key db (nr_created_by input) (nr_idempotency_key input) = Inr None"
    and "require_task db (nr_task_id input) = Inr t"
    and a: "a = \<lparr>r_result_id = rid, r_task_id = nr_task_id input, r_created_by = nr_created_by input,
          r_payload = nr_payload input, r_created_at = ct, r_provenance = p\<rparr>"
    and ins: "insert_result a (nr_idempotency_key input) db = Inr db1"
    and app: "append_event e n (lit ''result'') rid (Some (nr_task_id input)) (t_wing t) ty w None None
           None d at db1 = Inr db2"
    and read: "get_result db2 rid = Some v"
  shows "result_spec e db input (Inr v) db2"
proof -
  have t: "find_task db (r_task_id a) = Some t" "t_task_id t = nr_task_id input"
    using assms(2) by (auto simp: a dest: find_task_id)
  from append_event_next [OF app [folded t(2)] insert_events(4) [OF ins]]
  obtain ev where ev: "db2 = add_event ev db1" "next_event db t ev" "ev_entity_type ev = lit ''result''"
    by metis
  have v: "v = a" using read ev(1) get_result_insert [OF ins, of rid] by (simp add: a)
  show ?thesis
    unfolding ev(1) v by (rule result_new [OF assms(1) t(1) ins]; (fact ev | simp add: a))
qed

lemma put_result_outcome: "outcome (result_spec e db input) (put_result e db input p)"
  unfolding put_result_def Let_def
  by (intro outcome)
    ((auto intro: result_spec.intros; fail) | (rule result_newI [OF _ _ refl]; (assumption | simp)))+

section \<open>Acknowledgement\<close>

inductive ack_spec :: "env \<Rightarrow> coord \<Rightarrow> rstr \<Rightarrow> rstr \<Rightarrow> storage_error + message \<Rightarrow> coord \<Rightarrow> bool"
  for e db mid actor where
  ack_error: "ack_spec e db mid actor (Inl x) db"
| ack_replay:
    "get_message db mid = Some m \<Longrightarrow> m_recipient m = actor \<Longrightarrow> m_acknowledged_at m \<noteq> None \<Longrightarrow>
     ack_spec e db mid actor (Inr m) db"
| ack_new:
    "get_message db mid = Some m \<Longrightarrow> m_recipient m = actor \<Longrightarrow> m_acknowledged_at m = None \<Longrightarrow>
     find_task db (m_task_id m) = Some t \<Longrightarrow> next_event db t ev \<Longrightarrow>
     ev_entity_type ev = lit ''message'' \<Longrightarrow> ev_actor ev = actor \<Longrightarrow>
     ack_spec e db mid actor (Inr (acknowledged (env_now e) actor m))
       (add_event ev (update_message (acknowledged (env_now e) actor) mid db))"

lemma get_message_update_message:
  assumes "\<And>m. m_message_id (f m) = m_message_id m"
  shows "get_message (update_message f mid db) mid' =
    map_option (\<lambda>m. if m_message_id m = mid then f m else m) (get_message db mid')"
  using find_row_update_rows [of "\<lambda>r. m_message_id (mr_message r) = mid"
      "\<lambda>r. m_message_id (mr_message r) = mid'" "\<lambda>r. r\<lparr>mr_message := f (mr_message r)\<rparr>" "cd_messages db"] assms
  by (auto simp: get_message_def update_message_def option.map_comp intro!: option.map_cong)

lemma ack_newI:
  assumes "get_message db mid = Some m" and "\<not> m_recipient m \<noteq> actor" and "\<not> m_acknowledged_at m \<noteq> None"
    and "task_wing db (m_task_id m) = Inr wing" and "format_time e (env_now e) = Inr at"
    and app: "append_event e n (lit ''message'') mid (Some (m_task_id m)) wing ty actor None None None None at'
      (update_message (\<lambda>m. m\<lparr>m_acknowledged_at := Some at, m_acknowledged_by := Some actor\<rparr>) mid db) = Inr db'"
    and read: "get_message db' mid = Some v"
  shows "ack_spec e db mid actor (Inr v) db'"
proof -
  let ?db1 = "update_message (acknowledged (env_now e) actor) mid db"
  have at: "at = env_now e" using assms(5) by (rule format_time_InrD)
  then have f: "(\<lambda>m. m\<lparr>m_acknowledged_at := Some at, m_acknowledged_by := Some actor\<rparr>) =
      acknowledged (env_now e) actor" by (simp add: acknowledged_def fun_eq_iff)
  from assms(4) obtain t where t: "find_task db (m_task_id m) = Some t" "t_wing t = wing" by auto
  have app': "append_event e n (lit ''message'') mid (Some (t_task_id t)) (t_wing t) ty actor None None None
      None at' ?db1 = Inr db'"
    using app unfolding f by (simp add: t(2) find_task_id [OF t(1)])
  have "cd_events ?db1 = cd_events db \<and> cd_event_seq ?db1 = cd_event_seq db"
    by (simp add: update_message_def)
  from append_event_next [OF app' this]
  obtain ev where ev: "db' = add_event ev ?db1" "next_event db t ev" "ev_entity_type ev = lit ''message''"
    "ev_actor ev = actor" by metis
  have v: "v = acknowledged (env_now e) actor m"
    using read ev(1) get_message_update_message [of "acknowledged (env_now e) actor" mid db mid]
      assms(1) get_message_id [OF assms(1)] by (simp add: acknowledged_def)
  show ?thesis
    unfolding ev(1) v by (rule ack_new [OF assms(1) _ _ t(1)]) (use assms(2,3) ev in simp_all)
qed

lemma acknowledge_message_outcome:
  "outcome (ack_spec e db mid actor) (acknowledge_message e db mid actor)"
  unfolding acknowledge_message_def Let_def
  by (intro outcome)
    ((auto intro: ack_spec.intros; fail) | (rule ack_newI; (assumption | simp)))+

end
