(* ===== verification/Contracts.thy ===== *)
theory Contracts
  imports Storage_Base
begin

text \<open>
  The interfaces the stores share, as locales. \<open>state_machine\<close> is a store driven by a sequence of
  calls with an invariant; \<open>history_machine\<close> adds an order between its states (what later calls
  may not undo). \<open>idempotent_store\<close> is the contract of every keyed creation: a replay returns the
  row stored under the key and writes nothing. \<open>cas_register\<close> is the contract of every write that
  names the revision it expects. Each is interpreted on the stores' own operations in the theory
  that models them.
\<close>

section \<open>Stores as state machines\<close>

locale state_machine =
  fixes init :: 's
    and exec :: "'c \<Rightarrow> 's \<Rightarrow> 's"
    and inv :: "'s \<Rightarrow> bool"
  assumes init_inv: "inv init"
    and exec_inv: "inv s \<Longrightarrow> inv (exec c s)"
begin

lemma run_inv: "inv s \<Longrightarrow> inv (run_calls exec cs s)"
  by (induction cs arbitrary: s) (auto intro: exec_inv)

lemma reachable_inv: "inv (run_calls exec cs init)"
  by (rule run_inv [OF init_inv])

end

locale history_machine = state_machine init exec inv
  for init :: 's and exec :: "'c \<Rightarrow> 's \<Rightarrow> 's" and inv :: "'s \<Rightarrow> bool" +
  fixes extends :: "'s \<Rightarrow> 's \<Rightarrow> bool"
  assumes extends_refl: "extends s s"
    and extends_trans: "extends s t \<Longrightarrow> extends t u \<Longrightarrow> extends s u"
    and exec_extends: "inv s \<Longrightarrow> extends s (exec c s)"
begin

lemma run_extends: "inv s \<Longrightarrow> extends s (run_calls exec cs s)"
proof (induction cs arbitrary: s)
  case (Cons c cs)
  have "extends (exec c s) (run_calls exec cs (exec c s))"
    by (rule Cons.IH [OF exec_inv [OF Cons.prems]])
  with exec_extends [OF Cons.prems] show ?case by (auto intro: extends_trans)
qed (simp add: extends_refl)

lemma reachable_extends: "extends (run_calls exec cs init) (run_calls exec (cs @ ds) init)"
  by (simp add: run_calls_append run_extends reachable_inv)

end

section \<open>Keyed creation\<close>

text \<open>
  \<open>accepts\<close> is the validation of the input alone; \<open>ident\<close> is the part of a stored value that later
  operations may not change.
\<close>

locale idempotent_store =
  fixes put :: "'e \<Rightarrow> 'i \<Rightarrow> 's \<Rightarrow> ('x + 'v) \<times> 's"
    and key :: "'i \<Rightarrow> 'k"
    and lookup :: "'s \<Rightarrow> 'k \<Rightarrow> 'v option"
    and accepts :: "'e \<Rightarrow> 'i \<Rightarrow> bool"
    and inv :: "'s \<Rightarrow> bool"
    and ident :: "'v \<Rightarrow> 'w"
    and extends :: "'s \<Rightarrow> 's \<Rightarrow> bool"
  assumes put_stored: "inv s \<Longrightarrow> put e i s = (Inr v, s') \<Longrightarrow> lookup s' (key i) = Some v"
    and put_replay: "inv s \<Longrightarrow> accepts e i \<Longrightarrow> lookup s (key i) = Some v \<Longrightarrow> put e i s = (Inr v, s)"
    and put_error: "put e i s = (Inl x, s') \<Longrightarrow> s' = s"
    and extends_keeps: "inv s' \<Longrightarrow> extends s s' \<Longrightarrow> lookup s k = Some v \<Longrightarrow>
          \<exists>v'. lookup s' k = Some v' \<and> ident v' = ident v"
    and put_inv: "inv s \<Longrightarrow> inv (snd (put e i s))"
begin

lemma put_inv': "inv s \<Longrightarrow> put e i s = (r, s') \<Longrightarrow> inv s'"
  using put_inv [of s e i] by simp

text \<open>A retry of a committed creation returns the committed value and leaves the store alone.\<close>

lemma retry: "inv s \<Longrightarrow> put e i s = (Inr v, s') \<Longrightarrow> accepts e' i \<Longrightarrow> put e' i s' = (Inr v, s')"
  by (rule put_replay [OF put_inv' _ put_stored])

text \<open>So does any other input under the same key, and a retry after any number of other calls.\<close>

lemma late_retry:
  assumes "inv s" and "put e i s = (Inr v, s')" and "extends s' s''" and "inv s''"
    and "accepts e' j" and "key j = key i"
  shows "\<exists>v'. put e' j s'' = (Inr v', s'') \<and> ident v' = ident v"
proof -
  from extends_keeps [OF assms(4,3) put_stored [OF assms(1,2)]]
  obtain v' where v: "lookup s'' (key i) = Some v'" "ident v' = ident v" by blast
  have "put e' j s'' = (Inr v', s'')"
    by (rule put_replay [OF assms(4,5)]) (simp add: assms(6) v(1))
  with v(2) show ?thesis by blast
qed

end

section \<open>Compare-and-swap writes\<close>

locale cas_register =
  fixes read :: "'s \<Rightarrow> 'k \<Rightarrow> 'v option"
    and revision :: "'v \<Rightarrow> int"
    and cas :: "'e \<Rightarrow> 'k \<Rightarrow> int \<Rightarrow> 'a \<Rightarrow> 's \<Rightarrow> ('x + 'v revisioned_write) \<times> 's"
    and inv :: "'s \<Rightarrow> bool"
  assumes cas_stale: "inv s \<Longrightarrow> read s k = Some v \<Longrightarrow> revision v \<noteq> r \<Longrightarrow> cas e k r a s = (res, s') \<Longrightarrow>
          s' = s \<and> (res = Inr (Conflict (Some (revision v))) \<or> (\<exists>x. res = Inl x))"
    and cas_applied: "inv s \<Longrightarrow> cas e k r a s = (Inr (Applied v'), s') \<Longrightarrow>
          read s' k = Some v' \<and>
          (\<exists>v. read s k = Some v \<and> revision v = r \<and> (s' = s \<and> v' = v \<or> revision v' = r + 1))"
    and cas_conflict: "inv s \<Longrightarrow> cas e k r a s = (Inr (Conflict c), s') \<Longrightarrow> s' = s"
    and cas_frame: "inv s \<Longrightarrow> cas e k r a s = (res, s') \<Longrightarrow> k' \<noteq> k \<Longrightarrow> read s' k' = read s k'"
    and cas_inv: "inv s \<Longrightarrow> cas e k r a s = (res, s') \<Longrightarrow> inv s'"
begin

text \<open>
  Of two writers that read the same revision, at most one changes the record: after the first one
  did, the second writes nothing.
\<close>

lemma no_lost_update:
  assumes "inv s" and "cas e k r a s = (Inr (Applied v), s1)" and "s1 \<noteq> s"
    and "cas e' k r a' s1 = (res, s2)"
  shows "s2 = s1 \<and> (res = Inr (Conflict (Some (r + 1))) \<or> (\<exists>x. res = Inl x))"
proof -
  from cas_applied [OF assms(1,2)] assms(3)
  have v: "read s1 k = Some v" "revision v = r + 1" by auto
  from cas_stale [OF cas_inv [OF assms(1,2)] v(1) _ assms(4)] v(2) show ?thesis by simp
qed

lemma applied_expected:
  "inv s \<Longrightarrow> cas e k r a s = (Inr (Applied v'), s') \<Longrightarrow> map_option revision (read s k) = Some r"
  using cas_applied by fastforce

end

end
