(* ===== verification/Coordination_Inv.thy ===== *)
theory Coordination_Inv
  imports Coordination_Creations Contracts
begin

text \<open>
  The refinement of the abstract machine by the store's calls, and the invariant of every state the
  store can reach: keys are unique and sequences ascending, rows refer to existing tasks, a task's
  ownership columns are consistent, links between tasks point backwards, and replaying a task's audit
  trail from its creation yields the task's current state and revision.
\<close>

section \<open>Refinement\<close>

lemma create_spec_step:
  assumes "create_spec db input s res db'" and "s \<noteq> TExpired"
  shows "db' = db \<or> coord_step now db db'"
  using assms by (cases rule: create_spec.cases) (auto intro: step_create)

lemma send_spec_step: "send_spec e db i res db' \<Longrightarrow> db' = db \<or> coord_step now db db'"
  by (erule send_spec.cases) (blast intro: step_message)+

lemma artifact_spec_step: "artifact_spec e db i res db' \<Longrightarrow> db' = db \<or> coord_step now db db'"
  by (erule artifact_spec.cases) (blast intro: step_artifact)+

lemma result_spec_step: "result_spec e db i res db' \<Longrightarrow> db' = db \<or> coord_step now db db'"
  by (erule result_spec.cases) (blast intro: step_result)+

lemma ack_spec_step: "ack_spec e db mid actor res db' \<Longrightarrow> db' = db \<or> coord_step (env_now e) db db'"
  by (erule ack_spec.cases) (blast intro: step_acknowledge)+

lemma create_task_step: "snd (create_task e db i p) = db \<or> coord_step now db (snd (create_task e db i p))"
proof -
  have "snd (create_task e db i p) = snd (create_task_with_state e db i TPending False p)"
    by (auto simp: create_task_def split: prod.splits sum.splits)
  with create_task_with_state_outcome [of db i TPending e False p] show ?thesis
    by (auto simp: outcome_def dest: create_spec_step)
qed

lemma import_task_step: "snd (import_task e db i s) = db \<or> coord_step now db (snd (import_task e db i s))"
  using create_task_with_state_outcome [of db i s e True None]
  by (auto simp: import_task_def outcome_def dest: create_spec_step)

theorem coord_exec_refines:
  "coord_exec c db = db \<or> coord_step (env_now (call_env c)) db (coord_exec c db)"
proof (cases c)
  case (CallCreate e i p)
  then show ?thesis using create_task_step by simp
next
  case (CallImport e i s)
  then show ?thesis using import_task_step by simp
next
  case (CallClaim e t w r ttl)
  with claim_task_outcome [of e db t w r ttl] show ?thesis
    by (auto simp: outcome_def elim!: claim_spec.cases intro: step_task)
next
  case (CallRenew e t w r ttl)
  with renew_lease_outcome [of e db t w r ttl] show ?thesis
    by (auto simp: outcome_def elim!: renew_spec.cases intro: step_task)
next
  case (CallTransition e t w r s d)
  with transition_task_outcome [of e db t w r s d] show ?thesis
    by (auto simp: outcome_def elim!: transition_spec.cases intro: step_task)
next
  case (CallSend e i p)
  with send_message_outcome [of e db i p] show ?thesis
    by (simp add: outcome_def send_spec_step)
next
  case (CallAck e m a)
  with acknowledge_message_outcome [of e db m a] show ?thesis
    by (simp add: outcome_def ack_spec_step)
next
  case (CallArtifact e i p)
  with put_artifact_outcome [of e db i p] show ?thesis
    by (simp add: outcome_def artifact_spec_step)
next
  case (CallResult e i p)
  with put_result_outcome [of e db i p] show ?thesis
    by (simp add: outcome_def result_spec_step)
qed

section \<open>The audit trail of a task\<close>

definition task_trail :: "coord \<Rightarrow> rstr \<Rightarrow> coordination_event list" where
  "task_trail db tid =
     filter (\<lambda>ev. ev_entity_type ev = lit ''task'' \<and> ev_entity_id ev = tid) (cd_events db)"

text \<open>The lifecycle relation as a test, so that a trail can be replayed by evaluation.\<close>

definition lifecycle_ok :: "task_state \<Rightarrow> task_state \<Rightarrow> bool" where
  "lifecycle_ok s s' \<longleftrightarrow> \<not> task_terminal s \<and>
     (s' = TRunning \<or> s' = TExpired \<or> s' = TPending \<and> (s = TRunning \<or> s = TPending) \<or> allowed_transition s s')"

lemma allowed_not_terminal: "allowed_transition s s' \<Longrightarrow> \<not> task_terminal s"
  by (auto simp: allowed_transition_def split: if_splits)

lemma lifecycle_iff: "lifecycle s s' \<longleftrightarrow> lifecycle_ok s s'"
  by (auto simp: lifecycle_ok_def intro: lifecycle.intros elim!: lifecycleE dest: allowed_not_terminal)

fun replay_from :: "task_state \<Rightarrow> int \<Rightarrow> coordination_event list \<Rightarrow> (task_state \<times> int) option" where
  "replay_from s r [] = Some (s, r)"
| "replay_from s r (ev # evs) =
     (if ev_revision ev \<noteq> Some (r + 1) then None
      else case (ev_from_state ev, ev_to_state ev) of
        (None, None) \<Rightarrow> replay_from s (r + 1) evs
      | (Some a, Some b) \<Rightarrow> if a = s \<and> lifecycle_ok s b then replay_from b (r + 1) evs else None
      | _ \<Rightarrow> None)"

fun replay :: "coordination_event list \<Rightarrow> (task_state \<times> int) option" where
  "replay [] = None"
| "replay (ev # evs) =
     (case (ev_from_state ev, ev_to_state ev, ev_revision ev) of
        (None, Some s, Some r) \<Rightarrow> if r = 0 then replay_from s 0 evs else None
      | _ \<Rightarrow> None)"

lemma replay_from_append:
  "replay_from s r (evs @ [ev]) =
     (case replay_from s r evs of None \<Rightarrow> None | Some (s', r') \<Rightarrow> replay_from s' r' [ev])"
  by (induction evs arbitrary: s r) (auto split: option.splits)

lemma replay_append:
  "replay evs = Some (s, r) \<Longrightarrow> replay (evs @ [ev]) = replay_from s r [ev]"
  by (cases evs) (auto simp: replay_from_append split: option.splits if_splits)

lemma task_change_lifecycle:
  "task_change now w t t' src dst \<Longrightarrow>
   src = None \<and> dst = None \<and> t_state t' = t_state t \<or>
   src = Some (t_state t) \<and> dst = Some (t_state t') \<and> lifecycle (t_state t) (t_state t')"
  by (auto simp: task_changes elim!: task_change.cases intro: lifecycle.intros)

section \<open>The invariant\<close>

definition wf_task :: "task \<Rightarrow> bool" where
  "wf_task t \<longleftrightarrow> 0 \<le> t_revision t \<and>
     (task_terminal (t_state t) \<longrightarrow>
        t_owner t = None \<and> t_executor_affinity t = None \<and> t_lease_expires_at t = None) \<and>
     (t_lease_expires_at t \<noteq> None \<longrightarrow> t_owner t \<noteq> None) \<and>
     (t_executor_affinity t \<noteq> None \<longrightarrow> t_owner t = t_executor_affinity t) \<and>
     wing_normalized (t_wing t) = Inr (t_wing t) \<and> t_wing t \<noteq> UNSCOPED_WING"

definition tasks_ok :: "coord \<Rightarrow> bool" where
  "tasks_ok db \<longleftrightarrow>
     keyed_table (\<lambda>r. t_task_id (tr_task r)) (\<lambda>r. (t_created_by (tr_task r), tr_key r)) (cd_tasks db) \<and>
     seq_table tr_sequence (cd_task_seq db) (cd_tasks db) \<and>
     (\<forall>r \<in> set (cd_tasks db). wf_task (tr_task r)) \<and>
     (\<forall>r \<in> set (cd_tasks db). \<forall>d \<in> set (task_links (tr_task r)).
        \<exists>r' \<in> set (cd_tasks db). t_task_id (tr_task r') = d \<and> tr_sequence r' < tr_sequence r)"

definition messages_ok :: "coord \<Rightarrow> bool" where
  "messages_ok db \<longleftrightarrow>
     keyed_table (\<lambda>r. m_message_id (mr_message r)) (\<lambda>r. (m_sender (mr_message r), mr_key r)) (cd_messages db) \<and>
     seq_table (\<lambda>r. m_sequence (mr_message r)) (cd_message_seq db) (cd_messages db) \<and>
     (\<forall>r \<in> set (cd_messages db). find_task db (m_task_id (mr_message r)) \<noteq> None \<and>
        (m_acknowledged_at (mr_message r) = None \<and> m_acknowledged_by (mr_message r) = None \<or>
         m_acknowledged_at (mr_message r) \<noteq> None \<and>
         m_acknowledged_by (mr_message r) = Some (m_recipient (mr_message r))))"

definition artifacts_ok :: "coord \<Rightarrow> bool" where
  "artifacts_ok db \<longleftrightarrow>
     keyed_table (\<lambda>r. a_artifact_id (ar_artifact r)) (\<lambda>r. (a_created_by (ar_artifact r), ar_key r)) (cd_artifacts db) \<and>
     (\<forall>r \<in> set (cd_artifacts db). find_task db (a_task_id (ar_artifact r)) \<noteq> None)"

definition results_ok :: "coord \<Rightarrow> bool" where
  "results_ok db \<longleftrightarrow>
     keyed_table (\<lambda>r. r_result_id (rr_result r)) (\<lambda>r. (r_created_by (rr_result r), rr_key r)) (cd_results db) \<and>
     (\<forall>r \<in> set (cd_results db). find_task db (r_task_id (rr_result r)) \<noteq> None)"

definition event_ok :: "coord \<Rightarrow> coordination_event \<Rightarrow> bool" where
  "event_ok db ev \<longleftrightarrow>
     (\<exists>t. find_task db (t_task_id t) = Some t \<and> ev_task_id ev = Some (t_task_id t) \<and>
        ev_wing ev = t_wing t \<and> (ev_entity_type ev = lit ''task'' \<longrightarrow> ev_entity_id ev = t_task_id t))"

definition events_ok :: "coord \<Rightarrow> bool" where
  "events_ok db \<longleftrightarrow>
     keyed_table ev_event_id ev_sequence (cd_events db) \<and>
     seq_table ev_sequence (cd_event_seq db) (cd_events db) \<and>
     (\<forall>ev \<in> set (cd_events db). event_ok db ev)"

definition trails_ok :: "coord \<Rightarrow> bool" where
  "trails_ok db \<longleftrightarrow>
     (\<forall>tid t. find_task db tid = Some t \<longrightarrow> replay (task_trail db tid) = Some (t_state t, t_revision t))"

definition coord_inv :: "coord \<Rightarrow> bool" where
  "coord_inv db \<longleftrightarrow>
     tasks_ok db \<and> messages_ok db \<and> artifacts_ok db \<and> results_ok db \<and> events_ok db \<and> trails_ok db"

lemma coord_inv_init: "coord_inv coord_init"
  by (simp add: coord_inv_def tasks_ok_def messages_ok_def artifacts_ok_def results_ok_def
      events_ok_def trails_ok_def coord_init_def find_task_def)

section \<open>Preservation\<close>

text \<open>Tasks are never removed, and keep their fixed columns.\<close>

definition tasks_kept :: "coord \<Rightarrow> coord \<Rightarrow> bool" where
  "tasks_kept db db' \<longleftrightarrow>
     (\<forall>tid t. find_task db tid = Some t \<longrightarrow> (\<exists>t'. find_task db' tid = Some t' \<and> same_static t t'))"

lemma same_static_refl [simp]: "same_static t t"
  by (simp add: same_static_def)

lemma same_static_trans: "same_static t u \<Longrightarrow> same_static u v \<Longrightarrow> same_static t v"
  by (simp add: same_static_def)

lemma same_static_id: "same_static t t' \<Longrightarrow> t_task_id t' = t_task_id t \<and> t_wing t' = t_wing t \<and>
    t_created_by t' = t_created_by t \<and> task_links t' = task_links t"
  by (simp add: same_static_def task_links_def)

lemma tasks_kept_same: "find_task db' = find_task db \<Longrightarrow> tasks_kept db db'"
  by (simp add: tasks_kept_def)

lemma find_task_insert_other:
  "insert_message m key db = Inr db1 \<Longrightarrow> find_task db1 = find_task db"
  "insert_artifact a key db = Inr db1 \<Longrightarrow> find_task db1 = find_task db"
  "insert_result v key db = Inr db1 \<Longrightarrow> find_task db1 = find_task db"
  by (auto dest!: insert_message_InrD(4) insert_artifact_InrD(4) insert_result_InrD(4)
      simp: find_task_def fun_eq_iff)

lemma find_task_update_message [simp]: "find_task (update_message f mid db) = find_task db"
  by (simp add: update_message_def find_task_def fun_eq_iff)

lemma task_written_kept: "task_written now w tid t t' src dst db db' \<Longrightarrow> tasks_kept db db'"
proof -
  assume w: "task_written now w tid t t' src dst db db'"
  then have "find_task db tid = Some t" and "same_static t t'"
    by (auto simp: task_written_def dest: task_change_revision)
  with task_written_find [OF w] show ?thesis
    unfolding tasks_kept_def by (metis option.inject same_static_refl)
qed

lemma coord_step_kept: "coord_step now db db' \<Longrightarrow> tasks_kept db db'"
proof (induction rule: coord_step.induct)
  case (step_create t key db db1 ev now)
  then have "find_task db (t_task_id t) = None" by (auto dest: insert_task_InrD)
  then show ?case
    by (auto simp: tasks_kept_def find_task_insert [OF step_create(1)] intro: same_static_refl)
next
  case step_task
  then show ?case by (rule task_written_kept)
qed (auto simp: find_task_insert_other intro!: tasks_kept_same)

lemma event_ok_kept: "event_ok db ev \<Longrightarrow> tasks_kept db db' \<Longrightarrow> event_ok db' ev"
proof -
  assume "event_ok db ev" and k: "tasks_kept db db'"
  then obtain t where t: "find_task db (t_task_id t) = Some t" "ev_task_id ev = Some (t_task_id t)"
    "ev_wing ev = t_wing t" "ev_entity_type ev = lit ''task'' \<longrightarrow> ev_entity_id ev = t_task_id t"
    by (auto simp: event_ok_def)
  from k t(1) obtain t' where "find_task db' (t_task_id t) = Some t'" and "same_static t t'"
    unfolding tasks_kept_def by blast
  with t show ?thesis unfolding event_ok_def by (intro exI [of _ t']) (auto dest: same_static_id)
qed

lemma find_task_row:
  assumes "tasks_ok db" and "r \<in> set (cd_tasks db)"
  shows "find_task db (t_task_id (tr_task r)) = Some (tr_task r)"
  using assms by (auto simp: tasks_ok_def find_task_def dest: keyed_table_find)

lemma find_task_Some_row:
  "find_task db tid = Some t \<Longrightarrow> \<exists>r \<in> set (cd_tasks db). tr_task r = t \<and> t_task_id t = tid"
  by (auto simp: find_task_def dest: find_row_SomeD)

lemma task_change_wf: "task_change now w t t' src dst \<Longrightarrow> wf_task t \<Longrightarrow> wf_task t'"
  by (erule task_change.cases)
    (auto simp: wf_task_def task_changes none_or_iff allowed_transition_def lease_live_def opt_holds_iff
      split: if_splits task_state.splits)

subsection \<open>Tasks\<close>

lemma tasks_ok_cong:
  "cd_tasks db' = cd_tasks db \<Longrightarrow> cd_task_seq db' = cd_task_seq db \<Longrightarrow> tasks_ok db' = tasks_ok db"
  by (simp add: tasks_ok_def)

lemma tasks_ok_add_event [simp]: "tasks_ok (add_event ev db) = tasks_ok db"
  by (rule tasks_ok_cong) (simp_all add: add_event_def)

lemma tasks_ok_insert:
  assumes "tasks_ok db" and ins: "insert_task t key db = Inr db1" and "fresh_task t"
    and links: "\<forall>d \<in> set (task_links t). find_task db d \<noteq> None"
  shows "tasks_ok db1"
proof -
  let ?r = "\<lparr>tr_task = t, tr_key = key, tr_sequence = cd_task_seq db + 1\<rparr>"
  note D = insert_task_InrD [OF ins]
  from D(1) have i: "find_row (\<lambda>x. t_task_id (tr_task x) = t_task_id (tr_task ?r)) (cd_tasks db) = None"
    by (simp add: find_task_def)
  from D(2) have k: "find_row (\<lambda>x. (t_created_by (tr_task x), tr_key x) = (t_created_by (tr_task ?r), tr_key ?r))
      (cd_tasks db) = None"
    by (simp add: find_row_None)
  have l: "\<exists>r' \<in> set (cd_tasks db). t_task_id (tr_task r') = d \<and> tr_sequence r' < tr_sequence ?r"
    if d: "d \<in> set (task_links t)" for d
  proof -
    from links d obtain t' where "find_task db d = Some t'" by blast
    then obtain r' where r: "r' \<in> set (cd_tasks db)" "tr_task r' = t'" "t_task_id t' = d"
      using find_task_Some_row by blast
    with assms(1) have "tr_sequence r' \<le> cd_task_seq db" by (simp add: tasks_ok_def seq_table_def)
    with r show ?thesis by force
  qed
  show ?thesis
    unfolding tasks_ok_def
  proof (intro conjI)
    show "keyed_table (\<lambda>r. t_task_id (tr_task r)) (\<lambda>r. (t_created_by (tr_task r), tr_key r)) (cd_tasks db1)"
      using assms(1) keyed_table_append [OF _ i k] by (simp add: tasks_ok_def D(3))
    show "seq_table tr_sequence (cd_task_seq db1) (cd_tasks db1)"
      using assms(1) seq_table_append [of tr_sequence "cd_task_seq db" "cd_tasks db" ?r]
      by (simp add: tasks_ok_def D(3))
    show "\<forall>r \<in> set (cd_tasks db1). wf_task (tr_task r)"
      using assms(1,3) by (auto simp: tasks_ok_def D(3) fresh_task_def wf_task_def)
    show "\<forall>r \<in> set (cd_tasks db1). \<forall>d \<in> set (task_links (tr_task r)).
        \<exists>r' \<in> set (cd_tasks db1). t_task_id (tr_task r') = d \<and> tr_sequence r' < tr_sequence r"
      using assms(1) l by (fastforce simp: tasks_ok_def D(3))
  qed
qed

lemma tasks_ok_update:
  assumes ok: "tasks_ok db" and f: "\<And>t. same_static t (f t)"
    and "find_task db tid = Some t" and "wf_task (f t)"
  shows "tasks_ok (update_task f tid db)"
proof -
  let ?p = "\<lambda>r. t_task_id (tr_task r) = tid" and ?f = "\<lambda>r. r\<lparr>tr_task := f (tr_task r)\<rparr>"
  have st: "t_task_id (f u) = t_task_id u" "t_created_by (f u) = t_created_by u"
    "task_links (f u) = task_links u" for u
    using same_static_id [OF f [of u]] by auto
  have row: "tr_task r = t" if "r \<in> set (cd_tasks db)" "?p r" for r
    using find_task_row [OF ok that(1)] that(2) assms(3) by simp
  show ?thesis
    unfolding tasks_ok_def
  proof (intro conjI)
    show "keyed_table (\<lambda>r. t_task_id (tr_task r)) (\<lambda>r. (t_created_by (tr_task r), tr_key r))
        (cd_tasks (update_task f tid db))"
      using ok by (simp add: update_task_def tasks_ok_def keyed_table_update st)
    show "seq_table tr_sequence (cd_task_seq (update_task f tid db)) (cd_tasks (update_task f tid db))"
      using ok by (simp add: update_task_def tasks_ok_def seq_table_update)
    show "\<forall>r \<in> set (cd_tasks (update_task f tid db)). wf_task (tr_task r)"
      using ok row assms(4) by (auto simp: update_task_def tasks_ok_def set_update_rows)
    show "\<forall>r \<in> set (cd_tasks (update_task f tid db)). \<forall>d \<in> set (task_links (tr_task r)).
        \<exists>r' \<in> set (cd_tasks (update_task f tid db)). t_task_id (tr_task r') = d \<and> tr_sequence r' < tr_sequence r"
    proof (intro ballI)
      fix r d
      assume "r \<in> set (cd_tasks (update_task f tid db))" and d: "d \<in> set (task_links (tr_task r))"
      then obtain r0 where r0: "r0 \<in> set (cd_tasks db)" "r = (if ?p r0 then ?f r0 else r0)"
        by (auto simp: update_task_def set_update_rows)
      with d st have "d \<in> set (task_links (tr_task r0))" and sq: "tr_sequence r = tr_sequence r0"
        by (auto split: if_splits)
      with ok r0(1) obtain r1 where r1: "r1 \<in> set (cd_tasks db)" "t_task_id (tr_task r1) = d"
        "tr_sequence r1 < tr_sequence r0" unfolding tasks_ok_def by blast
      let ?r = "if ?p r1 then ?f r1 else r1"
      have "?r \<in> set (cd_tasks (update_task f tid db))"
        using r1(1) by (auto simp: update_task_def set_update_rows)
      moreover have "t_task_id (tr_task ?r) = d \<and> tr_sequence ?r < tr_sequence r"
        using r1 sq st by simp
      ultimately show "\<exists>r' \<in> set (cd_tasks (update_task f tid db)).
          t_task_id (tr_task r') = d \<and> tr_sequence r' < tr_sequence r" by blast
    qed
  qed
qed

lemma find_task_wf: "tasks_ok db \<Longrightarrow> find_task db tid = Some t \<Longrightarrow> wf_task t"
  using find_task_Some_row by (fastforce simp: tasks_ok_def)

lemma task_written_tasks_ok:
  assumes "task_written now w tid t t' src dst db db'" and "tasks_ok db"
  shows "tasks_ok db'"
proof -
  from assms(1) obtain ev f where w: "db' = add_event ev (update_task f tid db)"
    "find_task db tid = Some t" "task_change now w t t' src dst" "f t = t'" "\<And>r. same_static r (f r)"
    by (auto simp: task_written_def)
  then have "wf_task (f t)" using assms(2) by (auto intro: task_change_wf find_task_wf)
  with w assms(2) show ?thesis by (simp add: tasks_ok_update)
qed

lemma cd_tasks_insert_other:
  "insert_message m key db = Inr db1 \<Longrightarrow> cd_tasks db1 = cd_tasks db \<and> cd_task_seq db1 = cd_task_seq db"
  "insert_artifact a key db = Inr db1 \<Longrightarrow> cd_tasks db1 = cd_tasks db \<and> cd_task_seq db1 = cd_task_seq db"
  "insert_result v key db = Inr db1 \<Longrightarrow> cd_tasks db1 = cd_tasks db \<and> cd_task_seq db1 = cd_task_seq db"
  by (auto dest!: insert_message_InrD(4) insert_artifact_InrD(4) insert_result_InrD(4))

lemma coord_step_tasks_ok: "coord_step now db db' \<Longrightarrow> tasks_ok db \<Longrightarrow> tasks_ok db'"
proof (induction rule: coord_step.induct)
  case step_create
  then show ?case by (simp add: tasks_ok_insert)
next
  case step_task
  then show ?case by (rule task_written_tasks_ok)
next
  case step_message
  then show ?case using tasks_ok_cong by (metis cd_tasks_insert_other(1) tasks_ok_add_event)
next
  case step_artifact
  then show ?case using tasks_ok_cong by (metis cd_tasks_insert_other(2) tasks_ok_add_event)
next
  case step_result
  then show ?case using tasks_ok_cong by (metis cd_tasks_insert_other(3) tasks_ok_add_event)
next
  case (step_acknowledge db mid m t ev now)
  then have "tasks_ok (update_message (acknowledged now (m_recipient m)) mid db)"
    using tasks_ok_cong [of "update_message (acknowledged now (m_recipient m)) mid db" db]
    by (simp add: update_message_def)
  then show ?case by simp
qed

end
