(* ===== verification/Coordination_Reach.thy ===== *)
theory Coordination_Reach
  imports Coordination_Inv
begin

text \<open>
  The rest of the invariant's preservation (records, events, audit trails), the order between states
  that later calls respect (\<open>coord_extends\<close>), and the interpretation of the state-machine contracts
  on \<open>coord_exec\<close>.
\<close>

section \<open>Messages, artifacts and results\<close>

lemma kept_some: "tasks_kept db db' \<Longrightarrow> find_task db tid \<noteq> None \<Longrightarrow> find_task db' tid \<noteq> None"
  unfolding tasks_kept_def by fastforce

lemma tasks_kept_add_event [simp]: "tasks_kept db (add_event ev db') = tasks_kept db db'"
  by (simp add: tasks_kept_def)

lemma messages_ok_frame:
  assumes "messages_ok db" and "tasks_kept db db'"
    and "cd_messages db' = cd_messages db" and "cd_message_seq db' = cd_message_seq db"
  shows "messages_ok db'"
  using assms(1) kept_some [OF assms(2)] unfolding messages_ok_def assms(3,4) by blast

lemma artifacts_ok_frame:
  assumes "artifacts_ok db" and "tasks_kept db db'" and "cd_artifacts db' = cd_artifacts db"
  shows "artifacts_ok db'"
  using assms(1) kept_some [OF assms(2)] unfolding artifacts_ok_def assms(3) by blast

lemma results_ok_frame:
  assumes "results_ok db" and "tasks_kept db db'" and "cd_results db' = cd_results db"
  shows "results_ok db'"
  using assms(1) kept_some [OF assms(2)] unfolding results_ok_def assms(3) by blast

text \<open>Which tables each kind of write touches.\<close>

lemma insert_task_tables:
  "insert_task t key db = Inr db1 \<Longrightarrow> cd_messages db1 = cd_messages db \<and> cd_message_seq db1 = cd_message_seq db \<and>
     cd_artifacts db1 = cd_artifacts db \<and> cd_results db1 = cd_results db"
  by (auto dest!: insert_task_InrD(3))

lemma insert_message_tables:
  "insert_message m key db = Inr db1 \<Longrightarrow> cd_artifacts db1 = cd_artifacts db \<and> cd_results db1 = cd_results db"
  by (auto dest!: insert_message_InrD(4))

lemma insert_artifact_tables:
  "insert_artifact a key db = Inr db1 \<Longrightarrow> cd_messages db1 = cd_messages db \<and>
     cd_message_seq db1 = cd_message_seq db \<and> cd_results db1 = cd_results db"
  by (auto dest!: insert_artifact_InrD(4))

lemma insert_result_tables:
  "insert_result v key db = Inr db1 \<Longrightarrow> cd_messages db1 = cd_messages db \<and>
     cd_message_seq db1 = cd_message_seq db \<and> cd_artifacts db1 = cd_artifacts db"
  by (auto dest!: insert_result_InrD(4))

lemma add_event_tables [simp]:
  "cd_tasks (add_event ev db) = cd_tasks db" "cd_messages (add_event ev db) = cd_messages db"
  "cd_message_seq (add_event ev db) = cd_message_seq db" "cd_artifacts (add_event ev db) = cd_artifacts db"
  "cd_results (add_event ev db) = cd_results db" "cd_task_seq (add_event ev db) = cd_task_seq db"
  by (simp_all add: add_event_def)

lemma update_message_tables [simp]:
  "cd_artifacts (update_message f mid db) = cd_artifacts db" "cd_results (update_message f mid db) = cd_results db"
  "cd_events (update_message f mid db) = cd_events db" "cd_event_seq (update_message f mid db) = cd_event_seq db"
  "cd_message_seq (update_message f mid db) = cd_message_seq db"
  by (simp_all add: update_message_def)

lemma task_written_tables:
  "task_written now w tid t t' src dst db db' \<Longrightarrow> cd_messages db' = cd_messages db \<and>
     cd_message_seq db' = cd_message_seq db \<and> cd_artifacts db' = cd_artifacts db \<and> cd_results db' = cd_results db"
  by (auto simp: task_written_def update_task_def)

lemma messages_ok_insert:
  assumes ok: "messages_ok db" and ins: "insert_message m key db = Inr db1"
    and "m_acknowledged_at m = None" and "m_acknowledged_by m = None"
  shows "messages_ok db1"
proof -
  let ?r = "\<lparr>mr_message = m\<lparr>m_sequence := cd_message_seq db + 1\<rparr>, mr_key = key\<rparr>"
  note D = insert_message_InrD [OF ins]
  from D(1) have i: "find_row (\<lambda>x. m_message_id (mr_message x) = m_message_id (mr_message ?r)) (cd_messages db) = None"
    by (simp add: get_message_def)
  from D(2) have k: "find_row (\<lambda>x. (m_sender (mr_message x), mr_key x) = (m_sender (mr_message ?r), mr_key ?r))
      (cd_messages db) = None"
    by (simp add: find_row_None)
  show ?thesis
    unfolding messages_ok_def
  proof (intro conjI)
    show "keyed_table (\<lambda>r. m_message_id (mr_message r)) (\<lambda>r. (m_sender (mr_message r), mr_key r)) (cd_messages db1)"
      using ok keyed_table_append [OF _ i k] by (simp add: messages_ok_def D(4))
    show "seq_table (\<lambda>r. m_sequence (mr_message r)) (cd_message_seq db1) (cd_messages db1)"
      using ok seq_table_append [of "\<lambda>r. m_sequence (mr_message r)" "cd_message_seq db" "cd_messages db" ?r]
      by (simp add: messages_ok_def D(4))
    have "cd_messages db1 = cd_messages db @ [?r]" by (simp add: D(4))
    then show "\<forall>r \<in> set (cd_messages db1). find_task db1 (m_task_id (mr_message r)) \<noteq> None \<and>
        (m_acknowledged_at (mr_message r) = None \<and> m_acknowledged_by (mr_message r) = None \<or>
         m_acknowledged_at (mr_message r) \<noteq> None \<and>
         m_acknowledged_by (mr_message r) = Some (m_recipient (mr_message r)))"
      using ok D(3) assms(3,4) by (auto simp: messages_ok_def find_task_insert_other(1) [OF ins])
  qed
qed

lemma messages_ok_acknowledge:
  assumes ok: "messages_ok db" and m: "get_message db mid = Some m"
  shows "messages_ok (update_message (acknowledged now (m_recipient m)) mid db)"
proof -
  have row: "mr_message r = m" if "r \<in> set (cd_messages db)" "m_message_id (mr_message r) = mid" for r
    using ok m that by (auto simp: messages_ok_def get_message_def dest: keyed_table_find)
  show ?thesis
    unfolding messages_ok_def
  proof (intro conjI)
    show "keyed_table (\<lambda>r. m_message_id (mr_message r)) (\<lambda>r. (m_sender (mr_message r), mr_key r))
        (cd_messages (update_message (acknowledged now (m_recipient m)) mid db))"
      using ok by (simp add: messages_ok_def update_message_def keyed_table_update acknowledged_def)
    show "seq_table (\<lambda>r. m_sequence (mr_message r))
        (cd_message_seq (update_message (acknowledged now (m_recipient m)) mid db))
        (cd_messages (update_message (acknowledged now (m_recipient m)) mid db))"
      using ok by (simp add: messages_ok_def update_message_def seq_table_update acknowledged_def)
    show "\<forall>r \<in> set (cd_messages (update_message (acknowledged now (m_recipient m)) mid db)).
        find_task (update_message (acknowledged now (m_recipient m)) mid db) (m_task_id (mr_message r)) \<noteq> None \<and>
        (m_acknowledged_at (mr_message r) = None \<and> m_acknowledged_by (mr_message r) = None \<or>
         m_acknowledged_at (mr_message r) \<noteq> None \<and>
         m_acknowledged_by (mr_message r) = Some (m_recipient (mr_message r)))"
    proof (rule ballI)
      fix r
      assume "r \<in> set (cd_messages (update_message (acknowledged now (m_recipient m)) mid db))"
      then obtain r0 where r0: "r0 \<in> set (cd_messages db)" "r = (if m_message_id (mr_message r0) = mid
          then r0\<lparr>mr_message := acknowledged now (m_recipient m) (mr_message r0)\<rparr> else r0)"
        by (auto simp: update_message_def set_update_rows)
      with row [OF r0(1)] ok show "find_task (update_message (acknowledged now (m_recipient m)) mid db)
          (m_task_id (mr_message r)) \<noteq> None \<and>
        (m_acknowledged_at (mr_message r) = None \<and> m_acknowledged_by (mr_message r) = None \<or>
         m_acknowledged_at (mr_message r) \<noteq> None \<and>
         m_acknowledged_by (mr_message r) = Some (m_recipient (mr_message r)))"
        by (auto simp: messages_ok_def acknowledged_def)
    qed
  qed
qed

lemma artifacts_ok_insert:
  assumes ok: "artifacts_ok db" and ins: "insert_artifact a key db = Inr db1"
  shows "artifacts_ok db1"
proof -
  let ?r = "\<lparr>ar_artifact = a, ar_key = key\<rparr>"
  note D = insert_artifact_InrD [OF ins]
  from D(1) have i: "find_row (\<lambda>x. a_artifact_id (ar_artifact x) = a_artifact_id (ar_artifact ?r)) (cd_artifacts db) = None"
    by (simp add: get_artifact_def)
  from D(2) have k: "find_row (\<lambda>x. (a_created_by (ar_artifact x), ar_key x) = (a_created_by (ar_artifact ?r), ar_key ?r))
      (cd_artifacts db) = None"
    by (simp add: find_row_None)
  have "cd_artifacts db1 = cd_artifacts db @ [?r]" by (simp add: D(4))
  with ok D(3) keyed_table_append [OF _ i k] show ?thesis
    by (auto simp: artifacts_ok_def find_task_insert_other(2) [OF ins])
qed

lemma results_ok_insert:
  assumes ok: "results_ok db" and ins: "insert_result v key db = Inr db1"
  shows "results_ok db1"
proof -
  let ?r = "\<lparr>rr_result = v, rr_key = key\<rparr>"
  note D = insert_result_InrD [OF ins]
  from D(1) have i: "find_row (\<lambda>x. r_result_id (rr_result x) = r_result_id (rr_result ?r)) (cd_results db) = None"
    by (simp add: get_result_def)
  from D(2) have k: "find_row (\<lambda>x. (r_created_by (rr_result x), rr_key x) = (r_created_by (rr_result ?r), rr_key ?r))
      (cd_results db) = None"
    by (simp add: find_row_None)
  have "cd_results db1 = cd_results db @ [?r]" by (simp add: D(4))
  with ok D(3) keyed_table_append [OF _ i k] show ?thesis
    by (auto simp: results_ok_def find_task_insert_other(3) [OF ins])
qed

lemma messages_ok_add_event [simp]: "messages_ok (add_event ev db) = messages_ok db"
  by (simp add: messages_ok_def)

lemma artifacts_ok_add_event [simp]: "artifacts_ok (add_event ev db) = artifacts_ok db"
  by (simp add: artifacts_ok_def)

lemma results_ok_add_event [simp]: "results_ok (add_event ev db) = results_ok db"
  by (simp add: results_ok_def)

lemma coord_step_records_ok:
  assumes step: "coord_step now db db'" and "messages_ok db" and "artifacts_ok db" and "results_ok db"
  shows "messages_ok db' \<and> artifacts_ok db' \<and> results_ok db'"
proof -
  note kept = coord_step_kept [OF step]
  from step show ?thesis
  proof (cases rule: coord_step.cases)
    case (step_create t key db1 ev)
    with insert_task_tables [OF step_create(2)] assms(2-4) kept show ?thesis
      by (auto intro: messages_ok_frame artifacts_ok_frame results_ok_frame)
  next
    case step_task
    from task_written_tables [OF this] assms(2-4) kept show ?thesis
      by (auto intro: messages_ok_frame artifacts_ok_frame results_ok_frame)
  next
    case (step_message m t key db1 ev)
    with insert_message_tables [OF step_message(3)] assms(2-4) kept show ?thesis
      by (auto intro: artifacts_ok_frame results_ok_frame messages_ok_insert)
  next
    case (step_artifact a t key db1 ev)
    with insert_artifact_tables [OF step_artifact(3)] assms(2-4) kept show ?thesis
      by (auto intro: messages_ok_frame results_ok_frame artifacts_ok_insert)
  next
    case (step_result v t key db1 ev)
    with insert_result_tables [OF step_result(3)] assms(2-4) kept show ?thesis
      by (auto intro: messages_ok_frame artifacts_ok_frame results_ok_insert)
  next
    case (step_acknowledge mid m t ev)
    with assms(2-4) kept show ?thesis
      by (auto intro: artifacts_ok_frame results_ok_frame messages_ok_acknowledge)
  qed
qed

section \<open>Events and trails\<close>

lemma event_okI:
  assumes "find_task db tid = Some t" and "next_event db0 t ev" and "ev_entity_type ev \<noteq> lit ''task''"
  shows "event_ok db ev"
  unfolding event_ok_def
  using assms find_task_id [OF assms(1)] by (intro exI [of _ t]) (simp add: next_event_def)

text \<open>Every step appends exactly one event to the audit log.\<close>

lemma coord_step_event:
  assumes "coord_step now db db'"
  obtains t ev db1 where "db' = add_event ev db1" "cd_events db1 = cd_events db" "cd_event_seq db1 = cd_event_seq db"
    "next_event db t ev" "tasks_kept db db1" "event_ok db1 ev"
  using assms
proof (cases rule: coord_step.cases)
  case (step_create t key db1 ev)
  have "event_ok db1 ev"
    using step_create(5,6) find_task_insert [OF step_create(2)]
    by (auto simp: event_ok_def next_event_def task_event_def)
  with step_create insert_events(1) [OF step_create(2)] coord_step_kept [OF assms] show ?thesis
    by (intro that) auto
next
  case (step_task w tid t t' src dst)
  then obtain ev f where w: "db' = add_event ev (update_task f tid db)" "next_event db t ev" "task_event t ev"
    "find_task db tid = Some t" "task_change now w t t' src dst"
    by (auto simp: task_written_def)
  have t': "find_task (update_task f tid db) tid = Some t'" "t_task_id t' = t_task_id t" "t_wing t' = t_wing t"
    using task_written_find(1) [OF step_task] task_change_revision [OF w(5)]
    by (simp_all add: w(1) same_static_def)
  have "event_ok (update_task f tid db) ev"
    unfolding event_ok_def
    using w(2,3) t' find_task_id [OF w(4)]
    by (intro exI [of _ t']) (simp add: next_event_def task_event_def)
  with w coord_step_kept [OF assms] show ?thesis by (intro that) auto
next
  case (step_message m t key db1 ev)
  have "event_ok db1 ev"
    using step_message(2,4,5) find_task_insert_other(1) [OF step_message(3)] by (auto intro: event_okI)
  with step_message insert_events(2) [OF step_message(3)] coord_step_kept [OF assms] show ?thesis
    by (intro that) auto
next
  case (step_artifact a t key db1 ev)
  have "event_ok db1 ev"
    using step_artifact(2,4,5) find_task_insert_other(2) [OF step_artifact(3)] by (auto intro: event_okI)
  with step_artifact insert_events(3) [OF step_artifact(3)] coord_step_kept [OF assms] show ?thesis
    by (intro that) auto
next
  case (step_result v t key db1 ev)
  have "event_ok db1 ev"
    using step_result(2,4,5) find_task_insert_other(3) [OF step_result(3)] by (auto intro: event_okI)
  with step_result insert_events(4) [OF step_result(3)] coord_step_kept [OF assms] show ?thesis
    by (intro that) auto
next
  case (step_acknowledge mid m t ev)
  have "event_ok (update_message (acknowledged now (m_recipient m)) mid db) ev"
    using step_acknowledge(4-6) by (auto intro: event_okI)
  with step_acknowledge coord_step_kept [OF assms] show ?thesis by (intro that) auto
qed

lemma coord_step_events_ok:
  assumes "coord_step now db db'" and ok: "events_ok db"
  shows "events_ok db'"
proof -
  from assms(1) obtain t ev db1 where e: "db' = add_event ev db1" "cd_events db1 = cd_events db"
    "cd_event_seq db1 = cd_event_seq db" "next_event db t ev" "tasks_kept db db1" "event_ok db1 ev"
    by (rule coord_step_event)
  have sq: "ev_sequence ev = cd_event_seq db + 1" and i: "find_row (\<lambda>x. ev_event_id x = ev_event_id ev) (cd_events db) = None"
    using e(4) by (auto simp: next_event_def get_event_def)
  have k: "find_row (\<lambda>x. ev_sequence x = ev_sequence ev) (cd_events db) = None"
    using ok sq by (fastforce simp: events_ok_def seq_table_def find_row_None)
  have evs: "cd_events db' = cd_events db @ [ev]" "cd_event_seq db' = cd_event_seq db + 1"
    by (simp_all add: e(1-3) add_event_def)
  have "\<forall>x \<in> set (cd_events db @ [ev]). event_ok db' x"
  proof
    fix x
    assume "x \<in> set (cd_events db @ [ev])"
    then have "event_ok db1 x"
      using ok e(5,6) event_ok_kept by (auto simp: events_ok_def)
    then show "event_ok db' x" by (simp add: event_ok_def e(1))
  qed
  with ok keyed_table_append [OF _ i k] seq_table_append [where sq = ev_sequence and r = ev, OF _ sq] show ?thesis
    by (simp add: events_ok_def evs)
qed

lemma task_trail_add:
  "cd_events db1 = cd_events db \<Longrightarrow> task_trail (add_event ev db1) tid =
     task_trail db tid @ (if ev_entity_type ev = lit ''task'' \<and> ev_entity_id ev = tid then [ev] else [])"
  by (simp add: task_trail_def add_event_def)

lemma trail_fresh:
  assumes "events_ok db" and "find_task db tid = None"
  shows "task_trail db tid = []"
  using assms by (fastforce simp: events_ok_def event_ok_def task_trail_def filter_empty_conv)

lemma trails_ok_other:
  assumes "trails_ok db" and "find_task db' = find_task db" and "cd_events db' = cd_events db"
    and "ev_entity_type ev \<noteq> lit ''task''"
  shows "trails_ok (add_event ev db')"
  using assms by (simp add: trails_ok_def task_trail_add)

lemma coord_step_trails_ok:
  assumes "coord_step now db db'" and ok: "trails_ok db" and ev_ok: "events_ok db"
  shows "trails_ok db'"
  using assms(1)
proof (cases rule: coord_step.cases)
  case (step_create t key db1 ev)
  have none: "find_task db (t_task_id t) = None" using step_create(2) by (rule insert_task_InrD)
  have ins: "find_task db1 tid = (if tid = t_task_id t then Some t else find_task db tid)" for tid
    by (rule find_task_insert [OF step_create(2)])
  have evs: "cd_events db1 = cd_events db" using insert_events(1) [OF step_create(2)] by simp
  have "t_revision t = 0" using step_create(3) by (simp add: fresh_task_def)
  with step_create trail_fresh [OF ev_ok none] ok show ?thesis
    by (auto simp: trails_ok_def ins task_trail_add [OF evs] task_event_def split: if_splits)
next
  case (step_task w tid t t' src dst)
  then obtain ev f where w: "db' = add_event ev (update_task f tid db)" "next_event db t ev" "task_event t ev"
    "find_task db tid = Some t" "task_change now w t t' src dst" "ev_from_state ev = src" "ev_to_state ev = dst"
    "ev_revision ev = Some (t_revision t')"
    by (auto simp: task_written_def)
  have rev: "t_revision t' = t_revision t + 1" using task_change_revision [OF w(5)] by simp
  have "replay_from (t_state t) (t_revision t) [ev] = Some (t_state t', t_revision t')"
    using task_change_lifecycle [OF w(5)] w(6-8) by (auto simp: rev lifecycle_iff)
  moreover have "replay (task_trail db tid) = Some (t_state t, t_revision t)"
    using ok w(4) by (simp add: trails_ok_def)
  ultimately have "replay (task_trail db tid @ [ev]) = Some (t_state t', t_revision t')"
    by (simp only: replay_append)
  then show ?thesis
    unfolding trails_ok_def
    using ok w(3) find_task_id [OF w(4)] task_written_find [OF step_task]
    by (auto simp: w(1) trails_ok_def task_trail_add task_event_def)
next
  case (step_message m t key db1 ev)
  with ok insert_events(2) [OF step_message(3)] find_task_insert_other(1) [OF step_message(3)] show ?thesis
    by (auto intro!: trails_ok_other)
next
  case (step_artifact a t key db1 ev)
  with ok insert_events(3) [OF step_artifact(3)] find_task_insert_other(2) [OF step_artifact(3)] show ?thesis
    by (auto intro!: trails_ok_other)
next
  case (step_result v t key db1 ev)
  with ok insert_events(4) [OF step_result(3)] find_task_insert_other(3) [OF step_result(3)] show ?thesis
    by (auto intro!: trails_ok_other)
next
  case (step_acknowledge mid m t ev)
  with ok show ?thesis by (auto intro!: trails_ok_other)
qed

lemma coord_step_inv: "coord_step now db db' \<Longrightarrow> coord_inv db \<Longrightarrow> coord_inv db'"
  unfolding coord_inv_def
  using coord_step_tasks_ok coord_step_records_ok coord_step_events_ok coord_step_trails_ok by blast

lemma coord_exec_inv: "coord_inv db \<Longrightarrow> coord_inv (coord_exec c db)"
  using coord_exec_refines [of c db] coord_step_inv by metis

end
