(* ===== verification/Coordination_Contracts.thy ===== *)
theory Coordination_Contracts
  imports Coordination_Reach
begin

text \<open>
  The coordination store as an instance of the contracts: a history machine whose later states only
  extend earlier ones, an idempotent store for each of its four keyed creations, and a
  compare-and-swap register for the three writes that name a task revision.
\<close>

section \<open>What later calls may not undo\<close>

definition task_le :: "task \<Rightarrow> task \<Rightarrow> bool" where
  "task_le t t' \<longleftrightarrow> same_static t t' \<and> t_revision t \<le> t_revision t' \<and>
     (t_revision t' = t_revision t \<longrightarrow> t' = t) \<and> (task_terminal (t_state t) \<longrightarrow> t' = t)"

definition message_le :: "message \<Rightarrow> message \<Rightarrow> bool" where
  "message_le m m' \<longleftrightarrow>
     m' = m \<or> m_acknowledged_at m = None \<and> (\<exists>at. m' = acknowledged at (m_recipient m) m)"

definition task_row_le :: "task_row \<Rightarrow> task_row \<Rightarrow> bool" where
  "task_row_le r r' \<longleftrightarrow> tr_key r' = tr_key r \<and> tr_sequence r' = tr_sequence r \<and> task_le (tr_task r) (tr_task r')"

definition message_row_le :: "message_row \<Rightarrow> message_row \<Rightarrow> bool" where
  "message_row_le r r' \<longleftrightarrow> mr_key r' = mr_key r \<and> message_le (mr_message r) (mr_message r')"

definition coord_extends :: "coord \<Rightarrow> coord \<Rightarrow> bool" where
  "coord_extends db db' \<longleftrightarrow>
     (\<exists>evs. cd_events db' = cd_events db @ evs) \<and>
     rows_le task_row_le (cd_tasks db) (cd_tasks db') \<and>
     rows_le message_row_le (cd_messages db) (cd_messages db') \<and>
     set (cd_artifacts db) \<subseteq> set (cd_artifacts db') \<and> set (cd_results db) \<subseteq> set (cd_results db')"

lemma task_le_refl [simp]: "task_le t t"
  by (simp add: task_le_def)

lemma task_le_trans: "task_le t u \<Longrightarrow> task_le u v \<Longrightarrow> task_le t v"
  unfolding task_le_def by (elim conjE, intro conjI impI) (auto intro: same_static_trans)

lemma message_le_refl [simp]: "message_le m m"
  by (simp add: message_le_def)

lemma message_le_trans: "message_le m u \<Longrightarrow> message_le u v \<Longrightarrow> message_le m v"
  by (auto simp: message_le_def acknowledged_def)

lemma row_le_refl [simp]: "task_row_le r r" "message_row_le r' r'"
  by (simp_all add: task_row_le_def message_row_le_def)

lemma row_le_trans:
  "task_row_le r s \<Longrightarrow> task_row_le s t \<Longrightarrow> task_row_le r t"
  "message_row_le r' s' \<Longrightarrow> message_row_le s' t' \<Longrightarrow> message_row_le r' t'"
  by (auto simp: task_row_le_def message_row_le_def intro: task_le_trans message_le_trans)

lemma coord_extends_refl: "coord_extends db db"
  by (simp add: coord_extends_def rows_le_refl)

lemma coord_extends_trans: "coord_extends a b \<Longrightarrow> coord_extends b c \<Longrightarrow> coord_extends a c"
  unfolding coord_extends_def
  by (auto intro: rows_le_trans [OF row_le_trans(1)] rows_le_trans [OF row_le_trans(2)])

lemma task_change_le:
  assumes "task_change now w t t' src dst" and "wf_task t"
  shows "task_le t t'"
proof -
  have "\<not> task_terminal (t_state t)"
    using assms by (auto simp: wf_task_def elim!: task_change.cases dest: allowed_not_terminal)
  with task_change_revision [OF assms(1)] show ?thesis by (simp add: task_le_def)
qed

lemma coord_step_extends:
  assumes step: "coord_step now db db'" and inv: "coord_inv db"
  shows "coord_extends db db'"
proof -
  from inv have tok: "tasks_ok db" and mok: "messages_ok db" by (simp_all add: coord_inv_def)
  from step obtain ev db1 where e: "db' = add_event ev db1" "cd_events db1 = cd_events db"
    by (rule coord_step_event)
  then have ex: "\<exists>evs. cd_events db' = cd_events db @ evs" by (auto simp: add_event_def)
  have same: "set xs \<subseteq> set ys \<Longrightarrow> rows_le task_row_le xs ys"
    "set ms \<subseteq> set ns \<Longrightarrow> rows_le message_row_le ms ns" for xs ys ms ns
    by (simp_all add: rows_le_refl)
  from step show ?thesis
  proof (cases rule: coord_step.cases)
    case (step_create t key db1 ev)
    with ex same insert_task_tables [OF step_create(2)] insert_task_InrD(3) [OF step_create(2)] show ?thesis
      by (auto simp: coord_extends_def intro!: same)
  next
    case (step_task w tid t t' src dst)
    then obtain ev f where w: "db' = add_event ev (update_task f tid db)" "find_task db tid = Some t"
      "task_change now w t t' src dst" "f t = t'"
      by (auto simp: task_written_def)
    have le: "task_le t t'" using task_change_le [OF w(3) find_task_wf [OF tok w(2)]] .
    have "\<exists>y \<in> set (cd_tasks db'). task_row_le r y" if r: "r \<in> set (cd_tasks db)" for r
    proof (cases "t_task_id (tr_task r) = tid")
      case True
      with find_task_row [OF tok r] w(2,4) have "f (tr_task r) = t'" "tr_task r = t" by auto
      with True r le show ?thesis
        by (intro bexI [of _ "r\<lparr>tr_task := t'\<rparr>"])
          (auto simp: task_row_le_def w(1) update_task_def set_update_rows image_iff intro!: bexI [of _ r])
    next
      case False
      with r show ?thesis
        by (intro bexI [of _ r]) (auto simp: w(1) update_task_def set_update_rows image_iff intro!: bexI [of _ r])
    qed
    then have "rows_le task_row_le (cd_tasks db) (cd_tasks db')" by (simp add: rows_le_def)
    with ex same(2) task_written_tables [OF step_task] show ?thesis
      by (simp add: coord_extends_def)
  next
    case (step_message m t key db1 ev)
    with ex same insert_message_tables [OF step_message(3)] insert_message_InrD(4) [OF step_message(3)] show ?thesis
      by (auto simp: coord_extends_def intro!: same)
  next
    case (step_artifact a t key db1 ev)
    with ex same insert_artifact_tables [OF step_artifact(3)] insert_artifact_InrD(4) [OF step_artifact(3)] show ?thesis
      by (auto simp: coord_extends_def intro!: same)
  next
    case (step_result v t key db1 ev)
    with ex same insert_result_tables [OF step_result(3)] insert_result_InrD(4) [OF step_result(3)] show ?thesis
      by (auto simp: coord_extends_def intro!: same)
  next
    case (step_acknowledge mid m t ev)
    let ?f = "acknowledged now (m_recipient m)"
    have "\<exists>y \<in> set (cd_messages db'). message_row_le r y" if r: "r \<in> set (cd_messages db)" for r
    proof (cases "m_message_id (mr_message r) = mid")
      case True
      with mok r step_acknowledge(2) have "mr_message r = m"
        by (auto simp: messages_ok_def get_message_def dest: keyed_table_find)
      with True r step_acknowledge(3) show ?thesis
        by (intro bexI [of _ "r\<lparr>mr_message := ?f m\<rparr>"])
          (auto simp: message_row_le_def message_le_def step_acknowledge(1) update_message_def
            set_update_rows image_iff intro!: bexI [of _ r])
    next
      case False
      with r show ?thesis
        by (intro bexI [of _ r])
          (auto simp: step_acknowledge(1) update_message_def set_update_rows image_iff intro!: bexI [of _ r])
    qed
    then have "rows_le message_row_le (cd_messages db) (cd_messages db')" by (simp add: rows_le_def)
    moreover have "cd_tasks db' = cd_tasks db" by (simp add: step_acknowledge(1) update_message_def)
    ultimately show ?thesis
      using ex same(1) step_acknowledge(1) by (simp add: coord_extends_def)
  qed
qed

interpretation coord_hist: history_machine coord_init coord_exec coord_inv coord_extends
proof unfold_locales
  show "coord_inv coord_init" by (rule coord_inv_init)
  show "coord_inv (coord_exec c s)" if "coord_inv s" for s c using that by (rule coord_exec_inv)
  show "coord_extends s s" for s by (rule coord_extends_refl)
  show "coord_extends s u" if "coord_extends s t" "coord_extends t u" for s t u
    using that by (rule coord_extends_trans)
  show "coord_extends s (coord_exec c s)" if "coord_inv s" for s c
    using coord_exec_refines [of c s] coord_step_extends [OF _ that] coord_extends_refl by metis
qed

section \<open>Keyed creations\<close>

text \<open>The row stored under an author and idempotency key.\<close>

definition task_at :: "coord \<Rightarrow> rstr \<times> rstr \<Rightarrow> task option" where
  "task_at db k = map_option tr_task (find_row (\<lambda>r. (t_created_by (tr_task r), tr_key r) = k) (cd_tasks db))"

definition message_at :: "coord \<Rightarrow> rstr \<times> rstr \<Rightarrow> message option" where
  "message_at db k = map_option mr_message (find_row (\<lambda>r. (m_sender (mr_message r), mr_key r) = k) (cd_messages db))"

definition artifact_at :: "coord \<Rightarrow> rstr \<times> rstr \<Rightarrow> artifact option" where
  "artifact_at db k = map_option ar_artifact (find_row (\<lambda>r. (a_created_by (ar_artifact r), ar_key r) = k) (cd_artifacts db))"

definition result_at :: "coord \<Rightarrow> rstr \<times> rstr \<Rightarrow> task_result option" where
  "result_at db k = map_option rr_result (find_row (\<lambda>r. (r_created_by (rr_result r), rr_key r) = k) (cd_results db))"

text \<open>What never changes in a stored task or message.\<close>

definition task_ident :: "task \<Rightarrow> task" where
  "task_ident t = t\<lparr>t_state := TPending, t_revision := 0, t_owner := None, t_executor_affinity := None,
     t_lease_expires_at := None, t_updated_at := 0\<rparr>"

definition message_ident :: "message \<Rightarrow> message" where
  "message_ident m = m\<lparr>m_acknowledged_at := None, m_acknowledged_by := None\<rparr>"

text \<open>The checks on the input alone.\<close>

definition create_accepts :: "env \<Rightarrow> new_task \<Rightarrow> bool" where
  "create_accepts e i \<longleftrightarrow>
     validate_key (nt_idempotency_key i) = Inr () \<and> validate_actor (nt_created_by i) = Inr () \<and>
     bounded_text (nt_title i) (lit ''task title'') = Inr () \<and>
     bounded_text (nt_description i) (lit ''task description'') = Inr () \<and>
     opt_check (bounded_json e) (nt_budget i) = Inr () \<and>
     (\<exists>w. normalize_wing (nt_wing i) = Inr w \<and> w \<noteq> UNSCOPED_WING)"

definition send_accepts :: "env \<Rightarrow> new_message \<Rightarrow> bool" where
  "send_accepts e i \<longleftrightarrow>
     validate_key (nm_idempotency_key i) = Inr () \<and> validate_actor (nm_sender i) = Inr () \<and>
     validate_actor (nm_recipient i) = Inr () \<and> bounded_json e (nm_payload i) = Inr ()"

definition artifact_accepts :: "env \<Rightarrow> new_artifact \<Rightarrow> bool" where
  "artifact_accepts e i \<longleftrightarrow>
     validate_key (na_idempotency_key i) = Inr () \<and> validate_actor (na_created_by i) = Inr () \<and>
     str_len (na_content i) \<le> MAX_PAYLOAD_BYTES"

definition result_accepts :: "env \<Rightarrow> new_task_result \<Rightarrow> bool" where
  "result_accepts e i \<longleftrightarrow>
     validate_key (nr_idempotency_key i) = Inr () \<and> validate_actor (nr_created_by i) = Inr () \<and>
     bounded_json e (nr_payload i) = Inr ()"

lemma same_static_ident: "same_static t t' \<Longrightarrow> task_ident t' = task_ident t"
  by (simp add: same_static_def task_ident_def)

lemma message_le_ident: "message_le m m' \<Longrightarrow> message_ident m' = message_ident m"
  by (auto simp: message_le_def message_ident_def acknowledged_def)

lemma find_task_by_key_at:
  assumes "tasks_ok db"
  shows "find_task_by_key db a k = Inr (task_at db (a, k))"
  using find_task_row [OF assms]
  by (auto simp: find_task_by_key_def task_at_def bindE_eq_Inr split: option.splits dest: find_row_SomeD)

lemma find_message_by_key_at:
  assumes "messages_ok db"
  shows "find_message_by_key db a k = Inr (message_at db (a, k))"
proof -
  have "get_message db (m_message_id (mr_message r)) = Some (mr_message r)" if "r \<in> set (cd_messages db)" for r
    using assms that by (auto simp: messages_ok_def get_message_def dest: keyed_table_find)
  then show ?thesis
    by (auto simp: find_message_by_key_def message_at_def split: option.splits dest: find_row_SomeD)
qed

lemma find_artifact_by_key_at:
  assumes "artifacts_ok db"
  shows "find_artifact_by_key db a k = Inr (artifact_at db (a, k))"
proof -
  have "get_artifact db (a_artifact_id (ar_artifact r)) = Some (ar_artifact r)" if "r \<in> set (cd_artifacts db)" for r
    using assms that by (auto simp: artifacts_ok_def get_artifact_def dest: keyed_table_find)
  then show ?thesis
    by (auto simp: find_artifact_by_key_def artifact_at_def split: option.splits dest: find_row_SomeD)
qed

lemma find_result_by_key_at:
  assumes "results_ok db"
  shows "find_result_by_key db a k = Inr (result_at db (a, k))"
proof -
  have "get_result db (r_result_id (rr_result r)) = Some (rr_result r)" if "r \<in> set (cd_results db)" for r
    using assms that by (auto simp: results_ok_def get_result_def dest: keyed_table_find)
  then show ?thesis
    by (auto simp: find_result_by_key_def result_at_def split: option.splits dest: find_row_SomeD)
qed

lemma keyed_lookup_row:
  assumes "keyed_table i k rows" and "r \<in> set rows"
  shows "find_row (\<lambda>x. k x = k r) rows = Some r"
  using assms by (simp add: keyed_table_def find_row_key)

lemma task_at_row: "tasks_ok db \<Longrightarrow> r \<in> set (cd_tasks db) \<Longrightarrow> task_at db (t_created_by (tr_task r), tr_key r) = Some (tr_task r)"
  unfolding task_at_def tasks_ok_def by (drule conjunct1, drule (1) keyed_lookup_row) simp

lemma message_at_row:
  "messages_ok db \<Longrightarrow> r \<in> set (cd_messages db) \<Longrightarrow> message_at db (m_sender (mr_message r), mr_key r) = Some (mr_message r)"
  unfolding message_at_def messages_ok_def by (drule conjunct1, drule (1) keyed_lookup_row) simp

lemma artifact_at_row:
  "artifacts_ok db \<Longrightarrow> r \<in> set (cd_artifacts db) \<Longrightarrow>
   artifact_at db (a_created_by (ar_artifact r), ar_key r) = Some (ar_artifact r)"
  unfolding artifact_at_def artifacts_ok_def by (drule conjunct1, drule (1) keyed_lookup_row) simp

lemma result_at_row:
  "results_ok db \<Longrightarrow> r \<in> set (cd_results db) \<Longrightarrow> result_at db (r_created_by (rr_result r), rr_key r) = Some (rr_result r)"
  unfolding result_at_def results_ok_def by (drule conjunct1, drule (1) keyed_lookup_row) simp

text \<open>Keyed lookups survive later calls.\<close>

lemma task_at_extends:
  assumes "coord_inv db'" and "coord_extends db db'" and "task_at db k = Some t"
  shows "\<exists>t'. task_at db' k = Some t' \<and> task_le t t'"
proof -
  from assms(3) obtain r where r: "r \<in> set (cd_tasks db)" "tr_task r = t" "(t_created_by t, tr_key r) = k"
    by (auto simp: task_at_def dest: find_row_SomeD)
  with assms(2) obtain r' where r': "r' \<in> set (cd_tasks db')" "tr_key r' = tr_key r" "task_le t (tr_task r')"
    unfolding coord_extends_def rows_le_def task_row_le_def by blast
  then have "t_created_by (tr_task r') = t_created_by t" by (simp add: task_le_def same_static_def)
  with task_at_row [of db' r'] assms(1) r r' show ?thesis by (auto simp: coord_inv_def)
qed

lemma message_at_extends:
  assumes "coord_inv db'" and "coord_extends db db'" and "message_at db k = Some m"
  shows "\<exists>m'. message_at db' k = Some m' \<and> message_le m m'"
proof -
  from assms(3) obtain r where r: "r \<in> set (cd_messages db)" "mr_message r = m" "(m_sender m, mr_key r) = k"
    by (auto simp: message_at_def dest: find_row_SomeD)
  with assms(2) obtain r' where r': "r' \<in> set (cd_messages db')" "mr_key r' = mr_key r" "message_le m (mr_message r')"
    unfolding coord_extends_def rows_le_def message_row_le_def by blast
  then have "m_sender (mr_message r') = m_sender m" by (auto simp: message_le_def acknowledged_def)
  with message_at_row [of db' r'] assms(1) r r' show ?thesis by (auto simp: coord_inv_def)
qed

lemma artifact_at_extends:
  assumes "coord_inv db'" and "coord_extends db db'" and "artifact_at db k = Some a"
  shows "artifact_at db' k = Some a"
proof -
  from assms(3) obtain r where r: "r \<in> set (cd_artifacts db)" "ar_artifact r = a" "(a_created_by a, ar_key r) = k"
    by (auto simp: artifact_at_def dest: find_row_SomeD)
  with assms(2) have "r \<in> set (cd_artifacts db')" by (auto simp: coord_extends_def)
  with artifact_at_row [of db' r] assms(1) r show ?thesis by (auto simp: coord_inv_def)
qed

lemma result_at_extends:
  assumes "coord_inv db'" and "coord_extends db db'" and "result_at db k = Some v"
  shows "result_at db' k = Some v"
proof -
  from assms(3) obtain r where r: "r \<in> set (cd_results db)" "rr_result r = v" "(r_created_by v, rr_key r) = k"
    by (auto simp: result_at_def dest: find_row_SomeD)
  with assms(2) have "r \<in> set (cd_results db')" by (auto simp: coord_extends_def)
  with result_at_row [of db' r] assms(1) r show ?thesis by (auto simp: coord_inv_def)
qed

text \<open>The four creations, on an input paired with its provenance.\<close>

definition put_task :: "env \<Rightarrow> new_task \<times> persisted_provenance option \<Rightarrow> coord \<Rightarrow> (storage_error + task) \<times> coord" where
  "put_task e i db = create_task e db (fst i) (snd i)"

definition put_message :: "env \<Rightarrow> new_message \<times> persisted_provenance option \<Rightarrow> coord \<Rightarrow> (storage_error + message) \<times> coord" where
  "put_message e i db = send_message e db (fst i) (snd i)"

definition put_artifact' :: "env \<Rightarrow> new_artifact \<times> persisted_provenance option \<Rightarrow> coord \<Rightarrow> (storage_error + artifact) \<times> coord" where
  "put_artifact' e i db = put_artifact e db (fst i) (snd i)"

definition put_result' :: "env \<Rightarrow> new_task_result \<times> persisted_provenance option \<Rightarrow> coord \<Rightarrow> (storage_error + task_result) \<times> coord" where
  "put_result' e i db = put_result e db (fst i) (snd i)"

lemma create_task_outcome:
  "outcome (\<lambda>res db'. (\<exists>x. res = Inl x \<and> create_spec db i TPending (Inl x) db') \<or>
       (\<exists>t b. res = Inr t \<and> create_spec db i TPending (Inr (t, b)) db')) (create_task e db i p)"
  using create_task_with_state_outcome [of db i TPending e False p]
  by (auto simp: outcome_def create_task_def split: prod.splits sum.splits)

lemma create_task_stored:
  assumes "coord_inv db" and "create_task e db i p = (Inr t, db')"
  shows "task_at db' (nt_created_by i, nt_idempotency_key i) = Some t"
proof -
  from outcomeD [OF create_task_outcome assms(2)] obtain b where "create_spec db i TPending (Inr (t, b)) db'"
    by auto
  then show ?thesis
  proof (cases rule: create_spec.cases)
    case create_replay
    with assms(1) show ?thesis by (simp add: find_task_by_key_at coord_inv_def)
  next
    case (create_new db1 ev)
    let ?r = "\<lparr>tr_task = t, tr_key = nt_idempotency_key i, tr_sequence = cd_task_seq db + 1\<rparr>"
    have "?r \<in> set (cd_tasks db')"
      using insert_task_InrD(3) [OF create_new(4)] by (simp add: create_new(2))
    moreover have "coord_inv db'"
      using coord_exec_inv [OF assms(1), of "CallCreate e i p"] assms(2) by simp
    ultimately show ?thesis
      using task_at_row [of db' ?r] create_new(6) by (simp add: coord_inv_def)
  qed
qed

lemma create_task_replay:
  assumes "coord_inv db" and acc: "create_accepts e i"
    and "task_at db (nt_created_by i, nt_idempotency_key i) = Some t"
  shows "create_task e db i p = (Inr t, db)"
proof -
  from acc obtain w where w: "normalize_wing (nt_wing i) = Inr w" "w \<noteq> UNSCOPED_WING"
    by (auto simp: create_accepts_def)
  have "find_task_by_key db (nt_created_by i) (nt_idempotency_key i) = Inr (Some t)"
    using assms(1,3) by (simp add: find_task_by_key_at coord_inv_def)
  with w acc show ?thesis
    by (simp add: create_task_def create_task_with_state_def create_accepts_def del: normalize_wing_eq_Inr)
qed

lemma create_task_error: "create_task e db i p = (Inl x, db') \<Longrightarrow> db' = db"
  using outcomeD [OF create_task_outcome, of e db i p "Inl x" db']
  by (auto elim!: create_spec.cases)

interpretation task_store: idempotent_store put_task "\<lambda>i. (nt_created_by (fst i), nt_idempotency_key (fst i))"
  task_at "\<lambda>e i. create_accepts e (fst i)" coord_inv task_ident coord_extends
proof unfold_locales
  fix s s' :: coord and e i v x k
  show "coord_inv s \<Longrightarrow> put_task e i s = (Inr v, s') \<Longrightarrow>
      task_at s' (nt_created_by (fst i), nt_idempotency_key (fst i)) = Some v"
    by (simp add: put_task_def create_task_stored)
  show "coord_inv s \<Longrightarrow> create_accepts e (fst i) \<Longrightarrow>
      task_at s (nt_created_by (fst i), nt_idempotency_key (fst i)) = Some v \<Longrightarrow> put_task e i s = (Inr v, s)"
    by (simp add: put_task_def create_task_replay)
  show "put_task e i s = (Inl x, s') \<Longrightarrow> s' = s"
    unfolding put_task_def by (rule create_task_error)
  show "coord_inv s' \<Longrightarrow> coord_extends s s' \<Longrightarrow> task_at s k = Some v \<Longrightarrow>
      \<exists>v'. task_at s' k = Some v' \<and> task_ident v' = task_ident v"
    using task_at_extends same_static_ident unfolding task_le_def by blast
  show "coord_inv s \<Longrightarrow> coord_inv (snd (put_task e i s))"
    using coord_exec_inv [of s "CallCreate e (fst i) (snd i)"] by (simp add: put_task_def)
qed

lemma send_message_stored:
  assumes "coord_inv db" and "send_message e db i p = (Inr v, db')"
  shows "message_at db' (nm_sender i, nm_idempotency_key i) = Some v"
  using outcomeD [OF send_message_outcome assms(2)]
proof (cases rule: send_spec.cases)
  case send_replay
  with assms(1) show ?thesis by (simp add: find_message_by_key_at coord_inv_def)
next
  case (send_new m t db1 ev)
  let ?r = "\<lparr>mr_message = m\<lparr>m_sequence := cd_message_seq db + 1\<rparr>, mr_key = nm_idempotency_key i\<rparr>"
  have "?r \<in> set (cd_messages db')"
    using insert_message_InrD(4) [OF send_new(5)] by (simp add: send_new(2))
  moreover have "coord_inv db'"
    using coord_exec_inv [OF assms(1), of "CallSend e i p"] assms(2) by simp
  ultimately show ?thesis
    using message_at_row [of db' ?r] send_new(1,9) by (simp add: coord_inv_def)
qed

lemma send_message_replay:
  assumes "coord_inv db" and "send_accepts e i" and "message_at db (nm_sender i, nm_idempotency_key i) = Some v"
  shows "send_message e db i p = (Inr v, db)"
proof -
  have "find_message_by_key db (nm_sender i) (nm_idempotency_key i) = Inr (Some v)"
    using assms(1,3) by (simp add: find_message_by_key_at coord_inv_def)
  with assms(2) show ?thesis by (simp add: send_message_def send_accepts_def)
qed

lemma put_artifact_stored:
  assumes "coord_inv db" and "put_artifact e db i p = (Inr v, db')"
  shows "artifact_at db' (na_created_by i, na_idempotency_key i) = Some v"
  using outcomeD [OF put_artifact_outcome assms(2)]
proof (cases rule: artifact_spec.cases)
  case artifact_replay
  with assms(1) show ?thesis by (simp add: find_artifact_by_key_at coord_inv_def)
next
  case (artifact_new t db1 ev)
  let ?r = "\<lparr>ar_artifact = v, ar_key = na_idempotency_key i\<rparr>"
  have "?r \<in> set (cd_artifacts db')"
    using insert_artifact_InrD(4) [OF artifact_new(4)] by (simp add: artifact_new(1))
  moreover have "coord_inv db'"
    using coord_exec_inv [OF assms(1), of "CallArtifact e i p"] assms(2) by simp
  ultimately show ?thesis
    using artifact_at_row [of db' ?r] artifact_new by (simp add: coord_inv_def)
qed

lemma put_artifact_replay:
  assumes "coord_inv db" and "artifact_accepts e i" and "artifact_at db (na_created_by i, na_idempotency_key i) = Some v"
  shows "put_artifact e db i p = (Inr v, db)"
proof -
  have "find_artifact_by_key db (na_created_by i) (na_idempotency_key i) = Inr (Some v)"
    using assms(1,3) by (simp add: find_artifact_by_key_at coord_inv_def)
  with assms(2) show ?thesis by (simp add: put_artifact_def artifact_accepts_def)
qed

lemma put_result_stored:
  assumes "coord_inv db" and "put_result e db i p = (Inr v, db')"
  shows "result_at db' (nr_created_by i, nr_idempotency_key i) = Some v"
  using outcomeD [OF put_result_outcome assms(2)]
proof (cases rule: result_spec.cases)
  case result_replay
  with assms(1) show ?thesis by (simp add: find_result_by_key_at coord_inv_def)
next
  case (result_new t db1 ev)
  let ?r = "\<lparr>rr_result = v, rr_key = nr_idempotency_key i\<rparr>"
  have "?r \<in> set (cd_results db')"
    using insert_result_InrD(4) [OF result_new(4)] by (simp add: result_new(1))
  moreover have "coord_inv db'"
    using coord_exec_inv [OF assms(1), of "CallResult e i p"] assms(2) by simp
  ultimately show ?thesis
    using result_at_row [of db' ?r] result_new by (simp add: coord_inv_def)
qed

lemma put_result_replay:
  assumes "coord_inv db" and "result_accepts e i" and "result_at db (nr_created_by i, nr_idempotency_key i) = Some v"
  shows "put_result e db i p = (Inr v, db)"
proof -
  have "find_result_by_key db (nr_created_by i) (nr_idempotency_key i) = Inr (Some v)"
    using assms(1,3) by (simp add: find_result_by_key_at coord_inv_def)
  with assms(2) show ?thesis by (simp add: put_result_def result_accepts_def)
qed

interpretation message_store: idempotent_store put_message "\<lambda>i. (nm_sender (fst i), nm_idempotency_key (fst i))"
  message_at "\<lambda>e i. send_accepts e (fst i)" coord_inv message_ident coord_extends
proof unfold_locales
  fix s s' :: coord and e i v x k
  show "coord_inv s \<Longrightarrow> put_message e i s = (Inr v, s') \<Longrightarrow>
      message_at s' (nm_sender (fst i), nm_idempotency_key (fst i)) = Some v"
    by (simp add: put_message_def send_message_stored)
  show "coord_inv s \<Longrightarrow> send_accepts e (fst i) \<Longrightarrow>
      message_at s (nm_sender (fst i), nm_idempotency_key (fst i)) = Some v \<Longrightarrow> put_message e i s = (Inr v, s)"
    by (simp add: put_message_def send_message_replay)
  show "put_message e i s = (Inl x, s') \<Longrightarrow> s' = s"
    using outcomeD [OF send_message_outcome, of e s "fst i" "snd i" "Inl x" s']
    by (auto simp: put_message_def elim: send_spec.cases)
  show "coord_inv s' \<Longrightarrow> coord_extends s s' \<Longrightarrow> message_at s k = Some v \<Longrightarrow>
      \<exists>v'. message_at s' k = Some v' \<and> message_ident v' = message_ident v"
    using message_at_extends message_le_ident by blast
  show "coord_inv s \<Longrightarrow> coord_inv (snd (put_message e i s))"
    using coord_exec_inv [of s "CallSend e (fst i) (snd i)"] by (simp add: put_message_def)
qed

interpretation artifact_store: idempotent_store put_artifact' "\<lambda>i. (na_created_by (fst i), na_idempotency_key (fst i))"
  artifact_at "\<lambda>e i. artifact_accepts e (fst i)" coord_inv "\<lambda>a. a" coord_extends
proof unfold_locales
  fix s s' :: coord and e i v x k
  show "coord_inv s \<Longrightarrow> put_artifact' e i s = (Inr v, s') \<Longrightarrow>
      artifact_at s' (na_created_by (fst i), na_idempotency_key (fst i)) = Some v"
    by (simp add: put_artifact'_def put_artifact_stored)
  show "coord_inv s \<Longrightarrow> artifact_accepts e (fst i) \<Longrightarrow>
      artifact_at s (na_created_by (fst i), na_idempotency_key (fst i)) = Some v \<Longrightarrow> put_artifact' e i s = (Inr v, s)"
    by (simp add: put_artifact'_def put_artifact_replay)
  show "put_artifact' e i s = (Inl x, s') \<Longrightarrow> s' = s"
    using outcomeD [OF put_artifact_outcome, of e s "fst i" "snd i" "Inl x" s']
    by (auto simp: put_artifact'_def elim: artifact_spec.cases)
  show "coord_inv s' \<Longrightarrow> coord_extends s s' \<Longrightarrow> artifact_at s k = Some v \<Longrightarrow>
      \<exists>v'. artifact_at s' k = Some v' \<and> v' = v"
    using artifact_at_extends by blast
  show "coord_inv s \<Longrightarrow> coord_inv (snd (put_artifact' e i s))"
    using coord_exec_inv [of s "CallArtifact e (fst i) (snd i)"] by (simp add: put_artifact'_def)
qed

interpretation result_store: idempotent_store put_result' "\<lambda>i. (nr_created_by (fst i), nr_idempotency_key (fst i))"
  result_at "\<lambda>e i. result_accepts e (fst i)" coord_inv "\<lambda>a. a" coord_extends
proof unfold_locales
  fix s s' :: coord and e i v x k
  show "coord_inv s \<Longrightarrow> put_result' e i s = (Inr v, s') \<Longrightarrow>
      result_at s' (nr_created_by (fst i), nr_idempotency_key (fst i)) = Some v"
    by (simp add: put_result'_def put_result_stored)
  show "coord_inv s \<Longrightarrow> result_accepts e (fst i) \<Longrightarrow>
      result_at s (nr_created_by (fst i), nr_idempotency_key (fst i)) = Some v \<Longrightarrow> put_result' e i s = (Inr v, s)"
    by (simp add: put_result'_def put_result_replay)
  show "put_result' e i s = (Inl x, s') \<Longrightarrow> s' = s"
    using outcomeD [OF put_result_outcome, of e s "fst i" "snd i" "Inl x" s']
    by (auto simp: put_result'_def elim: result_spec.cases)
  show "coord_inv s' \<Longrightarrow> coord_extends s s' \<Longrightarrow> result_at s k = Some v \<Longrightarrow>
      \<exists>v'. result_at s' k = Some v' \<and> v' = v"
    using result_at_extends by blast
  show "coord_inv s \<Longrightarrow> coord_inv (snd (put_result' e i s))"
    using coord_exec_inv [of s "CallResult e (fst i) (snd i)"] by (simp add: put_result'_def)
qed

section \<open>Task revisions\<close>

text \<open>The three writes that name the revision they expect.\<close>

datatype task_write =
  OpClaim rstr int
| OpRenew rstr int
| OpTransition rstr task_state "json option"

fun task_cas ::
  "env \<Rightarrow> rstr \<Rightarrow> int \<Rightarrow> task_write \<Rightarrow> coord \<Rightarrow> (storage_error + task revisioned_write) \<times> coord" where
  "task_cas e tid r (OpClaim w ttl) db = claim_task e db tid w r ttl"
| "task_cas e tid r (OpRenew w ttl) db = renew_lease e db tid w r ttl"
| "task_cas e tid r (OpTransition w s d) db = transition_task e db tid w r s d"

text \<open>All their branches at once.\<close>

inductive write_spec ::
  "env \<Rightarrow> coord \<Rightarrow> rstr \<Rightarrow> int \<Rightarrow> storage_error + task revisioned_write \<Rightarrow> coord \<Rightarrow> bool"
  for e db tid r where
  ws_error: "write_spec e db tid r (Inl x) db"
| ws_stale:
    "find_task db tid = Some t \<Longrightarrow> t_revision t \<noteq> r \<Longrightarrow> write_spec e db tid r (Inr (Conflict (Some (t_revision t)))) db"
| ws_raced:
    "find_task db tid = Some t \<Longrightarrow> t_revision t = r \<Longrightarrow> write_spec e db tid r (Inr (Conflict None)) db"
| ws_same:
    "find_task db tid = Some t \<Longrightarrow> t_revision t = r \<Longrightarrow> write_spec e db tid r (Inr (Applied t)) db"
| ws_expired:
    "t_revision t = r \<Longrightarrow> task_written (env_now e) w tid t t' src dst db db' \<Longrightarrow>
     write_spec e db tid r (Inl (Invariant TASK_HAS_EXPIRED)) db'"
| ws_applied:
    "t_revision t = r \<Longrightarrow> task_written (env_now e) w tid t t' src dst db db' \<Longrightarrow>
     write_spec e db tid r (Inr (Applied t')) db'"

lemma task_cas_spec: "task_cas e tid r a db = (res, db') \<Longrightarrow> write_spec e db tid r res db'"
proof (cases a)
  case (OpClaim w ttl)
  assume "task_cas e tid r a db = (res, db')"
  with OpClaim outcomeD [OF claim_task_outcome, of e db tid w r ttl res db'] show ?thesis
    by (auto elim!: claim_spec.cases intro: write_spec.intros)
next
  case (OpRenew w ttl)
  assume "task_cas e tid r a db = (res, db')"
  with OpRenew outcomeD [OF renew_lease_outcome, of e db tid w r ttl res db'] show ?thesis
    by (auto elim!: renew_spec.cases intro: write_spec.intros)
next
  case (OpTransition w s d)
  assume "task_cas e tid r a db = (res, db')"
  with OpTransition outcomeD [OF transition_task_outcome, of e db tid w r s d res db'] show ?thesis
    by (auto elim!: transition_spec.cases intro: write_spec.intros)
qed

interpretation task_register: cas_register find_task t_revision task_cas coord_inv
proof unfold_locales
  fix s s' :: coord and e and k k' :: rstr and r a res v v' c
  show "s' = s \<and> (res = Inr (Conflict (Some (t_revision v))) \<or> (\<exists>x. res = Inl x))"
    if "find_task s k = Some v" "t_revision v \<noteq> r" "task_cas e k r a s = (res, s')"
    using task_cas_spec [OF that(3)] that(1,2) by (auto simp: task_written_def elim!: write_spec.cases)
  show "find_task s' k = Some v' \<and>
      (\<exists>v. find_task s k = Some v \<and> t_revision v = r \<and> (s' = s \<and> v' = v \<or> t_revision v' = r + 1))"
    if "task_cas e k r a s = (Inr (Applied v'), s')"
    using task_cas_spec [OF that]
  proof (cases rule: write_spec.cases)
    case (ws_applied t w src dst)
    with task_written_find(1) [OF ws_applied(2)] show ?thesis
      by (auto simp: task_written_def dest: task_change_revision)
  qed auto
  show "s' = s" if "task_cas e k r a s = (Inr (Conflict c), s')"
    using task_cas_spec [OF that] by (auto elim: write_spec.cases)
  show "find_task s' k' = find_task s k'" if "task_cas e k r a s = (res, s')" "k' \<noteq> k"
    using task_cas_spec [OF that(1)] that(2) by (auto simp: task_written_find(2) elim!: write_spec.cases)
  show "coord_inv s'" if "coord_inv s" "task_cas e k r a s = (res, s')"
    using task_cas_spec [OF that(2)] that(1)
    by (auto elim!: write_spec.cases intro: coord_step_inv step_task)
qed

end
