(* ===== verification/Samples.thy ===== *)
theory Samples
  imports Coordination_Contracts
begin

text \<open>
  Concrete inputs on which the properties with hypotheses are evaluated, and the definitions the
  simplifier unfolds to run the model on them.
\<close>

definition sample_env :: "int \<Rightarrow> nat \<Rightarrow> env" where
  "sample_env now u = \<lparr>env_now = now, env_uuid = (\<lambda>n. [u + n]), env_json_len = (\<lambda>_. 2),
     env_blake3_hex = (\<lambda>s. s), env_blake3_json = (\<lambda>_. []), env_rfc3339 = (\<lambda>t. Inr (show_int t)),
     env_year = (\<lambda>_. 2024), env_checked_add = (\<lambda>a b. Some (a + b)), env_yield_error = (\<lambda>_. [])\<rparr>"

definition sample_task :: new_task where
  "sample_task = \<lparr>nt_title = [116], nt_description = [], nt_created_by = [97],
     nt_wing = [112], nt_idempotency_key = [107], nt_parent_id = None,
     nt_dependencies = [], nt_budget = None, nt_expires_at = Some 1000\<rparr>"

definition sample_calls :: "coord_call list" where
  "sample_calls = 
     [CallCreate (sample_env 1 100) sample_task None,
      CallClaim (sample_env 2 200) (lit ''task_'' @ [100]) [119] 0 50]"

lemmas char_defs = is_whitespace_def is_ascii_lower_def is_ascii_upper_def is_ascii_digit_def
  is_ascii_alphanumeric_def is_ascii_control_def
lemmas text_defs = lit_def trim_def trim_start_def trim_end_def to_ascii_lowercase_def starts_with_def
  str_len_def utf8_width_def

lemma trim_1 [simp]: "trim [c] = (if is_whitespace c then [] else [c])"
  by (simp add: trim_def trim_start_def trim_end_def)
lemma wing_p [simp]: "wing_normalized [112] = Inr (lit ''wing_p'')" 
  by (simp add: wing_normalized_def text_defs char_defs canonical_char_def WING_PREFIX_def new_id_def validate_id_def id_char_def)

lemmas eval_defs = sample_env_def sample_task_def sample_calls_def coord_init_def
  create_task_def create_task_with_state_def claim_task_def renew_lease_def transition_task_def yield_task_def
  validate_key_def validate_actor_def bounded_text_def bounded_json_def MAX_KEY_BYTES_def MAX_TASK_TEXT_BYTES_def
  MAX_PAYLOAD_BYTES_def opt_check_def normalize_wing_def UNSCOPED_WING_def find_task_by_key_def find_task_def
  format_time_opt_def format_time_def insert_task_def append_event_def get_event_def require_task_def update_task_def
  count_rows_def is_whitespace_def utf8_width_def Let_def

end
