(* ===== verification/Coordination_Props.thy ===== *)
theory Coordination_Props
  imports Samples
begin

text \<open>
  The properties of the coordination store: its invariant and refinement over every sequence of
  calls, its audit log, leases, revisions, idempotency, and acknowledgements.
\<close>

section \<open>Whole histories\<close>

text \<open>
  The text stored for a task state parses back to that state, and nothing else parses to it:
  the seven names of the state column are exactly the seven states.
\<close>

lemma task_state_codec: "parse_task_state v = Inr s \<longleftrightarrow> v = task_state_str s"
  by (cases s) (auto simp: parse_task_state_def)

text \<open>
  C2: In every state the store can reach by any calls at any times, keys and sequences are unique and
  ascending, every record refers to an existing task, a terminal task has no owner, lease or affinity,
  a lease has an owner, a checkpointed task is owned by the executor it is assigned to, and every
  audit event carries the wing of its task.
\<close>

theorem coord_reachable_inv: "coord_inv (run_calls coord_exec cs coord_init)"
  by (rule coord_hist.reachable_inv)

text \<open>
  C1: Any sequence of calls is a sequence of steps of the abstract machine, so nothing but the nine
  calls' documented changes, each with its one audit event, ever happens to the database.
\<close>

theorem coord_run_refines:
  "(\<lambda>a b. \<exists>now. coord_step now a b)\<^sup>*\<^sup>* db (run_calls coord_exec cs db)"
proof (induction cs arbitrary: db)
  case (Cons c cs)
  have "(\<lambda>a b. \<exists>now. coord_step now a b)\<^sup>*\<^sup>* db (coord_exec c db)"
    using coord_exec_refines [of c db] by (metis (mono_tags, lifting) r_into_rtranclp rtranclp.rtrancl_refl)
  with Cons.IH [of "coord_exec c db"] show ?case by simp
qed simp

text \<open>
  C4: The audit log determines the tasks: replaying a task's events from its creation, checking that
  each revision follows the previous one and that each move is one the lifecycle allows, ends in the
  task's current state and revision.
\<close>

theorem audit_trail_replays:
  "map_option (\<lambda>t. Some (t_state t, t_revision t)) (find_task (run_calls coord_exec cs coord_init) tid) =
   map_option (\<lambda>t. replay (task_trail (run_calls coord_exec cs coord_init) tid))
     (find_task (run_calls coord_exec cs coord_init) tid)"
  using coord_hist.reachable_inv [of cs]
  by (cases "find_task (run_calls coord_exec cs coord_init) tid") (auto simp: coord_inv_def trails_ok_def)

text \<open>
  Later calls only extend the store: the audit log grows at its end, tasks keep their identity,
  wing, links and sequence while their revision never decreases and never stays the same when anything
  changes, messages only gain an acknowledgement, and artifacts and results never change.
\<close>

theorem coord_history_extends:
  "coord_extends (run_calls coord_exec cs coord_init) (run_calls coord_exec (cs @ ds) coord_init)"
  by (rule coord_hist.reachable_extends)

text \<open>A task that reached a terminal state is never changed by any later call.\<close>

theorem terminal_task_frozen:
  assumes "find_task (run_calls coord_exec cs coord_init) tid = Some t" and "task_terminal (t_state t)"
  shows "find_task (run_calls coord_exec (cs @ ds) coord_init) tid = Some t"
proof -
  let ?db = "run_calls coord_exec cs coord_init" and ?db' = "run_calls coord_exec (cs @ ds) coord_init"
  from assms(1) obtain r where r: "r \<in> set (cd_tasks ?db)" "tr_task r = t" "t_task_id t = tid"
    using find_task_Some_row by blast
  with coord_hist.reachable_extends [of cs ds] obtain r' where r': "r' \<in> set (cd_tasks ?db')" "task_le t (tr_task r')"
    unfolding coord_extends_def rows_le_def task_row_le_def by blast
  with assms(2) have "tr_task r' = t" by (simp add: task_le_def)
  with find_task_row [of ?db' r'] r' r(3) coord_hist.reachable_inv [of "cs @ ds"] show ?thesis
    by (simp add: coord_inv_def)
qed

theorem terminal_task_frozen_witness:
  "find_task (run_calls coord_exec
     ([CallImport (sample_env 1 100) sample_task TFailed] @ [CallClaim (sample_env 2 200) (lit ''task_'' @ [100]) [119] 0 50])
     coord_init) (lit ''task_'' @ [100]) =
   find_task (run_calls coord_exec [CallImport (sample_env 1 100) sample_task TFailed] coord_init) (lit ''task_'' @ [100])"
proof -
  obtain t where t: "find_task (run_calls coord_exec [CallImport (sample_env 1 100) sample_task TFailed] coord_init)
      (lit ''task_'' @ [100]) = Some t" "task_terminal (t_state t)"
    by (simp add: import_task_def eval_defs)
  show ?thesis by (simp only: t(1) terminal_task_frozen [OF t])
qed

text \<open>
  Parent and dependency links are acyclic in every reachable store: a task can only refer to tasks
  that existed before it.
\<close>

theorem task_links_acyclic:
  "acyclic {(tid, d). \<exists>t. find_task (run_calls coord_exec cs coord_init) tid = Some t \<and> d \<in> set (task_links t)}"
  (is "acyclic ?R")
proof -
  let ?db = "run_calls coord_exec cs coord_init"
  have ok: "tasks_ok ?db" using coord_hist.reachable_inv [of cs] by (simp add: coord_inv_def)
  define sq where "sq tid = (case find_row (\<lambda>r. t_task_id (tr_task r) = tid) (cd_tasks ?db) of
      None \<Rightarrow> 0 | Some r \<Rightarrow> tr_sequence r)" for tid
  have row: "sq (t_task_id (tr_task r)) = tr_sequence r" if "r \<in> set (cd_tasks ?db)" for r
    using ok that by (auto simp: sq_def tasks_ok_def dest!: keyed_table_find)
  have "sq d < sq tid \<and> 0 \<le> sq d" if "(tid, d) \<in> ?R" for tid d
  proof -
    from that obtain t where "find_task ?db tid = Some t" and d: "d \<in> set (task_links t)" by blast
    then obtain r where r: "r \<in> set (cd_tasks ?db)" "tr_task r = t" "t_task_id t = tid"
      using find_task_Some_row by blast
    with ok d obtain r' where "r' \<in> set (cd_tasks ?db)" "t_task_id (tr_task r') = d" "tr_sequence r' < tr_sequence r"
      unfolding tasks_ok_def by blast
    with row r ok show ?thesis by (auto simp: tasks_ok_def seq_table_def intro: less_imp_le)
  qed
  then have "?R\<inverse> \<subseteq> measure (\<lambda>tid. nat (sq tid))" by fastforce
  then have "wf (?R\<inverse>)" by (rule wf_subset [OF wf_measure])
  then show ?thesis using wf_acyclic acyclic_converse by blast
qed

section \<open>Leases\<close>

text \<open>The identity a lease operation acts under.\<close>

fun call_actor :: "coord_call \<Rightarrow> rstr option" where
  "call_actor (CallClaim e t w r ttl) = Some w"
| "call_actor (CallRenew e t w r ttl) = Some w"
| "call_actor (CallTransition e t a r s d) = Some a"
| "call_actor _ = None"

text \<open>
  C3: While a worker's lease is live, no call by anybody else takes the task from it: the task stays
  exactly as it is unless its own deadline passes (it expires) or it is cancelled.
\<close>

theorem live_lease_respected:
  assumes "find_task db tid = Some t" and "t_owner t = Some a" and "lease_live (env_now (call_env c)) t"
    and "call_actor c \<noteq> Some a"
  shows "\<exists>t'. find_task (coord_exec c db) tid = Some t' \<and>
    (t' = t \<or> t_state t' = TExpired \<or> t_state t' = TCancelled)"
proof -
  have other: "\<exists>t'. find_task db' tid = Some t' \<and> (t' = t \<or> t_state t' = TExpired \<or> t_state t' = TCancelled)"
    if w: "task_written (env_now (call_env c)) w tid' u u' src dst db db'" and "w \<noteq> a" for w tid' u u' src dst db'
  proof (cases "tid' = tid")
    case True
    with w assms(1) have "u = t" and tc: "task_change (env_now (call_env c)) w t u' src dst"
      by (auto simp: task_written_def)
    from tc assms(2,3) that(2) have "t_state u' = TExpired \<or> t_state u' = TCancelled"
      by (cases rule: task_change.cases) (auto simp: task_changes)
    with task_written_find(1) [OF w] True show ?thesis by blast
  next
    case False
    with task_written_find(2) [OF w] assms(1) show ?thesis by auto
  qed
  show ?thesis
  proof (cases c)
    case (CallClaim e i w r ttl)
    with claim_task_outcome [of e db i w r ttl] assms(1,4) other show ?thesis
      by (fastforce simp: outcome_def elim!: claim_spec.cases)
  next
    case (CallRenew e i w r ttl)
    with renew_lease_outcome [of e db i w r ttl] assms(1,4) other show ?thesis
      by (fastforce simp: outcome_def elim!: renew_spec.cases)
  next
    case (CallTransition e i w r s d)
    with transition_task_outcome [of e db i w r s d] assms(1,4) other show ?thesis
      by (fastforce simp: outcome_def elim!: transition_spec.cases)
  next
    case (CallCreate e i p)
    with create_task_outcome [of db i e p] assms(1) show ?thesis
      by (auto simp: outcome_def elim!: create_spec.cases dest: find_task_insert_keeps)
  next
    case (CallImport e i s)
    with create_task_with_state_outcome [of db i s e True None] assms(1) show ?thesis
      by (auto simp: outcome_def import_task_def elim!: create_spec.cases dest: find_task_insert_keeps)
  next
    case (CallSend e i p)
    with send_message_outcome [of e db i p] assms(1) show ?thesis
      by (auto simp: outcome_def find_task_insert_other elim!: send_spec.cases)
  next
    case (CallAck e m b)
    with acknowledge_message_outcome [of e db m b] assms(1) show ?thesis
      by (auto simp: outcome_def elim!: ack_spec.cases)
  next
    case (CallArtifact e i p)
    with put_artifact_outcome [of e db i p] assms(1) show ?thesis
      by (auto simp: outcome_def find_task_insert_other elim!: artifact_spec.cases)
  next
    case (CallResult e i p)
    with put_result_outcome [of e db i p] assms(1) show ?thesis
      by (auto simp: outcome_def find_task_insert_other elim!: result_spec.cases)
  qed
qed

theorem live_lease_respected_witness:
  "\<exists>t'. find_task (coord_exec (CallClaim (sample_env 3 300) (lit ''task_'' @ [100]) [120] 1 50)
       (run_calls coord_exec sample_calls coord_init)) (lit ''task_'' @ [100]) = Some t'"
proof -
  let ?db = "run_calls coord_exec sample_calls coord_init"
  let ?c = "CallClaim (sample_env 3 300) (lit ''task_'' @ [100]) [120] 1 50"
  obtain t where t: "find_task ?db (lit ''task_'' @ [100]) = Some t" "t_owner t = Some [119]"
    "t_lease_expires_at t = Some 52"
    by (simp add: eval_defs)
  have "lease_live (env_now (call_env ?c)) t" and "call_actor ?c \<noteq> Some [119]"
    by (simp_all add: t(3) lease_live_def sample_env_def)
  from live_lease_respected [OF t(1,2) this] show ?thesis by blast
qed

text \<open>No worker but \<open>w\<close> holds a live lease.\<close>

definition lease_open :: "int \<Rightarrow> rstr \<Rightarrow> task \<Rightarrow> bool" where
  "lease_open now w t \<longleftrightarrow> (if lease_live now t then none_or (\<lambda>x. x = w) (t_owner t) else True)"

lemma lease_open_iff: "lease_open now w t \<longleftrightarrow> none_or (\<lambda>x. x = w) (t_owner t) \<or> \<not> lease_live now t"
  by (simp add: lease_open_def)

text \<open>
  What a claim does, on every branch: granted, it was made at the expected revision on a task that
  is not terminal, not past its deadline, free of another executor's affinity and of another worker's
  live lease, and the task read back is running, owned by the claimer until now plus the lease time,
  one revision on; refused, the database is untouched except that a task past its deadline expires.
\<close>

theorem claim_task_grants:
  "case claim_task e db tid w r ttl of
     (Inr (Applied t'), db') \<Rightarrow>
       find_task db' tid = Some t' \<and>
       (\<exists>t l. find_task db tid = Some t \<and> t_revision t = r \<and> \<not> task_terminal (t_state t) \<and>
          \<not> opt_holds (\<lambda>v. v \<le> env_now e) (t_expires_at t) \<and> none_or (\<lambda>x. x = w) (t_executor_affinity t) \<and>
          lease_open (env_now e) w t \<and> env_checked_add e (env_now e) ttl = Some l \<and> t' = claimed (env_now e) w l t)
   | (Inr (Conflict c), db') \<Rightarrow> db' = db
   | (Inl x, db') \<Rightarrow> db' = db \<or>
       x = Invariant TASK_HAS_EXPIRED \<and>
       (\<exists>t. find_task db tid = Some t \<and> opt_holds (\<lambda>v. v \<le> env_now e) (t_expires_at t) \<and>
          find_task db' tid = Some (expired (env_now e) t))"
proof (cases "claim_task e db tid w r ttl")
  case (Pair res db')
  from outcomeD [OF claim_task_outcome Pair] show ?thesis
  proof (cases rule: claim_spec.cases)
    case (claim_expired t)
    with task_written_find(1) [OF claim_expired(4)] show ?thesis by (auto simp: Pair task_written_def)
  next
    case (claim_applied t l)
    with task_written_find(1) [OF claim_applied(10)] show ?thesis
      by (auto simp: Pair task_written_def lease_open_iff)
  qed (auto simp: Pair)
qed

lemma reachable_count_1:
  assumes "coord_inv db" and "find_task db tid = Some t"
  shows "count_rows (\<lambda>x. t_task_id (tr_task x) = tid \<and> t_revision (tr_task x) = t_revision t) (cd_tasks db) = 1"
proof -
  from assms(2) obtain r where r: "r \<in> set (cd_tasks db)" "tr_task r = t" "t_task_id t = tid"
    using find_task_Some_row by blast
  with assms(1) count_rows_key [of "\<lambda>r. t_task_id (tr_task r)" "cd_tasks db" r
      "\<lambda>x. t_revision (tr_task x) = t_revision t"] show ?thesis
    by (simp add: coord_inv_def tasks_ok_def keyed_table_def)
qed

lemma append_event_ok:
  "env_rfc3339 e at = Inr s \<Longrightarrow> get_event db (lit ''event_'' @ env_uuid e n) = None \<Longrightarrow>
   append_event e n ety eid tid wing ty actor src dst r d at db = Inr (add_event
     \<lparr>ev_sequence = cd_event_seq db + 1, ev_event_id = lit ''event_'' @ env_uuid e n,
      ev_entity_type = ety, ev_entity_id = eid, ev_task_id = tid, ev_wing = wing,
      ev_event_type = ty, ev_actor = actor, ev_from_state = src, ev_to_state = dst,
      ev_revision = r, ev_details = d, ev_occurred_at = at\<rparr> db)"
  by (simp add: append_event_def format_time_def add_event_def Let_def)

lemma get_event_update_task [simp]: "get_event (update_task f tid db) eid = get_event db eid"
  by (simp add: get_event_def)

text \<open>
  A claim that meets the rules is granted: no lock or race can refuse it, whatever has happened to
  the store before, as long as the timestamps can be formatted and the event identifier is new.
\<close>

theorem claim_task_available:
  assumes "db = run_calls coord_exec cs coord_init" and "find_task db tid = Some t"
    and "trim w \<noteq> []" and "0 < ttl" and "\<not> task_terminal (t_state t)"
    and "\<not> opt_holds (\<lambda>v. v \<le> env_now e) (t_expires_at t)"
    and "none_or (\<lambda>x. x = w) (t_executor_affinity t)"
    and "lease_open (env_now e) w t"
    and "env_checked_add e (env_now e) ttl = Some l"
    and "env_rfc3339 e l = Inr s1" and "env_rfc3339 e (env_now e) = Inr s2"
    and "get_event db (lit ''event_'' @ env_uuid e 0) = None"
  shows "fst (claim_task e db tid w (t_revision t) ttl) = Inr (Applied (claimed (env_now e) w l t))"
proof -
  have inv: "coord_inv db" unfolding assms(1) by (rule coord_hist.reachable_inv)
  have af: "\<not> opt_holds (\<lambda>x. x \<noteq> w) (t_executor_affinity t)"
    "\<not> (opt_holds (\<lambda>x. x \<noteq> w) (t_owner t) \<and> opt_holds (\<lambda>v. v > env_now e) (t_lease_expires_at t))"
    using assms(7,8) by (auto simp: none_or_iff opt_holds_iff lease_live_def lease_open_iff)
  have c1: "count_rows (\<lambda>x. t_task_id (tr_task x) = tid \<and> t_revision (tr_task x) = t_revision t) (cd_tasks db) = Suc 0"
    using reachable_count_1 [OF inv assms(2)] by simp
  have rd: "require_task (add_event ev (update_task (\<lambda>r. r\<lparr>t_state := TRunning, t_revision := t_revision t + 1,
      t_owner := Some w, t_lease_expires_at := Some l, t_updated_at := env_now e\<rparr>) tid db)) tid =
      Inr (claimed (env_now e) w l t)" for ev
    using assms(2) find_task_id [OF assms(2)] by (simp add: find_task_update_task claimed_def)
  have "require_task db tid = Inr t" "validate_actor w = Inr ()"
    "format_time e l = Inr l" "format_time e (env_now e) = Inr (env_now e)"
    using assms by (simp_all add: validate_actor_def format_time_def)
  then show ?thesis
    using assms(4-6,9) af c1
    by (simp add: claim_task_def Let_def append_event_ok [OF assms(11)] assms(12) rd del: require_task_Inr)
qed

theorem claim_task_available_witness:
  "fst (claim_task (sample_env 5 200)
      (run_calls coord_exec [CallCreate (sample_env 1 100) sample_task None] coord_init)
      (lit ''task_'' @ [100]) [119] 0 50) \<noteq> Inr (Conflict None)"
proof -
  let ?db = "run_calls coord_exec [CallCreate (sample_env 1 100) sample_task None] coord_init"
  obtain t where t: "find_task ?db (lit ''task_'' @ [100]) = Some t" "t_revision t = 0"
    "t_state t = TPending" "t_owner t = None" "t_executor_affinity t = None" "t_expires_at t = Some 1000"
    by (simp add: eval_defs)
  have e: "get_event ?db (lit ''event_'' @ env_uuid (sample_env 5 200) 0) = None"
    by (simp add: eval_defs)
  have "fst (claim_task (sample_env 5 200) ?db (lit ''task_'' @ [100]) [119] (t_revision t) 50) =
      Inr (Applied (claimed (env_now (sample_env 5 200)) [119] 55 t))"
    by (rule claim_task_available [OF refl t(1)])
      (use t e in \<open>simp_all add: sample_env_def is_whitespace_def lease_open_def\<close>)
  then show ?thesis by (simp add: t(2))
qed

text \<open>
  A task past its deadline is expired by the next claim even though that claim fails: the error is
  returned and the terminal state is committed, with owner, affinity and lease cleared.
\<close>

theorem deadline_expiry_commits:
  assumes "find_task db tid = Some t" and "trim w \<noteq> []" and "0 < ttl" and "\<not> task_terminal (t_state t)"
    and "opt_holds (\<lambda>v. v \<le> env_now e) (t_expires_at t)" and "env_rfc3339 e (env_now e) = Inr s"
    and "get_event db (lit ''event_'' @ env_uuid e 0) = None"
  shows "fst (claim_task e db tid w (t_revision t) ttl) = Inl (Invariant TASK_HAS_EXPIRED) \<and>
    find_task (snd (claim_task e db tid w (t_revision t) ttl)) tid = Some (expired (env_now e) t)"
proof -
  have "require_task db tid = Inr t" "validate_actor w = Inr ()" "format_time e (env_now e) = Inr (env_now e)"
    using assms by (simp_all add: validate_actor_def format_time_def)
  then show ?thesis
    using assms(1,3-5) find_task_id [OF assms(1)]
    by (simp add: claim_task_def Let_def append_event_ok [OF assms(6)] assms(7) find_task_update_task
        expired_def del: require_task_Inr)
qed

theorem deadline_expiry_commits_witness:
  "fst (claim_task (sample_env 2000 200)
      (run_calls coord_exec [CallCreate (sample_env 1 100) sample_task None] coord_init)
      (lit ''task_'' @ [100]) [119] 0 50) = Inl (Invariant TASK_HAS_EXPIRED)"
proof -
  let ?db = "run_calls coord_exec [CallCreate (sample_env 1 100) sample_task None] coord_init"
  obtain t where t: "find_task ?db (lit ''task_'' @ [100]) = Some t" "t_revision t = 0"
    "t_state t = TPending" "t_expires_at t = Some 1000"
    by (simp add: eval_defs)
  have e: "get_event ?db (lit ''event_'' @ env_uuid (sample_env 2000 200) 0) = None"
    by (simp add: eval_defs)
  show ?thesis
    using deadline_expiry_commits [OF t(1), of "[119]" 50 "sample_env 2000 200"] e
    by (simp add: t is_whitespace_def) (simp add: sample_env_def)
qed

text \<open>
  What a transition does, on every branch: an ordinary move follows the transition table and is made
  by the owner unless it cancels; a yield is made by the owner, gives a non-blank reason and, when it
  hands the work over, names a checkpoint artifact of the same task, after which the task waits for that
  executor without a lease; repeating a yield changes nothing; everything refused changes nothing.
\<close>

theorem transition_task_rules:
  "case transition_task e db tid w r dst details of
     (Inr (Applied t'), db') \<Rightarrow> find_task db' tid = Some t' \<and>
       (\<exists>t. find_task db tid = Some t \<and> t_revision t = r \<and>
         (db' = db \<and> t' = t \<and> dst = TPending \<and> t_state t = TPending \<and> t_owner t = Some w \<and>
            t_executor_affinity t \<noteq> None \<or>
          allowed_transition (t_state t) dst \<and> (t_owner t = None \<or> t_owner t = Some w \<or> dst = TCancelled) \<and>
            t' = moved (env_now e) dst t \<or>
          dst = TPending \<and> t_owner t = Some w \<and>
            (\<exists>d parsed x. details = Some d \<and> parse_yield d = Some parsed \<and> trim (yd_reason parsed) \<noteq> [] \<and>
               t' = yielded (env_now e) x t \<and>
               (case yd_handoff parsed of None \<Rightarrow> x = w
                | Some h \<Rightarrow> x = ch_executor h \<and> trim x \<noteq> [] \<and>
                    (\<exists>a. get_artifact db (ch_artifact_id h) = Some a \<and> a_task_id a = tid \<and>
                       a_role a = lit ''checkpoint'')))))
   | (Inr (Conflict c), db') \<Rightarrow> db' = db
   | (Inl x, db') \<Rightarrow> db' = db"
proof (cases "transition_task e db tid w r dst details")
  case (Pair res db')
  from outcomeD [OF transition_task_outcome Pair] show ?thesis
  proof (cases rule: transition_spec.cases)
    case (tr_yielded t d parsed x)
    have "case yd_handoff parsed of None \<Rightarrow> x = w
          | Some h \<Rightarrow> x = ch_executor h \<and> trim x \<noteq> [] \<and>
              (\<exists>a. get_artifact db (ch_artifact_id h) = Some a \<and> a_task_id a = tid \<and> a_role a = lit ''checkpoint'')"
      using tr_yielded(8,9)
      by (auto simp: opt_check_def check_handoff_def split: option.splits if_splits)
    moreover have "find_task db tid = Some t" using tr_yielded(10) by (simp add: task_written_def)
    ultimately show ?thesis
      using tr_yielded(2-7) task_written_find(1) [OF tr_yielded(10)]
      unfolding Pair tr_yielded(1) prod.case sum.case revisioned_write.case by blast
  next
    case (tr_moved t)
    then have "find_task db tid = Some t" by (simp add: task_written_def)
    with tr_moved(2-4) task_written_find(1) [OF tr_moved(6)] show ?thesis
      unfolding Pair tr_moved(1) prod.case sum.case revisioned_write.case by blast
  next
    case (tr_yield_again t)
    then show ?thesis unfolding Pair tr_yield_again(1) prod.case sum.case revisioned_write.case by blast
  qed (simp_all add: Pair)
qed

section \<open>Revisions\<close>

text \<open>
  No update is lost: when two workers act on the same revision of a task and the first one changed
  it, the second one's claim, renewal or transition writes nothing, and is answered with the current
  revision unless it is rejected for another reason.
\<close>

theorem task_no_lost_update:
  assumes "task_cas e tid r a (run_calls coord_exec cs coord_init) = (Inr (Applied t), db1)"
    and "db1 \<noteq> run_calls coord_exec cs coord_init" and "task_cas e' tid r b db1 = (res, db2)"
  shows "db2 = db1 \<and> (res = Inr (Conflict (Some (r + 1))) \<or> (\<exists>x. res = Inl x))"
  by (rule task_register.no_lost_update [OF coord_hist.reachable_inv assms])

theorem task_no_lost_update_witness:
  "snd (task_cas (sample_env 6 300) (lit ''task_'' @ [100]) 0 (OpClaim [120] 9)
     (snd (task_cas (sample_env 5 200) (lit ''task_'' @ [100]) 0 (OpClaim [119] 50)
       (run_calls coord_exec [CallCreate (sample_env 1 100) sample_task None] coord_init)))) =
   snd (task_cas (sample_env 5 200) (lit ''task_'' @ [100]) 0 (OpClaim [119] 50)
       (run_calls coord_exec [CallCreate (sample_env 1 100) sample_task None] coord_init))"
proof -
  let ?db = "run_calls coord_exec [CallCreate (sample_env 1 100) sample_task None] coord_init"
  obtain t db1 where 1: "task_cas (sample_env 5 200) (lit ''task_'' @ [100]) 0 (OpClaim [119] 50) ?db =
      (Inr (Applied t), db1)" and d: "cd_event_seq db1 = 2"
    by (simp add: eval_defs)
  have "cd_event_seq ?db = 1" by (simp add: eval_defs)
  with d have 2: "db1 \<noteq> ?db" by auto
  obtain res db2 where 3: "task_cas (sample_env 6 300) (lit ''task_'' @ [100]) 0 (OpClaim [120] 9) db1 = (res, db2)"
    by (cases "task_cas (sample_env 6 300) (lit ''task_'' @ [100]) 0 (OpClaim [120] 9) db1")
  from task_no_lost_update [OF 1 2 3] show ?thesis unfolding 1 snd_conv 3 by (rule conjunct1)
qed

section \<open>Retries\<close>

text \<open>
  Creating a task is idempotent over the life of the store: once a creation succeeded, sending it
  again under the same author and key, at any later time and after any other calls, returns the same
  task as it now stands and writes nothing.
\<close>

theorem create_task_idempotent:
  assumes "create_task e (run_calls coord_exec cs coord_init) i p = (Inr t, db1)"
    and "create_accepts e' i" and "db2 = run_calls coord_exec ds db1"
  shows "\<exists>t'. create_task e' db2 i q = (Inr t', db2) \<and> task_ident t' = task_ident t"
proof -
  have inv: "coord_inv db1"
    using coord_hist.reachable_inv [of "cs @ [CallCreate e i p]"] by (simp add: run_calls_append assms(1))
  show ?thesis
    using task_store.late_retry [OF coord_hist.reachable_inv, of e "(i, p)" cs t db1 db2 e' "(i, q)"]
      coord_hist.run_extends [OF inv, of ds] coord_hist.run_inv [OF inv, of ds] assms
    by (simp add: put_task_def)
qed

theorem create_task_idempotent_witness:
  "\<exists>t'. create_task (sample_env 7 400) (run_calls coord_exec
       [CallClaim (sample_env 2 200) (lit ''task_'' @ [100]) [119] 0 50]
       (snd (create_task (sample_env 1 100) coord_init sample_task None))) sample_task None =
     (Inr t', run_calls coord_exec [CallClaim (sample_env 2 200) (lit ''task_'' @ [100]) [119] 0 50]
       (snd (create_task (sample_env 1 100) coord_init sample_task None)))"
proof -
  obtain t db1 where 1: "create_task (sample_env 1 100) (run_calls coord_exec [] coord_init) sample_task None = (Inr t, db1)"
    by (simp add: eval_defs)
  have 2: "create_accepts (sample_env 7 400) sample_task"
    by (simp add: create_accepts_def eval_defs)
  from create_task_idempotent [OF 1 2 refl, of "[CallClaim (sample_env 2 200) (lit ''task_'' @ [100]) [119] 0 50]" None] 1
  show ?thesis by auto
qed

text \<open>
  An artifact is immutable and its creation idempotent: after any later calls, the same author and
  key get back exactly the stored artifact, even when the retry carries other content.
\<close>

theorem put_artifact_idempotent:
  assumes "put_artifact e (run_calls coord_exec cs coord_init) i p = (Inr a, db1)"
    and "artifact_accepts e' j" and "db2 = run_calls coord_exec ds db1"
    and "na_created_by j = na_created_by i" and "na_idempotency_key j = na_idempotency_key i"
  shows "put_artifact e' db2 j q = (Inr a, db2)"
proof -
  have inv: "coord_inv db1"
    using coord_hist.reachable_inv [of "cs @ [CallArtifact e i p]"] by (simp add: run_calls_append assms(1))
  show ?thesis
    using artifact_store.late_retry [OF coord_hist.reachable_inv, of e "(i, p)" cs a db1 db2 e' "(j, q)"]
      coord_hist.run_extends [OF inv, of ds] coord_hist.run_inv [OF inv, of ds] assms
    by (simp add: put_artifact'_def)
qed

definition sample_artifact :: "rstr \<Rightarrow> new_artifact" where
  "sample_artifact c = \<lparr>na_task_id = lit ''task_'' @ [100], na_created_by = [97], na_role = lit ''checkpoint'',
     na_media_type = [], na_content = c, na_idempotency_key = [107]\<rparr>"

theorem put_artifact_idempotent_witness:
  "fst (put_artifact (sample_env 9 500)
     (snd (put_artifact (sample_env 8 400)
       (run_calls coord_exec [CallCreate (sample_env 1 100) sample_task None] coord_init) (sample_artifact [49]) None))
     (sample_artifact [50]) None) =
   fst (put_artifact (sample_env 8 400)
       (run_calls coord_exec [CallCreate (sample_env 1 100) sample_task None] coord_init) (sample_artifact [49]) None)"
proof -
  obtain a db1 where 1: "put_artifact (sample_env 8 400)
      (run_calls coord_exec [CallCreate (sample_env 1 100) sample_task None] coord_init) (sample_artifact [49]) None =
      (Inr a, db1)"
    by (simp add: eval_defs put_artifact_def sample_artifact_def find_artifact_by_key_def insert_artifact_def get_artifact_def)
  have 2: "artifact_accepts (sample_env 9 500) (sample_artifact [50])"
    by (simp add: artifact_accepts_def sample_artifact_def eval_defs)
  have "put_artifact (sample_env 9 500) (run_calls coord_exec [] db1) (sample_artifact [50]) None =
      (Inr a, run_calls coord_exec [] db1)"
    by (rule put_artifact_idempotent [OF 1 2 refl]) (simp_all add: sample_artifact_def)
  with 1 show ?thesis by simp
qed

text \<open>
  Only its recipient can acknowledge a message, the acknowledgement is stored, and acknowledging it
  again, at any time, returns the first acknowledgement and writes nothing.
\<close>

theorem acknowledge_once:
  "case acknowledge_message e (run_calls coord_exec cs coord_init) mid actor of
     (Inr m, db') \<Rightarrow> m_recipient m = actor \<and> m_acknowledged_by m = Some actor \<and> get_message db' mid = Some m \<and>
       acknowledge_message e' db' mid actor = (Inr m, db')
   | (Inl x, db') \<Rightarrow> db' = run_calls coord_exec cs coord_init"
proof -
  let ?db = "run_calls coord_exec cs coord_init"
  have ok: "messages_ok ?db" using coord_hist.reachable_inv [of cs] by (simp add: coord_inv_def)
  obtain res db' where eq: "acknowledge_message e ?db mid actor = (res, db')" by fastforce
  have again: "acknowledge_message e' db'' mid actor = (Inr m, db'')"
    if "get_message db'' mid = Some m" "m_recipient m = actor" "m_acknowledged_at m \<noteq> None" for db'' m
    using that by (auto simp: acknowledge_message_def)
  from outcomeD [OF acknowledge_message_outcome eq] show ?thesis
  proof (cases rule: ack_spec.cases)
    case (ack_replay m)
    then obtain r where "r \<in> set (cd_messages ?db)" "mr_message r = m"
      by (auto simp: get_message_def dest: find_row_SomeD)
    with ok ack_replay(5) have "m_acknowledged_by m = Some (m_recipient m)" by (auto simp: messages_ok_def)
    with ack_replay again show ?thesis by (simp add: eq)
  next
    case (ack_new m t ev)
    have "get_message db' mid = Some (acknowledged (env_now e) actor m)"
      using ack_new get_message_id [OF ack_new(3)] get_message_update_message [of "acknowledged (env_now e) actor"]
      by (simp add: acknowledged_def)
    with ack_new again [of db' "acknowledged (env_now e) actor m"] show ?thesis
      by (simp add: eq acknowledged_def)
  qed (simp add: eq)
qed

end
