(* ===== verification/Coordination_Feed_Props.thy ===== *)
theory Coordination_Feed_Props
  imports Coordination_Contracts
begin

text \<open>
  The feeds of the coordination store: what a caller can see, that following the cursors reads every
  visible row exactly once, and the bounds of a task discovery page. The contract of a cursor feed is
  the locale \<open>ordered_feed\<close>, interpreted on \<open>events\<close> and \<open>inbox\<close>.
\<close>

section \<open>The contract of a cursor feed\<close>

locale ordered_feed =
  fixes rows :: "'s \<Rightarrow> 'r list"
    and sq :: "'r \<Rightarrow> int"
    and page :: "'s \<Rightarrow> nat \<Rightarrow> int option \<Rightarrow> 'e + 'r list \<times> int option"
    and inv :: "'s \<Rightarrow> bool"
    and accepted :: bool
  assumes rows_sorted: "inv s \<Longrightarrow> sorted_wrt (\<lambda>x y. sq x < sq y) (rows s)"
    and page_rows: "accepted \<Longrightarrow> page s n c =
          Inr (take_page sq (clamp 1 500 n) (filter (\<lambda>r. cursor_start c < sq r) (rows s)))"
begin

lemma drain_complete:
  assumes "inv s" and "accepted" and "length (rows s) < k"
  shows "drain k (page s n) c = Some (Inr (filter (\<lambda>r. cursor_start c < sq r) (rows s)))"
proof (rule drain_sorted)
  show "page s n c = Inr (take_page sq (clamp 1 500 n) (filter (\<lambda>r. cursor_start c < sq r) (rows s)))" for c
    by (rule page_rows [OF assms(2)])
  show "0 < clamp 1 500 n" by (simp add: clamp_def)
  show "length (filter (\<lambda>r. cursor_start c < sq r) (rows s)) < k"
    using assms(3) length_filter_le le_less_trans by blast
qed (rule rows_sorted [OF assms(1)])

lemma page_bounded: "accepted \<Longrightarrow> page s n c = Inr (rs, nx) \<Longrightarrow> length rs \<le> 500"
  by (auto simp: page_rows take_page_def Let_def clamp_def)

end

section \<open>Audit events\<close>

definition event_rows :: "rstr option \<Rightarrow> rstr option \<Rightarrow> coordination_visibility \<Rightarrow> coord \<Rightarrow> coordination_event list" where
  "event_rows tid n v db = filter (\<lambda>ev. none_or (\<lambda>t. ev_task_id ev = Some t) tid \<and>
     none_or (\<lambda>w. ev_wing ev = w) n \<and> wing_visible v (ev_wing ev)) (cd_events db)"

lemma take_page_Nil [simp]: "take_page sq n [] = ([], None)"
  by (simp add: take_page_def)

lemma event_rows_invisible: "nothing_visible v \<Longrightarrow> event_rows tid n v db = []"
  by (simp add: event_rows_def filter_empty_conv nothing_visible_no_wing)

lemma filter_both: "filter (\<lambda>x. c x \<and> p x) xs = filter c (filter p xs)"
  by (simp add: conj_commute)

lemma filter_implied: "(\<And>x. p x \<Longrightarrow> q x) \<Longrightarrow> filter p (filter q xs) = filter p xs"
  by (induction xs) auto

lemma events_eq:
  assumes "normalize_wing_opt wing = Inr n"
  shows "events db c tid wing limit v = Inr (take_page ev_sequence (clamp 1 500 limit)
    (filter (\<lambda>r. cursor_start c < ev_sequence r) (event_rows tid n v db)))"
proof (cases "nothing_visible v")
  case False
  then show ?thesis
    by (simp only: events_def assms event_rows_def Let_def filter_both [symmetric] if_False bindE_simps)
qed (simp add: events_def event_rows_invisible)

interpretation event_feed: ordered_feed "event_rows tid n v" ev_sequence "\<lambda>db limit c. events db c tid wing limit v"
  coord_inv "normalize_wing_opt wing = Inr n" for tid n v wing
proof unfold_locales
  show "sorted_wrt (\<lambda>x y. ev_sequence x < ev_sequence y) (event_rows tid n v s)" if "coord_inv s" for s
    unfolding event_rows_def
    by (rule sorted_wrt_filterI) (use that in \<open>simp add: coord_inv_def events_ok_def seq_table_def\<close>)
qed (rule events_eq)


text \<open>
  Reading the audit feed from its start and following its cursors returns every event that matches
  the filters and is visible, once and in order, whatever page size is asked for.
\<close>

theorem events_feed_complete:
  "drain (Suc (length (cd_events (run_calls coord_exec cs coord_init))))
     (\<lambda>c. events (run_calls coord_exec cs coord_init) c tid wing limit v) None =
   Some (if nothing_visible v then Inr []
     else bindE (normalize_wing_opt wing) (\<lambda>n. Inr (filter (\<lambda>ev. none_or (\<lambda>t. ev_task_id ev = Some t) tid \<and>
       none_or (\<lambda>w. ev_wing ev = w) n \<and> wing_visible v (ev_wing ev))
         (cd_events (run_calls coord_exec cs coord_init)))))"
proof (cases "normalize_wing_opt wing")
  case (Inl x)
  then show ?thesis by (simp add: events_def)
next
  case (Inr n)
  let ?db = "run_calls coord_exec cs coord_init"
  have inv: "coord_inv ?db" by (rule coord_hist.reachable_inv)
  have "\<forall>ev \<in> set (event_rows tid n v ?db). 0 < ev_sequence ev"
    using inv by (auto simp: coord_inv_def events_ok_def seq_table_def event_rows_def)
  then have pos: "filter (\<lambda>r. cursor_start None < ev_sequence r) (event_rows tid n v ?db) = event_rows tid n v ?db"
    by (simp add: cursor_start_def filter_id_conv)
  have "length (event_rows tid n v ?db) < Suc (length (cd_events ?db))"
    unfolding event_rows_def using length_filter_le le_imp_less_Suc by blast
  from event_feed.drain_complete [OF inv Inr this] pos show ?thesis
    using event_rows_invisible [of v tid n ?db] by (simp add: Inr event_rows_def)
qed

section \<open>Inbox\<close>

definition inbox_rows ::
  "rstr \<Rightarrow> rstr option \<Rightarrow> rstr option \<Rightarrow> bool \<Rightarrow> coordination_visibility \<Rightarrow> coord \<Rightarrow> message list" where
  "inbox_rows recipient wing n unack v db = filter (\<lambda>m. m_recipient m = recipient \<and>
     (wing \<noteq> None \<or> v \<noteq> Trusted \<longrightarrow>
        opt_holds (\<lambda>t. none_or (\<lambda>w. t_wing t = w) n \<and> wing_visible v (t_wing t)) (find_task db (m_task_id m))) \<and>
     (unack \<longrightarrow> m_acknowledged_at m = None)) (map mr_message (cd_messages db))"

lemma inbox_rows_invisible: "nothing_visible v \<Longrightarrow> inbox_rows recipient wing n unack v db = []"
proof -
  assume v: "nothing_visible v"
  then have "v \<noteq> Trusted" by auto
  with nothing_visible_no_wing [OF v] show ?thesis
    by (auto simp: inbox_rows_def filter_empty_conv opt_holds_iff)
qed

lemma inbox_eq:
  assumes "normalize_wing_opt wing = Inr n"
  shows "inbox db recipient c wing limit unack v = Inr (take_page m_sequence (clamp 1 500 limit)
    (filter (\<lambda>r. cursor_start c < m_sequence r) (inbox_rows recipient wing n unack v db)))"
proof (cases "nothing_visible v")
  case False
  then show ?thesis
    by (simp add: inbox_def assms inbox_rows_def Let_def del: filter_filter)
      (intro arg_cong [where f = "take_page m_sequence (clamp (Suc 0) 500 limit)"], simp, rule filter_cong; blast)
qed (simp add: inbox_def inbox_rows_invisible)

interpretation inbox_feed: ordered_feed "inbox_rows recipient wing n unack v" m_sequence
  "\<lambda>db limit c. inbox db recipient c wing limit unack v"
  coord_inv "normalize_wing_opt wing = Inr n" for recipient wing n unack v
proof unfold_locales
  show "sorted_wrt (\<lambda>x y. m_sequence x < m_sequence y) (inbox_rows recipient wing n unack v s)" if "coord_inv s" for s
  proof -
    from that have "sorted_wrt (\<lambda>x y. m_sequence x < m_sequence y) (map mr_message (cd_messages s))"
      by (simp add: coord_inv_def messages_ok_def seq_table_def sorted_wrt_map)
    then show ?thesis unfolding inbox_rows_def by (rule sorted_wrt_filterI)
  qed
qed (rule inbox_eq)

text \<open>
  Following an inbox's cursors returns every visible message addressed to the recipient, once and
  in order, whatever page size is asked for.
\<close>

theorem inbox_feed_complete:
  "drain (Suc (length (cd_messages (run_calls coord_exec cs coord_init))))
     (\<lambda>c. inbox (run_calls coord_exec cs coord_init) recipient c wing limit unack v) None =
   Some (if nothing_visible v then Inr []
     else bindE (normalize_wing_opt wing)
       (\<lambda>n. Inr (inbox_rows recipient wing n unack v (run_calls coord_exec cs coord_init))))"
proof (cases "normalize_wing_opt wing")
  case (Inl x)
  then show ?thesis by (simp add: inbox_def)
next
  case (Inr n)
  let ?db = "run_calls coord_exec cs coord_init"
  let ?rows = "inbox_rows recipient wing n unack v ?db"
  have inv: "coord_inv ?db" by (rule coord_hist.reachable_inv)
  have "\<forall>m \<in> set ?rows. 0 < m_sequence m"
    using inv unfolding coord_inv_def messages_ok_def seq_table_def inbox_rows_def by fastforce
  then have pos: "filter (\<lambda>r. cursor_start None < m_sequence r) ?rows = ?rows"
    by (simp add: cursor_start_def filter_id_conv)
  have "length ?rows \<le> length (map mr_message (cd_messages ?db))"
    unfolding inbox_rows_def by (rule length_filter_le)
  then have "length ?rows < Suc (length (cd_messages ?db))" by simp
  from inbox_feed.drain_complete [OF inv Inr this] pos show ?thesis
    using inbox_rows_invisible [of v recipient wing n unack ?db] by (simp add: Inr)
qed

section \<open>Task discovery\<close>

lemma list_loop_page:
  assumes "list_loop pl budget limit rows acc lst = Inr page" and "length acc \<le> limit"
    and "acc \<noteq> [] \<longrightarrow> pl \<lparr>lp_tasks = acc, lp_next_cursor = Some (show_int (2 ^ 63 - 1))\<rparr> \<le> budget"
  shows "\<exists>k \<le> length rows. lp_tasks page = acc @ map (\<lambda>r. list_item (tr_task r)) (take k rows) \<and>
    length (lp_tasks page) \<le> limit \<and>
    (lp_tasks page \<noteq> [] \<longrightarrow>
       pl \<lparr>lp_tasks = lp_tasks page, lp_next_cursor = Some (show_int (2 ^ 63 - 1))\<rparr> \<le> budget) \<and>
    lp_next_cursor page = (if k = length rows then None
      else if k = 0 then lst else Some (show_int (tr_sequence (rows ! (k - 1))))) \<and>
    (k = 0 \<longrightarrow> rows = [] \<or> acc \<noteq> [] \<or> limit = 0)"
  using assms
proof (induction pl budget limit rows acc lst rule: list_loop.induct)
  case (1 pl budget limit acc lst)
  then show ?case by auto
next
  case (2 pl budget limit r rs acc lst)
  let ?acc = "acc @ [list_item (tr_task r)]"
  show ?case
  proof (cases "length acc = limit \<or>
      pl \<lparr>lp_tasks = ?acc, lp_next_cursor = Some (show_int (2 ^ 63 - 1))\<rparr> > budget")
    case True
    with "2.prems" have "page = \<lparr>lp_tasks = acc, lp_next_cursor = lst\<rparr>" "acc \<noteq> [] \<or> limit = 0"
      by (auto simp: Let_def split: if_splits)
    with "2.prems" show ?thesis by (intro exI [of _ 0]) auto
  next
    case False
    with "2.prems" have "list_loop pl budget limit rs ?acc (Some (show_int (tr_sequence r))) = Inr page"
      by (simp add: Let_def)
    with False "2.prems"(2) "2.IH" obtain k where k: "k \<le> length rs"
      "lp_tasks page = ?acc @ map (\<lambda>r. list_item (tr_task r)) (take k rs)" "length (lp_tasks page) \<le> limit"
      "lp_tasks page \<noteq> [] \<longrightarrow> pl \<lparr>lp_tasks = lp_tasks page, lp_next_cursor = Some (show_int (2 ^ 63 - 1))\<rparr> \<le> budget"
      "lp_next_cursor page = (if k = length rs then None
        else if k = 0 then Some (show_int (tr_sequence r)) else Some (show_int (tr_sequence (rs ! (k - 1)))))"
      by (fastforce simp: Let_def)
    then show ?thesis by (intro exI [of _ "Suc k"]) (auto simp: nth_Cons')
  qed
qed

text \<open>The rows a discovery query selects, before LIMIT.\<close>

definition list_rows ::
  "coord \<Rightarrow> int option \<Rightarrow> task_list_filter \<Rightarrow> rstr option \<Rightarrow> coordination_visibility \<Rightarrow> task_row list" where
  "list_rows db cursor flt wing v = sort_key tr_sequence (filter (\<lambda>r. let t = tr_task r in
     cursor_start cursor < tr_sequence r \<and>
     none_or (\<lambda>w. t_wing t = w) wing \<and>
     none_or (\<lambda>s. t_state t = s) (lf_state flt) \<and>
     none_or (\<lambda>v. t_owner t = Some v) (lf_owner flt) \<and>
     none_or (\<lambda>v. t_created_by t = v) (lf_created_by flt) \<and>
     none_or (\<lambda>v. t_parent_id t = Some v) (lf_parent_id flt) \<and>
     wing_visible v (t_wing t)) (cd_tasks db))"

text \<open>
  A discovery page is the longest of at most 200 matching, visible tasks, in sequence order after
  the cursor, that was built within the byte budget; it makes progress (it is empty only when nothing
  is left), and it carries a cursor, the sequence of its last task, exactly when tasks are left.
\<close>

theorem tasks_page:
  "case tasks pl db cursor flt limit bytes v of
     Inl x \<Rightarrow> True
   | Inr page \<Rightarrow> nothing_visible v \<and> lp_tasks page = [] \<and> lp_next_cursor page = None \<or>
      (\<exists>wing k. normalize_wing_opt (lf_wing flt) = Inr wing \<and>
        lp_tasks page = map (\<lambda>r. list_item (tr_task r)) (take k (list_rows db cursor flt wing v)) \<and>
        length (lp_tasks page) \<le> 200 \<and>
        (lp_tasks page = [] \<or> pl \<lparr>lp_tasks = lp_tasks page, lp_next_cursor = Some (show_int (2 ^ 63 - 1))\<rparr>
           \<le> min bytes TASK_LIST_PAGE_BYTES) \<and>
        (k = 0) = (list_rows db cursor flt wing v = []) \<and>
        lp_next_cursor page = (if length (list_rows db cursor flt wing v) \<le> k then None
          else Some (show_int (tr_sequence (list_rows db cursor flt wing v ! (k - 1))))))"
proof (cases "tasks pl db cursor flt limit bytes v")
  case (Inr page)
  show ?thesis
  proof (cases "nothing_visible v")
    case True
    with Inr show ?thesis by (auto simp: tasks_def Let_def split: if_splits)
  next
    case False
    let ?lim = "clamp 1 TASK_LIST_MAX_LIMIT limit"
    from False Inr obtain wing where w: "normalize_wing_opt (lf_wing flt) = Inr wing"
      and loop: "list_loop pl (min bytes TASK_LIST_PAGE_BYTES) ?lim
        (take (?lim + 1) (list_rows db cursor flt wing v)) [] None = Inr page"
      by (auto simp: tasks_def Let_def list_rows_def bindE_eq_Inr split: if_splits)
    let ?rows = "list_rows db cursor flt wing v"
    have lim: "0 < ?lim" "?lim \<le> 200" by (auto simp: clamp_def TASK_LIST_MAX_LIMIT_def)
    from list_loop_page [OF loop] lim(1) obtain k where k: "k \<le> length (take (?lim + 1) ?rows)"
      "lp_tasks page = map (\<lambda>r. list_item (tr_task r)) (take k (take (?lim + 1) ?rows))"
      "length (lp_tasks page) \<le> ?lim"
      "lp_tasks page \<noteq> [] \<longrightarrow> pl \<lparr>lp_tasks = lp_tasks page, lp_next_cursor = Some (show_int (2 ^ 63 - 1))\<rparr>
         \<le> min bytes TASK_LIST_PAGE_BYTES"
      "lp_next_cursor page = (if k = length (take (?lim + 1) ?rows) then None
         else if k = 0 then None else Some (show_int (tr_sequence (take (?lim + 1) ?rows ! (k - 1)))))"
      "k = 0 \<longrightarrow> take (?lim + 1) ?rows = []"
      by auto
    have kl: "k \<le> ?lim" using k(1,2,3) by simp
    have t: "take k (take (?lim + 1) ?rows) = take k ?rows" using kl by (simp add: min_def)
    have z: "(k = 0) = (?rows = [])" using k(1,6) by (cases ?rows) auto
    have c: "lp_next_cursor page = (if length ?rows \<le> k then None else Some (show_int (tr_sequence (?rows ! (k - 1)))))"
    proof (cases "length ?rows \<le> k")
      case True
      with k(1) have "k = length (take (?lim + 1) ?rows)" by simp
      with k(5) True show ?thesis by simp
    next
      case False
      with kl have "k \<noteq> length (take (?lim + 1) ?rows)" and "k \<noteq> 0" using z by auto
      with k(5) kl False show ?thesis by simp
    qed
    have "length (lp_tasks page) \<le> 200" using k(3) lim(2) by simp
    moreover have "lp_tasks page = [] \<or> pl \<lparr>lp_tasks = lp_tasks page, lp_next_cursor = Some (show_int (2 ^ 63 - 1))\<rparr>
         \<le> min bytes TASK_LIST_PAGE_BYTES" using k(4) by blast
    moreover have "lp_tasks page = map (\<lambda>r. list_item (tr_task r)) (take k ?rows)" using k(2) t by simp
    ultimately show ?thesis
      unfolding Inr sum.case using w z c by blast
  qed
qed simp

text \<open>
  A discovery title is the longest whole-character prefix of the task's title that fits in 1024
  bytes, and it is marked truncated exactly when the title is longer than that.
\<close>

theorem list_item_title:
  "(\<exists>rest. t_title t = li_title (list_item t) @ rest) \<and> str_len (li_title (list_item t)) \<le> 1024 \<and>
   (li_title_truncated (list_item t) \<longleftrightarrow> 1024 < str_len (t_title t)) \<and>
   (li_title (list_item t) = t_title t \<or>
    (\<exists>c rest. t_title t = li_title (list_item t) @ c # rest \<and> 1024 < str_len (li_title (list_item t) @ [c])))"
proof (intro conjI)
  show "\<exists>rest. t_title t = li_title (list_item t) @ rest"
    by (simp add: list_item_def Let_def utf8_prefix_is_prefix)
  show b: "str_len (li_title (list_item t)) \<le> 1024"
    using utf8_prefix_bytes [of 1024 "t_title t"] by (simp add: list_item_def Let_def TASK_LIST_TITLE_BYTES_def)
  show "li_title_truncated (list_item t) \<longleftrightarrow> 1024 < str_len (t_title t)"
  proof (cases "str_len (t_title t) \<le> 1024")
    case True
    then show ?thesis by (simp add: list_item_def Let_def TASK_LIST_TITLE_BYTES_def utf8_prefix_id)
  next
    case False
    then show ?thesis
      using utf8_prefix_bytes [of 1024 "t_title t"] by (simp add: list_item_def Let_def TASK_LIST_TITLE_BYTES_def)
  qed
  show "li_title (list_item t) = t_title t \<or>
    (\<exists>c rest. t_title t = li_title (list_item t) @ c # rest \<and> 1024 < str_len (li_title (list_item t) @ [c]))"
    using utf8_prefix_maximal [of 1024 "t_title t"] by (simp add: list_item_def Let_def TASK_LIST_TITLE_BYTES_def)
qed

end
