(* ===== verification/Outbox.thy ===== *)
theory Outbox
  imports Contracts
begin

text \<open>
  The durable replication outbox, \<open>crates/agentpalace-storage/src/outbox.rs\<close>, with the payload
  compaction of \<open>replicated_ingest.rs\<close>. The table \<open>replication_outbox\<close> is a list of rows; rows are never
  deleted, so AUTOINCREMENT assigns one more than the largest sequence in the table (a revived row is
  moved to that position too). Every operation runs in one immediate transaction.
\<close>

section \<open>Messages and states\<close>

definition OUTBOX_LEASE_HELD_BY_ANOTHER_WORKER :: rstr where
  "OUTBOX_LEASE_HELD_BY_ANOTHER_WORKER = lit ''outbox operation lease is held by another worker''"
definition OUTBOX_ONLY_LEASE_OWNER :: rstr where
  "OUTBOX_ONLY_LEASE_OWNER = lit ''only the lease owner may perform this action''"
definition OUTBOX_OPERATION_NOT_IN_FLIGHT :: rstr where
  "OUTBOX_OPERATION_NOT_IN_FLIGHT = lit ''outbox operation is not in flight''"
definition OUTBOX_LEASE_HAS_EXPIRED :: rstr where
  "OUTBOX_LEASE_HAS_EXPIRED = lit ''outbox operation lease has expired''"
definition OUTBOX_OPERATION_TERMINAL :: rstr where
  "OUTBOX_OPERATION_TERMINAL = lit ''terminal outbox operation cannot be claimed''"
definition OUTBOX_RETRY_NOT_DUE :: rstr where
  "OUTBOX_RETRY_NOT_DUE = lit ''outbox operation retry is not due yet''"
definition OUTBOX_ONLY_STAGED_MAY_ACTIVATE :: rstr where
  "OUTBOX_ONLY_STAGED_MAY_ACTIVATE = lit ''only a staged outbox operation may be activated''"
definition OUTBOX_CANCELLABLE_STATE_REQUIRED :: rstr where
  "OUTBOX_CANCELLABLE_STATE_REQUIRED = lit ''only a staged outbox operation may be cancelled''"
definition OUTBOX_OPERATION_NOT_ACTIVATED :: rstr where
  "OUTBOX_OPERATION_NOT_ACTIVATED = lit ''staged outbox operation must be activated before it can be claimed''"
definition OUTBOX_PREDECESSOR_IN_FLIGHT :: rstr where
  "OUTBOX_PREDECESSOR_IN_FLIGHT = lit ''outbox operation has an earlier nonterminal predecessor with the same destination remote and ordering key''"
definition OUTBOX_LEASE_DURATION_OUT_OF_RANGE :: rstr where
  "OUTBOX_LEASE_DURATION_OUT_OF_RANGE = lit ''outbox lease duration is out of range''"

definition OUTBOX_MAX_PAYLOAD_BYTES :: nat where "OUTBOX_MAX_PAYLOAD_BYTES = 16 * 1024 * 1024"
definition MAX_ERROR_BYTES :: nat where "MAX_ERROR_BYTES = 1024"
definition MAX_IDENTIFIER_BYTES :: nat where "MAX_IDENTIFIER_BYTES = 256"

datatype outbox_state =
  ObStaged | ObPending | ObLeased | ObRetryable | ObReplicated | ObFailed | ObCancelled

fun outbox_terminal :: "outbox_state \<Rightarrow> bool" where
  "outbox_terminal ObReplicated = True"
| "outbox_terminal ObFailed = True"
| "outbox_terminal ObCancelled = True"
| "outbox_terminal _ = False"

text \<open>The SQL list \<open>('staged','pending','leased','retryable')\<close>.\<close>

fun outbox_active :: "outbox_state \<Rightarrow> bool" where
  "outbox_active ObStaged = True"
| "outbox_active ObPending = True"
| "outbox_active ObLeased = True"
| "outbox_active ObRetryable = True"
| "outbox_active _ = False"

record new_outbox_operation =
  no_created_by :: rstr
  no_idempotency_key :: rstr
  no_mutation_kind :: rstr
  no_entity_id :: rstr
  no_destination_remote :: rstr
  no_ordering_key :: rstr
  no_payload :: json
  no_max_attempts :: int

record outbox_operation =
  ob_operation_id :: rstr
  ob_sequence :: int
  ob_created_by :: rstr
  ob_idempotency_key :: rstr
  ob_mutation_kind :: rstr
  ob_entity_id :: rstr
  ob_destination_remote :: rstr
  ob_ordering_key :: rstr
  ob_entity_sequence :: int
  ob_state :: outbox_state
  ob_revision :: int
  ob_lease_owner :: "rstr option"
  ob_lease_expires_at :: "int option"
  ob_attempt_count :: int
  ob_max_attempts :: int
  ob_retry_after :: "int option"
  ob_last_error :: "rstr option"
  ob_payload :: json
  ob_created_at :: int
  ob_updated_at :: int

type_synonym outbox = "outbox_operation list"

section \<open>Validation\<close>

definition bounded_identifier :: "rstr \<Rightarrow> rstr \<Rightarrow> storage_error + unit" where
  "bounded_identifier value name =
     (if trim value = [] then Inl (Invariant (name @ lit '' must not be empty''))
      else if str_len value > MAX_IDENTIFIER_BYTES
      then Inl (Invariant (name @ lit '' must be at most '' @ show_nat MAX_IDENTIFIER_BYTES @ lit '' bytes''))
      else Inr ())"

definition nonempty_identifier :: "rstr \<Rightarrow> rstr \<Rightarrow> storage_error + unit" where
  "nonempty_identifier value name =
     (if trim value = [] then Inl (Invariant (name @ lit '' must not be empty'')) else Inr ())"

definition outbox_bounded_json :: "env \<Rightarrow> json \<Rightarrow> storage_error + unit" where
  "outbox_bounded_json e v =
     (if env_json_len e v > OUTBOX_MAX_PAYLOAD_BYTES then Inl (Invariant (lit ''payload exceeds 16 MiB''))
      else Inr ())"

definition bounded_error :: "rstr \<Rightarrow> storage_error + unit" where
  "bounded_error value =
     (if trim value = [] then Inl (Invariant (lit ''error must not be empty''))
      else if str_len value > MAX_ERROR_BYTES
      then Inl (Invariant (lit ''error exceeds '' @ show_nat MAX_ERROR_BYTES @ lit '' bytes''))
      else Inr ())"

section \<open>Payload compaction\<close>

text \<open>\<open>Map::remove\<close>, \<open>Map::insert\<close> on the sorted map behind a JSON object.\<close>

definition json_remove :: "rstr \<Rightarrow> (rstr \<times> json) list \<Rightarrow> (rstr \<times> json) list" where
  "json_remove k fs = filter (\<lambda>(k', _). k' \<noteq> k) fs"

fun json_insert :: "rstr \<Rightarrow> json \<Rightarrow> (rstr \<times> json) list \<Rightarrow> (rstr \<times> json) list" where
  "json_insert k v [] = [(k, v)]"
| "json_insert k v ((k', v') # fs) =
     (if k' = k then (k, v) # fs
      else if k < k' then (k, v) # (k', v') # fs
      else (k', v') # json_insert k v fs)"

text \<open>
  \<open>compact_ingestion_payload\<close>: once the local effect is committed its recovery data is replaced by a
  fingerprint, which leaves out the previous identifiers.
\<close>

definition compact_ingestion_payload :: "env \<Rightarrow> json \<Rightarrow> json" where
  "compact_ingestion_payload e payload =
     (case payload of
        JObject fs \<Rightarrow>
          (case map_of fs (lit ''local'') of
             Some (JObject loc) \<Rightarrow>
               if map_of loc (lit ''drawers'') \<noteq> None
               then (let loc1 = json_remove (lit ''previous_ids'') loc;
                         fingerprint = env_blake3_json e (JObject loc1);
                         loc2 = json_insert (lit ''effect_hash'') (JString fingerprint)
                           (json_remove (lit ''drawers'') loc1)
                     in JObject (json_insert (lit ''local'') (JObject loc2) fs))
               else payload
           | _ \<Rightarrow> payload)
      | _ \<Rightarrow> payload)"

section \<open>Row access\<close>

definition get_operation :: "outbox \<Rightarrow> rstr \<Rightarrow> outbox_operation option" where
  "get_operation db i = find_row (\<lambda>p. ob_operation_id p = i) db"

definition find_operation_by_key :: "outbox \<Rightarrow> rstr \<Rightarrow> rstr \<Rightarrow> storage_error + outbox_operation option" where
  "find_operation_by_key db actor key =
     (case find_row (\<lambda>p. ob_created_by p = actor \<and> ob_idempotency_key p = key) db of
        None \<Rightarrow> Inr None
      | Some r \<Rightarrow>
          (case get_operation db (ob_operation_id r) of
             Some p \<Rightarrow> Inr (Some p)
           | None \<Rightarrow> Inl (Invariant (lit ''operation key points to missing row''))))"

text \<open>\<open>SELECT COALESCE(MAX(x),0)\<close>.\<close>

definition max_or_0 :: "int list \<Rightarrow> int" where
  "max_or_0 xs = (if xs = [] then 0 else Max (set xs))"

definition next_sequence :: "outbox \<Rightarrow> int" where
  "next_sequence db = max_or_0 (map ob_sequence db) + 1"

definition next_entity_sequence :: "outbox \<Rightarrow> rstr \<Rightarrow> rstr \<Rightarrow> int" where
  "next_entity_sequence db entity remote =
     max_or_0 (map ob_entity_sequence
       (filter (\<lambda>p. ob_entity_id p = entity \<and> ob_destination_remote p = remote) db)) + 1"

definition has_predecessor :: "outbox \<Rightarrow> rstr \<Rightarrow> rstr \<Rightarrow> int \<Rightarrow> bool" where
  "has_predecessor db remote okey sequence \<longleftrightarrow>
     list_ex (\<lambda>p. ob_destination_remote p = remote \<and> ob_ordering_key p = okey \<and>
       ob_sequence p < sequence \<and> outbox_active (ob_state p)) db"

text \<open>The UPDATE of one operation, with the columns it sets as a function of the row.\<close>

definition update_op :: "rstr \<Rightarrow> (outbox_operation \<Rightarrow> outbox_operation) \<Rightarrow> outbox \<Rightarrow> outbox" where
  "update_op i f db = update_rows (\<lambda>p. ob_operation_id p = i) f db"

definition read_back :: "outbox \<Rightarrow> rstr \<Rightarrow> rstr \<Rightarrow> storage_error + outbox_operation" where
  "read_back db i what =
     (case get_operation db i of Some p \<Rightarrow> Inr p
      | None \<Rightarrow> Inl (Invariant (what @ lit '' operation disappeared'')))"

section \<open>Enqueue\<close>

definition insert_operation :: "outbox_operation \<Rightarrow> outbox \<Rightarrow> storage_error + outbox" where
  "insert_operation p db =
     (if get_operation db (ob_operation_id p) \<noteq> None
      then Inl (Sqlite (UniqueViolation (lit ''replication_outbox.operation_id'')))
      else if list_ex (\<lambda>q. ob_created_by q = ob_created_by p \<and> ob_idempotency_key q = ob_idempotency_key p) db
      then Inl (Sqlite (UniqueViolation (lit ''replication_outbox.created_by, replication_outbox.idempotency_key'')))
      else if list_ex (\<lambda>q. ob_entity_id q = ob_entity_id p \<and>
             ob_destination_remote q = ob_destination_remote p \<and> ob_entity_sequence q = ob_entity_sequence p) db
      then Inl (Sqlite (UniqueViolation (lit ''replication_outbox.entity_id, replication_outbox.destination_remote, replication_outbox.entity_sequence'')))
      else Inr (db @ [p\<lparr>ob_sequence := next_sequence db\<rparr>]))"

text \<open>The comparison of a replayed enqueue with the stored operation.\<close>

definition replay_payload :: "env \<Rightarrow> outbox_operation \<Rightarrow> json \<Rightarrow> json" where
  "replay_payload e p payload =
     (if ob_mutation_kind p = lit ''ingest_file'' \<and>
         opt_holds (\<lambda>l. json_get l (lit ''effect_hash'') \<noteq> None) (json_get (ob_payload p) (lit ''local''))
      then compact_ingestion_payload e payload else payload)"

definition same_mutation :: "env \<Rightarrow> outbox_operation \<Rightarrow> new_outbox_operation \<Rightarrow> bool" where
  "same_mutation e p i \<longleftrightarrow>
     ob_mutation_kind p = no_mutation_kind i \<and> ob_entity_id p = no_entity_id i \<and>
     ob_destination_remote p = no_destination_remote i \<and> ob_ordering_key p = no_ordering_key i \<and>
     ob_max_attempts p = no_max_attempts i \<and> ob_payload p = replay_payload e p (no_payload i)"

definition enqueue :: "env \<Rightarrow> outbox \<Rightarrow> new_outbox_operation \<Rightarrow> (storage_error + outbox_operation) \<times> outbox" where
  "enqueue e db input =
     try_tx db (validate_key (no_idempotency_key input)) (\<lambda>_.
     try_tx db (bounded_identifier (no_created_by input) (lit ''created_by'')) (\<lambda>_.
     try_tx db (bounded_identifier (no_mutation_kind input) (lit ''mutation_kind'')) (\<lambda>_.
     try_tx db (nonempty_identifier (no_entity_id input) (lit ''entity_id'')) (\<lambda>_.
     try_tx db (bounded_identifier (no_destination_remote input) (lit ''destination_remote'')) (\<lambda>_.
     try_tx db (nonempty_identifier (no_ordering_key input) (lit ''ordering_key'')) (\<lambda>_.
     try_tx db (outbox_bounded_json e (no_payload input)) (\<lambda>_.
     if no_max_attempts input < 1
     then (Inl (Invariant (lit ''max_attempts must be at least 1'')), db) else
     try_tx db (find_operation_by_key db (no_created_by input) (no_idempotency_key input)) (\<lambda>existing.
     case existing of
       Some p \<Rightarrow>
         if \<not> same_mutation e p input
         then (Inl (Invariant (lit ''outbox idempotency key `'' @ no_idempotency_key input @
                 lit ''` was reused with a different mutation'')), db)
         else if ob_state p = ObCancelled then
           (let now = env_now e; sq = next_sequence db;
                esq = next_entity_sequence db (no_entity_id input) (no_destination_remote input) in
            try_tx db (format_time e now) (\<lambda>at.
            let db1 = update_rows
                  (\<lambda>q. ob_operation_id q = ob_operation_id p \<and> ob_state q = ObCancelled)
                  (\<lambda>q. q\<lparr>ob_sequence := sq, ob_entity_sequence := esq, ob_state := ObStaged,
                     ob_revision := ob_revision q + 1, ob_lease_owner := None,
                     ob_lease_expires_at := None, ob_retry_after := None, ob_last_error := None,
                     ob_created_at := at, ob_updated_at := at\<rparr>) db in
            try_tx db (read_back db1 (ob_operation_id p) (lit ''restored'')) (\<lambda>r. (Inr r, db1))))
         else (Inr p, db)
     | None \<Rightarrow>
         (let now = env_now e;
              esq = next_entity_sequence db (no_entity_id input) (no_destination_remote input);
              i = lit ''outbox_'' @ env_uuid e 0 in
          try_tx db (format_time e now) (\<lambda>at.
          try_tx db (insert_operation
              \<lparr>ob_operation_id = i, ob_sequence = 0, ob_created_by = no_created_by input,
               ob_idempotency_key = no_idempotency_key input, ob_mutation_kind = no_mutation_kind input,
               ob_entity_id = no_entity_id input, ob_destination_remote = no_destination_remote input,
               ob_ordering_key = no_ordering_key input, ob_entity_sequence = esq,
               ob_state = ObStaged, ob_revision = 0, ob_lease_owner = None, ob_lease_expires_at = None,
               ob_attempt_count = 0, ob_max_attempts = no_max_attempts input, ob_retry_after = None,
               ob_last_error = None, ob_payload = no_payload input, ob_created_at = at,
               ob_updated_at = at\<rparr> db) (\<lambda>db1.
          try_tx db (read_back db1 i (lit ''enqueued'')) (\<lambda>r. (Inr r, db1)))))))))))))"

section \<open>Compare-and-swap writes\<close>

text \<open>The prefix shared by the revision-guarded writes: the row, and its revision.\<close>

definition with_revision ::
  "outbox \<Rightarrow> rstr \<Rightarrow> int \<Rightarrow>
   (outbox_operation \<Rightarrow> (storage_error + outbox_operation revisioned_write) \<times> outbox) \<Rightarrow>
   (storage_error + outbox_operation revisioned_write) \<times> outbox" where
  "with_revision db i expected k =
     (case get_operation db i of
        None \<Rightarrow> (Inr (Conflict None), db)
      | Some p \<Rightarrow>
          if ob_revision p \<noteq> expected then (Inr (Conflict (Some (ob_revision p))), db) else k p)"

definition activate ::
  "env \<Rightarrow> outbox \<Rightarrow> rstr \<Rightarrow> int \<Rightarrow> (storage_error + outbox_operation revisioned_write) \<times> outbox" where
  "activate e db i expected =
     with_revision db i expected (\<lambda>p.
     if ob_state p \<noteq> ObStaged then (Inl (Invariant OUTBOX_ONLY_STAGED_MAY_ACTIVATE), db) else
     (let payload = (if ob_mutation_kind p = lit ''ingest_file''
                     then compact_ingestion_payload e (ob_payload p) else ob_payload p);
          now = env_now e in
      try_tx db (format_time e now) (\<lambda>at.
      if count_rows (\<lambda>q. ob_operation_id q = i \<and> ob_revision q = expected) db \<noteq> 1
      then (Inr (Conflict None), db)
      else
        (let db1 = update_rows (\<lambda>q. ob_operation_id q = i \<and> ob_revision q = expected)
               (\<lambda>q. q\<lparr>ob_state := ObPending, ob_revision := ob_revision q + 1, ob_updated_at := at,
                  ob_payload := payload\<rparr>) db in
         try_tx db (read_back db1 i (lit ''activated'')) (\<lambda>r. (Inr (Applied r), db1))))))"

definition cancel ::
  "env \<Rightarrow> outbox \<Rightarrow> rstr \<Rightarrow> int \<Rightarrow> (storage_error + outbox_operation revisioned_write) \<times> outbox" where
  "cancel e db i expected =
     with_revision db i expected (\<lambda>p.
     if ob_state p \<noteq> ObStaged then (Inl (Invariant OUTBOX_CANCELLABLE_STATE_REQUIRED), db) else
     (let now = env_now e in
      try_tx db (format_time e now) (\<lambda>at.
      if count_rows (\<lambda>q. ob_operation_id q = i \<and> ob_revision q = expected \<and> ob_state q = ObStaged) db \<noteq> 1
      then (Inr (Conflict None), db)
      else
        (let db1 = update_rows (\<lambda>q. ob_operation_id q = i \<and> ob_revision q = expected \<and> ob_state q = ObStaged)
               (\<lambda>q. q\<lparr>ob_state := ObCancelled, ob_revision := ob_revision q + 1, ob_updated_at := at\<rparr>) db in
         try_tx db (read_back db1 i (lit ''cancelled'')) (\<lambda>r. (Inr (Applied r), db1))))))"

text \<open>The UPDATE of a claim, guarded by the revision.\<close>

definition take_lease :: "rstr \<Rightarrow> int \<Rightarrow> rstr \<Rightarrow> int \<Rightarrow> int \<Rightarrow> outbox \<Rightarrow> outbox" where
  "take_lease i expected worker lease at db =
     update_rows (\<lambda>q. ob_operation_id q = i \<and> ob_revision q = expected)
       (\<lambda>q. q\<lparr>ob_state := ObLeased, ob_lease_owner := Some worker, ob_lease_expires_at := Some lease,
          ob_retry_after := None, ob_updated_at := at, ob_revision := ob_revision q + 1\<rparr>) db"

text \<open>The heads \<open>claim_next\<close> considers, in sequence order, and the first that is due.\<close>

definition claim_heads :: "outbox \<Rightarrow> rstr \<Rightarrow> outbox_operation list" where
  "claim_heads db remote =
     sort_key ob_sequence (filter (\<lambda>c. ob_destination_remote c = remote \<and>
         (ob_state c = ObPending \<or> ob_state c = ObRetryable) \<and>
         \<not> has_predecessor db (ob_destination_remote c) (ob_ordering_key c) (ob_sequence c)) db)"

definition due_head :: "outbox \<Rightarrow> rstr \<Rightarrow> int \<Rightarrow> outbox_operation option" where
  "due_head db remote now = find (\<lambda>c. none_or (\<lambda>v. v \<le> now) (ob_retry_after c)) (claim_heads db remote)"

definition claim_next ::
  "env \<Rightarrow> outbox \<Rightarrow> rstr \<Rightarrow> rstr \<Rightarrow> int \<Rightarrow> (storage_error + outbox_operation option) \<times> outbox" where
  "claim_next e db remote worker ttl =
     try_tx db (validate_actor worker) (\<lambda>_.
     if ttl \<le> 0 then (Inl (Invariant (lit ''lease ttl must be positive'')), db) else
     (let now = env_now e in
      case due_head db remote now of
        None \<Rightarrow> (Inr None, db)
      | Some c \<Rightarrow>
      (case env_checked_add e now ttl of
        None \<Rightarrow> (Inl (Invariant OUTBOX_LEASE_DURATION_OUT_OF_RANGE), db)
      | Some expiry \<Rightarrow>
      try_tx db (format_time e expiry) (\<lambda>lease.
      try_tx db (format_time e now) (\<lambda>at.
      if count_rows (\<lambda>q. ob_operation_id q = ob_operation_id c \<and> ob_revision q = ob_revision c) db \<noteq> 1
      then (Inr None, db)
      else
        (let db1 = take_lease (ob_operation_id c) (ob_revision c) worker lease at db in
         try_tx db (read_back db1 (ob_operation_id c) (lit ''claimed'')) (\<lambda>r. (Inr (Some r), db1))))))))"

definition claim_by_id ::
  "env \<Rightarrow> outbox \<Rightarrow> rstr \<Rightarrow> rstr \<Rightarrow> int \<Rightarrow> int \<Rightarrow>
   (storage_error + outbox_operation revisioned_write) \<times> outbox" where
  "claim_by_id e db i worker expected ttl =
     try_tx db (validate_actor worker) (\<lambda>_.
     if ttl \<le> 0 then (Inl (Invariant (lit ''lease ttl must be positive'')), db) else
     with_revision db i expected (\<lambda>p.
     let now = env_now e in
     if ob_state p = ObStaged then (Inl (Invariant OUTBOX_OPERATION_NOT_ACTIVATED), db)
     else if outbox_terminal (ob_state p) then (Inl (Invariant OUTBOX_OPERATION_TERMINAL), db)
     else if has_predecessor db (ob_destination_remote p) (ob_ordering_key p) (ob_sequence p)
     then (Inl (Invariant OUTBOX_PREDECESSOR_IN_FLIGHT), db)
     else if opt_holds (\<lambda>v. v > now) (ob_retry_after p) then (Inl (Invariant OUTBOX_RETRY_NOT_DUE), db)
     else if ob_state p = ObLeased \<and> opt_holds (\<lambda>owner. owner \<noteq> worker) (ob_lease_owner p)
       \<and> opt_holds (\<lambda>expiry. expiry > now) (ob_lease_expires_at p)
     then (Inl (Invariant OUTBOX_LEASE_HELD_BY_ANOTHER_WORKER), db)
     else
       (case env_checked_add e now ttl of
          None \<Rightarrow> (Inl (Invariant OUTBOX_LEASE_DURATION_OUT_OF_RANGE), db)
        | Some expiry \<Rightarrow>
        try_tx db (format_time e expiry) (\<lambda>lease.
        try_tx db (format_time e now) (\<lambda>at.
        if count_rows (\<lambda>q. ob_operation_id q = i \<and> ob_revision q = expected) db \<noteq> 1
        then (Inr (Conflict None), db)
        else
          (let db1 = take_lease i expected worker lease at db in
           try_tx db (read_back db1 i (lit ''claimed'')) (\<lambda>r. (Inr (Applied r), db1))))))))"

definition outbox_renew_lease ::
  "env \<Rightarrow> outbox \<Rightarrow> rstr \<Rightarrow> rstr \<Rightarrow> int \<Rightarrow> int \<Rightarrow>
   (storage_error + outbox_operation revisioned_write) \<times> outbox" where
  "outbox_renew_lease e db i worker expected ttl =
     try_tx db (validate_actor worker) (\<lambda>_.
     if ttl \<le> 0 then (Inl (Invariant (lit ''lease ttl must be positive'')), db) else
     with_revision db i expected (\<lambda>p.
     let now = env_now e in
     if ob_state p \<noteq> ObLeased \<or> ob_lease_owner p \<noteq> Some worker
     then (Inl (Invariant OUTBOX_ONLY_LEASE_OWNER), db)
     else if none_or (\<lambda>expiry. expiry \<le> now) (ob_lease_expires_at p)
     then (Inl (Invariant OUTBOX_LEASE_HAS_EXPIRED), db)
     else
       (let nxt = ob_revision p + 1 in
        case env_checked_add e now ttl of
          None \<Rightarrow> (Inl (Invariant OUTBOX_LEASE_DURATION_OUT_OF_RANGE), db)
        | Some expiry \<Rightarrow>
        try_tx db (format_time e expiry) (\<lambda>lease.
        try_tx db (format_time e now) (\<lambda>at.
        let db1 = update_op i (\<lambda>q. q\<lparr>ob_lease_expires_at := Some lease, ob_revision := nxt,
              ob_updated_at := at\<rparr>) db in
        try_tx db (read_back db1 i (lit ''renewed'')) (\<lambda>r. (Inr (Applied r), db1)))))))"

definition ensure_in_flight :: "outbox_operation \<Rightarrow> rstr \<Rightarrow> int \<Rightarrow> storage_error + unit" where
  "ensure_in_flight p worker now =
     (if ob_state p \<noteq> ObLeased then Inl (Invariant OUTBOX_OPERATION_NOT_IN_FLIGHT)
      else if ob_lease_owner p \<noteq> Some worker then Inl (Invariant OUTBOX_ONLY_LEASE_OWNER)
      else if none_or (\<lambda>expiry. expiry \<le> now) (ob_lease_expires_at p)
      then Inl (Invariant OUTBOX_LEASE_HAS_EXPIRED)
      else Inr ())"

definition acknowledge ::
  "env \<Rightarrow> outbox \<Rightarrow> rstr \<Rightarrow> rstr \<Rightarrow> int \<Rightarrow>
   (storage_error + outbox_operation revisioned_write) \<times> outbox" where
  "acknowledge e db i worker expected =
     try_tx db (validate_actor worker) (\<lambda>_.
     with_revision db i expected (\<lambda>p.
     let now = env_now e in
     if ob_state p = ObReplicated then (Inr (Applied p), db) else
     try_tx db (ensure_in_flight p worker now) (\<lambda>_.
     let nxt = ob_revision p + 1 in
     try_tx db (format_time e now) (\<lambda>at.
     let db1 = update_op i (\<lambda>q. q\<lparr>ob_state := ObReplicated, ob_revision := nxt, ob_lease_owner := None,
           ob_lease_expires_at := None, ob_retry_after := None, ob_last_error := None,
           ob_updated_at := at\<rparr>) db in
     try_tx db (read_back db1 i (lit ''acknowledged'')) (\<lambda>r. (Inr (Applied r), db1))))))"

definition schedule_retry ::
  "env \<Rightarrow> outbox \<Rightarrow> rstr \<Rightarrow> rstr \<Rightarrow> int \<Rightarrow> rstr \<Rightarrow> int \<Rightarrow>
   (storage_error + outbox_operation revisioned_write) \<times> outbox" where
  "schedule_retry e db i worker expected error retry_after =
     try_tx db (validate_actor worker) (\<lambda>_.
     try_tx db (bounded_error error) (\<lambda>_.
     with_revision db i expected (\<lambda>p.
     let now = env_now e in
     try_tx db (ensure_in_flight p worker now) (\<lambda>_.
     let nxt = ob_revision p + 1; attempts = ob_attempt_count p + 1 in
     try_tx db (format_time e retry_after) (\<lambda>retry.
     try_tx db (format_time e now) (\<lambda>at.
     let db1 = update_op i (\<lambda>q. q\<lparr>ob_state := ObRetryable, ob_revision := nxt, ob_lease_owner := None,
           ob_lease_expires_at := None, ob_retry_after := Some retry, ob_attempt_count := attempts,
           ob_last_error := Some error, ob_updated_at := at\<rparr>) db in
     try_tx db (read_back db1 i (lit ''retried'')) (\<lambda>r. (Inr (Applied r), db1))))))))"

definition fail ::
  "env \<Rightarrow> outbox \<Rightarrow> rstr \<Rightarrow> rstr \<Rightarrow> int \<Rightarrow> rstr \<Rightarrow>
   (storage_error + outbox_operation revisioned_write) \<times> outbox" where
  "fail e db i worker expected error =
     try_tx db (validate_actor worker) (\<lambda>_.
     try_tx db (bounded_error error) (\<lambda>_.
     with_revision db i expected (\<lambda>p.
     let now = env_now e in
     try_tx db (ensure_in_flight p worker now) (\<lambda>_.
     let nxt = ob_revision p + 1; attempts = ob_attempt_count p + 1 in
     try_tx db (format_time e now) (\<lambda>at.
     let db1 = update_op i (\<lambda>q. q\<lparr>ob_state := ObFailed, ob_revision := nxt, ob_lease_owner := None,
           ob_lease_expires_at := None, ob_retry_after := None, ob_attempt_count := attempts,
           ob_last_error := Some error, ob_updated_at := at\<rparr>) db in
     try_tx db (read_back db1 i (lit ''failed'')) (\<lambda>r. (Inr (Applied r), db1)))))))"

section \<open>Recovery and reads\<close>

text \<open>
  \<open>reclaim_expired_lease\<close> compares with SQLite's \<open>julianday\<close> of the timestamps' text, which is the
  parameter \<open>jd\<close> of an instant.
\<close>

definition expired_lease :: "(int \<Rightarrow> int) \<Rightarrow> outbox \<Rightarrow> rstr option \<Rightarrow> int \<Rightarrow> outbox_operation option" where
  "expired_lease jd db remote now =
     (case sort_key ob_sequence (filter (\<lambda>p. none_or (\<lambda>r. ob_destination_remote p = r) remote \<and>
              ob_state p = ObLeased \<and> opt_holds (\<lambda>expiry. jd expiry \<le> jd now) (ob_lease_expires_at p)) db) of
        [] \<Rightarrow> None | p # _ \<Rightarrow> Some p)"

definition reclaim_expired_lease ::
  "(int \<Rightarrow> int) \<Rightarrow> env \<Rightarrow> outbox \<Rightarrow> rstr option \<Rightarrow> rstr \<Rightarrow> int \<Rightarrow>
   (storage_error + outbox_operation option) \<times> outbox" where
  "reclaim_expired_lease jd e db remote worker ttl =
     try_tx db (validate_actor worker) (\<lambda>_.
     if ttl \<le> 0 then (Inl (Invariant (lit ''lease ttl must be positive'')), db) else
     (let now = env_now e in
      try_tx db (format_time e now) (\<lambda>at.
      case expired_lease jd db remote now of
        None \<Rightarrow> (Inr None, db)
      | Some p \<Rightarrow>
      (case env_checked_add e now ttl of
        None \<Rightarrow> (Inl (Invariant OUTBOX_LEASE_DURATION_OUT_OF_RANGE), db)
      | Some expiry \<Rightarrow>
      try_tx db (format_time e expiry) (\<lambda>lease.
      if count_rows (\<lambda>q. ob_operation_id q = ob_operation_id p) db \<noteq> 1 then (Inr None, db)
      else
        (let db1 = update_op (ob_operation_id p) (\<lambda>q. q\<lparr>ob_lease_owner := Some worker,
               ob_lease_expires_at := Some lease, ob_updated_at := at, ob_revision := ob_revision q + 1\<rparr>) db in
         try_tx db (read_back db1 (ob_operation_id p) (lit ''reclaimed'')) (\<lambda>r. (Inr (Some r), db1))))))))"

definition find_by_key :: "outbox \<Rightarrow> rstr \<Rightarrow> rstr \<Rightarrow> outbox_operation option" where
  "find_by_key db actor key = find_row (\<lambda>p. ob_created_by p = actor \<and> ob_idempotency_key p = key) db"

definition list_staged :: "outbox \<Rightarrow> nat \<Rightarrow> outbox_operation list" where
  "list_staged db limit =
     take (if limit < 1 then 1 else min limit 10000)
       (sort_key ob_sequence (filter (\<lambda>p. ob_state p = ObStaged) db))"

definition latest_ingestion_for_source :: "outbox \<Rightarrow> rstr \<Rightarrow> rstr \<Rightarrow> outbox_operation option" where
  "latest_ingestion_for_source db remote source_key =
     (case rev (sort_key ob_sequence (filter (\<lambda>p. ob_mutation_kind p = lit ''ingest_file'' \<and>
              ob_destination_remote p = remote \<and> ob_entity_id p = source_key) db)) of
        [] \<Rightarrow> None | p # _ \<Rightarrow> Some p)"

end
