(* ===== verification/Outbox_Spec.thy ===== *)
theory Outbox_Spec
  imports Outbox
begin

text \<open>
  The abstract outbox: the changes a call may make to one operation (\<open>op_change\<close>), the steps of the
  table (\<open>outbox_step\<close>), and the branches of every operation of \<open>Outbox\<close>. \<open>jd\<close> is SQLite's
  \<open>julianday\<close>, used by the recovery of expired leases only.
\<close>

section \<open>Changes of one operation\<close>

definition same_op :: "outbox_operation \<Rightarrow> outbox_operation \<Rightarrow> bool" where
  "same_op p q \<longleftrightarrow> ob_operation_id q = ob_operation_id p \<and> ob_created_by q = ob_created_by p \<and>
     ob_idempotency_key q = ob_idempotency_key p \<and> ob_mutation_kind q = ob_mutation_kind p \<and>
     ob_entity_id q = ob_entity_id p \<and> ob_destination_remote q = ob_destination_remote p \<and>
     ob_ordering_key q = ob_ordering_key p \<and> ob_max_attempts q = ob_max_attempts p"

definition same_place :: "outbox_operation \<Rightarrow> outbox_operation \<Rightarrow> bool" where
  "same_place p q \<longleftrightarrow> same_op p q \<and> ob_sequence q = ob_sequence p \<and> ob_entity_sequence q = ob_entity_sequence p"

definition op_activated :: "int \<Rightarrow> json \<Rightarrow> outbox_operation \<Rightarrow> outbox_operation" where
  "op_activated now payload q = q\<lparr>ob_state := ObPending, ob_revision := ob_revision q + 1,
     ob_updated_at := now, ob_payload := payload\<rparr>"

definition op_cancelled :: "int \<Rightarrow> outbox_operation \<Rightarrow> outbox_operation" where
  "op_cancelled now q = q\<lparr>ob_state := ObCancelled, ob_revision := ob_revision q + 1, ob_updated_at := now\<rparr>"

definition op_leased :: "int \<Rightarrow> rstr \<Rightarrow> int \<Rightarrow> outbox_operation \<Rightarrow> outbox_operation" where
  "op_leased now w l q = q\<lparr>ob_state := ObLeased, ob_lease_owner := Some w, ob_lease_expires_at := Some l,
     ob_retry_after := None, ob_updated_at := now, ob_revision := ob_revision q + 1\<rparr>"

definition op_renewed :: "int \<Rightarrow> int \<Rightarrow> outbox_operation \<Rightarrow> outbox_operation" where
  "op_renewed now l q = q\<lparr>ob_lease_expires_at := Some l, ob_revision := ob_revision q + 1, ob_updated_at := now\<rparr>"

definition op_acked :: "int \<Rightarrow> outbox_operation \<Rightarrow> outbox_operation" where
  "op_acked now q = q\<lparr>ob_state := ObReplicated, ob_revision := ob_revision q + 1, ob_lease_owner := None,
     ob_lease_expires_at := None, ob_retry_after := None, ob_last_error := None, ob_updated_at := now\<rparr>"

definition op_retried :: "int \<Rightarrow> rstr \<Rightarrow> int \<Rightarrow> outbox_operation \<Rightarrow> outbox_operation" where
  "op_retried now err retry q = q\<lparr>ob_state := ObRetryable, ob_revision := ob_revision q + 1,
     ob_lease_owner := None, ob_lease_expires_at := None, ob_retry_after := Some retry,
     ob_attempt_count := ob_attempt_count q + 1, ob_last_error := Some err, ob_updated_at := now\<rparr>"

definition op_failed :: "int \<Rightarrow> rstr \<Rightarrow> outbox_operation \<Rightarrow> outbox_operation" where
  "op_failed now err q = q\<lparr>ob_state := ObFailed, ob_revision := ob_revision q + 1, ob_lease_owner := None,
     ob_lease_expires_at := None, ob_retry_after := None, ob_attempt_count := ob_attempt_count q + 1,
     ob_last_error := Some err, ob_updated_at := now\<rparr>"

definition op_reclaimed :: "int \<Rightarrow> rstr \<Rightarrow> int \<Rightarrow> outbox_operation \<Rightarrow> outbox_operation" where
  "op_reclaimed now w l q = q\<lparr>ob_lease_owner := Some w, ob_lease_expires_at := Some l, ob_updated_at := now,
     ob_revision := ob_revision q + 1\<rparr>"

definition op_revived :: "int \<Rightarrow> int \<Rightarrow> int \<Rightarrow> outbox_operation \<Rightarrow> outbox_operation" where
  "op_revived now sq esq q = q\<lparr>ob_sequence := sq, ob_entity_sequence := esq, ob_state := ObStaged,
     ob_revision := ob_revision q + 1, ob_lease_owner := None, ob_lease_expires_at := None,
     ob_retry_after := None, ob_last_error := None, ob_created_at := now, ob_updated_at := now\<rparr>"

lemmas op_changes = op_activated_def op_cancelled_def op_leased_def op_renewed_def op_acked_def
  op_retried_def op_failed_def op_reclaimed_def op_revived_def

definition op_in_flight :: "int \<Rightarrow> rstr \<Rightarrow> outbox_operation \<Rightarrow> bool" where
  "op_in_flight now w p \<longleftrightarrow> ob_state p = ObLeased \<and> ob_lease_owner p = Some w \<and>
     opt_holds (\<lambda>expiry. expiry > now) (ob_lease_expires_at p)"

text \<open>An operation that is at the head of its group, due, and free of another worker's live lease.\<close>

definition op_claimable :: "int \<Rightarrow> rstr \<Rightarrow> outbox \<Rightarrow> outbox_operation \<Rightarrow> bool" where
  "op_claimable now w db p \<longleftrightarrow>
     (ob_state p = ObPending \<or> ob_state p = ObRetryable \<or> ob_state p = ObLeased) \<and>
     \<not> has_predecessor db (ob_destination_remote p) (ob_ordering_key p) (ob_sequence p) \<and>
     none_or (\<lambda>v. v \<le> now) (ob_retry_after p) \<and>
     (ob_state p = ObLeased \<longrightarrow> none_or (\<lambda>x. x = w) (ob_lease_owner p) \<or>
        none_or (\<lambda>v. v \<le> now) (ob_lease_expires_at p))"

inductive op_change ::
  "(int \<Rightarrow> int) \<Rightarrow> int \<Rightarrow> rstr \<Rightarrow> outbox \<Rightarrow> outbox_operation \<Rightarrow> outbox_operation \<Rightarrow> bool"
  for jd now w db p where
  oc_activate: "ob_state p = ObStaged \<Longrightarrow> op_change jd now w db p (op_activated now payload p)"
| oc_cancel: "ob_state p = ObStaged \<Longrightarrow> op_change jd now w db p (op_cancelled now p)"
| oc_lease: "op_claimable now w db p \<Longrightarrow> op_change jd now w db p (op_leased now w l p)"
| oc_renew: "op_in_flight now w p \<Longrightarrow> op_change jd now w db p (op_renewed now l p)"
| oc_ack: "op_in_flight now w p \<Longrightarrow> op_change jd now w db p (op_acked now p)"
| oc_retry: "op_in_flight now w p \<Longrightarrow> op_change jd now w db p (op_retried now err retry p)"
| oc_fail: "op_in_flight now w p \<Longrightarrow> op_change jd now w db p (op_failed now err p)"
| oc_reclaim:
    "ob_state p = ObLeased \<Longrightarrow> opt_holds (\<lambda>v. jd v \<le> jd now) (ob_lease_expires_at p) \<Longrightarrow>
     op_change jd now w db p (op_reclaimed now w l p)"

text \<open>One row was rewritten.\<close>

definition op_written :: "rstr \<Rightarrow> outbox_operation \<Rightarrow> outbox_operation \<Rightarrow> outbox \<Rightarrow> outbox \<Rightarrow> bool" where
  "op_written i p p' db db' \<longleftrightarrow> get_operation db i = Some p \<and>
     (\<exists>sel f. db' = update_rows sel f db \<and> sel p \<and> (\<forall>q. sel q \<longrightarrow> ob_operation_id q = i) \<and>
        f p = p' \<and> (\<forall>q. same_op q (f q)))"

definition fresh_op :: "outbox \<Rightarrow> outbox_operation \<Rightarrow> bool" where
  "fresh_op db p \<longleftrightarrow> ob_state p = ObStaged \<and> ob_revision p = 0 \<and> ob_lease_owner p = None \<and>
     ob_lease_expires_at p = None \<and> ob_retry_after p = None \<and> ob_attempt_count p = 0 \<and>
     ob_entity_sequence p = next_entity_sequence db (ob_entity_id p) (ob_destination_remote p)"

inductive outbox_step :: "(int \<Rightarrow> int) \<Rightarrow> int \<Rightarrow> outbox \<Rightarrow> outbox \<Rightarrow> bool" for jd now where
  os_insert: "insert_operation p db = Inr db' \<Longrightarrow> fresh_op db p \<Longrightarrow> outbox_step jd now db db'"
| os_write: "op_written i p p' db db' \<Longrightarrow> op_change jd now w db p p' \<Longrightarrow> outbox_step jd now db db'"
| os_revive:
    "op_written i p (op_revived now (next_sequence db)
        (next_entity_sequence db (ob_entity_id p) (ob_destination_remote p)) p) db db' \<Longrightarrow>
     ob_state p = ObCancelled \<Longrightarrow> outbox_step jd now db db'"

section \<open>Row access\<close>

lemma get_operation_id: "get_operation db i = Some p \<Longrightarrow> ob_operation_id p = i \<and> p \<in> set db"
  by (auto simp: get_operation_def dest: find_row_SomeD)

lemma op_written_get:
  assumes "op_written i p p' db db'"
  shows "get_operation db' i = Some p'"
    and "j \<noteq> i \<Longrightarrow> get_operation db' j = get_operation db j"
proof -
  from assms obtain sel f where w: "db' = update_rows sel f db" "sel p" "\<forall>q. sel q \<longrightarrow> ob_operation_id q = i"
    "f p = p'" "\<forall>q. same_op q (f q)" "get_operation db i = Some p"
    by (auto simp: op_written_def)
  have id: "ob_operation_id (f q) = ob_operation_id q" for q using w(5) by (simp add: same_op_def)
  have g: "get_operation db' k = map_option (\<lambda>q. if sel q then f q else q) (get_operation db k)" for k
    unfolding get_operation_def w(1) by (rule find_row_update_rows) (simp add: id)
  show "get_operation db' i = Some p'" using g [of i] w(2,4,6) by simp
  assume "j \<noteq> i"
  show "get_operation db' j = get_operation db j"
  proof (cases "get_operation db j")
    case (Some q)
    then have "\<not> sel q" using w(3) \<open>j \<noteq> i\<close> get_operation_id by blast
    then show ?thesis using g [of j] Some by simp
  qed (use g [of j] in simp)
qed

lemma op_written_intro:
  assumes "get_operation db i = Some p" and "sel p" and "\<And>q. sel q \<Longrightarrow> ob_operation_id q = i"
    and "\<And>q. same_op q (f q)"
  shows "op_written i p (f p) db (update_rows sel f db)"
  unfolding op_written_def using assms by blast

lemma read_back_written:
  "op_written i p p' db db' \<Longrightarrow> read_back db' i what = Inr r \<Longrightarrow> r = p'"
  by (simp add: read_back_def op_written_get(1))

section \<open>Branches of the revision-guarded writes\<close>

text \<open>\<open>b\<close> says whether the call accepts an operation that was replicated already (acknowledge does).\<close>

inductive ob_spec ::
  "bool \<Rightarrow> (outbox_operation \<Rightarrow> outbox_operation \<Rightarrow> bool) \<Rightarrow> outbox \<Rightarrow> rstr \<Rightarrow> int \<Rightarrow>
   storage_error + outbox_operation revisioned_write \<Rightarrow> outbox \<Rightarrow> bool"
  for b Q db i r where
  obs_error: "ob_spec b Q db i r (Inl x) db"
| obs_missing: "get_operation db i = None \<Longrightarrow> ob_spec b Q db i r (Inr (Conflict None)) db"
| obs_stale:
    "get_operation db i = Some p \<Longrightarrow> ob_revision p \<noteq> r \<Longrightarrow> ob_spec b Q db i r (Inr (Conflict (Some (ob_revision p)))) db"
| obs_raced:
    "get_operation db i = Some p \<Longrightarrow> ob_revision p = r \<Longrightarrow> ob_spec b Q db i r (Inr (Conflict None)) db"
| obs_same:
    "b \<Longrightarrow> get_operation db i = Some p \<Longrightarrow> ob_revision p = r \<Longrightarrow> ob_state p = ObReplicated \<Longrightarrow>
     ob_spec b Q db i r (Inr (Applied p)) db"
| obs_applied:
    "ob_revision p = r \<Longrightarrow> Q p p' \<Longrightarrow> op_written i p p' db db' \<Longrightarrow> ob_spec b Q db i r (Inr (Applied p')) db'"

lemma outcome_with_revision [outcome]:
  assumes "get_operation db i = None \<Longrightarrow> P (Inr (Conflict None)) db"
    and "\<And>p. get_operation db i = Some p \<Longrightarrow> ob_revision p \<noteq> r \<Longrightarrow> P (Inr (Conflict (Some (ob_revision p)))) db"
    and "\<And>p. get_operation db i = Some p \<Longrightarrow> ob_revision p = r \<Longrightarrow> outcome P (k p)"
  shows "outcome P (with_revision db i r k)"
  using assms by (auto simp: with_revision_def outcome_def split: option.splits)

text \<open>The last step of every write: the row read back is the new value.\<close>

lemma obs_appliedI:
  assumes "read_back (update_rows sel f db) i what = Inr v" and "get_operation db i = Some p"
    and "ob_revision p = r" and "ob_operation_id p = i \<Longrightarrow> sel p"
    and "\<And>q. sel q \<Longrightarrow> ob_operation_id q = i" and "\<And>q. same_op q (f q)" and "Q p (f p)"
  shows "ob_spec b Q db i r (Inr (Applied v)) (update_rows sel f db)"
proof -
  have w: "op_written i p (f p) db (update_rows sel f db)" using assms get_operation_id [OF assms(2)] by (intro op_written_intro) auto
  have "v = f p" by (rule read_back_written [OF w assms(1)])
  with w assms(3,7) show ?thesis by (auto intro: obs_applied)
qed

lemma in_flight_ok: "ensure_in_flight p w now = Inr u \<Longrightarrow> op_in_flight now w p"
  by (auto simp: ensure_in_flight_def op_in_flight_def none_or_iff split: if_splits)

lemma activate_outcome:
  "outcome (ob_spec False (\<lambda>p p'. ob_state p = ObStaged \<and> p' = op_activated (env_now e)
       (if ob_mutation_kind p = lit ''ingest_file'' then compact_ingestion_payload e (ob_payload p) else ob_payload p) p)
     db i r) (activate e db i r)"
  unfolding activate_def Let_def
  by (intro outcome)
    ((auto intro: ob_spec.intros; fail) |
     (rule obs_appliedI, assumption+; auto simp: same_op_def op_activated_def dest!: format_time_InrD; fail))+

lemma cancel_outcome:
  "outcome (ob_spec False (\<lambda>p p'. ob_state p = ObStaged \<and> p' = op_cancelled (env_now e) p) db i r) (cancel e db i r)"
  unfolding cancel_def Let_def
  by (intro outcome)
    ((auto intro: ob_spec.intros; fail) |
     (rule obs_appliedI, assumption+; auto simp: same_op_def op_cancelled_def dest!: format_time_InrD; fail))+

lemma claim_by_id_outcome:
  "outcome (ob_spec False (\<lambda>p p'. op_claimable (env_now e) w db p \<and> (\<exists>l. env_checked_add e (env_now e) ttl = Some l \<and>
       p' = op_leased (env_now e) w l p)) db i r) (claim_by_id e db i w r ttl)"
proof -
  have cl: "op_claimable (env_now e) w db p"
    if "ob_state p \<noteq> ObStaged" "\<not> outbox_terminal (ob_state p)"
      "\<not> has_predecessor db (ob_destination_remote p) (ob_ordering_key p) (ob_sequence p)"
      "\<not> opt_holds (\<lambda>v. v > env_now e) (ob_retry_after p)"
      "\<not> (ob_state p = ObLeased \<and> opt_holds (\<lambda>owner. owner \<noteq> w) (ob_lease_owner p)
       \<and> opt_holds (\<lambda>expiry. expiry > env_now e) (ob_lease_expires_at p))" for p
    using that by (cases "ob_state p") (auto simp: op_claimable_def none_or_iff opt_holds_iff not_less)
  show ?thesis
    unfolding claim_by_id_def Let_def take_lease_def
    by (intro outcome)
      ((auto intro: ob_spec.intros; fail) |
       (rule obs_appliedI, assumption+; auto simp: same_op_def op_leased_def cl dest!: format_time_InrD; fail))+
qed

lemma outbox_renew_lease_outcome:
  "outcome (ob_spec False (\<lambda>p p'. op_in_flight (env_now e) w p \<and> (\<exists>l. env_checked_add e (env_now e) ttl = Some l \<and>
       p' = op_renewed (env_now e) l p)) db i r) (outbox_renew_lease e db i w r ttl)"
  unfolding outbox_renew_lease_def Let_def update_op_def
  by (intro outcome)
    ((auto intro: ob_spec.intros; fail) |
     (rule obs_appliedI, assumption+;
      auto simp: same_op_def op_renewed_def op_in_flight_def none_or_iff get_operation_id dest!: format_time_InrD; fail))+

lemma acknowledge_outcome:
  "outcome (ob_spec True (\<lambda>p p'. op_in_flight (env_now e) w p \<and> p' = op_acked (env_now e) p) db i r)
     (acknowledge e db i w r)"
  unfolding acknowledge_def Let_def update_op_def
  by (intro outcome)
    ((auto intro: ob_spec.intros; fail) |
     (rule obs_appliedI, assumption+;
      auto simp: same_op_def op_acked_def get_operation_id dest!: format_time_InrD in_flight_ok; fail))+

lemma schedule_retry_outcome:
  "outcome (ob_spec False (\<lambda>p p'. op_in_flight (env_now e) w p \<and> p' = op_retried (env_now e) err retry p) db i r)
     (schedule_retry e db i w r err retry)"
  unfolding schedule_retry_def Let_def update_op_def
  by (intro outcome)
    ((auto intro: ob_spec.intros; fail) |
     (rule obs_appliedI, assumption+;
      auto simp: same_op_def op_retried_def get_operation_id dest!: format_time_InrD in_flight_ok; fail))+

lemma fail_outcome:
  "outcome (ob_spec False (\<lambda>p p'. op_in_flight (env_now e) w p \<and> p' = op_failed (env_now e) err p) db i r)
     (fail e db i w r err)"
  unfolding fail_def Let_def update_op_def
  by (intro outcome)
    ((auto intro: ob_spec.intros; fail) |
     (rule obs_appliedI, assumption+;
      auto simp: same_op_def op_failed_def get_operation_id dest!: format_time_InrD in_flight_ok; fail))+

section \<open>The outbox as a machine\<close>

text \<open>
  The branches of enqueue, of the batch claim and of the recovery of expired leases, and the outbox
  as a machine: \<open>outbox_call\<close> names one operation with its arguments, \<open>outbox_exec\<close> runs it, and
  \<open>outbox_exec_refines\<close> shows that each call is at most one step of the abstract outbox.
\<close>

section \<open>Enqueue\<close>

definition op_of_input :: "new_outbox_operation \<Rightarrow> outbox_operation \<Rightarrow> bool" where
  "op_of_input input p \<longleftrightarrow> ob_created_by p = no_created_by input \<and>
     ob_idempotency_key p = no_idempotency_key input \<and> ob_mutation_kind p = no_mutation_kind input \<and>
     ob_entity_id p = no_entity_id input \<and> ob_destination_remote p = no_destination_remote input \<and>
     ob_ordering_key p = no_ordering_key input \<and> ob_max_attempts p = no_max_attempts input \<and>
     ob_payload p = no_payload input"

inductive enqueue_spec ::
  "env \<Rightarrow> outbox \<Rightarrow> new_outbox_operation \<Rightarrow> storage_error + outbox_operation \<Rightarrow> outbox \<Rightarrow> bool"
  for e db input where
  eq_error: "enqueue_spec e db input (Inl x) db"
| eq_new:
    "find_operation_by_key db (no_created_by input) (no_idempotency_key input) = Inr None \<Longrightarrow>
     insert_operation p db = Inr db' \<Longrightarrow> fresh_op db p \<Longrightarrow>
     op_of_input input p \<Longrightarrow> get_operation db' (ob_operation_id p) = Some r \<Longrightarrow>
     enqueue_spec e db input (Inr r) db'"
| eq_replay:
    "find_operation_by_key db (no_created_by input) (no_idempotency_key input) = Inr (Some p) \<Longrightarrow>
     same_mutation e p input \<Longrightarrow> ob_state p \<noteq> ObCancelled \<Longrightarrow> enqueue_spec e db input (Inr p) db"
| eq_revive:
    "find_operation_by_key db (no_created_by input) (no_idempotency_key input) = Inr (Some p) \<Longrightarrow>
     same_mutation e p input \<Longrightarrow> ob_state p = ObCancelled \<Longrightarrow>
     p' = op_revived (env_now e) (next_sequence db)
        (next_entity_sequence db (ob_entity_id p) (ob_destination_remote p)) p \<Longrightarrow>
     op_written (ob_operation_id p) p p' db db' \<Longrightarrow> enqueue_spec e db input (Inr p') db'"

lemma find_operation_by_key_SomeD:
  assumes "find_operation_by_key db a k = Inr (Some p)"
  shows "get_operation db (ob_operation_id p) = Some p"
proof -
  from assms obtain r :: outbox_operation where "get_operation db (ob_operation_id r) = Some p"
    by (auto simp: find_operation_by_key_def split: option.splits)
  with get_operation_id [OF this] show ?thesis by simp
qed

lemma eq_reviveI:
  assumes "read_back (update_rows (\<lambda>q. ob_operation_id q = ob_operation_id p \<and> ob_state q = ObCancelled)
          (\<lambda>q. q\<lparr>ob_sequence := next_sequence db, ob_entity_sequence := next_entity_sequence db
                   (no_entity_id input) (no_destination_remote input), ob_state := ObStaged,
                 ob_revision := ob_revision q + 1, ob_lease_owner := None,
                 ob_lease_expires_at := None, ob_retry_after := None, ob_last_error := None,
                 ob_created_at := at, ob_updated_at := at\<rparr>) db) (ob_operation_id p) what = Inr v"
    and "find_operation_by_key db (no_created_by input) (no_idempotency_key input) = Inr (Some p)"
    and "same_mutation e p input" and "ob_state p = ObCancelled" and "format_time e (env_now e) = Inr at"
  shows "enqueue_spec e db input (Inr v)
    (update_rows (\<lambda>q. ob_operation_id q = ob_operation_id p \<and> ob_state q = ObCancelled)
       (\<lambda>q. q\<lparr>ob_sequence := next_sequence db, ob_entity_sequence := next_entity_sequence db
                (no_entity_id input) (no_destination_remote input), ob_state := ObStaged,
              ob_revision := ob_revision q + 1, ob_lease_owner := None,
              ob_lease_expires_at := None, ob_retry_after := None, ob_last_error := None,
              ob_created_at := at, ob_updated_at := at\<rparr>) db)"
    (is "enqueue_spec e db input _ (update_rows ?sel ?f db)")
proof -
  have g: "get_operation db (ob_operation_id p) = Some p"
    by (rule find_operation_by_key_SomeD [OF assms(2)])
  have w: "op_written (ob_operation_id p) p (?f p) db (update_rows ?sel ?f db)"
    using assms(4) by (intro op_written_intro [OF g]) (auto simp: same_op_def)
  have "?f p = op_revived (env_now e) (next_sequence db)
      (next_entity_sequence db (ob_entity_id p) (ob_destination_remote p)) p"
    using assms(3) format_time_InrD [OF assms(5)] by (simp add: op_revived_def same_mutation_def)
  with w read_back_written [OF w assms(1)] eq_revive [OF assms(2,3,4)] show ?thesis by simp
qed

lemma enqueue_outcome: "outcome (enqueue_spec e db input) (enqueue e db input)"
  unfolding enqueue_def Let_def
  by (intro outcome)
    ((rule enqueue_spec.eq_error; fail) |
     (rule eq_replay; simp; fail) |
     (rule eq_reviveI; (assumption | simp; fail)) |
     (rule eq_new, simp, assumption,
       auto simp: fresh_op_def op_of_input_def read_back_def split: option.splits; fail))+

section \<open>Batch claim and recovery\<close>

inductive take_spec ::
  "(outbox_operation \<Rightarrow> outbox_operation \<Rightarrow> bool) \<Rightarrow> outbox \<Rightarrow> outbox_operation option \<Rightarrow>
   storage_error + outbox_operation option \<Rightarrow> outbox \<Rightarrow> bool"
  for Q db x where
  tk_error: "take_spec Q db x (Inl err) db"
| tk_none: "x = None \<Longrightarrow> take_spec Q db x (Inr None) db"
| tk_some:
    "x = Some p \<Longrightarrow> Q p p' \<Longrightarrow> op_written (ob_operation_id p) p p' db db' \<Longrightarrow>
     take_spec Q db x (Inr (Some p')) db'"

lemma unique_operation:
  "distinct (map ob_operation_id db) \<Longrightarrow> p \<in> set db \<Longrightarrow> get_operation db (ob_operation_id p) = Some p"
  by (simp add: get_operation_def find_row_key)

lemma unique_count:
  "distinct (map ob_operation_id db) \<Longrightarrow> p \<in> set db \<Longrightarrow> q p \<Longrightarrow>
   count_rows (\<lambda>r. ob_operation_id r = ob_operation_id p \<and> q r) db = 1"
  by (rule count_rows_key)

lemma tk_someI:
  assumes "read_back (update_rows sel f db) (ob_operation_id p) what = Inr v" and "x = Some p"
    and "get_operation db (ob_operation_id p) = Some p" and "sel p"
    and "\<And>q. sel q \<Longrightarrow> ob_operation_id q = ob_operation_id p" and "\<And>q. same_op q (f q)" and "Q p (f p)"
  shows "take_spec Q db x (Inr (Some v)) (update_rows sel f db)"
proof -
  have w: "op_written (ob_operation_id p) p (f p) db (update_rows sel f db)"
    by (rule op_written_intro) (fact assms)+
  show ?thesis
    unfolding read_back_written [OF w assms(1)] by (rule tk_some) (fact assms w)+
qed

lemma find_SomeD: "find P xs = Some x \<Longrightarrow> x \<in> set xs \<and> P x"
  by (induction xs) (auto split: if_splits)

lemma due_headD:
  assumes "due_head db remote now = Some p"
  shows "p \<in> set db \<and> ob_destination_remote p = remote \<and> (ob_state p = ObPending \<or> ob_state p = ObRetryable) \<and>
    op_claimable now w db p"
proof -
  have "p \<in> set (claim_heads db remote)" and r: "none_or (\<lambda>v. v \<le> now) (ob_retry_after p)"
    using find_SomeD [OF assms [unfolded due_head_def]] by blast+
  then have h: "p \<in> set db" "ob_destination_remote p = remote" "ob_state p = ObPending \<or> ob_state p = ObRetryable"
    "\<not> has_predecessor db (ob_destination_remote p) (ob_ordering_key p) (ob_sequence p)"
    by (auto simp: claim_heads_def)
  then have "op_claimable now w db p" using r by (elim disjE) (simp_all add: op_claimable_def)
  with h show ?thesis by blast
qed

lemma expired_leaseD:
  assumes "expired_lease jd db remote now = Some p"
  shows "p \<in> set db \<and> none_or (\<lambda>r. ob_destination_remote p = r) remote \<and> ob_state p = ObLeased \<and>
    opt_holds (\<lambda>v. jd v \<le> jd now) (ob_lease_expires_at p)"
proof -
  let ?P = "\<lambda>p. none_or (\<lambda>r. ob_destination_remote p = r) remote \<and> ob_state p = ObLeased \<and>
      opt_holds (\<lambda>v. jd v \<le> jd now) (ob_lease_expires_at p)"
  from assms obtain ps where h: "sort_key ob_sequence (filter ?P db) = p # ps"
    by (auto simp: expired_lease_def split: list.splits)
  have "p \<in> set (sort_key ob_sequence (filter ?P db))" unfolding h by simp
  then show ?thesis by simp
qed

lemma claim_next_outcome:
  assumes "distinct (map ob_operation_id db)"
  shows "outcome (take_spec (\<lambda>p p'. op_claimable (env_now e) w db p \<and>
       (\<exists>l. env_checked_add e (env_now e) ttl = Some l \<and> p' = op_leased (env_now e) w l p))
     db (due_head db remote (env_now e))) (claim_next e db remote w ttl)"
proof -
  note d = due_headD [where w = w]
  have g: "get_operation db (ob_operation_id p) = Some p" if "due_head db remote (env_now e) = Some p" for p
    using unique_operation [OF assms] d [OF that] by blast
  have c: "count_rows (\<lambda>q. ob_operation_id q = ob_operation_id p \<and> ob_revision q = ob_revision p) db = 1"
    if "due_head db remote (env_now e) = Some p" for p
    by (rule unique_count [OF assms]) (use d [OF that] in simp_all)
  show ?thesis
    unfolding claim_next_def Let_def take_lease_def
    by (intro outcome)
      ((rule tk_error; fail) | (rule tk_none; assumption) | (simp only: c; fail) |
       (rule tk_someI, assumption, assumption, erule g;
        simp add: same_op_def op_leased_def d; (drule format_time_InrD)+; auto; fail))+
qed

lemma reclaim_outcome:
  assumes "distinct (map ob_operation_id db)"
  shows "outcome (take_spec (\<lambda>p p'. ob_state p = ObLeased \<and>
       opt_holds (\<lambda>v. jd v \<le> jd (env_now e)) (ob_lease_expires_at p) \<and>
       (\<exists>l. env_checked_add e (env_now e) ttl = Some l \<and> p' = op_reclaimed (env_now e) w l p))
     db (expired_lease jd db remote (env_now e))) (reclaim_expired_lease jd e db remote w ttl)"
proof -
  have g: "get_operation db (ob_operation_id p) = Some p" if "expired_lease jd db remote (env_now e) = Some p" for p
    using unique_operation [OF assms] expired_leaseD [OF that] by blast
  have c: "count_rows (\<lambda>q. ob_operation_id q = ob_operation_id p) db = 1"
    if "expired_lease jd db remote (env_now e) = Some p" for p
    using unique_count [OF assms, where q = "\<lambda>_. True"] expired_leaseD [OF that] by simp
  show ?thesis
    unfolding reclaim_expired_lease_def Let_def update_op_def
    by (intro outcome)
      ((rule tk_error; fail) | (rule tk_none; assumption) | (simp only: c; fail) |
       (rule tk_someI, assumption, assumption, erule g;
        simp add: same_op_def op_reclaimed_def expired_leaseD; (drule format_time_InrD)+; auto; fail))+
qed

end
