(* ===== verification/Outbox_Inv.thy ===== *)
theory Outbox_Inv
  imports Outbox_Spec
begin

text \<open>
  The invariant of the outbox and what later calls may not undo. \<open>outbox_inv\<close>: the UNIQUE columns, the
  columns that go with each state, and that an operation in flight is the head of its group, so a
  group delivers one operation at a time. \<open>outbox_extends\<close>: no operation is lost, its identity is
  kept, revisions grow, a terminal outcome of a delivery is final and an activated operation stays
  activated. Both hold of every step, hence of every run (\<open>outbox_hist\<close>).
\<close>

section \<open>Calls\<close>

datatype outbox_call =
  ObCallEnqueue env new_outbox_operation
| ObCallActivate env rstr int
| ObCallCancel env rstr int
| ObCallClaimNext env rstr rstr int
| ObCallClaimById env rstr rstr int int
| ObCallRenew env rstr rstr int int
| ObCallAcknowledge env rstr rstr int
| ObCallRetry env rstr rstr int rstr int
| ObCallFail env rstr rstr int rstr
| ObCallReclaim env "rstr option" rstr int

fun outbox_exec :: "(int \<Rightarrow> int) \<Rightarrow> outbox_call \<Rightarrow> outbox \<Rightarrow> outbox" where
  "outbox_exec jd (ObCallEnqueue e i) db = snd (enqueue e db i)"
| "outbox_exec jd (ObCallActivate e i r) db = snd (activate e db i r)"
| "outbox_exec jd (ObCallCancel e i r) db = snd (cancel e db i r)"
| "outbox_exec jd (ObCallClaimNext e remote w ttl) db = snd (claim_next e db remote w ttl)"
| "outbox_exec jd (ObCallClaimById e i w r ttl) db = snd (claim_by_id e db i w r ttl)"
| "outbox_exec jd (ObCallRenew e i w r ttl) db = snd (outbox_renew_lease e db i w r ttl)"
| "outbox_exec jd (ObCallAcknowledge e i w r) db = snd (acknowledge e db i w r)"
| "outbox_exec jd (ObCallRetry e i w r err retry) db = snd (schedule_retry e db i w r err retry)"
| "outbox_exec jd (ObCallFail e i w r err) db = snd (fail e db i w r err)"
| "outbox_exec jd (ObCallReclaim e remote w ttl) db = snd (reclaim_expired_lease jd e db remote w ttl)"

fun outbox_call_env :: "outbox_call \<Rightarrow> env" where
  "outbox_call_env (ObCallEnqueue e i) = e"
| "outbox_call_env (ObCallActivate e i r) = e"
| "outbox_call_env (ObCallCancel e i r) = e"
| "outbox_call_env (ObCallClaimNext e remote w ttl) = e"
| "outbox_call_env (ObCallClaimById e i w r ttl) = e"
| "outbox_call_env (ObCallRenew e i w r ttl) = e"
| "outbox_call_env (ObCallAcknowledge e i w r) = e"
| "outbox_call_env (ObCallRetry e i w r err retry) = e"
| "outbox_call_env (ObCallFail e i w r err) = e"
| "outbox_call_env (ObCallReclaim e remote w ttl) = e"

lemma ob_spec_step:
  assumes "ob_spec b Q db i r res db'" and "\<And>p p'. Q p p' \<Longrightarrow> op_change jd now w db p p'"
  shows "db' = db \<or> outbox_step jd now db db'"
  using assms by (cases rule: ob_spec.cases) (auto intro: os_write)

lemma take_spec_step:
  assumes "take_spec Q db x res db'" and "\<And>p p'. Q p p' \<Longrightarrow> op_change jd now w db p p'"
  shows "db' = db \<or> outbox_step jd now db db'"
  using assms by (cases rule: take_spec.cases) (auto intro: os_write)

lemma enqueue_spec_step: "enqueue_spec e db i res db' \<Longrightarrow> db' = db \<or> outbox_step jd (env_now e) db db'"
  by (cases rule: enqueue_spec.cases) (auto intro: os_insert os_revive)

lemmas outbox_outcomes = activate_outcome cancel_outcome claim_by_id_outcome outbox_renew_lease_outcome
  acknowledge_outcome schedule_retry_outcome fail_outcome

text \<open>Every call is at most one step of the abstract outbox.\<close>

lemma outbox_exec_refines:
  assumes "distinct (map ob_operation_id db)"
  shows "outbox_exec jd c db = db \<or> outbox_step jd (env_now (outbox_call_env c)) db (outbox_exec jd c db)"
proof (cases c)
  case (ObCallEnqueue e i)
  then show ?thesis using enqueue_spec_step [OF enqueue_outcome [unfolded outcome_def]] by simp
next
  case (ObCallActivate e i r)
  then show ?thesis using activate_outcome [of e db i r]
    by (auto simp: outcome_def elim!: ob_spec_step intro: op_change.intros)
next
  case (ObCallCancel e i r)
  then show ?thesis using cancel_outcome [of e db i r]
    by (auto simp: outcome_def elim!: ob_spec_step intro: op_change.intros)
next
  case (ObCallClaimNext e remote w ttl)
  then show ?thesis using claim_next_outcome [OF assms, where e = e and w = w and ttl = ttl and remote = remote]
    by (auto simp: outcome_def elim!: take_spec_step [where w = w] intro: op_change.intros)
next
  case (ObCallClaimById e i w r ttl)
  then show ?thesis using claim_by_id_outcome [of e w db ttl i r]
    by (auto simp: outcome_def elim!: ob_spec_step [where w = w] intro: op_change.intros)
next
  case (ObCallRenew e i w r ttl)
  then show ?thesis using outbox_renew_lease_outcome [of e w ttl db i r]
    by (auto simp: outcome_def elim!: ob_spec_step [where w = w] intro: op_change.intros)
next
  case (ObCallAcknowledge e i w r)
  then show ?thesis using acknowledge_outcome [of e w db i r]
    by (auto simp: outcome_def elim!: ob_spec_step [where w = w] intro: op_change.intros)
next
  case (ObCallRetry e i w r err retry)
  then show ?thesis using schedule_retry_outcome [of e w err retry db i r]
    by (auto simp: outcome_def elim!: ob_spec_step [where w = w] intro: op_change.intros)
next
  case (ObCallFail e i w r err)
  then show ?thesis using fail_outcome [of e w err db i r]
    by (auto simp: outcome_def elim!: ob_spec_step [where w = w] intro: op_change.intros)
next
  case (ObCallReclaim e remote w ttl)
  then show ?thesis using reclaim_outcome [OF assms, where jd = jd and e = e and w = w and ttl = ttl and remote = remote]
    by (auto simp: outcome_def elim!: take_spec_step [where w = w] intro: op_change.intros)
qed

section \<open>Invariant\<close>

definition op_key :: "outbox_operation \<Rightarrow> rstr \<times> rstr" where
  "op_key p = (ob_created_by p, ob_idempotency_key p)"

definition op_place :: "outbox_operation \<Rightarrow> rstr \<times> rstr \<times> int" where
  "op_place p = (ob_entity_id p, ob_destination_remote p, ob_entity_sequence p)"

definition blocked :: "outbox \<Rightarrow> outbox_operation \<Rightarrow> bool" where
  "blocked db p \<longleftrightarrow> has_predecessor db (ob_destination_remote p) (ob_ordering_key p) (ob_sequence p)"

definition wf_op :: "outbox_operation \<Rightarrow> bool" where
  "wf_op p \<longleftrightarrow> (ob_lease_owner p \<noteq> None \<longleftrightarrow> ob_state p = ObLeased) \<and>
     (ob_lease_expires_at p \<noteq> None \<longleftrightarrow> ob_state p = ObLeased) \<and>
     (ob_retry_after p \<noteq> None \<longleftrightarrow> ob_state p = ObRetryable) \<and> 0 \<le> ob_revision p \<and> 0 \<le> ob_attempt_count p"

definition outbox_inv :: "outbox \<Rightarrow> bool" where
  "outbox_inv db \<longleftrightarrow> distinct (map ob_operation_id db) \<and> distinct (map op_key db) \<and>
     distinct (map ob_sequence db) \<and> distinct (map op_place db) \<and>
     (\<forall>p \<in> set db. wf_op p) \<and> (\<forall>p \<in> set db. ob_state p = ObLeased \<longrightarrow> \<not> blocked db p)"

lemma blocked_iff:
  "blocked db p \<longleftrightarrow> (\<exists>q \<in> set db. ob_destination_remote q = ob_destination_remote p \<and>
     ob_ordering_key q = ob_ordering_key p \<and> ob_sequence q < ob_sequence p \<and> outbox_active (ob_state q))"
  by (auto simp: blocked_def has_predecessor_def list_ex_iff)

subsection \<open>Rewriting one row\<close>

lemma op_written_map:
  assumes "op_written i p p' db db'" and "distinct (map ob_operation_id db)"
  shows "p \<in> set db" and "ob_operation_id p = i" and "same_op p p'"
    and "db' = map (\<lambda>q. if ob_operation_id q = i then p' else q) db"
proof -
  from assms(1) obtain sel f where w: "get_operation db i = Some p" "db' = update_rows sel f db" "sel p"
    "\<And>q. sel q \<Longrightarrow> ob_operation_id q = i" "f p = p'" "\<And>q. same_op q (f q)"
    by (auto simp: op_written_def)
  from get_operation_id [OF w(1)] show p: "p \<in> set db" "ob_operation_id p = i" by simp_all
  from w(6) [of p] w(5) show "same_op p p'" by simp
  have "(if sel q then f q else q) = (if ob_operation_id q = i then p' else q)" if "q \<in> set db" for q
  proof (cases "ob_operation_id q = i")
    case True
    with that p assms(2) have "q = p" by (auto simp: distinct_map inj_on_def)
    with True w(3,5) show ?thesis by simp
  qed (use w(4) in auto)
  then show "db' = map (\<lambda>q. if ob_operation_id q = i then p' else q) db"
    unfolding w(2) update_rows_def by simp
qed

lemma distinct_replace:
  assumes "distinct (map g xs)" and "distinct (map f xs)"
    and "\<And>q. q \<in> set xs \<Longrightarrow> g q \<noteq> i \<Longrightarrow> f q \<noteq> f p'"
  shows "distinct (map f (map (\<lambda>q. if g q = i then p' else q) xs))"
  using assms
proof (induction xs)
  case (Cons x xs)
  have ih: "distinct (map f (map (\<lambda>q. if g q = i then p' else q) xs))"
    using Cons.prems by (intro Cons.IH) simp_all
  show ?case
  proof (cases "g x = i")
    case True
    with Cons.prems(1) have "\<forall>q \<in> set xs. g q \<noteq> i" by (metis distinct.simps(2) imageI list.set_map list.simps(9))
    with True ih Cons.prems(3) show ?thesis by fastforce
  next
    case False
    moreover have "f x \<noteq> f (if g q = i then p' else q)" if "q \<in> set xs" for q
      using that Cons.prems(2) Cons.prems(3) [of x] False by auto
    ultimately show ?thesis using ih by auto
  qed
qed simp

text \<open>The rows after one row moved or changed: the new one, and the others as they were.\<close>

lemma written_set:
  assumes "op_written i p p' db db'" and "distinct (map ob_operation_id db)"
  shows "set db' = insert p' {q \<in> set db. ob_operation_id q \<noteq> i}"
  using op_written_map [OF assms] by auto

lemma written_distinct:
  assumes "op_written i p p' db db'" and "distinct (map ob_operation_id db)" and "distinct (map f db)"
    and "f p' = f p \<or> f p' \<notin> f ` set db"
  shows "distinct (map f db')"
proof -
  note m = op_written_map [OF assms(1,2)]
  have "f q \<noteq> f p'" if "q \<in> set db" "ob_operation_id q \<noteq> i" for q
  proof
    assume e: "f q = f p'"
    with assms(4) that(1) have "f q = f p" by (metis imageI)
    with assms(3) that(1) m(1) have "q = p" by (auto simp: distinct_map dest: inj_onD)
    with that(2) m(2) show False by simp
  qed
  then show ?thesis unfolding m(4) by (intro distinct_replace [OF assms(2,3)])
qed

lemma max_or_0_ge: "x \<in> set xs \<Longrightarrow> x \<le> max_or_0 xs"
  by (auto simp: max_or_0_def)

lemma next_sequence_gt: "q \<in> set db \<Longrightarrow> ob_sequence q < next_sequence db"
  using max_or_0_ge [of "ob_sequence q" "map ob_sequence db"] by (simp add: next_sequence_def)

lemma next_entity_sequence_gt:
  "q \<in> set db \<Longrightarrow> ob_entity_sequence q < next_entity_sequence db (ob_entity_id q) (ob_destination_remote q)"
  using max_or_0_ge [of "ob_entity_sequence q" "map ob_entity_sequence
    (filter (\<lambda>p. ob_entity_id p = ob_entity_id q \<and> ob_destination_remote p = ob_destination_remote q) db)"]
  by (simp add: next_entity_sequence_def)

subsection \<open>Preservation\<close>

lemma op_change_facts:
  assumes "op_change jd now w db p p'" and "wf_op p"
  shows "same_place p p'" and "wf_op p'" and "outbox_active (ob_state p') \<Longrightarrow> outbox_active (ob_state p)"
    and "ob_revision p' = ob_revision p + 1"
    and "ob_state p' = ObLeased \<Longrightarrow> ob_state p = ObLeased \<or> \<not> blocked db p"
  using assms
  by (cases rule: op_change.cases;
      force simp: op_changes same_place_def same_op_def wf_op_def op_in_flight_def op_claimable_def blocked_def)+

lemma write_inv:
  assumes inv: "outbox_inv db" and w: "op_written i p p' db db'" and c: "op_change jd now v db p p'"
  shows "outbox_inv db'"
proof -
  have d: "distinct (map ob_operation_id db)" using inv by (simp add: outbox_inv_def)
  note m = op_written_map [OF w d]
  have wp: "wf_op p" using inv m(1) by (simp add: outbox_inv_def)
  note f = op_change_facts [OF c wp]
  have sp: "ob_operation_id p' = ob_operation_id p" "op_key p' = op_key p" "ob_sequence p' = ob_sequence p"
    "op_place p' = op_place p" "ob_destination_remote p' = ob_destination_remote p"
    "ob_ordering_key p' = ob_ordering_key p"
    using f(1) by (simp_all add: same_place_def same_op_def op_key_def op_place_def)
  note s = written_set [OF w d]
  have b: "blocked db' q \<Longrightarrow> blocked db q" for q
    unfolding blocked_iff s using m(1) sp f(3) by auto
  have b': "blocked db p' \<Longrightarrow> blocked db p" unfolding blocked_def using sp by simp
  have "\<forall>q \<in> set db'. wf_op q" using inv f(2) by (auto simp: s outbox_inv_def)
  moreover have "\<forall>q \<in> set db'. ob_state q = ObLeased \<longrightarrow> \<not> blocked db' q"
    using inv b b' f(5) m(1) by (auto simp: s outbox_inv_def)
  ultimately show ?thesis
    using inv sp by (simp add: outbox_inv_def written_distinct [OF w d])
qed

lemma revive_inv:
  assumes inv: "outbox_inv db" and st: "ob_state p = ObCancelled"
    and w: "op_written i p (op_revived now (next_sequence db)
      (next_entity_sequence db (ob_entity_id p) (ob_destination_remote p)) p) db db'"
      (is "op_written i p ?p db db'")
  shows "outbox_inv db'"
proof -
  have d: "distinct (map ob_operation_id db)" using inv by (simp add: outbox_inv_def)
  note m = op_written_map [OF w d] and s = written_set [OF w d]
  have sq: "ob_sequence ?p \<notin> ob_sequence ` set db"
    using next_sequence_gt [of _ db] by (fastforce simp: op_revived_def)
  have pl: "op_place ?p \<notin> op_place ` set db"
    using next_entity_sequence_gt [of _ db] by (fastforce simp: op_revived_def op_place_def)
  have b: "blocked db q" if "blocked db' q" "q \<in> set db" for q
    using that next_sequence_gt [of q db] by (auto simp: blocked_iff s op_revived_def)
  have "wf_op ?p" using inv m(1) by (auto simp: outbox_inv_def wf_op_def op_revived_def)
  then have "\<forall>q \<in> set db'. wf_op q" using inv by (auto simp: s outbox_inv_def)
  moreover have "ob_state q = ObLeased \<Longrightarrow> \<not> blocked db' q" if "q \<in> set db'" for q
    using that inv b [of q] by (auto simp: s outbox_inv_def op_revived_def)
  moreover have "ob_operation_id ?p = ob_operation_id p" "op_key ?p = op_key p"
    by (simp_all add: op_revived_def op_key_def)
  ultimately show ?thesis
    using inv sq pl by (simp add: outbox_inv_def written_distinct [OF w d])
qed

lemma insert_inv:
  assumes inv: "outbox_inv db" and i: "insert_operation p db = Inr db'" and f: "fresh_op db p"
  shows "outbox_inv db'"
proof -
  let ?p = "p\<lparr>ob_sequence := next_sequence db\<rparr>"
  have db': "db' = db @ [?p]" and u: "get_operation db (ob_operation_id p) = None"
    "op_key p \<notin> op_key ` set db" "op_place p \<notin> op_place ` set db"
    using i by (auto simp: insert_operation_def list_ex_iff op_key_def op_place_def split: if_splits)
  have "ob_operation_id p \<notin> ob_operation_id ` set db"
    using u(1) by (auto simp: get_operation_def find_row_None)
  moreover have "next_sequence db \<notin> ob_sequence ` set db" using next_sequence_gt [of _ db] by fastforce
  moreover have "op_key ?p = op_key p" "op_place ?p = op_place p" by (simp_all add: op_key_def op_place_def)
  moreover have "blocked db q" if "blocked db' q" "q \<in> set db" for q
    using that next_sequence_gt [of q db] by (auto simp: blocked_iff db')
  moreover have "wf_op ?p" "ob_state ?p = ObStaged" using f by (auto simp: fresh_op_def wf_op_def)
  ultimately show ?thesis using inv u by (auto simp: outbox_inv_def db')
qed

lemma outbox_exec_inv: "outbox_inv db \<Longrightarrow> outbox_inv (outbox_exec jd c db)"
proof -
  assume inv: "outbox_inv db"
  then have "distinct (map ob_operation_id db)" by (simp add: outbox_inv_def)
  from outbox_exec_refines [OF this, of jd c] show ?thesis
    using inv by (auto elim!: outbox_step.cases intro: write_inv revive_inv insert_inv)
qed

section \<open>What later calls may not undo\<close>

fun activated :: "outbox_state \<Rightarrow> bool" where
  "activated ObStaged = False"
| "activated ObCancelled = False"
| "activated _ = True"

definition op_le :: "outbox_operation \<Rightarrow> outbox_operation \<Rightarrow> bool" where
  "op_le p p' \<longleftrightarrow> same_op p p' \<and> ob_revision p \<le> ob_revision p' \<and> (ob_revision p = ob_revision p' \<longrightarrow> p' = p) \<and>
     ob_sequence p \<le> ob_sequence p' \<and> ob_attempt_count p \<le> ob_attempt_count p' \<and>
     (activated (ob_state p) \<longrightarrow> activated (ob_state p') \<and> same_place p p') \<and>
     (ob_state p = ObReplicated \<or> ob_state p = ObFailed \<longrightarrow> p' = p)"

definition outbox_extends :: "outbox \<Rightarrow> outbox \<Rightarrow> bool" where
  "outbox_extends db db' \<longleftrightarrow> (\<forall>p \<in> set db. \<exists>p' \<in> set db'. op_le p p')"

lemma op_le_refl [simp]: "op_le p p"
  by (simp add: op_le_def same_op_def same_place_def)

lemma op_le_trans:
  assumes a: "op_le p q" and b: "op_le q r"
  shows "op_le p r"
proof -
  have "same_op p r" using a b by (simp add: op_le_def same_op_def)
  moreover have "ob_revision p = ob_revision r \<Longrightarrow> r = p"
  proof -
    assume "ob_revision p = ob_revision r"
    moreover have "ob_revision p \<le> ob_revision q" "ob_revision q \<le> ob_revision r"
      using a b by (simp_all add: op_le_def)
    ultimately have "ob_revision p = ob_revision q" "ob_revision q = ob_revision r" by linarith+
    with a b show "r = p" unfolding op_le_def by blast
  qed
  moreover have "ob_revision p \<le> ob_revision r" "ob_sequence p \<le> ob_sequence r" "ob_attempt_count p \<le> ob_attempt_count r"
    using a b unfolding op_le_def by linarith+
  moreover have "activated (ob_state p) \<Longrightarrow> activated (ob_state r) \<and> same_place p r"
    using a b by (simp add: op_le_def same_place_def same_op_def)
  moreover have "ob_state p = ObReplicated \<or> ob_state p = ObFailed \<Longrightarrow> r = p"
    using a b unfolding op_le_def by blast
  ultimately show ?thesis unfolding op_le_def by blast
qed

lemma op_change_open:
  "op_change jd now w db p p' \<Longrightarrow> ob_state p \<noteq> ObReplicated \<and> ob_state p \<noteq> ObFailed \<and> ob_state p \<noteq> ObCancelled"
  by (cases rule: op_change.cases) (auto simp: op_in_flight_def op_claimable_def)

lemma op_change_moves:
  "op_change jd now w db p p' \<Longrightarrow> same_place p p' \<and> ob_revision p' = ob_revision p + 1 \<and>
     ob_attempt_count p \<le> ob_attempt_count p'"
  by (erule op_change.cases) (auto simp: op_changes same_place_def same_op_def)

lemma op_change_activated: "op_change jd now w db p p' \<Longrightarrow> activated (ob_state p) \<Longrightarrow> activated (ob_state p')"
  by (cases rule: op_change.cases) (auto simp: op_changes op_in_flight_def)

lemma op_change_le:
  assumes "op_change jd now w db p p'"
  shows "op_le p p'"
  using op_change_open [OF assms] op_change_moves [OF assms] op_change_activated [OF assms]
  unfolding op_le_def same_place_def by simp

lemma op_revived_le:
  "p \<in> set db \<Longrightarrow> ob_state p = ObCancelled \<Longrightarrow> op_le p (op_revived now (next_sequence db) esq p)"
  using next_sequence_gt [of p db] by (simp add: op_le_def op_revived_def same_op_def)

lemma written_extends:
  assumes "op_written i p p' db db'" and "distinct (map ob_operation_id db)" and "op_le p p'"
  shows "outbox_extends db db'"
  unfolding outbox_extends_def
proof
  fix q assume q: "q \<in> set db"
  note m = op_written_map [OF assms(1,2)]
  show "\<exists>q' \<in> set db'. op_le q q'"
  proof (cases "ob_operation_id q = i")
    case True
    with q m(1,2) assms(2) have "q = p" by (auto simp: distinct_map dest: inj_onD)
    with assms(3) written_set [OF assms(1,2)] show ?thesis by blast
  next
    case False
    with q written_set [OF assms(1,2)] op_le_refl show ?thesis by blast
  qed
qed

lemma outbox_extends_refl [simp]: "outbox_extends db db"
  unfolding outbox_extends_def using op_le_refl by blast

lemma outbox_exec_extends:
  assumes "outbox_inv db"
  shows "outbox_extends db (outbox_exec jd c db)"
proof -
  have d: "distinct (map ob_operation_id db)" using assms by (simp add: outbox_inv_def)
  from outbox_exec_refines [OF d, of jd c] show ?thesis
  proof
    assume "outbox_exec jd c db = db"
    then show ?thesis by simp
  next
    assume "outbox_step jd (env_now (outbox_call_env c)) db (outbox_exec jd c db)"
    then show ?thesis
    proof (cases rule: outbox_step.cases)
      case (os_insert p)
      then have "outbox_exec jd c db = db @ [p\<lparr>ob_sequence := next_sequence db\<rparr>]"
        by (simp add: insert_operation_def split: if_splits)
      then have "set db \<subseteq> set (outbox_exec jd c db)" by auto
      then show ?thesis unfolding outbox_extends_def using op_le_refl by blast
    next
      case (os_write i p p' w)
      then show ?thesis using written_extends [OF _ d] op_change_le by blast
    next
      case (os_revive i p)
      then show ?thesis
        using written_extends [OF _ d] op_revived_le op_written_map(1) [OF _ d] by blast
    qed
  qed
qed

interpretation outbox_hist: history_machine "[]" "outbox_exec jd" outbox_inv outbox_extends
  for jd
proof unfold_locales
  show "outbox_inv []" by (simp add: outbox_inv_def)
  show "outbox_inv (outbox_exec jd c s)" if "outbox_inv s" for s c using that by (rule outbox_exec_inv)
  show "outbox_extends s s" for s by simp
  show "outbox_extends s u" if "outbox_extends s t" "outbox_extends t u" for s t u
    using that op_le_trans unfolding outbox_extends_def by meson
  show "outbox_extends s (outbox_exec jd c s)" if "outbox_inv s" for s c
    using that by (rule outbox_exec_extends)
qed

section \<open>The revision-guarded writes as a register\<close>

datatype outbox_write =
  WActivate | WCancel | WClaim rstr int | WRenew rstr int | WAcknowledge rstr
| WRetry rstr rstr int | WFail rstr rstr

fun outbox_cas ::
  "env \<Rightarrow> rstr \<Rightarrow> int \<Rightarrow> outbox_write \<Rightarrow> outbox \<Rightarrow> (storage_error + outbox_operation revisioned_write) \<times> outbox" where
  "outbox_cas e i r WActivate db = activate e db i r"
| "outbox_cas e i r WCancel db = cancel e db i r"
| "outbox_cas e i r (WClaim w ttl) db = claim_by_id e db i w r ttl"
| "outbox_cas e i r (WRenew w ttl) db = outbox_renew_lease e db i w r ttl"
| "outbox_cas e i r (WAcknowledge w) db = acknowledge e db i w r"
| "outbox_cas e i r (WRetry w err retry) db = schedule_retry e db i w r err retry"
| "outbox_cas e i r (WFail w err) db = fail e db i w r err"

fun outbox_write_call :: "env \<Rightarrow> rstr \<Rightarrow> int \<Rightarrow> outbox_write \<Rightarrow> outbox_call" where
  "outbox_write_call e i r WActivate = ObCallActivate e i r"
| "outbox_write_call e i r WCancel = ObCallCancel e i r"
| "outbox_write_call e i r (WClaim w ttl) = ObCallClaimById e i w r ttl"
| "outbox_write_call e i r (WRenew w ttl) = ObCallRenew e i w r ttl"
| "outbox_write_call e i r (WAcknowledge w) = ObCallAcknowledge e i w r"
| "outbox_write_call e i r (WRetry w err retry) = ObCallRetry e i w r err retry"
| "outbox_write_call e i r (WFail w err) = ObCallFail e i w r err"

lemma outbox_cas_call: "snd (outbox_cas e i r a db) = outbox_exec jd (outbox_write_call e i r a) db"
  by (cases a) simp_all

lemma ob_spec_mono: "ob_spec b Q db i r res db' \<Longrightarrow> (\<And>p p'. Q p p' \<Longrightarrow> Q' p p') \<Longrightarrow> ob_spec True Q' db i r res db'"
  by (erule ob_spec.cases) (auto intro: ob_spec.intros)

lemma outcome_mono: "outcome P x \<Longrightarrow> (\<And>r s. P r s \<Longrightarrow> Q r s) \<Longrightarrow> outcome Q x"
  by (simp add: outcome_def)

lemma outbox_cas_outcome:
  "outcome (ob_spec True (\<lambda>p p'. \<exists>w. op_change (\<lambda>t. t) (env_now e) w db p p') db i r) (outbox_cas e i r a db)"
proof -
  have m: "outcome (ob_spec True (\<lambda>p p'. \<exists>w. op_change (\<lambda>t. t) (env_now e) w db p p') db i r) x"
    if "outcome (ob_spec b Q db i r) x" and "\<And>p p'. Q p p' \<Longrightarrow> \<exists>w. op_change (\<lambda>t. t) (env_now e) w db p p'" for b Q x
    by (rule outcome_mono [OF that(1)], erule ob_spec_mono, erule that(2))
  show ?thesis
    by (cases a; simp only: outbox_cas.simps)
      (rule m, rule outbox_outcomes, blast intro: op_change.intros)+
qed

interpretation outbox_register:
  cas_register get_operation ob_revision outbox_cas outbox_inv
proof unfold_locales
  fix e k r a s res s' c and v :: outbox_operation
  assume inv: "outbox_inv s"
  have o: "ob_spec True (\<lambda>p p'. \<exists>w. op_change (\<lambda>t. t) (env_now e) w s p p') s k r res s'"
    if "outbox_cas e k r a s = (res, s')" for res s'
    by (rule outcomeD [OF outbox_cas_outcome that])
  have rev: "ob_revision p' = ob_revision p + 1" if "\<exists>w. op_change (\<lambda>t. t) (env_now e) w s p p'" for p p'
    using that by (auto elim!: op_change.cases simp: op_changes)
  show "s' = s \<and> (res = Inr (Conflict (Some (ob_revision v))) \<or> (\<exists>x. res = Inl x))"
    if "get_operation s k = Some v" "ob_revision v \<noteq> r" "outbox_cas e k r a s = (res, s')"
    using o [OF that(3)] that(1,2) by (cases rule: ob_spec.cases) (auto simp: op_written_def)
  show "get_operation s' k = Some v \<and> (\<exists>u. get_operation s k = Some u \<and> ob_revision u = r \<and>
      (s' = s \<and> v = u \<or> ob_revision v = r + 1))"
    if "outbox_cas e k r a s = (Inr (Applied v), s')"
    using o [OF that] by (cases rule: ob_spec.cases) (auto simp: op_written_get(1) rev dest: op_written_def [THEN iffD1])
  show "s' = s" if "outbox_cas e k r a s = (Inr (Conflict c), s')"
    using o [OF that] by (cases rule: ob_spec.cases) auto
  show "get_operation s' k' = get_operation s k'" if "outbox_cas e k r a s = (res, s')" "k' \<noteq> k" for k'
    using o [OF that(1)] that(2) by (cases rule: ob_spec.cases) (auto simp: op_written_get(2))
  show "outbox_inv s'" if "outbox_cas e k r a s = (res, s')"
    using outbox_exec_inv [OF inv, of "\<lambda>t. t" "outbox_write_call e k r a"] outbox_cas_call [of e k r a s] that
    by simp
qed

end
