(* ===== verification/Outbox_Props.thy ===== *)
theory Outbox_Props
  imports Outbox_Inv Samples
begin

text \<open>
  The properties of the replication outbox: what every reachable table satisfies, in which order
  operations are delivered, who may settle one, and how a repeated enqueue is recognised.
\<close>

text \<open>
  A small outbox on which the properties with hypotheses are evaluated: one ingestion, enqueued,
  activated and leased.
\<close>

definition sample_op :: new_outbox_operation where
  "sample_op = \<lparr>no_created_by = [97], no_idempotency_key = [107], no_mutation_kind = lit ''ingest_file'',
     no_entity_id = [101], no_destination_remote = [100], no_ordering_key = [111],
     no_payload = JObject [(lit ''local'', JObject [(lit ''drawers'', JNull)])], no_max_attempts = 3\<rparr>"

definition sample_op_id :: rstr where
  "sample_op_id = lit ''outbox_'' @ [100]"

definition sample_outbox_calls :: "outbox_call list" where
  "sample_outbox_calls = [ObCallEnqueue (sample_env 1 100) sample_op, ObCallActivate (sample_env 2 200) sample_op_id 0,
     ObCallClaimById (sample_env 3 300) sample_op_id [119] 1 50]"

lemma trim_ingest_file [simp]: "trim (lit ''ingest_file'') = lit ''ingest_file''"
  by (simp add: text_defs is_whitespace_def)

lemma str_len_ingest_file [simp]: "str_len (lit ''ingest_file'') = 11"
  by (simp add: text_defs)

lemmas outbox_eval = sample_op_def sample_op_id_def sample_outbox_calls_def enqueue_def activate_def claim_by_id_def
  claim_next_def take_lease_def with_revision_def bounded_identifier_def nonempty_identifier_def outbox_bounded_json_def
  OUTBOX_MAX_PAYLOAD_BYTES_def MAX_IDENTIFIER_BYTES_def find_operation_by_key_def insert_operation_def get_operation_def
  next_sequence_def next_entity_sequence_def max_or_0_def read_back_def has_predecessor_def

lemma sample_outbox:
  "run_calls (outbox_exec jd) [ObCallEnqueue (sample_env 1 100) sample_op] [] =
     [\<lparr>ob_operation_id = sample_op_id, ob_sequence = 1, ob_created_by = [97], ob_idempotency_key = [107],
       ob_mutation_kind = lit ''ingest_file'', ob_entity_id = [101], ob_destination_remote = [100],
       ob_ordering_key = [111], ob_entity_sequence = 1, ob_state = ObStaged, ob_revision = 0,
       ob_lease_owner = None, ob_lease_expires_at = None, ob_attempt_count = 0, ob_max_attempts = 3,
       ob_retry_after = None, ob_last_error = None, ob_payload = no_payload sample_op, ob_created_at = 1, ob_updated_at = 1\<rparr>]"
  by (simp add: eval_defs outbox_eval)

section \<open>Reachable outboxes\<close>

text \<open>
  C6: In every outbox any calls at any times can reach, the unique columns are unique, exactly the
  leased operations have an owner and an expiry, exactly the retryable ones a retry time, and an
  operation in flight has no unfinished operation before it in its group.
\<close>

theorem outbox_reachable_inv: "outbox_inv (run_calls (outbox_exec jd) cs [])"
  by (rule outbox_hist.reachable_inv)

lemma length_le_1:
  assumes "distinct xs" and "\<And>p q. p \<in> set xs \<Longrightarrow> q \<in> set xs \<Longrightarrow> p = q"
  shows "length xs \<le> 1"
proof (cases xs)
  case (Cons x ys)
  with assms(1) assms(2) [of x "hd ys"] show ?thesis by (cases ys) auto
qed simp

lemma leased_unique:
  assumes "outbox_inv db"
  shows "length (filter (\<lambda>p. ob_state p = ObLeased \<and> ob_destination_remote p = remote \<and> ob_ordering_key p = key) db) \<le> 1"
    (is "length (filter ?P db) \<le> 1")
proof -
  have d: "distinct (filter ?P db)" using assms by (auto simp: outbox_inv_def distinct_map)
  have "p = q" if "p \<in> set (filter ?P db)" "q \<in> set (filter ?P db)" for p q
  proof -
    have "\<not> ob_sequence p < ob_sequence q" "\<not> ob_sequence q < ob_sequence p"
      using assms that unfolding outbox_inv_def blocked_iff by fastforce+
    then have "ob_sequence p = ob_sequence q" by simp
    moreover have "inj_on ob_sequence (set db)" using assms by (simp add: outbox_inv_def distinct_map)
    ultimately show ?thesis using that by (auto dest: inj_onD)
  qed
  with d show ?thesis by (intro length_le_1)
qed

text \<open>
  Delivery is serial in each group: at any time at most one operation with a given destination and
  ordering key is in flight.
\<close>

theorem outbox_serial_delivery:
  "length (filter (\<lambda>p. ob_state p = ObLeased \<and> ob_destination_remote p = remote \<and> ob_ordering_key p = key)
     (run_calls (outbox_exec jd) cs [])) \<le> 1"
  by (rule leased_unique [OF outbox_hist.reachable_inv])

text \<open>
  No call undoes what was recorded: every operation is still there with the same identity, its
  revision, position and attempt count never decrease, an operation once activated is never staged or
  cancelled again, and a replicated or failed one never changes.
\<close>

theorem outbox_history_extends:
  "outbox_extends (run_calls (outbox_exec jd) cs []) (run_calls (outbox_exec jd) (cs @ ds) [])"
  by (rule outbox_hist.reachable_extends)

section \<open>Order of delivery\<close>

text \<open>The operations of a destination a worker could deliver now.\<close>

definition deliverable :: "outbox \<Rightarrow> rstr \<Rightarrow> int \<Rightarrow> outbox_operation list" where
  "deliverable db remote now = filter (\<lambda>p. ob_destination_remote p = remote \<and>
     (ob_state p = ObPending \<or> ob_state p = ObRetryable) \<and> \<not> blocked db p \<and>
     none_or (\<lambda>v. v \<le> now) (ob_retry_after p)) db"

lemma find_sort_key_least:
  "find P (sort_key f xs) = Some x \<Longrightarrow> x \<in> set xs \<and> P x \<and> (\<forall>y \<in> set xs. P y \<longrightarrow> f x \<le> f y)"
proof -
  have "find P ys = Some x \<Longrightarrow> sorted (map f ys) \<Longrightarrow> x \<in> set ys \<and> P x \<and> (\<forall>y \<in> set ys. P y \<longrightarrow> f x \<le> f y)" for ys
    by (induction ys) (auto split: if_splits)
  from this [of "sort_key f xs"] show "find P (sort_key f xs) = Some x \<Longrightarrow> ?thesis" by simp
qed

lemma due_head_Some:
  assumes "due_head db remote now = Some p"
  shows "p \<in> set (deliverable db remote now)"
    and "ob_sequence p = Min (ob_sequence ` set (deliverable db remote now))"
proof -
  from find_sort_key_least [OF assms [unfolded due_head_def claim_heads_def]]
  have h: "p \<in> set (deliverable db remote now)" "\<forall>q \<in> set (deliverable db remote now). ob_sequence p \<le> ob_sequence q"
    by (auto simp: deliverable_def blocked_def)
  then show "p \<in> set (deliverable db remote now)"
    "ob_sequence p = Min (ob_sequence ` set (deliverable db remote now))"
    by (auto intro!: Min_eqI [symmetric])
qed

lemma due_head_None: "due_head db remote now = None \<longleftrightarrow> deliverable db remote now = []"
  by (auto simp: due_head_def claim_heads_def deliverable_def blocked_def find_None_iff filter_empty_conv)

text \<open>
  The batch claim takes the deliverable operation with the least sequence number and leases it to
  the worker until now plus the lease time; it reports no work exactly when nothing is deliverable,
  and an error changes nothing.
\<close>

theorem claim_next_takes_least:
  "case claim_next e (run_calls (outbox_exec jd) cs []) remote w ttl of
     (Inr (Some p'), db') \<Rightarrow>
       (\<exists>p l. p \<in> set (deliverable (run_calls (outbox_exec jd) cs []) remote (env_now e)) \<and>
          ob_sequence p = Min (ob_sequence ` set (deliverable (run_calls (outbox_exec jd) cs []) remote (env_now e))) \<and>
          env_checked_add e (env_now e) ttl = Some l \<and> p' = op_leased (env_now e) w l p \<and>
          get_operation db' (ob_operation_id p) = Some p')
   | (Inr None, db') \<Rightarrow> db' = run_calls (outbox_exec jd) cs [] \<and>
       deliverable (run_calls (outbox_exec jd) cs []) remote (env_now e) = []
   | (Inl x, db') \<Rightarrow> db' = run_calls (outbox_exec jd) cs []"
proof -
  let ?db = "run_calls (outbox_exec jd) cs []"
  have d: "distinct (map ob_operation_id ?db)" using outbox_hist.reachable_inv [of jd cs] by (simp add: outbox_inv_def)
  note o = claim_next_outcome [OF d, where e = e and w = w and ttl = ttl and remote = remote]
  obtain res db' where c: "claim_next e ?db remote w ttl = (res, db')" by (cases "claim_next e ?db remote w ttl")
  from outcomeD [OF o c] show ?thesis
  proof (cases rule: take_spec.cases)
    case (tk_some p p')
    have h: "p \<in> set (deliverable ?db remote (env_now e))"
      "ob_sequence p = Min (ob_sequence ` set (deliverable ?db remote (env_now e)))"
      by (rule due_head_Some [OF tk_some(2)])+
    show ?thesis unfolding c tk_some(1) prod.case sum.case option.case
      using tk_some(3) h op_written_get(1) [OF tk_some(4)] by blast
  qed (simp_all add: c due_head_None)
qed

section \<open>Workers\<close>

fun outbox_worker :: "outbox_call \<Rightarrow> rstr option" where
  "outbox_worker (ObCallClaimNext e remote w ttl) = Some w"
| "outbox_worker (ObCallClaimById e i w r ttl) = Some w"
| "outbox_worker (ObCallRenew e i w r ttl) = Some w"
| "outbox_worker (ObCallAcknowledge e i w r) = Some w"
| "outbox_worker (ObCallRetry e i w r err retry) = Some w"
| "outbox_worker (ObCallFail e i w r err) = Some w"
| "outbox_worker (ObCallReclaim e remote w ttl) = Some w"
| "outbox_worker _ = None"

definition op_lease_live :: "int \<Rightarrow> rstr \<Rightarrow> outbox_operation \<Rightarrow> bool" where
  "op_lease_live now a p \<longleftrightarrow> ob_state p = ObLeased \<and> ob_lease_owner p = Some a \<and>
     opt_holds (\<lambda>v. v > now) (ob_lease_expires_at p)"

lemma ob_spec_frame:
  assumes "ob_spec b Q db j r res db'" and "get_operation db i = Some p" and "\<And>p'. \<not> Q p p'"
  shows "get_operation db' i = Some p"
  using assms(1)
proof (cases rule: ob_spec.cases)
  case (obs_applied q q')
  have "i \<noteq> j"
  proof
    assume "i = j"
    with obs_applied(4) assms(2) have "q = p" by (simp add: op_written_def)
    with obs_applied(3) assms(3) show False by blast
  qed
  with op_written_get(2) [OF obs_applied(4)] assms(2) show ?thesis by simp
qed (use assms(2) in simp_all)

lemma take_spec_frame:
  assumes "take_spec Q db x res db'" and "get_operation db i = Some p" and "\<And>p'. \<not> Q p p'"
  shows "get_operation db' i = Some p"
  using assms(1)
proof (cases rule: take_spec.cases)
  case (tk_some q q')
  have "i \<noteq> ob_operation_id q"
  proof
    assume "i = ob_operation_id q"
    with tk_some(4) assms(2) have "q = p" by (simp add: op_written_def)
    with tk_some(3) assms(3) show False by blast
  qed
  with op_written_get(2) [OF tk_some(4)] assms(2) show ?thesis by simp
qed (use assms(2) in simp_all)

lemma enqueue_spec_frame:
  assumes "enqueue_spec e db input res db'" and "get_operation db i = Some p" and "ob_state p = ObLeased"
  shows "get_operation db' i = Some p"
  using assms(1)
proof (cases rule: enqueue_spec.cases)
  case (eq_new q r)
  from eq_new(3) obtain q' where "db' = db @ [q']" by (auto simp: insert_operation_def split: if_splits)
  with assms(2) show ?thesis by (simp add: get_operation_def find_row_append)
next
  case (eq_revive q q')
  have "i \<noteq> ob_operation_id q"
  proof
    assume "i = ob_operation_id q"
    with eq_revive(6) assms(2) have "q = p" by (simp add: op_written_def)
    with eq_revive(4) assms(3) show False by simp
  qed
  with op_written_get(2) [OF eq_revive(6)] assms(2) show ?thesis by simp
qed (use assms(2) in simp_all)

text \<open>
  While a worker's lease on an operation is live, nothing another caller does changes the
  operation. The recovery of expired leases compares times through SQLite's \<open>julianday\<close>: it respects
  the lease when that does not confuse a later time with an earlier one.
\<close>

theorem outbox_lease_respected:
  assumes "db = run_calls (outbox_exec jd) cs []" and "get_operation db i = Some p"
    and "op_lease_live (env_now (outbox_call_env c)) a p" and "outbox_worker c \<noteq> Some a"
    and "\<And>v. jd v \<le> jd (env_now (outbox_call_env c)) \<Longrightarrow> v \<le> env_now (outbox_call_env c)"
  shows "get_operation (outbox_exec jd c db) i = Some p"
proof -
  have d: "distinct (map ob_operation_id db)"
    using outbox_hist.reachable_inv [of jd cs] by (simp add: outbox_inv_def assms(1))
  note l = assms(3) [unfolded op_lease_live_def opt_holds_iff]
  have ncl: "\<not> op_claimable (env_now (outbox_call_env c)) w db p"
    and nfl: "\<not> op_in_flight (env_now (outbox_call_env c)) w p" if "w \<noteq> a" for w
    using l that by (auto simp: op_claimable_def op_in_flight_def)
  show ?thesis
  proof (cases c)
    case (ObCallEnqueue e input)
    with enqueue_spec_frame [OF enqueue_outcome [unfolded outcome_def] assms(2)] l show ?thesis by simp
  next
    case (ObCallActivate e j r)
    with ob_spec_frame [OF activate_outcome [unfolded outcome_def] assms(2)] l show ?thesis by simp
  next
    case (ObCallCancel e j r)
    with ob_spec_frame [OF cancel_outcome [unfolded outcome_def] assms(2)] l show ?thesis by simp
  next
    case (ObCallClaimNext e remote w ttl)
    with take_spec_frame [OF claim_next_outcome [OF d, unfolded outcome_def] assms(2)] ncl assms(4)
    show ?thesis by simp
  next
    case (ObCallClaimById e j w r ttl)
    with ob_spec_frame [OF claim_by_id_outcome [unfolded outcome_def] assms(2)] ncl assms(4) show ?thesis by simp
  next
    case (ObCallRenew e j w r ttl)
    with ob_spec_frame [OF outbox_renew_lease_outcome [unfolded outcome_def] assms(2)] nfl assms(4)
    show ?thesis by simp
  next
    case (ObCallAcknowledge e j w r)
    with ob_spec_frame [OF acknowledge_outcome [unfolded outcome_def] assms(2)] nfl assms(4) show ?thesis by simp
  next
    case (ObCallRetry e j w r err retry)
    with ob_spec_frame [OF schedule_retry_outcome [unfolded outcome_def] assms(2)] nfl assms(4)
    show ?thesis by simp
  next
    case (ObCallFail e j w r err)
    with ob_spec_frame [OF fail_outcome [unfolded outcome_def] assms(2)] nfl assms(4) show ?thesis by simp
  next
    case (ObCallReclaim e remote w ttl)
    have "\<not> opt_holds (\<lambda>v. jd v \<le> jd (env_now e)) (ob_lease_expires_at p)"
      using l assms(5) ObCallReclaim by fastforce
    with ObCallReclaim take_spec_frame [OF reclaim_outcome [OF d, unfolded outcome_def] assms(2)]
    show ?thesis by simp
  qed
qed

section \<open>Settling an operation\<close>

text \<open>
  A failed attempt never ends the retries: applied, a retry leaves the operation retryable, counts
  one more attempt whatever the advisory maximum is, releases the lease and waits for the time the
  caller gave; it is only made by the holder of a live lease, and refused it changes nothing.
\<close>

theorem schedule_retry_keeps_retrying:
  "case schedule_retry e db i w r err retry of
     (Inr (Applied p'), db') \<Rightarrow>
       get_operation db' i = Some p' \<and> ob_state p' = ObRetryable \<and> ob_retry_after p' = Some retry \<and>
       ob_lease_owner p' = None \<and> ob_lease_expires_at p' = None \<and> ob_last_error p' = Some err \<and>
       (\<exists>p. get_operation db i = Some p \<and> ob_revision p = r \<and> op_in_flight (env_now e) w p \<and>
          ob_attempt_count p' = ob_attempt_count p + 1 \<and> ob_revision p' = r + 1 \<and> same_place p p')
   | (Inr (Conflict c), db') \<Rightarrow> db' = db
   | (Inl x, db') \<Rightarrow> db' = db"
proof (cases "schedule_retry e db i w r err retry")
  case (Pair res db')
  from outcomeD [OF schedule_retry_outcome Pair] show ?thesis
  proof (cases rule: ob_spec.cases)
    case (obs_applied p p')
    from obs_applied(4) have "get_operation db i = Some p" by (simp add: op_written_def)
    moreover have "same_place p p'" using obs_applied(3) by (auto simp: op_retried_def same_place_def same_op_def)
    ultimately show ?thesis
      using obs_applied op_written_get(1) [OF obs_applied(4)] by (simp add: Pair op_retried_def)
  qed (simp_all add: Pair)
qed

text \<open>
  Of two calls that act on the same revision of an operation, at most one changes it: after the
  first one did, the second writes nothing and is answered with the new revision, or is rejected.
\<close>

theorem outbox_no_lost_update:
  assumes "outbox_cas e i r a (run_calls (outbox_exec jd) cs []) = (Inr (Applied p), db1)"
    and "db1 \<noteq> run_calls (outbox_exec jd) cs []" and "outbox_cas e' i r b db1 = (res, db2)"
  shows "db2 = db1 \<and> (res = Inr (Conflict (Some (r + 1))) \<or> (\<exists>x. res = Inl x))"
  by (rule outbox_register.no_lost_update [OF outbox_hist.reachable_inv assms])

section \<open>Replays and compaction\<close>

lemma json_get_insert: "map_of (json_insert k v fs) k' = (if k' = k then Some v else map_of fs k')"
  by (induction k v fs rule: json_insert.induct) auto

text \<open>Whether a payload holds recovery data, and what compaction makes of it.\<close>

fun recovery_data :: "json \<Rightarrow> bool" where
  "recovery_data (JObject fs) =
     (case map_of fs (lit ''local'') of
        Some (JObject loc) \<Rightarrow> map_of loc (lit ''drawers'') \<noteq> None
      | _ \<Rightarrow> False)"
| "recovery_data _ = False"

lemma compact_id: "\<not> recovery_data v \<Longrightarrow> compact_ingestion_payload e v = v"
  by (auto simp: compact_ingestion_payload_def split: json.splits option.splits)

lemma compact_fingerprint:
  assumes "recovery_data v"
  shows "opt_holds (\<lambda>l. json_get l (lit ''effect_hash'') \<noteq> None)
    (json_get (compact_ingestion_payload e v) (lit ''local''))"
proof -
  from assms obtain fs loc where "v = JObject fs" "map_of fs (lit ''local'') = Some (JObject loc)"
    "map_of loc (lit ''drawers'') \<noteq> None"
    by (cases v rule: recovery_data.cases) (auto split: option.splits json.splits)
  then show ?thesis by (simp add: compact_ingestion_payload_def json_get_insert Let_def)
qed

lemma compact_same: "env_blake3_json e = env_blake3_json e' \<Longrightarrow> compact_ingestion_payload e v = compact_ingestion_payload e' v"
  by (auto simp: compact_ingestion_payload_def Let_def split: json.splits option.splits)

text \<open>The payload of an activated operation is the one a replay of its request is compared with.\<close>

lemma replay_payload_activated:
  assumes "env_blake3_json e' = env_blake3_json e" and "ob_mutation_kind q = ob_mutation_kind p"
    and "ob_payload q = (if ob_mutation_kind p = lit ''ingest_file'' then compact_ingestion_payload e v else v)"
  shows "replay_payload e' q v = ob_payload q"
proof (cases "recovery_data v")
  case True
  with assms compact_fingerprint [OF True, of e] compact_same [OF assms(1)] show ?thesis
    by (simp add: replay_payload_def)
next
  case False
  with assms show ?thesis by (simp add: replay_payload_def compact_id)
qed

definition enqueue_accepts :: "env \<Rightarrow> new_outbox_operation \<Rightarrow> bool" where
  "enqueue_accepts e i \<longleftrightarrow> validate_key (no_idempotency_key i) = Inr () \<and>
     bounded_identifier (no_created_by i) (lit ''created_by'') = Inr () \<and>
     bounded_identifier (no_mutation_kind i) (lit ''mutation_kind'') = Inr () \<and>
     nonempty_identifier (no_entity_id i) (lit ''entity_id'') = Inr () \<and>
     bounded_identifier (no_destination_remote i) (lit ''destination_remote'') = Inr () \<and>
     nonempty_identifier (no_ordering_key i) (lit ''ordering_key'') = Inr () \<and>
     outbox_bounded_json e (no_payload i) = Inr () \<and> 1 \<le> no_max_attempts i"

lemma enqueue_replay:
  assumes "enqueue_accepts e i" and "find_operation_by_key db (no_created_by i) (no_idempotency_key i) = Inr (Some p)"
    and "same_mutation e p i" and "ob_state p \<noteq> ObCancelled"
  shows "enqueue e db i = (Inr p, db)"
  using assms by (simp add: enqueue_accepts_def enqueue_def)

lemma find_operation_by_key_reachable:
  assumes "outbox_inv db" and "p \<in> set db"
  shows "find_operation_by_key db (ob_created_by p) (ob_idempotency_key p) = Inr (Some p)"
proof -
  have "find_row (\<lambda>q. op_key q = op_key p) db = Some p"
    using assms by (intro find_row_key) (simp_all add: outbox_inv_def)
  then have "find_row (\<lambda>q. ob_created_by q = ob_created_by p \<and> ob_idempotency_key q = ob_idempotency_key p) db = Some p"
    by (simp add: op_key_def)
  with unique_operation [of db p] assms show ?thesis
    by (simp add: find_operation_by_key_def outbox_inv_def)
qed


section \<open>Witnesses\<close>

theorem outbox_lease_respected_witness:
  "get_operation (outbox_exec (\<lambda>t. t) (ObCallClaimById (sample_env 4 400) sample_op_id [120] 2 50)
     (run_calls (outbox_exec (\<lambda>t. t)) sample_outbox_calls [])) sample_op_id =
   get_operation (run_calls (outbox_exec (\<lambda>t. t)) sample_outbox_calls []) sample_op_id"
proof -
  let ?db = "run_calls (outbox_exec (\<lambda>t. t)) sample_outbox_calls []"
  let ?c = "ObCallClaimById (sample_env 4 400) sample_op_id [120] 2 50"
  obtain p where p: "get_operation ?db sample_op_id = Some p" "ob_state p = ObLeased"
    "ob_lease_owner p = Some [119]" "ob_lease_expires_at p = Some 53"
    by (simp add: eval_defs outbox_eval)
  have "op_lease_live (env_now (outbox_call_env ?c)) [119] p"
    by (simp add: op_lease_live_def p sample_env_def)
  from outbox_lease_respected [OF refl p(1) this] show ?thesis by (simp add: p(1))
qed

theorem outbox_no_lost_update_witness:
  "snd (outbox_cas (sample_env 4 400) sample_op_id 0 WCancel
     (snd (outbox_cas (sample_env 3 300) sample_op_id 0 WActivate
       (run_calls (outbox_exec (\<lambda>t. t)) [ObCallEnqueue (sample_env 1 100) sample_op] [])))) =
   snd (outbox_cas (sample_env 3 300) sample_op_id 0 WActivate
       (run_calls (outbox_exec (\<lambda>t. t)) [ObCallEnqueue (sample_env 1 100) sample_op] []))"
proof -
  let ?db = "run_calls (outbox_exec (\<lambda>t. t)) [ObCallEnqueue (sample_env 1 100) sample_op] []"
  obtain p db1 where 1: "outbox_cas (sample_env 3 300) sample_op_id 0 WActivate ?db = (Inr (Applied p), db1)"
    and d: "map ob_revision db1 = [1]"
    unfolding sample_outbox by (simp add: eval_defs outbox_eval)
  have "map ob_revision ?db = [0]" unfolding sample_outbox by simp
  with d have 2: "db1 \<noteq> ?db" by auto
  obtain res db2 where 3: "outbox_cas (sample_env 4 400) sample_op_id 0 WCancel db1 = (res, db2)"
    by (cases "outbox_cas (sample_env 4 400) sample_op_id 0 WCancel db1")
  from outbox_no_lost_update [OF 1 2 3] show ?thesis unfolding 1 snd_conv 3 by (rule conjunct1)
qed


end
