(* ===== verification/Delegation.thy ===== *)
theory Delegation
  imports Coordination_Contracts "HOL-Library.Product_Lexorder"
begin

text \<open>
  The delegation telemetry, \<open>crates/agentpalace-storage/src/delegation.rs\<close>: spans (the delegated runs,
  a forest), their checkpoints, and the trace export. The tables live in the coordination database,
  whose tasks and artifacts the operations consult, so each operation takes the coordination state
  \<open>cd\<close> as well, which it never changes.
\<close>

section \<open>Types\<close>

definition MAX_SUMMARY_BYTES :: nat where "MAX_SUMMARY_BYTES = 8 * 1024"
definition MAX_SPAN_SUMMARY_BYTES :: nat where "MAX_SPAN_SUMMARY_BYTES = 256 * 1024"
definition MAX_BUDGET_BYTES :: nat where "MAX_BUDGET_BYTES = 64 * 1024"

datatype span_status = SpRunning | SpCompleted | SpFailed | SpCancelled | SpExpired

fun span_status_str :: "span_status \<Rightarrow> rstr" where
  "span_status_str SpRunning = lit ''running''"
| "span_status_str SpCompleted = lit ''completed''"
| "span_status_str SpFailed = lit ''failed''"
| "span_status_str SpCancelled = lit ''cancelled''"
| "span_status_str SpExpired = lit ''expired''"

definition parse_span_status :: "rstr \<Rightarrow> storage_error + span_status" where
  "parse_span_status value =
     (if value = lit ''running'' then Inr SpRunning
      else if value = lit ''completed'' then Inr SpCompleted
      else if value = lit ''failed'' then Inr SpFailed
      else if value = lit ''cancelled'' then Inr SpCancelled
      else if value = lit ''expired'' then Inr SpExpired
      else Inl (Invariant (lit ''unknown span status `'' @ value @ lit ''`'')))"

definition span_terminal :: "span_status \<Rightarrow> bool" where
  "span_terminal s \<longleftrightarrow> s \<noteq> SpRunning"

datatype stop_reason =
  StCompleted | StBudgetExhausted | StMaxDepthReached | StMaxFanOutReached | StCancelled | StError | StHumanStop

fun stop_reason_str :: "stop_reason \<Rightarrow> rstr" where
  "stop_reason_str StCompleted = lit ''completed''"
| "stop_reason_str StBudgetExhausted = lit ''budget_exhausted''"
| "stop_reason_str StMaxDepthReached = lit ''max_depth_reached''"
| "stop_reason_str StMaxFanOutReached = lit ''max_fan_out_reached''"
| "stop_reason_str StCancelled = lit ''cancelled''"
| "stop_reason_str StError = lit ''error''"
| "stop_reason_str StHumanStop = lit ''human_stop''"

definition parse_stop_reason :: "rstr \<Rightarrow> storage_error + stop_reason" where
  "parse_stop_reason value =
     (if value = lit ''completed'' then Inr StCompleted
      else if value = lit ''budget_exhausted'' then Inr StBudgetExhausted
      else if value = lit ''max_depth_reached'' then Inr StMaxDepthReached
      else if value = lit ''max_fan_out_reached'' then Inr StMaxFanOutReached
      else if value = lit ''cancelled'' then Inr StCancelled
      else if value = lit ''error'' then Inr StError
      else if value = lit ''human_stop'' then Inr StHumanStop
      else Inl (Invariant (lit ''unknown stop reason `'' @ value @ lit ''`'')))"

fun status_matches_stop_reason :: "span_status \<Rightarrow> stop_reason \<Rightarrow> bool" where
  "status_matches_stop_reason SpCompleted StCompleted = True"
| "status_matches_stop_reason SpFailed StError = True"
| "status_matches_stop_reason SpFailed StBudgetExhausted = True"
| "status_matches_stop_reason SpFailed StMaxDepthReached = True"
| "status_matches_stop_reason SpFailed StMaxFanOutReached = True"
| "status_matches_stop_reason SpCancelled StCancelled = True"
| "status_matches_stop_reason SpCancelled StHumanStop = True"
| "status_matches_stop_reason SpExpired StBudgetExhausted = True"
| "status_matches_stop_reason _ _ = False"

datatype checkpoint_type = CkTurn | CkToolCall | CkTokenUsage | CkRetry | CkHumanApproval | CkClaim | CkHandoff

fun checkpoint_type_str :: "checkpoint_type \<Rightarrow> rstr" where
  "checkpoint_type_str CkTurn = lit ''turn''"
| "checkpoint_type_str CkToolCall = lit ''tool_call''"
| "checkpoint_type_str CkTokenUsage = lit ''token_usage''"
| "checkpoint_type_str CkRetry = lit ''retry''"
| "checkpoint_type_str CkHumanApproval = lit ''human_approval''"
| "checkpoint_type_str CkClaim = lit ''claim''"
| "checkpoint_type_str CkHandoff = lit ''handoff''"

definition parse_checkpoint_type :: "rstr \<Rightarrow> storage_error + checkpoint_type" where
  "parse_checkpoint_type value =
     (if value = lit ''turn'' then Inr CkTurn
      else if value = lit ''tool_call'' then Inr CkToolCall
      else if value = lit ''token_usage'' then Inr CkTokenUsage
      else if value = lit ''retry'' then Inr CkRetry
      else if value = lit ''human_approval'' then Inr CkHumanApproval
      else if value = lit ''claim'' then Inr CkClaim
      else if value = lit ''handoff'' then Inr CkHandoff
      else Inl (Invariant (lit ''unknown checkpoint type `'' @ value @ lit ''`'')))"

record new_span =
  ns_task_id :: rstr
  ns_parent_span_id :: "rstr option"
  ns_delegator :: rstr
  ns_delegate :: rstr
  ns_budgets :: "json option"
  ns_idempotency_key :: rstr

record span =
  sp_span_id :: rstr
  sp_task_id :: rstr
  sp_parent_span_id :: "rstr option"
  sp_delegator :: rstr
  sp_delegate :: rstr
  sp_depth :: int
  sp_fan_out_index :: int
  sp_budgets :: "json option"
  sp_status :: span_status
  sp_stop_reason :: "stop_reason option"
  sp_closed_by :: "rstr option"
  sp_revision :: int
  sp_started_at :: int
  sp_ended_at :: "int option"

record span_row =
  sr_span :: span
  sr_key :: rstr

record new_checkpoint =
  nc_span_id :: rstr
  nc_checkpoint_type :: checkpoint_type
  nc_summary :: rstr
  nc_artifact_ref :: "rstr option"
  nc_actor :: rstr
  nc_idempotency_key :: rstr

record checkpoint =
  ck_checkpoint_id :: rstr
  ck_sequence :: int
  ck_span_id :: rstr
  ck_checkpoint_type :: checkpoint_type
  ck_summary :: rstr
  ck_artifact_ref :: "rstr option"
  ck_actor :: rstr
  ck_occurred_at :: int

record checkpoint_row =
  cr_checkpoint :: checkpoint
  cr_key :: rstr

record trace_node =
  tn_span :: span
  tn_checkpoints :: "checkpoint list"

record trace =
  tc_root_span_id :: rstr
  tc_nodes :: "trace_node list"

record delegation =
  dg_spans :: "span_row list"
  dg_checkpoints :: "checkpoint_row list"
  dg_seq :: int       \<comment> \<open>last AUTOINCREMENT value of \<open>delegation_checkpoints\<close>\<close>

definition dg_init :: delegation where
  "dg_init = \<lparr>dg_spans = [], dg_checkpoints = [], dg_seq = 0\<rparr>"

section \<open>Row access\<close>

definition get_span :: "delegation \<Rightarrow> rstr \<Rightarrow> span option" where
  "get_span dg i = map_option sr_span (find_row (\<lambda>r. sp_span_id (sr_span r) = i) (dg_spans dg))"

definition require_span :: "delegation \<Rightarrow> rstr \<Rightarrow> storage_error + span" where
  "require_span dg i =
     (case get_span dg i of Some s \<Rightarrow> Inr s | None \<Rightarrow> Inl (Invariant (lit ''span `'' @ i @ lit ''` not found'')))"

definition find_span_by_key :: "delegation \<Rightarrow> rstr \<Rightarrow> rstr \<Rightarrow> storage_error + span option" where
  "find_span_by_key dg actor key =
     (case find_row (\<lambda>r. sp_delegator (sr_span r) = actor \<and> sr_key r = key) (dg_spans dg) of
        None \<Rightarrow> Inr None
      | Some r \<Rightarrow> bindE (require_span dg (sp_span_id (sr_span r))) (\<lambda>s. Inr (Some s)))"

definition get_checkpoint :: "delegation \<Rightarrow> rstr \<Rightarrow> checkpoint option" where
  "get_checkpoint dg i =
     map_option cr_checkpoint (find_row (\<lambda>r. ck_checkpoint_id (cr_checkpoint r) = i) (dg_checkpoints dg))"

definition find_checkpoint_by_key :: "delegation \<Rightarrow> rstr \<Rightarrow> rstr \<Rightarrow> storage_error + checkpoint option" where
  "find_checkpoint_by_key dg actor key =
     (case find_row (\<lambda>r. ck_actor (cr_checkpoint r) = actor \<and> cr_key r = key) (dg_checkpoints dg) of
        None \<Rightarrow> Inr None
      | Some r \<Rightarrow>
          (case get_checkpoint dg (ck_checkpoint_id (cr_checkpoint r)) of
             Some c \<Rightarrow> Inr (Some c)
           | None \<Rightarrow> Inl (Invariant (lit ''checkpoint key points to missing row''))))"

definition require_span_task :: "coord \<Rightarrow> rstr \<Rightarrow> storage_error + unit" where
  "require_span_task cd tid =
     (if find_task cd tid \<noteq> None then Inr ()
      else Inl (Invariant (lit ''task `'' @ tid @ lit ''` not found'')))"

text \<open>Validation; \<open>validate_key\<close> is the same as the coordination store's.\<close>

definition validate_named_actor :: "rstr \<Rightarrow> rstr \<Rightarrow> storage_error + unit" where
  "validate_named_actor value name =
     (if trim value = [] then Inl (Invariant (name @ lit '' must not be empty'')) else Inr ())"

definition bounded_budget :: "env \<Rightarrow> json \<Rightarrow> storage_error + unit" where
  "bounded_budget e v =
     (if env_json_len e v > MAX_BUDGET_BYTES then Inl (Invariant (lit ''budgets exceed 64 KiB'')) else Inr ())"

text \<open>
  SQLite's \<open>LENGTH\<close> of a text: its characters before the first NUL (not its bytes).
\<close>

definition sql_length :: "rstr \<Rightarrow> nat" where
  "sql_length s = length (takeWhile (\<lambda>c. c \<noteq> 0) s)"

section \<open>Spans\<close>

definition insert_span :: "coord \<Rightarrow> span \<Rightarrow> rstr \<Rightarrow> delegation \<Rightarrow> storage_error + delegation" where
  "insert_span cd s key dg =
     (if get_span dg (sp_span_id s) \<noteq> None
      then Inl (Sqlite (UniqueViolation (lit ''delegation_spans.span_id'')))
      else if find_row (\<lambda>r. sp_delegator (sr_span r) = sp_delegator s \<and> sr_key r = key) (dg_spans dg) \<noteq> None
      then Inl (Sqlite (UniqueViolation (lit ''delegation_spans.delegator, delegation_spans.idempotency_key'')))
      else if find_task cd (sp_task_id s) = None
      then Inl (Sqlite (ForeignKeyViolation (lit ''delegation_spans.task_id'')))
      else if opt_holds (\<lambda>p. get_span dg p = None) (sp_parent_span_id s)
      then Inl (Sqlite (ForeignKeyViolation (lit ''delegation_spans.parent_span_id'')))
      else Inr (dg\<lparr>dg_spans := dg_spans dg @ [\<lparr>sr_span = s, sr_key = key\<rparr>]\<rparr>))"

text \<open>The derived depth and fan-out index of a new span.\<close>

definition span_position :: "delegation \<Rightarrow> new_span \<Rightarrow> storage_error + int \<times> int" where
  "span_position dg input =
     (case ns_parent_span_id input of
        Some pid \<Rightarrow>
          bindE (require_span dg pid) (\<lambda>parent.
          if sp_task_id parent \<noteq> ns_task_id input
          then Inl (Invariant (lit ''span `'' @ pid @ lit ''` belongs to task `'' @ sp_task_id parent @
                 lit ''`, not `'' @ ns_task_id input @ lit ''`''))
          else if span_terminal (sp_status parent)
          then Inl (Invariant (lit ''span `'' @ pid @ lit ''` is already '' @
                 span_status_str (sp_status parent) @ lit '' and cannot gain new children''))
          else Inr (sp_depth parent + 1,
                 int (count_rows (\<lambda>r. sp_parent_span_id (sr_span r) = Some pid) (dg_spans dg))))
      | None \<Rightarrow>
          Inr (0, int (count_rows (\<lambda>r. sp_parent_span_id (sr_span r) = None \<and>
                     sp_task_id (sr_span r) = ns_task_id input) (dg_spans dg))))"

definition start_span ::
  "env \<Rightarrow> coord \<Rightarrow> delegation \<Rightarrow> new_span \<Rightarrow> (storage_error + span) \<times> delegation" where
  "start_span e cd dg input =
     try_tx dg (validate_named_actor (ns_delegator input) (lit ''delegator'')) (\<lambda>_.
     try_tx dg (validate_named_actor (ns_delegate input) (lit ''delegate'')) (\<lambda>_.
     try_tx dg (validate_key (ns_idempotency_key input)) (\<lambda>_.
     try_tx dg (opt_check (bounded_budget e) (ns_budgets input)) (\<lambda>_.
     try_tx dg (find_span_by_key dg (ns_delegator input) (ns_idempotency_key input)) (\<lambda>existing.
     case existing of
       Some s \<Rightarrow> (Inr s, dg)
     | None \<Rightarrow>
     try_tx dg (require_span_task cd (ns_task_id input)) (\<lambda>_.
     try_tx dg (span_position dg input) (\<lambda>pos.
     let now = env_now e; i = lit ''span_'' @ env_uuid e 0 in
     try_tx dg (format_time e now) (\<lambda>at.
     try_tx dg (insert_span cd
         \<lparr>sp_span_id = i, sp_task_id = ns_task_id input, sp_parent_span_id = ns_parent_span_id input,
          sp_delegator = ns_delegator input, sp_delegate = ns_delegate input, sp_depth = fst pos,
          sp_fan_out_index = snd pos, sp_budgets = ns_budgets input, sp_status = SpRunning,
          sp_stop_reason = None, sp_closed_by = None, sp_revision = 0, sp_started_at = at,
          sp_ended_at = None\<rparr> (ns_idempotency_key input) dg) (\<lambda>dg1.
     case get_span dg1 i of
       Some s \<Rightarrow> (Inr s, dg1)
     | None \<Rightarrow> (Inl (Invariant (lit ''started span disappeared'')), dg))))))))))"

definition close_span ::
  "env \<Rightarrow> delegation \<Rightarrow> rstr \<Rightarrow> int \<Rightarrow> span_status \<Rightarrow> stop_reason \<Rightarrow> rstr \<Rightarrow>
   (storage_error + span revisioned_write) \<times> delegation" where
  "close_span e dg sid expected status reason actor =
     try_tx dg (validate_named_actor actor (lit ''actor'')) (\<lambda>_.
     if \<not> span_terminal status
     then (Inl (Invariant (lit ''close_span requires a terminal status; `running` is not one'')), dg)
     else if \<not> status_matches_stop_reason status reason
     then (Inl (Invariant (lit ''status `'' @ span_status_str status @
             lit ''` is not consistent with stop_reason `'' @ stop_reason_str reason @ lit ''`'')), dg)
     else
     (case get_span dg sid of
        None \<Rightarrow> (Inr (Conflict None), dg)
      | Some current \<Rightarrow>
          if sp_revision current \<noteq> expected then (Inr (Conflict (Some (sp_revision current))), dg)
          else if span_terminal (sp_status current)
          then (Inl (Invariant (lit ''span `'' @ sid @ lit ''` is already '' @
                  span_status_str (sp_status current) @ lit '' and cannot be closed again'')), dg)
          else
          (let now = env_now e in
           try_tx dg (format_time e now) (\<lambda>at.
           if count_rows (\<lambda>r. sp_span_id (sr_span r) = sid \<and> sp_revision (sr_span r) = expected) (dg_spans dg) \<noteq> 1
           then (Inr (Conflict None), dg)
           else
           (let dg1 = dg\<lparr>dg_spans := update_rows
                  (\<lambda>r. sp_span_id (sr_span r) = sid \<and> sp_revision (sr_span r) = expected)
                  (\<lambda>r. r\<lparr>sr_span := (sr_span r)\<lparr>sp_status := status, sp_stop_reason := Some reason,
                     sp_closed_by := Some actor, sp_revision := sp_revision current + 1,
                     sp_ended_at := Some at\<rparr>\<rparr>) (dg_spans dg)\<rparr> in
            case get_span dg1 sid of
              Some s \<Rightarrow> (Inr (Applied s), dg1)
            | None \<Rightarrow> (Inl (Invariant (lit ''closed span disappeared'')), dg))))))"

section \<open>Checkpoints\<close>

definition insert_checkpoint ::
  "coord \<Rightarrow> checkpoint \<Rightarrow> rstr \<Rightarrow> delegation \<Rightarrow> storage_error + delegation" where
  "insert_checkpoint cd c key dg =
     (if get_checkpoint dg (ck_checkpoint_id c) \<noteq> None
      then Inl (Sqlite (UniqueViolation (lit ''delegation_checkpoints.checkpoint_id'')))
      else if find_row (\<lambda>r. ck_actor (cr_checkpoint r) = ck_actor c \<and> cr_key r = key) (dg_checkpoints dg) \<noteq> None
      then Inl (Sqlite (UniqueViolation (lit ''delegation_checkpoints.actor, delegation_checkpoints.idempotency_key'')))
      else if get_span dg (ck_span_id c) = None
      then Inl (Sqlite (ForeignKeyViolation (lit ''delegation_checkpoints.span_id'')))
      else if opt_holds (\<lambda>a. get_artifact cd a = None) (ck_artifact_ref c)
      then Inl (Sqlite (ForeignKeyViolation (lit ''delegation_checkpoints.artifact_ref'')))
      else Inr (dg\<lparr>dg_checkpoints := dg_checkpoints dg @
                   [\<lparr>cr_checkpoint = c\<lparr>ck_sequence := dg_seq dg + 1\<rparr>, cr_key = key\<rparr>],
                 dg_seq := dg_seq dg + 1\<rparr>))"

text \<open>An artifact a checkpoint refers to must belong to the task of the span.\<close>

definition check_artifact_ref :: "coord \<Rightarrow> span \<Rightarrow> rstr option \<Rightarrow> storage_error + unit" where
  "check_artifact_ref cd s ref =
     (case ref of
        None \<Rightarrow> Inr ()
      | Some aid \<Rightarrow>
          (case get_artifact cd aid of
             Some a \<Rightarrow>
               if a_task_id a = sp_task_id s then Inr ()
               else Inl (Invariant (lit ''artifact `'' @ aid @ lit ''` belongs to task `'' @ a_task_id a @
                      lit ''`, not span task `'' @ sp_task_id s @ lit ''`''))
           | None \<Rightarrow> Inl (Invariant (lit ''artifact `'' @ aid @ lit ''` not found''))))"

text \<open>\<open>SELECT COALESCE(SUM(LENGTH(summary)),0)\<close>.\<close>

definition span_summary_length :: "delegation \<Rightarrow> rstr \<Rightarrow> nat" where
  "span_summary_length dg sid =
     sum_list (map (\<lambda>r. sql_length (ck_summary (cr_checkpoint r)))
       (filter (\<lambda>r. ck_span_id (cr_checkpoint r) = sid) (dg_checkpoints dg)))"

definition append_checkpoint ::
  "env \<Rightarrow> coord \<Rightarrow> delegation \<Rightarrow> new_checkpoint \<Rightarrow> (storage_error + checkpoint) \<times> delegation" where
  "append_checkpoint e cd dg input =
     try_tx dg (validate_named_actor (nc_actor input) (lit ''actor'')) (\<lambda>_.
     try_tx dg (validate_key (nc_idempotency_key input)) (\<lambda>_.
     if str_len (nc_summary input) > MAX_SUMMARY_BYTES
     then (Inl (Invariant (lit ''checkpoint summary exceeds '' @ show_nat MAX_SUMMARY_BYTES @
             lit '' bytes; store the full content as an artifact and reference it instead'')), dg)
     else
     try_tx dg (find_checkpoint_by_key dg (nc_actor input) (nc_idempotency_key input)) (\<lambda>existing.
     case existing of
       Some c \<Rightarrow> (Inr c, dg)
     | None \<Rightarrow>
     try_tx dg (require_span dg (nc_span_id input)) (\<lambda>s.
     if span_terminal (sp_status s)
     then (Inl (Invariant (lit ''span `'' @ nc_span_id input @ lit ''` is already '' @
             span_status_str (sp_status s) @ lit '' and cannot gain new checkpoints'')), dg)
     else
     try_tx dg (check_artifact_ref cd s (nc_artifact_ref input)) (\<lambda>_.
     if span_summary_length dg (nc_span_id input) + str_len (nc_summary input) > MAX_SPAN_SUMMARY_BYTES
     then (Inl (Invariant (lit ''span `'' @ nc_span_id input @ lit ''` has reached its '' @
             show_nat MAX_SPAN_SUMMARY_BYTES @
             lit ''-byte cumulative checkpoint summary bound; store further content as an artifact instead'')), dg)
     else
     (let now = env_now e; i = lit ''checkpoint_'' @ env_uuid e 0 in
     try_tx dg (format_time e now) (\<lambda>at.
     try_tx dg (insert_checkpoint cd
         \<lparr>ck_checkpoint_id = i, ck_sequence = 0, ck_span_id = nc_span_id input,
          ck_checkpoint_type = nc_checkpoint_type input, ck_summary = nc_summary input,
          ck_artifact_ref = nc_artifact_ref input, ck_actor = nc_actor input, ck_occurred_at = at\<rparr>
         (nc_idempotency_key input) dg) (\<lambda>dg1.
     case get_checkpoint dg1 i of
       Some c \<Rightarrow> (Inr c, dg1)
     | None \<Rightarrow> (Inl (Invariant (lit ''appended checkpoint disappeared'')), dg)))))))))"

section \<open>Reads\<close>

definition list_spans_for_task :: "(int \<Rightarrow> rstr) \<Rightarrow> delegation \<Rightarrow> rstr \<Rightarrow> span list" where
  "list_spans_for_task stored dg tid =
     sort_key (\<lambda>s. (stored (sp_started_at s), sp_span_id s))
       (filter (\<lambda>s. sp_task_id s = tid) (map sr_span (dg_spans dg)))"

definition span_children :: "delegation \<Rightarrow> rstr \<Rightarrow> span list" where
  "span_children dg sid =
     sort_key sp_fan_out_index (filter (\<lambda>s. sp_parent_span_id s = Some sid) (map sr_span (dg_spans dg)))"

definition span_checkpoints :: "delegation \<Rightarrow> rstr \<Rightarrow> checkpoint list" where
  "span_checkpoints dg sid =
     sort_key ck_sequence (filter (\<lambda>c. ck_span_id c = sid) (map cr_checkpoint (dg_checkpoints dg)))"

text \<open>
  The work list of \<open>trace\<close>, a \<open>Vec\<close> used as a stack: its last element is popped, the children are
  appended. The loop is not bounded by anything in the code: the value \<open>None\<close> is not returning.
\<close>

partial_function (option) trace_loop :: "delegation \<Rightarrow> span list \<Rightarrow> trace_node list \<Rightarrow> trace_node list option" where
  "trace_loop dg frontier nodes =
     (if frontier = [] then Some nodes
      else let s = last frontier in
        trace_loop dg (butlast frontier @ span_children dg (sp_span_id s))
          (nodes @ [\<lparr>tn_span = s, tn_checkpoints = span_checkpoints dg (sp_span_id s)\<rparr>]))"

definition delegation_trace :: "delegation \<Rightarrow> rstr \<Rightarrow> trace option option" where
  "delegation_trace dg root_id =
     (case get_span dg root_id of
        None \<Rightarrow> Some None
      | Some root \<Rightarrow>
          map_option (\<lambda>nodes. Some \<lparr>tc_root_span_id = root_id,
              tc_nodes = sort_key (\<lambda>n. (sp_depth (tn_span n), sp_started_at (tn_span n))) nodes\<rparr>)
            (trace_loop dg [root] []))"

end
