(* ===== verification/Delegation_Spec.thy ===== *)
theory Delegation_Spec
  imports Delegation
begin

text \<open>
  The branches of the delegation operations, the steps they make on the tables (\<open>dg_step\<close>), and the
  coordination store and its delegation tables as one machine: \<open>dg_call\<close> is a call of either
  component, \<open>dg_exec\<close> runs it on the pair of their states.
\<close>

section \<open>Steps\<close>

definition span_closed :: "span_status \<Rightarrow> stop_reason \<Rightarrow> rstr \<Rightarrow> int \<Rightarrow> int \<Rightarrow> span \<Rightarrow> span" where
  "span_closed st rs a now v s = s\<lparr>sp_status := st, sp_stop_reason := Some rs, sp_closed_by := Some a,
     sp_revision := v, sp_ended_at := Some now\<rparr>"

definition close_rows :: "(span \<Rightarrow> span) \<Rightarrow> rstr \<Rightarrow> int \<Rightarrow> delegation \<Rightarrow> delegation" where
  "close_rows f i v dg = dg\<lparr>dg_spans := update_rows
     (\<lambda>r. sp_span_id (sr_span r) = i \<and> sp_revision (sr_span r) = v) (\<lambda>r. r\<lparr>sr_span := f (sr_span r)\<rparr>) (dg_spans dg)\<rparr>"

text \<open>Siblings: the spans of one parent, or the root spans of one task.\<close>

definition span_group :: "span \<Rightarrow> rstr + rstr" where
  "span_group s = (case sp_parent_span_id s of Some p \<Rightarrow> Inl p | None \<Rightarrow> Inr (sp_task_id s))"

definition group_rows :: "delegation \<Rightarrow> rstr + rstr \<Rightarrow> span list" where
  "group_rows dg g = filter (\<lambda>s. span_group s = g) (map sr_span (dg_spans dg))"

definition fresh_span :: "delegation \<Rightarrow> span \<Rightarrow> bool" where
  "fresh_span dg s \<longleftrightarrow> sp_status s = SpRunning \<and> sp_stop_reason s = None \<and> sp_closed_by s = None \<and>
     sp_ended_at s = None \<and> sp_revision s = 0 \<and> sp_fan_out_index s = int (length (group_rows dg (span_group s))) \<and>
     (case sp_parent_span_id s of
        None \<Rightarrow> sp_depth s = 0
      | Some p \<Rightarrow> (\<exists>q. get_span dg p = Some q \<and> sp_status q = SpRunning \<and> sp_task_id q = sp_task_id s \<and>
          sp_depth s = sp_depth q + 1))"

inductive dg_step :: "coord \<Rightarrow> delegation \<Rightarrow> delegation \<Rightarrow> bool" for cd dg where
  ds_start: "insert_span cd s key dg = Inr dg' \<Longrightarrow> fresh_span dg s \<Longrightarrow> dg_step cd dg dg'"
| ds_checkpoint:
    "insert_checkpoint cd c key dg = Inr dg' \<Longrightarrow> get_span dg (ck_span_id c) = Some s \<Longrightarrow>
     sp_status s = SpRunning \<Longrightarrow> check_artifact_ref cd s (ck_artifact_ref c) = Inr () \<Longrightarrow>
     span_summary_length dg (ck_span_id c) + str_len (ck_summary c) \<le> MAX_SPAN_SUMMARY_BYTES \<Longrightarrow>
     dg_step cd dg dg'"
| ds_close:
    "get_span dg i = Some s \<Longrightarrow> sp_status s = SpRunning \<Longrightarrow> st \<noteq> SpRunning \<Longrightarrow>
     status_matches_stop_reason st rs \<Longrightarrow>
     dg_step cd dg (close_rows (span_closed st rs a now (sp_revision s + 1)) i (sp_revision s) dg)"

inductive_cases dg_stepE: "dg_step cd dg dg'"

section \<open>Branches\<close>

inductive start_spec ::
  "env \<Rightarrow> coord \<Rightarrow> delegation \<Rightarrow> new_span \<Rightarrow> storage_error + span \<Rightarrow> delegation \<Rightarrow> bool"
  for e cd dg input where
  ss_error: "start_spec e cd dg input (Inl x) dg"
| ss_replay:
    "find_span_by_key dg (ns_delegator input) (ns_idempotency_key input) = Inr (Some s) \<Longrightarrow>
     start_spec e cd dg input (Inr s) dg"
| ss_new:
    "insert_span cd s (ns_idempotency_key input) dg = Inr dg' \<Longrightarrow> fresh_span dg s \<Longrightarrow>
     get_span dg' (sp_span_id s) = Some s' \<Longrightarrow> sp_task_id s = ns_task_id input \<Longrightarrow>
     sp_parent_span_id s = ns_parent_span_id input \<Longrightarrow> sp_delegator s = ns_delegator input \<Longrightarrow>
     start_spec e cd dg input (Inr s') dg'"

inductive checkpoint_spec ::
  "env \<Rightarrow> coord \<Rightarrow> delegation \<Rightarrow> new_checkpoint \<Rightarrow> storage_error + checkpoint \<Rightarrow> delegation \<Rightarrow> bool"
  for e cd dg input where
  ck_error: "checkpoint_spec e cd dg input (Inl x) dg"
| ck_replay:
    "find_checkpoint_by_key dg (nc_actor input) (nc_idempotency_key input) = Inr (Some c) \<Longrightarrow>
     checkpoint_spec e cd dg input (Inr c) dg"
| ck_new:
    "insert_checkpoint cd c (nc_idempotency_key input) dg = Inr dg' \<Longrightarrow>
     get_span dg (ck_span_id c) = Some s \<Longrightarrow> sp_status s = SpRunning \<Longrightarrow>
     check_artifact_ref cd s (ck_artifact_ref c) = Inr () \<Longrightarrow>
     span_summary_length dg (ck_span_id c) + str_len (ck_summary c) \<le> MAX_SPAN_SUMMARY_BYTES \<Longrightarrow>
     get_checkpoint dg' (ck_checkpoint_id c) = Some c' \<Longrightarrow> ck_span_id c = nc_span_id input \<Longrightarrow>
     ck_actor c = nc_actor input \<Longrightarrow> checkpoint_spec e cd dg input (Inr c') dg'"

inductive close_spec ::
  "env \<Rightarrow> delegation \<Rightarrow> rstr \<Rightarrow> int \<Rightarrow> span_status \<Rightarrow> stop_reason \<Rightarrow> rstr \<Rightarrow>
   storage_error + span revisioned_write \<Rightarrow> delegation \<Rightarrow> bool"
  for e dg i r st rs a where
  cs_error: "close_spec e dg i r st rs a (Inl x) dg"
| cs_missing: "get_span dg i = None \<Longrightarrow> close_spec e dg i r st rs a (Inr (Conflict None)) dg"
| cs_stale: "get_span dg i = Some s \<Longrightarrow> sp_revision s \<noteq> r \<Longrightarrow>
    close_spec e dg i r st rs a (Inr (Conflict (Some (sp_revision s)))) dg"
| cs_raced: "get_span dg i = Some s \<Longrightarrow> sp_revision s = r \<Longrightarrow> close_spec e dg i r st rs a (Inr (Conflict None)) dg"
| cs_applied:
    "get_span dg i = Some s \<Longrightarrow> sp_revision s = r \<Longrightarrow> sp_status s = SpRunning \<Longrightarrow> st \<noteq> SpRunning \<Longrightarrow>
     status_matches_stop_reason st rs \<Longrightarrow> s' = span_closed st rs a (env_now e) (r + 1) s \<Longrightarrow>
     dg' = close_rows (span_closed st rs a (env_now e) (sp_revision s + 1)) i (sp_revision s) dg \<Longrightarrow>
     get_span dg' i = Some s' \<Longrightarrow> close_spec e dg i r st rs a (Inr (Applied s')) dg'"

lemma require_span_Inr [simp]: "require_span dg i = Inr s \<longleftrightarrow> get_span dg i = Some s"
  by (simp add: require_span_def split: option.splits)

lemma get_span_id: "get_span dg i = Some s \<Longrightarrow> sp_span_id s = i \<and> (\<exists>r \<in> set (dg_spans dg). sr_span r = s)"
  by (auto simp: get_span_def dest: find_row_SomeD)

lemma count_group:
  "count_rows (\<lambda>r. sp_parent_span_id (sr_span r) = Some p) (dg_spans dg) = length (group_rows dg (Inl p))"
  "count_rows (\<lambda>r. sp_parent_span_id (sr_span r) = None \<and> sp_task_id (sr_span r) = t) (dg_spans dg) =
     length (group_rows dg (Inr t))"
  unfolding count_rows_def group_rows_def filter_map length_map
  by (rule arg_cong [where f = length], rule filter_cong; auto simp: span_group_def split: option.splits)+

lemma span_position_Inr:
  assumes "span_position dg input = Inr pos"
  shows "fresh_span dg \<lparr>sp_span_id = i, sp_task_id = ns_task_id input, sp_parent_span_id = ns_parent_span_id input,
          sp_delegator = d, sp_delegate = d', sp_depth = fst pos,
          sp_fan_out_index = snd pos, sp_budgets = b, sp_status = SpRunning,
          sp_stop_reason = None, sp_closed_by = None, sp_revision = 0, sp_started_at = at, sp_ended_at = None\<rparr>"
  using assms
  by (auto simp: span_position_def fresh_span_def bindE_eq_Inr count_group span_group_def span_terminal_def
      split: option.splits if_splits)

lemma start_span_outcome: "outcome (start_spec e cd dg input) (start_span e cd dg input)"
  unfolding start_span_def Let_def
  by (intro outcome)
    ((rule ss_error; fail) | (rule ss_replay; simp; fail) |
     (rule ss_new, assumption, erule span_position_Inr, simp_all; fail))+

lemma append_checkpoint_outcome: "outcome (checkpoint_spec e cd dg input) (append_checkpoint e cd dg input)"
  unfolding append_checkpoint_def Let_def
  by (intro outcome)
    ((rule ck_error; fail) | (rule ck_replay; simp; fail) |
     (rule ck_new, assumption, (simp add: span_terminal_def)+; fail))+

lemma close_rows_get:
  assumes "\<And>s. sp_span_id (f s) = sp_span_id s"
  shows "get_span (close_rows f i v dg) j =
    map_option (\<lambda>s. if sp_span_id s = i \<and> sp_revision s = v then f s else s) (get_span dg j)"
proof -
  have "find_row (\<lambda>r. sp_span_id (sr_span r) = j)
      (update_rows (\<lambda>r. sp_span_id (sr_span r) = i \<and> sp_revision (sr_span r) = v) (\<lambda>r. r\<lparr>sr_span := f (sr_span r)\<rparr>) (dg_spans dg)) =
    map_option (\<lambda>r. if sp_span_id (sr_span r) = i \<and> sp_revision (sr_span r) = v then r\<lparr>sr_span := f (sr_span r)\<rparr> else r)
      (find_row (\<lambda>r. sp_span_id (sr_span r) = j) (dg_spans dg))"
    by (rule find_row_update_rows) (simp add: assms)
  then show ?thesis
    by (simp add: get_span_def close_rows_def option.map_comp) (rule option.map_cong, auto)
qed

lemma cs_appliedI:
  assumes "get_span dg i = Some s" and "sp_revision s = r" and "\<not> span_terminal (sp_status s)"
    and "\<not> \<not> span_terminal st" and "\<not> \<not> status_matches_stop_reason st rs" and "format_time e (env_now e) = Inr at"
    and "get_span (dg\<lparr>dg_spans := update_rows
            (\<lambda>q. sp_span_id (sr_span q) = i \<and> sp_revision (sr_span q) = r)
            (\<lambda>q. q\<lparr>sr_span := (sr_span q)\<lparr>sp_status := st, sp_stop_reason := Some rs, sp_closed_by := Some a,
               sp_revision := sp_revision s + 1, sp_ended_at := Some at\<rparr>\<rparr>) (dg_spans dg)\<rparr>) i = Some v"
  shows "close_spec e dg i r st rs a (Inr (Applied v)) (dg\<lparr>dg_spans := update_rows
            (\<lambda>q. sp_span_id (sr_span q) = i \<and> sp_revision (sr_span q) = r)
            (\<lambda>q. q\<lparr>sr_span := (sr_span q)\<lparr>sp_status := st, sp_stop_reason := Some rs, sp_closed_by := Some a,
               sp_revision := sp_revision s + 1, sp_ended_at := Some at\<rparr>\<rparr>) (dg_spans dg)\<rparr>)"
proof -
  let ?f = "span_closed st rs a (env_now e) (sp_revision s + 1)"
  have at: "at = env_now e" using assms(6) by (rule format_time_InrD)
  have eq: "dg\<lparr>dg_spans := update_rows
            (\<lambda>q. sp_span_id (sr_span q) = i \<and> sp_revision (sr_span q) = r)
            (\<lambda>q. q\<lparr>sr_span := (sr_span q)\<lparr>sp_status := st, sp_stop_reason := Some rs, sp_closed_by := Some a,
               sp_revision := sp_revision s + 1, sp_ended_at := Some at\<rparr>\<rparr>) (dg_spans dg)\<rparr> =
      close_rows ?f i (sp_revision s) dg"
    by (simp add: close_rows_def span_closed_def at assms(2))
  have "get_span (close_rows ?f i (sp_revision s) dg) i = Some (?f s)"
    using assms(1) get_span_id [OF assms(1)] by (subst close_rows_get) (simp_all add: span_closed_def)
  with assms(7) have "v = ?f s" by (simp add: eq)
  with assms cs_applied [of dg i s r st rs v a e] show ?thesis
    unfolding eq by (simp add: span_terminal_def)
qed

lemma close_span_outcome: "outcome (close_spec e dg i r st rs a) (close_span e dg i r st rs a)"
  unfolding close_span_def Let_def
  by (intro outcome) ((auto intro: close_spec.intros; fail) | (rule cs_appliedI; (assumption | simp; fail)))+

end
