(* ===== verification/Delegation_Inv.thy ===== *)
theory Delegation_Inv
  imports Delegation_Spec
begin

text \<open>
  The coordination store and the delegation tables as one machine, its invariant and its history. The
  invariant: the spans form a forest inside the tasks (a child is in its parent's task, one level
  deeper, siblings are numbered from 0 without gaps), every reference resolves, an ended span carries
  a matching reason, and the checkpoint summaries of a span stay within their bound. The history:
  nothing recorded is lost, and an ended span never changes, nor gains children or checkpoints.
\<close>

section \<open>Calls\<close>

datatype dg_call =
  DgCoord coord_call
| DgStart env new_span
| DgCheckpoint env new_checkpoint
| DgClose env rstr int span_status stop_reason rstr

fun dg_exec :: "dg_call \<Rightarrow> coord \<times> delegation \<Rightarrow> coord \<times> delegation" where
  "dg_exec (DgCoord c) (cd, dg) = (coord_exec c cd, dg)"
| "dg_exec (DgStart e i) (cd, dg) = (cd, snd (start_span e cd dg i))"
| "dg_exec (DgCheckpoint e i) (cd, dg) = (cd, snd (append_checkpoint e cd dg i))"
| "dg_exec (DgClose e i r st rs a) (cd, dg) = (cd, snd (close_span e dg i r st rs a))"

lemma dg_exec_cases:
  obtains (coord) c where "dg_exec call (cd, dg) = (coord_exec c cd, dg)"
  | (same) "dg_exec call (cd, dg) = (cd, dg)"
  | (step) dg' where "dg_exec call (cd, dg) = (cd, dg')" and "dg_step cd dg dg'"
proof (cases call)
  case (DgStart e i)
  from start_span_outcome [of e cd dg i] DgStart same step show ?thesis
    by (auto simp: outcome_def elim!: start_spec.cases intro: ds_start)
next
  case (DgCheckpoint e i)
  from append_checkpoint_outcome [of e cd dg i] DgCheckpoint same step show ?thesis
    by (auto simp: outcome_def elim!: checkpoint_spec.cases intro: ds_checkpoint)
next
  case (DgClose e i r st rs a)
  have "snd (close_span e dg i r st rs a) = dg \<or> dg_step cd dg (snd (close_span e dg i r st rs a))"
    using close_span_outcome [of e dg i r st rs a] unfolding outcome_def
    by (cases rule: close_spec.cases) (auto intro: ds_close)
  with DgClose same step show ?thesis by auto
qed (use coord in simp)

section \<open>Invariant\<close>

definition wf_span :: "span \<Rightarrow> bool" where
  "wf_span s \<longleftrightarrow> 0 \<le> sp_depth s \<and>
     (if sp_status s = SpRunning
      then sp_stop_reason s = None \<and> sp_closed_by s = None \<and> sp_ended_at s = None \<and> sp_revision s = 0
      else opt_holds (status_matches_stop_reason (sp_status s)) (sp_stop_reason s) \<and> sp_closed_by s \<noteq> None \<and>
        sp_ended_at s \<noteq> None \<and> sp_revision s = 1)"

definition link_ok :: "delegation \<Rightarrow> span \<Rightarrow> bool" where
  "link_ok dg s \<longleftrightarrow> (case sp_parent_span_id s of
       None \<Rightarrow> sp_depth s = 0
     | Some p \<Rightarrow> (\<exists>q. get_span dg p = Some q \<and> sp_task_id q = sp_task_id s \<and> sp_depth s = sp_depth q + 1))"

definition siblings_ok :: "delegation \<Rightarrow> bool" where
  "siblings_ok dg \<longleftrightarrow> (\<forall>g. map sp_fan_out_index (group_rows dg g) = map int [0..<length (group_rows dg g)])"

definition spans_ok :: "coord \<Rightarrow> delegation \<Rightarrow> bool" where
  "spans_ok cd dg \<longleftrightarrow>
     keyed_table (\<lambda>r. sp_span_id (sr_span r)) (\<lambda>r. (sp_delegator (sr_span r), sr_key r)) (dg_spans dg) \<and>
     (\<forall>r \<in> set (dg_spans dg). wf_span (sr_span r) \<and> link_ok dg (sr_span r) \<and>
        find_task cd (sp_task_id (sr_span r)) \<noteq> None) \<and> siblings_ok dg"

definition checkpoint_ok :: "coord \<Rightarrow> delegation \<Rightarrow> checkpoint \<Rightarrow> bool" where
  "checkpoint_ok cd dg c \<longleftrightarrow> (\<exists>s. get_span dg (ck_span_id c) = Some s \<and>
     (case ck_artifact_ref c of None \<Rightarrow> True
      | Some a \<Rightarrow> (\<exists>art. get_artifact cd a = Some art \<and> a_task_id art = sp_task_id s)))"

definition checkpoints_ok :: "coord \<Rightarrow> delegation \<Rightarrow> bool" where
  "checkpoints_ok cd dg \<longleftrightarrow>
     keyed_table (\<lambda>r. ck_checkpoint_id (cr_checkpoint r)) (\<lambda>r. (ck_actor (cr_checkpoint r), cr_key r)) (dg_checkpoints dg) \<and>
     seq_table (\<lambda>r. ck_sequence (cr_checkpoint r)) (dg_seq dg) (dg_checkpoints dg) \<and>
     (\<forall>r \<in> set (dg_checkpoints dg). checkpoint_ok cd dg (cr_checkpoint r)) \<and>
     (\<forall>i. span_summary_length dg i \<le> MAX_SPAN_SUMMARY_BYTES)"

definition dg_inv :: "coord \<times> delegation \<Rightarrow> bool" where
  "dg_inv s \<longleftrightarrow> coord_inv (fst s) \<and> spans_ok (fst s) (snd s) \<and> checkpoints_ok (fst s) (snd s)"

text \<open>Coordination calls keep the tasks and artifacts the delegation tables refer to.\<close>

lemma coord_keeps_task:
  assumes "coord_inv cd" and "find_task cd i \<noteq> None"
  shows "find_task (coord_exec c cd) i \<noteq> None"
proof -
  from assms(2) obtain r where r: "r \<in> set (cd_tasks cd)" "t_task_id (tr_task r) = i"
    by (auto simp: find_task_def dest: find_row_SomeD)
  from coord_hist.exec_extends [OF assms(1), of c] r(1) obtain r' where
    "r' \<in> set (cd_tasks (coord_exec c cd))" "task_le (tr_task r) (tr_task r')"
    unfolding coord_extends_def rows_le_def task_row_le_def by blast
  with r(2) show ?thesis by (auto simp: find_task_def find_row_None task_le_def same_static_def)
qed

lemma coord_keeps_artifact:
  assumes "coord_inv cd" and "get_artifact cd i = Some a"
  shows "get_artifact (coord_exec c cd) i = Some a"
proof -
  from assms(2) obtain r where r: "r \<in> set (cd_artifacts cd)" "a_artifact_id (ar_artifact r) = i" "ar_artifact r = a"
    by (auto simp: get_artifact_def dest: find_row_SomeD)
  have "r \<in> set (cd_artifacts (coord_exec c cd))"
    using coord_hist.exec_extends [OF assms(1), of c] r(1) by (auto simp: coord_extends_def)
  moreover have "coord_inv (coord_exec c cd)" by (rule coord_hist.exec_inv [OF assms(1)])
  ultimately have "find_row (\<lambda>x. a_artifact_id (ar_artifact x) = a_artifact_id (ar_artifact r)) (cd_artifacts (coord_exec c cd)) = Some r"
    by (intro find_row_key) (simp_all add: coord_inv_def artifacts_ok_def keyed_table_def)
  with r(2,3) show ?thesis by (simp add: get_artifact_def)
qed

lemma dg_coord_inv:
  assumes "dg_inv (cd, dg)"
  shows "dg_inv (coord_exec c cd, dg)"
proof -
  have cd: "coord_inv cd" and s: "spans_ok cd dg" and k: "checkpoints_ok cd dg" using assms by (simp_all add: dg_inv_def)
  have "spans_ok (coord_exec c cd) dg" using s coord_keeps_task [OF cd] by (simp add: spans_ok_def)
  moreover have "checkpoint_ok (coord_exec c cd) dg x" if "checkpoint_ok cd dg x" for x
    using that coord_keeps_artifact [OF cd, of _ _ c]
    by (cases "ck_artifact_ref x") (auto simp: checkpoint_ok_def)
  then have "checkpoints_ok (coord_exec c cd) dg" using k by (simp add: checkpoints_ok_def)
  ultimately show ?thesis using coord_hist.exec_inv [OF cd] by (simp add: dg_inv_def)
qed

text \<open>Links and references only need the spans to keep their task and depth.\<close>

lemma link_ok_mono:
  assumes "link_ok dg s" and "\<And>p q. get_span dg p = Some q \<Longrightarrow>
      \<exists>q'. get_span dg' p = Some q' \<and> sp_task_id q' = sp_task_id q \<and> sp_depth q' = sp_depth q"
    and "sp_parent_span_id s' = sp_parent_span_id s" "sp_task_id s' = sp_task_id s" "sp_depth s' = sp_depth s"
  shows "link_ok dg' s'"
proof (cases "sp_parent_span_id s")
  case (Some p)
  with assms(1) obtain q where q: "get_span dg p = Some q" "sp_task_id q = sp_task_id s" "sp_depth s = sp_depth q + 1"
    by (auto simp: link_ok_def)
  from assms(2) [OF q(1)] q(2,3) assms(3-5) Some show ?thesis by (auto simp: link_ok_def)
qed (use assms in \<open>simp add: link_ok_def\<close>)

lemma checkpoint_ok_mono:
  assumes "checkpoint_ok cd dg c" and "\<And>p q. get_span dg p = Some q \<Longrightarrow>
      \<exists>q'. get_span dg' p = Some q' \<and> sp_task_id q' = sp_task_id q \<and> sp_depth q' = sp_depth q"
  shows "checkpoint_ok cd dg' c"
proof -
  from assms(1) obtain s where s: "get_span dg (ck_span_id c) = Some s"
    "case ck_artifact_ref c of None \<Rightarrow> True | Some a \<Rightarrow> (\<exists>art. get_artifact cd a = Some art \<and> a_task_id art = sp_task_id s)"
    by (auto simp: checkpoint_ok_def)
  from assms(2) [OF s(1)] obtain s' where s': "get_span dg' (ck_span_id c) = Some s'" "sp_task_id s' = sp_task_id s"
    by blast
  with s(2) show ?thesis unfolding checkpoint_ok_def by (intro exI [of _ s']) (simp split: option.splits)
qed

subsection \<open>New spans\<close>

lemma insert_span_Inr:
  assumes "insert_span cd s key dg = Inr dg'"
  shows "dg' = dg\<lparr>dg_spans := dg_spans dg @ [\<lparr>sr_span = s, sr_key = key\<rparr>]\<rparr>"
    and "get_span dg (sp_span_id s) = None"
    and "find_row (\<lambda>r. sp_delegator (sr_span r) = sp_delegator s \<and> sr_key r = key) (dg_spans dg) = None"
    and "find_task cd (sp_task_id s) \<noteq> None"
  using assms by (simp_all add: insert_span_def split: if_splits)

lemma get_span_insert:
  assumes "insert_span cd s key dg = Inr dg'"
  shows "get_span dg' i = (if i = sp_span_id s then Some s else get_span dg i)"
proof (cases "get_span dg i")
  case None
  then show ?thesis using insert_span_Inr [OF assms] by (auto simp: get_span_def find_row_append)
next
  case (Some q)
  then have "i \<noteq> sp_span_id s" using insert_span_Inr(2) [OF assms] by auto
  with Some show ?thesis using insert_span_Inr(1) [OF assms] by (auto simp: get_span_def find_row_append)
qed

lemma group_rows_insert:
  assumes "insert_span cd s key dg = Inr dg'"
  shows "group_rows dg' g = group_rows dg g @ (if span_group s = g then [s] else [])"
  unfolding insert_span_Inr(1) [OF assms] group_rows_def by simp

lemma dg_start_inv:
  assumes inv: "dg_inv (cd, dg)" and i: "insert_span cd s key dg = Inr dg'" and f: "fresh_span dg s"
  shows "dg_inv (cd, dg')"
proof -
  note e = insert_span_Inr [OF i] and g = get_span_insert [OF i]
  have new: "get_span dg (sp_span_id s) = None" by (rule e(2))
  have k: "keyed_table (\<lambda>r. sp_span_id (sr_span r)) (\<lambda>r. (sp_delegator (sr_span r), sr_key r)) (dg_spans dg')"
    unfolding e(1) using inv e(2,3)
    by (auto simp: dg_inv_def spans_ok_def get_span_def intro!: keyed_table_append)
  have keep: "get_span dg' p = Some q" if "get_span dg p = Some q" for p q using that new by (auto simp: g)
  then have keep': "\<exists>q'. get_span dg' p = Some q' \<and> sp_task_id q' = sp_task_id q \<and> sp_depth q' = sp_depth q"
    if "get_span dg p = Some q" for p q using that by blast
  have "wf_span s" using f inv by (auto simp: fresh_span_def wf_span_def dg_inv_def spans_ok_def
      split: option.splits dest!: get_span_id)
  moreover have "link_ok dg' s" using f keep by (fastforce simp: fresh_span_def link_ok_def split: option.splits)
  moreover have "link_ok dg' q" if "link_ok dg q" for q
    by (rule link_ok_mono [OF that keep']) auto
  moreover have "siblings_ok dg'"
    using inv f by (auto simp: siblings_ok_def group_rows_insert [OF i] fresh_span_def dg_inv_def spans_ok_def)
  ultimately have "spans_ok cd dg'" using inv k e(4) by (auto simp: spans_ok_def dg_inv_def e(1))
  moreover have "checkpoint_ok cd dg' c" if "checkpoint_ok cd dg c" for c
    by (rule checkpoint_ok_mono [OF that keep'])
  moreover have "dg_checkpoints dg' = dg_checkpoints dg" "dg_seq dg' = dg_seq dg" by (simp_all add: e(1))
  ultimately show ?thesis using inv by (simp add: dg_inv_def checkpoints_ok_def span_summary_length_def)
qed

subsection \<open>Ended spans\<close>

lemma span_closed_sel [simp]:
  "sp_span_id (span_closed st rs a now v s) = sp_span_id s"
  "sp_parent_span_id (span_closed st rs a now v s) = sp_parent_span_id s"
  "sp_task_id (span_closed st rs a now v s) = sp_task_id s"
  "sp_delegator (span_closed st rs a now v s) = sp_delegator s"
  "sp_depth (span_closed st rs a now v s) = sp_depth s"
  "sp_fan_out_index (span_closed st rs a now v s) = sp_fan_out_index s"
  "sp_started_at (span_closed st rs a now v s) = sp_started_at s"
  "span_group (span_closed st rs a now v s) = span_group s"
  by (simp_all add: span_closed_def span_group_def split: option.splits)

lemma group_rows_close:
  assumes "\<And>s. span_group (f s) = span_group s" and "\<And>s. k (f s) = k s"
  shows "map k (group_rows (close_rows f i v dg) g) = map k (group_rows dg g)"
proof -
  have "map (k \<circ> sr_span) (filter (\<lambda>r. span_group (sr_span r) = g) (dg_spans (close_rows f i v dg))) =
      map (k \<circ> sr_span) (filter (\<lambda>r. span_group (sr_span r) = g) (dg_spans dg))"
    unfolding close_rows_def using assms
    by (simp add: map_filter_update [where h = "\<lambda>r. span_group (sr_span r)" and k = "k \<circ> sr_span"])
  then show ?thesis by (simp add: group_rows_def filter_map comp_def)
qed

lemma dg_close_inv:
  assumes inv: "dg_inv (cd, dg)" and s: "get_span dg i = Some s" "sp_status s = SpRunning"
    and st: "st \<noteq> SpRunning" "status_matches_stop_reason st rs"
  shows "dg_inv (cd, close_rows (span_closed st rs a now (sp_revision s + 1)) i (sp_revision s) dg)"
    (is "dg_inv (cd, ?dg)")
proof -
  let ?f = "span_closed st rs a now (sp_revision s + 1)"
  have rows: "dg_spans ?dg = update_rows (\<lambda>r. sp_span_id (sr_span r) = i \<and> sp_revision (sr_span r) = sp_revision s)
      (\<lambda>r. r\<lparr>sr_span := ?f (sr_span r)\<rparr>) (dg_spans dg)" by (simp add: close_rows_def)
  have g: "get_span ?dg j = map_option (\<lambda>q. if sp_span_id q = i \<and> sp_revision q = sp_revision s then ?f q else q) (get_span dg j)" for j
    by (rule close_rows_get) simp
  have s0: "sp_revision s = 0" using inv s by (auto simp: dg_inv_def spans_ok_def wf_span_def dest!: get_span_id)
  have keep: "\<exists>q'. get_span ?dg p = Some q' \<and> sp_task_id q' = sp_task_id q \<and> sp_depth q' = sp_depth q"
    if "get_span dg p = Some q" for p q using that by (simp add: g)
  have wf: "wf_span (?f q)" if "wf_span q" "sp_revision q = sp_revision s" for q
    using that st s0 by (simp add: wf_span_def span_closed_def split: if_splits)
  have link: "link_ok ?dg q'" if "link_ok dg q" "q' = q \<or> q' = ?f q" for q q'
    by (rule link_ok_mono [OF that(1) keep]) (use that(2) in auto)
  have "keyed_table (\<lambda>r. sp_span_id (sr_span r)) (\<lambda>r. (sp_delegator (sr_span r), sr_key r)) (dg_spans ?dg)"
    unfolding rows by (rule keyed_table_update) (use inv in \<open>auto simp: dg_inv_def spans_ok_def\<close>)
  moreover have "\<forall>r \<in> set (dg_spans ?dg). wf_span (sr_span r) \<and> link_ok ?dg (sr_span r) \<and>
        find_task cd (sp_task_id (sr_span r)) \<noteq> None"
    unfolding rows set_update_rows using inv wf link by (auto simp: dg_inv_def spans_ok_def)
  moreover have "siblings_ok ?dg"
  proof -
    have m: "map sp_fan_out_index (group_rows ?dg gr) = map sp_fan_out_index (group_rows dg gr)" for gr
      by (rule group_rows_close) simp_all
    have "siblings_ok dg" using inv by (simp add: dg_inv_def spans_ok_def)
    with m arg_cong [OF m, of length] show ?thesis unfolding siblings_ok_def length_map by simp
  qed
  ultimately have "spans_ok cd ?dg" by (simp add: spans_ok_def)
  moreover have "checkpoint_ok cd ?dg c" if "checkpoint_ok cd dg c" for c
    by (rule checkpoint_ok_mono [OF that keep])
  moreover have "dg_checkpoints ?dg = dg_checkpoints dg" "dg_seq ?dg = dg_seq dg" by (simp_all add: close_rows_def)
  ultimately show ?thesis using inv by (simp add: dg_inv_def checkpoints_ok_def span_summary_length_def)
qed

subsection \<open>New checkpoints\<close>

lemma insert_checkpoint_Inr:
  assumes "insert_checkpoint cd c key dg = Inr dg'"
  shows "dg' = dg\<lparr>dg_checkpoints := dg_checkpoints dg @ [\<lparr>cr_checkpoint = c\<lparr>ck_sequence := dg_seq dg + 1\<rparr>, cr_key = key\<rparr>],
      dg_seq := dg_seq dg + 1\<rparr>"
    and "get_checkpoint dg (ck_checkpoint_id c) = None"
    and "find_row (\<lambda>r. ck_actor (cr_checkpoint r) = ck_actor c \<and> cr_key r = key) (dg_checkpoints dg) = None"
  using assms by (simp_all add: insert_checkpoint_def split: if_splits)

lemma sql_length_le: "sql_length s \<le> str_len s"
  using length_takeWhile_le [of "\<lambda>c. c \<noteq> 0" s] length_le_str_len [of s] by (simp add: sql_length_def)

lemma dg_checkpoint_inv:
  assumes inv: "dg_inv (cd, dg)" and i: "insert_checkpoint cd c key dg = Inr dg'"
    and s: "get_span dg (ck_span_id c) = Some s" and r: "check_artifact_ref cd s (ck_artifact_ref c) = Inr ()"
    and b: "span_summary_length dg (ck_span_id c) + str_len (ck_summary c) \<le> MAX_SPAN_SUMMARY_BYTES"
  shows "dg_inv (cd, dg')"
proof -
  note e = insert_checkpoint_Inr [OF i]
  have g [simp]: "get_span dg' j = get_span dg j" "group_rows dg' gr = group_rows dg gr" "dg_spans dg' = dg_spans dg" for j gr
    by (simp_all add: get_span_def group_rows_def e(1))
  have "link_ok dg' = link_ok dg" by (rule ext) (simp add: link_ok_def split: option.splits)
  then have "spans_ok cd dg'" using inv by (simp add: dg_inv_def spans_ok_def siblings_ok_def)
  moreover have "checkpoint_ok cd dg' x" if "checkpoint_ok cd dg x" for x using that by (simp add: checkpoint_ok_def)
  moreover have "checkpoint_ok cd dg' (c\<lparr>ck_sequence := n\<rparr>)" for n
    using s r by (auto simp: checkpoint_ok_def check_artifact_ref_def split: option.splits if_splits)
  moreover have "span_summary_length dg' j \<le> MAX_SPAN_SUMMARY_BYTES" for j
    using inv b sql_length_le [of "ck_summary c"]
    by (cases "ck_span_id c = j") (auto simp: span_summary_length_def e(1) dg_inv_def checkpoints_ok_def)
  moreover have "keyed_table (\<lambda>r. ck_checkpoint_id (cr_checkpoint r)) (\<lambda>r. (ck_actor (cr_checkpoint r), cr_key r)) (dg_checkpoints dg')"
    unfolding e(1) using inv e(2,3)
    by (auto simp: dg_inv_def checkpoints_ok_def get_checkpoint_def intro!: keyed_table_append)
  moreover have "seq_table (\<lambda>r. ck_sequence (cr_checkpoint r)) (dg_seq dg') (dg_checkpoints dg')"
    using inv by (auto simp: e(1) dg_inv_def checkpoints_ok_def intro!: seq_table_append)
  ultimately show ?thesis using inv by (auto simp: dg_inv_def checkpoints_ok_def e(1))
qed

lemma dg_exec_inv: "dg_inv s \<Longrightarrow> dg_inv (dg_exec c s)"
proof -
  assume inv: "dg_inv s"
  obtain cd dg where s: "s = (cd, dg)" by (cases s)
  show "dg_inv (dg_exec c s)"
    using dg_exec_cases [of c cd dg]
  proof cases
    case (step dg')
    then show ?thesis using inv unfolding s
      by (auto elim!: dg_stepE intro: dg_start_inv dg_checkpoint_inv dg_close_inv)
  qed (use inv dg_coord_inv s in auto)
qed

section \<open>History\<close>

definition child_ids :: "delegation \<Rightarrow> rstr \<Rightarrow> rstr list" where
  "child_ids dg i = map sp_span_id (filter (\<lambda>s. sp_parent_span_id s = Some i) (map sr_span (dg_spans dg)))"

definition checkpoints_of :: "delegation \<Rightarrow> rstr \<Rightarrow> checkpoint list" where
  "checkpoints_of dg i = filter (\<lambda>c. ck_span_id c = i) (map cr_checkpoint (dg_checkpoints dg))"

definition span_le :: "span \<Rightarrow> span \<Rightarrow> bool" where
  "span_le s s' \<longleftrightarrow> s' = s \<or> sp_status s = SpRunning \<and> (\<exists>st rs a now. st \<noteq> SpRunning \<and>
     s' = span_closed st rs a now (sp_revision s + 1) s)"

definition span_kept :: "delegation \<Rightarrow> delegation \<Rightarrow> span \<Rightarrow> bool" where
  "span_kept dg dg' s \<longleftrightarrow> (\<exists>s'. get_span dg' (sp_span_id s) = Some s' \<and> span_le s s' \<and>
     (sp_status s \<noteq> SpRunning \<longrightarrow> child_ids dg' (sp_span_id s) = child_ids dg (sp_span_id s) \<and>
        checkpoints_of dg' (sp_span_id s) = checkpoints_of dg (sp_span_id s)))"

definition dg_extends :: "coord \<times> delegation \<Rightarrow> coord \<times> delegation \<Rightarrow> bool" where
  "dg_extends s s' \<longleftrightarrow> coord_extends (fst s) (fst s') \<and>
     (\<exists>cs. dg_checkpoints (snd s') = dg_checkpoints (snd s) @ cs) \<and>
     (\<forall>i x. get_span (snd s) i = Some x \<longrightarrow> span_kept (snd s) (snd s') x)"

lemma span_le_id: "span_le s s' \<Longrightarrow> sp_span_id s' = sp_span_id s"
  by (auto simp: span_le_def)

lemma span_kept_refl: "get_span dg i = Some s \<Longrightarrow> span_kept dg dg s"
  using get_span_id [of dg i s] by (simp add: span_kept_def span_le_def)

lemma span_le_trans: "span_le s t \<Longrightarrow> span_le t u \<Longrightarrow> span_le s u"
  by (auto simp: span_le_def span_closed_def)

lemma dg_extends_refl: "dg_extends s s"
  using coord_extends_refl span_kept_refl unfolding dg_extends_def by simp

lemma dg_extends_trans:
  assumes "dg_extends s t" and "dg_extends t u"
  shows "dg_extends s u"
  unfolding dg_extends_def
proof (intro conjI allI impI)
  show "coord_extends (fst s) (fst u)" using assms coord_extends_trans unfolding dg_extends_def by blast
  show "\<exists>cs. dg_checkpoints (snd u) = dg_checkpoints (snd s) @ cs"
    using assms by (auto simp: dg_extends_def)
  fix i x assume "get_span (snd s) i = Some x"
  with assms(1) have k: "span_kept (snd s) (snd t) x" by (simp add: dg_extends_def)
  then obtain y where y: "get_span (snd t) (sp_span_id x) = Some y" "span_le x y" by (auto simp: span_kept_def)
  with assms(2) have k': "span_kept (snd t) (snd u) y" by (simp add: dg_extends_def)
  have yx: "sp_span_id y = sp_span_id x" "sp_status x \<noteq> SpRunning \<Longrightarrow> y = x"
    using y(2) by (auto simp: span_le_def)
  from k' y(2) yx(1) obtain z where "get_span (snd u) (sp_span_id x) = Some z" "span_le x z"
    unfolding span_kept_def using span_le_trans by metis
  with k k' y(1) yx show "span_kept (snd s) (snd u) x" unfolding span_kept_def by auto
qed

lemma child_ids_close:
  assumes "\<And>s. sp_parent_span_id (f s) = sp_parent_span_id s" and "\<And>s. sp_span_id (f s) = sp_span_id s"
  shows "child_ids (close_rows f i v dg) j = child_ids dg j"
proof -
  have "map (\<lambda>r. sp_span_id (sr_span r)) (filter (\<lambda>r. sp_parent_span_id (sr_span r) = Some j) (dg_spans (close_rows f i v dg))) =
      map (\<lambda>r. sp_span_id (sr_span r)) (filter (\<lambda>r. sp_parent_span_id (sr_span r) = Some j) (dg_spans dg))"
    unfolding close_rows_def using assms
    by (simp add: map_filter_update [where h = "\<lambda>r. sp_parent_span_id (sr_span r)"])
  then show ?thesis by (simp add: child_ids_def filter_map comp_def)
qed

lemma dg_step_kept:
  assumes inv: "dg_inv (cd, dg)" and st: "dg_step cd dg dg'" and s: "get_span dg i = Some s"
  shows "span_kept dg dg' s"
  using st
proof (cases rule: dg_step.cases)
  case (ds_start x key)
  note e = insert_span_Inr [OF ds_start(1)]
  have id: "sp_span_id s = i" using get_span_id [OF s] by simp
  have "sp_span_id x \<noteq> i" using e(2) s by auto
  then have "get_span dg' i = Some s" using s by (simp add: get_span_insert [OF ds_start(1)])
  moreover have "child_ids dg' i = child_ids dg i" if "sp_status s \<noteq> SpRunning"
  proof -
    have "sp_parent_span_id x \<noteq> Some i" using ds_start(2) s that by (auto simp: fresh_span_def split: option.splits)
    then show ?thesis by (simp add: child_ids_def e(1))
  qed
  ultimately show ?thesis by (simp add: span_kept_def id span_le_def checkpoints_of_def e(1))
next
  case (ds_checkpoint c key x)
  note e = insert_checkpoint_Inr [OF ds_checkpoint(1)]
  have id: "sp_span_id s = i" using get_span_id [OF s] by simp
  have "get_span dg' i = Some s" using s by (simp add: get_span_def e(1))
  moreover have "ck_span_id c \<noteq> i" if "sp_status s \<noteq> SpRunning" using ds_checkpoint(2,3) s that by auto
  ultimately show ?thesis by (auto simp: span_kept_def id span_le_def checkpoints_of_def child_ids_def e(1))
next
  case (ds_close j x st rs a now)
  let ?f = "span_closed st rs a now (sp_revision x + 1)"
  have id: "sp_span_id s = i" using get_span_id [OF s] by simp
  have g: "get_span dg' i = Some (if i = j \<and> sp_revision s = sp_revision x then ?f s else s)"
    unfolding ds_close(1) using s id by (subst close_rows_get) simp_all
  have "span_le s (if i = j \<and> sp_revision s = sp_revision x then ?f s else s)"
    using ds_close(2-4) s by (auto simp: span_le_def)
  moreover have "checkpoints_of dg' i = checkpoints_of dg i" by (simp add: ds_close(1) checkpoints_of_def close_rows_def)
  moreover have "child_ids dg' i = child_ids dg i" unfolding ds_close(1) by (rule child_ids_close) simp_all
  ultimately show ?thesis using g by (simp add: span_kept_def id)
qed

lemma dg_step_checkpoints: "dg_step cd dg dg' \<Longrightarrow> \<exists>cs. dg_checkpoints dg' = dg_checkpoints dg @ cs"
  by (erule dg_stepE) (auto dest!: insert_span_Inr(1) insert_checkpoint_Inr(1) simp: close_rows_def)

lemma dg_exec_extends: "dg_inv s \<Longrightarrow> dg_extends s (dg_exec c s)"
proof -
  assume inv: "dg_inv s"
  obtain cd dg where s: "s = (cd, dg)" by (cases s)
  show ?thesis
    using dg_exec_cases [of c cd dg]
  proof cases
    case (coord c')
    have "coord_extends cd (coord_exec c' cd)"
      by (rule coord_hist.exec_extends) (use inv s in \<open>simp add: dg_inv_def\<close>)
    with coord s span_kept_refl show ?thesis by (simp add: dg_extends_def)
  next
    case same
    then show ?thesis using dg_extends_refl s by simp
  next
    case (step dg')
    with s inv dg_step_kept dg_step_checkpoints coord_extends_refl show ?thesis
      by (simp add: dg_extends_def)
  qed
qed

interpretation dg_hist: history_machine "(coord_init, dg_init)" dg_exec dg_inv dg_extends
proof unfold_locales
  show "dg_inv (coord_init, dg_init)"
    using coord_hist.init_inv by (simp add: dg_inv_def dg_init_def spans_ok_def checkpoints_ok_def siblings_ok_def
        group_rows_def span_summary_length_def)
qed (fact dg_exec_inv dg_extends_refl dg_extends_trans dg_exec_extends)+

section \<open>Closing as a compare-and-swap\<close>

fun span_cas ::
  "env \<Rightarrow> rstr \<Rightarrow> int \<Rightarrow> span_status \<times> stop_reason \<times> rstr \<Rightarrow> coord \<times> delegation \<Rightarrow>
   (storage_error + span revisioned_write) \<times> coord \<times> delegation" where
  "span_cas e i r (st, rs, a) (cd, dg) = (case close_span e dg i r st rs a of (res, dg') \<Rightarrow> (res, cd, dg'))"

lemma span_cas_spec:
  assumes "span_cas e i r x s = (res, s')"
  shows "fst s' = fst s \<and> close_spec e (snd s) i r (fst x) (fst (snd x)) (snd (snd x)) res (snd s')"
proof -
  obtain st rs a cd dg where "x = (st, rs, a)" "s = (cd, dg)" by (cases x, cases s) auto
  with assms outcomeD [OF close_span_outcome [of e dg i r st rs a]] show ?thesis
    by (auto split: prod.splits)
qed

interpretation span_register: cas_register "\<lambda>s. get_span (snd s)" sp_revision span_cas dg_inv
proof unfold_locales
  fix e i r x s res s' c and v :: span
  assume inv: "dg_inv s"
  note o = span_cas_spec
  have f: "get_span (close_rows (span_closed st rs a now w) i u dg) k = get_span dg k" if "k \<noteq> i" for st rs a now w u dg k i
    using that by (subst close_rows_get) (auto simp: map_option_case split: option.splits dest: get_span_id)
  show "s' = s \<and> (res = Inr (Conflict (Some (sp_revision v))) \<or> (\<exists>x. res = Inl x))"
    if "get_span (snd s) i = Some v" "sp_revision v \<noteq> r" "span_cas e i r x s = (res, s')"
    using o [OF that(3)] that(1,2) by (auto simp: prod_eq_iff elim: close_spec.cases)
  show "get_span (snd s') i = Some v \<and> (\<exists>u. get_span (snd s) i = Some u \<and> sp_revision u = r \<and>
      (s' = s \<and> v = u \<or> sp_revision v = r + 1))"
    if "span_cas e i r x s = (Inr (Applied v), s')"
    using o [OF that] by (auto elim!: close_spec.cases simp: span_closed_def)
  show "s' = s" if "span_cas e i r x s = (Inr (Conflict c), s')"
    using o [OF that] by (auto simp: prod_eq_iff elim: close_spec.cases)
  show "get_span (snd s') k = get_span (snd s) k" if "span_cas e i r x s = (res, s')" "k \<noteq> i" for k
    using o [OF that(1)] f [OF that(2)] by (auto elim!: close_spec.cases)
  show "dg_inv s'" if "span_cas e i r x s = (res, s')"
  proof -
    obtain st rs a cd dg where xs: "x = (st, rs, a)" "s = (cd, dg)" by (cases x, cases s) auto
    with that have "s' = dg_exec (DgClose e i r st rs a) s" by (auto split: prod.splits)
    with dg_exec_inv [OF inv] show ?thesis by simp
  qed
qed

end
