(* ===== verification/Delegation_Trace.thy ===== *)
theory Delegation_Trace
  imports Delegation_Inv
begin

text \<open>
  The trace export: in a forest of spans the work list of \<open>trace\<close> empties, and the nodes it collects
  are the root and its descendants, each once.
\<close>

section \<open>Descendants\<close>

inductive descends :: "delegation \<Rightarrow> span \<Rightarrow> span \<Rightarrow> bool" for dg where
  d_refl: "s \<in> sr_span ` set (dg_spans dg) \<Longrightarrow> descends dg s s"
| d_step: "descends dg a p \<Longrightarrow> s \<in> sr_span ` set (dg_spans dg) \<Longrightarrow> sp_parent_span_id s = Some (sp_span_id p) \<Longrightarrow>
    descends dg a s"

definition span_set :: "delegation \<Rightarrow> span set" where
  "span_set dg = sr_span ` set (dg_spans dg)"

text \<open>A forest: identifiers are unique and a child is one level below its parent.\<close>

definition forest :: "delegation \<Rightarrow> bool" where
  "forest dg \<longleftrightarrow> inj_on sp_span_id (span_set dg) \<and>
     (\<forall>s \<in> span_set dg. \<forall>p \<in> span_set dg. sp_parent_span_id s = Some (sp_span_id p) \<longrightarrow> sp_depth s = sp_depth p + 1) \<and>
     distinct (map sr_span (dg_spans dg))"

lemma spans_ok_forest: "spans_ok cd dg \<Longrightarrow> forest dg"
  unfolding forest_def
proof (intro conjI ballI impI)
  assume ok: "spans_ok cd dg"
  have d: "distinct (map (\<lambda>r. sp_span_id (sr_span r)) (dg_spans dg))" using ok by (simp add: spans_ok_def keyed_table_def)
  then have d': "distinct (map sp_span_id (map sr_span (dg_spans dg)))" by (simp add: comp_def)
  from d' show "distinct (map sr_span (dg_spans dg))" by (rule conjunct1 [OF iffD1 [OF distinct_map]])
  from conjunct2 [OF iffD1 [OF distinct_map d']] show "inj_on sp_span_id (span_set dg)" by (simp add: span_set_def)
  fix s p assume s: "s \<in> span_set dg" "p \<in> span_set dg" "sp_parent_span_id s = Some (sp_span_id p)"
  then have "link_ok dg s" using ok by (auto simp: span_set_def spans_ok_def)
  moreover from s(2) obtain r where r: "r \<in> set (dg_spans dg)" "sr_span r = p" by (auto simp: span_set_def)
  then have "get_span dg (sp_span_id p) = Some p"
    using find_row_key [OF d r(1)] by (simp add: get_span_def)
  ultimately show "sp_depth s = sp_depth p + 1" using s(3) by (simp add: link_ok_def)
qed

lemma descends_set: "descends dg a s \<Longrightarrow> a \<in> span_set dg \<and> s \<in> span_set dg"
  by (induction rule: descends.induct) (auto simp: span_set_def)

lemma descends_depth:
  assumes "forest dg" and "descends dg a s"
  shows "a = s \<or> sp_depth a < sp_depth s"
  using assms(2)
proof (induction rule: descends.induct)
  case (d_step a p s)
  have "sp_depth s = sp_depth p + 1"
    using assms(1) d_step(2,3) descends_set [OF d_step(1)] unfolding forest_def span_set_def by blast
  with d_step.IH show ?case by auto
qed simp

lemma descends_trans: "descends dg b c \<Longrightarrow> descends dg a b \<Longrightarrow> descends dg a c"
  by (induction rule: descends.induct) (auto intro: descends.intros)

text \<open>The ancestors of a span form a chain.\<close>

lemma descends_chain:
  assumes f: "forest dg" and "descends dg a s" and "descends dg b s" and "sp_depth a \<le> sp_depth b"
  shows "descends dg a b"
  using assms(2,3,4)
proof (induction rule: descends.induct)
  case (d_refl s)
  with descends_depth [OF f d_refl(2)] have "b = s" by auto
  with d_refl(1) show ?case by (auto intro: descends.d_refl)
next
  case (d_step a p s)
  show ?case
  proof (cases "b = s")
    case True
    with d_step(1-3) show ?thesis by (auto intro: descends.d_step)
  next
    case False
    with d_step.prems(1) obtain p' where p': "descends dg b p'" "sp_parent_span_id s = Some (sp_span_id p')"
      by (cases rule: descends.cases) auto
    then have "sp_span_id p' = sp_span_id p" using d_step(3) by simp
    with f descends_set [OF p'(1)] descends_set [OF d_step(1)] have "p' = p" by (auto simp: forest_def dest: inj_onD)
    with d_step.IH p'(1) d_step.prems(2) show ?thesis by simp
  qed
qed

lemma span_children_iff: "c \<in> set (span_children dg i) \<longleftrightarrow> c \<in> span_set dg \<and> sp_parent_span_id c = Some i"
  by (auto simp: span_children_def span_set_def)

text \<open>The descendants of a span are the span and the descendants of its children.\<close>

lemma descends_split:
  "descends dg a s \<Longrightarrow> s = a \<or> (\<exists>c \<in> set (span_children dg (sp_span_id a)). descends dg c s)"
proof (induction rule: descends.induct)
  case (d_step a p s)
  then have s: "s \<in> span_set dg" by (simp add: span_set_def)
  from d_step.IH show ?case
  proof
    assume "p = a"
    with d_step(3) s have "s \<in> set (span_children dg (sp_span_id a))" by (simp add: span_children_iff)
    moreover have "descends dg s s" using d_step(2) by (rule d_refl)
    ultimately show ?thesis by blast
  next
    assume "\<exists>c \<in> set (span_children dg (sp_span_id a)). descends dg c p"
    with d_step(2,3) show ?thesis by (blast intro: descends.d_step)
  qed
qed simp

lemma child_descends:
  assumes "a \<in> span_set dg" and "c \<in> set (span_children dg (sp_span_id a))"
  shows "descends dg a c"
  using assms by (auto simp: span_children_iff span_set_def intro: descends.intros)

section \<open>The work list\<close>

definition below :: "delegation \<Rightarrow> span set \<Rightarrow> span set" where
  "below dg fs = {s. \<exists>f \<in> fs. descends dg f s}"

definition frontier_ok :: "delegation \<Rightarrow> span list \<Rightarrow> bool" where
  "frontier_ok dg fs \<longleftrightarrow> set fs \<subseteq> span_set dg \<and> distinct fs \<and>
     (\<forall>f \<in> set fs. \<forall>g \<in> set fs. \<forall>s. descends dg f s \<longrightarrow> descends dg g s \<longrightarrow> f = g)"

lemma finite_below: "finite (below dg fs)"
  by (rule finite_subset [of _ "span_set dg"]) (auto simp: below_def span_set_def dest: descends_set)

lemma frontier_step:
  assumes f: "forest dg" and ok: "frontier_ok dg fs" and ne: "fs \<noteq> []"
  defines "s \<equiv> last fs" and "fs' \<equiv> butlast fs @ span_children dg (sp_span_id (last fs))"
  shows "frontier_ok dg fs'" and "below dg (set fs) = insert s (below dg (set fs'))" and "s \<notin> below dg (set fs')"
proof -
  have fs: "fs = butlast fs @ [s]" using ne by (simp add: s_def)
  have s: "s \<in> set fs" "s \<in> span_set dg" using ok ne by (auto simp: s_def frontier_ok_def)
  have d: "distinct (butlast fs)" "s \<notin> set (butlast fs)"
    using ok fs unfolding frontier_ok_def by (metis distinct_append, metis distinct_append distinct.simps(2) not_distinct_conv_prefix)
  have sub: "g \<in> set fs" if "g \<in> set (butlast fs)" for g using that by (rule in_set_butlastD)
  have disj: "f = g" if "f \<in> set fs" "g \<in> set fs" "descends dg f x" "descends dg g x" for f g x
    using ok that unfolding frontier_ok_def by blast
  have ch: "descends dg s c" "sp_depth c = sp_depth s + 1" "c \<in> span_set dg" if "c \<in> set (span_children dg (sp_span_id s))" for c
    using that s(2) f child_descends [OF s(2) that] by (auto simp: span_children_iff forest_def)
  have cc: "c = c'" if "c \<in> set (span_children dg (sp_span_id s))" "c' \<in> set (span_children dg (sp_span_id s))"
    "descends dg c x" "descends dg c' x" for c c' x
    using descends_depth [OF f descends_chain [OF f that(3,4)]] ch(2) [OF that(1)] ch(2) [OF that(2)] by auto
  have bc: "False" if "g \<in> set (butlast fs)" "c \<in> set (span_children dg (sp_span_id s))" "descends dg g x" "descends dg c x" for g c x
  proof -
    have "descends dg s x" using descends_trans [OF that(4) ch(1) [OF that(2)]] .
    with disj [OF sub [OF that(1)] s(1) that(3)] that(1) d(2) show False by simp
  qed
  have refl: "descends dg g g" if "g \<in> span_set dg" for g using that by (auto simp: span_set_def intro: d_refl)
  have fs': "fs' = butlast fs @ span_children dg (sp_span_id s)" by (simp add: fs'_def s_def)
  have "distinct (span_children dg (sp_span_id s))" using f by (simp add: span_children_def forest_def)
  moreover have "set (butlast fs) \<inter> set (span_children dg (sp_span_id s)) = {}" using bc refl ch(3) by blast
  ultimately have "distinct fs'" using d(1) by (simp add: fs')
  moreover have "set fs' \<subseteq> span_set dg" using ok sub ch(3) unfolding frontier_ok_def fs' by auto
  moreover have "\<forall>f \<in> set fs'. \<forall>g \<in> set fs'. \<forall>x. descends dg f x \<longrightarrow> descends dg g x \<longrightarrow> f = g"
    unfolding fs' set_append using disj sub cc bc by blast
  ultimately show "frontier_ok dg fs'" by (simp add: frontier_ok_def)
  show "below dg (set fs) = insert s (below dg (set fs'))"
  proof (intro equalityI subsetI)
    fix x assume "x \<in> below dg (set fs)"
    then obtain g where g: "g \<in> set fs" "descends dg g x" by (auto simp: below_def)
    show "x \<in> insert s (below dg (set fs'))"
    proof (cases "g = s")
      case True
      with descends_split [OF g(2)] show ?thesis by (auto simp: below_def fs')
    next
      case False
      then have "g \<in> set (butlast fs)" using g(1) fs by (metis Un_iff empty_iff empty_set set_ConsD set_append)
      with g(2) show ?thesis by (auto simp: below_def fs')
    qed
  next
    fix x assume "x \<in> insert s (below dg (set fs'))"
    then show "x \<in> below dg (set fs)"
    proof
      assume "x = s"
      with s refl show ?thesis by (auto simp: below_def)
    next
      assume "x \<in> below dg (set fs')"
      then obtain g where g: "g \<in> set fs'" "descends dg g x" by (auto simp: below_def)
      show ?thesis
      proof (cases "g \<in> set (butlast fs)")
        case True
        with g(2) sub show ?thesis by (auto simp: below_def)
      next
        case False
        with g(1) have "g \<in> set (span_children dg (sp_span_id s))" by (simp add: fs')
        with descends_trans [OF g(2) ch(1)] s(1) show ?thesis by (auto simp: below_def)
      qed
    qed
  qed
  show "s \<notin> below dg (set fs')"
  proof
    assume "s \<in> below dg (set fs')"
    then obtain g where g: "g \<in> set fs'" "descends dg g s" by (auto simp: below_def)
    show False
    proof (cases "g \<in> set (butlast fs)")
      case True
      with disj [OF sub [OF True] s(1) g(2) refl [OF s(2)]] d(2) show False by simp
    next
      case False
      with g(1) have "g \<in> set (span_children dg (sp_span_id s))" by (simp add: fs')
      from ch(2) [OF this] descends_depth [OF f g(2)] show False by auto
    qed
  qed
qed

text \<open>The loop ends, and it collects the spans below the frontier, each once, with their checkpoints.\<close>

lemma trace_loop_correct:
  assumes "forest dg" and "frontier_ok dg fs"
  shows "\<exists>new. trace_loop dg fs nodes = Some (nodes @ new) \<and> distinct (map tn_span new) \<and>
    set (map tn_span new) = below dg (set fs) \<and>
    (\<forall>n \<in> set new. tn_checkpoints n = span_checkpoints dg (sp_span_id (tn_span n)))"
  using assms(2)
proof (induction "card (below dg (set fs))" arbitrary: fs nodes rule: less_induct)
  case less
  show ?case
  proof (cases "fs = []")
    case True
    then show ?thesis by (subst trace_loop.simps) (simp add: below_def)
  next
    case False
    let ?s = "last fs" and ?fs = "butlast fs @ span_children dg (sp_span_id (last fs))"
    let ?n = "\<lparr>tn_span = ?s, tn_checkpoints = span_checkpoints dg (sp_span_id ?s)\<rparr>"
    note st = frontier_step [OF assms(1) less.prems False]
    have "card (below dg (set ?fs)) < card (below dg (set fs))"
      unfolding st(2) using st(3) finite_below by (simp add: card_insert_if)
    from less.hyps [OF this st(1), of "nodes @ [?n]"] obtain new where
      new: "trace_loop dg ?fs (nodes @ [?n]) = Some ((nodes @ [?n]) @ new)" "distinct (map tn_span new)"
      "set (map tn_span new) = below dg (set ?fs)"
      "\<forall>n \<in> set new. tn_checkpoints n = span_checkpoints dg (sp_span_id (tn_span n))"
      by blast
    have "trace_loop dg fs nodes = Some (nodes @ (?n # new))"
      using False new(1) by (subst trace_loop.simps) (simp add: Let_def)
    moreover have "distinct (map tn_span (?n # new))" using new(2,3) st(3) by auto
    moreover have "set (map tn_span (?n # new)) = below dg (set fs)" using new(3) st(2) by simp
    ultimately show ?thesis using new(4) by (intro exI [of _ "?n # new"]) simp
  qed
qed

lemma delegation_trace_correct:
  assumes "forest dg" and "get_span dg i = Some root"
  shows "\<exists>nodes. delegation_trace dg i = Some (Some \<lparr>tc_root_span_id = i, tc_nodes = nodes\<rparr>) \<and>
    distinct (map tn_span nodes) \<and> set (map tn_span nodes) = {s. descends dg root s} \<and>
    sorted (map (\<lambda>n. (sp_depth (tn_span n), sp_started_at (tn_span n))) nodes) \<and>
    map tn_checkpoints nodes = map (\<lambda>n. span_checkpoints dg (sp_span_id (tn_span n))) nodes"
proof -
  have "root \<in> span_set dg" using get_span_id [OF assms(2)] by (auto simp: span_set_def)
  then have "frontier_ok dg [root]" by (simp add: frontier_ok_def)
  from trace_loop_correct [OF assms(1) this, of "[]"] obtain new where
    new: "trace_loop dg [root] [] = Some new" "distinct (map tn_span new)"
      "set (map tn_span new) = below dg {root}"
      "\<forall>n \<in> set new. tn_checkpoints n = span_checkpoints dg (sp_span_id (tn_span n))" by auto
  let ?k = "\<lambda>n. (sp_depth (tn_span n), sp_started_at (tn_span n))"
  have "distinct (map tn_span (sort_key ?k new))" using new(2) by (simp add: distinct_map)
  with new assms(2) show ?thesis
    by (intro exI [of _ "sort_key ?k new"]) (simp add: delegation_trace_def below_def sorted_sort_key)
qed

end
