(* ===== verification/Delegation_Props.thy ===== *)
theory Delegation_Props
  imports Delegation_Trace Samples
begin

text \<open>
  The properties of the delegation telemetry, over any run of coordination and delegation calls.
\<close>

definition sample_span :: new_span where
  "sample_span = \<lparr>ns_task_id = lit ''task_'' @ [100], ns_parent_span_id = None, ns_delegator = [97], ns_delegate = [98],
     ns_budgets = None, ns_idempotency_key = [107]\<rparr>"

definition sample_dg_calls :: "dg_call list" where
  "sample_dg_calls = [DgCoord (CallCreate (sample_env 1 100) sample_task None), DgStart (sample_env 2 200) sample_span,
     DgClose (sample_env 3 300) (lit ''span_'' @ [200]) 0 SpCompleted StCompleted [98]]"

lemmas delegation_eval = sample_span_def sample_dg_calls_def dg_init_def start_span_def close_span_def
  append_checkpoint_def validate_named_actor_def find_span_by_key_def require_span_def get_span_def
  require_span_task_def span_position_def insert_span_def span_terminal_def

text \<open>
  C8: In every state any coordination and delegation calls can reach, the spans form a forest inside the
  tasks: a child is in its parent's task and one level deeper, siblings are numbered 0, 1, 2, ...
  in the order they started, an ended span has a stop reason that fits its status, every task, span and
  artifact reference resolves inside the same task, and the identifiers and keys are unique.
\<close>

theorem delegation_reachable_inv: "dg_inv (run_calls dg_exec cs (coord_init, dg_init))"
  by (rule dg_hist.reachable_inv)

text \<open>
  An ended run stays as it ended: no later call changes its span, gives it another child or adds a
  checkpoint to it.
\<close>

theorem ended_span_frozen:
  assumes "s = run_calls dg_exec cs (coord_init, dg_init)" and "get_span (snd s) i = Some x"
    and "sp_status x \<noteq> SpRunning" and "s' = run_calls dg_exec ds s"
  shows "get_span (snd s') i = Some x \<and> child_ids (snd s') i = child_ids (snd s) i \<and>
    checkpoints_of (snd s') i = checkpoints_of (snd s) i"
proof -
  have "dg_extends s s'"
    using dg_hist.reachable_extends [of cs ds] by (simp add: assms(1,4) run_calls_append)
  with assms(2) have "span_kept (snd s) (snd s') x" by (simp add: dg_extends_def)
  with assms(3) get_span_id [OF assms(2)] show ?thesis by (auto simp: span_kept_def span_le_def)
qed

theorem ended_span_frozen_witness:
  "\<exists>x. get_span (snd (run_calls dg_exec (sample_dg_calls @
       [DgClose (sample_env 4 400) (lit ''span_'' @ [200]) 1 SpFailed StError [98]]) (coord_init, dg_init)))
     (lit ''span_'' @ [200]) = Some x \<and> sp_status x = SpCompleted"
proof -
  let ?s = "run_calls dg_exec sample_dg_calls (coord_init, dg_init)"
  obtain x where x: "get_span (snd ?s) (lit ''span_'' @ [200]) = Some x" "sp_status x = SpCompleted"
    by (simp add: eval_defs delegation_eval)
  have "sp_status x \<noteq> SpRunning" by (simp add: x(2))
  from ended_span_frozen [OF refl x(1) this refl,
      of "[DgClose (sample_env 4 400) (lit ''span_'' @ [200]) 1 SpFailed StError [98]]"] x(2)
  show ?thesis by (auto simp: run_calls_append)
qed

text \<open>
  C9: The trace export always returns, although its loop has no bound: for a known span the nodes are
  that span and its descendants, each once, by depth and start time, each with its checkpoints in
  order; for an unknown one there is no trace.
\<close>

theorem delegation_trace_exact:
  "case get_span (snd (run_calls dg_exec cs (coord_init, dg_init))) i of
     None \<Rightarrow> delegation_trace (snd (run_calls dg_exec cs (coord_init, dg_init))) i = Some None
   | Some root \<Rightarrow> (\<exists>nodes.
       delegation_trace (snd (run_calls dg_exec cs (coord_init, dg_init))) i =
         Some (Some \<lparr>tc_root_span_id = i, tc_nodes = nodes\<rparr>) \<and>
       distinct (map tn_span nodes) \<and>
       set (map tn_span nodes) = {s. descends (snd (run_calls dg_exec cs (coord_init, dg_init))) root s} \<and>
       sorted (map (\<lambda>n. (sp_depth (tn_span n), sp_started_at (tn_span n))) nodes) \<and>
       map tn_checkpoints nodes = map (\<lambda>n. span_checkpoints
          (snd (run_calls dg_exec cs (coord_init, dg_init))) (sp_span_id (tn_span n))) nodes)"
proof -
  let ?s = "run_calls dg_exec cs (coord_init, dg_init)"
  have "forest (snd ?s)"
    using dg_hist.reachable_inv [of cs] spans_ok_forest by (auto simp: dg_inv_def)
  from delegation_trace_correct [OF this, of i] show ?thesis
    by (cases "get_span (snd ?s) i") (simp_all only: option.case delegation_trace_def)
qed

text \<open>A summary that starts with a NUL character counts for nothing, however long it is.\<close>

lemma nul_summary_uncounted:
  "span_summary_length (snd (append_checkpoint e cd dg (input\<lparr>nc_summary := 0 # text\<rparr>))) i = span_summary_length dg i"
proof -
  have "outcome (\<lambda>_ d. span_summary_length d i = span_summary_length dg i)
      (append_checkpoint e cd dg (input\<lparr>nc_summary := 0 # text\<rparr>))"
    unfolding append_checkpoint_def Let_def
    by (intro outcome) (auto simp: insert_checkpoint_def span_summary_length_def sql_length_def split: if_splits)
  then show ?thesis by (simp add: outcome_def)
qed

text \<open>
  The summaries of one run's checkpoints, measured as SQLite's LENGTH measures them (characters
  before the first NUL), never exceed 256 KiB in total. That measure is not the bytes the bound speaks
  of: a checkpoint whose summary starts with a NUL character leaves it as it was, whatever follows.
\<close>

theorem span_summaries_bounded:
  "span_summary_length (snd (run_calls dg_exec cs (coord_init, dg_init))) i \<le> 262144 \<and>
   span_summary_length (snd (append_checkpoint e cd dg (input\<lparr>nc_summary := 0 # text\<rparr>))) i = span_summary_length dg i"
  using dg_hist.reachable_inv [of cs] nul_summary_uncounted
  by (simp add: dg_inv_def checkpoints_ok_def MAX_SPAN_SUMMARY_BYTES_def)

end
