(* ===== verification/Skills.thy ===== *)
theory Skills
  imports Contracts
begin

text \<open>
  The governed skill registry, \<open>crates/agentpalace-storage/src/skills.rs\<close>: proposals of versions, field
  outcomes, promotion, retirement and their audit trail, the listings, and the start-up normalisation
  of stored wings. A confidence is the bit pattern of an \<open>f32\<close>. \<open>stored\<close>, a parameter of the listings
  that sort by a time column, is the text of a stored timestamp, which SQLite compares.
\<close>

section \<open>Types\<close>

datatype skill_status = SkCandidate | SkPromoted | SkSuperseded | SkRetired

fun skill_status_str :: "skill_status \<Rightarrow> rstr" where
  "skill_status_str SkCandidate = lit ''candidate''"
| "skill_status_str SkPromoted = lit ''promoted''"
| "skill_status_str SkSuperseded = lit ''superseded''"
| "skill_status_str SkRetired = lit ''retired''"

definition parse_skill_status :: "rstr \<Rightarrow> storage_error + skill_status" where
  "parse_skill_status value =
     (if value = lit ''candidate'' then Inr SkCandidate
      else if value = lit ''promoted'' then Inr SkPromoted
      else if value = lit ''superseded'' then Inr SkSuperseded
      else if value = lit ''retired'' then Inr SkRetired
      else Inl (Invariant (lit ''unknown skill status `'' @ value @ lit ''`'')))"

fun skill_terminal :: "skill_status \<Rightarrow> bool" where
  "skill_terminal SkSuperseded = True"
| "skill_terminal SkRetired = True"
| "skill_terminal SkCandidate = False"
| "skill_terminal SkPromoted = False"

datatype skill_scope = ScAgent | ScProject | ScOrganization

fun skill_scope_str :: "skill_scope \<Rightarrow> rstr" where
  "skill_scope_str ScAgent = lit ''agent''"
| "skill_scope_str ScProject = lit ''project''"
| "skill_scope_str ScOrganization = lit ''organization''"

definition parse_skill_scope :: "rstr \<Rightarrow> storage_error + skill_scope" where
  "parse_skill_scope value =
     (if value = lit ''agent'' then Inr ScAgent
      else if value = lit ''project'' then Inr ScProject
      else if value = lit ''organization'' then Inr ScOrganization
      else Inl (Invariant (lit ''unknown skill scope `'' @ value @ lit ''`'')))"

fun requires_distinct_review :: "skill_scope \<Rightarrow> bool" where
  "requires_distinct_review ScAgent = False"
| "requires_distinct_review ScProject = True"
| "requires_distinct_review ScOrganization = True"

datatype skill_outcome_result = SoSuccess | SoFailure | SoPartial

fun skill_outcome_str :: "skill_outcome_result \<Rightarrow> rstr" where
  "skill_outcome_str SoSuccess = lit ''success''"
| "skill_outcome_str SoFailure = lit ''failure''"
| "skill_outcome_str SoPartial = lit ''partial''"

definition parse_skill_outcome :: "rstr \<Rightarrow> storage_error + skill_outcome_result" where
  "parse_skill_outcome value =
     (if value = lit ''success'' then Inr SoSuccess
      else if value = lit ''failure'' then Inr SoFailure
      else if value = lit ''partial'' then Inr SoPartial
      else Inl (Invariant (lit ''unknown skill outcome result `'' @ value @ lit ''`'')))"

record new_skill =
  nk_skill_id :: rstr
  nk_scope :: skill_scope
  nk_wing :: "rstr option"
  nk_applicability :: rstr
  nk_instructions_ref :: rstr
  nk_required_capabilities :: "rstr list"
  nk_required_tools :: "rstr list"
  nk_required_permissions :: "rstr list"
  nk_author :: rstr
  nk_provenance :: "json option"
  nk_confidence :: "32 word"
  nk_idempotency_key :: rstr

record skill =
  sk_skill_id :: rstr
  sk_version :: int
  sk_scope :: skill_scope
  sk_wing :: "rstr option"
  sk_status :: skill_status
  sk_applicability :: rstr
  sk_instructions_ref :: rstr
  sk_required_capabilities :: "rstr list"
  sk_required_tools :: "rstr list"
  sk_required_permissions :: "rstr list"
  sk_author :: rstr
  sk_provenance :: "json option"
  sk_confidence :: "32 word"
  sk_supersedes_version :: "int option"
  sk_revision :: int
  sk_created_at :: int
  sk_updated_at :: int

record skill_row =
  kr_skill :: skill
  kr_key :: rstr

record skill_review =
  rv_review_id :: rstr
  rv_skill_id :: rstr
  rv_version :: int
  rv_from_status :: skill_status
  rv_to_status :: skill_status
  rv_reviewer :: rstr
  rv_reason :: rstr
  rv_occurred_at :: int

record new_skill_outcome =
  no_skill_id :: rstr
  no_version :: int
  no_task_id :: "rstr option"
  no_result :: skill_outcome_result
  no_evaluator :: rstr
  no_notes :: rstr
  no_recorded_by :: rstr
  no_outcome_key :: rstr

record skill_outcome =
  so_outcome_id :: rstr
  so_skill_id :: rstr
  so_version :: int
  so_task_id :: "rstr option"
  so_result :: skill_outcome_result
  so_evaluator :: rstr
  so_notes :: rstr
  so_recorded_by :: rstr
  so_recorded_at :: int

record outcome_row =
  or_outcome :: skill_outcome
  or_key :: rstr

record skills =
  sk_rows :: "skill_row list"
  sk_reviews :: "skill_review list"
  sk_outcomes :: "outcome_row list"

definition skills_init :: skills where
  "skills_init = \<lparr>sk_rows = [], sk_reviews = [], sk_outcomes = []\<rparr>"

section \<open>Row access\<close>

definition get_skill :: "skills \<Rightarrow> rstr \<Rightarrow> int \<Rightarrow> skill option" where
  "get_skill db i v =
     map_option kr_skill (find_row (\<lambda>r. sk_skill_id (kr_skill r) = i \<and> sk_version (kr_skill r) = v) (sk_rows db))"

definition require_skill :: "skills \<Rightarrow> rstr \<Rightarrow> int \<Rightarrow> storage_error + skill" where
  "require_skill db i v =
     (case get_skill db i v of Some s \<Rightarrow> Inr s
      | None \<Rightarrow> Inl (Invariant (lit ''skill `'' @ i @ lit ''` version '' @ show_int v @ lit '' not found'')))"

definition find_skill_by_key :: "skills \<Rightarrow> rstr \<Rightarrow> rstr \<Rightarrow> storage_error + skill option" where
  "find_skill_by_key db author key =
     (case find_row (\<lambda>r. sk_author (kr_skill r) = author \<and> kr_key r = key) (sk_rows db) of
        None \<Rightarrow> Inr None
      | Some r \<Rightarrow> bindE (require_skill db (sk_skill_id (kr_skill r)) (sk_version (kr_skill r))) (\<lambda>s. Inr (Some s)))"

definition get_outcome :: "skills \<Rightarrow> rstr \<Rightarrow> skill_outcome option" where
  "get_outcome db i = map_option or_outcome (find_row (\<lambda>r. so_outcome_id (or_outcome r) = i) (sk_outcomes db))"

definition find_outcome_by_key :: "skills \<Rightarrow> rstr \<Rightarrow> rstr \<Rightarrow> storage_error + skill_outcome option" where
  "find_outcome_by_key db actor key =
     (case find_row (\<lambda>r. so_recorded_by (or_outcome r) = actor \<and> or_key r = key) (sk_outcomes db) of
        None \<Rightarrow> Inr None
      | Some r \<Rightarrow>
          (case get_outcome db (so_outcome_id (or_outcome r)) of
             Some v \<Rightarrow> Inr (Some v)
           | None \<Rightarrow> Inl (Invariant (lit ''outcome key points to missing row''))))"

text \<open>The rows of one skill; \<open>SELECT MAX(version)\<close> over them.\<close>

definition skill_versions :: "skills \<Rightarrow> rstr \<Rightarrow> skill list" where
  "skill_versions db i = filter (\<lambda>s. sk_skill_id s = i) (map kr_skill (sk_rows db))"

definition latest_version :: "skills \<Rightarrow> rstr \<Rightarrow> int option" where
  "latest_version db i =
     (case map sk_version (skill_versions db i) of [] \<Rightarrow> None | v # vs \<Rightarrow> Some (Max (set (v # vs))))"

definition find_promoted_version :: "skills \<Rightarrow> rstr \<Rightarrow> storage_error + skill option" where
  "find_promoted_version db i =
     (case sort_key sk_version (filter (\<lambda>s. sk_status s = SkPromoted) (skill_versions db i)) of
        [] \<Rightarrow> Inr None
      | [s] \<Rightarrow> Inr (Some s)
      | ss \<Rightarrow> Inl (Invariant (lit ''skill `'' @ i @ lit ''` has '' @ show_nat (length ss) @
                 lit '' promoted versions; at most one may be authoritative'')))"

section \<open>Proposals\<close>

text \<open>\<open>(0.0..=1.0).contains(c)\<close> on the bits: from +0.0 to 1.0, or -0.0; a NaN is not contained.\<close>

definition confidence_ok :: "32 word \<Rightarrow> bool" where
  "confidence_ok c \<longleftrightarrow> c \<le> 0x3F800000 \<or> c = 0x80000000"

text \<open>The debug text of a stored wing; a normalised wing has no character that would be escaped.\<close>

fun show_wing :: "rstr option \<Rightarrow> rstr" where
  "show_wing None = lit ''None''"
| "show_wing (Some w) = lit ''Some('' @ [34] @ w @ [34] @ lit '')''"

definition skill_wing :: "skill_scope \<Rightarrow> rstr option \<Rightarrow> storage_error + rstr option" where
  "skill_wing scope wing =
     (case (scope, map_option trim wing) of
        (ScProject, None) \<Rightarrow>
          Inl (Invariant (lit ''scope `project` requires a `wing` identifying the owning project''))
      | (ScProject, Some w) \<Rightarrow>
          if w = [] then Inl (Invariant (lit ''scope `project` requires a `wing` identifying the owning project''))
          else bindE (normalize_wing w) (\<lambda>n. Inr (Some n))
      | (_, Some w) \<Rightarrow>
          if w \<noteq> [] then Inl (Invariant (lit ''scope `'' @ skill_scope_str scope @
                 lit ''` is not project-bound and must not carry a wing (got `'' @ w @ lit ''`)''))
          else Inr None
      | (_, None) \<Rightarrow> Inr None)"

definition insert_skill :: "skill \<Rightarrow> rstr \<Rightarrow> skills \<Rightarrow> storage_error + skills" where
  "insert_skill s key db =
     (if get_skill db (sk_skill_id s) (sk_version s) \<noteq> None
      then Inl (Sqlite (UniqueViolation (lit ''skills.skill_id, skills.version'')))
      else if find_row (\<lambda>r. sk_author (kr_skill r) = sk_author s \<and> kr_key r = key) (sk_rows db) \<noteq> None
      then Inl (Sqlite (UniqueViolation (lit ''skills.author, skills.idempotency_key'')))
      else Inr (db\<lparr>sk_rows := sk_rows db @ [\<lparr>kr_skill = s, kr_key = key\<rparr>]\<rparr>))"

text \<open>A later version must stay in the wing of the latest one.\<close>

definition check_same_wing :: "skills \<Rightarrow> rstr \<Rightarrow> int option \<Rightarrow> rstr option \<Rightarrow> storage_error + unit" where
  "check_same_wing db i latest wing =
     (case latest of
        None \<Rightarrow> Inr ()
      | Some v \<Rightarrow> bindE (require_skill db i v) (\<lambda>prior.
          if sk_wing prior \<noteq> wing
          then Inl (Invariant (lit ''skill `'' @ i @ lit ''` is bound to wing '' @ show_wing (sk_wing prior) @
                 lit ''; a new version cannot move it to '' @ show_wing wing))
          else Inr ()))"

definition propose_skill :: "env \<Rightarrow> skills \<Rightarrow> new_skill \<Rightarrow> (storage_error + skill) \<times> skills" where
  "propose_skill e db input =
     try_tx db (validate_actor (nk_author input)) (\<lambda>_.
     try_tx db (validate_key (nk_idempotency_key input)) (\<lambda>_.
     try_tx db (bounded_text (nk_applicability input) (lit ''skill applicability'')) (\<lambda>_.
     try_tx db (bounded_text (nk_instructions_ref input) (lit ''skill instructions_ref'')) (\<lambda>_.
     if \<not> confidence_ok (nk_confidence input)
     then (Inl (Invariant (lit ''confidence must be within 0.0..=1.0'')), db) else
     try_tx db (skill_wing (nk_scope input) (nk_wing input)) (\<lambda>wing.
     try_tx db (find_skill_by_key db (nk_author input) (nk_idempotency_key input)) (\<lambda>existing.
     case existing of
       Some s \<Rightarrow> (Inr s, db)
     | None \<Rightarrow>
     (let latest = latest_version db (nk_skill_id input);
          version = (case latest of Some v \<Rightarrow> v | None \<Rightarrow> 0) + 1 in
     try_tx db (check_same_wing db (nk_skill_id input) latest wing) (\<lambda>_.
     let now = env_now e in
     try_tx db (format_time e now) (\<lambda>at.
     try_tx db (insert_skill
         \<lparr>sk_skill_id = nk_skill_id input, sk_version = version, sk_scope = nk_scope input, sk_wing = wing,
          sk_status = SkCandidate, sk_applicability = nk_applicability input,
          sk_instructions_ref = nk_instructions_ref input,
          sk_required_capabilities = nk_required_capabilities input,
          sk_required_tools = nk_required_tools input,
          sk_required_permissions = nk_required_permissions input, sk_author = nk_author input,
          sk_provenance = nk_provenance input, sk_confidence = nk_confidence input,
          sk_supersedes_version = latest, sk_revision = 0, sk_created_at = at, sk_updated_at = at\<rparr>
         (nk_idempotency_key input) db) (\<lambda>db1.
     case get_skill db1 (nk_skill_id input) version of
       Some s \<Rightarrow> (Inr s, db1)
     | None \<Rightarrow> (Inl (Invariant (lit ''proposed skill disappeared'')), db)))))))))))"

section \<open>Outcomes\<close>

definition insert_outcome :: "skill_outcome \<Rightarrow> rstr \<Rightarrow> skills \<Rightarrow> storage_error + skills" where
  "insert_outcome v key db =
     (if get_outcome db (so_outcome_id v) \<noteq> None
      then Inl (Sqlite (UniqueViolation (lit ''skill_outcomes.outcome_id'')))
      else if find_row (\<lambda>r. so_recorded_by (or_outcome r) = so_recorded_by v \<and> or_key r = key) (sk_outcomes db) \<noteq> None
      then Inl (Sqlite (UniqueViolation (lit ''skill_outcomes.recorded_by, skill_outcomes.idempotency_key'')))
      else if get_skill db (so_skill_id v) (so_version v) = None
      then Inl (Sqlite (ForeignKeyViolation (lit ''skill_outcomes.skill_id, skill_outcomes.version'')))
      else Inr (db\<lparr>sk_outcomes := sk_outcomes db @ [\<lparr>or_outcome = v, or_key = key\<rparr>]\<rparr>))"

definition record_outcome :: "env \<Rightarrow> skills \<Rightarrow> new_skill_outcome \<Rightarrow> (storage_error + skill_outcome) \<times> skills" where
  "record_outcome e db input =
     try_tx db (validate_actor (no_recorded_by input)) (\<lambda>_.
     try_tx db (validate_key (no_outcome_key input)) (\<lambda>_.
     try_tx db (bounded_text (no_notes input) (lit ''skill outcome notes'')) (\<lambda>_.
     try_tx db (find_outcome_by_key db (no_recorded_by input) (no_outcome_key input)) (\<lambda>existing.
     case existing of
       Some v \<Rightarrow> (Inr v, db)
     | None \<Rightarrow>
     try_tx db (require_skill db (no_skill_id input) (no_version input)) (\<lambda>_.
     let now = env_now e; i = lit ''skill_outcome_'' @ env_uuid e 0 in
     try_tx db (format_time e now) (\<lambda>at.
     try_tx db (insert_outcome
         \<lparr>so_outcome_id = i, so_skill_id = no_skill_id input, so_version = no_version input,
          so_task_id = no_task_id input, so_result = no_result input, so_evaluator = no_evaluator input,
          so_notes = no_notes input, so_recorded_by = no_recorded_by input, so_recorded_at = at\<rparr>
         (no_outcome_key input) db) (\<lambda>db1.
     case get_outcome db1 i of
       Some v \<Rightarrow> (Inr v, db1)
     | None \<Rightarrow> (Inl (Invariant (lit ''recorded outcome disappeared'')), db))))))))"

section \<open>Promotion and retirement\<close>

definition insert_review ::
  "env \<Rightarrow> nat \<Rightarrow> rstr \<Rightarrow> int \<Rightarrow> skill_status \<Rightarrow> skill_status \<Rightarrow> rstr \<Rightarrow> rstr \<Rightarrow> int \<Rightarrow> skills \<Rightarrow>
   storage_error + skills" where
  "insert_review e n i v src dst reviewer reason at db =
     bindE (format_time e at) (\<lambda>occurred.
     (let rid = lit ''skill_review_'' @ env_uuid e n in
      if find_row (\<lambda>r. rv_review_id r = rid) (sk_reviews db) \<noteq> None
      then Inl (Sqlite (UniqueViolation (lit ''skill_reviews.review_id'')))
      else if get_skill db i v = None
      then Inl (Sqlite (ForeignKeyViolation (lit ''skill_reviews.skill_id, skill_reviews.version'')))
      else Inr (db\<lparr>sk_reviews := sk_reviews db @
              [\<lparr>rv_review_id = rid, rv_skill_id = i, rv_version = v, rv_from_status = src,
                rv_to_status = dst, rv_reviewer = reviewer, rv_reason = reason, rv_occurred_at = occurred\<rparr>]\<rparr>)))"

text \<open>The UPDATE of a version's status, guarded by \<open>sel\<close>.\<close>

definition set_status :: "(skill \<Rightarrow> bool) \<Rightarrow> skill_status \<Rightarrow> int \<Rightarrow> int \<Rightarrow> skills \<Rightarrow> skills" where
  "set_status sel st revision at db =
     db\<lparr>sk_rows := update_rows (\<lambda>r. sel (kr_skill r))
       (\<lambda>r. r\<lparr>kr_skill := (kr_skill r)\<lparr>sk_status := st, sk_revision := revision, sk_updated_at := at\<rparr>\<rparr>) (sk_rows db)\<rparr>"

definition at_revision :: "rstr \<Rightarrow> int \<Rightarrow> int \<Rightarrow> skill \<Rightarrow> bool" where
  "at_revision i v revision s \<longleftrightarrow> sk_skill_id s = i \<and> sk_version s = v \<and> sk_revision s = revision"

definition count_skills :: "(skill \<Rightarrow> bool) \<Rightarrow> skills \<Rightarrow> nat" where
  "count_skills sel db = count_rows (\<lambda>r. sel (kr_skill r)) (sk_rows db)"

definition supersede_promoted ::
  "env \<Rightarrow> nat \<Rightarrow> skill \<Rightarrow> rstr \<Rightarrow> int \<Rightarrow> int \<Rightarrow> skills \<Rightarrow> storage_error + skills" where
  "supersede_promoted e n prior reviewer promoted_version now db =
     bindE (format_time e now) (\<lambda>at.
     (let sel = (\<lambda>s. at_revision (sk_skill_id prior) (sk_version prior) (sk_revision prior) s \<and> sk_status s = SkPromoted) in
      if count_skills sel db \<noteq> 1
      then Inl (Invariant (lit ''skill `'' @ sk_skill_id prior @ lit ''` version '' @ show_int (sk_version prior) @
             lit '' changed before it could be superseded''))
      else insert_review e n (sk_skill_id prior) (sk_version prior) SkPromoted SkSuperseded reviewer
             (lit ''superseded by version '' @ show_int promoted_version) now
             (set_status sel SkSuperseded (sk_revision prior + 1) at db)))"

text \<open>Who may promote: the stricter of the version's own scope and the displaced version's.\<close>

definition governing_scope :: "skill option \<Rightarrow> skill \<Rightarrow> skill_scope" where
  "governing_scope superseded current =
     (case superseded of
        Some prior \<Rightarrow> if requires_distinct_review (sk_scope prior) then sk_scope prior else sk_scope current
      | None \<Rightarrow> sk_scope current)"

definition has_outcome :: "skills \<Rightarrow> rstr \<Rightarrow> int \<Rightarrow> bool" where
  "has_outcome db i v \<longleftrightarrow> list_ex (\<lambda>r. so_skill_id (or_outcome r) = i \<and> so_version (or_outcome r) = v) (sk_outcomes db)"

definition check_governance :: "skills \<Rightarrow> skill_scope \<Rightarrow> skill \<Rightarrow> rstr \<Rightarrow> storage_error + unit" where
  "check_governance db scope current reviewer =
     (if requires_distinct_review scope then
        if reviewer = sk_author current
        then Inl (Invariant (lit ''scope `'' @ skill_scope_str scope @ lit ''` requires a reviewer distinct from the author''))
        else if \<not> has_outcome db (sk_skill_id current) (sk_version current)
        then Inl (Invariant (lit ''scope `'' @ skill_scope_str scope @
               lit ''` requires at least one recorded outcome before promotion''))
        else Inr ()
      else if reviewer \<noteq> sk_author current
      then Inl (Invariant (lit ''scope `agent` may only be promoted by its author `'' @ sk_author current @ lit ''`''))
      else Inr ())"

definition promote_skill ::
  "env \<Rightarrow> skills \<Rightarrow> rstr \<Rightarrow> int \<Rightarrow> int \<Rightarrow> rstr \<Rightarrow> rstr \<Rightarrow> (storage_error + skill revisioned_write) \<times> skills" where
  "promote_skill e db i v expected reviewer reason =
     try_tx db (validate_actor reviewer) (\<lambda>_.
     case get_skill db i v of
       None \<Rightarrow> (Inr (Conflict None), db)
     | Some current \<Rightarrow>
     if sk_revision current \<noteq> expected then (Inr (Conflict (Some (sk_revision current))), db)
     else if skill_terminal (sk_status current)
     then (Inl (Invariant (lit ''skill `'' @ i @ lit ''` version '' @ show_int v @
             lit '' is terminal and cannot be promoted'')), db)
     else if sk_status current = SkPromoted
     then (Inl (Invariant (lit ''skill `'' @ i @ lit ''` version '' @ show_int v @ lit '' is already promoted'')), db)
     else
     try_tx db (find_promoted_version db i) (\<lambda>superseded.
     try_tx db (check_governance db (governing_scope superseded current) current reviewer) (\<lambda>_.
     let now = env_now e in
     try_tx db (format_time e now) (\<lambda>at.
     if count_skills (at_revision i v expected) db \<noteq> 1 then (Inr (Conflict None), db) else
     try_tx db (insert_review e 0 i v (sk_status current) SkPromoted reviewer reason now
         (set_status (at_revision i v expected) SkPromoted (sk_revision current + 1) at db)) (\<lambda>db1.
     try_tx db (case superseded of None \<Rightarrow> Inr db1
                | Some prior \<Rightarrow> supersede_promoted e 1 prior reviewer v now db1) (\<lambda>db2.
     case get_skill db2 i v of
       Some s \<Rightarrow> (Inr (Applied s), db2)
     | None \<Rightarrow> (Inl (Invariant (lit ''promoted skill disappeared'')), db)))))))"

definition retire_skill ::
  "env \<Rightarrow> skills \<Rightarrow> rstr \<Rightarrow> int \<Rightarrow> int \<Rightarrow> rstr \<Rightarrow> rstr \<Rightarrow> (storage_error + skill revisioned_write) \<times> skills" where
  "retire_skill e db i v expected reviewer reason =
     try_tx db (validate_actor reviewer) (\<lambda>_.
     case get_skill db i v of
       None \<Rightarrow> (Inr (Conflict None), db)
     | Some current \<Rightarrow>
     if sk_revision current \<noteq> expected then (Inr (Conflict (Some (sk_revision current))), db)
     else if skill_terminal (sk_status current)
     then (Inl (Invariant (lit ''skill `'' @ i @ lit ''` version '' @ show_int v @ lit '' is already terminal'')), db)
     else
     (let now = env_now e in
     try_tx db (format_time e now) (\<lambda>at.
     if count_skills (at_revision i v expected) db \<noteq> 1 then (Inr (Conflict None), db) else
     try_tx db (insert_review e 0 i v (sk_status current) SkRetired reviewer reason now
         (set_status (at_revision i v expected) SkRetired (sk_revision current + 1) at db)) (\<lambda>db1.
     case get_skill db1 i v of
       Some s \<Rightarrow> (Inr (Applied s), db1)
     | None \<Rightarrow> (Inl (Invariant (lit ''retired skill disappeared'')), db)))))"

section \<open>Listings\<close>

definition list_skill_versions :: "skills \<Rightarrow> rstr \<Rightarrow> skill list" where
  "list_skill_versions db i = rev (sort_key sk_version (skill_versions db i))"

text \<open>SQLite leaves the order of rows with equal timestamps open; here the later row comes first.\<close>

definition list_skills ::
  "(int \<Rightarrow> rstr) \<Rightarrow> skills \<Rightarrow> skill_scope option \<Rightarrow> skill_status option \<Rightarrow> rstr option \<Rightarrow> nat \<Rightarrow>
   storage_error + skill list" where
  "list_skills stored db scope status wing limit =
     bindE (case wing of None \<Rightarrow> Inr None | Some w \<Rightarrow> bindE (normalize_wing w) (\<lambda>n. Inr (Some n))) (\<lambda>wing.
     Inr (take (if limit < 1 then 1 else min limit 500)
       (rev (sort_key (\<lambda>s. stored (sk_updated_at s))
         (filter (\<lambda>s. none_or (\<lambda>x. sk_scope s = x) scope \<and> none_or (\<lambda>x. sk_status s = x) status \<and>
              none_or (\<lambda>n. sk_wing s = None \<or> sk_wing s = Some n) wing) (map kr_skill (sk_rows db)))))))"

definition list_skill_reviews :: "(int \<Rightarrow> rstr) \<Rightarrow> skills \<Rightarrow> rstr \<Rightarrow> int \<Rightarrow> skill_review list" where
  "list_skill_reviews stored db i v =
     sort_key (\<lambda>r. stored (rv_occurred_at r)) (filter (\<lambda>r. rv_skill_id r = i \<and> rv_version r = v) (sk_reviews db))"

section \<open>Normalising stored wings\<close>

definition stored_wings :: "skills \<Rightarrow> rstr list" where
  "stored_wings db = remdups (List.map_filter (\<lambda>r. sk_wing (kr_skill r)) (sk_rows db))"

definition rename_wing :: "rstr \<Rightarrow> rstr \<Rightarrow> skills \<Rightarrow> skills" where
  "rename_wing raw n db =
     db\<lparr>sk_rows := update_rows (\<lambda>r. sk_wing (kr_skill r) = Some raw)
       (\<lambda>r. r\<lparr>kr_skill := (kr_skill r)\<lparr>sk_wing := Some n\<rparr>\<rparr>) (sk_rows db)\<rparr>"

text \<open>Each UPDATE commits on its own: an invalid wing stops the loop and keeps the earlier ones.\<close>

fun backfill_loop :: "rstr list \<Rightarrow> skills \<Rightarrow> (storage_error + unit) \<times> skills" where
  "backfill_loop [] db = (Inr (), db)"
| "backfill_loop (raw # rest) db =
     (case normalize_wing raw of
        Inl x \<Rightarrow> (Inl x, db)
      | Inr n \<Rightarrow> backfill_loop rest (if n \<noteq> raw then rename_wing raw n db else db))"

definition backfill_wing_normalisation :: "skills \<Rightarrow> (storage_error + unit) \<times> skills" where
  "backfill_wing_normalisation db = backfill_loop (stored_wings db) db"

end
