(* ===== verification/Skills_Spec.thy ===== *)
theory Skills_Spec
  imports Skills
begin

text \<open>
  The branches of the skill operations and the steps they make on the tables: \<open>sk_move\<close> changes the
  status of one version and records the review that did it; \<open>sk_step\<close> is one committed transaction.
\<close>

section \<open>Steps\<close>

definition fresh_skill :: "skills \<Rightarrow> skill \<Rightarrow> bool" where
  "fresh_skill db s \<longleftrightarrow> sk_status s = SkCandidate \<and> sk_revision s = 0 \<and>
     sk_supersedes_version s = latest_version db (sk_skill_id s) \<and>
     sk_version s = (case latest_version db (sk_skill_id s) of Some v \<Rightarrow> v | None \<Rightarrow> 0) + 1 \<and>
     skill_wing (sk_scope s) (sk_wing s) = Inr (sk_wing s) \<and>
     (case latest_version db (sk_skill_id s) of None \<Rightarrow> True
      | Some v \<Rightarrow> map_option sk_wing (get_skill db (sk_skill_id s) v) = Some (sk_wing s))"

definition sk_moved :: "skill_status \<Rightarrow> int \<Rightarrow> skill \<Rightarrow> skill" where
  "sk_moved st at s = s\<lparr>sk_status := st, sk_revision := sk_revision s + 1, sk_updated_at := at\<rparr>"

definition move_rows :: "skill_status \<Rightarrow> int \<Rightarrow> skill \<Rightarrow> skills \<Rightarrow> skills" where
  "move_rows st at s db = db\<lparr>sk_rows := update_rows
     (\<lambda>r. sk_skill_id (kr_skill r) = sk_skill_id s \<and> sk_version (kr_skill r) = sk_version s)
     (\<lambda>r. r\<lparr>kr_skill := sk_moved st at (kr_skill r)\<rparr>) (sk_rows db)\<rparr>"

text \<open>The moves of a version's life.\<close>

fun allowed_move :: "skill_status \<Rightarrow> skill_status \<Rightarrow> bool" where
  "allowed_move SkCandidate st = (st = SkPromoted \<or> st = SkRetired)"
| "allowed_move SkPromoted st = (st = SkSuperseded \<or> st = SkRetired)"
| "allowed_move SkSuperseded st = False"
| "allowed_move SkRetired st = False"

inductive sk_move :: "int \<Rightarrow> rstr \<Rightarrow> int \<Rightarrow> skill_status \<Rightarrow> rstr \<Rightarrow> skills \<Rightarrow> skills \<Rightarrow> bool" where
  sk_moveI:
    "get_skill db i v = Some s \<Longrightarrow> allowed_move (sk_status s) st \<Longrightarrow>
     find_row (\<lambda>r. rv_review_id r = rid) (sk_reviews db) = None \<Longrightarrow>
     db' = (move_rows st at s db)\<lparr>sk_reviews := sk_reviews db @
       [\<lparr>rv_review_id = rid, rv_skill_id = i, rv_version = v, rv_from_status = sk_status s,
         rv_to_status = st, rv_reviewer = who, rv_reason = why, rv_occurred_at = at\<rparr>]\<rparr> \<Longrightarrow>
     sk_move at i v st who db db'"

definition governed :: "skills \<Rightarrow> skill \<Rightarrow> skill option \<Rightarrow> rstr \<Rightarrow> bool" where
  "governed db s prior who \<longleftrightarrow>
     (if requires_distinct_review (governing_scope prior s)
      then who \<noteq> sk_author s \<and> has_outcome db (sk_skill_id s) (sk_version s) else who = sk_author s)"

text \<open>A promotion displaces the promoted version \<open>prior\<close>, where there is one.\<close>

inductive sk_promote :: "int \<Rightarrow> rstr \<Rightarrow> int \<Rightarrow> rstr \<Rightarrow> skills \<Rightarrow> skills \<Rightarrow> bool" for at i v who db db' where
  promote_first:
    "get_skill db i v = Some s \<Longrightarrow> sk_status s = SkCandidate \<Longrightarrow> find_promoted_version db i = Inr None \<Longrightarrow>
     governed db s None who \<Longrightarrow> sk_move at i v SkPromoted who db db' \<Longrightarrow> sk_promote at i v who db db'"
| promote_next:
    "get_skill db i v = Some s \<Longrightarrow> sk_status s = SkCandidate \<Longrightarrow> find_promoted_version db i = Inr (Some p) \<Longrightarrow>
     governed db s (Some p) who \<Longrightarrow> sk_move at i v SkPromoted who db db1 \<Longrightarrow>
     sk_move at i (sk_version p) SkSuperseded who db1 db' \<Longrightarrow> sk_promote at i v who db db'"

inductive sk_step :: "skills \<Rightarrow> skills \<Rightarrow> bool" for db where
  step_propose: "insert_skill s key db = Inr db' \<Longrightarrow> fresh_skill db s \<Longrightarrow> sk_step db db'"
| step_outcome: "insert_outcome v key db = Inr db' \<Longrightarrow> sk_step db db'"
| step_promote: "sk_promote at i v who db db' \<Longrightarrow> sk_step db db'"
| step_retire: "sk_move at i v SkRetired who db db' \<Longrightarrow> sk_step db db'"

inductive_cases sk_moveE: "sk_move at i v st who db db'"
inductive_cases sk_stepE: "sk_step db db'"

section \<open>Branches\<close>

inductive propose_spec ::
  "skills \<Rightarrow> new_skill \<Rightarrow> storage_error + skill \<Rightarrow> skills \<Rightarrow> bool" for db input where
  ps_error: "propose_spec db input (Inl x) db"
| ps_replay: "find_skill_by_key db (nk_author input) (nk_idempotency_key input) = Inr (Some s) \<Longrightarrow>
    propose_spec db input (Inr s) db"
| ps_new: "insert_skill s (nk_idempotency_key input) db = Inr db' \<Longrightarrow> fresh_skill db s \<Longrightarrow>
    sk_skill_id s = nk_skill_id input \<Longrightarrow> sk_author s = nk_author input \<Longrightarrow> sk_scope s = nk_scope input \<Longrightarrow>
    get_skill db' (sk_skill_id s) (sk_version s) = Some s' \<Longrightarrow> propose_spec db input (Inr s') db'"

inductive record_outcome_spec ::
  "skills \<Rightarrow> new_skill_outcome \<Rightarrow> storage_error + skill_outcome \<Rightarrow> skills \<Rightarrow> bool" for db input where
  os_error: "record_outcome_spec db input (Inl x) db"
| os_replay: "find_outcome_by_key db (no_recorded_by input) (no_outcome_key input) = Inr (Some v) \<Longrightarrow>
    record_outcome_spec db input (Inr v) db"
| os_new: "insert_outcome v (no_outcome_key input) db = Inr db' \<Longrightarrow>
    get_outcome db' (so_outcome_id v) = Some v' \<Longrightarrow> record_outcome_spec db input (Inr v') db'"

inductive promote_spec ::
  "env \<Rightarrow> skills \<Rightarrow> rstr \<Rightarrow> int \<Rightarrow> int \<Rightarrow> rstr \<Rightarrow> storage_error + skill revisioned_write \<Rightarrow> skills \<Rightarrow> bool"
  for e db i v expected who where
  pr_error: "promote_spec e db i v expected who (Inl x) db"
| pr_missing: "get_skill db i v = None \<Longrightarrow> promote_spec e db i v expected who (Inr (Conflict None)) db"
| pr_stale: "get_skill db i v = Some s \<Longrightarrow> sk_revision s \<noteq> expected \<Longrightarrow>
    promote_spec e db i v expected who (Inr (Conflict (Some (sk_revision s)))) db"
| pr_applied: "get_skill db i v = Some s \<Longrightarrow> sk_revision s = expected \<Longrightarrow> sk_promote (env_now e) i v who db db' \<Longrightarrow>
    get_skill db' i v = Some s' \<Longrightarrow> promote_spec e db i v expected who (Inr (Applied s')) db'"

inductive retire_spec ::
  "env \<Rightarrow> skills \<Rightarrow> rstr \<Rightarrow> int \<Rightarrow> int \<Rightarrow> rstr \<Rightarrow> storage_error + skill revisioned_write \<Rightarrow> skills \<Rightarrow> bool"
  for e db i v expected who where
  rs_error: "retire_spec e db i v expected who (Inl x) db"
| rs_missing: "get_skill db i v = None \<Longrightarrow> retire_spec e db i v expected who (Inr (Conflict None)) db"
| rs_stale: "get_skill db i v = Some s \<Longrightarrow> sk_revision s \<noteq> expected \<Longrightarrow>
    retire_spec e db i v expected who (Inr (Conflict (Some (sk_revision s)))) db"
| rs_applied: "get_skill db i v = Some s \<Longrightarrow> sk_revision s = expected \<Longrightarrow> sk_move (env_now e) i v SkRetired who db db' \<Longrightarrow>
    get_skill db' i v = Some s' \<Longrightarrow> retire_spec e db i v expected who (Inr (Applied s')) db'"

lemma require_skill_Inr [simp]: "require_skill db i v = Inr s \<longleftrightarrow> get_skill db i v = Some s"
  by (simp add: require_skill_def split: option.splits)

lemma get_skill_id:
  "get_skill db i v = Some s \<Longrightarrow> sk_skill_id s = i \<and> sk_version s = v \<and> (\<exists>r \<in> set (sk_rows db). kr_skill r = s)"
  by (auto simp: get_skill_def dest: find_row_SomeD)

lemma get_skill_None:
  "get_skill db i v = None \<longleftrightarrow> (\<forall>r \<in> set (sk_rows db). \<not> (sk_skill_id (kr_skill r) = i \<and> sk_version (kr_skill r) = v))"
  by (auto simp: get_skill_def find_row_None)

text \<open>A normalised wing normalises to itself, so a stored wing passes the scope check again.\<close>

lemma skill_wing_stable:
  assumes "skill_wing scope wing = Inr w"
  shows "skill_wing scope w = Inr w"
proof -
  have *: "trim n = n \<and> n \<noteq> [] \<and> wing_normalized n = Inr n" if "wing_normalized m = Inr n" for m n
  proof -
    have "n \<noteq> []" "\<forall>ch \<in> set n. wing_char ch" using wing_normalized_Inr [OF that] by blast+
    then have "trim n = n" by (simp add: trim_fixpoint wing_char_not_whitespace)
    with \<open>n \<noteq> []\<close> wing_normalized_fixed [OF that] show ?thesis by blast
  qed
  show ?thesis
  proof (cases scope)
    case ScProject
    with assms obtain m n where "wing_normalized m = Inr n" "w = Some n"
      by (auto simp: skill_wing_def bindE_eq_Inr split: option.splits if_splits)
    with * [of m n] ScProject show ?thesis by (simp add: skill_wing_def bindE_eq_Inr)
  qed (use assms in \<open>auto simp: skill_wing_def split: option.splits if_splits\<close>)
qed

lemma ps_newI:
  assumes "skill_wing (nk_scope input) (nk_wing input) = Inr wing"
    and "check_same_wing db (nk_skill_id input) (latest_version db (nk_skill_id input)) wing = Inr u"
    and "insert_skill s (nk_idempotency_key input) db = Inr db'"
    and "get_skill db' (nk_skill_id input) ((case latest_version db (nk_skill_id input) of Some v \<Rightarrow> v | None \<Rightarrow> 0) + 1) = Some s'"
    and "sk_skill_id s = nk_skill_id input" "sk_author s = nk_author input" "sk_scope s = nk_scope input" "sk_wing s = wing"
      "sk_version s = (case latest_version db (nk_skill_id input) of Some v \<Rightarrow> v | None \<Rightarrow> 0) + 1"
      "sk_supersedes_version s = latest_version db (nk_skill_id input)" "sk_status s = SkCandidate" "sk_revision s = 0"
  shows "propose_spec db input (Inr s') db'"
  by (rule ps_new [OF assms(3)])
    (use assms skill_wing_stable [OF assms(1)] in \<open>auto simp: fresh_skill_def check_same_wing_def bindE_eq_Inr split: option.splits if_splits\<close>)

lemma propose_skill_outcome: "outcome (propose_spec db input) (propose_skill e db input)"
  unfolding propose_skill_def Let_def
  by (intro outcome)
    ((rule ps_error; fail) | (rule ps_replay; simp; fail) | (rule ps_newI, assumption+, simp_all; fail))+

lemma record_outcome_outcome: "outcome (record_outcome_spec db input) (record_outcome e db input)"
  unfolding record_outcome_def Let_def
  by (intro outcome)
    ((rule os_error; fail) | (rule os_replay; simp; fail) | (rule os_new, assumption, simp; fail))+

definition sk_keyed :: "skills \<Rightarrow> bool" where
  "sk_keyed db \<longleftrightarrow> keyed_table (\<lambda>r. (sk_skill_id (kr_skill r), sk_version (kr_skill r)))
     (\<lambda>r. (sk_author (kr_skill r), kr_key r)) (sk_rows db)"

lemma sk_keyed_row:
  assumes "sk_keyed db" and "r \<in> set (sk_rows db)"
  shows "get_skill db (sk_skill_id (kr_skill r)) (sk_version (kr_skill r)) = Some (kr_skill r)"
  using assms keyed_table_find [of "\<lambda>r. (sk_skill_id (kr_skill r), sk_version (kr_skill r))" _ "sk_rows db" r]
  by (auto simp: sk_keyed_def get_skill_def)

lemma set_status_move:
  assumes "sk_keyed db" and "get_skill db i v = Some s" and "sel s"
    and "\<And>q. sel q \<Longrightarrow> sk_skill_id q = i \<and> sk_version q = v"
  shows "set_status sel st (sk_revision s + 1) at db = move_rows st at s db"
proof -
  have id: "sk_skill_id s = i" "sk_version s = v" using get_skill_id [OF assms(2)] by simp_all
  have "(if sel (kr_skill r) then r\<lparr>kr_skill := (kr_skill r)\<lparr>sk_status := st, sk_revision := sk_revision s + 1, sk_updated_at := at\<rparr>\<rparr> else r) =
      (if sk_skill_id (kr_skill r) = i \<and> sk_version (kr_skill r) = v then r\<lparr>kr_skill := sk_moved st at (kr_skill r)\<rparr> else r)"
    if "r \<in> set (sk_rows db)" for r
  proof (cases "sk_skill_id (kr_skill r) = i \<and> sk_version (kr_skill r) = v")
    case True
    then have "kr_skill r = s" using sk_keyed_row [OF assms(1) that] assms(2) by simp
    with True assms(3) show ?thesis by (simp add: sk_moved_def)
  qed (use assms(4) in auto)
  then have "update_rows (\<lambda>r. sel (kr_skill r))
       (\<lambda>r. r\<lparr>kr_skill := (kr_skill r)\<lparr>sk_status := st, sk_revision := sk_revision s + 1, sk_updated_at := at\<rparr>\<rparr>) (sk_rows db) =
      update_rows (\<lambda>r. sk_skill_id (kr_skill r) = i \<and> sk_version (kr_skill r) = v)
       (\<lambda>r. r\<lparr>kr_skill := sk_moved st at (kr_skill r)\<rparr>) (sk_rows db)"
    unfolding update_rows_def by (intro map_cong refl)
  then show ?thesis by (simp add: set_status_def move_rows_def id)
qed

lemma get_skill_move:
  "get_skill (move_rows st at s db) i v = map_option (\<lambda>q. if sk_skill_id q = sk_skill_id s \<and> sk_version q = sk_version s
     then sk_moved st at q else q) (get_skill db i v)"
proof -
  have "find_row (\<lambda>r. sk_skill_id (kr_skill r) = i \<and> sk_version (kr_skill r) = v) (sk_rows (move_rows st at s db)) =
      map_option (\<lambda>r. if sk_skill_id (kr_skill r) = sk_skill_id s \<and> sk_version (kr_skill r) = sk_version s
        then r\<lparr>kr_skill := sk_moved st at (kr_skill r)\<rparr> else r)
       (find_row (\<lambda>r. sk_skill_id (kr_skill r) = i \<and> sk_version (kr_skill r) = v) (sk_rows db))"
    unfolding move_rows_def by (simp, rule find_row_update_rows) (simp add: sk_moved_def)
  then show ?thesis
    by (simp add: get_skill_def option.map_comp) (rule option.map_cong, auto)
qed

lemma get_skill_reviews [simp]: "get_skill (db\<lparr>sk_reviews := x\<rparr>) i v = get_skill db i v"
  by (simp add: get_skill_def)

lemma sk_keyed_move: "sk_keyed db \<Longrightarrow> sk_keyed ((move_rows st at s db)\<lparr>sk_reviews := x\<rparr>)"
  unfolding sk_keyed_def move_rows_def by (simp, erule keyed_table_update) (simp_all add: sk_moved_def)

lemma insert_review_move:
  assumes "sk_keyed db" and "get_skill db i v = Some s" and "allowed_move (sk_status s) st" and "sel s"
    and "\<And>q. sel q \<Longrightarrow> sk_skill_id q = i \<and> sk_version q = v"
    and "insert_review e n i v (sk_status s) st who why now (set_status sel st (sk_revision s + 1) now db) = Inr db'"
  shows "sk_move now i v st who db db'"
proof -
  have m: "set_status sel st (sk_revision s + 1) now db = move_rows st now s db"
    by (rule set_status_move) (use assms in auto)
  have "sk_reviews (move_rows st now s db) = sk_reviews db" by (simp add: move_rows_def)
  with assms(6) show ?thesis unfolding m insert_review_def bindE_eq_Inr Let_def
    by (auto split: if_splits dest!: format_time_InrD intro!: sk_moveI [OF assms(2,3)])
qed

lemma find_promoted_Some:
  assumes "find_promoted_version db i = Inr (Some p)"
  shows "sk_skill_id p = i" and "sk_status p = SkPromoted" and "\<exists>r \<in> set (sk_rows db). kr_skill r = p"
proof -
  let ?f = "filter (\<lambda>s. sk_status s = SkPromoted) (skill_versions db i)"
  have "sort_key sk_version ?f = [p]" using assms by (auto simp: find_promoted_version_def split: list.splits)
  then have "set ?f = {p}" by (metis set_sort list.set(1) list.set(2))
  then have "p \<in> set ?f" by blast
  then show "sk_skill_id p = i" and "sk_status p = SkPromoted" and "\<exists>r \<in> set (sk_rows db). kr_skill r = p"
    by (auto simp: skill_versions_def)
qed

lemma check_governance_Inr [simp]:
  "check_governance db (governing_scope prior s) s who = Inr u \<longleftrightarrow> governed db s prior who"
  by (simp add: check_governance_def governed_def)

lemma set_status_at:
  "format_time e now = Inr at \<Longrightarrow> set_status sel st rv at db = set_status sel st rv now db"
  by (drule format_time_InrD) simp

lemma supersede_move:
  assumes "sk_keyed db" and "get_skill db i (sk_version p) = Some p" and "sk_status p = SkPromoted"
    and "supersede_promoted e n p who w now db = Inr db'"
  shows "sk_move now i (sk_version p) SkSuperseded who db db'"
proof -
  have i: "sk_skill_id p = i" using get_skill_id [OF assms(2)] by simp
  let ?sel = "\<lambda>s. at_revision (sk_skill_id p) (sk_version p) (sk_revision p) s \<and> sk_status s = SkPromoted"
  have "insert_review e n i (sk_version p) (sk_status p) SkSuperseded who
      (lit ''superseded by version '' @ show_int w) now (set_status ?sel SkSuperseded (sk_revision p + 1) now db) = Inr db'"
    using assms(4) set_status_at unfolding supersede_promoted_def
    by (auto simp: bindE_eq_Inr Let_def assms(3) i split: if_splits)
  then show ?thesis
    by (rule insert_review_move [OF assms(1,2), rotated 3]) (auto simp: assms(3) i at_revision_def)
qed

lemma skill_terminal_simp [simp]: "skill_terminal st \<longleftrightarrow> st = SkSuperseded \<or> st = SkRetired"
  by (cases st) simp_all

lemma move_get:
  assumes "sk_move at i v st who db db'"
  shows "get_skill db' j w = (if j = i \<and> w = v then get_skill db' i v else get_skill db j w)"
proof -
  from assms obtain s x where s: "get_skill db i v = Some s" "db' = (move_rows st at s db)\<lparr>sk_reviews := x\<rparr>"
    by (auto elim: sk_moveE)
  then have "get_skill db' j w = map_option (\<lambda>q. if sk_skill_id q = i \<and> sk_version q = v then sk_moved st at q else q) (get_skill db j w)" for j w
    using get_skill_id [OF s(1)] by (simp add: get_skill_move)
  then show ?thesis by (cases "get_skill db j w") (auto dest: get_skill_id)
qed

lemma move_get_at:
  assumes "sk_move at i v st who db db'"
  shows "\<exists>s. get_skill db i v = Some s \<and> get_skill db' i v = Some (sk_moved st at s)"
proof -
  from assms obtain s x where s: "get_skill db i v = Some s" "db' = (move_rows st at s db)\<lparr>sk_reviews := x\<rparr>"
    by (auto elim: sk_moveE)
  then show ?thesis using get_skill_id [OF s(1)] by (auto simp: get_skill_move)
qed

lemma move_keyed: "sk_keyed db \<Longrightarrow> sk_move at i v st who db db' \<Longrightarrow> sk_keyed db'"
  by (auto elim!: sk_moveE intro: sk_keyed_move)

lemma at_revision_count:
  assumes "sk_keyed db" and "get_skill db i v = Some s" and "sk_revision s = n"
  shows "count_skills (at_revision i v n) db = 1"
proof -
  obtain r where r: "r \<in> set (sk_rows db)" "kr_skill r = s" "sk_skill_id s = i" "sk_version s = v"
    using get_skill_id [OF assms(2)] by blast
  have "count_rows (\<lambda>x. (sk_skill_id (kr_skill x), sk_version (kr_skill x)) = (sk_skill_id (kr_skill r), sk_version (kr_skill r)) \<and>
      sk_revision (kr_skill x) = n) (sk_rows db) = 1"
    by (rule count_rows_key) (use assms r in \<open>simp_all add: sk_keyed_def keyed_table_def\<close>)
  with r show ?thesis by (simp add: count_skills_def at_revision_def)
qed

lemma pr_appliedI:
  assumes k: "sk_keyed db" and c: "get_skill db i v = Some s" "sk_revision s = expected"
    and st: "\<not> skill_terminal (sk_status s)" "sk_status s \<noteq> SkPromoted"
    and p: "find_promoted_version db i = Inr prior" and g: "governed db s prior who"
    and at: "format_time e (env_now e) = Inr at"
    and m: "insert_review e 0 i v (sk_status s) SkPromoted who why (env_now e)
         (set_status (at_revision i v expected) SkPromoted (sk_revision s + 1) at db) = Inr db1"
    and n: "(case prior of None \<Rightarrow> Inr db1 | Some q \<Rightarrow> supersede_promoted e 1 q who v (env_now e) db1) = Inr db2"
    and s': "get_skill db2 i v = Some s'"
  shows "promote_spec e db i v expected who (Inr (Applied s')) db2"
proof -
  have cand: "sk_status s = SkCandidate" using st by (cases "sk_status s") simp_all
  have mv: "sk_move (env_now e) i v SkPromoted who db db1"
    by (rule insert_review_move [OF k c(1), where sel = "at_revision i v expected"])
      (use m set_status_at [OF at] get_skill_id [OF c(1)] c(2) in \<open>auto simp: cand at_revision_def\<close>)
  have "sk_promote (env_now e) i v who db db2"
  proof (cases prior)
    case None
    with n p g have "db2 = db1" by simp
    with promote_first [OF c(1) cand _ _ mv] None p g show ?thesis by simp
  next
    case (Some q)
    note q = find_promoted_Some [OF p [unfolded Some]]
    have "get_skill db i (sk_version q) = Some q" using q(3) sk_keyed_row [OF k] q(1) by blast
    moreover have "sk_version q \<noteq> v" using calculation c(1) q(2) cand by auto
    ultimately have "get_skill db1 i (sk_version q) = Some q" using move_get [OF mv, of i "sk_version q"] by simp
    from supersede_move [OF move_keyed [OF k mv] this q(2), of e 1 who v "env_now e" db2] n Some
    have "sk_move (env_now e) i (sk_version q) SkSuperseded who db1 db2" by simp
    with promote_next [OF c(1) cand _ _ mv] Some p g show ?thesis by simp
  qed
  with pr_applied c s' show ?thesis by blast
qed

lemma promote_skill_outcome:
  assumes "sk_keyed db"
  shows "outcome (promote_spec e db i v expected who) (promote_skill e db i v expected who why)"
  unfolding promote_skill_def Let_def
  by (intro outcome)
    ((rule pr_error; fail) | (rule pr_missing; assumption) | (rule pr_stale; assumption) | (simp add: at_revision_count [OF assms]; fail) |
     (rule pr_appliedI [OF assms], assumption+, simp_all; fail))+

lemma rs_appliedI:
  assumes k: "sk_keyed db" and c: "get_skill db i v = Some s" "sk_revision s = expected"
    and st: "\<not> skill_terminal (sk_status s)" and at: "format_time e (env_now e) = Inr at"
    and m: "insert_review e 0 i v (sk_status s) SkRetired who why (env_now e)
         (set_status (at_revision i v expected) SkRetired (sk_revision s + 1) at db) = Inr db1"
    and s': "get_skill db1 i v = Some s'"
  shows "retire_spec e db i v expected who (Inr (Applied s')) db1"
proof -
  have "allowed_move (sk_status s) SkRetired" using st by (cases "sk_status s") simp_all
  then have "sk_move (env_now e) i v SkRetired who db db1"
    by (intro insert_review_move [OF k c(1), where sel = "at_revision i v expected"])
      (use m set_status_at [OF at] get_skill_id [OF c(1)] c(2) in \<open>auto simp: at_revision_def\<close>)
  with rs_applied c s' show ?thesis by blast
qed

lemma retire_skill_outcome:
  assumes "sk_keyed db"
  shows "outcome (retire_spec e db i v expected who) (retire_skill e db i v expected who why)"
  unfolding retire_skill_def Let_def
  by (intro outcome)
    ((rule rs_error; fail) | (rule rs_missing; assumption) | (rule rs_stale; assumption) | (simp add: at_revision_count [OF assms]; fail) |
     (rule rs_appliedI [OF assms], assumption+, simp_all; fail))+

end
