(* ===== verification/Skills_Inv.thy ===== *)
theory Skills_Inv
  imports Skills_Spec
begin

text \<open>
  The skill registry as a machine, its invariant and its history. The invariant: the versions of a
  skill are 1, 2, 3, ... in one wing, each superseding the one before; at most one is promoted; the
  reviews of a version spell out its whole life; a version of a shared scope was promoted only by
  somebody other than its author and after an outcome was recorded.
\<close>

section \<open>Calls\<close>

datatype skills_call =
  SkPropose env new_skill
| SkOutcome env new_skill_outcome
| SkPromote env rstr int int rstr rstr
| SkRetire env rstr int int rstr rstr
| SkBackfill

fun skills_exec :: "skills_call \<Rightarrow> skills \<Rightarrow> skills" where
  "skills_exec (SkPropose e i) db = snd (propose_skill e db i)"
| "skills_exec (SkOutcome e i) db = snd (record_outcome e db i)"
| "skills_exec (SkPromote e i v r who why) db = snd (promote_skill e db i v r who why)"
| "skills_exec (SkRetire e i v r who why) db = snd (retire_skill e db i v r who why)"
| "skills_exec SkBackfill db = snd (backfill_wing_normalisation db)"

section \<open>Invariant\<close>

text \<open>The status a sequence of reviews leads to, each of them a legal move from where the last one ended.\<close>

fun trail :: "skill_status \<Rightarrow> skill_review list \<Rightarrow> skill_status option" where
  "trail st [] = Some st"
| "trail st (r # rs) = (if rv_from_status r = st \<and> allowed_move st (rv_to_status r) then trail (rv_to_status r) rs else None)"

definition reviews_of :: "skills \<Rightarrow> rstr \<Rightarrow> int \<Rightarrow> skill_review list" where
  "reviews_of db i v = filter (\<lambda>r. rv_skill_id r = i \<and> rv_version r = v) (sk_reviews db)"

definition shared_review_ok :: "skills \<Rightarrow> skill \<Rightarrow> skill_review \<Rightarrow> bool" where
  "shared_review_ok db s r \<longleftrightarrow> requires_distinct_review (sk_scope s) \<longrightarrow> rv_to_status r = SkPromoted \<longrightarrow>
     rv_reviewer r \<noteq> sk_author s \<and> has_outcome db (sk_skill_id s) (sk_version s)"

definition skill_ok :: "skills \<Rightarrow> skill \<Rightarrow> bool" where
  "skill_ok db s \<longleftrightarrow>
     trail SkCandidate (reviews_of db (sk_skill_id s) (sk_version s)) = Some (sk_status s) \<and>
     sk_revision s = int (length (reviews_of db (sk_skill_id s) (sk_version s))) \<and>
     list_all (shared_review_ok db s) (reviews_of db (sk_skill_id s) (sk_version s)) \<and>
     skill_wing (sk_scope s) (sk_wing s) = Inr (sk_wing s) \<and>
     sk_supersedes_version s = (if sk_version s = 1 then None else Some (sk_version s - 1))"

definition versions_ok :: "skills \<Rightarrow> bool" where
  "versions_ok db \<longleftrightarrow>
     (\<forall>i. map sk_version (skill_versions db i) = map int [1..<Suc (length (skill_versions db i))])"

definition wings_ok :: "skills \<Rightarrow> bool" where
  "wings_ok db \<longleftrightarrow> (\<forall>i v w s t. get_skill db i v = Some s \<and> get_skill db i w = Some t \<longrightarrow> sk_wing s = sk_wing t)"

definition one_promoted :: "skills \<Rightarrow> bool" where
  "one_promoted db \<longleftrightarrow> (\<forall>i v w s t. get_skill db i v = Some s \<and> get_skill db i w = Some t \<and>
     sk_status s = SkPromoted \<and> sk_status t = SkPromoted \<longrightarrow> v = w)"

definition audit_ok :: "skills \<Rightarrow> bool" where
  "audit_ok db \<longleftrightarrow> distinct (map rv_review_id (sk_reviews db)) \<and>
     (\<forall>r \<in> set (sk_reviews db). get_skill db (rv_skill_id r) (rv_version r) \<noteq> None) \<and>
     keyed_table (\<lambda>r. so_outcome_id (or_outcome r)) (\<lambda>r. (so_recorded_by (or_outcome r), or_key r)) (sk_outcomes db) \<and>
     (\<forall>r \<in> set (sk_outcomes db). get_skill db (so_skill_id (or_outcome r)) (so_version (or_outcome r)) \<noteq> None)"

definition sk_base :: "skills \<Rightarrow> bool" where
  "sk_base db \<longleftrightarrow> sk_keyed db \<and> versions_ok db \<and> wings_ok db \<and> audit_ok db \<and>
     (\<forall>i v s. get_skill db i v = Some s \<longrightarrow> skill_ok db s)"

definition skills_inv :: "skills \<Rightarrow> bool" where
  "skills_inv db \<longleftrightarrow> sk_base db \<and> one_promoted db"

subsection \<open>One move\<close>

lemma trail_append: "trail st (rs @ [r]) =
    (case trail st rs of None \<Rightarrow> None
     | Some m \<Rightarrow> if rv_from_status r = m \<and> allowed_move m (rv_to_status r) then Some (rv_to_status r) else None)"
  by (induction st rs rule: trail.induct) simp_all

lemma sk_moved_sel [simp]:
  "sk_skill_id (sk_moved st at s) = sk_skill_id s" "sk_version (sk_moved st at s) = sk_version s"
  "sk_scope (sk_moved st at s) = sk_scope s" "sk_wing (sk_moved st at s) = sk_wing s" "sk_author (sk_moved st at s) = sk_author s"
  "sk_supersedes_version (sk_moved st at s) = sk_supersedes_version s" "sk_status (sk_moved st at s) = st"
  "sk_revision (sk_moved st at s) = sk_revision s + 1"
  by (simp_all add: sk_moved_def)

lemma move_versions: "map sk_version (skill_versions (move_rows st at s db) i) = map sk_version (skill_versions db i)"
proof -
  have "map (\<lambda>r. sk_version (kr_skill r)) (filter (\<lambda>r. sk_skill_id (kr_skill r) = i) (sk_rows (move_rows st at s db))) =
      map (\<lambda>r. sk_version (kr_skill r)) (filter (\<lambda>r. sk_skill_id (kr_skill r) = i) (sk_rows db))"
    unfolding move_rows_def by (simp add: map_filter_update [where h = "\<lambda>r. sk_skill_id (kr_skill r)"])
  then show ?thesis by (simp add: skill_versions_def filter_map comp_def)
qed

lemma move_base:
  assumes inv: "sk_base db" and m: "sk_move at i v st who db db'"
    and gov: "\<And>s. get_skill db i v = Some s \<Longrightarrow> requires_distinct_review (sk_scope s) \<Longrightarrow> st = SkPromoted \<Longrightarrow>
       who \<noteq> sk_author s \<and> has_outcome db i v"
  shows "sk_base db'"
proof -
  from m obtain s rid why where s: "get_skill db i v = Some s" "allowed_move (sk_status s) st"
    "find_row (\<lambda>r. rv_review_id r = rid) (sk_reviews db) = None"
    and db': "db' = (move_rows st at s db)\<lparr>sk_reviews := sk_reviews db @
       [\<lparr>rv_review_id = rid, rv_skill_id = i, rv_version = v, rv_from_status = sk_status s,
         rv_to_status = st, rv_reviewer = who, rv_reason = why, rv_occurred_at = at\<rparr>]\<rparr>"
    by (cases rule: sk_move.cases) blast
  let ?r = "\<lparr>rv_review_id = rid, rv_skill_id = i, rv_version = v, rv_from_status = sk_status s,
         rv_to_status = st, rv_reviewer = who, rv_reason = why, rv_occurred_at = at\<rparr>"
  have id: "sk_skill_id s = i" "sk_version s = v" using get_skill_id [OF s(1)] by simp_all
  have out: "sk_outcomes db' = sk_outcomes db" by (simp add: db' move_rows_def)
  have rvs: "sk_reviews db' = sk_reviews db @ [?r]" by (simp add: db')
  have ho: "has_outcome db' = has_outcome db" by (intro ext) (simp add: has_outcome_def out)
  have g: "get_skill db' j w = map_option (\<lambda>q. if j = i \<and> w = v then sk_moved st at q else q) (get_skill db j w)" for j w
    unfolding db' get_skill_reviews get_skill_move id
    by (rule option.map_cong [OF refl]) (auto dest: get_skill_id)
  have rv: "reviews_of db' j w = reviews_of db j w @ (if j = i \<and> w = v then [?r] else [])" for j w
    by (auto simp: reviews_of_def db')
  have so: "shared_review_ok db' q = shared_review_ok db q" "shared_review_ok db (sk_moved st at q) = shared_review_ok db q" for q
    by (simp_all add: shared_review_ok_def ho fun_eq_iff)
  have "skill_ok db' t" if t: "get_skill db' j w = Some t" for j w t
  proof -
    from t g obtain q where q: "get_skill db j w = Some q" "t = (if j = i \<and> w = v then sk_moved st at q else q)" by auto
    have ok: "skill_ok db q" using inv q(1) by (simp add: sk_base_def)
    have qid: "sk_skill_id q = j" "sk_version q = w" using get_skill_id [OF q(1)] by simp_all
    show ?thesis
    proof (cases "j = i \<and> w = v")
      case True
      then have "q = s" using q(1) s(1) by simp
      moreover have "shared_review_ok db s ?r" using gov [OF s(1)] by (simp add: shared_review_ok_def id)
      ultimately show ?thesis using True ok q(2) s(2) id by (simp add: skill_ok_def rv so trail_append)
    next
      case False
      then have "reviews_of db' j w = reviews_of db j w" by (auto simp: rv)
      then show ?thesis using False ok q(2) qid by (auto simp: skill_ok_def so)
    qed
  qed
  moreover have "sk_keyed db'" using inv move_keyed [OF _ m] by (simp add: sk_base_def)
  moreover have "versions_ok db'"
  proof -
    have m: "map sk_version (skill_versions db' j) = map sk_version (skill_versions db j)" for j
      using move_versions [of st at s db j] by (simp add: skill_versions_def db')
    have l: "length (skill_versions db' j) = length (skill_versions db j)" for j
      using arg_cong [OF m, of length] by (simp only: length_map)
    have "\<forall>j. map sk_version (skill_versions db j) = map int [1..<Suc (length (skill_versions db j))]"
      using inv unfolding sk_base_def versions_ok_def by blast
    then show ?thesis unfolding versions_ok_def m l .
  qed
  moreover have "wings_ok db'" unfolding wings_ok_def
  proof (intro allI impI)
    fix j u w x y assume a: "get_skill db' j u = Some x \<and> get_skill db' j w = Some y"
    have "wings_ok db" using inv by (simp add: sk_base_def)
    moreover obtain p q where "get_skill db j u = Some p" "sk_wing x = sk_wing p"
      "get_skill db j w = Some q" "sk_wing y = sk_wing q" using a by (auto simp: g split: if_splits)
    ultimately show "sk_wing x = sk_wing y" unfolding wings_ok_def by metis
  qed
  moreover have "audit_ok db'" using inv s(1,3)
    by (auto simp: sk_base_def audit_ok_def g out rvs find_row_None)
  ultimately show ?thesis by (simp add: sk_base_def)
qed

subsection \<open>New versions and outcomes\<close>

lemma insert_skill_Inr:
  assumes "insert_skill s key db = Inr db'"
  shows "db' = db\<lparr>sk_rows := sk_rows db @ [\<lparr>kr_skill = s, kr_key = key\<rparr>]\<rparr>"
    and "get_skill db (sk_skill_id s) (sk_version s) = None"
    and "find_row (\<lambda>r. sk_author (kr_skill r) = sk_author s \<and> kr_key r = key) (sk_rows db) = None"
  using assms by (simp_all add: insert_skill_def split: if_splits)

lemma get_skill_insert:
  assumes "insert_skill s key db = Inr db'"
  shows "get_skill db' i v = (if i = sk_skill_id s \<and> v = sk_version s then Some s else get_skill db i v)"
  using insert_skill_Inr [OF assms]
  by (cases "get_skill db i v") (auto simp: get_skill_def find_row_append split: option.splits)

text \<open>\<open>SELECT MAX(version)\<close> is the number of versions.\<close>

lemma latest_version_length:
  assumes "versions_ok db"
  shows "latest_version db i = (if skill_versions db i = [] then None else Some (int (length (skill_versions db i))))"
proof (cases "skill_versions db i")
  case Nil
  then show ?thesis by (simp add: latest_version_def)
next
  case (Cons s ss)
  let ?n = "length (skill_versions db i)"
  have m: "map sk_version (skill_versions db i) = map int [1..<Suc ?n]" using assms by (simp only: versions_ok_def)
  then have "set (map sk_version (skill_versions db i)) = int ` {1..<Suc ?n}" by (simp del: upt_Suc)
  moreover have "Max (int ` {1..<Suc ?n}) = int ?n" using Cons by (intro Max_eqI) (auto simp del: upt_Suc intro!: image_eqI [of _ _ ?n])
  ultimately show ?thesis using Cons by (simp add: latest_version_def)
qed

lemma skill_versions_get:
  assumes "sk_keyed db"
  shows "s \<in> set (skill_versions db i) \<longleftrightarrow> get_skill db i (sk_version s) = Some s"
proof
  assume "s \<in> set (skill_versions db i)"
  then obtain r where "r \<in> set (sk_rows db)" "kr_skill r = s" "sk_skill_id s = i" by (auto simp: skill_versions_def)
  with sk_keyed_row [OF assms, of r] show "get_skill db i (sk_version s) = Some s" by simp
qed (auto simp: skill_versions_def dest!: get_skill_id)

lemma reviews_of_None:
  assumes "audit_ok db" and "get_skill db i v = None"
  shows "reviews_of db i v = []"
  using assms by (auto simp: audit_ok_def reviews_of_def filter_empty_conv)

lemma fresh_skill_wing:
  assumes inv: "sk_base db" and f: "fresh_skill db s" and t: "get_skill db (sk_skill_id s) w = Some t"
  shows "sk_wing t = sk_wing s"
proof -
  have "t \<in> set (skill_versions db (sk_skill_id s))"
    using t get_skill_id [OF t] skill_versions_get [of db t] inv by (simp add: sk_base_def)
  then have "latest_version db (sk_skill_id s) = Some (int (length (skill_versions db (sk_skill_id s))))"
    using inv by (auto simp: latest_version_length sk_base_def)
  then obtain q where "get_skill db (sk_skill_id s) (int (length (skill_versions db (sk_skill_id s)))) = Some q"
    "sk_wing q = sk_wing s" using f by (auto simp: fresh_skill_def)
  moreover have "wings_ok db" using inv by (simp add: sk_base_def)
  ultimately show ?thesis using t unfolding wings_ok_def by metis
qed

lemma insert_skill_base:
  assumes inv: "sk_base db" and i: "insert_skill s key db = Inr db'" and f: "fresh_skill db s"
  shows "sk_base db'"
proof -
  note e = insert_skill_Inr [OF i] and g = get_skill_insert [OF i]
  have sv: "skill_versions db' j = skill_versions db j @ (if sk_skill_id s = j then [s] else [])" for j
    by (simp add: e(1) skill_versions_def)
  have vok: "versions_ok db" using inv by (simp add: sk_base_def)
  have ver: "sk_version s = int (length (skill_versions db (sk_skill_id s))) + 1"
    "sk_supersedes_version s = (if sk_version s = 1 then None else Some (sk_version s - 1))"
    using f latest_version_length [OF vok, of "sk_skill_id s"] by (auto simp: fresh_skill_def)
  have same: "reviews_of db' = reviews_of db" "has_outcome db' = has_outcome db" "sk_reviews db' = sk_reviews db"
      "sk_outcomes db' = sk_outcomes db"
    by (simp_all add: fun_eq_iff reviews_of_def has_outcome_def e(1))
  then have same': "shared_review_ok db' = shared_review_ok db" by (simp add: fun_eq_iff shared_review_ok_def)
  have "reviews_of db (sk_skill_id s) (sk_version s) = []"
    by (rule reviews_of_None) (use inv e(2) in \<open>simp_all add: sk_base_def\<close>)
  then have "skill_ok db' s" using f ver(2) by (simp add: skill_ok_def same fresh_skill_def)
  moreover have "skill_ok db' t = skill_ok db t" for t by (simp add: skill_ok_def same same')
  ultimately have ok: "\<forall>j v t. get_skill db' j v = Some t \<longrightarrow> skill_ok db' t"
    using inv by (auto simp: g sk_base_def)
  have "sk_keyed db'" using inv e(2,3)
    by (auto simp: sk_base_def sk_keyed_def e(1) get_skill_def intro!: keyed_table_append)
  moreover have "versions_ok db'" using vok ver(1) unfolding versions_ok_def sv by simp
  moreover have "wings_ok db'" unfolding wings_ok_def
  proof (intro allI impI)
    fix j v w x y assume a: "get_skill db' j v = Some x \<and> get_skill db' j w = Some y"
    have "wings_ok db" using inv by (simp add: sk_base_def)
    then have old: "sk_wing x = sk_wing y" if "get_skill db j v = Some x" "get_skill db j w = Some y"
      using that unfolding wings_ok_def by blast
    have new: "sk_wing t = sk_wing s" if "j = sk_skill_id s" "get_skill db j u = Some t" for u t
      using fresh_skill_wing [OF inv f] that by simp
    show "sk_wing x = sk_wing y"
      using a old new [of v x] new [of w y] by (auto simp: g split: if_splits)
  qed
  moreover have "audit_ok db'" using inv by (auto simp: sk_base_def audit_ok_def same g)
  ultimately show ?thesis using ok by (simp add: sk_base_def)
qed

lemma insert_outcome_Inr:
  assumes "insert_outcome v key db = Inr db'"
  shows "db' = db\<lparr>sk_outcomes := sk_outcomes db @ [\<lparr>or_outcome = v, or_key = key\<rparr>]\<rparr>"
    and "get_outcome db (so_outcome_id v) = None" and "get_skill db (so_skill_id v) (so_version v) \<noteq> None"
    and "find_row (\<lambda>r. so_recorded_by (or_outcome r) = so_recorded_by v \<and> or_key r = key) (sk_outcomes db) = None"
  using assms by (simp_all add: insert_outcome_def split: if_splits)

lemma insert_outcome_base:
  assumes inv: "sk_base db" and i: "insert_outcome v key db = Inr db'"
  shows "sk_base db'" and "get_skill db' = get_skill db"
proof -
  note e = insert_outcome_Inr [OF i]
  show g: "get_skill db' = get_skill db" by (simp add: fun_eq_iff get_skill_def e(1))
  have rows: "sk_outcomes db' = sk_outcomes db @ [\<lparr>or_outcome = v, or_key = key\<rparr>]" by (simp add: e(1))
  have same: "reviews_of db' = reviews_of db" "sk_rows db' = sk_rows db" "sk_reviews db' = sk_reviews db"
    "skill_versions db' = skill_versions db"
    by (simp_all add: fun_eq_iff reviews_of_def skill_versions_def e(1))
  have "has_outcome db j w \<Longrightarrow> has_outcome db' j w" for j w by (simp add: has_outcome_def e(1))
  then have so: "shared_review_ok db s r \<Longrightarrow> shared_review_ok db' s r" for s r by (simp add: shared_review_ok_def)
  have "skill_ok db s \<Longrightarrow> skill_ok db' s" for s
    using so [of s] by (auto simp: skill_ok_def same intro: list.pred_mono_strong)
  moreover have "audit_ok db'" using inv e(2,3,4)
    by (auto simp: sk_base_def audit_ok_def same g rows get_outcome_def intro!: keyed_table_append)
  ultimately show "sk_base db'" using inv
    by (auto simp: sk_base_def sk_keyed_def same g versions_ok_def wings_ok_def)
qed

subsection \<open>Promotion\<close>

lemma governed_shared:
  "governed db s prior who \<Longrightarrow> requires_distinct_review (sk_scope s) \<Longrightarrow>
   who \<noteq> sk_author s \<and> has_outcome db (sk_skill_id s) (sk_version s)"
  by (auto simp: governed_def governing_scope_def split: option.splits if_splits)

text \<open>What \<open>find_promoted_version\<close> returns is all there is.\<close>

lemma find_promoted_only:
  assumes "sk_keyed db" and "find_promoted_version db i = Inr x"
    and "get_skill db i v = Some s" and "sk_status s = SkPromoted"
  shows "x = Some s"
proof -
  let ?f = "filter (\<lambda>s. sk_status s = SkPromoted) (skill_versions db i)"
  have "s \<in> set ?f" using assms(1,3,4) get_skill_id [OF assms(3)] by (simp add: skill_versions_get)
  then have s: "s \<in> set (sort_key sk_version ?f)" by (simp only: set_sort)
  from assms(2) consider "sort_key sk_version ?f = []" | y where "sort_key sk_version ?f = [y]" "x = Some y"
    by (auto simp: find_promoted_version_def split: list.splits)
  then show ?thesis using s by cases simp_all
qed

text \<open>What a promotion changes.\<close>

lemma promote_effect:
  assumes k: "sk_keyed db" and p: "sk_promote at i v who db db'"
  shows "get_skill db' j w = map_option (\<lambda>t.
     if j = i \<and> w = v then sk_moved SkPromoted at t
     else if j = i \<and> sk_status t = SkPromoted then sk_moved SkSuperseded at t else t) (get_skill db j w)"
  using p
proof cases
  case (promote_first s)
  have "get_skill db i v = Some t \<Longrightarrow> t = s" for t using promote_first(1) by simp
  moreover have "sk_status t \<noteq> SkPromoted" if "get_skill db i w = Some t" for t
    using find_promoted_only [OF k promote_first(3) that] by auto
  ultimately show ?thesis
    using move_get [OF promote_first(5), of j w] move_get_at [OF promote_first(5)] by (cases "get_skill db j w") auto
next
  case (promote_next s p db1)
  note p = find_promoted_Some [OF promote_next(3)]
  have q: "get_skill db i (sk_version p) = Some p" using p(3) sk_keyed_row [OF k] p(1) by blast
  then have ne: "sk_version p \<noteq> v" using promote_next(1,2) p(2) by auto
  have only: "t = p" if "get_skill db i w = Some t" "sk_status t = SkPromoted" for t
    using find_promoted_only [OF k promote_next(3) that] by simp
  have q1: "get_skill db1 i (sk_version p) = Some p" using q ne move_get [OF promote_next(5), of i "sk_version p"] by simp
  have a: "get_skill db' j w = (if j = i \<and> w = sk_version p then Some (sk_moved SkSuperseded at p)
      else if j = i \<and> w = v then Some (sk_moved SkPromoted at s) else get_skill db j w)"
    using move_get [OF promote_next(6), of j w] move_get [OF promote_next(5), of j w] ne q1
      move_get_at [OF promote_next(6)] move_get_at [OF promote_next(5)] promote_next(1) by auto
  consider "j \<noteq> i" | "j = i" "w = v" | "j = i" "w = sk_version p" | "j = i" "w \<noteq> v" "w \<noteq> sk_version p" by blast
  then show ?thesis
  proof cases
    case 4
    have "sk_status t \<noteq> SkPromoted" if "get_skill db i w = Some t" for t
      using only [OF that] get_skill_id [OF that] 4(3) by auto
    with a 4 show ?thesis by (cases "get_skill db i w") auto
  qed (use a ne q p(2) promote_next(1) in \<open>auto simp: map_option_case split: option.splits\<close>)
qed

lemma promote_inv:
  assumes inv: "sk_base db" and p: "sk_promote at i v who db db'"
  shows "sk_base db'" and "one_promoted db \<Longrightarrow> one_promoted db'"
proof -
  have k: "sk_keyed db" using inv by (simp add: sk_base_def)
  from p show "sk_base db'"
  proof cases
    case (promote_first s)
    then show ?thesis by (intro move_base [OF inv promote_first(5)]) (auto dest!: governed_shared dest: get_skill_id)
  next
    case (promote_next s p db1)
    then have "sk_base db1" by (intro move_base [OF inv promote_next(5)]) (auto dest!: governed_shared dest: get_skill_id)
    from move_base [OF this promote_next(6)] show ?thesis by simp
  qed
  assume one: "one_promoted db"
  from p show "one_promoted db'"
  proof cases
    case (promote_first s)
    have np: "sk_status t \<noteq> SkPromoted" if "get_skill db i w = Some t" for w t
      using find_promoted_only [OF k promote_first(3) that] by auto
    show ?thesis using one np move_get [OF promote_first(5)] unfolding one_promoted_def by (metis option.inject)
  next
    case (promote_next s p db1)
    have op: "t = p" if "get_skill db i w = Some t" "sk_status t = SkPromoted" for w t
      using find_promoted_only [OF k promote_next(3) that] by simp
    have sup: "sk_status t \<noteq> SkPromoted" if "get_skill db' i (sk_version p) = Some t" for t
      using move_get_at [OF promote_next(6)] that by auto
    have only: "w = v" if "get_skill db' i w = Some t" "sk_status t = SkPromoted" for w t
    proof (rule ccontr)
      assume "w \<noteq> v"
      moreover have "w \<noteq> sk_version p" using sup that by auto
      ultimately have "get_skill db i w = Some t"
        using that(1) move_get [OF promote_next(5), of i w] move_get [OF promote_next(6), of i w] by simp
      with op [OF this that(2)] get_skill_id [OF this] \<open>w \<noteq> sk_version p\<close> show False by simp
    qed
    have oth: "get_skill db' j w = get_skill db j w" if "j \<noteq> i" for j w
      using that move_get [OF promote_next(5), of j w] move_get [OF promote_next(6), of j w] by simp
    show ?thesis unfolding one_promoted_def
    proof (intro allI impI)
      fix j w u s t
      assume a: "get_skill db' j w = Some s \<and> get_skill db' j u = Some t \<and> sk_status s = SkPromoted \<and> sk_status t = SkPromoted"
      show "w = u"
      proof (cases "j = i")
        case True
        with a only [of w s] only [of u t] show ?thesis by simp
      next
        case False
        with a one show ?thesis unfolding one_promoted_def by (simp add: oth) metis
      qed
    qed
  qed
qed

subsection \<open>Calls\<close>

text \<open>A stored wing is normalised already, so the start-up pass changes nothing.\<close>

lemma skill_wing_normal: "skill_wing scope (Some w) = Inr (Some w) \<Longrightarrow> wing_normalized w = Inr w"
  by (auto simp: skill_wing_def bindE_eq_Inr dest: wing_normalized_fixed split: skill_scope.splits if_splits)

lemma backfill_fixed: "(\<And>w. w \<in> set ws \<Longrightarrow> wing_normalized w = Inr w) \<Longrightarrow> backfill_loop ws db = (Inr (), db)"
  by (induction ws) (simp_all add: normalize_wing_def)

lemma stored_wings_normal:
  assumes "sk_base db" and "w \<in> set (stored_wings db)"
  shows "wing_normalized w = Inr w"
proof -
  from assms(2) obtain r where r: "r \<in> set (sk_rows db)" "sk_wing (kr_skill r) = Some w"
    by (auto simp: stored_wings_def List.map_filter_def)
  with assms(1) have "skill_ok db (kr_skill r)" using sk_keyed_row [of db r] by (auto simp: sk_base_def)
  with r(2) skill_wing_normal show ?thesis by (auto simp: skill_ok_def)
qed

lemma skills_exec_cases:
  assumes "skills_inv db"
  shows "skills_exec c db = db \<or> sk_step db (skills_exec c db)"
proof -
  have k: "sk_keyed db" using assms by (simp add: skills_inv_def sk_base_def)
  show ?thesis
  proof (cases c)
    case (SkPropose e i)
    then show ?thesis using propose_skill_outcome [of db i e]
      by (auto simp: outcome_def elim!: propose_spec.cases intro: step_propose)
  next
    case (SkOutcome e i)
    then show ?thesis using record_outcome_outcome [of db i e]
      by (auto simp: outcome_def elim!: record_outcome_spec.cases intro: step_outcome)
  next
    case (SkPromote e i v r who why)
    then show ?thesis using promote_skill_outcome [OF k, of e i v r who why]
      by (auto simp: outcome_def elim!: promote_spec.cases intro: step_promote)
  next
    case (SkRetire e i v r who why)
    then show ?thesis using retire_skill_outcome [OF k, of e i v r who why]
      by (auto simp: outcome_def elim!: retire_spec.cases intro: step_retire)
  next
    case SkBackfill
    have "backfill_wing_normalisation db = (Inr (), db)" unfolding backfill_wing_normalisation_def
      by (rule backfill_fixed, rule stored_wings_normal) (use assms in \<open>auto simp: skills_inv_def\<close>)
    with SkBackfill show ?thesis by simp
  qed
qed

lemma one_promoted_mono:
  assumes "one_promoted db" and "\<And>i v s. get_skill db' i v = Some s \<Longrightarrow> sk_status s = SkPromoted \<Longrightarrow> get_skill db i v = Some s"
  shows "one_promoted db'"
  unfolding one_promoted_def using assms unfolding one_promoted_def by meson

lemma sk_step_inv:
  assumes inv: "skills_inv db" and st: "sk_step db db'"
  shows "skills_inv db'"
proof -
  have b: "sk_base db" and o: "one_promoted db" using inv by (simp_all add: skills_inv_def)
  from st show ?thesis
  proof cases
    case (step_propose s key)
    have "one_promoted db'" using step_propose(2) get_skill_insert [OF step_propose(1)]
      by (intro one_promoted_mono [OF o]) (auto simp: fresh_skill_def split: if_splits)
    with insert_skill_base [OF b step_propose] show ?thesis by (simp add: skills_inv_def)
  next
    case (step_outcome v key)
    note k = insert_outcome_base [OF b step_outcome]
    have "one_promoted db'" by (rule one_promoted_mono [OF o]) (simp add: k(2))
    with k(1) show ?thesis by (simp add: skills_inv_def)
  next
    case (step_promote at i v who)
    with promote_inv [OF b step_promote] o show ?thesis by (simp add: skills_inv_def)
  next
    case (step_retire at i v who)
    have "sk_base db'" by (rule move_base [OF b step_retire]) simp
    moreover have "one_promoted db'"
    proof (rule one_promoted_mono [OF o])
      fix j w s assume s: "get_skill db' j w = Some s" "sk_status s = SkPromoted"
      show "get_skill db j w = Some s"
        using s move_get [OF step_retire, of j w] move_get_at [OF step_retire] by (auto split: if_splits)
    qed
    ultimately show ?thesis by (simp add: skills_inv_def)
  qed
qed

section \<open>Normalising stored wings\<close>

definition normal_wing :: "rstr \<Rightarrow> rstr" where
  "normal_wing w = (case normalize_wing w of Inr n \<Rightarrow> n | Inl _ \<Rightarrow> w)"

definition map_wings :: "(rstr \<Rightarrow> rstr) \<Rightarrow> skills \<Rightarrow> skills" where
  "map_wings f db = db\<lparr>sk_rows := map (\<lambda>r. r\<lparr>kr_skill := (kr_skill r)\<lparr>sk_wing := map_option f (sk_wing (kr_skill r))\<rparr>\<rparr>) (sk_rows db)\<rparr>"

lemma normal_wing_fixed: "wing_normalized w = Inr n \<Longrightarrow> wing_normalized (normal_wing w) = Inr (normal_wing w)"
  using wing_normalized_fixed by (simp add: normal_wing_def normalize_wing_def)

lemma set_stored_wings: "set (stored_wings db) = {w. \<exists>r \<in> set (sk_rows db). sk_wing (kr_skill r) = Some w}"
  by (auto simp: stored_wings_def List.map_filter_def image_iff) force

lemma stored_wings_map: "set (stored_wings (map_wings f db)) = f ` set (stored_wings db)"
  unfolding set_stored_wings map_wings_def by (auto simp: image_iff)

lemma map_wings_cong:
  assumes "\<And>w. w \<in> set (stored_wings db) \<Longrightarrow> f w = g w"
  shows "map_wings f db = map_wings g db"
proof -
  have "map (\<lambda>r. r\<lparr>kr_skill := (kr_skill r)\<lparr>sk_wing := map_option f (sk_wing (kr_skill r))\<rparr>\<rparr>) (sk_rows db) =
      map (\<lambda>r. r\<lparr>kr_skill := (kr_skill r)\<lparr>sk_wing := map_option g (sk_wing (kr_skill r))\<rparr>\<rparr>) (sk_rows db)"
  proof (intro map_cong refl)
    fix r assume r: "r \<in> set (sk_rows db)"
    have "map_option f (sk_wing (kr_skill r)) = map_option g (sk_wing (kr_skill r))"
      using r assms by (intro option.map_cong refl) (auto simp: set_stored_wings)
    then show "r\<lparr>kr_skill := (kr_skill r)\<lparr>sk_wing := map_option f (sk_wing (kr_skill r))\<rparr>\<rparr> =
      r\<lparr>kr_skill := (kr_skill r)\<lparr>sk_wing := map_option g (sk_wing (kr_skill r))\<rparr>\<rparr>" by simp
  qed
  then show ?thesis by (simp add: map_wings_def)
qed

lemma map_wings_id: "map_wings (\<lambda>w. w) db = db"
  by (simp add: map_wings_def option.map_ident)

lemma map_wings_comp: "map_wings f (map_wings g db) = map_wings (\<lambda>w. f (g w)) db"
  by (simp add: map_wings_def option.map_comp comp_def)

lemma rename_wing_map: "rename_wing raw n db = map_wings (\<lambda>w. if w = raw then n else w) db"
proof -
  have "(if sk_wing (kr_skill r) = Some raw then r\<lparr>kr_skill := (kr_skill r)\<lparr>sk_wing := Some n\<rparr>\<rparr> else r) =
      r\<lparr>kr_skill := (kr_skill r)\<lparr>sk_wing := map_option (\<lambda>w. if w = raw then n else w) (sk_wing (kr_skill r))\<rparr>\<rparr>" for r
    by (cases "sk_wing (kr_skill r)") simp_all
  then have "update_rows (\<lambda>r. sk_wing (kr_skill r) = Some raw) (\<lambda>r. r\<lparr>kr_skill := (kr_skill r)\<lparr>sk_wing := Some n\<rparr>\<rparr>) (sk_rows db) =
      map (\<lambda>r. r\<lparr>kr_skill := (kr_skill r)\<lparr>sk_wing := map_option (\<lambda>w. if w = raw then n else w) (sk_wing (kr_skill r))\<rparr>\<rparr>) (sk_rows db)"
    unfolding update_rows_def by (intro map_cong refl)
  then show ?thesis by (simp only: rename_wing_def map_wings_def)
qed

lemma backfill_loop_ok:
  "backfill_loop ws db = (Inr u, db') \<Longrightarrow>
     (\<forall>w \<in> set ws. \<exists>n. wing_normalized w = Inr n) \<and>
     db' = map_wings (\<lambda>w. if w \<in> set ws then normal_wing w else w) db"
proof (induction ws db rule: backfill_loop.induct)
  case (2 raw rest db)
  from 2(2) obtain n where n: "wing_normalized raw = Inr n"
    and l: "backfill_loop rest (if n \<noteq> raw then rename_wing raw n db else db) = (Inr u, db')"
    by (auto split: sum.splits)
  have r: "(if n \<noteq> raw then rename_wing raw n db else db) = map_wings (\<lambda>w. if w = raw then n else w) db"
  proof (cases "n = raw")
    case True
    then have "(\<lambda>w. if w = raw then n else w) = (\<lambda>w. w)" by auto
    with True show ?thesis by (simp only: map_wings_id) simp
  qed (simp add: rename_wing_map)
  have nn: "normal_wing n = n" "normal_wing raw = n"
    using n wing_normalized_fixed [OF n] by (simp_all add: normal_wing_def normalize_wing_def)
  from 2(1) [of n] n l have IH: "\<forall>w \<in> set rest. \<exists>n. wing_normalized w = Inr n"
    "db' = map_wings (\<lambda>w. if w \<in> set rest then normal_wing w else w) (map_wings (\<lambda>w. if w = raw then n else w) db)"
    unfolding r by (simp_all add: normalize_wing_def)
  have "(\<lambda>w. if (if w = raw then n else w) \<in> set rest then normal_wing (if w = raw then n else w) else (if w = raw then n else w)) =
      (\<lambda>w. if w \<in> set (raw # rest) then normal_wing w else w)"
    by (rule ext) (simp add: nn)
  with IH n show ?case by (simp add: map_wings_comp)
qed (simp add: map_wings_id)

lemma backfill_loop_error:
  "backfill_loop ws db = (Inl x, db') \<Longrightarrow>
     x = InvalidId (IdEmpty (lit ''wing'')) \<and> (\<exists>w. w \<in> set ws \<and> trim w = []) \<and> (\<exists>f. db' = map_wings f db)"
proof (induction ws db rule: backfill_loop.induct)
  case (2 raw rest db)
  show ?case
  proof (cases "wing_normalized raw")
    case (Inl y)
    with 2(2) wing_normalized_error [OF Inl] map_wings_id [of db, symmetric] show ?thesis
      by (auto simp: normalize_wing_def)
  next
    case (Inr n)
    have "\<exists>f. (if n \<noteq> raw then rename_wing raw n db else db) = map_wings f db"
      using rename_wing_map map_wings_id [of db, symmetric] by (cases "n = raw") auto
    with 2 Inr show ?thesis by (fastforce simp: normalize_wing_def map_wings_comp)
  qed
qed simp

section \<open>History\<close>

definition skill_le :: "skill \<Rightarrow> skill \<Rightarrow> bool" where
  "skill_le s s' \<longleftrightarrow>
     s' = s\<lparr>sk_status := sk_status s', sk_revision := sk_revision s', sk_updated_at := sk_updated_at s'\<rparr> \<and>
     sk_revision s \<le> sk_revision s' \<and> (sk_revision s' = sk_revision s \<longrightarrow> s' = s) \<and>
     (skill_terminal (sk_status s) \<longrightarrow> s' = s)"

definition skills_extends :: "skills \<Rightarrow> skills \<Rightarrow> bool" where
  "skills_extends db db' \<longleftrightarrow>
     (\<exists>rs. sk_reviews db' = sk_reviews db @ rs) \<and> (\<exists>os. sk_outcomes db' = sk_outcomes db @ os) \<and>
     (\<forall>i v s. get_skill db i v = Some s \<longrightarrow> (\<exists>s'. get_skill db' i v = Some s' \<and> skill_le s s'))"

lemma skill_le_refl [simp]: "skill_le s s"
  by (simp add: skill_le_def)

lemma skill_le_trans:
  assumes "skill_le s t" and "skill_le t u"
  shows "skill_le s u"
proof -
  have "u = s\<lparr>sk_status := sk_status u, sk_revision := sk_revision u, sk_updated_at := sk_updated_at u\<rparr>"
    using assms unfolding skill_le_def by (cases s; cases t; cases u) simp
  with assms show ?thesis unfolding skill_le_def by (metis antisym order_trans)
qed

lemma skills_extends_refl: "skills_extends db db"
  by (simp add: skills_extends_def)

lemma skills_extends_trans: "skills_extends a b \<Longrightarrow> skills_extends b c \<Longrightarrow> skills_extends a c"
  unfolding skills_extends_def by (elim conjE exE, intro conjI) (auto, meson skill_le_trans)

lemma sk_moved_le: "allowed_move (sk_status s) st \<Longrightarrow> skill_le s (sk_moved st at s)"
  by (cases "sk_status s") (simp_all add: skill_le_def sk_moved_def)

lemma move_extends:
  assumes "sk_move at i v st who db db'"
  shows "skills_extends db db'"
proof -
  from assms obtain s x rs where s: "get_skill db i v = Some s" "allowed_move (sk_status s) st"
    "db' = (move_rows st at s db)\<lparr>sk_reviews := sk_reviews db @ rs\<rparr>" by (auto elim: sk_moveE)
  have "\<exists>q. get_skill db' j w = Some q \<and> skill_le t q" if t: "get_skill db j w = Some t" for j w t
  proof (cases "j = i \<and> w = v")
    case True
    with t s(1,2) get_skill_id [OF s(1)] sk_moved_le [OF s(2)] show ?thesis by (simp add: s(3) get_skill_move)
  next
    case False
    with move_get [OF assms, of j w] t show ?thesis by simp
  qed
  then show ?thesis by (simp add: skills_extends_def s(3) move_rows_def)
qed

lemma sk_step_extends: "sk_step db db' \<Longrightarrow> skills_extends db db'"
proof (erule sk_stepE)
  fix s key assume i: "insert_skill s key db = Inr db'"
  from insert_skill_Inr [OF i] get_skill_insert [OF i] show "skills_extends db db'"
    by (auto simp: skills_extends_def)
next
  fix v key assume "insert_outcome v key db = Inr db'"
  note e = insert_outcome_Inr(1) [OF this]
  have "get_skill db' = get_skill db" by (simp add: fun_eq_iff get_skill_def e)
  then show "skills_extends db db'" by (simp add: skills_extends_def e)
next
  fix at i v who assume "sk_promote at i v who db db'"
  then show "skills_extends db db'" by cases (auto intro: move_extends skills_extends_trans)
qed (rule move_extends)

interpretation skills_hist: history_machine skills_init skills_exec skills_inv skills_extends
proof unfold_locales
  show "skills_inv skills_init"
    by (simp add: skills_inv_def sk_base_def skills_init_def sk_keyed_def versions_ok_def wings_ok_def audit_ok_def
        one_promoted_def get_skill_def skill_versions_def)
  show "skills_inv s \<Longrightarrow> skills_inv (skills_exec c s)" for s c
    using skills_exec_cases [of s c] sk_step_inv by auto
  show "skills_inv s \<Longrightarrow> skills_extends s (skills_exec c s)" for s c
    using skills_exec_cases [of s c] sk_step_extends skills_extends_refl by auto
qed (fact skills_extends_refl skills_extends_trans)+

end
