(* ===== verification/Skills_Props.thy ===== *)
theory Skills_Props
  imports Skills_Inv Samples
begin

text \<open>
  The properties of the skill registry, over any run of its calls; the start-up normalisation over any
  stored table; and a run in which a shared skill loses its authority without a second person.
\<close>

text \<open>
  C10: In every state any calls can reach, the versions of a skill are 1, 2, 3, ... in proposal order, all
  in one normalised wing, each superseding the one before; at most one of them is promoted; the
  reviews of a version are a legal path from candidate to its status, one per revision; and
  identifiers, keys and references are sound.
\<close>

theorem skills_reachable_inv: "skills_inv (run_calls skills_exec cs skills_init)"
  by (rule skills_hist.reachable_inv)

text \<open>
  C11: A project or organization version that is promoted, or was until it was superseded, has a recorded
  outcome and a review by somebody other than its author that promoted it.
\<close>

theorem shared_promotion_reviewed:
  "{s \<in> set (skill_versions (run_calls skills_exec cs skills_init) i).
      requires_distinct_review (sk_scope s) \<and> sk_status s \<in> {SkPromoted, SkSuperseded}} \<subseteq>
   {s. has_outcome (run_calls skills_exec cs skills_init) i (sk_version s) \<and>
      (\<exists>r. r \<in> set (reviews_of (run_calls skills_exec cs skills_init) i (sk_version s)) \<and>
         rv_to_status r = SkPromoted \<and> rv_reviewer r \<noteq> sk_author s)}"
proof (intro subsetI, clarify)
  let ?db = "run_calls skills_exec cs skills_init"
  fix s assume s: "s \<in> set (skill_versions ?db i)" "requires_distinct_review (sk_scope s)"
    "sk_status s \<in> {SkPromoted, SkSuperseded}"
  have inv: "sk_base ?db" using skills_hist.reachable_inv [of cs] by (simp add: skills_inv_def)
  then have g: "get_skill ?db i (sk_version s) = Some s" using s(1) by (simp add: skill_versions_get sk_base_def)
  then have ok: "skill_ok ?db s" using inv by (simp add: sk_base_def)
  have id: "sk_skill_id s = i" using get_skill_id [OF g] by simp
  have visits: "\<exists>r \<in> set rs. rv_to_status r = SkPromoted"
    if "trail st rs = Some st'" "st' = SkPromoted \<or> st' = SkSuperseded" "st = SkCandidate \<or> st = SkRetired" for st rs st'
    using that
  proof (induction st rs rule: trail.induct)
    case (2 st r rs)
    then show ?case by (cases "rv_to_status r") (auto split: if_splits)
  qed auto
  from ok s(3) id visits [of SkCandidate _ "sk_status s"]
  obtain r where r: "r \<in> set (reviews_of ?db i (sk_version s))" "rv_to_status r = SkPromoted"
    by (auto simp: skill_ok_def)
  with ok s(2) id have "rv_reviewer r \<noteq> sk_author s \<and> has_outcome ?db i (sk_version s)"
    by (auto simp: skill_ok_def list_all_iff shared_review_ok_def)
  with r show "has_outcome ?db i (sk_version s) \<and> (\<exists>r. r \<in> set (reviews_of ?db i (sk_version s)) \<and>
      rv_to_status r = SkPromoted \<and> rv_reviewer r \<noteq> sk_author s)" by blast
qed

text \<open>
  What a promotion does, from any reachable state. A refusal or a conflict changes nothing, and a
  conflict reports the revision found. Otherwise the version was a candidate at the revision the
  caller named, the reviewer is the author for agent scope, or another actor, with an outcome on
  record, where the version or the one it displaces has a shared scope; the version becomes promoted,
  the promoted version of that skill, where there was one, becomes superseded, and no other changes.
\<close>

theorem promote_skill_rules:
  "case promote_skill e (run_calls skills_exec cs skills_init) i v expected who why of
     (Inl x, db') \<Rightarrow> db' = run_calls skills_exec cs skills_init
   | (Inr (Conflict c), db') \<Rightarrow> db' = run_calls skills_exec cs skills_init \<and> c \<noteq> Some expected \<and>
       c = map_option sk_revision (get_skill (run_calls skills_exec cs skills_init) i v)
   | (Inr (Applied s'), db') \<Rightarrow>
       (\<exists>s prior. get_skill (run_calls skills_exec cs skills_init) i v = Some s \<and> sk_revision s = expected \<and>
          sk_status s = SkCandidate \<and> s' = sk_moved SkPromoted (env_now e) s \<and>
          find_promoted_version (run_calls skills_exec cs skills_init) i = Inr prior \<and>
          governed (run_calls skills_exec cs skills_init) s prior who) \<and>
       (\<forall>j w. get_skill db' j w = map_option (\<lambda>t.
          if j = i \<and> w = v then sk_moved SkPromoted (env_now e) t
          else if j = i \<and> sk_status t = SkPromoted then sk_moved SkSuperseded (env_now e) t else t)
            (get_skill (run_calls skills_exec cs skills_init) j w))"
proof -
  let ?db = "run_calls skills_exec cs skills_init"
  have inv: "skills_inv ?db" by (rule skills_hist.reachable_inv)
  then have k: "sk_keyed ?db" and one: "one_promoted ?db" by (simp_all add: skills_inv_def sk_base_def)
  obtain r db' where rdb: "promote_skill e ?db i v expected who why = (r, db')" by fastforce
  from outcomeD [OF promote_skill_outcome [OF k] rdb] show ?thesis
  proof cases
    case (pr_applied s s')
    have all: "get_skill db' j w = map_option (\<lambda>t.
          if j = i \<and> w = v then sk_moved SkPromoted (env_now e) t
          else if j = i \<and> sk_status t = SkPromoted then sk_moved SkSuperseded (env_now e) t else t) (get_skill ?db j w)" for j w
      using promote_effect [OF k pr_applied(4)] by blast
    from pr_applied(4) obtain prior where g: "sk_status s = SkCandidate"
      "find_promoted_version ?db i = Inr prior" "governed ?db s prior who"
      using pr_applied(2) by cases auto
    have "s' = sk_moved SkPromoted (env_now e) s" using pr_applied(2,5) all [of i v] by simp
    with pr_applied(1,2,3) g all show ?thesis unfolding rdb by simp
  qed (auto simp: rdb)
qed

text \<open>
  The start-up normalisation of stored wings, from any stored registry: if every stored wing has a
  normal form each row's wing becomes that form, nothing else changes, and a second pass would change
  nothing; otherwise it stops with the error of the first wing that has none, and no other column
  has changed.
\<close>

theorem backfill_normalises:
  "case backfill_wing_normalisation db of
     (Inr _, db') \<Rightarrow> db' = map_wings normal_wing db \<and>
       set (stored_wings db') \<subseteq> {w. wing_normalized w = Inr w} \<and> backfill_wing_normalisation db' = (Inr (), db')
   | (Inl x, db') \<Rightarrow> x = InvalidId (IdEmpty (lit ''wing'')) \<and> (\<exists>w. w \<in> set (stored_wings db) \<and> trim w = []) \<and>
       (\<exists>f. db' = map_wings f db)"
proof (cases "fst (backfill_wing_normalisation db)")
  case (Inr u)
  let ?db' = "snd (backfill_wing_normalisation db)"
  have b: "backfill_wing_normalisation db = (Inr u, ?db')" using Inr by (simp add: prod_eq_iff)
  from backfill_loop_ok [OF b [unfolded backfill_wing_normalisation_def]]
  have n: "\<forall>w \<in> set (stored_wings db). \<exists>n. wing_normalized w = Inr n"
    and e: "?db' = map_wings (\<lambda>w. if w \<in> set (stored_wings db) then normal_wing w else w) db"
    by (simp_all add: backfill_wing_normalisation_def)
  have e': "?db' = map_wings normal_wing db" unfolding e
    by (rule map_wings_cong) (simp add: set_stored_wings)
  have s: "set (stored_wings ?db') \<subseteq> {w. wing_normalized w = Inr w}"
    using n by (auto simp: e' stored_wings_map intro: normal_wing_fixed)
  then have "backfill_wing_normalisation ?db' = (Inr (), ?db')"
    unfolding backfill_wing_normalisation_def by (intro backfill_fixed) auto
  with e' s show ?thesis by (subst b) simp
next
  case (Inl x)
  let ?db' = "snd (backfill_wing_normalisation db)"
  have b: "backfill_wing_normalisation db = (Inl x, ?db')" using Inl by (simp add: prod_eq_iff)
  from backfill_loop_error [OF b [unfolded backfill_wing_normalisation_def]]
  show ?thesis by (subst b) (simp add: backfill_wing_normalisation_def)
qed

definition sample_skill :: "skill_scope \<Rightarrow> nat \<Rightarrow> nat \<Rightarrow> new_skill" where
  "sample_skill scope author key = \<lparr>nk_skill_id = [115], nk_scope = scope, nk_wing = None, nk_applicability = [],
     nk_instructions_ref = [], nk_required_capabilities = [], nk_required_tools = [], nk_required_permissions = [],
     nk_author = [author], nk_provenance = None, nk_confidence = 0, nk_idempotency_key = [key]\<rparr>"

definition sample_reviewed :: "skills_call list" where
  "sample_reviewed = [SkPropose (sample_env 1 100) (sample_skill ScOrganization 97 107),
     SkOutcome (sample_env 2 200) \<lparr>no_skill_id = [115], no_version = 1, no_task_id = None, no_result = SoSuccess,
       no_evaluator = [], no_notes = [], no_recorded_by = [98], no_outcome_key = [107]\<rparr>,
     SkPromote (sample_env 3 300) [115] 1 0 [98] [],
     SkPropose (sample_env 4 400) (sample_skill ScAgent 99 108)]"

lemmas skills_eval = sample_skill_def sample_reviewed_def skills_init_def propose_skill_def confidence_ok_def skill_wing_def
  find_skill_by_key_def latest_version_def skill_versions_def check_same_wing_def insert_skill_def get_skill_def
  record_outcome_def find_outcome_by_key_def get_outcome_def require_skill_def insert_outcome_def promote_skill_def
  find_promoted_version_def check_governance_def governing_scope_def has_outcome_def count_skills_def at_revision_def
  insert_review_def set_status_def supersede_promoted_def retire_skill_def

text \<open>
  Retiring needs no second person, and a retired version is no longer displaced by the next promotion.
  So the author of a weaker-scoped successor can retire a promoted organization version and then
  promote the successor alone, although promoting it directly is refused.
\<close>

theorem shared_review_bypass:
  "(\<exists>x. fst (promote_skill (sample_env 5 500) (run_calls skills_exec sample_reviewed skills_init) [115] 2 0 [99] []) = Inl x) \<and>
   (\<exists>s. find_promoted_version (run_calls skills_exec (sample_reviewed @ [SkRetire (sample_env 5 500) [115] 1 1 [99] [],
       SkPromote (sample_env 6 600) [115] 2 0 [99] []]) skills_init) [115] = Inr (Some s) \<and>
     sk_version s = 2 \<and> sk_author s = [99] \<and> \<not> has_outcome (run_calls skills_exec (sample_reviewed @
       [SkRetire (sample_env 5 500) [115] 1 1 [99] [], SkPromote (sample_env 6 600) [115] 2 0 [99] []]) skills_init) [115] 2)"
  by (simp add: eval_defs skills_eval)

end
