(* ===== verification/Receipts.thy ===== *)
theory Receipts
  imports Contracts
begin

text \<open>
  Durable mutation receipts, \<open>crates/agentpalace-storage/src/receipt.rs\<close>: a replicated mutation announces
  itself under an owner-scoped operation key, and its response is kept under that key. A row holds
  the owner scope as text (\<open>legacy\<close> for none); \<open>receipt_of_row\<close> reads it back.
\<close>

definition RECEIPT_MAX_IDENTIFIER_BYTES :: nat where "RECEIPT_MAX_IDENTIFIER_BYTES = 256"
definition MAX_RESPONSE_BYTES :: nat where "MAX_RESPONSE_BYTES = 1024 * 1024"

datatype receipt_state = ReceiptPending | ReceiptCompleted

record mutation_receipt =
  mu_operation_id :: rstr
  mu_operation_key :: owner_scoped_key
  mu_operation_kind :: rstr
  mu_request_hash :: rstr
  mu_target_id :: rstr
  mu_status :: receipt_state
  mu_response :: "json option"
  mu_details :: "json option"
  mu_provenance :: "provenance_envelope option"
  mu_created_at :: int
  mu_completed_at :: "int option"

datatype receipt_outcome =
  Fresh mutation_receipt
| Replay mutation_receipt
| Recover mutation_receipt
| KeyConflict rstr

record new_receipt =
  ni_operation_key :: owner_scoped_key
  ni_operation_kind :: rstr
  ni_request_hash :: rstr
  ni_target_id :: rstr
  ni_provenance :: "provenance_envelope option"

record receipt_row =
  rc_owner_scope :: rstr
  rc_operation_id :: rstr
  rc_operation_kind :: rstr
  rc_request_hash :: rstr
  rc_target_id :: rstr
  rc_status :: receipt_state
  rc_response :: "json option"
  rc_details :: "json option"
  rc_provenance :: "provenance_envelope option"
  rc_created_at :: int
  rc_completed_at :: "int option"

type_synonym receipts = "receipt_row list"

section \<open>Keys and rows\<close>

text \<open>A key given as text is a legacy key; an owner-scoped one is validated again.\<close>

datatype receipt_key = ScopedKey owner_scoped_key | RawKey rstr

definition provenance_invariant :: "provenance_error \<Rightarrow> storage_error" where
  "provenance_invariant x = Invariant (provenance_error_text x)"

fun into_receipt_key :: "receipt_key \<Rightarrow> storage_error + owner_scoped_key" where
  "into_receipt_key (ScopedKey k) = bindE (mapE provenance_invariant (validate_scoped_key k)) (\<lambda>_. Inr k)"
| "into_receipt_key (RawKey s) = mapE provenance_invariant (new_scoped_key None s)"

definition owner_scope :: "owner_scoped_key \<Rightarrow> rstr" where
  "owner_scope k = (case osk_owner k of Some owner \<Rightarrow> owner | None \<Rightarrow> lit ''legacy'')"

definition receipt_conv :: "provenance_error \<Rightarrow> storage_error" where
  "receipt_conv x = Sqlite (InvalidColumn (lit ''invalid stored receipt value: '' @ provenance_error_text x))"

definition receipt_of_row :: "receipt_row \<Rightarrow> storage_error + mutation_receipt" where
  "receipt_of_row r =
     bindE (if rc_owner_scope r = lit ''legacy'' then Inr None
            else bindE (mapE receipt_conv (new_owner_id (rc_owner_scope r))) (\<lambda>w. Inr (Some w))) (\<lambda>owner.
     bindE (mapE receipt_conv (new_scoped_key owner (rc_operation_id r))) (\<lambda>key.
     Inr \<lparr>mu_operation_id = rc_operation_id r, mu_operation_key = key, mu_operation_kind = rc_operation_kind r,
       mu_request_hash = rc_request_hash r, mu_target_id = rc_target_id r, mu_status = rc_status r,
       mu_response = rc_response r, mu_details = rc_details r, mu_provenance = rc_provenance r,
       mu_created_at = rc_created_at r, mu_completed_at = rc_completed_at r\<rparr>))"

definition has_key :: "owner_scoped_key \<Rightarrow> receipt_row \<Rightarrow> bool" where
  "has_key k r \<longleftrightarrow> rc_owner_scope r = owner_scope k \<and> rc_operation_id r = osk_raw k"

definition receipt_by_key :: "receipts \<Rightarrow> owner_scoped_key \<Rightarrow> storage_error + mutation_receipt option" where
  "receipt_by_key db k =
     (case find_row (has_key k) db of
        None \<Rightarrow> Inr None
      | Some r \<Rightarrow> bindE (receipt_of_row r) (\<lambda>m. Inr (Some m)))"

section \<open>Validation\<close>

definition receipt_nonempty :: "rstr \<Rightarrow> rstr \<Rightarrow> storage_error + unit" where
  "receipt_nonempty value name =
     (if trim value = [] then Inl (Invariant (name @ lit '' must not be empty'')) else Inr ())"

definition receipt_bounded :: "rstr \<Rightarrow> rstr \<Rightarrow> storage_error + unit" where
  "receipt_bounded value name =
     (if str_len value > RECEIPT_MAX_IDENTIFIER_BYTES
      then Inl (Invariant (name @ lit '' must be at most '' @ show_nat RECEIPT_MAX_IDENTIFIER_BYTES @ lit '' bytes''))
      else receipt_nonempty value name)"

definition validate_provenance_scope ::
  "env \<Rightarrow> provenance_envelope option \<Rightarrow> owner_scoped_key \<Rightarrow> storage_error + unit" where
  "validate_provenance_scope e p k =
     (case p of
        None \<Rightarrow> Inr ()
      | Some env \<Rightarrow> bindE (mapE provenance_invariant (validate_envelope e env)) (\<lambda>_.
          if pe_operation_id env \<noteq> Some k
          then Inl (Invariant (lit ''receipt provenance operation key does not match receipt key''))
          else Inr ()))"

section \<open>Operations\<close>

definition insert_receipt :: "receipt_row \<Rightarrow> receipts \<Rightarrow> storage_error + receipts" where
  "insert_receipt r db =
     (if find_row (\<lambda>q. rc_owner_scope q = rc_owner_scope r \<and> rc_operation_id q = rc_operation_id r) db \<noteq> None
      then Inl (Sqlite (UniqueViolation (lit ''mutation_receipts.owner_scope, mutation_receipts.operation_id'')))
      else Inr (db @ [r]))"

definition begin_receipt :: "env \<Rightarrow> receipts \<Rightarrow> new_receipt \<Rightarrow> (storage_error + receipt_outcome) \<times> receipts" where
  "begin_receipt e db input =
     try_tx db (mapE provenance_invariant (validate_scoped_key (ni_operation_key input))) (\<lambda>_.
     try_tx db (validate_provenance_scope e (ni_provenance input) (ni_operation_key input)) (\<lambda>_.
     try_tx db (receipt_bounded (ni_operation_kind input) (lit ''operation_kind'')) (\<lambda>_.
     try_tx db (receipt_bounded (ni_request_hash input) (lit ''request_hash'')) (\<lambda>_.
     try_tx db (receipt_nonempty (ni_target_id input) (lit ''target_id'')) (\<lambda>_.
     try_tx db (receipt_by_key db (ni_operation_key input)) (\<lambda>existing.
     case existing of
       Some m \<Rightarrow>
         if mu_request_hash m \<noteq> ni_request_hash input
         then (Inr (KeyConflict (osk_raw (ni_operation_key input))), db)
         else (case mu_status m of
                 ReceiptCompleted \<Rightarrow> (Inr (Replay m), db)
               | ReceiptPending \<Rightarrow> (Inr (Recover m), db))
     | None \<Rightarrow>
         try_tx db (format_time e (env_now e)) (\<lambda>created.
         try_tx db (insert_receipt
             \<lparr>rc_owner_scope = owner_scope (ni_operation_key input),
              rc_operation_id = osk_raw (ni_operation_key input), rc_operation_kind = ni_operation_kind input,
              rc_request_hash = ni_request_hash input, rc_target_id = ni_target_id input,
              rc_status = ReceiptPending, rc_response = None, rc_details = None,
              rc_provenance = ni_provenance input, rc_created_at = created, rc_completed_at = None\<rparr> db) (\<lambda>db1.
         try_tx db (receipt_by_key db1 (ni_operation_key input)) (\<lambda>inserted.
         case inserted of
           Some m \<Rightarrow> (Inr (Fresh m), db1)
         | None \<Rightarrow> (Inl (Invariant (lit ''inserted receipt disappeared'')), db))))))))))"

definition complete_receipt :: "env \<Rightarrow> receipts \<Rightarrow> receipt_key \<Rightarrow> json \<Rightarrow> (storage_error + unit) \<times> receipts" where
  "complete_receipt e db key response =
     try_tx db (into_receipt_key key) (\<lambda>k.
     if env_json_len e response > MAX_RESPONSE_BYTES
     then (Inl (Invariant (lit ''receipt response exceeds '' @ show_nat MAX_RESPONSE_BYTES @ lit '' bytes'')), db)
     else
     try_tx db (receipt_by_key db k) (\<lambda>existing.
     case existing of
       None \<Rightarrow> (Inl (Invariant (lit ''cannot complete unknown receipt `'' @ composite_key k @ lit ''`'')), db)
     | Some m \<Rightarrow>
         if mu_status m \<noteq> ReceiptPending then (Inr (), db)
         else
         try_tx db (format_time e (env_now e)) (\<lambda>completed.
         (Inr (), update_rows (\<lambda>r. has_key k r \<and> rc_status r = ReceiptPending)
            (\<lambda>r. r\<lparr>rc_status := ReceiptCompleted, rc_response := Some response, rc_completed_at := Some completed\<rparr>) db))))"

definition get_receipt :: "receipts \<Rightarrow> receipt_key \<Rightarrow> storage_error + mutation_receipt option" where
  "get_receipt db key = bindE (into_receipt_key key) (receipt_by_key db)"

definition set_receipt_details :: "env \<Rightarrow> receipts \<Rightarrow> receipt_key \<Rightarrow> json \<Rightarrow> (storage_error + unit) \<times> receipts" where
  "set_receipt_details e db key details =
     try_tx db (into_receipt_key key) (\<lambda>k.
     if env_json_len e details > MAX_RESPONSE_BYTES
     then (Inl (Invariant (lit ''receipt details exceed '' @ show_nat MAX_RESPONSE_BYTES @ lit '' bytes'')), db)
     else
     try_tx db (receipt_by_key db k) (\<lambda>existing.
     case existing of
       None \<Rightarrow> (Inl (Invariant (lit ''cannot annotate unknown receipt `'' @ composite_key k @ lit ''`'')), db)
     | Some m \<Rightarrow>
         if mu_status m \<noteq> ReceiptPending
         then (Inl (Invariant (lit ''cannot annotate completed receipt `'' @ composite_key k @ lit ''`'')), db)
         else (Inr (), update_rows (\<lambda>r. has_key k r \<and> rc_status r = ReceiptPending)
                 (\<lambda>r. r\<lparr>rc_details := Some details\<rparr>) db)))"

fun read_receipts :: "receipts \<Rightarrow> storage_error + mutation_receipt list" where
  "read_receipts [] = Inr []"
| "read_receipts (r # rs) = bindE (receipt_of_row r) (\<lambda>m. bindE (read_receipts rs) (\<lambda>ms. Inr (m # ms)))"

text \<open>\<open>stored\<close> is the text of a stored timestamp, which SQLite compares.\<close>

definition pending_receipts :: "(int \<Rightarrow> rstr) \<Rightarrow> receipts \<Rightarrow> storage_error + mutation_receipt list" where
  "pending_receipts stored db =
     read_receipts (sort_key (\<lambda>r. stored (rc_created_at r)) (filter (\<lambda>r. rc_status r = ReceiptPending) db))"

end
