(* ===== verification/Receipts_Ledger.thy ===== *)
theory Receipts_Ledger
  imports Receipts
begin

text \<open>
  What the receipts promise, as a ledger: a partial map from valid owner-scoped keys to the request hash
  and, once there is one, the response. The table implements it (\<open>ledger\<close> is the abstraction), every
  operation is one ledger operation or leaves the table alone, and later calls only add entries and
  fill in missing responses.
\<close>

section \<open>The ledger\<close>

type_synonym ledger = "owner_scoped_key \<Rightarrow> (rstr \<times> json option) option"

datatype ledger_reply = LFresh | LReplay "json option" | LRecover | LConflict

definition ledger_begin :: "ledger \<Rightarrow> owner_scoped_key \<Rightarrow> rstr \<Rightarrow> ledger_reply \<times> ledger" where
  "ledger_begin l k h =
     (case l k of
        None \<Rightarrow> (LFresh, l(k \<mapsto> (h, None)))
      | Some (h', response) \<Rightarrow>
          if h' \<noteq> h then (LConflict, l)
          else (case response of None \<Rightarrow> (LRecover, l) | Some _ \<Rightarrow> (LReplay response, l)))"

definition ledger_complete :: "ledger \<Rightarrow> owner_scoped_key \<Rightarrow> json \<Rightarrow> ledger" where
  "ledger_complete l k response =
     (case l k of Some (h, None) \<Rightarrow> l(k \<mapsto> (h, Some response)) | _ \<Rightarrow> l)"

fun reply_of :: "receipt_outcome \<Rightarrow> ledger_reply" where
  "reply_of (Fresh m) = LFresh"
| "reply_of (Replay m) = LReplay (mu_response m)"
| "reply_of (Recover m) = LRecover"
| "reply_of (KeyConflict i) = LConflict"

definition ledger :: "receipts \<Rightarrow> ledger" where
  "ledger db k = (if wf_scoped_key k
     then map_option (\<lambda>r. (rc_request_hash r, rc_response r)) (find_row (has_key k) db) else None)"

section \<open>Invariant\<close>

definition receipt_ok :: "receipt_row \<Rightarrow> bool" where
  "receipt_ok r \<longleftrightarrow> (\<exists>k. wf_scoped_key k \<and> has_key k r \<and>
       (case rc_provenance r of None \<Rightarrow> True | Some p \<Rightarrow> pe_operation_id p = Some k)) \<and>
     (rc_status r = ReceiptCompleted) = (rc_response r \<noteq> None) \<and>
     (rc_status r = ReceiptCompleted) = (rc_completed_at r \<noteq> None)"

definition receipts_inv :: "receipts \<Rightarrow> bool" where
  "receipts_inv db \<longleftrightarrow> distinct (map (\<lambda>r. (rc_owner_scope r, rc_operation_id r)) db) \<and> list_all receipt_ok db"

lemma owner_scope_key: "owner_scope = key_scope"
  by (rule ext) (simp add: owner_scope_def key_scope_def)

text \<open>The columns determine a valid key, and reading a row gives that key back.\<close>

lemma has_key_inject: "wf_scoped_key k \<Longrightarrow> wf_scoped_key k' \<Longrightarrow> has_key k r \<Longrightarrow> has_key k' r \<Longrightarrow> k' = k"
  unfolding has_key_def owner_scope_key by (metis key_scope_inject owner_scoped_key_eqI)

lemma has_key_wf: "wf_scoped_key k \<Longrightarrow> wf_scoped_key k' \<Longrightarrow> has_key k r \<Longrightarrow> has_key k' r \<longleftrightarrow> k' = k"
  using has_key_inject by blast

definition receipt_at :: "owner_scoped_key \<Rightarrow> receipt_row \<Rightarrow> mutation_receipt" where
  "receipt_at k r = \<lparr>mu_operation_id = rc_operation_id r, mu_operation_key = k, mu_operation_kind = rc_operation_kind r,
     mu_request_hash = rc_request_hash r, mu_target_id = rc_target_id r, mu_status = rc_status r,
     mu_response = rc_response r, mu_details = rc_details r, mu_provenance = rc_provenance r,
     mu_created_at = rc_created_at r, mu_completed_at = rc_completed_at r\<rparr>"

lemma receipt_of_row_key:
  assumes "wf_scoped_key k" and "has_key k r"
  shows "receipt_of_row r = Inr (receipt_at k r)"
proof -
  have raw: "trim (osk_raw k) = osk_raw k" using assms(1) by (simp add: wf_scoped_key_def)
  have k: "new_scoped_key (osk_owner k) (osk_raw k) = Inr k" using assms(1) raw by (simp add: new_scoped_key_ok)
  show ?thesis
  proof (cases "osk_owner k")
    case None
    with assms(2) k show ?thesis by (simp add: receipt_of_row_def receipt_at_def has_key_def owner_scope_def)
  next
    case (Some w)
    with assms(1) have v: "validate_owner_id w = Inr ()" by (simp add: wf_scoped_key_def)
    then have "w \<noteq> lit ''legacy''" by (auto simp: validate_owner_id_ok reserved_lower reserved_owner_ids_def)
    with assms(2) k Some v show ?thesis
      by (simp add: receipt_of_row_def receipt_at_def has_key_def owner_scope_def new_owner_id_def)
  qed
qed

lemma receipt_by_key_wf:
  "wf_scoped_key k \<Longrightarrow> receipt_by_key db k = Inr (map_option (receipt_at k) (find_row (has_key k) db))"
  by (auto simp: receipt_by_key_def receipt_of_row_key dest: find_row_SomeD split: option.splits)

lemma validate_key_wf [simp]: "mapE provenance_invariant (validate_scoped_key k) = Inr u \<longleftrightarrow> wf_scoped_key k"
  using validate_scoped_key_ok by simp

lemma into_receipt_key_wf: "into_receipt_key key = Inr k \<Longrightarrow> wf_scoped_key k"
  by (cases key) (auto simp: bindE_eq_Inr new_scoped_key_ok validate_scoped_key_ok)

section \<open>Branches\<close>

definition fresh_row :: "env \<Rightarrow> new_receipt \<Rightarrow> receipt_row" where
  "fresh_row e i = \<lparr>rc_owner_scope = owner_scope (ni_operation_key i), rc_operation_id = osk_raw (ni_operation_key i),
     rc_operation_kind = ni_operation_kind i, rc_request_hash = ni_request_hash i, rc_target_id = ni_target_id i,
     rc_status = ReceiptPending, rc_response = None, rc_details = None, rc_provenance = ni_provenance i,
     rc_created_at = env_now e, rc_completed_at = None\<rparr>"

definition complete_rows :: "owner_scoped_key \<Rightarrow> json \<Rightarrow> int \<Rightarrow> receipts \<Rightarrow> receipts" where
  "complete_rows k response at = update_rows (\<lambda>r. has_key k r \<and> rc_status r = ReceiptPending)
     (\<lambda>r. r\<lparr>rc_status := ReceiptCompleted, rc_response := Some response, rc_completed_at := Some at\<rparr>)"

definition detail_rows :: "owner_scoped_key \<Rightarrow> json \<Rightarrow> receipts \<Rightarrow> receipts" where
  "detail_rows k details = update_rows (\<lambda>r. has_key k r \<and> rc_status r = ReceiptPending) (\<lambda>r. r\<lparr>rc_details := Some details\<rparr>)"

inductive begin_spec :: "env \<Rightarrow> receipts \<Rightarrow> new_receipt \<Rightarrow> storage_error + receipt_outcome \<Rightarrow> receipts \<Rightarrow> bool"
  for e db i where
  bs_error: "begin_spec e db i (Inl x) db"
| bs_known: "wf_scoped_key (ni_operation_key i) \<Longrightarrow> find_row (has_key (ni_operation_key i)) db = Some r \<Longrightarrow>
    out = (if rc_request_hash r \<noteq> ni_request_hash i then KeyConflict (osk_raw (ni_operation_key i))
           else if rc_status r = ReceiptCompleted then Replay (receipt_at (ni_operation_key i) r)
           else Recover (receipt_at (ni_operation_key i) r)) \<Longrightarrow> begin_spec e db i (Inr out) db"
| bs_fresh: "wf_scoped_key (ni_operation_key i) \<Longrightarrow> find_row (has_key (ni_operation_key i)) db = None \<Longrightarrow>
    (case ni_provenance i of None \<Rightarrow> True | Some p \<Rightarrow> pe_operation_id p = Some (ni_operation_key i)) \<Longrightarrow>
    begin_spec e db i (Inr (Fresh (receipt_at (ni_operation_key i) (fresh_row e i)))) (db @ [fresh_row e i])"

inductive complete_spec :: "receipts \<Rightarrow> receipt_key \<Rightarrow> json \<Rightarrow> storage_error + unit \<Rightarrow> receipts \<Rightarrow> bool"
  for db key response where
  ct_error: "complete_spec db key response (Inl x) db"
| ct_done: "into_receipt_key key = Inr k \<Longrightarrow> find_row (has_key k) db = Some r \<Longrightarrow> rc_status r = ReceiptCompleted \<Longrightarrow>
    complete_spec db key response (Inr ()) db"
| ct_applied: "into_receipt_key key = Inr k \<Longrightarrow> find_row (has_key k) db = Some r \<Longrightarrow> rc_status r = ReceiptPending \<Longrightarrow>
    complete_spec db key response (Inr ()) (complete_rows k response at db)"

inductive details_spec :: "receipts \<Rightarrow> receipt_key \<Rightarrow> json \<Rightarrow> storage_error + unit \<Rightarrow> receipts \<Rightarrow> bool"
  for db key details where
  dt_error: "details_spec db key details (Inl x) db"
| dt_applied: "into_receipt_key key = Inr k \<Longrightarrow> details_spec db key details (Inr ()) (detail_rows k details db)"

lemma outcome_receipt_state:
  "(st = ReceiptCompleted \<Longrightarrow> outcome P x) \<Longrightarrow> (st = ReceiptPending \<Longrightarrow> outcome P y) \<Longrightarrow>
   outcome P (case st of ReceiptCompleted \<Rightarrow> x | ReceiptPending \<Rightarrow> y)"
  by (cases st) simp_all

lemma begin_receipt_outcome: "outcome (begin_spec e db i) (begin_receipt e db i)"
proof (cases "wf_scoped_key (ni_operation_key i)")
  case False
  then obtain x where "mapE provenance_invariant (validate_scoped_key (ni_operation_key i)) = Inl x"
    by (metis validate_key_wf sum.exhaust)
  then show ?thesis by (simp add: begin_receipt_def outcome_def bs_error)
next
  case True
  note k = receipt_by_key_wf [OF True]
  show ?thesis
  proof (cases "find_row (has_key (ni_operation_key i)) db")
    case (Some r)
    show ?thesis unfolding begin_receipt_def k Some
      by (intro outcome outcome_receipt_state)
        ((rule bs_error; fail) | (rule bs_known [OF True Some], auto simp: receipt_at_def; fail) | (simp; fail))+
  next
    case None
    have row: "has_key (ni_operation_key i) (fresh_row e i)" by (simp add: has_key_def fresh_row_def)
    have f: "find_row (has_key (ni_operation_key i)) (db @ [fresh_row e i]) = Some (fresh_row e i)"
      using None row by (simp add: find_row_append)
    have p: "validate_provenance_scope e (ni_provenance i) (ni_operation_key i) = Inr u \<Longrightarrow>
       (case ni_provenance i of None \<Rightarrow> True | Some p \<Rightarrow> pe_operation_id p = Some (ni_operation_key i))" for u
      by (auto simp: validate_provenance_scope_def bindE_eq_Inr split: option.splits if_splits)
    show ?thesis
      unfolding begin_receipt_def k None
      by (auto intro!: outcome intro: bs_error simp: insert_receipt_def receipt_by_key_wf [OF True] split: if_splits
          dest!: format_time_InrD p simp flip: fresh_row_def simp: f)
        (rule bs_fresh [OF True None], assumption)
  qed
qed

text \<open>A row found under a valid key has a definite status, so the pending test of the UPDATE selects it.\<close>

lemma complete_receipt_outcome: "outcome (complete_spec db key response) (complete_receipt e db key response)"
  unfolding complete_receipt_def
proof (intro outcome)
  fix k existing m assume k: "into_receipt_key key = Inr k" and r: "receipt_by_key db k = Inr existing"
    "existing = Some m"
  note wf = into_receipt_key_wf [OF k]
  from r receipt_by_key_wf [OF wf, of db] obtain q where q: "find_row (has_key k) db = Some q" "m = receipt_at k q" by auto
  show "complete_spec db key response (Inr ()) db" if "mu_status m \<noteq> ReceiptPending"
    using that q ct_done [OF k q(1)] by (cases "rc_status q") (simp_all add: receipt_at_def)
  show "complete_spec db key response (Inr ()) (update_rows (\<lambda>r. has_key k r \<and> rc_status r = ReceiptPending)
            (\<lambda>r. r\<lparr>rc_status := ReceiptCompleted, rc_response := Some response, rc_completed_at := Some at\<rparr>) db)"
    if "\<not> mu_status m \<noteq> ReceiptPending" for at
    using that q ct_applied [OF k q(1), of response at] by (simp add: receipt_at_def complete_rows_def)
qed (rule ct_error)+

lemma set_receipt_details_outcome: "outcome (details_spec db key details) (set_receipt_details e db key details)"
  unfolding set_receipt_details_def
  by (intro outcome) (auto intro: dt_error dt_applied simp flip: detail_rows_def)

section \<open>Calls\<close>

datatype receipts_call =
  RcBegin env new_receipt
| RcComplete env receipt_key json
| RcDetails env receipt_key json

fun receipts_exec :: "receipts_call \<Rightarrow> receipts \<Rightarrow> receipts" where
  "receipts_exec (RcBegin e i) db = snd (begin_receipt e db i)"
| "receipts_exec (RcComplete e k r) db = snd (complete_receipt e db k r)"
| "receipts_exec (RcDetails e k d) db = snd (set_receipt_details e db k d)"

lemma receipts_exec_cases:
  obtains (same) "receipts_exec c db = db"
  | (fresh) e i where "receipts_exec c db = db @ [fresh_row e i]" "wf_scoped_key (ni_operation_key i)"
      "find_row (has_key (ni_operation_key i)) db = None"
      "case ni_provenance i of None \<Rightarrow> True | Some p \<Rightarrow> pe_operation_id p = Some (ni_operation_key i)"
  | (complete) k response at where "wf_scoped_key k" "receipts_exec c db = complete_rows k response at db"
  | (details) k d where "wf_scoped_key k" "receipts_exec c db = detail_rows k d db"
proof (cases c)
  case (RcBegin e i)
  from begin_receipt_outcome [of e db i] same fresh RcBegin show ?thesis
    unfolding outcome_def by (cases rule: begin_spec.cases) auto
next
  case (RcComplete e k r)
  from complete_receipt_outcome [of db k r e] same complete RcComplete show ?thesis
    unfolding outcome_def by (cases rule: complete_spec.cases) (auto dest: into_receipt_key_wf)
next
  case (RcDetails e k d)
  from set_receipt_details_outcome [of db k d e] same details RcDetails show ?thesis
    unfolding outcome_def by (cases rule: details_spec.cases) (auto dest: into_receipt_key_wf)
qed

lemma find_complete_rows:
  "find_row (has_key k') (complete_rows k response at db) =
    map_option (\<lambda>r. if has_key k r \<and> rc_status r = ReceiptPending
      then r\<lparr>rc_status := ReceiptCompleted, rc_response := Some response, rc_completed_at := Some at\<rparr> else r)
     (find_row (has_key k') db)"
  unfolding complete_rows_def by (rule find_row_update_rows) (simp add: has_key_def)

lemma find_detail_rows:
  "find_row (has_key k') (detail_rows k d db) =
    map_option (\<lambda>r. if has_key k r \<and> rc_status r = ReceiptPending then r\<lparr>rc_details := Some d\<rparr> else r)
     (find_row (has_key k') db)"
  unfolding detail_rows_def by (rule find_row_update_rows) (simp add: has_key_def)

subsection \<open>The table implements the ledger\<close>

lemma receipts_inv_row:
  assumes "receipts_inv db" and "find_row (has_key k) db = Some r"
  shows "(rc_status r = ReceiptCompleted) = (rc_response r \<noteq> None)"
  using assms find_row_SomeD [OF assms(2)] by (auto simp: receipts_inv_def list_all_iff receipt_ok_def)

lemma ledger_fresh:
  assumes "wf_scoped_key (ni_operation_key i)" and "find_row (has_key (ni_operation_key i)) db = None"
  shows "ledger (db @ [fresh_row e i]) = (ledger db)(ni_operation_key i \<mapsto> (ni_request_hash i, None))"
proof
  fix k
  have own: "has_key (ni_operation_key i) (fresh_row e i)" by (simp add: has_key_def fresh_row_def)
  have other: "has_key k (fresh_row e i) \<longleftrightarrow> k = ni_operation_key i" if "wf_scoped_key k"
    using has_key_wf [OF assms(1) that own] .
  show "ledger (db @ [fresh_row e i]) k = ((ledger db)(ni_operation_key i \<mapsto> (ni_request_hash i, None))) k"
    using assms other by (auto simp: ledger_def find_row_append fresh_row_def split: option.splits)
qed

lemma ledger_complete_rows:
  assumes "receipts_inv db" and "wf_scoped_key k"
  shows "ledger (complete_rows k response at db) = ledger_complete (ledger db) k response"
proof
  fix k'
  show "ledger (complete_rows k response at db) k' = ledger_complete (ledger db) k response k'"
  proof (cases "wf_scoped_key k'")
    case True
    show ?thesis
    proof (cases "find_row (has_key k') db")
      case (Some r)
      have h: "has_key k r \<longleftrightarrow> k = k'"
        using has_key_wf [OF True assms(2)] find_row_SomeD [OF Some] by blast
      have st: "rc_status r = ReceiptPending \<longleftrightarrow> rc_response r = None"
        using receipts_inv_row [OF assms(1) Some] by (cases "rc_status r") auto
      show ?thesis using Some True h st
        by (auto simp: ledger_def find_complete_rows ledger_complete_def split: option.splits)
    qed (use True assms(2) in \<open>auto simp: ledger_def find_complete_rows ledger_complete_def split: option.splits\<close>)
  qed (use assms(2) in \<open>auto simp: ledger_def ledger_complete_def split: option.splits\<close>)
qed

lemma ledger_detail_rows: "ledger (detail_rows k d db) = ledger db"
  by (rule ext) (auto simp: ledger_def find_detail_rows option.map_comp intro!: option.map_cong)

lemma begin_ledger:
  assumes inv: "receipts_inv db" and b: "begin_receipt e db i = (Inr out, db')"
  shows "(reply_of out, ledger db') = ledger_begin (ledger db) (ni_operation_key i) (ni_request_hash i)"
  using outcomeD [OF begin_receipt_outcome b]
proof cases
  case (bs_known r)
  have "ledger db (ni_operation_key i) = Some (rc_request_hash r, rc_response r)"
    using bs_known by (simp add: ledger_def)
  with bs_known receipts_inv_row [OF inv bs_known(3)] show ?thesis
    by (auto simp: ledger_begin_def receipt_at_def split: option.splits)
next
  case bs_fresh
  have "ledger db (ni_operation_key i) = None" using bs_fresh by (simp add: ledger_def)
  with bs_fresh ledger_fresh [OF bs_fresh(3,4), of e] show ?thesis by (simp add: ledger_begin_def)
qed

section \<open>Invariant and history\<close>

lemma row_key_cols: "has_key k r \<Longrightarrow> (rc_owner_scope r, rc_operation_id r) = (owner_scope k, osk_raw k)"
  by (simp add: has_key_def)

lemma receipts_exec_inv:
  assumes inv: "receipts_inv db"
  shows "receipts_inv (receipts_exec c db)"
proof (cases rule: receipts_exec_cases [of c db])
  case (fresh e i)
  have "has_key (ni_operation_key i) (fresh_row e i)" by (simp add: has_key_def fresh_row_def)
  with fresh have "receipt_ok (fresh_row e i)" by (auto simp: receipt_ok_def fresh_row_def)
  moreover have "(owner_scope (ni_operation_key i), osk_raw (ni_operation_key i)) \<notin>
      set (map (\<lambda>r. (rc_owner_scope r, rc_operation_id r)) db)"
    using fresh(3) by (auto simp: find_row_None has_key_def)
  ultimately show ?thesis using inv fresh(1) by (auto simp: receipts_inv_def fresh_row_def)
next
  case (complete k response at)
  have "receipt_ok r \<Longrightarrow> rc_status r = ReceiptPending \<Longrightarrow>
      receipt_ok (r\<lparr>rc_status := ReceiptCompleted, rc_response := Some response, rc_completed_at := Some at\<rparr>)" for r
    by (auto simp: receipt_ok_def has_key_def)
  with inv show ?thesis unfolding complete(2) complete_rows_def receipts_inv_def
    by (auto simp: map_update_rows list_all_iff set_update_rows)
next
  case (details k d)
  have "receipt_ok r \<Longrightarrow> receipt_ok (r\<lparr>rc_details := Some d\<rparr>)" for r by (auto simp: receipt_ok_def has_key_def)
  with inv show ?thesis unfolding details(2) detail_rows_def receipts_inv_def
    by (auto simp: map_update_rows list_all_iff set_update_rows)
qed (simp add: inv)

definition ledger_le :: "ledger \<Rightarrow> ledger \<Rightarrow> bool" where
  "ledger_le l l' \<longleftrightarrow> (\<forall>k h v. l k = Some (h, v) \<longrightarrow> (\<exists>v'. l' k = Some (h, v') \<and> (v = None \<or> v' = v)))"

definition receipts_extends :: "receipts \<Rightarrow> receipts \<Rightarrow> bool" where
  "receipts_extends db db' \<longleftrightarrow> ledger_le (ledger db) (ledger db')"

lemma ledger_le_update: "l k = None \<Longrightarrow> ledger_le l (l(k \<mapsto> x))"
  by (auto simp: ledger_le_def)

lemma ledger_le_complete: "ledger_le l (ledger_complete l k response)"
  by (auto simp: ledger_le_def ledger_complete_def split: option.splits)

interpretation receipts_hist: history_machine "[]" receipts_exec receipts_inv receipts_extends
proof unfold_locales
  show "receipts_inv []" by (simp add: receipts_inv_def)
  show "receipts_inv s \<Longrightarrow> receipts_inv (receipts_exec c s)" for c s by (rule receipts_exec_inv)
  show "receipts_extends s s" for s by (simp add: receipts_extends_def ledger_le_def)
  show "receipts_extends s t \<Longrightarrow> receipts_extends t u \<Longrightarrow> receipts_extends s u" for s t u
    unfolding receipts_extends_def ledger_le_def by (metis option.inject prod.inject)
  show "receipts_extends db (receipts_exec c db)" if "receipts_inv db" for c db
  proof (cases rule: receipts_exec_cases [of c db])
    case (fresh e i)
    then show ?thesis
      by (simp add: receipts_extends_def ledger_fresh ledger_le_update) (simp add: ledger_def ledger_le_update)
  next
    case (complete k response at)
    then show ?thesis by (simp add: receipts_extends_def ledger_complete_rows [OF that] ledger_le_complete)
  next
    case (details k d)
    then show ?thesis by (simp add: receipts_extends_def ledger_detail_rows) (simp add: ledger_le_def)
  qed (simp add: receipts_extends_def ledger_le_def)
qed

end
