(* ===== verification/Receipts_Props.thy ===== *)
theory Receipts_Props
  imports Receipts_Ledger
begin

text \<open>
  The properties of the mutation receipts, over any run of their calls.
\<close>

text \<open>How often the calls of a run were told that their mutation of key \<open>k\<close> is new.\<close>

definition told_fresh :: "owner_scoped_key \<Rightarrow> receipts_call \<Rightarrow> receipts \<Rightarrow> bool" where
  "told_fresh k c db = (case c of
     RcBegin e i \<Rightarrow> ni_operation_key i = k \<and>
       (case fst (begin_receipt e db i) of Inr (Fresh _) \<Rightarrow> True | _ \<Rightarrow> False)
   | _ \<Rightarrow> False)"

fun fresh_count :: "owner_scoped_key \<Rightarrow> receipts_call list \<Rightarrow> receipts \<Rightarrow> nat" where
  "fresh_count k [] db = 0"
| "fresh_count k (c # cs) db = (if told_fresh k c db then 1 else 0) + fresh_count k cs (receipts_exec c db)"

lemma told_fresh_ledger:
  assumes "receipts_inv db" and "told_fresh k c db"
  shows "ledger db k = None \<and> ledger (receipts_exec c db) k \<noteq> None"
proof -
  from assms(2) obtain e i m where c: "c = RcBegin e i" "ni_operation_key i = k"
    and m: "fst (begin_receipt e db i) = Inr (Fresh m)"
    by (auto simp: told_fresh_def split: receipts_call.splits sum.splits receipt_outcome.splits)
  then obtain db' where b: "begin_receipt e db i = (Inr (Fresh m), db')" by (metis prod.collapse)
  have "(LFresh, ledger db') = ledger_begin (ledger db) (ni_operation_key i) (ni_request_hash i)"
    using begin_ledger [OF assms(1) b] by simp
  then show ?thesis using b c by (auto simp: ledger_begin_def split: option.splits if_splits)
qed

lemma ledger_kept:
  assumes "receipts_inv db" and "ledger db k \<noteq> None"
  shows "ledger (receipts_exec c db) k \<noteq> None"
  using receipts_hist.exec_extends [OF assms(1), of c] assms(2)
  by (fastforce simp: receipts_extends_def ledger_le_def)

lemma fresh_count_known: "receipts_inv db \<Longrightarrow> ledger db k \<noteq> None \<Longrightarrow> fresh_count k cs db = 0"
proof (induction cs arbitrary: db)
  case (Cons c cs)
  from told_fresh_ledger [OF Cons.prems(1), of k c] Cons.prems(2) have "\<not> told_fresh k c db" by auto
  with Cons.IH [OF receipts_exec_inv [OF Cons.prems(1)] ledger_kept [OF Cons.prems]] show ?case by simp
qed simp

lemma fresh_count_le: "receipts_inv db \<Longrightarrow> fresh_count k cs db \<le> 1"
proof (induction cs arbitrary: db)
  case (Cons c cs)
  note inv = receipts_exec_inv [OF Cons.prems, of c]
  show ?case
  proof (cases "told_fresh k c db")
    case True
    with fresh_count_known [OF inv] told_fresh_ledger [OF Cons.prems True] show ?thesis by simp
  qed (use Cons.IH [OF inv] in simp)
qed simp

text \<open>
  C12: Announcing a mutation is one step of the ledger, from any reachable table: the reply (new, replay with
  the stored response, recover, conflict) and the new entry are the ones the ledger gives for the key
  and the request hash, and no other owner's entry, nor any other key's, changes. A refusal changes
  nothing.
\<close>

theorem begin_receipt_refines:
  "case begin_receipt e (run_calls receipts_exec cs []) i of
     (Inl x, db') \<Rightarrow> db' = run_calls receipts_exec cs []
   | (Inr out, db') \<Rightarrow> (reply_of out, ledger db') =
       ledger_begin (ledger (run_calls receipts_exec cs [])) (ni_operation_key i) (ni_request_hash i)"
proof -
  let ?db = "run_calls receipts_exec cs []"
  have inv: "receipts_inv ?db" by (rule receipts_hist.reachable_inv)
  obtain r db' where b: "begin_receipt e ?db i = (r, db')" by fastforce
  show ?thesis
  proof (cases r)
    case (Inl x)
    with outcomeD [OF begin_receipt_outcome b] b show ?thesis by (auto elim: begin_spec.cases)
  next
    case (Inr out)
    with begin_ledger [OF inv] b show ?thesis by simp
  qed
qed

text \<open>
  However often and in whatever order a mutation is announced, completed and annotated, by whichever
  owners, at most one announcement under an operation key is told that it is new.
\<close>

theorem receipt_fresh_once: "fresh_count k cs [] \<le> 1"
  by (rule fresh_count_le) (simp add: receipts_inv_def)

text \<open>
  A response, once recorded, is the one every later announcement of the same request gets: no later
  call replaces it, and another request under the same key is a conflict that writes nothing.
\<close>

theorem receipt_response_stable:
  "case ledger (run_calls receipts_exec cs []) (ni_operation_key i) of
     Some (h, Some response) \<Rightarrow>
       (case begin_receipt e (run_calls receipts_exec (cs @ ds) []) i of
          (Inl x, db') \<Rightarrow> db' = run_calls receipts_exec (cs @ ds) []
        | (Inr out, db') \<Rightarrow> db' = run_calls receipts_exec (cs @ ds) [] \<and>
            reply_of out = (if ni_request_hash i = h then LReplay (Some response) else LConflict))
   | _ \<Rightarrow> True"
proof (cases "ledger (run_calls receipts_exec cs []) (ni_operation_key i)")
  case (Some entry)
  let ?db = "run_calls receipts_exec (cs @ ds) []"
  obtain h v where entry: "entry = (h, v)" by (cases entry)
  show ?thesis
  proof (cases v)
    case (Some response)
    have inv: "receipts_inv ?db" by (rule receipts_hist.reachable_inv)
    have "receipts_extends (run_calls receipts_exec cs []) ?db" by (rule receipts_hist.reachable_extends)
    with \<open>ledger _ _ = Some entry\<close> have l: "ledger ?db (ni_operation_key i) = Some (h, Some response)"
      by (fastforce simp: receipts_extends_def ledger_le_def entry Some)
    then have f: "find_row (has_key (ni_operation_key i)) ?db \<noteq> None" by (auto simp: ledger_def split: if_splits)
    obtain r db' where b: "begin_receipt e ?db i = (r, db')" by fastforce
    have same: "db' = ?db" using outcomeD [OF begin_receipt_outcome b] f by (auto elim: begin_spec.cases)
    show ?thesis
    proof (cases r)
      case (Inr out)
      have "(reply_of out, ledger db') = ledger_begin (ledger ?db) (ni_operation_key i) (ni_request_hash i)"
        using begin_ledger [OF inv] b Inr by simp
      with l Inr b same \<open>ledger _ _ = Some entry\<close> show ?thesis by (auto simp: ledger_begin_def entry Some)
    qed (use b same \<open>ledger _ _ = Some entry\<close> in \<open>simp add: entry Some\<close>)
  qed (simp add: \<open>ledger _ _ = Some entry\<close> entry)
qed simp

end
