(* ===== verification/Rust_Collections.thy ===== *)
theory Rust_Collections
  imports Rust_Strings "HOL-Library.List_Lexorder" "HOL-Library.Product_Lexorder"
begin

text \<open>
  The ordered collections of Rust's standard library. A \<open>BTreeSet\<close> is the ascending list of its
  elements and \<open>insort_insert\<close> its insertion; a \<open>BTreeMap\<close> is the list of its entries in ascending
  key order, \<open>map_of\<close> its look-up, \<open>bmap_update\<close> what \<open>entry(k)\<close> followed by a write does (the
  function receives the entry's old value, if any). Text compares like its UTF-8 bytes, which is the
  lexicographic order of the code points.
\<close>

section \<open>Sets\<close>

definition bset_of :: "'a::linorder list \<Rightarrow> 'a list" where
  "bset_of xs = foldl (\<lambda>s x. insort_insert x s) [] xs"

lemma foldl_insort_insert:
  "sorted s \<Longrightarrow> distinct s \<Longrightarrow>
   foldl (\<lambda>s x. insort_insert x s) s xs = sorted_list_of_set (set s \<union> set xs)"
proof (induction xs arbitrary: s)
  case Nil
  then show ?case by (simp add: sorted_list_of_set.idem_if_sorted_distinct)
next
  case (Cons x xs)
  then show ?case
    by (simp add: sorted_insort_insert distinct_insort_insert set_insort_insert)
qed

lemma bset_of_eq: "bset_of xs = sorted_list_of_set (set xs)"
  by (simp add: bset_of_def foldl_insort_insert)

lemma set_bset_of [simp]: "set (bset_of xs) = set xs"
  by (simp add: bset_of_eq)

lemma distinct_bset_of [simp]: "distinct (bset_of xs)"
  by (simp add: bset_of_eq)

lemma insort_insert_sorted_list:
  "finite A \<Longrightarrow> insort_insert x (sorted_list_of_set A) = sorted_list_of_set (insert x A)"
  using foldl_insort_insert [of "sorted_list_of_set A" "[x]"] by simp

section \<open>Maps\<close>

fun bmap_update :: "'k::linorder \<Rightarrow> ('v option \<Rightarrow> 'v) \<Rightarrow> ('k \<times> 'v) list \<Rightarrow> ('k \<times> 'v) list" where
  "bmap_update k f [] = [(k, f None)]"
| "bmap_update k f ((k', v) # m) =
     (if k = k' then (k, f (Some v)) # m
      else if k < k' then (k, f None) # (k', v) # m
      else (k', v) # bmap_update k f m)"

text \<open>The entries are in strictly ascending key order.\<close>

definition bmap :: "('k::linorder \<times> 'v) list \<Rightarrow> bool" where
  "bmap m = sorted_wrt (<) (map fst m)"

lemma bmap_Nil [simp]: "bmap []"
  by (simp add: bmap_def)

lemma bmap_Cons [simp]: "bmap ((k, v) # m) \<longleftrightarrow> (\<forall>k' \<in> fst ` set m. k < k') \<and> bmap m"
  by (auto simp: bmap_def)

lemma bmap_update_keys: "fst ` set (bmap_update k f m) = insert k (fst ` set m)"
  by (induction k f m rule: bmap_update.induct) auto

lemma bmap_bmap_update: "bmap m \<Longrightarrow> bmap (bmap_update k f m)"
proof (induction k f m rule: bmap_update.induct)
  case (2 k f k' v m)
  then show ?case by (auto simp: bmap_update_keys [simplified])
qed simp

lemma map_of_bmap_update:
  "bmap m \<Longrightarrow> map_of (bmap_update k f m) = (map_of m)(k \<mapsto> f (map_of m k))"
proof (induction k f m rule: bmap_update.induct)
  case (2 k f k' v m)
  have "k < k' \<Longrightarrow> map_of m k = None"
    using "2.prems" by (force simp: map_of_eq_None_iff)
  with 2 show ?case by (auto simp: fun_eq_iff)
qed simp

lemma dom_bmap_update: "dom (map_of (bmap_update k f m)) = insert k (dom (map_of m))"
  by (simp add: dom_map_of_conv_image_fst bmap_update_keys)

lemma bmap_distinct: "bmap m \<Longrightarrow> distinct (map fst m)"
  by (auto simp: bmap_def strict_sorted_iff)

lemma bmap_sorted: "bmap m \<Longrightarrow> sorted (map fst m)"
  by (auto simp: bmap_def strict_sorted_iff)

text \<open>A \<open>BTreeMap\<close> is determined by its look-up.\<close>

lemma bmap_entries: "bmap m \<Longrightarrow> m = map (\<lambda>k. (k, the (map_of m k))) (sorted_list_of_set (fst ` set m))"
proof -
  assume m: "bmap m"
  have "sorted_list_of_set (set (map fst m)) = map fst m"
    by (rule sorted_list_of_set.idem_if_sorted_distinct [OF bmap_sorted [OF m] bmap_distinct [OF m]])
  then have keys: "sorted_list_of_set (fst ` set m) = map fst m" by simp
  have "map (\<lambda>k. (k, the (map_of m k))) (map fst m) = map (\<lambda>e. e) m"
    unfolding map_map by (rule map_cong) (auto simp: map_of_is_SomeI [OF bmap_distinct [OF m]])
  then show ?thesis by (simp add: keys)
qed

end
