(* ===== verification/Palace_Graph.thy ===== *)
theory Palace_Graph
  imports Rust_Collections
begin

text \<open>
  The graph of rooms of a palace (\<open>crates/agentpalace-graph/src/lib.rs\<close>): \<open>derive_palace_graph\<close> reads
  the stored drawers and builds a node per room, the tunnels (rooms that appear in two or more wings)
  and the statistics; \<open>traverse_graph\<close> walks breadth first over rooms that share a wing;
  \<open>find_tunnels\<close> selects tunnels by wing. A \<open>time::Date\<close> is its day number and the formatter
  \<open>[year]-[month]-[day]\<close> of the \<open>time\<close> crate is the argument \<open>fmt\<close>.
\<close>

section \<open>Data\<close>

text \<open>The fields of a stored drawer the graph reads.\<close>

record drawer =
  dr_wing :: rstr
  dr_room :: rstr
  dr_hall :: "rstr option"
  dr_date :: "int option"

record room_accumulator =
  acc_wings :: "rstr list"
  acc_halls :: "rstr list"
  acc_dates :: "rstr list"
  acc_count :: nat

record room_node =
  node_room :: rstr
  node_wings :: "rstr list"
  node_halls :: "rstr list"
  node_count :: nat
  node_dates :: "rstr list"

record tunnel =
  tun_room :: rstr
  tun_wings :: "rstr list"
  tun_halls :: "rstr list"
  tun_count :: nat
  tun_recent :: "rstr option"

record traversal_step =
  ts_room :: rstr
  ts_wings :: "rstr list"
  ts_halls :: "rstr list"
  ts_count :: nat
  ts_hop :: nat
  ts_connected_via :: "rstr list"

record tunnel_summary =
  sum_room :: rstr
  sum_wings :: "rstr list"
  sum_count :: nat

record graph_stats =
  st_total_rooms :: nat
  st_tunnel_rooms :: nat
  st_total_edges :: nat
  st_rooms_per_wing :: "(rstr \<times> nat) list"
  st_top_tunnels :: "tunnel_summary list"

record palace_graph =
  pg_nodes :: "(rstr \<times> room_node) list"
  pg_tunnels :: "tunnel list"
  pg_stats :: graph_stats

section \<open>derive_palace_graph\<close>

definition room_default :: room_accumulator where
  "room_default = \<lparr> acc_wings = [], acc_halls = [], acc_dates = [], acc_count = 0 \<rparr>"

text \<open>One drawer added to the accumulator of its room.\<close>

definition add_drawer :: "(int \<Rightarrow> rstr) \<Rightarrow> drawer \<Rightarrow> room_accumulator option \<Rightarrow> room_accumulator" where
  "add_drawer fmt d acc =
     (let a = (case acc of None \<Rightarrow> room_default | Some a \<Rightarrow> a) in
      a\<lparr> acc_count := acc_count a + 1,
         acc_wings := insort_insert (dr_wing d) (acc_wings a),
         acc_halls := (case dr_hall d of None \<Rightarrow> acc_halls a | Some h \<Rightarrow> insort_insert h (acc_halls a)),
         acc_dates := (case dr_date d of None \<Rightarrow> acc_dates a
                       | Some t \<Rightarrow> insort_insert (fmt t) (acc_dates a)) \<rparr>)"

fun collect_rooms ::
  "(int \<Rightarrow> rstr) \<Rightarrow> (rstr \<times> room_accumulator) list \<Rightarrow> drawer list \<Rightarrow> (rstr \<times> room_accumulator) list"
where
  "collect_rooms fmt m [] = m"
| "collect_rooms fmt m (d # ds) =
     (if dr_room d = lit ''general'' then collect_rooms fmt m ds
      else collect_rooms fmt (bmap_update (dr_room d) (add_drawer fmt d) m) ds)"

text \<open>The pairs of the two inner loops: every wing with every later one.\<close>

fun later_pairs :: "'a list \<Rightarrow> ('a \<times> 'a) list" where
  "later_pairs [] = []"
| "later_pairs (x # xs) = map (Pair x) xs @ later_pairs xs"

definition room_edges :: "rstr \<Rightarrow> room_accumulator \<Rightarrow> (rstr \<times> rstr \<times> rstr \<times> rstr) list" where
  "room_edges room a =
     (if length (acc_wings a) < 2 then []
      else let halls = (if acc_halls a = [] then [[]] else acc_halls a) in
        concat (map (\<lambda>(left, right). map (\<lambda>hall. (room, left, right, hall)) halls)
          (later_pairs (acc_wings a))))"

definition graph_edges ::
  "(rstr \<times> room_accumulator) list \<Rightarrow> (rstr \<times> rstr \<times> rstr \<times> rstr) list" where
  "graph_edges m = bset_of (concat (map (\<lambda>(room, a). room_edges room a) m))"

definition room_node_of :: "rstr \<Rightarrow> room_accumulator \<Rightarrow> room_node" where
  "room_node_of room a =
     \<lparr> node_room = room, node_wings = acc_wings a, node_halls = acc_halls a,
       node_count = acc_count a, node_dates = rev (take 5 (rev (acc_dates a))) \<rparr>"

definition last_opt :: "'a list \<Rightarrow> 'a option" where
  "last_opt xs = (if xs = [] then None else Some (last xs))"

definition tunnel_of :: "room_node \<Rightarrow> tunnel" where
  "tunnel_of n =
     \<lparr> tun_room = node_room n, tun_wings = node_wings n, tun_halls = node_halls n,
       tun_count = node_count n, tun_recent = last_opt (node_dates n) \<rparr>"

definition count_wing :: "nat option \<Rightarrow> nat" where
  "count_wing c = (case c of None \<Rightarrow> 1 | Some n \<Rightarrow> n + 1)"

definition count_wings :: "(rstr \<times> room_accumulator) list \<Rightarrow> (rstr \<times> nat) list" where
  "count_wings m =
     foldl (\<lambda>c w. bmap_update w count_wing c) [] (concat (map (\<lambda>(room, a). acc_wings a) m))"

text \<open>\<open>sort_by\<close> with descending count, then ascending room.\<close>

definition sort_tunnels :: "tunnel list \<Rightarrow> tunnel list" where
  "sort_tunnels ts = sort_key (\<lambda>t. (- int (tun_count t), tun_room t)) ts"

definition derive_palace_graph :: "(int \<Rightarrow> rstr) \<Rightarrow> drawer list \<Rightarrow> palace_graph" where
  "derive_palace_graph fmt ds =
     (let rooms = collect_rooms fmt [] ds;
          edges = graph_edges rooms;
          nodes = map (\<lambda>(room, a). (room, room_node_of room a)) rooms;
          tunnels = sort_tunnels
            (map tunnel_of (filter (\<lambda>n. length (node_wings n) \<ge> 2) (map snd nodes)));
          top = map (\<lambda>t. \<lparr> sum_room = tun_room t, sum_wings = tun_wings t, sum_count = tun_count t \<rparr>)
            (take 10 tunnels)
      in \<lparr> pg_nodes = nodes, pg_tunnels = tunnels,
           pg_stats = \<lparr> st_total_rooms = length nodes, st_tunnel_rooms = length tunnels,
             st_total_edges = length edges, st_rooms_per_wing = count_wings rooms,
             st_top_tunnels = top \<rparr> \<rparr>)"

section \<open>traverse_graph\<close>

definition shared_wings :: "room_node \<Rightarrow> room_node \<Rightarrow> rstr list" where
  "shared_wings current n = filter (\<lambda>w. w \<in> set (node_wings current)) (node_wings n)"

definition step_of :: "rstr \<Rightarrow> room_node \<Rightarrow> nat \<Rightarrow> rstr list \<Rightarrow> traversal_step" where
  "step_of room n hop via =
     \<lparr> ts_room = room, ts_wings = node_wings n, ts_halls = node_halls n, ts_count = node_count n,
       ts_hop = hop, ts_connected_via = via \<rparr>"

text \<open>
  The inner loop over all rooms: the visited rooms, the steps and the frontier after the rooms that
  share a wing with \<open>current\<close> and are new have been added.
\<close>

fun scan_rooms ::
  "room_node \<Rightarrow> nat \<Rightarrow> (rstr \<times> room_node) list \<Rightarrow>
   rstr list \<times> traversal_step list \<times> (rstr \<times> nat) list \<Rightarrow>
   rstr list \<times> traversal_step list \<times> (rstr \<times> nat) list"
where
  "scan_rooms current depth [] st = st"
| "scan_rooms current depth ((room, n) # rooms) (visited, steps, frontier) =
     (if room \<in> set visited then scan_rooms current depth rooms (visited, steps, frontier)
      else if shared_wings current n = [] then scan_rooms current depth rooms (visited, steps, frontier)
      else scan_rooms current depth rooms
        (insort_insert room visited,
         steps @ [step_of room n (depth + 1) (shared_wings current n)],
         frontier @ [(room, depth + 1)]))"

lemma scan_rooms_measure:
  "scan_rooms current depth rooms (visited, steps, frontier) = (visited', steps', frontier') \<Longrightarrow>
   set visited \<subseteq> set visited' \<and> set visited' \<subseteq> set visited \<union> fst ` set rooms \<and>
   card (set visited') + length frontier = card (set visited) + length frontier'"
proof (induction current depth rooms "(visited, steps, frontier)" arbitrary: visited steps frontier
    rule: scan_rooms.induct)
  case (2 current depth room n rooms visited steps frontier)
  show ?case
  proof (cases "room \<in> set visited \<or> shared_wings current n = []")
    case True
    with 2 show ?thesis by (auto split: if_splits)
  next
    case False
    with "2.prems" have "scan_rooms current depth rooms
        (insort_insert room visited,
         steps @ [step_of room n (depth + 1) (shared_wings current n)],
         frontier @ [(room, depth + 1)]) = (visited', steps', frontier')" by simp
    from "2.hyps"(3) [OF _ _ this] False show ?thesis by (auto simp: set_insort_insert)
  qed
qed auto

lemma scan_rooms_decreases:
  assumes "scan_rooms current depth rooms (visited, steps, frontier) = (visited', steps', frontier')"
  shows "card (fst ` set rooms - set visited') + length frontier'
    = card (fst ` set rooms - set visited) + length frontier"
proof -
  note m = scan_rooms_measure [OF assms]
  have "set visited' - set visited = (fst ` set rooms - set visited) - (fst ` set rooms - set visited')"
    using m by blast
  moreover have "fst ` set rooms - set visited' \<subseteq> fst ` set rooms - set visited" using m by blast
  ultimately have "card (set visited') - card (set visited)
      = card (fst ` set rooms - set visited) - card (fst ` set rooms - set visited')"
    using m by (metis List.finite_set card_Diff_subset finite_Diff finite_imageI)
  moreover have "card (set visited) \<le> card (set visited')" using m by (simp add: card_mono)
  moreover have "card (fst ` set rooms - set visited') \<le> card (fst ` set rooms - set visited)"
    using m by (auto intro: card_mono)
  ultimately show ?thesis using m by linarith
qed

text \<open>
  The outer loop. \<open>None\<close> is the panic of \<open>expect\<close> on a frontier room without a node.
\<close>

function bfs_loop ::
  "(rstr \<times> room_node) list \<Rightarrow> nat \<Rightarrow> rstr list \<Rightarrow> traversal_step list \<Rightarrow> (rstr \<times> nat) list \<Rightarrow>
   traversal_step list option"
where
  "bfs_loop nodes max_hops visited steps [] = Some steps"
| "bfs_loop nodes max_hops visited steps ((room, depth) # frontier) =
     (if depth \<ge> max_hops then bfs_loop nodes max_hops visited steps frontier
      else case map_of nodes room of
        None \<Rightarrow> None
      | Some current \<Rightarrow>
          (case scan_rooms current depth nodes (visited, steps, frontier) of
             (visited', steps', frontier') \<Rightarrow> bfs_loop nodes max_hops visited' steps' frontier'))"
  by pat_completeness auto

termination
  by (relation "measure (\<lambda>(nodes, max_hops, visited, steps, frontier).
      card (fst ` set nodes - set visited) + length frontier)")
    (auto simp: scan_rooms_decreases split: prod.split)

definition step_key :: "traversal_step \<Rightarrow> nat \<times> int \<times> rstr" where
  "step_key s = (ts_hop s, - int (ts_count s), ts_room s)"

definition traverse_graph :: "palace_graph \<Rightarrow> rstr \<Rightarrow> nat \<Rightarrow> traversal_step list option" where
  "traverse_graph g start max_hops =
     (case map_of (pg_nodes g) start of
        None \<Rightarrow> Some []
      | Some n \<Rightarrow> map_option (\<lambda>steps. take 50 (sort_key step_key steps))
          (bfs_loop (pg_nodes g) max_hops [start] [step_of start n 0 []] [(start, 0)]))"

section \<open>find_tunnels\<close>

definition find_tunnels :: "palace_graph \<Rightarrow> rstr option \<Rightarrow> rstr option \<Rightarrow> tunnel list" where
  "find_tunnels g wing_a wing_b =
     sort_tunnels (filter (\<lambda>t. none_or (\<lambda>w. w \<in> set (tun_wings t)) wing_a
        \<and> none_or (\<lambda>w. w \<in> set (tun_wings t)) wing_b) (pg_tunnels g))"

end
