(* ===== verification/Palace_Graph_Walk.thy ===== *)
theory Palace_Graph_Walk
  imports Palace_Graph
begin

text \<open>
  The walk of \<open>traverse_graph\<close>. \<open>hops\<close> is the graph's path relation, \<open>rooms_at\<close> computes the rooms
  at a distance layer by layer, and \<open>bfs_inv\<close> is the invariant of the outer loop: the frontier holds
  rooms of the current layer followed by rooms of the next one.
\<close>

section \<open>Distances\<close>

definition linked :: "(rstr \<times> room_node) list \<Rightarrow> rstr \<Rightarrow> rstr \<Rightarrow> bool" where
  "linked nodes q r =
     (case map_of nodes q of None \<Rightarrow> False
      | Some n \<Rightarrow> (case map_of nodes r of None \<Rightarrow> False | Some m \<Rightarrow> shared_wings n m \<noteq> []))"

inductive hops :: "(rstr \<times> room_node) list \<Rightarrow> rstr \<Rightarrow> nat \<Rightarrow> rstr \<Rightarrow> bool" for nodes s where
  start: "hops nodes s 0 s"
| link: "hops nodes s k q \<Longrightarrow> linked nodes q r \<Longrightarrow> hops nodes s (Suc k) r"

fun rooms_at :: "(rstr \<times> room_node) list \<Rightarrow> rstr \<Rightarrow> nat \<Rightarrow> rstr list" where
  "rooms_at nodes s 0 = [s]"
| "rooms_at nodes s (Suc k) =
     filter (\<lambda>r. (\<forall>i \<in> set [0..<Suc k]. r \<notin> set (rooms_at nodes s i))
        \<and> (\<exists>q \<in> set (rooms_at nodes s k). linked nodes q r)) (map fst nodes)"

lemma linked_room: "linked nodes q r \<Longrightarrow> r \<in> fst ` set nodes"
  by (auto simp: linked_def split: option.splits dest: map_of_SomeD intro: rev_image_eqI)

lemma rooms_at_Suc:
  "r \<in> set (rooms_at nodes s (Suc k)) \<longleftrightarrow>
   (\<forall>i \<le> k. r \<notin> set (rooms_at nodes s i)) \<and> (\<exists>q \<in> set (rooms_at nodes s k). linked nodes q r)"
  using linked_room by (auto simp del: upt_Suc simp: less_Suc_eq_le)

declare rooms_at.simps(2) [simp del]

lemma hops_0 [simp]: "hops nodes s 0 r \<longleftrightarrow> r = s"
  by (auto elim: hops.cases intro: hops.start)

lemma hops_Suc: "hops nodes s (Suc k) r \<longleftrightarrow> (\<exists>q. hops nodes s k q \<and> linked nodes q r)"
  by (auto elim: hops.cases intro: hops.link)

text \<open>\<open>rooms_at\<close> holds the rooms whose shortest path has that many links.\<close>

lemma rooms_at_hops:
  "r \<in> set (rooms_at nodes s k) \<longleftrightarrow> hops nodes s k r \<and> (\<forall>j < k. \<not> hops nodes s j r)"
proof (induction k arbitrary: r rule: less_induct)
  case (less k)
  have min: "(\<exists>j \<le> n. hops nodes s j r) \<longleftrightarrow> (\<exists>j \<le> n. r \<in> set (rooms_at nodes s j))"
    if "n < k" for n and r
  proof
    assume "\<exists>j \<le> n. hops nodes s j r"
    then obtain i where i: "hops nodes s i r" "i \<le> n" by blast
    define j where "j = (LEAST j. hops nodes s j r)"
    have "hops nodes s j r" "j \<le> i" "\<forall>i < j. \<not> hops nodes s i r"
      using i(1) by (auto simp: j_def intro: LeastI Least_le dest: not_less_Least)
    with less.IH [of j r] that i(2) have "j \<le> n" "r \<in> set (rooms_at nodes s j)" by auto
    then show "\<exists>j \<le> n. r \<in> set (rooms_at nodes s j)" by blast
  qed (use less.IH that in auto)
  show ?case
  proof (cases k)
    case (Suc n)
    have "(\<exists>q \<in> set (rooms_at nodes s n). linked nodes q r) \<longleftrightarrow> hops nodes s (Suc n) r"
      if "\<forall>i \<le> n. \<not> hops nodes s i r"
    proof
      assume "hops nodes s (Suc n) r"
      then obtain q where q: "hops nodes s n q" "linked nodes q r" by (auto simp: hops_Suc)
      have "\<not> hops nodes s j q" if "j < n" for j
        using q(2) \<open>\<forall>i \<le> n. \<not> hops nodes s i r\<close> that by (metis Suc_leI hops.link)
      with q less.IH [of n q] Suc show "\<exists>q \<in> set (rooms_at nodes s n). linked nodes q r" by auto
    qed (use less.IH [of n] Suc in \<open>auto simp: hops_Suc\<close>)
    with min [of n r] show ?thesis by (auto simp: Suc rooms_at_Suc less_Suc_eq_le)
  qed simp
qed

lemma rooms_at_disjoint: "r \<in> set (rooms_at nodes s i) \<Longrightarrow> r \<in> set (rooms_at nodes s j) \<Longrightarrow> i = j"
  unfolding rooms_at_hops by (metis linorder_neqE_nat)

lemma rooms_at_empty: "rooms_at nodes s k = [] \<Longrightarrow> k \<le> j \<Longrightarrow> rooms_at nodes s j = []"
proof (induction j)
  case (Suc j)
  show ?case
  proof (cases "k = Suc j")
    case False
    with Suc have "rooms_at nodes s j = []" by simp
    then have "r \<notin> set (rooms_at nodes s (Suc j))" for r by (simp add: rooms_at_Suc)
    then show ?thesis by (metis list.set_intros(1) neq_Nil_conv)
  qed (use Suc.prems in simp)
qed simp

section \<open>The inner loop\<close>

definition new_rooms :: "room_node \<Rightarrow> (rstr \<times> room_node) list \<Rightarrow> rstr set \<Rightarrow> (rstr \<times> room_node) list" where
  "new_rooms current rooms visited =
     filter (\<lambda>(r, n). r \<notin> visited \<and> shared_wings current n \<noteq> []) rooms"

lemma new_rooms_simps [simp]:
  "new_rooms current [] visited = []"
  "new_rooms current ((r, n) # rooms) visited =
     (if r \<notin> visited \<and> shared_wings current n \<noteq> [] then (r, n) # new_rooms current rooms visited
      else new_rooms current rooms visited)"
  by (simp_all add: new_rooms_def)

lemma new_rooms_insert:
  "room \<notin> fst ` set rooms \<Longrightarrow> new_rooms current rooms (insert room visited) = new_rooms current rooms visited"
  by (auto simp: new_rooms_def image_iff intro!: filter_cong)

lemma scan_rooms_result:
  "distinct (map fst rooms) \<Longrightarrow>
   \<exists>visited'. scan_rooms current d rooms (visited, steps, frontier) =
     (visited',
      steps @ map (\<lambda>(r, n). step_of r n (Suc d) (shared_wings current n)) (new_rooms current rooms (set visited)),
      frontier @ map (\<lambda>(r, n). (r, Suc d)) (new_rooms current rooms (set visited)))
   \<and> set visited' = set visited \<union> fst ` set (new_rooms current rooms (set visited))"
proof (induction current d rooms "(visited, steps, frontier)" arbitrary: visited steps frontier
    rule: scan_rooms.induct)
  case (2 current d room n rooms visited steps frontier)
  then show ?case
    by (cases "room \<in> set visited \<or> shared_wings current n = []")
      (auto simp: set_insort_insert new_rooms_insert)
qed simp

section \<open>The outer loop\<close>

definition good_step :: "(rstr \<times> room_node) list \<Rightarrow> rstr \<Rightarrow> traversal_step \<Rightarrow> bool" where
  "good_step nodes s st =
     (case map_of nodes (ts_room st) of None \<Rightarrow> False
      | Some n \<Rightarrow>
          st = step_of (ts_room st) n (ts_hop st) (ts_connected_via st) \<and>
          (if ts_hop st = 0 then ts_connected_via st = []
           else \<exists>q \<in> set (rooms_at nodes s (ts_hop st - 1)).
             opt_holds (\<lambda>m. ts_connected_via st = shared_wings m n) (map_of nodes q)
             \<and> ts_connected_via st \<noteq> []))"

definition at_hop :: "traversal_step \<Rightarrow> rstr \<times> nat" where
  "at_hop st = (ts_room st, ts_hop st)"

definition bfs_inv ::
  "(rstr \<times> room_node) list \<Rightarrow> rstr \<Rightarrow> nat \<Rightarrow> nat \<Rightarrow> rstr set \<Rightarrow> traversal_step list \<Rightarrow>
   rstr list \<Rightarrow> rstr list \<Rightarrow> bool" where
  "bfs_inv nodes s m d visited steps A B \<longleftrightarrow>
     d \<le> m \<and> (d = m \<longrightarrow> B = []) \<and>
     set A \<subseteq> set (rooms_at nodes s d) \<and> set B \<subseteq> set (rooms_at nodes s (Suc d)) \<and>
     visited = (\<Union>i \<le> d. set (rooms_at nodes s i)) \<union> set B \<and>
     (d < m \<longrightarrow> (\<forall>q \<in> set (rooms_at nodes s d) - set A. \<forall>r. linked nodes q r \<longrightarrow> r \<in> visited)) \<and>
     distinct (map ts_room steps) \<and>
     at_hop ` set steps = {(r, i). i \<le> d \<and> r \<in> set (rooms_at nodes s i)} \<union> {(r, Suc d) | r. r \<in> set B} \<and>
     (\<forall>st \<in> set steps. good_step nodes s st)"

lemma bfs_inv_processed:
  "bfs_inv nodes s m d visited steps A B \<Longrightarrow> d < m \<Longrightarrow> q \<in> set (rooms_at nodes s d) \<Longrightarrow>
   q \<notin> set A \<Longrightarrow> linked nodes q r \<Longrightarrow> r \<in> visited"
  unfolding bfs_inv_def by blast

lemma bfs_inv_visited:
  "bfs_inv nodes s m d visited steps A B \<Longrightarrow>
   r \<in> visited \<longleftrightarrow> (\<exists>i \<le> d. r \<in> set (rooms_at nodes s i)) \<or> r \<in> set B"
  by (auto simp: bfs_inv_def)

lemma bfs_inv_shift:
  assumes "bfs_inv nodes s m d visited steps [] B" and "B \<noteq> []"
  shows "bfs_inv nodes s m (Suc d) visited steps B []"
proof -
  have d: "d < m" using assms by (auto simp: bfs_inv_def)
  have layer: "set (rooms_at nodes s (Suc d)) = set B"
  proof
    show "set (rooms_at nodes s (Suc d)) \<subseteq> set B"
    proof
      fix r assume "r \<in> set (rooms_at nodes s (Suc d))"
      then obtain q where q: "q \<in> set (rooms_at nodes s d)" "linked nodes q r"
        and "\<forall>i \<le> d. r \<notin> set (rooms_at nodes s i)" by (auto simp: rooms_at_Suc)
      moreover have "r \<in> visited" by (rule bfs_inv_processed [OF assms(1) d q(1) _ q(2)]) simp
      ultimately show "r \<in> set B" using bfs_inv_visited [OF assms(1)] by blast
    qed
  qed (use assms in \<open>simp add: bfs_inv_def\<close>)
  have "{(r, i). i \<le> d \<and> r \<in> set (rooms_at nodes s i)} \<union> {(r, Suc d) | r. r \<in> set B}
      = {(r, i). i \<le> Suc d \<and> r \<in> set (rooms_at nodes s i)}"
    using layer by (auto simp: le_Suc_eq)
  with assms d show ?thesis
    by (simp add: bfs_inv_def layer atMost_Suc Un_commute)
qed

lemma bfs_inv_skip:
  "bfs_inv nodes s m m visited steps (room # A) B \<Longrightarrow> bfs_inv nodes s m m visited steps A B"
  by (simp add: bfs_inv_def)

lemma good_step_new:
  "(r, n) \<in> set nodes \<Longrightarrow> distinct (map fst nodes) \<Longrightarrow> room \<in> set (rooms_at nodes s d) \<Longrightarrow>
   map_of nodes room = Some current \<Longrightarrow> shared_wings current n \<noteq> [] \<Longrightarrow>
   good_step nodes s (step_of r n (Suc d) (shared_wings current n))"
  by (auto simp: good_step_def step_of_def opt_holds_iff)

lemma bfs_inv_step:
  assumes inv: "bfs_inv nodes s m d visited steps (room # A) B" and d: "d < m"
    and cur: "map_of nodes room = Some current" and keys: "distinct (map fst nodes)"
    and ns: "ns = new_rooms current nodes visited"
  shows "bfs_inv nodes s m d (visited \<union> fst ` set ns)
    (steps @ map (\<lambda>(r, n). step_of r n (Suc d) (shared_wings current n)) ns) A (B @ map fst ns)"
proof -
  have room: "room \<in> set (rooms_at nodes s d)" using inv by (simp add: bfs_inv_def)
  have linked: "linked nodes room r \<longleftrightarrow> (\<exists>n. (r, n) \<in> set nodes \<and> shared_wings current n \<noteq> [])" for r
    using map_of_eq_Some_iff [OF keys] by (fastforce simp: linked_def cur split: option.splits)
  have new: "r \<in> fst ` set ns \<longleftrightarrow> r \<notin> visited \<and> linked nodes room r" for r
    unfolding linked ns new_rooms_def by force
  have vis: "(\<Union>i \<le> d. set (rooms_at nodes s i)) \<subseteq> visited" using inv by (simp add: bfs_inv_def)
  have layer: "fst ` set ns \<subseteq> set (rooms_at nodes s (Suc d))"
  proof
    fix r assume "r \<in> fst ` set ns"
    with new have "r \<notin> visited" "linked nodes room r" by blast+
    with room bfs_inv_visited [OF inv, of r] show "r \<in> set (rooms_at nodes s (Suc d))"
      unfolding rooms_at_Suc by blast
  qed
  have steps: "at_hop ` set (map (\<lambda>(r, n). step_of r n (Suc d) (shared_wings current n)) ns)
      = {(r, Suc d) | r. r \<in> fst ` set ns}"
    by (force simp: at_hop_def step_of_def)
  have rooms: "map ts_room (map (\<lambda>(r, n). step_of r n (Suc d) (shared_wings current n)) ns) = map fst ns"
    by (auto simp: step_of_def)
  have dist: "distinct (map fst ns)"
    unfolding ns new_rooms_def by (rule distinct_map_filter [OF keys])
  have good: "good_step nodes s st"
    if "st \<in> set (map (\<lambda>(r, n). step_of r n (Suc d) (shared_wings current n)) ns)" for st
    using that by (auto simp: ns new_rooms_def intro!: good_step_new [OF _ keys room cur])
  have seen: "ts_room ` set steps = visited"
  proof -
    have "ts_room ` set steps = fst ` (at_hop ` set steps)" by (simp add: image_image at_hop_def)
    also have "\<dots> = visited" using inv by (auto simp: bfs_inv_def image_Un image_iff)
    finally show ?thesis .
  qed
  have disj: "set (map ts_room steps) \<inter> set (map fst ns) = {}" using new seen by auto
  have processed: "r \<in> visited \<union> fst ` set ns"
    if "q \<in> set (rooms_at nodes s d) - set A" "linked nodes q r" for q r
    using bfs_inv_processed [OF inv d, of q r] that new [of r] by (cases "q = room") auto
  show ?thesis
    unfolding bfs_inv_def
  proof (intro conjI)
    show "visited \<union> fst ` set ns = (\<Union>i \<le> d. set (rooms_at nodes s i)) \<union> set (B @ map fst ns)"
      using inv by (auto simp: bfs_inv_def)
    show "distinct (map ts_room (steps @ map (\<lambda>(r, n). step_of r n (Suc d) (shared_wings current n)) ns))"
      unfolding map_append rooms distinct_append using inv dist disj by (simp add: bfs_inv_def)
    show "at_hop ` set (steps @ map (\<lambda>(r, n). step_of r n (Suc d) (shared_wings current n)) ns) =
        {(r, i). i \<le> d \<and> r \<in> set (rooms_at nodes s i)} \<union> {(r, Suc d) | r. r \<in> set (B @ map fst ns)}"
      unfolding set_append image_Un steps using inv by (auto simp: bfs_inv_def)
    show "\<forall>st \<in> set (steps @ map (\<lambda>(r, n). step_of r n (Suc d) (shared_wings current n)) ns).
        good_step nodes s st"
      unfolding set_append using good inv by (auto simp: bfs_inv_def)
  qed (use inv d layer processed in \<open>simp_all add: bfs_inv_def\<close>)
qed

text \<open>What the loop returns: every room within the bound, once, with its distance.\<close>

definition walked :: "(rstr \<times> room_node) list \<Rightarrow> rstr \<Rightarrow> nat \<Rightarrow> traversal_step list \<Rightarrow> bool" where
  "walked nodes s m steps \<longleftrightarrow>
     distinct (map ts_room steps) \<and> (\<forall>st \<in> set steps. good_step nodes s st) \<and>
     at_hop ` set steps = {(r, i). i \<le> m \<and> r \<in> set (rooms_at nodes s i)}"

lemma bfs_inv_done:
  assumes "bfs_inv nodes s m d visited steps [] []"
  shows "walked nodes s m steps"
proof -
  have "i \<le> d" if "i \<le> m" "r \<in> set (rooms_at nodes s i)" for r i
  proof (rule ccontr)
    assume "\<not> i \<le> d"
    with that assms have d: "d < m" "Suc d \<le> i" by (auto simp: bfs_inv_def)
    have "rooms_at nodes s (Suc d) = []"
    proof (rule ccontr)
      assume "rooms_at nodes s (Suc d) \<noteq> []"
      then obtain x where x: "x \<in> set (rooms_at nodes s (Suc d))" by (cases "rooms_at nodes s (Suc d)") auto
      then obtain q where q: "q \<in> set (rooms_at nodes s d)" "linked nodes q x"
        and fresh: "\<forall>i \<le> d. x \<notin> set (rooms_at nodes s i)" by (auto simp: rooms_at_Suc)
      have "x \<in> visited" by (rule bfs_inv_processed [OF assms d(1) q(1) _ q(2)]) simp
      with fresh bfs_inv_visited [OF assms, of x] show False by auto
    qed
    with rooms_at_empty [OF this d(2)] that(2) show False by simp
  qed
  with assms show ?thesis by (auto simp: walked_def bfs_inv_def)
qed

lemma layer_nodes:
  assumes "r \<in> set (rooms_at nodes s k)" and "s \<in> fst ` set nodes"
  shows "map_of nodes r \<noteq> None"
  using assms by (cases k) (auto simp: rooms_at.simps(2) map_of_eq_None_iff)

lemma bfs_loop_walked:
  assumes "distinct (map fst nodes)" and "s \<in> fst ` set nodes"
    and "bfs_inv nodes s m d (set visited) steps A B"
    and "frontier = map (\<lambda>r. (r, d)) A @ map (\<lambda>r. (r, Suc d)) B"
  shows "\<exists>steps'. bfs_loop nodes m visited steps frontier = Some steps' \<and> walked nodes s m steps'"
  using assms
proof (induction nodes m visited steps frontier arbitrary: d A B rule: bfs_loop.induct)
  case (1 nodes m visited steps)
  then show ?case by (auto dest: bfs_inv_done)
next
  case (2 nodes m visited steps room depth frontier)
  obtain A B where inv: "bfs_inv nodes s m depth (set visited) steps (room # A) B"
    and fr: "frontier = map (\<lambda>r. (r, depth)) A @ map (\<lambda>r. (r, Suc depth)) B"
  proof (cases A)
    case Nil
    with "2.prems" obtain B' where "B = room # B'" "depth = Suc d" "frontier = map (\<lambda>r. (r, Suc d)) B'"
      by (cases B) auto
    with Nil "2.prems"(3) show thesis
      by (intro that [of B' "[]"]) (auto dest: bfs_inv_shift)
  next
    case (Cons r A')
    with "2.prems" show thesis by (intro that [of A' B]) auto
  qed
  show ?case
  proof (cases "m \<le> depth")
    case True
    with inv have "depth = m" by (simp add: bfs_inv_def)
    with "2.IH"(1) [OF _ "2.prems"(1,2) _ fr] inv show ?thesis
      by (auto dest: bfs_inv_skip)
  next
    case False
    obtain current where cur: "map_of nodes room = Some current"
      using layer_nodes [of room nodes s depth] inv "2.prems"(2) by (auto simp: bfs_inv_def)
    let ?ns = "new_rooms current nodes (set visited)"
    obtain visited' where scan: "scan_rooms current depth nodes (visited, steps, frontier) =
       (visited', steps @ map (\<lambda>(r, n). step_of r n (Suc depth) (shared_wings current n)) ?ns,
        frontier @ map (\<lambda>(r, n). (r, Suc depth)) ?ns)"
      and vis: "set visited' = set visited \<union> fst ` set ?ns"
      using scan_rooms_result [OF "2.prems"(1)] by blast
    have next_inv: "bfs_inv nodes s m depth (set visited')
        (steps @ map (\<lambda>(r, n). step_of r n (Suc depth) (shared_wings current n)) ?ns) A (B @ map fst ?ns)"
      unfolding vis by (rule bfs_inv_step [OF inv _ cur "2.prems"(1) refl]) (use False in simp)
    have fr': "frontier @ map (\<lambda>(r, n). (r, Suc depth)) ?ns
        = map (\<lambda>r. (r, depth)) A @ map (\<lambda>r. (r, Suc depth)) (B @ map fst ?ns)"
      by (simp add: fr case_prod_unfold)
    from "2.IH"(2) [OF _ cur scan [symmetric] refl "2.prems"(1,2) next_inv fr'] False cur scan
    show ?thesis by simp
  qed
qed

section \<open>The result\<close>

lemma bfs_inv_init:
  assumes "map_of nodes s = Some n" and "0 < m"
  shows "bfs_inv nodes s m 0 {s} [step_of s n 0 []] [s] []"
  using assms by (auto simp: bfs_inv_def at_hop_def step_of_def good_step_def)

lemma bfs_loop_start:
  assumes "distinct (map fst nodes)" and "map_of nodes s = Some n"
  shows "\<exists>steps. bfs_loop nodes m [s] [step_of s n 0 []] [(s, 0)] = Some steps \<and> walked nodes s m steps"
proof (cases "m = 0")
  case True
  with assms(2) show ?thesis by (auto simp: walked_def at_hop_def step_of_def good_step_def)
next
  case False
  have "s \<in> fst ` set nodes" using assms(2) by (auto dest: map_of_SomeD intro: rev_image_eqI)
  with bfs_loop_walked [OF assms(1) this, of m 0 "[s]" "[step_of s n 0 []]" "[s]" "[]" "[(s, 0)]"]
    bfs_inv_init [OF assms(2), of m] False show ?thesis by simp
qed

text \<open>The order of the result, and all rooms within the bound in that order.\<close>

definition room_rank :: "(rstr \<times> room_node) list \<Rightarrow> rstr \<times> nat \<Rightarrow> nat \<times> int \<times> rstr" where
  "room_rank nodes e =
     (snd e, - int (case map_of nodes (fst e) of None \<Rightarrow> 0 | Some n \<Rightarrow> node_count n), fst e)"

definition rooms_within :: "(rstr \<times> room_node) list \<Rightarrow> rstr \<Rightarrow> nat \<Rightarrow> (rstr \<times> nat) list" where
  "rooms_within nodes s m =
     concat (map (\<lambda>i. map (\<lambda>r. (r, i)) (rooms_at nodes s i)) [0..<Suc m])"

lemma set_rooms_within: "set (rooms_within nodes s m) = {(r, i). i \<le> m \<and> r \<in> set (rooms_at nodes s i)}"
  by (auto simp: rooms_within_def less_Suc_eq_le simp del: upt_Suc)

lemma distinct_rooms_at: "distinct (map fst nodes) \<Longrightarrow> distinct (rooms_at nodes s i)"
  by (cases i) (auto simp: rooms_at.simps(2))

lemma distinct_rooms_within:
  assumes "distinct (map fst nodes)" shows "distinct (rooms_within nodes s m)"
proof (induction m)
  case (Suc m)
  have "rooms_within nodes s (Suc m) = rooms_within nodes s m @ map (\<lambda>r. (r, Suc m)) (rooms_at nodes s (Suc m))"
    by (simp add: rooms_within_def)
  with Suc show ?case
    by (auto simp: set_rooms_within distinct_map inj_on_def distinct_rooms_at [OF assms])
qed (simp add: rooms_within_def)

lemma sort_key_unique:
  fixes key :: "'a \<Rightarrow> 'b::linorder"
  assumes "inj_on key (set xs)" and "set xs = set ys" and "distinct xs" and "distinct ys"
  shows "sort_key key xs = sort_key key ys"
proof -
  have "map key (sort_key key xs) = map key (sort_key key ys)"
    by (rule sorted_distinct_set_unique) (use assms in \<open>simp_all add: distinct_map\<close>)
  with assms(1,2) show ?thesis by (auto intro: map_inj_on)
qed

lemma map_sort_key:
  "(\<And>x. x \<in> set xs \<Longrightarrow> k x = key (f x)) \<Longrightarrow> map f (sort_key k xs) = sort_key key (map f xs)"
proof (induction xs)
  case (Cons x xs)
  have "set ys \<subseteq> set xs \<Longrightarrow> map f (insort_key k x ys) = insort_key key (f x) (map f ys)" for ys
    using Cons.prems by (induction ys) auto
  from this [of "sort_key k xs"] Cons show ?case by simp
qed simp

lemma walked_sorted:
  assumes keys: "distinct (map fst nodes)" and w: "walked nodes s m steps"
  shows "map at_hop (sort_key step_key steps) = sort_key (room_rank nodes) (rooms_within nodes s m)"
proof -
  have "step_key st = room_rank nodes (at_hop st)" if "st \<in> set steps" for st
  proof -
    from w that have "good_step nodes s st" by (simp add: walked_def)
    then show ?thesis
      by (auto simp: good_step_def step_key_def room_rank_def at_hop_def step_of_def split: option.splits
          dest!: arg_cong [of st _ ts_count])
  qed
  then have "map at_hop (sort_key step_key steps) = sort_key (room_rank nodes) (map at_hop steps)"
    by (rule map_sort_key)
  also have "\<dots> = sort_key (room_rank nodes) (rooms_within nodes s m)"
  proof (rule sort_key_unique)
    show "inj_on (room_rank nodes) (set (map at_hop steps))"
      by (auto simp: inj_on_def room_rank_def intro: prod_eqI)
    have "distinct (map fst (map at_hop steps))" using w by (simp add: walked_def at_hop_def comp_def)
    then show "distinct (map at_hop steps)" by (auto simp: distinct_map intro: inj_on_imageI2)
  qed (use w in \<open>auto simp: walked_def set_rooms_within distinct_rooms_within [OF keys]\<close>)
  finally show ?thesis .
qed

end
