(* ===== verification/Palace_Graph_Props.thy ===== *)
theory Palace_Graph_Props
  imports Palace_Graph Palace_Graph_Walk
begin

text \<open>
  The properties of the palace graph: what \<open>derive_palace_graph\<close> computes in terms of the drawers of
  each room, and that \<open>traverse_graph\<close> on a derived graph returns the nearest rooms.
\<close>

text \<open>
  What \<open>derive_palace_graph\<close> computes, room by room: \<open>room_spec\<close> is the accumulator of a room as a
  function of the room's drawers, and \<open>collect_rooms_spec\<close> shows that the pass over all drawers
  builds exactly these, in the order of the rooms' names.
\<close>

section \<open>Rooms\<close>

definition room_spec :: "(int \<Rightarrow> rstr) \<Rightarrow> drawer list \<Rightarrow> rstr \<Rightarrow> room_accumulator option" where
  "room_spec fmt ds r =
     (let mine = filter (\<lambda>d. dr_room d = r) ds in
      if r = lit ''general'' \<or> mine = [] then None
      else Some \<lparr> acc_wings = bset_of (map dr_wing mine),
                  acc_halls = bset_of (List.map_filter dr_hall mine),
                  acc_dates = bset_of (map fmt (List.map_filter dr_date mine)),
                  acc_count = length mine \<rparr>)"

lemma bset_of_snoc: "bset_of (xs @ [x]) = insort_insert x (bset_of xs)"
  by (simp add: bset_of_def)

lemma bset_of_Nil [simp]: "bset_of [] = []"
  by (simp add: bset_of_def)

lemma map_filter_snoc:
  "List.map_filter f (xs @ [x]) = List.map_filter f xs @ (case f x of None \<Rightarrow> [] | Some y \<Rightarrow> [y])"
  by (simp add: List.map_filter_def split: option.splits)

lemma add_drawer_spec:
  "dr_room d \<noteq> lit ''general'' \<Longrightarrow>
   room_spec fmt (ds @ [d]) (dr_room d) = Some (add_drawer fmt d (room_spec fmt ds (dr_room d)))"
  by (auto simp: room_spec_def add_drawer_def room_default_def Let_def bset_of_snoc map_filter_snoc
      List.map_filter_simps insort_insert_triv bset_of_def split: option.splits)

lemma room_spec_other:
  "dr_room d = lit ''general'' \<or> dr_room d \<noteq> r \<Longrightarrow> room_spec fmt (ds @ [d]) r = room_spec fmt ds r"
  by (auto simp: room_spec_def)

lemma collect_rooms_spec:
  "bmap m \<Longrightarrow> (\<And>r. map_of m r = room_spec fmt done r) \<Longrightarrow>
   bmap (collect_rooms fmt m ds) \<and> (\<forall>r. map_of (collect_rooms fmt m ds) r = room_spec fmt (done @ ds) r)"
proof (induction ds arbitrary: m "done")
  case (Cons d ds)
  show ?case
  proof (cases "dr_room d = lit ''general''")
    case True
    with Cons.IH [of m "done @ [d]"] Cons.prems show ?thesis by (simp add: room_spec_other)
  next
    case False
    have "map_of (bmap_update (dr_room d) (add_drawer fmt d) m) r = room_spec fmt (done @ [d]) r" for r
      using Cons.prems False
      by (cases "r = dr_room d") (auto simp: map_of_bmap_update add_drawer_spec room_spec_other)
    with Cons.IH [of _ "done @ [d]"] Cons.prems(1) False show ?thesis by (simp add: bmap_bmap_update)
  qed
qed simp

definition graph_rooms :: "(int \<Rightarrow> rstr) \<Rightarrow> drawer list \<Rightarrow> (rstr \<times> room_accumulator) list" where
  "graph_rooms fmt ds = collect_rooms fmt [] ds"

lemma bmap_graph_rooms: "bmap (graph_rooms fmt ds)"
  and map_of_graph_rooms: "map_of (graph_rooms fmt ds) r = room_spec fmt ds r"
  using collect_rooms_spec [of "[]" fmt "[]" ds] by (auto simp: graph_rooms_def room_spec_def)

text \<open>The names of the rooms: those of the drawers, without \<open>general\<close>.\<close>

definition room_names :: "drawer list \<Rightarrow> rstr list" where
  "room_names ds = bset_of (filter (\<lambda>r. r \<noteq> lit ''general'') (map dr_room ds))"

lemma room_spec_None: "room_spec fmt ds r = None \<longleftrightarrow> r \<notin> set (room_names ds)"
  by (auto simp: room_spec_def Let_def room_names_def filter_empty_conv)

lemma graph_rooms_eq:
  "graph_rooms fmt ds = map (\<lambda>r. (r, the (room_spec fmt ds r))) (room_names ds)"
proof -
  have "fst ` set (graph_rooms fmt ds) = set (room_names ds)"
    unfolding dom_map_of_conv_image_fst [symmetric] domIff [abs_def]
    by (auto simp: dom_def map_of_graph_rooms not_None_eq [symmetric] room_spec_None simp del: not_None_eq)
  with bmap_entries [OF bmap_graph_rooms, of fmt ds] show ?thesis
    by (simp add: map_of_graph_rooms room_names_def bset_of_eq)
qed

section \<open>Edges\<close>

lemma length_later_pairs: "2 * length (later_pairs xs) = length xs * (length xs - 1)"
proof (induction xs)
  case (Cons x xs)
  have "2 * length (later_pairs (x # xs)) = 2 * length xs + length xs * (length xs - 1)"
    using Cons.IH by simp
  also have "\<dots> = length (x # xs) * (length (x # xs) - 1)"
    by (cases "length xs") (simp_all add: algebra_simps)
  finally show ?case .
qed simp

lemma later_pairs_set: "(x, y) \<in> set (later_pairs xs) \<Longrightarrow> x \<in> set xs \<and> y \<in> set xs"
  by (induction xs) auto

lemma distinct_later_pairs: "distinct xs \<Longrightarrow> distinct (later_pairs xs)"
  by (induction xs) (auto simp: distinct_map inj_on_def dest: later_pairs_set)

lemma length_bset_of: "distinct xs \<Longrightarrow> length (bset_of xs) = length xs"
  by (simp add: bset_of_eq distinct_card)

text \<open>A product of two lists without duplicates, tagged, has none.\<close>

lemma distinct_product_map:
  "distinct ps \<Longrightarrow> distinct hs \<Longrightarrow>
   distinct (concat (map (\<lambda>(l, r). map (\<lambda>h. (x, l, r, h)) hs) ps)) \<and>
   length (concat (map (\<lambda>(l, r). map (\<lambda>h. (x, l, r, h)) hs) ps)) = length ps * length hs"
  by (induction ps) (auto simp: distinct_map inj_on_def)

definition edge_count :: "room_accumulator \<Rightarrow> nat" where
  "edge_count a = (length (acc_wings a) choose 2) * max 1 (length (acc_halls a))"

lemma room_edges_count:
  assumes "distinct (acc_wings a)" and "distinct (acc_halls a)"
  shows "distinct (room_edges r a) \<and> length (room_edges r a) = edge_count a"
proof (cases "length (acc_wings a) < 2")
  case True
  then show ?thesis by (simp add: room_edges_def edge_count_def binomial_eq_0)
next
  case False
  let ?hs = "if acc_halls a = [] then [[]] else acc_halls a"
  have "length (later_pairs (acc_wings a)) = length (acc_wings a) choose 2"
    using length_later_pairs [of "acc_wings a"] by (simp add: choose_two)
  moreover have "length ?hs = max 1 (length (acc_halls a))"
    by (cases "acc_halls a") auto
  moreover have "distinct ?hs" using assms(2) by simp
  ultimately show ?thesis
    using distinct_product_map [OF distinct_later_pairs [OF assms(1)], of ?hs r] False
    by (simp add: room_edges_def Let_def edge_count_def)
qed

lemma room_edges_room: "(x, y) \<in> set (room_edges r a) \<Longrightarrow> x = r"
  by (auto simp: room_edges_def Let_def split: if_splits)

lemma graph_edges_count:
  assumes "distinct (map fst m)" and "\<forall>(r, a) \<in> set m. distinct (acc_wings a) \<and> distinct (acc_halls a)"
  shows "length (graph_edges m) = sum_list (map (\<lambda>(r, a). edge_count a) m)"
proof -
  have "distinct (concat (map (\<lambda>(r, a). room_edges r a) m)) \<and>
      length (concat (map (\<lambda>(r, a). room_edges r a) m)) = sum_list (map (\<lambda>(r, a). edge_count a) m)"
    using assms
  proof (induction m)
    case (Cons e m)
    obtain r a where e: "e = (r, a)" by (cases e)
    have "set (room_edges r a) \<inter> set (concat (map (\<lambda>(r, a). room_edges r a) m)) = {}"
      using Cons.prems(1) by (force simp: e dest: room_edges_room)
    with Cons room_edges_count [of a r] show ?case by (simp add: e)
  qed simp
  then show ?thesis by (simp add: graph_edges_def length_bset_of)
qed

section \<open>Rooms per wing\<close>

definition entry_count :: "(rstr \<times> nat) list \<Rightarrow> rstr \<Rightarrow> nat" where
  "entry_count c w = (case map_of c w of None \<Rightarrow> 0 | Some n \<Rightarrow> n)"

lemma entry_count_update:
  "bmap c \<Longrightarrow> entry_count (bmap_update v count_wing c) w = entry_count c w + (if v = w then 1 else 0)"
  by (simp add: entry_count_def map_of_bmap_update count_wing_def split: option.splits)

lemma count_wings_fold:
  "bmap c \<Longrightarrow>
   dom (map_of (foldl (\<lambda>c w. bmap_update w count_wing c) c ws)) = dom (map_of c) \<union> set ws \<and>
   entry_count (foldl (\<lambda>c w. bmap_update w count_wing c) c ws) w = entry_count c w + count_list ws w"
proof (induction ws arbitrary: c)
  case (Cons v ws)
  from Cons.IH [OF bmap_bmap_update [OF Cons.prems, of v count_wing]] show ?case
    by (simp add: dom_bmap_update entry_count_update [OF Cons.prems])
qed simp

lemma count_list_concat_distinct:
  "(\<And>xs. xs \<in> set xss \<Longrightarrow> distinct xs) \<Longrightarrow>
   count_list (concat xss) w = length (filter (\<lambda>xs. w \<in> set xs) xss)"
proof (induction xss)
  case (Cons xs xss)
  have "count_list xs w = (if w \<in> set xs then 1 else 0)"
    using Cons.prems [of xs] by (induction xs) auto
  with Cons show ?case by (simp add: count_list_append)
qed simp

lemma count_wings_rooms:
  assumes "\<forall>(r, a) \<in> set m. distinct (acc_wings a)"
  shows "map_of (count_wings m) w =
    (let n = length (filter (\<lambda>(r, a). w \<in> set (acc_wings a)) m) in if n = 0 then None else Some n)"
proof -
  let ?ws = "concat (map (\<lambda>(r, a). acc_wings a) m)"
  have n: "count_list ?ws w = length (filter (\<lambda>(r, a). w \<in> set (acc_wings a)) m)"
    by (subst count_list_concat_distinct) (use assms in \<open>auto simp: filter_map comp_def case_prod_unfold\<close>)
  have "w \<in> set ?ws \<longleftrightarrow> count_list ?ws w \<noteq> 0" by (simp add: count_list_0_iff)
  with count_wings_fold [of "[]" ?ws w] n show ?thesis
    by (auto simp: count_wings_def Let_def entry_count_def domIff split: option.splits)
qed

lemma derive_nodes:
  "pg_nodes (derive_palace_graph fmt ds) = map (\<lambda>(r, a). (r, room_node_of r a)) (graph_rooms fmt ds)"
  by (simp add: derive_palace_graph_def Let_def graph_rooms_def)

lemma derive_nodes_keys: "map fst (pg_nodes (derive_palace_graph fmt ds)) = room_names ds"
  by (simp add: derive_nodes graph_rooms_eq comp_def)

lemma derive_nodes_distinct: "distinct (map fst (pg_nodes (derive_palace_graph fmt ds)))"
  by (simp add: derive_nodes_keys room_names_def)

lemma graph_rooms_sets:
  "\<forall>(r, a) \<in> set (graph_rooms fmt ds). distinct (acc_wings a) \<and> distinct (acc_halls a)"
proof -
  have "distinct (acc_wings a) \<and> distinct (acc_halls a)" if "room_spec fmt ds r = Some a" for r a
    using that by (auto simp: room_spec_def Let_def split: if_splits)
  moreover have "room_spec fmt ds r \<noteq> None" if "r \<in> set (room_names ds)" for r
    using that room_spec_None by blast
  ultimately show ?thesis by (fastforce simp: graph_rooms_eq)
qed


text \<open>
  C14: On a derived graph \<open>traverse_graph\<close> never panics and returns the 50 first of the rooms within
  \<open>max_hops\<close> links of the start, each once, ordered by distance, then descending size, then name. The
  hop of a room is the length of its shortest path of rooms that share wings, and \<open>connected_via\<close> are
  the wings it shares with a room one link closer. An unknown start has no steps.
\<close>

theorem traverse_graph_nearest:
  "let g = derive_palace_graph fmt ds; nodes = pg_nodes g in
   case map_of nodes start of
     None \<Rightarrow> traverse_graph g start max_hops = Some []
   | Some n \<Rightarrow>
       (case traverse_graph g start max_hops of
          None \<Rightarrow> False
        | Some steps \<Rightarrow>
            map at_hop steps = take 50 (sort_key (room_rank nodes) (rooms_within nodes start max_hops))
            \<and> set (rooms_within nodes start max_hops) =
                {(r, k). k \<le> max_hops \<and> hops nodes start k r \<and> \<not> (\<exists>j < k. hops nodes start j r)}
            \<and> set steps \<subseteq> {st. good_step nodes start st})"
proof (cases "map_of (pg_nodes (derive_palace_graph fmt ds)) start")
  case None
  then show ?thesis by (simp add: traverse_graph_def)
next
  case (Some n)
  let ?nodes = "pg_nodes (derive_palace_graph fmt ds)"
  from bfs_loop_start [OF derive_nodes_distinct Some, of max_hops]
  obtain steps where steps: "bfs_loop ?nodes max_hops [start] [step_of start n 0 []] [(start, 0)] = Some steps"
    and w: "walked ?nodes start max_hops steps" by blast
  have "map at_hop (take 50 (sort_key step_key steps))
      = take 50 (sort_key (room_rank ?nodes) (rooms_within ?nodes start max_hops))"
    by (simp add: take_map [symmetric] walked_sorted [OF derive_nodes_distinct w])
  moreover have "set (take 50 (sort_key step_key steps)) \<subseteq> {st. good_step ?nodes start st}"
    using w set_take_subset [of 50 "sort_key step_key steps"] by (auto simp: walked_def)
  moreover have "traverse_graph (derive_palace_graph fmt ds) start max_hops
      = Some (take 50 (sort_key step_key steps))"
    by (simp add: traverse_graph_def Some steps del: bfs_loop.simps)
  ultimately show ?thesis
    by (simp add: Let_def Some set_rooms_within rooms_at_hops)
qed

end
