(* ===== verification/Knowledge_Graph.thy ===== *)
theory Knowledge_Graph
  imports Storage_Base Rust_Collections "HOL-Library.Option_ord"
begin

unbundle bit_operations_syntax

text \<open>
  The knowledge graph: the tables \<open>entity_registry\<close> and \<open>knowledge_graph_facts\<close> of
  \<open>storage/sqlite.rs\<close> and the runtime of \<open>graph/lib.rs\<close> that names entities, asserts facts, ends them
  and answers queries. A \<open>Date\<close> is its day number (days since the Unix epoch), \<open>fmt\<close> the
  \<open>[year]-[month]-[day]\<close> text of a day: columns are compared by this text. A confidence is the bit
  pattern of an \<open>f32\<close>; SQLite stores a NaN as NULL, which the column does not admit. Reading a date
  back is taken to return the date that was written. Every statement of this store is a transaction
  of its own.
\<close>

section \<open>Entities\<close>

datatype entity_kind = Person | Project | Tool | Concept | UnknownKind | Uncertain

fun kind_str :: "entity_kind \<Rightarrow> rstr" where
  "kind_str Person = lit ''person''"
| "kind_str Project = lit ''project''"
| "kind_str Tool = lit ''tool''"
| "kind_str Concept = lit ''concept''"
| "kind_str UnknownKind = lit ''unknown''"
| "kind_str Uncertain = lit ''uncertain''"

record registry_entry =
  rg_schema_version :: nat
  rg_name :: rstr
  rg_canonical_name :: rstr
  rg_entity_type :: entity_kind
  rg_source :: rstr
  rg_contexts :: "rstr list"
  rg_aliases :: "rstr list"
  rg_relationship :: "rstr option"
  rg_confidence :: nat
  rg_ambiguous :: bool

text \<open>The payload column: the encoding of a registry entry, or any other JSON value.\<close>

datatype entity_payload = EntryPayload registry_entry | OtherPayload json

record entity_record =
  er_entity_id :: rstr
  er_entity_type :: rstr
  er_payload :: entity_payload
  er_updated_at :: int

fun payload_entry :: "entity_payload \<Rightarrow> registry_entry option" where
  "payload_entry (EntryPayload e) = Some e"
| "payload_entry (OtherPayload v) = None"

fun canonical_chars :: "bool \<Rightarrow> rstr \<Rightarrow> rstr" where
  "canonical_chars last_was_sep [] = []"
| "canonical_chars last_was_sep (ch # s) =
     (if is_ascii_alphanumeric ch then to_ascii_lowercase [ch] @ canonical_chars False s
      else if \<not> last_was_sep then 95 # canonical_chars True s
      else canonical_chars True s)"

text \<open>\<open>trim_matches\<close> with a single character.\<close>

definition trim_matches :: "nat \<Rightarrow> rstr \<Rightarrow> rstr" where
  "trim_matches c s = rev (dropWhile ((=) c) (rev (dropWhile ((=) c) s)))"

definition canonicalize_label :: "rstr \<Rightarrow> rstr" where
  "canonicalize_label value = trim_matches 95 (canonical_chars False (trim value))"

definition entity_id :: "entity_kind \<Rightarrow> rstr \<Rightarrow> rstr" where
  "entity_id kind name = kind_str kind @ lit '':'' @ canonicalize_label name"

definition underscores_to_spaces :: "rstr \<Rightarrow> rstr" where
  "underscores_to_spaces s = map (\<lambda>ch. if ch = 95 then 32 else ch) s"

definition denormalize_entity_id :: "rstr \<Rightarrow> rstr" where
  "denormalize_entity_id i =
     (case split_once 58 i of Some (kind, value) \<Rightarrow> underscores_to_spaces value
      | None \<Rightarrow> underscores_to_spaces i)"

definition eq_ignore_ascii_case :: "rstr \<Rightarrow> rstr \<Rightarrow> bool" where
  "eq_ignore_ascii_case a b = (to_ascii_lowercase a = to_ascii_lowercase b)"

section \<open>Facts\<close>

record kg_fact =
  kf_fact_id :: rstr
  kf_subject :: rstr
  kf_predicate :: rstr
  kf_object :: rstr
  kf_valid_from :: "int option"
  kf_valid_to :: "int option"
  kf_confidence :: "32 word"
  kf_source_drawer_id :: "rstr option"
  kf_source_file :: "rstr option"
  kf_created_at :: int
  kf_updated_at :: int
  kf_provenance :: "persisted_provenance option"

record kg_db =
  kg_entities :: "entity_record list"
  kg_facts :: "kg_fact list"

definition kg_empty :: kg_db where
  "kg_empty = \<lparr> kg_entities = [], kg_facts = [] \<rparr>"

section \<open>The tables (\<open>sqlite.rs\<close>)\<close>

text \<open>\<open>INSERT ... ON CONFLICT(entity_id) DO UPDATE\<close>: the row keeps its place.\<close>

definition upsert_entity :: "entity_record \<Rightarrow> kg_db \<Rightarrow> kg_db" where
  "upsert_entity r db =
     (if find_row (\<lambda>x. er_entity_id x = er_entity_id r) (kg_entities db) = None
      then db\<lparr> kg_entities := kg_entities db @ [r] \<rparr>
      else db\<lparr> kg_entities := update_rows (\<lambda>x. er_entity_id x = er_entity_id r) (\<lambda>_. r) (kg_entities db) \<rparr>)"

definition get_entity :: "kg_db \<Rightarrow> rstr \<Rightarrow> entity_record option" where
  "get_entity db i = find_row (\<lambda>x. er_entity_id x = i) (kg_entities db)"

definition list_entities :: "kg_db \<Rightarrow> entity_record list" where
  "list_entities db = sort_key (\<lambda>x. (er_entity_type x, er_entity_id x)) (kg_entities db)"

definition list_entities_by_ids :: "kg_db \<Rightarrow> rstr list \<Rightarrow> entity_record list" where
  "list_entities_by_ids db ids =
     (if ids = [] then []
      else sort_key (\<lambda>x. (er_entity_type x, er_entity_id x))
             (filter (\<lambda>x. er_entity_id x \<in> set ids) (kg_entities db)))"

definition f32_is_nan :: "32 word \<Rightarrow> bool" where
  "f32_is_nan c = (0x7F800000 < c AND 0x7FFFFFFF)"

text \<open>\<open>ON CONFLICT(fact_id) DO UPDATE\<close> overwrites every column but \<open>created_at\<close>.\<close>

definition upsert_fact :: "kg_fact \<Rightarrow> kg_db \<Rightarrow> (storage_error + unit) \<times> kg_db" where
  "upsert_fact f db =
     (if f32_is_nan (kf_confidence f)
      then (Inl (Sqlite (NotNullViolation (lit ''knowledge_graph_facts.confidence''))), db)
      else if find_row (\<lambda>x. kf_fact_id x = kf_fact_id f) (kg_facts db) = None
      then (Inr (), db\<lparr> kg_facts := kg_facts db @ [f] \<rparr>)
      else (Inr (), db\<lparr> kg_facts := update_rows (\<lambda>x. kf_fact_id x = kf_fact_id f)
              (\<lambda>x. f\<lparr> kf_created_at := kf_created_at x \<rparr>) (kg_facts db) \<rparr>))"

definition get_fact :: "kg_db \<Rightarrow> rstr \<Rightarrow> kg_fact option" where
  "get_fact db i = find_row (\<lambda>x. kf_fact_id x = i) (kg_facts db)"

text \<open>\<open>COALESCE(valid_from, '9999-12-31')\<close>.\<close>

definition from_text :: "(int \<Rightarrow> rstr) \<Rightarrow> kg_fact \<Rightarrow> rstr" where
  "from_text fmt f = (case kf_valid_from f of None \<Rightarrow> lit ''9999-12-31'' | Some d \<Rightarrow> fmt d)"

definition list_facts :: "(int \<Rightarrow> rstr) \<Rightarrow> kg_db \<Rightarrow> kg_fact list" where
  "list_facts fmt db =
     sort_key (\<lambda>f. (from_text fmt f, kf_predicate f, kf_fact_id f)) (kg_facts db)"

definition list_facts_limited :: "(int \<Rightarrow> rstr) \<Rightarrow> kg_db \<Rightarrow> nat \<Rightarrow> kg_fact list" where
  "list_facts_limited fmt db limit = take limit (list_facts fmt db)"

definition list_facts_for_entity :: "(int \<Rightarrow> rstr) \<Rightarrow> kg_db \<Rightarrow> rstr \<Rightarrow> kg_fact list" where
  "list_facts_for_entity fmt db i =
     sort_key (\<lambda>f. (from_text fmt f, kf_predicate f, kf_fact_id f))
       (filter (\<lambda>f. kf_subject f = i \<or> kf_object f = i) (kg_facts db))"

definition is_triple :: "rstr \<Rightarrow> rstr \<Rightarrow> rstr \<Rightarrow> kg_fact \<Rightarrow> bool" where
  "is_triple s p ob f = (kf_subject f = s \<and> kf_predicate f = p \<and> kf_object f = ob)"

definition find_active_fact ::
  "(int \<Rightarrow> rstr) \<Rightarrow> kg_db \<Rightarrow> rstr \<Rightarrow> rstr \<Rightarrow> rstr \<Rightarrow> kg_fact option" where
  "find_active_fact fmt db s p ob =
     (case sort_key (\<lambda>f. (from_text fmt f, kf_fact_id f))
             (filter (\<lambda>f. is_triple s p ob f \<and> kf_valid_to f = None) (kg_facts db)) of
        [] \<Rightarrow> None | f # _ \<Rightarrow> Some f)"

text \<open>The rows an invalidation ends: open, and begun by the given day (by the text of the days).\<close>

definition endable :: "(int \<Rightarrow> rstr) \<Rightarrow> rstr \<Rightarrow> rstr \<Rightarrow> rstr \<Rightarrow> int \<Rightarrow> kg_fact \<Rightarrow> bool" where
  "endable fmt s p ob ended f =
     (is_triple s p ob f \<and> kf_valid_to f = None \<and>
      none_or (\<lambda>d. fmt d \<le> fmt ended) (kf_valid_from f))"

definition invalidate_active_fact ::
  "(int \<Rightarrow> rstr) \<Rightarrow> rstr \<Rightarrow> rstr \<Rightarrow> rstr \<Rightarrow> int \<Rightarrow> int \<Rightarrow> kg_db \<Rightarrow> nat \<times> kg_db" where
  "invalidate_active_fact fmt s p ob ended now db =
     (count_rows (endable fmt s p ob ended) (kg_facts db),
      db\<lparr> kg_facts := update_rows (endable fmt s p ob ended)
            (\<lambda>f. f\<lparr> kf_valid_to := Some ended, kf_updated_at := now \<rparr>) (kg_facts db) \<rparr>)"

text \<open>The provenance a row gets when it is ended.\<close>

definition merged_provenance ::
  "env \<Rightarrow> persisted_provenance option \<Rightarrow> persisted_provenance option \<Rightarrow>
   storage_error + persisted_provenance option" where
  "merged_provenance e existing incoming =
     (case (existing, incoming) of
        (Some ex, Some inc) \<Rightarrow> Inr (Some (ex\<lparr> pp_invalidated_by := pp_invalidated_by inc \<rparr>))
      | (None, Some inc) \<Rightarrow>
          (case pp_invalidated_by inc of
             None \<Rightarrow> Inl (Invariant (lit ''invalidation provenance is missing invalidated_by''))
           | Some entry \<Rightarrow> bindE (mapE ProvenanceErr (new_persisted e
               \<lparr> pp_creator = \<lparr> he_action = Created, he_owner = OwnerUnknown, he_agent = None,
                                he_recorded_at = he_recorded_at entry \<rparr>,
                 pp_submitter = OwnerUnknown, pp_source_author = None, pp_source_refs = [],
                 pp_storage_origin = pp_storage_origin inc, pp_federated_original = None,
                 pp_history = [], pp_deleted_by = None, pp_invalidated_by = Some entry \<rparr>))
               (\<lambda>legacy. Inr (Some legacy)))
      | (other, None) \<Rightarrow> Inr other)"

text \<open>
  The loop over the selected rows. Each row is updated in a statement of its own: an error leaves the
  rows before it ended. The update names the row by its identifier and requires it to be open still.
\<close>

fun end_rows ::
  "env \<Rightarrow> int \<Rightarrow> int \<Rightarrow> persisted_provenance option \<Rightarrow>
   (rstr \<times> persisted_provenance option) list \<Rightarrow> nat \<Rightarrow> kg_db \<Rightarrow> (storage_error + nat) \<times> kg_db"
where
  "end_rows e ended now prov [] changed db = (Inr changed, db)"
| "end_rows e ended now prov ((i, existing) # rows) changed db =
     try_tx db (merged_provenance e existing prov) (\<lambda>merged.
       let hit = (\<lambda>f. kf_fact_id f = i \<and> kf_valid_to f = None) in
       end_rows e ended now prov rows (changed + count_rows hit (kg_facts db))
         (db\<lparr> kg_facts := update_rows hit
            (\<lambda>f. f\<lparr> kf_valid_to := Some ended, kf_updated_at := now, kf_provenance := merged \<rparr>)
            (kg_facts db) \<rparr>))"

definition invalidate_active_fact_with_provenance ::
  "env \<Rightarrow> (int \<Rightarrow> rstr) \<Rightarrow> rstr \<Rightarrow> rstr \<Rightarrow> rstr \<Rightarrow> int \<Rightarrow> int \<Rightarrow> persisted_provenance option \<Rightarrow>
   kg_db \<Rightarrow> (storage_error + nat) \<times> kg_db" where
  "invalidate_active_fact_with_provenance e fmt s p ob ended now prov db =
     end_rows e ended now prov
       (map (\<lambda>f. (kf_fact_id f, kf_provenance f)) (filter (endable fmt s p ob ended) (kg_facts db)))
       0 db"

section \<open>The runtime (\<open>graph/lib.rs\<close>)\<close>

datatype graph_error = GraphStorage storage_error | UnknownEntity rstr

definition entry_matches :: "rstr \<Rightarrow> registry_entry \<Rightarrow> bool" where
  "entry_matches name e =
     (eq_ignore_ascii_case (rg_name e) name \<or> eq_ignore_ascii_case (rg_canonical_name e) name
      \<or> (\<exists>alias \<in> set (rg_aliases e). eq_ignore_ascii_case alias name))"

definition find_registered_entity :: "kg_db \<Rightarrow> rstr \<Rightarrow> entity_kind option \<Rightarrow> rstr option" where
  "find_registered_entity db name expected =
     map_option (\<lambda>e. entity_id (rg_entity_type e) (rg_canonical_name e))
       (find_row (\<lambda>e. none_or (\<lambda>k. rg_entity_type e = k) expected \<and> entry_matches name e)
         (List.map_filter (\<lambda>r. payload_entry (er_payload r)) (list_entities db)))"

definition graph_entry :: "rstr \<Rightarrow> entity_kind \<Rightarrow> registry_entry" where
  "graph_entry name kind =
     \<lparr> rg_schema_version = 1, rg_name = name, rg_canonical_name = name, rg_entity_type = kind,
       rg_source = lit ''graph'', rg_contexts = [], rg_aliases = [], rg_relationship = None,
       rg_confidence = 100, rg_ambiguous = False \<rparr>"

definition ensure_entity :: "rstr \<Rightarrow> entity_kind \<Rightarrow> int \<Rightarrow> kg_db \<Rightarrow> rstr \<times> kg_db" where
  "ensure_entity name kind now db =
     (case find_registered_entity db name (Some kind) of
        Some existing \<Rightarrow> (existing, db)
      | None \<Rightarrow>
          let i = entity_id kind name in
          (i, if get_entity db i = None
              then upsert_entity \<lparr> er_entity_id = i, er_entity_type = kind_str kind,
                     er_payload = EntryPayload (graph_entry name kind), er_updated_at = now \<rparr> db
              else db))"

definition resolve_entity_id :: "kg_db \<Rightarrow> rstr \<Rightarrow> graph_error + rstr" where
  "resolve_entity_id db name =
     (case find_registered_entity db name None of
        Some i \<Rightarrow> Inr i
      | None \<Rightarrow>
          (case find_row (\<lambda>r. payload_entry (er_payload r) = None
                    \<and> ends_with (er_entity_id r) (canonicalize_label name)) (list_entities db) of
             Some r \<Rightarrow> Inr (er_entity_id r)
           | None \<Rightarrow> Inl (UnknownEntity name)))"

record add_fact_request =
  af_subject :: rstr
  af_subject_type :: entity_kind
  af_predicate :: rstr
  af_object :: rstr
  af_object_type :: entity_kind
  af_valid_from :: "int option"
  af_valid_to :: "int option"
  af_confidence :: "32 word"
  af_source_drawer_id :: "rstr option"
  af_source_file :: "rstr option"

definition unix_seconds :: "int \<Rightarrow> int" where
  "unix_seconds t = t div 1000000000"

definition fact_id_of :: "(int \<Rightarrow> rstr) \<Rightarrow> rstr \<Rightarrow> rstr \<Rightarrow> rstr \<Rightarrow> int option \<Rightarrow> int \<Rightarrow> rstr" where
  "fact_id_of fmt s p ob valid_from now =
     lit ''fact:'' @ s @ lit '':'' @ p @ lit '':'' @ ob @ lit '':'' @
     (case valid_from of Some d \<Rightarrow> fmt d | None \<Rightarrow> show_int (unix_seconds now))"

definition add_fact_with_provenance ::
  "(int \<Rightarrow> rstr) \<Rightarrow> add_fact_request \<Rightarrow> int \<Rightarrow> persisted_provenance option \<Rightarrow> kg_db \<Rightarrow>
   (graph_error + rstr) \<times> kg_db" where
  "add_fact_with_provenance fmt req now prov db =
     (let (s, db1) = ensure_entity (af_subject req) (af_subject_type req) now db;
          (ob, db2) = ensure_entity (af_object req) (af_object_type req) now db1;
          p = canonicalize_label (af_predicate req) in
      case find_active_fact fmt db2 s p ob of
        Some existing \<Rightarrow> (Inr (kf_fact_id existing), db2)
      | None \<Rightarrow>
          let i = fact_id_of fmt s p ob (af_valid_from req) now in
          (case upsert_fact
             \<lparr> kf_fact_id = i, kf_subject = s, kf_predicate = p, kf_object = ob,
               kf_valid_from = af_valid_from req, kf_valid_to = af_valid_to req,
               kf_confidence = af_confidence req, kf_source_drawer_id = af_source_drawer_id req,
               kf_source_file = af_source_file req, kf_created_at = now, kf_updated_at = now,
               kf_provenance = prov \<rparr> db2 of
             (Inl x, db3) \<Rightarrow> (Inl (GraphStorage x), db3)
           | (Inr _, db3) \<Rightarrow> (Inr i, db3)))"

definition add_fact :: "(int \<Rightarrow> rstr) \<Rightarrow> add_fact_request \<Rightarrow> int \<Rightarrow> kg_db \<Rightarrow> (graph_error + rstr) \<times> kg_db" where
  "add_fact fmt req now db = add_fact_with_provenance fmt req now None db"

definition invalidate_with_provenance ::
  "env \<Rightarrow> (int \<Rightarrow> rstr) \<Rightarrow> rstr \<Rightarrow> rstr \<Rightarrow> rstr \<Rightarrow> int \<Rightarrow> int \<Rightarrow> persisted_provenance option \<Rightarrow>
   kg_db \<Rightarrow> (graph_error + nat) \<times> kg_db" where
  "invalidate_with_provenance e fmt subject predicate obj ended now prov db =
     try_tx db (resolve_entity_id db subject) (\<lambda>s.
     try_tx db (resolve_entity_id db obj) (\<lambda>ob.
       case invalidate_active_fact_with_provenance e fmt s (canonicalize_label predicate) ob ended now
              prov db of (r, db') \<Rightarrow> (mapE GraphStorage r, db')))"

section \<open>Queries\<close>

datatype query_direction = Outgoing | Incoming | Both

record kg_row =
  kr_direction :: rstr
  kr_subject :: rstr
  kr_predicate :: rstr
  kr_object :: rstr
  kr_valid_from :: "rstr option"
  kr_valid_to :: "rstr option"
  kr_confidence :: "32 word"
  kr_source_closet :: "rstr option"
  kr_current :: bool
  kr_provenance :: "provenance_response option"

definition day_of :: "int \<Rightarrow> int" where
  "day_of t = t div 86400000000000"

definition is_active_on :: "kg_fact \<Rightarrow> int \<Rightarrow> bool" where
  "is_active_on f date = (none_or (\<lambda>from. from \<le> date) (kf_valid_from f) \<and>
     none_or (\<lambda>upto. date \<le> upto) (kf_valid_to f))"

text \<open>\<open>name_lookup_for_fact_ids\<close>: the canonical names of the entities the facts mention.\<close>

definition fact_entity_ids :: "kg_fact list \<Rightarrow> rstr option \<Rightarrow> rstr list" where
  "fact_entity_ids facts anchor =
     bset_of (concat (map (\<lambda>f. [kf_subject f, kf_object f]) facts)
       @ (case anchor of None \<Rightarrow> [] | Some i \<Rightarrow> [i]))"

definition entity_names :: "kg_db \<Rightarrow> kg_fact list \<Rightarrow> rstr option \<Rightarrow> rstr \<Rightarrow> rstr option" where
  "entity_names db facts anchor =
     map_of (List.map_filter (\<lambda>r. map_option (\<lambda>e. (er_entity_id r, rg_canonical_name e))
         (payload_entry (er_payload r)))
       (list_entities_by_ids db (fact_entity_ids facts anchor)))"

definition name_or_id :: "(rstr \<Rightarrow> rstr option) \<Rightarrow> rstr \<Rightarrow> rstr" where
  "name_or_id names i = (case names i of Some n \<Rightarrow> n | None \<Rightarrow> denormalize_entity_id i)"

definition source_closet :: "kg_fact \<Rightarrow> rstr option" where
  "source_closet f = (case kf_source_drawer_id f of Some d \<Rightarrow> Some d | None \<Rightarrow> kf_source_file f)"

definition query_row ::
  "(int \<Rightarrow> rstr) \<Rightarrow> (rstr \<Rightarrow> rstr option) \<Rightarrow> int \<Rightarrow> rstr \<Rightarrow> kg_fact \<Rightarrow> kg_row" where
  "query_row fmt names today direction f =
     \<lparr> kr_direction = direction,
       kr_subject = name_or_id names (kf_subject f),
       kr_predicate = kf_predicate f,
       kr_object = name_or_id names (kf_object f),
       kr_valid_from = map_option fmt (kf_valid_from f),
       kr_valid_to = map_option fmt (kf_valid_to f),
       kr_confidence = kf_confidence f,
       kr_source_closet = source_closet f,
       kr_current = is_active_on f today,
       kr_provenance = map_option provenance_response_of (kf_provenance f) \<rparr>"

definition fact_row ::
  "(int \<Rightarrow> rstr) \<Rightarrow> (rstr \<Rightarrow> rstr option) \<Rightarrow> int \<Rightarrow> rstr \<Rightarrow> query_direction \<Rightarrow> kg_fact \<Rightarrow> kg_row option" where
  "fact_row fmt names today i direction f =
     (if kf_subject f = i \<and> direction \<in> {Outgoing, Both}
      then Some (query_row fmt names today (lit ''outgoing'') f)
      else if kf_object f = i \<and> direction \<in> {Incoming, Both}
      then Some (query_row fmt names today (lit ''incoming'') f)
      else None)"

definition query_entity ::
  "(int \<Rightarrow> rstr) \<Rightarrow> int \<Rightarrow> rstr \<Rightarrow> int option \<Rightarrow> query_direction \<Rightarrow> kg_db \<Rightarrow> graph_error + kg_row list" where
  "query_entity fmt now name as_of direction db =
     bindE (resolve_entity_id db name) (\<lambda>i.
       let facts = list_facts_for_entity fmt db i;
           names = entity_names db facts (Some i);
           today = day_of now
       in Inr (sort_key (\<lambda>r. (kr_valid_from r, kr_direction r, kr_predicate r, kr_object r))
            (List.map_filter (fact_row fmt names today i direction)
              (filter (\<lambda>f. none_or (is_active_on f) as_of) facts))))"

record kg_timeline_row =
  tl_subject :: rstr
  tl_predicate :: rstr
  tl_object :: rstr
  tl_valid_from :: "rstr option"
  tl_valid_to :: "rstr option"
  tl_current :: bool
  tl_provenance :: "provenance_response option"

definition timeline_row :: "(int \<Rightarrow> rstr) \<Rightarrow> (rstr \<Rightarrow> rstr option) \<Rightarrow> int \<Rightarrow> kg_fact \<Rightarrow> kg_timeline_row" where
  "timeline_row fmt names today f =
     \<lparr> tl_subject = name_or_id names (kf_subject f),
       tl_predicate = kf_predicate f,
       tl_object = name_or_id names (kf_object f),
       tl_valid_from = map_option fmt (kf_valid_from f),
       tl_valid_to = map_option fmt (kf_valid_to f),
       tl_current = is_active_on f today,
       tl_provenance = map_option provenance_response_of (kf_provenance f) \<rparr>"

definition timeline ::
  "(int \<Rightarrow> rstr) \<Rightarrow> int \<Rightarrow> rstr option \<Rightarrow> kg_db \<Rightarrow> graph_error + kg_timeline_row list" where
  "timeline fmt now entity_name db =
     bindE (case entity_name of None \<Rightarrow> Inr None
            | Some n \<Rightarrow> bindE (resolve_entity_id db n) (\<lambda>i. Inr (Some i))) (\<lambda>anchor.
       let facts = (case anchor of Some i \<Rightarrow> list_facts_for_entity fmt db i
                    | None \<Rightarrow> list_facts_limited fmt db 100);
           names = entity_names db facts anchor;
           today = day_of now
       in Inr (sort_key (\<lambda>r. (tl_valid_from r, tl_predicate r, tl_subject r, tl_object r))
            (map (timeline_row fmt names today) facts)))"

record kg_stats =
  ks_entities :: nat
  ks_triples :: nat
  ks_current_facts :: nat
  ks_expired_facts :: nat
  ks_relationship_types :: "rstr list"

definition canonical_entity_count :: "entity_record list \<Rightarrow> nat" where
  "canonical_entity_count rows =
     length (bset_of (map (\<lambda>r. case payload_entry (er_payload r) of
         Some e \<Rightarrow> entity_id (rg_entity_type e) (rg_canonical_name e)
       | None \<Rightarrow> er_entity_id r) rows))"

definition graph_statistics :: "(int \<Rightarrow> rstr) \<Rightarrow> int \<Rightarrow> kg_db \<Rightarrow> kg_stats" where
  "graph_statistics fmt now db =
     (let facts = list_facts fmt db;
          current = length (filter (\<lambda>f. is_active_on f (day_of now)) facts)
      in \<lparr> ks_entities = canonical_entity_count (list_entities db),
           ks_triples = length facts,
           ks_current_facts = current,
           ks_expired_facts = length facts - current,
           ks_relationship_types = bset_of (map kf_predicate facts) \<rparr>)"

end
