(* ===== verification/Knowledge_Graph_Inv.thy ===== *)
theory Knowledge_Graph_Inv
  imports Knowledge_Graph Contracts
begin

text \<open>
  The knowledge graph as a state machine: its calls, the invariant \<open>kg_inv\<close> and its preservation. The
  invariant has three parts: identifiers are keys; the identifier of a fact is built from its triple;
  a triple has at most one open fact.
\<close>

text \<open>
  The texts the knowledge graph identifies things by. \<open>label\<close> describes the results of
  \<open>canonicalize_label\<close>, on which it is the identity; labels and entity identifiers contain no
  separator, so the identifier of a fact determines the fact's subject, predicate and object.
\<close>

section \<open>Labels\<close>

definition label_char :: "nat \<Rightarrow> bool" where
  "label_char ch \<longleftrightarrow> is_ascii_lower ch \<or> is_ascii_digit ch \<or> ch = 95"

fun no_double :: "rstr \<Rightarrow> bool" where
  "no_double (x # y # s) = (\<not> (x = 95 \<and> y = 95) \<and> no_double (y # s))"
| "no_double _ = True"

definition label :: "rstr \<Rightarrow> bool" where
  "label s \<longleftrightarrow> (\<forall>ch \<in> set s. label_char ch) \<and> no_double s \<and> (s \<noteq> [] \<longrightarrow> hd s \<noteq> 95 \<and> last s \<noteq> 95)"

lemma lower_alnum: "is_ascii_alphanumeric ch \<Longrightarrow> label_char (hd (to_ascii_lowercase [ch])) \<and> hd (to_ascii_lowercase [ch]) \<noteq> 95"
  by (auto simp: is_ascii_alphanumeric_def is_ascii_lower_def is_ascii_upper_def is_ascii_digit_def
      label_char_def to_ascii_lowercase_def)

lemma no_double_Cons: "no_double (x # s) \<longleftrightarrow> \<not> (x = 95 \<and> s \<noteq> [] \<and> hd s = 95) \<and> no_double s"
  by (cases s) auto

lemma canonical_chars_props:
  "(\<forall>ch \<in> set (canonical_chars b s). label_char ch) \<and> no_double (canonical_chars b s) \<and>
   (b \<longrightarrow> canonical_chars b s = [] \<or> hd (canonical_chars b s) \<noteq> 95)"
proof (induction b s rule: canonical_chars.induct)
  case (2 b ch s)
  show ?case
  proof (cases "is_ascii_alphanumeric ch")
    case True
    obtain l where l: "to_ascii_lowercase [ch] = [l]" by (simp add: to_ascii_lowercase_def)
    with lower_alnum [OF True] have "label_char l" "l \<noteq> 95" by simp_all
    with "2.IH"(1) True show ?thesis by (auto simp: l no_double_Cons)
  next
    case False
    with 2 show ?thesis by (auto simp: no_double_Cons label_char_def)
  qed
qed simp

lemma no_double_append1: "no_double (s @ t) \<Longrightarrow> no_double s \<and> no_double t"
  by (induction s) (auto simp: no_double_Cons hd_append split: if_splits)

lemma trim_matches_split: "\<exists>a b. s = a @ trim_matches c s @ b"
proof -
  let ?u = "dropWhile ((=) c) s"
  have "s = takeWhile ((=) c) s @ ?u" by simp
  moreover have "?u = rev (dropWhile ((=) c) (rev ?u)) @ rev (takeWhile ((=) c) (rev ?u))"
    by (metis rev_append rev_rev_ident takeWhile_dropWhile_id)
  ultimately show ?thesis unfolding trim_matches_def by metis
qed

lemma trim_matches_ends: "trim_matches c s \<noteq> [] \<Longrightarrow> hd (trim_matches c s) \<noteq> c \<and> last (trim_matches c s) \<noteq> c"
proof -
  let ?u = "dropWhile ((=) c) s"
  assume ne: "trim_matches c s \<noteq> []"
  then have v: "dropWhile ((=) c) (rev ?u) \<noteq> []" unfolding trim_matches_def by (metis rev.simps(1))
  have "last (trim_matches c s) \<noteq> c"
    using hd_dropWhile [OF v] by (simp add: trim_matches_def last_rev)
  moreover have "?u \<noteq> []" using v by (metis dropWhile.simps(1) rev.simps(1))
  then have "hd ?u \<noteq> c" using hd_dropWhile [of "(=) c" s] by auto
  moreover have "hd (trim_matches c s) = hd ?u"
  proof -
    have "?u = trim_matches c s @ rev (takeWhile ((=) c) (rev ?u))"
      unfolding trim_matches_def by (metis rev_append rev_rev_ident takeWhile_dropWhile_id)
    with ne show ?thesis by (metis hd_append2)
  qed
  ultimately show ?thesis by simp
qed

lemma trim_matches_id: "s = [] \<or> hd s \<noteq> c \<and> last s \<noteq> c \<Longrightarrow> trim_matches c s = s"
proof -
  assume ends: "s = [] \<or> hd s \<noteq> c \<and> last s \<noteq> c"
  have id: "t = [] \<or> hd t \<noteq> c \<Longrightarrow> dropWhile ((=) c) t = t" for t :: rstr by (cases t) auto
  have "dropWhile ((=) c) s = s" by (rule id) (use ends in blast)
  moreover have "dropWhile ((=) c) (rev s) = rev s" by (rule id) (use ends in \<open>auto simp: hd_rev\<close>)
  ultimately show ?thesis by (simp only: trim_matches_def rev_rev_ident)
qed

lemma label_canonicalize: "label (canonicalize_label s)"
proof -
  let ?c = "canonical_chars False (trim s)"
  obtain a b where split: "?c = a @ canonicalize_label s @ b"
    using trim_matches_split unfolding canonicalize_label_def by blast
  from canonical_chars_props [of False "trim s"] have chars: "\<forall>ch \<in> set ?c. label_char ch" and "no_double ?c"
    by blast+
  then have "no_double (canonicalize_label s)" using split no_double_append1 by metis
  moreover have "\<forall>ch \<in> set (canonicalize_label s). label_char ch"
    using chars unfolding split by simp
  moreover have "canonicalize_label s \<noteq> [] \<longrightarrow>
      hd (canonicalize_label s) \<noteq> 95 \<and> last (canonicalize_label s) \<noteq> 95"
    using trim_matches_ends by (simp add: canonicalize_label_def)
  ultimately show ?thesis by (simp add: label_def)
qed

lemma canonical_chars_label:
  "\<forall>ch \<in> set s. label_char ch \<Longrightarrow> no_double s \<Longrightarrow> (b \<longrightarrow> s = [] \<or> hd s \<noteq> 95) \<Longrightarrow> canonical_chars b s = s"
proof (induction b s rule: canonical_chars.induct)
  case (2 b ch s)
  have alnum: "is_ascii_alphanumeric ch \<longleftrightarrow> ch \<noteq> 95" "ch \<noteq> 95 \<Longrightarrow> to_ascii_lowercase [ch] = [ch]"
    using "2.prems"(1) by (auto simp: label_char_def is_ascii_alphanumeric_def is_ascii_lower_def
        is_ascii_upper_def is_ascii_digit_def to_ascii_lowercase_def)
  show ?case
    using 2 alnum by (cases "ch = 95") (auto simp: no_double_Cons)
qed simp

lemma label_trim: "label s \<Longrightarrow> trim s = s"
proof (cases "s = []")
  case False
  assume "label s"
  then have "\<not> is_whitespace ch" if "ch \<in> set s" for ch
    using that by (auto simp: label_def label_char_def is_whitespace_def is_ascii_lower_def is_ascii_digit_def)
  then show ?thesis
    using False trim_start_eq [of s] trim_end_eq [of s] by (simp add: trim_def)
qed (simp add: trim_def trim_start_def trim_end_def)

lemma canonicalize_fixed: "label s \<Longrightarrow> canonicalize_label s = s"
  by (auto simp: canonicalize_label_def label_trim label_def canonical_chars_label intro: trim_matches_id)

lemma canonicalize_idem [simp]: "canonicalize_label (canonicalize_label s) = canonicalize_label s"
  by (rule canonicalize_fixed [OF label_canonicalize])

text \<open>Names that differ in ASCII case only have the same label.\<close>

lemma whitespace_lower: "is_whitespace (hd (to_ascii_lowercase [ch])) = is_whitespace ch"
  by (auto simp: to_ascii_lowercase_def is_ascii_upper_def is_whitespace_def)

lemma canonical_chars_lower: "canonical_chars b (to_ascii_lowercase s) = canonical_chars b s"
proof (induction b s rule: canonical_chars.induct)
  case (2 b ch s)
  have "is_ascii_alphanumeric (hd (to_ascii_lowercase [ch])) = is_ascii_alphanumeric ch"
    "to_ascii_lowercase [hd (to_ascii_lowercase [ch])] = to_ascii_lowercase [ch]"
    by (auto simp: to_ascii_lowercase_def is_ascii_alphanumeric_def is_ascii_lower_def
        is_ascii_upper_def is_ascii_digit_def)
  moreover have "to_ascii_lowercase (ch # s) = hd (to_ascii_lowercase [ch]) # to_ascii_lowercase s"
    by (simp add: to_ascii_lowercase_def)
  ultimately show ?case using 2 by simp
qed (simp add: to_ascii_lowercase_def)

lemma dropWhile_lower:
  "dropWhile is_whitespace (to_ascii_lowercase s) = to_ascii_lowercase (dropWhile is_whitespace s)"
  using whitespace_lower by (induction s) (auto simp: to_ascii_lowercase_def)

lemma rev_lower: "rev (to_ascii_lowercase s) = to_ascii_lowercase (rev s)"
  by (simp add: to_ascii_lowercase_def rev_map)

lemma trim_lower: "trim (to_ascii_lowercase s) = to_ascii_lowercase (trim s)"
  by (simp add: trim_def trim_start_def trim_end_def dropWhile_lower rev_lower)

lemma canonicalize_lower: "canonicalize_label (to_ascii_lowercase s) = canonicalize_label s"
  by (simp add: canonicalize_label_def trim_lower canonical_chars_lower)

lemma canonicalize_eq: "eq_ignore_ascii_case a b \<Longrightarrow> canonicalize_label a = canonicalize_label b"
  unfolding eq_ignore_ascii_case_def by (metis canonicalize_lower)

section \<open>Identifiers\<close>

lemma label_no_colon: "label s \<Longrightarrow> 58 \<notin> set s"
  by (auto simp: label_def label_char_def is_ascii_lower_def is_ascii_digit_def)

lemma kind_no_colon: "58 \<notin> set (kind_str k)"
  by (cases k) (simp_all add: lit_def)

lemma split_at_sep:
  "c \<notin> set a \<Longrightarrow> c \<notin> set b \<Longrightarrow> a @ c # x = b @ c # y \<longleftrightarrow> a = b \<and> x = y"
  by (induction a arbitrary: b) (case_tac b; auto)+

text \<open>An entity identifier: a kind, a colon and a label.\<close>

definition entity_ref :: "rstr \<Rightarrow> bool" where
  "entity_ref i \<longleftrightarrow> (\<exists>k l. i = k @ 58 # l \<and> 58 \<notin> set k \<and> 58 \<notin> set l)"

lemma entity_ref_entity_id [simp]: "entity_ref (entity_id k n)"
  unfolding entity_ref_def entity_id_def
  by (intro exI [of _ "kind_str k"] exI [of _ "canonicalize_label n"])
    (simp add: kind_no_colon label_no_colon [OF label_canonicalize] lit_def)

lemma entity_ref_prefix:
  assumes "entity_ref i" and "entity_ref j" and "i @ 58 # x = j @ 58 # y"
  shows "i = j \<and> x = y"
proof -
  from assms(1,2) obtain k l k' l' where
    "i = k @ 58 # l" "58 \<notin> set k" "58 \<notin> set l" "j = k' @ 58 # l'" "58 \<notin> set k'" "58 \<notin> set l'"
    unfolding entity_ref_def by blast
  with assms(3) show ?thesis by (simp add: split_at_sep)
qed

lemma fact_id_triple:
  assumes "fact_id_of fmt s p ob from now = fact_id_of fmt' s' p' ob' from' now'"
    and "entity_ref s" "entity_ref s'" "entity_ref ob" "entity_ref ob'" "58 \<notin> set p" "58 \<notin> set p'"
  shows "s = s' \<and> p = p' \<and> ob = ob'"
proof -
  from assms(1) have "s @ 58 # p @ 58 # ob @ 58 # (case from of Some d \<Rightarrow> fmt d | None \<Rightarrow> show_int (unix_seconds now))
     = s' @ 58 # p' @ 58 # ob' @ 58 # (case from' of Some d \<Rightarrow> fmt' d | None \<Rightarrow> show_int (unix_seconds now'))"
    by (simp add: fact_id_of_def lit_def)
  from entity_ref_prefix [OF assms(2,3) this] have s: "s = s'"
    and rest: "p @ 58 # ob @ 58 # (case from of Some d \<Rightarrow> fmt d | None \<Rightarrow> show_int (unix_seconds now))
     = p' @ 58 # ob' @ 58 # (case from' of Some d \<Rightarrow> fmt' d | None \<Rightarrow> show_int (unix_seconds now'))"
    by blast+
  from rest assms(6,7) have p: "p = p'"
    and "ob @ 58 # (case from of Some d \<Rightarrow> fmt d | None \<Rightarrow> show_int (unix_seconds now))
     = ob' @ 58 # (case from' of Some d \<Rightarrow> fmt' d | None \<Rightarrow> show_int (unix_seconds now'))"
    by (simp_all add: split_at_sep)
  with entity_ref_prefix [OF assms(4,5)] s show ?thesis by blast
qed

section \<open>Machine\<close>

datatype kg_call =
  KgAdd add_fact_request int "persisted_provenance option"
| KgInvalidate rstr rstr rstr int int "persisted_provenance option"
| KgSaveEntity entity_record

fun kg_exec :: "env \<Rightarrow> (int \<Rightarrow> rstr) \<Rightarrow> kg_call \<Rightarrow> kg_db \<Rightarrow> kg_db" where
  "kg_exec e fmt (KgAdd req now prov) db = snd (add_fact_with_provenance fmt req now prov db)"
| "kg_exec e fmt (KgInvalidate s p ob ended now prov) db =
     snd (invalidate_with_provenance e fmt s p ob ended now prov db)"
| "kg_exec e fmt (KgSaveEntity r) db = upsert_entity r db"

section \<open>Invariant\<close>

definition fact_named :: "kg_fact \<Rightarrow> bool" where
  "fact_named f \<longleftrightarrow> entity_ref (kf_subject f) \<and> entity_ref (kf_object f) \<and> 58 \<notin> set (kf_predicate f) \<and>
     (\<exists>fmt from now. kf_fact_id f = fact_id_of fmt (kf_subject f) (kf_predicate f) (kf_object f) from now)"

definition open_fact :: "rstr \<Rightarrow> rstr \<Rightarrow> rstr \<Rightarrow> kg_fact \<Rightarrow> bool" where
  "open_fact s p ob f \<longleftrightarrow> is_triple s p ob f \<and> kf_valid_to f = None"

definition kg_inv :: "kg_db \<Rightarrow> bool" where
  "kg_inv db \<longleftrightarrow>
     distinct (map er_entity_id (kg_entities db)) \<and>
     distinct (map kf_fact_id (kg_facts db)) \<and>
     (\<forall>f \<in> set (kg_facts db). fact_named f \<and> \<not> f32_is_nan (kf_confidence f)) \<and>
     (\<forall>s p ob. \<forall>f \<in> set (kg_facts db). \<forall>g \<in> set (kg_facts db).
        open_fact s p ob f \<longrightarrow> open_fact s p ob g \<longrightarrow> f = g)"

lemma kg_inv_empty: "kg_inv kg_empty"
  by (simp add: kg_inv_def kg_empty_def)

section \<open>Entities\<close>

lemma upsert_entity_facts [simp]: "kg_facts (upsert_entity r db) = kg_facts db"
  by (simp add: upsert_entity_def)

lemma upsert_entity_ids:
  assumes "distinct (map er_entity_id (kg_entities db))"
  shows "distinct (map er_entity_id (kg_entities (upsert_entity r db)))"
proof -
  have "map er_entity_id (update_rows (\<lambda>x. er_entity_id x = er_entity_id r) (\<lambda>_. r) (kg_entities db))
      = map er_entity_id (kg_entities db)"
    by (rule map_update_rows) simp
  with assms show ?thesis by (auto simp: upsert_entity_def find_row_None)
qed

lemma kg_inv_upsert_entity: "kg_inv db \<Longrightarrow> kg_inv (upsert_entity r db)"
  by (simp add: kg_inv_def upsert_entity_ids)

lemma ensure_entity_facts: "ensure_entity n k now db = (i, db') \<Longrightarrow> kg_facts db' = kg_facts db"
  by (auto simp: ensure_entity_def Let_def split: option.splits if_splits)

lemma ensure_entity_inv: "kg_inv db \<Longrightarrow> ensure_entity n k now db = (i, db') \<Longrightarrow> kg_inv db'"
  by (auto simp: ensure_entity_def Let_def kg_inv_upsert_entity split: option.splits if_splits)

lemma find_registered_ref: "find_registered_entity db n k = Some i \<Longrightarrow> entity_ref i"
  by (auto simp: find_registered_entity_def)

lemma ensure_entity_ref: "ensure_entity n k now db = (i, db') \<Longrightarrow> entity_ref i"
  by (auto simp: ensure_entity_def Let_def split: option.splits if_splits dest: find_registered_ref)

section \<open>Facts\<close>

lemma open_unique:
  "kg_inv db \<Longrightarrow> f \<in> set (kg_facts db) \<Longrightarrow> g \<in> set (kg_facts db) \<Longrightarrow>
   open_fact s p ob f \<Longrightarrow> open_fact s p ob g \<Longrightarrow> f = g"
  by (simp add: kg_inv_def)

lemma find_active_eq:
  "find_active_fact fmt db s p ob =
     (case sort_key (\<lambda>f. (from_text fmt f, kf_fact_id f)) (filter (open_fact s p ob) (kg_facts db)) of
        [] \<Rightarrow> None | f # _ \<Rightarrow> Some f)"
  by (simp add: find_active_fact_def open_fact_def [abs_def])

lemma find_active_cases:
  "find_active_fact fmt db s p ob = None \<and> (\<forall>f \<in> set (kg_facts db). \<not> open_fact s p ob f)
   \<or> (\<exists>f \<in> set (kg_facts db). open_fact s p ob f \<and> find_active_fact fmt db s p ob = Some f)"
proof -
  let ?ys = "sort_key (\<lambda>f. (from_text fmt f, kf_fact_id f)) (filter (open_fact s p ob) (kg_facts db))"
  have set: "set ?ys = {f \<in> set (kg_facts db). open_fact s p ob f}" by simp
  show ?thesis
  proof (cases ?ys)
    case Nil
    with set have "\<forall>f \<in> set (kg_facts db). \<not> open_fact s p ob f" by force
    with Nil show ?thesis by (simp add: find_active_eq)
  next
    case (Cons f ys)
    with set have "f \<in> set (kg_facts db) \<and> open_fact s p ob f" by force
    with Cons show ?thesis by (auto simp: find_active_eq)
  qed
qed

lemma find_active_None:
  "find_active_fact fmt db s p ob = None \<longleftrightarrow> (\<forall>f \<in> set (kg_facts db). \<not> open_fact s p ob f)"
  using find_active_cases [of fmt db s p ob] by auto

lemma find_active_SomeD:
  "find_active_fact fmt db s p ob = Some f \<Longrightarrow> f \<in> set (kg_facts db) \<and> open_fact s p ob f"
  using find_active_cases [of fmt db s p ob] by auto

lemma find_active_Some:
  "kg_inv db \<Longrightarrow> find_active_fact fmt db s p ob = Some f \<longleftrightarrow> f \<in> set (kg_facts db) \<and> open_fact s p ob f"
  by (metis find_active_None find_active_SomeD not_None_eq open_unique)

text \<open>The new row of an assertion overwrites only rows of the same triple.\<close>

lemma fact_named_same_id:
  "fact_named f \<Longrightarrow> fact_named g \<Longrightarrow> kf_fact_id f = kf_fact_id g \<Longrightarrow>
   kf_subject f = kf_subject g \<and> kf_predicate f = kf_predicate g \<and> kf_object f = kf_object g"
  unfolding fact_named_def using fact_id_triple by metis

lemma kg_inv_upsert_fact:
  assumes inv: "kg_inv db" and new: "fact_named f"
    and free: "\<forall>g \<in> set (kg_facts db). \<not> open_fact (kf_subject f) (kf_predicate f) (kf_object f) g"
    and up: "upsert_fact f db = (r, db')"
  shows "kg_inv db'"
proof (cases "f32_is_nan (kf_confidence f)")
  case False
  have only: "\<not> open_fact s p ob g" if "open_fact s p ob f" "g \<in> set (kg_facts db)" for s p ob g
    using that free by (auto simp: open_fact_def is_triple_def)
  show ?thesis
  proof (cases "find_row (\<lambda>x. kf_fact_id x = kf_fact_id f) (kg_facts db) = None")
    case True
    with up False have "db' = db\<lparr> kg_facts := kg_facts db @ [f] \<rparr>" by (simp add: upsert_fact_def)
    with inv new True False only show ?thesis
      by (auto simp: kg_inv_def find_row_None)
  next
    case dup: False
    let ?same = "\<lambda>x. kf_fact_id x = kf_fact_id f"
    let ?upd = "\<lambda>x. f\<lparr> kf_created_at := kf_created_at x \<rparr>"
    let ?rows = "update_rows ?same ?upd (kg_facts db)"
    from up dup False have db': "db' = db\<lparr> kg_facts := ?rows \<rparr>" by (simp add: upsert_fact_def)
    have ids: "map kf_fact_id ?rows = map kf_fact_id (kg_facts db)" by (rule map_update_rows) simp
    have named: "fact_named (?upd x)" for x using new by (simp add: fact_named_def)
    have upd: "open_fact s p ob (?upd x) = open_fact s p ob f" for s p ob x
      by (simp add: open_fact_def is_triple_def)
    have key: "x = y" if "x \<in> set (kg_facts db)" "y \<in> set (kg_facts db)" "?same x" "?same y" for x y
      using that inv by (auto simp: kg_inv_def distinct_map inj_on_def)
    have "g = h" if g: "g \<in> set ?rows" "open_fact s p ob g" and h: "h \<in> set ?rows" "open_fact s p ob h"
      for s p ob g h
    proof -
      obtain x where x: "x \<in> set (kg_facts db)" "?same x \<and> g = ?upd x \<or> \<not> ?same x \<and> g = x"
        using g(1) by (auto simp: set_update_rows)
      obtain y where y: "y \<in> set (kg_facts db)" "?same y \<and> h = ?upd y \<or> \<not> ?same y \<and> h = y"
        using h(1) by (auto simp: set_update_rows)
      from x(2) y(2) show ?thesis
      proof (elim disjE conjE)
        assume "g = ?upd x" "h = ?upd y" "?same x" "?same y"
        with key [OF x(1) y(1)] show ?thesis by simp
      next
        assume "g = ?upd x" "h = y"
        with g(2) h(2) upd only [OF _ y(1)] show ?thesis by blast
      next
        assume "g = x" "h = ?upd y"
        with g(2) h(2) upd only [OF _ x(1)] show ?thesis by blast
      next
        assume "g = x" "h = y"
        with open_unique [OF inv x(1) y(1)] g(2) h(2) show ?thesis by blast
      qed
    qed
    with inv named False show ?thesis
      by (auto simp: db' kg_inv_def ids) (auto simp: set_update_rows)
  qed
qed (use assms in \<open>simp add: upsert_fact_def\<close>)

lemma fact_named_new:
  "entity_ref s \<Longrightarrow> entity_ref ob \<Longrightarrow> kf_subject f = s \<Longrightarrow> kf_object f = ob \<Longrightarrow>
   kf_predicate f = canonicalize_label p \<Longrightarrow>
   kf_fact_id f = fact_id_of fmt s (canonicalize_label p) ob from now \<Longrightarrow> fact_named f"
  unfolding fact_named_def using label_no_colon [OF label_canonicalize] by metis

text \<open>What an assertion does, by cases.\<close>

inductive add_spec ::
  "(int \<Rightarrow> rstr) \<Rightarrow> add_fact_request \<Rightarrow> int \<Rightarrow> persisted_provenance option \<Rightarrow> kg_db \<Rightarrow>
   graph_error + rstr \<Rightarrow> kg_db \<Rightarrow> bool"
  for fmt req now prov db where
  present: "ensure_entity (af_subject req) (af_subject_type req) now db = (s, db1) \<Longrightarrow>
     ensure_entity (af_object req) (af_object_type req) now db1 = (ob, db2) \<Longrightarrow>
     find_active_fact fmt db2 s (canonicalize_label (af_predicate req)) ob = Some f \<Longrightarrow>
     add_spec fmt req now prov db (Inr (kf_fact_id f)) db2"
| new: "ensure_entity (af_subject req) (af_subject_type req) now db = (s, db1) \<Longrightarrow>
     ensure_entity (af_object req) (af_object_type req) now db1 = (ob, db2) \<Longrightarrow>
     find_active_fact fmt db2 s p ob = None \<Longrightarrow> p = canonicalize_label (af_predicate req) \<Longrightarrow>
     f = \<lparr> kf_fact_id = fact_id_of fmt s p ob (af_valid_from req) now, kf_subject = s, kf_predicate = p,
           kf_object = ob, kf_valid_from = af_valid_from req, kf_valid_to = af_valid_to req,
           kf_confidence = af_confidence req, kf_source_drawer_id = af_source_drawer_id req,
           kf_source_file = af_source_file req, kf_created_at = now, kf_updated_at = now,
           kf_provenance = prov \<rparr> \<Longrightarrow>
     upsert_fact f db2 = (u, db3) \<Longrightarrow>
     r = (case u of Inl x \<Rightarrow> Inl (GraphStorage x) | Inr _ \<Rightarrow> Inr (kf_fact_id f)) \<Longrightarrow>
     add_spec fmt req now prov db r db3"

lemma add_fact_spec:
  assumes "add_fact_with_provenance fmt req now prov db = (r, db')"
  shows "add_spec fmt req now prov db r db'"
proof -
  obtain s db1 where s: "ensure_entity (af_subject req) (af_subject_type req) now db = (s, db1)"
    by (metis surj_pair)
  obtain ob db2 where ob: "ensure_entity (af_object req) (af_object_type req) now db1 = (ob, db2)"
    by (metis surj_pair)
  show ?thesis
  proof (cases "find_active_fact fmt db2 s (canonicalize_label (af_predicate req)) ob")
    case None
    with assms s ob show ?thesis
      by (auto simp: add_fact_with_provenance_def Let_def split: prod.splits sum.splits
          intro!: add_spec.new [OF s ob None refl refl])
  next
    case (Some f)
    with assms s ob show ?thesis
      by (auto simp: add_fact_with_provenance_def Let_def intro: add_spec.present)
  qed
qed

lemma add_fact_inv:
  assumes inv: "kg_inv db" and add: "add_fact_with_provenance fmt req now prov db = (r, db')"
  shows "kg_inv db'"
  using add_fact_spec [OF add]
proof cases
  case (present s db1 ob f)
  then show ?thesis by (blast intro: inv ensure_entity_inv)
next
  case (new s db1 ob db2 p f u)
  have "kg_inv db2" using new inv by (blast intro: ensure_entity_inv)
  moreover have "fact_named f"
    by (rule fact_named_new [of s ob]) (use new in \<open>auto intro: ensure_entity_ref\<close>)
  ultimately show ?thesis
    using new by (auto intro: kg_inv_upsert_fact simp: find_active_None)
qed

section \<open>Invalidation\<close>

definition end_fact :: "int \<Rightarrow> int \<Rightarrow> persisted_provenance option \<Rightarrow> kg_fact \<Rightarrow> kg_fact" where
  "end_fact ended now prov f = f\<lparr> kf_valid_to := Some ended, kf_updated_at := now, kf_provenance := prov \<rparr>"

lemma kg_inv_end_rows:
  assumes "kg_inv db" and "end_rows e ended now prov rows n db = (r, db')"
  shows "kg_inv db'"
  using assms
proof (induction e ended now prov rows n db rule: end_rows.induct)
  case (2 e ended now prov i existing rows changed db)
  let ?hit = "\<lambda>f. kf_fact_id f = i \<and> kf_valid_to f = None"
  have "kg_inv (db\<lparr> kg_facts := update_rows ?hit (end_fact ended now m) (kg_facts db) \<rparr>)" for m
  proof -
    have ids: "map kf_fact_id (update_rows ?hit (end_fact ended now m) (kg_facts db)) = map kf_fact_id (kg_facts db)"
      by (rule map_update_rows) (simp add: end_fact_def)
    have "\<not> open_fact s p ob (end_fact ended now m x)" for s p ob x
      by (simp add: open_fact_def end_fact_def)
    moreover have "fact_named (end_fact ended now m x) = fact_named x" for x
      by (simp add: fact_named_def end_fact_def)
    moreover have "kf_confidence (end_fact ended now m x) = kf_confidence x" for x
      by (simp add: end_fact_def)
    ultimately show ?thesis
      using "2.prems"(1) by (auto simp: kg_inv_def ids) (auto simp: set_update_rows split: if_splits)
  qed
  with "2.IH" "2.prems" show ?case
    by (auto simp: end_fact_def [abs_def] Let_def split: try_tx_split_asm)
qed simp

lemma invalidate_inv:
  assumes "kg_inv db" and "invalidate_with_provenance e fmt s p ob ended now prov db = (r, db')"
  shows "kg_inv db'"
  using assms
  by (auto simp: invalidate_with_provenance_def invalidate_active_fact_with_provenance_def
      split: try_tx_split_asm prod.splits dest: kg_inv_end_rows)

lemma kg_exec_inv: "kg_inv db \<Longrightarrow> kg_inv (kg_exec e fmt c db)"
  by (cases c) (auto simp: kg_inv_upsert_entity dest: add_fact_inv invalidate_inv
      intro: prod.collapse [THEN sym])

end
