(* ===== verification/Knowledge_Graph_Props.thy ===== *)
theory Knowledge_Graph_Props
  imports Knowledge_Graph_Inv Samples
begin

text \<open>
  The properties of the knowledge graph: its invariant, that assertions are idempotent whatever other
  assertions come between, that ending a fact is atomic, and two runs that lose information.
\<close>

interpretation kg: state_machine kg_empty "kg_exec e fmt" kg_inv for e fmt
  by unfold_locales (auto simp: kg_inv_empty kg_exec_inv)

section \<open>Entities are stable under assertions\<close>

definition row_matches :: "rstr \<Rightarrow> entity_kind option \<Rightarrow> entity_record \<Rightarrow> bool" where
  "row_matches n k r = opt_holds (\<lambda>e. none_or (\<lambda>k. rg_entity_type e = k) k \<and> entry_matches n e)
     (payload_entry (er_payload r))"

definition row_ref :: "entity_record \<Rightarrow> rstr option" where
  "row_ref r = map_option (\<lambda>e. entity_id (rg_entity_type e) (rg_canonical_name e)) (payload_entry (er_payload r))"

lemma find_row_filter: "find_row p xs = (case filter p xs of [] \<Rightarrow> None | x # _ \<Rightarrow> Some x)"
  by (induction xs) auto

lemma find_row_map_filter:
  "find_row p (List.map_filter f xs) = Option.bind (find_row (\<lambda>x. opt_holds p (f x)) xs) f"
  by (induction xs) (auto simp: List.map_filter_simps split: option.splits)

lemma find_registered_eq:
  "find_registered_entity db n k =
     (case sort_key (\<lambda>x. (er_entity_type x, er_entity_id x)) (filter (row_matches n k) (kg_entities db)) of
        [] \<Rightarrow> None | r # _ \<Rightarrow> row_ref r)"
proof -
  have "find_registered_entity db n k
      = Option.bind (find_row (row_matches n k) (list_entities db)) row_ref"
    by (simp add: find_registered_entity_def find_row_map_filter row_matches_def [abs_def] row_ref_def
        split: option.splits bind_split)
  then show ?thesis
    by (auto simp: find_row_filter list_entities_def filter_sort split: list.splits)
qed

lemma find_registered_None:
  "find_registered_entity db n k = None \<longleftrightarrow> filter (row_matches n k) (kg_entities db) = []"
proof (cases "sort_key (\<lambda>x. (er_entity_type x, er_entity_id x)) (filter (row_matches n k) (kg_entities db))")
  case Nil
  then have "filter (row_matches n k) (kg_entities db) = []" by (metis length_0_conv length_sort)
  with Nil show ?thesis by (simp add: find_registered_eq)
next
  case (Cons r rs)
  then have "r \<in> set (filter (row_matches n k) (kg_entities db))" by (metis list.set_intros(1) set_sort)
  then have "row_ref r \<noteq> None" "filter (row_matches n k) (kg_entities db) \<noteq> []"
    by (auto simp: row_matches_def row_ref_def opt_holds_iff filter_empty_conv)
  with Cons show ?thesis by (simp add: find_registered_eq)
qed

definition entity_ref_of :: "kg_db \<Rightarrow> rstr \<Rightarrow> entity_kind \<Rightarrow> rstr" where
  "entity_ref_of db n k =
     (case find_registered_entity db n (Some k) of Some i \<Rightarrow> i | None \<Rightarrow> entity_id k n)"

lemma ensure_entity_fst: "fst (ensure_entity n k now db) = entity_ref_of db n k"
  by (simp add: ensure_entity_def entity_ref_of_def Let_def split: option.splits)

lemma graph_entry_matches: "entry_matches n' (graph_entry n k) \<longleftrightarrow> eq_ignore_ascii_case n n'"
  by (simp add: entry_matches_def graph_entry_def)

lemma entry_matches_cong: "eq_ignore_ascii_case n n' \<Longrightarrow> entry_matches n e = entry_matches n' e"
  by (simp add: entry_matches_def eq_ignore_ascii_case_def)

lemma ensure_entity_stable:
  "entity_ref_of (snd (ensure_entity n k now db)) n' k' = entity_ref_of db n' k'"
proof (cases "find_registered_entity db n (Some k) = None \<and> get_entity db (entity_id k n) = None")
  case False
  then show ?thesis by (auto simp: ensure_entity_def Let_def split: option.splits)
next
  case True
  define r where "r = \<lparr> er_entity_id = entity_id k n, er_entity_type = kind_str k,
      er_payload = EntryPayload (graph_entry n k), er_updated_at = now \<rparr>"
  have db': "kg_entities (snd (ensure_entity n k now db)) = kg_entities db @ [r]"
    using True by (simp add: ensure_entity_def Let_def upsert_entity_def get_entity_def r_def)
  have r: "row_matches n' (Some k') r \<longleftrightarrow> k = k' \<and> eq_ignore_ascii_case n n'"
    by (simp add: row_matches_def r_def graph_entry_matches) (simp add: graph_entry_def)
  show ?thesis
  proof (cases "row_matches n' (Some k') r")
    case no: False
    then show ?thesis by (simp add: entity_ref_of_def find_registered_eq db')
  next
    case yes: True
    with r have k: "k' = k" and n: "eq_ignore_ascii_case n n'" by simp_all
    have same: "filter (row_matches n' (Some k')) (kg_entities db) = filter (row_matches n (Some k)) (kg_entities db)"
      by (rule filter_cong) (simp_all add: row_matches_def k entry_matches_cong [OF n])
    have none: "filter (row_matches n (Some k)) (kg_entities db) = []"
      using True by (simp add: find_registered_None)
    with same yes have "find_registered_entity (snd (ensure_entity n k now db)) n' (Some k') = row_ref r"
      by (simp add: find_registered_eq db')
    moreover have "row_ref r = Some (entity_id k n)" by (simp add: row_ref_def r_def graph_entry_def)
    moreover have "entity_id k n = entity_id k' n'" using canonicalize_eq [OF n] k by (simp add: entity_id_def)
    moreover have "find_registered_entity db n' (Some k') = None"
      using none same by (simp add: find_registered_None)
    ultimately show ?thesis by (simp add: entity_ref_of_def)
  qed
qed

lemma add_fact_entities:
  assumes "add_fact_with_provenance fmt req now prov db = (r, db')"
  shows "entity_ref_of db' n k = entity_ref_of db n k"
  using add_fact_spec [OF assms]
proof cases
  case (present s db1 ob f)
  then show ?thesis by (metis ensure_entity_stable snd_conv)
next
  case (new s db1 ob db2 p f u)
  have "kg_entities db' = kg_entities db2"
    using new by (auto simp: upsert_fact_def split: if_splits)
  then have "entity_ref_of db' n k = entity_ref_of db2 n k"
    by (simp add: entity_ref_of_def find_registered_eq)
  with new show ?thesis by (metis ensure_entity_stable snd_conv)
qed

section \<open>Assertions\<close>

lemma upsert_fact_keeps:
  "upsert_fact f db = (r, db') \<Longrightarrow> g \<in> set (kg_facts db) \<Longrightarrow> kf_fact_id g \<noteq> kf_fact_id f \<Longrightarrow> g \<in> set (kg_facts db')"
  by (auto simp: upsert_fact_def set_update_rows image_iff split: if_splits)

text \<open>An assertion leaves every open fact as it is.\<close>

lemma add_fact_keeps_open:
  assumes inv: "kg_inv db" and add: "add_fact_with_provenance fmt req now prov db = (r, db')"
    and g: "g \<in> set (kg_facts db)" "kf_valid_to g = None"
  shows "g \<in> set (kg_facts db')"
  using add_fact_spec [OF add]
proof cases
  case (present s db1 ob f)
  with g show ?thesis by (simp add: ensure_entity_facts)
next
  case (new s db1 ob db2 p f u)
  have facts: "kg_facts db2 = kg_facts db" using new by (simp add: ensure_entity_facts)
  have named: "fact_named f"
    by (rule fact_named_new [of s ob]) (use new in \<open>auto intro: ensure_entity_ref\<close>)
  have "fact_named g" using inv g by (simp add: kg_inv_def)
  then have "kf_fact_id g \<noteq> kf_fact_id f"
    using fact_named_same_id [OF _ named] new g facts
    by (auto simp: find_active_None open_fact_def is_triple_def)
  with new g facts show ?thesis by (auto intro: upsert_fact_keeps)
qed

definition assert_fact ::
  "(int \<Rightarrow> rstr) \<Rightarrow> add_fact_request \<Rightarrow> int \<Rightarrow> persisted_provenance option \<Rightarrow> kg_db \<Rightarrow>
   (graph_error + rstr) \<times> kg_db" where
  "assert_fact fmt req now prov db =
     add_fact_with_provenance fmt (req\<lparr> af_valid_to := None \<rparr>) now prov db"

text \<open>The open fact an assertion refers to.\<close>

definition asserted :: "add_fact_request \<Rightarrow> kg_db \<Rightarrow> kg_fact \<Rightarrow> bool" where
  "asserted req db f \<longleftrightarrow> f \<in> set (kg_facts db) \<and>
     open_fact (entity_ref_of db (af_subject req) (af_subject_type req))
       (canonicalize_label (af_predicate req)) (entity_ref_of db (af_object req) (af_object_type req)) f"

lemma assert_stores:
  assumes inv: "kg_inv db" and add: "assert_fact fmt req now prov db = (Inr i, db')"
  shows "\<exists>f. asserted req db' f \<and> kf_fact_id f = i"
proof -
  from add have spec: "add_spec fmt (req\<lparr> af_valid_to := None \<rparr>) now prov db (Inr i) db'"
    by (simp add: assert_fact_def add_fact_spec)
  note refs = add_fact_entities [OF add [unfolded assert_fact_def]]
  from spec show ?thesis
  proof cases
    case (present s db1 ob f)
    have "s = entity_ref_of db (af_subject req) (af_subject_type req)"
      using present ensure_entity_fst [of "af_subject req" "af_subject_type req" now db] by simp
    moreover have "ob = entity_ref_of db (af_object req) (af_object_type req)"
      using present ensure_entity_fst [of "af_object req" "af_object_type req" now db1]
        ensure_entity_stable [of "af_subject req" "af_subject_type req" now db] by simp
    ultimately show ?thesis
      using present find_active_SomeD [of fmt db' s "canonicalize_label (af_predicate req)" ob f]
      by (auto simp: asserted_def refs)
  next
    case (new s db1 ob db2 p f u)
    have s: "s = entity_ref_of db (af_subject req) (af_subject_type req)"
      using new ensure_entity_fst [of "af_subject req" "af_subject_type req" now db] by simp
    have ob: "ob = entity_ref_of db (af_object req) (af_object_type req)"
      using new ensure_entity_fst [of "af_object req" "af_object_type req" now db1]
        ensure_entity_stable [of "af_subject req" "af_subject_type req" now db] by simp
    have "\<exists>g \<in> set (kg_facts db'). open_fact s p ob g \<and> kf_fact_id g = i"
    proof -
      from new obtain x where u: "u = Inr x" and i: "i = kf_fact_id f" by (auto split: sum.splits)
      have f: "open_fact s p ob f" using new by (simp add: open_fact_def is_triple_def)
      show ?thesis
      proof (cases "find_row (\<lambda>x. kf_fact_id x = kf_fact_id f) (kg_facts db2)")
        case None
        with new u have "f \<in> set (kg_facts db')" by (auto simp: upsert_fact_def split: if_splits)
        with f i show ?thesis by blast
      next
        case (Some g)
        then have "f\<lparr> kf_created_at := kf_created_at g \<rparr> \<in> set (kg_facts db')"
          using new u find_row_SomeD [OF Some] by (auto simp: upsert_fact_def set_update_rows split: if_splits)
        moreover have "open_fact s p ob (f\<lparr> kf_created_at := kf_created_at g \<rparr>)"
          using f by (simp add: open_fact_def is_triple_def)
        ultimately show ?thesis using i by (metis kg_fact.simps(1) kg_fact.surjective kg_fact.update_convs(10))
      qed
    qed
    with new show ?thesis by (auto simp: asserted_def refs s ob)
  qed
qed

lemma assert_present:
  assumes inv: "kg_inv db" and f: "asserted req db f"
  shows "\<exists>db'. assert_fact fmt req now prov db = (Inr (kf_fact_id f), db') \<and> kg_facts db' = kg_facts db"
proof -
  obtain s db1 where s: "ensure_entity (af_subject req) (af_subject_type req) now db = (s, db1)" by (metis surj_pair)
  obtain ob db2 where ob: "ensure_entity (af_object req) (af_object_type req) now db1 = (ob, db2)" by (metis surj_pair)
  have "s = entity_ref_of db (af_subject req) (af_subject_type req)"
    using s ensure_entity_fst [of "af_subject req" "af_subject_type req" now db] by simp
  moreover have "ob = entity_ref_of db (af_object req) (af_object_type req)"
    using s ob ensure_entity_fst [of "af_object req" "af_object_type req" now db1]
      ensure_entity_stable [of "af_subject req" "af_subject_type req" now db] by simp
  moreover have facts: "kg_facts db2 = kg_facts db" using s ob by (simp add: ensure_entity_facts)
  moreover have "kg_inv db2" using inv s ob by (blast intro: ensure_entity_inv)
  ultimately have "find_active_fact fmt db2 s (canonicalize_label (af_predicate req)) ob = Some f"
    using f by (simp add: find_active_Some asserted_def)
  with s ob facts show ?thesis by (simp add: assert_fact_def add_fact_with_provenance_def Let_def)
qed

definition add_calls ::
  "(add_fact_request \<times> int \<times> persisted_provenance option) list \<Rightarrow> kg_call list" where
  "add_calls reqs = map (\<lambda>(req, now, prov). KgAdd req now prov) reqs"

lemma asserted_persists:
  "kg_inv db \<Longrightarrow> asserted req db f \<Longrightarrow> asserted req (run_calls (kg_exec e fmt) (add_calls reqs) db) f"
proof (induction reqs arbitrary: db)
  case (Cons c reqs)
  obtain q now prov where c: "c = (q, now, prov)" by (cases c)
  obtain r db' where add: "add_fact_with_provenance fmt q now prov db = (r, db')" by (metis surj_pair)
  have "asserted req db' f"
    using Cons.prems add_fact_keeps_open [OF Cons.prems(1) add] add_fact_entities [OF add]
    by (simp add: asserted_def open_fact_def)
  with Cons.IH [OF add_fact_inv [OF Cons.prems(1) add]] show ?case
    by (simp add: add_calls_def c add)
qed (simp add: add_calls_def)

section \<open>Invalidations\<close>

lemma endable_open: "endable fmt s p ob ended f \<Longrightarrow> open_fact s p ob f"
  by (simp add: endable_def open_fact_def)

lemma endable_unique:
  assumes "kg_inv db" and "f \<in> set (kg_facts db)" and "g \<in> set (kg_facts db)"
    and "endable fmt s p ob ended f" and "endable fmt s p ob ended g"
  shows "f = g"
  by (rule open_unique [OF assms(1-3) endable_open [OF assms(4)] endable_open [OF assms(5)]])

lemma endable_rows:
  assumes "kg_inv db"
  shows "filter (endable fmt s p ob ended) (kg_facts db) = [] \<or>
    (\<exists>f. filter (endable fmt s p ob ended) (kg_facts db) = [f])"
proof (cases "filter (endable fmt s p ob ended) (kg_facts db)")
  case (Cons f fs)
  have "distinct (kg_facts db)" using assms by (auto simp: kg_inv_def dest: distinct_map [THEN iffD1])
  then have dist: "distinct (f # fs)" unfolding Cons [symmetric] by simp
  have "fs = []"
  proof (rule ccontr)
    assume "fs \<noteq> []"
    then have mem: "{f, hd fs} \<subseteq> set (filter (endable fmt s p ob ended) (kg_facts db))"
      unfolding Cons by simp
    then have "f = hd fs" by (intro endable_unique [OF assms]) auto
    with dist \<open>fs \<noteq> []\<close> show False by (metis distinct.simps(2) hd_in_set)
  qed
  with Cons show ?thesis by simp
qed simp

text \<open>On a store that satisfies the invariant the loop of updates is one update of at most one row.\<close>

lemma invalidate_one:
  assumes inv: "kg_inv db"
  shows "invalidate_active_fact_with_provenance e fmt s p ob ended now prov db =
    (case find_row (endable fmt s p ob ended) (kg_facts db) of
       None \<Rightarrow> (Inr 0, db)
     | Some f \<Rightarrow> try_tx db (merged_provenance e (kf_provenance f) prov) (\<lambda>m.
         (Inr 1, db\<lparr> kg_facts := update_rows (endable fmt s p ob ended) (end_fact ended now m) (kg_facts db) \<rparr>)))"
  using endable_rows [OF inv, of fmt s p ob ended]
proof
  assume "filter (endable fmt s p ob ended) (kg_facts db) = []"
  then show ?thesis by (simp add: invalidate_active_fact_with_provenance_def find_row_filter)
next
  assume "\<exists>f. filter (endable fmt s p ob ended) (kg_facts db) = [f]"
  then obtain f where f: "filter (endable fmt s p ob ended) (kg_facts db) = [f]" by blast
  then have "f \<in> set (filter (endable fmt s p ob ended) (kg_facts db))" by simp
  then have mem: "f \<in> set (kg_facts db)" "endable fmt s p ob ended f" by simp_all
  have ids: "distinct (map kf_fact_id (kg_facts db))" using inv by (simp add: kg_inv_def)
  have hit: "kf_fact_id x = kf_fact_id f \<and> kf_valid_to x = None \<longleftrightarrow> endable fmt s p ob ended x"
    if "x \<in> set (kg_facts db)" for x
  proof -
    have "endable fmt s p ob ended x \<longleftrightarrow> x = f"
      using mem endable_unique [OF inv that mem(1) _ mem(2)] by blast
    moreover have "kf_fact_id x = kf_fact_id f \<longleftrightarrow> x = f"
      using ids that mem(1) by (auto simp: distinct_map inj_on_def)
    ultimately show ?thesis using mem(2) by (auto simp: endable_def)
  qed
  have "length (filter (\<lambda>x. kf_fact_id x = kf_fact_id f \<and> kf_valid_to x = None) (kg_facts db)) = 1"
    using f hit by (simp cong: filter_cong)
  moreover have "update_rows (\<lambda>x. kf_fact_id x = kf_fact_id f \<and> kf_valid_to x = None) g (kg_facts db)
      = update_rows (endable fmt s p ob ended) g (kg_facts db)" for g
    using hit by (simp add: update_rows_def)
  ultimately show ?thesis
    by (simp add: invalidate_active_fact_with_provenance_def f find_row_filter Let_def count_rows_def
        end_fact_def [abs_def])
qed

section \<open>Properties\<close>


text \<open>
  Asserting a fact (without an end) succeeds unless the confidence is NaN, and then it is open. The
  same assertion made again later, after any number of other assertions, at another time and with
  other provenance, returns the same identifier and changes no fact.
\<close>

theorem assert_fact_idempotent:
  "let db = run_calls (kg_exec e fmt) cs kg_empty in
   case assert_fact fmt req now prov db of
     (Inl x, db1) \<Rightarrow> f32_is_nan (af_confidence req) \<and> kg_facts db1 = kg_facts db
   | (Inr i, db1) \<Rightarrow>
       (\<exists>f. asserted req db1 f \<and> kf_fact_id f = i) \<and>
       (let db2 = run_calls (kg_exec e fmt) (add_calls reqs) db1 in
        case assert_fact fmt req now' prov' db2 of (r, db3) \<Rightarrow> r = Inr i \<and> kg_facts db3 = kg_facts db2)"
proof -
  let ?db = "run_calls (kg_exec e fmt) cs kg_empty"
  have inv: "kg_inv ?db" by (rule kg.reachable_inv)
  obtain r db1 where add: "assert_fact fmt req now prov ?db = (r, db1)" by (metis surj_pair)
  show ?thesis
  proof (cases r)
    case (Inl x)
    with add add_fact_spec [of fmt "req\<lparr> af_valid_to := None \<rparr>" now prov ?db]
    have "add_spec fmt (req\<lparr> af_valid_to := None \<rparr>) now prov ?db (Inl x) db1" by (simp add: assert_fact_def)
    then have "f32_is_nan (af_confidence req) \<and> kg_facts db1 = kg_facts ?db"
    proof cases
      case (new s db1' ob db2 p f u)
      then show ?thesis by (auto simp: upsert_fact_def ensure_entity_facts split: sum.splits if_splits)
    qed
    with Inl add show ?thesis by simp
  next
    case (Inr i)
    with assert_stores [OF inv] add obtain f where f: "asserted req db1 f" "kf_fact_id f = i" by blast
    have inv1: "kg_inv db1" using add_fact_inv [OF inv] add by (simp add: assert_fact_def)
    let ?db2 = "run_calls (kg_exec e fmt) (add_calls reqs) db1"
    from assert_present [OF kg.run_inv [OF inv1] asserted_persists [OF inv1 f(1)]] f(2)
    obtain db3 where "assert_fact fmt req now' prov' ?db2 = (Inr i, db3)" "kg_facts db3 = kg_facts ?db2" by blast
    with Inr add f show ?thesis by auto
  qed
qed

text \<open>
  Although its statements are not one transaction, ending a fact is atomic in every reachable
  state. If it fails the store is unchanged; otherwise it ends at most one fact, the open fact of the
  triple if that had begun by the given day, records who ended it and keeps all other facts and the
  fact's creator.
\<close>

theorem invalidate_atomic:
  "let db = run_calls (kg_exec e fmt) cs kg_empty in
   case invalidate_with_provenance e fmt subject predicate obj ended now prov db of
     (Inl x, db') \<Rightarrow> db' = db
   | (Inr n, db') \<Rightarrow>
       \<exists>s ob. resolve_entity_id db subject = Inr s \<and> resolve_entity_id db obj = Inr ob \<and>
         (let hit = endable fmt s (canonicalize_label predicate) ob ended in
          case find_row hit (kg_facts db) of
            None \<Rightarrow> n = 0 \<and> db' = db
          | Some f \<Rightarrow> n = 1 \<and>
              (\<exists>m. merged_provenance e (kf_provenance f) prov = Inr m \<and>
                   db' = db\<lparr> kg_facts := update_rows hit (end_fact ended now m) (kg_facts db) \<rparr>))"
proof -
  let ?db = "run_calls (kg_exec e fmt) cs kg_empty"
  have inv: "kg_inv ?db" by (rule kg.reachable_inv)
  show ?thesis
    by (auto simp: Let_def invalidate_with_provenance_def invalidate_one [OF inv]
        split: try_tx_split option.split)
qed

section \<open>Two runs that lose information\<close>

definition sample_fact :: add_fact_request where
  "sample_fact = \<lparr> af_subject = lit ''Ada'', af_subject_type = Person, af_predicate = lit ''leads'',
     af_object = lit ''Apollo'', af_object_type = Project, af_valid_from = Some 10, af_valid_to = None,
     af_confidence = 0x3F800000, af_source_drawer_id = None, af_source_file = None \<rparr>"

lemma show_days: "show_int 10 \<le> show_int 20"
  by code_simp

lemmas kg_eval = sample_fact_def sample_env_def kg_empty_def add_fact_with_provenance_def ensure_entity_def
  find_registered_entity_def list_entities_def entry_matches_def graph_entry_def eq_ignore_ascii_case_def
  upsert_entity_def get_entity_def entity_id_def canonicalize_label_def trim_matches_def char_defs text_defs
  find_active_fact_def upsert_fact_def f32_is_nan_def fact_id_of_def is_triple_def from_text_def
  invalidate_with_provenance_def invalidate_active_fact_with_provenance_def resolve_entity_id_def endable_def
  merged_provenance_def Let_def update_rows_def count_rows_def List.map_filter_simps query_entity_def
  ends_with_def show_days

text \<open>
  A fact that was ended and is asserted again with the same first day is overwritten: the store
  keeps one row, open, and nothing of the ended interval or of who ended it.
\<close>

theorem reassertion_erases_interval:
  "let calls = [KgAdd sample_fact 1000 None,
                KgInvalidate (lit ''Ada'') (lit ''leads'') (lit ''Apollo'') 20 2000 None];
       interval = (\<lambda>f. (kf_valid_from f, kf_valid_to f)) in
   map interval (kg_facts (run_calls (kg_exec (sample_env 0 0) show_int) calls kg_empty)) = [(Some 10, Some 20)]
   \<and> map interval (kg_facts (run_calls (kg_exec (sample_env 0 0) show_int)
        (calls @ [KgAdd sample_fact 3000 None]) kg_empty)) = [(Some 10, None)]"
  by (simp add: kg_eval)

text \<open>
  Names without ASCII letters or digits have the empty label, so all of one kind are one entity: a
  fact asserted of a second such name is not stored, because the first one's is open, and the second
  name is unknown to queries.
\<close>

theorem unlabelled_names_merge:
  "let first = sample_fact\<lparr> af_subject := [21271, 20140] \<rparr>;
       second = sample_fact\<lparr> af_subject := [26085, 26412] \<rparr>;
       db = run_calls (kg_exec (sample_env 0 0) show_int) [KgAdd first 1000 None, KgAdd second 2000 None] kg_empty in
   length (kg_facts db) = 1 \<and>
   query_entity show_int 3000 [26085, 26412] None Both db = Inl (UnknownEntity [26085, 26412])"
  by (simp add: kg_eval)

section \<open>Assertions that overlap\<close>

text \<open>
  \<open>add_fact_with_provenance\<close> looks for an open fact in one statement and stores the new one in another,
  outside any transaction: these are its two parts.
\<close>

definition lookup_open ::
  "(int \<Rightarrow> rstr) \<Rightarrow> add_fact_request \<Rightarrow> int \<Rightarrow> kg_db \<Rightarrow> (rstr \<times> rstr \<times> rstr \<times> kg_fact option) \<times> kg_db" where
  "lookup_open fmt req now db =
     (let (s, db1) = ensure_entity (af_subject req) (af_subject_type req) now db;
          (ob, db2) = ensure_entity (af_object req) (af_object_type req) now db1;
          p = canonicalize_label (af_predicate req) in
      ((s, p, ob, find_active_fact fmt db2 s p ob), db2))"

definition store_fact ::
  "(int \<Rightarrow> rstr) \<Rightarrow> add_fact_request \<Rightarrow> int \<Rightarrow> persisted_provenance option \<Rightarrow>
   rstr \<times> rstr \<times> rstr \<times> kg_fact option \<Rightarrow> kg_db \<Rightarrow> (graph_error + rstr) \<times> kg_db" where
  "store_fact fmt req now prov found db =
     (case found of (s, p, ob, active) \<Rightarrow>
        (case active of
           Some existing \<Rightarrow> (Inr (kf_fact_id existing), db)
         | None \<Rightarrow>
             let i = fact_id_of fmt s p ob (af_valid_from req) now in
             (case upsert_fact
                \<lparr> kf_fact_id = i, kf_subject = s, kf_predicate = p, kf_object = ob,
                  kf_valid_from = af_valid_from req, kf_valid_to = af_valid_to req,
                  kf_confidence = af_confidence req, kf_source_drawer_id = af_source_drawer_id req,
                  kf_source_file = af_source_file req, kf_created_at = now, kf_updated_at = now,
                  kf_provenance = prov \<rparr> db of
                (Inl x, db3) \<Rightarrow> (Inl (GraphStorage x), db3)
              | (Inr _, db3) \<Rightarrow> (Inr i, db3))))"

lemma add_fact_two_steps:
  "add_fact_with_provenance fmt req now prov db =
     (case lookup_open fmt req now db of (found, db2) \<Rightarrow> store_fact fmt req now prov found db2)"
  by (simp only: add_fact_with_provenance_def lookup_open_def store_fact_def Let_def case_prod_unfold fst_conv snd_conv)

text \<open>
  Two assertions of one triple with different first days, the second of which looks before the first
  has stored: the triple has two open facts, which \<open>kg_reachable_inv\<close> excludes for calls one after the
  other.
\<close>

theorem overlapping_assertions_two_open:
  "let late = sample_fact\<lparr> af_valid_from := Some 20 \<rparr>;
       (found1, db1) = lookup_open show_int sample_fact 1000 kg_empty;
       (found2, db2) = lookup_open show_int late 1000 db1;
       db3 = snd (store_fact show_int sample_fact 1000 None found1 db2);
       db4 = snd (store_fact show_int late 1000 None found2 db3) in
   map kf_valid_from (filter (\<lambda>f. kf_valid_to f = None) (kg_facts db4)) = [Some 10, Some 20]"
proof -
  have "show_nat 10 \<noteq> show_nat 20" by code_simp
  then show ?thesis by (simp add: kg_eval lookup_open_def store_fact_def show_int_def)
qed

end
