(* ===== verification/Change_Log.thy ===== *)
theory Change_Log
  imports Owner_Keys Storage_Base Rust_Collections
begin

text \<open>
  The change log of \<open>storage/sqlite.rs\<close>: an append-only table of events with a text key
  (\<open>change_id\<close>), SQLite's \<open>rowid\<close> and, for keyed mutations, the operation they belong to. A
  timestamp is stored as the text \<open>enc t\<close> (\<open>encode_time\<close>), by which SQL selects and orders rows. A
  limit is a \<open>usize\<close> that SQL receives as the signed integer with the same bits; a negative one is
  no limit.
\<close>

record change_event =
  ce_event_type :: rstr
  ce_occurred_at :: int
  ce_entity_id :: rstr
  ce_actor :: "rstr option"
  ce_details :: "rstr option"

record log_row =
  lr_rowid :: int
  lr_change_id :: rstr
  lr_event :: change_event
  lr_operation :: "rstr option"

type_synonym change_log = "log_row list"

section \<open>Appending\<close>

definition change_id_for_event :: "change_event \<Rightarrow> rstr option \<Rightarrow> rstr" where
  "change_id_for_event ev operation =
     (case operation of
        Some op \<Rightarrow> show_int (ce_occurred_at ev) @ lit '':'' @ op @ lit '':'' @ ce_event_type ev
                    @ lit '':'' @ ce_entity_id ev
      | None \<Rightarrow> show_int (ce_occurred_at ev) @ lit '':'' @ ce_entity_id ev)"

text \<open>SQLite numbers a row one above the largest number in use.\<close>

definition next_rowid :: "change_log \<Rightarrow> int" where
  "next_rowid log = foldr max (map lr_rowid log) 0 + 1"

definition log_row_of :: "change_log \<Rightarrow> change_event \<Rightarrow> rstr option \<Rightarrow> log_row" where
  "log_row_of log ev operation =
     \<lparr> lr_rowid = next_rowid log, lr_change_id = change_id_for_event ev operation, lr_event = ev,
       lr_operation = operation \<rparr>"

definition change_id_known :: "change_log \<Rightarrow> rstr \<Rightarrow> bool" where
  "change_id_known log i = (find_row (\<lambda>r. lr_change_id r = i) log \<noteq> None)"

text \<open>\<open>INSERT OR IGNORE\<close>.\<close>

definition append_event_inner :: "change_event \<Rightarrow> rstr option \<Rightarrow> change_log \<Rightarrow> change_log" where
  "append_event_inner ev operation log =
     (if change_id_known log (change_id_for_event ev operation) then log
      else log @ [log_row_of log ev operation])"

definition append_change :: "change_event \<Rightarrow> change_log \<Rightarrow> change_log" where
  "append_change ev log = append_event_inner ev None log"

definition append_event_with_operation :: "change_event \<Rightarrow> rstr \<Rightarrow> change_log \<Rightarrow> change_log" where
  "append_event_with_operation ev op log = append_event_inner ev (Some op) log"

definition event_exists :: "change_log \<Rightarrow> rstr \<Rightarrow> rstr \<Rightarrow> bool" where
  "event_exists log entity_id event_type =
     (find_row (\<lambda>r. ce_entity_id (lr_event r) = entity_id \<and> ce_event_type (lr_event r) = event_type) log \<noteq> None)"

text \<open>The older spelling of a composite operation key: what follows its first colon.\<close>

definition legacy_operation_id :: "rstr \<Rightarrow> rstr option" where
  "legacy_operation_id op = map_option snd (split_once 58 op)"

definition operation_logged :: "change_log \<Rightarrow> rstr \<Rightarrow> rstr \<Rightarrow> bool" where
  "operation_logged log event_type op =
     (find_row (\<lambda>r. ce_event_type (lr_event r) = event_type \<and>
         (lr_operation r = Some op
          \<or> legacy_operation_id op \<noteq> None \<and> lr_operation r = legacy_operation_id op)) log \<noteq> None)"

definition append_event_if_absent_inner ::
  "change_event \<Rightarrow> rstr option \<Rightarrow> change_log \<Rightarrow> (storage_error + bool) \<times> change_log" where
  "append_event_if_absent_inner ev operation log =
     (if (case operation of
            Some op \<Rightarrow> operation_logged log (ce_event_type ev) op
          | None \<Rightarrow> event_exists log (ce_entity_id ev) (ce_event_type ev))
      then (Inr False, log)
      else if change_id_known log (change_id_for_event ev operation)
      then (Inl (Sqlite (UniqueViolation (lit ''change_log.change_id''))), log)
      else (Inr True, log @ [log_row_of log ev operation]))"

definition append_event_if_absent ::
  "change_event \<Rightarrow> change_log \<Rightarrow> (storage_error + bool) \<times> change_log" where
  "append_event_if_absent ev log = append_event_if_absent_inner ev None log"

definition append_event_if_absent_with_operation ::
  "change_event \<Rightarrow> rstr \<Rightarrow> change_log \<Rightarrow> (storage_error + bool) \<times> change_log" where
  "append_event_if_absent_with_operation ev op log = append_event_if_absent_inner ev (Some op) log"

section \<open>Reading\<close>

definition sql_limit :: "64 word \<Rightarrow> 'a list \<Rightarrow> 'a list" where
  "sql_limit n xs = (if sint n < 0 then xs else take (nat (sint n)) xs)"

definition row_time :: "(int \<Rightarrow> rstr) \<Rightarrow> log_row \<Rightarrow> rstr" where
  "row_time enc r = enc (ce_occurred_at (lr_event r))"

definition row_key :: "(int \<Rightarrow> rstr) \<Rightarrow> log_row \<Rightarrow> rstr \<times> int" where
  "row_key enc r = (row_time enc r, lr_rowid r)"

text \<open>
  Rows with equal timestamps come in the order of the table where the query does not say more: the
  index on \<open>occurred_at\<close> that serves it holds them in \<open>rowid\<close> order, ascending or read backwards.
\<close>

definition get_changes_since :: "(int \<Rightarrow> rstr) \<Rightarrow> change_log \<Rightarrow> int \<Rightarrow> 64 word \<Rightarrow> change_event list" where
  "get_changes_since enc log since limit =
     map lr_event (sql_limit limit (sort_key (row_key enc) (filter (\<lambda>r. enc since < row_time enc r) log)))"

definition get_recent_changes :: "(int \<Rightarrow> rstr) \<Rightarrow> change_log \<Rightarrow> 64 word \<Rightarrow> change_event list" where
  "get_recent_changes enc log limit =
     rev (map lr_event (sql_limit limit (rev (sort_key (row_key enc) log))))"

record change_cursor =
  cc_occurred_at :: int
  cc_rowid :: int

record change_page =
  cp_events :: "change_event list"
  cp_next_cursor :: "change_cursor option"

text \<open>\<open>usize::saturating_add(1)\<close>.\<close>

definition saturating_succ :: "64 word \<Rightarrow> 64 word" where
  "saturating_succ n = (if n = - 1 then n else n + 1)"

definition page_rows ::
  "(int \<Rightarrow> rstr) \<Rightarrow> change_log \<Rightarrow> int option \<Rightarrow> change_cursor option \<Rightarrow> log_row list" where
  "page_rows enc log since cursor =
     sort_key (row_key enc)
       (case cursor of
          Some c \<Rightarrow> filter (\<lambda>r. (enc (cc_occurred_at c), cc_rowid c) < row_key enc r) log
        | None \<Rightarrow> (case since of
            Some s \<Rightarrow> filter (\<lambda>r. enc s \<le> row_time enc r) log
          | None \<Rightarrow> log))"

definition cursor_of :: "log_row \<Rightarrow> change_cursor" where
  "cursor_of r = \<lparr> cc_occurred_at = ce_occurred_at (lr_event r), cc_rowid = lr_rowid r \<rparr>"

definition get_changes_page ::
  "(int \<Rightarrow> rstr) \<Rightarrow> change_log \<Rightarrow> int option \<Rightarrow> change_cursor option \<Rightarrow> 64 word \<Rightarrow> change_page" where
  "get_changes_page enc log since cursor limit =
     (let rows = sql_limit (saturating_succ limit) (page_rows enc log since cursor) in
      if length rows > unat limit
      then (let kept = butlast rows in
            \<lparr> cp_events = map lr_event kept,
              cp_next_cursor = (if kept = [] then None else Some (cursor_of (last kept))) \<rparr>)
      else \<lparr> cp_events = map lr_event rows, cp_next_cursor = None \<rparr>)"

section \<open>Lemmas\<close>

lemma next_rowid_above: "r \<in> set log \<Longrightarrow> lr_rowid r < next_rowid log"
proof -
  have "x \<in> set xs \<Longrightarrow> x \<le> foldr max xs (0::int)" for x xs by (induction xs) auto
  then show "r \<in> set log \<Longrightarrow> lr_rowid r < next_rowid log" by (fastforce simp: next_rowid_def)
qed

text \<open>The log only grows, at its end.\<close>

lemma append_event_prefix: "\<exists>ext. append_event_inner ev op log = log @ ext"
  by (simp add: append_event_inner_def)

inductive if_absent_spec ::
  "change_event \<Rightarrow> rstr option \<Rightarrow> change_log \<Rightarrow> storage_error + bool \<Rightarrow> change_log \<Rightarrow> bool"
  for ev op log where
  present: "(case op of Some k \<Rightarrow> operation_logged log (ce_event_type ev) k
       | None \<Rightarrow> event_exists log (ce_entity_id ev) (ce_event_type ev)) \<Longrightarrow>
     if_absent_spec ev op log (Inr False) log"
| collision: "change_id_known log (change_id_for_event ev op) \<Longrightarrow>
     if_absent_spec ev op log (Inl (Sqlite (UniqueViolation (lit ''change_log.change_id'')))) log"
| appended: "(case op of Some k \<Rightarrow> \<not> operation_logged log (ce_event_type ev) k
       | None \<Rightarrow> \<not> event_exists log (ce_entity_id ev) (ce_event_type ev)) \<Longrightarrow>
     \<not> change_id_known log (change_id_for_event ev op) \<Longrightarrow>
     if_absent_spec ev op log (Inr True) (log @ [log_row_of log ev op])"

lemma if_absent_cases:
  "append_event_if_absent_inner ev op log = (r, log') \<Longrightarrow> if_absent_spec ev op log r log'"
  by (auto simp: append_event_if_absent_inner_def split: if_splits option.splits
      intro: if_absent_spec.intros)

section \<open>Invariant\<close>

definition log_inv :: "change_log \<Rightarrow> bool" where
  "log_inv log \<longleftrightarrow> distinct (map lr_change_id log) \<and> sorted_wrt (<) (map lr_rowid log)"

lemma log_inv_Nil [simp]: "log_inv []"
  by (simp add: log_inv_def)

lemma log_inv_append:
  "log_inv log \<Longrightarrow> \<not> change_id_known log (change_id_for_event ev op) \<Longrightarrow> log_inv (log @ [log_row_of log ev op])"
  by (auto simp: log_inv_def sorted_wrt_append change_id_known_def find_row_None log_row_of_def next_rowid_above)

lemma log_inv_if_absent:
  "log_inv log \<Longrightarrow> append_event_if_absent_inner ev op log = (r, log') \<Longrightarrow> log_inv log'"
  by (auto dest!: if_absent_cases elim!: if_absent_spec.cases intro: log_inv_append)

lemma log_inv_append_event: "log_inv log \<Longrightarrow> log_inv (append_event_inner ev op log)"
  by (auto simp: append_event_inner_def intro: log_inv_append)

end
