(* ===== verification/Change_Log_Props.thy ===== *)
theory Change_Log_Props
  imports Change_Log Contracts
begin

text \<open>
  The properties of the change log: a keyed mutation is logged once, a client that follows the
  cursors sees every event once and in order, and the one way in which the key of another owner can
  keep an event out of the log.
\<close>

section \<open>The log as a machine\<close>

datatype log_call =
  LogAppend change_event "rstr option"
| LogIfAbsent change_event "rstr option"

fun log_exec :: "log_call \<Rightarrow> change_log \<Rightarrow> change_log" where
  "log_exec (LogAppend ev op) log = append_event_inner ev op log"
| "log_exec (LogIfAbsent ev op) log = snd (append_event_if_absent_inner ev op log)"

lemma log_exec_inv: "log_inv log \<Longrightarrow> log_inv (log_exec c log)"
  by (cases c) (auto intro: log_inv_append_event log_inv_if_absent [OF _ prod.collapse [symmetric]])

definition log_extends :: "change_log \<Rightarrow> change_log \<Rightarrow> bool" where
  "log_extends log log' \<longleftrightarrow> (\<exists>ext. log' = log @ ext)"

lemma log_exec_extends: "log_extends log (log_exec c log)"
proof (cases c)
  case (LogIfAbsent ev op)
  obtain r log' where "append_event_if_absent_inner ev op log = (r, log')" by (metis surj_pair)
  with if_absent_cases [OF this] LogIfAbsent show ?thesis
    by (auto simp: log_extends_def elim: if_absent_spec.cases)
qed (simp add: log_extends_def append_event_prefix)

interpretation log_hist: history_machine "[]" log_exec log_inv log_extends
  by unfold_locales (auto simp: log_exec_inv log_exec_extends, auto simp: log_extends_def)

section \<open>Following the cursors\<close>

partial_function (option) change_walk ::
  "(int \<Rightarrow> rstr) \<Rightarrow> change_log \<Rightarrow> int option \<Rightarrow> 64 word \<Rightarrow> change_cursor option \<Rightarrow> change_event list option"
where
  "change_walk enc log since limit cursor =
     (let page = get_changes_page enc log since cursor limit in
      case cp_next_cursor page of
        None \<Rightarrow> Some (cp_events page)
      | Some c \<Rightarrow> Option.bind (change_walk enc log since limit (Some c)) (\<lambda>evs. Some (cp_events page @ evs)))"

lemma sorted_keys: "log_inv log \<Longrightarrow> sorted_wrt (<) (map (row_key enc) (sort_key (row_key enc) log))"
proof -
  assume inv: "log_inv log"
  then have "distinct (map lr_rowid log)" by (auto simp: log_inv_def strict_sorted_iff)
  then have "distinct (map (row_key enc) log)"
    by (auto simp: distinct_map inj_on_def row_key_def)
  then have "distinct (map (row_key enc) (sort_key (row_key enc) log))"
    by (auto simp: distinct_map)
  then show ?thesis by (simp add: strict_sorted_iff)
qed

lemma filter_suffix:
  assumes "sorted (map f xs)" and "\<And>x y. f x \<le> f y \<Longrightarrow> P x \<Longrightarrow> P y"
  shows "\<exists>pre. xs = pre @ filter P xs"
  using assms(1)
proof (induction xs)
  case (Cons x xs)
  show ?case
  proof (cases "P x")
    case True
    then have "\<forall>y \<in> set xs. P y" using Cons.prems assms(2) by auto
    with True show ?thesis by (simp add: filter_True)
  next
    case False
    with Cons show ?thesis by (auto intro: exI [of _ "x # _"])
  qed
qed simp

lemma page_rows_filter:
  "page_rows enc log since cursor = filter
     (case cursor of Some c \<Rightarrow> (\<lambda>r. (enc (cc_occurred_at c), cc_rowid c) < row_key enc r)
      | None \<Rightarrow> (case since of Some s \<Rightarrow> (\<lambda>r. enc s \<le> row_time enc r) | None \<Rightarrow> (\<lambda>r. True)))
     (sort_key (row_key enc) log)"
  by (simp add: page_rows_def filter_sort split: option.splits)

lemma page_rows_suffix:
  assumes "log_inv log"
  shows "\<exists>pre. sort_key (row_key enc) log = pre @ page_rows enc log since cursor"
  unfolding page_rows_filter
  by (rule filter_suffix [of "row_key enc"])
    (auto simp: row_key_def split: option.splits intro: order.trans dest: less_le_trans)

lemma page_rows_after:
  assumes inv: "log_inv log" and rows: "page_rows enc log since cursor = ys @ x # zs"
  shows "page_rows enc log since (Some (cursor_of x)) = zs"
proof -
  obtain pre where pre: "sort_key (row_key enc) log = pre @ ys @ x # zs"
    using page_rows_suffix [OF inv, of enc since cursor] rows by auto
  have "sorted_wrt (<) (map (row_key enc) (pre @ ys @ x # zs))"
    using sorted_keys [OF inv, of enc] by (simp add: pre)
  then have "filter (\<lambda>r. row_key enc x < row_key enc r) (pre @ ys @ x # zs) = zs"
    by (auto simp: sorted_wrt_append filter_empty_conv filter_id_conv dest: less_asym)
  then show ?thesis
    by (simp add: page_rows_filter pre cursor_of_def row_key_def row_time_def)
qed

lemma sql_limit_cases:
  "sql_limit (saturating_succ limit) xs = xs \<or>
   length (sql_limit (saturating_succ limit) xs) = unat limit + 1 \<and>
   (\<exists>zs. xs = sql_limit (saturating_succ limit) xs @ zs)"
proof (cases "sint (saturating_succ limit) < 0 \<or> length xs \<le> nat (sint (saturating_succ limit))")
  case True
  then show ?thesis by (auto simp: sql_limit_def)
next
  case False
  then have pos: "0 \<le> sint (saturating_succ limit)" by simp
  have "limit \<noteq> - 1" using pos by (auto simp: saturating_succ_def)
  then have succ: "saturating_succ limit = limit + 1" by (simp add: saturating_succ_def)
  have "nat (sint (limit + 1)) = unat (limit + 1)"
    using pos sint_less [of "limit + 1"] unfolding succ
    by (simp add: unat_eq_nat_uint uint_sint take_bit_int_eq_self)
  also have "unat (limit + 1) = unat limit + 1"
    using \<open>limit \<noteq> - 1\<close> by (metis add.commute add.left_neutral unatSuc Suc_eq_plus1 add_eq_0_iff)
  finally have "nat (sint (saturating_succ limit)) = unat limit + 1" unfolding succ .
  with False show ?thesis
    by (auto simp: sql_limit_def intro: append_take_drop_id [symmetric])
qed

lemma change_walk_rows:
  assumes inv: "log_inv log" and limit: "limit \<noteq> 0"
  shows "change_walk enc log since limit cursor = Some (map lr_event (page_rows enc log since cursor))"
proof (induction "length (page_rows enc log since cursor)" arbitrary: cursor rule: less_induct)
  case less
  let ?all = "page_rows enc log since cursor"
  let ?rows = "sql_limit (saturating_succ limit) ?all"
  show ?case
  proof (cases "length ?rows > unat limit")
    case False
    then have "?rows = ?all" using sql_limit_cases [of limit ?all] by auto
    with False show ?thesis
      by (subst change_walk.simps) (simp add: get_changes_page_def Let_def)
  next
    case True
    have "0 < unat limit" using limit by (simp add: unat_gt_0)
    then have two: "2 \<le> length ?rows" using True by linarith
    obtain rest where all: "?all = ?rows @ rest" using sql_limit_cases [of limit ?all] by auto
    obtain ys x z where rows: "?rows = ys @ [x, z]"
    proof -
      obtain a z where a: "?rows = a @ [z]" using two by (cases ?rows rule: rev_cases) auto
      moreover obtain ys x where "a = ys @ [x]" using two a by (cases a rule: rev_cases) auto
      ultimately show thesis using that by simp
    qed
    have "page_rows enc log since (Some (cursor_of x)) = z # rest"
      by (rule page_rows_after [OF inv, of enc since cursor ys]) (simp add: all [unfolded rows])
    then have walk: "change_walk enc log since limit (Some (cursor_of x)) = Some (map lr_event (z # rest))"
      using less [of "Some (cursor_of x)"] all rows by simp
    have "get_changes_page enc log since cursor limit =
        \<lparr> cp_events = map lr_event (ys @ [x]), cp_next_cursor = Some (cursor_of x) \<rparr>"
      using True by (simp add: get_changes_page_def Let_def rows butlast_append)
    with walk show ?thesis
      by (subst change_walk.simps) (simp add: all [unfolded rows])
  qed
qed

section \<open>Properties\<close>

text \<open>
  C16: Following the cursors of the change log from its beginning, with any page size but zero, ends and
  yields every event from the given start on exactly once, in the order of the stored timestamps and,
  within one, of insertion.
\<close>

theorem change_pages_complete:
  "let log = run_calls log_exec cs [] in
   case change_walk enc log since limit None of
     None \<Rightarrow> False
   | Some evs \<Rightarrow> limit = 0 \<or>
       evs = map lr_event (sort_key (row_key enc)
         (filter (\<lambda>r. none_or (\<lambda>s. enc s \<le> row_time enc r) since) log))"
proof -
  let ?log = "run_calls log_exec cs []"
  have inv: "log_inv ?log" by (rule log_hist.reachable_inv)
  show ?thesis
  proof (cases "limit = 0")
    case True
    have "\<exists>evs. change_walk enc ?log since limit None = Some evs"
    proof -
      have "length (sql_limit (saturating_succ limit) xs) \<le> 1" for xs :: "log_row list"
        using True by (simp add: sql_limit_def saturating_succ_def)
      then have "length (sql_limit (saturating_succ limit) (page_rows enc ?log since None)) \<le> 1" .
      then show ?thesis
        by (subst change_walk.simps)
          (cases "sql_limit (saturating_succ limit) (page_rows enc ?log since None)";
           auto simp: get_changes_page_def Let_def)
    qed
    with True show ?thesis by auto
  next
    case False
    have "page_rows enc ?log since None = sort_key (row_key enc)
         (filter (\<lambda>r. none_or (\<lambda>s. enc s \<le> row_time enc r) since) ?log)"
      by (simp add: page_rows_def split: option.splits)
    with change_walk_rows [OF inv False, of enc since None] show ?thesis by (simp add: Let_def)
  qed
qed

text \<open>
  An operation identifier may contain a colon. When an owner names an operation like the composite
  key of another owner's, its event is not logged: once the other's is, the append reports a
  duplicate and writes nothing.
\<close>

theorem foreign_operation_suppresses:
  "case new_scoped_key (Some other) op of
     Inl x \<Rightarrow> True
   | Inr theirs \<Rightarrow>
       (case new_scoped_key (Some owner) (composite_key theirs) of
          Inl x \<Rightarrow> True
        | Inr mine \<Rightarrow>
            (case append_event_if_absent_with_operation ev (composite_key theirs) (run_calls log_exec cs []) of
               (Inr True, log) \<Rightarrow>
                 append_event_if_absent_with_operation (ev\<lparr> ce_entity_id := i, ce_actor := a \<rparr>)
                   (composite_key mine) log = (Inr False, log)
             | _ \<Rightarrow> True))"
proof (cases "new_scoped_key (Some other) op")
  case (Inr theirs)
  then have theirs: "wf_scoped_key theirs" "osk_owner theirs = Some other" by (auto simp: new_scoped_key_ok)
  show ?thesis
  proof (cases "new_scoped_key (Some owner) (composite_key theirs)")
    case mine: (Inr mine)
    then have m: "wf_scoped_key mine" "osk_owner mine = Some owner" "osk_raw mine = trim (composite_key theirs)"
      by (auto simp: new_scoped_key_ok)
    have "trim (composite_key theirs) = composite_key theirs" by (rule trim_composite_key [OF theirs(1)])
    with m have "composite_key mine = owner @ 58 # composite_key theirs"
      by (simp add: composite_key_def [of mine] lit_colon)
    moreover have "58 \<notin> set owner"
      using m owner_id_char_facts by (auto simp: wf_scoped_key_def)
    ultimately have legacy: "legacy_operation_id (composite_key mine) = Some (composite_key theirs)"
      by (simp add: legacy_operation_id_def)
    let ?log = "run_calls log_exec cs []"
    obtain r log where first: "append_event_if_absent_inner ev (Some (composite_key theirs)) ?log = (r, log)"
      by (metis surj_pair)
    have "append_event_if_absent_inner (ev\<lparr> ce_entity_id := i, ce_actor := a \<rparr>) (Some (composite_key mine)) log
        = (Inr False, log)" if "r = Inr True"
      using if_absent_cases [OF first] that legacy
      by (auto elim!: if_absent_spec.cases simp: append_event_if_absent_inner_def operation_logged_def
          find_row_append log_row_of_def split: option.splits)
    with first Inr mine show ?thesis
      by (auto simp: append_event_if_absent_with_operation_def split: sum.splits bool.splits)
  qed (simp add: Inr)
qed simp

end
