(* ===== verification/Server_Kg.thy ===== *)
theory Server_Kg
  imports Knowledge_Graph_Inv Change_Log Receipts
begin

text \<open>
  The knowledge-graph mutations of the federation server (\<open>crates/agentpalace-server/src/lib.rs\<close>,
  \<open>route_kg_add\<close> and \<open>route_kg_invalidate\<close>) over the three stores they write: the graph, the
  mutation receipts and the change log. A handler is a \<open>prog\<close>: it responds, performs one call of one
  store and goes on, or waits for the lock of keyed invalidations. The calls of several handlers
  interleave, and a handler may be lost (a crash, a dropped connection) before any of its calls.

  A request is handled with the clock \<open>clk\<close>, its n-th reading at the n-th place the handler or a store
  reads it. Parsing dates and printing JSON belong to the crates \<open>time\<close> and \<open>serde_json\<close> and are fields of
  \<open>kg_params\<close>. The authentication in front of the handlers gives the identity and its owner.
\<close>

section \<open>Data\<close>

record hub =
  hub_kg :: kg_db
  hub_receipts :: receipts
  hub_log :: change_log

definition hub_empty :: hub where
  "hub_empty = \<lparr> hub_kg = kg_empty, hub_receipts = [], hub_log = [] \<rparr>"

datatype server_error =
  InvalidParams rstr
| IdempotencyConflict rstr
| ServerStorage storage_error
| ServerGraph graph_error
| ServerProvenance provenance_error

text \<open>\<open>Act f k\<close>: from a state \<open>h\<close> the state becomes \<open>f h\<close> and the handler goes on as \<open>k h\<close>.\<close>

datatype prog =
  Respond "server_error + json"
| Act "hub \<Rightarrow> hub" "hub \<Rightarrow> prog"
| WaitLock prog

definition act :: "(hub \<Rightarrow> prog \<times> hub) \<Rightarrow> prog" where
  "act g = Act (\<lambda>h. snd (g h)) (\<lambda>h. fst (g h))"

record kg_params =
  kp_date_text :: "int \<Rightarrow> rstr"                     \<comment> \<open>\<open>[year]-[month]-[day]\<close> of a day\<close>
  kp_parse_rfc3339 :: "rstr \<Rightarrow> int option"          \<comment> \<open>the day of an RFC 3339 text\<close>
  kp_parse_day :: "rstr \<Rightarrow> int option"              \<comment> \<open>\<open>Date::parse\<close> with \<open>[year]-[month]-[day]\<close>\<close>
  kp_json_text :: "json \<Rightarrow> rstr"                    \<comment> \<open>\<open>Value::to_string\<close>\<close>

record auth_identity =
  au_name :: rstr
  au_owner :: "authenticated_owner option"

record kg_add_request =
  ka_subject :: rstr
  ka_predicate :: rstr
  ka_object :: rstr
  ka_valid_from :: "rstr option"
  ka_operation_id :: "rstr option"

record kg_invalidate_request =
  ki_subject :: rstr
  ki_predicate :: rstr
  ki_object :: rstr
  ki_ended :: "rstr option"
  ki_operation_id :: "rstr option"

section \<open>Helpers\<close>

definition MAX_KG_FIELD_BYTES :: nat where "MAX_KG_FIELD_BYTES = 4096"

definition owner_identity_of :: "auth_identity \<Rightarrow> owner_identity" where
  "owner_identity_of auth = (case au_owner auth of Some w \<Rightarrow> OwnerAuthenticated w | None \<Rightarrow> OwnerUnknown)"

definition auth_scoped_key :: "auth_identity \<Rightarrow> rstr \<Rightarrow> provenance_error + owner_scoped_key" where
  "auth_scoped_key auth raw = new_scoped_key (map_option ao_id (au_owner auth)) raw"

definition validated_operation ::
  "rstr option \<Rightarrow> auth_identity \<Rightarrow> server_error + (rstr \<times> owner_scoped_key) option" where
  "validated_operation operation_id auth =
     (case operation_id of None \<Rightarrow> Inr None
      | Some op \<Rightarrow> bindE (mapE ServerProvenance (auth_scoped_key auth op)) (\<lambda>k. Inr (Some (op, k))))"

definition clock_at :: "env \<Rightarrow> (nat \<Rightarrow> int) \<Rightarrow> nat \<Rightarrow> env" where
  "clock_at e clk n = e\<lparr> env_now := clk n \<rparr>"

definition local_default :: storage_origin where
  "local_default = LocalOrigin (lit ''local'')"

definition recording_now :: "env \<Rightarrow> provenance_error + int" where
  "recording_now e = validate_recording_time e (env_now e)"

definition invalid_provenance :: "provenance_error \<Rightarrow> server_error" where
  "invalid_provenance x = InvalidParams (lit ''invalid provenance: '' @ provenance_error_text x)"

definition receipt_provenance ::
  "env \<Rightarrow> auth_identity \<Rightarrow> owner_scoped_key \<Rightarrow> server_error + provenance_envelope" where
  "receipt_provenance e auth key =
     bindE (mapE ServerProvenance (recording_now e)) (\<lambda>t.
       mapE ServerProvenance (with_operation_key (new_envelope (owner_identity_of auth) t local_default) key))"

definition domain_provenance :: "env \<Rightarrow> auth_identity \<Rightarrow> server_error + persisted_provenance" where
  "domain_provenance e auth =
     bindE (mapE ServerProvenance (recording_now e)) (\<lambda>t.
       mapE invalid_provenance (new_persisted e
         \<lparr> pp_creator = \<lparr> he_action = Created, he_owner = owner_identity_of auth, he_agent = None,
                          he_recorded_at = t \<rparr>,
           pp_submitter = owner_identity_of auth, pp_source_author = None, pp_source_refs = [],
           pp_storage_origin = local_default, pp_federated_original = None, pp_history = [],
           pp_deleted_by = None, pp_invalidated_by = None \<rparr>))"

definition invalidation_provenance ::
  "env \<Rightarrow> (nat \<Rightarrow> int) \<Rightarrow> nat \<Rightarrow> auth_identity \<Rightarrow> server_error + persisted_provenance" where
  "invalidation_provenance e clk n auth =
     bindE (domain_provenance (clock_at e clk n) auth) (\<lambda>p.
     bindE (mapE ServerProvenance (recording_now (clock_at e clk (n + 1)))) (\<lambda>t.
       let p' = p\<lparr> pp_invalidated_by := Some \<lparr> he_action = Invalidated, he_owner = owner_identity_of auth,
                    he_agent = None, he_recorded_at = t \<rparr> \<rparr> in
       bindE (mapE invalid_provenance (validate_persisted e p')) (\<lambda>_. Inr p')))"

definition validate_kg_field :: "rstr \<Rightarrow> rstr \<Rightarrow> server_error + unit" where
  "validate_kg_field name value =
     (if str_len value > MAX_KG_FIELD_BYTES
      then Inl (InvalidParams (name @ lit '' must be at most '' @ show_nat MAX_KG_FIELD_BYTES @ lit '' bytes''))
      else Inr ())"

definition parse_date :: "kg_params \<Rightarrow> rstr \<Rightarrow> server_error + int" where
  "parse_date p s =
     (case kp_parse_rfc3339 p s of Some d \<Rightarrow> Inr d
      | None \<Rightarrow> (case kp_parse_day p s of Some d \<Rightarrow> Inr d
          | None \<Rightarrow> Inl (InvalidParams (lit ''invalid date `'' @ s @ lit ''`; expected YYYY-MM-DD''))))"

definition parse_opt_date :: "kg_params \<Rightarrow> rstr option \<Rightarrow> server_error + int option" where
  "parse_opt_date p s =
     (case s of None \<Rightarrow> Inr None | Some t \<Rightarrow> bindE (parse_date p t) (\<lambda>d. Inr (Some d)))"

definition arrow :: rstr where
  "arrow = [32, 8594, 32]"

definition triple_text :: "rstr \<Rightarrow> rstr \<Rightarrow> rstr \<Rightarrow> rstr" where
  "triple_text s p ob = s @ arrow @ p @ arrow @ ob"

definition mutation_request_hash :: "env \<Rightarrow> (rstr \<times> json) list \<Rightarrow> rstr" where
  "mutation_request_hash e parts =
     env_blake3_json e (JObject (foldl (\<lambda>m (k, v). bmap_update k (\<lambda>_. v) m) [] parts))"

definition canonical_kg_triple :: "env \<Rightarrow> rstr \<Rightarrow> rstr \<Rightarrow> rstr \<Rightarrow> rstr" where
  "canonical_kg_triple e s p ob =
     lit ''kg:'' @ env_blake3_hex e
       (triple_text (canonicalize_label s) (canonicalize_label p) (canonicalize_label ob))"

definition json_opt_text :: "rstr option \<Rightarrow> json" where
  "json_opt_text s = (case s of None \<Rightarrow> JNull | Some t \<Rightarrow> JString t)"

text \<open>\<open>split\<close> on whitespace and hyphens, without empty tokens.\<close>

fun name_tokens :: "rstr \<Rightarrow> rstr \<Rightarrow> rstr list" where
  "name_tokens cur [] = (if cur = [] then [] else [cur])"
| "name_tokens cur (ch # s) =
     (if is_whitespace ch \<or> ch = 45 then (if cur = [] then name_tokens [] s else cur # name_tokens [] s)
      else name_tokens (cur @ [ch]) s)"

definition is_name_token :: "rstr \<Rightarrow> bool" where
  "is_name_token t =
     (case t of [] \<Rightarrow> False
      | first # rest \<Rightarrow> is_ascii_upper first \<and> list_all (\<lambda>ch. is_ascii_lower ch \<or> ch = 39) rest)"

definition infer_entity_kind :: "rstr \<Rightarrow> entity_kind" where
  "infer_entity_kind name =
     (let trimmed = trim name; tokens = name_tokens [] trimmed in
      if trimmed = [] then UnknownKind
      else if list_ex is_ascii_digit name then Concept
      else if length tokens \<ge> 2 \<and> list_all is_name_token tokens then Person
      else if length tokens = 1 \<and> list_all is_ascii_upper trimmed then Concept
      else UnknownKind)"

definition success_json :: json where
  "success_json = JObject [(lit ''success'', JBool True)]"

section \<open>Adding a fact\<close>

definition kg_fact_added :: rstr where "kg_fact_added = lit ''kg_fact_added''"
definition kg_fact_invalidated :: rstr where "kg_fact_invalidated = lit ''kg_fact_invalidated''"

definition add_request_of :: "kg_add_request \<Rightarrow> int option \<Rightarrow> add_fact_request" where
  "add_request_of body valid_from =
     \<lparr> af_subject = ka_subject body, af_subject_type = infer_entity_kind (ka_subject body),
       af_predicate = ka_predicate body, af_object = ka_object body,
       af_object_type = infer_entity_kind (ka_object body), af_valid_from = valid_from,
       af_valid_to = None, af_confidence = 0x3F800000, af_source_drawer_id = None,
       af_source_file = None \<rparr>"

definition added_event :: "kg_params \<Rightarrow> auth_identity \<Rightarrow> kg_add_request \<Rightarrow> int \<Rightarrow> rstr \<Rightarrow> change_event" where
  "added_event p auth body now triple =
     \<lparr> ce_event_type = kg_fact_added, ce_occurred_at = now, ce_entity_id = triple,
       ce_actor = Some (au_name auth),
       ce_details = Some (kp_json_text p (JObject
         [(lit ''object'', JString (ka_object body)), (lit ''predicate'', JString (ka_predicate body)),
          (lit ''subject'', JString (ka_subject body))])) \<rparr>"

definition added_response :: "kg_add_request \<Rightarrow> rstr \<Rightarrow> json" where
  "added_response body triple = JObject
     [(lit ''fact'', JString (triple_text (ka_subject body) (ka_predicate body) (ka_object body))),
      (lit ''success'', JBool True), (lit ''triple_id'', JString triple)]"

definition complete_with :: "env \<Rightarrow> owner_scoped_key \<Rightarrow> json \<Rightarrow> prog" where
  "complete_with e key response = act (\<lambda>h.
     case complete_receipt e (hub_receipts h) (ScopedKey key) response of
       (Inl x, rc) \<Rightarrow> (Respond (Inl (ServerStorage x)), h\<lparr> hub_receipts := rc \<rparr>)
     | (Inr _, rc) \<Rightarrow> (Respond (Inr response), h\<lparr> hub_receipts := rc \<rparr>))"

text \<open>The event of a keyed mutation is appended unless it is there; then the receipt is completed.\<close>

definition log_then_complete ::
  "env \<Rightarrow> change_event \<Rightarrow> owner_scoped_key option \<Rightarrow> json \<Rightarrow> prog" where
  "log_then_complete e ev key response = act (\<lambda>h.
     case key of
       None \<Rightarrow> (Respond (Inr response), h\<lparr> hub_log := append_change ev (hub_log h) \<rparr>)
     | Some k \<Rightarrow>
         (case append_event_if_absent_with_operation ev (composite_key k) (hub_log h) of
            (Inl x, log) \<Rightarrow> (Respond (Inl (ServerStorage x)), h\<lparr> hub_log := log \<rparr>)
          | (Inr _, log) \<Rightarrow> (complete_with e k response, h\<lparr> hub_log := log \<rparr>)))"

text \<open>The effects, the same for a fresh, a recovered and an unkeyed request.\<close>

definition add_effects ::
  "kg_params \<Rightarrow> env \<Rightarrow> auth_identity \<Rightarrow> kg_add_request \<Rightarrow> int \<Rightarrow> int option \<Rightarrow>
   persisted_provenance \<Rightarrow> owner_scoped_key option \<Rightarrow> prog" where
  "add_effects p e auth body now valid_from prov key = act (\<lambda>h.
     case add_fact_with_provenance (kp_date_text p) (add_request_of body valid_from) now (Some prov) (hub_kg h) of
       (Inl x, g) \<Rightarrow> (Respond (Inl (ServerGraph x)), h\<lparr> hub_kg := g \<rparr>)
     | (Inr triple, g) \<Rightarrow>
         (log_then_complete e (added_event p auth body now triple) key (added_response body triple),
          h\<lparr> hub_kg := g \<rparr>))"

definition add_request_hash :: "env \<Rightarrow> kg_add_request \<Rightarrow> rstr" where
  "add_request_hash e body = mutation_request_hash e
     [(lit ''subject'', JString (ka_subject body)), (lit ''predicate'', JString (ka_predicate body)),
      (lit ''object'', JString (ka_object body)), (lit ''valid_from'', json_opt_text (ka_valid_from body))]"

text \<open>The gate of a keyed mutation: a conflict, a replay of the stored response, or the effects.\<close>

definition begin_gate ::
  "env \<Rightarrow> new_receipt \<Rightarrow> rstr \<Rightarrow> (mutation_receipt \<Rightarrow> prog) \<Rightarrow> prog \<Rightarrow> prog" where
  "begin_gate e input conflict recover fresh = act (\<lambda>h.
     case begin_receipt e (hub_receipts h) input of
       (Inl x, rc) \<Rightarrow> (Respond (Inl (ServerStorage x)), h\<lparr> hub_receipts := rc \<rparr>)
     | (Inr out, rc) \<Rightarrow>
         ((case out of
             KeyConflict _ \<Rightarrow> Respond (Inl (IdempotencyConflict conflict))
           | Replay m \<Rightarrow> Respond (Inr (case mu_response m of Some v \<Rightarrow> v | None \<Rightarrow> success_json))
           | Recover m \<Rightarrow> recover m
           | Fresh m \<Rightarrow> fresh), h\<lparr> hub_receipts := rc \<rparr>))"

definition respond_or :: "server_error + 'a \<Rightarrow> ('a \<Rightarrow> prog) \<Rightarrow> prog" where
  "respond_or r k = (case r of Inl x \<Rightarrow> Respond (Inl x) | Inr v \<Rightarrow> k v)"

definition add_conflict :: "rstr \<Rightarrow> rstr" where
  "add_conflict op = lit ''operation `'' @ op @ lit ''` was already used by a different kg add request''"

definition route_kg_add ::
  "kg_params \<Rightarrow> env \<Rightarrow> (nat \<Rightarrow> int) \<Rightarrow> auth_identity \<Rightarrow> kg_add_request \<Rightarrow> prog" where
  "route_kg_add p e clk auth body =
     respond_or (validate_kg_field (lit ''subject'') (ka_subject body)) (\<lambda>_.
     respond_or (validate_kg_field (lit ''predicate'') (ka_predicate body)) (\<lambda>_.
     respond_or (validate_kg_field (lit ''object'') (ka_object body)) (\<lambda>_.
     respond_or (parse_opt_date p (ka_valid_from body)) (\<lambda>valid_from.
     respond_or (domain_provenance (clock_at e clk 1) auth) (\<lambda>prov.
     respond_or (validated_operation (ka_operation_id body) auth) (\<lambda>operation.
     case operation of
       None \<Rightarrow> add_effects p (clock_at e clk 4) auth body (clk 0) valid_from prov None
     | Some (op, key) \<Rightarrow>
         respond_or (receipt_provenance (clock_at e clk 2) auth key) (\<lambda>rp.
           let effects = add_effects p (clock_at e clk 4) auth body (clk 0) valid_from prov (Some key) in
           begin_gate (clock_at e clk 3)
             \<lparr> ni_operation_key = key, ni_operation_kind = lit ''kg_add'',
               ni_request_hash = add_request_hash e body,
               ni_target_id = canonical_kg_triple e (ka_subject body) (ka_predicate body) (ka_object body),
               ni_provenance = Some rp \<rparr>
             (add_conflict op) (\<lambda>_. effects) effects)))))))"

section \<open>Ending a fact\<close>

fun json_bool :: "json \<Rightarrow> bool option" where
  "json_bool (JBool b) = Some b"
| "json_bool _ = None"

definition invalidated_event ::
  "kg_params \<Rightarrow> auth_identity \<Rightarrow> kg_invalidate_request \<Rightarrow> int \<Rightarrow> int \<Rightarrow> change_event" where
  "invalidated_event p auth body now ended =
     \<lparr> ce_event_type = kg_fact_invalidated, ce_occurred_at = now,
       ce_entity_id = triple_text (ki_subject body) (ki_predicate body) (ki_object body),
       ce_actor = Some (au_name auth),
       ce_details = Some (kp_json_text p (JObject
         [(lit ''ended'', JString (kp_date_text p ended)), (lit ''object'', JString (ki_object body)),
          (lit ''predicate'', JString (ki_predicate body)), (lit ''subject'', JString (ki_subject body))])) \<rparr>"

definition invalidated_response :: "kg_params \<Rightarrow> kg_invalidate_request \<Rightarrow> bool \<Rightarrow> nat \<Rightarrow> int \<Rightarrow> json" where
  "invalidated_response p body keyed n ended = JObject
     [(lit ''ended'', JString (kp_date_text p ended)),
      (lit ''fact'', JString (triple_text (ki_subject body) (ki_predicate body) (ki_object body))),
      (lit ''invalidated'', JNumber (JInt (int n))),
      (lit ''success'', JBool (keyed \<or> 0 < n))]"

text \<open>After the graph: the event if this operation ended a fact, then the response.\<close>

definition invalidate_finish ::
  "kg_params \<Rightarrow> env \<Rightarrow> auth_identity \<Rightarrow> kg_invalidate_request \<Rightarrow> int \<Rightarrow> int \<Rightarrow>
   owner_scoped_key option \<Rightarrow> nat \<Rightarrow> bool \<Rightarrow> prog" where
  "invalidate_finish p e auth body now ended key n applied =
     (let response = invalidated_response p body (key \<noteq> None) n ended in
      if 0 < n \<or> applied
      then log_then_complete e (invalidated_event p auth body now ended) key response
      else (case key of None \<Rightarrow> Respond (Inr response) | Some k \<Rightarrow> complete_with e k response))"

definition applied_details :: "kg_params \<Rightarrow> int \<Rightarrow> json" where
  "applied_details p ended =
     JObject [(lit ''effect_applied'', JBool True), (lit ''ended'', JString (kp_date_text p ended))]"

text \<open>The marker after the effect; a late marker on a completed receipt is not an error.\<close>

definition mark_applied :: "kg_params \<Rightarrow> env \<Rightarrow> owner_scoped_key \<Rightarrow> int \<Rightarrow> prog \<Rightarrow> prog" where
  "mark_applied p e key ended cont = act (\<lambda>h.
     case set_receipt_details e (hub_receipts h) (ScopedKey key) (applied_details p ended) of
       (Inr _, rc) \<Rightarrow> (cont, h\<lparr> hub_receipts := rc \<rparr>)
     | (Inl x, rc) \<Rightarrow>
         (act (\<lambda>h'. (case get_receipt (hub_receipts h') (ScopedKey key) of
              Inl y \<Rightarrow> Respond (Inl (ServerStorage y))
            | Inr m \<Rightarrow> if opt_holds (\<lambda>m. mu_status m = ReceiptCompleted) m then cont
                      else Respond (Inl (ServerStorage x)), h')), h\<lparr> hub_receipts := rc \<rparr>))"

definition invalidate_effects ::
  "kg_params \<Rightarrow> env \<Rightarrow> auth_identity \<Rightarrow> kg_invalidate_request \<Rightarrow> int \<Rightarrow> int \<Rightarrow>
   persisted_provenance \<Rightarrow> owner_scoped_key option \<Rightarrow> bool \<Rightarrow> prog" where
  "invalidate_effects p e auth body now ended prov key applied = act (\<lambda>h.
     case invalidate_with_provenance e (kp_date_text p) (ki_subject body) (ki_predicate body) (ki_object body)
            ended now (Some prov) (hub_kg h) of
       (Inl x, g) \<Rightarrow>
         ((case x of UnknownEntity n \<Rightarrow>
             if key \<noteq> None then invalidate_finish p e auth body now ended key 0 applied
             else Respond (Inl (ServerGraph x))
           | GraphStorage y \<Rightarrow> Respond (Inl (ServerGraph x))), h\<lparr> hub_kg := g \<rparr>)
     | (Inr n, g) \<Rightarrow>
         ((if 0 < n
           then (case key of
                   None \<Rightarrow> invalidate_finish p e auth body now ended None n True
                 | Some k \<Rightarrow> mark_applied p e k ended (invalidate_finish p e auth body now ended (Some k) n True))
           else invalidate_finish p e auth body now ended key 0 applied), h\<lparr> hub_kg := g \<rparr>))"

definition invalidate_request_hash :: "env \<Rightarrow> kg_invalidate_request \<Rightarrow> rstr" where
  "invalidate_request_hash e body = mutation_request_hash e
     [(lit ''subject'', JString (ki_subject body)), (lit ''predicate'', JString (ki_predicate body)),
      (lit ''object'', JString (ki_object body)), (lit ''ended'', json_opt_text (ki_ended body))]"

definition invalidate_conflict :: "rstr \<Rightarrow> rstr" where
  "invalidate_conflict op = lit ''operation `'' @ op @ lit ''` was already used by a different kg invalidate request''"

text \<open>A recovered request goes on with the day its first attempt pinned and the marker it left.\<close>

definition recover_ended :: "kg_params \<Rightarrow> mutation_receipt \<Rightarrow> int \<Rightarrow> server_error + int" where
  "recover_ended p m ended =
     (case Option.bind (Option.bind (mu_details m) (\<lambda>d. json_get d (lit ''ended''))) json_str of
        None \<Rightarrow> Inr ended | Some pinned \<Rightarrow> parse_date p pinned)"

definition recover_applied :: "mutation_receipt \<Rightarrow> bool" where
  "recover_applied m =
     (Option.bind (Option.bind (mu_details m) (\<lambda>d. json_get d (lit ''effect_applied''))) json_bool = Some True)"

text \<open>With a key, the handler takes the lock first, and a fresh receipt pins the day.\<close>

definition pin_ended ::
  "kg_params \<Rightarrow> env \<Rightarrow> owner_scoped_key \<Rightarrow> int \<Rightarrow> prog \<Rightarrow> prog" where
  "pin_ended p e key ended cont = act (\<lambda>h.
     case set_receipt_details e (hub_receipts h) (ScopedKey key)
            (JObject [(lit ''ended'', JString (kp_date_text p ended))]) of
       (Inl x, rc) \<Rightarrow> (Respond (Inl (ServerStorage x)), h\<lparr> hub_receipts := rc \<rparr>)
     | (Inr _, rc) \<Rightarrow> (cont, h\<lparr> hub_receipts := rc \<rparr>))"

definition invalidate_keyed ::
  "kg_params \<Rightarrow> env \<Rightarrow> (nat \<Rightarrow> int) \<Rightarrow> auth_identity \<Rightarrow> kg_invalidate_request \<Rightarrow> int \<Rightarrow>
   persisted_provenance \<Rightarrow> rstr \<Rightarrow> owner_scoped_key \<Rightarrow> prog" where
  "invalidate_keyed p e clk auth body ended prov op key =
     WaitLock (respond_or (receipt_provenance (clock_at e clk 4) auth key) (\<lambda>rp.
       begin_gate (clock_at e clk 5)
         \<lparr> ni_operation_key = key, ni_operation_kind = lit ''kg_invalidate'',
           ni_request_hash = invalidate_request_hash e body,
           ni_target_id = canonical_kg_triple e (ki_subject body) (ki_predicate body) (ki_object body),
           ni_provenance = Some rp \<rparr>
         (invalidate_conflict op)
         (\<lambda>m. respond_or (recover_ended p m ended) (\<lambda>ended'.
            invalidate_effects p (clock_at e clk 7) auth body (clk 1) ended' prov (Some key) (recover_applied m)))
         (pin_ended p (clock_at e clk 6) key ended
            (invalidate_effects p (clock_at e clk 7) auth body (clk 1) ended prov (Some key) False))))"

definition route_kg_invalidate ::
  "kg_params \<Rightarrow> env \<Rightarrow> (nat \<Rightarrow> int) \<Rightarrow> auth_identity \<Rightarrow> kg_invalidate_request \<Rightarrow> prog" where
  "route_kg_invalidate p e clk auth body =
     respond_or (validate_kg_field (lit ''subject'') (ki_subject body)) (\<lambda>_.
     respond_or (validate_kg_field (lit ''predicate'') (ki_predicate body)) (\<lambda>_.
     respond_or (validate_kg_field (lit ''object'') (ki_object body)) (\<lambda>_.
     respond_or (parse_opt_date p (ki_ended body)) (\<lambda>given.
     respond_or (invalidation_provenance e clk 2 auth) (\<lambda>prov.
     respond_or (validated_operation (ki_operation_id body) auth) (\<lambda>operation.
     let ended = (case given of Some d \<Rightarrow> d | None \<Rightarrow> day_of (clk 0)) in
     case operation of
       None \<Rightarrow> invalidate_effects p (clock_at e clk 7) auth body (clk 1) ended prov None False
     | Some (op, key) \<Rightarrow> invalidate_keyed p e clk auth body ended prov op key))))))"

section \<open>Running handlers\<close>

text \<open>A handler that runs alone, to its response.\<close>

primrec run_alone :: "prog \<Rightarrow> hub \<Rightarrow> (server_error + json) \<times> hub" where
  "run_alone (Respond r) h = (r, h)"
| "run_alone (Act f k) h = run_alone (k h) (f h)"
| "run_alone (WaitLock q) h = run_alone q h"

text \<open>
  The server: its stores, the handlers in flight, each with its request and whether it holds the lock,
  and the answers it sent. A step starts a request, performs one call of a handler, loses a handler,
  or is a mutation of the graph by another process.
\<close>

datatype kg_request =
  AddRequest kg_params env "nat \<Rightarrow> int" auth_identity kg_add_request
| InvalidateRequest kg_params env "nat \<Rightarrow> int" auth_identity kg_invalidate_request

fun handler_of :: "kg_request \<Rightarrow> prog" where
  "handler_of (AddRequest p e clk auth body) = route_kg_add p e clk auth body"
| "handler_of (InvalidateRequest p e clk auth body) = route_kg_invalidate p e clk auth body"

record flight =
  fl_request :: kg_request
  fl_locked :: bool
  fl_prog :: prog

record server =
  sv_hub :: hub
  sv_pool :: "flight list"
  sv_sent :: "(kg_request \<times> (server_error + json)) list"

datatype server_step =
  StartHandler kg_request
| RunHandler nat
| LoseHandler nat
| LocalGraph env "int \<Rightarrow> rstr" kg_call

definition remove_nth :: "nat \<Rightarrow> 'a list \<Rightarrow> 'a list" where
  "remove_nth i xs = take i xs @ drop (Suc i) xs"

definition run_handler :: "nat \<Rightarrow> flight \<Rightarrow> server \<Rightarrow> server" where
  "run_handler i fl s =
     (case fl_prog fl of
        Respond r \<Rightarrow>
          s\<lparr> sv_pool := remove_nth i (sv_pool s), sv_sent := sv_sent s @ [(fl_request fl, r)] \<rparr>
      | WaitLock q \<Rightarrow>
          if list_ex fl_locked (sv_pool s) then s
          else s\<lparr> sv_pool := (sv_pool s)[i := fl\<lparr> fl_locked := True, fl_prog := q \<rparr>] \<rparr>
      | Act f k \<Rightarrow>
          s\<lparr> sv_hub := f (sv_hub s), sv_pool := (sv_pool s)[i := fl\<lparr> fl_prog := k (sv_hub s) \<rparr>] \<rparr>)"

fun server_exec :: "server_step \<Rightarrow> server \<Rightarrow> server" where
  "server_exec (StartHandler q) s =
     s\<lparr> sv_pool := sv_pool s @ [\<lparr> fl_request = q, fl_locked = False, fl_prog = handler_of q \<rparr>] \<rparr>"
| "server_exec (RunHandler i) s =
     (if i < length (sv_pool s) then run_handler i (sv_pool s ! i) s else s)"
| "server_exec (LoseHandler i) s = s\<lparr> sv_pool := remove_nth i (sv_pool s) \<rparr>"
| "server_exec (LocalGraph e fmt c) s =
     s\<lparr> sv_hub := (sv_hub s)\<lparr> hub_kg := kg_exec e fmt c (hub_kg (sv_hub s)) \<rparr> \<rparr>"

definition server_init :: server where
  "server_init = \<lparr> sv_hub = hub_empty, sv_pool = [], sv_sent = [] \<rparr>"

end
