(* ===== verification/Server_Kg_Inv.thy ===== *)
theory Server_Kg_Inv
  imports Server_Kg Change_Log_Props Receipts_Ledger
begin

text \<open>
  What the interleaved handlers keep. \<open>hub_inv\<close> joins the invariants of the three stores and adds what
  connects them: an operation has at most one event of a type, and a completed receipt whose response
  names a fact is backed by the fact and by the event of its operation. \<open>hub_grows\<close> is the guarantee of
  every step, which is what a handler relies on between two of its own. \<open>safe\<close> follows a handler
  through all states the others may leave it in.
\<close>

section \<open>The stores\<close>

definition fact_ids :: "hub \<Rightarrow> rstr set" where
  "fact_ids h = kf_fact_id ` set (kg_facts (hub_kg h))"

lemma upsert_fact_ids:
  assumes "upsert_fact f db = (r, db')"
  shows "kf_fact_id ` set (kg_facts db) \<subseteq> kf_fact_id ` set (kg_facts db') \<and>
     (case r of Inl x \<Rightarrow> True | Inr u \<Rightarrow> kf_fact_id f \<in> kf_fact_id ` set (kg_facts db'))"
proof -
  let ?same = "\<lambda>x. kf_fact_id x = kf_fact_id f"
  let ?upd = "\<lambda>x. f\<lparr> kf_created_at := kf_created_at x \<rparr>"
  have "map kf_fact_id (update_rows ?same ?upd (kg_facts db)) = map kf_fact_id (kg_facts db)"
    by (rule map_update_rows) simp
  then have same: "kf_fact_id ` set (update_rows ?same ?upd (kg_facts db)) = kf_fact_id ` set (kg_facts db)"
    by (metis list.set_map)
  show ?thesis
  proof (cases "f32_is_nan (kf_confidence f)")
    case True
    then have "r = Inl (Sqlite (NotNullViolation (lit ''knowledge_graph_facts.confidence'')))" "db' = db"
      using assms by (simp_all add: upsert_fact_def)
    then show ?thesis by simp
  next
    case False
    show ?thesis
    proof (cases "find_row ?same (kg_facts db) = None")
      case True
      with assms False have "r = Inr ()" "db' = db\<lparr> kg_facts := kg_facts db @ [f] \<rparr>"
        by (simp_all add: upsert_fact_def)
      then show ?thesis by auto
    next
      case found: False
      with assms False have r: "r = Inr ()" and db': "db' = db\<lparr> kg_facts := update_rows ?same ?upd (kg_facts db) \<rparr>"
        by (simp_all add: upsert_fact_def)
      obtain x where "x \<in> set (kg_facts db)" "?same x" using found by (auto simp: find_row_None)
      then have "kf_fact_id f \<in> kf_fact_id ` set (kg_facts db)" by (metis imageI)
      with same r db' show ?thesis by simp
    qed
  qed
qed

lemma add_fact_ids:
  assumes "add_fact_with_provenance fmt req now prov db = (r, db')"
  shows "kf_fact_id ` set (kg_facts db) \<subseteq> kf_fact_id ` set (kg_facts db') \<and>
     (case r of Inl x \<Rightarrow> True | Inr t \<Rightarrow> t \<in> kf_fact_id ` set (kg_facts db'))"
  using add_fact_spec [OF assms]
proof cases
  case (present s db1 ob f)
  with find_active_SomeD [OF present(4)] show ?thesis by (auto dest!: ensure_entity_facts)
next
  case (new s db1 ob db2 p f u)
  from upsert_fact_ids [OF new(6)] new show ?thesis
    by (auto dest!: ensure_entity_facts split: sum.splits)
qed

lemma end_rows_ids:
  "end_rows e ended now prov rows n db = (r, db') \<Longrightarrow>
   map kf_fact_id (kg_facts db') = map kf_fact_id (kg_facts db)"
proof (induction e ended now prov rows n db rule: end_rows.induct)
  case (2 e ended now prov i existing rows changed db)
  then show ?case by (auto simp: Let_def map_update_rows split: try_tx_split_asm)
qed simp

lemma invalidate_ids:
  assumes "invalidate_with_provenance e fmt s p ob ended now prov db = (r, db')"
  shows "map kf_fact_id (kg_facts db') = map kf_fact_id (kg_facts db)"
  using assms
  by (auto simp: invalidate_with_provenance_def invalidate_active_fact_with_provenance_def
      split: try_tx_split_asm prod.splits dest: end_rows_ids)

lemma kg_exec_ids: "kf_fact_id ` set (kg_facts db) \<subseteq> kf_fact_id ` set (kg_facts (kg_exec e fmt c db))"
proof (cases c)
  case (KgAdd req now prov)
  then show ?thesis using add_fact_ids [OF prod.collapse [symmetric]] by simp
next
  case (KgInvalidate s p ob ended now prov)
  then show ?thesis
    using arg_cong [OF invalidate_ids [OF prod.collapse [symmetric]], of set] by simp
qed simp

lemma operation_logged_append: "operation_logged log t k \<Longrightarrow> operation_logged (log @ ext) t k"
  by (auto simp: operation_logged_def find_row_append split: option.splits)

lemma if_absent_logged:
  "append_event_if_absent_inner ev (Some k) log = (Inr b, log') \<Longrightarrow> operation_logged log' (ce_event_type ev) k"
  by (auto dest!: if_absent_cases elim!: if_absent_spec.cases
      simp: operation_logged_def find_row_None log_row_of_def)

text \<open>Under an operation key every type of event is logged once.\<close>

definition operations_once :: "change_log \<Rightarrow> bool" where
  "operations_once log \<longleftrightarrow>
     distinct (map (\<lambda>r. (ce_event_type (lr_event r), lr_operation r)) (filter (\<lambda>r. lr_operation r \<noteq> None) log))"

lemma operations_once_append: "operations_once log \<Longrightarrow> operations_once (append_event_inner ev None log)"
  by (simp add: operations_once_def append_event_inner_def log_row_of_def)

lemma operations_once_if_absent:
  assumes "operations_once log" and "append_event_if_absent_inner ev op log = (r, log')"
  shows "operations_once log'"
  using if_absent_cases [OF assms(2)]
proof cases
  case appended
  show ?thesis
  proof (cases op)
    case (Some k)
    with appended have "\<forall>r \<in> set log. ce_event_type (lr_event r) = ce_event_type ev \<longrightarrow> lr_operation r \<noteq> Some k"
      by (auto simp: operation_logged_def find_row_None)
    with assms(1) appended Some show ?thesis by (auto simp: operations_once_def log_row_of_def)
  qed (use assms(1) appended in \<open>simp add: operations_once_def log_row_of_def\<close>)
qed (use assms(1) in auto)

section \<open>The invariant and the guarantee\<close>

definition triple_id :: "json \<Rightarrow> rstr option" where
  "triple_id v = Option.bind (json_get v (lit ''triple_id'')) json_str"

definition effect_ok :: "hub \<Rightarrow> owner_scoped_key \<Rightarrow> json \<Rightarrow> bool" where
  "effect_ok h k v = (case triple_id v of None \<Rightarrow> True
     | Some t \<Rightarrow> t \<in> fact_ids h \<and> operation_logged (hub_log h) kg_fact_added (composite_key k))"

definition hub_inv :: "hub \<Rightarrow> bool" where
  "hub_inv h \<longleftrightarrow> kg_inv (hub_kg h) \<and> receipts_inv (hub_receipts h) \<and> log_inv (hub_log h) \<and>
     operations_once (hub_log h) \<and>
     (\<forall>k hs v. ledger (hub_receipts h) k = Some (hs, Some v) \<longrightarrow> effect_ok h k v)"

definition hub_grows :: "hub \<Rightarrow> hub \<Rightarrow> bool" where
  "hub_grows h h' \<longleftrightarrow> fact_ids h \<subseteq> fact_ids h' \<and> receipts_extends (hub_receipts h) (hub_receipts h') \<and>
     log_extends (hub_log h) (hub_log h')"

lemma hub_grows_refl [simp]: "hub_grows h h"
  by (simp add: hub_grows_def receipts_hist.extends_refl log_hist.extends_refl)

lemma hub_grows_trans: "hub_grows h h' \<Longrightarrow> hub_grows h' h'' \<Longrightarrow> hub_grows h h''"
  unfolding hub_grows_def using receipts_hist.extends_trans log_hist.extends_trans by blast

lemma effect_ok_ext: "effect_ok h k v \<Longrightarrow> hub_grows h h' \<Longrightarrow> effect_ok h' k v"
  by (auto simp: effect_ok_def hub_grows_def log_extends_def operation_logged_append split: option.splits)

lemma ledger_ext: "hub_grows h h' \<Longrightarrow> ledger (hub_receipts h) k = Some (hs, Some v) \<Longrightarrow>
   ledger (hub_receipts h') k = Some (hs, Some v)"
  by (fastforce simp: hub_grows_def receipts_extends_def ledger_le_def)

definition announced :: "hub \<Rightarrow> owner_scoped_key \<Rightarrow> rstr \<Rightarrow> bool" where
  "announced h k hs \<longleftrightarrow> (\<exists>v. ledger (hub_receipts h) k = Some (hs, v))"

lemma announced_ext: "announced h k hs \<Longrightarrow> hub_grows h h' \<Longrightarrow> announced h' k hs"
  by (fastforce simp: announced_def hub_grows_def receipts_extends_def ledger_le_def)

text \<open>A step of one store. Only the completion of a receipt owes that its effects are there.\<close>

lemma hub_graph_step:
  assumes "hub_inv h" and "kg_inv g" and "kf_fact_id ` set (kg_facts (hub_kg h)) \<subseteq> kf_fact_id ` set (kg_facts g)"
  shows "hub_inv (h\<lparr> hub_kg := g \<rparr>) \<and> hub_grows h (h\<lparr> hub_kg := g \<rparr>)"
proof -
  have ext: "hub_grows h (h\<lparr> hub_kg := g \<rparr>)"
    using assms(3) by (simp add: hub_grows_def fact_ids_def receipts_hist.extends_refl log_hist.extends_refl)
  with assms effect_ok_ext [OF _ ext] show ?thesis by (simp add: hub_inv_def)
qed

lemma hub_log_step:
  assumes "hub_inv h" and "log_inv log" and "operations_once log" and "log_extends (hub_log h) log"
  shows "hub_inv (h\<lparr> hub_log := log \<rparr>) \<and> hub_grows h (h\<lparr> hub_log := log \<rparr>)"
proof -
  have ext: "hub_grows h (h\<lparr> hub_log := log \<rparr>)"
    using assms(4) by (simp add: hub_grows_def fact_ids_def receipts_hist.extends_refl)
  with assms effect_ok_ext [OF _ ext] show ?thesis by (simp add: hub_inv_def)
qed

lemma hub_receipts_step:
  assumes inv: "hub_inv h" and rc: "receipts_exec c (hub_receipts h) = rc"
    and new: "\<And>k hs v. ledger rc k = Some (hs, Some v) \<Longrightarrow>
       ledger (hub_receipts h) k = Some (hs, Some v) \<or> effect_ok h k v"
  shows "hub_inv (h\<lparr> hub_receipts := rc \<rparr>) \<and> hub_grows h (h\<lparr> hub_receipts := rc \<rparr>)"
proof -
  have r: "receipts_inv (hub_receipts h)" using inv by (simp add: hub_inv_def)
  have ext: "hub_grows h (h\<lparr> hub_receipts := rc \<rparr>)"
    using receipts_hist.exec_extends [OF r, of c] rc
    by (simp add: hub_grows_def fact_ids_def log_hist.extends_refl)
  have "effect_ok (h\<lparr> hub_receipts := rc \<rparr>) k v" if "ledger rc k = Some (hs, Some v)" for k hs v
    using new [OF that] inv effect_ok_ext [OF _ ext] by (auto simp: hub_inv_def)
  with inv ext receipts_exec_inv [OF r, of c] rc show ?thesis by (simp add: hub_inv_def)
qed

section \<open>Handlers\<close>

text \<open>
  From every state the others may lead to, each call of the handler keeps the invariant and the
  guarantee, and its answer has the property \<open>P\<close> when it is given.
\<close>

primrec safe :: "(server_error + json \<Rightarrow> hub \<Rightarrow> bool) \<Rightarrow> prog \<Rightarrow> hub \<Rightarrow> bool" where
  "safe P (Respond r) h = P r h"
| "safe P (Act f k) h = (\<forall>h'. hub_grows h h' \<longrightarrow> hub_inv h' \<longrightarrow>
     hub_inv (f h') \<and> hub_grows h' (f h') \<and> safe P (k h') (f h'))"
| "safe P (WaitLock q) h = safe P q h"

definition stable :: "(server_error + json \<Rightarrow> hub \<Rightarrow> bool) \<Rightarrow> bool" where
  "stable P \<longleftrightarrow> (\<forall>r h h'. P r h \<longrightarrow> hub_grows h h' \<longrightarrow> P r h')"

lemma safe_ext: "stable P \<Longrightarrow> safe P q h \<Longrightarrow> hub_grows h h' \<Longrightarrow> safe P q h'"
  by (induction q arbitrary: h h') (auto simp: stable_def intro: hub_grows_trans)

lemma safe_act:
  assumes "\<And>h' q h''. hub_grows h h' \<Longrightarrow> hub_inv h' \<Longrightarrow> g h' = (q, h'') \<Longrightarrow>
     (hub_inv h'' \<and> hub_grows h' h'') \<and> safe P q h''"
  shows "safe P (act g) h"
  using assms [OF _ _ prod.collapse [symmetric]] by (simp add: act_def)

lemma safe_respond_or:
  "(\<And>x. r = Inl x \<Longrightarrow> P (Inl x) h) \<Longrightarrow> (\<And>v. r = Inr v \<Longrightarrow> safe P (k v) h) \<Longrightarrow> safe P (respond_or r k) h"
  by (auto simp: respond_or_def split: sum.splits)

text \<open>
  The answer's property: a success under a key and a request hash is given only once the receipt of
  that key and hash is completed, and a fact it names is in the graph, with its event logged.
\<close>

fun kept :: "(owner_scoped_key \<times> rstr) option \<Rightarrow> server_error + json \<Rightarrow> hub \<Rightarrow> bool" where
  "kept key (Inl x) h = True"
| "kept None (Inr v) h = (case triple_id v of None \<Rightarrow> True | Some t \<Rightarrow> t \<in> fact_ids h)"
| "kept (Some (k, hs)) (Inr v) h =
     ((\<exists>v'. ledger (hub_receipts h) k = Some (hs, Some v')) \<and> effect_ok h k v)"

text \<open>
  The key and the request hash under which a request announces itself. A key that is not valid is in
  no ledger, and its request is refused.
\<close>

definition operation_key :: "auth_identity \<Rightarrow> rstr \<Rightarrow> owner_scoped_key" where
  "operation_key auth op = \<lparr> osk_owner = map_option ao_id (au_owner auth), osk_raw = trim op \<rparr>"

fun request_key :: "kg_request \<Rightarrow> (owner_scoped_key \<times> rstr) option" where
  "request_key (AddRequest p e clk auth body) =
     map_option (\<lambda>op. (operation_key auth op, add_request_hash e body)) (ka_operation_id body)"
| "request_key (InvalidateRequest p e clk auth body) =
     map_option (\<lambda>op. (operation_key auth op, invalidate_request_hash e body)) (ki_operation_id body)"

lemma validated_operation_Inr:
  "validated_operation op auth = Inr r \<Longrightarrow> r = map_option (\<lambda>i. (i, operation_key auth i)) op"
  by (auto simp: validated_operation_def auth_scoped_key_def new_scoped_key_ok operation_key_def bindE_eq_Inr
      split: option.splits)

lemma validated_operation_SomeD:
  "validated_operation op auth = Inr (Some (i, k)) \<Longrightarrow> op = Some i \<and> k = operation_key auth i"
  by (drule validated_operation_Inr, cases op) simp_all

lemma validated_operation_wf:
  "wf_scoped_key (operation_key auth i) \<Longrightarrow> validated_operation (Some i) auth = Inr (Some (i, operation_key auth i))"
proof -
  assume "wf_scoped_key (operation_key auth i)"
  then have "new_scoped_key (map_option ao_id (au_owner auth)) i = Inr (operation_key auth i)"
    by (simp add: new_scoped_key_ok) (simp add: operation_key_def)
  then show ?thesis by (simp add: validated_operation_def auth_scoped_key_def)
qed

lemma kept_ext_state: "kept key r h \<Longrightarrow> hub_grows h h' \<Longrightarrow> kept key r h'"
proof (induction key r h rule: kept.induct)
  case (2 v h)
  then show ?case by (auto simp: hub_grows_def split: option.splits)
next
  case (3 k hs v h)
  then show ?case using ledger_ext [OF 3(2)] effect_ok_ext by auto
qed simp

lemma stable_kept: "stable (kept key)"
  by (auto simp: stable_def intro: kept_ext_state)

lemmas kept_ext = safe_ext [OF stable_kept]

subsection \<open>Their steps\<close>

lemma safe_complete:
  assumes ann: "announced h k hs" and eff: "effect_ok h k v"
  shows "safe (kept (Some (k, hs))) (complete_with e k v) h"
  unfolding complete_with_def
proof (rule safe_act)
  fix h' q h'' assume ext: "hub_grows h h'" and inv: "hub_inv h'"
    and step: "(case complete_receipt e (hub_receipts h') (ScopedKey k) v of
       (Inl x, rc) \<Rightarrow> (Respond (Inl (ServerStorage x)), h'\<lparr> hub_receipts := rc \<rparr>)
     | (Inr _, rc) \<Rightarrow> (Respond (Inr v), h'\<lparr> hub_receipts := rc \<rparr>)) = (q, h'')"
  obtain r rc where c: "complete_receipt e (hub_receipts h') (ScopedKey k) v = (r, rc)" by (metis surj_pair)
  have rinv: "receipts_inv (hub_receipts h')" using inv by (simp add: hub_inv_def)
  have eff': "effect_ok h' k v" using effect_ok_ext [OF eff ext] .
  obtain v0 where l0: "ledger (hub_receipts h') k = Some (hs, v0)"
    using announced_ext [OF ann ext] by (auto simp: announced_def)
  then have wf: "wf_scoped_key k" by (auto simp: ledger_def split: if_splits)
  have key: "k' = k" if "into_receipt_key (ScopedKey k) = Inr k'" for k'
    using that by (auto simp: bindE_eq_Inr)
  have cases: "(\<exists>x. r = Inl x) \<and> rc = hub_receipts h' \<or>
      r = Inr () \<and> ledger rc = ledger_complete (ledger (hub_receipts h')) k v"
    using outcomeD [OF complete_receipt_outcome c]
  proof cases
    case (ct_done k' row)
    with key have f: "find_row (has_key k) (hub_receipts h') = Some row" by simp
    with receipts_inv_row [OF rinv f] ct_done wf
    have "ledger_complete (ledger (hub_receipts h')) k v = ledger (hub_receipts h')"
      by (auto simp: ledger_complete_def ledger_def split: option.splits)
    with ct_done show ?thesis by simp
  next
    case (ct_applied k' row at)
    with key [OF ct_applied(3)] have "rc = complete_rows k v at (hub_receipts h')" by simp
    with ct_applied(1) ledger_complete_rows [OF rinv wf] show ?thesis by simp
  qed simp
  have exec: "receipts_exec (RcComplete e (ScopedKey k) v) (hub_receipts h') = rc" using c by simp
  have new: "ledger (hub_receipts h') k' = Some (hs', Some v') \<or> effect_ok h' k' v'"
    if "ledger rc k' = Some (hs', Some v')" for k' hs' v'
    using that cases eff' by (auto simp: ledger_complete_def split: option.splits if_splits)
  have fin: "\<exists>v'. ledger rc k = Some (hs, Some v')" if "r = Inr ()"
    using that cases l0 by (cases v0) (auto simp: ledger_complete_def)
  from hub_receipts_step [OF inv exec new]
  have hub: "hub_inv (h'\<lparr> hub_receipts := rc \<rparr>) \<and> hub_grows h' (h'\<lparr> hub_receipts := rc \<rparr>)" .
  with step c fin effect_ok_ext [OF eff'] show "(hub_inv h'' \<and> hub_grows h' h'') \<and> safe (kept (Some (k, hs))) q h''"
    by (auto split: sum.splits)
qed

lemma safe_log_complete:
  assumes ann: "announced h k hs"
    and eff: "\<And>h'. hub_grows h h' \<Longrightarrow> operation_logged (hub_log h') (ce_event_type ev) (composite_key k) \<Longrightarrow>
       effect_ok h' k v"
  shows "safe (kept (Some (k, hs))) (log_then_complete e ev (Some k) v) h"
  unfolding log_then_complete_def option.case
proof (rule safe_act)
  fix h' q h'' assume ext: "hub_grows h h'" and inv: "hub_inv h'"
    and step: "(case append_event_if_absent_with_operation ev (composite_key k) (hub_log h') of
       (Inl x, log) \<Rightarrow> (Respond (Inl (ServerStorage x)), h'\<lparr> hub_log := log \<rparr>)
     | (Inr _, log) \<Rightarrow> (complete_with e k v, h'\<lparr> hub_log := log \<rparr>)) = (q, h'')"
  obtain r log where a: "append_event_if_absent_inner ev (Some (composite_key k)) (hub_log h') = (r, log)"
    by (metis surj_pair)
  have "log_extends (hub_log h') log"
    using log_exec_extends [of "hub_log h'" "LogIfAbsent ev (Some (composite_key k))"] a by simp
  with hub_log_step [OF inv] inv log_inv_if_absent [OF _ a] operations_once_if_absent [OF _ a]
  have hub: "hub_inv (h'\<lparr> hub_log := log \<rparr>) \<and> hub_grows h' (h'\<lparr> hub_log := log \<rparr>)" by (simp add: hub_inv_def)
  show "(hub_inv h'' \<and> hub_grows h' h'') \<and> safe (kept (Some (k, hs))) q h''"
  proof (cases r)
    case (Inr b)
    with step a have q: "q = complete_with e k v" and h'': "h'' = h'\<lparr> hub_log := log \<rparr>"
      by (simp_all add: append_event_if_absent_with_operation_def)
    have ext2: "hub_grows h h''" using hub_grows_trans [OF ext] hub h'' by simp
    have "operation_logged (hub_log h'') (ce_event_type ev) (composite_key k)"
      using if_absent_logged [OF a [unfolded Inr]] h'' by simp
    from safe_complete [OF announced_ext [OF ann ext2] eff [OF ext2 this]] q hub h'' show ?thesis by simp
  qed (use step a hub in \<open>auto simp: append_event_if_absent_with_operation_def\<close>)
qed

end
