(* ===== verification/Server_Kg_Props.thy ===== *)
theory Server_Kg_Props
  imports Server_Kg_Inv
begin

text \<open>
  Every handler is safe, so the server keeps the invariant of its three stores whatever the handlers
  in flight, in whatever order they run and wherever they are lost; and what the answers promise.
\<close>

section \<open>The handlers are safe\<close>

lemma begin_step:
  assumes inv: "hub_inv h" and b: "begin_receipt e (hub_receipts h) i = (r, rc)"
  shows "hub_inv (h\<lparr> hub_receipts := rc \<rparr>) \<and> hub_grows h (h\<lparr> hub_receipts := rc \<rparr>)"
proof (rule hub_receipts_step [OF inv, of "RcBegin e i"])
  show "receipts_exec (RcBegin e i) (hub_receipts h) = rc" using b by simp
  show "ledger (hub_receipts h) k = Some (hs, Some v) \<or> effect_ok h k v"
    if "ledger rc k = Some (hs, Some v)" for k hs v
    using outcomeD [OF begin_receipt_outcome b]
  proof cases
    case bs_fresh
    with that ledger_fresh [OF bs_fresh(3,4), of e] show ?thesis by (auto split: if_splits)
  qed (use that in auto)
qed

lemma safe_begin_gate:
  assumes key: "ni_operation_key i = k" and hash: "ni_request_hash i = hs"
    and recover: "\<And>m h'. hub_grows h h' \<Longrightarrow> announced h' k hs \<Longrightarrow> safe (kept (Some (k, hs))) (recover m) h'"
    and fresh: "\<And>h'. hub_grows h h' \<Longrightarrow> announced h' k hs \<Longrightarrow> safe (kept (Some (k, hs))) fresh h'"
  shows "safe (kept (Some (k, hs))) (begin_gate e i conflict recover fresh) h"
  unfolding begin_gate_def
proof (rule safe_act)
  fix h' h'' :: hub and q
  let ?g = "case begin_receipt e (hub_receipts h') i of
       (Inl x, rc) \<Rightarrow> (Respond (Inl (ServerStorage x)), h'\<lparr> hub_receipts := rc \<rparr>)
     | (Inr out, rc) \<Rightarrow>
         ((case out of
             KeyConflict _ \<Rightarrow> Respond (Inl (IdempotencyConflict conflict))
           | Replay m \<Rightarrow> Respond (Inr (case mu_response m of Some v \<Rightarrow> v | None \<Rightarrow> success_json))
           | Recover m \<Rightarrow> recover m
           | Fresh m \<Rightarrow> fresh), h'\<lparr> hub_receipts := rc \<rparr>)"
  assume ext: "hub_grows h h'" and inv: "hub_inv h'" and step: "?g = (q, h'')"
  obtain r rc where b: "begin_receipt e (hub_receipts h') i = (r, rc)" by (metis surj_pair)
  have h'': "h'' = h'\<lparr> hub_receipts := rc \<rparr>" using step b by (auto split: sum.splits)
  note hub = begin_step [OF inv b, folded h'']
  have ext2: "hub_grows h h''" using hub_grows_trans [OF ext] hub by blast
  have rinv: "receipts_inv (hub_receipts h')" using inv by (simp add: hub_inv_def)
  have "safe (kept (Some (k, hs))) q h''"
    using outcomeD [OF begin_receipt_outcome b]
  proof cases
    case (bs_error x)
    with step b show ?thesis by auto
  next
    case (bs_known row out)
    have l: "ledger (hub_receipts h') k = Some (rc_request_hash row, rc_response row)"
      using bs_known(3,4) key by (simp add: ledger_def)
    have same: "h'' = h'" using bs_known(2) h'' by simp
    show ?thesis
    proof (cases "rc_request_hash row = hs")
      case False
      with bs_known step b hash show ?thesis by auto
    next
      case True
      show ?thesis
      proof (cases "rc_status row")
        case ReceiptPending
        with bs_known step b hash True have "q = recover (receipt_at k row)" by (auto simp: key)
        moreover have "announced h'' k hs" using l True same by (auto simp: announced_def)
        ultimately show ?thesis using recover [OF ext2] by simp
      next
        case ReceiptCompleted
        with receipts_inv_row [OF rinv bs_known(4)] obtain v where v: "rc_response row = Some v" by auto
        with ReceiptCompleted bs_known step b hash True have "q = Respond (Inr v)"
          by (auto simp: receipt_at_def)
        moreover have "effect_ok h' k v" using inv l v by (auto simp: hub_inv_def)
        ultimately show ?thesis using l v True same by simp
      qed
    qed
  next
    case bs_fresh
    have "announced h'' k hs" using ledger_fresh [OF bs_fresh(3,4), of e] bs_fresh(2) h'' key hash
      by (simp add: announced_def)
    with fresh [OF ext2] bs_fresh step b show ?thesis by auto
  qed
  with hub show "(hub_inv h'' \<and> hub_grows h' h'') \<and> safe (kept (Some (k, hs))) q h''" by blast
qed

lemma triple_id_added [simp]: "triple_id (added_response body t) = Some t"
  by (simp add: triple_id_def added_response_def lit_def)

lemma triple_id_invalidated [simp]: "triple_id (invalidated_response p body b n ended) = None"
  by (simp add: triple_id_def invalidated_response_def lit_def)

lemma effect_ok_invalidated [simp]: "effect_ok h k (invalidated_response p body b n ended)"
  by (simp add: effect_ok_def)

text \<open>Without a key the event is appended and the answer given.\<close>

lemma safe_log_unkeyed:
  assumes "case triple_id v of None \<Rightarrow> True | Some t \<Rightarrow> t \<in> fact_ids h"
  shows "safe (kept None) (log_then_complete e ev None v) h"
  unfolding log_then_complete_def option.case
proof (rule safe_act)
  fix h' q h'' assume ext: "hub_grows h h'" and inv: "hub_inv h'"
    and step: "(Respond (Inr v), h'\<lparr> hub_log := append_change ev (hub_log h') \<rparr>) = (q, h'')"
  have "log_extends (hub_log h') (append_change ev (hub_log h'))"
    using log_exec_extends [of "hub_log h'" "LogAppend ev None"] by (simp add: append_change_def)
  with hub_log_step [OF inv] inv
  have hub: "hub_inv h'' \<and> hub_grows h' h''"
    using step by (auto simp: append_change_def hub_inv_def log_inv_append_event operations_once_append)
  moreover have "kept None (Inr v) h''"
    using kept_ext_state [of None "Inr v" h h''] assms hub_grows_trans [OF ext, of h''] hub by simp
  ultimately show "(hub_inv h'' \<and> hub_grows h' h'') \<and> safe (kept None) q h''" using step by auto
qed

definition key_announced :: "hub \<Rightarrow> (owner_scoped_key \<times> rstr) option \<Rightarrow> bool" where
  "key_announced h key = (case key of None \<Rightarrow> True | Some (k, hs) \<Rightarrow> announced h k hs)"

lemma key_announced_grows: "key_announced h key \<Longrightarrow> hub_grows h h' \<Longrightarrow> key_announced h' key"
  by (auto simp: key_announced_def intro: announced_ext split: option.splits)

lemma safe_add_effects:
  assumes ann: "key_announced h key"
  shows "safe (kept key) (add_effects p e auth body now from prov (map_option fst key)) h"
  unfolding add_effects_def
proof (rule safe_act)
  fix h' q h'' assume ext: "hub_grows h h'" and inv: "hub_inv h'"
    and step: "(case add_fact_with_provenance (kp_date_text p) (add_request_of body from) now (Some prov) (hub_kg h') of
       (Inl x, g) \<Rightarrow> (Respond (Inl (ServerGraph x)), h'\<lparr> hub_kg := g \<rparr>)
     | (Inr triple, g) \<Rightarrow>
         (log_then_complete e (added_event p auth body now triple) (map_option fst key) (added_response body triple),
          h'\<lparr> hub_kg := g \<rparr>)) = (q, h'')"
  obtain r g where a: "add_fact_with_provenance (kp_date_text p) (add_request_of body from) now (Some prov)
      (hub_kg h') = (r, g)" by (metis surj_pair)
  have h'': "h'' = h'\<lparr> hub_kg := g \<rparr>" using step a by (auto split: sum.splits)
  have "kg_inv g" using add_fact_inv [OF _ a] inv by (simp add: hub_inv_def)
  with hub_graph_step [OF inv] add_fact_ids [OF a] h'' have hub: "hub_inv h'' \<and> hub_grows h' h''" by blast
  have ext2: "hub_grows h h''" using hub_grows_trans [OF ext] hub by blast
  have "safe (kept key) q h''"
  proof (cases r)
    case (Inl x)
    with step a show ?thesis by auto
  next
    case (Inr t)
    then have q: "q = log_then_complete e (added_event p auth body now t) (map_option fst key) (added_response body t)"
      using step a by auto
    have t: "t \<in> fact_ids h''" using add_fact_ids [OF a] Inr h'' by (simp add: fact_ids_def)
    show ?thesis
    proof (cases key)
      case None
      with q t safe_log_unkeyed [where v = "added_response body t" and h = h''] show ?thesis by simp
    next
      case (Some kh)
      obtain k hs where kh: "kh = (k, hs)" by (cases kh)
      have "effect_ok h3 k (added_response body t)"
        if "hub_grows h'' h3" "operation_logged (hub_log h3) (ce_event_type (added_event p auth body now t)) (composite_key k)" for h3
        using that t by (auto simp: effect_ok_def hub_grows_def added_event_def)
      with safe_log_complete [OF announced_ext [OF _ ext2]] ann Some kh q show ?thesis by (simp add: key_announced_def)
    qed
  qed
  with hub show "(hub_inv h'' \<and> hub_grows h' h'') \<and> safe (kept key) q h''" by blast
qed

lemma details_step:
  assumes inv: "hub_inv h" and d: "set_receipt_details e (hub_receipts h) key d = (r, rc)"
  shows "hub_inv (h\<lparr> hub_receipts := rc \<rparr>) \<and> hub_grows h (h\<lparr> hub_receipts := rc \<rparr>)"
proof (rule hub_receipts_step [OF inv, of "RcDetails e key d"])
  show "receipts_exec (RcDetails e key d) (hub_receipts h) = rc" using d by simp
  show "ledger (hub_receipts h) k = Some (hs, Some v) \<or> effect_ok h k v"
    if "ledger rc k = Some (hs, Some v)" for k hs v
    using outcomeD [OF set_receipt_details_outcome d]
    by cases (use that in \<open>auto simp: ledger_detail_rows\<close>)
qed

lemma safe_finish:
  assumes ann: "key_announced h key"
  shows "safe (kept key) (invalidate_finish p e auth body now ended (map_option fst key) n applied) h"
proof (cases key)
  case None
  then show ?thesis by (simp add: invalidate_finish_def Let_def safe_log_unkeyed)
next
  case (Some kh)
  obtain k hs where kh: "kh = (k, hs)" by (cases kh)
  have a: "announced h k hs" using ann Some kh by (simp add: key_announced_def)
  show ?thesis using safe_log_complete [OF a] safe_complete [OF a]
    by (simp add: invalidate_finish_def Let_def Some kh)
qed

lemma safe_mark:
  assumes ann: "announced h k hs"
    and cont: "\<And>h'. hub_grows h h' \<Longrightarrow> safe P cont h'" and err: "\<And>x h'. P (Inl x) h'"
  shows "safe P (mark_applied p e k ended cont) h"
  unfolding mark_applied_def
proof (rule safe_act)
  fix h' h'' :: hub and q assume grows: "hub_grows h h'" and inv: "hub_inv h'"
  let ?look = "\<lambda>x. act (\<lambda>h. (case get_receipt (hub_receipts h) (ScopedKey k) of
              Inl y \<Rightarrow> Respond (Inl (ServerStorage y))
            | Inr m \<Rightarrow> if opt_holds (\<lambda>m. mu_status m = ReceiptCompleted) m then cont
                      else Respond (Inl (ServerStorage x)), h))"
  assume step: "(case set_receipt_details e (hub_receipts h') (ScopedKey k) (applied_details p ended) of
       (Inr _, rc) \<Rightarrow> (cont, h'\<lparr> hub_receipts := rc \<rparr>)
     | (Inl x, rc) \<Rightarrow> (?look x, h'\<lparr> hub_receipts := rc \<rparr>)) = (q, h'')"
  obtain r rc where d: "set_receipt_details e (hub_receipts h') (ScopedKey k) (applied_details p ended) = (r, rc)"
    by (metis surj_pair)
  have h'': "h'' = h'\<lparr> hub_receipts := rc \<rparr>" using step d by (auto split: sum.splits)
  note hub = details_step [OF inv d, folded h'']
  have on: "hub_grows h h3" if "hub_grows h'' h3" for h3
    using that hub grows by (blast intro: hub_grows_trans)
  have after: "safe P cont h3" if "hub_grows h'' h3" for h3 using cont [OF on [OF that]] .
  have "safe P (?look x) h''" for x
    by (rule safe_act) (auto split: sum.splits if_splits simp: after err)
  with step d cont [OF on [OF hub_grows_refl]] hub
  show "(hub_inv h'' \<and> hub_grows h' h'') \<and> safe P q h''" by (auto split: sum.splits)
qed

lemma safe_invalidate_effects:
  assumes ann: "key_announced h key"
  shows "safe (kept key) (invalidate_effects p e auth body now ended prov (map_option fst key) applied) h"
  unfolding invalidate_effects_def
proof (rule safe_act)
  fix h' h'' :: hub and q assume grows: "hub_grows h h'" and inv: "hub_inv h'"
  let ?finish = "\<lambda>n applied. invalidate_finish p e auth body now ended (map_option fst key) n applied"
  assume step: "(case invalidate_with_provenance e (kp_date_text p) (ki_subject body) (ki_predicate body)
            (ki_object body) ended now (Some prov) (hub_kg h') of
       (Inl x, g) \<Rightarrow>
         ((case x of UnknownEntity n \<Rightarrow>
             if map_option fst key \<noteq> None then ?finish 0 applied else Respond (Inl (ServerGraph x))
           | GraphStorage y \<Rightarrow> Respond (Inl (ServerGraph x))), h'\<lparr> hub_kg := g \<rparr>)
     | (Inr n, g) \<Rightarrow>
         ((if 0 < n
           then (case map_option fst key of
                   None \<Rightarrow> invalidate_finish p e auth body now ended None n True
                 | Some k \<Rightarrow> mark_applied p e k ended (invalidate_finish p e auth body now ended (Some k) n True))
           else ?finish 0 applied), h'\<lparr> hub_kg := g \<rparr>)) = (q, h'')"
  obtain r g where g: "invalidate_with_provenance e (kp_date_text p) (ki_subject body) (ki_predicate body)
      (ki_object body) ended now (Some prov) (hub_kg h') = (r, g)" by (metis surj_pair)
  have h'': "h'' = h'\<lparr> hub_kg := g \<rparr>" using step g by (auto split: sum.splits)
  have ids: "kf_fact_id ` set (kg_facts g) = kf_fact_id ` set (kg_facts (hub_kg h'))"
    using invalidate_ids [OF g] by (metis list.set_map)
  have "kg_inv g" using invalidate_inv [OF _ g] inv by (simp add: hub_inv_def)
  with hub_graph_step [OF inv] ids h'' have hub: "hub_inv h'' \<and> hub_grows h' h''" by blast
  have ann2: "key_announced h3 key" if "hub_grows h'' h3" for h3
    using that ann grows hub by (blast intro: key_announced_grows hub_grows_trans)
  have finish: "safe (kept key) (?finish n b) h3" if "hub_grows h'' h3" for n b h3
    by (rule safe_finish [OF ann2 [OF that]])
  have mark: "safe (kept key) (case map_option fst key of
        None \<Rightarrow> invalidate_finish p e auth body now ended None n True
      | Some k \<Rightarrow> mark_applied p e k ended (invalidate_finish p e auth body now ended (Some k) n True)) h''" for n
  proof (cases key)
    case None
    with finish [OF hub_grows_refl, of n True] show ?thesis by simp
  next
    case (Some kh)
    obtain k hs where kh: "kh = (k, hs)" by (cases kh)
    have "announced h'' k hs" using ann2 [OF hub_grows_refl] Some kh by (simp add: key_announced_def)
    then have "safe (kept key) (mark_applied p e k ended (?finish n True)) h''"
      by (rule safe_mark) (simp_all add: finish)
    with Some kh show ?thesis by simp
  qed
  have "safe (kept key) q h''"
  proof (cases r)
    case (Inl x)
    with step g finish [OF hub_grows_refl] show ?thesis by (cases x) (auto split: if_splits)
  next
    case (Inr n)
    with step g finish [OF hub_grows_refl] mark show ?thesis by (cases "0 < n") auto
  qed
  with hub show "(hub_inv h'' \<and> hub_grows h' h'') \<and> safe (kept key) q h''" by blast
qed

lemma safe_route_add: "safe (kept (request_key (AddRequest p e clk auth body))) (route_kg_add p e clk auth body) h"
  unfolding route_kg_add_def
proof (intro safe_respond_or)
  fix valid_from prov operation
  assume op: "validated_operation (ka_operation_id body) auth = Inr operation"
  show "safe (kept (request_key (AddRequest p e clk auth body))) (case operation of
       None \<Rightarrow> add_effects p (clock_at e clk 4) auth body (clk 0) valid_from prov None
     | Some (op, key) \<Rightarrow>
         respond_or (receipt_provenance (clock_at e clk 2) auth key) (\<lambda>rp.
           let effects = add_effects p (clock_at e clk 4) auth body (clk 0) valid_from prov (Some key) in
           begin_gate (clock_at e clk 3)
             \<lparr> ni_operation_key = key, ni_operation_kind = lit ''kg_add'',
               ni_request_hash = add_request_hash e body,
               ni_target_id = canonical_kg_triple e (ka_subject body) (ka_predicate body) (ka_object body),
               ni_provenance = Some rp \<rparr>
             (add_conflict op) (\<lambda>_. effects) effects)) h"
  proof (cases operation)
    case None
    with op have "ka_operation_id body = None" by (auto dest: validated_operation_Inr)
    with None safe_add_effects [of h None] show ?thesis by (simp add: key_announced_def)
  next
    case (Some ok)
    obtain opn k where ok: "ok = (opn, k)" by (cases ok)
    with op Some have key: "ka_operation_id body = Some opn" "k = operation_key auth opn"
      by (auto dest: validated_operation_SomeD)
    let ?hs = "add_request_hash e body"
    have eff: "safe (kept (Some (k, ?hs))) (add_effects p (clock_at e clk 4) auth body (clk 0) valid_from prov (Some k)) h'"
      if "announced h' k ?hs" for h'
      using that safe_add_effects [of h' "Some (k, ?hs)"] by (simp add: key_announced_def)
    show ?thesis
      by (auto simp: Some ok key(1) key(2) [symmetric] Let_def intro!: safe_respond_or safe_begin_gate eff)
  qed
qed simp_all

lemma safe_pin:
  assumes ann: "announced h k hs" and cont: "\<And>h'. announced h' k hs \<Longrightarrow> safe P cont h'"
    and err: "\<And>x h'. P (Inl x) h'"
  shows "safe P (pin_ended p e k ended cont) h"
  unfolding pin_ended_def
proof (rule safe_act)
  fix h' h'' :: hub and q assume grows: "hub_grows h h'" and inv: "hub_inv h'"
    and step: "(case set_receipt_details e (hub_receipts h') (ScopedKey k)
            (JObject [(lit ''ended'', JString (kp_date_text p ended))]) of
       (Inl x, rc) \<Rightarrow> (Respond (Inl (ServerStorage x)), h'\<lparr> hub_receipts := rc \<rparr>)
     | (Inr _, rc) \<Rightarrow> (cont, h'\<lparr> hub_receipts := rc \<rparr>)) = (q, h'')"
  obtain r rc where d: "set_receipt_details e (hub_receipts h') (ScopedKey k)
      (JObject [(lit ''ended'', JString (kp_date_text p ended))]) = (r, rc)" by (metis surj_pair)
  have h'': "h'' = h'\<lparr> hub_receipts := rc \<rparr>" using step d by (auto split: sum.splits)
  note hub = details_step [OF inv d, folded h'']
  have "announced h'' k hs" using announced_ext [OF ann hub_grows_trans [OF grows]] hub by blast
  with step d hub cont err show "(hub_inv h'' \<and> hub_grows h' h'') \<and> safe P q h''"
    by (auto split: sum.splits)
qed

lemma safe_route_invalidate:
  "safe (kept (request_key (InvalidateRequest p e clk auth body))) (route_kg_invalidate p e clk auth body) h"
  unfolding route_kg_invalidate_def
proof (intro safe_respond_or)
  fix given prov operation
  assume op: "validated_operation (ki_operation_id body) auth = Inr operation"
  show "safe (kept (request_key (InvalidateRequest p e clk auth body)))
     (let ended = (case given of Some d \<Rightarrow> d | None \<Rightarrow> day_of (clk 0)) in
      case operation of
       None \<Rightarrow> invalidate_effects p (clock_at e clk 7) auth body (clk 1) ended prov None False
     | Some (op, key) \<Rightarrow> invalidate_keyed p e clk auth body ended prov op key) h"
  proof (cases operation)
    case None
    with op have "ki_operation_id body = None" by (auto dest: validated_operation_Inr)
    with None safe_invalidate_effects [of h None] show ?thesis by (simp add: key_announced_def Let_def)
  next
    case (Some ok)
    obtain opn k where ok: "ok = (opn, k)" by (cases ok)
    with op Some have key: "ki_operation_id body = Some opn" "k = operation_key auth opn"
      by (auto dest: validated_operation_SomeD)
    let ?hs = "invalidate_request_hash e body" and ?e = "clock_at e clk 7"
    have eff: "safe (kept (Some (k, ?hs))) (invalidate_effects p ?e auth body (clk 1) en prov (Some k) b) h'"
      if "announced h' k ?hs" for h' en b
      using that safe_invalidate_effects [of h' "Some (k, ?hs)"] by (simp add: key_announced_def)
    have "safe (kept (Some (k, ?hs))) (invalidate_keyed p e clk auth body ended prov opn k) h" for ended
      unfolding invalidate_keyed_def
      by (auto intro!: safe_respond_or safe_begin_gate safe_pin [where hs = ?hs] eff simp del: One_nat_def)
    then show ?thesis by (simp add: Some ok key(1) key(2) [symmetric] Let_def)
  qed
qed simp_all

lemma safe_handler: "safe (kept (request_key q)) (handler_of q) h"
  using safe_route_add safe_route_invalidate by (cases q) (simp_all only: handler_of.simps)

section \<open>The server\<close>

definition server_inv :: "server \<Rightarrow> bool" where
  "server_inv s \<longleftrightarrow> hub_inv (sv_hub s) \<and>
     (\<forall>fl \<in> set (sv_pool s). safe (kept (request_key (fl_request fl))) (fl_prog fl) (sv_hub s)) \<and>
     (\<forall>a \<in> set (sv_sent s). kept (request_key (fst a)) (snd a) (sv_hub s))"

definition server_extends :: "server \<Rightarrow> server \<Rightarrow> bool" where
  "server_extends s s' \<longleftrightarrow> hub_grows (sv_hub s) (sv_hub s') \<and> (\<exists>new. sv_sent s' = sv_sent s @ new)"

lemma set_remove_nth: "set (remove_nth i xs) \<subseteq> set xs"
  by (auto simp: remove_nth_def dest: in_set_takeD in_set_dropD)

text \<open>The other handlers and the sent answers stay as they are when the hub grows.\<close>

lemma server_inv_grows:
  assumes inv: "server_inv s" and hub: "hub_inv (sv_hub s')" "hub_grows (sv_hub s) (sv_hub s')"
    and pool: "\<And>fl. fl \<in> set (sv_pool s') \<Longrightarrow> fl \<in> set (sv_pool s) \<or>
       safe (kept (request_key (fl_request fl))) (fl_prog fl) (sv_hub s')"
    and sent: "sv_sent s' = sv_sent s @ new"
      "\<And>q r. (q, r) \<in> set new \<Longrightarrow> kept (request_key q) r (sv_hub s')"
  shows "server_inv s' \<and> server_extends s s'"
proof -
  have "safe (kept (request_key (fl_request fl))) (fl_prog fl) (sv_hub s')" if "fl \<in> set (sv_pool s')" for fl
    using pool [OF that] inv kept_ext [OF _ hub(2)] by (auto simp: server_inv_def)
  moreover have "kept (request_key (fst a)) (snd a) (sv_hub s')" if "a \<in> set (sv_sent s')" for a
  proof -
    from that sent(1) consider "a \<in> set (sv_sent s)" | "a \<in> set new" by auto
    then show ?thesis
    proof cases
      case 1
      with inv show ?thesis by (auto simp: server_inv_def intro: kept_ext_state [OF _ hub(2)])
    next
      case 2
      with sent(2) [of "fst a" "snd a"] show ?thesis by simp
    qed
  qed
  ultimately show ?thesis using hub sent(1) by (auto simp: server_inv_def server_extends_def)
qed

lemma server_inv_pool:
  assumes "server_inv s" and "sv_hub s' = sv_hub s" and "sv_sent s' = sv_sent s"
    and "\<And>fl. fl \<in> set (sv_pool s') \<Longrightarrow> fl \<in> set (sv_pool s) \<or>
       safe (kept (request_key (fl_request fl))) (fl_prog fl) (sv_hub s)"
  shows "server_inv s' \<and> server_extends s s'"
  by (rule server_inv_grows [where new = "[]"]) (use assms in \<open>auto simp: server_inv_def\<close>)

lemma run_handler_inv:
  assumes inv: "server_inv s" and i: "i < length (sv_pool s)"
  shows "server_inv (run_handler i (sv_pool s ! i) s) \<and> server_extends s (run_handler i (sv_pool s ! i) s)"
proof -
  let ?fl = "sv_pool s ! i" and ?key = "request_key (fl_request (sv_pool s ! i))"
  have hub: "hub_inv (sv_hub s)" using inv by (simp add: server_inv_def)
  have safe: "safe (kept ?key) (fl_prog ?fl) (sv_hub s)" using inv i by (simp add: server_inv_def)
  show ?thesis
  proof (cases "fl_prog ?fl")
    case (Respond r)
    then have run: "run_handler i ?fl s =
        s\<lparr> sv_pool := remove_nth i (sv_pool s), sv_sent := sv_sent s @ [(fl_request ?fl, r)] \<rparr>"
      by (simp add: run_handler_def)
    show ?thesis unfolding run
      by (rule server_inv_grows [OF inv, where new = "[(fl_request ?fl, r)]"])
        (use safe Respond hub set_remove_nth [THEN subsetD] in auto)
  next
    case (Act f k)
    then have act: "hub_inv (f (sv_hub s))" "hub_grows (sv_hub s) (f (sv_hub s))"
      "safe (kept ?key) (k (sv_hub s)) (f (sv_hub s))" using safe hub by simp_all
    have run: "run_handler i ?fl s = s\<lparr> sv_hub := f (sv_hub s),
        sv_pool := (sv_pool s)[i := ?fl\<lparr> fl_prog := k (sv_hub s) \<rparr>] \<rparr>"
      by (simp add: run_handler_def Act)
    show ?thesis unfolding run
      by (rule server_inv_grows [OF inv, where new = "[]"])
        (use act in \<open>auto dest!: set_update_subset_insert [THEN subsetD]\<close>)
  next
    case (WaitLock q)
    have "server_inv s' \<and> server_extends s s'"
      if "s' = s\<lparr> sv_pool := (sv_pool s)[i := ?fl\<lparr> fl_locked := True, fl_prog := q \<rparr>] \<rparr>" for s'
      by (rule server_inv_pool [OF inv])
        (use that safe WaitLock in \<open>auto dest!: set_update_subset_insert [THEN subsetD]\<close>)
    then show ?thesis using server_inv_pool [OF inv, of s] by (simp add: run_handler_def WaitLock)
  qed
qed

lemma server_exec_step:
  assumes inv: "server_inv s"
  shows "server_inv (server_exec c s) \<and> server_extends s (server_exec c s)"
proof (cases c)
  case (StartHandler q)
  show ?thesis by (rule server_inv_pool [OF inv]) (auto simp: StartHandler safe_handler)
next
  case (RunHandler i)
  with run_handler_inv [OF inv] server_inv_pool [OF inv, of s] show ?thesis by simp
next
  case (LoseHandler i)
  show ?thesis
    by (rule server_inv_pool [OF inv]) (use set_remove_nth [THEN subsetD] in \<open>auto simp: LoseHandler\<close>)
next
  case (LocalGraph e fmt k)
  have hub: "hub_inv (sv_hub s)" using inv by (simp add: server_inv_def)
  have "kg_inv (kg_exec e fmt k (hub_kg (sv_hub s)))" using kg_exec_inv hub by (simp add: hub_inv_def)
  note h = hub_graph_step [OF hub this kg_exec_ids]
  show ?thesis
    by (rule server_inv_grows [OF inv, where new = "[]"]) (use h in \<open>auto simp: LocalGraph\<close>)
qed

lemma server_init_inv: "server_inv server_init"
proof -
  have "hub_inv hub_empty"
    by (simp add: hub_inv_def hub_empty_def kg_inv_empty receipts_inv_def operations_once_def ledger_def)
  then show ?thesis by (simp add: server_inv_def server_init_def)
qed

interpretation hub_server: history_machine server_init server_exec server_inv server_extends
proof unfold_locales
  show "server_inv server_init" by (rule server_init_inv)
  show "server_inv s \<Longrightarrow> server_inv (server_exec c s)" for c s using server_exec_step by blast
  show "server_inv s \<Longrightarrow> server_extends s (server_exec c s)" for c s using server_exec_step by blast
  show "server_extends s s" for s by (simp add: server_extends_def)
  show "server_extends s t \<Longrightarrow> server_extends t u \<Longrightarrow> server_extends s u" for s t u
    unfolding server_extends_def using hub_grows_trans by (metis append.assoc)
qed

section \<open>Retries\<close>

lemma run_respond_or [simp]:
  "run_alone (respond_or r k) h = (case r of Inl x \<Rightarrow> (Inl x, h) | Inr v \<Rightarrow> run_alone (k v) h)"
  by (simp add: respond_or_def split: sum.splits)

lemma run_act [simp]: "run_alone (act g) h = (case g h of (q, h') \<Rightarrow> run_alone q h')"
  by (simp add: act_def split_def)

text \<open>Announcing a completed operation: only what is wrong with the announcement itself is an error.\<close>

lemma begin_completed:
  assumes inv: "receipts_inv db" and l: "ledger db (ni_operation_key i) = Some (hs, Some v)"
  shows "\<exists>r. begin_receipt e db i = (r, db) \<and>
     (case r of
        Inl x \<Rightarrow> fst (begin_receipt e [] i) = Inl x
      | Inr out \<Rightarrow> (if ni_request_hash i = hs then \<exists>m. out = Replay m \<and> mu_response m = Some v
                    else \<exists>k. out = KeyConflict k))"
proof -
  from l obtain row where wf: "wf_scoped_key (ni_operation_key i)"
    and f: "find_row (has_key (ni_operation_key i)) db = Some row"
    and row: "rc_request_hash row = hs" "rc_response row = Some v"
    by (auto simp: ledger_def split: if_splits)
  have st: "rc_status row = ReceiptCompleted" using receipts_inv_row [OF inv f] row by simp
  show ?thesis
    using receipt_by_key_wf [OF wf, of db] f row st
    by (auto simp: begin_receipt_def receipt_at_def split: try_tx_splits)
qed

definition replayed :: "rstr \<Rightarrow> rstr \<Rightarrow> json \<Rightarrow> prog \<Rightarrow> hub \<Rightarrow> bool" where
  "replayed hs hs0 v q h = (case run_alone q h of (r, h') \<Rightarrow> h' = h \<and>
     (case r of Inl x \<Rightarrow> hs \<noteq> hs0 \<or> fst (run_alone q hub_empty) = Inl x
      | Inr w \<Rightarrow> hs = hs0 \<and> w = v))"

lemma replayed_gate:
  assumes inv: "hub_inv h" and l: "ledger (hub_receipts h) (ni_operation_key i) = Some (hs0, Some v)"
  shows "replayed (ni_request_hash i) hs0 v (begin_gate e i conflict recover fresh) h"
proof -
  have rinv: "receipts_inv (hub_receipts h)" using inv by (simp add: hub_inv_def)
  obtain r where b: "begin_receipt e (hub_receipts h) i = (r, hub_receipts h)"
    and r: "case r of
        Inl x \<Rightarrow> fst (begin_receipt e [] i) = Inl x
      | Inr out \<Rightarrow> (if ni_request_hash i = hs0 then \<exists>m. out = Replay m \<and> mu_response m = Some v
                    else \<exists>k. out = KeyConflict k)"
    using begin_completed [OF rinv l, of e] by blast
  have same: "h\<lparr> hub_receipts := hub_receipts h \<rparr> = h" by simp
  show ?thesis
  proof (cases r)
    case (Inl x)
    then have e: "fst (begin_receipt e [] i) = Inl x" using r by simp
    obtain rc where "begin_receipt e [] i = (Inl x, rc)" using e by (metis prod.collapse)
    then have "fst (run_alone (begin_gate e i conflict recover fresh) hub_empty) = Inl (ServerStorage x)"
      by (simp add: begin_gate_def hub_empty_def)
    then show ?thesis by (simp add: replayed_def begin_gate_def b Inl)
  next
    case (Inr out)
    with r show ?thesis by (auto simp: replayed_def begin_gate_def b Inr split: if_splits)
  qed
qed

lemma replayed_respond_or:
  "(\<And>w. r = Inr w \<Longrightarrow> replayed hs hs0 v (k w) h) \<Longrightarrow> replayed hs hs0 v (respond_or r k) h"
  by (cases r) (simp_all add: respond_or_def, simp add: replayed_def)

lemma replayed_lock [simp]: "replayed hs hs0 v (WaitLock q) h = replayed hs hs0 v q h"
  by (simp only: replayed_def run_alone.simps)

lemma retry_replayed:
  assumes inv: "hub_inv h" and key: "request_key q = Some (k, hs)"
    and l: "ledger (hub_receipts h) k = Some (hs0, Some v)"
  shows "replayed hs hs0 v (handler_of q) h"
proof -
  have wf: "wf_scoped_key k" using l by (auto simp: ledger_def split: if_splits)
  have gate: "replayed hs hs0 v (begin_gate e \<lparr> ni_operation_key = k, ni_operation_kind = kind,
      ni_request_hash = hs, ni_target_id = target, ni_provenance = rp \<rparr> c recover fresh) h"
    for e kind target rp c recover fresh
    using replayed_gate [OF inv, of "\<lparr> ni_operation_key = k, ni_operation_kind = kind,
      ni_request_hash = hs, ni_target_id = target, ni_provenance = rp \<rparr>"] l by simp
  show ?thesis
  proof (cases q)
    case (AddRequest p e clk auth body)
    then obtain op where op: "validated_operation (ka_operation_id body) auth = Inr (Some (op, k))"
      and hs: "hs = add_request_hash e body"
      using key wf validated_operation_wf by auto
    show ?thesis unfolding AddRequest handler_of.simps route_kg_add_def
      by (intro replayed_respond_or) (use op gate in \<open>auto simp: Let_def hs intro!: replayed_respond_or\<close>)
  next
    case (InvalidateRequest p e clk auth body)
    then obtain op where op: "validated_operation (ki_operation_id body) auth = Inr (Some (op, k))"
      and hs: "hs = invalidate_request_hash e body"
      using key wf validated_operation_wf by auto
    show ?thesis unfolding InvalidateRequest handler_of.simps route_kg_invalidate_def
      by (intro replayed_respond_or)
        (use op gate in \<open>auto simp: Let_def hs invalidate_keyed_def intro!: replayed_respond_or\<close>)
  qed
qed

section \<open>Properties\<close>



text \<open>
  C19: Once an operation is completed, retrying it at any later time, whatever happened meanwhile, gives
  the recorded response and changes nothing; another request under its key is a conflict. The only
  other errors are those the retry would also get from an empty server.
\<close>

theorem server_retry_replays:
  "let s = run_calls server_exec steps server_init; s' = run_calls server_exec later s in
   case request_key q of None \<Rightarrow> True
   | Some (k, hs) \<Rightarrow>
       (case ledger (hub_receipts (sv_hub s)) k of
          Some (hs0, Some v) \<Rightarrow>
            (case run_alone (handler_of q) (sv_hub s') of
               (Inl x, h) \<Rightarrow> h = sv_hub s' \<and>
                 (if hs = hs0 then fst (run_alone (handler_of q) hub_empty) = Inl x else True)
             | (Inr w, h) \<Rightarrow> h = sv_hub s' \<and> hs = hs0 \<and> w = v)
        | _ \<Rightarrow> True)"
proof -
  let ?s = "run_calls server_exec steps server_init"
  let ?s' = "run_calls server_exec later ?s"
  have inv: "server_inv ?s" by (rule hub_server.reachable_inv)
  have inv': "hub_inv (sv_hub ?s')" using hub_server.run_inv [OF inv] by (auto simp: server_inv_def)
  have grows: "hub_grows (sv_hub ?s) (sv_hub ?s')"
    using hub_server.run_extends [OF inv] by (auto simp: server_extends_def)
  have "replayed hs hs0 v (handler_of q) (sv_hub ?s')"
    if "request_key q = Some (k, hs)" "ledger (hub_receipts (sv_hub ?s)) k = Some (hs0, Some v)" for k hs hs0 v
    by (rule retry_replayed [OF inv' that(1) ledger_ext [OF grows that(2)]])
  then show ?thesis
    by (auto simp: Let_def replayed_def split: option.splits sum.splits prod.splits)
qed

end
