(* ===== verification/Server_Kg_Crash.thy ===== *)
theory Server_Kg_Crash
  imports Server_Kg_Props Knowledge_Graph_Props Samples
begin

text \<open>
  A crash at the one place where the handlers of keyed invalidations cannot recover: between the graph
  effect and the marker in the receipt, which share no transaction. The run is given step by step on concrete inputs.
\<close>

section \<open>The request and what it evaluates to\<close>

definition sample_server_env :: env where
  "sample_server_env = (sample_env 0 0)\<lparr> env_blake3_json := (\<lambda>_. [104]) \<rparr>"

definition sample_kg_params :: kg_params where
  "sample_kg_params = \<lparr> kp_date_text = show_int, kp_parse_rfc3339 = (\<lambda>_. None),
     kp_parse_day = (\<lambda>_. Some 20), kp_json_text = (\<lambda>_. []) \<rparr>"

definition sample_auth :: auth_identity where
  "sample_auth = \<lparr> au_name = lit ''t'', au_owner = None \<rparr>"


definition sample_end_body :: kg_invalidate_request where
  "sample_end_body = \<lparr> ki_subject = lit ''Ada'', ki_predicate = lit ''leads'', ki_object = lit ''Apollo'',
       ki_ended = Some (lit ''20''), ki_operation_id = Some (lit ''op'') \<rparr>"

definition sample_key :: owner_scoped_key where "sample_key = \<lparr> osk_owner = None, osk_raw = lit ''op'' \<rparr>"

definition sample_invalidation :: persisted_provenance where
  "sample_invalidation = projr (invalidation_provenance sample_server_env int 2 sample_auth)"

definition sample_graph :: kg_db where
  "sample_graph = kg_exec sample_server_env show_int (KgAdd sample_fact 1000 (Some sample_invalidation)) kg_empty"

lemma sample_graph_fact: "\<exists>f. kg_facts sample_graph = [f] \<and> kf_valid_from f = Some 10 \<and> kf_valid_to f = None \<and> kf_provenance f = Some sample_invalidation \<and> 
   (\<exists>s ob. resolve_entity_id sample_graph (lit ''Ada'') = Inr s \<and> resolve_entity_id sample_graph (lit ''Apollo'') = Inr ob \<and> is_triple s (canonicalize_label (lit ''leads'')) ob f)"
  by (simp add: kg_eval sample_graph_def)

lemma request_parts: "validate_kg_field f (lit ''Ada'') = Inr ()" "validate_kg_field f (lit ''leads'') = Inr ()"
  "validate_kg_field f (lit ''Apollo'') = Inr ()"
  "parse_opt_date sample_kg_params (Some t) = Inr (Some 20)"
  by (simp_all add: validate_kg_field_def MAX_KG_FIELD_BYTES_def text_defs parse_opt_date_def parse_date_def sample_kg_params_def)

lemma sample_key_wf: "wf_scoped_key sample_key"
  by (simp add: wf_scoped_key_def sample_key_def text_defs char_defs MAX_OPERATION_ID_CHARS_def)

lemma sample_key_ok: "validate_scoped_key sample_key = Inr ()"
  "validated_operation (Some (lit ''op'')) sample_auth = Inr (Some (lit ''op'', sample_key))"
proof -
  have "new_scoped_key None (lit ''op'') = Inr sample_key"
    using sample_key_wf by (simp add: new_scoped_key_ok) (simp add: sample_key_def text_defs char_defs)
  then show "validated_operation (Some (lit ''op'')) sample_auth = Inr (Some (lit ''op'', sample_key))"
    by (simp add: validated_operation_def auth_scoped_key_def sample_auth_def)
qed (simp add: validate_scoped_key_ok sample_key_wf)

lemma sample_invalidation_ok: "invalidation_provenance sample_server_env int 2 sample_auth = Inr sample_invalidation"
proof -
  have "isl (invalidation_provenance sample_server_env int 2 sample_auth) = False" by code_simp
  then show ?thesis by (cases "invalidation_provenance sample_server_env int 2 sample_auth") (simp_all add: sample_invalidation_def)
qed

definition sample_envelope :: provenance_envelope where
  "sample_envelope = \<lparr>pe_owner = OwnerUnknown, pe_actor = None, pe_recorded_at = 4, pe_origin = local_default,
     pe_operation_id = Some sample_key, pe_source_author = None, pe_source_refs = []\<rparr>"

lemma sample_scope_ok: "check_owner_scope \<lparr>pe_owner = OwnerUnknown, pe_actor = a, pe_recorded_at = t, pe_origin = local_default,
     pe_operation_id = op, pe_source_author = None, pe_source_refs = []\<rparr> sample_key = Inr ()"
  "check_owner_scope (new_envelope OwnerUnknown t og) sample_key = Inr ()"
  by (simp_all add: check_owner_scope_def sample_key_def new_envelope_def)

lemma sample_envelope_ok: "receipt_provenance (clock_at sample_server_env int 4) sample_auth sample_key = Inr sample_envelope"
  by (simp add: receipt_provenance_def recording_now_def clock_at_def sample_server_env_def sample_env_def sample_auth_def owner_identity_of_def 
    validate_recording_time_def Let_def with_operation_key_def sample_key_ok sample_scope_ok sample_envelope_def new_envelope_def)

lemma local_origin_ok: "validate_storage_origin local_default = Inr ()"
  by code_simp

lemma sample_envelope_valid: "validate_provenance_scope (clock_at sample_server_env int 5) (Some sample_envelope) sample_key = Inr ()"
  by (simp add: validate_provenance_scope_def sample_envelope_def validate_envelope_def clock_at_def
     sample_server_env_def sample_env_def validate_recording_time_def Let_def sample_key_ok sample_scope_ok validate_opt_def
     local_origin_ok MAX_SOURCE_REFS_def)

lemma sample_bounds: "receipt_bounded (lit ''kg_invalidate'') f = Inr ()" "receipt_bounded [104] f = Inr ()"
    by (simp_all add: receipt_bounded_def receipt_nonempty_def text_defs char_defs RECEIPT_MAX_IDENTIFIER_BYTES_def)

lemma trim_nonempty: "\<not> is_whitespace c \<Longrightarrow> trim (c # s) \<noteq> []"
  by (simp add: trim_def trim_start_def trim_end_def)

lemma sample_target: "receipt_nonempty (lit ''kg:'' @ s) f = Inr ()"
  using trim_nonempty [of 107 "lit ''g:'' @ s"] by (simp add: receipt_nonempty_def lit_def char_defs)

definition sample_announcement :: new_receipt where
  "sample_announcement = \<lparr> ni_operation_key = sample_key, ni_operation_kind = lit ''kg_invalidate'',
     ni_request_hash = [104],
     ni_target_id = canonical_kg_triple sample_server_env (lit ''Ada'') (lit ''leads'') (lit ''Apollo''),
     ni_provenance = Some sample_envelope \<rparr>"

definition sample_row :: receipt_row where
  "sample_row = fresh_row (clock_at sample_server_env int 5) sample_announcement"

lemma sample_row_sel: "has_key sample_key sample_row" "rc_status sample_row = ReceiptPending" "rc_request_hash sample_row = [104]"
  by (simp_all add: sample_row_def fresh_row_def has_key_def sample_announcement_def)

lemma sample_format: "format_time (clock_at sample_server_env int n) t = Inr t"
  by (simp add: format_time_def clock_at_def sample_server_env_def sample_env_def)

lemma sample_now: "env_now (clock_at sample_server_env int n) = int n"
  by (simp add: clock_at_def)

lemma sample_announcement_sel: "ni_operation_key sample_announcement = sample_key" "ni_request_hash sample_announcement = [104]"
  "ni_provenance sample_announcement = Some sample_envelope"
  "ni_operation_kind sample_announcement = lit ''kg_invalidate''"
  "receipt_nonempty (ni_target_id sample_announcement) f = Inr ()"
  by (simp_all add: sample_announcement_def sample_target canonical_kg_triple_def)

lemmas announce_eval = sample_announcement_sel sample_key_ok(1) sample_envelope_valid sample_bounds receipt_by_key_wf [OF sample_key_wf] sample_format sample_now

lemma announce_first: "begin_receipt (clock_at sample_server_env int 5) [] sample_announcement =
  (Inr (Fresh (receipt_at sample_key sample_row)), [sample_row])"
proof -
  have "find_row (\<lambda>q. rc_owner_scope q = s \<and> rc_operation_id q = i) [] = None" for s i by simp
  have "insert_receipt sample_row [] = Inr [sample_row]" by (simp add: insert_receipt_def)
  then have "insert_receipt \<lparr>rc_owner_scope = owner_scope sample_key, rc_operation_id = osk_raw sample_key,
     rc_operation_kind = lit ''kg_invalidate'', rc_request_hash = [104], rc_target_id = ni_target_id sample_announcement,
     rc_status = ReceiptPending, rc_response = None, rc_details = None, rc_provenance = Some sample_envelope,
     rc_created_at = 5, rc_completed_at = None\<rparr> [] = Inr [sample_row]"
    by (simp add: sample_row_def fresh_row_def sample_announcement_sel sample_now)
  then show ?thesis
    using sample_row_sel(1)
    by (simp add: begin_receipt_def announce_eval)
qed

lemma announce_again: "has_key sample_key r \<Longrightarrow> rc_status r = ReceiptPending \<Longrightarrow> rc_request_hash r = [104] \<Longrightarrow>
  begin_receipt (clock_at sample_server_env int 5) [r] sample_announcement = (Inr (Recover (receipt_at sample_key r)), [r])"
    by (simp add: begin_receipt_def announce_eval receipt_at_def)

lemma sample_receipt_key: "into_receipt_key (ScopedKey sample_key) = Inr sample_key" by (simp add: sample_key_ok)

lemma sample_json_len: "\<not> env_json_len (clock_at sample_server_env int n) j > MAX_RESPONSE_BYTES"
  by (simp add: clock_at_def sample_server_env_def sample_env_def MAX_RESPONSE_BYTES_def)

lemma sample_details: "has_key sample_key r \<Longrightarrow> rc_status r = ReceiptPending \<Longrightarrow> 
  set_receipt_details (clock_at sample_server_env int n) [r] (ScopedKey sample_key) d = (Inr (), [r\<lparr>rc_details := Some d\<rparr>])"
  using sample_json_len by (simp add: set_receipt_details_def sample_receipt_key receipt_by_key_wf [OF sample_key_wf] receipt_at_def update_rows_def del: into_receipt_key.simps)

lemma sample_complete: "has_key sample_key r \<Longrightarrow> rc_status r = ReceiptPending \<Longrightarrow> 
  complete_receipt (clock_at sample_server_env int n) [r] (ScopedKey sample_key) d = (Inr (), [r\<lparr>rc_status := ReceiptCompleted, rc_response := Some d, rc_completed_at := Some (int n)\<rparr>])"
  using sample_json_len by (simp add: complete_receipt_def sample_receipt_key receipt_by_key_wf [OF sample_key_wf] receipt_at_def update_rows_def sample_format sample_now del: into_receipt_key.simps)

lemma sample_day_text: "show_int 20 = lit ''20''"
  by code_simp

definition ended_graph :: kg_db where
  "ended_graph = sample_graph\<lparr> kg_facts := map (end_fact 20 1 (Some sample_invalidation)) (kg_facts sample_graph) \<rparr>"

lemma sample_merged: "merged_provenance e (Some sample_invalidation) (Some sample_invalidation) = Inr (Some sample_invalidation)"
  by (simp add: merged_provenance_def)

lemma sample_inv: "kg_inv sample_graph"
  unfolding sample_graph_def by (rule kg_exec_inv [OF kg_inv_empty])

lemma graph_first: "invalidate_with_provenance e show_int (lit ''Ada'') (lit ''leads'') (lit ''Apollo'') 20 1
   (Some sample_invalidation) sample_graph = (Inr 1, ended_graph)"
proof -
  from sample_graph_fact obtain f s ob where f: "kg_facts sample_graph = [f]" "kf_valid_from f = Some 10" "kf_valid_to f = None"
     "kf_provenance f = Some sample_invalidation"
     and r: "resolve_entity_id sample_graph (lit ''Ada'') = Inr s" "resolve_entity_id sample_graph (lit ''Apollo'') = Inr ob"
     and t: "is_triple s (canonicalize_label (lit ''leads'')) ob f" by blast
  have "endable show_int s (canonicalize_label (lit ''leads'')) ob 20 f"
    using f t show_days by (simp add: endable_def)
  then show ?thesis
    by (simp add: invalidate_with_provenance_def r invalidate_one [OF sample_inv] f sample_merged ended_graph_def update_rows_def)
qed

lemma graph_again: "invalidate_with_provenance e show_int (lit ''Ada'') (lit ''leads'') (lit ''Apollo'') 20 1
   (Some sample_invalidation) ended_graph = (Inr 0, ended_graph)"
proof -
  from sample_graph_fact obtain s ob where r: "resolve_entity_id sample_graph (lit ''Ada'') = Inr s" "resolve_entity_id sample_graph (lit ''Apollo'') = Inr ob" by blast
  have "list_entities ended_graph = list_entities sample_graph" by (simp add: ended_graph_def list_entities_def)
  then have "resolve_entity_id ended_graph n = resolve_entity_id sample_graph n" for n
    by (simp only: resolve_entity_id_def find_registered_entity_def)
  moreover have "filter (endable show_int s p ob 20) (kg_facts ended_graph) = []" for p
    by (simp add: ended_graph_def endable_def end_fact_def)
  ultimately show ?thesis using r
    by (simp add: invalidate_with_provenance_def invalidate_active_fact_with_provenance_def)
qed

definition sample_request :: kg_request where
  "sample_request = InvalidateRequest sample_kg_params sample_server_env int sample_auth sample_end_body"

section \<open>The steps\<close>

definition in_flight :: "hub \<Rightarrow> bool \<Rightarrow> prog \<Rightarrow> (kg_request \<times> (server_error + json)) list \<Rightarrow> server" where
  "in_flight h locked q sent = \<lparr> sv_hub = h, sv_pool = [\<lparr> fl_request = sample_request, fl_locked = locked, fl_prog = q \<rparr>],
     sv_sent = sent \<rparr>"

definition idle :: "hub \<Rightarrow> (kg_request \<times> (server_error + json)) list \<Rightarrow> server" where
  "idle h sent = \<lparr> sv_hub = h, sv_pool = [], sv_sent = sent \<rparr>"

lemma solo:
  "server_exec (StartHandler sample_request) (idle h sent) = in_flight h False (handler_of sample_request) sent"
  "server_exec (RunHandler 0) (in_flight h False (WaitLock q) sent) = in_flight h True q sent"
  "server_exec (RunHandler 0) (in_flight h l (act g) sent) = in_flight (snd (g h)) l (fst (g h)) sent"
  "server_exec (RunHandler 0) (in_flight h l (Respond r) sent) = idle h (sent @ [(sample_request, r)])"
  "server_exec (LoseHandler 0) (in_flight h l q sent) = idle h sent"
  by (simp_all add: in_flight_def idle_def run_handler_def act_def remove_nth_def)

definition sample_effects :: "bool \<Rightarrow> prog" where
  "sample_effects applied = invalidate_effects sample_kg_params (clock_at sample_server_env int 7) sample_auth sample_end_body 1 20
     sample_invalidation (Some sample_key) applied"


lemma sample_body_sel: "ki_subject sample_end_body = lit ''Ada''" "ki_predicate sample_end_body = lit ''leads''"
  "ki_object sample_end_body = lit ''Apollo''" "ki_ended sample_end_body = Some (lit ''20'')"
  "ki_operation_id sample_end_body = Some (lit ''op'')"
  by (simp_all add: sample_end_body_def)

lemma sample_hash: "invalidate_request_hash sample_server_env sample_end_body = [104]"
  by (simp add: invalidate_request_hash_def mutation_request_hash_def sample_server_env_def)

lemma respond_or_Inr: "respond_or (Inr v) k = k v" by (simp add: respond_or_def)

definition sample_recover :: "mutation_receipt \<Rightarrow> prog" where
  "sample_recover m = respond_or (recover_ended sample_kg_params m 20) (\<lambda>ended.
            invalidate_effects sample_kg_params (clock_at sample_server_env int 7) sample_auth sample_end_body 1 ended sample_invalidation (Some sample_key) (recover_applied m))"

definition sample_gate :: prog where "sample_gate = begin_gate (clock_at sample_server_env int 5) sample_announcement
   (invalidate_conflict (lit ''op'')) sample_recover
    (pin_ended sample_kg_params (clock_at sample_server_env int 6) sample_key 20 (sample_effects False))"

lemma sample_handler: "handler_of sample_request = WaitLock sample_gate"
  by (simp add: sample_request_def route_kg_invalidate_def sample_body_sel request_parts sample_invalidation_ok sample_key_ok Let_def invalidate_keyed_def sample_envelope_ok
    sample_gate_def sample_effects_def sample_announcement_def respond_or_Inr sample_hash sample_recover_def [abs_def])

definition hub0 :: hub where "hub0 = \<lparr> hub_kg = sample_graph, hub_receipts = [], hub_log = [] \<rparr>"

definition pinned_row :: receipt_row where
  "pinned_row = sample_row\<lparr> rc_details := Some (JObject [(lit ''ended'', JString (lit ''20''))]) \<rparr>"

definition hub1 :: hub where "hub1 = \<lparr> hub_kg = sample_graph, hub_receipts = [sample_row], hub_log = [] \<rparr>"

definition hub2 :: hub where "hub2 = \<lparr> hub_kg = sample_graph, hub_receipts = [pinned_row], hub_log = [] \<rparr>"

definition hub3 :: hub where "hub3 = \<lparr> hub_kg = ended_graph, hub_receipts = [pinned_row], hub_log = [] \<rparr>"

lemma run_announce: "server_exec (RunHandler 0) (in_flight hub0 l sample_gate sent) =
   in_flight hub1 l (pin_ended sample_kg_params (clock_at sample_server_env int 6) sample_key 20 (sample_effects False)) sent"
  by (simp add: sample_gate_def begin_gate_def solo hub0_def hub1_def announce_first del: server_exec.simps)

lemma run_pin: "server_exec (RunHandler 0) (in_flight hub1 l (pin_ended sample_kg_params (clock_at sample_server_env int 6) sample_key 20 c) sent) =
   in_flight hub2 l c sent"
  by (simp add: pin_ended_def solo hub1_def hub2_def sample_details sample_row_sel pinned_row_def sample_kg_params_def sample_day_text del: server_exec.simps)

lemma sample_params_sel: "kp_date_text sample_kg_params = show_int" by (simp add: sample_kg_params_def)

lemma run_end: "\<exists>q. server_exec (RunHandler 0) (in_flight hub2 l (sample_effects False) sent) = in_flight hub3 l q sent"
  by (simp add: sample_effects_def invalidate_effects_def solo hub2_def hub3_def sample_body_sel sample_params_sel graph_first del: server_exec.simps) blast

lemma run_announce_again: "server_exec (RunHandler 0) (in_flight hub3 l sample_gate sent) = in_flight hub3 l (sample_effects False) sent"
proof -
  have r: "sample_recover (receipt_at sample_key pinned_row) = sample_effects False"
    by (simp add: sample_recover_def recover_ended_def recover_applied_def receipt_at_def pinned_row_def parse_date_def sample_kg_params_def lit_def
       respond_or_Inr sample_effects_def)
  have "has_key sample_key pinned_row" "rc_status pinned_row = ReceiptPending" "rc_request_hash pinned_row = [104]"
    using sample_row_sel by (simp_all add: pinned_row_def has_key_def)
  then show ?thesis by (simp add: sample_gate_def begin_gate_def solo hub3_def announce_again r del: server_exec.simps)
qed

definition sample_response :: json where "sample_response = invalidated_response sample_kg_params sample_end_body True 0 20"

lemma run_end_again: "server_exec (RunHandler 0) (in_flight hub3 l (sample_effects False) sent) =
  in_flight hub3 l (complete_with (clock_at sample_server_env int 7) sample_key sample_response) sent"
  by (simp add: sample_effects_def invalidate_effects_def solo hub3_def sample_body_sel sample_params_sel graph_again invalidate_finish_def Let_def sample_response_def del: server_exec.simps)

definition hub4 :: hub where
  "hub4 = hub3\<lparr> hub_receipts := [pinned_row\<lparr> rc_status := ReceiptCompleted, rc_response := Some sample_response,
     rc_completed_at := Some 7 \<rparr>] \<rparr>"

lemma run_complete:
  "server_exec (RunHandler 0)
     (in_flight hub3 l (complete_with (clock_at sample_server_env int 7) sample_key sample_response) sent) =
   in_flight hub4 l (Respond (Inr sample_response)) sent"
proof -
  have "has_key sample_key pinned_row" "rc_status pinned_row = ReceiptPending"
    using sample_row_sel by (simp_all add: pinned_row_def has_key_def)
  then show ?thesis by (simp add: complete_with_def solo hub3_def hub4_def sample_complete del: server_exec.simps)
qed

section \<open>The run\<close>

definition lost_event_steps :: "server_step list" where
  "lost_event_steps =
     [LocalGraph sample_server_env show_int (KgAdd sample_fact 1000 (Some sample_invalidation)),
      StartHandler sample_request, RunHandler 0, RunHandler 0, RunHandler 0, RunHandler 0, LoseHandler 0,
      StartHandler sample_request, RunHandler 0, RunHandler 0, RunHandler 0, RunHandler 0, RunHandler 0]"

text \<open>
  A keyed invalidation that is lost after it ended the fact and before it marked its receipt loses
  its event: the retry finds nothing left to end and no marker, answers with success, completes the
  receipt and logs nothing. The fact is ended and the change log is empty.
\<close>

theorem invalidation_event_lost:
  "let s = run_calls server_exec lost_event_steps server_init; h = sv_hub s in
   map kf_valid_to (kg_facts (hub_kg h)) = [Some 20] \<and> hub_log h = [] \<and>
   map rc_status (hub_receipts h) = [ReceiptCompleted] \<and>
   (\<exists>v. sv_sent s = [(sample_request, Inr v)] \<and> json_get v (lit ''success'') = Some (JBool True))"
proof -
  have start: "server_exec (LocalGraph sample_server_env show_int (KgAdd sample_fact 1000 (Some sample_invalidation)))
      server_init = idle hub0 []"
    by (simp add: server_init_def hub_empty_def idle_def hub0_def sample_graph_def)
  obtain q where q: "server_exec (RunHandler 0) (in_flight hub2 True (sample_effects False) []) = in_flight hub3 True q []"
    using run_end by blast
  have "run_calls server_exec lost_event_steps server_init = idle hub4 [(sample_request, Inr sample_response)]"
    by (simp add: lost_event_steps_def start solo sample_handler run_announce run_pin q run_announce_again
        run_end_again run_complete del: server_exec.simps)
  moreover have "map kf_valid_to (kg_facts ended_graph) = [Some 20]"
    using sample_graph_fact by (auto simp: ended_graph_def end_fact_def)
  moreover have "json_get sample_response (lit ''success'') = Some (JBool True)"
    by (simp add: sample_response_def invalidated_response_def lit_def)
  ultimately show ?thesis by (simp add: idle_def hub4_def hub3_def)
qed

end
