(* ===== verification/Replication.thy ===== *)
theory Replication
  imports Outbox_Inv Coordination_Feeds Server_Kg_Props
begin

text \<open>
  The replication worker (\<open>crates/agentpalace-mcp/src/replication.rs\<close>) and the classification of remote
  errors (\<open>crates/agentpalace-remote/src/error.rs\<close>). The worker claims one operation of the outbox at a
  time, sends its mutation to the remote under the operation's identifier, and records the outcome.
  What the remote answers is the record \<open>remote_api\<close>, one field per call the worker makes; decoding a
  stored payload is serde's and an argument (\<open>decode\<close>).
\<close>

section \<open>Errors of a remote\<close>

datatype remote_error =
  Unreachable rstr rstr                          \<comment> \<open>remote, message\<close>
| Unauthorized rstr "rstr option"
| AuthenticationRequired rstr rstr "rstr option"
| CredentialStore rstr rstr rstr
| VersionSkew rstr nat nat
| RemoteRejected rstr nat rstr                   \<comment> \<open>remote, status, body\<close>
| InvalidResponse rstr rstr
| InvalidConfig rstr rstr
| CapabilityMissing rstr rstr
| UnknownOutcome rstr rstr

definition quoted :: "rstr \<Rightarrow> rstr" where
  "quoted s = lit ''remote `'' @ s @ lit ''`''"

fun remote_error_text :: "remote_error \<Rightarrow> rstr" where
  "remote_error_text (Unreachable r m) = quoted r @ lit '' is unreachable: '' @ m"
| "remote_error_text (Unauthorized r _) = quoted r @ lit '' rejected credentials (HTTP 401)''"
| "remote_error_text (AuthenticationRequired r a _) = quoted r @ lit '' requires authentication: '' @ a"
| "remote_error_text (CredentialStore r k m) = quoted r @ lit '' credential store '' @ k @ lit '': '' @ m"
| "remote_error_text (VersionSkew r ours theirs) =
     quoted r @ lit '' speaks federation api v'' @ show_nat theirs @ lit '', this client speaks v'' @ show_nat ours"
| "remote_error_text (RemoteRejected r s b) =
     quoted r @ lit '' rejected the request: HTTP '' @ show_nat s @ lit '': '' @ b"
| "remote_error_text (InvalidResponse r m) = quoted r @ lit '' returned a malformed response: '' @ m"
| "remote_error_text (InvalidConfig r m) = lit ''invalid configuration for '' @ quoted r @ lit '': '' @ m"
| "remote_error_text (CapabilityMissing r c) =
     quoted r @ lit '' does not support the `'' @ c @ lit ''` capability''"
| "remote_error_text (UnknownOutcome r m) = quoted r @ lit '' outcome could not be confirmed: '' @ m"

definition is_transient_http_status :: "nat \<Rightarrow> bool" where
  "is_transient_http_status s = (s = 408 \<or> s = 425 \<or> s = 429 \<or> (500 \<le> s \<and> s \<le> 599))"

fun is_retryable :: "remote_error \<Rightarrow> bool" where
  "is_retryable (Unreachable _ _) = True"
| "is_retryable (UnknownOutcome _ _) = True"
| "is_retryable (RemoteRejected _ s _) = is_transient_http_status s"
| "is_retryable _ = False"

fun is_degradable :: "remote_error \<Rightarrow> bool" where
  "is_degradable (Unreachable _ _) = True"
| "is_degradable _ = False"

section \<open>Mutations\<close>

record ingest_request =
  ir_paths :: "rstr list"                        \<comment> \<open>\<open>relative_path\<close> of the files\<close>
  ir_rest :: json

record ingest_file_result =
  if_relative_path :: rstr
  if_status :: rstr
  if_error :: "rstr option"

record add_drawer_request =
  dr_operation_id :: "rstr option"
  dr_rest :: json

datatype replication_mutation =
  IngestFile ingest_request
| DrawerAdd add_drawer_request
| DrawerDelete rstr
| KgAddMutation kg_add_request "rstr option"     \<comment> \<open>the request and its \<open>source_closet\<close>\<close>
| KgInvalidateMutation kg_invalidate_request

record remote_api =
  ra_info :: "remote_error + rstr list"          \<comment> \<open>the advertised capabilities\<close>
  ra_ingest_batch :: "ingest_request \<Rightarrow> remote_error + ingest_file_result list"
  ra_add_drawer :: "add_drawer_request \<Rightarrow> remote_error + bool"   \<comment> \<open>\<open>success\<close>\<close>
  ra_delete_drawer :: "rstr \<Rightarrow> rstr option \<Rightarrow> remote_error + unit"
  ra_kg_add_fact :: "kg_add_request \<Rightarrow> remote_error + json"
  ra_kg_invalidate :: "kg_invalidate_request \<Rightarrow> remote_error + json"

section \<open>Delivery\<close>

definition ingest_outcome :: "rstr \<Rightarrow> ingest_request \<Rightarrow> ingest_file_result list \<Rightarrow> remote_error + unit" where
  "ingest_outcome remote request files =
     (case (files, ir_paths request) of
        ([file], path # _) \<Rightarrow>
          if path \<noteq> if_relative_path file
          then Inl (UnknownOutcome remote (lit ''ingest response did not identify exactly one requested file''))
          else if if_status file \<in> {lit ''ingested'', lit ''skipped_unchanged'', lit ''removed''} then Inr ()
          else if if_status file = lit ''failed''
          then Inl (InvalidConfig remote (case if_error file of Some m \<Rightarrow> m | None \<Rightarrow> lit ''file rejected''))
          else Inl (UnknownOutcome remote
            (case if_error file of Some m \<Rightarrow> m | None \<Rightarrow> lit ''file outcome unknown''))
      | _ \<Rightarrow> Inl (UnknownOutcome remote (lit ''ingest response did not identify exactly one requested file'')))"

definition forget :: "remote_error + 'a \<Rightarrow> remote_error + unit" where
  "forget r = bindE r (\<lambda>_. Inr ())"

definition deliver ::
  "(json \<Rightarrow> rstr + replication_mutation) \<Rightarrow> remote_api \<Rightarrow> outbox_operation \<Rightarrow> remote_error + unit" where
  "deliver decode api op =
     (let remote = ob_destination_remote op; i = Some (ob_operation_id op) in
      bindE (ra_info api) (\<lambda>capabilities.
      if lit ''idempotent_mutations'' \<notin> set capabilities
      then Inl (CapabilityMissing remote (lit ''idempotent_mutations''))
      else
      bindE (mapE (\<lambda>x. InvalidConfig remote (lit ''invalid durable replication payload: '' @ x))
               (decode (ob_payload op))) (\<lambda>mutation.
      case mutation of
        IngestFile request \<Rightarrow>
          if lit ''resumable_ingest'' \<notin> set capabilities
          then Inl (CapabilityMissing remote (lit ''resumable_ingest''))
          else bindE (ra_ingest_batch api request) (ingest_outcome remote request)
      | DrawerAdd request \<Rightarrow>
          bindE (ra_add_drawer api (request\<lparr> dr_operation_id := i \<rparr>)) (\<lambda>success.
            if success then Inr ()
            else Inl (InvalidResponse remote (lit ''drawer add returned success=false'')))
      | DrawerDelete drawer \<Rightarrow> ra_delete_drawer api drawer i
      | KgAddMutation request _ \<Rightarrow> forget (ra_kg_add_fact api (request\<lparr> ka_operation_id := i \<rparr>))
      | KgInvalidateMutation request \<Rightarrow> forget (ra_kg_invalidate api (request\<lparr> ki_operation_id := i \<rparr>)))))"

section \<open>Back-off and recorded errors\<close>

definition MAX_BACKOFF_SECONDS :: int where "MAX_BACKOFF_SECONDS = 300"

text \<open>\<open>h16\<close> are the first two bytes of the BLAKE3 hash of a text; the result is in nanoseconds.\<close>

definition retry_backoff :: "(rstr \<Rightarrow> nat) \<Rightarrow> outbox_operation \<Rightarrow> int" where
  "retry_backoff h16 op =
     (let exponent = nat (max 0 (min 8 (ob_attempt_count op)));
          base = (if exponent < 64 then 2 ^ exponent else MAX_BACKOFF_SECONDS);
          capped = min base MAX_BACKOFF_SECONDS;
          jitter_millis = int (h16 (ob_operation_id op @ lit '':'' @ show_int (ob_attempt_count op)) mod 1000)
      in capped * 1000000000 + jitter_millis * 1000000)"

definition bounded_remote_error :: "remote_error \<Rightarrow> rstr" where
  "bounded_remote_error x =
     (let message = remote_error_text x in
      if str_len message > 1024 then utf8_prefix 1024 message else message)"

section \<open>The worker\<close>

definition WORKER_ID :: rstr where "WORKER_ID = lit ''mcp-replication-worker''"
definition LEASE_TTL :: int where "LEASE_TTL = 30000000000"

definition claim_one ::
  "(int \<Rightarrow> int) \<Rightarrow> env \<Rightarrow> env \<Rightarrow> outbox \<Rightarrow> rstr \<Rightarrow> (storage_error + outbox_operation option) \<times> outbox" where
  "claim_one jd e1 e2 db remote =
     (case reclaim_expired_lease jd e1 db (Some remote) WORKER_ID LEASE_TTL of
        (Inl x, db1) \<Rightarrow> (Inl x, db1)
      | (Inr (Some op), db1) \<Rightarrow> (Inr (Some op), db1)
      | (Inr None, db1) \<Rightarrow> claim_next e2 db1 remote WORKER_ID LEASE_TTL)"

text \<open>What \<open>deliver_claimed\<close> does with the result of a delivery; it ignores whether the outbox takes it.\<close>

definition settle ::
  "(rstr \<Rightarrow> nat) \<Rightarrow> env \<Rightarrow> int \<Rightarrow> outbox_operation \<Rightarrow> remote_error + unit \<Rightarrow> outbox \<Rightarrow>
   (storage_error + outbox_operation revisioned_write) \<times> outbox" where
  "settle h16 e now op result db =
     (case result of
        Inr _ \<Rightarrow> acknowledge e db (ob_operation_id op) WORKER_ID (ob_revision op)
      | Inl x \<Rightarrow>
          if is_retryable x
          then schedule_retry e db (ob_operation_id op) WORKER_ID (ob_revision op) (bounded_remote_error x)
                 (now + retry_backoff h16 op)
          else fail e db (ob_operation_id op) WORKER_ID (ob_revision op) (bounded_remote_error x))"

section \<open>Workers, outbox and remote together\<close>

text \<open>
  Any number of processes run the worker on one outbox; a delivery in flight is a claimed operation, as
  it was claimed, and the result once there is one. The remote is the server of \<open>Server_Kg\<close>, with other
  clients and its own crashes. A worker believes that a knowledge-graph mutation succeeded only when
  the server sent that answer to that request; everything else it hears may be anything.
\<close>

record delivery =
  dl_op :: outbox_operation
  dl_result :: "(remote_error + unit) option"

record replica =
  rl_outbox :: outbox
  rl_server :: server
  rl_flights :: "delivery list"

definition sent_success :: "server \<Rightarrow> (kg_request \<Rightarrow> bool) \<Rightarrow> bool" where
  "sent_success s asks = list_ex (\<lambda>(q, r). asks q \<and> \<not> isl r) (sv_sent s)"

fun asks_add :: "auth_identity \<Rightarrow> kg_add_request \<Rightarrow> kg_request \<Rightarrow> bool" where
  "asks_add auth body (AddRequest p e clk auth' body') = (auth' = auth \<and> body' = body)"
| "asks_add auth body _ = False"

fun asks_invalidate :: "auth_identity \<Rightarrow> kg_invalidate_request \<Rightarrow> kg_request \<Rightarrow> bool" where
  "asks_invalidate auth body (InvalidateRequest p e clk auth' body') = (auth' = auth \<and> body' = body)"
| "asks_invalidate auth body _ = False"

definition believed :: "bool \<Rightarrow> remote_error + json \<Rightarrow> remote_error + json" where
  "believed sent answer = (if sent \<or> isl answer then answer else Inl (UnknownOutcome [] (lit ''no answer'')))"

definition backed :: "auth_identity \<Rightarrow> server \<Rightarrow> remote_api \<Rightarrow> remote_api" where
  "backed auth s api = api\<lparr>
     ra_kg_add_fact := (\<lambda>body. believed (sent_success s (asks_add auth body)) (ra_kg_add_fact api body)),
     ra_kg_invalidate := (\<lambda>body. believed (sent_success s (asks_invalidate auth body)) (ra_kg_invalidate api body)) \<rparr>"

datatype client_call =
  ClientEnqueue env new_outbox_operation
| ClientActivate env rstr int
| ClientCancel env rstr int

fun client_exec :: "client_call \<Rightarrow> outbox_call" where
  "client_exec (ClientEnqueue e i) = ObCallEnqueue e i"
| "client_exec (ClientActivate e i r) = ObCallActivate e i r"
| "client_exec (ClientCancel e i r) = ObCallCancel e i r"

datatype replica_step =
  LocalCall client_call
| WorkerClaim env env rstr
| WorkerDeliver nat remote_api
| WorkerSettle nat env int
| WorkerLost nat
| RemoteStep server_step

text \<open>The parameters: \<open>julianday\<close>, the hash, serde's decoding, and who the workers are to the remote.\<close>

fun replica_exec ::
  "(int \<Rightarrow> int) \<Rightarrow> (rstr \<Rightarrow> nat) \<Rightarrow> (json \<Rightarrow> rstr + replication_mutation) \<Rightarrow> auth_identity \<Rightarrow>
   replica_step \<Rightarrow> replica \<Rightarrow> replica"
where
  "replica_exec jd h16 decode auth (LocalCall c) s =
     s\<lparr> rl_outbox := outbox_exec jd (client_exec c) (rl_outbox s) \<rparr>"
| "replica_exec jd h16 decode auth (WorkerClaim e1 e2 remote) s =
     (case claim_one jd e1 e2 (rl_outbox s) remote of
        (Inr (Some op), db) \<Rightarrow>
          s\<lparr> rl_outbox := db, rl_flights := rl_flights s @ [\<lparr> dl_op = op, dl_result = None \<rparr>] \<rparr>
      | (_, db) \<Rightarrow> s\<lparr> rl_outbox := db \<rparr>)"
| "replica_exec jd h16 decode auth (WorkerDeliver i api) s =
     (if i < length (rl_flights s) \<and> dl_result (rl_flights s ! i) = None
      then s\<lparr> rl_flights := (rl_flights s)[i := (rl_flights s ! i)\<lparr> dl_result :=
             Some (deliver decode (backed auth (rl_server s) api) (dl_op (rl_flights s ! i))) \<rparr>] \<rparr>
      else s)"
| "replica_exec jd h16 decode auth (WorkerSettle i e now) s =
     (if i < length (rl_flights s)
      then (case dl_result (rl_flights s ! i) of
              None \<Rightarrow> s
            | Some r \<Rightarrow>
                s\<lparr> rl_outbox := snd (settle h16 e now (dl_op (rl_flights s ! i)) r (rl_outbox s)),
                   rl_flights := remove_nth i (rl_flights s) \<rparr>)
      else s)"
| "replica_exec jd h16 decode auth (WorkerLost i) s =
     s\<lparr> rl_flights := remove_nth i (rl_flights s) \<rparr>"
| "replica_exec jd h16 decode auth (RemoteStep c) s =
     s\<lparr> rl_server := server_exec c (rl_server s) \<rparr>"

definition replica_init :: replica where
  "replica_init = \<lparr> rl_outbox = [], rl_server = server_init, rl_flights = [] \<rparr>"

end
