(* ===== verification/Replication_Props.thy ===== *)
theory Replication_Props
  imports Replication
begin

text \<open>
  Outbox, workers and remote together: an operation is marked replicated only when the remote answered
  its mutation with success, whatever other processes, crashes and expired leases happen in between.
  The bounds of the back-off, and why settling a delivery is never refused for its error text.
\<close>

section \<open>Only an acknowledgement makes an operation replicated\<close>

lemma written_replicated:
  assumes "op_written i p p' db db'" and "distinct (map ob_operation_id db)" and "ob_state p' \<noteq> ObReplicated"
    and "q \<in> set db'" and "ob_state q = ObReplicated"
  shows "q \<in> set db"
  using assms written_set [OF assms(1,2)] by auto

lemma ob_spec_replicated:
  assumes "ob_spec b Q db i r res db'" and "distinct (map ob_operation_id db)"
    and "\<And>p p'. Q p p' \<Longrightarrow> ob_state p' \<noteq> ObReplicated" and "q \<in> set db'" and "ob_state q = ObReplicated"
  shows "q \<in> set db"
  using assms by (cases rule: ob_spec.cases) (auto intro: written_replicated)

lemma take_spec_replicated:
  assumes "take_spec Q db x res db'" and "distinct (map ob_operation_id db)"
    and "\<And>p p'. p \<in> set db \<Longrightarrow> Q p p' \<Longrightarrow> ob_state p' \<noteq> ObReplicated" and "q \<in> set db'" and "ob_state q = ObReplicated"
  shows "q \<in> set db"
  using assms(1)
proof (cases rule: take_spec.cases)
  case (tk_some p p')
  with assms(3) op_written_map(1) [OF tk_some(4) assms(2)] have "ob_state p' \<noteq> ObReplicated" by blast
  with tk_some assms show ?thesis by (blast intro: written_replicated)
qed (use assms in auto)

lemma enqueue_spec_replicated:
  assumes "enqueue_spec e db i res db'" and "distinct (map ob_operation_id db)"
    and "q \<in> set db'" and "ob_state q = ObReplicated"
  shows "q \<in> set db"
  using assms(1)
proof (cases rule: enqueue_spec.cases)
  case (eq_new p r)
  then show ?thesis using assms(3,4) by (auto simp: insert_operation_def fresh_op_def split: if_splits)
next
  case (eq_revive p r)
  then show ?thesis using written_replicated assms by (fastforce simp: op_revived_def)
qed (use assms in auto)

fun is_acknowledge :: "outbox_call \<Rightarrow> bool" where
  "is_acknowledge (ObCallAcknowledge e i w r) = True"
| "is_acknowledge _ = False"

lemma outbox_exec_replicated:
  assumes inv: "outbox_inv db" and c: "\<not> is_acknowledge c"
    and q: "q \<in> set (outbox_exec jd c db)" "ob_state q = ObReplicated"
  shows "q \<in> set db"
proof -
  have d: "distinct (map ob_operation_id db)" using inv by (simp add: outbox_inv_def)
  have s: ?thesis if "outcome (ob_spec b Q db i r) x" "outbox_exec jd c db = snd x"
    "\<And>p p'. Q p p' \<Longrightarrow> ob_state p' \<noteq> ObReplicated" for b Q i r x
    using that q ob_spec_replicated [OF _ d] by (simp add: outcome_def)
  have t: ?thesis if "outcome (take_spec Q db x) y" "outbox_exec jd c db = snd y"
    "\<And>p p'. Q p p' \<Longrightarrow> ob_state p' \<noteq> ObReplicated" for Q x y
    using that q take_spec_replicated [OF _ d] by (simp add: outcome_def)
  show ?thesis
  proof (cases c)
    case (ObCallEnqueue e i)
    then show ?thesis using enqueue_spec_replicated [OF enqueue_outcome [unfolded outcome_def] d] q by simp
  next
    case (ObCallClaimNext e remote w ttl)
    show ?thesis by (rule t [OF claim_next_outcome [OF d]]) (auto simp: ObCallClaimNext op_changes)
  next
    case (ObCallReclaim e remote w ttl)
    show ?thesis by (rule t [OF reclaim_outcome [OF d]]) (auto simp: ObCallReclaim op_changes)
  next
    case (ObCallActivate e i r)
    show ?thesis by (rule s [OF activate_outcome]) (auto simp: ObCallActivate op_changes)
  next
    case (ObCallCancel e i r)
    show ?thesis by (rule s [OF cancel_outcome]) (auto simp: ObCallCancel op_changes)
  next
    case (ObCallClaimById e i w r ttl)
    show ?thesis by (rule s [OF claim_by_id_outcome]) (auto simp: ObCallClaimById op_changes)
  next
    case (ObCallRenew e i w r ttl)
    show ?thesis by (rule s [OF outbox_renew_lease_outcome]) (auto simp: ObCallRenew op_changes op_in_flight_def)
  next
    case (ObCallRetry e i w r err retry)
    show ?thesis by (rule s [OF schedule_retry_outcome]) (auto simp: ObCallRetry op_changes)
  next
    case (ObCallFail e i w r err)
    show ?thesis by (rule s [OF fail_outcome]) (auto simp: ObCallFail op_changes)
  qed (use c in simp)
qed

lemma acknowledged:
  assumes inv: "outbox_inv db" and q: "q \<in> set (snd (acknowledge e db i w r))" "ob_state q = ObReplicated"
  obtains "q \<in> set db"
  | p where "p \<in> set db" "ob_operation_id p = i" "ob_revision p = r" "q = op_acked (env_now e) p"
proof -
  have d: "distinct (map ob_operation_id db)" using inv by (simp add: outbox_inv_def)
  obtain res db' where a: "acknowledge e db i w r = (res, db')" by (metis surj_pair)
  from outcomeD [OF acknowledge_outcome a] show thesis
  proof (cases rule: ob_spec.cases)
    case (obs_applied p p')
    note m = op_written_map [OF obs_applied(4) d]
    from q written_set [OF obs_applied(4) d] a
    consider "q = p'" | "q \<in> set db" by auto
    then show thesis using that obs_applied m by cases auto
  qed (use that q a in auto)
qed

section \<open>Invariant\<close>

definition applied_at :: "(json \<Rightarrow> rstr + replication_mutation) \<Rightarrow> auth_identity \<Rightarrow> server \<Rightarrow> outbox_operation \<Rightarrow> bool" where
  "applied_at decode auth s p = (case decode (ob_payload p) of
     Inr (KgAddMutation body closet) \<Rightarrow>
       sent_success s (asks_add auth (body\<lparr> ka_operation_id := Some (ob_operation_id p) \<rparr>))
   | Inr (KgInvalidateMutation body) \<Rightarrow>
       sent_success s (asks_invalidate auth (body\<lparr> ki_operation_id := Some (ob_operation_id p) \<rparr>))
   | _ \<Rightarrow> True)"

lemma sent_success_ext: "sent_success s asks \<Longrightarrow> server_extends s s' \<Longrightarrow> sent_success s' asks"
  by (auto simp: sent_success_def server_extends_def)

lemma applied_at_ext: "applied_at decode auth s p \<Longrightarrow> server_extends s s' \<Longrightarrow> applied_at decode auth s' p"
  by (auto simp: applied_at_def sent_success_ext split: sum.splits replication_mutation.splits)

lemma applied_at_acked [simp]: "applied_at decode auth s (op_acked now p) = applied_at decode auth s p"
proof -
  have "ob_payload (op_acked now p) = ob_payload p" "ob_operation_id (op_acked now p) = ob_operation_id p"
    by (simp_all add: op_acked_def)
  then show ?thesis by (simp only: applied_at_def)
qed

lemma believed_Inr: "believed b r = Inr v \<Longrightarrow> b"
  by (cases r) (auto simp: believed_def split: if_splits)

lemma deliver_applied:
  assumes "deliver decode (backed auth s api) p = Inr u"
  shows "applied_at decode auth s p"
proof -
  from assms obtain m where m: "decode (ob_payload p) = Inr m"
    by (auto simp: deliver_def Let_def bindE_eq_Inr split: if_splits)
  show ?thesis
  proof (cases m)
    case (KgAddMutation body closet)
    then show ?thesis using assms m
      by (auto simp: deliver_def applied_at_def forget_def backed_def Let_def bindE_eq_Inr dest!: believed_Inr
          split: if_splits)
  next
    case (KgInvalidateMutation body)
    then show ?thesis using assms m
      by (auto simp: deliver_def applied_at_def forget_def backed_def Let_def bindE_eq_Inr dest!: believed_Inr
          split: if_splits)
  qed (simp_all add: applied_at_def m)
qed

definition replica_inv :: "(json \<Rightarrow> rstr + replication_mutation) \<Rightarrow> auth_identity \<Rightarrow> replica \<Rightarrow> bool" where
  "replica_inv decode auth s \<longleftrightarrow> outbox_inv (rl_outbox s) \<and> server_inv (rl_server s) \<and>
     (\<forall>fl \<in> set (rl_flights s). (\<exists>p \<in> set (rl_outbox s). op_le (dl_op fl) p) \<and>
        (\<forall>u. dl_result fl = Some (Inr u) \<longrightarrow> applied_at decode auth (rl_server s) (dl_op fl))) \<and>
     (\<forall>p \<in> set (rl_outbox s). ob_state p = ObReplicated \<longrightarrow> applied_at decode auth (rl_server s) p)"

definition replica_extends :: "replica \<Rightarrow> replica \<Rightarrow> bool" where
  "replica_extends s s' \<longleftrightarrow> outbox_extends (rl_outbox s) (rl_outbox s') \<and> server_extends (rl_server s) (rl_server s')"


lemma claim_one_exec:
  "\<exists>cs. snd (claim_one jd e1 e2 db remote) = run_calls (outbox_exec jd) cs db \<and> set cs \<subseteq> {c. \<not> is_acknowledge c}"
proof -
  let ?a = "ObCallReclaim e1 (Some remote) WORKER_ID LEASE_TTL" and ?b = "ObCallClaimNext e2 remote WORKER_ID LEASE_TTL"
  have "snd (claim_one jd e1 e2 db remote) = run_calls (outbox_exec jd) [?a] db \<or>
        snd (claim_one jd e1 e2 db remote) = run_calls (outbox_exec jd) [?a, ?b] db"
    by (auto simp: claim_one_def split: prod.splits sum.splits option.splits)
  then show ?thesis
  proof
    assume "snd (claim_one jd e1 e2 db remote) = run_calls (outbox_exec jd) [?a] db"
    then show ?thesis by (intro exI [of _ "[?a]"]) simp
  next
    assume "snd (claim_one jd e1 e2 db remote) = run_calls (outbox_exec jd) [?a, ?b] db"
    then show ?thesis by (intro exI [of _ "[?a, ?b]"]) simp
  qed
qed

lemma run_replicated:
  "outbox_inv db \<Longrightarrow> set cs \<subseteq> {c. \<not> is_acknowledge c} \<Longrightarrow> q \<in> set (run_calls (outbox_exec jd) cs db) \<Longrightarrow>
   ob_state q = ObReplicated \<Longrightarrow> q \<in> set db"
proof (induction cs arbitrary: db)
  case (Cons c cs)
  then have "q \<in> set (outbox_exec jd c db)" using outbox_exec_inv by simp
  with Cons.prems show ?case using outbox_exec_replicated by auto
qed simp

lemma claimed_row:
  assumes d: "distinct (map ob_operation_id db)" and c: "claim_one jd e1 e2 db remote = (Inr (Some op), db')"
  shows "op \<in> set db'"
proof -
  have t: "p \<in> set db'" if "take_spec Q b x (Inr (Some p)) db'" "distinct (map ob_operation_id b)" for Q b x p
    using that(1) by (cases rule: take_spec.cases) (use written_set [OF _ that(2)] in auto)
  obtain r db1 where rc: "reclaim_expired_lease jd e1 db (Some remote) WORKER_ID LEASE_TTL = (r, db1)"
    by (metis surj_pair)
  note take = outcomeD [OF reclaim_outcome [OF d] rc]
  show ?thesis
  proof (cases "r = Inr None")
    case True
    from take True have "db1 = db" by (auto elim: take_spec.cases)
    moreover have "claim_next e2 db1 remote WORKER_ID LEASE_TTL = (Inr (Some op), db')"
      using c rc True by (simp add: claim_one_def)
    ultimately have "claim_next e2 db remote WORKER_ID LEASE_TTL = (Inr (Some op), db')" by simp
    then show ?thesis by (rule t [OF outcomeD [OF claim_next_outcome [OF d]] d])
  next
    case False
    with c rc have "r = Inr (Some op)" "db1 = db'"
      by (auto simp: claim_one_def split: sum.splits option.splits)
    with take show ?thesis by (auto intro: t [OF _ d])
  qed
qed


section \<open>Every step keeps the invariant\<close>

lemma replica_grows:
  assumes inv: "replica_inv decode auth s"
    and parts: "outbox_inv (rl_outbox s')" "server_inv (rl_server s')" "replica_extends s s'"
    and flights: "\<And>fl. fl \<in> set (rl_flights s') \<Longrightarrow> fl \<in> set (rl_flights s) \<or>
      ((\<exists>p \<in> set (rl_outbox s'). op_le (dl_op fl) p) \<and>
       (\<forall>u. dl_result fl = Some (Inr u) \<longrightarrow> applied_at decode auth (rl_server s') (dl_op fl)))"
    and replicated: "\<And>q. q \<in> set (rl_outbox s') \<Longrightarrow> ob_state q = ObReplicated \<Longrightarrow>
      q \<in> set (rl_outbox s) \<or> applied_at decode auth (rl_server s') q"
  shows "replica_inv decode auth s' \<and> replica_extends s s'"
proof -
  have ob: "outbox_extends (rl_outbox s) (rl_outbox s')" and sv: "server_extends (rl_server s) (rl_server s')"
    using parts(3) by (simp_all add: replica_extends_def)
  have "(\<exists>p \<in> set (rl_outbox s'). op_le (dl_op fl) p) \<and>
      (\<forall>u. dl_result fl = Some (Inr u) \<longrightarrow> applied_at decode auth (rl_server s') (dl_op fl))"
    if fl: "fl \<in> set (rl_flights s')" for fl
    using flights [OF fl]
  proof
    assume old: "fl \<in> set (rl_flights s)"
    with inv obtain p where "p \<in> set (rl_outbox s)" "op_le (dl_op fl) p" by (auto simp: replica_inv_def)
    with ob have "\<exists>p \<in> set (rl_outbox s'). op_le (dl_op fl) p"
      unfolding outbox_extends_def using op_le_trans by blast
    moreover have "applied_at decode auth (rl_server s') (dl_op fl)" if "dl_result fl = Some (Inr u)" for u
      using inv old that applied_at_ext [OF _ sv] by (auto simp: replica_inv_def)
    ultimately show ?thesis by blast
  qed
  moreover have "applied_at decode auth (rl_server s') q"
    if "q \<in> set (rl_outbox s')" "ob_state q = ObReplicated" for q
    using replicated [OF that] inv that(2) applied_at_ext [OF _ sv] by (auto simp: replica_inv_def)
  ultimately show ?thesis using parts by (simp add: replica_inv_def)
qed

lemma server_extends_refl [simp]: "server_extends s s"
  by (rule hub_server.extends_refl)

text \<open>Calls of the outbox that are not acknowledgements.\<close>

lemma replica_outbox_calls:
  assumes inv: "replica_inv decode auth s" and cs: "set cs \<subseteq> {c. \<not> is_acknowledge c}"
    and s': "rl_outbox s' = run_calls (outbox_exec jd) cs (rl_outbox s)" "rl_server s' = rl_server s"
    and flights: "\<And>fl. fl \<in> set (rl_flights s') \<Longrightarrow> fl \<in> set (rl_flights s) \<or>
      dl_op fl \<in> set (rl_outbox s') \<and> dl_result fl = None"
  shows "replica_inv decode auth s' \<and> replica_extends s s'"
proof (rule replica_grows [OF inv])
  have oi: "outbox_inv (rl_outbox s)" using inv by (simp add: replica_inv_def)
  show "outbox_inv (rl_outbox s')" unfolding s'(1) by (rule outbox_hist.run_inv [OF oi])
  show "server_inv (rl_server s')" using inv by (simp add: s'(2) replica_inv_def)
  show "replica_extends s s'"
    unfolding replica_extends_def s' using outbox_hist.run_extends [OF oi] by simp
  show "q \<in> set (rl_outbox s) \<or> applied_at decode auth (rl_server s') q"
    if "q \<in> set (rl_outbox s')" "ob_state q = ObReplicated" for q
    using run_replicated [OF oi cs _ that(2)] that(1) s'(1) by simp
  show "fl \<in> set (rl_flights s) \<or> ((\<exists>p \<in> set (rl_outbox s'). op_le (dl_op fl) p) \<and>
      (\<forall>u. dl_result fl = Some (Inr u) \<longrightarrow> applied_at decode auth (rl_server s') (dl_op fl)))"
    if "fl \<in> set (rl_flights s')" for fl
    using flights [OF that] op_le_refl by fastforce
qed

lemma settle_step:
  assumes inv: "replica_inv decode auth s" and i: "i < length (rl_flights s)"
    and r: "dl_result (rl_flights s ! i) = Some r"
    and s': "s' = s\<lparr> rl_outbox := snd (settle h16 e now (dl_op (rl_flights s ! i)) r (rl_outbox s)),
                   rl_flights := remove_nth i (rl_flights s) \<rparr>"
  shows "replica_inv decode auth s' \<and> replica_extends s s'"
proof -
  let ?op = "dl_op (rl_flights s ! i)"
  have fl: "fl \<in> set (rl_flights s') \<Longrightarrow> fl \<in> set (rl_flights s)" for fl
    using set_remove_nth [THEN subsetD] by (auto simp: s')
  show ?thesis
  proof (cases r)
    case (Inl x)
    let ?c = "if is_retryable x
      then ObCallRetry e (ob_operation_id ?op) WORKER_ID (ob_revision ?op) (bounded_remote_error x) (now + retry_backoff h16 ?op)
      else ObCallFail e (ob_operation_id ?op) WORKER_ID (ob_revision ?op) (bounded_remote_error x)"
    show ?thesis
      by (rule replica_outbox_calls [OF inv, where cs = "[?c]" and jd = "\<lambda>t. t"])
        (use fl in \<open>auto simp: s' settle_def Inl\<close>)
  next
    case (Inr u)
    have oi: "outbox_inv (rl_outbox s)" and si: "server_inv (rl_server s)" using inv by (simp_all add: replica_inv_def)
    have ob: "rl_outbox s' = snd (acknowledge e (rl_outbox s) (ob_operation_id ?op) WORKER_ID (ob_revision ?op))"
      "rl_server s' = rl_server s" by (simp_all add: s' settle_def Inr)
    have ex: "rl_outbox s' = outbox_exec (\<lambda>t. t) (ObCallAcknowledge e (ob_operation_id ?op) WORKER_ID (ob_revision ?op)) (rl_outbox s)"
      using ob by simp
    have at: "rl_flights s ! i \<in> set (rl_flights s)" using i by simp
    with inv r Inr have applied: "applied_at decode auth (rl_server s) ?op" by (auto simp: replica_inv_def)
    from inv at obtain p0 where p0: "p0 \<in> set (rl_outbox s)" "op_le ?op p0" by (auto simp: replica_inv_def)
    show ?thesis
    proof (rule replica_grows [OF inv])
      show "outbox_inv (rl_outbox s')" unfolding ex by (rule outbox_exec_inv [OF oi])
      show "server_inv (rl_server s')" using si by (simp add: ob(2))
      show "replica_extends s s'"
        unfolding replica_extends_def ob(2) ex by (intro conjI outbox_exec_extends [OF oi] server_extends_refl)
      show "fl \<in> set (rl_flights s) \<or> ((\<exists>p \<in> set (rl_outbox s'). op_le (dl_op fl) p) \<and>
          (\<forall>u. dl_result fl = Some (Inr u) \<longrightarrow> applied_at decode auth (rl_server s') (dl_op fl)))"
        if "fl \<in> set (rl_flights s')" for fl using fl [OF that] by simp
      fix q assume q: "q \<in> set (rl_outbox s')" "ob_state q = ObReplicated"
      from acknowledged [OF oi _ q(2)] q(1) ob(1)
      consider "q \<in> set (rl_outbox s)"
      | p where "p \<in> set (rl_outbox s)" "ob_operation_id p = ob_operation_id ?op" "ob_revision p = ob_revision ?op"
          "q = op_acked (env_now e) p" by metis
      then show "q \<in> set (rl_outbox s) \<or> applied_at decode auth (rl_server s') q"
      proof cases
        case (2 p)
        have "ob_operation_id p0 = ob_operation_id p" using p0(2) 2(2) by (simp add: op_le_def same_op_def)
        then have "p0 = p" using oi p0(1) 2(1) by (auto simp: outbox_inv_def distinct_map dest: inj_onD)
        with p0(2) 2(3) have "p = ?op" unfolding op_le_def by metis
        with applied 2(4) show ?thesis by (simp add: ob(2))
      qed simp
    qed
  qed
qed


lemma replica_exec_step:
  assumes inv: "replica_inv decode auth s"
  shows "replica_inv decode auth (replica_exec jd h16 decode auth c s) \<and>
     replica_extends s (replica_exec jd h16 decode auth c s)"
proof (cases c)
  case (LocalCall k)
  show ?thesis
    by (rule replica_outbox_calls [OF inv, where cs = "[client_exec k]" and jd = jd]) (cases k; simp add: LocalCall)+
next
  case (WorkerClaim e1 e2 remote)
  let ?s' = "replica_exec jd h16 decode auth c s"
  have d: "distinct (map ob_operation_id (rl_outbox s))" using inv by (simp add: replica_inv_def outbox_inv_def)
  have db: "rl_outbox ?s' = snd (claim_one jd e1 e2 (rl_outbox s) remote)" "rl_server ?s' = rl_server s"
    by (auto simp: WorkerClaim split: prod.splits sum.splits option.splits)
  obtain cs where cs: "snd (claim_one jd e1 e2 (rl_outbox s) remote) = run_calls (outbox_exec jd) cs (rl_outbox s)"
    "set cs \<subseteq> {c. \<not> is_acknowledge c}" using claim_one_exec by blast
  show ?thesis
  proof (rule replica_outbox_calls [OF inv cs(2)])
    show "rl_outbox ?s' = run_calls (outbox_exec jd) cs (rl_outbox s)" using db(1) cs(1) by simp
    show "rl_server ?s' = rl_server s" by (rule db(2))
    show "fl \<in> set (rl_flights s) \<or> dl_op fl \<in> set (rl_outbox ?s') \<and> dl_result fl = None"
      if "fl \<in> set (rl_flights ?s')" for fl
      using that claimed_row [OF d] by (auto simp: WorkerClaim split: prod.splits sum.splits option.splits)
  qed
next
  case (WorkerDeliver i api)
  let ?fl = "rl_flights s ! i" and ?s' = "replica_exec jd h16 decode auth c s"
  have at: "?fl \<in> set (rl_flights s)" if "i < length (rl_flights s)" using that by simp
  have fl: "fl \<in> set (rl_flights s) \<or> ?fl \<in> set (rl_flights s) \<and>
      fl = ?fl\<lparr> dl_result := Some (deliver decode (backed auth (rl_server s) api) (dl_op ?fl)) \<rparr>"
    if "fl \<in> set (rl_flights ?s')" for fl
    using that at by (auto simp: WorkerDeliver split: if_splits dest!: set_update_subset_insert [THEN subsetD])
  show ?thesis
  proof (rule replica_grows [OF inv])
    show "outbox_inv (rl_outbox ?s')" "server_inv (rl_server ?s')"
      using inv by (simp_all add: WorkerDeliver replica_inv_def)
    show "replica_extends s ?s'" by (simp add: WorkerDeliver replica_extends_def)
    show "q \<in> set (rl_outbox s) \<or> applied_at decode auth (rl_server ?s') q" if "q \<in> set (rl_outbox ?s')" for q
      using that by (simp add: WorkerDeliver split: if_splits)
    show "fl \<in> set (rl_flights s) \<or> ((\<exists>p \<in> set (rl_outbox ?s'). op_le (dl_op fl) p) \<and>
        (\<forall>u. dl_result fl = Some (Inr u) \<longrightarrow> applied_at decode auth (rl_server ?s') (dl_op fl)))"
      if "fl \<in> set (rl_flights ?s')" for fl
      using fl [OF that]
    proof
      assume *: "?fl \<in> set (rl_flights s) \<and>
        fl = ?fl\<lparr> dl_result := Some (deliver decode (backed auth (rl_server s) api) (dl_op ?fl)) \<rparr>"
      then have "\<exists>p \<in> set (rl_outbox s). op_le (dl_op ?fl) p" using inv by (auto simp: replica_inv_def)
      with * show ?thesis using deliver_applied [of decode auth "rl_server s" api "dl_op ?fl"]
        by (auto simp: WorkerDeliver)
    qed simp
  qed
next
  case (WorkerSettle i e now)
  show ?thesis
  proof (cases "i < length (rl_flights s) \<and> dl_result (rl_flights s ! i) \<noteq> None")
    case True
    then obtain r where r: "i < length (rl_flights s)" "dl_result (rl_flights s ! i) = Some r" by auto
    show ?thesis by (rule settle_step [OF inv r]) (simp add: WorkerSettle r)
  next
    case False
    then have "replica_exec jd h16 decode auth c s = s" by (auto simp: WorkerSettle)
    with inv show ?thesis by (simp add: replica_extends_def)
  qed
next
  case (WorkerLost i)
  have "fl \<in> set (rl_flights s)" if "fl \<in> set (remove_nth i (rl_flights s))" for fl
    by (rule set_remove_nth [THEN subsetD, OF that])
  note sub = this
  show ?thesis
  proof (rule replica_outbox_calls [OF inv])
    show "set [] \<subseteq> {c. \<not> is_acknowledge c}" by simp
  qed (simp_all add: WorkerLost sub)
next
  case (RemoteStep k)
  have si: "server_inv (rl_server s)" using inv by (simp add: replica_inv_def)
  show ?thesis
    by (rule replica_grows [OF inv])
      (use inv server_exec_step [OF si, of k] in \<open>auto simp: RemoteStep replica_inv_def replica_extends_def\<close>)
qed

interpretation replication: history_machine replica_init "replica_exec jd h16 decode auth"
  "replica_inv decode auth" replica_extends
  for jd h16 decode auth
proof unfold_locales
  show "replica_inv decode auth replica_init"
    using server_init_inv by (simp add: replica_inv_def replica_init_def outbox_inv_def)
  show "replica_inv decode auth (replica_exec jd h16 decode auth c s)" if "replica_inv decode auth s" for s c
    using replica_exec_step [OF that] by blast
  show "replica_extends s s" for s by (simp add: replica_extends_def)
  show "replica_extends s u" if "replica_extends s t" "replica_extends t u" for s t u
    using that outbox_hist.extends_trans hub_server.extends_trans unfolding replica_extends_def by blast
  show "replica_extends s (replica_exec jd h16 decode auth c s)" if "replica_inv decode auth s" for s c
    using replica_exec_step [OF that] by blast
qed


section \<open>Bounds\<close>

lemma remote_error_text_starts: "\<exists>c rest. remote_error_text x = c # rest \<and> \<not> is_whitespace c \<and> utf8_width c = 1"
  by (cases x) (simp_all add: quoted_def lit_def is_whitespace_def utf8_width_def)

lemma bounded_remote_error_starts: "\<exists>c rest. bounded_remote_error x = c # rest \<and> \<not> is_whitespace c"
proof -
  obtain c rest where *: "remote_error_text x = c # rest" "\<not> is_whitespace c" "utf8_width c = 1"
    using remote_error_text_starts by blast
  then show ?thesis by (auto simp: bounded_remote_error_def Let_def)
qed


lemma trim_starts: "\<not> is_whitespace c \<Longrightarrow> trim (c # s) \<noteq> []"
  by (simp add: trim_def trim_start_def trim_end_def)

lemma bounded_remote_error_len: "str_len (bounded_remote_error x) \<le> 1024"
  using utf8_prefix_bytes [of 1024 "remote_error_text x"] by (simp add: bounded_remote_error_def Let_def)

lemma sent_successE:
  assumes "sent_success s asks"
  obtains q v where "(q, Inr v) \<in> set (sv_sent s)" "asks q"
proof -
  from assms obtain q r where "(q, r) \<in> set (sv_sent s)" "asks q" "\<not> isl r"
    by (auto simp: sent_success_def list_ex_iff)
  with that show thesis by (cases r) auto
qed

text \<open>The receipt an answered request leaves.\<close>

lemma answered_add:
  assumes inv: "server_inv s" and a: "sent_success s (asks_add auth body)" and op: "ka_operation_id body = Some i"
  shows "\<exists>e v. ledger (hub_receipts (sv_hub s)) (operation_key auth i) = Some (add_request_hash e body, Some v)"
proof -
  from a obtain q v where q: "(q, Inr v) \<in> set (sv_sent s)" "asks_add auth body q" by (rule sent_successE)
  from inv q(1) have "kept (request_key q) (Inr v) (sv_hub s)" by (auto simp: server_inv_def)
  with q(2) op show ?thesis by (cases q) auto
qed

lemma answered_invalidate:
  assumes inv: "server_inv s" and a: "sent_success s (asks_invalidate auth body)" and op: "ki_operation_id body = Some i"
  shows "\<exists>e v. ledger (hub_receipts (sv_hub s)) (operation_key auth i) = Some (invalidate_request_hash e body, Some v)"
proof -
  from a obtain q v where q: "(q, Inr v) \<in> set (sv_sent s)" "asks_invalidate auth body q" by (rule sent_successE)
  from inv q(1) have "kept (request_key q) (Inr v) (sv_hub s)" by (auto simp: server_inv_def)
  with q(2) op show ?thesis by (cases q) auto
qed

section \<open>Properties\<close>


text \<open>
  The wait before the next attempt doubles with every attempt from one second up to 256 seconds and
  carries less than a second of jitter, so it is between one and 257 seconds; the cap of
  \<open>MAX_BACKOFF_SECONDS\<close> is never what bounds it.
\<close>

theorem retry_backoff_bounds:
  "let wait = retry_backoff h16 op; n = nat (max 0 (min 8 (ob_attempt_count op))) in
   2 ^ n * 1000000000 \<le> wait \<and> wait < (2 ^ n + 1) * 1000000000 \<and>
   1000000000 \<le> wait \<and> wait < 257 * 1000000000 \<and> 257 < MAX_BACKOFF_SECONDS"
proof -
  let ?n = "nat (max 0 (min 8 (ob_attempt_count op)))"
  have n: "?n \<le> 8" by simp
  then have p: "(1::int) \<le> 2 ^ ?n" "(2::int) ^ ?n \<le> 256"
    using power_increasing [of ?n 8 "2::int"] by simp_all
  let ?j = "int (h16 (ob_operation_id op @ lit '':'' @ show_int (ob_attempt_count op)) mod 1000)"
  have j: "0 \<le> ?j" "?j < 1000" by simp_all
  have "retry_backoff h16 op = 2 ^ ?n * 1000000000 + ?j * 1000000"
    using n p by (simp add: retry_backoff_def Let_def MAX_BACKOFF_SECONDS_def min_absorb1)
  moreover have "2 ^ ?n * 1000000000 + ?j * 1000000 < (2 ^ ?n + 1) * 1000000000" using j(2) by simp
  ultimately show ?thesis using p j unfolding Let_def MAX_BACKOFF_SECONDS_def by linarith
qed


text \<open>
  A remote's error is always recorded: cut to 1024 bytes at a character boundary it is neither
  empty nor too long for the outbox, and it is a prefix of the error's text.
\<close>

theorem remote_error_recordable:
  "bounded_error (bounded_remote_error x) = Inr () \<and> str_len (bounded_remote_error x) \<le> MAX_ERROR_BYTES \<and>
   (\<exists>rest. remote_error_text x = bounded_remote_error x @ rest)"
proof -
  obtain c rest where *: "bounded_remote_error x = c # rest" "\<not> is_whitespace c"
    using bounded_remote_error_starts by blast
  then have "trim (bounded_remote_error x) \<noteq> []" using trim_starts by simp
  moreover have "\<exists>rest. remote_error_text x = bounded_remote_error x @ rest"
    using utf8_prefix_is_prefix [of "remote_error_text x" 1024] by (simp add: bounded_remote_error_def Let_def)
  ultimately show ?thesis using bounded_remote_error_len [of x]
    by (simp add: bounded_error_def MAX_ERROR_BYTES_def)
qed

text \<open>
  What a worker records: after a success the operation is replicated; after an error that may pass it
  is retryable, due after the back-off, with the error noted; after any other error it has failed. Only
  the operation as it was claimed is written: the row had the revision and the lease the worker claimed.
\<close>

theorem settle_records:
  "case settle h16 e now op r db of
     (Inr (Applied p), db') \<Rightarrow>
       (case get_operation db (ob_operation_id op) of None \<Rightarrow> False | Some p0 \<Rightarrow> ob_revision p0 = ob_revision op \<and>
         (db' = db \<and> p = p0 \<or> op_in_flight (env_now e) WORKER_ID p0 \<and> p = (case r of
            Inr _ \<Rightarrow> op_acked (env_now e) p0
          | Inl x \<Rightarrow>
              if is_retryable x then op_retried (env_now e) (bounded_remote_error x) (now + retry_backoff h16 op) p0
              else op_failed (env_now e) (bounded_remote_error x) p0)))
   | (_, db') \<Rightarrow> db' = db"
proof -
  obtain res db' where s: "settle h16 e now op r db = (res, db')" by (metis surj_pair)
  let ?i = "ob_operation_id op" and ?r = "ob_revision op"
  have m: ?thesis if "ob_spec b Q db ?i ?r res db'"
    "\<And>p p'. Q p p' \<Longrightarrow> op_in_flight (env_now e) WORKER_ID p \<and> p' = (case r of
            Inr _ \<Rightarrow> op_acked (env_now e) p
          | Inl x \<Rightarrow>
              if is_retryable x then op_retried (env_now e) (bounded_remote_error x) (now + retry_backoff h16 op) p
              else op_failed (env_now e) (bounded_remote_error x) p)" for b Q
    using that by (cases rule: ob_spec.cases) (auto simp: s op_written_def)
  show ?thesis
  proof (cases r)
    case (Inr u)
    then show ?thesis using s by (intro m [OF outcomeD [OF acknowledge_outcome]]) (auto simp: settle_def)
  next
    case (Inl x)
    then show ?thesis
    proof (cases "is_retryable x")
      case True
      with Inl show ?thesis using s by (intro m [OF outcomeD [OF schedule_retry_outcome]]) (auto simp: settle_def)
    next
      case False
      with Inl show ?thesis using s by (intro m [OF outcomeD [OF fail_outcome]]) (auto simp: settle_def)
    qed
  qed
qed

end
