(* ===== verification/Federation_Config.thy ===== *)
theory Federation_Config
  imports Core_Ids Rust_Collections
begin

text \<open>
  Federation routing (\<open>crates/agentpalace-config/src/federation.rs\<close>): the configuration section as it is
  read, its validation into the runtime configuration, and the rules that decide for a wing, the
  knowledge graph or a coordination task whether requests stay local or go to a remote. The tables
  keyed by name are \<open>BTreeMap\<close>s (\<open>Rust_Collections\<close>); durations are milliseconds or seconds as in the code.
  The warnings that are only logged have no counterpart.
\<close>

definition DIARY_ROOM :: rstr where "DIARY_ROOM = lit ''diary''"
definition DIARY_TOPIC_PREFIX :: rstr where "DIARY_TOPIC_PREFIX = lit ''diary:''"
definition DEFAULT_REMOTE_TIMEOUT_MS :: nat where "DEFAULT_REMOTE_TIMEOUT_MS = 5000"
definition DEFAULT_COORDINATION_WING :: rstr where "DEFAULT_COORDINATION_WING = lit ''wing_local_tasks''"

section \<open>The section as it is read\<close>

datatype route_mode = RouteLocal | RouteRemote | RouteCombined
datatype write_target = WriteLocal | WriteRemote | WriteBoth
datatype login_mode = LoginBrowser | LoginDevice | LoginAuto

record oauth_config =
  oa_client_id :: rstr
  oa_account :: "rstr option"
  oa_allow_in_memory :: bool
  oa_allow_loopback_demo :: bool
  oa_login_mode :: login_mode
  oa_login_timeout_seconds :: "nat option"

record remote_config =
  rm_name :: rstr
  rm_url :: rstr
  rm_token :: "rstr option"
  rm_token_env :: "rstr option"
  rm_oauth :: "oauth_config option"
  rm_timeout_ms :: "nat option"

record route_rule =
  ru_mode :: route_mode
  ru_remote :: "rstr option"
  ru_write :: "write_target option"

record federation_section =
  fs_remotes :: "remote_config list"
  fs_default_mode :: "route_mode option"
  fs_default_remote :: "rstr option"
  fs_wings :: "(rstr \<times> route_rule) list"
  fs_kg :: "route_rule option"
  fs_coordination :: "(rstr \<times> route_rule) list"

section \<open>The runtime configuration\<close>

record resolved_oauth =
  ro_client_id :: rstr
  ro_account :: "rstr option"
  ro_allow_in_memory :: bool
  ro_allow_loopback_demo :: bool
  ro_login_mode :: login_mode
  ro_login_timeout_seconds :: nat

record resolved_remote =
  rr_name :: rstr
  rr_url :: rstr
  rr_token :: "rstr option"
  rr_oauth :: "resolved_oauth option"
  rr_timeout :: nat

record resolved_rule =
  rl_mode :: route_mode
  rl_remote :: "rstr option"
  rl_write :: write_target

record federation =
  fd_remotes :: "(rstr \<times> resolved_remote) list"
  fd_default_mode :: route_mode
  fd_default_remote :: "rstr option"
  fd_wings :: "(rstr \<times> resolved_rule) list"
  fd_kg :: "resolved_rule option"
  fd_coordination :: "(rstr \<times> resolved_rule) list"
  fd_coordination_default_wing :: "rstr option"

definition federation_default :: federation where
  "federation_default = \<lparr> fd_remotes = [], fd_default_mode = RouteLocal, fd_default_remote = None, fd_wings = [],
     fd_kg = None, fd_coordination = [], fd_coordination_default_wing = None \<rparr>"

record project_routing =
  pr_mode :: route_mode
  pr_remote :: "rstr option"
  pr_write :: "write_target option"

record route_query =
  rq_wing :: "rstr option"
  rq_room :: "rstr option"
  rq_source_file :: "rstr option"

datatype config_error = ConfigParse rstr rstr    \<comment> \<open>the file's path and the message\<close>

section \<open>Validation\<close>

text \<open>\<open>str::split(c).next()\<close>: the text before the first \<open>c\<close>.\<close>

definition before :: "nat \<Rightarrow> rstr \<Rightarrow> rstr" where
  "before c s = takeWhile (\<lambda>x. x \<noteq> c) s"

definition is_loopback_http_url :: "rstr \<Rightarrow> bool" where
  "is_loopback_http_url url =
     (case strip_prefix (lit ''http://'') url of
        None \<Rightarrow> False
      | Some rest \<Rightarrow>
          let authority = before 47 rest;
              host = (case strip_prefix (lit ''['') authority of
                        Some stripped \<Rightarrow> before 93 stripped
                      | None \<Rightarrow> before 58 authority)
          in host \<in> {lit ''localhost'', lit ''127.0.0.1'', lit ''::1''})"

definition resolve_token :: "(rstr \<Rightarrow> rstr option) \<Rightarrow> rstr option \<Rightarrow> rstr option \<Rightarrow> rstr option" where
  "resolve_token getenv token_env inline_token =
     (case token_env of
        None \<Rightarrow> inline_token
      | Some var \<Rightarrow>
          (case getenv var of
             None \<Rightarrow> inline_token
           | Some val \<Rightarrow> if val \<noteq> [] then Some val else inline_token))"

definition remotes_field :: "rstr \<Rightarrow> rstr" where
  "remotes_field name = lit ''federation.remotes.'' @ name"

definition check_remote_url :: "rstr \<Rightarrow> rstr \<Rightarrow> rstr \<Rightarrow> config_error + unit" where
  "check_remote_url path name url =
     (if url = []
      then Inl (ConfigParse path (remotes_field name @ lit ''.url must not be empty''))
      else if \<not> starts_with url (lit ''http://'') \<and> \<not> starts_with url (lit ''https://'')
      then Inl (ConfigParse path
             (remotes_field name @ lit ''.url `'' @ url @ lit ''` must start with http:// or https://''))
      else if starts_with url (lit ''http://'') \<and> \<not> is_loopback_http_url url
      then Inl (ConfigParse path
             (remotes_field name @ lit ''.url `'' @ url @
              lit ''` must use https:// unless it targets localhost or loopback''))
      else Inr ())"

definition resolve_oauth :: "rstr \<Rightarrow> rstr \<Rightarrow> oauth_config option \<Rightarrow> config_error + resolved_oauth option" where
  "resolve_oauth path name oauth =
     (case oauth of
        None \<Rightarrow> Inr None
      | Some c \<Rightarrow>
          if trim (oa_client_id c) = []
          then Inl (ConfigParse path (remotes_field name @ lit ''.oauth.client_id must not be empty''))
          else Inr (Some \<lparr> ro_client_id = oa_client_id c, ro_account = oa_account c,
                 ro_allow_in_memory = oa_allow_in_memory c, ro_allow_loopback_demo = oa_allow_loopback_demo c,
                 ro_login_mode = oa_login_mode c,
                 ro_login_timeout_seconds =
                   (case oa_login_timeout_seconds c of Some t \<Rightarrow> t | None \<Rightarrow> 300) \<rparr>))"

fun resolve_remotes ::
  "rstr \<Rightarrow> (rstr \<Rightarrow> rstr option) \<Rightarrow> (rstr \<times> resolved_remote) list \<Rightarrow> remote_config list \<Rightarrow>
   config_error + (rstr \<times> resolved_remote) list" where
  "resolve_remotes path getenv remotes [] = Inr remotes"
| "resolve_remotes path getenv remotes (raw # raws) =
     (if rm_name raw = []
      then Inl (ConfigParse path (lit ''federation.remotes[].name must not be empty''))
      else if map_of remotes (rm_name raw) \<noteq> None
      then Inl (ConfigParse path
             (lit ''federation.remotes contains duplicate name `'' @ rm_name raw @ lit ''`''))
      else
        let url = trim (rm_url raw) in
        bindE (check_remote_url path (rm_name raw) url) (\<lambda>_.
        bindE (resolve_oauth path (rm_name raw) (rm_oauth raw)) (\<lambda>oauth.
        resolve_remotes path getenv
          (bmap_update (rm_name raw)
             (\<lambda>_. \<lparr> rr_name = rm_name raw, rr_url = url,
                rr_token = resolve_token getenv (rm_token_env raw) (rm_token raw), rr_oauth = oauth,
                rr_timeout = (case rm_timeout_ms raw of Some t \<Rightarrow> t | None \<Rightarrow> DEFAULT_REMOTE_TIMEOUT_MS) \<rparr>)
             remotes)
          raws)))"

definition infer_single_remote ::
  "rstr \<Rightarrow> rstr \<Rightarrow> (rstr \<times> resolved_remote) list \<Rightarrow> config_error + rstr" where
  "infer_single_remote path field remotes =
     (case remotes of
        [(name, _)] \<Rightarrow> Inr name
      | [] \<Rightarrow> Inl (ConfigParse path (field @ lit '' requires a remote but none are configured''))
      | _ \<Rightarrow> Inl (ConfigParse path
          (field @ lit '' has no `remote` field; cannot infer when multiple remotes are configured'')))"

definition resolve_rule ::
  "rstr \<Rightarrow> rstr \<Rightarrow> (rstr \<times> resolved_remote) list \<Rightarrow> route_rule \<Rightarrow> config_error + resolved_rule" where
  "resolve_rule path field remotes rule =
     bindE
       (case ru_mode rule of
          RouteLocal \<Rightarrow> Inr None
        | _ \<Rightarrow>
            bindE
              (case ru_remote rule of
                 Some r \<Rightarrow>
                   if map_of remotes r = None
                   then Inl (ConfigParse path (field @ lit '' references unknown remote `'' @ r @ lit ''`''))
                   else Inr r
               | None \<Rightarrow> infer_single_remote path field remotes)
              (\<lambda>name. Inr (Some name)))
       (\<lambda>remote. Inr \<lparr> rl_mode = ru_mode rule, rl_remote = remote,
          rl_write = (if ru_mode rule = RouteCombined
             then (case ru_write rule of Some w \<Rightarrow> w | None \<Rightarrow> WriteLocal) else WriteLocal) \<rparr>)"

fun resolve_wings ::
  "rstr \<Rightarrow> (rstr \<times> resolved_remote) list \<Rightarrow> (rstr \<times> resolved_rule) list \<Rightarrow> (rstr \<times> route_rule) list \<Rightarrow>
   config_error + (rstr \<times> resolved_rule) list" where
  "resolve_wings path remotes wings [] = Inr wings"
| "resolve_wings path remotes wings ((name, rule) # rules) =
     bindE (resolve_rule path (lit ''federation.wings.'' @ name) remotes rule) (\<lambda>r.
       resolve_wings path remotes (bmap_update name (\<lambda>_. r) wings) rules)"

fun id_error_text :: "id_error \<Rightarrow> rstr" where
  "id_error_text (IdEmpty kind) = kind @ lit '' id cannot be empty''"
| "id_error_text (IdInvalidCharacter kind ch) = kind @ lit '' id contains invalid character `'' @ [ch] @ lit ''`''"

definition check_coordination_key :: "rstr \<Rightarrow> rstr \<Rightarrow> config_error + unit" where
  "check_coordination_key path name =
     (case wing_normalized name of
        Inr canonical \<Rightarrow>
          if canonical = name then Inr ()
          else Inl (ConfigParse path
            (lit ''federation.coordination.'' @ name @ lit '' is not in canonical wing form; use `'' @
             canonical @ lit ''` instead''))
      | Inl x \<Rightarrow> Inl (ConfigParse path
          (lit ''federation.coordination.'' @ name @ lit '' is not a valid wing name: '' @ id_error_text x)))"

definition both_refused :: "rstr \<Rightarrow> rstr" where
  "both_refused name = lit ''federation.coordination.'' @ name @ lit '' may not use write: both '' @ [8212] @
     lit '' a task is authoritative in exactly one palace, so replicating claims and leases has no coherent meaning; use write: local or write: remote instead''"

fun resolve_coordination ::
  "rstr \<Rightarrow> (rstr \<times> resolved_remote) list \<Rightarrow> (rstr \<times> resolved_rule) list \<Rightarrow> (rstr \<times> route_rule) list \<Rightarrow>
   config_error + (rstr \<times> resolved_rule) list" where
  "resolve_coordination path remotes rows [] = Inr rows"
| "resolve_coordination path remotes rows ((name, rule) # rules) =
     bindE (check_coordination_key path name) (\<lambda>_.
     bindE (resolve_rule path (lit ''federation.coordination.'' @ name) remotes rule) (\<lambda>r.
     if rl_write r = WriteBoth then Inl (ConfigParse path (both_refused name))
     else resolve_coordination path remotes (bmap_update name (\<lambda>_. r) rows) rules))"

definition resolve_default ::
  "rstr \<Rightarrow> (rstr \<times> resolved_remote) list \<Rightarrow> route_mode \<Rightarrow> rstr option \<Rightarrow> config_error + rstr option" where
  "resolve_default path remotes mode remote =
     (case (mode, remote) of
        (RouteLocal, None) \<Rightarrow> Inr None
      | (RouteLocal, Some _) \<Rightarrow> Inl (ConfigParse path
          (lit ''federation.default_remote requires default_mode: remote or combined''))
      | (_, Some name) \<Rightarrow>
          if map_of remotes name = None
          then Inl (ConfigParse path
            (lit ''federation.default_remote references unknown remote `'' @ name @ lit ''`''))
          else Inr (Some name)
      | (_, None) \<Rightarrow>
          bindE (infer_single_remote path (lit ''federation.default_mode'') remotes) (\<lambda>n. Inr (Some n)))"

definition resolve_federation_config ::
  "rstr \<Rightarrow> (rstr \<Rightarrow> rstr option) \<Rightarrow> federation_section option \<Rightarrow> config_error + federation" where
  "resolve_federation_config path getenv sect =
     (case sect of
        None \<Rightarrow> Inr federation_default
      | Some c \<Rightarrow>
          bindE (resolve_remotes path getenv [] (fs_remotes c)) (\<lambda>remotes.
          bindE (resolve_wings path remotes [] (fs_wings c)) (\<lambda>wings.
          bindE (case fs_kg c of
                   None \<Rightarrow> Inr None
                 | Some rule \<Rightarrow> bindE (resolve_rule path (lit ''federation.kg'') remotes rule) (\<lambda>r. Inr (Some r))) (\<lambda>kg.
          bindE (resolve_coordination path remotes [] (fs_coordination c)) (\<lambda>coordination.
          let mode = (case fs_default_mode c of Some m \<Rightarrow> m | None \<Rightarrow> RouteLocal) in
          bindE (resolve_default path remotes mode (fs_default_remote c)) (\<lambda>dflt.
          Inr \<lparr> fd_remotes = remotes, fd_default_mode = mode, fd_default_remote = dflt, fd_wings = wings,
             fd_kg = kg, fd_coordination = coordination, fd_coordination_default_wing = None \<rparr>))))))"

section \<open>Routing\<close>

definition local_rule :: resolved_rule where
  "local_rule = \<lparr> rl_mode = RouteLocal, rl_remote = None, rl_write = WriteLocal \<rparr>"

definition rule_from_default_mode :: "federation \<Rightarrow> resolved_rule" where
  "rule_from_default_mode fd =
     (case fd_default_mode fd of
        RouteLocal \<Rightarrow> local_rule
      | mode \<Rightarrow> \<lparr> rl_mode = mode, rl_remote = fd_default_remote fd, rl_write = WriteLocal \<rparr>)"

definition resolve_project_rule :: "project_routing \<Rightarrow> federation \<Rightarrow> resolved_rule option" where
  "resolve_project_rule proj fd =
     Option.bind
       (case pr_mode proj of
          RouteLocal \<Rightarrow> Some None
        | _ \<Rightarrow>
            (case pr_remote proj of
               Some r \<Rightarrow> if map_of (fd_remotes fd) r = None then None else Some (Some r)
             | None \<Rightarrow> (case fd_remotes fd of [(name, _)] \<Rightarrow> Some (Some name) | _ \<Rightarrow> None)))
       (\<lambda>remote. Some \<lparr> rl_mode = pr_mode proj, rl_remote = remote,
          rl_write = (if pr_mode proj = RouteCombined
             then (case pr_write proj of Some w \<Rightarrow> w | None \<Rightarrow> WriteLocal) else WriteLocal) \<rparr>)"

definition is_diary_query :: "route_query \<Rightarrow> bool" where
  "is_diary_query q \<longleftrightarrow> rq_wing q = Some SHARED_AGENT_DIARY_WING \<or> rq_room q = Some DIARY_ROOM \<or>
     opt_holds (\<lambda>f. starts_with f DIARY_TOPIC_PREFIX) (rq_source_file q)"

definition resolve_route :: "federation \<Rightarrow> project_routing option \<Rightarrow> route_query \<Rightarrow> resolved_rule" where
  "resolve_route fd project q =
     (if is_diary_query q then local_rule
      else case Option.bind (rq_wing q) (map_of (fd_wings fd)) of
             Some rule \<Rightarrow> rule
           | None \<Rightarrow>
               (case Option.bind project (\<lambda>p. resolve_project_rule p fd) of
                  Some rule \<Rightarrow> rule
                | None \<Rightarrow> rule_from_default_mode fd))"

definition resolve_kg_route :: "federation \<Rightarrow> resolved_rule" where
  "resolve_kg_route fd = (case fd_kg fd of Some kg \<Rightarrow> kg | None \<Rightarrow> rule_from_default_mode fd)"

definition resolve_coordination_route :: "federation \<Rightarrow> rstr \<Rightarrow> resolved_rule" where
  "resolve_coordination_route fd wing =
     (case wing_normalized wing of
        Inl _ \<Rightarrow> local_rule
      | Inr w \<Rightarrow>
          if w = SHARED_AGENT_DIARY_WING \<or> w = UNSCOPED_WING \<or> w = DEFAULT_COORDINATION_WING then local_rule
          else case map_of (fd_coordination fd) w of
                 Some rule \<Rightarrow> rule
               | None \<Rightarrow> rule_from_default_mode fd)"

end
