(* ===== verification/Federation_Router.thy ===== *)
theory Federation_Router
  imports Federation_Config Replication
begin

text \<open>
  The federation router of the MCP server (\<open>crates/agentpalace-mcp/src/federation.rs\<close>): which remotes a
  search or a coordination request may go to, the sequential look-up of a coordination record in the
  candidate remotes, and the merging of answers from several palaces. The router knows its rules and
  the names of the remotes a client was built for, in order; an asynchronous call to a remote is a
  function from its name to the answer. A JSON object built by the code is its list of fields.
\<close>

record router =
  rt_rules :: federation
  rt_remotes :: "rstr list"

section \<open>Routes\<close>

definition coordination_federation_enabled :: "router \<Rightarrow> bool" where
  "coordination_federation_enabled rt \<longleftrightarrow>
     fd_coordination (rt_rules rt) \<noteq> [] \<or> fd_default_mode (rt_rules rt) \<noteq> RouteLocal"

definition format_remote_origin :: "rstr \<Rightarrow> rstr" where
  "format_remote_origin name = (if starts_with name (lit ''remote:'') then name else lit ''remote:'' @ name)"

definition resolve_drawer_route :: "router \<Rightarrow> rstr option \<Rightarrow> rstr option \<Rightarrow> rstr option \<Rightarrow> resolved_rule" where
  "resolve_drawer_route rt wing room source_file =
     resolve_route (rt_rules rt) None \<lparr> rq_wing = wing, rq_room = room, rq_source_file = source_file \<rparr>"

definition wing_availability :: "router \<Rightarrow> rstr list \<Rightarrow> (rstr \<times> rstr) list" where
  "wing_availability rt local_wings =
     map (\<lambda>w. (w, let rule = resolve_drawer_route rt (Some w) None None in
            case rl_mode rule of
              RouteLocal \<Rightarrow> lit ''local''
            | RouteRemote \<Rightarrow> (case rl_remote rule of Some n \<Rightarrow> format_remote_origin n | None \<Rightarrow> lit ''remote'')
            | RouteCombined \<Rightarrow> lit ''combined''))
       (bset_of (local_wings @ map fst (fd_wings (rt_rules rt))))"

definition is_dual_write :: "resolved_rule \<Rightarrow> bool" where
  "is_dual_write rule \<longleftrightarrow> rl_mode rule = RouteCombined \<and> rl_write rule = WriteBoth"

definition resolve_write_target :: "resolved_rule \<Rightarrow> write_target" where
  "resolve_write_target rule =
     (case rl_mode rule of RouteLocal \<Rightarrow> WriteLocal | RouteRemote \<Rightarrow> WriteRemote | RouteCombined \<Rightarrow> rl_write rule)"

text \<open>\<open>None\<close> is the \<open>unreachable!\<close> of the code.\<close>

definition coordination_destination :: "router \<Rightarrow> rstr \<Rightarrow> rstr option" where
  "coordination_destination rt wing =
     (let rule = resolve_coordination_route (rt_rules rt) wing in
      case resolve_write_target rule of
        WriteLocal \<Rightarrow> Some (lit ''local'')
      | WriteRemote \<Rightarrow> Some (case rl_remote rule of Some n \<Rightarrow> format_remote_origin n | None \<Rightarrow> lit ''remote'')
      | WriteBoth \<Rightarrow> None)"

definition coordination_availability :: "router \<Rightarrow> rstr list \<Rightarrow> (rstr \<times> rstr option) list" where
  "coordination_availability rt local_wings =
     map (\<lambda>w. (w, coordination_destination rt w))
       (bset_of (local_wings @ map fst (fd_wings (rt_rules rt)) @ map fst (fd_coordination (rt_rules rt))))"

section \<open>Search targets\<close>

text \<open>A rule's remote, when the rule is not local and a client was built for it.\<close>

definition built_remote :: "router \<Rightarrow> resolved_rule \<Rightarrow> rstr list" where
  "built_remote rt rule = (case rl_remote rule of Some n \<Rightarrow> if n \<in> set (rt_remotes rt) then [n] else [] | None \<Rightarrow> [])"

definition plan_search_targets :: "router \<Rightarrow> rstr option \<Rightarrow> rstr option \<Rightarrow> bool \<times> rstr list" where
  "plan_search_targets rt wing room =
     (if wing = Some SHARED_AGENT_DIARY_WING \<or> room = Some DIARY_ROOM then (True, [])
      else case wing of
        Some w \<Rightarrow>
          (let rule = resolve_drawer_route rt (Some w) room None in
           case rl_mode rule of
             RouteLocal \<Rightarrow> (True, [])
           | RouteRemote \<Rightarrow> (False, built_remote rt rule)
           | RouteCombined \<Rightarrow> (True, built_remote rt rule))
      | None \<Rightarrow>
          (True, bset_of (concat (map (\<lambda>rule. if rl_mode rule = RouteLocal then [] else built_remote rt rule)
             (resolve_drawer_route rt None room None # map snd (fd_wings (rt_rules rt)))))))"

section \<open>Coordination requests\<close>

definition coordination_candidate_remotes :: "router \<Rightarrow> rstr list" where
  "coordination_candidate_remotes rt =
     bset_of (List.map_filter (\<lambda>(w, rule). rl_remote rule) (fd_coordination (rt_rules rt)) @
       (if fd_default_mode (rt_rules rt) \<noteq> RouteLocal
        then (case fd_default_remote (rt_rules rt) of Some n \<Rightarrow> [n] | None \<Rightarrow> []) else []))"

definition coordination_candidates :: "router \<Rightarrow> rstr list" where
  "coordination_candidates rt = filter (\<lambda>n. n \<in> set (coordination_candidate_remotes rt)) (rt_remotes rt)"

definition wing_blocks_coordination_fanout :: "rstr option \<Rightarrow> bool" where
  "wing_blocks_coordination_fanout wing =
     (case wing of
        None \<Rightarrow> False
      | Some raw \<Rightarrow>
          (case wing_normalized raw of
             Inr w \<Rightarrow> w = SHARED_AGENT_DIARY_WING \<or> w = UNSCOPED_WING
           | Inl _ \<Rightarrow> True))"

text \<open>\<open>404\<close> and a missing capability both say that the record is not in this palace.\<close>

definition not_this_palace :: "remote_error \<Rightarrow> bool" where
  "not_this_palace x = (case x of RemoteRejected _ s _ \<Rightarrow> s = 404 | CapabilityMissing _ _ \<Rightarrow> True | _ \<Rightarrow> False)"

datatype tool_error = FederationFailed rstr

text \<open>The fall-backs also give the remotes they asked, in order.\<close>

fun read_from :: "(rstr \<Rightarrow> remote_error + json) \<Rightarrow> rstr list \<Rightarrow> (tool_error + json option) \<times> rstr list" where
  "read_from ask [] = (Inr None, [])"
| "read_from ask (n # ns) =
     (case ask n of
        Inr v \<Rightarrow>
          (Inr (Some (case v of
             JObject fs \<Rightarrow> JObject (json_insert (lit ''origin'') (JString (format_remote_origin n)) fs) | _ \<Rightarrow> v)), [n])
      | Inl x \<Rightarrow>
          if not_this_palace x \<or> is_degradable x
          then (case read_from ask ns of (r, asked) \<Rightarrow> (r, n # asked))
          else (Inl (FederationFailed
                 (quoted n @ lit '' coordination read failed: '' @ remote_error_text x)), [n]))"

definition coordination_read_fallback ::
  "router \<Rightarrow> (rstr \<Rightarrow> remote_error + json) \<Rightarrow> (tool_error + json option) \<times> rstr list" where
  "coordination_read_fallback rt ask =
     (if \<not> coordination_federation_enabled rt then (Inr None, []) else read_from ask (coordination_candidates rt))"

fun write_to :: "(rstr \<Rightarrow> remote_error + json) \<Rightarrow> rstr list \<Rightarrow> (tool_error + json option) \<times> rstr list" where
  "write_to ask [] = (Inr None, [])"
| "write_to ask (n # ns) =
     (case ask n of
        Inr v \<Rightarrow>
          (Inr (Some (case v of
             JObject fs \<Rightarrow> JObject (json_insert (lit ''applied_to'') (JString (format_remote_origin n)) fs) | _ \<Rightarrow> v)), [n])
      | Inl x \<Rightarrow>
          if not_this_palace x
          then (case write_to ask ns of (r, asked) \<Rightarrow> (r, n # asked))
          else (Inl (FederationFailed (quoted n @ lit '' rejected the write: '' @ remote_error_text x)), [n]))"

definition coordination_write_fallback ::
  "router \<Rightarrow> (rstr \<Rightarrow> remote_error + json) \<Rightarrow> (tool_error + json option) \<times> rstr list" where
  "coordination_write_fallback rt ask =
     (if \<not> coordination_federation_enabled rt then (Inr None, []) else write_to ask (coordination_candidates rt))"

section \<open>Merged search results\<close>

type_synonym json_fields = "(rstr \<times> json) list"

definition text_field :: "json_fields \<Rightarrow> rstr \<Rightarrow> rstr option" where
  "text_field item k = Option.bind (map_of item k) json_str"

definition nonempty :: "rstr option \<Rightarrow> rstr option" where
  "nonempty s = (case s of Some t \<Rightarrow> if t = [] then None else Some t | None \<Rightarrow> None)"

definition item_id :: "json_fields \<Rightarrow> rstr option" where
  "item_id item = nonempty (text_field item (lit ''drawer_id''))"

definition item_hash :: "json_fields \<Rightarrow> rstr option" where
  "item_hash item = nonempty (text_field item (lit ''content_hash''))"

definition item_text :: "json_fields \<Rightarrow> rstr option" where
  "item_text item = text_field item (lit ''text'')"

record seen =
  sn_ids :: "rstr list"
  sn_hashes :: "rstr list"
  sn_texts :: "rstr list"

definition note_key :: "rstr option \<Rightarrow> rstr list \<Rightarrow> rstr list" where
  "note_key k ks = (case k of Some x \<Rightarrow> List.insert x ks | None \<Rightarrow> ks)"

text \<open>Whether the item repeats an earlier one, and the keys seen with it otherwise.\<close>

definition is_duplicate_search_item :: "json_fields \<Rightarrow> seen \<Rightarrow> bool \<times> seen" where
  "is_duplicate_search_item item s =
     (let duplicate = (case item_id item of
          Some i \<Rightarrow> i \<in> set (sn_ids s)
        | None \<Rightarrow> opt_holds (\<lambda>h. h \<in> set (sn_hashes s)) (item_hash item) \<or>
                  opt_holds (\<lambda>t. t \<in> set (sn_texts s)) (item_text item))
      in if duplicate then (True, s)
         else (False, \<lparr> sn_ids = note_key (item_id item) (sn_ids s), sn_hashes = note_key (item_hash item) (sn_hashes s),
                sn_texts = note_key (item_text item) (sn_texts s) \<rparr>))"

definition with_origin :: "rstr \<Rightarrow> json_fields \<Rightarrow> json_fields" where
  "with_origin origin item =
     (if map_of item (lit ''origin'') = None then json_insert (lit ''origin'') (JString origin) item else item)"

text \<open>One rank: the origins in order; the loop ends when enough is merged.\<close>

fun merge_rank ::
  "nat \<Rightarrow> nat \<Rightarrow> (rstr \<times> json_fields list) list \<Rightarrow> seen \<times> json_fields list \<Rightarrow> bool \<times> seen \<times> json_fields list" where
  "merge_rank limit rank [] (s, merged) = (False, s, merged)"
| "merge_rank limit rank ((origin, results) # origins) (s, merged) =
     (if limit \<le> length merged then (True, s, merged)
      else if rank < length results
      then (case is_duplicate_search_item (results ! rank) s of
              (dup, s') \<Rightarrow> merge_rank limit rank origins
                (s', if dup then merged else merged @ [with_origin origin (results ! rank)]))
      else merge_rank limit rank origins (s, merged))"

fun merge_ranks ::
  "nat \<Rightarrow> (rstr \<times> json_fields list) list \<Rightarrow> nat list \<Rightarrow> seen \<times> json_fields list \<Rightarrow> json_fields list" where
  "merge_ranks limit origins [] (s, merged) = merged"
| "merge_ranks limit origins (rank # ranks) (s, merged) =
     (case merge_rank limit rank origins (s, merged) of
        (stop, s', merged') \<Rightarrow> if stop then merged' else merge_ranks limit origins ranks (s', merged'))"

definition merge_search_results_nway :: "(rstr \<times> json_fields list) list \<Rightarrow> nat \<Rightarrow> json_fields list" where
  "merge_search_results_nway origins limit =
     (case origins of
        [] \<Rightarrow> []
      | [(origin, results)] \<Rightarrow> map (with_origin origin) (take limit results)
      | _ \<Rightarrow> take limit (merge_ranks limit origins [0 ..< Max (set (map (\<lambda>(_, r). length r) origins))]
               (\<lparr> sn_ids = [], sn_hashes = [], sn_texts = [] \<rparr>, [])))"

section \<open>Merged knowledge-graph answers\<close>

definition array_at :: "json \<Rightarrow> rstr \<Rightarrow> json list" where
  "array_at v k = (case json_get v k of Some (JArray xs) \<Rightarrow> xs | _ \<Rightarrow> [])"

definition text_at :: "json \<Rightarrow> rstr \<Rightarrow> rstr" where
  "text_at v k = (case Option.bind (json_get v k) json_str of Some s \<Rightarrow> s | None \<Rightarrow> [])"

definition annotate_row :: "rstr \<Rightarrow> json \<Rightarrow> json" where
  "annotate_row origin v =
     (case v of JObject fs \<Rightarrow> JObject (json_insert (lit ''origin'') (JString origin) fs) | _ \<Rightarrow> v)"

definition annotate_kg_facts_origin :: "json \<Rightarrow> rstr \<Rightarrow> json" where
  "annotate_kg_facts_origin payload origin =
     (case payload of
        JObject fs \<Rightarrow> JObject (map (\<lambda>(k, v).
          (k, if k = lit ''facts'' \<or> k = lit ''timeline''
              then (case v of JArray xs \<Rightarrow> JArray (map (annotate_row origin) xs) | _ \<Rightarrow> v) else v)) fs)
      | _ \<Rightarrow> payload)"

definition joined :: "rstr list \<Rightarrow> rstr" where
  "joined xs = (case xs of [] \<Rightarrow> [] | x # ys \<Rightarrow> x @ concat (map (\<lambda>y. 124 # y) ys))"

definition kg_fact_dedup_key :: "json \<Rightarrow> rstr" where
  "kg_fact_dedup_key v = joined [text_at v (lit ''subject''), text_at v (lit ''predicate''),
     text_at v (lit ''object''), text_at v (lit ''valid_from''), text_at v (lit ''direction'')]"

definition kg_timeline_dedup_key :: "json \<Rightarrow> rstr" where
  "kg_timeline_dedup_key v = joined [text_at v (lit ''subject''), text_at v (lit ''predicate''),
     text_at v (lit ''object''), text_at v (lit ''valid_from'')]"

fun first_by_key :: "(json \<Rightarrow> rstr) \<Rightarrow> rstr list \<Rightarrow> json list \<Rightarrow> json list" where
  "first_by_key key ks [] = []"
| "first_by_key key ks (v # vs) =
     (if key v \<in> set ks then first_by_key key ks vs else v # first_by_key key (key v # ks) vs)"

definition merge_kg :: "rstr \<Rightarrow> (json \<Rightarrow> rstr) \<Rightarrow> json_fields \<Rightarrow> json \<Rightarrow> rstr \<Rightarrow> json_fields" where
  "merge_kg field key loc remote remote_name =
     (let rows = first_by_key key [] (array_at (JObject loc) field @
                   array_at (annotate_kg_facts_origin remote remote_name) field)
      in json_insert (lit ''count'') (JNumber (JInt (int (length rows)))) (json_insert field (JArray rows) loc))"

definition merge_kg_facts :: "json_fields \<Rightarrow> json \<Rightarrow> rstr \<Rightarrow> json_fields" where
  "merge_kg_facts = merge_kg (lit ''facts'') kg_fact_dedup_key"

definition merge_kg_timeline :: "json_fields \<Rightarrow> json \<Rightarrow> rstr \<Rightarrow> json_fields" where
  "merge_kg_timeline = merge_kg (lit ''timeline'') kg_timeline_dedup_key"

end
