(* ===== verification/Federation_Config_Props.thy ===== *)
theory Federation_Config_Props
  imports Federation_Config
begin

text \<open>
  What the validation of the federation section accepts, what the runtime configuration it gives
  guarantees of every route, and where the check for plain HTTP falls short of the host a URL names.
\<close>

section \<open>Inversion of the validation\<close>

lemma bindE_Inr_iff [simp]: "(\<exists>y. bindE m f = Inr y) \<longleftrightarrow> (\<exists>x. m = Inr x \<and> (\<exists>y. f x = Inr y))"
  by (cases m) (simp_all add: bindE_def)

definition known :: "(rstr \<times> resolved_remote) list \<Rightarrow> rstr \<Rightarrow> bool" where
  "known remotes n \<longleftrightarrow> n \<in> fst ` set remotes"

lemma known_Cons [simp]: "known ((n, x) # m) k \<longleftrightarrow> k = n \<or> known m k"
  by (auto simp: known_def)

lemma map_of_known: "map_of remotes n = None \<longleftrightarrow> \<not> known remotes n"
  by (simp add: map_of_eq_None_iff known_def)

definition one_name :: "(rstr \<times> resolved_remote) list \<Rightarrow> bool" where
  "one_name remotes \<longleftrightarrow> length remotes = 1"

lemma infer_single_remote_ok:
  "infer_single_remote path field remotes = Inr n \<Longrightarrow> one_name remotes \<and> known remotes n"
  by (auto simp: infer_single_remote_def one_name_def known_def split: list.splits prod.splits)

text \<open>A rule is fine when it stays local or names a configured remote, or there is just one.\<close>

definition remote_ok :: "(rstr \<times> resolved_remote) list \<Rightarrow> rstr option \<Rightarrow> bool" where
  "remote_ok remotes remote \<longleftrightarrow>
     (case remote of Some r \<Rightarrow> known remotes r | None \<Rightarrow> one_name remotes)"

definition rule_ok :: "(rstr \<times> resolved_remote) list \<Rightarrow> route_rule \<Rightarrow> bool" where
  "rule_ok remotes rule \<longleftrightarrow> ru_mode rule = RouteLocal \<or> remote_ok remotes (ru_remote rule)"

lemma infer_single_remote_Inr: "(\<exists>n. infer_single_remote path field remotes = Inr n) \<longleftrightarrow> one_name remotes"
  by (auto simp: infer_single_remote_def one_name_def split: list.splits prod.splits)

lemma resolve_rule_ok: "(\<exists>r. resolve_rule path field remotes rule = Inr r) \<longleftrightarrow> rule_ok remotes rule"
  unfolding resolve_rule_def rule_ok_def remote_ok_def
  by (cases "ru_mode rule"; cases "ru_remote rule") (auto simp: map_of_known infer_single_remote_Inr)

section \<open>Routes are well formed\<close>

definition wf_rule :: "(rstr \<times> resolved_remote) list \<Rightarrow> resolved_rule \<Rightarrow> bool" where
  "wf_rule remotes r \<longleftrightarrow>
     (if rl_mode r = RouteLocal then rl_remote r = None
      else \<exists>n. known remotes n \<and> rl_remote r = Some n) \<and>
     (rl_mode r \<noteq> RouteCombined \<longrightarrow> rl_write r = WriteLocal)"

lemma wf_local [simp]: "wf_rule remotes local_rule"
  by (simp add: wf_rule_def local_rule_def)

lemma resolve_rule_wf: "resolve_rule path field remotes rule = Inr r \<Longrightarrow> wf_rule remotes r"
  by (cases "ru_mode rule"; cases "ru_remote rule")
    (auto simp: resolve_rule_def bindE_eq_Inr wf_rule_def map_of_known dest: infer_single_remote_ok split: if_splits)

definition wf_rules :: "(rstr \<times> resolved_remote) list \<Rightarrow> (rstr \<times> resolved_rule) list \<Rightarrow> bool" where
  "wf_rules remotes rules \<longleftrightarrow> bmap rules \<and> (\<forall>(w, r) \<in> set rules. wf_rule remotes r)"

lemma bmap_update_set: "set (bmap_update k f m) \<subseteq> insert (k, f (map_of m k)) (set m) \<union> {(k, f None)}"
proof (induction k f m rule: bmap_update.induct)
  case (2 k f k' v m)
  then show ?case by (auto split: if_splits)
qed simp

lemma bmap_update_const: "set (bmap_update k (\<lambda>_. v) m) \<subseteq> insert (k, v) (set m)"
  using bmap_update_set [of k "\<lambda>_. v" m] by auto

lemma wf_rules_update: "wf_rules remotes rules \<Longrightarrow> wf_rule remotes r \<Longrightarrow> wf_rules remotes (bmap_update k (\<lambda>_. r) rules)"
  using bmap_update_const [of k r rules] bmap_bmap_update [of rules] by (auto simp: wf_rules_def)

lemma resolve_wings_wf:
  "resolve_wings path remotes rows rules = Inr rows' \<Longrightarrow> wf_rules remotes rows \<Longrightarrow> wf_rules remotes rows'"
  by (induction path remotes rows rules rule: resolve_wings.induct)
    (auto simp: bindE_eq_Inr intro: wf_rules_update resolve_rule_wf)

definition never_both :: "(rstr \<times> resolved_rule) list \<Rightarrow> bool" where
  "never_both rules \<longleftrightarrow> (\<forall>(w, r) \<in> set rules. rl_write r \<noteq> WriteBoth)"

lemma resolve_coordination_wf:
  "resolve_coordination path remotes rows rules = Inr rows' \<Longrightarrow> wf_rules remotes rows \<Longrightarrow> never_both rows \<Longrightarrow>
   wf_rules remotes rows' \<and> never_both rows'"
proof (induction path remotes rows rules rule: resolve_coordination.induct)
  case (2 path remotes rows name rule rules)
  from "2.prems" obtain r where r: "resolve_rule path (lit ''federation.coordination.'' @ name) remotes rule = Inr r"
    "rl_write r \<noteq> WriteBoth" "check_coordination_key path name = Inr ()"
    "resolve_coordination path remotes (bmap_update name (\<lambda>_. r) rows) rules = Inr rows'"
    by (auto simp: bindE_eq_Inr split: if_splits)
  have "never_both (bmap_update name (\<lambda>_. r) rows)"
    using "2.prems"(3) r(2) bmap_update_const [of name r rows] by (auto simp: never_both_def)
  with 2 r show ?case by (auto intro: wf_rules_update resolve_rule_wf)
qed simp

definition wf_federation :: "federation \<Rightarrow> bool" where
  "wf_federation fd \<longleftrightarrow> wf_rules (fd_remotes fd) (fd_wings fd) \<and> wf_rules (fd_remotes fd) (fd_coordination fd) \<and>
     never_both (fd_coordination fd) \<and>
     (\<forall>r. fd_kg fd = Some r \<longrightarrow> wf_rule (fd_remotes fd) r) \<and>
     (if fd_default_mode fd = RouteLocal then fd_default_remote fd = None
      else \<exists>n. known (fd_remotes fd) n \<and> fd_default_remote fd = Some n)"

lemma resolve_default_wf:
  "resolve_default path remotes mode remote = Inr d \<Longrightarrow>
   (if mode = RouteLocal then d = None else \<exists>n. known remotes n \<and> d = Some n)"
  by (cases mode; cases remote)
    (auto simp: resolve_default_def bindE_eq_Inr map_of_known dest: infer_single_remote_ok split: if_splits)

lemma resolve_federation_config_wf:
  assumes "resolve_federation_config path getenv sect = Inr fd"
  shows "wf_federation fd"
proof (cases sect)
  case None
  with assms show ?thesis
    by (auto simp: resolve_federation_config_def federation_default_def wf_federation_def wf_rules_def never_both_def)
next
  case (Some c)
  let ?mode = "case fs_default_mode c of Some m \<Rightarrow> m | None \<Rightarrow> RouteLocal"
  from assms Some obtain remotes wings kg coordination d where parts:
    "resolve_wings path remotes [] (fs_wings c) = Inr wings"
    "(case fs_kg c of None \<Rightarrow> Inr None
      | Some rule \<Rightarrow> bindE (resolve_rule path (lit ''federation.kg'') remotes rule) (\<lambda>r. Inr (Some r))) = Inr kg"
    "resolve_coordination path remotes [] (fs_coordination c) = Inr coordination"
    "resolve_default path remotes ?mode (fs_default_remote c) = Inr d"
    "fd = \<lparr> fd_remotes = remotes, fd_default_mode = ?mode, fd_default_remote = d, fd_wings = wings,
       fd_kg = kg, fd_coordination = coordination, fd_coordination_default_wing = None \<rparr>"
    by (auto simp: resolve_federation_config_def bindE_eq_Inr Let_def)
  have "wf_rules remotes []" "never_both []" by (simp_all add: wf_rules_def never_both_def)
  with parts resolve_wings_wf resolve_coordination_wf resolve_default_wf [OF parts(4)]
  have "wf_rules remotes wings" "wf_rules remotes coordination" "never_both coordination"
    "if ?mode = RouteLocal then d = None else \<exists>n. known remotes n \<and> d = Some n" by blast+
  moreover have "wf_rule remotes r" if "kg = Some r" for r
    using parts(2) that by (auto simp: bindE_eq_Inr intro: resolve_rule_wf split: option.splits)
  ultimately show ?thesis unfolding parts(5) by (simp add: wf_federation_def)
qed

lemma wf_rulesD: "wf_rules remotes rules \<Longrightarrow> map_of rules w = Some r \<Longrightarrow> wf_rule remotes r"
  by (auto simp: wf_rules_def dest: map_of_SomeD)

lemma wf_default_rule: "wf_federation fd \<Longrightarrow> wf_rule (fd_remotes fd) (rule_from_default_mode fd)"
  by (cases "fd_default_mode fd") (auto simp: rule_from_default_mode_def wf_federation_def wf_rule_def local_rule_def)

lemma resolve_project_rule_wf: "resolve_project_rule proj fd = Some r \<Longrightarrow> wf_rule (fd_remotes fd) r"
  by (cases "pr_mode proj"; cases "pr_remote proj")
    (auto simp: resolve_project_rule_def wf_rule_def map_of_known bind_eq_Some_conv
      split: if_splits list.splits prod.splits)

lemma resolve_route_wf: "wf_federation fd \<Longrightarrow> wf_rule (fd_remotes fd) (resolve_route fd project q)"
  by (auto simp: resolve_route_def wf_federation_def bind_eq_Some_conv
      intro: wf_default_rule resolve_project_rule_wf dest: wf_rulesD split: option.splits)


lemma resolve_kg_route_wf: "wf_federation fd \<Longrightarrow> wf_rule (fd_remotes fd) (resolve_kg_route fd)"
  by (auto simp: resolve_kg_route_def wf_federation_def intro: wf_default_rule split: option.splits)

lemma default_never_both: "rl_write (rule_from_default_mode fd) = WriteLocal"
  by (simp add: rule_from_default_mode_def local_rule_def split: route_mode.splits)

lemma resolve_coordination_route_wf:
  assumes "wf_federation fd"
  shows "wf_rule (fd_remotes fd) (resolve_coordination_route fd w) \<and> rl_write (resolve_coordination_route fd w) \<noteq> WriteBoth"
proof -
  have "wf_rule (fd_remotes fd) r \<and> rl_write r \<noteq> WriteBoth" if "map_of (fd_coordination fd) v = Some r" for v r
    using assms that by (auto simp: wf_federation_def never_both_def dest: wf_rulesD map_of_SomeD)
  then show ?thesis using wf_default_rule [OF assms] default_never_both [of fd]
    by (auto simp: resolve_coordination_route_def local_rule_def [THEN arg_cong [where f = rl_write]] split: sum.splits option.splits)
qed

section \<open>What is accepted\<close>

definition remote_config_ok :: "remote_config \<Rightarrow> bool" where
  "remote_config_ok raw \<longleftrightarrow> rm_name raw \<noteq> [] \<and>
     (let url = trim (rm_url raw) in
      starts_with url (lit ''https://'') \<or> starts_with url (lit ''http://'') \<and> is_loopback_http_url url) \<and>
     (case rm_oauth raw of None \<Rightarrow> True | Some c \<Rightarrow> trim (oa_client_id c) \<noteq> [])"

definition accepts_rule :: "federation_section \<Rightarrow> route_rule \<Rightarrow> bool" where
  "accepts_rule c rule \<longleftrightarrow> ru_mode rule = RouteLocal \<or>
     (case ru_remote rule of Some r \<Rightarrow> r \<in> rm_name ` set (fs_remotes c) | None \<Rightarrow> length (fs_remotes c) = 1)"

definition accepts_section :: "federation_section \<Rightarrow> bool" where
  "accepts_section c \<longleftrightarrow>
     (\<forall>raw \<in> set (fs_remotes c). remote_config_ok raw) \<and> distinct (map rm_name (fs_remotes c)) \<and>
     (\<forall>(w, rule) \<in> set (fs_wings c). accepts_rule c rule) \<and>
     (\<forall>rule. fs_kg c = Some rule \<longrightarrow> accepts_rule c rule) \<and>
     (\<forall>(w, rule) \<in> set (fs_coordination c). wing_normalized w = Inr w \<and> accepts_rule c rule \<and>
        \<not> (ru_mode rule = RouteCombined \<and> ru_write rule = Some WriteBoth)) \<and>
     (case fs_default_mode c of
        None \<Rightarrow> fs_default_remote c = None
      | Some RouteLocal \<Rightarrow> fs_default_remote c = None
      | Some mode \<Rightarrow> accepts_rule c \<lparr> ru_mode = mode, ru_remote = fs_default_remote c, ru_write = None \<rparr>)"

lemma starts_with_https: "starts_with url (lit ''https://'') \<Longrightarrow> url \<noteq> [] \<and> \<not> starts_with url (lit ''http://'')"
  by (drule starts_withD) (auto simp: starts_with_def lit_def)

lemma check_remote_url_ok:
  "check_remote_url path name url = Inr () \<longleftrightarrow>
     starts_with url (lit ''https://'') \<or> starts_with url (lit ''http://'') \<and> is_loopback_http_url url"
  using starts_with_https [of url] by (auto simp: check_remote_url_def starts_with_def lit_def)

lemma resolve_oauth_ok:
  "(\<exists>r. resolve_oauth path name oauth = Inr r) \<longleftrightarrow>
     (case oauth of None \<Rightarrow> True | Some c \<Rightarrow> trim (oa_client_id c) \<noteq> [])"
  by (auto simp: resolve_oauth_def split: option.splits)

definition remote_entry :: "(rstr \<Rightarrow> rstr option) \<Rightarrow> remote_config \<Rightarrow> resolved_oauth option \<Rightarrow> resolved_remote" where
  "remote_entry getenv raw oauth = \<lparr> rr_name = rm_name raw, rr_url = trim (rm_url raw),
     rr_token = resolve_token getenv (rm_token_env raw) (rm_token raw), rr_oauth = oauth,
     rr_timeout = (case rm_timeout_ms raw of Some t \<Rightarrow> t | None \<Rightarrow> DEFAULT_REMOTE_TIMEOUT_MS) \<rparr>"

lemma resolve_remotes_step:
  "resolve_remotes path getenv remotes (raw # raws) = Inr m \<longleftrightarrow>
     remote_config_ok raw \<and> \<not> known remotes (rm_name raw) \<and>
     (\<exists>oauth. resolve_oauth path (rm_name raw) (rm_oauth raw) = Inr oauth \<and>
        resolve_remotes path getenv (bmap_update (rm_name raw) (\<lambda>_. remote_entry getenv raw oauth) remotes) raws = Inr m)"
proof -
  have o: "case rm_oauth raw of None \<Rightarrow> True | Some c \<Rightarrow> trim (oa_client_id c) \<noteq> []"
    if "resolve_oauth path (rm_name raw) (rm_oauth raw) = Inr oauth" for oauth
    using that resolve_oauth_ok by blast
  have "resolve_remotes path getenv remotes (raw # raws) = Inr m \<longleftrightarrow>
     rm_name raw \<noteq> [] \<and> \<not> known remotes (rm_name raw) \<and>
     check_remote_url path (rm_name raw) (trim (rm_url raw)) = Inr () \<and>
     (\<exists>oauth. resolve_oauth path (rm_name raw) (rm_oauth raw) = Inr oauth \<and>
        resolve_remotes path getenv (bmap_update (rm_name raw) (\<lambda>_. remote_entry getenv raw oauth) remotes) raws = Inr m)"
    by (simp add: map_of_known bindE_eq_Inr Let_def remote_entry_def)
  also have "\<dots> \<longleftrightarrow> remote_config_ok raw \<and> \<not> known remotes (rm_name raw) \<and>
     (\<exists>oauth. resolve_oauth path (rm_name raw) (rm_oauth raw) = Inr oauth \<and>
        resolve_remotes path getenv (bmap_update (rm_name raw) (\<lambda>_. remote_entry getenv raw oauth) remotes) raws = Inr m)"
    using o unfolding remote_config_ok_def check_remote_url_ok Let_def by blast
  finally show ?thesis .
qed

declare resolve_remotes.simps(2) [simp del]

lemma known_update [simp]: "known (bmap_update n f remotes) k \<longleftrightarrow> k = n \<or> known remotes k"
  by (simp add: known_def bmap_update_keys)

lemma resolve_remotes_ok:
  "(\<exists>m. resolve_remotes path getenv remotes raws = Inr m) \<longleftrightarrow>
     (\<forall>raw \<in> set raws. remote_config_ok raw) \<and> distinct (map rm_name raws) \<and>
     (\<forall>raw \<in> set raws. \<not> known remotes (rm_name raw))"
proof (induction raws arbitrary: remotes)
  case (Cons raw raws)
  let ?o = "\<exists>oauth. resolve_oauth path (rm_name raw) (rm_oauth raw) = Inr oauth"
  have ih: "(\<exists>m. resolve_remotes path getenv (bmap_update (rm_name raw) f remotes) raws = Inr m) \<longleftrightarrow>
        (\<forall>raw \<in> set raws. remote_config_ok raw) \<and> distinct (map rm_name raws) \<and>
        (\<forall>x \<in> set raws. rm_name x \<noteq> rm_name raw \<and> \<not> known remotes (rm_name x))" for f
    by (simp add: Cons.IH)
  have "(\<exists>m. resolve_remotes path getenv remotes (raw # raws) = Inr m) \<longleftrightarrow>
      remote_config_ok raw \<and> \<not> known remotes (rm_name raw) \<and>
      (\<exists>oauth. resolve_oauth path (rm_name raw) (rm_oauth raw) = Inr oauth \<and>
        (\<exists>m. resolve_remotes path getenv (bmap_update (rm_name raw) (\<lambda>_. remote_entry getenv raw oauth) remotes) raws = Inr m))"
    unfolding resolve_remotes_step by blast
  also have "\<dots> \<longleftrightarrow> remote_config_ok raw \<and> \<not> known remotes (rm_name raw) \<and> ?o \<and>
        (\<forall>raw \<in> set raws. remote_config_ok raw) \<and> distinct (map rm_name raws) \<and>
        (\<forall>x \<in> set raws. rm_name x \<noteq> rm_name raw \<and> \<not> known remotes (rm_name x))"
    unfolding ih by blast
  finally have "(\<exists>m. resolve_remotes path getenv remotes (raw # raws) = Inr m) \<longleftrightarrow>
      remote_config_ok raw \<and> \<not> known remotes (rm_name raw) \<and> ?o \<and>
        (\<forall>raw \<in> set raws. remote_config_ok raw) \<and> distinct (map rm_name raws) \<and>
        (\<forall>x \<in> set raws. rm_name x \<noteq> rm_name raw \<and> \<not> known remotes (rm_name x))" .
  moreover have "remote_config_ok raw \<Longrightarrow> ?o"
    using resolve_oauth_ok by (simp add: remote_config_ok_def)
  moreover have "(\<forall>x \<in> set raws. rm_name x \<noteq> rm_name raw) \<longleftrightarrow> rm_name raw \<notin> rm_name ` set raws" by (metis image_iff)
  ultimately show ?case by auto
qed simp

lemma resolve_remotes_names:
  "resolve_remotes path getenv remotes raws = Inr m \<Longrightarrow> bmap remotes \<Longrightarrow>
   bmap m \<and> (\<forall>n. known m n \<longleftrightarrow> known remotes n \<or> n \<in> rm_name ` set raws) \<and>
   length m = length remotes + length raws"
proof (induction raws arbitrary: remotes)
  case (Cons raw raws)
  then obtain r where r: "resolve_remotes path getenv (bmap_update (rm_name raw) (\<lambda>_. r) remotes) raws = Inr m"
    "\<not> known remotes (rm_name raw)" by (auto simp: resolve_remotes_step)
  have "rm_name raw \<notin> fst ` set xs \<Longrightarrow> length (bmap_update (rm_name raw) (\<lambda>_. r) xs) = Suc (length xs)"
    for xs :: "(rstr \<times> resolved_remote) list" by (induction xs) auto
  with r(2) have "length (bmap_update (rm_name raw) (\<lambda>_. r) remotes) = Suc (length remotes)" by (simp add: known_def)
  with Cons.IH [OF r(1) bmap_bmap_update [OF Cons.prems(2)]] show ?case by auto
qed simp


lemma resolve_wings_ok:
  "(\<exists>m. resolve_wings path remotes rows rules = Inr m) \<longleftrightarrow> (\<forall>(w, rule) \<in> set rules. rule_ok remotes rule)"
proof (induction rules arbitrary: rows)
  case (Cons e rules)
  obtain name rule where e: "e = (name, rule)" by (cases e)
  show ?case
  proof (cases "rule_ok remotes rule")
    case True
    then obtain r where "resolve_rule path (lit ''federation.wings.'' @ name) remotes rule = Inr r"
      using resolve_rule_ok by blast
    with True Cons.IH show ?thesis by (simp add: e bindE_def)
  next
    case False
    then have "\<nexists>r. resolve_rule path (lit ''federation.wings.'' @ name) remotes rule = Inr r"
      using resolve_rule_ok by blast
    with False show ?thesis by (auto simp: e bindE_eq_Inr)
  qed
qed simp

lemma check_coordination_key_ok: "check_coordination_key path name = Inr () \<longleftrightarrow> wing_normalized name = Inr name"
  by (auto simp: check_coordination_key_def split: sum.splits)

lemma resolve_rule_write:
  "resolve_rule path field remotes rule = Inr r \<Longrightarrow>
   rl_write r = WriteBoth \<longleftrightarrow> ru_mode rule = RouteCombined \<and> ru_write rule = Some WriteBoth"
  by (cases "ru_mode rule"; cases "ru_write rule") (auto simp: resolve_rule_def bindE_eq_Inr)

definition coordination_ok :: "(rstr \<times> resolved_remote) list \<Rightarrow> rstr \<times> route_rule \<Rightarrow> bool" where
  "coordination_ok remotes = (\<lambda>(w, rule). wing_normalized w = Inr w \<and> rule_ok remotes rule \<and>
     \<not> (ru_mode rule = RouteCombined \<and> ru_write rule = Some WriteBoth))"

lemma resolve_coordination_ok:
  "(\<exists>m. resolve_coordination path remotes rows rules = Inr m) \<longleftrightarrow> (\<forall>e \<in> set rules. coordination_ok remotes e)"
proof (induction rules arbitrary: rows)
  case (Cons e rules)
  obtain name rule where e: "e = (name, rule)" by (cases e)
  show ?case
  proof (cases "wing_normalized name = Inr name \<and> rule_ok remotes rule")
    case True
    then obtain r where r: "resolve_rule path (lit ''federation.coordination.'' @ name) remotes rule = Inr r"
      using resolve_rule_ok by blast
    have k: "check_coordination_key path name = Inr ()" using True by (simp add: check_coordination_key_ok)
    show ?thesis using True Cons.IH resolve_rule_write [OF r]
      by (simp add: e bindE_def r k coordination_ok_def)
  next
    case False
    then have "check_coordination_key path name \<noteq> Inr () \<or>
        (\<nexists>r. resolve_rule path (lit ''federation.coordination.'' @ name) remotes rule = Inr r)"
      using resolve_rule_ok check_coordination_key_ok by blast
    with False show ?thesis by (auto simp: e bindE_eq_Inr coordination_ok_def)
  qed
qed simp

lemma resolve_default_ok:
  "(\<exists>d. resolve_default path remotes mode remote = Inr d) \<longleftrightarrow>
     (if mode = RouteLocal then remote = None else remote_ok remotes remote)"
  by (cases mode; cases remote) (auto simp: resolve_default_def map_of_known remote_ok_def infer_single_remote_Inr)

lemma rule_ok_accepts:
  assumes "resolve_remotes path getenv [] (fs_remotes c) = Inr m"
  shows "rule_ok m rule \<longleftrightarrow> accepts_rule c rule"
    and "remote_ok m remote \<longleftrightarrow> (case remote of Some r \<Rightarrow> r \<in> rm_name ` set (fs_remotes c)
       | None \<Rightarrow> length (fs_remotes c) = 1)"
  using resolve_remotes_names [OF assms]
  by (auto simp: rule_ok_def accepts_rule_def remote_ok_def one_name_def known_def split: option.splits)

text \<open>Each of the five parts is accepted on its own, given the remotes.\<close>

lemma resolve_section_parts:
  assumes m: "resolve_remotes path getenv [] (fs_remotes c) = Inr m"
  shows "(\<exists>fd. resolve_federation_config path getenv (Some c) = Inr fd) \<longleftrightarrow>
     (\<exists>x. resolve_wings path m [] (fs_wings c) = Inr x) \<and>
     (\<forall>rule. fs_kg c = Some rule \<longrightarrow> rule_ok m rule) \<and>
     (\<exists>x. resolve_coordination path m [] (fs_coordination c) = Inr x) \<and>
     (\<exists>x. resolve_default path m (case fs_default_mode c of Some m \<Rightarrow> m | None \<Rightarrow> RouteLocal)
        (fs_default_remote c) = Inr x)"
proof -
  have kg: "(\<exists>x. (case fs_kg c of None \<Rightarrow> Inr None
      | Some rule \<Rightarrow> bindE (resolve_rule path (lit ''federation.kg'') m rule) (\<lambda>r. Inr (Some r))) = Inr x) \<longleftrightarrow>
     (\<forall>rule. fs_kg c = Some rule \<longrightarrow> rule_ok m rule)"
    using resolve_rule_ok by (auto split: option.splits)
  show ?thesis
    unfolding resolve_federation_config_def option.case Let_def bindE_Inr_iff kg [symmetric]
    using m by auto
qed

lemma accepted_iff: "(\<exists>fd. resolve_federation_config path getenv (Some c) = Inr fd) \<longleftrightarrow> accepts_section c"
proof (cases "\<exists>m. resolve_remotes path getenv [] (fs_remotes c) = Inr m")
  case False
  then have "\<not> ((\<forall>raw \<in> set (fs_remotes c). remote_config_ok raw) \<and> distinct (map rm_name (fs_remotes c)))"
    unfolding resolve_remotes_ok by (auto simp: known_def)
  moreover have "\<nexists>fd. resolve_federation_config path getenv (Some c) = Inr fd"
    using False by (auto simp: resolve_federation_config_def bindE_eq_Inr)
  ultimately show ?thesis unfolding accepts_section_def by blast
next
  case True
  then obtain m where m: "resolve_remotes path getenv [] (fs_remotes c) = Inr m" by blast
  have r: "(\<forall>raw \<in> set (fs_remotes c). remote_config_ok raw) \<and> distinct (map rm_name (fs_remotes c))"
    using True unfolding resolve_remotes_ok by blast
  show ?thesis
    unfolding resolve_section_parts [OF m] resolve_wings_ok resolve_coordination_ok resolve_default_ok
      rule_ok_accepts [OF m] coordination_ok_def
    using r unfolding accepts_section_def accepts_rule_def
    by (cases "fs_default_mode c"; cases "the (fs_default_mode c)") (auto split: option.splits)
qed


section \<open>The host a plain HTTP URL names\<close>

text \<open>
  RFC 3986, section 3.2: the authority ends at the first slash, question mark or number sign; what
  precedes an at sign in it is user information; the host is in brackets or ends at a colon.
\<close>

definition url_authority :: "rstr \<Rightarrow> rstr" where
  "url_authority url = takeWhile (\<lambda>c. c \<noteq> 47 \<and> c \<noteq> 63 \<and> c \<noteq> 35) (drop (length (lit ''http://'')) url)"

definition url_host :: "rstr \<Rightarrow> rstr" where
  "url_host url =
     (let hostport = rev (takeWhile (\<lambda>c. c \<noteq> 64) (rev (url_authority url))) in
      case strip_prefix (lit ''['') hostport of Some rest \<Rightarrow> before 93 rest | None \<Rightarrow> before 58 hostport)"

definition loopback_hosts :: "rstr set" where
  "loopback_hosts = {lit ''localhost'', lit ''127.0.0.1'', lit ''::1''}"

lemma takeWhile_stop: "(\<forall>x \<in> set p. P x) \<Longrightarrow> t = [] \<or> \<not> P (hd t) \<Longrightarrow> takeWhile P (p @ t) = p"
  by (cases t) (auto simp: takeWhile_append2)

lemma before_splits: "\<exists>t. s = before c s @ t \<and> (t = [] \<or> hd t = c)"
proof (intro exI conjI)
  show "s = before c s @ dropWhile (\<lambda>x. x \<noteq> c) s" by (simp add: before_def)
  show "dropWhile (\<lambda>x. x \<noteq> c) s = [] \<or> hd (dropWhile (\<lambda>x. x \<noteq> c) s) = c"
    using hd_dropWhile [of "\<lambda>x. x \<noteq> c" s] by blast
qed

lemma rev_takeWhile_all: "c \<notin> set s \<Longrightarrow> rev (takeWhile (\<lambda>x. x \<noteq> c) (rev s)) = s"
proof -
  assume "c \<notin> set s"
  then have "takeWhile (\<lambda>x. x \<noteq> c) (rev s) = rev s" unfolding takeWhile_eq_all_conv by auto
  then show ?thesis by (simp only: rev_rev_ident)
qed


lemma loopback_chars: "L \<in> loopback_hosts \<Longrightarrow> x \<in> set L \<Longrightarrow> x \<noteq> 47 \<and> x \<noteq> 63 \<and> x \<noteq> 35 \<and> x \<noteq> 91 \<and> x \<noteq> 93"
  by (auto simp: loopback_hosts_def lit_def)

text \<open>Cutting at the authority's end does not touch a name that stops before it.\<close>

lemma before_authority:
  assumes host: "before d (before 47 rest) = L" and L: "\<And>x. x \<in> set L \<Longrightarrow> x \<noteq> 47 \<and> x \<noteq> 63 \<and> x \<noteq> 35"
    and d: "d \<noteq> 47" "d \<noteq> 63" "d \<noteq> 35"
  shows "before d (takeWhile (\<lambda>c. c \<noteq> 47 \<and> c \<noteq> 63 \<and> c \<noteq> 35) rest) = L"
proof -
  obtain t where t: "rest = before 47 rest @ t" "t = [] \<or> hd t = 47"
    using before_splits by blast
  obtain u where u: "before 47 rest = L @ u" "u = [] \<or> hd u = d"
    using before_splits [of "before 47 rest" d] unfolding host by blast
  have dL: "d \<notin> set L" unfolding host [symmetric] before_def [of d] by (auto dest: set_takeWhileD)
  have rest: "rest = L @ (u @ t)" using t u by simp
  let ?Q = "\<lambda>c. c \<noteq> 47 \<and> c \<noteq> 63 \<and> c \<noteq> 35"
  have "takeWhile ?Q rest = L @ takeWhile ?Q (u @ t)"
    unfolding rest using L by (simp add: takeWhile_append2)
  moreover have "takeWhile ?Q (u @ t) = [] \<or> hd (takeWhile ?Q (u @ t)) = d"
    using u(2) t(2) d by (cases u; cases t) auto
  then have "before d (L @ takeWhile ?Q (u @ t)) = L"
    unfolding before_def using dL by (intro takeWhile_stop) auto
  ultimately show ?thesis by simp
qed

lemma loopback_sound:
  assumes acc: "is_loopback_http_url url" and at: "64 \<notin> set (url_authority url)"
  shows "url_host url \<in> loopback_hosts"
proof -
  let ?Q = "\<lambda>c. c \<noteq> 47 \<and> c \<noteq> 63 \<and> c \<noteq> (35::nat)"
  from acc obtain rest where rest: "drop (length (lit ''http://'')) url = rest"
    and host: "(case strip_prefix (lit ''['') (before 47 rest) of
        Some stripped \<Rightarrow> before 93 stripped | None \<Rightarrow> before 58 (before 47 rest)) \<in> loopback_hosts"
    by (auto simp: is_loopback_http_url_def strip_prefix_def Let_def loopback_hosts_def split: if_splits)
  have uh: "url_host url = (case strip_prefix (lit ''['') (takeWhile ?Q rest) of
      Some r \<Rightarrow> before 93 r | None \<Rightarrow> before 58 (takeWhile ?Q rest))"
    using rev_takeWhile_all [OF at] by (simp add: url_host_def Let_def url_authority_def rest)
  have bracket: "strip_prefix (lit ''['') s = (case s of [] \<Rightarrow> None | c # r \<Rightarrow> if c = 91 then Some r else None)" for s
    by (cases s) (auto simp: strip_prefix_def starts_with_def lit_def)
  show ?thesis
  proof (cases rest)
    case Nil
    with host show ?thesis by (simp add: before_def bracket loopback_hosts_def)
  next
    case (Cons c r)
    show ?thesis
    proof (cases "c = 91")
      case True
      then have "before 93 (before 47 r) \<in> loopback_hosts"
        using host Cons by (simp add: before_def bracket)
      then have "before 93 (takeWhile ?Q r) \<in> loopback_hosts"
        using before_authority [OF refl, of 93 r] loopback_chars by simp
      with True Cons uh show ?thesis by (simp add: bracket)
    next
      case False
      have "strip_prefix (lit ''['') (before 47 rest) = None" using False Cons by (simp add: before_def bracket)
      with host have h: "before 58 (before 47 rest) \<in> loopback_hosts" by simp
      have "before 58 (takeWhile ?Q rest) \<in> loopback_hosts"
        using before_authority [OF refl, of 58 rest] loopback_chars [OF h] h by simp
      moreover have "strip_prefix (lit ''['') (takeWhile ?Q rest) = None" using False Cons by (simp add: bracket)
      ultimately show ?thesis using uh by simp
    qed
  qed
qed


definition sneaky_url :: rstr where "sneaky_url = lit ''http://localhost:x@example.com/''"

definition sneaky_section :: federation_section where
  "sneaky_section = \<lparr> fs_remotes = [\<lparr> rm_name = lit ''r'', rm_url = sneaky_url, rm_token = Some (lit ''secret''),
     rm_token_env = None, rm_oauth = None, rm_timeout_ms = None \<rparr>],
     fs_default_mode = None, fs_default_remote = None, fs_wings = [], fs_kg = None, fs_coordination = [] \<rparr>"

section \<open>Properties\<close>


text \<open>
  With an accepted configuration every route is well formed: it is local and names no remote, or
  names a configured one; it writes away from the local palace only where it is combined; and a
  coordination route never writes to both palaces, whatever the wing is spelled like.
\<close>

theorem routes_well_formed:
  "case resolve_federation_config path getenv sect of Inl x \<Rightarrow> True
   | Inr fd \<Rightarrow> wf_rule (fd_remotes fd) (resolve_route fd project q) \<and>
       wf_rule (fd_remotes fd) (resolve_kg_route fd) \<and>
       wf_rule (fd_remotes fd) (resolve_coordination_route fd w) \<and>
       rl_write (resolve_coordination_route fd w) \<noteq> WriteBoth"
  using resolve_federation_config_wf [of path getenv sect] resolve_route_wf resolve_kg_route_wf
    resolve_coordination_route_wf by (cases "resolve_federation_config path getenv sect") auto

text \<open>
  The check that plain HTTP stays on this machine is right when the authority has no user
  information: then the host is a loopback name. With user information it is not: a URL whose host is
  another machine is accepted, and the configuration that sends a token there in clear text with it.
\<close>

theorem loopback_check_userinfo:
  "(if is_loopback_http_url url \<and> 64 \<notin> set (url_authority url) then url_host url \<in> loopback_hosts else True) \<and>
   url_host sneaky_url = lit ''example.com'' \<and> is_loopback_http_url sneaky_url \<and> accepts_section sneaky_section"
proof -
  have "url_host sneaky_url = lit ''example.com''"
    by (simp add: url_host_def url_authority_def sneaky_url_def lit_def before_def strip_prefix_def starts_with_def)
  moreover have l: "is_loopback_http_url sneaky_url"
    by (simp add: is_loopback_http_url_def sneaky_url_def lit_def before_def strip_prefix_def starts_with_def)
  moreover have "trim sneaky_url = sneaky_url"
    by (simp add: trim_fixpoint sneaky_url_def lit_def is_whitespace_def)
  moreover have "starts_with sneaky_url (lit ''http://'')" by (simp add: sneaky_url_def lit_def starts_with_def)
  ultimately have "accepts_section sneaky_section"
    by (simp add: accepts_section_def sneaky_section_def remote_config_ok_def Let_def)
  with loopback_sound [of url] \<open>url_host sneaky_url = lit ''example.com''\<close> l show ?thesis by auto
qed

end
