(* ===== verification/Federation_Router_Props.thy ===== *)
theory Federation_Router_Props
  imports Federation_Router Federation_Config_Props
begin

text \<open>
  The remotes a search or a coordination request reaches, what the sequential fall-backs may conclude
  from the answers, and merging by rank as a filter over the interleaved answers.
\<close>

section \<open>Merging by rank\<close>

definition rank_row :: "(rstr \<times> json_fields list) list \<Rightarrow> nat \<Rightarrow> (rstr \<times> json_fields) list" where
  "rank_row origins rank = concat (map (\<lambda>(o', rs). if rank < length rs then [(o', rs ! rank)] else []) origins)"

definition interleaved :: "(rstr \<times> json_fields list) list \<Rightarrow> (rstr \<times> json_fields) list" where
  "interleaved origins = concat (map (rank_row origins) [0 ..< Max (set (map (\<lambda>(_, r). length r) origins))])"

text \<open>The answers that repeat no earlier kept one.\<close>

fun keep_new :: "seen \<Rightarrow> (rstr \<times> json_fields) list \<Rightarrow> json_fields list" where
  "keep_new s [] = []"
| "keep_new s ((o', i) # rest) =
     (case is_duplicate_search_item i s of
        (dup, s') \<Rightarrow> if dup then keep_new s' rest else with_origin o' i # keep_new s' rest)"

definition nothing_seen :: seen where
  "nothing_seen = \<lparr> sn_ids = [], sn_hashes = [], sn_texts = [] \<rparr>"

lemma rank_row_Cons [simp]:
  "rank_row ((o', rs) # origins) rank = (if rank < length rs then [(o', rs ! rank)] else []) @ rank_row origins rank"
  by (simp add: rank_row_def)

lemma rank_row_Nil [simp]: "rank_row [] rank = []"
  by (simp add: rank_row_def)

lemma merge_rank_keeps:
  "merge_rank limit rank origins (s, merged) = (stop, s', merged') \<Longrightarrow>
   (if stop then limit \<le> length merged' \<and> (\<exists>rest. merged @ keep_new s (rank_row origins rank @ R) = merged' @ rest)
    else merged @ keep_new s (rank_row origins rank @ R) = merged' @ keep_new s' R)"
proof (induction origins arbitrary: s merged)
  case (Cons e origins)
  obtain origin results where e: "e = (origin, results)" by (cases e)
  show ?case
  proof (cases "limit \<le> length merged")
    case True
    with Cons.prems e show ?thesis by auto
  next
    case False
    obtain dup t where d: "is_duplicate_search_item (results ! rank) s = (dup, t)" by (metis surj_pair)
    let ?m = "if dup then merged else merged @ [with_origin origin (results ! rank)]"
    have "rank < length results \<Longrightarrow> merge_rank limit rank origins (t, ?m) = (stop, s', merged')"
      "\<not> rank < length results \<Longrightarrow> merge_rank limit rank origins (s, merged) = (stop, s', merged')"
      using Cons.prems False d e by simp_all
    from this [THEN Cons.IH] show ?thesis using d e by (cases "rank < length results"; cases dup) auto
  qed
qed auto

lemma merge_ranks_keeps:
  "take limit (merge_ranks limit origins ranks (s, merged)) =
   take limit (merged @ keep_new s (concat (map (rank_row origins) ranks)))"
proof (induction ranks arbitrary: s merged)
  case (Cons rank ranks)
  obtain stop s' merged' where m: "merge_rank limit rank origins (s, merged) = (stop, s', merged')" by (metis surj_pair)
  note keeps = merge_rank_keeps [OF m, of "concat (map (rank_row origins) ranks)"]
  show ?case
  proof (cases stop)
    case True
    with keeps obtain rest where *: "limit \<le> length merged'"
      "merged @ keep_new s (rank_row origins rank @ concat (map (rank_row origins) ranks)) = merged' @ rest" by auto
    then have "take limit (merged @ keep_new s (concat (map (rank_row origins) (rank # ranks)))) = take limit merged'"
      by simp
    with True m show ?thesis by simp
  next
    case False
    with keeps m Cons.IH [of s' merged'] show ?thesis by simp
  qed
qed simp


lemma map_of_json_insert: "map_of (json_insert k v fs) k' = (if k' = k then Some v else map_of fs k')"
  by (induction k v fs rule: json_insert.induct) auto

lemma text_field_with_origin: "k \<noteq> lit ''origin'' \<Longrightarrow> text_field (with_origin o' i) k = text_field i k"
  by (simp add: text_field_def with_origin_def map_of_json_insert)

lemma with_origin_keys [simp]:
  "item_id (with_origin o' i) = item_id i" "item_hash (with_origin o' i) = item_hash i"
  "item_text (with_origin o' i) = item_text i"
  by (simp_all add: item_id_def item_hash_def item_text_def text_field_with_origin)

lemma set_note_key: "set (note_key k ks) = set ks \<union> set_option k"
  by (auto simp: note_key_def split: option.splits)

lemma keep_new_ids:
  "distinct (List.map_filter item_id (keep_new s rows)) \<and>
   set (sn_ids s) \<inter> set (List.map_filter item_id (keep_new s rows)) = {}"
proof (induction rows arbitrary: s)
  case (Cons r rest)
  obtain o' i where r: "r = (o', i)" by (cases r)
  obtain dup t where d: "is_duplicate_search_item i s = (dup, t)" by (metis surj_pair)
  from Cons [of t] d show ?case
    by (cases "item_id i")
      (auto simp: r is_duplicate_search_item_def Let_def List.map_filter_simps set_note_key split: if_splits)
qed (simp add: List.map_filter_simps)

text \<open>An answer is represented by itself, by one with its identifier, or, without one, by its content.\<close>

definition same_item :: "json_fields \<Rightarrow> json_fields \<Rightarrow> bool" where
  "same_item i j \<longleftrightarrow> (case item_id i of
      Some d \<Rightarrow> item_id j = Some d
    | None \<Rightarrow> (item_hash i \<noteq> None \<and> item_hash j = item_hash i) \<or> (item_text i \<noteq> None \<and> item_text j = item_text i))"

definition represented :: "json_fields list \<Rightarrow> rstr \<times> json_fields \<Rightarrow> bool" where
  "represented out = (\<lambda>(o', i). with_origin o' i \<in> set out \<or> (\<exists>j \<in> set out. same_item i j))"

lemma same_item_with_origin [simp]: "same_item i (with_origin o' j) = same_item i j"
  by (simp only: same_item_def with_origin_keys)

definition seen_before :: "seen \<Rightarrow> json_fields \<Rightarrow> bool" where
  "seen_before s i \<longleftrightarrow> fst (is_duplicate_search_item i s)"

lemma seen_before_note:
  assumes "is_duplicate_search_item i s = (False, t)" and "seen_before t j"
  shows "seen_before s j \<or> same_item j i"
  using assms
  by (cases "item_id j")
    (auto simp: seen_before_def is_duplicate_search_item_def Let_def same_item_def set_note_key
      opt_holds_iff split: if_splits)

lemma keep_new_represents:
  "(o', i) \<in> set rows \<Longrightarrow> seen_before s i \<or> represented (keep_new s rows) (o', i)"
proof (induction rows arbitrary: s)
  case (Cons r rest)
  obtain o1 i1 where r: "r = (o1, i1)" by (cases r)
  obtain dup t where d: "is_duplicate_search_item i1 s = (dup, t)" by (metis surj_pair)
  have weak: "represented out (o', i) \<Longrightarrow> represented (v # out) (o', i)" for v out
    by (auto simp: represented_def)
  show ?case
  proof (cases dup)
    case True
    then have t: "t = s" using d by (auto simp: is_duplicate_search_item_def Let_def split: if_splits)
    have out: "keep_new s (r # rest) = keep_new s rest" using r d True t by simp
    from Cons.prems r consider "i = i1" | "(o', i) \<in> set rest" by auto
    then show ?thesis
    proof cases
      case 1
      with True d show ?thesis by (simp add: seen_before_def)
    next
      case 2
      with Cons.IH out show ?thesis by simp
    qed
  next
    case False
    then have out: "keep_new s (r # rest) = with_origin o1 i1 # keep_new t rest" using r d by simp
    from Cons.prems r consider "(o', i) = (o1, i1)" | "(o', i) \<in> set rest" by auto
    then show ?thesis
    proof cases
      case 1
      then show ?thesis unfolding out by (simp add: represented_def)
    next
      case 2
      have "same_item i i1 \<Longrightarrow> represented (keep_new s (r # rest)) (o', i)"
        unfolding out by (simp add: represented_def)
      moreover have "seen_before t i \<Longrightarrow> seen_before s i \<or> same_item i i1"
        using seen_before_note d False by simp
      ultimately show ?thesis using Cons.IH [OF 2, of t] weak out by auto
    qed
  qed
qed simp

lemma keep_new_subset: "set (keep_new s rows) \<subseteq> (\<lambda>(o', i). with_origin o' i) ` set rows"
proof (induction rows arbitrary: s)
  case (Cons r rest)
  obtain o' i where r: "r = (o', i)" by (cases r)
  obtain dup t where "is_duplicate_search_item i s = (dup, t)" by (metis surj_pair)
  with Cons.IH [of t] show ?case by (cases dup) (auto simp: r)
qed simp

lemma nothing_seen_before: "\<not> seen_before nothing_seen i"
  by (auto simp: seen_before_def is_duplicate_search_item_def Let_def nothing_seen_def opt_holds_iff split: option.splits)


section \<open>Where requests may go\<close>

lemma set_map_filter: "set (List.map_filter f xs) = {y. \<exists>x \<in> set xs. f x = Some y}"
  by (induction xs) (auto simp: List.map_filter_simps split: option.splits)

text \<open>The remotes the rules for drawers name, and those the rules for coordination name.\<close>

definition named_by :: "resolved_rule set \<Rightarrow> rstr set" where
  "named_by rules = {n. \<exists>rule \<in> rules. rl_mode rule \<noteq> RouteLocal \<and> rl_remote rule = Some n}"

lemma named_byI: "rule \<in> rules \<Longrightarrow> rl_mode rule \<noteq> RouteLocal \<Longrightarrow> rl_remote rule = Some n \<Longrightarrow> n \<in> named_by rules"
  by (auto simp: named_by_def)

definition drawer_remotes :: "federation \<Rightarrow> rstr set" where
  "drawer_remotes fd = named_by (insert (rule_from_default_mode fd) (snd ` set (fd_wings fd)))"

definition coordination_remotes :: "federation \<Rightarrow> rstr set" where
  "coordination_remotes fd = named_by (insert (rule_from_default_mode fd) (snd ` set (fd_coordination fd)))"

lemma route_named:
  "rl_mode (resolve_route fd None q) \<noteq> RouteLocal \<Longrightarrow> rl_remote (resolve_route fd None q) = Some n \<Longrightarrow>
   n \<in> drawer_remotes fd"
proof -
  assume r: "rl_mode (resolve_route fd None q) \<noteq> RouteLocal" "rl_remote (resolve_route fd None q) = Some n"
  have "resolve_route fd None q = local_rule \<or>
      resolve_route fd None q \<in> insert (rule_from_default_mode fd) (snd ` set (fd_wings fd))"
    by (force simp: resolve_route_def bind_eq_Some_conv dest: map_of_SomeD split: option.splits)
  then show ?thesis unfolding drawer_remotes_def using r by (auto simp: local_rule_def intro!: named_byI [OF _ r])
qed

lemma plan_targets_named: "set (snd (plan_search_targets rt wing room)) \<subseteq> drawer_remotes (rt_rules rt) \<inter> set (rt_remotes rt)"
proof -
  have b: "set (built_remote rt rule) \<subseteq> set (rt_remotes rt)"
    "n \<in> set (built_remote rt rule) \<Longrightarrow> rl_remote rule = Some n" for rule n
    by (auto simp: built_remote_def split: option.splits if_splits)
  have r: "set (built_remote rt (resolve_drawer_route rt w room None)) \<subseteq> drawer_remotes (rt_rules rt)"
    if "rl_mode (resolve_drawer_route rt w room None) \<noteq> RouteLocal" for w
    using that route_named b(2) unfolding resolve_drawer_route_def by blast
  have t: "set (built_remote rt rule) \<subseteq> drawer_remotes (rt_rules rt)"
    if "rule \<in> snd ` set (fd_wings (rt_rules rt))" "rl_mode rule \<noteq> RouteLocal" for rule
    unfolding drawer_remotes_def using that b(2) named_byI by blast
  show ?thesis
  proof (cases wing)
    case None
    have "x \<in> drawer_remotes (rt_rules rt) \<inter> set (rt_remotes rt)"
      if "x \<in> set (snd (plan_search_targets rt None room))" for x
    proof -
      from that obtain rule where rule: "x \<in> set (built_remote rt rule)" "rl_mode rule \<noteq> RouteLocal"
        "rule = resolve_drawer_route rt None room None \<or> rule \<in> snd ` set (fd_wings (rt_rules rt))"
        by (auto simp: plan_search_targets_def split: if_splits)
      with b(1) r [of None] t [of rule] show ?thesis by blast
    qed
    with None show ?thesis by blast
  next
    case (Some w)
    with b(1) [of "resolve_drawer_route rt (Some w) room None"] r [of "Some w"] show ?thesis
      by (auto simp: plan_search_targets_def Let_def split: if_splits route_mode.splits)
  qed
qed

lemma candidate_remotes_iff:
  "n \<in> set (coordination_candidate_remotes rt) \<longleftrightarrow>
     (\<exists>w rule. (w, rule) \<in> set (fd_coordination (rt_rules rt)) \<and> rl_remote rule = Some n) \<or>
     fd_default_mode (rt_rules rt) \<noteq> RouteLocal \<and> fd_default_remote (rt_rules rt) = Some n"
proof -
  let ?f = "\<lambda>(w :: rstr, rule). rl_remote rule" and ?rows = "fd_coordination (rt_rules rt)"
  have "n \<in> set (List.map_filter ?f ?rows) \<longleftrightarrow> (\<exists>x \<in> set ?rows. ?f x = Some n)"
    unfolding set_map_filter by blast
  also have "\<dots> \<longleftrightarrow> (\<exists>w rule. (w, rule) \<in> set ?rows \<and> rl_remote rule = Some n)" by (simp add: Bex_def split_paired_Ex)
  finally have *: "n \<in> set (List.map_filter ?f ?rows) \<longleftrightarrow> (\<exists>w rule. (w, rule) \<in> set ?rows \<and> rl_remote rule = Some n)" .
  have "n \<in> set (coordination_candidate_remotes rt) \<longleftrightarrow> n \<in> set (List.map_filter ?f ?rows) \<or>
      fd_default_mode (rt_rules rt) \<noteq> RouteLocal \<and> fd_default_remote (rt_rules rt) = Some n"
    unfolding coordination_candidate_remotes_def set_bset_of set_append Un_iff
    by (cases "fd_default_remote (rt_rules rt)"; cases "fd_default_mode (rt_rules rt) = RouteLocal") (simp_all add: eq_commute)
  with * show ?thesis by simp
qed

lemma candidates_named: "wf_federation (rt_rules rt) \<Longrightarrow>
   set (coordination_candidates rt) \<subseteq> coordination_remotes (rt_rules rt) \<inter> set (rt_remotes rt)"
proof -
  assume wf: "wf_federation (rt_rules rt)"
  have "n \<in> coordination_remotes (rt_rules rt)"
    if "(w, rule) \<in> set (fd_coordination (rt_rules rt))" "rl_remote rule = Some n" for w rule n
  proof -
    have "wf_rule (fd_remotes (rt_rules rt)) rule"
      using wf that(1) by (auto simp: wf_federation_def wf_rules_def)
    then have "rl_mode rule \<noteq> RouteLocal" using that(2) by (auto simp: wf_rule_def)
    with that show ?thesis by (force simp: coordination_remotes_def named_by_def)
  qed
  moreover have "n \<in> coordination_remotes (rt_rules rt)"
    if "fd_default_mode (rt_rules rt) \<noteq> RouteLocal" "fd_default_remote (rt_rules rt) = Some n" for n
    using that by (cases "fd_default_mode (rt_rules rt)") (auto simp: coordination_remotes_def named_by_def rule_from_default_mode_def)
  ultimately show ?thesis unfolding coordination_candidates_def
    by (auto simp: candidate_remotes_iff)
qed

lemma coordination_route_named:
  "rl_mode (resolve_coordination_route fd w) \<noteq> RouteLocal \<Longrightarrow> rl_remote (resolve_coordination_route fd w) = Some n \<Longrightarrow>
   n \<in> coordination_remotes fd"
proof -
  assume r: "rl_mode (resolve_coordination_route fd w) \<noteq> RouteLocal" "rl_remote (resolve_coordination_route fd w) = Some n"
  have "resolve_coordination_route fd w = local_rule \<or>
      resolve_coordination_route fd w \<in> insert (rule_from_default_mode fd) (snd ` set (fd_coordination fd))"
    by (force simp: resolve_coordination_route_def dest: map_of_SomeD split: option.splits sum.splits)
  then show ?thesis unfolding coordination_remotes_def using r by (auto simp: local_rule_def intro!: named_byI [OF _ r])
qed


lemma read_asked: "\<exists>rest. ns = snd (read_from ask ns) @ rest"
  by (induction ns) (auto split: sum.splits prod.splits)

lemma write_asked: "\<exists>rest. ns = snd (write_to ask ns) @ rest"
  by (induction ns) (auto split: sum.splits prod.splits)

section \<open>Writes that look for their record\<close>

definition misses :: "(rstr \<Rightarrow> remote_error + json) \<Rightarrow> rstr set" where
  "misses ask = {n. \<exists>x. ask n = Inl x \<and> not_this_palace x}"

lemma write_to_outcome:
  "case write_to ask ns of
     (Inr None, asked) \<Rightarrow> asked = ns \<and> set ns \<subseteq> misses ask
   | (Inr (Some v), asked) \<Rightarrow> (\<exists>before n rest w. asked = before @ [n] \<and> ns = asked @ rest \<and> set before \<subseteq> misses ask \<and>
       ask n = Inr w)
   | (Inl x, asked) \<Rightarrow> (\<exists>before n rest e. asked = before @ [n] \<and> ns = asked @ rest \<and> set before \<subseteq> misses ask \<and>
       ask n = Inl e \<and> \<not> not_this_palace e)"
proof (induction ns)
  case (Cons n ns)
  show ?case
  proof (cases "ask n")
    case (Inr v)
    then show ?thesis by (auto intro!: exI [of _ "[]"])
  next
    case (Inl x)
    show ?thesis
    proof (cases "not_this_palace x")
      case False
      with Inl show ?thesis by (auto intro!: exI [of _ "[]"])
    next
      case True
      with Inl have m: "n \<in> misses ask" by (simp add: misses_def)
      obtain r asked where w: "write_to ask ns = (r, asked)" by (metis surj_pair)
      have "\<exists>before k rest w. n # asked = before @ [k] \<and> n # ns = n # asked @ rest \<and> set before \<subseteq> misses ask \<and> P k w"
        if "\<exists>before k rest w. asked = before @ [k] \<and> ns = asked @ rest \<and> set before \<subseteq> misses ask \<and> P k w"
        for P :: "rstr \<Rightarrow> 'b \<Rightarrow> bool"
      proof -
        from that obtain bef k rest w where "asked = bef @ [k]" "ns = asked @ rest" "set bef \<subseteq> misses ask" "P k w" by blast
        with m show ?thesis by (intro exI [of _ "n # bef"] exI [of _ k] exI [of _ rest] exI [of _ w]) auto
      qed
      with Cons.IH w m True Inl show ?thesis by (cases r) (auto split: option.splits)
    qed
  qed
qed simp

section \<open>Properties\<close>

text \<open>
  C24: Merging the answers of several palaces by rank keeps, in the order of rank and palace, the answers
  that repeat no earlier one, up to the limit: identifiers are distinct, and unless the limit was
  reached every answer is represented by itself, by one with its identifier, or, if it has none, by one
  with its content. Only the answers of the palaces appear, marked with where they came from.
\<close>

theorem merged_search_results:
  "let out = merge_search_results_nway origins limit; rows = interleaved origins in
   if length origins < 2 then True else
     out = take limit (keep_new nothing_seen rows) \<and> length out \<le> limit \<and>
     distinct (List.map_filter item_id out) \<and> set out \<subseteq> (\<lambda>(o', i). with_origin o' i) ` set rows \<and>
     (if length out < limit then set rows \<subseteq> Collect (represented out) else True)"
proof (cases "length origins < 2")
  case False
  let ?out = "merge_search_results_nway origins limit" and ?rows = "interleaved origins"
  obtain a b rest where o: "origins = a # b # rest" using False by (cases origins; cases "tl origins") auto
  have out: "?out = take limit (keep_new nothing_seen ?rows)"
    using merge_ranks_keeps [of limit origins _ nothing_seen "[]"]
    by (simp add: merge_search_results_nway_def o interleaved_def nothing_seen_def split_def)
  have mf: "List.map_filter item_id (xs @ ys) = List.map_filter item_id xs @ List.map_filter item_id ys" for xs ys
    by (simp add: List.map_filter_def)
  have "distinct (List.map_filter item_id (take limit (keep_new nothing_seen ?rows) @ drop limit (keep_new nothing_seen ?rows)))"
    using keep_new_ids by simp
  then have d: "distinct (List.map_filter item_id ?out)" unfolding mf out by simp
  have sub: "set ?out \<subseteq> (\<lambda>(o', i). with_origin o' i) ` set ?rows"
    unfolding out by (rule subset_trans [OF set_take_subset keep_new_subset])
  have "represented ?out r" if "length ?out < limit" "r \<in> set ?rows" for r
  proof -
    have "?out = keep_new nothing_seen ?rows" using that(1) unfolding out by simp
    with that(2) keep_new_represents [of "fst r" "snd r" ?rows nothing_seen] nothing_seen_before show ?thesis by simp
  qed
  then have "if length ?out < limit then set ?rows \<subseteq> Collect (represented ?out) else True" by auto
  moreover have "length ?out \<le> limit" unfolding out by simp
  ultimately show ?thesis unfolding Let_def if_not_P [OF False] by (intro conjI out d sub)
qed (simp add: Let_def)


text \<open>
  C22: With an accepted configuration no request goes to a remote that the rules for its kind do not name
  and that no client was built for: searches go to remotes named by drawer rules, coordination reads and
  writes to remotes named by coordination rules, in order and each asked once. Search targets are
  distinct, nothing of the diary is searched elsewhere, a task's destination always exists, and a task
  placed at a remote is placed where later look-ups ask.
\<close>

theorem requests_go_where_configured:
  "case resolve_federation_config path getenv sect of Inl x \<Rightarrow> True
   | Inr fd \<Rightarrow>
      (let rt = \<lparr> rt_rules = fd, rt_remotes = built \<rparr>; rule = resolve_coordination_route fd w in
       set (snd (plan_search_targets rt wing room)) \<subseteq> drawer_remotes fd \<inter> set built \<and>
       distinct (snd (plan_search_targets rt wing room)) \<and>
       plan_search_targets rt (Some SHARED_AGENT_DIARY_WING) room = (True, []) \<and>
       plan_search_targets rt wing (Some DIARY_ROOM) = (True, []) \<and>
       set (snd (coordination_read_fallback rt ask)) \<subseteq> coordination_remotes fd \<inter> set built \<and>
       set (snd (coordination_write_fallback rt ask)) \<subseteq> coordination_remotes fd \<inter> set built \<and>
       coordination_destination rt w \<noteq> None \<and>
       (if resolve_write_target rule = WriteRemote
        then \<exists>n. rl_remote rule = Some n \<and> n \<in> set (coordination_candidate_remotes rt) \<and>
               coordination_federation_enabled rt else True))"
proof (cases "resolve_federation_config path getenv sect")
  case (Inr fd)
  let ?rt = "\<lparr> rt_rules = fd, rt_remotes = built \<rparr>" and ?rule = "resolve_coordination_route fd w"
  have wf: "wf_federation fd" using Inr by (rule resolve_federation_config_wf)
  have c: "set (coordination_candidates ?rt) \<subseteq> coordination_remotes fd \<inter> set built"
    using candidates_named [of ?rt] wf by simp
  have sub: "set xs \<subseteq> set ns" if "\<exists>rest. ns = xs @ rest" for xs ns :: "rstr list" using that by auto
  have r: "set (snd (coordination_read_fallback ?rt ask)) \<subseteq> set (coordination_candidates ?rt)"
    using sub [OF read_asked] by (simp add: coordination_read_fallback_def)
  have w: "set (snd (coordination_write_fallback ?rt ask)) \<subseteq> set (coordination_candidates ?rt)"
    using sub [OF write_asked] by (simp add: coordination_write_fallback_def)
  note route = resolve_coordination_route_wf [OF wf, of w]
  have dest: "coordination_destination ?rt w \<noteq> None"
    using route by (cases "rl_write ?rule")
      (auto simp: coordination_destination_def Let_def resolve_write_target_def split: route_mode.splits)
  have placed: "\<exists>n. rl_remote ?rule = Some n \<and> n \<in> set (coordination_candidate_remotes ?rt) \<and> coordination_federation_enabled ?rt"
    if wr: "resolve_write_target ?rule = WriteRemote"
  proof -
    have m: "rl_mode ?rule \<noteq> RouteLocal" using wr by (auto simp: resolve_write_target_def)
    with route obtain n where n: "rl_remote ?rule = Some n" by (auto simp: wf_rule_def)
    have "?rule = local_rule \<or> ?rule = rule_from_default_mode fd \<or> ?rule \<in> snd ` set (fd_coordination fd)"
      by (force simp: resolve_coordination_route_def dest: map_of_SomeD split: option.splits sum.splits)
    then consider (default) "?rule = rule_from_default_mode fd" | (rule) v where "(v, ?rule) \<in> set (fd_coordination fd)"
      using m by (auto simp: local_rule_def)
    then show ?thesis
    proof cases
      case default
      with m n have "fd_default_mode fd \<noteq> RouteLocal" "fd_default_remote fd = Some n"
        by (auto simp: rule_from_default_mode_def local_rule_def split: route_mode.splits)
      with n show ?thesis unfolding candidate_remotes_iff by (simp add: coordination_federation_enabled_def)
    next
      case rule
      with n show ?thesis unfolding candidate_remotes_iff by (auto simp: coordination_federation_enabled_def)
    qed
  qed
  have "distinct (snd (plan_search_targets ?rt wing room))"
    by (auto simp: plan_search_targets_def Let_def built_remote_def split: option.splits route_mode.splits)
  moreover have "plan_search_targets ?rt (Some SHARED_AGENT_DIARY_WING) room = (True, [])"
    "plan_search_targets ?rt wing (Some DIARY_ROOM) = (True, [])" by (simp_all add: plan_search_targets_def)
  moreover have "set (snd (plan_search_targets ?rt wing room)) \<subseteq> drawer_remotes fd \<inter> set built"
    using plan_targets_named [of ?rt wing room] by simp
  ultimately show ?thesis unfolding Inr sum.case Let_def using c r w dest placed by auto
qed simp



text \<open>The key of a fact joins its fields with a bar and does not escape them, so two facts can share it.\<close>

definition barred_fact :: "string \<Rightarrow> string \<Rightarrow> json" where
  "barred_fact s p = JObject [(lit ''object'', JString (lit ''o'')), (lit ''predicate'', JString (lit p)),
     (lit ''subject'', JString (lit s))]"

lemma kg_merge_drops_distinct_fact:
  "array_at (JObject (merge_kg_facts [(lit ''facts'', JArray [barred_fact ''a|b'' ''c''])]
     (JObject [(lit ''facts'', JArray [barred_fact ''a'' ''b|c''])]) (lit ''hub''))) (lit ''facts'') =
   [barred_fact ''a|b'' ''c'']"
proof -
  have k: "kg_fact_dedup_key (annotate_row (lit ''hub'') (barred_fact ''a'' ''b|c'')) = kg_fact_dedup_key (barred_fact ''a|b'' ''c'')"
    by (simp add: kg_fact_dedup_key_def joined_def text_at_def barred_fact_def annotate_row_def lit_def map_of_json_insert)
  have l: "array_at (JObject [(lit ''facts'', JArray [barred_fact ''a|b'' ''c''])]) (lit ''facts'') = [barred_fact ''a|b'' ''c'']"
    by (simp add: array_at_def)
  have r: "array_at (annotate_kg_facts_origin (JObject [(lit ''facts'', JArray [barred_fact ''a'' ''b|c''])]) (lit ''hub''))
      (lit ''facts'') = [annotate_row (lit ''hub'') (barred_fact ''a'' ''b|c'')]"
    by (simp add: array_at_def annotate_kg_facts_origin_def)
  show ?thesis unfolding merge_kg_facts_def merge_kg_def Let_def l r
    by (simp add: k array_at_def map_of_json_insert)
qed

end
