(* ===== verification/Text_Chunks.thy ===== *)
theory Text_Chunks
  imports Prelude Rust_Collections
begin

text \<open>
  Cutting the text of a project file into chunks (\<open>chunk_project_text\<close> of \<open>crates/agentpalace-ingest/src/lib.rs\<close>)
  and the line numbers of byte ranges (\<open>compute_line_numbers\<close>). All positions are byte offsets;
  \<open>None\<close> is the panic of slicing a text inside a character.
\<close>

text \<open>
  Byte offsets into a \<open>&str\<close>. A text is its list of characters; \<open>off s k\<close> is the offset of character
  \<open>k\<close> in its UTF-8 encoding, so the character boundaries are the offsets of the positions up to the
  length. Slicing at an offset that is none panics, which is \<open>None\<close> here.
\<close>

fun is_char_boundary :: "rstr \<Rightarrow> nat \<Rightarrow> bool" where
  "is_char_boundary [] n = (n = 0)"
| "is_char_boundary (c # cs) n = (n = 0 \<or> (utf8_width c \<le> n \<and> is_char_boundary cs (n - utf8_width c)))"

text \<open>The characters from a byte offset on, and those before one.\<close>

fun drop_bytes :: "nat \<Rightarrow> rstr \<Rightarrow> rstr" where
  "drop_bytes n [] = []"
| "drop_bytes n (c # cs) = (if n = 0 then c # cs else drop_bytes (n - utf8_width c) cs)"

fun take_bytes :: "nat \<Rightarrow> rstr \<Rightarrow> rstr" where
  "take_bytes n [] = []"
| "take_bytes n (c # cs) = (if utf8_width c \<le> n then c # take_bytes (n - utf8_width c) cs else [])"

definition byte_slice :: "rstr \<Rightarrow> nat \<Rightarrow> nat \<Rightarrow> rstr option" where
  "byte_slice s a b =
     (if a \<le> b \<and> is_char_boundary s a \<and> is_char_boundary s b then Some (take_bytes (b - a) (drop_bytes a s)) else None)"

section \<open>Offsets of characters\<close>

definition off :: "rstr \<Rightarrow> nat \<Rightarrow> nat" where
  "off s k = str_len (take k s)"

lemma off_0 [simp]: "off s 0 = 0"
  by (simp add: off_def)

lemma off_Cons_Suc [simp]: "off (c # s) (Suc k) = utf8_width c + off s k"
  by (simp add: off_def)

lemma off_length [simp]: "length s \<le> k \<Longrightarrow> off s k = str_len s"
  by (simp add: off_def)

lemma off_add: "off s (i + j) = off s i + off (drop i s) j"
  by (simp add: off_def take_add)

lemma off_le: "off s k \<le> str_len s"
  by (metis append_take_drop_id le_add1 off_def str_len_append)

lemma off_mono: "i \<le> j \<Longrightarrow> off s i \<le> off s j"
  by (metis le_add1 le_add_diff_inverse off_add)

lemma off_less: "i < j \<Longrightarrow> j \<le> length s \<Longrightarrow> off s i < off s j"
proof (induction s arbitrary: i j)
  case (Cons c s)
  then show ?case using utf8_width_pos [of c] by (cases i; cases j) auto
qed simp

lemma off_less_iff: "i \<le> length s \<Longrightarrow> j \<le> length s \<Longrightarrow> off s i < off s j \<longleftrightarrow> i < j"
  by (metis leD leI off_less off_mono)

lemma off_le_iff: "i \<le> length s \<Longrightarrow> j \<le> length s \<Longrightarrow> off s i \<le> off s j \<longleftrightarrow> i \<le> j"
  by (metis leD leI off_less off_mono)

lemma off_eq_iff: "i \<le> length s \<Longrightarrow> j \<le> length s \<Longrightarrow> off s i = off s j \<longleftrightarrow> i = j"
  by (metis nat_neq_iff off_less)

lemma boundary_off: "is_char_boundary s (off s k)"
proof (induction s arbitrary: k)
  case (Cons c s)
  then show ?case by (cases k) auto
qed (simp add: off_def)

lemma boundaryE:
  assumes "is_char_boundary s n"
  obtains k where "k \<le> length s" and "n = off s k"
  using assms
proof (induction s n arbitrary: thesis rule: is_char_boundary.induct)
  case (1 n)
  then show ?case by simp
next
  case (2 c cs n)
  show ?case
  proof (cases "n = 0")
    case True
    with 2(2) [of 0] show ?thesis by simp
  next
    case False
    then have w: "utf8_width c \<le> n" "is_char_boundary cs (n - utf8_width c)" using 2(3) by auto
    then obtain k where "k \<le> length cs" "n - utf8_width c = off cs k" using 2(1) False by blast
    with w show ?thesis using 2(2) [of "Suc k"] by simp
  qed
qed

lemma boundary_0 [simp]: "is_char_boundary s 0"
  using boundary_off [of s 0] by simp

lemma boundary_len [simp]: "is_char_boundary s (str_len s)"
  using boundary_off [of s "length s"] by simp

lemma drop_bytes_off: "k \<le> length s \<Longrightarrow> drop_bytes (off s k) s = drop k s"
proof (induction s arbitrary: k)
  case (Cons c s)
  then show ?case using utf8_width_pos [of c] by (cases k) auto
qed simp

lemma take_bytes_off: "k \<le> length s \<Longrightarrow> take_bytes (off s k) s = take k s"
proof (induction s arbitrary: k)
  case (Cons c s)
  then show ?case using utf8_width_pos [of c] by (cases k) auto
qed simp

lemma byte_slice_off:
  assumes "i \<le> j" "j \<le> length s"
  shows "byte_slice s (off s i) (off s j) = Some (take (j - i) (drop i s))"
proof -
  have "off s j - off s i = off (drop i s) (j - i)" using off_add [of s i "j - i"] assms(1) by simp
  with assms show ?thesis
    by (simp add: byte_slice_def boundary_off off_mono drop_bytes_off take_bytes_off)
qed

lemma byte_sliceE:
  assumes "byte_slice s a b = Some t"
  obtains i j where "i \<le> j" "j \<le> length s" "a = off s i" "b = off s j" "t = take (j - i) (drop i s)"
proof -
  from assms have bd: "a \<le> b" "is_char_boundary s a" "is_char_boundary s b" by (auto simp: byte_slice_def split: if_splits)
  from bd(2) obtain i where i: "i \<le> length s" "a = off s i" by (rule boundaryE)
  from bd(3) obtain j where j: "j \<le> length s" "b = off s j" by (rule boundaryE)
  have "i \<le> j" using bd(1) i j off_le_iff by blast
  with that i j assms byte_slice_off [of i j s] show thesis by simp
qed

lemma byte_slice_len: "byte_slice s a b = Some t \<Longrightarrow> str_len t = b - a"
proof -
  assume "byte_slice s a b = Some t"
  then obtain i j where ij: "i \<le> j" "j \<le> length s" "a = off s i" "b = off s j" "t = take (j - i) (drop i s)" by (rule byte_sliceE)
  have "off s j = off s i + off (drop i s) (j - i)" using off_add [of s i "j - i"] ij(1) by simp
  with ij show ?thesis by (simp add: off_def)
qed

section \<open>Aligning\<close>

fun align_down :: "rstr \<Rightarrow> nat \<Rightarrow> nat" where
  "align_down s n = (if n = 0 \<or> is_char_boundary s n then n else align_down s (n - 1))"

declare align_down.simps [simp del]

lemma align_down_boundary: "is_char_boundary s (align_down s n)"
  by (induction s n rule: align_down.induct) (subst align_down.simps, auto)

lemma align_down_le: "align_down s n \<le> n"
  by (induction s n rule: align_down.induct) (subst align_down.simps, auto)

text \<open>It is the last boundary up to \<open>n\<close>, and less than a character before it.\<close>

lemma align_down_last: "m \<le> n \<Longrightarrow> is_char_boundary s m \<Longrightarrow> m \<le> align_down s n"
proof (induction s n rule: align_down.induct)
  case (1 s n)
  show ?case
  proof (cases "n = 0 \<or> is_char_boundary s n")
    case True
    then show ?thesis using 1 by (subst align_down.simps) simp
  next
    case False
    with 1 have "m \<le> n - 1" by (cases "m = n") auto
    with 1 False show ?thesis by (subst align_down.simps) simp
  qed
qed

lemma boundary_near: "n \<le> str_len s \<Longrightarrow> \<exists>m \<le> n. is_char_boundary s m \<and> n < m + 4"
proof (induction s arbitrary: n)
  case (Cons c s)
  show ?case
  proof (cases "utf8_width c \<le> n")
    case True
    have "n - utf8_width c \<le> str_len s" using Cons.prems by simp
    from Cons.IH [OF this] obtain m where
      m: "m \<le> n - utf8_width c" "is_char_boundary s m" "n - utf8_width c < m + 4" by blast
    with True show ?thesis by (intro exI [of _ "utf8_width c + m"]) auto
  next
    case False
    with utf8_width_le [of c] have "n < 4" by simp
    then show ?thesis by (intro exI [of _ 0]) simp
  qed
qed simp

lemma align_down_near: "n \<le> str_len s \<Longrightarrow> n < align_down s n + 4"
  using boundary_near [of n s] align_down_last [of _ n s] by force

definition PROJECT_CHUNK_SIZE :: nat where "PROJECT_CHUNK_SIZE = 800"
definition PROJECT_CHUNK_OVERLAP :: nat where "PROJECT_CHUNK_OVERLAP = 100"
definition PROJECT_MIN_CHUNK_SIZE :: nat where "PROJECT_MIN_CHUNK_SIZE = 50"

record chunk =
  ck_content :: rstr
  ck_chunk_index :: nat
  ck_room_hint :: "rstr option"
  ck_date_hint :: "int option"
  ck_byte_range :: "(nat \<times> nat) option"

definition align_to_char_boundary :: "rstr \<Rightarrow> nat \<Rightarrow> nat" where
  "align_to_char_boundary content index = align_down content (min index (str_len content))"

text \<open>\<open>str::rfind\<close> of a non-empty text: the byte offset of its last occurrence.\<close>

fun rfind :: "rstr \<Rightarrow> rstr \<Rightarrow> nat option" where
  "rfind d [] = None"
| "rfind d (c # cs) =
     (case rfind d cs of
        Some i \<Rightarrow> Some (utf8_width c + i)
      | None \<Rightarrow> if starts_with (c # cs) d then Some 0 else None)"

definition find_boundary :: "rstr \<Rightarrow> nat \<Rightarrow> nat \<Rightarrow> rstr \<Rightarrow> nat option option" where
  "find_boundary content a b delimiter =
     map_option (\<lambda>slice. map_option (\<lambda>index. a + index) (rfind delimiter slice)) (byte_slice content a b)"

text \<open>The end of the window that starts at \<open>start\<close>.\<close>

definition chunk_end :: "rstr \<Rightarrow> nat \<Rightarrow> nat option" where
  "chunk_end content start =
     (let b = align_to_char_boundary content (min (start + PROJECT_CHUNK_SIZE) (str_len content));
          far = (\<lambda>split. if split > start + PROJECT_CHUNK_SIZE div 2 then split else b)
      in if b < str_len content
         then Option.bind (find_boundary content start b [10, 10]) (\<lambda>paragraph.
           case paragraph of
             Some split \<Rightarrow> Some (far split)
           | None \<Rightarrow>
               Option.bind (find_boundary content start b [10]) (\<lambda>line.
                 case line of Some split \<Rightarrow> Some (far split) | None \<Rightarrow> Some b))
         else Some b)"

definition u32_max :: nat where "u32_max = 4294967295"

text \<open>The chunk of a window, if its text is long enough.\<close>

definition push_chunk :: "bool \<Rightarrow> nat \<Rightarrow> rstr \<Rightarrow> chunk list \<Rightarrow> chunk list" where
  "push_chunk track_offsets start raw chunks =
     (let leading = str_len raw - str_len (trim_start raw); text = trim raw in
      if str_len text \<ge> PROJECT_MIN_CHUNK_SIZE
      then chunks @ [\<lparr> ck_content = text, ck_chunk_index = min (length chunks) u32_max,
             ck_room_hint = None, ck_date_hint = None,
             ck_byte_range = (if track_offsets then Some (start + leading, start + leading + str_len text) else None) \<rparr>]
      else chunks)"

lemma align_to_char_boundary_le: "align_to_char_boundary content i \<le> i" "align_to_char_boundary content i \<le> str_len content"
  using align_down_le [of content "min i (str_len content)"] by (simp_all add: align_to_char_boundary_def)

lemma align_to_char_boundary_near: "i \<le> str_len content \<Longrightarrow> i < align_to_char_boundary content i + 4"
  using align_down_near [of i content] by (simp add: align_to_char_boundary_def min_absorb1)

lemma align_to_char_boundary_len: "align_to_char_boundary content (str_len content) = str_len content"
  using align_down_last [of "str_len content" "str_len content" content] align_down_le [of content "str_len content"]
  by (simp add: align_to_char_boundary_def)

lemma chunk_end_grows:
  assumes "chunk_end content start = Some b"
  shows "b = str_len content \<or> start + PROJECT_CHUNK_SIZE div 2 < b"
proof -
  let ?b = "align_to_char_boundary content (min (start + PROJECT_CHUNK_SIZE) (str_len content))"
  have "?b = str_len content \<or> start + PROJECT_CHUNK_SIZE div 2 < ?b"
  proof (cases "start + PROJECT_CHUNK_SIZE \<le> str_len content")
    case True
    with align_to_char_boundary_near [OF True] show ?thesis by (simp add: min_absorb1 PROJECT_CHUNK_SIZE_def)
  qed (simp add: min_absorb2 align_to_char_boundary_len)
  with assms show ?thesis
    by (auto simp: chunk_end_def Let_def bind_eq_Some_conv split: if_splits option.splits)
qed

text \<open>The loop; the next window starts an overlap before the end of this one, at a character.\<close>

function chunk_loop :: "rstr \<Rightarrow> bool \<Rightarrow> nat \<Rightarrow> chunk list \<Rightarrow> chunk list option" where
  "chunk_loop content track_offsets start chunks =
     (if start < str_len content
      then case chunk_end content start of
             None \<Rightarrow> None
           | Some b \<Rightarrow>
               (case byte_slice content start b of
                  None \<Rightarrow> None
                | Some raw \<Rightarrow>
                    let chunks' = push_chunk track_offsets start raw chunks in
                    if b = str_len content then Some chunks'
                    else chunk_loop content track_offsets
                           (align_to_char_boundary content (b - PROJECT_CHUNK_OVERLAP)) chunks')
      else Some chunks)"
  by pat_completeness auto
termination
proof (relation "measure (\<lambda>(content, _, start, _). str_len content - start)")
  fix content :: rstr and track_offsets start chunks b raw chunks'
  assume *: "start < str_len content" "chunk_end content start = Some b" "b \<noteq> str_len content"
    "byte_slice content start b = Some raw"
    "chunks' = push_chunk track_offsets start raw chunks"
  from chunk_end_grows [OF *(2)] *(3) have g: "start + 400 < b" by (simp add: PROJECT_CHUNK_SIZE_def)
  have "is_char_boundary content b" using *(4) by (auto simp: byte_slice_def split: if_splits)
  then obtain k where "b = off content k" by (rule boundaryE)
  then have "b \<le> str_len content" using off_le by simp
  then have "b - PROJECT_CHUNK_OVERLAP < align_to_char_boundary content (b - PROJECT_CHUNK_OVERLAP) + 4"
    by (intro align_to_char_boundary_near) simp
  with g *(1) show "((content, track_offsets, align_to_char_boundary content (b - PROJECT_CHUNK_OVERLAP),
      chunks'), content, track_offsets, start, chunks) \<in> measure (\<lambda>(content, _, start, _). str_len content - start)"
    by (simp add: PROJECT_CHUNK_OVERLAP_def)
qed auto

declare chunk_loop.simps [simp del]

definition chunk_project_text :: "rstr \<Rightarrow> bool \<Rightarrow> chunk list option" where
  "chunk_project_text content track_offsets =
     (if content = [] then Some [] else chunk_loop content track_offsets 0 [])"

section \<open>Line numbers\<close>

text \<open>
  The queries are the first byte and the last byte of every range, ordered by offset, range and kind;
  one walk over the file answers them. The counters are \<open>u32\<close>; a file has fewer lines.
\<close>

definition line_queries :: "(nat \<times> nat) list \<Rightarrow> (nat \<times> nat \<times> bool) list" where
  "line_queries chunks =
     sort_key (\<lambda>(offset, idx, is_end). (offset, idx, \<not> is_end))
       (concat (map (\<lambda>(i, (a, b)). [(a, i, False), (b - 1, i, True)]) (enumerate 0 chunks)))"

function advance_lines :: "nat list \<Rightarrow> nat \<Rightarrow> nat \<Rightarrow> nat \<Rightarrow> nat \<times> nat" where
  "advance_lines bytes target pos newlines =
     (if pos < target \<and> pos < length bytes
      then advance_lines bytes target (pos + 1) (if bytes ! pos = 10 then newlines + 1 else newlines)
      else (pos, newlines))"
  by pat_completeness auto
termination by (relation "measure (\<lambda>(bytes, target, pos, _). target - pos)") auto

declare advance_lines.simps [simp del]

fun answer_lines ::
  "nat list \<Rightarrow> (nat \<times> nat \<times> bool) list \<Rightarrow> nat \<Rightarrow> nat \<Rightarrow> nat list \<Rightarrow> nat list \<Rightarrow> nat list \<times> nat list" where
  "answer_lines bytes [] pos newlines line_starts line_ends = (line_starts, line_ends)"
| "answer_lines bytes ((target, idx, is_end) # queries) pos newlines line_starts line_ends =
     (case advance_lines bytes target pos newlines of
        (pos', newlines') \<Rightarrow>
          if is_end then answer_lines bytes queries pos' newlines' line_starts (line_ends[idx := newlines' + 1])
          else answer_lines bytes queries pos' newlines' (line_starts[idx := newlines' + 1]) line_ends)"

definition compute_line_numbers :: "nat list \<Rightarrow> (nat \<times> nat) list \<Rightarrow> (nat \<times> nat) list" where
  "compute_line_numbers bytes chunks =
     (if chunks = [] then []
      else case answer_lines bytes (line_queries chunks) 0 0 (replicate (length chunks) 0) (replicate (length chunks) 0) of
             (line_starts, line_ends) \<Rightarrow> zip line_starts line_ends)"

end
