(* ===== verification/Text_Chunks_Props.thy ===== *)
theory Text_Chunks_Props
  imports Text_Chunks
begin

text \<open>
  What cutting a text into chunks guarantees. The windows of the loop are first shown to be a chain
  (\<open>windows\<close>): every slice is taken at characters, a window ends at the end of the text or leads to
  the next, which starts at least \<open>PROJECT_CHUNK_OVERLAP\<close> bytes before that end. Everything else is a fact
  of the chain.
\<close>

section \<open>Trimming a slice\<close>

lemma trim_split: "\<exists>l r. s = l @ trim s @ r \<and> l = takeWhile is_whitespace s \<and> set r \<subseteq> Collect is_whitespace"
proof -
  let ?d = "trim_start s"
  have "?d = trim_end ?d @ rev (takeWhile is_whitespace (rev ?d))"
    unfolding trim_end_def by (metis rev_append rev_rev_ident takeWhile_dropWhile_id)
  moreover have "set (rev (takeWhile is_whitespace (rev ?d))) \<subseteq> Collect is_whitespace"
    by (auto dest: set_takeWhileD)
  moreover have "s = takeWhile is_whitespace s @ ?d" by (simp add: trim_start_def)
  ultimately show ?thesis unfolding trim_def by metis
qed

lemma leading_len: "str_len s - str_len (trim_start s) = str_len (takeWhile is_whitespace s)"
  unfolding trim_start_def
  by (metis add_diff_cancel_right' str_len_append takeWhile_dropWhile_id)

text \<open>A part of a text that neither starts nor ends with white space survives trimming.\<close>

lemma infix_in_trim:
  assumes s: "s = l @ t @ r" "set l \<subseteq> Collect is_whitespace" "set r \<subseteq> Collect is_whitespace"
    and u: "s = x @ u @ y" "trim u = u" "u \<noteq> []"
  shows "length l \<le> length x" and "length x + length u \<le> length l + length t"
proof -
  from u(2,3) have ends: "\<not> is_whitespace (hd u)" "\<not> is_whitespace (last u)" by (auto simp: trim_fixpoint)
  show "length l \<le> length x"
  proof (rule ccontr)
    assume "\<not> length l \<le> length x"
    then have *: "length x < length l" by simp
    then have "s ! length x \<in> set l" using s(1) by (simp add: nth_append)
    moreover have "s ! length x = hd u" using u(1,3) by (simp add: nth_append hd_conv_nth)
    ultimately show False using s(2) ends by auto
  qed
  show "length x + length u \<le> length l + length t"
  proof (rule ccontr)
    let ?k = "length x + length u - 1"
    assume "\<not> length x + length u \<le> length l + length t"
    then have *: "length l + length t \<le> ?k" by simp
    have "?k < length s" using u(1,3) by (cases u) auto
    with * s(1) have "s ! ?k \<in> set r" by (auto simp: nth_append not_less)
    moreover have "s ! ?k = last u" using u(1,3) by (cases u rule: rev_cases) (auto simp: nth_append)
    ultimately show False using s(3) ends by auto
  qed
qed

section \<open>The windows\<close>

lemma rfind_prefix: "rfind d s = Some i \<Longrightarrow> \<exists>k \<le> length s. i = off s k"
proof (induction s arbitrary: i)
  case (Cons c s)
  show ?case
  proof (cases "rfind d s")
    case None
    with Cons.prems show ?thesis by (intro exI [of _ 0]) (auto split: if_splits)
  next
    case (Some j)
    with Cons.IH obtain k where "k \<le> length s" "j = off s k" by blast
    with Cons.prems Some show ?thesis by (intro exI [of _ "Suc k"]) auto
  qed
qed simp

lemma byte_slice_defined: "a \<le> b \<Longrightarrow> is_char_boundary s a \<Longrightarrow> is_char_boundary s b \<Longrightarrow> \<exists>t. byte_slice s a b = Some t"
  by (simp add: byte_slice_def)

lemma find_boundary_defined:
  assumes "a \<le> b" "is_char_boundary s a" "is_char_boundary s b"
  shows "\<exists>r. find_boundary s a b d = Some r \<and>
    (case r of None \<Rightarrow> True | Some e \<Rightarrow> a \<le> e \<and> e \<le> b \<and> is_char_boundary s e)"
proof -
  obtain t where t: "byte_slice s a b = Some t" using byte_slice_defined [OF assms] by blast
  then obtain i j where ij: "i \<le> j" "j \<le> length s" "a = off s i" "b = off s j" "t = take (j - i) (drop i s)"
    by (rule byte_sliceE)
  show ?thesis
  proof (cases "rfind d t")
    case None
    with t show ?thesis by (simp add: find_boundary_def)
  next
    case (Some e)
    then obtain k where k: "k \<le> length t" "e = off t k" using rfind_prefix by blast
    with ij have "off t k = off (drop i s) k" by (simp add: off_def min_absorb1)
    with k ij have e: "a + e = off s (i + k)" "i + k \<le> j" by (auto simp: off_add)
    with ij have "a + e \<le> b" by (simp add: off_mono)
    moreover have "is_char_boundary s (a + e)" unfolding e(1) by (rule boundary_off)
    ultimately show ?thesis using t Some by (simp add: find_boundary_def)
  qed
qed

lemma align_to_char_boundary_boundary: "is_char_boundary s (align_to_char_boundary s i)"
  by (simp add: align_to_char_boundary_def align_down_boundary)

lemma chunk_end_window:
  assumes "is_char_boundary s a" "a < str_len s"
  shows "\<exists>b. chunk_end s a = Some b \<and> a < b \<and> b \<le> a + PROJECT_CHUNK_SIZE \<and> b \<le> str_len s \<and> is_char_boundary s b"
proof -
  let ?b = "align_to_char_boundary s (min (a + PROJECT_CHUNK_SIZE) (str_len s))"
  have b: "?b \<le> a + PROJECT_CHUNK_SIZE" "?b \<le> str_len s" "is_char_boundary s ?b"
    using align_to_char_boundary_le [of s "min (a + PROJECT_CHUNK_SIZE) (str_len s)"]
    by (simp_all add: align_to_char_boundary_boundary)
  have "a \<le> ?b"
    unfolding align_to_char_boundary_def using assms by (intro align_down_last) auto
  note fd = find_boundary_defined [OF this assms(1) b(3)]
  have "\<exists>e. chunk_end s a = Some e \<and> e \<le> ?b \<and> is_char_boundary s e"
    using fd [of "[10, 10]"] fd [of "[10]"] b(3)
    by (auto simp: chunk_end_def Let_def split: option.splits)
  then obtain e where e: "chunk_end s a = Some e" "e \<le> ?b" "is_char_boundary s e" by blast
  from chunk_end_grows [OF e(1)] assms(2) have "a < e" by (auto simp: PROJECT_CHUNK_SIZE_def)
  with e b show ?thesis by (intro exI [of _ e]) simp
qed

inductive windows :: "rstr \<Rightarrow> nat \<Rightarrow> (nat \<times> nat) list \<Rightarrow> bool" for s where
  final: "\<lbrakk> a < str_len s; str_len s \<le> a + PROJECT_CHUNK_SIZE; is_char_boundary s a \<rbrakk>
    \<Longrightarrow> windows s a [(a, str_len s)]"
| step: "\<lbrakk> a < b; b \<le> a + PROJECT_CHUNK_SIZE; b < str_len s; is_char_boundary s a; is_char_boundary s b;
      a < a'; a' + PROJECT_CHUNK_OVERLAP \<le> b; windows s a' ws \<rbrakk>
    \<Longrightarrow> windows s a ((a, b) # ws)"

definition slice_of :: "rstr \<Rightarrow> nat \<times> nat \<Rightarrow> rstr" where
  "slice_of s w = the (byte_slice s (fst w) (snd w))"

definition push_window :: "bool \<Rightarrow> rstr \<Rightarrow> nat \<times> nat \<Rightarrow> chunk list \<Rightarrow> chunk list" where
  "push_window track s w cs = push_chunk track (fst w) (slice_of s w) cs"

lemma chunk_loop_windows:
  "is_char_boundary s a \<Longrightarrow> a < str_len s \<Longrightarrow>
   \<exists>ws. windows s a ws \<and> chunk_loop s track a cs = Some (fold (push_window track s) ws cs)"
proof (induction s track a cs rule: chunk_loop.induct)
  case (1 s track a cs)
  from chunk_end_window [OF "1.prems"] obtain b where
    b: "chunk_end s a = Some b" "a < b" "b \<le> a + PROJECT_CHUNK_SIZE" "b \<le> str_len s" "is_char_boundary s b" by blast
  with byte_slice_defined "1.prems" obtain t where t: "byte_slice s a b = Some t" by (meson less_imp_le)
  have p: "push_chunk track a t cs = push_window track s (a, b) cs"
    by (simp add: push_window_def slice_of_def t)
  show ?case
  proof (cases "b = str_len s")
    case True
    with b "1.prems" have "windows s a [(a, str_len s)]" by (intro windows.final) auto
    moreover have "chunk_loop s track a cs = Some (push_window track s (a, b) cs)"
      using "1.prems" b t True by (subst chunk_loop.simps) (simp add: p)
    ultimately show ?thesis using True by (intro exI [of _ "[(a, str_len s)]"]) simp
  next
    case False
    let ?a = "align_to_char_boundary s (b - PROJECT_CHUNK_OVERLAP)"
    from chunk_end_grows [OF b(1)] False have g: "a + 400 < b" by (simp add: PROJECT_CHUNK_SIZE_def)
    have "b - PROJECT_CHUNK_OVERLAP < ?a + 4" using b by (intro align_to_char_boundary_near) simp
    moreover have "?a \<le> b - PROJECT_CHUNK_OVERLAP" by (rule align_to_char_boundary_le)
    ultimately have a: "a < ?a" "?a + PROJECT_CHUNK_OVERLAP \<le> b" using g by (auto simp: PROJECT_CHUNK_OVERLAP_def)
    have "\<exists>ws. windows s ?a ws \<and>
        chunk_loop s track ?a (push_window track s (a, b) cs) = Some (fold (push_window track s) ws (push_window track s (a, b) cs))"
      using "1.IH" [OF "1.prems"(2) b(1) t p [symmetric] False] a b
      by (simp add: align_to_char_boundary_boundary p PROJECT_CHUNK_OVERLAP_def)
    then obtain ws where ws: "windows s ?a ws"
      "chunk_loop s track ?a (push_window track s (a, b) cs) = Some (fold (push_window track s) ws (push_window track s (a, b) cs))"
      by blast
    from b False ws(1) a "1.prems" have "windows s a ((a, b) # ws)" by (intro windows.step) auto
    moreover have "chunk_loop s track a cs = Some (fold (push_window track s) ((a, b) # ws) cs)"
      using "1.prems" b t False ws(2) by (subst chunk_loop.simps) (simp add: p)
    ultimately show ?thesis by blast
  qed
qed

section \<open>The chunks of the windows\<close>

definition kept :: "rstr \<Rightarrow> nat \<times> nat \<Rightarrow> bool" where
  "kept s w \<longleftrightarrow> PROJECT_MIN_CHUNK_SIZE \<le> str_len (trim (slice_of s w))"

text \<open>The byte range of the trimmed text of a window.\<close>

definition trimmed :: "rstr \<Rightarrow> nat \<times> nat \<Rightarrow> nat \<times> nat" where
  "trimmed s w =
     (let p = fst w + str_len (takeWhile is_whitespace (slice_of s w)) in (p, p + str_len (trim (slice_of s w))))"

lemma push_window_fields:
  "map (\<lambda>c. (ck_content c, ck_byte_range c)) (push_window track s w cs) =
     map (\<lambda>c. (ck_content c, ck_byte_range c)) cs
       @ (if kept s w then [(trim (slice_of s w), if track then Some (trimmed s w) else None)] else [])"
  by (simp add: push_window_def push_chunk_def Let_def kept_def trimmed_def leading_len)

lemma chunks_fields:
  "map (\<lambda>c. (ck_content c, ck_byte_range c)) (fold (push_window track s) ws cs) =
     map (\<lambda>c. (ck_content c, ck_byte_range c)) cs
       @ map (\<lambda>w. (trim (slice_of s w), if track then Some (trimmed s w) else None)) (filter (kept s) ws)"
  by (induction ws arbitrary: cs) (simp_all add: push_window_fields)

lemma chunks_indices:
  "map ck_chunk_index cs = map (min u32_max) [0..<length cs] \<Longrightarrow>
   map ck_chunk_index (fold (push_window track s) ws cs) =
     map (min u32_max) [0..<length (fold (push_window track s) ws cs)]"
proof (induction ws arbitrary: cs)
  case (Cons w ws)
  have "map ck_chunk_index (push_window track s w cs) = map (min u32_max) [0..<length (push_window track s w cs)]"
    using Cons.prems by (simp add: push_window_def push_chunk_def Let_def min.commute)
  from Cons.IH [OF this] show ?case by simp
qed simp

text \<open>Every window is a slice of at most \<open>PROJECT_CHUNK_SIZE\<close> bytes.\<close>

definition is_window :: "rstr \<Rightarrow> nat \<times> nat \<Rightarrow> bool" where
  "is_window s w \<longleftrightarrow> fst w \<le> snd w \<and> snd w \<le> fst w + PROJECT_CHUNK_SIZE
     \<and> is_char_boundary s (fst w) \<and> is_char_boundary s (snd w)"

lemma windows_are_slices: "windows s a ws \<Longrightarrow> set ws \<subseteq> Collect (is_window s)"
  by (induction rule: windows.induct) (simp_all add: is_window_def)

lemma windows_start: "windows s a ws \<Longrightarrow> ws \<noteq> [] \<and> fst (hd ws) = a"
  by (induction rule: windows.induct) simp_all

lemma window_parts:
  assumes "is_window s w"
  obtains i j r where "i \<le> j" "j \<le> length s" "w = (off s i, off s j)" "slice_of s w = take (j - i) (drop i s)"
    "slice_of s w = takeWhile is_whitespace (slice_of s w) @ trim (slice_of s w) @ r"
    "set r \<subseteq> Collect is_whitespace"
    "trimmed s w = (off s (i + length (takeWhile is_whitespace (slice_of s w))),
                    off s (i + length (takeWhile is_whitespace (slice_of s w)) + length (trim (slice_of s w))))"
proof -
  from assms have "\<exists>t. byte_slice s (fst w) (snd w) = Some t" by (simp add: is_window_def byte_slice_def)
  then have sl: "byte_slice s (fst w) (snd w) = Some (slice_of s w)" by (auto simp: slice_of_def)
  then obtain i j where ij: "i \<le> j" "j \<le> length s" "fst w = off s i" "snd w = off s j"
    "slice_of s w = take (j - i) (drop i s)" by (rule byte_sliceE)
  let ?t = "slice_of s w" let ?l = "takeWhile is_whitespace ?t" let ?m = "trim ?t"
  obtain r where r: "?t = ?l @ ?m @ r" "set r \<subseteq> Collect is_whitespace" using trim_split by metis
  have len: "length ?l + length ?m \<le> j - i" using arg_cong [OF r(1), of length] ij(5) ij(2) by simp
  have pre: "take n (drop i s) = take n ?t" if "n \<le> j - i" for n using ij(5) that by (simp add: min_absorb1)
  have "take (length ?l) ?t = ?l" by (metis r(1) append_eq_conv_conj)
  with pre len have l: "take (length ?l) (drop i s) = ?l" by simp
  have "take (length ?l + length ?m) ?t = ?l @ ?m" by (subst (3) r(1)) simp
  with pre len have m: "take (length ?l + length ?m) (drop i s) = ?l @ ?m" by metis
  have "off s (i + length ?l) = fst w + str_len ?l"
    using l by (simp add: ij(3) off_add) (simp add: off_def)
  moreover have "off s (i + length ?l + length ?m) = fst w + str_len ?l + str_len ?m"
    using m by (simp only: ij(3) add.assoc off_add [of s i]) (simp add: off_def)
  ultimately have "trimmed s w = (off s (i + length ?l), off s (i + length ?l + length ?m))"
    by (simp add: trimmed_def Let_def)
  moreover have "w = (off s i, off s j)" using ij(3,4) by (metis prod.collapse)
  ultimately show thesis using that ij r by blast
qed

lemma trimmed_slice:
  assumes "is_window s w"
  shows "byte_slice s (fst (trimmed s w)) (snd (trimmed s w)) = Some (trim (slice_of s w))"
proof -
  let ?l = "takeWhile is_whitespace (slice_of s w)"
  from assms obtain i j r where w: "i \<le> j" "j \<le> length s" "slice_of s w = take (j - i) (drop i s)"
    "slice_of s w = ?l @ trim (slice_of s w) @ r"
    "trimmed s w = (off s (i + length ?l), off s (i + length ?l + length (trim (slice_of s w))))"
    by (rule window_parts) blast
  let ?t = "slice_of s w"
  have len: "length ?l + length (trim ?t) \<le> j - i" using arg_cong [OF w(4), of length] w(1-3) by simp
  have "take (length (trim ?t)) (drop (i + length ?l) s) = take (length (trim ?t)) (drop (length ?l) ?t)"
    using len by (simp add: w(3) drop_take add.commute min_absorb1)
  also have "drop (length ?l) ?t = trim ?t @ r" by (metis w(4) append_eq_conv_conj)
  finally have "take (length (trim ?t)) (drop (i + length ?l) s) = trim ?t" by simp
  with byte_slice_off [of "i + length ?l" "i + length ?l + length (trim ?t)" s] len w(1,2,5)
  show ?thesis by simp
qed

lemma trimmed_size: "is_window s w \<Longrightarrow> snd (trimmed s w) - fst (trimmed s w) \<le> PROJECT_CHUNK_SIZE"
proof -
  assume w: "is_window s w"
  then have "\<exists>t. byte_slice s (fst w) (snd w) = Some t" by (simp add: is_window_def byte_slice_def)
  then have "byte_slice s (fst w) (snd w) = Some (slice_of s w)" by (auto simp: slice_of_def)
  then have "str_len (slice_of s w) = snd w - fst w" by (rule byte_slice_len)
  moreover obtain l r where "slice_of s w = l @ trim (slice_of s w) @ r" using trim_split by metis
  then have "str_len (slice_of s w) = str_len l + str_len (trim (slice_of s w)) + str_len r"
    by (metis add.assoc str_len_append)
  ultimately show ?thesis using w unfolding trimmed_def Let_def is_window_def by simp linarith
qed

lemma windows_cover:
  "windows s a ws \<Longrightarrow> a \<le> p \<Longrightarrow> q \<le> str_len s \<Longrightarrow> q \<le> p + PROJECT_CHUNK_OVERLAP \<Longrightarrow>
   \<exists>w \<in> set ws. fst w \<le> p \<and> q \<le> snd w"
  by (induction rule: windows.induct) force+

text \<open>What a window contains that is not blank at its ends, its trimmed range contains.\<close>

lemma trimmed_contains:
  assumes w: "is_window s w" and u: "byte_slice s p q = Some u" "trim u = u" "u \<noteq> []"
    and c: "fst w \<le> p" "q \<le> snd w"
  shows "fst (trimmed s w) \<le> p" "q \<le> snd (trimmed s w)" "PROJECT_MIN_CHUNK_SIZE \<le> q - p \<Longrightarrow> kept s w"
proof -
  let ?t = "slice_of s w" let ?l = "takeWhile is_whitespace ?t"
  from w obtain i j r where ij: "i \<le> j" "j \<le> length s" "w = (off s i, off s j)" "?t = take (j - i) (drop i s)"
    and split: "?t = ?l @ trim ?t @ r" "set r \<subseteq> Collect is_whitespace"
    and tr: "trimmed s w = (off s (i + length ?l), off s (i + length ?l + length (trim ?t)))"
    by (rule window_parts)
  from u(1) obtain x y where xy: "x \<le> y" "y \<le> length s" "p = off s x" "q = off s y" "u = take (y - x) (drop x s)"
    by (rule byte_sliceE)
  have ix: "i \<le> x" "y \<le> j" using c ij xy off_le_iff by auto
  have "?t = take (x - i) ?t @ u @ drop (y - i) ?t"
  proof -
    have "u = take (y - x) (drop (x - i) ?t)"
      using ix xy ij by (simp add: drop_take min_absorb1)
    moreover have "y - i = x - i + (y - x)" using ix xy by simp
    ultimately show ?thesis by (metis append.assoc append_take_drop_id take_add)
  qed
  moreover have "set ?l \<subseteq> Collect is_whitespace" by (auto dest: set_takeWhileD)
  ultimately have in_trim: "length ?l \<le> length (take (x - i) ?t)"
    "length (take (x - i) ?t) + length u \<le> length ?l + length (trim ?t)"
    using infix_in_trim [OF split(1) _ split(2) _ u(2,3)] by blast+
  moreover have "length (take (x - i) ?t) = x - i" "length u = y - x" using ix xy ij by simp_all
  ultimately have *: "i + length ?l \<le> x" "y \<le> i + length ?l + length (trim ?t)" using ix xy by linarith+
  from * show 1: "fst (trimmed s w) \<le> p" and 2: "q \<le> snd (trimmed s w)"
    unfolding tr xy by (simp_all add: off_mono)
  assume "PROJECT_MIN_CHUNK_SIZE \<le> q - p"
  with 1 2 have "PROJECT_MIN_CHUNK_SIZE \<le> snd (trimmed s w) - fst (trimmed s w)" by linarith
  then show "kept s w" by (simp add: kept_def trimmed_def Let_def)
qed

text \<open>The trimmed ranges begin in the order of the windows: at the first character that is not blank.\<close>

lemma trimmed_start:
  assumes w: "is_window s w" and k: "kept s w"
  obtains i m where "fst w = off s i" "i \<le> m" "m < length s" "fst (trimmed s w) = off s m"
    "\<not> is_whitespace (s ! m)" "\<And>n. i \<le> n \<Longrightarrow> n < m \<Longrightarrow> is_whitespace (s ! n)"
proof -
  let ?t = "slice_of s w" let ?l = "takeWhile is_whitespace ?t"
  from w obtain i j r where ij: "i \<le> j" "j \<le> length s" "w = (off s i, off s j)" "?t = take (j - i) (drop i s)"
    and split: "?t = ?l @ trim ?t @ r"
    and tr: "trimmed s w = (off s (i + length ?l), off s (i + length ?l + length (trim ?t)))"
    by (rule window_parts)
  have ne: "trim ?t \<noteq> []" using k by (auto simp: kept_def PROJECT_MIN_CHUNK_SIZE_def)
  then have lt: "length ?l < length ?t" by (subst (2) split) (cases "trim ?t", auto)
  have "length ?t = j - i" using ij(2,4) by simp
  have nth: "s ! (i + n) = ?t ! n" if "n < length ?t" for n using that ij(1,2) by (simp add: ij(4))
  show thesis
  proof (rule that [of i "i + length ?l"])
    show "\<not> is_whitespace (s ! (i + length ?l))" using nth_length_takeWhile [OF lt] nth [OF lt] by simp
    show "is_whitespace (s ! n)" if n: "i \<le> n" "n < i + length ?l" for n
    proof -
      have "n - i < length ?l" using n by linarith
      then have "is_whitespace (?l ! (n - i))" by (metis nth_mem set_takeWhileD)
      then show ?thesis using nth [of "n - i"] n lt takeWhile_nth [OF \<open>n - i < length ?l\<close>] by simp
    qed
    show "i + length ?l < length s" using lt \<open>length ?t = j - i\<close> ij(1,2) by linarith
    show "fst w = off s i" by (simp add: ij(3))
    show "fst (trimmed s w) = off s (i + length ?l)" by (simp add: tr)
  qed simp
qed

lemma trimmed_start_mono:
  assumes "is_window s w" "kept s w" "is_window s v" "kept s v" "fst w \<le> fst v"
  shows "fst (trimmed s w) \<le> fst (trimmed s v)"
proof -
  from trimmed_start [OF assms(1,2)] obtain i m where w: "fst w = off s i" "i \<le> m" "m < length s"
    "fst (trimmed s w) = off s m" "\<And>n. i \<le> n \<Longrightarrow> n < m \<Longrightarrow> is_whitespace (s ! n)" by metis
  from trimmed_start [OF assms(3,4)] obtain j k where v: "fst v = off s j" "j \<le> k" "k < length s"
    "fst (trimmed s v) = off s k" "\<not> is_whitespace (s ! k)" by metis
  have "i \<le> j" using off_le_iff [of i s j] assms(5) w(1,2,3) v(1,2,3) by simp
  then have "m \<le> k" using w(5) [of k] v(2,5) by (cases "k < m") auto
  then show ?thesis by (simp add: w(4) v(4) off_mono)
qed

lemma windows_ordered: "windows s a ws \<Longrightarrow> sorted_wrt (\<lambda>w v. fst w \<le> fst v) ws \<and> set ws \<subseteq> {w. a \<le> fst w}"
  by (induction rule: windows.induct) force+

lemma sorted_wrt_pairs: "sorted_wrt P xs \<Longrightarrow> (\<And>x y. x \<in> set xs \<Longrightarrow> y \<in> set xs \<Longrightarrow> P x y \<Longrightarrow> Q x y) \<Longrightarrow> sorted_wrt Q xs"
  by (induction xs) simp_all

lemma trimmed_sorted: "windows s a ws \<Longrightarrow> sorted (map (fst \<circ> trimmed s) (filter (kept s) ws))"
proof -
  assume w: "windows s a ws"
  from windows_ordered [OF w] have "sorted_wrt (\<lambda>w v. fst w \<le> fst v) (filter (kept s) ws)"
    by (simp add: sorted_wrt_filter)
  then have "sorted_wrt (\<lambda>w v. fst (trimmed s w) \<le> fst (trimmed s v)) (filter (kept s) ws)"
    by (rule sorted_wrt_pairs) (use windows_are_slices [OF w] in \<open>auto intro!: trimmed_start_mono\<close>)
  then show ?thesis by (simp add: sorted_map)
qed

section \<open>Line numbers\<close>

definition newlines_before :: "nat list \<Rightarrow> nat \<Rightarrow> nat" where
  "newlines_before bytes n = count_list (take n bytes) 10"

lemma newlines_before_Suc:
  "n < length bytes \<Longrightarrow> newlines_before bytes (n + 1) = newlines_before bytes n + (if bytes ! n = 10 then 1 else 0)"
  by (simp add: newlines_before_def take_Suc_conv_app_nth)

lemma newlines_before_len: "newlines_before bytes (min n (length bytes)) = newlines_before bytes n"
  by (simp add: newlines_before_def min_def)

lemma advance_lines_count:
  "pos \<le> target \<Longrightarrow> pos \<le> length bytes \<Longrightarrow> newlines = newlines_before bytes pos \<Longrightarrow>
   advance_lines bytes target pos newlines = (min target (length bytes), newlines_before bytes target)"
proof (induction bytes target pos newlines rule: advance_lines.induct)
  case (1 bytes target pos newlines)
  show ?case
  proof (cases "pos < target \<and> pos < length bytes")
    case True
    then have "advance_lines bytes target (pos + 1) (if bytes ! pos = 10 then newlines + 1 else newlines)
        = (min target (length bytes), newlines_before bytes target)"
      using "1.IH" [OF True] "1.prems" newlines_before_Suc [of pos bytes] True
      by (cases "bytes ! pos = 10") simp_all
    with True show ?thesis by (subst advance_lines.simps) simp
  next
    case False
    with "1.prems" have "pos = min target (length bytes)" by linarith
    moreover from this have "newlines = newlines_before bytes target"
      using "1.prems"(3) newlines_before_len [of bytes target] by simp
    ultimately show ?thesis using False by (subst advance_lines.simps) auto
  qed
qed

lemma nth_update: "xs[i := x] ! j = (if i = j \<and> i < length xs then x else xs ! j)"
  by (cases "i < length xs") (simp_all add: nth_list_update list_update_beyond)

text \<open>Ascending queries are answered with the newlines before their offset, whatever came before.\<close>

lemma answer_lines_count:
  fixes first final :: "nat \<Rightarrow> nat"
  assumes "sorted (map fst qs)" "set qs \<subseteq> {q. pos \<le> fst q}" "pos \<le> length bytes" "newlines = newlines_before bytes pos"
    and "set qs \<subseteq> {(t, i, e). t = (if e then final i else first i)}"
  shows "\<exists>xs ys. answer_lines bytes qs pos newlines ls le = (xs, ys) \<and> length xs = length ls \<and> length ys = length le
    \<and> (\<forall>i < length ls. xs ! i = (if (first i, i, False) \<in> set qs then newlines_before bytes (first i) + 1 else ls ! i))
    \<and> (\<forall>i < length le. ys ! i = (if (final i, i, True) \<in> set qs then newlines_before bytes (final i) + 1 else le ! i))"
  using assms
proof (induction qs arbitrary: pos newlines ls le)
  case (Cons q qs)
  obtain t i e where q: "q = (t, i, e)" by (metis surj_pair)
  have adv: "advance_lines bytes t pos newlines = (min t (length bytes), newlines_before bytes t)"
    using Cons.prems q by (intro advance_lines_count) auto
  have rest: "sorted (map fst qs)" "set qs \<subseteq> {q. min t (length bytes) \<le> fst q}"
    "set qs \<subseteq> {(t, i, e). t = (if e then final i else first i)}"
    using Cons.prems q by auto
  note IH = Cons.IH [OF rest(1,2) _ newlines_before_len [symmetric] rest(3), unfolded newlines_before_len]
  show ?case
  proof (cases e)
    case True
    with Cons.prems q have t: "t = final i" by simp
    show ?thesis using IH [of ls "le[i := newlines_before bytes t + 1]"] q True adv t
      by (auto simp: nth_update)
  next
    case False
    with Cons.prems q have t: "t = first i" by simp
    show ?thesis using IH [of "ls[i := newlines_before bytes t + 1]" le] q False adv t
      by (auto simp: nth_update)
  qed
qed simp

lemma line_queries_set:
  "set (line_queries chunks) =
     (\<Union>i \<in> {..<length chunks}. {(fst (chunks ! i), i, False), (snd (chunks ! i) - 1, i, True)})"
proof -
  have "set (enumerate 0 chunks) = (\<lambda>i. (i, chunks ! i)) ` {..<length chunks}"
    by (auto simp: in_set_enumerate_eq image_def)
  then show ?thesis by (simp add: line_queries_def split_beta)
qed

lemma line_queries_sorted: "sorted (map fst (line_queries chunks))"
proof -
  let ?k = "\<lambda>(offset, idx, is_end). (offset, idx, \<not> is_end)"
  have "sorted (map ?k (line_queries chunks))" unfolding line_queries_def by (rule sorted_sort_key)
  then have "sorted_wrt (\<lambda>x y. ?k x \<le> ?k y) (line_queries chunks)" by (simp add: sorted_map)
  then have "sorted_wrt (\<lambda>x y. fst x \<le> fst y) (line_queries chunks)"
    by (rule sorted_wrt_mono_rel [rotated]) (auto simp: less_eq_prod_def split: prod.splits)
  then show ?thesis by (simp add: sorted_map)
qed

section \<open>Properties\<close>

definition chunk_ranges :: "chunk list \<Rightarrow> (nat \<times> nat) list" where
  "chunk_ranges cs = List.map_filter ck_byte_range cs"

lemma chunk_ranges_eq: "map ck_byte_range cs = map Some rs \<Longrightarrow> chunk_ranges cs = rs"
  by (induction cs arbitrary: rs) (auto simp: chunk_ranges_def map_filter_simps)

text \<open>A chunk is the exact, trimmed slice of its byte range.\<close>

definition exact_chunk :: "rstr \<Rightarrow> chunk \<Rightarrow> bool" where
  "exact_chunk s c \<longleftrightarrow>
     (case ck_byte_range c of
        None \<Rightarrow> False
      | Some (p, q) \<Rightarrow> byte_slice s p q = Some (ck_content c) \<and> trim (ck_content c) = ck_content c
          \<and> PROJECT_MIN_CHUNK_SIZE \<le> q - p \<and> q - p \<le> PROJECT_CHUNK_SIZE)"

lemma chunk_project_text_windows:
  assumes "s \<noteq> []"
  obtains ws cs where "windows s 0 ws" "chunk_project_text s True = Some cs"
    "map (\<lambda>c. (ck_content c, ck_byte_range c)) cs
       = map (\<lambda>w. (trim (slice_of s w), Some (trimmed s w))) (filter (kept s) ws)"
    "map ck_chunk_index cs = map (min u32_max) [0..<length cs]"
proof -
  from assms have "0 < str_len s" using length_le_str_len [of s] by (cases s) auto
  with chunk_loop_windows [of s 0 True "[]"] obtain ws where
    ws: "windows s 0 ws" "chunk_loop s True 0 [] = Some (fold (push_window True s) ws [])" by auto
  show thesis
  proof (rule that [OF ws(1)])
    show "chunk_project_text s True = Some (fold (push_window True s) ws [])"
      using assms ws(2) by (simp add: chunk_project_text_def)
    show "map (\<lambda>c. (ck_content c, ck_byte_range c)) (fold (push_window True s) ws [])
       = map (\<lambda>w. (trim (slice_of s w), Some (trimmed s w))) (filter (kept s) ws)"
      using chunks_fields [of True s ws "[]"] by simp
  qed (simp add: chunks_indices)
qed

lemma fields_mem:
  assumes "map (\<lambda>c. (ck_content c, ck_byte_range c)) cs
       = map (\<lambda>w. (trim (slice_of s w), Some (trimmed s w))) (filter (kept s) ws)"
  shows "c \<in> set cs \<Longrightarrow> \<exists>w \<in> set ws. kept s w \<and> ck_content c = trim (slice_of s w) \<and> ck_byte_range c = Some (trimmed s w)"
    and "w \<in> set ws \<Longrightarrow> kept s w \<Longrightarrow> \<exists>c \<in> set cs. ck_byte_range c = Some (trimmed s w)"
proof -
  let ?f = "\<lambda>c. (ck_content c, ck_byte_range c)" and ?g = "\<lambda>w. (trim (slice_of s w), Some (trimmed s w))"
  have eq: "?f ` set cs = ?g ` set (filter (kept s) ws)" using arg_cong [OF assms, of set] by (simp only: set_map)
  { assume "c \<in> set cs"
    then have "?f c \<in> ?g ` set (filter (kept s) ws)" unfolding eq [symmetric] by (rule imageI)
    then show "\<exists>w \<in> set ws. kept s w \<and> ck_content c = trim (slice_of s w) \<and> ck_byte_range c = Some (trimmed s w)" by auto }
  { assume "w \<in> set ws" "kept s w"
    then have "?g w \<in> ?f ` set cs" unfolding eq by (intro imageI) simp
    then show "\<exists>c \<in> set cs. ck_byte_range c = Some (trimmed s w)" by auto }
qed

text \<open>
  C25: chunking a project file never slices inside a character, and every chunk it returns is the exact
  slice of its byte range, trimmed, of 50 to 800 bytes; the chunks are numbered in order and their ranges
  begin in order; and any stretch of the file of 50 to 100 bytes that is not blank at its ends lies wholly
  inside some chunk, so what the windows' overlap can carry over is never split across chunks only.
\<close>

theorem chunks_cover_the_text:
  "case chunk_project_text content True of
     None \<Rightarrow> False
   | Some cs \<Rightarrow>
       set cs \<subseteq> Collect (exact_chunk content)
       \<and> map ck_chunk_index cs = map (min u32_max) [0..<length cs]
       \<and> sorted (map fst (chunk_ranges cs))
       \<and> (if (case byte_slice content a b of None \<Rightarrow> False | Some t \<Rightarrow> trim t = t)
             \<and> a + PROJECT_MIN_CHUNK_SIZE \<le> b \<and> b \<le> a + PROJECT_CHUNK_OVERLAP
           then \<exists>p q. (p, q) \<in> set (chunk_ranges cs) \<and> p \<le> a \<and> b \<le> q
           else True)"
proof (cases "content = []")
  case True
  then show ?thesis
    by (auto simp: chunk_project_text_def chunk_ranges_def map_filter_def byte_slice_def PROJECT_MIN_CHUNK_SIZE_def)
next
  case False
  then obtain ws cs where ws: "windows content 0 ws" "chunk_project_text content True = Some cs"
    and f: "map (\<lambda>c. (ck_content c, ck_byte_range c)) cs
       = map (\<lambda>w. (trim (slice_of content w), Some (trimmed content w))) (filter (kept content) ws)"
    and i: "map ck_chunk_index cs = map (min u32_max) [0..<length cs]"
    by (rule chunk_project_text_windows)
  note win = windows_are_slices [OF ws(1), THEN subsetD, THEN CollectD]
  have exact: "exact_chunk content c" if "c \<in> set cs" for c
  proof -
    from fields_mem(1) [OF f that] obtain w where w: "w \<in> set ws" "kept content w"
      "ck_content c = trim (slice_of content w)" "ck_byte_range c = Some (trimmed content w)" by blast
    have "snd (trimmed content w) - fst (trimmed content w) = str_len (trim (slice_of content w))"
      by (simp add: trimmed_def Let_def)
    with w trimmed_slice [OF win [OF w(1)]] trimmed_size [OF win [OF w(1)]] show ?thesis
      by (simp add: exact_chunk_def kept_def trim_trim split_beta)
  qed
  have "map ck_byte_range cs = map Some (map (trimmed content) (filter (kept content) ws))"
    using arg_cong [OF f, of "map snd"] by (simp add: o_def)
  then have r: "chunk_ranges cs = map (trimmed content) (filter (kept content) ws)" by (rule chunk_ranges_eq)
  have cover: "\<exists>p q. (p, q) \<in> set (chunk_ranges cs) \<and> p \<le> a \<and> b \<le> q"
    if t: "byte_slice content a b = Some t" "trim t = t" "a + PROJECT_MIN_CHUNK_SIZE \<le> b" "b \<le> a + PROJECT_CHUNK_OVERLAP" for t
  proof -
    from byte_slice_len [OF t(1)] t(3) have "t \<noteq> []" by (auto simp: PROJECT_MIN_CHUNK_SIZE_def)
    from t(1) obtain k where "b = off content k" by (rule byte_sliceE)
    then have "b \<le> str_len content" using off_le by simp
    with windows_cover [OF ws(1), of a b] t(4) obtain w where w: "w \<in> set ws" "fst w \<le> a" "b \<le> snd w" by auto
    from trimmed_contains [OF win [OF w(1)] t(1,2) \<open>t \<noteq> []\<close> w(2,3)] t(3)
    have "fst (trimmed content w) \<le> a" "b \<le> snd (trimmed content w)" "kept content w" by auto
    with w(1) r show ?thesis by (intro exI [of _ "fst (trimmed content w)"] exI [of _ "snd (trimmed content w)"]) simp
  qed
  from trimmed_sorted [OF ws(1)] have "sorted (map fst (chunk_ranges cs))" by (simp add: r)
  with ws(2) exact i cover show ?thesis by (auto split: option.splits)
qed

text \<open>
  The single walk over the file gives every byte range, in whatever order the ranges come, one plus the
  number of newlines before its first byte and before its last byte: the 1-based lines it begins and ends on.
\<close>

theorem line_numbers_count_newlines:
  "compute_line_numbers bytes chunks =
     map (\<lambda>(a, b). (newlines_before bytes a + 1, newlines_before bytes (b - 1) + 1)) chunks"
proof (cases "chunks = []")
  case False
  let ?n = "length chunks" let ?z = "replicate ?n (0::nat)"
  have "set (line_queries chunks) \<subseteq>
      {(t, i, e). t = (if e then snd (chunks ! i) - 1 else fst (chunks ! i))}"
    by (auto simp: line_queries_set)
  from answer_lines_count [OF line_queries_sorted _ _ _ this, of 0 bytes 0 ?z ?z] obtain xs ys where
    r: "answer_lines bytes (line_queries chunks) 0 0 ?z ?z = (xs, ys)" "length xs = ?n" "length ys = ?n"
    and x: "\<And>i. i < ?n \<Longrightarrow> xs ! i = newlines_before bytes (fst (chunks ! i)) + 1"
    and y: "\<And>i. i < ?n \<Longrightarrow> ys ! i = newlines_before bytes (snd (chunks ! i) - 1) + 1"
    by (auto simp: line_queries_set newlines_before_def)
  have "zip xs ys = map (\<lambda>(a, b). (newlines_before bytes a + 1, newlines_before bytes (b - 1) + 1)) chunks"
    by (rule nth_equalityI) (simp_all add: r x y split_beta)
  with False r show ?thesis by (simp add: compute_line_numbers_def)
qed (simp add: compute_line_numbers_def)

end
