(* ===== verification/Ignore_Globs.thy ===== *)
theory Ignore_Globs
  imports Rust_Collections
begin

text \<open>
  The ignore rules of project discovery (\<open>IgnorePattern\<close>, \<open>IgnoreRule\<close>, \<open>IgnoreMatcher\<close> of
  \<open>crates/agentpalace-ingest/src/lib.rs\<close>): the parser of a line of an ignore file, the two glob matchers,
  and the matcher with its rules. A path is its text relative to the discovery root, a file of the walk is
  read through the parameter \<open>read\<close>; what git answers is the record \<open>git_answers\<close>.
\<close>

section \<open>Globs\<close>

text \<open>\<open>match_char_class\<close>: the loop over the items of the class at the start of \<open>pattern\<close>.\<close>

function class_loop :: "rstr \<Rightarrow> nat \<Rightarrow> nat \<Rightarrow> bool \<Rightarrow> bool \<Rightarrow> bool \<Rightarrow> nat option" where
  "class_loop pattern text_char index negate matched can_close =
     (if index < length pattern
      then if pattern ! index = 93 \<and> can_close
           then (if matched \<noteq> negate then Some (index + 1) else None)
           else if index + 2 < length pattern \<and> pattern ! (index + 1) = 45 \<and> pattern ! (index + 2) \<noteq> 93
           then class_loop pattern text_char (index + 3) negate
                  (matched \<or> pattern ! index \<le> text_char \<and> text_char \<le> pattern ! (index + 2)) True
           else class_loop pattern text_char (index + 1) negate (matched \<or> pattern ! index = text_char) True
      else None)"
  by pat_completeness auto
termination by (relation "measure (\<lambda>(pattern, _, index, _). length pattern - index)") auto

declare class_loop.simps [simp del]

definition match_char_class :: "rstr \<Rightarrow> nat \<Rightarrow> nat option" where
  "match_char_class pattern text_char =
     (let negate = (1 < length pattern \<and> (pattern ! 1 = 33 \<or> pattern ! 1 = 94))
      in class_loop pattern text_char (if negate then 2 else 1) negate False False)"

lemma class_loop_bounds:
  "class_loop pattern c index negate matched can_close = Some n \<Longrightarrow> index < n \<and> n \<le> length pattern"
proof (induction pattern c index negate matched can_close rule: class_loop.induct)
  case (1 pattern c index negate matched can_close)
  let ?close = "pattern ! index = 93 \<and> can_close"
  let ?range = "index + 2 < length pattern \<and> pattern ! (index + 1) = 45 \<and> pattern ! (index + 2) \<noteq> 93"
  have lt: "index < length pattern" using "1.prems" by (subst (asm) class_loop.simps) (auto split: if_splits)
  consider (close) ?close | (range) "\<not> ?close" ?range | (one) "\<not> ?close" "\<not> ?range" by blast
  then show ?case
  proof cases
    case close
    then show ?thesis using "1.prems" lt by (subst (asm) class_loop.simps) (auto split: if_splits)
  next
    case range
    have "index + 3 < n \<and> n \<le> length pattern"
      using "1.prems" lt range by (intro "1.IH"(1)) (auto simp: class_loop.simps [of pattern c index])
    then show ?thesis by simp
  next
    case one
    have "index + 1 < n \<and> n \<le> length pattern"
      using "1.prems" lt one by (intro "1.IH"(2)) (auto simp: class_loop.simps [of pattern c index])
    then show ?thesis by simp
  qed
qed

lemma match_char_class_bounds: "match_char_class pattern c = Some n \<Longrightarrow> 0 < n \<and> n \<le> length pattern"
  by (auto simp: match_char_class_def Let_def dest!: class_loop_bounds)

text \<open>\<open>glob_component_match\<close>: \<open>*\<close> is 42, \<open>?\<close> is 63, \<open>[\<close> is 91 and the escape is 92.\<close>

function glob_component_match :: "rstr \<Rightarrow> rstr \<Rightarrow> bool" where
  "glob_component_match pattern text_chars =
     (case pattern of
        [] \<Rightarrow> text_chars = []
      | p # ps \<Rightarrow>
          if p = 42 then list_ex (\<lambda>index. glob_component_match ps (drop index text_chars)) [0..<length text_chars + 1]
          else if p = 63 then text_chars \<noteq> [] \<and> glob_component_match ps (drop 1 text_chars)
          else if p = 91
          then (if text_chars = [] then False
                else case match_char_class pattern (hd text_chars) of
                       Some n \<Rightarrow> glob_component_match (drop n pattern) (drop 1 text_chars)
                     | None \<Rightarrow> False)
          else if p = 92
          then ps \<noteq> [] \<and> text_chars \<noteq> [] \<and> hd ps = hd text_chars
                 \<and> glob_component_match (drop 1 ps) (drop 1 text_chars)
          else text_chars \<noteq> [] \<and> p = hd text_chars \<and> glob_component_match ps (drop 1 text_chars))"
  by pat_completeness auto
termination by (relation "measure (\<lambda>(pattern, _). length pattern)") (auto dest: match_char_class_bounds)

declare glob_component_match.simps [simp del]

definition DOUBLE_STAR :: rstr where "DOUBLE_STAR = [42, 42]"

text \<open>\<open>glob_match\<close>: a last \<open>**\<close> spans at least one component, another any number.\<close>

fun glob_match :: "rstr list \<Rightarrow> rstr list \<Rightarrow> bool" where
  "glob_match [] path = (path = [])"
| "glob_match (part # parts) path =
     (if part = DOUBLE_STAR
      then list_ex (\<lambda>index. glob_match parts (drop index path))
             [(if parts = [] then 1 else 0)..<length path + 1]
      else path \<noteq> [] \<and> glob_component_match part (hd path) \<and> glob_match parts (tl path))"

section \<open>Patterns\<close>

record ignore_pattern =
  ip_negated :: bool
  ip_directory_only :: bool
  ip_anchored :: bool
  ip_parts :: "rstr list"

text \<open>The blanks git trims at the end of a line; a backslash before one keeps it.\<close>

definition is_line_blank :: "nat \<Rightarrow> bool" where
  "is_line_blank b \<longleftrightarrow> b \<in> {32, 9, 13, 11, 12}"

fun strip_blanks_rev :: "rstr \<Rightarrow> rstr" where
  "strip_blanks_rev [] = []"
| "strip_blanks_rev (b # bs) =
     (if \<not> is_line_blank b \<or> (case bs of [] \<Rightarrow> False | e # _ \<Rightarrow> e = 92) then b # bs else strip_blanks_rev bs)"

definition strip_unescaped_trailing_whitespace :: "rstr \<Rightarrow> rstr" where
  "strip_unescaped_trailing_whitespace line = rev (strip_blanks_rev (rev line))"

definition parse_ignore_pattern :: "rstr \<Rightarrow> ignore_pattern option" where
  "parse_ignore_pattern line0 =
     (let line = strip_unescaped_trailing_whitespace line0 in
      if line = [] \<or> starts_with line [35] then None
      else
        let (negated, rest0) = (case strip_prefix [33] line of Some rest \<Rightarrow> (True, rest) | None \<Rightarrow> (False, line));
            rest = (if starts_with rest0 [92, 35] \<or> starts_with rest0 [92, 33] then drop 1 rest0 else rest0)
        in if rest = [] then None
           else
             let (directory_only, body) =
                   (case strip_suffix [47] rest of Some body \<Rightarrow> (True, body) | None \<Rightarrow> (False, rest))
             in if body = [] then None
                else
                  let (anchored, pattern_body) =
                        (case strip_prefix [47] body of
                           Some stripped \<Rightarrow> (True, stripped)
                         | None \<Rightarrow> if 47 \<in> set body then (True, body) else (False, body))
                  in if pattern_body = [] then None
                     else Some \<lparr> ip_negated = negated, ip_directory_only = directory_only,
                                 ip_anchored = anchored, ip_parts = split_char 47 pattern_body \<rparr>)"

definition matches_path :: "ignore_pattern \<Rightarrow> rstr \<Rightarrow> bool \<Rightarrow> bool" where
  "matches_path pattern path is_dir =
     (if ip_directory_only pattern \<and> \<not> is_dir then False
      else
        let components = split_char 47 path in
        if ip_anchored pattern then glob_match (ip_parts pattern) components
        else case ip_parts pattern of
               [] \<Rightarrow> False
             | basename # _ \<Rightarrow> list_ex (glob_component_match basename) components)"

section \<open>Rules\<close>

datatype ignore_tier = GlobalExclude | RepoExclude | WorktreeGitignore | WorktreeAgentPalaceignore

text \<open>The derived order of the tiers: the order of their declaration.\<close>

primrec tier_rank :: "ignore_tier \<Rightarrow> nat" where
  "tier_rank GlobalExclude = 0"
| "tier_rank RepoExclude = 1"
| "tier_rank WorktreeGitignore = 2"
| "tier_rank WorktreeAgentPalaceignore = 3"

lemma tier_rank_inj: "tier_rank s = tier_rank t \<Longrightarrow> s = t"
  by (cases s; cases t) simp_all

instantiation ignore_tier :: linorder
begin

definition less_eq_ignore_tier :: "ignore_tier \<Rightarrow> ignore_tier \<Rightarrow> bool" where
  "less_eq_ignore_tier s t \<longleftrightarrow> tier_rank s \<le> tier_rank t"

definition less_ignore_tier :: "ignore_tier \<Rightarrow> ignore_tier \<Rightarrow> bool" where
  "less_ignore_tier s t \<longleftrightarrow> tier_rank s < tier_rank t"

instance
  by standard (auto simp: less_eq_ignore_tier_def less_ignore_tier_def dest: tier_rank_inj)

end

record ignore_rule =
  ig_pattern :: ignore_pattern
  ig_scope :: rstr
  ig_scope_depth :: nat
  ig_tier :: ignore_tier
  ig_order :: nat

definition scope_relative :: "ignore_rule \<Rightarrow> rstr \<Rightarrow> rstr option" where
  "scope_relative rule path =
     (if ig_scope rule = [] then Some path else strip_prefix (ig_scope rule @ [47]) path)"

section \<open>The matcher\<close>

record ignore_matcher =
  im_skip_dirs :: "rstr list"
  im_repo_offset :: rstr
  im_rules :: "ignore_rule list"
  im_loaded :: "rstr list"
  im_next_order :: nat

definition DEFAULT_SKIP_DIRS :: "rstr list" where
  "DEFAULT_SKIP_DIRS = map lit [''.git'', ''node_modules'', ''__pycache__'', ''.venv'', ''venv'', ''env'', ''dist'',
     ''build'', ''.next'', ''coverage'', ''.agentpalace'', ''.mempalace'', ''.mempalace.pre-agentpalace'']"

definition new_matcher :: ignore_matcher where
  "new_matcher = \<lparr> im_skip_dirs = DEFAULT_SKIP_DIRS, im_repo_offset = [], im_rules = [], im_loaded = [],
     im_next_order = 0 \<rparr>"

definition rule_key :: "ignore_rule \<Rightarrow> ignore_tier \<times> nat \<times> nat" where
  "rule_key r = (ig_tier r, ig_scope_depth r, ig_order r)"

definition sort_rules :: "ignore_matcher \<Rightarrow> ignore_matcher" where
  "sort_rules m = m\<lparr>im_rules := sort_key rule_key (im_rules m)\<rparr>"

definition push_pattern :: "rstr \<Rightarrow> nat \<Rightarrow> ignore_tier \<Rightarrow> rstr \<Rightarrow> ignore_matcher \<Rightarrow> ignore_matcher" where
  "push_pattern scope scope_depth tier line m =
     (case parse_ignore_pattern line of
        None \<Rightarrow> m
      | Some pattern \<Rightarrow>
          m\<lparr>im_rules := im_rules m @ [\<lparr> ig_pattern = pattern, ig_scope = scope, ig_scope_depth = scope_depth,
               ig_tier = tier, ig_order = im_next_order m \<rparr>],
            im_next_order := im_next_order m + 1\<rparr>)"

datatype file_read = Contents rstr | NotFound | ReadError

datatype ingest_error =
    Io rstr
  | InvalidRelativePath rstr
  | GitIndexUnavailable rstr

definition join_path :: "rstr \<Rightarrow> rstr \<Rightarrow> rstr" where
  "join_path dir name = (if dir = [] then name else dir @ 47 # name)"

fun load_ignore_files ::
  "(rstr \<Rightarrow> file_read) \<Rightarrow> rstr \<Rightarrow> rstr \<Rightarrow> nat \<Rightarrow> (rstr \<times> ignore_tier) list \<Rightarrow> ignore_matcher
     \<Rightarrow> (ingest_error + unit) \<times> ignore_matcher" where
  "load_ignore_files read dir_rel scope scope_depth [] m = (Inr (), m)"
| "load_ignore_files read dir_rel scope scope_depth ((file_name, tier) # files) m =
     (case read (join_path dir_rel file_name) of
        Contents body \<Rightarrow>
          load_ignore_files read dir_rel scope scope_depth files
            (fold (push_pattern scope scope_depth tier) (str_lines body) m)
      | NotFound \<Rightarrow> load_ignore_files read dir_rel scope scope_depth files m
      | ReadError \<Rightarrow> (Inl (Io (join_path dir_rel file_name)), m))"

definition load_directory ::
  "(rstr \<Rightarrow> file_read) \<Rightarrow> rstr \<Rightarrow> bool \<Rightarrow> ignore_matcher \<Rightarrow> (ingest_error + unit) \<times> ignore_matcher" where
  "load_directory read dir_rel load_gitignore m =
     (if dir_rel \<in> set (im_loaded m) then (Inr (), m)
      else
        let scope = replace_char 92 47 dir_rel;
            scope_depth = (if scope = [] then 0 else length (split_char 47 scope));
            file_names = (if load_gitignore then [(lit ''.gitignore'', WorktreeGitignore)] else [])
              @ [(lit ''.agentpalaceignore'', WorktreeAgentPalaceignore)]
        in case load_ignore_files read dir_rel scope scope_depth file_names
                  (m\<lparr>im_loaded := insort_insert dir_rel (im_loaded m)\<rparr>) of
             (Inl e, m') \<Rightarrow> (Inl e, m')
           | (Inr _, m') \<Rightarrow> (Inr (), sort_rules m'))"

definition load_pattern_file :: "file_read \<Rightarrow> ignore_tier \<Rightarrow> ignore_matcher \<Rightarrow> ignore_matcher" where
  "load_pattern_file reading tier m =
     (case reading of
        Contents body \<Rightarrow> sort_rules (fold (push_pattern [] 0 tier) (str_lines body) m)
      | NotFound \<Rightarrow> m
      | ReadError \<Rightarrow> m)"

text \<open>What git says of the root: whether it is in a work tree, the repository's and the user's exclude
  files, when it names any, and the root's path below the top of the work tree.\<close>

record git_answers =
  ga_is_backed :: "ingest_error + bool"
  ga_info_exclude :: "file_read option"
  ga_global_excludes :: "file_read option"
  ga_toplevel_offset :: rstr

definition load_repo_excludes :: "git_answers \<Rightarrow> ignore_matcher \<Rightarrow> (ingest_error + unit) \<times> ignore_matcher" where
  "load_repo_excludes git m =
     (case ga_is_backed git of
        Inl e \<Rightarrow> (Inl e, m)
      | Inr backed \<Rightarrow>
          let m1 = (if backed
                    then (case ga_info_exclude git of
                            Some reading \<Rightarrow> load_pattern_file reading RepoExclude m
                          | None \<Rightarrow> m)\<lparr>im_repo_offset := ga_toplevel_offset git\<rparr>
                    else m)
          in (Inr (), case ga_global_excludes git of
                        Some reading \<Rightarrow> load_pattern_file reading GlobalExclude m1
                      | None \<Rightarrow> m1))"

definition matches_skip_dir :: "ignore_matcher \<Rightarrow> rstr \<Rightarrow> bool \<Rightarrow> bool" where
  "matches_skip_dir m normalized is_dir =
     (let parts = split_char 47 normalized;
          candidates = (if is_dir then parts else butlast parts)
      in list_ex (\<lambda>name. name \<in> set candidates) (im_skip_dirs m))"

text \<open>The path a rule looks at.\<close>

definition rule_candidate :: "ignore_matcher \<Rightarrow> rstr \<Rightarrow> ignore_rule \<Rightarrow> rstr" where
  "rule_candidate m normalized rule =
     (if ig_tier rule \<in> {RepoExclude, GlobalExclude}
      then if im_repo_offset m = [] then normalized else im_repo_offset m @ 47 # normalized
      else normalized)"

definition apply_rule ::
  "ignore_matcher \<Rightarrow> rstr \<Rightarrow> bool \<Rightarrow> ignore_rule \<Rightarrow> bool \<times> bool \<Rightarrow> bool \<times> bool" where
  "apply_rule m normalized is_dir rule acc =
     (case scope_relative rule (rule_candidate m normalized rule) of
        None \<Rightarrow> acc
      | Some rest \<Rightarrow>
          if \<not> matches_path (ig_pattern rule) rest is_dir then acc
          else (\<not> ip_negated (ig_pattern rule), True))"

definition ignore_matches :: "ignore_matcher \<Rightarrow> rstr \<Rightarrow> bool \<Rightarrow> bool" where
  "ignore_matches m relative_path is_dir =
     (let normalized = replace_char 92 47 relative_path in
      if matches_skip_dir m normalized is_dir then True
      else case fold (apply_rule m normalized is_dir) (im_rules m) (False, False) of
             (ignored, decided) \<Rightarrow> decided \<and> ignored)"

text \<open>The loop over the parents.\<close>

function any_parent_ignored :: "ignore_matcher \<Rightarrow> rstr \<Rightarrow> bool" where
  "any_parent_ignored m path =
     (case rsplit_once 47 path of
        None \<Rightarrow> False
      | Some (dir, _) \<Rightarrow> if ignore_matches m dir True then True else any_parent_ignored m dir)"
  by pat_completeness auto
termination by (relation "measure (\<lambda>(_, path). length path)") (auto dest: rsplit_once_shorter)

declare any_parent_ignored.simps [simp del]

definition matches_with_ancestors :: "ignore_matcher \<Rightarrow> rstr \<Rightarrow> bool" where
  "matches_with_ancestors m relative_path =
     (let normalized = replace_char 92 47 relative_path in
      if ignore_matches m normalized False then True else any_parent_ignored m normalized)"

end
