(* ===== verification/Ignore_Globs_Props.thy ===== *)
theory Ignore_Globs_Props
  imports Ignore_Globs
begin

text \<open>
  What the ignore rules mean. A glob denotes the set of texts of its tokens, a list of globs the set of
  paths; the two matchers decide these sets. Of the rules that apply to a path, the one of the highest
  tier, then of the deepest scope, then written last decides.
\<close>

section \<open>What a component glob denotes\<close>

datatype class_item = Span nat nat | One nat

primrec in_item :: "nat \<Rightarrow> class_item \<Rightarrow> bool" where
  "in_item c (Span lo hi) = (lo \<le> c \<and> c \<le> hi)"
| "in_item c (One d) = (d = c)"

text \<open>The items of a class up to its closing bracket, and what follows it; a bracket in the first place is
  an item.\<close>

function class_items :: "rstr \<Rightarrow> bool \<Rightarrow> (class_item list \<times> rstr) option" where
  "class_items s can_close =
     (case s of
        [] \<Rightarrow> None
      | c # r \<Rightarrow>
          if c = 93 \<and> can_close then Some ([], r)
          else if 2 \<le> length r \<and> r ! 0 = 45 \<and> r ! 1 \<noteq> 93
          then map_option (\<lambda>(its, rest). (Span c (r ! 1) # its, rest)) (class_items (drop 2 r) True)
          else map_option (\<lambda>(its, rest). (One c # its, rest)) (class_items r True))"
  by pat_completeness auto
termination by (relation "measure (\<lambda>(s, _). length s)") auto

declare class_items.simps [simp del]

lemma class_items_step:
  "class_items [] can_close = None"
  "class_items (93 # r) True = Some ([], r)"
  "\<not> (c = 93 \<and> can_close) \<Longrightarrow> 2 \<le> length r \<and> r ! 0 = 45 \<and> r ! 1 \<noteq> 93 \<Longrightarrow>
     class_items (c # r) can_close = map_option (\<lambda>(its, rest). (Span c (r ! 1) # its, rest)) (class_items (drop 2 r) True)"
  "\<not> (c = 93 \<and> can_close) \<Longrightarrow> \<not> (2 \<le> length r \<and> r ! 0 = 45 \<and> r ! 1 \<noteq> 93) \<Longrightarrow>
     class_items (c # r) can_close = map_option (\<lambda>(its, rest). (One c # its, rest)) (class_items r True)"
  by (subst class_items.simps; auto)+

lemma class_items_shorter: "class_items s can_close = Some (its, rest) \<Longrightarrow> length rest < length s"
proof (induction s can_close arbitrary: its rest rule: class_items.induct)
  case (1 s can_close)
  show ?case
  proof (cases s)
    case Nil
    with "1.prems" show ?thesis by (simp add: class_items_step)
  next
    case (Cons c r)
    consider (close) "c = 93 \<and> can_close" | (span) "\<not> (c = 93 \<and> can_close)" "2 \<le> length r \<and> r ! 0 = 45 \<and> r ! 1 \<noteq> 93"
      | (one) "\<not> (c = 93 \<and> can_close)" "\<not> (2 \<le> length r \<and> r ! 0 = 45 \<and> r ! 1 \<noteq> 93)" by blast
    then show ?thesis
    proof cases
      case close
      with "1.prems" Cons show ?thesis by (simp add: class_items_step)
    next
      case span
      with "1.prems" Cons class_items_step(3) [OF span] obtain its' where "class_items (drop 2 r) True = Some (its', rest)" by auto
      from "1.IH"(1) [OF Cons span this] Cons show ?thesis by simp
    next
      case one
      with "1.prems" Cons class_items_step(4) [OF one] obtain its' where "class_items r True = Some (its', rest)" by auto
      from "1.IH"(2) [OF Cons one this] Cons show ?thesis by simp
    qed
  qed
qed

datatype glob_token = Star | Any | Class bool "class_item list" | Char nat | Never

text \<open>A class without its closing bracket and a backslash without a character match nothing.\<close>

function glob_tokens :: "rstr \<Rightarrow> glob_token list" where
  "glob_tokens s =
     (case s of
        [] \<Rightarrow> []
      | c # r \<Rightarrow>
          if c = 42 then Star # glob_tokens r
          else if c = 63 then Any # glob_tokens r
          else if c = 91
          then let negate = (r \<noteq> [] \<and> (hd r = 33 \<or> hd r = 94)) in
               (case class_items (if negate then tl r else r) False of
                  None \<Rightarrow> [Never]
                | Some (its, rest) \<Rightarrow> Class negate its # glob_tokens rest)
          else if c = 92 then (case r of [] \<Rightarrow> [Never] | d # r' \<Rightarrow> Char d # glob_tokens r')
          else Char c # glob_tokens r)"
  by pat_completeness auto
termination
  by (relation "measure length") (auto dest!: class_items_shorter split: if_splits intro: less_le_trans)

declare glob_tokens.simps [simp del]

primrec glob_texts :: "glob_token list \<Rightarrow> rstr set" where
  "glob_texts [] = {[]}"
| "glob_texts (t # ts) =
     (case t of
        Star \<Rightarrow> {u @ v | u v. v \<in> glob_texts ts}
      | Any \<Rightarrow> {c # v | c v. v \<in> glob_texts ts}
      | Class negate its \<Rightarrow> {c # v | c v. list_ex (in_item c) its \<noteq> negate \<and> v \<in> glob_texts ts}
      | Char c \<Rightarrow> {c # v | v. v \<in> glob_texts ts}
      | Never \<Rightarrow> {})"

section \<open>The matchers decide what globs denote\<close>

lemma class_loop_items:
  "index \<le> length pattern \<Longrightarrow>
   class_loop pattern c index negate matched can_close =
     (case class_items (drop index pattern) can_close of
        None \<Rightarrow> None
      | Some (its, rest) \<Rightarrow>
          if (matched \<or> list_ex (in_item c) its) \<noteq> negate then Some (length pattern - length rest) else None)"
proof (induction pattern c index negate matched can_close rule: class_loop.induct)
  case (1 pattern c index negate matched can_close)
  show ?case
  proof (cases "index < length pattern")
    case False
    with "1.prems" have "index = length pattern" by simp
    then show ?thesis by (subst class_loop.simps) (simp add: class_items_step)
  next
    case True
    define r where "r = drop (Suc index) pattern"
    have d: "drop index pattern = pattern ! index # r" unfolding r_def using True by (rule Cons_nth_drop_Suc [symmetric])
    have r: "length r = length pattern - index - 1" "2 \<le> length r \<longleftrightarrow> index + 2 < length pattern"
      "index + 2 < length pattern \<Longrightarrow> r ! 0 = pattern ! (index + 1) \<and> r ! 1 = pattern ! (index + 2)"
      "drop 2 r = drop (index + 3) pattern" "r = drop (index + 1) pattern"
      using True by (auto simp: r_def numeral_3_eq_3)
    let ?close = "pattern ! index = 93 \<and> can_close"
    let ?range = "index + 2 < length pattern \<and> pattern ! (index + 1) = 45 \<and> pattern ! (index + 2) \<noteq> 93"
    have span: "2 \<le> length r \<and> r ! 0 = 45 \<and> r ! 1 \<noteq> 93 \<longleftrightarrow> ?range" using r(2,3) by metis
    consider (close) ?close | (range) "\<not> ?close" ?range | (one) "\<not> ?close" "\<not> ?range" by blast
    then show ?thesis
    proof cases
      case close
      then show ?thesis using True by (subst class_loop.simps) (simp add: class_items_step d r(1))
    next
      case range
      have "class_items (drop index pattern) can_close =
          map_option (\<lambda>(its, rest). (Span (pattern ! index) (pattern ! (index + 2)) # its, rest)) (class_items (drop (index + 3) pattern) True)"
        using class_items_step(3) [of "pattern ! index" can_close r] range r(2,3,4) by (simp add: d)
      moreover have "class_loop pattern c index negate matched can_close =
          class_loop pattern c (index + 3) negate (matched \<or> pattern ! index \<le> c \<and> c \<le> pattern ! (index + 2)) True"
        using True range by (subst class_loop.simps) auto
      ultimately show ?thesis using "1.IH"(1) [OF True range(1,2)] range
        by (simp add: disj_assoc split: option.splits)
    next
      case one
      have "class_items (drop index pattern) can_close =
          map_option (\<lambda>(its, rest). (One (pattern ! index) # its, rest)) (class_items (drop (index + 1) pattern) True)"
      proof -
        have "\<not> (2 \<le> length r \<and> r ! 0 = 45 \<and> r ! 1 \<noteq> 93)" using one(2) span by blast
        from class_items_step(4) [OF one(1) this] show ?thesis by (simp only: d r(5) [symmetric])
      qed
      moreover have "class_loop pattern c index negate matched can_close =
          class_loop pattern c (index + 1) negate (matched \<or> pattern ! index = c) True"
        using True one by (subst class_loop.simps) auto
      ultimately show ?thesis using "1.IH"(2) [OF True one(1,2)] one True
        by (simp add: disj_assoc split: option.splits)
    qed
  qed
qed

text \<open>What a class at the start of a pattern says of a character.\<close>

lemma match_char_class_items:
  "match_char_class (91 # ps) c =
     (let negate = (ps \<noteq> [] \<and> (hd ps = 33 \<or> hd ps = 94)) in
      case class_items (if negate then tl ps else ps) False of
        None \<Rightarrow> None
      | Some (its, rest) \<Rightarrow> if list_ex (in_item c) its \<noteq> negate then Some (Suc (length ps) - length rest) else None)"
proof (cases ps)
  case Nil
  then show ?thesis by (simp add: match_char_class_def class_loop_items class_items_step)
next
  case (Cons p qs)
  show ?thesis
  proof (cases "p = 33 \<or> p = 94")
    case True
    have "class_loop (91 # ps) c 2 True False False =
        (case class_items qs False of None \<Rightarrow> None
         | Some (its, rest) \<Rightarrow> if list_ex (in_item c) its \<noteq> True then Some (Suc (length ps) - length rest) else None)"
      using class_loop_items [of 2 "91 # ps" c True False False]
      by (simp add: Cons cong: option.case_cong) (simp split: option.splits)
    with True show ?thesis by (simp add: match_char_class_def Cons cong: option.case_cong)
  next
    case False
    have "class_loop (91 # ps) c 1 False False False =
        (case class_items ps False of None \<Rightarrow> None
         | Some (its, rest) \<Rightarrow> if list_ex (in_item c) its \<noteq> False then Some (Suc (length ps) - length rest) else None)"
      using class_loop_items [of 1 "91 # ps" c False False False] by simp (simp split: option.splits)
    with False show ?thesis by (simp add: match_char_class_def Cons cong: option.case_cong)
  qed
qed

lemma class_items_suffix: "class_items s can_close = Some (its, rest) \<Longrightarrow> \<exists>p. s = p @ rest"
proof (induction s can_close arbitrary: its rest rule: class_items.induct)
  case (1 s can_close)
  show ?case
  proof (cases s)
    case Nil
    with "1.prems" show ?thesis by (simp add: class_items_step)
  next
    case (Cons c r)
    consider (close) "c = 93 \<and> can_close" | (span) "\<not> (c = 93 \<and> can_close)" "2 \<le> length r \<and> r ! 0 = 45 \<and> r ! 1 \<noteq> 93"
      | (one) "\<not> (c = 93 \<and> can_close)" "\<not> (2 \<le> length r \<and> r ! 0 = 45 \<and> r ! 1 \<noteq> 93)" by blast
    then show ?thesis
    proof cases
      case close
      with "1.prems" Cons have "s = [c] @ rest" by (simp add: class_items_step)
      then show ?thesis by blast
    next
      case span
      with "1.prems" Cons class_items_step(3) [OF span] obtain its' where "class_items (drop 2 r) True = Some (its', rest)" by auto
      from "1.IH"(1) [OF Cons span this] obtain p where "drop 2 r = p @ rest" by blast
      then have "s = (c # take 2 r @ p) @ rest" using Cons by (metis append_Cons append_assoc append_take_drop_id)
      then show ?thesis by blast
    next
      case one
      with "1.prems" Cons class_items_step(4) [OF one] obtain its' where "class_items r True = Some (its', rest)" by auto
      from "1.IH"(2) [OF Cons one this] obtain p where "r = p @ rest" by blast
      then have "s = (c # p) @ rest" using Cons by simp
      then show ?thesis by blast
    qed
  qed
qed

lemma drop_class:
  assumes "class_items (if negate then tl ps else ps) False = Some (its, rest)" "negate \<Longrightarrow> ps \<noteq> []"
  shows "drop (Suc (length ps) - length rest) (91 # ps) = rest"
proof -
  from class_items_suffix [OF assms(1)] obtain p where p: "(if negate then tl ps else ps) = p @ rest" by blast
  then have "\<exists>q. ps = q @ rest" using assms(2) by (cases negate) (auto simp: neq_Nil_conv)
  then obtain q where "ps = q @ rest" by blast
  then show ?thesis by simp
qed

text \<open>The equations of the matcher and of the tokens, one per kind of first character.\<close>

lemma glob_component_steps:
  "glob_component_match [] s \<longleftrightarrow> s = []"
  "glob_component_match (42 # ps) s \<longleftrightarrow> (\<exists>i \<le> length s. glob_component_match ps (drop i s))"
  "glob_component_match (63 # ps) s \<longleftrightarrow> s \<noteq> [] \<and> glob_component_match ps (drop 1 s)"
  "glob_component_match (91 # ps) s \<longleftrightarrow>
     s \<noteq> [] \<and> (case match_char_class (91 # ps) (hd s) of
        Some n \<Rightarrow> glob_component_match (drop n (91 # ps)) (drop 1 s) | None \<Rightarrow> False)"
  "glob_component_match (92 # ps) s \<longleftrightarrow>
     ps \<noteq> [] \<and> s \<noteq> [] \<and> hd ps = hd s \<and> glob_component_match (drop 1 ps) (drop 1 s)"
  "p \<noteq> 42 \<Longrightarrow> p \<noteq> 63 \<Longrightarrow> p \<noteq> 91 \<Longrightarrow> p \<noteq> 92 \<Longrightarrow>
     glob_component_match (p # ps) s \<longleftrightarrow> s \<noteq> [] \<and> p = hd s \<and> glob_component_match ps (drop 1 s)"
proof -
  have ex: "list_ex P [0..<length s + 1] \<longleftrightarrow> (\<exists>i \<le> length s. P i)" for P
    by (auto simp: list_ex_iff less_Suc_eq_le simp del: upt_Suc)
  show "glob_component_match (42 # ps) s \<longleftrightarrow> (\<exists>i \<le> length s. glob_component_match ps (drop i s))"
    by (subst glob_component_match.simps) (simp only: list.case ex if_True refl)
qed (subst glob_component_match.simps; simp)+

lemma glob_tokens_steps:
  "glob_tokens [] = []"
  "glob_tokens (42 # r) = Star # glob_tokens r"
  "glob_tokens (63 # r) = Any # glob_tokens r"
  "glob_tokens (91 # r) =
     (let negate = (r \<noteq> [] \<and> (hd r = 33 \<or> hd r = 94)) in
      case class_items (if negate then tl r else r) False of
        None \<Rightarrow> [Never]
      | Some (its, rest) \<Rightarrow> Class negate its # glob_tokens rest)"
  "glob_tokens (92 # r) = (case r of [] \<Rightarrow> [Never] | d # r' \<Rightarrow> Char d # glob_tokens r')"
  "c \<noteq> 42 \<Longrightarrow> c \<noteq> 63 \<Longrightarrow> c \<noteq> 91 \<Longrightarrow> c \<noteq> 92 \<Longrightarrow> glob_tokens (c # r) = Char c # glob_tokens r"
  by (subst glob_tokens.simps; simp)+

lemma glob_component_tokens: "glob_component_match pattern s \<longleftrightarrow> s \<in> glob_texts (glob_tokens pattern)"
proof (induction "length pattern" arbitrary: pattern s rule: less_induct)
  case less
  show ?case
  proof (cases pattern)
    case Nil
    then show ?thesis by (simp add: glob_component_steps glob_tokens_steps)
  next
    case (Cons p ps)
    have IH: "glob_component_match q t \<longleftrightarrow> t \<in> glob_texts (glob_tokens q)" if "length q \<le> length ps" for q t
      using less.hyps [of q t] that Cons by simp
    consider "p = 42" | "p = 63" | "p = 91" | "p = 92" | "p \<noteq> 42" "p \<noteq> 63" "p \<noteq> 91" "p \<noteq> 92" by blast
    then show ?thesis
    proof cases
      case 1
      have "(\<exists>i \<le> length s. drop i s \<in> glob_texts (glob_tokens ps)) \<longleftrightarrow> (\<exists>u v. s = u @ v \<and> v \<in> glob_texts (glob_tokens ps))"
        by (metis append_eq_conv_conj append_take_drop_id length_append le_add1)
      then show ?thesis using 1 Cons IH [of ps] by (simp add: glob_component_steps glob_tokens_steps)
    next
      case 2
      then show ?thesis using IH [of ps] Cons by (cases s) (auto simp: glob_component_steps glob_tokens_steps)
    next
      case 3
      define negate where "negate \<longleftrightarrow> ps \<noteq> [] \<and> (hd ps = 33 \<or> hd ps = 94)"
      note steps = glob_component_steps(4) glob_tokens_steps(4) match_char_class_items Let_def negate_def [symmetric]
      show ?thesis
      proof (cases "class_items (if negate then tl ps else ps) False")
        case None
        then show ?thesis using 3 Cons by (simp only: steps option.case) simp
      next
        case (Some x)
        then obtain its rest where some: "class_items (if negate then tl ps else ps) False = Some (its, rest)" by (cases x) simp
        have d: "drop (Suc (length ps) - length rest) (91 # ps) = rest"
          by (rule drop_class [OF some]) (simp add: negate_def)
        have "length rest < length (if negate then tl ps else ps)" by (rule class_items_shorter [OF some])
        then have "length rest \<le> length ps" by (simp split: if_splits)
        note IH = IH [OF this]
        have "glob_component_match (91 # ps) s \<longleftrightarrow>
            s \<noteq> [] \<and> list_ex (in_item (hd s)) its \<noteq> negate \<and> glob_component_match rest (drop 1 s)"
        proof (cases "list_ex (in_item (hd s)) its \<noteq> negate")
          case True
          then show ?thesis by (simp only: steps some option.case prod.case if_True d simp_thms)
        next
          case False
          then show ?thesis by (simp only: steps some option.case prod.case if_False simp_thms)
        qed
        moreover have "glob_tokens (91 # ps) = Class negate its # glob_tokens rest"
          by (simp only: steps some option.case prod.case)
        ultimately show ?thesis using 3 Cons IH by (cases s) auto
      qed
    next
      case 4
      then show ?thesis using IH [of "tl ps"] Cons
        by (cases s; cases ps) (auto simp: glob_component_steps glob_tokens_steps)
    next
      case 5
      then show ?thesis using IH [of ps] Cons by (cases s) (auto simp: glob_component_steps glob_tokens_steps)
    qed
  qed
qed

section \<open>What a path glob denotes\<close>

primrec glob_paths :: "rstr list \<Rightarrow> rstr list set" where
  "glob_paths [] = {[]}"
| "glob_paths (g # gs) =
     (if g = DOUBLE_STAR then {u @ v | u v. v \<in> glob_paths gs \<and> (gs = [] \<longrightarrow> u \<noteq> [])}
      else {c # v | c v. c \<in> glob_texts (glob_tokens g) \<and> v \<in> glob_paths gs})"

section \<open>The rule that decides\<close>

definition rule_applies :: "ignore_matcher \<Rightarrow> rstr \<Rightarrow> bool \<Rightarrow> ignore_rule \<Rightarrow> bool" where
  "rule_applies m normalized is_dir rule =
     (case scope_relative rule (rule_candidate m normalized rule) of
        None \<Rightarrow> False
      | Some rest \<Rightarrow> matches_path (ig_pattern rule) rest is_dir)"

lemma fold_apply_rule:
  "fold (apply_rule m path is_dir) rules acc =
     (case filter (rule_applies m path is_dir) rules of
        [] \<Rightarrow> acc
      | r # rs \<Rightarrow> (\<not> ip_negated (ig_pattern (last (r # rs))), True))"
proof (induction rules arbitrary: acc)
  case (Cons r rules)
  have "apply_rule m path is_dir r acc =
      (if rule_applies m path is_dir r then (\<not> ip_negated (ig_pattern r), True) else acc)"
    by (simp add: apply_rule_def rule_applies_def split: option.splits)
  then show ?case using Cons.IH by (auto split: list.splits)
qed simp

text \<open>The rules stand in ascending order of tier, depth of scope and order of loading, which is unique.\<close>

definition ordered_rules :: "ignore_matcher \<Rightarrow> bool" where
  "ordered_rules m \<longleftrightarrow> sorted (map rule_key (im_rules m)) \<and> distinct (map ig_order (im_rules m))
     \<and> set (im_rules m) \<subseteq> {r. ig_order r < im_next_order m}"

lemma push_pattern_orders:
  "distinct (map ig_order (im_rules m)) \<Longrightarrow> set (im_rules m) \<subseteq> {r. ig_order r < im_next_order m} \<Longrightarrow>
   distinct (map ig_order (im_rules (push_pattern sc d t l m)))
   \<and> set (im_rules (push_pattern sc d t l m)) \<subseteq> {r. ig_order r < im_next_order (push_pattern sc d t l m)}"
  by (auto simp: push_pattern_def split: option.splits)

lemma fold_push_pattern_orders:
  "distinct (map ig_order (im_rules m)) \<Longrightarrow> set (im_rules m) \<subseteq> {r. ig_order r < im_next_order m} \<Longrightarrow>
   distinct (map ig_order (im_rules (fold (push_pattern sc d t) ls m)))
   \<and> set (im_rules (fold (push_pattern sc d t) ls m)) \<subseteq> {r. ig_order r < im_next_order (fold (push_pattern sc d t) ls m)}"
proof (induction ls arbitrary: m)
  case (Cons l ls)
  show ?case using Cons.IH push_pattern_orders [OF Cons.prems, of sc d t l] by simp
qed simp

lemma load_ignore_files_orders:
  "distinct (map ig_order (im_rules m)) \<Longrightarrow> set (im_rules m) \<subseteq> {r. ig_order r < im_next_order m} \<Longrightarrow>
   (case load_ignore_files read dir sc d files m of (r, m') \<Rightarrow>
      distinct (map ig_order (im_rules m')) \<and> set (im_rules m') \<subseteq> {r. ig_order r < im_next_order m'})"
proof (induction files arbitrary: m)
  case (Cons f files)
  obtain file_name tier where f: "f = (file_name, tier)" by (metis surj_pair)
  show ?case
  proof (cases "read (join_path dir file_name)")
    case (Contents body)
    from fold_push_pattern_orders [OF Cons.prems, of sc d tier "str_lines body"]
    show ?thesis unfolding f load_ignore_files.simps Contents file_read.case by (intro Cons.IH) auto
  qed (use Cons f in \<open>simp_all\<close>)
qed simp

lemma sort_rules_ordered:
  "distinct (map ig_order (im_rules m)) \<Longrightarrow> set (im_rules m) \<subseteq> {r. ig_order r < im_next_order m} \<Longrightarrow>
   ordered_rules (sort_rules m)"
  by (simp add: ordered_rules_def sort_rules_def distinct_map)

text \<open>Loading the ignore files of directories and the excludes of the repository, in any order.\<close>

datatype ignore_load = Load_Directory rstr bool | Load_Excludes git_answers

primrec load_rules :: "(rstr \<Rightarrow> file_read) \<Rightarrow> ignore_load \<Rightarrow> ignore_matcher \<Rightarrow> (ingest_error + unit) \<times> ignore_matcher" where
  "load_rules read (Load_Directory dir load_gitignore) m = load_directory read dir load_gitignore m"
| "load_rules read (Load_Excludes git) m = load_repo_excludes git m"

text \<open>The loads of a walk: the first that fails ends it.\<close>

fun run_loads :: "(rstr \<Rightarrow> file_read) \<Rightarrow> ignore_load list \<Rightarrow> ignore_matcher \<Rightarrow> ingest_error + ignore_matcher" where
  "run_loads read [] m = Inr m"
| "run_loads read (l # ls) m =
     (case load_rules read l m of (Inl e, _) \<Rightarrow> Inl e | (Inr _, m') \<Rightarrow> run_loads read ls m')"

lemma load_pattern_file_ordered: "ordered_rules m \<Longrightarrow> ordered_rules (load_pattern_file reading t m)"
  unfolding load_pattern_file_def
  by (cases reading) (auto simp: ordered_rules_def intro!: sort_rules_ordered [unfolded ordered_rules_def] dest: fold_push_pattern_orders)

lemma load_rules_ordered: "ordered_rules m \<Longrightarrow> load_rules read l m = (Inr u, m') \<Longrightarrow> ordered_rules m'"
proof (cases l)
  case (Load_Directory dir g)
  assume m: "ordered_rules m" and "load_rules read l m = (Inr u, m')"
  then have l: "load_directory read dir g m = (Inr u, m')" using Load_Directory by simp
  have orders: "ordered_rules (sort_rules x)"
    if "load_ignore_files read dir sc d files (m\<lparr>im_loaded := y\<rparr>) = (r, x)" for sc d files y r x
    using m load_ignore_files_orders [of "m\<lparr>im_loaded := y\<rparr>" read dir sc d files] that
    by (intro sort_rules_ordered) (simp_all add: ordered_rules_def)
  show ?thesis using l m
    by (simp add: load_directory_def Let_def del: load_ignore_files.simps split: if_split_asm prod.splits sum.splits)
      (blast dest: orders)+
next
  case (Load_Excludes git)
  assume m: "ordered_rules m" and "load_rules read l m = (Inr u, m')"
  moreover have "ordered_rules (m\<lparr>im_repo_offset := x\<rparr>) = ordered_rules m" for m x by (simp add: ordered_rules_def)
  ultimately show ?thesis using Load_Excludes
    by (auto simp: load_repo_excludes_def Let_def load_pattern_file_ordered split: sum.splits option.splits if_splits)
qed

lemma run_loads_ordered: "ordered_rules m \<Longrightarrow> run_loads read ls m = Inr m' \<Longrightarrow> ordered_rules m'"
  by (induction ls arbitrary: m) (auto split: prod.splits sum.splits dest: load_rules_ordered)

lemma new_matcher_ordered: "ordered_rules new_matcher"
  by (simp add: ordered_rules_def new_matcher_def)

text \<open>The rule that applies and outranks the others that do.\<close>

definition decides :: "ignore_matcher \<Rightarrow> rstr \<Rightarrow> bool \<Rightarrow> ignore_rule \<Rightarrow> bool" where
  "decides m path is_dir r \<longleftrightarrow> r \<in> set (im_rules m) \<and> rule_applies m path is_dir r
     \<and> (\<forall>r' \<in> set (im_rules m). rule_applies m path is_dir r' \<longrightarrow> rule_key r' \<le> rule_key r)"

lemma last_rule_decides:
  assumes m: "ordered_rules m"
  shows "(case filter (rule_applies m path is_dir) (im_rules m) of [] \<Rightarrow> False
           | r # rs \<Rightarrow> \<not> ip_negated (ig_pattern (last (r # rs)))) \<longleftrightarrow>
         (\<exists>r. decides m path is_dir r \<and> \<not> ip_negated (ig_pattern r))"
proof (cases "filter (rule_applies m path is_dir) (im_rules m)" rule: rev_cases)
  case Nil
  then show ?thesis by (auto simp: decides_def filter_empty_conv)
next
  case (snoc xs x)
  let ?f = "filter (rule_applies m path is_dir) (im_rules m)"
  have mem: "r \<in> set ?f \<longleftrightarrow> r \<in> set (im_rules m) \<and> rule_applies m path is_dir r" for r by auto
  have "sorted (map rule_key ?f)" using m by (simp add: ordered_rules_def sorted_filter)
  then have le: "rule_key r \<le> rule_key x" if "r \<in> set ?f" for r
    using that unfolding snoc by (auto simp: sorted_append)
  have x: "x \<in> set ?f" by (simp add: snoc)
  have "decides m path is_dir x" using x le unfolding decides_def mem by blast
  moreover have "r = x" if "decides m path is_dir r" for r
  proof -
    have "rule_key r = rule_key x" using that x le unfolding decides_def mem by (meson order_antisym)
    then have "ig_order r = ig_order x" by (simp add: rule_key_def)
    moreover have "r \<in> set (im_rules m)" "x \<in> set (im_rules m)" using that x by (auto simp: decides_def)
    ultimately show ?thesis using m by (auto simp: ordered_rules_def distinct_map dest: inj_onD)
  qed
  ultimately have "(\<exists>r. decides m path is_dir r \<and> \<not> ip_negated (ig_pattern r)) \<longleftrightarrow> \<not> ip_negated (ig_pattern x)" by blast
  moreover have "(case ?f of [] \<Rightarrow> False | r # rs \<Rightarrow> \<not> ip_negated (ig_pattern (last (r # rs)))) \<longleftrightarrow> \<not> ip_negated (ig_pattern (last ?f))"
    by (cases ?f) (simp_all add: snoc)
  ultimately show ?thesis by (simp add: snoc)
qed

lemma ignore_matches_decided:
  "ordered_rules m \<Longrightarrow> ignore_matches m path is_dir \<longleftrightarrow>
     matches_skip_dir m (replace_char 92 47 path) is_dir
     \<or> (\<exists>r. decides m (replace_char 92 47 path) is_dir r \<and> \<not> ip_negated (ig_pattern r))"
  by (simp add: ignore_matches_def Let_def fold_apply_rule last_rule_decides [symmetric] split: list.splits)

lemma list_ex_upt: "list_ex P [a..<n + 1] \<longleftrightarrow> (\<exists>i \<le> n. a \<le> i \<and> P i)"
  by (auto simp: list_ex_iff less_Suc_eq_le simp del: upt_Suc)

section \<open>Parents\<close>

text \<open>The directories above a path.\<close>

definition parents :: "rstr \<Rightarrow> rstr list" where
  "parents path = (let cs = split_char 47 path in map (\<lambda>k. join_on 47 (take k cs)) [1..<length cs])"

lemma parents_step:
  "parents path = (case rsplit_once 47 path of None \<Rightarrow> [] | Some (dir, _) \<Rightarrow> parents dir @ [dir])"
proof (cases "rsplit_once 47 path")
  case None
  then have "47 \<notin> set path" by (simp add: rsplit_once_None)
  with None show ?thesis by (simp add: parents_def split_char_plain)
next
  case (Some x)
  then obtain dir b where x: "rsplit_once 47 path = Some (dir, b)" by (cases x) simp
  then have p: "path = dir @ 47 # b" "47 \<notin> set b" by (simp_all add: rsplit_once_Some)
  then have s: "split_char 47 path = split_char 47 dir @ [b]" by (simp add: split_char_infix split_char_plain)
  have "take k (split_char 47 dir @ [b]) = take k (split_char 47 dir)" if "k \<le> length (split_char 47 dir)" for k using that by simp
  moreover have "[1..<Suc (length (split_char 47 dir))] = [1..<length (split_char 47 dir)] @ [length (split_char 47 dir)]"
    by (simp add: Suc_le_eq)
  ultimately show ?thesis by (simp add: x parents_def Let_def s)
qed

lemma any_parent_ignored_iff: "any_parent_ignored m path \<longleftrightarrow> list_ex (\<lambda>dir. ignore_matches m dir True) (parents path)"
proof (induction m path rule: any_parent_ignored.induct)
  case (1 m path)
  show ?case
  proof (cases "rsplit_once 47 path")
    case None
    then show ?thesis by (subst any_parent_ignored.simps) (simp add: parents_step [of path])
  next
    case (Some x)
    then obtain dir b where x: "rsplit_once 47 path = Some (dir, b)" by (cases x) simp
    have "any_parent_ignored m path \<longleftrightarrow> ignore_matches m dir True \<or> any_parent_ignored m dir"
      by (subst any_parent_ignored.simps) (simp add: x)
    moreover have "parents path = parents dir @ [dir]" by (subst parents_step) (simp add: x)
    ultimately show ?thesis using "1.IH" [OF x refl] by auto
  qed
qed

section \<open>Properties\<close>

text \<open>
  C26: the path matcher decides exactly the paths a list of globs denotes: a component glob the texts of its
  tokens (a run, any character, a class with its spans and negation, an escaped or plain character; an open
  class or a dangling backslash nothing), a double star any number of components and at least one at the end.
\<close>

theorem glob_match_language: "glob_match parts path \<longleftrightarrow> path \<in> glob_paths parts"
proof (induction parts arbitrary: path)
  case (Cons g gs)
  show ?case
  proof (cases "g = DOUBLE_STAR")
    case True
    have "glob_match (g # gs) path \<longleftrightarrow> (\<exists>i \<le> length path. (gs = [] \<longrightarrow> 0 < i) \<and> drop i path \<in> glob_paths gs)"
      by (simp only: glob_match.simps True simp_thms if_True list_ex_upt Cons.IH) (simp add: Suc_le_eq)
    also have "\<dots> \<longleftrightarrow> (\<exists>u v. path = u @ v \<and> v \<in> glob_paths gs \<and> (gs = [] \<longrightarrow> u \<noteq> []))"
    proof (intro iffI; elim exE conjE)
      fix i assume "i \<le> length path" "gs = [] \<longrightarrow> 0 < i" "drop i path \<in> glob_paths gs"
      then show "\<exists>u v. path = u @ v \<and> v \<in> glob_paths gs \<and> (gs = [] \<longrightarrow> u \<noteq> [])"
        by (intro exI [of _ "take i path"] exI [of _ "drop i path"]) auto
    next
      fix u v assume "path = u @ v" "v \<in> glob_paths gs" "gs = [] \<longrightarrow> u \<noteq> []"
      then show "\<exists>i \<le> length path. (gs = [] \<longrightarrow> 0 < i) \<and> drop i path \<in> glob_paths gs"
        by (intro exI [of _ "length u"]) auto
    qed
    finally show ?thesis using True by auto
  next
    case False
    then show ?thesis using Cons.IH by (cases path) (auto simp: glob_component_tokens)
  qed
qed simp


text \<open>A file of the index is excluded exactly if it or a directory above it is.\<close>

lemma ancestors_exclude:
  "matches_with_ancestors m path \<longleftrightarrow>
     ignore_matches m (replace_char 92 47 path) False
     \<or> list_ex (\<lambda>dir. ignore_matches m dir True) (parents (replace_char 92 47 path))"
  by (simp add: matches_with_ancestors_def Let_def any_parent_ignored_iff)

text \<open>
  An unanchored pattern looks at every component of a path, not at its last one: with the lines \<open>*.txt\<close> and
  \<open>!foo\<close> the file \<open>foo/a.txt\<close> is not ignored, although no rule for its name re-includes it, while
  \<open>bar/a.txt\<close> is.
\<close>

definition txt_but_foo :: "rstr \<Rightarrow> file_read" where
  "txt_but_foo path = (if path = lit ''.gitignore'' then Contents (lit ''*.txt'' @ 10 # lit ''!foo'') else NotFound)"

lemma directory_name_reincludes:
  "case load_directory txt_but_foo [] True new_matcher of
     (_, m) \<Rightarrow> ignore_matches m (lit ''bar/a.txt'') False \<and> \<not> ignore_matches m (lit ''foo/a.txt'') False"
  by code_simp

end
