(* ===== verification/Access_Policy.thy ===== *)
theory Access_Policy
  imports Provenance Rust_Collections
begin

text \<open>
  The durable access policy of the demo hub (\<open>AccessPolicyStore\<close> of
  \<open>crates/agentpalace-demo-hub/src/access_policy.rs\<close>). The state is what the store keeps on disk: the
  policy file, the bindings file, the marker of the bootstrap and the audit log. A file is absent, cannot be
  read, does not decode, or holds a document of a number of bytes. An atomic replacement succeeds, leaves
  the old file, or replaces it and fails afterwards while syncing; the record \<open>policy_env\<close> says which, and
  gives the clock, the hash and the length of a document's JSON.
\<close>

definition MAX_POLICY_FILE_BYTES :: nat where "MAX_POLICY_FILE_BYTES = 4 * 1024 * 1024"

datatype access_role = Admin | Write | Readonly

record access_entry =
  ae_role :: access_role
  ae_enabled :: bool
  ae_mailbox_proven :: bool

type_synonym user_map = "(rstr \<times> access_entry) list"

record audit_entry =
  au_actor :: rstr
  au_occurred_at :: rstr
  au_action :: rstr
  au_before :: json
  au_after :: json

record policy_file =
  pf_format :: nat
  pf_revision :: nat
  pf_users :: user_map
  pf_audit :: "audit_entry list"

record binding_record =
  br_owner_id :: rstr
  br_email :: rstr

type_synonym binding_map = "(rstr \<times> binding_record) list"

record bindings_file =
  bf_format :: nat
  bf_bindings :: binding_map
  bf_audit :: "audit_entry list"

record access_snapshot =
  as_revision :: nat
  as_users :: user_map

record subject_binding =
  sb_issuer :: rstr
  sb_subject :: rstr

record verified_identity =
  vi_email :: rstr
  vi_subject :: rstr
  vi_issuer :: rstr

record admission_identity =
  ad_owner :: authenticated_owner
  ad_subject_binding :: subject_binding

record policy_decision =
  de_admission :: admission_identity
  de_role :: access_role

record bootstrap_admin =
  ba_email :: rstr
  ba_mailbox_proven :: bool

datatype io_kind = IoNotFound | IoOther

datatype access_policy_error =
    PolicyStorage io_kind
  | PolicyRevisionConflict nat nat
  | PolicyInvalid rstr
  | LastEnabledAdmin
  | BindingConflict
  | EmailChanged

section \<open>The disk\<close>

datatype 'a stored = Absent | Unreadable | Undecodable rstr | Stored nat 'a

datatype marker_file = MarkerAbsent | MarkerPresent | MarkerUnreadable

record policy_disk =
  pd_policy :: "policy_file stored"
  pd_bindings :: "bindings_file stored"
  pd_marker :: marker_file
  pd_audit_log :: "audit_entry list"

datatype write_outcome = Written | NotWritten | WrittenUnsynced

record policy_env =
  pe_now :: "64 word"                           \<comment> \<open>\<open>as_secs\<close> of the time since the epoch\<close>
  pe_lock :: bool                               \<comment> \<open>the mutex and the lock file were acquired\<close>
  pe_write :: "nat \<Rightarrow> write_outcome"            \<comment> \<open>what happens to the n-th replacement of the call\<close>
  pe_log :: bool                                \<comment> \<open>the line was appended to the audit log\<close>
  pe_policy_len :: "policy_file \<Rightarrow> nat"         \<comment> \<open>the length of \<open>to_vec_pretty\<close>\<close>
  pe_bindings_len :: "bindings_file \<Rightarrow> nat"
  pe_blake3_hex :: "rstr \<Rightarrow> rstr"

definition timestamp :: "policy_env \<Rightarrow> rstr" where
  "timestamp pe = show_nat (unat (pe_now pe))"

section \<open>JSON of the documents\<close>

primrec role_text :: "access_role \<Rightarrow> rstr" where
  "role_text Admin = lit ''admin''"
| "role_text Write = lit ''write''"
| "role_text Readonly = lit ''readonly''"

text \<open>\<open>serde_json::to_value\<close>; the keys of an object are in ascending order.\<close>

definition entry_value :: "access_entry \<Rightarrow> json" where
  "entry_value x = JObject [(lit ''enabled'', JBool (ae_enabled x)),
     (lit ''mailbox_proven'', JBool (ae_mailbox_proven x)), (lit ''role'', JString (role_text (ae_role x)))]"

definition users_value :: "user_map \<Rightarrow> json" where
  "users_value users = JObject (map (map_prod id entry_value) users)"

definition binding_value :: "binding_record \<Rightarrow> json" where
  "binding_value r = JObject [(lit ''email'', JString (br_email r)), (lit ''owner_id'', JString (br_owner_id r))]"

definition bindings_value :: "binding_map \<Rightarrow> json" where
  "bindings_value bindings = JObject (map (map_prod id binding_value) bindings)"

section \<open>Checks\<close>

definition normalize_email :: "rstr \<Rightarrow> access_policy_error + rstr" where
  "normalize_email value0 =
     (let v = trim value0 in
      case rsplit_once 64 v of
        None \<Rightarrow> Inl (PolicyInvalid (lit ''email must contain one @''))
      | Some (local_part, domain) \<Rightarrow>
          if local_part = [] \<or> domain = [] \<or> 64 \<in> set local_part \<or> 64 \<in> set domain
             \<or> list_ex (\<lambda>ch. is_ascii_control ch \<or> is_ascii_whitespace ch) v
          then Inl (PolicyInvalid (lit ''email address is malformed''))
          else let normalized = local_part @ 64 # to_ascii_lowercase domain in
               bindE (mapE (\<lambda>e. PolicyInvalid (provenance_error_text e)) (new_email_at_write normalized))
                 (\<lambda>_. Inr normalized))"

text \<open>The loop over the entries in ascending order.\<close>

fun canonicalize_from :: "user_map \<Rightarrow> user_map \<Rightarrow> access_policy_error + user_map" where
  "canonicalize_from [] canonical = Inr canonical"
| "canonicalize_from ((email0, entry) # users) canonical =
     bindE (normalize_email email0) (\<lambda>email.
       if email \<in> fst ` set canonical
       then Inl (PolicyInvalid (lit ''duplicate email after normalization: '' @ email))
       else canonicalize_from users (bmap_update email (\<lambda>_. entry) canonical))"

definition canonicalize_users :: "user_map \<Rightarrow> access_policy_error + user_map" where
  "canonicalize_users users = canonicalize_from users []"

fun validate_users :: "user_map \<Rightarrow> access_policy_error + unit" where
  "validate_users [] = Inr ()"
| "validate_users ((email, _) # users) =
     bindE (normalize_email email) (\<lambda>normalized.
       if normalized \<noteq> email then Inl (PolicyInvalid (lit ''email keys must be canonical''))
       else validate_users users)"

definition mailbox_is_proven :: "rstr \<Rightarrow> bool \<Rightarrow> bool" where
  "mailbox_is_proven email mailbox_proven =
     ((case rsplit_once 64 email of
         Some (_, domain) \<Rightarrow> to_ascii_lowercase domain = to_ascii_lowercase (lit ''gmail.com'')
       | None \<Rightarrow> False) \<or> mailbox_proven)"

definition binding_key :: "subject_binding \<Rightarrow> rstr" where
  "binding_key b = sb_issuer b @ 0 # sb_subject b"

definition parse_binding :: "rstr \<Rightarrow> rstr \<Rightarrow> provenance_error + subject_binding" where
  "parse_binding issuer subject =
     bindE (new_issuer issuer) (\<lambda>i. bindE (new_subject subject) (\<lambda>s. Inr \<lparr>sb_issuer = i, sb_subject = s\<rparr>))"

definition validate_binding :: "subject_binding \<Rightarrow> provenance_error + unit" where
  "validate_binding b = bindE (validate_issuer (sb_issuer b)) (\<lambda>_. validate_subject (sb_subject b))"

definition stable_owner_id :: "policy_env \<Rightarrow> subject_binding \<Rightarrow> rstr" where
  "stable_owner_id pe b = lit ''owner-'' @ take 48 (pe_blake3_hex pe (binding_key b))"

text \<open>\<open>char::is_control\<close>: the general category Cc.\<close>

definition is_control :: "nat \<Rightarrow> bool" where
  "is_control c \<longleftrightarrow> c < 32 \<or> (127 \<le> c \<and> c < 160)"

definition validate_actor :: "rstr \<Rightarrow> access_policy_error + rstr" where
  "validate_actor actor0 =
     (let actor = trim actor0 in
      if actor = [] \<or> str_len actor > 256 \<or> list_ex is_control actor
      then Inl (PolicyInvalid (lit ''audit actor is malformed''))
      else Inr actor)"

text \<open>\<open>parse::<u64>\<close> succeeds.\<close>

definition digits_value :: "rstr \<Rightarrow> nat" where
  "digits_value ds = foldl (\<lambda>n d. 10 * n + (d - 48)) 0 ds"

definition parses_u64 :: "rstr \<Rightarrow> bool" where
  "parses_u64 s =
     (let ds = (case s of c # r \<Rightarrow> if c = 43 then r else s | [] \<Rightarrow> s) in
      ds \<noteq> [] \<and> list_all is_ascii_digit ds \<and> digits_value ds < 2 ^ 64)"

fun audit_chain :: "json option \<Rightarrow> audit_entry list \<Rightarrow> access_policy_error + json option" where
  "audit_chain prior_after [] = Inr prior_after"
| "audit_chain prior_after (event # events) =
     (if trim (au_actor event) = [] \<or> str_len (au_actor event) > 256 \<or> list_ex is_control (au_actor event)
         \<or> \<not> parses_u64 (au_occurred_at event) \<or> trim (au_action event) = []
      then Inl (PolicyInvalid (lit ''policy audit event is malformed''))
      else case prior_after of
             None \<Rightarrow>
               if au_before event \<noteq> JNull
               then Inl (PolicyInvalid (lit ''first audit event must have a null before value''))
               else audit_chain (Some (au_after event)) events
           | Some previous \<Rightarrow>
               if au_before event \<noteq> previous
               then Inl (PolicyInvalid (lit ''policy audit history is discontinuous''))
               else audit_chain (Some (au_after event)) events)"

definition validate_audit_chain :: "audit_entry list \<Rightarrow> json \<Rightarrow> nat \<Rightarrow> access_policy_error + unit" where
  "validate_audit_chain audit current revision =
     (if audit = [] \<or> length audit \<noteq> revision
      then Inl (PolicyInvalid (lit ''audit history does not match policy revision''))
      else bindE (audit_chain None audit) (\<lambda>prior_after.
        if prior_after \<noteq> Some current
        then Inl (PolicyInvalid (lit ''policy changed without a matching operator audit event''))
        else Inr ()))"

section \<open>Reading and writing\<close>

definition read_stored :: "'a stored \<Rightarrow> access_policy_error + 'a" where
  "read_stored x =
     (case x of
        Absent \<Rightarrow> Inl (PolicyStorage IoNotFound)
      | Unreadable \<Rightarrow> Inl (PolicyStorage IoOther)
      | Undecodable e \<Rightarrow> Inl (PolicyInvalid e)
      | Stored n doc \<Rightarrow>
          if n \<ge> MAX_POLICY_FILE_BYTES then Inl (PolicyInvalid (lit ''policy file is too large'')) else Inr doc)"

definition has_enabled_admin :: "user_map \<Rightarrow> bool" where
  "has_enabled_admin users = list_ex (\<lambda>(_, entry). ae_enabled entry \<and> ae_role entry = Admin) users"

definition read_policy :: "policy_disk \<Rightarrow> access_policy_error + policy_file" where
  "read_policy d =
     bindE (read_stored (pd_policy d)) (\<lambda>policy.
       if pf_format policy \<noteq> 1 \<or> pf_revision policy = 0
       then Inl (PolicyInvalid (lit ''unsupported policy format or revision''))
       else bindE (validate_users (pf_users policy)) (\<lambda>_.
         bindE (validate_audit_chain (pf_audit policy) (users_value (pf_users policy)) (pf_revision policy)) (\<lambda>_.
           if \<not> has_enabled_admin (pf_users policy) then Inl LastEnabledAdmin else Inr policy)))"

text \<open>The loop over the bindings in ascending order of their keys.\<close>

fun check_bindings :: "binding_map \<Rightarrow> rstr list \<Rightarrow> rstr list \<Rightarrow> access_policy_error + unit" where
  "check_bindings [] emails owners = Inr ()"
| "check_bindings ((key, r) # bindings) emails owners =
     bindE (normalize_email (br_email r)) (\<lambda>email.
       if email \<noteq> br_email r \<or> email \<in> set emails \<or> br_owner_id r \<in> set owners
       then Inl (PolicyInvalid (lit ''duplicate or non-canonical identity binding''))
       else case split_once 0 key of
              None \<Rightarrow> Inl (PolicyInvalid (lit ''identity binding key is malformed''))
            | Some (issuer, subject) \<Rightarrow>
                bindE (mapE (\<lambda>e. PolicyInvalid (provenance_error_text e)) (parse_binding issuer subject)) (\<lambda>b.
                  if binding_key b \<noteq> key then Inl (PolicyInvalid (lit ''identity binding key is not canonical''))
                  else check_bindings bindings (email # emails) (br_owner_id r # owners)))"

definition read_bindings :: "policy_disk \<Rightarrow> access_policy_error + bindings_file" where
  "read_bindings d =
     bindE (read_stored (pd_bindings d)) (\<lambda>file.
       if bf_format file \<noteq> 1 then Inl (PolicyInvalid (lit ''unsupported binding format''))
       else bindE (validate_audit_chain (bf_audit file) (bindings_value (bf_bindings file)) (length (bf_audit file))) (\<lambda>_.
         bindE (check_bindings (bf_bindings file) [] []) (\<lambda>_. Inr file)))"

text \<open>\<open>write_json_atomic\<close>: too long a document is refused; the file changes as a whole or not at all.\<close>

definition replace_file :: "write_outcome \<Rightarrow> nat \<Rightarrow> 'a \<Rightarrow> 'a stored \<Rightarrow> (access_policy_error + unit) \<times> 'a stored" where
  "replace_file w n doc old =
     (if n \<ge> MAX_POLICY_FILE_BYTES then (Inl (PolicyInvalid (lit ''policy file exceeds the 4 MiB limit'')), old)
      else case w of
             Written \<Rightarrow> (Inr (), Stored n doc)
           | NotWritten \<Rightarrow> (Inl (PolicyStorage IoOther), old)
           | WrittenUnsynced \<Rightarrow> (Inl (PolicyStorage IoOther), Stored n doc))"

definition write_policy :: "policy_env \<Rightarrow> nat \<Rightarrow> policy_file \<Rightarrow> policy_disk \<Rightarrow> (access_policy_error + unit) \<times> policy_disk" where
  "write_policy pe i policy d =
     (case validate_users (pf_users policy) of
        Inl e \<Rightarrow> (Inl e, d)
      | Inr _ \<Rightarrow>
          (case replace_file (pe_write pe i) (pe_policy_len pe policy) policy (pd_policy d) of
             (r, file) \<Rightarrow> (r, d\<lparr>pd_policy := file\<rparr>)))"

definition write_bindings :: "policy_env \<Rightarrow> nat \<Rightarrow> bindings_file \<Rightarrow> policy_disk \<Rightarrow> (access_policy_error + unit) \<times> policy_disk" where
  "write_bindings pe i file d =
     (case replace_file (pe_write pe i) (pe_bindings_len pe file) file (pd_bindings d) of
        (r, file') \<Rightarrow> (r, d\<lparr>pd_bindings := file'\<rparr>))"

definition audit_event :: "policy_env \<Rightarrow> rstr \<Rightarrow> rstr \<Rightarrow> json \<Rightarrow> json \<Rightarrow> audit_entry" where
  "audit_event pe actor action before after =
     \<lparr> au_actor = actor, au_occurred_at = timestamp pe, au_action = action, au_before = before, au_after = after \<rparr>"

definition append_audit :: "policy_env \<Rightarrow> audit_entry \<Rightarrow> policy_disk \<Rightarrow> policy_disk" where
  "append_audit pe event d = (if pe_log pe then d\<lparr>pd_audit_log := pd_audit_log d @ [event]\<rparr> else d)"

section \<open>Operations\<close>

text \<open>The mutex and the advisory lock come first.\<close>

definition locked ::
  "policy_env \<Rightarrow> policy_disk \<Rightarrow> (access_policy_error + 'a) \<times> policy_disk \<Rightarrow> (access_policy_error + 'a) \<times> policy_disk" where
  "locked pe d k = (if pe_lock pe then k else (Inl (PolicyStorage IoOther), d))"

definition bootstrap_policy :: "policy_env \<Rightarrow> rstr \<Rightarrow> bool \<Rightarrow> policy_file" where
  "bootstrap_policy pe email mailbox_proven =
     (let users = [(email, \<lparr>ae_role = Admin, ae_enabled = True, ae_mailbox_proven = mailbox_proven\<rparr>)] in
      \<lparr> pf_format = 1, pf_revision = 1, pf_users = users,
        pf_audit = [audit_event pe (lit ''bootstrap'') (lit ''bootstrap_admin_created'') JNull (users_value users)] \<rparr>)"

definition initial_bindings :: "policy_env \<Rightarrow> bindings_file" where
  "initial_bindings pe =
     \<lparr> bf_format = 1, bf_bindings = [],
       bf_audit = [audit_event pe (lit ''bootstrap'') (lit ''bindings_initialized'') JNull (bindings_value [])] \<rparr>"

text \<open>The first half of \<open>open\<close>: the policy, created for the first administrator when it is absent.\<close>

definition open_policy :: "policy_env \<Rightarrow> bootstrap_admin option \<Rightarrow> policy_disk \<Rightarrow> (access_policy_error + unit) \<times> policy_disk" where
  "open_policy pe bootstrap d =
     (case read_policy d of
        Inr _ \<Rightarrow> (Inr (), d)
      | Inl e \<Rightarrow>
          if e \<noteq> PolicyStorage IoNotFound then (Inl e, d)
          else case pd_marker d of
                 MarkerPresent \<Rightarrow> (Inl (PolicyInvalid (lit ''initial bootstrap has already been used'')), d)
               | MarkerUnreadable \<Rightarrow> (Inl (PolicyStorage IoOther), d)
               | MarkerAbsent \<Rightarrow>
                   (case bootstrap of
                      None \<Rightarrow> (Inl e, d)
                    | Some b \<Rightarrow>
                        try_tx d (normalize_email (ba_email b)) (\<lambda>email.
                          case write_policy pe 0 (bootstrap_policy pe email (ba_mailbox_proven b)) d of
                            (Inl e', d1) \<Rightarrow> (Inl e', d1)
                          | (Inr _, d1) \<Rightarrow>
                              (case pe_write pe 1 of
                                 Written \<Rightarrow> (Inr (), d1\<lparr>pd_marker := MarkerPresent\<rparr>)
                               | NotWritten \<Rightarrow> (Inl (PolicyStorage IoOther), d1)
                               | WrittenUnsynced \<Rightarrow>
                                   (Inl (PolicyStorage IoOther), d1\<lparr>pd_marker := MarkerPresent\<rparr>)))))"

definition open_store :: "policy_env \<Rightarrow> bootstrap_admin option \<Rightarrow> policy_disk \<Rightarrow> (access_policy_error + unit) \<times> policy_disk" where
  "open_store pe bootstrap d =
     locked pe d
       (case open_policy pe bootstrap d of
          (Inl e, d1) \<Rightarrow> (Inl e, d1)
        | (Inr _, d1) \<Rightarrow>
            (case read_bindings d1 of
               Inr _ \<Rightarrow> (Inr (), d1)
             | Inl e \<Rightarrow>
                 if e \<noteq> PolicyStorage IoNotFound then (Inl e, d1)
                 else write_bindings pe 2 (initial_bindings pe) d1))"

definition provenance_invalid :: "provenance_error + 'a \<Rightarrow> access_policy_error + 'a" where
  "provenance_invalid r = mapE (\<lambda>e. PolicyInvalid (provenance_error_text e)) r"

text \<open>The owner of a subject: the recorded one, or a new one unless another subject has the e-mail.\<close>

definition owner_for :: "policy_env \<Rightarrow> subject_binding \<Rightarrow> rstr \<Rightarrow> binding_map \<Rightarrow> access_policy_error + rstr" where
  "owner_for pe b email bindings =
     (case map_of bindings (binding_key b) of
        Some r \<Rightarrow> Inr (br_owner_id r)
      | None \<Rightarrow>
          if list_ex (\<lambda>(existing_key, r). existing_key \<noteq> binding_key b \<and> br_email r = email) bindings
          then Inl BindingConflict
          else Inr (stable_owner_id pe b))"

definition owner_of_identity :: "rstr \<Rightarrow> verified_identity \<Rightarrow> access_policy_error + authenticated_owner" where
  "owner_of_identity owner_id identity =
     bindE (provenance_invalid (new_issuer (vi_issuer identity))) (\<lambda>i.
     bindE (provenance_invalid (new_subject (vi_subject identity))) (\<lambda>s.
     bindE (provenance_invalid (new_email_at_write (vi_email identity))) (\<lambda>m.
       Inr \<lparr>ao_id = owner_id, ao_issuer = i, ao_subject = s, ao_email = m\<rparr>)))"

definition new_admission :: "rstr \<Rightarrow> authenticated_owner \<Rightarrow> admission_identity" where
  "new_admission owner_id owner =
     \<lparr> ad_owner = owner\<lparr>ao_id := owner_id\<rparr>,
       ad_subject_binding = \<lparr>sb_issuer = ao_issuer owner, sb_subject = ao_subject owner\<rparr> \<rparr>"

definition bind_key :: "policy_env \<Rightarrow> rstr \<Rightarrow> rstr \<Rightarrow> binding_record \<Rightarrow> bindings_file \<Rightarrow> bindings_file" where
  "bind_key pe actor key r file =
     (let bindings = bmap_update key (\<lambda>_. r) (bf_bindings file) in
      file\<lparr>bf_bindings := bindings,
           bf_audit := bf_audit file @ [audit_event pe actor (lit ''subject_bound'')
             (bindings_value (bf_bindings file)) (bindings_value bindings)]\<rparr>)"

text \<open>What the log line of a new binding holds.\<close>

definition bound_event :: "policy_env \<Rightarrow> rstr \<Rightarrow> subject_binding \<Rightarrow> binding_record \<Rightarrow> json \<Rightarrow> audit_entry" where
  "bound_event pe actor b r before =
     audit_event pe actor (lit ''subject_bound'') before
       (JObject [(lit ''email'', JString (br_email r)), (lit ''issuer'', JString (sb_issuer b)),
          (lit ''owner_id'', JString (br_owner_id r)), (lit ''subject'', JString (sb_subject b))])"

definition resolve ::
  "policy_env \<Rightarrow> verified_identity \<Rightarrow> policy_disk \<Rightarrow> (access_policy_error + policy_decision option) \<times> policy_disk" where
  "resolve pe identity d =
     locked pe d
       (try_tx d (read_policy d) (\<lambda>policy.
          case normalize_email (vi_email identity) of
            Inl _ \<Rightarrow> (Inr None, d)
          | Inr email \<Rightarrow>
              try_tx d (provenance_invalid (parse_binding (vi_issuer identity) (vi_subject identity))) (\<lambda>b.
              try_tx d (read_bindings d) (\<lambda>file.
                if opt_holds (\<lambda>r. br_email r \<noteq> email) (map_of (bf_bindings file) (binding_key b))
                then (Inl EmailChanged, d)
                else case map_of (pf_users policy) email of
                       None \<Rightarrow> (Inr None, d)
                     | Some entry \<Rightarrow>
                         if \<not> ae_enabled entry then (Inr None, d)
                         else if \<not> mailbox_is_proven email (ae_mailbox_proven entry) then (Inr None, d)
                         else
                           try_tx d (owner_for pe b email (bf_bindings file)) (\<lambda>owner_id.
                           try_tx d (owner_of_identity owner_id identity) (\<lambda>owner.
                             let decision = Inr (Some \<lparr>de_admission = new_admission owner_id owner, de_role = ae_role entry\<rparr>);
                                 r = \<lparr>br_owner_id = owner_id, br_email = email\<rparr>
                             in if map_of (bf_bindings file) (binding_key b) = None
                                then case write_bindings pe 0 (bind_key pe (lit ''oidc-admission'') (binding_key b) r file) d of
                                       (Inl e, d1) \<Rightarrow> (Inl e, d1)
                                     | (Inr _, d1) \<Rightarrow>
                                         (decision, append_audit pe (bound_event pe (lit ''oidc-admission'') b r
                                                      (bindings_value (bf_bindings file))) d1)
                                else (decision, d)))))))"

definition role_for_owner :: "policy_env \<Rightarrow> rstr \<Rightarrow> policy_disk \<Rightarrow> (access_policy_error + access_role option) \<times> policy_disk" where
  "role_for_owner pe owner_id d =
     locked pe d
       (try_tx d (read_policy d) (\<lambda>policy.
        try_tx d (read_bindings d) (\<lambda>file.
          (Inr (case find (\<lambda>(_, r). br_owner_id r = owner_id) (bf_bindings file) of
                  None \<Rightarrow> None
                | Some (_, r) \<Rightarrow>
                    (case map_of (pf_users policy) (br_email r) of
                       None \<Rightarrow> None
                     | Some entry \<Rightarrow>
                         if ae_enabled entry \<and> mailbox_is_proven (br_email r) (ae_mailbox_proven entry)
                         then Some (ae_role entry) else None)), d))))"

definition owner_id_for_email :: "policy_env \<Rightarrow> rstr \<Rightarrow> policy_disk \<Rightarrow> (access_policy_error + rstr option) \<times> policy_disk" where
  "owner_id_for_email pe email0 d =
     try_tx d (normalize_email email0) (\<lambda>email.
       locked pe d
         (try_tx d (read_bindings d) (\<lambda>file.
            (Inr (map_option (\<lambda>(_, r). br_owner_id r) (find (\<lambda>(_, r). br_email r = email) (bf_bindings file))), d))))"

definition snapshot :: "policy_env \<Rightarrow> policy_disk \<Rightarrow> (access_policy_error + access_snapshot) \<times> policy_disk" where
  "snapshot pe d =
     locked pe d
       (try_tx d (read_policy d) (\<lambda>policy.
          (Inr \<lparr>as_revision = pf_revision policy, as_users = pf_users policy\<rparr>, d)))"

definition replace_users ::
  "policy_env \<Rightarrow> nat \<Rightarrow> rstr \<Rightarrow> user_map \<Rightarrow> policy_disk \<Rightarrow> (access_policy_error + access_snapshot) \<times> policy_disk" where
  "replace_users pe expected_revision actor0 users0 d =
     locked pe d
       (try_tx d (read_policy d) (\<lambda>policy.
          if pf_revision policy \<noteq> expected_revision
          then (Inl (PolicyRevisionConflict expected_revision (pf_revision policy)), d)
          else
            try_tx d (canonicalize_users users0) (\<lambda>users.
            try_tx d (validate_users users) (\<lambda>_.
              if \<not> has_enabled_admin users then (Inl LastEnabledAdmin, d)
              else if pf_revision policy + 1 \<ge> 2 ^ 64
              then (Inl (PolicyInvalid (lit ''revision overflow'')), d)
              else
                try_tx d (validate_actor actor0) (\<lambda>actor.
                  let policy' = policy\<lparr>pf_revision := pf_revision policy + 1, pf_users := users,
                        pf_audit := pf_audit policy @ [audit_event pe actor (lit ''policy_replaced'')
                          (users_value (pf_users policy)) (users_value users)]\<rparr>
                  in case write_policy pe 0 policy' d of
                       (Inl e, d1) \<Rightarrow> (Inl e, d1)
                     | (Inr _, d1) \<Rightarrow>
                         (Inr \<lparr>as_revision = pf_revision policy', as_users = pf_users policy'\<rparr>, d1))))))"

definition bind_subject ::
  "policy_env \<Rightarrow> subject_binding \<Rightarrow> rstr \<Rightarrow> rstr \<Rightarrow> rstr \<Rightarrow> policy_disk \<Rightarrow> (access_policy_error + unit) \<times> policy_disk" where
  "bind_subject pe b owner_id email0 actor0 d =
     try_tx d (provenance_invalid (validate_binding b)) (\<lambda>_.
     try_tx d (normalize_email email0) (\<lambda>email.
     try_tx d (validate_actor actor0) (\<lambda>actor.
       locked pe d
         (try_tx d (read_bindings d) (\<lambda>file.
            case map_of (bf_bindings file) (binding_key b) of
              Some existing \<Rightarrow>
                (if br_owner_id existing = owner_id \<and> br_email existing = email then (Inr (), d)
                 else (Inl BindingConflict, d))
            | None \<Rightarrow>
                if list_ex (\<lambda>(_, existing). br_email existing = email \<or> br_owner_id existing = owner_id) (bf_bindings file)
                then (Inl BindingConflict, d)
                else
                  let r = \<lparr>br_owner_id = owner_id, br_email = email\<rparr> in
                  case write_bindings pe 0 (bind_key pe actor (binding_key b) r file) d of
                    (Inl e, d1) \<Rightarrow> (Inl e, d1)
                  | (Inr _, d1) \<Rightarrow>
                      (Inr (), append_audit pe (bound_event pe actor b r (bindings_value (bf_bindings file))) d1))))))"

definition update_binding_email ::
  "policy_env \<Rightarrow> subject_binding \<Rightarrow> rstr \<Rightarrow> rstr \<Rightarrow> rstr \<Rightarrow> policy_disk \<Rightarrow> (access_policy_error + unit) \<times> policy_disk" where
  "update_binding_email pe b expected0 new0 actor0 d =
     try_tx d (normalize_email expected0) (\<lambda>expected_email.
     try_tx d (normalize_email new0) (\<lambda>new_email.
     try_tx d (validate_actor actor0) (\<lambda>actor.
       locked pe d
         (try_tx d (read_bindings d) (\<lambda>file.
            case map_of (bf_bindings file) (binding_key b) of
              None \<Rightarrow> (Inl BindingConflict, d)
            | Some existing \<Rightarrow>
                if br_email existing \<noteq> expected_email then (Inl EmailChanged, d)
                else if list_ex (\<lambda>(key, other). key \<noteq> binding_key b \<and> br_email other = new_email) (bf_bindings file)
                then (Inl BindingConflict, d)
                else
                  let bindings = bmap_update (binding_key b) (\<lambda>_. existing\<lparr>br_email := new_email\<rparr>) (bf_bindings file);
                      file' = file\<lparr>bf_bindings := bindings,
                        bf_audit := bf_audit file @ [audit_event pe actor (lit ''subject_email_updated'')
                          (bindings_value (bf_bindings file)) (bindings_value bindings)]\<rparr>
                  in case write_bindings pe 0 file' d of
                       (Inl e, d1) \<Rightarrow> (Inl e, d1)
                     | (Inr _, d1) \<Rightarrow>
                         (Inr (), append_audit pe (audit_event pe actor (lit ''subject_email_updated'')
                           (bindings_value (bf_bindings file)) (JObject [(lit ''email'', JString new_email)])) d1))))))"

end
