(* ===== verification/Access_Policy_Inv.thy ===== *)
theory Access_Policy_Inv
  imports Access_Policy Owner_Keys "HOL-Library.Sublist"
begin

text \<open>
  The invariant of the access policy's files. Every operation is a few steps of \<open>policy_step\<close>, one per way a
  file changes; each step keeps the policy file readable and the bindings file readable but for one check,
  that no two subjects have the same owner.
\<close>

section \<open>E-mail addresses\<close>

lemma lower_no_at: "64 \<notin> set s \<Longrightarrow> 64 \<notin> set (to_ascii_lowercase s)"
  by (auto simp: to_ascii_lowercase_def is_ascii_upper_def split: if_splits)

lemma lower_lower: "to_ascii_lowercase (to_ascii_lowercase s) = to_ascii_lowercase s"
  by (simp add: to_ascii_lowercase_def is_ascii_upper_def)

lemma lower_Nil [simp]: "to_ascii_lowercase s = [] \<longleftrightarrow> s = []"
  by (simp add: to_ascii_lowercase_def)

lemma lower_last: "s \<noteq> [] \<Longrightarrow> last (to_ascii_lowercase s) = (if is_ascii_upper (last s) then last s + 32 else last s)"
  by (simp add: to_ascii_lowercase_def last_map)

lemma lower_plain: "is_ascii_control (if is_ascii_upper c then c + 32 else c) = is_ascii_control c"
  "is_ascii_whitespace (if is_ascii_upper c then c + 32 else c) = is_ascii_whitespace c"
  "is_whitespace (if is_ascii_upper c then c + 32 else c) = is_whitespace c"
  by (auto simp: is_ascii_upper_def is_ascii_control_def is_ascii_whitespace_def is_whitespace_def)

lemma lower_upper: "is_ascii_upper c \<Longrightarrow> \<not> is_ascii_control (c + 32) \<and> \<not> is_ascii_whitespace (c + 32)"
  by (auto simp: is_ascii_upper_def is_ascii_control_def is_ascii_whitespace_def)

lemma normalize_emailE:
  assumes "normalize_email s = Inr e"
  obtains l d where "e = l @ 64 # to_ascii_lowercase d" "l \<noteq> []" "d \<noteq> []" "64 \<notin> set l" "64 \<notin> set d" "trim s = l @ 64 # d"
    "\<not> list_ex (\<lambda>ch. is_ascii_control ch \<or> is_ascii_whitespace ch) (trim s)" "new_email_at_write e = Inr (trim e)"
proof (cases "rsplit_once 64 (trim s)")
  case None
  with assms show thesis by (simp add: normalize_email_def)
next
  case (Some x)
  then obtain l d where x: "rsplit_once 64 (trim s) = Some (l, d)" by (cases x) simp
  then have t: "trim s = l @ 64 # d" by (simp add: rsplit_once_Some)
  show thesis
  proof (rule that)
    show "e = l @ 64 # to_ascii_lowercase d" using assms x
      by (simp add: normalize_email_def Let_def bindE_eq_Inr split: if_splits)
    then show "new_email_at_write e = Inr (trim e)" using assms x
      by (auto simp: normalize_email_def Let_def bindE_eq_Inr new_email_at_write_def split: if_splits)
  qed (use assms x t in \<open>simp_all add: normalize_email_def Let_def split: if_splits\<close>)
qed

lemma normalize_email_fixpoint:
  assumes "normalize_email s = Inr e"
  shows "normalize_email e = Inr e"
proof -
  from assms obtain l d where e: "e = l @ 64 # to_ascii_lowercase d" and ne: "l \<noteq> []" "d \<noteq> []" and at: "64 \<notin> set l" "64 \<notin> set d"
    and t: "trim s = l @ 64 # d" and plain: "\<not> list_ex (\<lambda>ch. is_ascii_control ch \<or> is_ascii_whitespace ch) (trim s)"
    and w: "new_email_at_write e = Inr (trim e)" by (rule normalize_emailE)
  have "trim s \<noteq> []" using t by simp
  from trim_not_Nil_ends [OF this] have "\<not> is_whitespace (hd l)" "\<not> is_whitespace (last d)" using ne by (simp_all add: t)
  then have "trim e = e" using ne by (simp add: trim_fixpoint e lower_last lower_plain)
  moreover have "rsplit_once 64 e = Some (l, to_ascii_lowercase d)" using at by (simp add: e rsplit_once_Some lower_no_at)
  moreover have "\<not> list_ex (\<lambda>ch. is_ascii_control ch \<or> is_ascii_whitespace ch) e"
    using plain unfolding e t
    by (auto simp: list_ex_iff to_ascii_lowercase_def lower_upper)
  ultimately show ?thesis using w ne at
    by (simp add: normalize_email_def Let_def lower_no_at lower_lower e)
qed

lemma normalize_email_error: "normalize_email s = Inl e \<Longrightarrow> \<exists>m. e = PolicyInvalid m"
  by (auto simp: normalize_email_def Let_def bindE_eq_Inl mapE_def split: option.splits if_splits sum.splits)

section \<open>Users\<close>

lemma validate_users_iff: "validate_users users = Inr () \<longleftrightarrow> (\<forall>email \<in> fst ` set users. normalize_email email = Inr email)"
  by (induction users rule: validate_users.induct) (auto simp: bindE_eq_Inr)

lemma validate_users_error: "validate_users users = Inl e \<Longrightarrow> \<exists>m. e = PolicyInvalid m"
  by (induction users rule: validate_users.induct) (auto simp: bindE_eq_Inl dest: normalize_email_error split: if_splits)

lemma canonicalize_from_bmap: "canonicalize_from users acc = Inr m \<Longrightarrow> bmap acc \<Longrightarrow> bmap m"
  by (induction users acc rule: canonicalize_from.induct) (auto simp: bindE_eq_Inr bmap_bmap_update split: if_splits)

lemma canonicalize_users_bmap: "canonicalize_users users = Inr m \<Longrightarrow> bmap m"
  by (simp add: canonicalize_users_def canonicalize_from_bmap)

section \<open>The audit chain\<close>

lemma digits_value_append: "digits_value (ds @ [d]) = 10 * digits_value ds + (d - 48)"
  by (simp add: digits_value_def)

lemma show_nat_digits: "show_nat n \<noteq> [] \<and> list_all is_ascii_digit (show_nat n) \<and> digits_value (show_nat n) = n"
proof (induction n rule: show_nat.induct)
  case (1 n)
  show ?case
  proof (cases "n < 10")
    case True
    then show ?thesis by (simp add: show_nat.simps [of n] is_ascii_digit_def digits_value_def)
  next
    case False
    then have "show_nat n = show_nat (n div 10) @ [48 + n mod 10]" by (simp add: show_nat.simps [of n])
    with 1 [OF False] show ?thesis by (simp add: digits_value_append) (simp add: is_ascii_digit_def)
  qed
qed

lemma timestamp_parses: "parses_u64 (timestamp pe)"
proof -
  let ?s = "show_nat (unat (pe_now pe))"
  have d: "?s \<noteq> []" "list_all is_ascii_digit ?s" "digits_value ?s = unat (pe_now pe)" using show_nat_digits by blast+
  then have "hd ?s \<noteq> 43" by (cases ?s) (auto simp: is_ascii_digit_def)
  then have "(case ?s of c # r \<Rightarrow> if c = 43 then r else ?s | [] \<Rightarrow> ?s) = ?s" using d(1) by (cases ?s) auto
  with d show ?thesis using unsigned_less [of "pe_now pe"] by (simp add: parses_u64_def timestamp_def Let_def)
qed

definition event_fields :: "audit_entry \<Rightarrow> bool" where
  "event_fields ev \<longleftrightarrow> trim (au_actor ev) \<noteq> [] \<and> str_len (au_actor ev) \<le> 256 \<and> \<not> list_ex is_control (au_actor ev)
     \<and> parses_u64 (au_occurred_at ev) \<and> trim (au_action ev) \<noteq> []"

lemma audit_chain_append:
  "audit_chain prior events = Inr (Some v) \<Longrightarrow> event_fields ev \<Longrightarrow> au_before ev = v \<Longrightarrow>
   audit_chain prior (events @ [ev]) = Inr (Some (au_after ev))"
  by (induction prior events rule: audit_chain.induct)
    (auto simp: event_fields_def not_less split: if_splits option.splits)

lemma audit_chain_error: "audit_chain prior events = Inl e \<Longrightarrow> \<exists>m. e = PolicyInvalid m"
  by (induction prior events rule: audit_chain.induct) (auto split: if_splits option.splits)

lemma validate_audit_chain_error: "validate_audit_chain a v n = Inl e \<Longrightarrow> \<exists>m. e = PolicyInvalid m"
  by (auto simp: validate_audit_chain_def bindE_eq_Inl dest: audit_chain_error split: if_splits)

lemma validate_audit_chain_append:
  assumes "validate_audit_chain a v (length a) = Inr ()" "event_fields ev" "au_before ev = v"
  shows "validate_audit_chain (a @ [ev]) (au_after ev) (length a + 1) = Inr ()"
  using assms audit_chain_append [of None a v ev]
  by (auto simp: validate_audit_chain_def bindE_eq_Inr split: if_splits)

lemma validate_audit_chain_length: "validate_audit_chain a v n = Inr () \<Longrightarrow> n = length a \<and> a \<noteq> []"
  by (auto simp: validate_audit_chain_def split: if_splits)

lemma audit_event_fields:
  assumes "actor \<noteq> [] \<and> trim actor = actor \<and> str_len actor \<le> 256 \<and> \<not> list_ex is_control actor" "trim action \<noteq> []"
  shows "event_fields (audit_event pe actor action before after)"
  using assms by (simp add: event_fields_def audit_event_def timestamp_parses)

lemma validate_actor_fields:
  "validate_actor a = Inr actor \<Longrightarrow> actor \<noteq> [] \<and> trim actor = actor \<and> str_len actor \<le> 256 \<and> \<not> list_ex is_control actor"
  by (auto simp: validate_actor_def Let_def split: if_splits)

section \<open>Bindings\<close>

definition binding_ok :: "rstr \<times> binding_record \<Rightarrow> bool" where
  "binding_ok kr \<longleftrightarrow> normalize_email (br_email (snd kr)) = Inr (br_email (snd kr))
     \<and> (\<exists>b. binding_key b = fst kr \<and> validate_binding b = Inr ())"

lemma graphic_no_zero: "validate_issuer i = Inr () \<Longrightarrow> 0 \<notin> set i"
  by (auto simp: validate_issuer_def check_text_ok is_ascii_graphic_def)

lemma parse_binding_ok: "parse_binding i s = Inr b \<longleftrightarrow> b = \<lparr>sb_issuer = i, sb_subject = s\<rparr> \<and> validate_binding b = Inr ()"
  by (auto simp: parse_binding_def validate_binding_def new_issuer_def new_subject_def bindE_eq_Inr)

lemma split_binding_key:
  "validate_binding b = Inr () \<Longrightarrow> split_once 0 (binding_key b) = Some (sb_issuer b, sb_subject b)"
  by (auto simp: validate_binding_def bindE_eq_Inr binding_key_def dest: graphic_no_zero)

lemma binding_key_inj:
  "validate_binding b = Inr () \<Longrightarrow> validate_binding c = Inr () \<Longrightarrow> binding_key b = binding_key c \<Longrightarrow> b = c"
  using split_binding_key [of b] split_binding_key [of c] by (cases b; cases c) simp

lemma check_key_iff:
  "(\<exists>b. binding_key b = key \<and> validate_binding b = Inr ()) \<longleftrightarrow>
   (\<exists>i s b. split_once 0 key = Some (i, s) \<and> parse_binding i s = Inr b \<and> binding_key b = key)"
proof
  assume "\<exists>b. binding_key b = key \<and> validate_binding b = Inr ()"
  then obtain b where "binding_key b = key" "validate_binding b = Inr ()" by blast
  then show "\<exists>i s b. split_once 0 key = Some (i, s) \<and> parse_binding i s = Inr b \<and> binding_key b = key"
    using split_binding_key [of b] by (cases b) (auto simp: parse_binding_ok)
qed (auto simp: parse_binding_ok)

lemma check_bindings_step:
  "check_bindings ((key, r) # m) emails owners = Inr () \<longleftrightarrow>
     binding_ok (key, r) \<and> br_email r \<notin> set emails \<and> br_owner_id r \<notin> set owners
     \<and> check_bindings m (br_email r # emails) (br_owner_id r # owners) = Inr ()"
proof -
  have "check_bindings ((key, r) # m) emails owners = Inr () \<longleftrightarrow>
      normalize_email (br_email r) = Inr (br_email r) \<and> br_email r \<notin> set emails \<and> br_owner_id r \<notin> set owners
      \<and> (\<exists>i s b. split_once 0 key = Some (i, s) \<and> parse_binding i s = Inr b \<and> binding_key b = key)
      \<and> check_bindings m (br_email r # emails) (br_owner_id r # owners) = Inr ()"
    by (auto simp: bindE_eq_Inr split: option.splits)
  then show ?thesis unfolding binding_ok_def fst_conv snd_conv check_key_iff by blast
qed

lemma check_bindings_iff:
  "check_bindings m emails owners = Inr () \<longleftrightarrow>
     list_all binding_ok m \<and> distinct (map (br_email \<circ> snd) m) \<and> distinct (map (br_owner_id \<circ> snd) m)
     \<and> set (map (br_email \<circ> snd) m) \<inter> set emails = {} \<and> set (map (br_owner_id \<circ> snd) m) \<inter> set owners = {}"
proof (induction m arbitrary: emails owners)
  case (Cons kr m)
  obtain key r where kr: "kr = (key, r)" by (metis surj_pair)
  show ?case unfolding kr check_bindings_step Cons.IH by (auto simp: o_def)
qed simp

lemma check_bindings_error: "check_bindings m emails owners = Inl e \<Longrightarrow> \<exists>x. e = PolicyInvalid x"
  by (induction m emails owners rule: check_bindings.induct)
    (auto simp: bindE_eq_Inl mapE_def dest: normalize_email_error split: if_splits option.splits sum.splits)

section \<open>Readable files\<close>

lemma read_policy_iff:
  "read_policy d = Inr p \<longleftrightarrow>
     (\<exists>n. pd_policy d = Stored n p \<and> n < MAX_POLICY_FILE_BYTES) \<and> pf_format p = 1 \<and> pf_revision p \<noteq> 0
     \<and> validate_users (pf_users p) = Inr ()
     \<and> validate_audit_chain (pf_audit p) (users_value (pf_users p)) (pf_revision p) = Inr ()
     \<and> has_enabled_admin (pf_users p)"
  by (cases "pd_policy d") (auto simp: read_policy_def read_stored_def bindE_eq_Inr)

lemma read_policy_absent: "read_policy d = Inl (PolicyStorage IoNotFound) \<longleftrightarrow> pd_policy d = Absent"
  by (cases "pd_policy d")
    (auto simp: read_policy_def read_stored_def bindE_eq_Inl dest: validate_users_error validate_audit_chain_error split: if_splits)

definition bindings_shape :: "bindings_file \<Rightarrow> bool" where
  "bindings_shape f \<longleftrightarrow> bf_format f = 1
     \<and> validate_audit_chain (bf_audit f) (bindings_value (bf_bindings f)) (length (bf_audit f)) = Inr ()
     \<and> list_all binding_ok (bf_bindings f) \<and> distinct (map (br_email \<circ> snd) (bf_bindings f))"

definition distinct_owners :: "bindings_file \<Rightarrow> bool" where
  "distinct_owners f \<longleftrightarrow> distinct (map (br_owner_id \<circ> snd) (bf_bindings f))"

lemma read_bindings_iff:
  "read_bindings d = Inr f \<longleftrightarrow>
     (\<exists>n. pd_bindings d = Stored n f \<and> n < MAX_POLICY_FILE_BYTES) \<and> bindings_shape f \<and> distinct_owners f"
  by (cases "pd_bindings d")
    (auto simp: read_bindings_def read_stored_def bindE_eq_Inr bindings_shape_def distinct_owners_def check_bindings_iff)

lemma read_bindings_absent: "read_bindings d = Inl (PolicyStorage IoNotFound) \<longleftrightarrow> pd_bindings d = Absent"
  by (cases "pd_bindings d")
    (auto simp: read_bindings_def read_stored_def bindE_eq_Inl dest: check_bindings_error validate_audit_chain_error split: if_splits)

section \<open>The ways the files change\<close>

inductive policy_step :: "policy_disk \<Rightarrow> policy_disk \<Rightarrow> bool" where
  beside: "policy_step d (d\<lparr>pd_marker := m, pd_audit_log := l\<rparr>)"
| bootstrapped: "\<lbrakk> pd_policy d = Absent; normalize_email email = Inr email; n < MAX_POLICY_FILE_BYTES \<rbrakk>
    \<Longrightarrow> policy_step d (d\<lparr>pd_policy := Stored n (bootstrap_policy pe email proven)\<rparr>)"
| replaced: "\<lbrakk> read_policy d = Inr p; validate_users users = Inr (); bmap users; has_enabled_admin users;
      validate_actor a = Inr actor; n < MAX_POLICY_FILE_BYTES \<rbrakk>
    \<Longrightarrow> policy_step d (d\<lparr>pd_policy := Stored n (p\<lparr>pf_revision := pf_revision p + 1, pf_users := users,
          pf_audit := pf_audit p @ [audit_event pe actor (lit ''policy_replaced'')
            (users_value (pf_users p)) (users_value users)]\<rparr>)\<rparr>)"
| initialised: "\<lbrakk> pd_bindings d = Absent; n < MAX_POLICY_FILE_BYTES \<rbrakk>
    \<Longrightarrow> policy_step d (d\<lparr>pd_bindings := Stored n (initial_bindings pe)\<rparr>)"
| bound: "\<lbrakk> read_bindings d = Inr f; validate_binding b = Inr (); map_of (bf_bindings f) (binding_key b) = None;
      normalize_email (br_email r) = Inr (br_email r); br_email r \<notin> (br_email \<circ> snd) ` set (bf_bindings f);
      trim actor = actor; actor \<noteq> []; str_len actor \<le> 256; \<not> list_ex is_control actor; n < MAX_POLICY_FILE_BYTES \<rbrakk>
    \<Longrightarrow> policy_step d (d\<lparr>pd_bindings := Stored n (bind_key pe actor (binding_key b) r f)\<rparr>)"
| renamed: "\<lbrakk> read_bindings d = Inr f; map_of (bf_bindings f) key = Some r; normalize_email email = Inr email;
      \<And>k x. (k, x) \<in> set (bf_bindings f) \<Longrightarrow> k \<noteq> key \<Longrightarrow> br_email x \<noteq> email;
      validate_actor a = Inr actor; n < MAX_POLICY_FILE_BYTES \<rbrakk>
    \<Longrightarrow> policy_step d (d\<lparr>pd_bindings := Stored n (f\<lparr>bf_bindings := bmap_update key (\<lambda>_. r\<lparr>br_email := email\<rparr>) (bf_bindings f),
          bf_audit := bf_audit f @ [audit_event pe actor (lit ''subject_email_updated'') (bindings_value (bf_bindings f))
            (bindings_value (bmap_update key (\<lambda>_. r\<lparr>br_email := email\<rparr>) (bf_bindings f)))]\<rparr>)\<rparr>)"

text \<open>Every operation is a few steps.\<close>

lemma write_policy_cases:
  assumes "write_policy pe i p d = (r, d1)"
  shows "d1 = d \<or> (d1 = d\<lparr>pd_policy := Stored (pe_policy_len pe p) p\<rparr> \<and> validate_users (pf_users p) = Inr ()
           \<and> pe_policy_len pe p < MAX_POLICY_FILE_BYTES)"
    and "r = Inr () \<Longrightarrow> d1 = d\<lparr>pd_policy := Stored (pe_policy_len pe p) p\<rparr>"
  using assms by (auto simp: write_policy_def replace_file_def split: sum.splits if_splits write_outcome.splits)

lemma write_bindings_cases:
  assumes "write_bindings pe i f d = (r, d1)"
  shows "d1 = d \<or> (d1 = d\<lparr>pd_bindings := Stored (pe_bindings_len pe f) f\<rparr> \<and> pe_bindings_len pe f < MAX_POLICY_FILE_BYTES)"
    and "r = Inr () \<Longrightarrow> d1 = d\<lparr>pd_bindings := Stored (pe_bindings_len pe f) f\<rparr> \<and> pe_write pe i = Written
           \<and> pe_bindings_len pe f < MAX_POLICY_FILE_BYTES"
  using assms by (auto simp: write_bindings_def replace_file_def split: if_splits write_outcome.splits)

lemma step_marker: "policy_step\<^sup>*\<^sup>* d (d\<lparr>pd_marker := m\<rparr>)"
  using policy_step.beside [where d = d and m = m and l = "pd_audit_log d"] by simp

lemma step_log: "policy_step\<^sup>*\<^sup>* d (append_audit pe ev d)"
  using policy_step.beside [where d = d and m = "pd_marker d" and l = "pd_audit_log d @ [ev]"]
  by (auto simp: append_audit_def intro: r_into_rtranclp)

lemma open_policy_steps: "open_policy pe b d = (r, d') \<Longrightarrow> policy_step\<^sup>*\<^sup>* d d'"
proof -
  assume o': "open_policy pe b d = (r, d')"
  show "policy_step\<^sup>*\<^sup>* d d'"
  proof (cases "\<exists>b' email r1 d1. pd_policy d = Absent \<and> b = Some b' \<and> normalize_email (ba_email b') = Inr email
      \<and> write_policy pe 0 (bootstrap_policy pe email (ba_mailbox_proven b')) d = (r1, d1) \<and> (d' = d1 \<or> d' = d1\<lparr>pd_marker := MarkerPresent\<rparr>)")
    case True
    then obtain b' email r1 d1 where x: "pd_policy d = Absent" "b = Some b'" "normalize_email (ba_email b') = Inr email"
      "write_policy pe 0 (bootstrap_policy pe email (ba_mailbox_proven b')) d = (r1, d1)" "d' = d1 \<or> d' = d1\<lparr>pd_marker := MarkerPresent\<rparr>"
      by blast
    have "policy_step\<^sup>*\<^sup>* d d1"
      using write_policy_cases(1) [OF x(4)] x(1) normalize_email_fixpoint [OF x(3)] by (auto intro: bootstrapped)
    then show ?thesis using x(5) step_marker [of d1 MarkerPresent] by auto
  next
    case False
    then show ?thesis using o'
      by (auto simp: open_policy_def read_policy_absent split: sum.splits if_splits marker_file.splits option.splits prod.splits
          write_outcome.splits try_tx_splits)
  qed
qed

lemma open_store_steps: "open_store pe b d = (r, d') \<Longrightarrow> policy_step\<^sup>*\<^sup>* d d'"
proof -
  assume o': "open_store pe b d = (r, d')"
  obtain r1 d1 where p: "open_policy pe b d = (r1, d1)" by (metis surj_pair)
  note p1 = open_policy_steps [OF p]
  have "policy_step\<^sup>*\<^sup>* d1 d2" if "pd_bindings d1 = Absent" "write_bindings pe 2 (initial_bindings pe) d1 = (x, d2)" for x d2
    using write_bindings_cases(1) [OF that(2)] that(1) by (auto intro: initialised)
  then show ?thesis using o' p p1
    by (auto simp: open_store_def locked_def read_bindings_absent split: sum.splits if_splits prod.splits intro: rtranclp_trans)
qed

lemma bind_key_steps:
  assumes "read_bindings d = Inr f" "validate_binding b = Inr ()" "map_of (bf_bindings f) (binding_key b) = None"
    "normalize_email email = Inr email" "email \<notin> (br_email \<circ> snd) ` set (bf_bindings f)"
    "trim actor = actor" "actor \<noteq> []" "str_len actor \<le> 256" "\<not> list_ex is_control actor"
    "write_bindings pe i (bind_key pe actor (binding_key b) \<lparr>br_owner_id = w, br_email = email\<rparr> f) d = (r, d1)"
  shows "policy_step\<^sup>*\<^sup>* d d1" "policy_step\<^sup>*\<^sup>* d (append_audit pe ev d1)"
proof -
  let ?f = "bind_key pe actor (binding_key b) \<lparr>br_owner_id = w, br_email = email\<rparr> f"
  show "policy_step\<^sup>*\<^sup>* d d1"
    using write_bindings_cases(1) [OF assms(10)]
  proof
    assume "d1 = d\<lparr>pd_bindings := Stored (pe_bindings_len pe ?f) ?f\<rparr> \<and> pe_bindings_len pe ?f < MAX_POLICY_FILE_BYTES"
    moreover have "policy_step d (d\<lparr>pd_bindings := Stored (pe_bindings_len pe ?f) ?f\<rparr>)"
      by (rule bound) (use assms calculation in simp_all)
    ultimately show ?thesis by simp
  qed simp
  then show "policy_step\<^sup>*\<^sup>* d (append_audit pe ev d1)" using step_log [of d1 pe ev] by (rule rtranclp_trans)
qed

lemma oidc_actor: "trim (lit ''oidc-admission'') = lit ''oidc-admission''" "lit ''oidc-admission'' \<noteq> []"
  "str_len (lit ''oidc-admission'') \<le> 256" "\<not> list_ex is_control (lit ''oidc-admission'')"
  by (simp_all add: trim_fixpoint lit_def is_whitespace_def is_control_def utf8_width_def)

lemma replace_users_steps: "replace_users pe rv a us d = (r, d') \<Longrightarrow> policy_step\<^sup>*\<^sup>* d d'"
proof -
  assume r: "replace_users pe rv a us d = (r, d')"
  show ?thesis
  proof (cases "\<exists>p users actor r1. read_policy d = Inr p \<and> canonicalize_users us = Inr users \<and> validate_users users = Inr ()
      \<and> has_enabled_admin users \<and> validate_actor a = Inr actor
      \<and> write_policy pe 0 (p\<lparr>pf_revision := pf_revision p + 1, pf_users := users,
          pf_audit := pf_audit p @ [audit_event pe actor (lit ''policy_replaced'') (users_value (pf_users p)) (users_value users)]\<rparr>) d = (r1, d')")
    case True
    then obtain p users actor r1 where x: "read_policy d = Inr p" "canonicalize_users us = Inr users" "validate_users users = Inr ()"
      "has_enabled_admin users" "validate_actor a = Inr actor"
      "write_policy pe 0 (p\<lparr>pf_revision := pf_revision p + 1, pf_users := users,
          pf_audit := pf_audit p @ [audit_event pe actor (lit ''policy_replaced'') (users_value (pf_users p)) (users_value users)]\<rparr>) d = (r1, d')"
      by blast
    from write_policy_cases(1) [OF x(6)] show ?thesis
      using replaced [OF x(1,3) canonicalize_users_bmap [OF x(2)] x(4,5)] by (auto intro: r_into_rtranclp)
  next
    case False
    then show ?thesis using r
      by (auto simp: replace_users_def locked_def Let_def split: if_splits prod.splits sum.splits try_tx_splits)
  qed
qed

lemma list_ex_email:
  "\<not> list_ex (\<lambda>(k, r). k \<noteq> key \<and> br_email r = email) m \<Longrightarrow> map_of m key = None \<Longrightarrow> email \<notin> (br_email \<circ> snd) ` set m"
  by (force simp: list_ex_iff map_of_eq_None_iff)

text \<open>What \<open>resolve\<close> does once every check before the binding is written passed.\<close>

definition admits_as ::
  "policy_env \<Rightarrow> verified_identity \<Rightarrow> policy_disk \<Rightarrow> rstr \<Rightarrow> subject_binding \<Rightarrow> bindings_file \<Rightarrow> rstr \<Rightarrow> policy_decision \<Rightarrow> bool" where
  "admits_as pe identity d email b f owner_id dec \<longleftrightarrow> pe_lock pe
     \<and> (\<exists>p entry owner. read_policy d = Inr p \<and> normalize_email (vi_email identity) = Inr email
          \<and> parse_binding (vi_issuer identity) (vi_subject identity) = Inr b \<and> read_bindings d = Inr f
          \<and> \<not> opt_holds (\<lambda>r. br_email r \<noteq> email) (map_of (bf_bindings f) (binding_key b))
          \<and> map_of (pf_users p) email = Some entry \<and> ae_enabled entry \<and> mailbox_is_proven email (ae_mailbox_proven entry)
          \<and> owner_for pe b email (bf_bindings f) = Inr owner_id \<and> owner_of_identity owner_id identity = Inr owner
          \<and> dec = \<lparr>de_admission = new_admission owner_id owner, de_role = ae_role entry\<rparr>)"

lemma resolve_cases:
  "(\<exists>email b f owner_id dec.
      admits_as pe identity d email b f owner_id dec
      \<and> resolve pe identity d =
          (if map_of (bf_bindings f) (binding_key b) = None
           then case write_bindings pe 0 (bind_key pe (lit ''oidc-admission'') (binding_key b)
                       \<lparr>br_owner_id = owner_id, br_email = email\<rparr> f) d of
                  (Inl e, d1) \<Rightarrow> (Inl e, d1)
                | (Inr _, d1) \<Rightarrow> (Inr (Some dec), append_audit pe (bound_event pe (lit ''oidc-admission'') b
                       \<lparr>br_owner_id = owner_id, br_email = email\<rparr> (bindings_value (bf_bindings f))) d1)
           else (Inr (Some dec), d)))
   \<or> ((\<nexists>email b f owner_id dec. admits_as pe identity d email b f owner_id dec)
      \<and> (\<exists>e. resolve pe identity d = (e, d) \<and> (\<forall>dec. e \<noteq> Inr (Some dec))))"
proof (cases "\<exists>email b f owner_id dec. admits_as pe identity d email b f owner_id dec")
  case True
  then obtain email b f owner_id dec where a: "admits_as pe identity d email b f owner_id dec" by blast
  then show ?thesis
    by (intro disjI1 exI [of _ email] exI [of _ b] exI [of _ f] exI [of _ owner_id] exI [of _ dec] conjI)
      (auto simp: admits_as_def resolve_def locked_def Let_def provenance_invalid_def)
next
  case False
  have "\<exists>e. resolve pe identity d = (e, d) \<and> (\<forall>dec. e \<noteq> Inr (Some dec))"
  proof (rule ccontr)
    assume "\<not> ?thesis"
    then show False using False
      by (simp add: resolve_def locked_def Let_def admits_as_def provenance_invalid_def split: sum.splits if_splits option.splits try_tx_splits)
  qed
  with False show ?thesis by blast
qed

lemma owner_for_new:
  "owner_for pe b email m = Inr w \<Longrightarrow> map_of m (binding_key b) = None \<Longrightarrow>
   w = stable_owner_id pe b \<and> email \<notin> (br_email \<circ> snd) ` set m"
  using list_ex_email [of "binding_key b" email m] by (auto simp: owner_for_def split: if_splits)

lemma resolve_steps: "resolve pe identity d = (r, d') \<Longrightarrow> policy_step\<^sup>*\<^sup>* d d'"
proof -
  assume r: "resolve pe identity d = (r, d')"
  from resolve_cases [of pe identity d] show ?thesis
  proof (elim disjE exE conjE)
    fix email b f owner_id dec
    assume a: "admits_as pe identity d email b f owner_id dec"
      and eq: "resolve pe identity d =
          (if map_of (bf_bindings f) (binding_key b) = None
           then case write_bindings pe 0 (bind_key pe (lit ''oidc-admission'') (binding_key b)
                       \<lparr>br_owner_id = owner_id, br_email = email\<rparr> f) d of
                  (Inl e, d1) \<Rightarrow> (Inl e, d1)
                | (Inr _, d1) \<Rightarrow> (Inr (Some dec), append_audit pe (bound_event pe (lit ''oidc-admission'') b
                       \<lparr>br_owner_id = owner_id, br_email = email\<rparr> (bindings_value (bf_bindings f))) d1)
           else (Inr (Some dec), d))"
    show ?thesis
    proof (cases "map_of (bf_bindings f) (binding_key b)")
      case None
      obtain r1 d1 where w: "write_bindings pe 0 (bind_key pe (lit ''oidc-admission'') (binding_key b)
          \<lparr>br_owner_id = owner_id, br_email = email\<rparr> f) d = (r1, d1)" by (metis surj_pair)
      from a have c: "read_bindings d = Inr f" "validate_binding b = Inr ()" "normalize_email email = Inr email"
        "owner_for pe b email (bf_bindings f) = Inr owner_id"
        by (auto simp: admits_as_def parse_binding_ok dest: normalize_email_fixpoint)
      from owner_for_new [OF c(4) None] have n: "email \<notin> (br_email \<circ> snd) ` set (bf_bindings f)" by blast
      from bind_key_steps [OF c(1,2) None c(3) n oidc_actor w] eq r None w show ?thesis
        by (auto split: sum.splits)
    next
      case (Some x)
      with eq r show ?thesis by simp
    qed
  qed (use r in auto)
qed

lemma bind_subject_steps: "bind_subject pe b w email0 a0 d = (r, d') \<Longrightarrow> policy_step\<^sup>*\<^sup>* d d'"
proof -
  assume r: "bind_subject pe b w email0 a0 d = (r, d')"
  show ?thesis
  proof (cases "\<exists>email actor f. validate_binding b = Inr () \<and> normalize_email email0 = Inr email \<and> validate_actor a0 = Inr actor
      \<and> read_bindings d = Inr f \<and> map_of (bf_bindings f) (binding_key b) = None
      \<and> \<not> list_ex (\<lambda>(_, x). br_email x = email \<or> br_owner_id x = w) (bf_bindings f)")
    case True
    then obtain email actor f where x: "validate_binding b = Inr ()" "normalize_email email0 = Inr email" "validate_actor a0 = Inr actor"
      "read_bindings d = Inr f" "map_of (bf_bindings f) (binding_key b) = None"
      "\<not> list_ex (\<lambda>(_, x). br_email x = email \<or> br_owner_id x = w) (bf_bindings f)" by blast
    obtain r1 d1 where wr: "write_bindings pe 0 (bind_key pe actor (binding_key b) \<lparr>br_owner_id = w, br_email = email\<rparr> f) d = (r1, d1)"
      by (metis surj_pair)
    have "email \<notin> (br_email \<circ> snd) ` set (bf_bindings f)" using x(6) by (force simp: list_ex_iff)
    note steps = bind_key_steps [OF x(4,1,5) normalize_email_fixpoint [OF x(2)] this _ _ _ _ wr]
    from validate_actor_fields [OF x(3)] steps r x wr show ?thesis
      by (auto simp: bind_subject_def locked_def Let_def provenance_invalid_def split: sum.splits if_splits)
  next
    case False
    then show ?thesis using r
      by (auto simp: bind_subject_def locked_def Let_def provenance_invalid_def split: if_splits prod.splits sum.splits option.splits try_tx_splits)
  qed
qed

lemma update_binding_email_steps: "update_binding_email pe b e0 n0 a0 d = (r, d') \<Longrightarrow> policy_step\<^sup>*\<^sup>* d d'"
proof -
  let ?key = "binding_key b"
  let ?f = "\<lambda>f x email actor. f\<lparr>bf_bindings := bmap_update ?key (\<lambda>_. x\<lparr>br_email := email\<rparr>) (bf_bindings f),
          bf_audit := bf_audit f @ [audit_event pe actor (lit ''subject_email_updated'') (bindings_value (bf_bindings f))
            (bindings_value (bmap_update ?key (\<lambda>_. x\<lparr>br_email := email\<rparr>) (bf_bindings f)))]\<rparr>"
  assume r: "update_binding_email pe b e0 n0 a0 d = (r, d')"
  show ?thesis
  proof (cases "\<exists>email actor f x. normalize_email n0 = Inr email \<and> validate_actor a0 = Inr actor
      \<and> read_bindings d = Inr f \<and> map_of (bf_bindings f) ?key = Some x
      \<and> \<not> list_ex (\<lambda>(k, y). k \<noteq> ?key \<and> br_email y = email) (bf_bindings f)
      \<and> (\<exists>r1 d1 ev. write_bindings pe 0 (?f f x email actor) d = (r1, d1) \<and> (d' = d1 \<or> d' = append_audit pe ev d1))")
    case True
    then obtain email actor f x r1 d1 ev where x: "normalize_email n0 = Inr email" "validate_actor a0 = Inr actor"
      "read_bindings d = Inr f" "map_of (bf_bindings f) ?key = Some x"
      "\<not> list_ex (\<lambda>(k, y). k \<noteq> ?key \<and> br_email y = email) (bf_bindings f)"
      "write_bindings pe 0 (?f f x email actor) d = (r1, d1)" "d' = d1 \<or> d' = append_audit pe ev d1" by blast
    have other: "br_email y \<noteq> email" if "(k, y) \<in> set (bf_bindings f)" "k \<noteq> ?key" for k y
      using x(5) that by (force simp: list_ex_iff)
    have "policy_step\<^sup>*\<^sup>* d d1"
      using write_bindings_cases(1) [OF x(6)]
    proof
      assume "d1 = d\<lparr>pd_bindings := Stored (pe_bindings_len pe (?f f x email actor)) (?f f x email actor)\<rparr>
        \<and> pe_bindings_len pe (?f f x email actor) < MAX_POLICY_FILE_BYTES"
      moreover have "policy_step d (d\<lparr>pd_bindings := Stored (pe_bindings_len pe (?f f x email actor)) (?f f x email actor)\<rparr>)"
        by (rule renamed [OF x(3,4) normalize_email_fixpoint [OF x(1)] other x(2)]) (use calculation in simp_all)
      ultimately show ?thesis by simp
    qed simp
    then show ?thesis using x(7) step_log [of d1 pe ev] by (auto intro: rtranclp_trans)
  next
    case False
    then show ?thesis using r
      by (auto simp: update_binding_email_def locked_def Let_def split: if_splits prod.splits sum.splits option.splits try_tx_splits)
  qed
qed

section \<open>Runs\<close>

datatype policy_call =
    OpenStore "bootstrap_admin option"
  | Resolve verified_identity
  | RoleForOwner rstr
  | OwnerIdForEmail rstr
  | Snapshot
  | ReplaceUsers nat rstr user_map
  | BindSubject subject_binding rstr rstr rstr
  | UpdateBindingEmail subject_binding rstr rstr rstr

fun policy_exec :: "policy_env \<times> policy_call \<Rightarrow> policy_disk \<Rightarrow> policy_disk" where
  "policy_exec (pe, OpenStore b) d = snd (open_store pe b d)"
| "policy_exec (pe, Resolve identity) d = snd (resolve pe identity d)"
| "policy_exec (pe, RoleForOwner w) d = snd (role_for_owner pe w d)"
| "policy_exec (pe, OwnerIdForEmail e) d = snd (owner_id_for_email pe e d)"
| "policy_exec (pe, Snapshot) d = snd (snapshot pe d)"
| "policy_exec (pe, ReplaceUsers rv a us) d = snd (replace_users pe rv a us d)"
| "policy_exec (pe, BindSubject b w e a) d = snd (bind_subject pe b w e a d)"
| "policy_exec (pe, UpdateBindingEmail b e n a) d = snd (update_binding_email pe b e n a d)"

abbreviation run_policy :: "(policy_env \<times> policy_call) list \<Rightarrow> policy_disk \<Rightarrow> policy_disk" where
  "run_policy \<equiv> run_calls policy_exec"

text \<open>The disk of a hub that was never started.\<close>

definition fresh_disk :: policy_disk where
  "fresh_disk = \<lparr> pd_policy = Absent, pd_bindings = Absent, pd_marker = MarkerAbsent, pd_audit_log = [] \<rparr>"

lemma queries_read_only:
  "snd (role_for_owner pe w d) = d" "snd (owner_id_for_email pe e d) = d" "snd (snapshot pe d) = d"
  by (auto simp: role_for_owner_def owner_id_for_email_def snapshot_def locked_def split: try_tx_splits)

lemma policy_exec_steps: "policy_step\<^sup>*\<^sup>* d (policy_exec c d)"
proof -
  obtain pe k where c: "c = (pe, k)" by (metis surj_pair)
  show ?thesis
    unfolding c
    by (cases k) (simp_all add: queries_read_only open_store_steps [OF prod.collapse [symmetric]]
        resolve_steps [OF prod.collapse [symmetric]] replace_users_steps [OF prod.collapse [symmetric]]
        bind_subject_steps [OF prod.collapse [symmetric]] update_binding_email_steps [OF prod.collapse [symmetric]])
qed

lemma run_policy_steps: "policy_step\<^sup>*\<^sup>* d (run_policy cs d)"
proof (induction cs arbitrary: d)
  case (Cons c cs)
  from policy_exec_steps [of d c] Cons [of "policy_exec c d"] show ?case by simp
qed simp

section \<open>The invariant\<close>

definition policy_inv :: "policy_disk \<Rightarrow> bool" where
  "policy_inv d \<longleftrightarrow>
     (pd_policy d = Absent \<or> (\<exists>p. read_policy d = Inr p \<and> bmap (pf_users p)))
     \<and> (pd_bindings d = Absent \<or>
         (\<exists>n f. pd_bindings d = Stored n f \<and> n < MAX_POLICY_FILE_BYTES \<and> bindings_shape f \<and> bmap (bf_bindings f)))"

lemma read_policy_other: "read_policy (d\<lparr>pd_bindings := x\<rparr>) = read_policy d"
  "read_policy (d\<lparr>pd_marker := m, pd_audit_log := l\<rparr>) = read_policy d"
  by (simp_all add: read_policy_def)

lemma trim_not_Nil: "s \<noteq> [] \<Longrightarrow> \<not> is_whitespace (hd s) \<Longrightarrow> \<not> is_whitespace (last s) \<Longrightarrow> trim s \<noteq> []"
  by (simp add: trim_fixpoint [THEN iffD2])

lemma action_texts: "trim (lit ''policy_replaced'') \<noteq> []" "trim (lit ''subject_bound'') \<noteq> []"
  "trim (lit ''subject_email_updated'') \<noteq> []" "trim (lit ''bootstrap_admin_created'') \<noteq> []" "trim (lit ''bindings_initialized'') \<noteq> []"
  by (rule trim_not_Nil; simp add: lit_def is_whitespace_def)+

lemma bootstrap_fields: "event_fields (audit_event pe (lit ''bootstrap'') (lit ''bootstrap_admin_created'') b a)"
  "event_fields (audit_event pe (lit ''bootstrap'') (lit ''bindings_initialized'') b a)"
proof -
  have "lit ''bootstrap'' \<noteq> [] \<and> trim (lit ''bootstrap'') = lit ''bootstrap'' \<and> str_len (lit ''bootstrap'') \<le> 256
      \<and> \<not> list_ex is_control (lit ''bootstrap'')"
    by (simp add: trim_fixpoint lit_def is_whitespace_def is_control_def utf8_width_def)
  from audit_event_fields [OF this action_texts(4)] audit_event_fields [OF this action_texts(5)]
  show "event_fields (audit_event pe (lit ''bootstrap'') (lit ''bootstrap_admin_created'') b a)"
    "event_fields (audit_event pe (lit ''bootstrap'') (lit ''bindings_initialized'') b a)" .
qed

lemma first_event_chain: "event_fields ev \<Longrightarrow> au_before ev = JNull \<Longrightarrow> validate_audit_chain [ev] (au_after ev) 1 = Inr ()"
  by (simp add: validate_audit_chain_def event_fields_def not_less)

lemma audit_event_simps [simp]: "au_before (audit_event pe actor action b a) = b" "au_after (audit_event pe actor action b a) = a"
  by (simp_all add: audit_event_def)

lemma bmap_update_mem: "kr \<in> set (bmap_update k (\<lambda>_. v) m) \<Longrightarrow> kr \<in> set m \<or> kr = (k, v)"
  by (induction m) (auto split: if_splits)

lemma bmap_update_distinct:
  assumes "bmap m" "distinct (map g m)" "\<And>k x. (k, x) \<in> set m \<Longrightarrow> k \<noteq> key \<Longrightarrow> g (k, x) \<noteq> g (key, v)"
  shows "distinct (map g (bmap_update key (\<lambda>_. v) m))"
  using assms
proof (induction key "\<lambda>_::'b option. v" m rule: bmap_update.induct)
  case (2 key k' x m)
  have IH: "key \<noteq> k' \<Longrightarrow> \<not> key < k' \<Longrightarrow> distinct (map g (bmap_update key (\<lambda>_. v) m))"
    using 2 by simp
  have "g (k', x) \<notin> g ` set (bmap_update key (\<lambda>_. v) m)" if "key \<noteq> k'"
    using 2(3,4) that by (auto dest!: bmap_update_mem)
  moreover have "g (key, v) \<notin> g ` set m" if "key = k'"
    using 2(2,4) that by fastforce
  moreover have "g (key, v) \<notin> g ` set ((k', x) # m)" if "key < k'"
    using 2(2,4) that by fastforce
  ultimately show ?case using IH 2(3) by auto
qed simp

lemma bind_key_shape:
  assumes f: "bindings_shape f" "bmap (bf_bindings f)" and b: "validate_binding b = Inr ()"
    and n: "map_of (bf_bindings f) (binding_key b) = None"
    and e: "normalize_email (br_email r) = Inr (br_email r)" "br_email r \<notin> (br_email \<circ> snd) ` set (bf_bindings f)"
    and a: "trim actor = actor" "actor \<noteq> []" "str_len actor \<le> 256" "\<not> list_ex is_control actor"
  shows "bindings_shape (bind_key pe actor (binding_key b) r f)" "bmap (bf_bindings (bind_key pe actor (binding_key b) r f))"
proof -
  let ?m = "bmap_update (binding_key b) (\<lambda>_. r) (bf_bindings f)"
  let ?ev = "audit_event pe actor (lit ''subject_bound'') (bindings_value (bf_bindings f)) (bindings_value ?m)"
  have ev: "event_fields ?ev" using a by (intro audit_event_fields) (simp_all add: action_texts)
  have "binding_ok (binding_key b, r)" using b e by (auto simp: binding_ok_def)
  then have "list_all binding_ok ?m" using f(1) by (auto simp: bindings_shape_def list_all_iff dest!: bmap_update_mem)
  moreover have "distinct (map (br_email \<circ> snd) ?m)"
    using f e(2) by (intro bmap_update_distinct) (force simp: bindings_shape_def)+
  ultimately show "bindings_shape (bind_key pe actor (binding_key b) r f)"
    using f(1) validate_audit_chain_append [of "bf_audit f" "bindings_value (bf_bindings f)" ?ev] ev
    by (simp add: bindings_shape_def bind_key_def Let_def)
  show "bmap (bf_bindings (bind_key pe actor (binding_key b) r f))"
    using f(2) by (simp add: bind_key_def Let_def bmap_bmap_update)
qed

lemma policy_step_inv: "policy_step d d' \<Longrightarrow> policy_inv d \<Longrightarrow> policy_inv d'"
proof (induction rule: policy_step.induct)
  case (beside d m l)
  then show ?case by (simp add: policy_inv_def read_policy_def)
next
  case (bootstrapped d email n pe proven)
  let ?p = "bootstrap_policy pe email proven" let ?u = "pf_users ?p"
  have "validate_audit_chain (pf_audit ?p) (users_value ?u) 1 = Inr ()"
    using first_event_chain [OF bootstrap_fields(1) [of pe JNull "users_value ?u"]] by (simp add: bootstrap_policy_def Let_def)
  then have "read_policy (d\<lparr>pd_policy := Stored n ?p\<rparr>) = Inr ?p"
    using bootstrapped by (simp add: read_policy_iff) (simp add: bootstrap_policy_def Let_def has_enabled_admin_def)
  moreover have "bmap ?u" by (simp add: bootstrap_policy_def Let_def)
  ultimately show ?case using bootstrapped.prems by (auto simp: policy_inv_def)
next
  case (replaced d p users a actor n pe)
  let ?ev = "audit_event pe actor (lit ''policy_replaced'') (users_value (pf_users p)) (users_value users)"
  let ?p = "p\<lparr>pf_revision := pf_revision p + 1, pf_users := users, pf_audit := pf_audit p @ [?ev]\<rparr>"
  have "event_fields ?ev" using validate_actor_fields [OF replaced(5)] by (intro audit_event_fields) (simp_all add: action_texts)
  moreover have "validate_audit_chain (pf_audit p) (users_value (pf_users p)) (pf_revision p) = Inr ()"
    using replaced(1) by (simp add: read_policy_iff)
  moreover from this have "pf_revision p = length (pf_audit p)" by (blast dest: validate_audit_chain_length)
  ultimately have "validate_audit_chain (pf_audit ?p) (users_value users) (pf_revision ?p) = Inr ()"
    using validate_audit_chain_append [of "pf_audit p" "users_value (pf_users p)" ?ev] by simp
  then have "read_policy (d\<lparr>pd_policy := Stored n ?p\<rparr>) = Inr ?p"
    using replaced by (simp add: read_policy_iff)
  then show ?case using replaced by (auto simp: policy_inv_def)
next
  case (initialised d n pe)
  have "bindings_shape (initial_bindings pe)"
    using first_event_chain [OF bootstrap_fields(2) [of pe JNull "bindings_value []"]]
    by (simp add: bindings_shape_def initial_bindings_def)
  moreover have "bmap (bf_bindings (initial_bindings pe))" by (simp add: initial_bindings_def)
  ultimately show ?case using initialised by (simp add: policy_inv_def read_policy_other)
next
  case (bound d f b r actor n pe)
  from bound(1) bound.prems have "bindings_shape f" "bmap (bf_bindings f)" by (auto simp: read_bindings_iff policy_inv_def)
  from bind_key_shape [OF this bound(2-9)] bound show ?case by (simp add: policy_inv_def read_policy_other)
next
  case (renamed d f key r email a actor n pe)
  let ?m = "bmap_update key (\<lambda>_. r\<lparr>br_email := email\<rparr>) (bf_bindings f)"
  let ?ev = "audit_event pe actor (lit ''subject_email_updated'') (bindings_value (bf_bindings f)) (bindings_value ?m)"
  from renamed(1) renamed.prems have f: "bindings_shape f" "bmap (bf_bindings f)" by (auto simp: read_bindings_iff policy_inv_def)
  have "binding_ok (key, r)" using f(1) renamed(2) by (auto simp: bindings_shape_def list_all_iff dest: map_of_SomeD)
  then have "binding_ok (key, r\<lparr>br_email := email\<rparr>)" using renamed(3) by (simp add: binding_ok_def)
  then have "list_all binding_ok ?m" using f(1) by (auto simp: bindings_shape_def list_all_iff dest!: bmap_update_mem)
  moreover have "distinct (map (br_email \<circ> snd) ?m)"
    using f renamed(4) by (intro bmap_update_distinct) (auto simp: bindings_shape_def)
  moreover have "event_fields ?ev" using validate_actor_fields [OF renamed(5)] by (intro audit_event_fields) (simp_all add: action_texts)
  ultimately have "bindings_shape (f\<lparr>bf_bindings := ?m, bf_audit := bf_audit f @ [?ev]\<rparr>)"
    using f(1) validate_audit_chain_append [of "bf_audit f" "bindings_value (bf_bindings f)" ?ev]
    by (simp add: bindings_shape_def)
  then show ?case using renamed f by (simp add: policy_inv_def read_policy_other bmap_bmap_update)
qed

lemma policy_steps_inv: "policy_step\<^sup>*\<^sup>* d d' \<Longrightarrow> policy_inv d \<Longrightarrow> policy_inv d'"
  by (induction rule: rtranclp_induct) (auto dest: policy_step_inv)

lemma fresh_policy_inv: "policy_inv fresh_disk"
  by (simp add: policy_inv_def fresh_disk_def)

lemma reachable_policy_inv: "policy_inv (run_policy cs fresh_disk)"
  by (rule policy_steps_inv [OF run_policy_steps fresh_policy_inv])

end
