(* ===== verification/Access_Policy_Props.thy ===== *)
theory Access_Policy_Props
  imports Access_Policy_Inv
begin

text \<open>
  What the access policy promises: its files stay readable, who is admitted and as whom, the owner of a
  subject is for ever, and two ways in which an administrator can lock everybody out.
\<close>

section \<open>History\<close>

definition current_policy :: "policy_disk \<Rightarrow> policy_file option" where
  "current_policy d = (case pd_policy d of Stored _ p \<Rightarrow> Some p | _ \<Rightarrow> None)"

definition current_bindings :: "policy_disk \<Rightarrow> bindings_file option" where
  "current_bindings d = (case pd_bindings d of Stored _ f \<Rightarrow> Some f | _ \<Rightarrow> None)"

text \<open>The owner a subject has, by the key of its binding.\<close>

definition bound_owner :: "policy_disk \<Rightarrow> rstr \<Rightarrow> rstr option" where
  "bound_owner d key =
     (case current_bindings d of None \<Rightarrow> None | Some f \<Rightarrow> map_option br_owner_id (map_of (bf_bindings f) key))"

definition policy_audit :: "policy_disk \<Rightarrow> audit_entry list" where
  "policy_audit d = (case current_policy d of None \<Rightarrow> [] | Some p \<Rightarrow> pf_audit p)"

definition bindings_audit :: "policy_disk \<Rightarrow> audit_entry list" where
  "bindings_audit d = (case current_bindings d of None \<Rightarrow> [] | Some f \<Rightarrow> bf_audit f)"

definition policy_extends :: "policy_disk \<Rightarrow> policy_disk \<Rightarrow> bool" where
  "policy_extends d d' \<longleftrightarrow> prefix (policy_audit d) (policy_audit d') \<and> prefix (bindings_audit d) (bindings_audit d')
     \<and> bound_owner d \<subseteq>\<^sub>m bound_owner d'"

lemma policy_extends_refl: "policy_extends d d"
  by (simp add: policy_extends_def)

lemma policy_extends_trans: "policy_extends d e \<Longrightarrow> policy_extends e g \<Longrightarrow> policy_extends d g"
  by (auto simp: policy_extends_def intro: prefix_order.trans map_le_trans)

lemma current_updates [simp]:
  "current_policy (d\<lparr>pd_bindings := x\<rparr>) = current_policy d"
  "current_policy (d\<lparr>pd_marker := m, pd_audit_log := l\<rparr>) = current_policy d"
  "current_policy (d\<lparr>pd_policy := Stored n p\<rparr>) = Some p"
  "current_bindings (d\<lparr>pd_policy := y\<rparr>) = current_bindings d"
  "current_bindings (d\<lparr>pd_marker := m, pd_audit_log := l\<rparr>) = current_bindings d"
  "current_bindings (d\<lparr>pd_bindings := Stored n f\<rparr>) = Some f"
  by (simp_all add: current_policy_def current_bindings_def)

lemma policy_step_extends: "policy_step d d' \<Longrightarrow> policy_inv d \<Longrightarrow> policy_extends d d'"
proof (induction rule: policy_step.induct)
  case (beside d m l)
  then show ?case by (simp add: policy_extends_def policy_audit_def bindings_audit_def bound_owner_def [abs_def])
next
  case (bootstrapped d email n pe proven)
  then have "current_policy d = None" by (simp add: current_policy_def)
  then show ?case by (simp add: policy_extends_def policy_audit_def bindings_audit_def bound_owner_def [abs_def])
next
  case (replaced d p users a actor n pe)
  then have "current_policy d = Some p" by (auto simp: read_policy_iff current_policy_def)
  then show ?case by (simp add: policy_extends_def policy_audit_def bindings_audit_def bound_owner_def [abs_def])
next
  case (initialised d n pe)
  then have "current_bindings d = None" by (simp add: current_bindings_def)
  then show ?case by (simp add: policy_extends_def policy_audit_def bindings_audit_def bound_owner_def [abs_def] map_le_def)
next
  case (bound d f b r actor n pe)
  then have "current_bindings d = Some f" "bmap (bf_bindings f)"
    by (auto simp: read_bindings_iff current_bindings_def policy_inv_def)
  then show ?case using bound(3)
    by (auto simp: policy_extends_def policy_audit_def bindings_audit_def bound_owner_def [abs_def] bind_key_def Let_def
        map_le_def map_of_bmap_update)
next
  case (renamed d f key r email a actor n pe)
  then have "current_bindings d = Some f" "bmap (bf_bindings f)"
    by (auto simp: read_bindings_iff current_bindings_def policy_inv_def)
  then show ?case using renamed(2)
    by (auto simp: policy_extends_def policy_audit_def bindings_audit_def bound_owner_def [abs_def] map_le_def map_of_bmap_update)
qed

lemma policy_steps_extend: "policy_step\<^sup>*\<^sup>* d d' \<Longrightarrow> policy_inv d \<Longrightarrow> policy_extends d d'"
proof (induction rule: rtranclp_induct)
  case (step y z)
  then show ?case using policy_steps_inv [OF step(1)] policy_step_extends [OF step(2)] policy_extends_trans by blast
qed (rule policy_extends_refl)

section \<open>Properties\<close>

definition shares_owner :: "policy_disk \<Rightarrow> bool" where
  "shares_owner d = (case current_bindings d of None \<Rightarrow> False | Some f \<Rightarrow> \<not> distinct_owners f)"

text \<open>
  C28: whatever calls a hub started on an empty disk receives, whatever writes, locks and log lines fail, and
  wherever a replacement stops half way, the policy file is absent or passes every check of the next read,
  the last enabled administrator included; and so does the bindings file, unless two subjects in it have the
  same owner.
\<close>

theorem policy_files_stay_readable:
  "let d = run_policy calls fresh_disk in
     (case read_policy d of
        Inr p \<Rightarrow> pf_revision p = length (pf_audit p)
      | Inl _ \<Rightarrow> pd_policy d = Absent)
     \<and> (case read_bindings d of
          Inr _ \<Rightarrow> True
        | Inl _ \<Rightarrow> pd_bindings d = Absent \<or> shares_owner d)"
proof -
  define d where "d = run_policy calls fresh_disk"
  have inv: "policy_inv d" unfolding d_def by (rule reachable_policy_inv)
  have "case read_policy d of Inr p \<Rightarrow> pf_revision p = length (pf_audit p) | Inl _ \<Rightarrow> pd_policy d = Absent"
  proof (cases "read_policy d")
    case (Inl e)
    then show ?thesis using inv by (simp add: policy_inv_def)
  next
    case (Inr p)
    then have "pf_revision p = length (pf_audit p)"
      by (auto simp: read_policy_iff dest: validate_audit_chain_length)
    with Inr show ?thesis by simp
  qed
  moreover have "pd_bindings d = Absent \<or> shares_owner d" if "read_bindings d = Inl e" for e
    using inv that read_bindings_iff [of d]
    by (auto simp: policy_inv_def shares_owner_def current_bindings_def)
  ultimately show ?thesis by (auto simp: d_def [symmetric] Let_def split: sum.splits)
qed

text \<open>The identity an admission names is the one that was verified.\<close>

definition admission_of :: "verified_identity \<Rightarrow> policy_decision \<Rightarrow> bool" where
  "admission_of identity dec \<longleftrightarrow>
     ao_issuer (ad_owner (de_admission dec)) = vi_issuer identity \<and> ao_subject (ad_owner (de_admission dec)) = vi_subject identity
     \<and> ad_subject_binding (de_admission dec) = \<lparr>sb_issuer = vi_issuer identity, sb_subject = vi_subject identity\<rparr>"

lemma new_admission_of:
  "owner_of_identity w identity = Inr owner \<Longrightarrow>
   admission_of identity \<lparr>de_admission = new_admission w owner, de_role = role\<rparr> \<and> ao_id (ad_owner (new_admission w owner)) = w"
  by (auto simp: owner_of_identity_def bindE_eq_Inr provenance_invalid_def new_issuer_def new_subject_def admission_of_def new_admission_def)

lemma admits_as_owner:
  assumes "admits_as pe identity d email b f w dec" "map_of (bf_bindings f) (binding_key b) = Some r"
  shows "br_owner_id r = w" "br_email r = email"
  using assms by (auto simp: admits_as_def owner_for_def opt_holds_def split: option.splits)

lemma resolve_sound:
  assumes inv: "policy_inv d" and b0: "b0 = \<lparr>sb_issuer = vi_issuer identity, sb_subject = vi_subject identity\<rparr>"
  shows "case resolve pe identity d of
     (Inr (Some dec), d') \<Rightarrow>
          let owner_id = ao_id (ad_owner (de_admission dec)) in
          admission_of identity dec
          \<and> bound_owner d (binding_key b0) \<in> {None, Some owner_id}
          \<and> (\<exists>p email entry f.
                read_policy d = Inr p \<and> normalize_email (vi_email identity) = Inr email
                \<and> map_of (pf_users p) email = Some entry \<and> ae_enabled entry
                \<and> mailbox_is_proven email (ae_mailbox_proven entry) \<and> de_role dec = ae_role entry
                \<and> current_bindings d' = Some f
                \<and> map_of (bf_bindings f) (binding_key b0) = Some \<lparr>br_owner_id = owner_id, br_email = email\<rparr>)
      | (_, d') \<Rightarrow> d' = d \<or> pe_write pe 0 = WrittenUnsynced" (is ?goal)
  using resolve_cases [of pe identity d]
  proof (elim disjE exE conjE)
    fix email b f w dec
    let ?f = "bind_key pe (lit ''oidc-admission'') (binding_key b) \<lparr>br_owner_id = w, br_email = email\<rparr> f"
    let ?ev = "bound_event pe (lit ''oidc-admission'') b \<lparr>br_owner_id = w, br_email = email\<rparr> (bindings_value (bf_bindings f))"
    assume a: "admits_as pe identity d email b f w dec"
      and eq: "resolve pe identity d =
          (if map_of (bf_bindings f) (binding_key b) = None
           then case write_bindings pe 0 ?f d of
                  (Inl e, d1) \<Rightarrow> (Inl e, d1)
                | (Inr _, d1) \<Rightarrow> (Inr (Some dec), append_audit pe ?ev d1)
           else (Inr (Some dec), d))"
    from a obtain p entry owner where c: "read_policy d = Inr p" "normalize_email (vi_email identity) = Inr email"
      "b = b0" "read_bindings d = Inr f" "map_of (pf_users p) email = Some entry" "ae_enabled entry"
      "mailbox_is_proven email (ae_mailbox_proven entry)" "owner_of_identity w identity = Inr owner"
      "dec = \<lparr>de_admission = new_admission w owner, de_role = ae_role entry\<rparr>"
      by (auto simp: admits_as_def parse_binding_ok b0)
    have w: "ao_id (ad_owner (de_admission dec)) = w" "admission_of identity dec"
      using new_admission_of [OF c(8), of "ae_role entry"] by (simp_all add: c(9))
    have f: "current_bindings d = Some f" "bmap (bf_bindings f)"
      using c(4) inv by (auto simp: read_bindings_iff current_bindings_def policy_inv_def)
    show ?goal
    proof (cases "map_of (bf_bindings f) (binding_key b)")
      case (Some r)
      note r = admits_as_owner [OF a Some]
      have "r = \<lparr>br_owner_id = w, br_email = email\<rparr>" using r by (cases r) simp
      with Some have m: "map_of (bf_bindings f) (binding_key b0) = Some \<lparr>br_owner_id = w, br_email = email\<rparr>" using c(3) by simp
      have "resolve pe identity d = (Inr (Some dec), d)" using Some eq by simp
      then show ?thesis using c f m w by (simp add: Let_def bound_owner_def)
    next
      case None
      obtain r1 d1 where wr: "write_bindings pe 0 ?f d = (r1, d1)" by (metis surj_pair)
      show ?thesis
      proof (cases r1)
        case (Inr u)
        with write_bindings_cases(2) [OF wr] have "d1 = d\<lparr>pd_bindings := Stored (pe_bindings_len pe ?f) ?f\<rparr>" by simp
        then have cb: "current_bindings (append_audit pe ?ev d1) = Some ?f"
          by (simp add: append_audit_def current_bindings_def)
        have m: "map_of (bf_bindings ?f) (binding_key b0) = Some \<lparr>br_owner_id = w, br_email = email\<rparr>"
          using f(2) by (simp add: bind_key_def Let_def map_of_bmap_update c(3))
        have "resolve pe identity d = (Inr (Some dec), append_audit pe ?ev d1)" using None Inr eq by (simp add: wr)
        moreover have "bound_owner d (binding_key b0) = None" using None c(3) f(1) by (simp add: bound_owner_def)
        ultimately show ?thesis using c cb m w by (simp add: Let_def)
      next
        case (Inl e)
        have "d1 = d \<or> pe_write pe 0 = WrittenUnsynced"
          using wr Inl by (auto simp: write_bindings_def replace_file_def split: if_splits write_outcome.splits)
        then show ?thesis using None Inl by (auto simp: eq wr)
      qed
    qed
  next
    fix e assume "resolve pe identity d = (e, d)" "\<forall>dec. e \<noteq> Inr (Some dec)"
    then show ?goal by (cases e) (auto split: option.splits)
  qed

text \<open>
  C29: somebody is admitted only under the policy as it is on disk at that moment: the verified address has an
  entry that is enabled and whose mailbox is proven, and the role is the entry's. The admission carries the
  verified issuer and subject, its owner is the one the subject had, if it had any, and is on disk, with the
  address, as the owner of that subject afterwards. Whoever is not admitted gains no owner, unless the binding
  was written and only its synchronisation failed.
\<close>

theorem admission_sound:
  "let d = run_policy calls fresh_disk;
       key = binding_key \<lparr>sb_issuer = vi_issuer identity, sb_subject = vi_subject identity\<rparr>
   in case resolve pe identity d of
        (Inr (Some dec), d') \<Rightarrow>
          let owner_id = ao_id (ad_owner (de_admission dec)) in
          admission_of identity dec
          \<and> bound_owner d key \<in> {None, Some owner_id}
          \<and> (\<exists>p email entry f.
                read_policy d = Inr p \<and> normalize_email (vi_email identity) = Inr email
                \<and> map_of (pf_users p) email = Some entry \<and> ae_enabled entry
                \<and> mailbox_is_proven email (ae_mailbox_proven entry) \<and> de_role dec = ae_role entry
                \<and> current_bindings d' = Some f
                \<and> map_of (bf_bindings f) key = Some \<lparr>br_owner_id = owner_id, br_email = email\<rparr>)
      | (_, d') \<Rightarrow> d' = d \<or> pe_write pe 0 = WrittenUnsynced"
  using resolve_sound [OF reachable_policy_inv refl] by (simp only: Let_def)

text \<open>
  C30: once a subject has an owner it keeps that owner through every later call, and the two audit histories
  only grow: nobody can be given the data of somebody else by an edit of the policy or of an address.
\<close>

theorem owners_are_for_ever:
  "let d = run_policy calls fresh_disk; d' = run_policy later d in
     bound_owner d \<subseteq>\<^sub>m bound_owner d'
     \<and> prefix (policy_audit d) (policy_audit d') \<and> prefix (bindings_audit d) (bindings_audit d')"
  using policy_steps_extend [OF run_policy_steps reachable_policy_inv] by (simp add: Let_def policy_extends_def)

text \<open>
  Two callers that read the same revision cannot both replace the users: the later one is told of the
  conflict, whatever happened in between.
\<close>

lemma current_revision:
  "policy_inv d \<Longrightarrow> read_policy d = Inr p \<Longrightarrow> pf_revision p = length (policy_audit d)"
  by (auto simp: read_policy_iff policy_audit_def current_policy_def dest: validate_audit_chain_length)

lemma replace_users_ok:
  assumes "replace_users pe rv a us d = (Inr s, d')"
  shows "\<exists>p p'. read_policy d = Inr p \<and> pf_revision p = rv \<and> current_policy d' = Some p' \<and> pf_revision p' = rv + 1"
proof -
  from assms obtain p users actor where p: "read_policy d = Inr p" "pf_revision p = rv"
    "write_policy pe 0 (p\<lparr>pf_revision := pf_revision p + 1, pf_users := users,
        pf_audit := pf_audit p @ [audit_event pe actor (lit ''policy_replaced'') (users_value (pf_users p)) (users_value users)]\<rparr>) d
       = (Inr (), d')" (is "write_policy pe 0 ?p d = _")
    by (auto simp: replace_users_def locked_def Let_def split: if_splits prod.splits sum.splits try_tx_splits)
  from write_policy_cases(2) [OF p(3)] have "current_policy d' = Some ?p" by simp
  with p(1,2) show ?thesis by (intro exI [of _ p] exI [of _ ?p]) simp
qed

lemma replace_compare_and_swap:
  assumes "replace_users pe rv a us (run_policy cs fresh_disk) = (Inr s, d1)" "replace_users pe' rv a' us' (run_policy ds d1) = (r, d2)"
  shows "\<exists>e. r = Inl e"
proof (cases r)
  case (Inr s')
  define d where "d = run_policy cs fresh_disk"
  have inv: "policy_inv d" unfolding d_def by (rule reachable_policy_inv)
  have steps: "policy_step\<^sup>*\<^sup>* d d1" using replace_users_steps [OF assms(1)] by (simp add: d_def)
  then have inv1: "policy_inv d1" using inv by (rule policy_steps_inv)
  from replace_users_ok [OF assms(1)] obtain p1 where p1: "current_policy d1 = Some p1" "pf_revision p1 = rv + 1" by blast
  then have "read_policy d1 = Inr p1" using inv1 by (auto simp: policy_inv_def current_policy_def read_policy_iff split: stored.splits)
  from current_revision [OF inv1 this] p1(2) have "length (policy_audit d1) = rv + 1" by simp
  moreover have "prefix (policy_audit d1) (policy_audit (run_policy ds d1))"
    using policy_steps_extend [OF run_policy_steps inv1] by (simp add: policy_extends_def)
  moreover from replace_users_ok [of pe' rv a' us' "run_policy ds d1"] assms(2) Inr obtain p2 where
    p2: "read_policy (run_policy ds d1) = Inr p2" "pf_revision p2 = rv" by blast
  moreover have "policy_inv (run_policy ds d1)" by (rule policy_steps_inv [OF run_policy_steps inv1])
  ultimately have False using current_revision [of "run_policy ds d1" p2] prefix_length_le by fastforce
  then show ?thesis ..
qed blast

section \<open>Lock-outs\<close>

definition sample_policy_env :: "(rstr \<Rightarrow> rstr) \<Rightarrow> policy_env" where
  "sample_policy_env h =
     \<lparr> pe_now = 0, pe_lock = True, pe_write = (\<lambda>_. Written), pe_log = True,
       pe_policy_len = (\<lambda>_. 1000), pe_bindings_len = (\<lambda>_. 1000), pe_blake3_hex = h \<rparr>"

definition sample_hash :: "rstr \<Rightarrow> rstr" where
  "sample_hash s = replicate 64 (if 49 \<in> set s then 97 else 98)"

definition alice :: verified_identity where
  "alice = \<lparr> vi_email = lit ''alice@gmail.com'', vi_subject = lit ''1'', vi_issuer = lit ''google'' \<rparr>"

definition opened_disk :: policy_disk where
  "opened_disk = snd (open_store (sample_policy_env sample_hash)
     (Some \<lparr> ba_email = lit ''alice@gmail.com'', ba_mailbox_proven = False \<rparr>) fresh_disk)"

text \<open>
  The last administrator need not be able to sign in: a replacement whose only enabled administrator has an
  unproven mailbox outside Gmail is accepted, and then nobody is admitted as an administrator.
\<close>

definition unproven_admin :: user_map where
  "unproven_admin = [(lit ''root@corp.example'', \<lparr> ae_role = Admin, ae_enabled = True, ae_mailbox_proven = False \<rparr>)]"

lemma sample_env_simps [simp]:
  "pe_lock (sample_policy_env h)" "pe_write (sample_policy_env h) i = Written" "pe_log (sample_policy_env h)"
  "pe_policy_len (sample_policy_env h) p = 1000" "pe_bindings_len (sample_policy_env h) f = 1000"
  "timestamp (sample_policy_env h) = [48]"
  by (simp_all add: sample_policy_env_def timestamp_def show_nat.simps)

lemmas email_eval = normalize_email_def Let_def trim_def trim_start_def trim_end_def lit_def is_whitespace_def
  is_ascii_control_def is_ascii_whitespace_def to_ascii_lowercase_def is_ascii_upper_def new_email_at_write_def
  validate_email_def MIN_EMAIL_CHARS_def MAX_EMAIL_CHARS_def check_chars_def utf8_width_def

lemma sample_emails [simp]:
  "normalize_email (lit ''alice@gmail.com'') = Inr (lit ''alice@gmail.com'')"
  "normalize_email (lit ''bob@gmail.com'') = Inr (lit ''bob@gmail.com'')"
  "normalize_email (lit ''root@corp.example'') = Inr (lit ''root@corp.example'')"
  by (simp_all add: email_eval)

lemma sample_actor [simp]: "validate_actor (lit ''alice'') = Inr (lit ''alice'')"
  by (simp add: validate_actor_def is_control_def email_eval)

lemma opened_disk_eq:
  "opened_disk = \<lparr> pd_policy = Stored 1000 (bootstrap_policy (sample_policy_env sample_hash) (lit ''alice@gmail.com'') False),
     pd_bindings = Stored 1000 (initial_bindings (sample_policy_env sample_hash)), pd_marker = MarkerPresent, pd_audit_log = [] \<rparr>"
proof -
  let ?pe = "sample_policy_env sample_hash"
  have p: "open_policy ?pe (Some \<lparr> ba_email = lit ''alice@gmail.com'', ba_mailbox_proven = False \<rparr>) fresh_disk =
      (Inr (), fresh_disk\<lparr>pd_policy := Stored 1000 (bootstrap_policy ?pe (lit ''alice@gmail.com'') False), pd_marker := MarkerPresent\<rparr>)"
  proof -
    have r: "read_policy fresh_disk = Inl (PolicyStorage IoNotFound)" by (simp add: read_policy_absent) (simp add: fresh_disk_def)
    have "validate_users (pf_users (bootstrap_policy ?pe (lit ''alice@gmail.com'') False)) = Inr ()"
      by (simp add: bootstrap_policy_def Let_def)
    then have w: "write_policy ?pe 0 (bootstrap_policy ?pe (lit ''alice@gmail.com'') False) fresh_disk =
        (Inr (), fresh_disk\<lparr>pd_policy := Stored 1000 (bootstrap_policy ?pe (lit ''alice@gmail.com'') False)\<rparr>)"
      by (simp add: write_policy_def replace_file_def MAX_POLICY_FILE_BYTES_def)
    have m: "pd_marker fresh_disk = MarkerAbsent" by (simp add: fresh_disk_def)
    show ?thesis by (simp add: open_policy_def r m w)
  qed
  let ?d = "fresh_disk\<lparr>pd_policy := Stored 1000 (bootstrap_policy ?pe (lit ''alice@gmail.com'') False), pd_marker := MarkerPresent\<rparr>"
  have "read_bindings ?d = Inl (PolicyStorage IoNotFound)" by (simp add: read_bindings_absent) (simp add: fresh_disk_def)
  then have "open_store ?pe (Some \<lparr> ba_email = lit ''alice@gmail.com'', ba_mailbox_proven = False \<rparr>) fresh_disk =
      write_bindings ?pe 2 (initial_bindings ?pe) ?d"
    by (simp only: open_store_def locked_def p sample_env_simps if_True prod.case sum.case) simp
  then show ?thesis
    by (simp add: opened_disk_def write_bindings_def replace_file_def MAX_POLICY_FILE_BYTES_def) (simp add: fresh_disk_def)
qed

lemma opened_readable:
  "read_policy opened_disk = Inr (bootstrap_policy (sample_policy_env sample_hash) (lit ''alice@gmail.com'') False)"
  "read_bindings opened_disk = Inr (initial_bindings (sample_policy_env sample_hash))"
proof -
  have "policy_inv opened_disk"
    using reachable_policy_inv [of "[(sample_policy_env sample_hash, OpenStore (Some \<lparr> ba_email = lit ''alice@gmail.com'', ba_mailbox_proven = False \<rparr>))]"]
    by (simp add: opened_disk_def)
  then show "read_policy opened_disk = Inr (bootstrap_policy (sample_policy_env sample_hash) (lit ''alice@gmail.com'') False)"
    "read_bindings opened_disk = Inr (initial_bindings (sample_policy_env sample_hash))"
    by (auto simp: policy_inv_def opened_disk_eq read_policy_iff read_bindings_iff) (auto simp: initial_bindings_def distinct_owners_def)
qed

lemma sample_binding [simp]:
  "parse_binding (lit ''google'') (lit ''1'') = Inr \<lparr>sb_issuer = lit ''google'', sb_subject = lit ''1''\<rparr>"
  "parse_binding (lit ''google'') (lit ''2'') = Inr \<lparr>sb_issuer = lit ''google'', sb_subject = lit ''2''\<rparr>"
  "parse_binding (lit ''google'') (lit ''7'') = Inr \<lparr>sb_issuer = lit ''google'', sb_subject = lit ''7''\<rparr>"
  by (simp_all add: parse_binding_def new_issuer_def new_subject_def validate_issuer_def validate_subject_def check_text_def
      check_chars_def lit_def is_ascii_graphic_def utf8_width_def MAX_ISSUER_CHARS_def MAX_SUBJECT_CHARS_def)

lemma unproven_admin_locks_out:
  "case replace_users (sample_policy_env sample_hash) 1 (lit ''alice'') unproven_admin opened_disk of
     (r, d) \<Rightarrow> (case r of Inr s \<Rightarrow> as_revision s = 2 | Inl _ \<Rightarrow> False)
       \<and> fst (resolve (sample_policy_env sample_hash)
            \<lparr> vi_email = lit ''root@corp.example'', vi_subject = lit ''7'', vi_issuer = lit ''google'' \<rparr> d) = Inr None
       \<and> fst (resolve (sample_policy_env sample_hash) alice d) = Inr None"
proof -
  let ?pe = "sample_policy_env sample_hash"
  obtain r d where rd: "replace_users ?pe 1 (lit ''alice'') unproven_admin opened_disk = (r, d)" by (metis surj_pair)
  have "canonicalize_users unproven_admin = Inr unproven_admin" "validate_users unproven_admin = Inr ()" "has_enabled_admin unproven_admin"
    by (simp_all add: canonicalize_users_def unproven_admin_def has_enabled_admin_def)
  moreover have "pf_revision (bootstrap_policy ?pe (lit ''alice@gmail.com'') False) = 1" by (simp add: bootstrap_policy_def Let_def)
  moreover define b where "b = bootstrap_policy ?pe (lit ''alice@gmail.com'') False"
  moreover define p where "p = b\<lparr>pf_revision := 2, pf_users := unproven_admin, pf_audit := pf_audit b @
      [audit_event ?pe (lit ''alice'') (lit ''policy_replaced'') (users_value (pf_users b)) (users_value unproven_admin)]\<rparr>"
  ultimately have "replace_users ?pe 1 (lit ''alice'') unproven_admin opened_disk =
      (Inr \<lparr>as_revision = 2, as_users = unproven_admin\<rparr>, opened_disk\<lparr>pd_policy := Stored 1000 p\<rparr>)"
    by (simp add: replace_users_def locked_def opened_readable write_policy_def replace_file_def MAX_POLICY_FILE_BYTES_def
        Let_def numeral_2_eq_2 [symmetric])
  then have p: "d = opened_disk\<lparr>pd_policy := Stored 1000 p\<rparr>" "r = Inr \<lparr>as_revision = 2, as_users = unproven_admin\<rparr>"
    using rd by simp_all
  have u: "pf_users p = unproven_admin" by (simp add: p_def)
  have "policy_inv opened_disk"
    using reachable_policy_inv [of "[(?pe, OpenStore (Some \<lparr> ba_email = lit ''alice@gmail.com'', ba_mailbox_proven = False \<rparr>))]"]
    by (simp add: opened_disk_def)
  then have "policy_inv d" by (rule policy_steps_inv [OF replace_users_steps [OF rd]])
  then have rp: "read_policy d = Inr p" by (auto simp: policy_inv_def p(1) read_policy_iff)
  have rb: "read_bindings d = Inr (initial_bindings ?pe)" using opened_readable(2) by (simp add: read_bindings_iff p(1))
  have "\<not> mailbox_is_proven (lit ''root@corp.example'') False"
    by (simp add: mailbox_is_proven_def lit_def to_ascii_lowercase_def is_ascii_upper_def)
  then show ?thesis unfolding rd prod.case p(2) sum.case
    by (simp add: resolve_def locked_def rp rb u unproven_admin_def initial_bindings_def alice_def provenance_invalid_def)
qed

text \<open>
  An owner minted by a first admission is not compared with the owners an administrator bound: when the
  identifier was already given to another subject, the admission succeeds and writes a file with one owner
  twice, and from then on every admission and every edit of a binding fails.
\<close>

lemma admission_with_shared_owner:
  assumes r: "resolve pe identity d = (Inr (Some dec), d')" and inv: "policy_inv d"
    and key: "key = binding_key \<lparr>sb_issuer = vi_issuer identity, sb_subject = vi_subject identity\<rparr>"
    and other: "other \<noteq> key" "bound_owner d other = Some (ao_id (ad_owner (de_admission dec)))" and new: "bound_owner d key = None"
  shows "\<exists>m. read_bindings d' = Inl m"
proof (cases "read_bindings d'")
  case (Inr f)
  have inv': "policy_inv d'" by (rule policy_steps_inv [OF resolve_steps [OF r] inv])
  from Inr have f: "current_bindings d' = Some f" "distinct_owners f" by (auto simp: read_bindings_iff current_bindings_def)
  have "bound_owner d' other = Some (ao_id (ad_owner (de_admission dec)))"
    using policy_steps_extend [OF resolve_steps [OF r] inv] other(2) by (auto simp: policy_extends_def map_le_def dom_def)
  then obtain x where x: "(other, x) \<in> set (bf_bindings f)" "br_owner_id x = ao_id (ad_owner (de_admission dec))"
    using f(1) by (auto simp: bound_owner_def dest: map_of_SomeD)
  have "bound_owner d' key = Some (ao_id (ad_owner (de_admission dec)))"
    using resolve_sound [OF inv refl, of pe identity] unfolding r key by (auto simp: bound_owner_def Let_def)
  then obtain y where y: "(key, y) \<in> set (bf_bindings f)" "br_owner_id y = ao_id (ad_owner (de_admission dec))"
    using f(1) by (auto simp: bound_owner_def dest: map_of_SomeD)
  have inj: "inj_on (br_owner_id \<circ> snd) (set (bf_bindings f))" using f(2) by (simp add: distinct_owners_def distinct_map)
  have "(other, x) = (key, y)" by (rule inj_onD [OF inj]) (simp_all add: x y)
  then show ?thesis using other(1) by simp
qed blast

text \<open>It happens: an administrator binds Bob to the identifier Alice's first admission will mint.\<close>

lemma minted_owner_locks_out:
  "let pe = sample_policy_env sample_hash;
       bob = \<lparr>sb_issuer = lit ''google'', sb_subject = lit ''2''\<rparr>;
       minted = stable_owner_id pe \<lparr>sb_issuer = lit ''google'', sb_subject = lit ''1''\<rparr>
   in case bind_subject pe bob minted (lit ''bob@gmail.com'') (lit ''alice'') opened_disk of
        (r1, d1) \<Rightarrow> r1 = Inr ()
          \<and> (case resolve pe alice d1 of
                (Inr (Some dec), d2) \<Rightarrow> (\<exists>m. read_bindings d2 = Inl m)
              | _ \<Rightarrow> False)"
proof -
  let ?pe = "sample_policy_env sample_hash"
  let ?bob = "\<lparr>sb_issuer = lit ''google'', sb_subject = lit ''2''\<rparr>"
  let ?me = "\<lparr>sb_issuer = lit ''google'', sb_subject = lit ''1''\<rparr>"
  let ?f = "bind_key ?pe (lit ''alice'') (binding_key ?bob) \<lparr>br_owner_id = stable_owner_id ?pe ?me, br_email = lit ''bob@gmail.com''\<rparr> (initial_bindings ?pe)"
  let ?ev = "bound_event ?pe (lit ''alice'') ?bob \<lparr>br_owner_id = stable_owner_id ?pe ?me, br_email = lit ''bob@gmail.com''\<rparr> (bindings_value [])"
  define d1 where "d1 = append_audit ?pe ?ev (opened_disk\<lparr>pd_bindings := Stored 1000 ?f\<rparr>)"
  have vb: "validate_binding ?bob = Inr ()" using parse_binding_ok [THEN iffD1, OF sample_binding(2)] by blast
  have i: "bf_bindings (initial_bindings ?pe) = []" by (simp add: initial_bindings_def)
  have b: "bind_subject ?pe ?bob (stable_owner_id ?pe ?me) (lit ''bob@gmail.com'') (lit ''alice'') opened_disk = (Inr (), d1)"
    by (simp add: bind_subject_def locked_def opened_readable vb provenance_invalid_def i write_bindings_def replace_file_def
        MAX_POLICY_FILE_BYTES_def Let_def d1_def)
  have "policy_inv opened_disk"
    using reachable_policy_inv [of "[(?pe, OpenStore (Some \<lparr> ba_email = lit ''alice@gmail.com'', ba_mailbox_proven = False \<rparr>))]"]
    by (simp add: opened_disk_def)
  then have inv: "policy_inv d1" by (rule policy_steps_inv [OF bind_subject_steps [OF b]])
  have keys: "binding_key ?bob \<noteq> binding_key ?me" by (simp add: binding_key_def)
  have fb: "bf_bindings ?f = [(binding_key ?bob, \<lparr>br_owner_id = stable_owner_id ?pe ?me, br_email = lit ''bob@gmail.com''\<rparr>)]"
    by (simp add: bind_key_def Let_def i)
  have rb: "read_bindings d1 = Inr ?f"
    using inv fb by (auto simp: policy_inv_def d1_def append_audit_def read_bindings_iff distinct_owners_def)
  have rp: "read_policy d1 = Inr (bootstrap_policy ?pe (lit ''alice@gmail.com'') False)"
    using opened_readable(1) by (simp add: read_policy_iff d1_def append_audit_def)
  have mb: "mailbox_is_proven (lit ''alice@gmail.com'') False"
    by (simp add: mailbox_is_proven_def lit_def to_ascii_lowercase_def is_ascii_upper_def)
  have ow: "\<exists>owner. owner_of_identity (stable_owner_id ?pe ?me) alice = Inr owner"
    by (simp add: owner_of_identity_def alice_def provenance_invalid_def new_issuer_def new_subject_def validate_issuer_def
        validate_subject_def check_text_def is_ascii_graphic_def MAX_ISSUER_CHARS_def MAX_SUBJECT_CHARS_def email_eval)
  then obtain owner where owner: "owner_of_identity (stable_owner_id ?pe ?me) alice = Inr owner" by blast
  have av: "vi_email alice = lit ''alice@gmail.com''" "vi_issuer alice = lit ''google''" "vi_subject alice = lit ''1''"
    by (simp_all add: alice_def)
  have m: "map_of (bf_bindings ?f) (binding_key ?me) = None" using keys by (simp add: fb)
  have of': "owner_for ?pe ?me (lit ''alice@gmail.com'') (bf_bindings ?f) = Inr (stable_owner_id ?pe ?me)"
    using keys by (simp add: owner_for_def fb)
  have us: "map_of (pf_users (bootstrap_policy ?pe (lit ''alice@gmail.com'') False)) (lit ''alice@gmail.com'') =
      Some \<lparr>ae_role = Admin, ae_enabled = True, ae_mailbox_proven = False\<rparr>" by (simp add: bootstrap_policy_def Let_def)
  have "\<exists>d2. resolve ?pe alice d1 = (Inr (Some \<lparr>de_admission = new_admission (stable_owner_id ?pe ?me) owner, de_role = Admin\<rparr>), d2)"
    by (simp add: resolve_def locked_def rp rb av provenance_invalid_def m of' us mb owner write_bindings_def replace_file_def
        MAX_POLICY_FILE_BYTES_def Let_def)
  then obtain d2 where r: "resolve ?pe alice d1 = (Inr (Some \<lparr>de_admission = new_admission (stable_owner_id ?pe ?me) owner, de_role = Admin\<rparr>), d2)"
    by blast
  have "\<exists>m. read_bindings d2 = Inl m"
  proof (rule admission_with_shared_owner [OF r inv refl])
    show "bound_owner d1 (binding_key ?bob) = Some (ao_id (ad_owner (de_admission \<lparr>de_admission = new_admission (stable_owner_id ?pe ?me) owner, de_role = Admin\<rparr>)))"
      using rb fb by (auto simp: bound_owner_def current_bindings_def read_bindings_iff new_admission_def)
    show "binding_key ?bob \<noteq> binding_key \<lparr>sb_issuer = vi_issuer alice, sb_subject = vi_subject alice\<rparr>"
      using keys by (simp add: alice_def)
    show "bound_owner d1 (binding_key \<lparr>sb_issuer = vi_issuer alice, sb_subject = vi_subject alice\<rparr>) = None"
      using rb fb keys by (auto simp: bound_owner_def current_bindings_def read_bindings_iff alice_def)
  qed
  then show ?thesis by (simp add: Let_def b r)
qed

end
