(* ===== verification/Project_Sources.thy ===== *)
theory Project_Sources
  imports Ignore_Globs
begin

text \<open>
  Which files of a project are mined (discovery in \<open>crates/agentpalace-ingest/src/lib.rs\<close>): the denylist of
  secret-shaped names, the eligibility of a file, the walk over the file system with its stack and its one
  rule store, the enumeration of the tracked index, and their union for a branch. The file system below the
  root is a tree; names are text. What the walk reads besides the tree - ignore files (through links), the
  first bytes of a file, git's answers, the linked work trees - is the record \<open>source_env\<close>.
\<close>

section \<open>Eligibility\<close>

datatype secret_path_kind =
  DotEnv | Kubeconfig | SshPrivateKey | Keystore | Netrc | TerraformSecret | SecretsJson | LocalJson

primrec secret_text :: "secret_path_kind \<Rightarrow> rstr" where
  "secret_text DotEnv = lit ''.env / *.env''"
| "secret_text Kubeconfig = lit ''*.kubeconfig*''"
| "secret_text SshPrivateKey = lit ''id_rsa / id_ed25519 / id_ecdsa / id_dsa (SSH private key)''"
| "secret_text Keystore = lit ''*.pfx / *.p12 / *.jks (keystore)''"
| "secret_text Netrc = lit ''.npmrc / .netrc''"
| "secret_text TerraformSecret = lit ''*.tfstate / *.tfvars''"
| "secret_text SecretsJson = lit ''secrets*.json''"
| "secret_text LocalJson = lit ''*.local.json''"

definition SSH_PRIVATE_KEY_NAMES :: "rstr list" where
  "SSH_PRIVATE_KEY_NAMES = map lit [''id_rsa'', ''id_ed25519'', ''id_ecdsa'', ''id_dsa'']"

definition secret_path_kind_of :: "rstr \<Rightarrow> secret_path_kind option" where
  "secret_path_kind_of file_name =
     (let name = to_ascii_lowercase file_name in
      if name = lit ''.env'' \<or> starts_with name (lit ''.env.'') \<or> ends_with name (lit ''.env'') then Some DotEnv
      else if contains_str name (lit ''kubeconfig'') then Some Kubeconfig
      else if name \<in> set SSH_PRIVATE_KEY_NAMES then Some SshPrivateKey
      else if list_ex (\<lambda>ext. ends_with name ext) [lit ''.pfx'', lit ''.p12'', lit ''.jks''] then Some Keystore
      else if name = lit ''.npmrc'' \<or> name = lit ''.netrc'' then Some Netrc
      else if ends_with name (lit ''.tfstate'') \<or> ends_with name (lit ''.tfvars'') then Some TerraformSecret
      else if starts_with name (lit ''secrets'') \<and> ends_with name (lit ''.json'') then Some SecretsJson
      else if ends_with name (lit ''.local.json'') then Some LocalJson
      else None)"

datatype eligibility = Eligible | Excluded | Secret secret_path_kind

definition PROJECT_SKIP_FILES :: "rstr list" where
  "PROJECT_SKIP_FILES = map lit [''agentpalace.yaml'', ''agentpalace.yml'', ''mempalace.yaml'', ''mempalace.yml'',
     ''mempal.yaml'', ''mempal.yml'', ''.gitignore'', ''package-lock.json'', ''Cargo.lock'', ''yarn.lock'',
     ''pnpm-lock.yaml'', ''poetry.lock'', ''composer.lock'', ''Gemfile.lock'']"

definition PROJECT_READABLE_BASENAMES :: "rstr list" where
  "PROJECT_READABLE_BASENAMES = map lit [''Dockerfile'', ''Makefile'', ''Rakefile'', ''Gemfile'', ''Jenkinsfile'', ''Vagrantfile'']"

definition PROJECT_READABLE_EXTENSIONS :: "rstr list" where
  "PROJECT_READABLE_EXTENSIONS = map lit [
     ''.txt'', ''.md'', ''.html'', ''.xml'', ''.csv'', ''.json'', ''.yaml'', ''.yml'', ''.toml'', ''.ini'', ''.cfg'', ''.conf'',
     ''.properties'', ''.js'', ''.ts'', ''.jsx'', ''.tsx'', ''.css'', ''.vue'', ''.svelte'', ''.astro'', ''.rs'', ''.c'', ''.h'',
     ''.cc'', ''.cpp'', ''.cxx'', ''.hh'', ''.hpp'', ''.m'', ''.mm'', ''.zig'', ''.nim'', ''.java'', ''.kt'', ''.kts'', ''.scala'',
     ''.sbt'', ''.groovy'', ''.gradle'', ''.cs'', ''.fs'', ''.fsi'', ''.fsx'', ''.py'', ''.rb'', ''.php'', ''.lua'', ''.pl'', ''.pm'',
     ''.r'', ''.jl'', ''.dart'', ''.sh'', ''.bash'', ''.zsh'', ''.fish'', ''.ps1'', ''.psm1'', ''.psd1'', ''.bat'', ''.cmd'', ''.ex'',
     ''.exs'', ''.erl'', ''.hrl'', ''.clj'', ''.cljc'', ''.cljs'', ''.edn'', ''.swift'', ''.go'', ''.sql'', ''.tf'', ''.tfvars'',
     ''.hcl'', ''.proto'', ''.graphql'', ''.gql'', ''.dockerfile'']"

definition CONVO_EXTENSIONS :: "rstr list" where
  "CONVO_EXTENSIONS = map lit [''.txt'', ''.md'', ''.json'', ''.jsonl'']"

definition BINARY_SNIFF_BYTES :: nat where "BINARY_SNIFF_BYTES = 8192"
definition SHEBANG_READ_BYTES :: nat where "SHEBANG_READ_BYTES = 256"

definition project_skip_by_name :: "rstr \<Rightarrow> eligibility option" where
  "project_skip_by_name file_name =
     (case secret_path_kind_of file_name of
        Some kind \<Rightarrow> Some (Secret kind)
      | None \<Rightarrow> if file_name \<in> set PROJECT_SKIP_FILES then Some Excluded else None)"

text \<open>\<open>Path::file_name\<close> and \<open>Path::extension\<close> of a relative path.\<close>

definition path_name :: "rstr \<Rightarrow> rstr" where
  "path_name path = last (split_char 47 path)"

definition file_extension :: "rstr \<Rightarrow> rstr option" where
  "file_extension name =
     (if name = [46, 46] then None
      else case rsplit_once 46 name of
             None \<Rightarrow> None
           | Some (before, after) \<Rightarrow> if before = [] then None else Some after)"

record source_env =
  se_read :: "rstr \<Rightarrow> file_read"               \<comment> \<open>\<open>read_to_string\<close> of an ignore file\<close>
  se_bytes :: "rstr \<Rightarrow> nat list option"         \<comment> \<open>the bytes of a file, nothing if it cannot be read\<close>
  se_worktrees :: "rstr list"                   \<comment> \<open>the linked work trees below the root\<close>
  se_git :: git_answers
  se_ls_files :: "ingest_error + rstr"          \<comment> \<open>\<open>git ls-files -z\<close>\<close>

definition read_prefix :: "source_env \<Rightarrow> rstr \<Rightarrow> nat \<Rightarrow> nat list option" where
  "read_prefix env path limit = map_option (take limit) (se_bytes env path)"

definition looks_binary :: "source_env \<Rightarrow> rstr \<Rightarrow> bool" where
  "looks_binary env path = opt_holds (\<lambda>buf. 0 \<in> set buf) (read_prefix env path BINARY_SNIFF_BYTES)"

definition has_shebang :: "source_env \<Rightarrow> rstr \<Rightarrow> bool" where
  "has_shebang env path = opt_holds (\<lambda>buf. take 2 buf = [35, 33]) (read_prefix env path SHEBANG_READ_BYTES)"

definition project_eligibility :: "source_env \<Rightarrow> rstr \<Rightarrow> rstr \<Rightarrow> eligibility" where
  "project_eligibility env path file_name =
     (case project_skip_by_name file_name of
        Some e \<Rightarrow> e
      | None \<Rightarrow>
          let raw_ext = (case file_extension (path_name path) of Some x \<Rightarrow> x | None \<Rightarrow> []);
              has_ext = (raw_ext \<noteq> []);
              normalized_suffix = 46 # to_ascii_lowercase raw_ext;
              accepted = (has_ext \<and> normalized_suffix \<in> set PROJECT_READABLE_EXTENSIONS
                \<or> \<not> has_ext \<and> (file_name \<in> set PROJECT_READABLE_BASENAMES \<or> has_shebang env path))
          in if \<not> accepted \<or> looks_binary env path then Excluded else Eligible)"

definition conversation_eligibility :: "rstr \<Rightarrow> rstr \<Rightarrow> eligibility" where
  "conversation_eligibility path file_name =
     (let suffix = (case file_extension (path_name path) of Some x \<Rightarrow> x | None \<Rightarrow> [])
      in if 46 # to_ascii_lowercase suffix \<in> set CONVO_EXTENSIONS then Eligible else Excluded)"

section \<open>The walk\<close>

text \<open>What \<open>file_type\<close> says of an entry; \<open>RegularFile\<close> stands for everything that is neither a directory
  nor a symbolic link. A directory that cannot be listed is met only when it is visited.\<close>

datatype fs_node =
    Directory "(rstr \<times> fs_node) list"
  | UnreadableDirectory
  | RegularFile
  | SymbolicLink

record source_skip =
  sk_path :: rstr
  sk_reason :: rstr

definition record_secret_skip :: "eligibility \<Rightarrow> rstr \<Rightarrow> source_skip list \<Rightarrow> source_skip list" where
  "record_secret_skip e path skips =
     (case e of Secret kind \<Rightarrow> skips @ [\<lparr> sk_path = path, sk_reason = secret_text kind \<rparr>] | _ \<Rightarrow> skips)"

record walk_state =
  ws_matcher :: ignore_matcher
  ws_ignored :: nat
  ws_files :: "rstr list"
  ws_skips :: "source_skip list"

definition count_ignored :: "walk_state \<Rightarrow> walk_state" where
  "count_ignored st = st\<lparr>ws_ignored := ws_ignored st + 1\<rparr>"

text \<open>One entry of a directory; the directories to visit are on the stack, the last pushed first.\<close>

definition visit_entry ::
  "(rstr \<Rightarrow> rstr \<Rightarrow> eligibility) \<Rightarrow> rstr list \<Rightarrow> rstr list \<Rightarrow> rstr \<Rightarrow> rstr \<times> fs_node
     \<Rightarrow> (rstr \<times> fs_node) list \<times> walk_state \<Rightarrow> (rstr \<times> fs_node) list \<times> walk_state" where
  "visit_entry accept worktree_skip excluded_paths dir entry acc =
     (case acc of (stack, st) \<Rightarrow>
        let relative = join_path dir (fst entry);
            visit_dir = (if ignore_matches (ws_matcher st) relative True then (stack, count_ignored st)
                         else if relative \<in> set worktree_skip then (stack, count_ignored st)
                         else ((relative, snd entry) # stack, st))
        in case snd entry of
             Directory _ \<Rightarrow> visit_dir
           | UnreadableDirectory \<Rightarrow> visit_dir
           | SymbolicLink \<Rightarrow> (stack, count_ignored st)
           | RegularFile \<Rightarrow>
               if relative \<in> set excluded_paths then (stack, st)
               else if ignore_matches (ws_matcher st) relative False then (stack, count_ignored st)
               else (case accept relative (fst entry) of
                       Eligible \<Rightarrow> (stack, st\<lparr>ws_files := ws_files st @ [relative]\<rparr>)
                     | e \<Rightarrow> (stack, (count_ignored st)\<lparr>ws_skips := record_secret_skip e relative (ws_skips st)\<rparr>)))"

definition stack_size :: "(rstr \<times> fs_node) list \<Rightarrow> nat" where
  "stack_size stack = sum_list (map (\<lambda>(_, node). size node) stack)"

lemma size_Directory: "stack_size entries < size (Directory entries)"
  unfolding stack_size_def by (induction entries) auto

lemma visit_entry_size: "stack_size (fst (visit_entry accept wt ex dir entry acc)) \<le> size (snd entry) + stack_size (fst acc)"
  by (cases acc; cases "snd entry"; cases entry)
    (auto simp: visit_entry_def Let_def stack_size_def split: eligibility.splits)

lemma fold_visit_size:
  "stack_size (fst (fold (visit_entry accept wt ex dir) entries acc)) \<le> stack_size entries + stack_size (fst acc)"
proof (induction entries arbitrary: acc)
  case (Cons x xs)
  have "stack_size (fst (fold (visit_entry accept wt ex dir) xs (visit_entry accept wt ex dir x acc)))
      \<le> stack_size xs + stack_size (fst (visit_entry accept wt ex dir x acc))" by (rule Cons)
  also have "\<dots> \<le> stack_size xs + (size (snd x) + stack_size (fst acc))" using visit_entry_size [of accept wt ex dir x acc] by simp
  finally show ?case by (simp add: stack_size_def split_beta)
qed (simp add: stack_size_def)

function walk_stack ::
  "(rstr \<Rightarrow> file_read) \<Rightarrow> (rstr \<Rightarrow> rstr \<Rightarrow> eligibility) \<Rightarrow> rstr list \<Rightarrow> rstr list \<Rightarrow> (rstr \<times> fs_node) list \<Rightarrow> walk_state
     \<Rightarrow> ingest_error + walk_state" where
  "walk_stack read accept worktree_skip excluded_paths stack st =
     (case stack of
        [] \<Rightarrow> Inr st
      | (dir, node) # rest \<Rightarrow>
          (case load_directory read dir True (ws_matcher st) of
             (Inl e, _) \<Rightarrow> Inl e
           | (Inr _, m) \<Rightarrow>
               (case node of
                  Directory entries \<Rightarrow>
                    (case fold (visit_entry accept worktree_skip excluded_paths dir) entries (rest, st\<lparr>ws_matcher := m\<rparr>) of
                       (stack', st') \<Rightarrow> walk_stack read accept worktree_skip excluded_paths stack' st')
                | _ \<Rightarrow> Inl (Io dir))))"
  by pat_completeness auto
termination
proof (relation "measure (\<lambda>(_, _, _, _, stack, _). stack_size stack)")
  fix read :: "rstr \<Rightarrow> file_read" and accept :: "rstr \<Rightarrow> rstr \<Rightarrow> eligibility" and wt ex stack :: "rstr list"
  fix st x rest dir node u m entries stack' st'
  fix stack :: "(rstr \<times> fs_node) list" and st :: walk_state
  assume *: "stack = x # rest" "(dir, node) = x" "node = Directory entries"
    "(stack', st') = fold (visit_entry accept wt ex dir) entries (rest, st\<lparr>ws_matcher := m\<rparr>)"
  have "stack_size stack' \<le> stack_size entries + stack_size rest"
    using fold_visit_size [of accept wt ex dir entries "(rest, st\<lparr>ws_matcher := m\<rparr>)"] by (simp flip: *(4))
  moreover have "stack_size stack = size (Directory entries) + stack_size rest"
    unfolding *(1) *(2) [symmetric] *(3) by (simp add: stack_size_def)
  ultimately have "stack_size stack' < stack_size stack" using size_Directory [of entries] by linarith
  then show "((read, accept, wt, ex, stack', st'), read, accept, wt, ex, stack, st)
      \<in> measure (\<lambda>(_, _, _, _, stack, _). stack_size stack)" by simp
qed auto

declare walk_stack.simps [simp del]

record discovery_report =
  dr_files :: "rstr list"
  dr_ignored :: nat
  dr_skips :: "source_skip list"
  dr_complete :: bool

definition discover_files ::
  "source_env \<Rightarrow> bool \<Rightarrow> bool \<Rightarrow> rstr list option \<Rightarrow> (rstr \<Rightarrow> rstr \<Rightarrow> eligibility) \<Rightarrow> fs_node \<Rightarrow> ingest_error + discovery_report" where
  "discover_files env skip_linked_worktrees repo_excludes excluded_paths accept root =
     (case (if repo_excludes then load_repo_excludes (se_git env) new_matcher else (Inr (), new_matcher)) of
        (Inl e, _) \<Rightarrow> Inl e
      | (Inr _, m) \<Rightarrow>
          bindE (walk_stack (se_read env) accept (if skip_linked_worktrees then se_worktrees env else [])
                   (case excluded_paths of Some ps \<Rightarrow> ps | None \<Rightarrow> []) [([], root)]
                   \<lparr> ws_matcher = m, ws_ignored = 0, ws_files = [], ws_skips = [] \<rparr>)
            (\<lambda>st. Inr \<lparr> dr_files = sort (ws_files st), dr_ignored = ws_ignored st, dr_skips = ws_skips st, dr_complete = True \<rparr>))"

section \<open>The tracked index\<close>

datatype file_kind = RegularKind | SymlinkKind | OtherKind

text \<open>The directories above the entries, ascending as \<open>PathBuf\<close> orders them: by their components.\<close>

fun parent_dirs :: "rstr list \<Rightarrow> rstr list list" where
  "parent_dirs cs = (if length cs \<le> 1 then [] else butlast cs # parent_dirs (butlast cs))"

declare parent_dirs.simps [simp del]

definition index_scopes :: "rstr list \<Rightarrow> rstr list" where
  "index_scopes entries = map (join_on 47) (bset_of (concat (map (\<lambda>p. parent_dirs (split_char 47 p)) entries)))"

fun load_directories ::
  "(rstr \<Rightarrow> file_read) \<Rightarrow> bool \<Rightarrow> rstr list \<Rightarrow> ignore_matcher \<Rightarrow> (ingest_error + unit) \<times> ignore_matcher" where
  "load_directories read g [] m = (Inr (), m)"
| "load_directories read g (dir # dirs) m =
     (case load_directory read dir g m of (Inl e, m') \<Rightarrow> (Inl e, m') | (Inr _, m') \<Rightarrow> load_directories read g dirs m')"

definition index_entries :: "rstr \<Rightarrow> rstr list" where
  "index_entries out = filter (\<lambda>p. p \<noteq> []) (split_char 0 out)"

definition visit_index ::
  "source_env \<Rightarrow> (rstr \<Rightarrow> file_kind option) \<Rightarrow> ignore_matcher \<Rightarrow> rstr \<Rightarrow> discovery_report \<Rightarrow> discovery_report" where
  "visit_index env lstat m relative r =
     (case lstat relative of
        None \<Rightarrow> r\<lparr>dr_ignored := dr_ignored r + 1, dr_complete := False\<rparr>
      | Some kind \<Rightarrow>
          if kind = SymlinkKind \<or> kind \<noteq> RegularKind then r\<lparr>dr_ignored := dr_ignored r + 1\<rparr>
          else if relative \<in> set (se_worktrees env) then r\<lparr>dr_ignored := dr_ignored r + 1\<rparr>
          else if matches_with_ancestors m relative then r\<lparr>dr_ignored := dr_ignored r + 1\<rparr>
          else (case project_eligibility env relative (path_name relative) of
                  Eligible \<Rightarrow> r\<lparr>dr_files := dr_files r @ [relative]\<rparr>
                | e \<Rightarrow> r\<lparr>dr_ignored := dr_ignored r + 1, dr_skips := record_secret_skip e relative (dr_skips r)\<rparr>))"

definition discover_git_index_sources :: "source_env \<Rightarrow> (rstr \<Rightarrow> file_kind option) \<Rightarrow> ingest_error + discovery_report" where
  "discover_git_index_sources env lstat =
     bindE (se_ls_files env) (\<lambda>out.
       let entries = index_entries out in
       case load_directories (se_read env) False ([] # index_scopes entries) new_matcher of
         (Inl e, _) \<Rightarrow> Inl e
       | (Inr _, m) \<Rightarrow>
           let r = fold (visit_index env lstat m) entries \<lparr> dr_files = [], dr_ignored = 0, dr_skips = [], dr_complete = True \<rparr>
           in Inr (r\<lparr>dr_files := sort (dr_files r)\<rparr>))"

definition tracked_index_paths :: "source_env \<Rightarrow> ingest_error + rstr list" where
  "tracked_index_paths env = bindE (se_ls_files env) (\<lambda>out. Inr (index_entries out))"

section \<open>What is mined\<close>

definition discover_filesystem_sources :: "source_env \<Rightarrow> fs_node \<Rightarrow> ingest_error + discovery_report" where
  "discover_filesystem_sources env root = discover_files env True True None (project_eligibility env) root"

definition discover_project_sources ::
  "source_env \<Rightarrow> (rstr \<Rightarrow> file_kind option) \<Rightarrow> fs_node \<Rightarrow> ingest_error + discovery_report" where
  "discover_project_sources env lstat root =
     bindE (ga_is_backed (se_git env)) (\<lambda>backed.
       if backed then discover_git_index_sources env lstat else discover_filesystem_sources env root)"

text \<open>For a branch: the tracked sources and what a walk that knows every tracked path adds.\<close>

definition discover_project_branch_sources ::
  "source_env \<Rightarrow> (rstr \<Rightarrow> file_kind option) \<Rightarrow> fs_node \<Rightarrow> ingest_error + discovery_report" where
  "discover_project_branch_sources env lstat root =
     bindE (ga_is_backed (se_git env)) (\<lambda>backed.
       if backed
       then bindE (discover_git_index_sources env lstat) (\<lambda>tracked.
            bindE (tracked_index_paths env) (\<lambda>tracked_paths.
            bindE (discover_files env True True (Some tracked_paths) (project_eligibility env) root) (\<lambda>walk.
              Inr \<lparr> dr_files = sort (dr_files tracked @ dr_files walk), dr_ignored = dr_ignored tracked + dr_ignored walk,
                    dr_skips = dr_skips tracked @ dr_skips walk, dr_complete = dr_complete tracked \<and> dr_complete walk \<rparr>)))
       else discover_filesystem_sources env root)"

definition discover_conversation_files :: "source_env \<Rightarrow> fs_node \<Rightarrow> ingest_error + discovery_report" where
  "discover_conversation_files env root = discover_files env False False None conversation_eligibility root"

text \<open>\<open>git worktree list --porcelain -z\<close>: every work tree but the first.\<close>

fun linked_worktrees_from :: "bool \<Rightarrow> rstr list \<Rightarrow> rstr list" where
  "linked_worktrees_from is_first [] = []"
| "linked_worktrees_from is_first (part # parts) =
     (case strip_prefix (lit ''worktree '') part of
        None \<Rightarrow> linked_worktrees_from is_first parts
      | Some path \<Rightarrow> if is_first then linked_worktrees_from False parts else path # linked_worktrees_from False parts)"

definition parse_linked_worktree_paths :: "rstr \<Rightarrow> rstr list" where
  "parse_linked_worktree_paths output = bset_of (linked_worktrees_from True (split_char 0 output))"

end
