(* ===== verification/Ignore_Scopes.thy ===== *)
theory Ignore_Scopes
  imports Ignore_Globs_Props
begin

text \<open>
  The matcher of a walk holds the rules of every directory visited so far, in one list ordered by a counter
  that depends on the traversal. Below a directory only the rules of the directories above it apply: two
  matchers that have the same rules in those scopes, whatever their counters and their other rules, ignore
  the same paths there.
\<close>

section \<open>Rules without their counters\<close>

definition erase_order :: "ignore_rule \<Rightarrow> ignore_rule" where
  "erase_order r = r\<lparr>ig_order := 0\<rparr>"

definition precedence :: "ignore_rule \<Rightarrow> ignore_tier \<times> nat" where
  "precedence r = (ig_tier r, ig_scope_depth r)"

lemma erase_order_simps [simp]:
  "ig_pattern (erase_order r) = ig_pattern r" "ig_scope (erase_order r) = ig_scope r"
  "ig_scope_depth (erase_order r) = ig_scope_depth r" "ig_tier (erase_order r) = ig_tier r"
  "precedence (erase_order r) = precedence r"
  by (simp_all add: erase_order_def precedence_def)

lemma insort_key_agree:
  "(\<And>y. y \<in> set ys \<Longrightarrow> (f x \<le> f y) = (g x \<le> g y)) \<Longrightarrow> insort_key f x ys = insort_key g x ys"
proof (induction ys)
  case (Cons y ys)
  have "insort_key f x ys = insort_key g x ys" by (rule Cons.IH) (simp add: Cons.prems)
  moreover have "(f x \<le> f y) = (g x \<le> g y)" by (simp add: Cons.prems)
  ultimately show ?case by simp
qed simp

lemma rule_key_precedence:
  "precedence x = precedence y \<longrightarrow> ig_order x \<le> ig_order y \<Longrightarrow> (rule_key x \<le> rule_key y) = (precedence x \<le> precedence y)"
  by (cases "ig_tier x = ig_tier y"; cases "ig_scope_depth x = ig_scope_depth y")
    (auto simp add: rule_key_def precedence_def le_less)

text \<open>When the counters ascend along the list, sorting by the key with the counter is sorting stably
  by precedence.\<close>

lemma sort_by_precedence:
  "sorted_wrt (\<lambda>r s. precedence r = precedence s \<longrightarrow> ig_order r \<le> ig_order s) xs \<Longrightarrow>
   sort_key rule_key xs = sort_key precedence xs"
proof (induction xs)
  case (Cons x xs)
  have "sort_key rule_key xs = sort_key precedence xs" by (rule Cons.IH) (use Cons.prems in simp)
  moreover have "insort_key rule_key x (sort_key precedence xs) = insort_key precedence x (sort_key precedence xs)"
  proof (rule insort_key_agree, rule rule_key_precedence)
    fix y assume "y \<in> set (sort_key precedence xs)"
    then show "precedence x = precedence y \<longrightarrow> ig_order x \<le> ig_order y" using Cons.prems by simp
  qed
  ultimately show ?case by (simp only: sort_key_simps)
qed simp

lemma map_insort_key: "map f (insort_key (\<lambda>x. g (f x)) x xs) = insort_key g (f x) (map f xs)"
  by (induction xs) auto

lemma sort_key_map: "map f (sort_key (\<lambda>x. g (f x)) xs) = sort_key g (map f xs)"
  by (induction xs) (simp_all add: map_insort_key)

lemma erase_sort: "map erase_order (sort_key precedence xs) = sort_key precedence (map erase_order xs)"
  using sort_key_map [of erase_order precedence xs] by simp

section \<open>What loading adds\<close>

definition grown_by :: "ignore_matcher \<Rightarrow> ignore_matcher \<Rightarrow> ignore_rule list \<Rightarrow> bool" where
  "grown_by m m' rs \<longleftrightarrow>
     (\<exists>new. im_rules m' = im_rules m @ new \<and> map erase_order new = rs
        \<and> sorted_wrt (\<lambda>r s. ig_order r < ig_order s) new
        \<and> set new \<subseteq> {r. im_next_order m \<le> ig_order r \<and> ig_order r < im_next_order m'})
     \<and> im_next_order m \<le> im_next_order m' \<and> im_skip_dirs m' = im_skip_dirs m
     \<and> im_repo_offset m' = im_repo_offset m \<and> im_loaded m' = im_loaded m"

lemma grown_by_refl [simp]: "grown_by m m []"
  by (simp add: grown_by_def)

lemma grown_by_trans: "grown_by m m' rs \<Longrightarrow> grown_by m' m'' rs' \<Longrightarrow> grown_by m m'' (rs @ rs')"
  unfolding grown_by_def
proof (elim conjE exE, intro conjI)
  fix new new'
  assume *: "im_rules m' = im_rules m @ new" "map erase_order new = rs" "sorted_wrt (\<lambda>r s. ig_order r < ig_order s) new"
    "set new \<subseteq> {r. im_next_order m \<le> ig_order r \<and> ig_order r < im_next_order m'}"
    "im_rules m'' = im_rules m' @ new'" "map erase_order new' = rs'" "sorted_wrt (\<lambda>r s. ig_order r < ig_order s) new'"
    "set new' \<subseteq> {r. im_next_order m' \<le> ig_order r \<and> ig_order r < im_next_order m''}"
    "im_next_order m \<le> im_next_order m'" "im_next_order m' \<le> im_next_order m''"
  have "ig_order r < ig_order s" if "r \<in> set new" "s \<in> set new'" for r s
  proof -
    have "ig_order r < im_next_order m'" "im_next_order m' \<le> ig_order s" using that *(4,8) by auto
    then show ?thesis by simp
  qed
  then have "sorted_wrt (\<lambda>r s. ig_order r < ig_order s) (new @ new')"
    by (simp add: sorted_wrt_append *(3,7))
  moreover have "set (new @ new') \<subseteq> {r. im_next_order m \<le> ig_order r \<and> ig_order r < im_next_order m''}"
  proof
    fix r assume "r \<in> set (new @ new')"
    then consider "r \<in> set new" | "r \<in> set new'" by auto
    then show "r \<in> {r. im_next_order m \<le> ig_order r \<and> ig_order r < im_next_order m''}"
    proof cases
      case 1
      with *(4) have "im_next_order m \<le> ig_order r" "ig_order r < im_next_order m'" by auto
      with *(10) show ?thesis by simp
    next
      case 2
      with *(8) have "im_next_order m' \<le> ig_order r" "ig_order r < im_next_order m''" by auto
      with *(9) show ?thesis by simp
    qed
  qed
  ultimately show "\<exists>new. im_rules m'' = im_rules m @ new \<and> map erase_order new = rs @ rs'
      \<and> sorted_wrt (\<lambda>r s. ig_order r < ig_order s) new
      \<and> set new \<subseteq> {r. im_next_order m \<le> ig_order r \<and> ig_order r < im_next_order m''}"
    using *(1,2,5,6) by (intro exI [of _ "new @ new'"]) auto
qed simp_all

definition line_rules :: "rstr \<Rightarrow> nat \<Rightarrow> ignore_tier \<Rightarrow> rstr \<Rightarrow> ignore_rule list" where
  "line_rules scope depth tier line =
     (case parse_ignore_pattern line of
        None \<Rightarrow> []
      | Some pattern \<Rightarrow> [\<lparr> ig_pattern = pattern, ig_scope = scope, ig_scope_depth = depth, ig_tier = tier, ig_order = 0 \<rparr>])"

lemma push_pattern_grown: "grown_by m (push_pattern sc d t line m) (line_rules sc d t line)"
  by (auto simp: grown_by_def push_pattern_def line_rules_def erase_order_def split: option.splits)

lemma fold_push_grown: "grown_by m (fold (push_pattern sc d t) ls m) (concat (map (line_rules sc d t) ls))"
  by (induction ls arbitrary: m) (auto intro: grown_by_trans push_pattern_grown)

definition file_rules ::
  "(rstr \<Rightarrow> file_read) \<Rightarrow> rstr \<Rightarrow> rstr \<Rightarrow> nat \<Rightarrow> rstr \<times> ignore_tier \<Rightarrow> ignore_rule list" where
  "file_rules read dir sc d f =
     (case read (join_path dir (fst f)) of
        Contents body \<Rightarrow> concat (map (line_rules sc d (snd f)) (str_lines body))
      | _ \<Rightarrow> [])"

lemma load_ignore_files_grown:
  "load_ignore_files read dir sc d files m = (Inr u, m') \<Longrightarrow>
   grown_by m m' (concat (map (file_rules read dir sc d) files))"
proof (induction files arbitrary: m)
  case (Cons f files)
  obtain file_name tier where f: "f = (file_name, tier)" by (metis surj_pair)
  show ?case
  proof (cases "read (join_path dir file_name)")
    case (Contents body)
    have "grown_by (fold (push_pattern sc d tier) (str_lines body) m) m' (concat (map (file_rules read dir sc d) files))"
      by (rule Cons.IH) (use Cons.prems f Contents in simp)
    from grown_by_trans [OF fold_push_grown this] show ?thesis by (simp add: f file_rules_def [of read dir sc d "(file_name, tier)"] Contents)
  next
    case NotFound
    have "grown_by m m' (concat (map (file_rules read dir sc d) files))"
      by (rule Cons.IH) (use Cons.prems f NotFound in simp)
    then show ?thesis by (simp add: f file_rules_def [of read dir sc d "(file_name, tier)"] NotFound)
  qed (use Cons.prems f in simp)
qed simp

lemma load_ignore_files_result:
  "fst (load_ignore_files read dir sc d files m) = fst (load_ignore_files read dir sc d files m2)"
proof (induction files arbitrary: m m2)
  case (Cons f files)
  then show ?case by (cases f) (auto split: file_read.splits)
qed simp

definition dir_scope_depth :: "rstr \<Rightarrow> nat" where
  "dir_scope_depth scope = (if scope = [] then 0 else length (split_char 47 scope))"

definition dir_files :: "bool \<Rightarrow> (rstr \<times> ignore_tier) list" where
  "dir_files load_gitignore = (if load_gitignore then [(lit ''.gitignore'', WorktreeGitignore)] else [])
     @ [(lit ''.agentpalaceignore'', WorktreeAgentPalaceignore)]"

definition dir_rules :: "(rstr \<Rightarrow> file_read) \<Rightarrow> rstr \<Rightarrow> bool \<Rightarrow> ignore_rule list" where
  "dir_rules read dir load_gitignore =
     concat (map (file_rules read dir (replace_char 92 47 dir) (dir_scope_depth (replace_char 92 47 dir))) (dir_files load_gitignore))"

text \<open>Whether the ignore files of a directory can be read does not depend on the matcher.\<close>

definition dir_loads :: "(rstr \<Rightarrow> file_read) \<Rightarrow> bool \<Rightarrow> rstr \<Rightarrow> bool" where
  "dir_loads read load_gitignore dir \<longleftrightarrow>
     list_all (\<lambda>f. read (join_path dir (fst f)) \<noteq> ReadError) (dir_files load_gitignore)"

lemma load_ignore_files_loads:
  "(\<exists>m'. load_ignore_files read dir sc d files m = (Inr (), m')) \<longleftrightarrow>
   list_all (\<lambda>f. read (join_path dir (fst f)) \<noteq> ReadError) files"
proof (induction files arbitrary: m)
  case (Cons f files)
  then show ?case by (cases f) (auto split: file_read.splits)
qed simp

lemma load_directory_fresh:
  "dir \<notin> set (im_loaded m) \<Longrightarrow>
   load_directory read dir g m =
     (case load_ignore_files read dir (replace_char 92 47 dir) (dir_scope_depth (replace_char 92 47 dir)) (dir_files g)
             (m\<lparr>im_loaded := insort_insert dir (im_loaded m)\<rparr>) of
        (Inl e, m') \<Rightarrow> (Inl e, m') | (Inr _, m') \<Rightarrow> (Inr (), sort_rules m'))"
  by (simp add: load_directory_def dir_files_def dir_scope_depth_def Let_def del: load_ignore_files.simps)

lemma load_directory_loads:
  "dir \<notin> set (im_loaded m) \<Longrightarrow> (\<exists>m'. load_directory read dir g m = (Inr (), m')) \<longleftrightarrow> dir_loads read g dir"
  unfolding dir_loads_def
    load_ignore_files_loads [of read dir "replace_char 92 47 dir" "dir_scope_depth (replace_char 92 47 dir)" "dir_files g"
      "m\<lparr>im_loaded := insort_insert dir (im_loaded m)\<rparr>", symmetric]
  by (auto simp: load_directory_fresh split: prod.splits sum.splits)

section \<open>The rules in scope\<close>

definition in_view :: "rstr set \<Rightarrow> ignore_matcher \<Rightarrow> ignore_rule list" where
  "in_view ds m = map erase_order (filter (\<lambda>r. ig_scope r \<in> ds) (im_rules m))"

text \<open>Rules below a directory come from files of the work tree, and their scopes are loaded.\<close>

definition scopes_ok :: "ignore_matcher \<Rightarrow> bool" where
  "scopes_ok m \<longleftrightarrow> ordered_rules m
     \<and> set (im_rules m) \<subseteq> {r. if ig_scope r = [] then True
          else ig_tier r \<notin> {RepoExclude, GlobalExclude} \<and> ig_scope r \<in> replace_char 92 47 ` set (im_loaded m)}"

lemma dir_rules_scope:
  "r \<in> set (dir_rules read dir g) \<Longrightarrow> ig_scope r = replace_char 92 47 dir \<and> ig_tier r \<notin> {RepoExclude, GlobalExclude}"
  by (auto simp: dir_rules_def dir_files_def file_rules_def line_rules_def split: file_read.splits option.splits if_splits)

lemma sorted_then_grown:
  assumes m: "sorted (map rule_key (im_rules m))" "set (im_rules m) \<subseteq> {r. ig_order r < im_next_order m}"
    and new: "sorted_wrt (\<lambda>r s. ig_order r < ig_order s) new" "set new \<subseteq> {r. im_next_order m \<le> ig_order r}"
  shows "sorted_wrt (\<lambda>r s. precedence r = precedence s \<longrightarrow> ig_order r \<le> ig_order s) (im_rules m @ new)"
proof -
  have "sorted_wrt (\<lambda>r s. rule_key r \<le> rule_key s) (im_rules m)" using m(1) by (simp add: sorted_wrt_map)
  then have "sorted_wrt (\<lambda>r s. precedence r = precedence s \<longrightarrow> ig_order r \<le> ig_order s) (im_rules m)"
    by (rule sorted_wrt_mono_rel [rotated]) (auto simp: rule_key_def precedence_def)
  moreover have "sorted_wrt (\<lambda>r s. precedence r = precedence s \<longrightarrow> ig_order r \<le> ig_order s) new"
    using new(1) by (rule sorted_wrt_mono_rel [rotated]) simp
  moreover have "ig_order r \<le> ig_order s" if "r \<in> set (im_rules m)" "s \<in> set new" for r s
  proof -
    have "ig_order r < im_next_order m" "im_next_order m \<le> ig_order s" using that m(2) new(2) by auto
    then show ?thesis by simp
  qed
  ultimately show ?thesis by (simp add: sorted_wrt_append)
qed

lemma load_directory_view:
  assumes m: "scopes_ok m" and fresh: "dir \<notin> set (im_loaded m)" and l: "load_directory read dir g m = (Inr u, m')"
  shows "in_view ds m' = sort_key precedence (in_view ds m @ filter (\<lambda>r. ig_scope r \<in> ds) (dir_rules read dir g))"
    and "scopes_ok m'" and "set (im_loaded m') = insert dir (set (im_loaded m))"
    and "im_skip_dirs m' = im_skip_dirs m" and "im_repo_offset m' = im_repo_offset m"
proof -
  define m0 where "m0 = m\<lparr>im_loaded := insort_insert dir (im_loaded m)\<rparr>"
  from l fresh obtain m1 where m1: "load_ignore_files read dir (replace_char 92 47 dir)
      (dir_scope_depth (replace_char 92 47 dir)) (dir_files g) m0 = (Inr (), m1)" and m': "m' = sort_rules m1"
    by (auto simp: load_directory_fresh m0_def split: prod.splits sum.splits)
  from load_ignore_files_grown [OF m1] obtain new where
    new: "im_rules m1 = im_rules m @ new" "map erase_order new = dir_rules read dir g"
      "sorted_wrt (\<lambda>r s. ig_order r < ig_order s) new" "set new \<subseteq> {r. im_next_order m \<le> ig_order r}"
    and keep: "im_loaded m1 = im_loaded m0" "im_skip_dirs m1 = im_skip_dirs m" "im_repo_offset m1 = im_repo_offset m"
    by (fastforce simp: grown_by_def m0_def dir_rules_def)
  have o: "sorted (map rule_key (im_rules m))" "set (im_rules m) \<subseteq> {r. ig_order r < im_next_order m}"
    using m by (auto simp: scopes_ok_def ordered_rules_def)
  have s: "im_rules m' = sort_key precedence (im_rules m @ new)"
    using sort_by_precedence [OF sorted_then_grown [OF o new(3,4)]] by (simp add: m' sort_rules_def new(1))
  have "map erase_order (filter (\<lambda>r. ig_scope r \<in> ds) new) = filter (\<lambda>r. ig_scope r \<in> ds) (map erase_order new)"
    by (simp add: filter_map o_def)
  then show "in_view ds m' = sort_key precedence (in_view ds m @ filter (\<lambda>r. ig_scope r \<in> ds) (dir_rules read dir g))"
    by (simp add: in_view_def s filter_sort erase_sort new(2))
  show loaded: "set (im_loaded m') = insert dir (set (im_loaded m))"
    by (simp add: m' sort_rules_def keep(1) m0_def set_insort_insert)
  show "im_skip_dirs m' = im_skip_dirs m" "im_repo_offset m' = im_repo_offset m"
    by (simp_all add: m' sort_rules_def keep)
  have "ordered_rules m'"
    using load_rules_ordered [of m read "Load_Directory dir g" u m'] m l by (simp add: scopes_ok_def)
  moreover have "set (im_rules m') \<subseteq> {r. if ig_scope r = [] then True
      else ig_tier r \<notin> {RepoExclude, GlobalExclude} \<and> ig_scope r \<in> replace_char 92 47 ` set (im_loaded m')}"
  proof
    fix r
    assume "r \<in> set (im_rules m')"
    then consider "r \<in> set (im_rules m)" | "r \<in> set new" by (auto simp: s)
    then show "r \<in> {r. if ig_scope r = [] then True
      else ig_tier r \<notin> {RepoExclude, GlobalExclude} \<and> ig_scope r \<in> replace_char 92 47 ` set (im_loaded m')}"
    proof cases
      case 1
      then show ?thesis using m by (auto simp: scopes_ok_def loaded)
    next
      case 2
      then have "erase_order r \<in> set (dir_rules read dir g)" using new(2) by (metis image_eqI list.set_map)
      from dir_rules_scope [OF this] show ?thesis by (auto simp: loaded)
    qed
  qed
  ultimately show "scopes_ok m'" by (simp add: scopes_ok_def)
qed

lemma in_view_sorted: "scopes_ok m \<Longrightarrow> sort_key precedence (in_view ds m) = in_view ds m"
proof -
  assume "scopes_ok m"
  then have "sorted_wrt (\<lambda>r s. rule_key r \<le> rule_key s) (im_rules m)"
    by (simp add: scopes_ok_def ordered_rules_def sorted_wrt_map)
  then have "sorted_wrt (\<lambda>r s. precedence r \<le> precedence s) (im_rules m)"
    by (rule sorted_wrt_mono_rel [rotated]) (auto simp: rule_key_def precedence_def less_eq_prod_def less_prod_def)
  then have "sorted_wrt (\<lambda>r s. precedence r \<le> precedence s) (filter (\<lambda>r. ig_scope r \<in> ds) (im_rules m))"
    by (rule sorted_wrt_filter)
  then have "sorted (map precedence (in_view ds m))" by (simp add: in_view_def sorted_wrt_map)
  then show ?thesis by (rule sort_key_id_if_sorted)
qed

section \<open>Matchers that agree\<close>

lemma fold_erased: "fold (apply_rule m path is_dir) (map erase_order rs) acc = fold (apply_rule m path is_dir) rs acc"
proof (induction rs arbitrary: acc)
  case (Cons r rs)
  have "apply_rule m path is_dir (erase_order r) acc = apply_rule m path is_dir r acc" for acc
    by (simp add: apply_rule_def scope_relative_def rule_candidate_def cong: option.case_cong if_cong)
  then show ?case by (simp only: list.map fold_simps Cons.IH)
qed simp

lemma fold_in_view:
  assumes "\<And>r. r \<in> set (im_rules m) \<Longrightarrow> rule_applies m path is_dir r \<Longrightarrow> ig_scope r \<in> ds"
  shows "fold (apply_rule m path is_dir) (im_rules m) acc = fold (apply_rule m path is_dir) (in_view ds m) acc"
proof -
  have "filter (rule_applies m path is_dir) (im_rules m)
      = filter (rule_applies m path is_dir) (filter (\<lambda>r. ig_scope r \<in> ds) (im_rules m))"
    using assms by (auto simp: filter_filter intro!: filter_cong)
  then show ?thesis unfolding in_view_def fold_erased by (simp only: fold_apply_rule)
qed

lemma apply_rule_offset:
  "im_repo_offset m = im_repo_offset m2 \<Longrightarrow> apply_rule m path is_dir = apply_rule m2 path is_dir"
  by (rule ext)+ (simp add: apply_rule_def rule_candidate_def)

text \<open>The scopes that can apply to a path: the root and the directories above it.\<close>

lemma applicable_scope:
  assumes "scopes_ok m" "r \<in> set (im_rules m)" "rule_applies m path is_dir r" "ig_scope r \<noteq> []"
  shows "\<exists>rest. path = ig_scope r @ 47 # rest"
proof -
  have "ig_tier r \<notin> {RepoExclude, GlobalExclude}" using assms by (auto simp: scopes_ok_def)
  with assms(3,4) show ?thesis
    by (auto simp: rule_applies_def rule_candidate_def scope_relative_def strip_prefix_Some split: option.splits)
qed

lemma ignore_matches_agree:
  assumes "scopes_ok m" "scopes_ok m2" "im_skip_dirs m = im_skip_dirs m2" "im_repo_offset m = im_repo_offset m2"
    and "in_view ds m = in_view ds m2" and "[] \<in> ds"
    and ds: "\<And>sc rest. replace_char 92 47 path = sc @ 47 # rest \<Longrightarrow> sc \<in> replace_char 92 47 ` (set (im_loaded m) \<union> set (im_loaded m2)) \<Longrightarrow> sc \<in> ds"
  shows "ignore_matches m path is_dir = ignore_matches m2 path is_dir"
proof -
  let ?p = "replace_char 92 47 path"
  have view: "ig_scope r \<in> ds"
    if "scopes_ok n" "set (im_loaded n) \<subseteq> set (im_loaded m) \<union> set (im_loaded m2)"
      "r \<in> set (im_rules n)" "rule_applies n ?p is_dir r" for n r
  proof (cases "ig_scope r = []")
    case False
    with that(1,3) have "ig_scope r \<in> replace_char 92 47 ` set (im_loaded n)" by (auto simp: scopes_ok_def)
    with that(2) have "ig_scope r \<in> replace_char 92 47 ` (set (im_loaded m) \<union> set (im_loaded m2))" by blast
    with applicable_scope [OF that(1,3,4) False] ds show ?thesis by blast
  qed (simp add: assms(6))
  have "fold (apply_rule m ?p is_dir) (im_rules m) (False, False) = fold (apply_rule m2 ?p is_dir) (im_rules m2) (False, False)"
  proof -
    have "fold (apply_rule m ?p is_dir) (im_rules m) (False, False) = fold (apply_rule m ?p is_dir) (in_view ds m) (False, False)"
      by (rule fold_in_view) (rule view [OF assms(1)]; simp)
    moreover have "fold (apply_rule m2 ?p is_dir) (im_rules m2) (False, False) = fold (apply_rule m2 ?p is_dir) (in_view ds m2) (False, False)"
      by (rule fold_in_view) (rule view [OF assms(2)]; simp)
    ultimately show ?thesis by (simp only: assms(5) apply_rule_offset [OF assms(4)])
  qed
  then show ?thesis by (simp add: ignore_matches_def Let_def matches_skip_dir_def assms(3))
qed

end
