(* ===== verification/Project_Sources_Walk.thy ===== *)
theory Project_Sources_Walk
  imports Project_Sources Ignore_Scopes "HOL-Library.Sublist"
begin

text \<open>
  What a walk of the file system selects, said of paths: every directory above a file is kept, and so is the
  file, each judged by a matcher that has loaded nothing but the ignore files of the directories above. The
  walk with its stack and its one matcher for all directories selects the same files, in whatever order it
  visits the directories.
\<close>

section \<open>Paths\<close>

definition good_name :: "rstr \<Rightarrow> bool" where
  "good_name n \<longleftrightarrow> n \<noteq> [] \<and> 47 \<notin> set n \<and> 92 \<notin> set n"

fun wf_tree :: "fs_node \<Rightarrow> bool" where
  "wf_tree (Directory entries) \<longleftrightarrow>
     distinct (map fst entries) \<and> list_all (\<lambda>e. good_name (fst e)) entries \<and> list_all (\<lambda>e. wf_tree (snd e)) entries"
| "wf_tree _ \<longleftrightarrow> True"

fun node_at :: "fs_node \<Rightarrow> rstr list \<Rightarrow> fs_node option" where
  "node_at node [] = Some node"
| "node_at node (n # ns) =
     (case node of
        Directory entries \<Rightarrow> (case map_of entries n of None \<Rightarrow> None | Some child \<Rightarrow> node_at child ns)
      | _ \<Rightarrow> None)"

primrec is_dir_node :: "fs_node \<Rightarrow> bool" where
  "is_dir_node (Directory _) = True"
| "is_dir_node UnreadableDirectory = True"
| "is_dir_node RegularFile = False"
| "is_dir_node SymbolicLink = False"

definition path_text :: "rstr list \<Rightarrow> rstr" where
  "path_text p = join_on 47 p"

lemma node_at_append:
  "node_at node (p @ q) = (case node_at node p of None \<Rightarrow> None | Some n \<Rightarrow> node_at n q)"
  by (induction node p rule: node_at.induct) (auto split: fs_node.splits option.splits)

lemma node_at_wf: "wf_tree node \<Longrightarrow> node_at node p = Some n \<Longrightarrow> wf_tree n \<and> list_all good_name p"
proof (induction node p rule: node_at.induct)
  case (2 node n' ns)
  then obtain entries child where e: "node = Directory entries" "map_of entries n' = Some child" "node_at child ns = Some n"
    by (auto split: fs_node.splits option.splits)
  then have "(n', child) \<in> set entries" by (simp add: map_of_SomeD)
  with 2 e have "wf_tree child" "good_name n'" by (auto simp: list_all_iff)
  with 2 e show ?case by auto
qed simp

lemma good_path_parts: "list_all good_name p \<Longrightarrow> n \<in> set p \<Longrightarrow> 47 \<notin> set n"
  by (auto simp: list_all_iff good_name_def)

lemma path_text_empty: "list_all good_name p \<Longrightarrow> path_text p = [] \<longleftrightarrow> p = []"
  unfolding path_text_def by (induction "47 :: nat" p rule: join_on.induct) (auto simp: good_name_def)

lemma split_path_text: "list_all good_name p \<Longrightarrow> p \<noteq> [] \<Longrightarrow> split_char 47 (path_text p) = p"
  unfolding path_text_def by (rule split_join) (auto dest: good_path_parts)

lemma path_text_inj: "list_all good_name p \<Longrightarrow> list_all good_name q \<Longrightarrow> path_text p = path_text q \<Longrightarrow> p = q"
  by (metis path_text_empty split_path_text)

lemma join_on_snoc: "p \<noteq> [] \<Longrightarrow> join_on d (p @ [n]) = join_on d p @ d # n"
  by (induction d p rule: join_on.induct) simp_all

lemma path_text_snoc: "list_all good_name p \<Longrightarrow> join_path (path_text p) n = path_text (p @ [n])"
  by (cases "p = []") (simp_all add: join_path_def path_text_empty, simp_all add: path_text_def join_on_snoc)

lemma path_text_plain: "list_all good_name p \<Longrightarrow> replace_char 92 47 (path_text p) = path_text p"
  unfolding path_text_def replace_char_def
  by (induction "47 :: nat" p rule: join_on.induct) (auto simp: good_name_def intro: map_idI)

lemma path_text_prefix:
  "list_all good_name p \<Longrightarrow> list_all good_name q \<Longrightarrow> q \<noteq> [] \<Longrightarrow> path_text p = path_text q @ 47 # rest \<Longrightarrow> strict_prefix q p"
proof -
  assume *: "list_all good_name p" "list_all good_name q" "q \<noteq> []" "path_text p = path_text q @ 47 # rest"
  then have "p \<noteq> []" by (auto simp: path_text_def)
  with * have "p = q @ split_char 47 rest" by (metis split_char_infix split_path_text)
  then show "strict_prefix q p" by (auto simp: strict_prefix_def)
qed

section \<open>Selection by path\<close>

record walk_env =
  we_read :: "rstr \<Rightarrow> file_read"
  we_accept :: "rstr \<Rightarrow> rstr \<Rightarrow> eligibility"
  we_worktrees :: "rstr list"
  we_excluded :: "rstr list"
  we_base :: ignore_matcher
  we_root :: fs_node

definition dirs_above :: "rstr list \<Rightarrow> rstr list" where
  "dirs_above p = map (\<lambda>i. path_text (take i p)) [0..<length p]"

definition matcher_at :: "walk_env \<Rightarrow> rstr list \<Rightarrow> ignore_matcher" where
  "matcher_at w p = snd (load_directories (we_read w) True (dirs_above p) (we_base w))"

definition kept_dir :: "walk_env \<Rightarrow> rstr list \<Rightarrow> bool" where
  "kept_dir w p \<longleftrightarrow> \<not> ignore_matches (matcher_at w p) (path_text p) True \<and> path_text p \<notin> set (we_worktrees w)"

definition visited :: "walk_env \<Rightarrow> rstr list \<Rightarrow> bool" where
  "visited w p \<longleftrightarrow> opt_holds is_dir_node (node_at (we_root w) p)
     \<and> list_all (\<lambda>i. kept_dir w (take i p)) [1..<length p + 1]"

definition readable :: "walk_env \<Rightarrow> rstr list \<Rightarrow> bool" where
  "readable w p \<longleftrightarrow> node_at (we_root w) p \<noteq> Some UnreadableDirectory \<and> dir_loads (we_read w) True (path_text p)"

definition reached_file :: "walk_env \<Rightarrow> rstr list \<Rightarrow> bool" where
  "reached_file w p \<longleftrightarrow> p \<noteq> [] \<and> visited w (butlast p) \<and> node_at (we_root w) p = Some RegularFile
     \<and> path_text p \<notin> set (we_excluded w) \<and> \<not> ignore_matches (matcher_at w p) (path_text p) False"

definition mined :: "walk_env \<Rightarrow> rstr list \<Rightarrow> bool" where
  "mined w p \<longleftrightarrow> reached_file w p \<and> we_accept w (path_text p) (last p) = Eligible"

definition withheld :: "walk_env \<Rightarrow> rstr list \<Rightarrow> secret_path_kind \<Rightarrow> bool" where
  "withheld w p kind \<longleftrightarrow> reached_file w p \<and> we_accept w (path_text p) (last p) = Secret kind"

definition wf_walk :: "walk_env \<Rightarrow> bool" where
  "wf_walk w \<longleftrightarrow> wf_tree (we_root w) \<and> scopes_ok (we_base w) \<and> im_loaded (we_base w) = []"

lemma dirs_above_snoc: "dirs_above (p @ [n]) = dirs_above p @ [path_text p]"
  by (simp add: dirs_above_def)

lemma below_snoc: "{q. strict_prefix q (p @ [n])} = insert p {q. strict_prefix q p}"
  by (auto simp: strict_prefix_def)

lemma set_dirs_above: "set (dirs_above p) = path_text ` {q. strict_prefix q p}"
proof (induction p rule: rev_induct)
  case Nil
  then show ?case by (simp add: dirs_above_def)
next
  case (snoc n p)
  then show ?case by (simp add: dirs_above_snoc below_snoc)
qed

lemma visited_good: "wf_walk w \<Longrightarrow> visited w p \<Longrightarrow> list_all good_name p"
  by (auto simp: wf_walk_def visited_def opt_holds_def split: option.splits dest: node_at_wf)

lemma visited_snoc:
  "visited w (p @ [n]) \<longleftrightarrow> visited w p \<and> kept_dir w (p @ [n])
     \<and> opt_holds is_dir_node (node_at (we_root w) (p @ [n]))"
proof -
  have u: "[1..<Suc (Suc (length p))] = [1..<Suc (length p)] @ [Suc (length p)]" by simp
  have "opt_holds is_dir_node (node_at (we_root w) (p @ [n])) \<Longrightarrow> opt_holds is_dir_node (node_at (we_root w) p)"
    by (auto simp: node_at_append opt_holds_def split: option.splits fs_node.splits)
  moreover have "list_all (\<lambda>i. kept_dir w (take i (p @ [n]))) [1..<Suc (length p)] = list_all (\<lambda>i. kept_dir w (take i p)) [1..<Suc (length p)]"
    by (auto simp: list_all_iff)
  ultimately show ?thesis unfolding visited_def by (auto simp: u)
qed

lemma visited_prefix: "prefix q p \<Longrightarrow> visited w p \<Longrightarrow> visited w q"
proof (induction p rule: rev_induct)
  case (snoc n p)
  then show ?case by (auto simp: visited_snoc)
qed simp

lemma load_directories_append:
  "load_directories read g (ds @ es) m =
     (case load_directories read g ds m of (Inl e, m') \<Rightarrow> (Inl e, m') | (Inr _, m') \<Rightarrow> load_directories read g es m')"
  by (induction read g ds m rule: load_directories.induct) (auto split: prod.splits sum.splits)

section \<open>The matcher of a path\<close>

definition scope_set :: "rstr list \<Rightarrow> rstr set" where
  "scope_set p = insert [] (path_text ` {q. strict_prefix q p})"

definition same_base :: "walk_env \<Rightarrow> ignore_matcher \<Rightarrow> bool" where
  "same_base w m \<longleftrightarrow> scopes_ok m \<and> im_skip_dirs m = im_skip_dirs (we_base w) \<and> im_repo_offset m = im_repo_offset (we_base w)"

lemma load_at:
  assumes "same_base w m" "path_text p \<notin> set (im_loaded m)" "dir_loads (we_read w) True (path_text p)"
  obtains m' where "load_directory (we_read w) (path_text p) True m = (Inr (), m')" "same_base w m'"
    "set (im_loaded m') = insert (path_text p) (set (im_loaded m))"
    "\<And>ds. in_view ds m' = sort_key precedence (in_view ds m @ filter (\<lambda>r. ig_scope r \<in> ds) (dir_rules (we_read w) (path_text p) True))"
proof -
  from load_directory_loads [OF assms(2), of "we_read w" True] assms(3)
  obtain m' where l: "load_directory (we_read w) (path_text p) True m = (Inr (), m')" by blast
  note v = load_directory_view [OF _ assms(2) l]
  show thesis
  proof (rule that [OF l])
    show "same_base w m'" using assms(1) v(2,4,5) by (simp add: same_base_def)
  qed (use assms(1) v(1,3) in \<open>auto simp: same_base_def\<close>)
qed

lemma matcher_at_loads:
  "wf_walk w \<Longrightarrow> list_all good_name p \<Longrightarrow> (\<And>q. strict_prefix q p \<Longrightarrow> dir_loads (we_read w) True (path_text q)) \<Longrightarrow>
   load_directories (we_read w) True (dirs_above p) (we_base w) = (Inr (), matcher_at w p)
   \<and> same_base w (matcher_at w p) \<and> set (im_loaded (matcher_at w p)) = path_text ` {q. strict_prefix q p}"
proof (induction p rule: rev_induct)
  case Nil
  then show ?case by (simp add: dirs_above_def matcher_at_def same_base_def wf_walk_def)
next
  case (snoc n p)
  have below: "strict_prefix q p \<Longrightarrow> strict_prefix q (p @ [n])" for q by (auto simp: strict_prefix_def)
  have p: "load_directories (we_read w) True (dirs_above p) (we_base w) = (Inr (), matcher_at w p)"
    "same_base w (matcher_at w p)" "set (im_loaded (matcher_at w p)) = path_text ` {q. strict_prefix q p}"
    using snoc.IH [OF snoc.prems(1)] snoc.prems(2,3) below by auto
  have "path_text p \<notin> path_text ` {q. strict_prefix q p}"
  proof
    assume "path_text p \<in> path_text ` {q. strict_prefix q p}"
    then obtain q where q: "strict_prefix q p" "path_text p = path_text q" by blast
    then have "list_all good_name q" using snoc.prems(2) by (auto simp: strict_prefix_def prefix_def)
    with q snoc.prems(2) path_text_inj [of p q] show False by simp
  qed
  then have fresh: "path_text p \<notin> set (im_loaded (matcher_at w p))" by (simp add: p(3))
  have "dir_loads (we_read w) True (path_text p)" by (rule snoc.prems(3)) (simp add: strict_prefix_def)
  from load_at [OF p(2) fresh this] obtain m' where m': "load_directory (we_read w) (path_text p) True (matcher_at w p) = (Inr (), m')"
    "same_base w m'" "set (im_loaded m') = insert (path_text p) (set (im_loaded (matcher_at w p)))" by metis
  have l: "load_directories (we_read w) True (dirs_above (p @ [n])) (we_base w) = (Inr (), m')"
    by (simp add: dirs_above_snoc load_directories_append p(1) m'(1))
  then have "matcher_at w (p @ [n]) = m'" by (simp add: matcher_at_def)
  then show ?case using l m'(2,3) p(3) by (simp add: below_snoc)
qed

section \<open>One directory\<close>

text \<open>What a directory contributes: its subdirectories to visit, its files and its withheld secrets.\<close>

definition entry_dirs :: "walk_env \<Rightarrow> ignore_matcher \<Rightarrow> rstr \<Rightarrow> (rstr \<times> fs_node) list \<Rightarrow> (rstr \<times> fs_node) list" where
  "entry_dirs w m dir es =
     filter (\<lambda>e. is_dir_node (snd e) \<and> \<not> ignore_matches m (join_path dir (fst e)) True
                 \<and> join_path dir (fst e) \<notin> set (we_worktrees w)) es"

definition entry_files :: "walk_env \<Rightarrow> ignore_matcher \<Rightarrow> rstr \<Rightarrow> (rstr \<times> fs_node) list \<Rightarrow> (rstr \<times> fs_node) list" where
  "entry_files w m dir es =
     filter (\<lambda>e. snd e = RegularFile \<and> join_path dir (fst e) \<notin> set (we_excluded w)
                 \<and> \<not> ignore_matches m (join_path dir (fst e)) False) es"

abbreviation entry_accept :: "walk_env \<Rightarrow> rstr \<Rightarrow> rstr \<times> fs_node \<Rightarrow> eligibility" where
  "entry_accept w dir e \<equiv> we_accept w (join_path dir (fst e)) (fst e)"

lemma fold_visit:
  "fold (visit_entry (we_accept w) (we_worktrees w) (we_excluded w) dir) es (stack, st) = (stack', st') \<Longrightarrow>
     stack' = rev (map (\<lambda>e. (join_path dir (fst e), snd e)) (entry_dirs w (ws_matcher st) dir es)) @ stack
     \<and> ws_matcher st' = ws_matcher st
     \<and> ws_files st' = ws_files st @ map (\<lambda>e. join_path dir (fst e))
         (filter (\<lambda>e. entry_accept w dir e = Eligible) (entry_files w (ws_matcher st) dir es))
     \<and> ws_skips st' = ws_skips st @ concat (map (\<lambda>e. record_secret_skip (entry_accept w dir e) (join_path dir (fst e)) [])
         (entry_files w (ws_matcher st) dir es))"
proof (induction es arbitrary: stack st)
  case Nil
  then show ?case by (simp add: entry_dirs_def entry_files_def)
next
  case (Cons e es)
  obtain stack1 st1 where v: "visit_entry (we_accept w) (we_worktrees w) (we_excluded w) dir e (stack, st) = (stack1, st1)" by fastforce
  have r: "record_secret_skip a p xs = xs @ record_secret_skip a p []" for a p xs
    by (cases a) (simp_all add: record_secret_skip_def)
  from Cons.prems v have "fold (visit_entry (we_accept w) (we_worktrees w) (we_excluded w) dir) es (stack1, st1) = (stack', st')" by simp
  note IH = Cons.IH [OF this]
  show ?case
  proof (cases "snd e")
    case (Directory ds)
    with v IH show ?thesis
      by (auto simp: visit_entry_def Let_def entry_dirs_def entry_files_def count_ignored_def split: if_splits)
  next
    case UnreadableDirectory
    with v IH show ?thesis
      by (auto simp: visit_entry_def Let_def entry_dirs_def entry_files_def count_ignored_def split: if_splits)
  next
    case SymbolicLink
    with v IH show ?thesis by (auto simp: visit_entry_def Let_def entry_dirs_def entry_files_def count_ignored_def)
  next
    case RegularFile
    consider (left_out) "join_path dir (fst e) \<in> set (we_excluded w) \<or> ignore_matches (ws_matcher st) (join_path dir (fst e)) False"
      | (taken) "join_path dir (fst e) \<notin> set (we_excluded w)" "\<not> ignore_matches (ws_matcher st) (join_path dir (fst e)) False"
      by blast
    then show ?thesis
    proof cases
      case left_out
      with RegularFile v IH show ?thesis
        by (auto simp: visit_entry_def Let_def entry_dirs_def entry_files_def count_ignored_def split: if_splits)
    next
      case taken
      with RegularFile v IH show ?thesis
        by (cases "entry_accept w dir e")
          (auto simp: visit_entry_def Let_def entry_dirs_def entry_files_def count_ignored_def record_secret_skip_def)
    qed
  qed
qed

section \<open>The stack\<close>

definition stack_of :: "walk_env \<Rightarrow> rstr list list \<Rightarrow> (rstr \<times> fs_node) list" where
  "stack_of w S = map (\<lambda>s. (path_text s, the (node_at (we_root w) s))) S"

definition unrelated :: "rstr list list \<Rightarrow> bool" where
  "unrelated S \<longleftrightarrow> distinct S \<and> (\<forall>s \<in> set S. \<forall>t \<in> set S. prefix s t \<longrightarrow> s = t)"

definition walk_inv :: "walk_env \<Rightarrow> rstr list list \<Rightarrow> rstr list set \<Rightarrow> ignore_matcher \<Rightarrow> bool" where
  "walk_inv w S L m \<longleftrightarrow>
     wf_walk w \<and> unrelated S \<and> same_base w m
     \<and> set (im_loaded m) = path_text ` L \<and> (\<forall>q \<in> L. list_all good_name q)
     \<and> (\<forall>s \<in> set S. visited w s \<and> (\<forall>q. strict_prefix q s \<longrightarrow> dir_loads (we_read w) True (path_text q))
          \<and> (\<forall>q \<in> L. \<not> prefix s q) \<and> in_view (scope_set s) m = in_view (scope_set s) (matcher_at w s))"

lemma in_view_fresh:
  assumes "same_base w m" "set (im_loaded m) = path_text ` L" "\<And>q. q \<in> L \<Longrightarrow> list_all good_name q"
    and "list_all good_name p" "p \<notin> L"
  shows "in_view (insert (path_text p) (insert [] ds)) m = in_view (insert [] ds) m"
proof -
  have "ig_scope r \<in> insert [] ds" if "r \<in> set (im_rules m)" "ig_scope r = path_text p" for r
  proof (rule ccontr)
    assume *: "ig_scope r \<notin> insert [] ds"
    with assms(1) that(1) have "ig_scope r \<in> replace_char 92 47 ` set (im_loaded m)" by (auto simp: same_base_def scopes_ok_def)
    then obtain q where "q \<in> L" "ig_scope r = path_text q" using assms(2,3) path_text_plain by auto
    with that(2) assms(3,4,5) path_text_inj show False by metis
  qed
  then show ?thesis unfolding in_view_def by (auto intro!: arg_cong [where f = "map erase_order"] filter_cong)
qed

lemma walk_inv_agree:
  assumes inv: "walk_inv w S L m" and s: "s \<in> set S" and n: "good_name n" and loads: "dir_loads (we_read w) True (path_text s)"
    and l: "load_directory (we_read w) (path_text s) True m = (Inr u, m')"
  shows "in_view (scope_set (s @ [n])) m' = in_view (scope_set (s @ [n])) (matcher_at w (s @ [n]))"
    and "ignore_matches m' (path_text (s @ [n])) is_dir = ignore_matches (matcher_at w (s @ [n])) (path_text (s @ [n])) is_dir"
proof -
  have wf: "wf_walk w" and good: "list_all good_name s" and fresh: "s \<notin> L" and L: "\<And>q. q \<in> L \<Longrightarrow> list_all good_name q"
    and m: "same_base w m" "set (im_loaded m) = path_text ` L" and view: "in_view (scope_set s) m = in_view (scope_set s) (matcher_at w s)"
    and above: "\<And>q. strict_prefix q s \<Longrightarrow> dir_loads (we_read w) True (path_text q)"
    using inv s visited_good by (auto simp: walk_inv_def)
  let ?c = "matcher_at w s" and ?B = "{q. strict_prefix q s}"
  have c: "same_base w ?c" "set (im_loaded ?c) = path_text ` ?B" using matcher_at_loads [OF wf good above] by auto
  have B: "q \<in> ?B \<Longrightarrow> list_all good_name q" for q using good by (auto simp: strict_prefix_def prefix_def)
  have ss: "scope_set (s @ [n]) = insert (path_text s) (insert [] (path_text ` ?B))" by (auto simp: scope_set_def below_snoc)
  have out: "path_text s \<notin> set (im_loaded m)" "path_text s \<notin> set (im_loaded ?c)"
  proof -
    have "path_text s \<noteq> path_text q" if "list_all good_name q" "q \<noteq> s" for q using path_text_inj [OF good that(1)] that(2) by auto
    moreover have "q \<in> L \<Longrightarrow> q \<noteq> s" "q \<in> ?B \<Longrightarrow> q \<noteq> s" for q using fresh by auto
    ultimately show "path_text s \<notin> set (im_loaded m)" "path_text s \<notin> set (im_loaded ?c)"
      unfolding m(2) c(2) using L B by blast+
  qed
  have goods: "list_all good_name (s @ [n])" using good n by simp
  have above': "strict_prefix q (s @ [n]) \<Longrightarrow> dir_loads (we_read w) True (path_text q)" for q
    using above loads by (cases "q = s") (auto simp: strict_prefix_def)
  have lc: "load_directory (we_read w) (path_text s) True ?c = (Inr (), matcher_at w (s @ [n]))"
    using matcher_at_loads [OF wf good above] matcher_at_loads [OF wf goods above']
    by (auto simp: dirs_above_snoc load_directories_append split: sum.splits prod.splits)
  have ok: "scopes_ok m" "scopes_ok ?c" using m(1) c(1) by (simp_all add: same_base_def)
  note vm = load_directory_view [OF ok(1) out(1) l] and vc = load_directory_view [OF ok(2) out(2) lc]
  have "in_view (scope_set (s @ [n])) m = in_view (scope_set (s @ [n])) ?c"
    using in_view_fresh [OF m(1,2) L good fresh, of "path_text ` ?B"] in_view_fresh [OF c B good, of "path_text ` ?B"]
      view [unfolded scope_set_def] unfolding ss by simp
  then show v: "in_view (scope_set (s @ [n])) m' = in_view (scope_set (s @ [n])) (matcher_at w (s @ [n]))"
    by (simp only: vm(1) vc(1))
  show "ignore_matches m' (path_text (s @ [n])) is_dir = ignore_matches (matcher_at w (s @ [n])) (path_text (s @ [n])) is_dir"
  proof (rule ignore_matches_agree [OF vm(2) vc(2) _ _ v])
    fix sc rest
    assume *: "replace_char 92 47 (path_text (s @ [n])) = sc @ 47 # rest"
      "sc \<in> replace_char 92 47 ` (set (im_loaded m') \<union> set (im_loaded (matcher_at w (s @ [n]))))"
    from *(2) have "sc \<in> (\<lambda>q. replace_char 92 47 (path_text q)) ` (insert s (L \<union> ?B))" by (auto simp: vm(3) vc(3) m(2) c(2))
    then obtain q where q: "q \<in> insert s (L \<union> ?B)" "sc = replace_char 92 47 (path_text q)" by blast
    then have gq: "list_all good_name q" using good L B by blast
    then have sc: "sc = path_text q" using q(2) path_text_plain by simp
    show "sc \<in> scope_set (s @ [n])"
    proof (cases "q = []")
      case False
      have "path_text (s @ [n]) = path_text q @ 47 # rest" using *(1) sc path_text_plain [OF goods] by simp
      from path_text_prefix [OF goods gq False this] show ?thesis by (auto simp: sc scope_set_def)
    qed (simp add: sc scope_set_def path_text_def)
  qed (use m(1) c(1) vm(4,5) vc(4,5) in \<open>auto simp: same_base_def scope_set_def\<close>)
qed

end
