(* ===== verification/Project_Sources_Props.thy ===== *)
theory Project_Sources_Props
  imports Project_Sources_Walk
begin

text \<open>
  What discovery selects: a walk the files its specification by path selects, the index tracked files only,
  a branch their disjoint union; and never a file whose name is shaped like a secret's.
\<close>

section \<open>A step of the walk\<close>

definition below :: "walk_env \<Rightarrow> rstr list list \<Rightarrow> rstr list set" where
  "below w S = {p. reached_file w p \<and> (\<exists>s \<in> set S. strict_prefix s p)}"

lemma reached_good: "wf_walk w \<Longrightarrow> reached_file w p \<Longrightarrow> list_all good_name p"
  by (auto simp: wf_walk_def reached_file_def dest: node_at_wf)

lemma node_at_child:
  "node_at node s = Some (Directory es) \<Longrightarrow> node_at node (s @ [n]) = map_of es n"
  by (simp add: node_at_append split: option.splits)

text \<open>The directory on top of the stack, whose ignore files were just loaded, and its entries.\<close>

definition opened :: "walk_env \<Rightarrow> rstr list \<Rightarrow> rstr list list \<Rightarrow> rstr list set \<Rightarrow> ignore_matcher \<Rightarrow> ignore_matcher \<Rightarrow> (rstr \<times> fs_node) list \<Rightarrow> bool" where
  "opened w s S L m m' es \<longleftrightarrow> walk_inv w (s # S) L m
     \<and> load_directory (we_read w) (path_text s) True m = (Inr (), m') \<and> node_at (we_root w) s = Some (Directory es)"

lemma opened_facts:
  assumes "opened w s S L m m' es"
  shows "wf_walk w" "visited w s" "list_all good_name s" "distinct (map fst es)" "\<And>n c. (n, c) \<in> set es \<Longrightarrow> good_name n"
    "path_text s \<notin> set (im_loaded m)" "dir_loads (we_read w) True (path_text s)"
proof -
  show wf: "wf_walk w" and v: "visited w s" using assms by (auto simp: opened_def walk_inv_def)
  show good: "list_all good_name s" by (rule visited_good [OF wf v])
  have "wf_tree (Directory es)" using assms wf node_at_wf [of "we_root w" s] by (auto simp: opened_def wf_walk_def)
  then show "distinct (map fst es)" "\<And>n c. (n, c) \<in> set es \<Longrightarrow> good_name n" by (auto simp: list_all_iff)
  show out: "path_text s \<notin> set (im_loaded m)"
  proof
    assume "path_text s \<in> set (im_loaded m)"
    then obtain q where "q \<in> L" "path_text s = path_text q" "list_all good_name q" using assms by (auto simp: opened_def walk_inv_def)
    then have "q \<in> L" "q = s" using path_text_inj [OF good] by auto
    then show False using assms by (auto simp: opened_def walk_inv_def)
  qed
  show "dir_loads (we_read w) True (path_text s)" using load_directory_loads [OF out] assms by (auto simp: opened_def)
qed

lemma opened_agree:
  assumes o: "opened w s S L m m' es" and n: "good_name n"
  shows "in_view (scope_set (s @ [n])) m' = in_view (scope_set (s @ [n])) (matcher_at w (s @ [n]))"
    and "ignore_matches m' (path_text (s @ [n])) is_dir = ignore_matches (matcher_at w (s @ [n])) (path_text (s @ [n])) is_dir"
  using walk_inv_agree [of w "s # S" L m s n] o n opened_facts(7) [OF o] by (auto simp: opened_def)

lemma opened_child:
  assumes "opened w s S L m m' es"
  shows "(n, c) \<in> set es \<longleftrightarrow> node_at (we_root w) (s @ [n]) = Some c"
  using assms opened_facts(4) [OF assms] by (simp add: opened_def node_at_child map_of_eq_Some_iff)

lemma opened_dirs:
  assumes o: "opened w s S L m m' es"
  shows "fst ` set (entry_dirs w m' (path_text s) es) = {n. visited w (s @ [n])}"
proof -
  have "n \<in> fst ` set (entry_dirs w m' (path_text s) es) \<longleftrightarrow> visited w (s @ [n])" for n
  proof
    assume "n \<in> fst ` set (entry_dirs w m' (path_text s) es)"
    then obtain c where c: "(n, c) \<in> set es" "is_dir_node c" "\<not> ignore_matches m' (join_path (path_text s) n) True"
      "join_path (path_text s) n \<notin> set (we_worktrees w)" by (auto simp: entry_dirs_def)
    then show "visited w (s @ [n])"
      using opened_facts(2,3,5) [OF o] opened_agree(2) [OF o] opened_child [OF o]
      by (simp add: visited_snoc kept_dir_def opt_holds_def path_text_snoc)
  next
    assume v: "visited w (s @ [n])"
    then obtain c where c: "(n, c) \<in> set es" "is_dir_node c"
      by (auto simp: visited_snoc opt_holds_def opened_child [OF o] split: option.splits)
    with v show "n \<in> fst ` set (entry_dirs w m' (path_text s) es)"
      using opened_facts(3,5) [OF o] opened_agree(2) [OF o]
      by (force simp: visited_snoc kept_dir_def path_text_snoc entry_dirs_def intro: image_eqI [of _ _ "(n, c)"])
  qed
  then show ?thesis by auto
qed

lemma opened_files:
  assumes o: "opened w s S L m m' es"
  shows "fst ` set (entry_files w m' (path_text s) es) = {n. reached_file w (s @ [n])}"
proof -
  have "n \<in> fst ` set (entry_files w m' (path_text s) es) \<longleftrightarrow> reached_file w (s @ [n])" for n
  proof
    assume "n \<in> fst ` set (entry_files w m' (path_text s) es)"
    then have "(n, RegularFile) \<in> set es" "\<not> ignore_matches m' (join_path (path_text s) n) False"
      "join_path (path_text s) n \<notin> set (we_excluded w)" by (auto simp: entry_files_def)
    then show "reached_file w (s @ [n])"
      using opened_facts(2,3,5) [OF o] opened_agree(2) [OF o] opened_child [OF o]
      by (simp add: reached_file_def path_text_snoc)
  next
    assume v: "reached_file w (s @ [n])"
    then have "(n, RegularFile) \<in> set es" by (simp add: reached_file_def opened_child [OF o])
    with v show "n \<in> fst ` set (entry_files w m' (path_text s) es)"
      using opened_facts(3,5) [OF o] opened_agree(2) [OF o]
      by (force simp: reached_file_def path_text_snoc entry_files_def intro: image_eqI [of _ _ "(n, RegularFile)"])
  qed
  then show ?thesis by auto
qed

definition pushed :: "walk_env \<Rightarrow> rstr list \<Rightarrow> ignore_matcher \<Rightarrow> (rstr \<times> fs_node) list \<Rightarrow> rstr list list" where
  "pushed w s m' es = rev (map (\<lambda>e. s @ [fst e]) (entry_dirs w m' (path_text s) es))"

lemma set_pushed: "opened w s S L m m' es \<Longrightarrow> set (pushed w s m' es) = {s @ [n] | n. visited w (s @ [n])}"
  using opened_dirs [of w s S L m m' es] by (auto simp: pushed_def)

lemma pushed_stack:
  assumes o: "opened w s S L m m' es"
  shows "rev (map (\<lambda>e. (join_path (path_text s) (fst e), snd e)) (entry_dirs w m' (path_text s) es)) = stack_of w (pushed w s m' es)"
proof -
  have "node_at (we_root w) (s @ [fst e]) = Some (snd e)" if "e \<in> set (entry_dirs w m' (path_text s) es)" for e
    using that opened_child [OF o, of "fst e" "snd e"] by (auto simp: entry_dirs_def)
  then show ?thesis using opened_facts(3) [OF o] by (simp add: stack_of_def pushed_def rev_map path_text_snoc)
qed

lemma opened_next:
  assumes o: "opened w s S L m m' es"
  shows "walk_inv w (pushed w s m' es @ S) (insert s L) m'"
proof -
  have inv: "walk_inv w (s # S) L m" and l: "load_directory (we_read w) (path_text s) True m = (Inr (), m')"
    using o by (auto simp: opened_def)
  note facts = opened_facts [OF o]
  have m: "same_base w m" using inv by (simp add: walk_inv_def)
  then have v: "scopes_ok m" by (simp add: same_base_def)
  note vm = load_directory_view [OF v facts(6) l]
  have loads: "strict_prefix q s \<Longrightarrow> dir_loads (we_read w) True (path_text q)" "q \<in> L \<Longrightarrow> \<not> prefix s q" for q
    using inv by (auto simp: walk_inv_def)
  have sib: "\<not> prefix s t" "\<not> prefix t s" if "t \<in> set S" for t
    using inv that by (auto simp: walk_inv_def unrelated_def)
  have P: "t \<in> set (pushed w s m' es) \<longleftrightarrow> (\<exists>n. t = s @ [n] \<and> visited w (s @ [n]))" for t
    using set_pushed [OF o] by auto
  have "distinct (map fst (entry_dirs w m' (path_text s) es))"
    using facts(4) by (simp add: entry_dirs_def distinct_map_filter)
  then have "distinct (pushed w s m' es)" by (auto simp: pushed_def distinct_map inj_on_def)
  moreover have apart: "\<not> prefix t u \<and> \<not> prefix u t" if tu: "t \<in> set (pushed w s m' es)" "u \<in> set S" for t u
  proof -
    obtain n where n: "t = s @ [n]" using P [THEN iffD1, OF tu(1)] by auto
    have "prefix t u \<Longrightarrow> prefix s u" unfolding n by (rule append_prefixD)
    moreover have "prefix u t \<Longrightarrow> u = t \<or> prefix u s" unfolding n by simp
    ultimately show ?thesis using sib [OF tu(2)] by (metis n prefixI)
  qed
  moreover have "unrelated S" using inv by (auto simp: walk_inv_def unrelated_def)
  moreover have "t = u" if "t \<in> set (pushed w s m' es)" "u \<in> set (pushed w s m' es)" "prefix t u" for t u
    using that P by auto
  ultimately have unrel: "distinct (pushed w s m' es)" "unrelated S"
    and same: "\<And>t u. t \<in> set (pushed w s m' es) \<Longrightarrow> u \<in> set (pushed w s m' es) \<Longrightarrow> prefix t u \<Longrightarrow> t = u" by blast+
  have disjoint: "set (pushed w s m' es) \<inter> set S = {}"
  proof (rule ccontr)
    assume "set (pushed w s m' es) \<inter> set S \<noteq> {}"
    then obtain t where "t \<in> set (pushed w s m' es)" "t \<in> set S" by blast
    from apart [OF this] show False by simp
  qed
  have "unrelated (pushed w s m' es @ S)"
    unfolding unrelated_def
  proof (intro conjI ballI impI)
    show "distinct (pushed w s m' es @ S)" using unrel disjoint by (simp add: unrelated_def)
    fix t u assume *: "t \<in> set (pushed w s m' es @ S)" "u \<in> set (pushed w s m' es @ S)" "prefix t u"
    have "t \<in> set S \<Longrightarrow> u \<in> set S \<Longrightarrow> t = u" using unrel(2) *(3) by (simp add: unrelated_def)
    with * same [of t u] apart [of t u] apart [of u t] show "t = u" by (simp; blast)
  qed
  moreover have "in_view (scope_set t) m' = in_view (scope_set t) (matcher_at w t)
      \<and> (\<forall>q. strict_prefix q t \<longrightarrow> dir_loads (we_read w) True (path_text q)) \<and> (\<forall>q \<in> insert s L. \<not> prefix t q) \<and> visited w t"
    if t: "t \<in> set (pushed w s m' es)" for t
  proof -
    obtain n where n: "t = s @ [n]" "visited w t" using P [THEN iffD1, OF t] by auto
    have "good_name n" using visited_good [OF facts(1) n(2)] n(1) by simp
    note view = opened_agree(1) [OF o this]
    have "dir_loads (we_read w) True (path_text q)" if "strict_prefix q t" for q
    proof (cases "q = s")
      case False
      with that have "strict_prefix q s" unfolding n(1) by (auto simp: strict_prefix_def)
      then show ?thesis by (rule loads(1))
    qed (simp add: facts(7))
    moreover have "\<not> prefix t q" if "q \<in> insert s L" for q
    proof
      assume pq: "prefix t q"
      then have "prefix s q" unfolding n(1) by (rule append_prefixD)
      moreover have "q \<noteq> s" using pq by (auto simp: n(1))
      ultimately show False using that loads(2) by blast
    qed
    ultimately show ?thesis using view n by blast
  qed
  moreover have "in_view (scope_set t) m' = in_view (scope_set t) (matcher_at w t)
      \<and> (\<forall>q. strict_prefix q t \<longrightarrow> dir_loads (we_read w) True (path_text q)) \<and> (\<forall>q \<in> insert s L. \<not> prefix t q) \<and> visited w t"
    if t: "t \<in> set S" for t
  proof -
    have tv: "visited w t" using inv t by (simp add: walk_inv_def)
    have gt: "list_all good_name t" by (rule visited_good [OF facts(1) tv])
    have "s \<noteq> []" using sib(1) [OF t] by auto
    then have "path_text s \<noteq> []" using path_text_empty [OF facts(3)] by simp
    moreover have "path_text s \<noteq> path_text q" if "strict_prefix q t" for q
    proof
      assume "path_text s = path_text q"
      moreover have "list_all good_name q" using gt that by (auto simp: strict_prefix_def prefix_def)
      ultimately show False using path_text_inj [OF facts(3)] that sib(1) [OF t] by (auto simp: strict_prefix_def)
    qed
    ultimately have "path_text s \<notin> scope_set t" by (auto simp: scope_set_def)
    moreover have "ig_scope r = path_text s" if "r \<in> set (dir_rules (we_read w) (path_text s) True)" for r
      using dir_rules_scope [OF that] path_text_plain [OF facts(3)] by simp
    ultimately have "filter (\<lambda>r. ig_scope r \<in> scope_set t) (dir_rules (we_read w) (path_text s) True) = []"
      by (auto simp: filter_empty_conv)
    then have "in_view (scope_set t) m' = in_view (scope_set t) m" by (simp add: vm(1) in_view_sorted [OF v])
    then show ?thesis using inv t sib(2) [OF t] by (auto simp: walk_inv_def)
  qed
  moreover have "same_base w m'" using m vm(2,4,5) by (simp add: same_base_def)
  moreover have "set (im_loaded m') = path_text ` insert s L" using inv vm(3) by (simp add: walk_inv_def)
  ultimately show ?thesis using inv facts(1,3) unfolding walk_inv_def by auto
qed

lemma below_opened:
  assumes o: "opened w s S L m m' es"
  shows "below w (s # S) = {s @ [n] | n. reached_file w (s @ [n])} \<union> below w (pushed w s m' es @ S)"
proof -
  have "(\<exists>t \<in> set (pushed w s m' es). strict_prefix t p)" if p: "reached_file w p" "strict_prefix s p" "\<nexists>n. p = s @ [n]" for p
  proof -
    from p(2) obtain n r where pr: "p = s @ n # r" by (auto elim: strict_prefixE')
    with p(3) have "r \<noteq> []" by auto
    then have "prefix (s @ [n]) (butlast p)" by (simp add: pr butlast_append prefix_def)
    then have "visited w (s @ [n])" using p(1) visited_prefix by (auto simp: reached_file_def)
    then show ?thesis using pr \<open>r \<noteq> []\<close> by (auto simp: set_pushed [OF o] strict_prefix_def prefix_def)
  qed
  then have "below w (s # S) \<subseteq> {s @ [n] | n. reached_file w (s @ [n])} \<union> below w (pushed w s m' es @ S)"
    by (auto simp: below_def)
  moreover have "strict_prefix s (s @ [n])" for n by (simp add: strict_prefix_def)
  moreover from this have "strict_prefix s p" if "t \<in> set (pushed w s m' es)" "strict_prefix t p" for t p
    using that set_pushed [OF o] by (auto intro: prefix_order.less_trans)
  ultimately show ?thesis by (auto simp: below_def)
qed

section \<open>The whole walk\<close>

lemma load_directory_cases:
  assumes "path_text s \<notin> set (im_loaded m)"
  obtains (failed) e m' where "load_directory (we_read w) (path_text s) True m = (Inl e, m')" "\<not> dir_loads (we_read w) True (path_text s)"
    | (passed) m' where "load_directory (we_read w) (path_text s) True m = (Inr (), m')"
proof (cases "load_directory (we_read w) (path_text s) True m")
  case (Pair r m')
  then show thesis
  proof (cases r)
    case (Inl e)
    then show thesis using failed [of e m'] Pair load_directory_loads [OF assms, of "we_read w" True] by auto
  next
    case (Inr u)
    then show thesis using passed [of m'] Pair by simp
  qed
qed

definition secret_skips :: "walk_env \<Rightarrow> rstr list set \<Rightarrow> source_skip set" where
  "secret_skips w P = (\<Union>p \<in> P. {\<lparr>sk_path = path_text p, sk_reason = secret_text k\<rparr> | k. withheld w p k})"

lemma secret_skips_Un: "secret_skips w (P \<union> Q) = secret_skips w P \<union> secret_skips w Q"
  by (auto simp: secret_skips_def)

text \<open>What the rest of a walk does with the directories on its stack.\<close>

definition walk_result :: "walk_env \<Rightarrow> rstr list list \<Rightarrow> walk_state \<Rightarrow> ingest_error + walk_state \<Rightarrow> bool" where
  "walk_result w S st res \<longleftrightarrow>
     (case res of
        Inl e \<Rightarrow> (\<exists>q. visited w q \<and> (\<exists>s \<in> set S. prefix s q) \<and> \<not> readable w q)
      | Inr st' \<Rightarrow>
          (\<forall>q. visited w q \<and> (\<exists>s \<in> set S. prefix s q) \<longrightarrow> readable w q)
          \<and> set (ws_files st') = set (ws_files st) \<union> path_text ` {p \<in> below w S. mined w p}
          \<and> set (ws_skips st') = set (ws_skips st) \<union> secret_skips w (below w S)
          \<and> (distinct (ws_files st) \<and> set (ws_files st) \<inter> path_text ` below w S = {} \<longrightarrow> distinct (ws_files st')))"

lemma direct_files:
  assumes o: "opened w s S L m m' es"
  shows "set (map (\<lambda>e. join_path (path_text s) (fst e))
           (filter (\<lambda>e. entry_accept w (path_text s) e = Eligible) (entry_files w m' (path_text s) es)))
       = path_text ` {p \<in> {s @ [n] | n. reached_file w (s @ [n])}. mined w p}"
    and "set (concat (map (\<lambda>e. record_secret_skip (entry_accept w (path_text s) e) (join_path (path_text s) (fst e)) [])
           (entry_files w m' (path_text s) es)))
       = secret_skips w {s @ [n] | n. reached_file w (s @ [n])}"
    and "distinct (map (\<lambda>e. join_path (path_text s) (fst e))
           (filter (\<lambda>e. entry_accept w (path_text s) e = Eligible) (entry_files w m' (path_text s) es)))"
proof -
  let ?F = "entry_files w m' (path_text s) es"
  note good = opened_facts(3) [OF o]
  have j: "join_path (path_text s) n = path_text (s @ [n])" for n by (rule path_text_snoc [OF good])
  have F: "reached_file w (s @ [n]) \<longleftrightarrow> (\<exists>c. (n, c) \<in> set ?F)" for n using opened_files [OF o] by force
  show "set (map (\<lambda>e. join_path (path_text s) (fst e)) (filter (\<lambda>e. entry_accept w (path_text s) e = Eligible) ?F))
      = path_text ` {p \<in> {s @ [n] | n. reached_file w (s @ [n])}. mined w p}"
    by (force simp: j F mined_def image_iff)
  have r: "set (record_secret_skip a p []) = {\<lparr>sk_path = p, sk_reason = secret_text k\<rparr> | k. a = Secret k}" for a p
    by (cases a) (auto simp: record_secret_skip_def)
  show "set (concat (map (\<lambda>e. record_secret_skip (entry_accept w (path_text s) e) (join_path (path_text s) (fst e)) []) ?F))
      = secret_skips w {s @ [n] | n. reached_file w (s @ [n])}"
    by (force simp: j F r withheld_def secret_skips_def)
  have "distinct (map fst ?F)" using opened_facts(4) [OF o] by (simp add: entry_files_def distinct_map_filter)
  then have d: "distinct (map fst (filter (\<lambda>e. entry_accept w (path_text s) e = Eligible) ?F))" by (rule distinct_map_filter)
  have names: "good_name n" if "n \<in> fst ` set ?F" for n using that opened_facts(5) [OF o] by (auto simp: entry_files_def)
  have "inj_on (\<lambda>n. path_text (s @ [n])) (fst ` set ?F)"
  proof (rule inj_onI)
    fix n k assume "n \<in> fst ` set ?F" "k \<in> fst ` set ?F" "path_text (s @ [n]) = path_text (s @ [k])"
    then show "n = k" using path_text_inj [of "s @ [n]" "s @ [k]"] good names by simp
  qed
  then have "inj_on (\<lambda>n. path_text (s @ [n])) (set (map fst (filter (\<lambda>e. entry_accept w (path_text s) e = Eligible) ?F)))"
    by (rule inj_on_subset) auto
  with d have "distinct (map (\<lambda>n. path_text (s @ [n])) (map fst (filter (\<lambda>e. entry_accept w (path_text s) e = Eligible) ?F)))"
    unfolding distinct_map [where f = "\<lambda>n. path_text (s @ [n])"] by blast
  then show "distinct (map (\<lambda>e. join_path (path_text s) (fst e)) (filter (\<lambda>e. entry_accept w (path_text s) e = Eligible) ?F))"
    by (simp add: j o_def)
qed

lemma siblings_apart:
  assumes o: "opened w s S L m m' es" and t: "t \<in> set (pushed w s m' es @ S)"
  shows "\<not> strict_prefix t (s @ [n])"
proof
  assume p: "strict_prefix t (s @ [n])"
  then have "prefix t s" by (auto simp: strict_prefix_def)
  from t consider "t \<in> set (pushed w s m' es)" | "t \<in> set S" by auto
  then show False
  proof cases
    case 1
    then have "strict_prefix s t" using set_pushed [OF o] by (auto simp: strict_prefix_def)
    with \<open>prefix t s\<close> show False by (auto simp: strict_prefix_def dest: prefix_order.antisym)
  next
    case 2
    then show False using o \<open>prefix t s\<close> by (auto simp: opened_def walk_inv_def unrelated_def)
  qed
qed

lemma visited_below:
  assumes o: "opened w s S L m m' es" and q: "visited w q"
  shows "(\<exists>t \<in> set (s # S). prefix t q) \<longleftrightarrow> q = s \<or> (\<exists>t \<in> set (pushed w s m' es @ S). prefix t q)"
proof -
  have "\<exists>t \<in> set (pushed w s m' es). prefix t q" if "prefix s q" "q \<noteq> s"
  proof -
    from that obtain n r where "q = s @ n # r" by (metis append_Nil2 neq_Nil_conv prefixE)
    then have "prefix (s @ [n]) q" by simp
    with visited_prefix [OF this q] show ?thesis using set_pushed [OF o] by blast
  qed
  moreover have "prefix s q" if "t \<in> set (pushed w s m' es)" "prefix t q" for t
    using that set_pushed [OF o] by (auto dest: append_prefixD)
  ultimately show ?thesis by auto
qed

lemma walk_result_step:
  assumes o: "opened w s S L m m' es" and readable: "readable w s"
    and files: "ws_files st1 = ws_files st @ map (\<lambda>e. join_path (path_text s) (fst e))
         (filter (\<lambda>e. entry_accept w (path_text s) e = Eligible) (entry_files w m' (path_text s) es))"
    and skips: "ws_skips st1 = ws_skips st @ concat (map (\<lambda>e. record_secret_skip (entry_accept w (path_text s) e) (join_path (path_text s) (fst e)) [])
         (entry_files w m' (path_text s) es))"
    and res: "walk_result w (pushed w s m' es @ S) st1 res"
  shows "walk_result w (s # S) st res"
proof (cases res)
  case (Inl e)
  then show ?thesis using res visited_below [OF o] by (auto simp: walk_result_def)
next
  case (Inr st')
  let ?D = "{s @ [n] | n. reached_file w (s @ [n])}" and ?B = "below w (pushed w s m' es @ S)"
  note direct = direct_files [OF o] and split = below_opened [OF o]
  have D: "set (ws_files st1) = set (ws_files st) \<union> path_text ` {p \<in> ?D. mined w p}"
    using direct(1) unfolding files set_append by simp
  have K: "set (ws_skips st1) = set (ws_skips st) \<union> secret_skips w ?D"
    using direct(2) unfolding skips set_append by simp
  have r: "\<forall>q. visited w q \<and> (\<exists>t \<in> set (pushed w s m' es @ S). prefix t q) \<longrightarrow> readable w q"
    "set (ws_files st') = set (ws_files st1) \<union> path_text ` {p \<in> ?B. mined w p}"
    "set (ws_skips st') = set (ws_skips st1) \<union> secret_skips w ?B"
    "distinct (ws_files st1) \<Longrightarrow> set (ws_files st1) \<inter> path_text ` ?B = {} \<Longrightarrow> distinct (ws_files st')"
    using res unfolding Inr walk_result_def by auto
  have "distinct (ws_files st')" if d: "distinct (ws_files st)" "set (ws_files st) \<inter> path_text ` below w (s # S) = {}"
  proof (rule r(4))
    have sub: "path_text ` {p \<in> ?D. mined w p} \<subseteq> path_text ` below w (s # S)" unfolding split by blast
    have "set (ws_files st) \<inter> path_text ` {p \<in> ?D. mined w p} = {}" using d(2) sub by blast
    then show "distinct (ws_files st1)"
      unfolding files distinct_append direct(1) using d(1) direct(3) by simp
    have "path_text p \<noteq> path_text q" if "p \<in> ?D" "q \<in> ?B" for p q
    proof
      assume e: "path_text p = path_text q"
      have "reached_file w p" "reached_file w q" using that by (auto simp: below_def)
      then have "p = q" using path_text_inj [OF _ _ e] reached_good [OF opened_facts(1) [OF o]] by simp
      then show False using that siblings_apart [OF o] by (auto simp: below_def)
    qed
    then show "set (ws_files st1) \<inter> path_text ` ?B = {}" using d(2) unfolding D split by blast
  qed
  moreover have "\<forall>q. visited w q \<and> (\<exists>t \<in> set (s # S). prefix t q) \<longrightarrow> readable w q"
    using r(1) visited_below [OF o] readable by blast
  moreover have "set (ws_files st') = set (ws_files st) \<union> path_text ` {p \<in> below w (s # S). mined w p}"
    unfolding r(2) D split by blast
  moreover have "set (ws_skips st') = set (ws_skips st) \<union> secret_skips w (below w (s # S))"
    unfolding r(3) K split secret_skips_Un by blast
  ultimately show ?thesis unfolding Inr walk_result_def by simp
qed

lemma walk_stack_result:
  "walk_inv w S L (ws_matcher st) \<Longrightarrow>
   walk_result w S st (walk_stack (we_read w) (we_accept w) (we_worktrees w) (we_excluded w) (stack_of w S) st)"
proof (induction "stack_size (stack_of w S)" arbitrary: S L st rule: less_induct)
  case less
  let ?walk = "walk_stack (we_read w) (we_accept w) (we_worktrees w) (we_excluded w)"
  show ?case
  proof (cases S)
    case Nil
    then show ?thesis by (simp add: stack_of_def walk_stack.simps walk_result_def below_def secret_skips_def)
  next
    case (Cons s S')
    have inv: "walk_inv w (s # S') L (ws_matcher st)" using less.prems Cons by simp
    then have v: "visited w s" and out: "path_text s \<notin> set (im_loaded (ws_matcher st))"
    proof -
      show v: "visited w s" using inv by (simp add: walk_inv_def)
      have good: "list_all good_name s" using visited_good [OF _ v] inv by (simp add: walk_inv_def)
      have "q \<in> L \<Longrightarrow> path_text s \<noteq> path_text q" for q
        using path_text_inj [OF good, of q] inv by (auto simp: walk_inv_def)
      then show "path_text s \<notin> set (im_loaded (ws_matcher st))" using inv by (auto simp: walk_inv_def)
    qed
    then obtain c where c: "node_at (we_root w) s = Some c" "is_dir_node c"
      by (auto simp: visited_def opt_holds_def split: option.splits)
    have st: "stack_of w S = (path_text s, c) # stack_of w S'" by (simp add: stack_of_def Cons c(1))
    show ?thesis
    proof (cases rule: load_directory_cases [OF out, where w = w])
      case (1 e m')
      then have "?walk (stack_of w S) st = Inl e" by (simp add: st walk_stack.simps)
      moreover have "\<not> readable w s" using 1(2) by (simp add: readable_def)
      ultimately show ?thesis using v Cons by (auto simp: walk_result_def)
    next
      case (2 m')
      show ?thesis
      proof (cases c)
        case (Directory es)
        have o: "opened w s S' L (ws_matcher st) m' es" using inv 2 c(1) Directory by (simp add: opened_def)
        obtain stack' st1 where f: "fold (visit_entry (we_accept w) (we_worktrees w) (we_excluded w) (path_text s)) es
            (stack_of w S', st\<lparr>ws_matcher := m'\<rparr>) = (stack', st1)" by fastforce
        note fv = fold_visit [OF f]
        have st': "stack' = stack_of w (pushed w s m' es @ S')"
          using fv pushed_stack [OF o] by (simp add: stack_of_def)
        have "?walk (stack_of w S) st = ?walk stack' st1" unfolding st by (subst walk_stack.simps) (simp add: 2 Directory f)
        moreover have "walk_result w (pushed w s m' es @ S') st1 (?walk (stack_of w (pushed w s m' es @ S')) st1)"
        proof (rule less.hyps)
          show "walk_inv w (pushed w s m' es @ S') (insert s L) (ws_matcher st1)" using opened_next [OF o] fv by simp
          have "stack_size stack' \<le> stack_size es + stack_size (stack_of w S')"
            using fold_visit_size [of "we_accept w" "we_worktrees w" "we_excluded w" "path_text s" es "(stack_of w S', st\<lparr>ws_matcher := m'\<rparr>)"]
            by (simp add: f)
          then show "stack_size (stack_of w (pushed w s m' es @ S')) < stack_size (stack_of w S)"
            using size_Directory [of es] by (simp add: st' [symmetric] st Directory stack_size_def)
        qed
        moreover have "readable w s" using c(1) Directory opened_facts(7) [OF o] by (simp add: readable_def)
        ultimately show ?thesis
          unfolding Cons [symmetric] st' using walk_result_step [OF o, of st1 st] fv Cons by simp
      next
        case UnreadableDirectory
        then have "?walk (stack_of w S) st = Inl (Io (path_text s))" by (simp add: st walk_stack.simps 2)
        moreover have "\<not> readable w s" using c(1) UnreadableDirectory by (simp add: readable_def)
        ultimately show ?thesis using v Cons by (auto simp: walk_result_def)
      qed (use c(2) in simp_all)
    qed
  qed
qed

section \<open>The excludes of the repository\<close>

definition rootwide :: "ignore_matcher \<Rightarrow> bool" where
  "rootwide m \<longleftrightarrow> ordered_rules m \<and> set (im_rules m) \<subseteq> {r. ig_scope r = []} \<and> im_loaded m = []"

lemma fold_push_rootwide:
  "set (im_rules m) \<subseteq> {r. ig_scope r = []} \<Longrightarrow>
   set (im_rules (fold (push_pattern [] d t) ls m)) \<subseteq> {r. ig_scope r = []} \<and> im_loaded (fold (push_pattern [] d t) ls m) = im_loaded m"
proof (induction ls arbitrary: m)
  case (Cons l ls)
  have "set (im_rules (push_pattern [] d t l m)) \<subseteq> {r. ig_scope r = []}" "im_loaded (push_pattern [] d t l m) = im_loaded m"
    using Cons.prems by (auto simp: push_pattern_def split: option.splits)
  with Cons.IH show ?case by simp
qed simp

lemma load_pattern_file_rootwide: "rootwide m \<Longrightarrow> rootwide (load_pattern_file reading t m)"
  using load_pattern_file_ordered [of m reading t] fold_push_rootwide [of m 0 t]
  by (cases reading) (auto simp: rootwide_def load_pattern_file_def sort_rules_def)

lemma load_repo_excludes_rootwide:
  "rootwide m \<Longrightarrow> load_repo_excludes git m = (Inr u, m') \<Longrightarrow> rootwide m'"
proof -
  assume m: "rootwide m" and l: "load_repo_excludes git m = (Inr u, m')"
  have "rootwide (n\<lparr>im_repo_offset := x\<rparr>) = rootwide n" for n x by (simp add: rootwide_def ordered_rules_def)
  with m l show ?thesis
    by (auto simp: load_repo_excludes_def Let_def load_pattern_file_rootwide split: sum.splits option.splits if_splits)
qed

lemma new_matcher_rootwide: "rootwide new_matcher"
  using new_matcher_ordered by (simp add: rootwide_def new_matcher_def)

lemma rootwide_wf: "rootwide (we_base w) \<Longrightarrow> wf_tree (we_root w) \<Longrightarrow> wf_walk w"
  by (auto simp: wf_walk_def rootwide_def scopes_ok_def)

lemma walk_inv_root:
  assumes "wf_walk w" "is_dir_node (we_root w)"
  shows "walk_inv w [[]] {} (we_base w)"
  using assms by (auto simp: walk_inv_def unrelated_def same_base_def wf_walk_def visited_def opt_holds_def
      matcher_at_def dirs_above_def)

lemma below_root: "below w [[]] = {p. reached_file w p}"
  by (auto simp: below_def reached_file_def strict_prefix_def)

section \<open>Properties\<close>

definition base_matcher :: "source_env \<Rightarrow> bool \<Rightarrow> (ingest_error + unit) \<times> ignore_matcher" where
  "base_matcher env repo_excludes = (if repo_excludes then load_repo_excludes (se_git env) new_matcher else (Inr (), new_matcher))"

definition walk_of ::
  "source_env \<Rightarrow> bool \<Rightarrow> bool \<Rightarrow> rstr list option \<Rightarrow> (rstr \<Rightarrow> rstr \<Rightarrow> eligibility) \<Rightarrow> fs_node \<Rightarrow> walk_env" where
  "walk_of env skip_linked_worktrees repo_excludes excluded accept root =
     \<lparr> we_read = se_read env, we_accept = accept,
       we_worktrees = (if skip_linked_worktrees then se_worktrees env else []),
       we_excluded = (case excluded of Some ps \<Rightarrow> ps | None \<Rightarrow> []),
       we_base = snd (base_matcher env repo_excludes), we_root = root \<rparr>"

lemma discover_files_result:
  assumes wf: "wf_tree root" "is_dir_node root" and base: "fst (base_matcher env repo) = Inr ()"
    and w_def: "w = walk_of env wt repo ex accept root"
  shows "case discover_files env wt repo ex accept root of
     Inl _ \<Rightarrow> \<exists>q. visited w q \<and> \<not> readable w q
   | Inr r \<Rightarrow> (\<forall>q. visited w q \<longrightarrow> readable w q)
       \<and> set (dr_files r) = path_text ` {p. mined w p}
       \<and> set (dr_skips r) = secret_skips w {p. reached_file w p}
       \<and> sorted (dr_files r) \<and> distinct (dr_files r) \<and> dr_complete r"
    and "wf_walk w"
proof -
  let ?st = "\<lparr> ws_matcher = we_base w, ws_ignored = 0, ws_files = [], ws_skips = [] \<rparr>"
  let ?walk = "walk_stack (we_read w) (we_accept w) (we_worktrees w) (we_excluded w) [([], root)] ?st"
  have b: "base_matcher env repo = (Inr (), we_base w)" using base by (cases "base_matcher env repo") (simp add: w_def walk_of_def)
  have "rootwide (we_base w)"
    using b new_matcher_rootwide load_repo_excludes_rootwide [OF new_matcher_rootwide]
    by (auto simp: base_matcher_def split: if_splits)
  then show wfw: "wf_walk w" using wf(1) by (intro rootwide_wf) (simp_all add: w_def walk_of_def)
  have "walk_inv w [[]] {} (we_base w)" by (rule walk_inv_root [OF wfw]) (simp add: w_def walk_of_def wf(2))
  then have "walk_result w [[]] ?st (walk_stack (we_read w) (we_accept w) (we_worktrees w) (we_excluded w) (stack_of w [[]]) ?st)"
    by (intro walk_stack_result) simp
  moreover have "stack_of w [[]] = [([], root)]" by (simp add: stack_of_def path_text_def w_def walk_of_def)
  ultimately have res: "walk_result w [[]] ?st ?walk" by simp
  have d: "discover_files env wt repo ex accept root = bindE ?walk
      (\<lambda>st. Inr \<lparr> dr_files = sort (ws_files st), dr_ignored = ws_ignored st, dr_skips = ws_skips st, dr_complete = True \<rparr>)"
    unfolding discover_files_def base_matcher_def [symmetric] b by (simp add: w_def walk_of_def)
  have m: "{p \<in> {p. reached_file w p}. mined w p} = {p. mined w p}" by (auto simp: mined_def)
  show "case discover_files env wt repo ex accept root of
     Inl _ \<Rightarrow> \<exists>q. visited w q \<and> \<not> readable w q
   | Inr r \<Rightarrow> (\<forall>q. visited w q \<longrightarrow> readable w q)
       \<and> set (dr_files r) = path_text ` {p. mined w p}
       \<and> set (dr_skips r) = secret_skips w {p. reached_file w p}
       \<and> sorted (dr_files r) \<and> distinct (dr_files r) \<and> dr_complete r"
    using res unfolding d walk_result_def below_root m
    by (cases ?walk) (simp_all add: bindE_def)
qed

text \<open>
  C31: the walk refines its specification by path, for every tree of the file system: it reports exactly the
  files of which all directories above and the file itself are kept, each judged by the base rules and the
  ignore files of the directories above it alone (so neither the order of the visits nor a rule of another
  directory matters), withholds exactly the kept files with a secret's name, each with its reason, lists the
  files sorted and once, and fails exactly when a directory it must enter or its ignore files cannot be read.
\<close>

theorem walk_selects_by_path:
  "if wf_tree root \<and> is_dir_node root
   then let w = walk_of env wt repo ex accept root in
     case base_matcher env repo of
       (Inl e, _) \<Rightarrow> discover_files env wt repo ex accept root = Inl e
     | (Inr _, _) \<Rightarrow>
        (case discover_files env wt repo ex accept root of
           Inl _ \<Rightarrow> \<not> {q. visited w q} \<subseteq> {q. readable w q}
         | Inr r \<Rightarrow> {q. visited w q} \<subseteq> {q. readable w q}
             \<and> set (dr_files r) = path_text ` {p. mined w p}
             \<and> set (dr_skips r) = secret_skips w {p. reached_file w p}
             \<and> sorted (dr_files r) \<and> distinct (dr_files r))
   else True"
proof (cases "wf_tree root \<and> is_dir_node root")
  case True
  show ?thesis
  proof (cases "fst (base_matcher env repo)")
    case (Inl e)
    then show ?thesis using True
      by (cases "base_matcher env repo") (simp add: discover_files_def base_matcher_def [symmetric] Let_def)
  next
    case (Inr u)
    then have b: "fst (base_matcher env repo) = Inr ()" by simp
    note res = discover_files_result(1) [OF True [THEN conjunct1] True [THEN conjunct2] b refl, of wt ex accept]
    show ?thesis using True res b by (cases "base_matcher env repo") (auto simp: Let_def split: sum.splits)
  qed
qed (simp only: if_False)

text \<open>What may be reported: files that are eligible by their own name, and secrets by theirs.\<close>

definition eligible_files :: "source_env \<Rightarrow> rstr set" where
  "eligible_files env = {f. project_eligibility env f (path_name f) = Eligible}"

definition named_secrets :: "source_skip set" where
  "named_secrets = {k. map_option secret_text (secret_path_kind_of (path_name (sk_path k))) = Some (sk_reason k)}"

definition safe_report :: "source_env \<Rightarrow> discovery_report \<Rightarrow> bool" where
  "safe_report env r \<longleftrightarrow> sorted (dr_files r) \<and> set (dr_files r) \<subseteq> eligible_files env \<and> set (dr_skips r) \<subseteq> named_secrets"

lemma eligible_not_secret:
  "eligible_files env \<subseteq> {f. secret_path_kind_of (path_name f) = None \<and> path_name f \<notin> set PROJECT_SKIP_FILES \<and> \<not> looks_binary env f}"
  by (auto simp: eligible_files_def project_eligibility_def project_skip_by_name_def Let_def split: option.splits if_splits)

lemma secret_verdict:
  "project_eligibility env f (path_name f) = Secret k \<Longrightarrow> \<lparr>sk_path = f, sk_reason = secret_text k\<rparr> \<in> named_secrets"
  by (auto simp: project_eligibility_def project_skip_by_name_def named_secrets_def Let_def split: option.splits if_splits)

lemma path_name_text: "list_all good_name p \<Longrightarrow> p \<noteq> [] \<Longrightarrow> path_name (path_text p) = last p"
  by (simp add: path_name_def split_path_text)

lemma walk_safe:
  assumes "wf_tree root" "is_dir_node root" "discover_files env wt repo ex (project_eligibility env) root = Inr r"
  shows "safe_report env r \<and> dr_complete r \<and> set (dr_files r) \<inter> set (case ex of Some ps \<Rightarrow> ps | None \<Rightarrow> []) = {}"
proof -
  obtain x where x: "fst (base_matcher env repo) = Inr x"
    using assms(3) by (cases "base_matcher env repo"; cases "fst (base_matcher env repo)")
      (auto simp: discover_files_def base_matcher_def [symmetric])
  then have x: "fst (base_matcher env repo) = Inr ()" by simp
  let ?w = "walk_of env wt repo ex (project_eligibility env) root"
  note res = discover_files_result(1) [OF assms(1,2) x refl, of wt ex "project_eligibility env", unfolded assms(3), simplified]
  note wf = discover_files_result(2) [OF assms(1,2) x refl, of wt ex "project_eligibility env"]
  have name: "path_name (path_text p) = last p" if "reached_file ?w p" for p
    by (rule path_name_text [OF reached_good [OF wf that]]) (use that in \<open>simp add: reached_file_def\<close>)
  have "set (dr_files r) \<subseteq> eligible_files env"
    using res name by (auto simp: mined_def walk_of_def eligible_files_def)
  moreover have "set (dr_skips r) \<subseteq> named_secrets"
    using res name secret_verdict [of env] by (auto simp: secret_skips_def withheld_def walk_of_def)
  moreover have "set (dr_files r) \<inter> set (case ex of Some ps \<Rightarrow> ps | None \<Rightarrow> []) = {}"
    using res by (auto simp: mined_def reached_file_def walk_of_def)
  ultimately show ?thesis using res by (simp add: safe_report_def)
qed

text \<open>The entries of the index.\<close>

definition index_kept :: "source_env \<Rightarrow> (rstr \<Rightarrow> file_kind option) \<Rightarrow> ignore_matcher \<Rightarrow> rstr \<Rightarrow> bool" where
  "index_kept env lstat m f \<longleftrightarrow>
     lstat f = Some RegularKind \<and> f \<notin> set (se_worktrees env) \<and> \<not> matches_with_ancestors m f"

lemma visit_index_step:
  "visit_index env lstat m f r =
     \<lparr> dr_files = dr_files r @ (if index_kept env lstat m f \<and> f \<in> eligible_files env then [f] else []),
       dr_ignored = dr_ignored r + (if index_kept env lstat m f \<and> f \<in> eligible_files env then 0 else 1),
       dr_skips = dr_skips r @ (if index_kept env lstat m f then record_secret_skip (project_eligibility env f (path_name f)) f [] else []),
       dr_complete = (dr_complete r \<and> lstat f \<noteq> None) \<rparr>"
  by (cases "lstat f"; cases "project_eligibility env f (path_name f)")
    (auto simp: visit_index_def index_kept_def eligible_files_def record_secret_skip_def)

lemma fold_visit_index:
  "fold (visit_index env lstat m) es r =
     \<lparr> dr_files = dr_files r @ filter (\<lambda>f. index_kept env lstat m f \<and> f \<in> eligible_files env) es,
       dr_ignored = dr_ignored r + length (filter (\<lambda>f. \<not> (index_kept env lstat m f \<and> f \<in> eligible_files env)) es),
       dr_skips = dr_skips r @ concat (map (\<lambda>f. record_secret_skip (project_eligibility env f (path_name f)) f []) (filter (index_kept env lstat m) es)),
       dr_complete = (dr_complete r \<and> list_all (\<lambda>f. lstat f \<noteq> None) es) \<rparr>"
proof (induction es arbitrary: r)
  case (Cons f es)
  show ?case unfolding fold_simps(2) unfolding Cons.IH by (auto simp: visit_index_step)
qed simp

lemma index_safe:
  assumes "discover_git_index_sources env lstat = Inr r" "se_ls_files env = Inr out"
  shows "safe_report env r" "set (dr_files r) \<subseteq> {f \<in> set (index_entries out). lstat f = Some RegularKind}"
    "dr_complete r \<longleftrightarrow> list_all (\<lambda>f. lstat f \<noteq> None) (index_entries out)"
    "dr_ignored r + length (dr_files r) = length (index_entries out)"
proof -
  obtain m where r: "r = (let r = fold (visit_index env lstat m) (index_entries out) \<lparr> dr_files = [], dr_ignored = 0, dr_skips = [], dr_complete = True \<rparr>
      in r\<lparr>dr_files := sort (dr_files r)\<rparr>)"
    using assms by (auto simp: discover_git_index_sources_def bindE_def Let_def split: sum.splits prod.splits)
  note r = r [unfolded fold_visit_index Let_def]
  show "set (dr_files r) \<subseteq> {f \<in> set (index_entries out). lstat f = Some RegularKind}" by (auto simp: r index_kept_def)
  show "dr_complete r \<longleftrightarrow> list_all (\<lambda>f. lstat f \<noteq> None) (index_entries out)" by (simp add: r)
  show "dr_ignored r + length (dr_files r) = length (index_entries out)"
    using sum_length_filter_compl [of "\<lambda>f. index_kept env lstat m f \<and> f \<in> eligible_files env" "index_entries out"] by (simp add: r)
  have "x \<in> named_secrets" if "x \<in> set (record_secret_skip (project_eligibility env f (path_name f)) f [])" for f x
    using that secret_verdict by (cases "project_eligibility env f (path_name f)") (auto simp: record_secret_skip_def)
  then show "safe_report env r" by (auto simp: safe_report_def r)
qed


end
