(* ===== verification/Ingest_Ledger.thy ===== *)
theory Ingest_Ledger
  imports Rust_Collections Storage_Base
begin

text \<open>
  The ingest manifest and the diary summaries of the metadata database (\<open>IngestManifestStore\<close>,
  \<open>DiaryStore\<close> and their companions in \<open>crates/agentpalace-storage/src/sqlite.rs\<close>). An ingest run is
  pending until its drawers are written and then committed or failed; its manifest lists its drawers; the
  files table holds what was last committed for a source key. Times are stored as RFC 3339 text and compared
  as text, which \<open>enc\<close> renders. The primary keys of SQLite are checked where a row is inserted.
\<close>

section \<open>Rows\<close>

datatype ingest_run_status = RunPending | RunCommitted | RunFailed

record ingest_run =
  ir_id :: nat
  ir_kind :: rstr
  ir_source_key :: rstr
  ir_status :: ingest_run_status
  ir_created_at :: int
  ir_updated_at :: int
  ir_failed_reason :: "rstr option"

record manifest_entry =
  mf_run_id :: nat
  mf_drawer_id :: rstr
  mf_source_file :: rstr
  mf_content_hash :: rstr
  mf_status :: ingest_run_status

record ingest_file =
  fl_source_key :: rstr
  fl_source_file :: rstr
  fl_content_hash :: rstr
  fl_last_ingested_at :: int
  fl_kind :: rstr
  fl_drawer_count :: nat

record diary_row =
  dy_entry_id :: rstr
  dy_summary :: rstr
  dy_last_updated :: "int option"

record retryable_run =
  rr_run :: ingest_run
  rr_chunk_ids :: "rstr list"

record ingest_db =
  ib_runs :: "ingest_run list"
  ib_last_run :: nat                   \<comment> \<open>\<open>AUTOINCREMENT\<close>: the largest identifier ever given\<close>
  ib_manifests :: "manifest_entry list"
  ib_files :: "ingest_file list"
  ib_diary :: "diary_row list"

definition ingest_db_init :: ingest_db where
  "ingest_db_init = \<lparr> ib_runs = [], ib_last_run = 0, ib_manifests = [], ib_files = [], ib_diary = [] \<rparr>"

section \<open>Runs\<close>

text \<open>The \<open>INSERT\<close> of a manifest entry, whose key is the run and the drawer.\<close>

fun insert_manifests :: "nat \<Rightarrow> manifest_entry list \<Rightarrow> manifest_entry list \<Rightarrow> storage_error + manifest_entry list" where
  "insert_manifests run_id [] rows = Inr rows"
| "insert_manifests run_id (entry # entries) rows =
     (if list_ex (\<lambda>r. mf_run_id r = run_id \<and> mf_drawer_id r = mf_drawer_id entry) rows
      then Inl (Sqlite (UniqueViolation (lit ''ingest_manifests'')))
      else insert_manifests run_id entries (rows @ [entry\<lparr> mf_run_id := run_id, mf_status := RunPending \<rparr>]))"

definition insert_run :: "(int \<Rightarrow> rstr) \<Rightarrow> rstr \<Rightarrow> rstr \<Rightarrow> int \<Rightarrow> ingest_db \<Rightarrow> storage_error + ingest_run \<times> ingest_db" where
  "insert_run enc kind key created_at db =
     (if list_ex (\<lambda>r. ir_kind r = kind \<and> ir_source_key r = key \<and> enc (ir_created_at r) = enc created_at) (ib_runs db)
      then Inl (Sqlite (UniqueViolation (lit ''ingest_runs'')))
      else let run = \<lparr> ir_id = ib_last_run db + 1, ir_kind = kind, ir_source_key = key, ir_status = RunPending,
                      ir_created_at = created_at, ir_updated_at = created_at, ir_failed_reason = None \<rparr>
           in Inr (run, db\<lparr> ib_runs := ib_runs db @ [run], ib_last_run := ib_last_run db + 1 \<rparr>))"

definition create_pending_run ::
  "(int \<Rightarrow> rstr) \<Rightarrow> rstr \<Rightarrow> rstr \<Rightarrow> manifest_entry list \<Rightarrow> int \<Rightarrow> ingest_db \<Rightarrow> (storage_error + ingest_run) \<times> ingest_db" where
  "create_pending_run enc kind key entries created_at db =
     try_tx db (insert_run enc kind key created_at db) (\<lambda>(run, db1).
     try_tx db (insert_manifests (ir_id run) entries (ib_manifests db1)) (\<lambda>rows.
       (Inr run, db1\<lparr> ib_manifests := rows \<rparr>)))"

definition DIARY_SUMMARY_MAX_CHARS :: nat where "DIARY_SUMMARY_MAX_CHARS = 400"

definition summary_too_long :: storage_error where
  "summary_too_long = Invariant (lit ''diary summary exceeds maximum length of '' @ show_nat DIARY_SUMMARY_MAX_CHARS @ lit '' characters'')"

text \<open>The run of a diary entry with its summary; nothing when another writer owns the entry.\<close>

definition create_pending_diary_run ::
  "(int \<Rightarrow> rstr) \<Rightarrow> rstr \<Rightarrow> rstr \<Rightarrow> manifest_entry list \<Rightarrow> rstr \<Rightarrow> rstr \<Rightarrow> int \<Rightarrow> int \<Rightarrow> ingest_db
     \<Rightarrow> (storage_error + ingest_run option) \<times> ingest_db" where
  "create_pending_diary_run enc kind key entries drawer_id summary filed_at created_at db =
     (if DIARY_SUMMARY_MAX_CHARS < length summary then (Inl summary_too_long, db)
      else
        try_tx db (insert_run enc kind key created_at db) (\<lambda>(run, db1).
        try_tx db (insert_manifests (ir_id run) entries (ib_manifests db1)) (\<lambda>rows.
          if list_ex (\<lambda>r. dy_entry_id r = drawer_id) (ib_diary db1) then (Inr None, db)
          else (Inr (Some run), db1\<lparr> ib_manifests := rows,
                  ib_diary := ib_diary db1 @ [\<lparr> dy_entry_id = drawer_id, dy_summary = summary, dy_last_updated = Some filed_at \<rparr>] \<rparr>))))"

definition set_run_status :: "nat \<Rightarrow> ingest_run_status \<Rightarrow> int \<Rightarrow> rstr option \<Rightarrow> ingest_db \<Rightarrow> ingest_db" where
  "set_run_status run_id status t reason db =
     db\<lparr> ib_manifests := update_rows (\<lambda>r. mf_run_id r = run_id) (\<lambda>r. r\<lparr> mf_status := status \<rparr>) (ib_manifests db),
         ib_runs := update_rows (\<lambda>r. ir_id r = run_id)
           (\<lambda>r. r\<lparr> ir_status := status, ir_updated_at := t, ir_failed_reason := reason \<rparr>) (ib_runs db) \<rparr>"

definition upsert_file :: "ingest_file \<Rightarrow> ingest_file list \<Rightarrow> ingest_file list" where
  "upsert_file f rows =
     (if list_ex (\<lambda>r. fl_source_key r = fl_source_key f) rows
      then update_rows (\<lambda>r. fl_source_key r = fl_source_key f) (\<lambda>_. f) rows
      else rows @ [f])"

definition mark_run_committed ::
  "nat \<Rightarrow> rstr \<Rightarrow> rstr \<Rightarrow> rstr \<Rightarrow> nat \<Rightarrow> int \<Rightarrow> ingest_db \<Rightarrow> (storage_error + unit) \<times> ingest_db" where
  "mark_run_committed run_id source_key source_file content_hash drawer_count committed_at db =
     (let db1 = set_run_status run_id RunCommitted committed_at None db in
      case find_row (\<lambda>r. ir_id r = run_id) (ib_runs db1) of
        None \<Rightarrow> (Inl (Sqlite (NoRow (lit ''ingest_runs''))), db)
      | Some run \<Rightarrow>
          (Inr (), db1\<lparr> ib_files := upsert_file
             \<lparr> fl_source_key = source_key, fl_source_file = source_file, fl_content_hash = content_hash,
               fl_last_ingested_at = committed_at, fl_kind = ir_kind run, fl_drawer_count = drawer_count \<rparr> (ib_files db1) \<rparr>))"

definition mark_run_failed :: "nat \<Rightarrow> rstr \<Rightarrow> int \<Rightarrow> ingest_db \<Rightarrow> (storage_error + unit) \<times> ingest_db" where
  "mark_run_failed run_id reason failed_at db = (Inr (), set_run_status run_id RunFailed failed_at (Some reason) db)"

section \<open>Queries\<close>

definition manifest_ids :: "ingest_db \<Rightarrow> nat \<Rightarrow> rstr list" where
  "manifest_ids db run_id = sort (map mf_drawer_id (filter (\<lambda>r. mf_run_id r = run_id) (ib_manifests db)))"

definition retryable :: "ingest_db \<Rightarrow> (ingest_run \<Rightarrow> bool) \<Rightarrow> retryable_run list" where
  "retryable db p =
     map (\<lambda>run. \<lparr> rr_run = run, rr_chunk_ids = manifest_ids db (ir_id run) \<rparr>) (sort_key ir_id (filter p (ib_runs db)))"

definition stale_pending_runs :: "(int \<Rightarrow> rstr) \<Rightarrow> int \<Rightarrow> ingest_db \<Rightarrow> retryable_run list" where
  "stale_pending_runs enc older_than db =
     retryable db (\<lambda>r. ir_status r = RunPending \<and> enc (ir_updated_at r) < enc older_than)"

definition stale_failed_diary_runs :: "(int \<Rightarrow> rstr) \<Rightarrow> int \<Rightarrow> ingest_db \<Rightarrow> retryable_run list" where
  "stale_failed_diary_runs enc older_than db =
     retryable db (\<lambda>r. ir_status r = RunFailed \<and> ir_kind r = lit ''diary'' \<and> enc (ir_updated_at r) < enc older_than)"

definition committed_drawer_ids :: "ingest_db \<Rightarrow> rstr list" where
  "committed_drawer_ids db = sort (map mf_drawer_id (filter (\<lambda>r. mf_status r = RunCommitted) (ib_manifests db)))"

text \<open>The latest committed run of a source key, and the drawers of its manifest.\<close>

definition latest_committed :: "ingest_db \<Rightarrow> rstr \<Rightarrow> nat option" where
  "latest_committed db source_key =
     (case filter (\<lambda>r. ir_source_key r = source_key \<and> ir_status r = RunCommitted) (ib_runs db) of
        [] \<Rightarrow> None
      | rs \<Rightarrow> Some (Max (set (map ir_id rs))))"

definition committed_drawer_ids_for_source_key :: "ingest_db \<Rightarrow> rstr \<Rightarrow> rstr list" where
  "committed_drawer_ids_for_source_key db source_key =
     (case latest_committed db source_key of
        None \<Rightarrow> []
      | Some run_id \<Rightarrow>
          sort (map mf_drawer_id (filter (\<lambda>r. mf_run_id r = run_id \<and> mf_status r = RunCommitted) (ib_manifests db))))"

definition committed_drawer_ids_for_source_keys :: "ingest_db \<Rightarrow> rstr list \<Rightarrow> rstr list" where
  "committed_drawer_ids_for_source_keys db source_keys =
     concat (map (committed_drawer_ids_for_source_key db) source_keys)"

definition query_ingested_file :: "ingest_db \<Rightarrow> rstr \<Rightarrow> ingest_file option" where
  "query_ingested_file db source_key = find_row (\<lambda>f. fl_source_key f = source_key) (ib_files db)"

fun skip_fields :: "nat \<Rightarrow> rstr \<Rightarrow> rstr option" where
  "skip_fields 0 path = Some path"
| "skip_fields (Suc n) path = (case split_once 58 path of None \<Rightarrow> None | Some (_, tail) \<Rightarrow> skip_fields n tail)"

definition legacy_source_key :: "rstr \<Rightarrow> rstr option" where
  "legacy_source_key source_key =
     (case split_once 58 source_key of
        None \<Rightarrow> None
      | Some (kind, remainder) \<Rightarrow>
          (case (if kind = lit ''projects'' then Some 2 else if kind = lit ''convos'' then Some 3 else None) of
             None \<Rightarrow> None
           | Some required \<Rightarrow> map_option (\<lambda>path. kind @ 58 # path) (skip_fields required remainder)))"

definition get_ingested_file :: "ingest_db \<Rightarrow> rstr \<Rightarrow> ingest_file option" where
  "get_ingested_file db source_key =
     (case query_ingested_file db source_key of
        Some f \<Rightarrow> Some f
      | None \<Rightarrow> (case legacy_source_key source_key of Some key \<Rightarrow> query_ingested_file db key | None \<Rightarrow> None))"

text \<open>\<open>LIKE ... ESCAPE '\'\<close>, case sensitive: percent (37) is any text, underscore (95) any character, and
  the backslash (92) quotes the next character.\<close>

fun sql_like :: "rstr \<Rightarrow> rstr \<Rightarrow> bool" where
  "sql_like [] s = (s = [])"
| "sql_like (p # ps) s =
     (if p = 92 then (case ps of [] \<Rightarrow> False | q # qs \<Rightarrow> s \<noteq> [] \<and> hd s = q \<and> sql_like qs (tl s))
      else if p = 37 then list_ex (\<lambda>i. sql_like ps (drop i s)) [0..<length s + 1]
      else if p = 95 then s \<noteq> [] \<and> sql_like ps (tl s)
      else s \<noteq> [] \<and> hd s = p \<and> sql_like ps (tl s))"

definition like_prefix_pattern :: "rstr \<Rightarrow> rstr" where
  "like_prefix_pattern prefix = concat (map (\<lambda>ch. if ch \<in> {37, 95, 92} then [92, ch] else [ch]) prefix) @ [37]"

definition ingested_source_keys_with_prefix :: "ingest_db \<Rightarrow> rstr \<Rightarrow> rstr list" where
  "ingested_source_keys_with_prefix db prefix =
     sort (filter (sql_like (like_prefix_pattern prefix)) (map fl_source_key (ib_files db)))"

definition ingested_source_counts_with_prefix :: "ingest_db \<Rightarrow> rstr \<Rightarrow> (rstr \<times> nat) list" where
  "ingested_source_counts_with_prefix db prefix =
     map (\<lambda>f. (fl_source_key f, fl_drawer_count f))
       (sort_key fl_source_key (filter (\<lambda>f. sql_like (like_prefix_pattern prefix) (fl_source_key f)) (ib_files db)))"

section \<open>Deletion\<close>

definition delete_source_rows :: "rstr \<Rightarrow> ingest_db \<Rightarrow> ingest_db" where
  "delete_source_rows source_key db =
     (let run_ids = map ir_id (filter (\<lambda>r. ir_source_key r = source_key) (ib_runs db)) in
      db\<lparr> ib_manifests := filter (\<lambda>r. mf_run_id r \<notin> set run_ids) (ib_manifests db),
          ib_runs := filter (\<lambda>r. ir_source_key r \<noteq> source_key) (ib_runs db),
          ib_files := filter (\<lambda>f. fl_source_key f \<noteq> source_key) (ib_files db) \<rparr>)"

definition delete_source_key :: "rstr \<Rightarrow> ingest_db \<Rightarrow> (storage_error + unit) \<times> ingest_db" where
  "delete_source_key source_key db = (Inr (), delete_source_rows source_key db)"

definition delete_source_keys :: "rstr list \<Rightarrow> ingest_db \<Rightarrow> (storage_error + unit) \<times> ingest_db" where
  "delete_source_keys source_keys db = (Inr (), fold delete_source_rows source_keys db)"

section \<open>Diary summaries\<close>

definition store_diary_summary :: "rstr \<Rightarrow> rstr \<Rightarrow> ingest_db \<Rightarrow> (storage_error + unit) \<times> ingest_db" where
  "store_diary_summary entry_id summary db =
     (if DIARY_SUMMARY_MAX_CHARS < length summary then (Inl summary_too_long, db)
      else (Inr (), db\<lparr> ib_diary :=
        if list_ex (\<lambda>r. dy_entry_id r = entry_id) (ib_diary db)
        then update_rows (\<lambda>r. dy_entry_id r = entry_id) (\<lambda>r. r\<lparr> dy_summary := summary \<rparr>) (ib_diary db)
        else ib_diary db @ [\<lparr> dy_entry_id = entry_id, dy_summary = summary, dy_last_updated = None \<rparr>] \<rparr>))"

definition get_diary_summary :: "ingest_db \<Rightarrow> rstr \<Rightarrow> rstr option" where
  "get_diary_summary db entry_id = map_option dy_summary (find_row (\<lambda>r. dy_entry_id r = entry_id) (ib_diary db))"

definition get_diary_summaries :: "ingest_db \<Rightarrow> rstr list \<Rightarrow> (rstr \<times> rstr) list" where
  "get_diary_summaries db entry_ids =
     map (\<lambda>r. (dy_entry_id r, dy_summary r)) (filter (\<lambda>r. dy_entry_id r \<in> set entry_ids) (ib_diary db))"

definition get_diary_last_updated :: "ingest_db \<Rightarrow> rstr list \<Rightarrow> (rstr \<times> int) list" where
  "get_diary_last_updated db entry_ids =
     map (\<lambda>r. (dy_entry_id r, the (dy_last_updated r)))
       (filter (\<lambda>r. dy_last_updated r \<noteq> None \<and> dy_entry_id r \<in> set entry_ids) (ib_diary db))"

definition delete_diary_summary :: "rstr \<Rightarrow> ingest_db \<Rightarrow> (storage_error + unit) \<times> ingest_db" where
  "delete_diary_summary entry_id db = (Inr (), db\<lparr> ib_diary := filter (\<lambda>r. dy_entry_id r \<noteq> entry_id) (ib_diary db) \<rparr>)"

definition touch_diary_entry :: "rstr \<Rightarrow> rstr option \<Rightarrow> rstr \<Rightarrow> int \<Rightarrow> ingest_db \<Rightarrow> (storage_error + unit) \<times> ingest_db" where
  "touch_diary_entry entry_id summary fallback_summary updated_at db =
     (let inserted = (case summary of Some s \<Rightarrow> s | None \<Rightarrow> fallback_summary) in
      if DIARY_SUMMARY_MAX_CHARS < length inserted then (Inl summary_too_long, db)
      else (Inr (), db\<lparr> ib_diary :=
        if list_ex (\<lambda>r. dy_entry_id r = entry_id) (ib_diary db)
        then update_rows (\<lambda>r. dy_entry_id r = entry_id)
               (\<lambda>r. r\<lparr> dy_last_updated := Some updated_at, dy_summary := if summary \<noteq> None then inserted else dy_summary r \<rparr>) (ib_diary db)
        else ib_diary db @ [\<lparr> dy_entry_id = entry_id, dy_summary = inserted, dy_last_updated = Some updated_at \<rparr>] \<rparr>))"

end
