(* ===== verification/Storage_Engine.thy ===== *)
theory Storage_Engine
  imports Ingest_Ledger Federation_Config
begin

text \<open>
  The storage engine (\<open>crates/agentpalace-storage/src/engine.rs\<close>) over its two databases: the metadata
  database of \<open>Ingest_Ledger\<close> and the drawer table (\<open>lance.rs\<close>). Neither is atomic with the other, so an
  operation is an \<open>eprog\<close>: a sequence of calls, each one atomic, each of which may work, fail with an error
  (and then leaves its database as it was), or never be reached because the process stops. What LanceDB does
  with its files is not modelled; the table is the list of its rows.
\<close>

section \<open>The drawer table\<close>

text \<open>\<open>DrawerRecord\<close>, less the locator, the repository metadata other than the view's name, and the provenance,
  which no operation here reads. A 32-bit float is its bits, a date the number of its day.\<close>

record stored_drawer =
  sd_id :: rstr
  sd_wing :: rstr
  sd_room :: rstr
  sd_hall :: "rstr option"
  sd_date :: "int option"
  sd_source_file :: rstr
  sd_chunk_index :: nat
  sd_ingest_mode :: rstr
  sd_extract_mode :: "rstr option"
  sd_added_by :: rstr
  sd_filed_at :: int
  sd_importance :: "nat option"
  sd_emotional_weight :: "nat option"
  sd_weight :: "nat option"
  sd_content :: rstr
  sd_content_hash :: rstr
  sd_embedding :: "nat list"
  sd_view_name :: "rstr option"

record drawer_filter =
  df_ids :: "rstr list"
  df_wing :: "rstr option"
  df_wings :: "rstr list"
  df_room :: "rstr option"
  df_hall :: "rstr option"
  df_source_file :: "rstr option"
  df_source_files :: "rstr list"
  df_view :: "rstr option"
  df_include_all_views :: bool
  df_branch_view_only :: bool
  df_limit :: "nat option"

definition any_drawer :: drawer_filter where
  "any_drawer = \<lparr> df_ids = [], df_wing = None, df_wings = [], df_room = None, df_hall = None, df_source_file = None,
     df_source_files = [], df_view = None, df_include_all_views = False, df_branch_view_only = False, df_limit = None \<rparr>"

text \<open>The predicate \<open>compile_filter\<close> writes as SQL; a comparison with a null is not true.\<close>

definition view_matches :: "drawer_filter \<Rightarrow> stored_drawer \<Rightarrow> bool" where
  "view_matches f d =
     (let canonical = (sd_ingest_mode d \<noteq> lit ''projects-branch'') in
      if df_include_all_views f \<or> df_view f = Some (lit ''full'') then True
      else case df_view f of
             None \<Rightarrow> canonical
           | Some view \<Rightarrow>
               if view = lit ''canonical'' then canonical
               else
                 let branch = (sd_view_name d = Some view
                       \<or> sd_view_name d = None \<and> sd_hall d = Some (lit ''view:'' @ view))
                 in if df_branch_view_only f then branch else canonical \<or> branch)"

definition filter_matches :: "drawer_filter \<Rightarrow> stored_drawer \<Rightarrow> bool" where
  "filter_matches f d \<longleftrightarrow>
     (df_ids f = [] \<or> sd_id d \<in> set (df_ids f))
     \<and> none_or (\<lambda>w. sd_wing d = w) (df_wing f)
     \<and> (df_wings f = [] \<or> sd_wing d \<in> set (df_wings f))
     \<and> none_or (\<lambda>r. sd_room d = r) (df_room f)
     \<and> none_or (\<lambda>h. sd_hall d = Some h) (df_hall f)
     \<and> none_or (\<lambda>s. sd_source_file d = s) (df_source_file f)
     \<and> (df_source_files f = [] \<or> sd_source_file d \<in> set (df_source_files f))
     \<and> view_matches f d"

definition list_drawers :: "drawer_filter \<Rightarrow> stored_drawer list \<Rightarrow> stored_drawer list" where
  "list_drawers f rows =
     (case df_limit f of
        None \<Rightarrow> filter (filter_matches f) rows
      | Some limit \<Rightarrow> take limit (filter (filter_matches f) rows))"

definition get_drawer :: "rstr \<Rightarrow> stored_drawer list \<Rightarrow> stored_drawer option" where
  "get_drawer drawer_id rows =
     (case list_drawers (any_drawer\<lparr> df_include_all_views := True, df_ids := [drawer_id] \<rparr>) rows of
        [] \<Rightarrow> None | d # _ \<Rightarrow> Some d)"

definition existing_ids :: "rstr list \<Rightarrow> stored_drawer list \<Rightarrow> rstr list" where
  "existing_ids ids rows =
     (if ids = [] then []
      else map sd_id (list_drawers (any_drawer\<lparr> df_ids := ids, df_include_all_views := True \<rparr>) rows))"

definition count_by_wing_room :: "drawer_filter \<Rightarrow> bool \<Rightarrow> stored_drawer list \<Rightarrow> (rstr \<times> (rstr \<times> nat) list) list" where
  "count_by_wing_room f exclude_diary rows =
     fold (\<lambda>d counts. bmap_update (sd_wing d)
             (\<lambda>rooms. bmap_update (sd_room d) (\<lambda>n. (case n of Some k \<Rightarrow> k | None \<Rightarrow> 0) + 1)
                        (case rooms of Some rs \<Rightarrow> rs | None \<Rightarrow> [])) counts)
       (filter (\<lambda>d. filter_matches f d
           \<and> (if exclude_diary then sd_wing d \<noteq> SHARED_AGENT_DIARY_WING \<and> sd_room d \<noteq> DIARY_ROOM else True)) rows) []"

section \<open>Programs over the two databases\<close>

record palace =
  pl_db :: ingest_db
  pl_drawers :: "stored_drawer list"
  pl_active :: bool                       \<comment> \<open>the activity signal, in memory\<close>

text \<open>\<open>Act f k e\<close>: a call that takes the state \<open>s\<close> to \<open>f s\<close> and goes on as \<open>k s\<close>, or fails and goes on as \<open>e\<close>
  with the error.\<close>

datatype 'a eprog =
  Return 'a
| Act "palace \<Rightarrow> palace" "palace \<Rightarrow> 'a eprog" "storage_error \<Rightarrow> 'a eprog"

definition call_db ::
  "(ingest_db \<Rightarrow> (storage_error + 'b) \<times> ingest_db) \<Rightarrow> (storage_error + 'b \<Rightarrow> 'a eprog) \<Rightarrow> 'a eprog" where
  "call_db g k = Act (\<lambda>s. s\<lparr> pl_db := snd (g (pl_db s)) \<rparr>) (\<lambda>s. k (fst (g (pl_db s)))) (\<lambda>e. k (Inl e))"

definition read_db :: "(ingest_db \<Rightarrow> 'b) \<Rightarrow> (storage_error + 'b \<Rightarrow> 'a eprog) \<Rightarrow> 'a eprog" where
  "read_db g k = Act id (\<lambda>s. k (Inr (g (pl_db s)))) (\<lambda>e. k (Inl e))"

definition read_table :: "(stored_drawer list \<Rightarrow> 'b) \<Rightarrow> (storage_error + 'b \<Rightarrow> 'a eprog) \<Rightarrow> 'a eprog" where
  "read_table g k = Act id (\<lambda>s. k (Inr (g (pl_drawers s)))) (\<lambda>e. k (Inl e))"

definition write_table :: "(stored_drawer list \<Rightarrow> stored_drawer list) \<Rightarrow> (storage_error + unit \<Rightarrow> 'a eprog) \<Rightarrow> 'a eprog" where
  "write_table g k = Act (\<lambda>s. s\<lparr> pl_drawers := g (pl_drawers s) \<rparr>) (\<lambda>_. k (Inr ())) (\<lambda>e. k (Inl e))"

text \<open>\<open>signal_activity\<close> cannot fail.\<close>

definition signal_activity :: "'a eprog \<Rightarrow> 'a eprog" where
  "signal_activity k = Act (\<lambda>s. s\<lparr> pl_active := True \<rparr>) (\<lambda>_. k) (\<lambda>_. k)"

text \<open>The \<open>?\<close> operator.\<close>

definition try_p :: "storage_error + 'b \<Rightarrow> ('b \<Rightarrow> (storage_error + 'a) eprog) \<Rightarrow> (storage_error + 'a) eprog" where
  "try_p r k = (case r of Inl e \<Rightarrow> Return (Inl e) | Inr y \<Rightarrow> k y)"

text \<open>A program and then another.\<close>

primrec and_then :: "'a eprog \<Rightarrow> ('a \<Rightarrow> 'b eprog) \<Rightarrow> 'b eprog" where
  "and_then (Return x) g = g x"
| "and_then (Act f k h) g = Act f (\<lambda>s. and_then (k s) g) (\<lambda>e. and_then (h e) g)"

section \<open>Writing the table\<close>

definition remove_rows :: "rstr list \<Rightarrow> stored_drawer list \<Rightarrow> stored_drawer list" where
  "remove_rows ids rows = filter (\<lambda>d. sd_id d \<notin> set ids) rows"

text \<open>\<open>delete_drawers\<close>: the rows are counted and then deleted in one write.\<close>

definition delete_drawers :: "rstr list \<Rightarrow> (storage_error + unit \<Rightarrow> 'a eprog) \<Rightarrow> 'a eprog" where
  "delete_drawers ids k = (if ids = [] then k (Inr ()) else write_table (remove_rows ids) k)"

text \<open>\<open>table.add\<close> and then \<open>ensure_indices\<close>, which may fail after the rows are there.\<close>

definition add_rows :: "stored_drawer list \<Rightarrow> (storage_error + unit \<Rightarrow> 'a eprog) \<Rightarrow> 'a eprog" where
  "add_rows drawers k =
     write_table (\<lambda>rows. rows @ drawers) (\<lambda>r. case r of Inl e \<Rightarrow> k (Inl e) | Inr _ \<Rightarrow> write_table id k)"

datatype duplicate_strategy = StrategyError | StrategyIgnore | StrategyOverwrite

fun check_dimensions :: "nat \<Rightarrow> stored_drawer list \<Rightarrow> storage_error + unit" where
  "check_dimensions dims [] = Inr ()"
| "check_dimensions dims (d # ds) =
     (if length (sd_embedding d) \<noteq> dims then Inl (InvalidEmbeddingDimensions (sd_id d) dims (length (sd_embedding d)))
      else check_dimensions dims ds)"

definition put_drawers ::
  "nat \<Rightarrow> stored_drawer list \<Rightarrow> duplicate_strategy \<Rightarrow> (storage_error + unit \<Rightarrow> 'a eprog) \<Rightarrow> 'a eprog" where
  "put_drawers dims drawers strategy k =
     (if drawers = [] then k (Inr ())
      else case check_dimensions dims drawers of
        Inl e \<Rightarrow> k (Inl e)
      | Inr _ \<Rightarrow>
          read_table (existing_ids (map sd_id drawers)) (\<lambda>r.
            case r of
              Inl e \<Rightarrow> k (Inl e)
            | Inr existing \<Rightarrow>
                (case strategy of
                   StrategyError \<Rightarrow>
                     if existing \<noteq> [] then k (Inl (DuplicateDrawers (bset_of existing))) else add_rows drawers k
                 | StrategyIgnore \<Rightarrow>
                     let filtered = filter (\<lambda>d. sd_id d \<notin> set existing) drawers in
                     if filtered = [] then k (Inr ()) else write_table (\<lambda>rows. rows @ filtered) k
                 | StrategyOverwrite \<Rightarrow>
                     if existing = [] then add_rows drawers k
                     else delete_drawers existing (\<lambda>r. case r of Inl e \<Rightarrow> k (Inl e) | Inr _ \<Rightarrow> add_rows drawers k))))"

text \<open>\<open>replace_drawer\<close>: an update of the row in one write; says whether there was one.\<close>

definition replace_drawer :: "nat \<Rightarrow> stored_drawer \<Rightarrow> (storage_error + bool \<Rightarrow> 'a eprog) \<Rightarrow> 'a eprog" where
  "replace_drawer dims drawer k =
     (if length (sd_embedding drawer) \<noteq> dims
      then k (Inl (InvalidEmbeddingDimensions (sd_id drawer) dims (length (sd_embedding drawer))))
      else Act (\<lambda>s. s\<lparr> pl_drawers := update_rows (\<lambda>d. sd_id d = sd_id drawer) (\<lambda>_. drawer) (pl_drawers s) \<rparr>)
             (\<lambda>s. k (Inr (list_ex (\<lambda>d. sd_id d = sd_id drawer) (pl_drawers s)))) (\<lambda>e. k (Inl e)))"

section \<open>Ingest\<close>

record engine_env =
  ee_enc :: "int \<Rightarrow> rstr"                \<comment> \<open>a time as RFC 3339 text\<close>
  ee_clock :: "nat \<Rightarrow> int"               \<comment> \<open>the readings of the clock in one operation\<close>
  ee_dims :: nat                        \<comment> \<open>the dimensions of the embedding profile\<close>
  ee_error_text :: "storage_error \<Rightarrow> rstr"

record ingest_commit_request =
  ic_kind :: rstr
  ic_source_key :: rstr
  ic_source_file :: rstr
  ic_content_hash :: rstr
  ic_drawers :: "stored_drawer list"
  ic_strategy :: duplicate_strategy

definition manifests_of :: "ingest_commit_request \<Rightarrow> manifest_entry list" where
  "manifests_of req =
     map (\<lambda>d. \<lparr> mf_run_id = 0, mf_drawer_id = sd_id d, mf_source_file = ic_source_file req,
               mf_content_hash = sd_content_hash d, mf_status = RunPending \<rparr>) (ic_drawers req)"

definition finish_run :: "engine_env \<Rightarrow> ingest_commit_request \<Rightarrow> ingest_run \<Rightarrow> (storage_error + nat) eprog" where
  "finish_run env req run =
     call_db (mark_run_committed (ir_id run) (ic_source_key req) (ic_source_file req) (ic_content_hash req)
                (length (ic_drawers req)) (ee_clock env 1))
       (\<lambda>r. try_p r (\<lambda>_. Return (Inr (ir_id run))))"

definition fail_run :: "engine_env \<Rightarrow> ingest_run \<Rightarrow> storage_error \<Rightarrow> (storage_error + nat) eprog" where
  "fail_run env run e =
     call_db (mark_run_failed (ir_id run) (ee_error_text env e) (ee_clock env 1)) (\<lambda>r. try_p r (\<lambda>_. Return (Inl e)))"

definition commit_ingest :: "engine_env \<Rightarrow> ingest_commit_request \<Rightarrow> (storage_error + nat) eprog" where
  "commit_ingest env req =
     call_db (create_pending_run (ee_enc env) (ic_kind req) (ic_source_key req) (manifests_of req) (ee_clock env 0)) (\<lambda>r.
     try_p r (\<lambda>run.
     signal_activity (
     put_drawers (ee_dims env) (ic_drawers req) (ic_strategy req) (\<lambda>w.
       case w of Inr _ \<Rightarrow> finish_run env req run | Inl e \<Rightarrow> fail_run env run e))))"

definition commit_diary_ingest :: "engine_env \<Rightarrow> ingest_commit_request \<Rightarrow> rstr \<Rightarrow> (storage_error + nat) eprog" where
  "commit_diary_ingest env req diary_summary =
     (case ic_drawers req of
        [drawer] \<Rightarrow>
          read_table (existing_ids [sd_id drawer]) (\<lambda>r.
          try_p r (\<lambda>duplicates.
            if duplicates \<noteq> [] then Return (Inl (DuplicateDrawers (bset_of duplicates)))
            else
              call_db (create_pending_diary_run (ee_enc env) (ic_kind req) (ic_source_key req) (manifests_of req)
                         (sd_id drawer) diary_summary (sd_filed_at drawer) (ee_clock env 0)) (\<lambda>r.
              try_p r (\<lambda>created.
                case created of
                  None \<Rightarrow> Return (Inl (DuplicateDrawers [sd_id drawer]))
                | Some run \<Rightarrow>
                    signal_activity (
                    put_drawers (ee_dims env) (ic_drawers req) (ic_strategy req) (\<lambda>w.
                      case w of
                        Inr _ \<Rightarrow> finish_run env req run
                      | Inl e \<Rightarrow> call_db (delete_diary_summary (sd_id drawer)) (\<lambda>_. fail_run env run e)))))))
      | _ \<Rightarrow> Return (Inl (Invariant (lit ''diary ingest requires exactly one drawer''))))"

definition update_diary_entry ::
  "engine_env \<Rightarrow> stored_drawer option \<Rightarrow> rstr \<Rightarrow> rstr option \<Rightarrow> rstr \<Rightarrow> int \<Rightarrow> (storage_error + unit) eprog" where
  "update_diary_entry env drawer entry_id summary fallback_summary updated_at =
     (if opt_holds (\<lambda>d. sd_id d \<noteq> entry_id) drawer
      then Return (Inl (Invariant (lit ''diary update must keep the entry id'')))
      else
        call_db (touch_diary_entry entry_id summary fallback_summary updated_at) (\<lambda>r.
        try_p r (\<lambda>_.
          case drawer of
            None \<Rightarrow> Return (Inr ())
          | Some d \<Rightarrow>
              signal_activity (
              replace_drawer (ee_dims env) d (\<lambda>r.
              try_p r (\<lambda>replaced.
                if replaced then Return (Inr ())
                else call_db (delete_diary_summary entry_id) (\<lambda>r.
                     try_p r (\<lambda>_. Return (Inl (MissingRecord (lit ''diary entry'') entry_id))))))))))"

section \<open>Sources\<close>

definition replace_source_drawers ::
  "engine_env \<Rightarrow> rstr \<Rightarrow> rstr \<Rightarrow> rstr \<Rightarrow> rstr \<Rightarrow> stored_drawer list \<Rightarrow> (storage_error + unit) eprog" where
  "replace_source_drawers env kind source_key source_file content_hash drawers =
     read_db (\<lambda>db. committed_drawer_ids_for_source_key db source_key) (\<lambda>r.
     try_p r (\<lambda>existing.
     and_then (commit_ingest env
       \<lparr> ic_kind = kind, ic_source_key = source_key, ic_source_file = source_file, ic_content_hash = content_hash,
         ic_drawers = drawers, ic_strategy = StrategyOverwrite \<rparr>) (\<lambda>r.
     try_p r (\<lambda>_.
       let stale = filter (\<lambda>i. i \<notin> set (map sd_id drawers)) existing in
       if stale = [] then Return (Inr ()) else signal_activity (delete_drawers stale Return)))))"

definition remove_source_key :: "rstr \<Rightarrow> (storage_error + unit) eprog" where
  "remove_source_key source_key =
     read_db (\<lambda>db. committed_drawer_ids_for_source_key db source_key) (\<lambda>r.
     try_p r (\<lambda>ids.
       let rest = (\<lambda>r. try_p r (\<lambda>_. call_db (delete_source_key source_key) Return)) in
       if ids = [] then rest (Inr ()) else signal_activity (delete_drawers ids rest)))"

definition DELETE_CHUNK :: nat where "DELETE_CHUNK = 512"

function chunks :: "nat \<Rightarrow> 'a list \<Rightarrow> 'a list list" where
  "chunks n xs = (if xs = [] \<or> n = 0 then [] else take n xs # chunks n (drop n xs))"
  by pat_completeness auto
termination by (relation "measure (\<lambda>(_, xs). length xs)") auto

declare chunks.simps [simp del]

fun delete_batches :: "rstr list list \<Rightarrow> (storage_error + unit \<Rightarrow> 'a eprog) \<Rightarrow> 'a eprog" where
  "delete_batches [] k = k (Inr ())"
| "delete_batches (c # cs) k = delete_drawers c (\<lambda>r. case r of Inl e \<Rightarrow> k (Inl e) | Inr _ \<Rightarrow> delete_batches cs k)"

definition remove_source_prefix :: "rstr \<Rightarrow> (storage_error + nat \<times> nat) eprog" where
  "remove_source_prefix prefix =
     read_db (\<lambda>db. ingested_source_counts_with_prefix db prefix) (\<lambda>r.
     try_p r (\<lambda>sources.
       if sources = [] then Return (Inr (0, 0))
       else
         let keys = map fst sources in
         read_db (\<lambda>db. committed_drawer_ids_for_source_keys db keys) (\<lambda>r.
         try_p r (\<lambda>ids.
           let rest = (\<lambda>r. try_p r (\<lambda>_. call_db (delete_source_keys keys) (\<lambda>r.
                       try_p r (\<lambda>_. Return (Inr (length keys, length ids)))))) in
           if ids = [] then rest (Inr ()) else signal_activity (delete_batches (chunks DELETE_CHUNK ids) rest)))))"

section \<open>Reconciliation\<close>

definition orphaned_rows :: "retryable_run list \<Rightarrow> rstr list \<Rightarrow> stored_drawer list \<Rightarrow> rstr list" where
  "orphaned_rows stale_runs committed rows =
     filter (\<lambda>i. i \<in> set (concat (map rr_chunk_ids stale_runs)) \<and> i \<notin> set committed)
       (map sd_id (list_drawers (any_drawer\<lparr> df_include_all_views := True \<rparr>) rows))"

definition prune_orphaned_rows ::
  "retryable_run list \<Rightarrow> (storage_error + rstr list \<Rightarrow> (storage_error + 'a) eprog) \<Rightarrow> (storage_error + 'a) eprog" where
  "prune_orphaned_rows stale_runs k =
     read_db committed_drawer_ids (\<lambda>r. case r of Inl e \<Rightarrow> k (Inl e) | Inr committed \<Rightarrow>
     Act id (\<lambda>s.
       let orphaned = orphaned_rows stale_runs committed (pl_drawers s) in
       if orphaned = [] then k (Inr [])
       else signal_activity (delete_drawers orphaned (\<lambda>r. case r of Inl e \<Rightarrow> k (Inl e) | Inr _ \<Rightarrow> k (Inr orphaned))))
       (\<lambda>e. k (Inl e)))"

fun delete_summaries :: "rstr list \<Rightarrow> (storage_error + unit \<Rightarrow> 'a eprog) \<Rightarrow> 'a eprog" where
  "delete_summaries [] k = k (Inr ())"
| "delete_summaries (i # ids) k =
     call_db (delete_diary_summary i) (\<lambda>r. case r of Inl e \<Rightarrow> k (Inl e) | Inr _ \<Rightarrow> delete_summaries ids k)"

fun fail_stale :: "(nat \<Rightarrow> int) \<Rightarrow> nat \<Rightarrow> retryable_run list \<Rightarrow> (storage_error + unit) eprog" where
  "fail_stale clock n [] = Return (Inr ())"
| "fail_stale clock n (r # rs) =
     call_db (mark_run_failed (ir_id (rr_run r)) (lit ''stale pending ingest run'') (clock n)) (\<lambda>r.
     try_p r (\<lambda>_. fail_stale clock (n + 1) rs))"

definition STALE_AFTER :: int where "STALE_AFTER = 3600 * 1000000000"

definition reconcile :: "engine_env \<Rightarrow> (storage_error + unit) eprog" where
  "reconcile env =
     (let cutoff = ee_clock env 0 - STALE_AFTER in
      read_db (stale_pending_runs (ee_enc env) cutoff) (\<lambda>r. try_p r (\<lambda>stale_runs.
      read_db (stale_failed_diary_runs (ee_enc env) cutoff) (\<lambda>r. try_p r (\<lambda>stale_failed_diary.
        let all_for_prune = stale_runs @ stale_failed_diary in
        if all_for_prune = [] then Return (Inr ())
        else
          prune_orphaned_rows all_for_prune (\<lambda>r. try_p r (\<lambda>_.
          read_db committed_drawer_ids (\<lambda>r. try_p r (\<lambda>committed.
          delete_summaries (filter (\<lambda>i. i \<notin> set committed) (concat (map rr_chunk_ids all_for_prune))) (\<lambda>r. try_p r (\<lambda>_.
            fail_stale (ee_clock env) 1 stale_runs)))))))))))"

section \<open>Execution\<close>

text \<open>What becomes of each call in turn; calls past the end of the list work.\<close>

datatype fate = Works | Fails storage_error | Stops

primrec exec :: "'a eprog \<Rightarrow> fate list \<Rightarrow> palace \<Rightarrow> 'a option \<times> palace" where
  "exec (Return x) fs s = (Some x, s)"
| "exec (Act f k h) fs s =
     (case fs of
        [] \<Rightarrow> exec (k s) [] (f s)
      | Works # fs' \<Rightarrow> exec (k s) fs' (f s)
      | Fails e # fs' \<Rightarrow> exec (h e) fs' s
      | Stops # _ \<Rightarrow> (None, s))"

end
