(* ===== verification/Storage_Engine_Inv.thy ===== *)
theory Storage_Engine_Inv
  imports Storage_Engine
begin

text \<open>
  What holds of the two databases whatever becomes of the calls of an operation. \<open>wp Q p s\<close> says that \<open>Q\<close>
  holds of the result and the state of the program \<open>p\<close> from \<open>s\<close> under every fate of its calls; a program
  that stopped has no result.
\<close>

section \<open>Every fate\<close>

primrec wp :: "('a option \<Rightarrow> palace \<Rightarrow> bool) \<Rightarrow> 'a eprog \<Rightarrow> palace \<Rightarrow> bool" where
  "wp Q (Return x) s = Q (Some x) s"
| "wp Q (Act f k h) s \<longleftrightarrow> Q None s \<and> wp Q (k s) (f s) \<and> (\<forall>e. wp Q (h e) s)"

lemma wp_exec: "wp Q p s \<Longrightarrow> exec p fs s = (r, s') \<Longrightarrow> Q r s'"
proof (induction p arbitrary: fs s)
  case (Act f k h)
  show ?case
  proof (cases fs)
    case Nil
    with Act.prems show ?thesis using Act.IH(1) [of "k s" "f s" "[]"] by auto
  next
    case (Cons x fs')
    then show ?thesis using Act.prems Act.IH(1) [of "k s" "f s" fs'] Act.IH(2) [of _ s fs'] by (cases x) auto
  qed
qed simp

lemma wp_mono: "wp Q p s \<Longrightarrow> (\<And>r s. Q r s \<Longrightarrow> R r s) \<Longrightarrow> wp R p s"
  by (induction p arbitrary: s) auto

lemma wp_and_then:
  "wp (\<lambda>r s. case r of None \<Rightarrow> Q None s | Some x \<Rightarrow> wp Q (g x) s) p s \<Longrightarrow> wp Q (and_then p g) s"
  by (induction p arbitrary: s) auto

lemma wp_call_db:
  "wp Q (call_db g k) s \<longleftrightarrow>
     Q None s \<and> wp Q (k (fst (g (pl_db s)))) (s\<lparr> pl_db := snd (g (pl_db s)) \<rparr>) \<and> (\<forall>e. wp Q (k (Inl e)) s)"
  by (simp add: call_db_def)

lemma wp_read_db: "wp Q (read_db g k) s \<longleftrightarrow> Q None s \<and> wp Q (k (Inr (g (pl_db s)))) s \<and> (\<forall>e. wp Q (k (Inl e)) s)"
  by (simp add: read_db_def)

lemma wp_read_table: "wp Q (read_table g k) s \<longleftrightarrow> Q None s \<and> wp Q (k (Inr (g (pl_drawers s)))) s \<and> (\<forall>e. wp Q (k (Inl e)) s)"
  by (simp add: read_table_def)

lemma wp_write_table:
  "wp Q (write_table g k) s \<longleftrightarrow>
     Q None s \<and> wp Q (k (Inr ())) (s\<lparr> pl_drawers := g (pl_drawers s) \<rparr>) \<and> (\<forall>e. wp Q (k (Inl e)) s)"
  by (simp add: write_table_def)

lemma wp_signal: "wp Q (signal_activity k) s \<longleftrightarrow> Q None s \<and> wp Q k (s\<lparr> pl_active := True \<rparr>) \<and> wp Q k s"
  by (auto simp: signal_activity_def)

lemma wp_try: "wp Q (try_p r k) s \<longleftrightarrow> (case r of Inl e \<Rightarrow> Q (Some (Inl e)) s | Inr y \<Rightarrow> wp Q (k y) s)"
  by (simp add: try_p_def split: sum.split)

lemmas wp_simps = wp_call_db wp_read_db wp_read_table wp_write_table wp_signal wp_try

section \<open>The ledger\<close>

definition manifest_key :: "manifest_entry \<Rightarrow> nat \<times> rstr" where
  "manifest_key m = (mf_run_id m, mf_drawer_id m)"

definition runs_ok :: "ingest_db \<Rightarrow> bool" where
  "runs_ok db \<longleftrightarrow> sorted_wrt (<) (map ir_id (ib_runs db)) \<and> (\<forall>r \<in> set (ib_runs db). ir_id r \<le> ib_last_run db)
     \<and> distinct (map manifest_key (ib_manifests db))
     \<and> (\<forall>m \<in> set (ib_manifests db). \<exists>r \<in> set (ib_runs db). ir_id r = mf_run_id m \<and> ir_status r = mf_status m)"

text \<open>The files table records the latest committed run of each source key that has one.\<close>

definition files_ok :: "ingest_db \<Rightarrow> bool" where
  "files_ok db \<longleftrightarrow> distinct (map fl_source_key (ib_files db))
     \<and> (\<forall>key. (query_ingested_file db key = None) = (latest_committed db key = None))
     \<and> (\<forall>f \<in> set (ib_files db). fl_drawer_count f = length (committed_drawer_ids_for_source_key db (fl_source_key f)))"

definition diary_ok :: "ingest_db \<Rightarrow> bool" where
  "diary_ok db \<longleftrightarrow> distinct (map dy_entry_id (ib_diary db))
     \<and> (\<forall>r \<in> set (ib_diary db). length (dy_summary r) \<le> DIARY_SUMMARY_MAX_CHARS)"

definition ingest_db_ok :: "ingest_db \<Rightarrow> bool" where
  "ingest_db_ok db \<longleftrightarrow> runs_ok db \<and> files_ok db \<and> diary_ok db"

definition table_ok :: "nat \<Rightarrow> stored_drawer list \<Rightarrow> bool" where
  "table_ok dims rows \<longleftrightarrow> distinct (map sd_id rows) \<and> (\<forall>d \<in> set rows. length (sd_embedding d) = dims)"

definition palace_inv :: "nat \<Rightarrow> palace \<Rightarrow> bool" where
  "palace_inv dims s \<longleftrightarrow> ingest_db_ok (pl_db s) \<and> table_ok dims (pl_drawers s)"

lemma palace_inv_active [simp]: "palace_inv dims (s\<lparr> pl_active := b \<rparr>) = palace_inv dims s"
  by (simp add: palace_inv_def)

subsection \<open>Committed runs\<close>

definition committed_runs :: "ingest_db \<Rightarrow> rstr \<Rightarrow> nat set" where
  "committed_runs db key = ir_id ` {r \<in> set (ib_runs db). ir_source_key r = key \<and> ir_status r = RunCommitted}"

lemma finite_committed_runs [simp]: "finite (committed_runs db key)"
  by (simp add: committed_runs_def)

lemma latest_committed_eq:
  "latest_committed db key = (if committed_runs db key = {} then None else Some (Max (committed_runs db key)))"
proof -
  let ?f = "filter (\<lambda>r. ir_source_key r = key \<and> ir_status r = RunCommitted) (ib_runs db)"
  have "set (map ir_id ?f) = committed_runs db key" by (auto simp: committed_runs_def)
  then show ?thesis unfolding latest_committed_def by (cases ?f) auto
qed

lemma latest_None: "latest_committed db key = None \<longleftrightarrow> committed_runs db key = {}"
  by (simp add: latest_committed_eq)

text \<open>What a reader sees of a source key: its file and its committed drawers.\<close>

definition committed_view :: "ingest_db \<Rightarrow> rstr \<Rightarrow> ingest_file option \<times> rstr list" where
  "committed_view db key = (query_ingested_file db key, committed_drawer_ids_for_source_key db key)"

definition committed_manifests :: "ingest_db \<Rightarrow> manifest_entry list" where
  "committed_manifests db = filter (\<lambda>m. mf_status m = RunCommitted) (ib_manifests db)"

lemma committed_ids_eq:
  "committed_drawer_ids_for_source_key db key =
     (if committed_runs db key = {} then []
      else sort (map mf_drawer_id (filter (\<lambda>m. mf_run_id m = Max (committed_runs db key)) (committed_manifests db))))"
  by (simp add: committed_drawer_ids_for_source_key_def latest_committed_eq committed_manifests_def filter_filter conj_commute)

lemma committed_drawer_ids_eq: "committed_drawer_ids db = sort (map mf_drawer_id (committed_manifests db))"
  by (simp add: committed_drawer_ids_def committed_manifests_def)

text \<open>Two ledgers with the same files, committed runs and committed manifests look the same.\<close>

definition same_committed :: "ingest_db \<Rightarrow> ingest_db \<Rightarrow> bool" where
  "same_committed db db' \<longleftrightarrow> ib_files db' = ib_files db \<and> committed_runs db' = committed_runs db
     \<and> committed_manifests db' = committed_manifests db"

lemma same_committed_refl [simp]: "same_committed db db"
  by (simp add: same_committed_def)

lemma same_committed_trans: "same_committed a b \<Longrightarrow> same_committed b c \<Longrightarrow> same_committed a c"
  by (simp add: same_committed_def)

lemma same_committed_view:
  "same_committed db db' \<Longrightarrow> committed_view db' = committed_view db"
  "same_committed db db' \<Longrightarrow> committed_drawer_ids db' = committed_drawer_ids db"
  by (auto simp: same_committed_def committed_view_def query_ingested_file_def committed_ids_eq committed_drawer_ids_eq)

lemma same_committed_files_ok: "same_committed db db' \<Longrightarrow> files_ok db \<Longrightarrow> files_ok db'"
  by (simp add: same_committed_def files_ok_def query_ingested_file_def latest_committed_eq committed_ids_eq)

text \<open>Changes that leave the runs, the manifests and the files alone.\<close>

lemma same_tables:
  assumes "ib_runs db' = ib_runs db" "ib_manifests db' = ib_manifests db" "ib_files db' = ib_files db"
  shows "same_committed db db'"
  using assms by (auto simp: same_committed_def committed_runs_def committed_manifests_def fun_eq_iff)

section \<open>The operations of the ledger\<close>

lemma insert_manifests_rows:
  "insert_manifests run_id entries rows = Inr rows' \<Longrightarrow>
   rows' = rows @ map (\<lambda>e. e\<lparr> mf_run_id := run_id, mf_status := RunPending \<rparr>) entries
   \<and> (distinct (map manifest_key rows) \<longrightarrow> distinct (map manifest_key rows'))"
proof (induction entries arbitrary: rows)
  case (Cons e entries)
  let ?e = "e\<lparr> mf_run_id := run_id, mf_status := RunPending \<rparr>"
  from Cons.prems have new: "\<not> list_ex (\<lambda>r. mf_run_id r = run_id \<and> mf_drawer_id r = mf_drawer_id e) rows"
    and rest: "insert_manifests run_id entries (rows @ [?e]) = Inr rows'" by (auto split: if_splits)
  have "manifest_key ?e \<notin> set (map manifest_key rows)" using new by (auto simp: list_ex_iff manifest_key_def)
  show ?case
  proof (intro conjI impI)
    show "rows' = rows @ map (\<lambda>e. e\<lparr> mf_run_id := run_id, mf_status := RunPending \<rparr>) (e # entries)"
      using Cons.IH [OF rest] by simp
    assume "distinct (map manifest_key rows)"
    then have "distinct (map manifest_key (rows @ [?e]))"
      using \<open>manifest_key ?e \<notin> set (map manifest_key rows)\<close> by simp
    then show "distinct (map manifest_key rows')" using Cons.IH [OF rest] by blast
  qed
qed simp

lemma insert_manifests_distinct:
  assumes "insert_manifests run_id entries rows = Inr rows'" "distinct (map manifest_key rows)"
  shows "distinct (map mf_drawer_id entries)"
proof -
  have "distinct (map manifest_key (map (\<lambda>e. e\<lparr> mf_run_id := run_id, mf_status := RunPending \<rparr>) entries))"
  proof -
    have "distinct (map manifest_key rows')" using insert_manifests_rows [OF assms(1)] assms(2) by blast
    then show ?thesis unfolding insert_manifests_rows [OF assms(1), THEN conjunct1] map_append distinct_append by blast
  qed
  then have "distinct (map (\<lambda>e. (run_id, mf_drawer_id e)) entries)" by (simp add: manifest_key_def comp_def)
  then show ?thesis by (auto simp: distinct_map inj_on_def)
qed

text \<open>A ledger with a run more, pending, and its manifest.\<close>

definition opened_run :: "ingest_run \<Rightarrow> manifest_entry list \<Rightarrow> ingest_db \<Rightarrow> ingest_db \<Rightarrow> bool" where
  "opened_run run entries db db' \<longleftrightarrow>
     ib_runs db' = ib_runs db @ [run] \<and> ir_id run = ib_last_run db + 1 \<and> ib_last_run db' = ib_last_run db + 1
     \<and> ir_status run = RunPending
     \<and> ib_manifests db' = ib_manifests db @ map (\<lambda>e. e\<lparr> mf_run_id := ir_id run, mf_status := RunPending \<rparr>) entries
     \<and> distinct (map mf_drawer_id entries) \<and> ib_files db' = ib_files db"

lemma opened_run_same: "opened_run run entries db db' \<Longrightarrow> same_committed db db'"
  by (auto simp: opened_run_def same_committed_def committed_runs_def committed_manifests_def fun_eq_iff filter_empty_conv)

lemma opened_run_ok:
  assumes db: "runs_ok db" and o: "opened_run run entries db db'"
  shows "runs_ok db'"
proof -
  let ?new = "map (\<lambda>e. e\<lparr> mf_run_id := ir_id run, mf_status := RunPending \<rparr>) entries"
  have ids: "mf_run_id m \<le> ib_last_run db" if "m \<in> set (ib_manifests db)" for m
    using db that by (fastforce simp: runs_ok_def)
  have "distinct (map (\<lambda>e. (ir_id run, mf_drawer_id e)) entries)"
    using o by (auto simp: opened_run_def distinct_map inj_on_def)
  then have "distinct (map manifest_key ?new)" by (simp add: manifest_key_def comp_def)
  moreover have "manifest_key m \<noteq> manifest_key n" if "m \<in> set (ib_manifests db)" "n \<in> set ?new" for m n
    using ids [OF that(1)] that(2) o by (auto simp: opened_run_def manifest_key_def)
  then have "manifest_key ` set (ib_manifests db) \<inter> manifest_key ` set ?new = {}" by blast
  ultimately have "distinct (map manifest_key (ib_manifests db @ ?new))"
    using db unfolding runs_ok_def map_append distinct_append set_map by blast
  moreover have "sorted_wrt (<) (map ir_id (ib_runs db @ [run]))"
    using db o by (auto simp: runs_ok_def opened_run_def sorted_wrt_append less_Suc_eq_le)
  moreover have "\<exists>r \<in> set (ib_runs db'). ir_id r = mf_run_id m \<and> ir_status r = mf_status m" if "m \<in> set (ib_manifests db')" for m
    using that db o by (fastforce simp: runs_ok_def opened_run_def)
  moreover have "\<forall>r \<in> set (ib_runs db'). ir_id r \<le> ib_last_run db'" using db o by (auto simp: runs_ok_def opened_run_def)
  moreover have "ib_runs db' = ib_runs db @ [run]" "ib_manifests db' = ib_manifests db @ ?new" using o by (simp_all add: opened_run_def)
  ultimately show ?thesis unfolding runs_ok_def by simp
qed

lemma insert_run_result:
  "insert_run enc kind key t db = Inr (run, db1) \<Longrightarrow>
   run = \<lparr> ir_id = ib_last_run db + 1, ir_kind = kind, ir_source_key = key, ir_status = RunPending,
           ir_created_at = t, ir_updated_at = t, ir_failed_reason = None \<rparr>
   \<and> db1 = db\<lparr> ib_runs := ib_runs db @ [run], ib_last_run := ib_last_run db + 1 \<rparr>"
  by (auto simp: insert_run_def Let_def split: if_splits)

lemma create_pending_run_cases:
  assumes "runs_ok db"
  obtains (failed) e where "create_pending_run enc kind key entries t db = (Inl e, db)"
    | (opened) run db' where "create_pending_run enc kind key entries t db = (Inr run, db')" "opened_run run entries db db'"
        "ir_kind run = kind" "ir_source_key run = key" "ir_updated_at run = t" "ib_diary db' = ib_diary db"
proof (cases "insert_run enc kind key t db")
  case (Inl e)
  then show thesis using failed by (simp add: create_pending_run_def)
next
  case (Inr x)
  obtain run db1 where x: "x = (run, db1)" by (cases x)
  note r = insert_run_result [OF Inr [unfolded x]]
  show thesis
  proof (cases "insert_manifests (ir_id run) entries (ib_manifests db1)")
    case (Inl e)
    then show thesis using failed Inr x by (simp add: create_pending_run_def)
  next
    case m: (Inr rows)
    have "distinct (map manifest_key (ib_manifests db1))" using assms r by (simp add: runs_ok_def)
    with insert_manifests_rows [OF m] insert_manifests_distinct [OF m] r
    have "opened_run run entries db (db1\<lparr> ib_manifests := rows \<rparr>)" by (simp add: opened_run_def)
    then show thesis using opened [of run "db1\<lparr> ib_manifests := rows \<rparr>"] Inr m x r by (simp add: create_pending_run_def)
  qed
qed

lemma create_pending_diary_run_cases:
  assumes "runs_ok db"
  obtains (failed) e where "create_pending_diary_run enc kind key entries i summary filed t db = (Inl e, db)"
    | (owned) "create_pending_diary_run enc kind key entries i summary filed t db = (Inr None, db)"
    | (opened) run db' where "create_pending_diary_run enc kind key entries i summary filed t db = (Inr (Some run), db')"
        "opened_run run entries db db'" "ir_kind run = kind" "ir_source_key run = key" "ir_updated_at run = t"
        "i \<notin> dy_entry_id ` set (ib_diary db)" "length summary \<le> DIARY_SUMMARY_MAX_CHARS"
        "ib_diary db' = ib_diary db @ [\<lparr> dy_entry_id = i, dy_summary = summary, dy_last_updated = Some filed \<rparr>]"
proof (cases "DIARY_SUMMARY_MAX_CHARS < length summary")
  case True
  then show thesis using failed by (simp add: create_pending_diary_run_def)
next
  case short: False
  show thesis
  proof (cases "insert_run enc kind key t db")
    case (Inl e)
    then show thesis using failed short by (simp add: create_pending_diary_run_def)
  next
    case (Inr x)
    obtain run db1 where x: "x = (run, db1)" by (cases x)
    note r = insert_run_result [OF Inr [unfolded x]]
    show thesis
    proof (cases "insert_manifests (ir_id run) entries (ib_manifests db1)")
      case (Inl e)
      then show thesis using failed Inr x short by (simp add: create_pending_diary_run_def)
    next
      case m: (Inr rows)
      show thesis
      proof (cases "list_ex (\<lambda>r. dy_entry_id r = i) (ib_diary db1)")
        case True
        then show thesis using owned Inr m x short by (simp add: create_pending_diary_run_def)
      next
        case False
        let ?row = "\<lparr> dy_entry_id = i, dy_summary = summary, dy_last_updated = Some filed \<rparr>"
        have "distinct (map manifest_key (ib_manifests db1))" using assms r by (simp add: runs_ok_def)
        with insert_manifests_rows [OF m] insert_manifests_distinct [OF m] r
        have "opened_run run entries db (db1\<lparr> ib_manifests := rows, ib_diary := ib_diary db1 @ [?row] \<rparr>)" by (simp add: opened_run_def)
        moreover have "i \<notin> dy_entry_id ` set (ib_diary db)" using False r by (auto simp: list_ex_iff)
        ultimately show thesis
          using opened [of run "db1\<lparr> ib_manifests := rows, ib_diary := ib_diary db1 @ [?row] \<rparr>"] Inr m x r short False
          by (simp add: create_pending_diary_run_def)
      qed
    qed
  qed
qed

subsection \<open>Settling a run\<close>

lemma run_unique: "runs_ok db \<Longrightarrow> r \<in> set (ib_runs db) \<Longrightarrow> r' \<in> set (ib_runs db) \<Longrightarrow> ir_id r = ir_id r' \<Longrightarrow> r = r'"
  by (auto simp: runs_ok_def strict_sorted_iff distinct_map dest: inj_onD)

lemma set_run_status_ok:
  assumes "runs_ok db"
  shows "runs_ok (set_run_status i status t reason db)"
proof -
  have "map ir_id (update_rows (\<lambda>r. ir_id r = i) (\<lambda>r. r\<lparr> ir_status := status, ir_updated_at := t, ir_failed_reason := reason \<rparr>) (ib_runs db))
      = map ir_id (ib_runs db)" by (rule map_update_rows) simp
  moreover have "map manifest_key (update_rows (\<lambda>m. mf_run_id m = i) (\<lambda>m. m\<lparr> mf_status := status \<rparr>) (ib_manifests db))
      = map manifest_key (ib_manifests db)" by (rule map_update_rows) (simp add: manifest_key_def)
  moreover have "\<exists>r \<in> set (ib_runs (set_run_status i status t reason db)). ir_id r = mf_run_id m \<and> ir_status r = mf_status m"
    if m: "m \<in> set (ib_manifests (set_run_status i status t reason db))" for m
  proof -
    from m obtain m0 where m0: "m0 \<in> set (ib_manifests db)" "m = (if mf_run_id m0 = i then m0\<lparr> mf_status := status \<rparr> else m0)"
      by (auto simp: set_run_status_def set_update_rows)
    then obtain r where r: "r \<in> set (ib_runs db)" "ir_id r = mf_run_id m0" "ir_status r = mf_status m0"
      using assms by (auto simp: runs_ok_def)
    let ?r = "if ir_id r = i then r\<lparr> ir_status := status, ir_updated_at := t, ir_failed_reason := reason \<rparr> else r"
    have "?r \<in> set (ib_runs (set_run_status i status t reason db))"
      using r(1) by (auto simp: set_run_status_def set_update_rows)
    moreover have "ir_id ?r = mf_run_id m \<and> ir_status ?r = mf_status m" using r m0(2) by auto
    ultimately show ?thesis by blast
  qed
  ultimately show ?thesis using assms unfolding runs_ok_def
    by (simp add: set_run_status_def) (auto simp: set_update_rows)
qed

lemma filter_update_rows:
  "(\<And>r. r \<in> set rows \<Longrightarrow> p r \<Longrightarrow> \<not> q r \<and> \<not> q (f r)) \<Longrightarrow> filter q (update_rows p f rows) = filter q rows"
  by (induction rows) auto

lemma set_run_status_same:
  assumes "runs_ok db" "run \<in> set (ib_runs db)" "ir_status run \<noteq> RunCommitted" "status \<noteq> RunCommitted"
  shows "same_committed db (set_run_status (ir_id run) status t reason db)"
proof -
  let ?f = "\<lambda>r. r\<lparr> ir_status := status, ir_updated_at := t, ir_failed_reason := reason \<rparr>"
  have "ir_status r \<noteq> RunCommitted" if "r \<in> set (ib_runs db)" "ir_id r = ir_id run" for r
    using run_unique [OF assms(1) that(1) assms(2) that(2)] assms(3) by simp
  then have "committed_runs (set_run_status (ir_id run) status t reason db) key = committed_runs db key" for key
    using assms(4) by (auto simp: committed_runs_def set_run_status_def set_update_rows image_iff)
  moreover have "mf_status m \<noteq> RunCommitted" if m: "m \<in> set (ib_manifests db)" "mf_run_id m = ir_id run" for m
  proof -
    obtain r where r: "r \<in> set (ib_runs db)" "ir_id r = mf_run_id m" "ir_status r = mf_status m"
      using assms(1) m(1) by (auto simp: runs_ok_def)
    then show ?thesis using run_unique [OF assms(1) r(1) assms(2)] m(2) assms(3) by simp
  qed
  then have "filter (\<lambda>m. mf_status m = RunCommitted) (update_rows (\<lambda>m. mf_run_id m = ir_id run) (\<lambda>m. m\<lparr> mf_status := status \<rparr>) (ib_manifests db))
      = filter (\<lambda>m. mf_status m = RunCommitted) (ib_manifests db)"
    using assms(4) by (intro filter_update_rows) auto
  ultimately show ?thesis by (auto simp: same_committed_def fun_eq_iff committed_manifests_def set_run_status_def)
qed

lemma filter_update_id:
  "j \<noteq> i \<Longrightarrow> filter (\<lambda>m. q m \<and> mf_run_id m = j) (update_rows (\<lambda>m. mf_run_id m = i) (\<lambda>m. m\<lparr> mf_status := st \<rparr>) ms)
     = filter (\<lambda>m. q m \<and> mf_run_id m = j) ms"
  by (induction ms) auto

lemma filter_update_own:
  "map mf_drawer_id (filter (\<lambda>m. mf_status m = RunCommitted \<and> mf_run_id m = i)
       (update_rows (\<lambda>m. mf_run_id m = i) (\<lambda>m. m\<lparr> mf_status := RunCommitted \<rparr>) ms))
   = map mf_drawer_id (filter (\<lambda>m. mf_run_id m = i) ms)"
  by (induction ms) auto

lemma find_upsert: "find_row (\<lambda>f. fl_source_key f = k) (upsert_file f rows)
    = (if k = fl_source_key f then Some f else find_row (\<lambda>f. fl_source_key f = k) rows)"
proof (cases "list_ex (\<lambda>r. fl_source_key r = fl_source_key f) rows")
  case True
  then have "find_row (\<lambda>g. fl_source_key g = fl_source_key f) (update_rows (\<lambda>r. fl_source_key r = fl_source_key f) (\<lambda>_. f) rows) = Some f"
    by (induction rows) auto
  moreover have "find_row (\<lambda>g. fl_source_key g = k) (update_rows (\<lambda>r. fl_source_key r = fl_source_key f) (\<lambda>_. f) rows)
      = find_row (\<lambda>g. fl_source_key g = k) rows" if "k \<noteq> fl_source_key f"
    using that by (induction rows) auto
  moreover note True
  ultimately show ?thesis by (simp add: upsert_file_def)
next
  case False
  then have "find_row (\<lambda>g. fl_source_key g = fl_source_key f) rows = None" by (auto simp: list_ex_iff find_row_None)
  then show ?thesis using False by (auto simp: upsert_file_def find_row_append split: option.splits)
qed

lemma distinct_upsert: "distinct (map fl_source_key rows) \<Longrightarrow> distinct (map fl_source_key (upsert_file f rows))"
proof -
  assume d: "distinct (map fl_source_key rows)"
  have "map fl_source_key (update_rows (\<lambda>r. fl_source_key r = fl_source_key f) (\<lambda>_. f) rows) = map fl_source_key rows"
    by (induction rows) auto
  with d show ?thesis by (auto simp: upsert_file_def list_ex_iff)
qed

lemma set_upsert: "set (upsert_file f rows) \<subseteq> insert f (set rows)" "r \<in> set (upsert_file f rows) \<Longrightarrow> r = f \<or> r \<in> set rows \<and> fl_source_key r \<noteq> fl_source_key f"
  by (auto simp: upsert_file_def set_update_rows list_ex_iff split: if_splits)

definition run_drawers :: "ingest_db \<Rightarrow> nat \<Rightarrow> rstr list" where
  "run_drawers db i = map mf_drawer_id (filter (\<lambda>m. mf_run_id m = i) (ib_manifests db))"

definition new_file :: "ingest_run \<Rightarrow> rstr \<Rightarrow> rstr \<Rightarrow> nat \<Rightarrow> int \<Rightarrow> ingest_file" where
  "new_file run source_file content_hash drawer_count t =
     \<lparr> fl_source_key = ir_source_key run, fl_source_file = source_file, fl_content_hash = content_hash,
       fl_last_ingested_at = t, fl_kind = ir_kind run, fl_drawer_count = drawer_count \<rparr>"

lemma image_filter_image: "g ` {x \<in> f ` A. p x} = (\<lambda>x. g (f x)) ` {x \<in> A. p (f x)}"
  by auto

lemma mark_run_committed_result:
  assumes ok: "ingest_db_ok db" and run: "run \<in> set (ib_runs db)" "ir_status run = RunPending" "ir_id run = ib_last_run db"
    and n: "n = length (run_drawers db (ir_id run))"
    and res_def: "res = mark_run_committed (ir_id run) (ir_source_key run) file hash n t db"
  shows "fst res = Inr ()" "ingest_db_ok (snd res)" "ib_diary (snd res) = ib_diary db"
    "committed_view (snd res) = (committed_view db)(ir_source_key run := (Some (new_file run file hash n t), sort (run_drawers db (ir_id run))))"
proof -
  let ?i = "ir_id run" and ?k = "ir_source_key run"
  let ?db1 = "set_run_status ?i RunCommitted t None db"
  have runs: "runs_ok db" and files: "files_ok db" and diary: "diary_ok db" using ok by (simp_all add: ingest_db_ok_def)
  have "distinct (map ir_id (ib_runs db))" using runs by (simp add: runs_ok_def strict_sorted_iff)
  then have "find_row (\<lambda>r. ir_id r = ?i) (ib_runs db) = Some run" using run(1) by (rule find_row_key)
  then obtain run' where f: "find_row (\<lambda>r. ir_id r = ?i) (ib_runs ?db1) = Some run'" "ir_kind run' = ir_kind run"
    by (simp add: set_run_status_def find_row_update_rows)
  note kind = f(2)
  have res: "res = (Inr (), ?db1\<lparr> ib_files := upsert_file (new_file run file hash n t) (ib_files db) \<rparr>)"
    using f(1) by (simp add: res_def mark_run_committed_def Let_def new_file_def kind, simp add: set_run_status_def)
  then show "fst res = Inr ()" by simp
  show "ib_diary (snd res) = ib_diary db" by (simp add: res set_run_status_def)
  let ?db' = "snd res"
  have C: "committed_runs ?db' k = (if k = ?k then insert ?i (committed_runs db k) else committed_runs db k)" for k
  proof -
    let ?F = "\<lambda>r. if ir_id r = ?i then r\<lparr> ir_status := RunCommitted, ir_updated_at := t, ir_failed_reason := None \<rparr> else r"
    have "set (ib_runs ?db') = ?F ` set (ib_runs db)" by (simp add: res set_run_status_def set_update_rows)
    then have "committed_runs ?db' k = (\<lambda>r. ir_id (?F r)) ` {r \<in> set (ib_runs db). ir_source_key (?F r) = k \<and> ir_status (?F r) = RunCommitted}"
      by (simp only: committed_runs_def) (rule image_filter_image)
    also have "\<dots> = ir_id ` {r \<in> set (ib_runs db). ir_source_key r = k \<and> (r = run \<or> ir_status r = RunCommitted)}"
      using run_unique [OF runs _ run(1)] by (intro image_cong) auto
    also have "\<dots> = (if k = ?k then insert ?i (committed_runs db k) else committed_runs db k)"
      using run(1) by (auto simp: committed_runs_def)
    finally show ?thesis .
  qed
  have M: "committed_manifests ?db' = filter (\<lambda>m. mf_status m = RunCommitted)
      (update_rows (\<lambda>m. mf_run_id m = ?i) (\<lambda>m. m\<lparr> mf_status := RunCommitted \<rparr>) (ib_manifests db))"
    by (simp add: res committed_manifests_def set_run_status_def)
  have own: "?i \<notin> committed_runs db k" for k
    using run_unique [OF runs _ run(1)] run(2) by (auto simp: committed_runs_def)
  have le: "j \<le> ?i" if "j \<in> committed_runs db k" for j k
    using that runs run(3) by (auto simp: committed_runs_def runs_ok_def)
  have ids: "committed_drawer_ids_for_source_key ?db' k
      = (if k = ?k then sort (run_drawers db ?i) else committed_drawer_ids_for_source_key db k)" for k
  proof (cases "k = ?k")
    case True
    have "Max (insert ?i (committed_runs db k)) = ?i" using le by (intro Max_eqI) auto
    then show ?thesis using True by (simp add: committed_ids_eq C M filter_update_own run_drawers_def)
  next
    case False
    show ?thesis
    proof (cases "committed_runs db k = {}")
      case nonempty: False
      then have "Max (committed_runs db k) \<noteq> ?i" using own Max_in [OF finite_committed_runs nonempty] by metis
      then show ?thesis using False nonempty by (simp add: committed_ids_eq C M filter_update_id) (simp add: committed_manifests_def)
    qed (simp add: False committed_ids_eq C)
  qed
  have q: "query_ingested_file ?db' k = (if k = ?k then Some (new_file run file hash n t) else query_ingested_file db k)" for k
    by (simp add: res query_ingested_file_def find_upsert) (simp add: new_file_def)
  show "committed_view ?db' = (committed_view db)(?k := (Some (new_file run file hash n t), sort (run_drawers db ?i)))"
    by (auto simp: fun_eq_iff committed_view_def q ids)
  have "(query_ingested_file ?db' k = None) = (latest_committed ?db' k = None)" for k
    using files by (simp add: q latest_None C files_ok_def)
  moreover have "fl_drawer_count g = length (committed_drawer_ids_for_source_key ?db' (fl_source_key g))" if "g \<in> set (ib_files ?db')" for g
  proof -
    from that have "g = new_file run file hash n t \<or> g \<in> set (ib_files db) \<and> fl_source_key g \<noteq> ?k"
      using set_upsert(2) [of g "new_file run file hash n t" "ib_files db"] by (simp add: res) (auto simp: new_file_def)
    then show ?thesis using files by (auto simp: ids new_file_def n files_ok_def)
  qed
  moreover have "distinct (map fl_source_key (ib_files ?db'))"
    using files by (simp add: res files_ok_def distinct_upsert)
  ultimately have "files_ok ?db'" by (simp add: files_ok_def)
  moreover have "runs_ok ?db'" using set_run_status_ok [OF runs, of ?i RunCommitted t None] by (simp add: res runs_ok_def)
  moreover have "diary_ok ?db'" using diary by (simp add: res diary_ok_def set_run_status_def)
  ultimately show "ingest_db_ok ?db'" by (simp add: ingest_db_ok_def)
qed

lemma mark_run_failed_result:
  assumes "ingest_db_ok db" "run \<in> set (ib_runs db)" "ir_status run \<noteq> RunCommitted"
  shows "ingest_db_ok (snd (mark_run_failed (ir_id run) reason t db))"
    "same_committed db (snd (mark_run_failed (ir_id run) reason t db))"
proof -
  show same: "same_committed db (snd (mark_run_failed (ir_id run) reason t db))"
    using set_run_status_same [of db run RunFailed] assms by (simp add: mark_run_failed_def ingest_db_ok_def)
  show "ingest_db_ok (snd (mark_run_failed (ir_id run) reason t db))"
    using assms(1) same_committed_files_ok [OF same] set_run_status_ok
    by (auto simp: ingest_db_ok_def mark_run_failed_def diary_ok_def set_run_status_def)
qed

section \<open>Deleting a source\<close>

lemma delete_source_rows_result:
  assumes "ingest_db_ok db"
  shows "ingest_db_ok (delete_source_rows key db)" "ib_diary (delete_source_rows key db) = ib_diary db"
    "committed_view (delete_source_rows key db) = (committed_view db)(key := (None, []))"
proof -
  have runs: "runs_ok db" and files: "files_ok db" and diary: "diary_ok db" using assms by (simp_all add: ingest_db_ok_def)
  let ?db' = "delete_source_rows key db"
  define gone where "gone = ir_id ` {r \<in> set (ib_runs db). ir_source_key r = key}"
  have db': "?db' = db\<lparr> ib_manifests := filter (\<lambda>r. mf_run_id r \<notin> gone) (ib_manifests db),
       ib_runs := filter (\<lambda>r. ir_source_key r \<noteq> key) (ib_runs db),
       ib_files := filter (\<lambda>f. fl_source_key f \<noteq> key) (ib_files db) \<rparr>"
    by (simp add: delete_source_rows_def Let_def gone_def image_def conj_commute)
  show "ib_diary ?db' = ib_diary db" by (simp add: db')
  have kept: "ir_id r \<in> gone \<longleftrightarrow> ir_source_key r = key" if "r \<in> set (ib_runs db)" for r
    using that run_unique [OF runs that] by (auto simp: gone_def)
  have C: "committed_runs ?db' k = (if k = key then {} else committed_runs db k)" for k
    by (auto simp: db' committed_runs_def)
  have out: "j \<notin> gone" if "j \<in> committed_runs db k" "k \<noteq> key" for j k using that kept by (auto simp: committed_runs_def)
  have ids: "committed_drawer_ids_for_source_key ?db' k = (if k = key then [] else committed_drawer_ids_for_source_key db k)" for k
  proof (cases "k = key \<or> committed_runs db k = {}")
    case False
    then have "Max (committed_runs db k) \<notin> gone" using out Max_in [OF finite_committed_runs] by blast
    then have "filter (\<lambda>m. mf_run_id m = Max (committed_runs db k)) (committed_manifests ?db')
        = filter (\<lambda>m. mf_run_id m = Max (committed_runs db k)) (committed_manifests db)"
      by (auto simp: db' committed_manifests_def filter_filter intro!: filter_cong)
    with False show ?thesis by (simp add: committed_ids_eq C)
  qed (auto simp: committed_ids_eq C)
  have q: "query_ingested_file ?db' k = (if k = key then None else query_ingested_file db k)" for k
  proof -
    have "find_row (\<lambda>f. fl_source_key f = k) (filter (\<lambda>f. fl_source_key f \<noteq> key) fs)
        = (if k = key then None else find_row (\<lambda>f. fl_source_key f = k) fs)" for fs :: "ingest_file list"
      by (induction fs) auto
    then show ?thesis by (simp add: db' query_ingested_file_def)
  qed
  show "committed_view ?db' = (committed_view db)(key := (None, []))"
    by (auto simp: fun_eq_iff committed_view_def q ids)
  have "distinct (map fl_source_key (ib_files ?db'))" using files by (simp add: files_ok_def db' distinct_map_filter)
  moreover have "(query_ingested_file ?db' k = None) = (latest_committed ?db' k = None)" for k
    using files by (simp add: files_ok_def q latest_None C)
  moreover have "fl_drawer_count f = length (committed_drawer_ids_for_source_key ?db' (fl_source_key f))" if "f \<in> set (ib_files ?db')" for f
    using that files by (simp add: files_ok_def ids) (simp add: db')
  ultimately have "files_ok ?db'" by (simp add: files_ok_def)
  moreover have "runs_ok ?db'"
  proof -
    have "\<exists>r \<in> set (ib_runs ?db'). ir_id r = mf_run_id m \<and> ir_status r = mf_status m" if "m \<in> set (ib_manifests ?db')" for m
    proof -
      have m: "m \<in> set (ib_manifests db)" "mf_run_id m \<notin> gone" using that by (auto simp: db')
      then obtain r where r: "r \<in> set (ib_runs db)" "ir_id r = mf_run_id m" "ir_status r = mf_status m" using runs by (auto simp: runs_ok_def)
      then have "r \<in> set (ib_runs ?db')" using kept [OF r(1)] m(2) by (simp add: db')
      with r show ?thesis by blast
    qed
    moreover have "sorted_wrt (<) (map ir_id (ib_runs ?db'))"
      using runs by (auto simp: runs_ok_def db' sorted_wrt_map sorted_wrt_filter)
    moreover have "distinct (map manifest_key (ib_manifests ?db'))" using runs by (simp add: runs_ok_def db' distinct_map_filter)
    moreover have "\<forall>r \<in> set (ib_runs ?db'). ir_id r \<le> ib_last_run ?db'" using runs by (auto simp: runs_ok_def db')
    ultimately show ?thesis unfolding runs_ok_def by blast
  qed
  moreover have "diary_ok ?db'" using diary by (simp add: diary_ok_def db')
  ultimately show "ingest_db_ok ?db'" by (simp add: ingest_db_ok_def)
qed

lemma delete_source_keys_result:
  "ingest_db_ok db \<Longrightarrow> ingest_db_ok (fold delete_source_rows keys db) \<and> ib_diary (fold delete_source_rows keys db) = ib_diary db
   \<and> committed_view (fold delete_source_rows keys db) = (\<lambda>k. if k \<in> set keys then (None, []) else committed_view db k)"
proof (induction keys arbitrary: db)
  case (Cons k keys)
  from Cons.IH [OF delete_source_rows_result(1) [OF Cons.prems, of k]] show ?case
    using delete_source_rows_result(2,3) [OF Cons.prems, of k] by (auto simp: fun_eq_iff)
qed simp

section \<open>Diary rows\<close>

lemma diary_change:
  assumes "ingest_db_ok db" "diary_ok (db\<lparr> ib_diary := rows \<rparr>)"
  shows "ingest_db_ok (db\<lparr> ib_diary := rows \<rparr>)" "same_committed db (db\<lparr> ib_diary := rows \<rparr>)"
proof -
  show same: "same_committed db (db\<lparr> ib_diary := rows \<rparr>)" by (rule same_tables) simp_all
  show "ingest_db_ok (db\<lparr> ib_diary := rows \<rparr>)"
    using assms same_committed_files_ok [OF same] by (simp add: ingest_db_ok_def runs_ok_def)
qed

lemma delete_diary_summary_result:
  assumes "ingest_db_ok db"
  shows "ingest_db_ok (snd (delete_diary_summary i db))" "same_committed db (snd (delete_diary_summary i db))"
proof -
  have "diary_ok (db\<lparr> ib_diary := filter (\<lambda>r. dy_entry_id r \<noteq> i) (ib_diary db) \<rparr>)"
    using assms by (auto simp: ingest_db_ok_def diary_ok_def distinct_map_filter)
  from diary_change [OF assms this] show "ingest_db_ok (snd (delete_diary_summary i db))" "same_committed db (snd (delete_diary_summary i db))"
    by (simp_all add: delete_diary_summary_def)
qed

lemma touch_diary_entry_result:
  assumes "ingest_db_ok db"
  shows "ingest_db_ok (snd (touch_diary_entry i summary fallback t db))" "same_committed db (snd (touch_diary_entry i summary fallback t db))"
proof -
  let ?s = "case summary of Some s \<Rightarrow> s | None \<Rightarrow> fallback"
  let ?u = "\<lambda>r. r\<lparr> dy_last_updated := Some t, dy_summary := if summary \<noteq> None then ?s else dy_summary r \<rparr>"
  let ?rows = "if list_ex (\<lambda>r. dy_entry_id r = i) (ib_diary db) then update_rows (\<lambda>r. dy_entry_id r = i) ?u (ib_diary db)
      else ib_diary db @ [\<lparr> dy_entry_id = i, dy_summary = ?s, dy_last_updated = Some t \<rparr>]"
  have "ingest_db_ok (snd (touch_diary_entry i summary fallback t db)) \<and> same_committed db (snd (touch_diary_entry i summary fallback t db))"
  proof (cases "DIARY_SUMMARY_MAX_CHARS < length ?s")
    case True
    then show ?thesis using assms by (simp add: touch_diary_entry_def)
  next
    case False
    have "map dy_entry_id (update_rows (\<lambda>r. dy_entry_id r = i) ?u (ib_diary db)) = map dy_entry_id (ib_diary db)"
      by (rule map_update_rows) simp
    with False assms have "diary_ok (db\<lparr> ib_diary := ?rows \<rparr>)"
      by (auto simp: ingest_db_ok_def diary_ok_def set_update_rows list_ex_iff)
    from diary_change [OF assms this] False show ?thesis by (simp add: touch_diary_entry_def Let_def)
  qed
  then show "ingest_db_ok (snd (touch_diary_entry i summary fallback t db))" "same_committed db (snd (touch_diary_entry i summary fallback t db))"
    by blast+
qed

end
