(* ===== verification/Storage_Engine_Props.thy ===== *)
theory Storage_Engine_Props
  imports Storage_Engine_Inv
begin

text \<open>
  What the engine promises across its two databases: whatever calls fail and wherever the process stops, the
  committed view of every source is the old one or the new one, and reconciliation removes the rows of
  abandoned runs, and nothing that is committed.
\<close>

section \<open>Putting drawers\<close>

definition rows_after_put :: "duplicate_strategy \<Rightarrow> stored_drawer list \<Rightarrow> stored_drawer list \<Rightarrow> stored_drawer list" where
  "rows_after_put strategy drawers rows =
     (if strategy = StrategyIgnore then rows @ filter (\<lambda>d. sd_id d \<notin> sd_id ` set rows) drawers
      else remove_rows (map sd_id drawers) rows @ drawers)"

text \<open>The tables a put leaves that did not report success: only an overwrite passes through one without the
  rows it replaces.\<close>

definition put_partial :: "duplicate_strategy \<Rightarrow> stored_drawer list \<Rightarrow> stored_drawer list \<Rightarrow> stored_drawer list set" where
  "put_partial strategy drawers rows =
     {rows, rows_after_put strategy drawers rows}
       \<union> (if strategy = StrategyOverwrite then {remove_rows (map sd_id drawers) rows} else {})"

lemma existing_ids_set: "set (existing_ids ids rows) = set ids \<inter> sd_id ` set rows"
  by (auto simp: existing_ids_def list_drawers_def any_drawer_def filter_matches_def view_matches_def)

lemma existing_ids_empty: "existing_ids ids rows = [] \<longleftrightarrow> set ids \<inter> sd_id ` set rows = {}"
  using existing_ids_set [of ids rows] by (metis set_empty)

lemma remove_existing: "remove_rows (existing_ids ids rows) rows = remove_rows ids rows"
  by (auto simp: remove_rows_def existing_ids_set intro!: filter_cong)

lemma remove_fresh: "set ids \<inter> sd_id ` set rows = {} \<Longrightarrow> remove_rows ids rows = rows"
  by (auto simp: remove_rows_def filter_id_conv)

lemma check_dimensions_ok: "check_dimensions dims ds = Inr () \<longleftrightarrow> (\<forall>d \<in> set ds. length (sd_embedding d) = dims)"
  by (induction ds) auto

lemma check_dimensions_unit: "check_dimensions dims ds = Inr u \<Longrightarrow> \<forall>d \<in> set ds. length (sd_embedding d) = dims"
  using check_dimensions_ok [of dims ds] by simp

lemma remove_rows_ok: "table_ok dims rows \<Longrightarrow> table_ok dims (remove_rows ids rows)"
  by (auto simp: table_ok_def remove_rows_def distinct_map_filter)

lemma rows_after_put_ok:
  "table_ok dims rows \<Longrightarrow> distinct (map sd_id drawers) \<Longrightarrow> (\<forall>d \<in> set drawers. length (sd_embedding d) = dims) \<Longrightarrow>
   table_ok dims (rows_after_put strategy drawers rows)"
  by (auto simp: table_ok_def rows_after_put_def remove_rows_def distinct_map_filter image_iff)

lemma rows_after_put_Nil [simp]: "rows_after_put strategy [] rows = rows"
  by (simp add: rows_after_put_def remove_rows_def)

lemma wp_put_drawers:
  assumes ok: "table_ok dims (pl_drawers s)" "distinct (map sd_id drawers)"
    and stop: "\<And>rows. rows \<in> put_partial strategy drawers (pl_drawers s) \<Longrightarrow> table_ok dims rows \<Longrightarrow> Q None (s\<lparr> pl_drawers := rows \<rparr>)"
    and fail: "\<And>e rows. rows \<in> put_partial strategy drawers (pl_drawers s) \<Longrightarrow> table_ok dims rows \<Longrightarrow>
      wp Q (k (Inl e)) (s\<lparr> pl_drawers := rows \<rparr>)"
    and works: "table_ok dims (rows_after_put strategy drawers (pl_drawers s)) \<Longrightarrow>
      wp Q (k (Inr ())) (s\<lparr> pl_drawers := rows_after_put strategy drawers (pl_drawers s) \<rparr>)"
  shows "wp Q (put_drawers dims drawers strategy k) s"
proof (cases "drawers = []")
  case True
  then show ?thesis using works ok(1) by (simp add: put_drawers_def)
next
  case False
  let ?rows = "pl_drawers s" and ?ids = "map sd_id drawers"
  have here: "?rows \<in> put_partial strategy drawers ?rows" by (simp add: put_partial_def)
  note stop0 = stop [OF here ok(1), simplified] and fail0 = fail [OF here ok(1), simplified]
  show ?thesis
  proof (cases "check_dimensions dims drawers")
    case (Inl e)
    then show ?thesis using False fail0 by (simp add: put_drawers_def)
  next
    case (Inr u)
    have done_ok: "table_ok dims (rows_after_put strategy drawers ?rows)"
      by (rule rows_after_put_ok [OF ok check_dimensions_unit [OF Inr]])
    have there: "rows_after_put strategy drawers ?rows \<in> put_partial strategy drawers ?rows" by (simp add: put_partial_def)
    note stop1 = stop [OF there done_ok] and fail1 = fail [OF there done_ok] and works1 = works [OF done_ok]
    let ?ex = "existing_ids ?ids ?rows"
    have add: "wp Q (add_rows drawers k) (s\<lparr> pl_drawers := remove_rows ?ids ?rows \<rparr>)"
      if "strategy \<noteq> StrategyIgnore" "Q None (s\<lparr> pl_drawers := remove_rows ?ids ?rows \<rparr>)"
        "\<And>e. wp Q (k (Inl e)) (s\<lparr> pl_drawers := remove_rows ?ids ?rows \<rparr>)"
      using that stop1 fail1 works1 by (simp add: add_rows_def wp_write_table rows_after_put_def)
    show ?thesis
    proof (cases "?ex = []")
      case fresh: True
      then have "remove_rows ?ids ?rows = ?rows" by (intro remove_fresh) (simp add: existing_ids_empty)
      with add stop0 fail0 have add0: "strategy \<noteq> StrategyIgnore \<Longrightarrow> wp Q (add_rows drawers k) s" by simp
      have "rows_after_put StrategyIgnore drawers ?rows = ?rows @ drawers"
        using fresh existing_ids_empty [of ?ids ?rows] by (auto simp: rows_after_put_def filter_id_conv)
      then show ?thesis using False Inr fresh add0 stop0 fail0 works1
        by (cases strategy) (simp_all add: put_drawers_def wp_read_table wp_write_table)
    next
      case old: False
      have gone: "table_ok dims (remove_rows ?ids ?rows)" by (rule remove_rows_ok [OF ok(1)])
      have ign: "filter (\<lambda>d. sd_id d \<notin> set ?ex) drawers = filter (\<lambda>d. sd_id d \<notin> sd_id ` set ?rows) drawers"
        by (auto simp: existing_ids_set intro!: filter_cong)
      show ?thesis
      proof (cases strategy)
        case StrategyError
        then show ?thesis using False Inr old stop0 fail0 by (simp add: put_drawers_def wp_read_table)
      next
        case StrategyIgnore
        have "wp Q (k (Inr ())) s" if "filter (\<lambda>d. sd_id d \<notin> sd_id ` set ?rows) drawers = []"
          using works1 that StrategyIgnore by (simp add: rows_after_put_def)
        then show ?thesis using StrategyIgnore False Inr old stop0 fail0 works1
          by (simp add: put_drawers_def wp_read_table wp_write_table Let_def ign rows_after_put_def)
      next
        case StrategyOverwrite
        then have mid: "remove_rows ?ids ?rows \<in> put_partial strategy drawers ?rows" by (simp add: put_partial_def)
        have "wp Q (add_rows drawers k) (s\<lparr> pl_drawers := remove_rows ?ids ?rows \<rparr>)"
          using add stop [OF mid gone] fail [OF mid gone] StrategyOverwrite by simp
        then show ?thesis using False Inr old stop0 fail0 StrategyOverwrite
          by (simp add: put_drawers_def wp_read_table wp_write_table delete_drawers_def remove_existing)
      qed
    qed
  qed
qed

section \<open>Committing an ingest\<close>

definition committed_file :: "engine_env \<Rightarrow> ingest_commit_request \<Rightarrow> ingest_file" where
  "committed_file env req =
     \<lparr> fl_source_key = ic_source_key req, fl_source_file = ic_source_file req, fl_content_hash = ic_content_hash req,
       fl_last_ingested_at = ee_clock env 1, fl_kind = ic_kind req, fl_drawer_count = length (ic_drawers req) \<rparr>"

definition new_view :: "engine_env \<Rightarrow> ingest_commit_request \<Rightarrow> palace \<Rightarrow> rstr \<Rightarrow> ingest_file option \<times> rstr list" where
  "new_view env req s =
     (committed_view (pl_db s))(ic_source_key req := (Some (committed_file env req), sort (map sd_id (ic_drawers req))))"

definition view_of :: "palace \<Rightarrow> rstr \<Rightarrow> ingest_file option \<times> rstr list" where
  "view_of s = committed_view (pl_db s)"

lemma view_of_simps [simp]:
  "view_of (s\<lparr> pl_drawers := rows \<rparr>) = view_of s" "view_of (s\<lparr> pl_active := b \<rparr>) = view_of s"
  by (simp_all add: view_of_def)

definition ingest_post :: "engine_env \<Rightarrow> ingest_commit_request \<Rightarrow> palace \<Rightarrow> (storage_error + nat) option \<Rightarrow> palace \<Rightarrow> bool" where
  "ingest_post env req s r s' \<longleftrightarrow>
     palace_inv (ee_dims env) s' \<and> pl_drawers s' \<in> put_partial (ic_strategy req) (ic_drawers req) (pl_drawers s)
     \<and> (case r of
          Some (Inr _) \<Rightarrow> pl_drawers s' = rows_after_put (ic_strategy req) (ic_drawers req) (pl_drawers s) \<and> view_of s' = new_view env req s
        | _ \<Rightarrow> view_of s' = view_of s)"

text \<open>The state while the run of \<open>req\<close> is pending.\<close>

definition run_open :: "engine_env \<Rightarrow> ingest_commit_request \<Rightarrow> palace \<Rightarrow> ingest_run \<Rightarrow> palace \<Rightarrow> bool" where
  "run_open env req s run s' \<longleftrightarrow>
     ingest_db_ok (pl_db s') \<and> same_committed (pl_db s) (pl_db s')
     \<and> run \<in> set (ib_runs (pl_db s')) \<and> ir_status run = RunPending \<and> ir_id run = ib_last_run (pl_db s')
     \<and> ir_kind run = ic_kind req \<and> ir_source_key run = ic_source_key req
     \<and> run_drawers (pl_db s') (ir_id run) = map sd_id (ic_drawers req)"

lemma run_open_simps [simp]:
  "run_open env req s run (t\<lparr> pl_drawers := rows \<rparr>) = run_open env req s run t"
  "run_open env req s run (t\<lparr> pl_active := b \<rparr>) = run_open env req s run t"
  by (simp_all add: run_open_def)

lemma opened_run_drawers:
  assumes "runs_ok db" "opened_run run entries db db'"
  shows "run_drawers db' (ir_id run) = map mf_drawer_id entries"
proof -
  have "mf_run_id m \<noteq> ir_id run" if "m \<in> set (ib_manifests db)" for m
    using assms that by (fastforce simp: runs_ok_def opened_run_def)
  then have "filter (\<lambda>m. mf_run_id m = ir_id run) (ib_manifests db) = []" by (auto simp: filter_empty_conv)
  then show ?thesis using assms(2) by (simp add: run_drawers_def opened_run_def filter_id_conv comp_def)
qed

lemma map_manifests_of [simp]: "map mf_drawer_id (manifests_of req) = map sd_id (ic_drawers req)"
  by (simp add: manifests_of_def)

lemma opened_run_open:
  assumes "ingest_db_ok (pl_db s)" "opened_run run (manifests_of req) (pl_db s) db'" "ir_kind run = ic_kind req"
    "ir_source_key run = ic_source_key req" "diary_ok db'"
  shows "run_open env req s run (s\<lparr> pl_db := db' \<rparr>)" "distinct (map sd_id (ic_drawers req))"
proof -
  note same = opened_run_same [OF assms(2)]
  have "runs_ok (pl_db s)" "files_ok (pl_db s)" using assms(1) by (simp_all add: ingest_db_ok_def)
  then have "ingest_db_ok db'"
    using opened_run_ok [OF _ assms(2)] same_committed_files_ok [OF same] assms(5) by (simp add: ingest_db_ok_def)
  then show "run_open env req s run (s\<lparr> pl_db := db' \<rparr>)"
    using same assms opened_run_drawers [OF \<open>runs_ok (pl_db s)\<close> assms(2)] by (auto simp: run_open_def opened_run_def)
  show "distinct (map sd_id (ic_drawers req))" using assms(2) by (simp add: opened_run_def flip: map_manifests_of)
qed

lemma wp_finish_run:
  assumes "run_open env req s run t" "table_ok (ee_dims env) (pl_drawers t)"
    and "pl_drawers t = rows_after_put (ic_strategy req) (ic_drawers req) (pl_drawers s)"
  shows "wp (ingest_post env req s) (finish_run env req run) t"
proof -
  have n: "length (ic_drawers req) = length (run_drawers (pl_db t) (ir_id run))" using assms(1) unfolding run_open_def by (metis length_map)
  note m = mark_run_committed_result [of "pl_db t" run, OF _ _ _ _ n refl, of "ic_source_file req" "ic_content_hash req" "ee_clock env 1"]
  have run: "ingest_db_ok (pl_db t)" "run \<in> set (ib_runs (pl_db t))" "ir_status run = RunPending" "ir_id run = ib_last_run (pl_db t)"
    "ir_source_key run = ic_source_key req" "ir_kind run = ic_kind req" "run_drawers (pl_db t) (ir_id run) = map sd_id (ic_drawers req)"
    "view_of t = view_of s"
    using assms(1) same_committed_view(1) by (auto simp: run_open_def view_of_def)
  note m = m [OF run(1-4), unfolded run(5,7)]
  have old: "palace_inv (ee_dims env) t" using run(1) assms(2) by (simp add: palace_inv_def)
  show ?thesis
    using m assms(2) old run(8)
    by (simp add: finish_run_def wp_simps ingest_post_def put_partial_def assms(3) palace_inv_def new_view_def view_of_def
        new_file_def committed_file_def run(5,6))
qed

lemma wp_fail_run:
  assumes "run_open env req s run t" "table_ok (ee_dims env) (pl_drawers t)"
    and "pl_drawers t \<in> put_partial (ic_strategy req) (ic_drawers req) (pl_drawers s)"
  shows "wp (ingest_post env req s) (fail_run env run e) t"
proof -
  have run: "ingest_db_ok (pl_db t)" "run \<in> set (ib_runs (pl_db t))" "ir_status run \<noteq> RunCommitted" "view_of t = view_of s"
    using assms(1) same_committed_view(1) by (auto simp: run_open_def view_of_def)
  note m = mark_run_failed_result [OF run(1-3), of "ee_error_text env e" "ee_clock env 1"]
  have "fst (mark_run_failed (ir_id run) (ee_error_text env e) (ee_clock env 1) (pl_db t)) = Inr ()" by (simp add: mark_run_failed_def)
  then show ?thesis
    using m(1) same_committed_view(1) [OF m(2)] run(1,4) assms(2,3)
    by (simp add: fail_run_def wp_simps ingest_post_def palace_inv_def view_of_def)
qed

lemma wp_put_run:
  assumes open_run: "run_open env req s run t" and table: "table_ok (ee_dims env) (pl_drawers t)" "pl_drawers t = pl_drawers s"
    and "distinct (map sd_id (ic_drawers req))"
    and fail: "\<And>e t'. run_open env req s run t' \<Longrightarrow> table_ok (ee_dims env) (pl_drawers t') \<Longrightarrow>
      pl_drawers t' \<in> put_partial (ic_strategy req) (ic_drawers req) (pl_drawers s) \<Longrightarrow> wp (ingest_post env req s) (h e) t'"
  shows "wp (ingest_post env req s)
     (signal_activity (put_drawers (ee_dims env) (ic_drawers req) (ic_strategy req)
        (\<lambda>w. case w of Inr _ \<Rightarrow> finish_run env req run | Inl e \<Rightarrow> h e))) t"
proof -
  have run: "ingest_db_ok (pl_db t)" "view_of t = view_of s"
    using open_run same_committed_view(1) by (auto simp: run_open_def view_of_def)
  have stop: "ingest_post env req s None (t\<lparr> pl_active := b, pl_drawers := rows \<rparr>)"
    if "rows \<in> put_partial (ic_strategy req) (ic_drawers req) (pl_drawers s)" "table_ok (ee_dims env) rows" for b rows
    using that run by (simp add: ingest_post_def palace_inv_def)
  have here: "pl_drawers s \<in> put_partial (ic_strategy req) (ic_drawers req) (pl_drawers s)" by (simp add: put_partial_def)
  have "wp (ingest_post env req s) (put_drawers (ee_dims env) (ic_drawers req) (ic_strategy req)
        (\<lambda>w. case w of Inr _ \<Rightarrow> finish_run env req run | Inl e \<Rightarrow> h e)) (t\<lparr> pl_active := b \<rparr>)" for b
  proof (rule wp_put_drawers)
    show "wp (ingest_post env req s) (case Inr () of Inr _ \<Rightarrow> finish_run env req run | Inl e \<Rightarrow> h e)
       (t\<lparr> pl_active := b, pl_drawers := rows_after_put (ic_strategy req) (ic_drawers req) (pl_drawers (t\<lparr> pl_active := b \<rparr>)) \<rparr>)"
      if "table_ok (ee_dims env) (rows_after_put (ic_strategy req) (ic_drawers req) (pl_drawers (t\<lparr> pl_active := b \<rparr>)))"
      using that open_run table by (auto intro!: wp_finish_run)
  qed (use assms stop table in \<open>auto intro: fail\<close>)
  from this [of True] this [of "pl_active t"] show ?thesis
    using stop [OF here, of "pl_active t"] table(1) unfolding table(2) [symmetric] by (simp add: wp_signal)
qed

lemma wp_commit_ingest:
  assumes inv: "palace_inv (ee_dims env) s"
  shows "wp (ingest_post env req s) (commit_ingest env req) s"
proof -
  have ok: "ingest_db_ok (pl_db s)" "runs_ok (pl_db s)" "table_ok (ee_dims env) (pl_drawers s)"
    using inv by (simp_all add: palace_inv_def ingest_db_ok_def)
  have same: "ingest_post env req s None s" "ingest_post env req s (Some (Inl e)) s" for e
    using inv by (simp_all add: ingest_post_def put_partial_def)
  show ?thesis
  proof (cases rule: create_pending_run_cases [OF ok(2), of "ee_enc env" "ic_kind req" "ic_source_key req" "manifests_of req" "ee_clock env 0"])
    case (1 e)
    then show ?thesis using same by (simp add: commit_ingest_def wp_simps)
  next
    case (2 run db')
    have "diary_ok db'" using 2(6) ok(1) by (simp add: ingest_db_ok_def diary_ok_def)
    note open_run = opened_run_open(1) [OF ok(1) 2(2-4) this, of env] opened_run_open(2) [OF ok(1) 2(2-4) this]
    have "wp (ingest_post env req s)
        (signal_activity (put_drawers (ee_dims env) (ic_drawers req) (ic_strategy req)
          (\<lambda>w. case w of Inr _ \<Rightarrow> finish_run env req run | Inl e \<Rightarrow> fail_run env run e))) (s\<lparr> pl_db := db' \<rparr>)"
      by (rule wp_put_run [OF open_run(1) _ _ open_run(2)]) (use ok(3) wp_fail_run in auto)
    then show ?thesis using same 2(1) by (simp add: commit_ingest_def wp_simps)
  qed
qed

text \<open>The diary's commit is a commit of one drawer behind the gate of its summary.\<close>

lemma run_open_diary:
  assumes "run_open env req s run t"
  shows "run_open env req s run (t\<lparr> pl_db := snd (delete_diary_summary i (pl_db t)) \<rparr>)"
proof -
  have db: "ingest_db_ok (pl_db t)" "same_committed (pl_db s) (pl_db t)" using assms by (simp_all add: run_open_def)
  note del = delete_diary_summary_result [OF db(1), of i]
  have "ib_runs (snd (delete_diary_summary i (pl_db t))) = ib_runs (pl_db t)"
    "ib_last_run (snd (delete_diary_summary i (pl_db t))) = ib_last_run (pl_db t)"
    "run_drawers (snd (delete_diary_summary i (pl_db t))) j = run_drawers (pl_db t) j" for j
    by (simp_all add: delete_diary_summary_def run_drawers_def)
  then show ?thesis using assms del(1) same_committed_trans [OF db(2) del(2)] unfolding run_open_def by simp metis
qed

lemma wp_commit_diary_ingest:
  assumes inv: "palace_inv (ee_dims env) s"
  shows "wp (ingest_post env req s) (commit_diary_ingest env req summary) s"
proof -
  have ok: "ingest_db_ok (pl_db s)" "runs_ok (pl_db s)" "diary_ok (pl_db s)" "table_ok (ee_dims env) (pl_drawers s)"
    using inv by (simp_all add: palace_inv_def ingest_db_ok_def)
  have same: "ingest_post env req s None s" "ingest_post env req s (Some (Inl e)) s" for e
    using inv by (simp_all add: ingest_post_def put_partial_def)
  show ?thesis
  proof (cases "\<exists>drawer. ic_drawers req = [drawer]")
    case False
    then show ?thesis using same by (auto simp: commit_diary_ingest_def split: list.split)
  next
    case True
    then obtain d where d: "ic_drawers req = [d]" by blast
    let ?create = "create_pending_diary_run (ee_enc env) (ic_kind req) (ic_source_key req) (manifests_of req) (sd_id d) summary
        (sd_filed_at d) (ee_clock env 0) (pl_db s)"
    show ?thesis
    proof (cases rule: create_pending_diary_run_cases [OF ok(2), of "ee_enc env" "ic_kind req" "ic_source_key req"
          "manifests_of req" "sd_id d" summary "sd_filed_at d" "ee_clock env 0"])
      case (1 e)
      then show ?thesis using same d by (simp add: commit_diary_ingest_def wp_simps)
    next
      case 2
      then show ?thesis using same d by (simp add: commit_diary_ingest_def wp_simps)
    next
      case (3 run db')
      have "diary_ok db'" using 3(6-8) ok(3) by (auto simp: diary_ok_def)
      note open_run = opened_run_open(1) [OF ok(1) 3(2-4) this, of env] opened_run_open(2) [OF ok(1) 3(2-4) this]
      let ?h = "\<lambda>e. call_db (delete_diary_summary (sd_id d)) (\<lambda>_. fail_run env run e)"
      have h: "wp (ingest_post env req s) (?h e) t"
        if t: "run_open env req s run t" "table_ok (ee_dims env) (pl_drawers t)"
          "pl_drawers t \<in> put_partial (ic_strategy req) (ic_drawers req) (pl_drawers s)" for e t
      proof -
        have db: "ingest_db_ok (pl_db t)" "same_committed (pl_db s) (pl_db t)" using t(1) by (simp_all add: run_open_def)
        have "run_open env req s run (t\<lparr> pl_db := snd (delete_diary_summary (sd_id d) (pl_db t)) \<rparr>)"
          by (rule run_open_diary [OF t(1)])
        moreover have "ingest_post env req s None t"
          using t(2,3) db same_committed_view(1) [OF db(2)] by (simp add: ingest_post_def palace_inv_def view_of_def)
        ultimately show ?thesis using t wp_fail_run by (simp add: wp_call_db)
      qed
      have "wp (ingest_post env req s)
          (signal_activity (put_drawers (ee_dims env) (ic_drawers req) (ic_strategy req)
            (\<lambda>w. case w of Inr _ \<Rightarrow> finish_run env req run | Inl e \<Rightarrow> ?h e))) (s\<lparr> pl_db := db' \<rparr>)"
        by (rule wp_put_run [OF open_run(1) _ _ open_run(2)]) (use ok(4) h in auto)
      then show ?thesis using same 3(1) d by (simp add: commit_diary_ingest_def wp_simps)
    qed
  qed
qed

section \<open>Sources\<close>

definition source_request :: "rstr \<Rightarrow> rstr \<Rightarrow> rstr \<Rightarrow> rstr \<Rightarrow> stored_drawer list \<Rightarrow> ingest_commit_request" where
  "source_request kind key file hash drawers =
     \<lparr> ic_kind = kind, ic_source_key = key, ic_source_file = file, ic_content_hash = hash, ic_drawers = drawers,
       ic_strategy = StrategyOverwrite \<rparr>"

text \<open>The drawers of the source that its new version does not have.\<close>

definition stale_ids :: "ingest_commit_request \<Rightarrow> palace \<Rightarrow> rstr list" where
  "stale_ids req s = filter (\<lambda>i. i \<notin> set (map sd_id (ic_drawers req))) (snd (view_of s (ic_source_key req)))"

lemma remove_rows_Nil [simp]: "remove_rows [] rows = rows"
  by (simp add: remove_rows_def)

definition replace_post :: "engine_env \<Rightarrow> ingest_commit_request \<Rightarrow> palace \<Rightarrow> (storage_error + unit) option \<Rightarrow> palace \<Rightarrow> bool" where
  "replace_post env req s r s' \<longleftrightarrow>
     palace_inv (ee_dims env) s'
     \<and> (case r of
          Some (Inr _) \<Rightarrow> view_of s' = new_view env req s
            \<and> pl_drawers s' = remove_rows (stale_ids req s) (rows_after_put StrategyOverwrite (ic_drawers req) (pl_drawers s))
        | _ \<Rightarrow> view_of s' = view_of s \<and> pl_drawers s' \<in> put_partial StrategyOverwrite (ic_drawers req) (pl_drawers s)
            \<or> view_of s' = new_view env req s \<and> pl_drawers s' = rows_after_put StrategyOverwrite (ic_drawers req) (pl_drawers s))"

lemma wp_replace_source:
  assumes inv: "palace_inv (ee_dims env) s"
  shows "wp (replace_post env (source_request kind key file hash drawers) s) (replace_source_drawers env kind key file hash drawers) s"
proof -
  let ?req = "source_request kind key file hash drawers"
  have old: "replace_post env ?req s None s" "replace_post env ?req s (Some (Inl e)) s" for e
    using inv by (simp_all add: replace_post_def put_partial_def)
  have req: "ic_strategy ?req = StrategyOverwrite" "ic_drawers ?req = drawers" "ic_source_key ?req = key"
    by (simp_all add: source_request_def)
  have stale: "filter (\<lambda>i. i \<notin> set (map sd_id drawers)) (committed_drawer_ids_for_source_key (pl_db s) key) = stale_ids ?req s"
    by (simp add: stale_ids_def req view_of_def committed_view_def)
  have "wp (\<lambda>r t. case r of None \<Rightarrow> replace_post env ?req s None t
      | Some x \<Rightarrow> wp (replace_post env ?req s) (try_p x (\<lambda>_.
          let stale = filter (\<lambda>i. i \<notin> set (map sd_id drawers)) (committed_drawer_ids_for_source_key (pl_db s) key) in
          if stale = [] then Return (Inr ()) else signal_activity (delete_drawers stale Return))) t) (commit_ingest env ?req) s"
  proof (rule wp_mono [OF wp_commit_ingest [OF inv, of ?req]])
    fix r t
    assume post: "ingest_post env ?req s r t"
    show "case r of None \<Rightarrow> replace_post env ?req s None t
      | Some x \<Rightarrow> wp (replace_post env ?req s) (try_p x (\<lambda>_.
          let stale = filter (\<lambda>i. i \<notin> set (map sd_id drawers)) (committed_drawer_ids_for_source_key (pl_db s) key) in
          if stale = [] then Return (Inr ()) else signal_activity (delete_drawers stale Return))) t"
    proof (cases r)
      case None
      then show ?thesis using post by (simp add: ingest_post_def replace_post_def req)
    next
      case (Some x)
      show ?thesis
      proof (cases x)
        case (Inl e)
        then show ?thesis using post Some by (simp add: ingest_post_def replace_post_def req wp_try)
      next
        case (Inr i)
        have t: "palace_inv (ee_dims env) t" "view_of t = new_view env ?req s"
          "pl_drawers t = rows_after_put StrategyOverwrite drawers (pl_drawers s)"
          using post Some Inr by (simp_all add: ingest_post_def req)
        have inv': "palace_inv (ee_dims env) (t\<lparr> pl_active := b, pl_drawers := remove_rows (stale_ids ?req s) (pl_drawers t) \<rparr>)" for b
          using t(1) by (simp add: palace_inv_def remove_rows_ok)
        have early: "replace_post env ?req s None (t\<lparr> pl_active := b \<rparr>)" "replace_post env ?req s (Some (Inl e)) (t\<lparr> pl_active := b \<rparr>)" for b e
          using t by (simp_all add: replace_post_def req)
        have late: "replace_post env ?req s (Some (Inr ())) (t\<lparr> pl_active := b, pl_drawers := remove_rows (stale_ids ?req s) (pl_drawers t) \<rparr>)" for b
          using t inv' [of b] by (simp add: replace_post_def req)
        note late0 = late [of "pl_active t", simplified] and early0 = early(1) [of "pl_active t", simplified] early(2) [of _ "pl_active t", simplified]
        show ?thesis
        proof (cases "stale_ids ?req s = []")
          case True
          then show ?thesis using late0 Some Inr unfolding stale by (simp add: wp_try)
        next
          case False
          then show ?thesis using late late0 early early0 Some Inr unfolding stale
            by (simp add: Let_def wp_try wp_signal delete_drawers_def wp_write_table)
        qed
      qed
    qed
  qed
  note body = wp_and_then [OF this]
  show ?thesis
    unfolding replace_source_drawers_def wp_read_db wp_try sum.case using old body [unfolded source_request_def] by (simp add: source_request_def)
qed

definition remove_post :: "nat \<Rightarrow> rstr \<Rightarrow> palace \<Rightarrow> (storage_error + unit) option \<Rightarrow> palace \<Rightarrow> bool" where
  "remove_post dims key s r s' \<longleftrightarrow>
     palace_inv dims s'
     \<and> (case r of
          Some (Inr _) \<Rightarrow> view_of s' = (view_of s)(key := (None, [])) \<and> pl_drawers s' = remove_rows (snd (view_of s key)) (pl_drawers s)
        | _ \<Rightarrow> view_of s' = view_of s \<and> pl_drawers s' \<in> {pl_drawers s, remove_rows (snd (view_of s key)) (pl_drawers s)})"

lemma wp_remove_source:
  assumes inv: "palace_inv dims s"
  shows "wp (remove_post dims key s) (remove_source_key key) s"
proof -
  have db: "ingest_db_ok (pl_db s)" and table: "table_ok dims (pl_drawers s)" using inv by (simp_all add: palace_inv_def)
  note del = delete_source_rows_result [OF db, of key]
  let ?ids = "committed_drawer_ids_for_source_key (pl_db s) key"
  have ids: "snd (view_of s key) = ?ids" by (simp add: view_of_def committed_view_def)
  have rest: "wp (remove_post dims key s) (call_db (delete_source_key key) Return) (s\<lparr> pl_active := b, pl_drawers := remove_rows ?ids (pl_drawers s) \<rparr>)" for b
    using db table del by (simp add: wp_call_db delete_source_key_def remove_post_def palace_inv_def view_of_def ids remove_rows_ok)
      (simp add: ids [unfolded view_of_def])
  have old: "remove_post dims key s None (s\<lparr> pl_active := b \<rparr>)" "remove_post dims key s (Some (Inl e)) (s\<lparr> pl_active := b \<rparr>)" for b e
    using inv by (simp_all add: remove_post_def)
  note old' = old(1) [of "pl_active s", simplified] old(2) [of _ "pl_active s", simplified] and rest' = rest [of "pl_active s", simplified] and rest1 = rest [of True]
  show ?thesis
  proof (cases "?ids = []")
    case True
    then show ?thesis using old' rest' by (simp add: remove_source_key_def wp_simps Let_def)
  next
    case False
    then show ?thesis using old old' rest' rest1
      by (simp add: remove_source_key_def wp_simps Let_def delete_drawers_def)
  qed
qed

end
