(* ===== verification/Storage_Engine_Safety.thy ===== *)
theory Storage_Engine_Safety
  imports Storage_Engine_Props
begin

text \<open>
  The remaining operations of the engine (diary updates, removal by prefix, reconciliation), the runs of an
  engine over any sequence of operations and fates, and the properties of all of them together.
\<close>

section \<open>Diary updates\<close>

definition touch_post :: "nat \<Rightarrow> palace \<Rightarrow> (storage_error + unit) option \<Rightarrow> palace \<Rightarrow> bool" where
  "touch_post dims s r s' \<longleftrightarrow> palace_inv dims s' \<and> view_of s' = view_of s
     \<and> map sd_id (pl_drawers s') = map sd_id (pl_drawers s)"

lemma touch_post_active [simp]: "touch_post dims s r (t\<lparr> pl_active := b \<rparr>) = touch_post dims s r t"
  by (simp add: touch_post_def)

lemma replace_row_ids:
  "map sd_id (update_rows (\<lambda>r. sd_id r = sd_id d) (\<lambda>_. d) rows) = map sd_id rows"
  by (induction rows) auto

lemma wp_update_diary:
  assumes inv: "palace_inv (ee_dims env) s"
  shows "wp (touch_post (ee_dims env) s) (update_diary_entry env drawer i summary fallback t) s"
proof -
  have db: "ingest_db_ok (pl_db s)" and table: "table_ok (ee_dims env) (pl_drawers s)" using inv by (simp_all add: palace_inv_def)
  note touch = touch_diary_entry_result [OF db, of i summary fallback t]
  let ?db = "snd (touch_diary_entry i summary fallback t (pl_db s))"
  note del = delete_diary_summary_result [OF touch(1), of i]
  note views = same_committed_view(1) [OF touch(2)] same_committed_view(1) [OF del(2)]
  have fine: "fst (delete_diary_summary i db') = Inr ()" for db' by (simp add: delete_diary_summary_def)
  note facts = db table touch(1) del(1) views
  show ?thesis
  proof (cases drawer)
    case None
    then show ?thesis using facts
      by (simp add: update_diary_entry_def wp_call_db wp_try touch_post_def palace_inv_def view_of_def opt_holds_def split: sum.split)
  next
    case (Some d)
    let ?rows = "update_rows (\<lambda>r. sd_id r = sd_id d) (\<lambda>_. d) (pl_drawers s)"
    have rows: "table_ok (ee_dims env) ?rows" if "length (sd_embedding d) = ee_dims env"
      using table that by (auto simp: table_ok_def replace_row_ids set_update_rows)
    show ?thesis
    proof (cases "sd_id d = i")
      case False
      then show ?thesis using Some facts by (simp add: update_diary_entry_def touch_post_def palace_inv_def opt_holds_def)
    next
      case True
      show ?thesis
      proof (cases "length (sd_embedding d) = ee_dims env")
        case bad: False
        then show ?thesis using Some True facts
          by (simp add: update_diary_entry_def wp_simps replace_drawer_def touch_post_def palace_inv_def view_of_def opt_holds_def split: sum.split)
      next
        case dims: True
        then show ?thesis using Some True facts rows [OF dims] fine replace_row_ids [of d "pl_drawers s"]
          by (simp add: update_diary_entry_def wp_simps replace_drawer_def touch_post_def palace_inv_def view_of_def opt_holds_def
              split: sum.split)
      qed
    qed
  qed
qed

section \<open>Removal by prefix\<close>

lemma sql_like_all: "sql_like [37] s"
  by (auto simp: list_ex_iff intro!: bexI [of _ "length s"])

lemma sql_like_prefix: "sql_like (like_prefix_pattern prefix) s \<longleftrightarrow> starts_with s prefix"
proof (induction prefix arbitrary: s)
  case Nil
  show ?case using sql_like_all [of s] by (simp add: like_prefix_pattern_def starts_with_def del: sql_like.simps)
next
  case (Cons c prefix)
  have "like_prefix_pattern (c # prefix) = (if c \<in> {37, 95, 92} then [92, c] else [c]) @ like_prefix_pattern prefix"
    by (simp add: like_prefix_pattern_def)
  then have "sql_like (like_prefix_pattern (c # prefix)) s \<longleftrightarrow> s \<noteq> [] \<and> hd s = c \<and> sql_like (like_prefix_pattern prefix) (tl s)"
    by auto
  then show ?case using Cons.IH [of "tl s"] by (cases s) (auto simp: starts_with_def)
qed

lemma counts_with_prefix_keys:
  "set (map fst (ingested_source_counts_with_prefix db prefix)) = {k. starts_with k prefix \<and> query_ingested_file db k \<noteq> None}"
proof -
  have "query_ingested_file db k \<noteq> None \<longleftrightarrow> k \<in> fl_source_key ` set (ib_files db)" for k
  proof -
    have "find_row (\<lambda>f. fl_source_key f = k) fs = None \<longleftrightarrow> k \<notin> fl_source_key ` set fs" for fs :: "ingest_file list"
      by (induction fs) auto
    then show ?thesis by (simp add: query_ingested_file_def)
  qed
  then show ?thesis by (auto simp: ingested_source_counts_with_prefix_def sql_like_prefix)
qed

lemma wp_delete_batches:
  assumes "\<And>xs. set xs \<subseteq> set (concat cs) \<Longrightarrow> Q None (s\<lparr> pl_drawers := remove_rows xs (pl_drawers s) \<rparr>)"
    and "\<And>xs e. set xs \<subseteq> set (concat cs) \<Longrightarrow> wp Q (k (Inl e)) (s\<lparr> pl_drawers := remove_rows xs (pl_drawers s) \<rparr>)"
    and "wp Q (k (Inr ())) (s\<lparr> pl_drawers := remove_rows (concat cs) (pl_drawers s) \<rparr>)"
  shows "wp Q (delete_batches cs k) s"
  using assms
proof (induction cs arbitrary: s)
  case (Cons c cs)
  have app: "remove_rows xs (remove_rows c rows) = remove_rows (c @ xs) rows" for xs and rows :: "stored_drawer list"
    by (auto simp: remove_rows_def filter_filter intro!: filter_cong)
  have rest: "wp Q (delete_batches cs k) (s\<lparr> pl_drawers := remove_rows c (pl_drawers s) \<rparr>)"
  proof (rule Cons.IH)
    fix xs e
    assume "set xs \<subseteq> set (concat cs)"
    then have "set (c @ xs) \<subseteq> set (concat (c # cs))" by auto
    note Cons.prems(1) [OF this] Cons.prems(2) [OF this, of e]
    then show "Q None (s\<lparr> pl_drawers := remove_rows c (pl_drawers s), pl_drawers := remove_rows xs (pl_drawers (s\<lparr> pl_drawers := remove_rows c (pl_drawers s) \<rparr>)) \<rparr>)"
      "wp Q (k (Inl e)) (s\<lparr> pl_drawers := remove_rows c (pl_drawers s), pl_drawers := remove_rows xs (pl_drawers (s\<lparr> pl_drawers := remove_rows c (pl_drawers s) \<rparr>)) \<rparr>)"
      by (simp_all add: app)
  qed (use Cons.prems(3) in \<open>simp add: app\<close>)
  note here = Cons.prems(1) [of "[]", simplified] Cons.prems(2) [of "[]", simplified]
  show ?case
  proof (cases "c = []")
    case True
    with rest show ?thesis by (simp add: delete_drawers_def)
  next
    case False
    with rest here show ?thesis by (simp add: delete_drawers_def wp_write_table)
  qed
qed simp

lemma concat_chunks: "0 < n \<Longrightarrow> concat (chunks n xs) = xs"
proof (induction n xs rule: chunks.induct)
  case (1 n xs)
  then show ?case by (subst chunks.simps) auto
qed

definition prefix_view :: "rstr \<Rightarrow> palace \<Rightarrow> rstr \<Rightarrow> ingest_file option \<times> rstr list" where
  "prefix_view prefix s = (\<lambda>k. if starts_with k prefix then (None, []) else view_of s k)"

definition prefix_post :: "nat \<Rightarrow> rstr \<Rightarrow> palace \<Rightarrow> (storage_error + nat \<times> nat) option \<Rightarrow> palace \<Rightarrow> bool" where
  "prefix_post dims prefix s r s' \<longleftrightarrow>
     palace_inv dims s'
     \<and> (\<exists>xs. set xs \<subseteq> (\<Union>k \<in> {k. starts_with k prefix}. set (snd (view_of s k))) \<and> pl_drawers s' = remove_rows xs (pl_drawers s))
     \<and> (case r of Some (Inr _) \<Rightarrow> view_of s' = prefix_view prefix s | _ \<Rightarrow> view_of s' = view_of s)"

lemma wp_remove_prefix:
  assumes inv: "palace_inv dims s"
  shows "wp (prefix_post dims prefix s) (remove_source_prefix prefix) s"
proof -
  have db: "ingest_db_ok (pl_db s)" and table: "table_ok dims (pl_drawers s)" using inv by (simp_all add: palace_inv_def)
  then have files: "files_ok (pl_db s)" by (simp add: ingest_db_ok_def)
  define keys where "keys = map fst (ingested_source_counts_with_prefix (pl_db s) prefix)"
  define ids where "ids = committed_drawer_ids_for_source_keys (pl_db s) keys"
  have keys: "set keys = {k. starts_with k prefix \<and> query_ingested_file (pl_db s) k \<noteq> None}"
    unfolding keys_def by (rule counts_with_prefix_keys)
  have empty: "committed_view (pl_db s) k = (None, [])" if "query_ingested_file (pl_db s) k = None" for k
    using that files by (simp add: files_ok_def committed_view_def committed_drawer_ids_for_source_key_def)
  note del = delete_source_keys_result [OF db, of keys]
  have view: "committed_view (fold delete_source_rows keys (pl_db s)) = prefix_view prefix s"
    using del empty by (auto simp: keys prefix_view_def view_of_def fun_eq_iff)
  have ids: "set ids \<subseteq> (\<Union>k \<in> {k. starts_with k prefix}. set (snd (view_of s k)))"
    by (auto simp: ids_def committed_drawer_ids_for_source_keys_def keys view_of_def committed_view_def)
  have old: "prefix_post dims prefix s None (s\<lparr> pl_active := b, pl_drawers := remove_rows xs (pl_drawers s) \<rparr>)"
    "prefix_post dims prefix s (Some (Inl e)) (s\<lparr> pl_active := b, pl_drawers := remove_rows xs (pl_drawers s) \<rparr>)"
    if "set xs \<subseteq> set ids" for b xs e
    using that ids db table by (auto simp: prefix_post_def palace_inv_def remove_rows_ok)
  have new: "prefix_post dims prefix s (Some (Inr n))
      (s\<lparr> pl_active := b, pl_drawers := remove_rows ids (pl_drawers s), pl_db := fold delete_source_rows keys (pl_db s) \<rparr>)" for b n
    using ids del view table by (auto simp: prefix_post_def palace_inv_def remove_rows_ok view_of_def)
  let ?rest = "\<lambda>r. try_p r (\<lambda>_. call_db (delete_source_keys keys) (\<lambda>r. try_p r (\<lambda>_. Return (Inr (length keys, length ids)))))"
  have rest: "wp (prefix_post dims prefix s) (?rest (Inr ())) (s\<lparr> pl_active := b, pl_drawers := remove_rows ids (pl_drawers s) \<rparr>)" for b
    using old [OF subset_refl] new by (simp add: wp_simps delete_source_keys_def)
  have "wp (prefix_post dims prefix s) (delete_batches (chunks DELETE_CHUNK ids) ?rest) (s\<lparr> pl_active := b \<rparr>)" for b
    by (rule wp_delete_batches) (use old rest in \<open>simp_all add: concat_chunks DELETE_CHUNK_def wp_try\<close>)
  note batches = this [of True] this [of "pl_active s", simplified]
  note here = old(1) [of "[]" "pl_active s", simplified] old(2) [of "[]" _ "pl_active s", simplified]
  have no_source: "keys = [] \<longrightarrow> prefix_post dims prefix s (Some (Inr (0, 0))) s"
    using new [of "(0, 0)" "pl_active s"] by (auto simp: ids_def committed_drawer_ids_for_source_keys_def)
  have some: "wp (prefix_post dims prefix s)
     (if ids = [] then ?rest (Inr ()) else signal_activity (delete_batches (chunks DELETE_CHUNK ids) ?rest)) s"
    using batches here rest [of "pl_active s"] by (auto simp: wp_signal)
  have none: "ingested_source_counts_with_prefix (pl_db s) prefix = [] \<longleftrightarrow> keys = []" by (simp add: keys_def)
  show ?thesis
    unfolding remove_source_prefix_def wp_read_db wp_try sum.case Let_def keys_def [symmetric] none
    using here no_source some by (simp add: wp_read_db wp_try flip: ids_def)
qed

section \<open>Reconciliation\<close>

definition run_statuses :: "ingest_db \<Rightarrow> (nat \<times> ingest_run_status) list" where
  "run_statuses db = map (\<lambda>r. (ir_id r, ir_status r)) (ib_runs db)"

definition fail_runs :: "nat set \<Rightarrow> (nat \<times> ingest_run_status) list \<Rightarrow> (nat \<times> ingest_run_status) list" where
  "fail_runs ids = map (\<lambda>(i, st). (i, if i \<in> ids then RunFailed else st))"

definition is_stale :: "engine_env \<Rightarrow> ingest_run \<Rightarrow> bool" where
  "is_stale env r \<longleftrightarrow> ee_enc env (ir_updated_at r) < ee_enc env (ee_clock env 0 - STALE_AFTER)"

text \<open>The pending runs that are older than the cutoff, and with them the failed runs of the diary.\<close>

definition stale_ids_pending :: "engine_env \<Rightarrow> ingest_db \<Rightarrow> nat set" where
  "stale_ids_pending env db = ir_id ` {r \<in> set (ib_runs db). ir_status r = RunPending \<and> is_stale env r}"

definition stale_ids_all :: "engine_env \<Rightarrow> ingest_db \<Rightarrow> nat set" where
  "stale_ids_all env db = ir_id ` {r \<in> set (ib_runs db). is_stale env r
     \<and> (ir_status r = RunPending \<or> ir_status r = RunFailed \<and> ir_kind r = lit ''diary'')}"

text \<open>What reconciliation removes: the drawers of stale runs that no committed run lists.\<close>

definition orphan_ids :: "engine_env \<Rightarrow> ingest_db \<Rightarrow> rstr set" where
  "orphan_ids env db = {mf_drawer_id m | m. m \<in> set (ib_manifests db) \<and> mf_run_id m \<in> stale_ids_all env db}
     - set (committed_drawer_ids db)"

definition reconcile_post :: "engine_env \<Rightarrow> palace \<Rightarrow> (storage_error + unit) option \<Rightarrow> palace \<Rightarrow> bool" where
  "reconcile_post env s r s' \<longleftrightarrow>
     (let gone = orphan_ids env (pl_db s) in
      palace_inv (ee_dims env) s' \<and> same_committed (pl_db s) (pl_db s')
      \<and> pl_drawers s' \<in> {pl_drawers s, filter (\<lambda>d. sd_id d \<notin> gone) (pl_drawers s)}
      \<and> (case r of
           Some (Inr _) \<Rightarrow>
             pl_drawers s' = filter (\<lambda>d. sd_id d \<notin> gone) (pl_drawers s)
             \<and> ib_diary (pl_db s') = filter (\<lambda>d. dy_entry_id d \<notin> gone) (ib_diary (pl_db s))
             \<and> run_statuses (pl_db s') = fail_runs (stale_ids_pending env (pl_db s)) (run_statuses (pl_db s))
         | _ \<Rightarrow> True))"

lemma statuses_marked: "run_statuses (set_run_status i RunFailed t reason db) = fail_runs {i} (run_statuses db)"
proof -
  have "map (\<lambda>r. (ir_id r, ir_status r))
      (update_rows (\<lambda>r. ir_id r = i) (\<lambda>r. r\<lparr> ir_status := RunFailed, ir_updated_at := t, ir_failed_reason := reason \<rparr>) rows)
    = fail_runs {i} (map (\<lambda>r. (ir_id r, ir_status r)) rows)" for rows :: "ingest_run list"
    by (induction rows) (auto simp: fail_runs_def)
  then show ?thesis by (simp add: run_statuses_def set_run_status_def)
qed

lemma fail_runs_fail_runs: "fail_runs A (fail_runs B xs) = fail_runs (A \<union> B) xs"
  by (auto simp: fail_runs_def)

lemma fail_runs_empty [simp]: "fail_runs {} xs = xs"
  by (auto simp: fail_runs_def)

lemma wp_fail_stale:
  assumes "ingest_db_ok (pl_db s)" "\<forall>r \<in> set rs. \<exists>st. (ir_id (rr_run r), st) \<in> set (run_statuses (pl_db s)) \<and> st \<noteq> RunCommitted"
  shows "wp (\<lambda>r t. ingest_db_ok (pl_db t) \<and> same_committed (pl_db s) (pl_db t) \<and> pl_drawers t = pl_drawers s
      \<and> ib_diary (pl_db t) = ib_diary (pl_db s)
      \<and> (r = Some (Inr ()) \<longrightarrow> run_statuses (pl_db t) = fail_runs ((ir_id \<circ> rr_run) ` set rs) (run_statuses (pl_db s))))
    (fail_stale clock n rs) s"
  using assms
proof (induction rs arbitrary: s n)
  case (Cons r rs)
  let ?i = "ir_id (rr_run r)" and ?reason = "lit ''stale pending ingest run''"
  let ?db = "set_run_status ?i RunFailed (clock n) (Some ?reason) (pl_db s)"
  from Cons.prems(2) obtain run where run: "run \<in> set (ib_runs (pl_db s))" "ir_id run = ?i" "ir_status run \<noteq> RunCommitted"
    by (auto simp: run_statuses_def)
  note m = mark_run_failed_result [OF Cons.prems(1) run(1,3), of ?reason "clock n", unfolded run(2) mark_run_failed_def snd_conv]
  have "\<forall>r \<in> set rs. \<exists>st. (ir_id (rr_run r), st) \<in> set (run_statuses ?db) \<and> st \<noteq> RunCommitted"
  proof
    fix r'
    assume "r' \<in> set rs"
    then obtain st where st: "(ir_id (rr_run r'), st) \<in> set (run_statuses (pl_db s))" "st \<noteq> RunCommitted" using Cons.prems(2) by auto
    then have "(ir_id (rr_run r'), if ir_id (rr_run r') \<in> {?i} then RunFailed else st) \<in> set (run_statuses ?db)"
      unfolding statuses_marked by (force simp: fail_runs_def)
    with st(2) show "\<exists>st. (ir_id (rr_run r'), st) \<in> set (run_statuses ?db) \<and> st \<noteq> RunCommitted" by (auto split: if_splits)
  qed
  note ih = Cons.IH [of "s\<lparr> pl_db := ?db \<rparr>" "n + 1", simplified, OF m(1) this]
  have diary: "ib_diary ?db = ib_diary (pl_db s)" by (simp add: set_run_status_def)
  have "wp (\<lambda>r' t. ingest_db_ok (pl_db t) \<and> same_committed (pl_db s) (pl_db t) \<and> pl_drawers t = pl_drawers s
      \<and> ib_diary (pl_db t) = ib_diary (pl_db s)
      \<and> (r' = Some (Inr ()) \<longrightarrow> run_statuses (pl_db t) = fail_runs ((ir_id \<circ> rr_run) ` set (r # rs)) (run_statuses (pl_db s))))
    (fail_stale clock (Suc n) rs) (s\<lparr> pl_db := ?db \<rparr>)"
    using ih
    by (rule wp_mono) (use m(2) diary in \<open>auto simp: statuses_marked fail_runs_fail_runs intro: same_committed_trans\<close>)
  then show ?case using Cons.prems(1) by (simp add: wp_simps mark_run_failed_def)
qed (auto simp: fail_runs_def)

lemma wp_delete_summaries:
  assumes "ingest_db_ok (pl_db s)"
    and "\<And>rows. ingest_db_ok ((pl_db s)\<lparr> ib_diary := rows \<rparr>) \<Longrightarrow> Q None (s\<lparr> pl_db := (pl_db s)\<lparr> ib_diary := rows \<rparr> \<rparr>)"
    and "\<And>e rows. ingest_db_ok ((pl_db s)\<lparr> ib_diary := rows \<rparr>) \<Longrightarrow> wp Q (k (Inl e)) (s\<lparr> pl_db := (pl_db s)\<lparr> ib_diary := rows \<rparr> \<rparr>)"
    and "let db = (pl_db s)\<lparr> ib_diary := filter (\<lambda>d. dy_entry_id d \<notin> set ids) (ib_diary (pl_db s)) \<rparr>
      in ingest_db_ok db \<longrightarrow> wp Q (k (Inr ())) (s\<lparr> pl_db := db \<rparr>)"
  shows "wp Q (delete_summaries ids k) s"
  using assms
proof (induction ids arbitrary: s)
  case (Cons i ids)
  let ?db = "(pl_db s)\<lparr> ib_diary := filter (\<lambda>d. dy_entry_id d \<noteq> i) (ib_diary (pl_db s)) \<rparr>"
  have ok: "ingest_db_ok ?db" using delete_diary_summary_result(1) [OF Cons.prems(1), of i] by (simp add: delete_diary_summary_def)
  have "filter (\<lambda>d. dy_entry_id d \<notin> set ids) (filter (\<lambda>d. dy_entry_id d \<noteq> i) (ib_diary (pl_db s)))
      = filter (\<lambda>d. dy_entry_id d \<notin> set (i # ids)) (ib_diary (pl_db s))"
    by (auto simp: filter_filter intro!: filter_cong)
  then have "wp Q (delete_summaries ids k) (s\<lparr> pl_db := ?db \<rparr>)"
    by (intro Cons.IH) (use ok Cons.prems in \<open>auto simp: Let_def\<close>)
  then show ?case using Cons.prems(1) Cons.prems(2,3) [of "ib_diary (pl_db s)"]
    by (simp add: wp_simps delete_diary_summary_def)
qed (simp add: Let_def)

lemma stale_runs_ids:
  "(ir_id \<circ> rr_run) ` set (stale_pending_runs (ee_enc env) (ee_clock env 0 - STALE_AFTER) db) = stale_ids_pending env db"
  by (force simp: stale_pending_runs_def retryable_def stale_ids_pending_def is_stale_def)

definition stale_all :: "engine_env \<Rightarrow> ingest_db \<Rightarrow> retryable_run list" where
  "stale_all env db = stale_pending_runs (ee_enc env) (ee_clock env 0 - STALE_AFTER) db
     @ stale_failed_diary_runs (ee_enc env) (ee_clock env 0 - STALE_AFTER) db"

lemma stale_all_ids: "ir_id ` rr_run ` set (stale_all env db) = stale_ids_all env db"
  by (force simp: stale_all_def stale_pending_runs_def stale_failed_diary_runs_def retryable_def stale_ids_all_def is_stale_def)

lemma stale_all_chunks:
  "set (concat (map rr_chunk_ids (stale_all env db)))
     = {mf_drawer_id m | m. m \<in> set (ib_manifests db) \<and> mf_run_id m \<in> stale_ids_all env db}"
proof -
  have "rr_chunk_ids r = manifest_ids db (ir_id (rr_run r))" if "r \<in> set (stale_all env db)" for r
    using that by (auto simp: stale_all_def stale_pending_runs_def stale_failed_diary_runs_def retryable_def)
  then have "set (concat (map rr_chunk_ids (stale_all env db))) = (\<Union>i \<in> ir_id ` rr_run ` set (stale_all env db). set (manifest_ids db i))"
    by auto
  then show ?thesis unfolding stale_all_ids by (force simp: manifest_ids_def)
qed

lemma orphan_ids_eq:
  "orphan_ids env db = set (filter (\<lambda>i. i \<notin> set (committed_drawer_ids db)) (concat (map rr_chunk_ids (stale_all env db))))"
  unfolding set_filter stale_all_chunks orphan_ids_def by auto

lemma remove_orphaned:
  "remove_rows (orphaned_rows runs committed rows) rows
     = filter (\<lambda>d. sd_id d \<notin> set (filter (\<lambda>i. i \<notin> set committed) (concat (map rr_chunk_ids runs)))) rows"
proof -
  have "set (orphaned_rows runs committed rows) = sd_id ` set rows \<inter> set (filter (\<lambda>i. i \<notin> set committed) (concat (map rr_chunk_ids runs)))"
    by (auto simp: orphaned_rows_def list_drawers_def any_drawer_def filter_matches_def view_matches_def)
  then show ?thesis by (auto simp: remove_rows_def intro!: filter_cong)
qed

lemma wp_prune:
  fixes runs s
  defines "gone \<equiv> set (filter (\<lambda>i. i \<notin> set (committed_drawer_ids (pl_db s))) (concat (map rr_chunk_ids runs)))"
  assumes stop: "\<And>b rows. rows \<in> {pl_drawers s, filter (\<lambda>d. sd_id d \<notin> gone) (pl_drawers s)} \<Longrightarrow>
      Q None (s\<lparr> pl_active := b, pl_drawers := rows \<rparr>) \<and> (\<forall>e. wp Q (k (Inl e)) (s\<lparr> pl_active := b, pl_drawers := rows \<rparr>))"
    and works: "\<And>b xs. wp Q (k (Inr xs)) (s\<lparr> pl_active := b, pl_drawers := filter (\<lambda>d. sd_id d \<notin> gone) (pl_drawers s) \<rparr>)"
  shows "wp Q (prune_orphaned_rows runs k) s"
proof -
  let ?ids = "orphaned_rows runs (committed_drawer_ids (pl_db s)) (pl_drawers s)"
  have rows: "filter (\<lambda>d. sd_id d \<notin> gone) (pl_drawers s) = remove_rows ?ids (pl_drawers s)"
    unfolding gone_def by (rule remove_orphaned [symmetric])
  note old = stop [of "pl_drawers s" "pl_active s", simplified] stop [of "pl_drawers s" True, simplified]
  have "wp Q (k (Inr [])) s" if "?ids = []" using works [of "[]" "pl_active s"] that by (simp add: rows)
  moreover note works [of _ True, unfolded rows] works [of _ "pl_active s", unfolded rows]
  ultimately show ?thesis using old
    by (simp add: prune_orphaned_rows_def wp_simps Let_def delete_drawers_def)
qed

lemma stale_runs_uncommitted:
  "\<forall>r \<in> set (stale_pending_runs enc cutoff db). \<exists>st. (ir_id (rr_run r), st) \<in> set (run_statuses db) \<and> st \<noteq> RunCommitted"
  by (force simp: stale_pending_runs_def retryable_def run_statuses_def)

lemma wp_reconcile_runs:
  assumes inv: "palace_inv (ee_dims env) s" and t: "pl_db t = (pl_db s)\<lparr> ib_diary := filter (\<lambda>d. dy_entry_id d \<notin> orphan_ids env (pl_db s)) (ib_diary (pl_db s)) \<rparr>"
    "ingest_db_ok (pl_db t)" "pl_drawers t = filter (\<lambda>d. sd_id d \<notin> orphan_ids env (pl_db s)) (pl_drawers s)"
  shows "wp (reconcile_post env s)
    (fail_stale (ee_clock env) n (stale_pending_runs (ee_enc env) (ee_clock env 0 - STALE_AFTER) (pl_db s))) t"
proof -
  let ?rs = "stale_pending_runs (ee_enc env) (ee_clock env 0 - STALE_AFTER) (pl_db s)"
  have st: "run_statuses (pl_db t) = run_statuses (pl_db s)" by (simp add: t(1) run_statuses_def)
  have same: "same_committed (pl_db s) (pl_db t)" by (rule same_tables) (simp_all add: t(1))
  have table: "table_ok (ee_dims env) (pl_drawers t)"
    using inv by (auto simp: t(3) palace_inv_def table_ok_def distinct_map_filter)
  show ?thesis
  proof (rule wp_mono [OF wp_fail_stale [OF t(2)]])
    show "\<forall>r \<in> set ?rs. \<exists>st. (ir_id (rr_run r), st) \<in> set (run_statuses (pl_db t)) \<and> st \<noteq> RunCommitted"
      unfolding st by (rule stale_runs_uncommitted)
  next
    fix r :: "(storage_error + unit) option" and u :: palace
    assume u: "ingest_db_ok (pl_db u) \<and> same_committed (pl_db t) (pl_db u) \<and> pl_drawers u = pl_drawers t \<and> ib_diary (pl_db u) = ib_diary (pl_db t)
      \<and> (r = Some (Inr ()) \<longrightarrow> run_statuses (pl_db u) = fail_runs ((ir_id \<circ> rr_run) ` set ?rs) (run_statuses (pl_db t)))"
    then have "same_committed (pl_db s) (pl_db u)" using same same_committed_trans by blast
    with u show "reconcile_post env s r u"
      unfolding stale_runs_ids st using table t(1,3)
      by (auto simp: reconcile_post_def palace_inv_def Let_def split: option.split sum.split)
  qed
qed

lemma same_diary: "same_committed db (db\<lparr> ib_diary := rows \<rparr>)"
  by (rule same_tables) simp_all

lemma wp_reconcile:
  assumes inv: "palace_inv (ee_dims env) s"
  shows "wp (reconcile_post env s) (reconcile env) s"
proof -
  let ?cutoff = "ee_clock env 0 - STALE_AFTER"
  let ?pending = "stale_pending_runs (ee_enc env) ?cutoff (pl_db s)"
  let ?gone = "orphan_ids env (pl_db s)"
  let ?ids = "filter (\<lambda>i. i \<notin> set (committed_drawer_ids (pl_db s))) (concat (map rr_chunk_ids (stale_all env (pl_db s))))"
  have db: "ingest_db_ok (pl_db s)" and table: "table_ok (ee_dims env) (pl_drawers s)" using inv by (simp_all add: palace_inv_def)
  have gone: "set ?ids = ?gone" by (rule orphan_ids_eq [symmetric])
  have old: "reconcile_post env s None t" "reconcile_post env s (Some (Inl e)) t"
    if "ingest_db_ok (pl_db t)" "same_committed (pl_db s) (pl_db t)"
      "pl_drawers t \<in> {pl_drawers s, filter (\<lambda>d. sd_id d \<notin> ?gone) (pl_drawers s)}" for t e
    using that table by (auto simp: reconcile_post_def Let_def palace_inv_def table_ok_def distinct_map_filter)
  have here: "reconcile_post env s None s" "reconcile_post env s (Some (Inl e)) s" for e
    using old(1) [of s] old(2) [of s e] db by simp_all
  let ?k3 = "\<lambda>r. try_p r (\<lambda>_. fail_stale (ee_clock env) 1 ?pending)"
  let ?k2 = "\<lambda>r. try_p r (\<lambda>_::rstr list. read_db committed_drawer_ids (\<lambda>r. try_p r (\<lambda>committed.
      delete_summaries (filter (\<lambda>i. i \<notin> set committed) (concat (map rr_chunk_ids (stale_all env (pl_db s))))) ?k3)))"
  have prune: "wp (reconcile_post env s) (prune_orphaned_rows (stale_all env (pl_db s)) ?k2) s"
  proof (rule wp_prune, goal_cases)
    case (1 b rows)
    then show ?case using old(1) [of "s\<lparr> pl_active := b, pl_drawers := rows \<rparr>"] old(2) [of "s\<lparr> pl_active := b, pl_drawers := rows \<rparr>"] db unfolding gone by (auto simp: wp_try)
  next
    case (2 b xs)
    let ?t = "s\<lparr> pl_active := b, pl_drawers := filter (\<lambda>d. sd_id d \<notin> set ?ids) (pl_drawers s) \<rparr>"
    have mid: "reconcile_post env s r (?t\<lparr> pl_db := (pl_db s)\<lparr> ib_diary := rows \<rparr> \<rparr>)"
      if "ingest_db_ok ((pl_db s)\<lparr> ib_diary := rows \<rparr>)" "r = None \<or> r = Some (Inl e)" for rows r e
      using that old(1) [of "?t\<lparr> pl_db := (pl_db s)\<lparr> ib_diary := rows \<rparr> \<rparr>"] old(2) [of "?t\<lparr> pl_db := (pl_db s)\<lparr> ib_diary := rows \<rparr> \<rparr>" e] unfolding gone
      by (auto simp: same_diary)
    have start: "reconcile_post env s r ?t" if "r = None \<or> r = Some (Inl e)" for r e
      using mid [of "ib_diary (pl_db s)"] db that by simp
    have "wp (reconcile_post env s) (delete_summaries ?ids ?k3) ?t"
    proof (rule wp_delete_summaries, goal_cases)
      case 4
      then show ?case unfolding Let_def gone
        using wp_reconcile_runs [OF inv] by (simp add: wp_try)
    qed (use db mid in \<open>auto simp: wp_try\<close>)
    then show ?case using start by (simp add: wp_simps)
  qed
  have "reconcile_post env s (Some (Inr ())) s" if "stale_all env (pl_db s) = []"
  proof -
    have "?gone = {}" using gone that by simp
    moreover have "?pending = []" using that by (simp add: stale_all_def)
    then have "stale_ids_pending env (pl_db s) = {}" using stale_runs_ids [of env "pl_db s"] by simp
    ultimately show ?thesis using inv by (simp add: reconcile_post_def)
  qed
  with prune here show ?thesis
    unfolding reconcile_def Let_def wp_read_db wp_try sum.case stale_all_def [symmetric] by (simp add: wp_try wp_read_db)
qed

section \<open>Every operation\<close>

datatype engine_op =
  OpCommit ingest_commit_request
| OpDiary ingest_commit_request rstr
| OpTouch "stored_drawer option" rstr "rstr option" rstr int
| OpReplace rstr rstr rstr rstr "stored_drawer list"
| OpRemove rstr
| OpRemovePrefix rstr
| OpReconcile

definition without_value :: "(storage_error + 'a) eprog \<Rightarrow> (storage_error + unit) eprog" where
  "without_value p = and_then p (\<lambda>r. Return (case r of Inl e \<Rightarrow> Inl e | Inr _ \<Rightarrow> Inr ()))"

fun op_prog :: "engine_env \<Rightarrow> engine_op \<Rightarrow> (storage_error + unit) eprog" where
  "op_prog env (OpCommit req) = without_value (commit_ingest env req)"
| "op_prog env (OpDiary req summary) = without_value (commit_diary_ingest env req summary)"
| "op_prog env (OpTouch drawer i summary fallback t) = update_diary_entry env drawer i summary fallback t"
| "op_prog env (OpReplace kind key src hash drawers) = replace_source_drawers env kind key src hash drawers"
| "op_prog env (OpRemove key) = remove_source_key key"
| "op_prog env (OpRemovePrefix prefix) = without_value (remove_source_prefix prefix)"
| "op_prog env OpReconcile = reconcile env"

text \<open>The committed view that the operation is to leave.\<close>

fun op_view :: "engine_env \<Rightarrow> engine_op \<Rightarrow> palace \<Rightarrow> rstr \<Rightarrow> ingest_file option \<times> rstr list" where
  "op_view env (OpCommit req) s = new_view env req s"
| "op_view env (OpDiary req summary) s = new_view env req s"
| "op_view env (OpTouch drawer i summary fallback t) s = view_of s"
| "op_view env (OpReplace kind key src hash drawers) s = new_view env (source_request kind key src hash drawers) s"
| "op_view env (OpRemove key) s = (view_of s)(key := (None, []))"
| "op_view env (OpRemovePrefix prefix) s = prefix_view prefix s"
| "op_view env OpReconcile s = view_of s"

definition op_post :: "engine_env \<Rightarrow> engine_op \<Rightarrow> palace \<Rightarrow> (storage_error + unit) option \<Rightarrow> palace \<Rightarrow> bool" where
  "op_post env x s r s' \<longleftrightarrow>
     palace_inv (ee_dims env) s'
     \<and> (case r of Some (Inr _) \<Rightarrow> view_of s' = op_view env x s | _ \<Rightarrow> view_of s' \<in> {view_of s, op_view env x s})"

lemma wp_without_value:
  assumes "wp R p s" "\<And>t. R None t \<Longrightarrow> Q None t" "\<And>e t. R (Some (Inl e)) t \<Longrightarrow> Q (Some (Inl e)) t"
    "\<And>y t. R (Some (Inr y)) t \<Longrightarrow> Q (Some (Inr ())) t"
  shows "wp Q (without_value p) s"
  unfolding without_value_def
  by (rule wp_and_then, rule wp_mono [OF assms(1)]) (use assms(2-4) in \<open>auto split: option.split sum.split\<close>)

lemma wp_op:
  assumes inv: "palace_inv (ee_dims env) s"
  shows "wp (op_post env x s) (op_prog env x) s"
proof (cases x)
  case (OpCommit req)
  show ?thesis unfolding OpCommit op_prog.simps
    by (rule wp_without_value [OF wp_commit_ingest [OF inv]]) (auto simp: ingest_post_def op_post_def)
next
  case (OpDiary req summary)
  show ?thesis unfolding OpDiary op_prog.simps
    by (rule wp_without_value [OF wp_commit_diary_ingest [OF inv]]) (auto simp: ingest_post_def op_post_def)
next
  case (OpTouch drawer i summary fallback t)
  show ?thesis unfolding OpTouch op_prog.simps
    by (rule wp_mono [OF wp_update_diary [OF inv]]) (auto simp: touch_post_def op_post_def split: option.split sum.split)
next
  case (OpReplace kind key src hash drawers)
  show ?thesis unfolding OpReplace op_prog.simps
    by (rule wp_mono [OF wp_replace_source [OF inv]]) (auto simp: replace_post_def op_post_def split: option.splits sum.splits)
next
  case (OpRemove key)
  show ?thesis unfolding OpRemove op_prog.simps
    by (rule wp_mono [OF wp_remove_source [OF inv]]) (auto simp: remove_post_def op_post_def split: option.splits sum.splits)
next
  case (OpRemovePrefix prefix)
  show ?thesis unfolding OpRemovePrefix op_prog.simps
    by (rule wp_without_value [OF wp_remove_prefix [OF inv]]) (auto simp: prefix_post_def op_post_def)
next
  case OpReconcile
  show ?thesis unfolding OpReconcile op_prog.simps
    by (rule wp_mono [OF wp_reconcile [OF inv]])
      (auto simp: reconcile_post_def op_post_def Let_def view_of_def dest: same_committed_view(1) split: option.splits sum.splits)
qed

text \<open>The life of an engine: operations, each with the clock it reads and the fates of its calls.\<close>

definition palace_init :: palace where
  "palace_init = \<lparr> pl_db = ingest_db_init, pl_drawers = [], pl_active = False \<rparr>"

definition engine_step :: "engine_env \<Rightarrow> (nat \<Rightarrow> int) \<times> engine_op \<times> fate list \<Rightarrow> palace \<Rightarrow> palace" where
  "engine_step env call s = (case call of (clock, x, fates) \<Rightarrow> snd (exec (op_prog (env\<lparr> ee_clock := clock \<rparr>) x) fates s))"

definition engine_run :: "engine_env \<Rightarrow> ((nat \<Rightarrow> int) \<times> engine_op \<times> fate list) list \<Rightarrow> palace" where
  "engine_run env calls = fold (engine_step env) calls palace_init"

lemma palace_init_inv: "palace_inv dims palace_init"
  by (simp add: palace_init_def palace_inv_def ingest_db_init_def ingest_db_ok_def runs_ok_def files_ok_def diary_ok_def
      table_ok_def query_ingested_file_def latest_committed_def)

lemma engine_run_inv: "palace_inv (ee_dims env) (engine_run env calls)"
proof -
  have step: "palace_inv (ee_dims env) (engine_step env call s)" if inv: "palace_inv (ee_dims env) s" for call s
  proof -
    obtain clock x fates where call: "call = (clock, x, fates)" by (cases call)
    let ?env = "env\<lparr> ee_clock := clock \<rparr>"
    obtain r s' where e: "exec (op_prog ?env x) fates s = (r, s')" by fastforce
    have "wp (op_post ?env x s) (op_prog ?env x) s" by (rule wp_op) (simp add: inv)
    from wp_exec [OF this e] show ?thesis by (simp add: op_post_def engine_step_def call e)
  qed
  have "palace_inv (ee_dims env) s \<Longrightarrow> palace_inv (ee_dims env) (fold (engine_step env) calls s)" for s
    by (induction calls arbitrary: s) (simp_all add: step)
  then show ?thesis by (simp add: engine_run_def palace_init_inv)
qed

section \<open>Properties\<close>

lemma put_partial_others:
  assumes "rows' \<in> put_partial strategy drawers rows"
  shows "remove_rows (map sd_id drawers) rows' = remove_rows (map sd_id drawers) rows"
  using assms by (auto simp: put_partial_def rows_after_put_def remove_rows_def filter_filter filter_empty_conv split: if_splits)

lemma put_stores_ids: "set (map sd_id drawers) \<subseteq> sd_id ` set (rows_after_put strategy drawers rows)"
  by (auto simp: rows_after_put_def)



text \<open>C33: Every operation of the engine implements one update of the abstract palace, which maps a source key to
  its file and committed drawers: a commit or a replacement sets one key, a removal clears one key or the keys
  with a prefix, diary updates and reconciliation change nothing. Under any fate of its calls the operation
  leaves the old map or the updated one, and the updated one when it reports success.\<close>

theorem operations_switch_views:
  "let s = engine_run env calls; env' = env\<lparr> ee_clock := clock \<rparr> in
   case exec (op_prog env' x) fates s of
     (r, s') \<Rightarrow>
       (case r of
          Some (Inr _) \<Rightarrow> committed_view (pl_db s') = op_view env' x s
        | _ \<Rightarrow> committed_view (pl_db s') \<in> {committed_view (pl_db s), op_view env' x s})"
proof -
  let ?s = "engine_run env calls" and ?env = "env\<lparr> ee_clock := clock \<rparr>"
  obtain r s' where e: "exec (op_prog ?env x) fates ?s = (r, s')" by fastforce
  have "palace_inv (ee_dims ?env) ?s" using engine_run_inv [of env calls] by simp
  from wp_exec [OF wp_op [OF this] e] show ?thesis by (auto simp: Let_def e op_post_def view_of_def split: option.split sum.split)
qed

text \<open>C35: Reconciliation removes exactly the leftovers of stale runs: when it reports success, the drawers and
  diary summaries gone are those that a stale pending run, or a stale failed diary run, lists and no committed
  run does; the stale pending runs are failed and no other run changes. If it fails or is stopped, nothing
  committed has changed and no other drawer is gone.\<close>

theorem reconcile_exact:
  "let s = engine_run env calls; gone = orphan_ids env (pl_db s) in
   case exec (reconcile env) fates s of
     (r, s') \<Rightarrow>
       committed_view (pl_db s') = committed_view (pl_db s)
       \<and> committed_drawer_ids (pl_db s') = committed_drawer_ids (pl_db s)
       \<and> pl_drawers s' \<in> {pl_drawers s, filter (\<lambda>d. sd_id d \<notin> gone) (pl_drawers s)}
       \<and> (case r of
            Some (Inr _) \<Rightarrow>
              pl_drawers s' = filter (\<lambda>d. sd_id d \<notin> gone) (pl_drawers s)
              \<and> ib_diary (pl_db s') = filter (\<lambda>d. dy_entry_id d \<notin> gone) (ib_diary (pl_db s))
              \<and> run_statuses (pl_db s') = fail_runs (stale_ids_pending env (pl_db s)) (run_statuses (pl_db s))
          | _ \<Rightarrow> True)"
proof -
  let ?s = "engine_run env calls"
  obtain r s' where e: "exec (reconcile env) fates ?s = (r, s')" by fastforce
  have "reconcile_post env ?s r s'" by (rule wp_exec [OF wp_reconcile [OF engine_run_inv] e])
  then show ?thesis
    by (auto simp: Let_def e reconcile_post_def same_committed_view split: option.splits sum.splits)
qed

section \<open>An interrupted ingest\<close>

definition stop_post :: "engine_env \<Rightarrow> ingest_commit_request \<Rightarrow> palace \<Rightarrow> (storage_error + nat) option \<Rightarrow> palace \<Rightarrow> bool" where
  "stop_post env req s r t \<longleftrightarrow>
     (r = None \<longrightarrow> pl_db t = pl_db s \<and> pl_drawers t = pl_drawers s
        \<or> (\<exists>run. opened_run run (manifests_of req) (pl_db s) (pl_db t) \<and> ir_updated_at run = ee_clock env 0))"

lemma wp_commit_stopped:
  assumes inv: "palace_inv (ee_dims env) s"
  shows "wp (stop_post env req s) (commit_ingest env req) s"
proof -
  have ok: "runs_ok (pl_db s)" "table_ok (ee_dims env) (pl_drawers s)" using inv by (simp_all add: palace_inv_def ingest_db_ok_def)
  show ?thesis
  proof (cases rule: create_pending_run_cases [OF ok(1), of "ee_enc env" "ic_kind req" "ic_source_key req" "manifests_of req" "ee_clock env 0"])
    case (1 e)
    then show ?thesis by (simp add: commit_ingest_def wp_simps stop_post_def)
  next
    case (2 run db')
    have post: "stop_post env req s r t" if "pl_db t = db' \<or> r \<noteq> None" for r t
      using that 2(2,5) by (auto simp: stop_post_def)
    have "distinct (map sd_id (ic_drawers req))" using 2(2) by (simp add: opened_run_def flip: map_manifests_of)
    then have "wp (stop_post env req s) (put_drawers (ee_dims env) (ic_drawers req) (ic_strategy req)
        (\<lambda>w. case w of Inr _ \<Rightarrow> finish_run env req run | Inl e \<Rightarrow> fail_run env run e)) (s\<lparr> pl_db := db', pl_active := b \<rparr>)" for b
      by (intro wp_put_drawers)
        (use ok(2) post in \<open>auto simp: finish_run_def fail_run_def wp_simps split: sum.split\<close>)
    note this [of True] this [of "pl_active s"]
    then show ?thesis using 2(1) post by (simp add: commit_ingest_def wp_simps) (simp add: stop_post_def)
  qed
qed

lemma image_Collect_eq: "f ` {x \<in> A. p x} = {f x | x. x \<in> A \<and> p x}"
  by auto

lemma opened_orphans:
  assumes db: "runs_ok db" and run: "opened_run run entries db db'" and stale: "is_stale env run"
  shows "orphan_ids env db' = orphan_ids env db \<union> (set (map mf_drawer_id entries) - set (committed_drawer_ids db))"
proof -
  have small: "mf_run_id m \<noteq> ir_id run" if "m \<in> set (ib_manifests db)" for m
    using db run that by (fastforce simp: runs_ok_def opened_run_def)
  have "stale_ids_all env db' = insert (ir_id run) (stale_ids_all env db)"
  proof -
    have "{r \<in> set (ib_runs db'). is_stale env r \<and> (ir_status r = RunPending \<or> ir_status r = RunFailed \<and> ir_kind r = lit ''diary'')}
        = insert run {r \<in> set (ib_runs db). is_stale env r \<and> (ir_status r = RunPending \<or> ir_status r = RunFailed \<and> ir_kind r = lit ''diary'')}"
      using run stale by (auto simp: opened_run_def)
    then show ?thesis by (simp add: stale_ids_all_def)
  qed
  moreover have "ir_id run \<notin> stale_ids_all env db" using db run by (auto simp: stale_ids_all_def runs_ok_def opened_run_def)
  ultimately have "{m \<in> set (ib_manifests db'). mf_run_id m \<in> stale_ids_all env db'}
      = {m \<in> set (ib_manifests db). mf_run_id m \<in> stale_ids_all env db}
        \<union> (\<lambda>e. e\<lparr> mf_run_id := ir_id run, mf_status := RunPending \<rparr>) ` set entries"
    using run small by (auto simp: opened_run_def)
  then have "mf_drawer_id ` {m \<in> set (ib_manifests db'). mf_run_id m \<in> stale_ids_all env db'}
      = mf_drawer_id ` {m \<in> set (ib_manifests db). mf_run_id m \<in> stale_ids_all env db} \<union> set (map mf_drawer_id entries)"
    by (simp add: image_Un image_image)
  then show ?thesis
    unfolding orphan_ids_def same_committed_view(2) [OF opened_run_same [OF run]] image_Collect_eq [symmetric] by (simp add: Un_Diff)
qed

lemma put_partial_fresh:
  assumes "rows' \<in> put_partial strategy drawers rows" "set (map sd_id drawers) \<inter> sd_id ` set rows = {}"
  shows "rows' = rows \<or> rows' = rows @ drawers"
proof -
  have "filter (\<lambda>d. sd_id d \<notin> sd_id ` set rows) drawers = drawers" using assms(2) by (intro filter_True) auto
  then show ?thesis
    using assms(1) remove_fresh [OF assms(2)] by (auto simp: put_partial_def rows_after_put_def split: if_splits)
qed

text \<open>C36: An ingest that was stopped anywhere is undone by the next reconciliation that finds it stale and
  succeeds: if its drawers were new to the table and to every committed run, the table afterwards is the one that
  this reconciliation would have left had the ingest never started, and the committed view is the one before.\<close>

theorem interrupted_ingest_is_undone:
  "let s = engine_run env calls; later = env\<lparr> ee_clock := clock \<rparr>; ids = set (map sd_id (ic_drawers req)) in
   case exec (commit_ingest env req) fates s of (r, t) \<Rightarrow>
   case exec (reconcile later) fates' t of (r', u) \<Rightarrow>
     if r = None \<and> r' = Some (Inr ())
        \<and> ids \<inter> (sd_id ` set (pl_drawers s) \<union> set (committed_drawer_ids (pl_db s))) = {}
        \<and> ee_enc env (ee_clock env 0) < ee_enc env (clock 0 - STALE_AFTER)
     then pl_drawers u = filter (\<lambda>d. sd_id d \<notin> orphan_ids later (pl_db s)) (pl_drawers s)
          \<and> committed_view (pl_db u) = committed_view (pl_db s)
     else True"
proof -
  let ?s = "engine_run env calls" and ?later = "env\<lparr> ee_clock := clock \<rparr>" and ?ids = "set (map sd_id (ic_drawers req))"
  obtain r t where e: "exec (commit_ingest env req) fates ?s = (r, t)" by fastforce
  obtain r' u where e': "exec (reconcile ?later) fates' t = (r', u)" by fastforce
  have ingest: "ingest_post env req ?s r t" by (rule wp_exec [OF wp_commit_ingest [OF engine_run_inv] e])
  have stopped: "stop_post env req ?s r t" by (rule wp_exec [OF wp_commit_stopped [OF engine_run_inv] e])
  have "palace_inv (ee_dims ?later) t" using ingest by (simp add: ingest_post_def)
  note rec = wp_exec [OF wp_reconcile [OF this] e']
  have "pl_drawers u = filter (\<lambda>d. sd_id d \<notin> orphan_ids ?later (pl_db ?s)) (pl_drawers ?s)
      \<and> committed_view (pl_db u) = committed_view (pl_db ?s)"
    if r: "r = None" "r' = Some (Inr ())" and fresh: "?ids \<inter> (sd_id ` set (pl_drawers ?s) \<union> set (committed_drawer_ids (pl_db ?s))) = {}"
      and late: "ee_enc env (ee_clock env 0) < ee_enc env (clock 0 - STALE_AFTER)"
  proof -
    have u: "pl_drawers u = filter (\<lambda>d. sd_id d \<notin> orphan_ids ?later (pl_db t)) (pl_drawers t)" "committed_view (pl_db u) = committed_view (pl_db t)"
      using rec r by (auto simp: reconcile_post_def Let_def same_committed_view)
    have t: "committed_view (pl_db t) = committed_view (pl_db ?s)"
      "pl_drawers t = pl_drawers ?s \<or> pl_drawers t = pl_drawers ?s @ ic_drawers req"
      using ingest r put_partial_fresh [of "pl_drawers t" "ic_strategy req" "ic_drawers req" "pl_drawers ?s"] fresh
      by (auto simp: ingest_post_def view_of_def)
    have "runs_ok (pl_db ?s)" using engine_run_inv [of env calls] by (simp add: palace_inv_def ingest_db_ok_def)
    note orphans = opened_orphans [OF this, of _ "manifests_of req" "pl_db t" ?later, unfolded map_manifests_of]
    have "pl_db t = pl_db ?s \<and> pl_drawers t = pl_drawers ?s \<or> orphan_ids ?later (pl_db t) = orphan_ids ?later (pl_db ?s) \<union> ?ids"
      using stopped r late orphans fresh by (fastforce simp: stop_post_def is_stale_def)
    then show ?thesis
    proof
      assume "pl_db t = pl_db ?s \<and> pl_drawers t = pl_drawers ?s"
      then show ?thesis using u by simp
    next
      assume o: "orphan_ids ?later (pl_db t) = orphan_ids ?later (pl_db ?s) \<union> ?ids"
      have "filter (\<lambda>d. sd_id d \<notin> orphan_ids ?later (pl_db ?s) \<union> ?ids) (pl_drawers t)
          = filter (\<lambda>d. sd_id d \<notin> orphan_ids ?later (pl_db ?s)) (pl_drawers ?s)"
      proof -
        have "filter (\<lambda>d. sd_id d \<notin> orphan_ids ?later (pl_db ?s) \<union> ?ids) (ic_drawers req) = []"
          by (auto simp: filter_empty_conv)
        moreover have "filter (\<lambda>d. sd_id d \<notin> orphan_ids ?later (pl_db ?s) \<union> ?ids) (pl_drawers ?s)
            = filter (\<lambda>d. sd_id d \<notin> orphan_ids ?later (pl_db ?s)) (pl_drawers ?s)"
          using fresh by (intro filter_cong) auto
        ultimately show ?thesis using t(2) by auto
      qed
      then show ?thesis using u t(1) by (simp add: o)
    qed
  qed
  then show ?thesis by (simp add: Let_def e e')
qed

section \<open>Three crashes\<close>

definition small_env :: engine_env where
  "small_env = \<lparr> ee_enc = (\<lambda>t. if t < 10 then [nat t] else [50]), ee_clock = (\<lambda>_. 0), ee_dims = 1, ee_error_text = (\<lambda>_. []) \<rparr>"

definition small_drawer :: "nat \<Rightarrow> stored_drawer" where
  "small_drawer i = \<lparr> sd_id = [i], sd_wing = [1], sd_room = [1], sd_hall = None, sd_date = None,
     sd_source_file = [3], sd_chunk_index = 0, sd_ingest_mode = [1], sd_extract_mode = None, sd_added_by = [1], sd_filed_at = 0,
     sd_importance = None, sd_emotional_weight = None, sd_weight = None, sd_content = [i], sd_content_hash = [i], sd_embedding = [0], sd_view_name = None \<rparr>"

definition mine_at :: "int \<Rightarrow> nat \<Rightarrow> fate list \<Rightarrow> (nat \<Rightarrow> int) \<times> engine_op \<times> fate list" where
  "mine_at t i fates = ((\<lambda>_. t), OpReplace [1] [2] [3] [i] [small_drawer i], fates)"

definition reconcile_late :: "(nat \<Rightarrow> int) \<times> engine_op \<times> fate list" where
  "reconcile_late = ((\<lambda>_. STALE_AFTER + 20), OpReconcile, [])"

text \<open>A drawer of an earlier version comes back (a file shrank and grew again) and the process stops before the run
  is committed: the first run,
  superseded but still committed, lists the drawer, so reconciliation leaves it in the table.\<close>

lemma superseded_run_shields_orphan:
  "let s = engine_run small_env [mine_at 0 7 [], mine_at 1 8 [], mine_at 2 7 (replicate 6 Works @ [Stops]), reconcile_late] in
   map sd_id (pl_drawers s) = [[8], [7]] \<and> snd (committed_view (pl_db s) [2]) = [[8]]"
  by code_simp

text \<open>An overwrite stopped between its delete and its add: the committed drawer is gone, and reconciliation does
  not bring it back.\<close>

lemma interrupted_overwrite_loses_drawer:
  "let s = engine_run small_env [mine_at 0 7 [], mine_at 1 7 (replicate 5 Works @ [Stops]), reconcile_late] in
   pl_drawers s = [] \<and> snd (committed_view (pl_db s) [2]) = [[7]]"
  by code_simp

text \<open>Indexing fails after the rows were added: the run is marked failed, and reconciliation, which prunes the
  pending runs and the failed runs of the diary, never removes the rows.\<close>

lemma failed_run_keeps_rows:
  "let s = engine_run small_env [mine_at 0 7 (replicate 5 Works @ [Fails (Lance [])]), reconcile_late] in
   map sd_id (pl_drawers s) = [[7]] \<and> run_statuses (pl_db s) = [(1, RunFailed)] \<and> committed_view (pl_db s) [2] = (None, [])"
  by code_simp

text \<open>An interrupted first ingest, undone.\<close>

lemma interrupted_ingest_example:
  "let s = engine_run small_env [mine_at 0 7 (replicate 6 Works @ [Stops])];
       t = engine_run small_env [mine_at 0 7 (replicate 6 Works @ [Stops]), reconcile_late] in
   map sd_id (pl_drawers s) = [[7]] \<and> pl_drawers t = [] \<and> run_statuses (pl_db t) = [(1, RunFailed)]"
  by code_simp

end
