(* ===== verification/Self_Model.thy ===== *)
theory Self_Model
  imports Knowledge_Graph Skills Change_Log
begin

text \<open>
  The self model (\<open>SelfModelStore\<close> in \<open>crates/agentpalace-storage/src/sqlite.rs\<close>): agent lineages, of
  which one is the default, evidence-backed observations about them with their reviews, and the accounts of
  their migrations between runtimes. An operation is one transaction; the constraints of the tables are
  checked where a row is written. A confidence is the bit pattern of an \<open>f32\<close>; \<open>enc\<close> renders a stored
  time, which SQLite compares as text.
\<close>

section \<open>Rows\<close>

datatype observation_status = ObsCandidate | ObsPromoted | ObsSuperseded | ObsRetired

fun observation_status_str :: "observation_status \<Rightarrow> rstr" where
  "observation_status_str ObsCandidate = lit ''candidate''"
| "observation_status_str ObsPromoted = lit ''promoted''"
| "observation_status_str ObsSuperseded = lit ''superseded''"
| "observation_status_str ObsRetired = lit ''retired''"

datatype observation_scope = ObsLineage | ObsShared | ObsEngine

definition parse_scope :: "rstr \<Rightarrow> observation_scope option" where
  "parse_scope v =
     (if v = lit ''lineage'' then Some ObsLineage
      else if v = lit ''shared'' then Some ObsShared
      else if v = lit ''engine'' then Some ObsEngine
      else None)"

record lineage =
  ln_id :: rstr
  ln_display_name :: rstr
  ln_description :: rstr
  ln_revision :: int
  ln_default :: bool
  ln_created_at :: int
  ln_updated_at :: int

record observation =
  so_id :: rstr
  so_lineage :: rstr
  so_status :: observation_status
  so_scope :: observation_scope
  so_statement :: rstr
  so_consequence :: rstr
  so_confidence :: "32 word"
  so_author :: rstr
  so_model :: "rstr option"
  so_harness :: "rstr option"
  so_evidence :: "rstr list"
  so_counterevidence :: "rstr list"
  so_supersedes :: "rstr option"
  so_revision :: int
  so_created_at :: int
  so_updated_at :: int

record observation_review =
  ow_observation :: rstr
  ow_revision :: int
  ow_prior :: observation_status
  ow_new :: observation_status
  ow_reviewer :: rstr
  ow_reason :: rstr
  ow_reviewed_at :: int

record lineage_migration =
  mg_id :: rstr
  mg_lineage :: rstr
  mg_from_model :: "rstr option"
  mg_from_harness :: "rstr option"
  mg_to_model :: rstr
  mg_to_harness :: rstr
  mg_summary :: rstr
  mg_continuities :: "rstr list"
  mg_changes :: "rstr list"
  mg_evidence :: "rstr list"
  mg_author :: rstr
  mg_created_at :: int

text \<open>Reviews are numbered by their position, which no query shows.\<close>

record self_db =
  sm_lineages :: "lineage list"
  sm_observations :: "observation list"
  sm_reviews :: "observation_review list"
  sm_migrations :: "lineage_migration list"

definition self_db_init :: self_db where
  "self_db_init = \<lparr> sm_lineages = [], sm_observations = [], sm_reviews = [], sm_migrations = [] \<rparr>"

section \<open>Lineages\<close>

definition get_lineage :: "self_db \<Rightarrow> rstr \<Rightarrow> lineage option" where
  "get_lineage db i = find_row (\<lambda>l. ln_id l = i) (sm_lineages db)"

definition get_default_lineage :: "self_db \<Rightarrow> lineage option" where
  "get_default_lineage db = find_row ln_default (sm_lineages db)"

definition list_lineages :: "self_db \<Rightarrow> lineage list" where
  "list_lineages db = sort_key (\<lambda>l. (\<not> ln_default l, ln_display_name l, ln_id l)) (sm_lineages db)"

text \<open>The revision, the time of creation and the default flag that the write continues from, or the conflict.\<close>

definition lineage_base :: "self_db \<Rightarrow> rstr \<Rightarrow> int option \<Rightarrow> int \<Rightarrow> int option + int \<times> int \<times> bool" where
  "lineage_base db i expected now =
     (case get_lineage db i of
        Some current \<Rightarrow>
          if expected \<noteq> Some (ln_revision current) then Inl (Some (ln_revision current))
          else Inr (ln_revision current + 1, ln_created_at current, ln_default current)
      | None \<Rightarrow>
          if opt_holds (\<lambda>r. r \<noteq> 0) expected then Inl None else Inr (1, now, False))"

text \<open>The other default steps down, which is a revision of it; the unique index on the default flag allows one.\<close>

definition step_down :: "rstr \<Rightarrow> int \<Rightarrow> lineage list \<Rightarrow> lineage list" where
  "step_down i now =
     update_rows (\<lambda>l. ln_default l \<and> ln_id l \<noteq> i)
       (\<lambda>l. l\<lparr> ln_default := False, ln_revision := ln_revision l + 1, ln_updated_at := now \<rparr>)"

definition upsert_lineage :: "lineage \<Rightarrow> lineage list \<Rightarrow> storage_error + lineage list" where
  "upsert_lineage l rows =
     (if ln_default l \<and> list_ex (\<lambda>r. ln_default r \<and> ln_id r \<noteq> ln_id l) rows
      then Inl (Sqlite (UniqueViolation (lit ''agent_lineages.is_default'')))
      else Inr (if list_ex (\<lambda>r. ln_id r = ln_id l) rows
                then update_rows (\<lambda>r. ln_id r = ln_id l) (\<lambda>r. l\<lparr> ln_created_at := ln_created_at r \<rparr>) rows
                else rows @ [l]))"

definition set_lineage ::
  "rstr \<Rightarrow> rstr \<Rightarrow> rstr \<Rightarrow> bool \<Rightarrow> int option \<Rightarrow> int \<Rightarrow> self_db \<Rightarrow> (storage_error + lineage revisioned_write) \<times> self_db" where
  "set_lineage i display_name description set_default expected now db =
     (case lineage_base db i expected now of
        Inl actual \<Rightarrow> (Inr (Conflict actual), db)
      | Inr (revision, created_at, was_default) \<Rightarrow>
          let is_default = (set_default \<or> was_default \<or> length (sm_lineages db) = 0);
              rows = (if is_default then step_down i now (sm_lineages db) else sm_lineages db);
              l = \<lparr> ln_id = i, ln_display_name = display_name, ln_description = description, ln_revision = revision,
                    ln_default = is_default, ln_created_at = created_at, ln_updated_at = now \<rparr>
          in try_tx db (upsert_lineage l rows) (\<lambda>rows. (Inr (Applied l), db\<lparr> sm_lineages := rows \<rparr>)))"

section \<open>Observations\<close>

definition get_self_observation :: "self_db \<Rightarrow> rstr \<Rightarrow> observation option" where
  "get_self_observation db i = find_row (\<lambda>x. so_id x = i) (sm_observations db)"

text \<open>SQLite stores a NaN as null.\<close>

definition propose_self_observation :: "observation \<Rightarrow> self_db \<Rightarrow> (storage_error + unit) \<times> self_db" where
  "propose_self_observation x db =
     (if f32_is_nan (so_confidence x) then (Inl (Sqlite (NotNullViolation (lit ''self_observations.confidence''))), db)
      else if \<not> confidence_ok (so_confidence x) \<or> so_revision x < 1
      then (Inl (Sqlite (CheckViolation (lit ''self_observations''))), db)
      else if get_self_observation db (so_id x) \<noteq> None
      then (Inl (Sqlite (UniqueViolation (lit ''self_observations.observation_id''))), db)
      else if get_lineage db (so_lineage x) = None
           \<or> opt_holds (\<lambda>i. i \<noteq> so_id x \<and> get_self_observation db i = None) (so_supersedes x)
      then (Inl (Sqlite (ForeignKeyViolation (lit ''self_observations''))), db)
      else (Inr (), db\<lparr> sm_observations := sm_observations db @ [x] \<rparr>))"

text \<open>\<open>ORDER BY f DESC\<close> of rows that are in another order already.\<close>

definition sort_desc :: "('a \<Rightarrow> 'k::linorder) \<Rightarrow> 'a list \<Rightarrow> 'a list" where
  "sort_desc f xs = rev (sort_key f (rev xs))"

definition list_self_observations_scoped ::
  "(int \<Rightarrow> rstr) \<Rightarrow> self_db \<Rightarrow> rstr \<Rightarrow> observation_status list \<Rightarrow> observation_scope option \<Rightarrow> nat \<Rightarrow> observation list" where
  "list_self_observations_scoped enc db i statuses scope limit =
     take limit (filter (\<lambda>x. statuses = [] \<or> so_status x \<in> set statuses)
       (sort_desc (\<lambda>x. enc (so_updated_at x))
         (sort_key so_id (filter (\<lambda>x. so_lineage x = i \<and> none_or (\<lambda>s. so_scope x = s) scope) (sm_observations db)))))"

section \<open>Reviews\<close>

definition review_row ::
  "rstr \<Rightarrow> int \<Rightarrow> observation_status \<Rightarrow> observation_status \<Rightarrow> rstr \<Rightarrow> rstr \<Rightarrow> int \<Rightarrow> observation_review" where
  "review_row i revision prior new reviewer reason t =
     \<lparr> ow_observation = i, ow_revision = revision, ow_prior = prior, ow_new = new, ow_reviewer = reviewer,
       ow_reason = reason, ow_reviewed_at = t \<rparr>"

definition move_observation :: "rstr \<Rightarrow> (observation \<Rightarrow> bool) \<Rightarrow> observation_status \<Rightarrow> int \<Rightarrow> int \<Rightarrow> self_db \<Rightarrow> self_db" where
  "move_observation i p status revision now db =
     db\<lparr> sm_observations := update_rows (\<lambda>x. so_id x = i \<and> p x)
       (\<lambda>x. x\<lparr> so_status := status, so_revision := revision, so_updated_at := now \<rparr>) (sm_observations db) \<rparr>"

text \<open>Promotion replaces the observation that the promoted one names, which must be promoted and of the same
  lineage.\<close>

definition supersede ::
  "rstr \<Rightarrow> rstr \<Rightarrow> rstr \<Rightarrow> rstr \<Rightarrow> rstr \<Rightarrow> int \<Rightarrow> self_db \<Rightarrow> storage_error + self_db" where
  "supersede superseded_id lineage_id observation_id reviewer reason now db =
     (case get_self_observation db superseded_id of
        None \<Rightarrow> Inl (Invariant (lit ''superseded observation `'' @ superseded_id @ lit ''` does not exist''))
      | Some old \<Rightarrow>
          if so_lineage old \<noteq> lineage_id
          then Inl (Invariant (lit ''superseded observation `'' @ superseded_id @ lit ''` belongs to another lineage''))
          else if so_status old \<noteq> ObsPromoted
          then Inl (Invariant (lit ''superseded observation `'' @ superseded_id @ lit ''` must currently be promoted''))
          else
            let next_revision = so_revision old + 1;
                same = (\<lambda>x. so_status x = ObsPromoted \<and> so_revision x = so_revision old) in
            if length (filter (\<lambda>x. so_id x = superseded_id \<and> same x) (sm_observations db)) \<noteq> 1
            then Inl (Invariant (lit ''superseded observation `'' @ superseded_id @ lit ''` changed before it could be superseded''))
            else
              let db1 = move_observation superseded_id same ObsSuperseded next_revision now db in
              Inr (db1\<lparr> sm_reviews := sm_reviews db1 @
                [review_row superseded_id next_revision (so_status old) ObsSuperseded reviewer
                   (lit ''superseded by `'' @ observation_id @ lit ''`: '' @ reason) now] \<rparr>))"

definition review_self_observation ::
  "rstr \<Rightarrow> int \<Rightarrow> observation_status \<Rightarrow> rstr \<Rightarrow> rstr \<Rightarrow> int \<Rightarrow> self_db
     \<Rightarrow> (storage_error + observation revisioned_write) \<times> self_db" where
  "review_self_observation i expected new_status reviewer reason now db =
     (case get_self_observation db i of
        None \<Rightarrow> (Inr (Conflict None), db)
      | Some old \<Rightarrow>
          if so_revision old \<noteq> expected then (Inr (Conflict (Some (so_revision old))), db)
          else
            let current = old\<lparr> so_status := new_status, so_revision := so_revision old + 1, so_updated_at := now \<rparr>;
                db1 = move_observation i (\<lambda>x. so_revision x = expected) new_status (so_revision current) now db;
                db2 = db1\<lparr> sm_reviews := sm_reviews db1 @
                  [review_row i (so_revision current) (so_status old) new_status reviewer reason now] \<rparr> in
            (case (new_status, so_supersedes current) of
               (ObsPromoted, Some j) \<Rightarrow>
                 try_tx db (supersede j (so_lineage current) i reviewer reason now db2) (\<lambda>db3. (Inr (Applied current), db3))
             | _ \<Rightarrow> (Inr (Applied current), db2)))"

section \<open>Migrations\<close>

definition record_lineage_migration :: "lineage_migration \<Rightarrow> self_db \<Rightarrow> (storage_error + unit) \<times> self_db" where
  "record_lineage_migration m db =
     (if list_ex (\<lambda>r. mg_id r = mg_id m) (sm_migrations db)
      then (Inl (Sqlite (UniqueViolation (lit ''lineage_migrations.migration_id''))), db)
      else if get_lineage db (mg_lineage m) = None
      then (Inl (Sqlite (ForeignKeyViolation (lit ''lineage_migrations''))), db)
      else (Inr (), db\<lparr> sm_migrations := sm_migrations db @ [m] \<rparr>))"

definition list_lineage_migrations :: "(int \<Rightarrow> rstr) \<Rightarrow> self_db \<Rightarrow> rstr \<Rightarrow> nat \<Rightarrow> lineage_migration list" where
  "list_lineage_migrations enc db i limit =
     take limit (sort_desc (\<lambda>m. enc (mg_created_at m)) (sort_key mg_id (filter (\<lambda>m. mg_lineage m = i) (sm_migrations db))))"

end
