(* ===== verification/Self_Tools.thy ===== *)
theory Self_Tools
  imports Self_Model
begin

text \<open>
  The tools of the MCP server that keep the self model (\<open>tool_lineage_set\<close>, \<open>tool_self_observation_propose\<close>,
  \<open>tool_self_observation_review\<close>, \<open>tool_migration_record\<close> and \<open>compile_identity_packet\<close> in
  \<open>crates/agentpalace-mcp/src/lib.rs\<close>) with the helpers that read their arguments. A handler reads the
  database in calls of its own before it writes: what it read is an argument, \<open>seen\<close>, which need not be
  the database it writes to, because other processes serve the same palace. The packet is read from one
  database.
\<close>

section \<open>Arguments\<close>

datatype mcp_error = InvalidParams rstr | ToolInternal storage_error

record tool_env =
  te_enc :: "int \<Rightarrow> rstr"
  te_now :: int
  te_blake3_hex :: "rstr \<Rightarrow> rstr"
  te_int_f64 :: "int \<Rightarrow> 64 word"          \<comment> \<open>an integer of JSON as a double\<close>
  te_f32 :: "64 word \<Rightarrow> 32 word"           \<comment> \<open>\<open>as f32\<close>\<close>
  te_json_text :: "json \<Rightarrow> rstr"
  te_bound_lineage :: "rstr option"

definition field_error :: "char list \<Rightarrow> rstr \<Rightarrow> char list \<Rightarrow> mcp_error" where
  "field_error before field after = InvalidParams (lit before @ lit ''`'' @ field @ lit ''`'' @ lit after)"

definition required_string :: "json \<Rightarrow> rstr \<Rightarrow> mcp_error + rstr" where
  "required_string args field =
     (case Option.bind (json_get args field) json_str of
        Some v \<Rightarrow> Inr v
      | None \<Rightarrow> Inl (field_error ''missing required string field '' field ''''))"

definition required_non_blank_string :: "json \<Rightarrow> rstr \<Rightarrow> mcp_error + rstr" where
  "required_non_blank_string args field =
     bindE (required_string args field) (\<lambda>v.
     if trim v = [] then Inl (field_error ''field '' field '' cannot be blank'') else Inr (trim v))"

definition optional_string :: "json \<Rightarrow> rstr \<Rightarrow> mcp_error + rstr option" where
  "optional_string args field =
     (case json_get args field of
        None \<Rightarrow> Inr None
      | Some JNull \<Rightarrow> Inr None
      | Some (JString v) \<Rightarrow> Inr (Some v)
      | Some _ \<Rightarrow> Inl (field_error ''field '' field '' must be a string''))"

definition optional_non_blank_string :: "json \<Rightarrow> rstr \<Rightarrow> mcp_error + rstr option" where
  "optional_non_blank_string args field =
     bindE (optional_string args field) (\<lambda>v.
     case v of
       None \<Rightarrow> Inr None
     | Some v \<Rightarrow> if trim v = [] then Inl (field_error ''field '' field '' cannot be blank'') else Inr (Some (trim v)))"

definition optional_bool :: "json \<Rightarrow> rstr \<Rightarrow> mcp_error + bool option" where
  "optional_bool args field =
     (case json_get args field of
        None \<Rightarrow> Inr None
      | Some JNull \<Rightarrow> Inr None
      | Some (JBool v) \<Rightarrow> Inr (Some v)
      | Some _ \<Rightarrow> Inl (field_error ''field '' field '' must be a boolean''))"

fun as_i64 :: "json \<Rightarrow> int option" where
  "as_i64 (JNumber (JInt i)) = (if - (2 ^ 63) \<le> i \<and> i < 2 ^ 63 then Some i else None)"
| "as_i64 _ = None"

fun as_u64 :: "json \<Rightarrow> int option" where
  "as_u64 (JNumber (JInt i)) = (if 0 \<le> i \<and> i < 2 ^ 64 then Some i else None)"
| "as_u64 _ = None"

fun as_f64 :: "tool_env \<Rightarrow> json \<Rightarrow> 64 word option" where
  "as_f64 te (JNumber (JInt i)) = Some (te_int_f64 te i)"
| "as_f64 te (JNumber (JFloat w)) = Some w"
| "as_f64 te _ = None"

definition required_non_negative_i64 :: "json \<Rightarrow> rstr \<Rightarrow> mcp_error + int" where
  "required_non_negative_i64 args field =
     (case Option.bind (json_get args field) as_i64 of
        None \<Rightarrow> Inl (field_error ''missing required non-negative integer field '' field '''')
      | Some v \<Rightarrow> if v < 0 then Inl (field_error ''field '' field '' cannot be negative'') else Inr v)"

definition required_positive_i64 :: "json \<Rightarrow> rstr \<Rightarrow> mcp_error + int" where
  "required_positive_i64 args field =
     bindE (required_non_negative_i64 args field) (\<lambda>v.
     if v = 0 then Inl (field_error ''field '' field '' must be positive'') else Inr v)"

text \<open>The doubles from 0 to 1 by their bits.\<close>

definition required_confidence :: "tool_env \<Rightarrow> json \<Rightarrow> rstr \<Rightarrow> mcp_error + 32 word" where
  "required_confidence te args field =
     (case Option.bind (json_get args field) (as_f64 te) of
        None \<Rightarrow> Inl (field_error ''missing required numeric field '' field '''')
      | Some v \<Rightarrow>
          if \<not> (v \<le> 0x3FF0000000000000 \<or> v = 0x8000000000000000)
          then Inl (field_error ''field '' field '' must be a finite number from 0 to 1'')
          else Inr (te_f32 te v))"

fun string_items :: "rstr \<Rightarrow> json list \<Rightarrow> mcp_error + rstr list" where
  "string_items field [] = Inr []"
| "string_items field (v # vs) =
     (case json_str v of
        None \<Rightarrow> Inl (field_error ''every item in '' field '' must be a string'')
      | Some s \<Rightarrow>
          if trim s = [] then Inl (field_error ''items in '' field '' cannot be blank'')
          else bindE (string_items field vs) (\<lambda>rest. Inr (trim s # rest)))"

definition required_string_array :: "json \<Rightarrow> rstr \<Rightarrow> bool \<Rightarrow> mcp_error + rstr list" where
  "required_string_array args field require_non_empty =
     (case json_get args field of
        Some (JArray values) \<Rightarrow>
          bindE (string_items field values) (\<lambda>parsed.
          if require_non_empty \<and> parsed = [] then Inl (field_error ''field '' field '' must contain at least one item'')
          else Inr parsed)
      | _ \<Rightarrow> Inl (field_error ''missing required string-array field '' field ''''))"

definition optional_string_array :: "json \<Rightarrow> rstr \<Rightarrow> mcp_error + rstr list" where
  "optional_string_array args field =
     (case json_get args field of
        None \<Rightarrow> Inr []
      | Some JNull \<Rightarrow> Inr []
      | Some _ \<Rightarrow> required_string_array args field False)"

definition record_id_char :: "nat \<Rightarrow> bool" where
  "record_id_char ch \<longleftrightarrow> is_ascii_alphanumeric ch \<or> ch \<in> set (lit ''-_.:/'')"

text \<open>The message quotes the characters 45, 95, 46, 58 and 47 with apostrophes (39).\<close>

definition bad_record_id :: rstr where
  "bad_record_id = lit ''may contain only ASCII letters, digits, '' @ [39, 45, 39] @ lit '', '' @ [39, 95, 39] @ lit '', ''
     @ [39, 46, 39] @ lit '', '' @ [39, 58, 39] @ lit '', and '' @ [39, 47, 39]"

definition validate_record_id_value :: "rstr \<Rightarrow> rstr + rstr" where
  "validate_record_id_value value =
     (let v = trim value in
      if v = [] \<or> str_len v > 128 then Inl (lit ''must be between 1 and 128 bytes'')
      else if \<not> list_all record_id_char v then Inl bad_record_id
      else Inr v)"

definition check_record_id :: "rstr \<Rightarrow> rstr \<Rightarrow> mcp_error + rstr" where
  "check_record_id field value = mapE (\<lambda>m. InvalidParams (lit ''field `'' @ field @ lit ''` '' @ m)) (validate_record_id_value value)"

definition required_record_id :: "json \<Rightarrow> rstr \<Rightarrow> mcp_error + rstr" where
  "required_record_id args field = bindE (required_string args field) (check_record_id field)"

definition optional_usize :: "json \<Rightarrow> rstr \<Rightarrow> mcp_error + nat option" where
  "optional_usize args field =
     (case json_get args field of
        None \<Rightarrow> Inr None
      | Some JNull \<Rightarrow> Inr None
      | Some v \<Rightarrow>
          (case as_u64 v of
             Some n \<Rightarrow> Inr (Some (nat n))
           | None \<Rightarrow> Inl (field_error ''field '' field '' must be a usize'')))"

definition generated_record_id :: "tool_env \<Rightarrow> rstr \<Rightarrow> rstr \<Rightarrow> rstr \<Rightarrow> rstr" where
  "generated_record_id te prefix lineage_id content =
     prefix @ lit ''_'' @ take 20 (te_blake3_hex te (lineage_id @ content @ show_int (te_now te)))"

definition no_lineage :: "rstr \<Rightarrow> mcp_error" where
  "no_lineage i = InvalidParams (lit ''lineage `'' @ i @ lit ''` does not exist'')"

section \<open>Tools\<close>

record self_hub =
  sh_db :: self_db
  sh_log :: change_log

datatype tool_reply =
  LineageReply lineage
| ObservationReply observation
| MigrationReply lineage_migration
| ConflictReply int "int option"

text \<open>\<open>log_change\<close>.\<close>

definition log_tool_change :: "tool_env \<Rightarrow> rstr \<Rightarrow> rstr \<Rightarrow> rstr \<Rightarrow> (rstr \<times> json) list \<Rightarrow> self_hub \<Rightarrow> self_hub" where
  "log_tool_change te kind entity actor details h =
     h\<lparr> sh_log := append_change
       \<lparr> ce_event_type = kind, ce_occurred_at = te_now te, ce_entity_id = entity, ce_actor = Some actor,
         ce_details = Some (te_json_text te (JObject details)) \<rparr> (sh_log h) \<rparr>"

text \<open>A call of the store.\<close>

definition on_db ::
  "self_hub \<Rightarrow> (self_db \<Rightarrow> (storage_error + 'a) \<times> self_db) \<Rightarrow> ('a \<Rightarrow> self_hub \<Rightarrow> (mcp_error + 'b) \<times> self_hub)
     \<Rightarrow> (mcp_error + 'b) \<times> self_hub" where
  "on_db h f k =
     (case f (sh_db h) of
        (Inl x, db) \<Rightarrow> (Inl (ToolInternal x), h\<lparr> sh_db := db \<rparr>)
      | (Inr y, db) \<Rightarrow> k y (h\<lparr> sh_db := db \<rparr>))"

definition json_opt :: "rstr option \<Rightarrow> json" where
  "json_opt v = (case v of None \<Rightarrow> JNull | Some s \<Rightarrow> JString s)"

definition tool_lineage_set :: "tool_env \<Rightarrow> json \<Rightarrow> self_hub \<Rightarrow> (mcp_error + tool_reply) \<times> self_hub" where
  "tool_lineage_set te args h =
     try_tx h (required_record_id args (lit ''lineage_id'')) (\<lambda>i.
     try_tx h (required_non_blank_string args (lit ''display_name'')) (\<lambda>display_name.
     try_tx h (required_non_blank_string args (lit ''description'')) (\<lambda>description.
     try_tx h (required_non_negative_i64 args (lit ''expected_revision'')) (\<lambda>expected.
     try_tx h (optional_bool args (lit ''set_default'')) (\<lambda>set_default.
     try_tx h (required_non_blank_string args (lit ''actor'')) (\<lambda>actor.
     on_db h (set_lineage i display_name description (set_default = Some True) (Some expected) (te_now te)) (\<lambda>w h.
     case w of
       Conflict actual \<Rightarrow> (Inr (ConflictReply expected actual), h)
     | Applied l \<Rightarrow>
         (Inr (LineageReply l),
          log_tool_change te (lit ''lineage_set'') i actor
            [(lit ''display_name'', JString (ln_display_name l)), (lit ''revision'', JNumber (JInt (ln_revision l))),
             (lit ''is_default'', JBool (ln_default l))] h))))))))"

definition proposed_scope :: "json \<Rightarrow> mcp_error + observation_scope" where
  "proposed_scope args =
     bindE (optional_string args (lit ''scope'')) (\<lambda>v.
     case v of
       None \<Rightarrow> Inr ObsLineage
     | Some s \<Rightarrow>
         (case parse_scope s of
            Some scope \<Rightarrow> Inr scope
          | None \<Rightarrow> Inl (InvalidParams (lit ''invalid self-observation scope `'' @ s @
                      lit ''`; expected lineage, shared, or engine''))))"

text \<open>The observation that is named to be superseded must be there, of the same lineage and promoted.\<close>

definition check_superseded :: "self_db \<Rightarrow> rstr \<Rightarrow> rstr \<Rightarrow> mcp_error + unit" where
  "check_superseded seen lineage_id j =
     (case get_self_observation seen j of
        None \<Rightarrow> Inl (InvalidParams (lit ''superseded observation `'' @ j @ lit ''` does not exist''))
      | Some old \<Rightarrow>
          if so_lineage old \<noteq> lineage_id
          then Inl (InvalidParams (lit ''superseded observation `'' @ j @ lit ''` belongs to another lineage''))
          else if so_status old \<noteq> ObsPromoted
          then Inl (InvalidParams (lit ''superseded observation `'' @ j @ lit ''` must currently be promoted''))
          else Inr ())"

definition proposed_supersedes :: "json \<Rightarrow> mcp_error + rstr option" where
  "proposed_supersedes args =
     bindE (optional_string args (lit ''supersedes_observation_id'')) (\<lambda>v.
     case v of
       None \<Rightarrow> Inr None
     | Some j \<Rightarrow> bindE (check_record_id (lit ''supersedes_observation_id'') j) (\<lambda>j. Inr (Some j)))"

text \<open>The observation that is proposed; the lineage and the superseded observation are read one after the
  other.\<close>

definition proposed_observation :: "tool_env \<Rightarrow> json \<Rightarrow> self_db \<Rightarrow> self_db \<Rightarrow> mcp_error + observation" where
  "proposed_observation te args seen1 seen2 =
     bindE (required_record_id args (lit ''lineage_id'')) (\<lambda>lineage_id.
     bindE (if get_lineage seen1 lineage_id = None then Inl (no_lineage lineage_id) else Inr ()) (\<lambda>_.
     bindE (required_non_blank_string args (lit ''statement'')) (\<lambda>statement.
     bindE (required_non_blank_string args (lit ''behavioral_consequence'')) (\<lambda>consequence.
     bindE (required_confidence te args (lit ''confidence'')) (\<lambda>confidence.
     bindE (required_string_array args (lit ''evidence'') True) (\<lambda>evidence.
     bindE (optional_string_array args (lit ''counterevidence'')) (\<lambda>counterevidence.
     bindE (required_non_blank_string args (lit ''author'')) (\<lambda>author.
     bindE (optional_non_blank_string args (lit ''model'')) (\<lambda>model.
     bindE (optional_non_blank_string args (lit ''harness'')) (\<lambda>harness.
     bindE (proposed_scope args) (\<lambda>scope.
     bindE (if scope = ObsEngine \<and> model = None \<and> harness = None
            then Inl (InvalidParams (lit ''engine-scoped observations require `model`, `harness`, or both'')) else Inr ()) (\<lambda>_.
     bindE (proposed_supersedes args) (\<lambda>supersedes.
     bindE (case supersedes of None \<Rightarrow> Inr () | Some j \<Rightarrow> check_superseded seen2 lineage_id j) (\<lambda>_.
     Inr \<lparr> so_id = generated_record_id te (lit ''obs'') lineage_id statement, so_lineage = lineage_id,
           so_status = ObsCandidate, so_scope = scope, so_statement = statement, so_consequence = consequence,
           so_confidence = confidence, so_author = author, so_model = model, so_harness = harness,
           so_evidence = evidence, so_counterevidence = counterevidence, so_supersedes = supersedes,
           so_revision = 1, so_created_at = te_now te, so_updated_at = te_now te \<rparr>))))))))))))))"

fun scope_str :: "observation_scope \<Rightarrow> rstr" where
  "scope_str ObsLineage = lit ''lineage''"
| "scope_str ObsShared = lit ''shared''"
| "scope_str ObsEngine = lit ''engine''"

definition tool_self_observation_propose ::
  "tool_env \<Rightarrow> json \<Rightarrow> self_db \<Rightarrow> self_db \<Rightarrow> self_hub \<Rightarrow> (mcp_error + tool_reply) \<times> self_hub" where
  "tool_self_observation_propose te args seen1 seen2 h =
     try_tx h (proposed_observation te args seen1 seen2) (\<lambda>x.
     on_db h (propose_self_observation x) (\<lambda>_ h.
       (Inr (ObservationReply x),
        log_tool_change te (lit ''self_observation_proposed'') (so_id x) (so_author x)
          [(lit ''lineage_id'', JString (so_lineage x)), (lit ''scope'', JString (scope_str (so_scope x))),
           (lit ''statement'', JString (so_statement x))] h)))"

definition decided_status :: "rstr \<Rightarrow> mcp_error + observation_status" where
  "decided_status decision =
     (if decision = lit ''promote'' then Inr ObsPromoted
      else if decision = lit ''retire'' then Inr ObsRetired
      else Inl (InvalidParams (lit ''invalid decision `'' @ decision @ lit ''`; expected promote or retire'')))"

definition check_candidate :: "self_db \<Rightarrow> rstr \<Rightarrow> mcp_error + unit" where
  "check_candidate seen i =
     (case get_self_observation seen i of
        Some current \<Rightarrow>
          if so_status current \<noteq> ObsCandidate
          then Inl (InvalidParams (lit ''observation `'' @ i @ lit ''` is '' @ observation_status_str (so_status current) @
                 lit ''; only candidates can be reviewed''))
          else Inr ()
      | None \<Rightarrow> Inr ())"

text \<open>The arguments and the check of the status that the handler reads.\<close>

definition review_request ::
  "json \<Rightarrow> self_db \<Rightarrow> mcp_error + rstr \<times> rstr \<times> int \<times> rstr \<times> rstr \<times> observation_status" where
  "review_request args seen =
     bindE (required_record_id args (lit ''observation_id'')) (\<lambda>i.
     bindE (required_non_blank_string args (lit ''decision'')) (\<lambda>decision.
     bindE (required_positive_i64 args (lit ''expected_revision'')) (\<lambda>expected.
     bindE (required_non_blank_string args (lit ''reviewer'')) (\<lambda>reviewer.
     bindE (required_non_blank_string args (lit ''reason'')) (\<lambda>reason.
     bindE (decided_status decision) (\<lambda>new_status.
     bindE (check_candidate seen i) (\<lambda>_.
     Inr (i, decision, expected, reviewer, reason, new_status))))))))"

definition tool_self_observation_review ::
  "tool_env \<Rightarrow> json \<Rightarrow> self_db \<Rightarrow> self_hub \<Rightarrow> (mcp_error + tool_reply) \<times> self_hub" where
  "tool_self_observation_review te args seen h =
     try_tx h (review_request args seen) (\<lambda>(i, decision, expected, reviewer, reason, new_status).
     on_db h (review_self_observation i expected new_status reviewer reason (te_now te)) (\<lambda>w h.
     case w of
       Conflict actual \<Rightarrow> (Inr (ConflictReply expected actual), h)
     | Applied x \<Rightarrow>
         (Inr (ObservationReply x),
          log_tool_change te (lit ''self_observation_reviewed'') i reviewer
            [(lit ''lineage_id'', JString (so_lineage x)), (lit ''decision'', JString decision),
             (lit ''status'', JString (observation_status_str (so_status x))),
             (lit ''revision'', JNumber (JInt (so_revision x))), (lit ''reason'', JString reason)] h)))"

definition described_migration :: "tool_env \<Rightarrow> json \<Rightarrow> self_db \<Rightarrow> mcp_error + lineage_migration" where
  "described_migration te args seen =
     bindE (required_record_id args (lit ''lineage_id'')) (\<lambda>lineage_id.
     bindE (if get_lineage seen lineage_id = None then Inl (no_lineage lineage_id) else Inr ()) (\<lambda>_.
     bindE (optional_non_blank_string args (lit ''from_model'')) (\<lambda>from_model.
     bindE (optional_non_blank_string args (lit ''from_harness'')) (\<lambda>from_harness.
     bindE (required_non_blank_string args (lit ''to_model'')) (\<lambda>to_model.
     bindE (required_non_blank_string args (lit ''to_harness'')) (\<lambda>to_harness.
     bindE (required_non_blank_string args (lit ''summary'')) (\<lambda>summary.
     bindE (required_string_array args (lit ''continuities'') False) (\<lambda>continuities.
     bindE (required_string_array args (lit ''changes'') False) (\<lambda>changes.
     bindE (required_string_array args (lit ''evidence'') True) (\<lambda>evidence.
     bindE (required_non_blank_string args (lit ''author'')) (\<lambda>author.
     Inr \<lparr> mg_id = generated_record_id te (lit ''migration'') lineage_id summary, mg_lineage = lineage_id,
           mg_from_model = from_model, mg_from_harness = from_harness, mg_to_model = to_model,
           mg_to_harness = to_harness, mg_summary = summary, mg_continuities = continuities, mg_changes = changes,
           mg_evidence = evidence, mg_author = author, mg_created_at = te_now te \<rparr>)))))))))))"

definition tool_migration_record ::
  "tool_env \<Rightarrow> json \<Rightarrow> self_db \<Rightarrow> self_hub \<Rightarrow> (mcp_error + tool_reply) \<times> self_hub" where
  "tool_migration_record te args seen h =
     try_tx h (described_migration te args seen) (\<lambda>m.
     on_db h (record_lineage_migration m) (\<lambda>_ h.
       (Inr (MigrationReply m),
        log_tool_change te (lit ''lineage_migration_recorded'') (mg_id m) (mg_author m)
          [(lit ''lineage_id'', JString (mg_lineage m)), (lit ''from_model'', json_opt (mg_from_model m)),
           (lit ''from_harness'', json_opt (mg_from_harness m)), (lit ''to_model'', JString (mg_to_model m)),
           (lit ''to_harness'', JString (mg_to_harness m))] h)))"

section \<open>The identity packet\<close>

definition observation_applies_to_runtime :: "observation \<Rightarrow> rstr option \<Rightarrow> rstr option \<Rightarrow> bool" where
  "observation_applies_to_runtime x model harness =
     (if so_scope x \<noteq> ObsEngine then True
      else none_or (\<lambda>expected. model = Some expected) (so_model x)
           \<and> none_or (\<lambda>expected. harness = Some expected) (so_harness x))"

text \<open>\<open>retain\<close> with a set of the identifiers seen.\<close>

fun first_of_each :: "rstr set \<Rightarrow> observation list \<Rightarrow> observation list" where
  "first_of_each seen [] = []"
| "first_of_each seen (x # xs) =
     (if so_id x \<in> seen then first_of_each seen xs else x # first_of_each (insert (so_id x) seen) xs)"

definition collect_packet_observations ::
  "(int \<Rightarrow> rstr) \<Rightarrow> self_db \<Rightarrow> lineage \<Rightarrow> observation_status list \<Rightarrow> nat \<Rightarrow> observation list" where
  "collect_packet_observations enc db l statuses limit =
     (if limit = 0 then []
      else
        let observations = concat (map (\<lambda>l'. list_self_observations_scoped enc db (ln_id l') statuses
              (if ln_id l' \<noteq> ln_id l then Some ObsShared else None) limit) (list_lineages db)) in
        take limit (first_of_each {} (sort_desc so_updated_at (sort_key so_id observations))))"

datatype lineage_selection =
  BoundLineage rstr
| DefaultFallback rstr "rstr option"
| PalaceDefault "rstr option"

definition select_lineage :: "self_db \<Rightarrow> rstr option \<Rightarrow> lineage option \<times> lineage_selection" where
  "select_lineage db bound =
     (case bound of
        Some i \<Rightarrow>
          (case get_lineage db i of
             Some l \<Rightarrow> (Some l, BoundLineage i)
           | None \<Rightarrow> (get_default_lineage db, DefaultFallback i (map_option ln_id (get_default_lineage db))))
      | None \<Rightarrow> (get_default_lineage db, PalaceDefault (map_option ln_id (get_default_lineage db))))"

record packet_runtime =
  pr_agent_name :: "rstr option"
  pr_model :: "rstr option"
  pr_harness :: "rstr option"

datatype identity_packet =
  Unconfigured lineage_selection "lineage list" packet_runtime
| Packet lineage lineage_selection "observation list" "observation list option" "lineage_migration list" packet_runtime

definition compile_identity_packet :: "tool_env \<Rightarrow> json \<Rightarrow> self_db \<Rightarrow> mcp_error + identity_packet" where
  "compile_identity_packet te args db =
     (if json_get args (lit ''lineage_id'') \<noteq> None
      then Inl (InvalidParams (lit ''`lineage_id` is not a model-selectable parameter; bind this MCP server with '' @
             lit ''AGENTPALACE_LINEAGE_ID or configure a palace default''))
      else
        bindE (optional_non_blank_string args (lit ''agent_name'')) (\<lambda>agent_name.
        bindE (optional_non_blank_string args (lit ''model'')) (\<lambda>model.
        bindE (optional_non_blank_string args (lit ''harness'')) (\<lambda>harness.
        bindE (optional_bool args (lit ''include_candidates'')) (\<lambda>include_candidates.
        bindE (optional_usize args (lit ''observation_limit'')) (\<lambda>observation_limit.
        bindE (optional_usize args (lit ''migration_limit'')) (\<lambda>migration_limit.
        let runtime = \<lparr> pr_agent_name = agent_name, pr_model = model, pr_harness = harness \<rparr>;
            applicable = filter (\<lambda>x. observation_applies_to_runtime x model harness);
            limit = min (case observation_limit of Some n \<Rightarrow> n | None \<Rightarrow> 20) 50 in
        case select_lineage db (te_bound_lineage te) of
          (None, selection) \<Rightarrow> Inr (Unconfigured selection (list_lineages db) runtime)
        | (Some l, selection) \<Rightarrow>
            Inr (Packet l selection
              (applicable (collect_packet_observations (te_enc te) db l [ObsPromoted] limit))
              (if include_candidates = Some True
               then Some (applicable (collect_packet_observations (te_enc te) db l [ObsCandidate] limit)) else None)
              (list_lineage_migrations (te_enc te) db (ln_id l)
                 (min (case migration_limit of Some n \<Rightarrow> n | None \<Rightarrow> 5) 25))
              runtime))))))))"

end
