(* ===== verification/Self_Inv.thy ===== *)
theory Self_Inv
  imports Self_Tools
begin

text \<open>
  Runs of the self-model tools in which every handler may have read any earlier database, and what holds of
  all of them: the keys, the one default lineage, the links between observations, and the review log, from
  which every observation's status and revision can be replayed.
\<close>

section \<open>Runs\<close>

text \<open>A call with the positions, in the history of databases, of what its handler read; 0 is the current one.\<close>

datatype self_call =
  SelfLineage tool_env json
| SelfPropose tool_env json nat nat
| SelfReview tool_env json nat
| SelfMigrate tool_env json nat

definition read_at :: "self_db list \<Rightarrow> nat \<Rightarrow> self_db" where
  "read_at past i = past ! (i mod length past)"

fun self_exec :: "self_call \<Rightarrow> self_db list \<Rightarrow> self_hub \<Rightarrow> (mcp_error + tool_reply) \<times> self_hub" where
  "self_exec (SelfLineage te args) past h = tool_lineage_set te args h"
| "self_exec (SelfPropose te args i j) past h = tool_self_observation_propose te args (read_at past i) (read_at past j) h"
| "self_exec (SelfReview te args i) past h = tool_self_observation_review te args (read_at past i) h"
| "self_exec (SelfMigrate te args i) past h = tool_migration_record te args (read_at past i) h"

definition self_step :: "self_call \<Rightarrow> self_hub \<times> self_db list \<Rightarrow> self_hub \<times> self_db list" where
  "self_step c s = (case s of (h, past) \<Rightarrow> let h' = snd (self_exec c past h) in (h', sh_db h' # past))"

definition self_hub_init :: self_hub where
  "self_hub_init = \<lparr> sh_db = self_db_init, sh_log = [] \<rparr>"

definition self_run :: "self_call list \<Rightarrow> self_hub \<times> self_db list" where
  "self_run calls = fold self_step calls (self_hub_init, [self_db_init])"

section \<open>Invariants\<close>

definition lineages_ok :: "lineage list \<Rightarrow> bool" where
  "lineages_ok ls \<longleftrightarrow> distinct (map ln_id ls) \<and> length (filter ln_default ls) = (if ls = [] then 0 else 1)
     \<and> (\<forall>l \<in> set ls. 1 \<le> ln_revision l)"

text \<open>What never changes of an observation.\<close>

definition fixed :: "observation \<Rightarrow> observation" where
  "fixed x = x\<lparr> so_status := ObsCandidate, so_revision := 0, so_updated_at := 0 \<rparr>"

definition observation_ok :: "observation \<Rightarrow> bool" where
  "observation_ok x \<longleftrightarrow> confidence_ok (so_confidence x) \<and> so_evidence x \<noteq> []
     \<and> (so_scope x = ObsEngine \<longrightarrow> so_model x \<noteq> None \<or> so_harness x \<noteq> None)"

text \<open>An observation supersedes an earlier one of its lineage.\<close>

definition links_back :: "observation list \<Rightarrow> bool" where
  "links_back xs \<longleftrightarrow> (\<forall>k < length xs. \<forall>j. so_supersedes (xs ! k) = Some j \<longrightarrow>
     (\<exists>i < k. so_id (xs ! i) = j \<and> so_lineage (xs ! i) = so_lineage (xs ! k)))"

definition review_trail :: "self_db \<Rightarrow> rstr \<Rightarrow> observation_review list" where
  "review_trail db i = filter (\<lambda>w. ow_observation w = i) (sm_reviews db)"

fun replay_reviews :: "observation_status \<Rightarrow> int \<Rightarrow> observation_review list \<Rightarrow> (observation_status \<times> int) option" where
  "replay_reviews st r [] = Some (st, r)"
| "replay_reviews st r (w # ws) =
     (if ow_prior w = st \<and> ow_revision w = r + 1 then replay_reviews (ow_new w) (r + 1) ws else None)"

definition replays :: "self_db \<Rightarrow> observation \<Rightarrow> bool" where
  "replays db x \<longleftrightarrow> replay_reviews ObsCandidate 1 (review_trail db (so_id x)) = Some (so_status x, so_revision x)"

definition review_ok :: "observation_review \<Rightarrow> bool" where
  "review_ok w \<longleftrightarrow> ow_new w \<in> {ObsPromoted, ObsRetired} \<or> ow_prior w = ObsPromoted \<and> ow_new w = ObsSuperseded"

definition was_promoted :: "self_db \<Rightarrow> rstr \<Rightarrow> bool" where
  "was_promoted db i \<longleftrightarrow> (\<exists>w \<in> set (sm_reviews db). ow_observation w = i \<and> ow_new w = ObsPromoted)"

definition sm_inv :: "self_db \<Rightarrow> bool" where
  "sm_inv db \<longleftrightarrow>
     lineages_ok (sm_lineages db)
     \<and> distinct (map so_id (sm_observations db))
     \<and> (\<forall>x \<in> set (sm_observations db). observation_ok x \<and> so_lineage x \<in> ln_id ` set (sm_lineages db) \<and> replays db x)
     \<and> links_back (sm_observations db)
     \<and> (\<forall>w \<in> set (sm_reviews db). review_ok w \<and> ow_observation w \<in> so_id ` set (sm_observations db))
     \<and> (\<forall>x \<in> set (sm_observations db). so_status x = ObsSuperseded \<longrightarrow>
          (\<exists>y \<in> set (sm_observations db). so_supersedes y = Some (so_id x) \<and> was_promoted db (so_id y)))
     \<and> distinct (map mg_id (sm_migrations db))
     \<and> (\<forall>m \<in> set (sm_migrations db). mg_lineage m \<in> ln_id ` set (sm_lineages db) \<and> mg_evidence m \<noteq> [])"

text \<open>Nothing is ever removed, and revisions only grow.\<close>

definition sm_le :: "self_db \<Rightarrow> self_db \<Rightarrow> bool" where
  "sm_le a b \<longleftrightarrow> ln_id ` set (sm_lineages a) \<subseteq> ln_id ` set (sm_lineages b)
     \<and> (\<forall>x \<in> set (sm_observations a). \<exists>y \<in> set (sm_observations b). fixed y = fixed x \<and> so_revision x \<le> so_revision y)"

lemma sm_le_refl [simp]: "sm_le a a"
  by (auto simp: sm_le_def)

lemma sm_le_trans: "sm_le a b \<Longrightarrow> sm_le b c \<Longrightarrow> sm_le a c"
  unfolding sm_le_def
proof (intro conjI ballI, goal_cases)
  case (2 x)
  then obtain y where y: "y \<in> set (sm_observations b)" "fixed y = fixed x" "so_revision x \<le> so_revision y" by blast
  with 2 obtain z where "z \<in> set (sm_observations c)" "fixed z = fixed y" "so_revision y \<le> so_revision z" by blast
  with y show ?case by (intro bexI [of _ z]) auto
qed blast

lemma fixed_fields:
  "fixed y = fixed x \<Longrightarrow> so_id y = so_id x \<and> so_lineage y = so_lineage x \<and> so_supersedes y = so_supersedes x
     \<and> so_scope y = so_scope x \<and> so_model y = so_model x \<and> so_harness y = so_harness x \<and> so_confidence y = so_confidence x
     \<and> so_evidence y = so_evidence x \<and> so_author y = so_author x \<and> so_statement y = so_statement x"
  by (cases x; cases y) (simp add: fixed_def)

lemma get_Some: "get_self_observation db i = Some x \<Longrightarrow> x \<in> set (sm_observations db) \<and> so_id x = i"
  by (auto simp: get_self_observation_def dest: find_row_SomeD)

lemma get_None: "get_self_observation db i = None \<longleftrightarrow> i \<notin> so_id ` set (sm_observations db)"
  by (auto simp: get_self_observation_def find_row_None)

lemma get_iff: "distinct (map so_id (sm_observations db)) \<Longrightarrow>
    get_self_observation db i = Some x \<longleftrightarrow> x \<in> set (sm_observations db) \<and> so_id x = i"
  unfolding get_self_observation_def using find_row_key [of so_id "sm_observations db"] by (auto dest: find_row_SomeD)

lemma lineage_None: "get_lineage db i = None \<longleftrightarrow> i \<notin> ln_id ` set (sm_lineages db)"
  by (auto simp: get_lineage_def find_row_None)

section \<open>Lineages\<close>

lemma filter_one_default:
  assumes "distinct (map ln_id ls)" "l \<in> set ls" "ln_default l" "\<forall>r \<in> set ls. ln_default r \<longrightarrow> ln_id r = ln_id l"
  shows "length (filter ln_default ls) = 1"
proof -
  have u: "r = l" if "r \<in> set ls" "ln_default r" for r
    using assms(1,2,4) that unfolding distinct_map by (blast dest: inj_onD)
  have "set (filter ln_default ls) = {l}" using assms(2,3) u unfolding set_filter by blast
  moreover have "distinct (filter ln_default ls)" using assms(1) by (simp add: distinct_map)
  then have "length (filter ln_default ls) = card (set (filter ln_default ls))" by (rule distinct_card [symmetric])
  ultimately have "length (filter ln_default ls) = card {l}" by (simp only:)
  then show ?thesis by simp
qed

lemma one_default_unique:
  assumes "length (filter ln_default ls) = 1" "l \<in> set ls" "ln_default l" "r \<in> set ls" "ln_default r"
  shows "r = l"
proof -
  obtain d where "filter ln_default ls = [d]" using assms(1) by (auto simp: length_Suc_conv)
  then have "set (filter ln_default ls) = {d}" by simp
  moreover have "l \<in> set (filter ln_default ls)" "r \<in> set (filter ln_default ls)" using assms(2-5) by simp_all
  ultimately show ?thesis by (metis singletonD)
qed

lemma step_down_ids [simp]: "map ln_id (step_down i now ls) = map ln_id ls"
  unfolding step_down_def by (rule map_update_rows) simp

lemma step_down_facts:
  assumes "lineages_ok ls"
  shows "\<forall>r \<in> set (step_down i now ls). ln_default r \<longrightarrow> ln_id r = i" "\<forall>r \<in> set (step_down i now ls). 1 \<le> ln_revision r"
  using assms by (auto simp: step_down_def set_update_rows lineages_ok_def)

lemma set_lineage_cases:
  assumes ok: "lineages_ok (sm_lineages db)"
  obtains (conflict) actual where "set_lineage i name description sd expected now db = (Inr (Conflict actual), db)"
    | (applied) l rows where "set_lineage i name description sd expected now db = (Inr (Applied l), db\<lparr> sm_lineages := rows \<rparr>)"
        "lineages_ok rows" "ln_id ` set rows = insert i (ln_id ` set (sm_lineages db))" "l \<in> set rows" "ln_id l = i"
proof (cases "lineage_base db i expected now")
  case (Inl actual)
  then show thesis using conflict by (simp add: set_lineage_def)
next
  case (Inr b)
  obtain revision created was where b: "b = (revision, created, was)" by (cases b)
  let ?ls = "sm_lineages db"
  have d: "distinct (map ln_id ?ls)" and one: "length (filter ln_default ?ls) = (if ?ls = [] then 0 else 1)" using ok by (simp_all add: lineages_ok_def)
  have base: "1 \<le> revision \<and> (case get_lineage db i of None \<Rightarrow> \<not> was | Some c \<Rightarrow> was = ln_default c \<and> created = ln_created_at c)"
    using Inr b ok by (auto simp: lineage_base_def get_lineage_def lineages_ok_def split: option.splits if_splits dest!: find_row_SomeD)
  define is_default where "is_default = (sd \<or> was \<or> length ?ls = 0)"
  define base_rows where "base_rows = (if is_default then step_down i now ?ls else ?ls)"
  define l where "l = \<lparr> ln_id = i, ln_display_name = name, ln_description = description, ln_revision = revision,
    ln_default = is_default, ln_created_at = created, ln_updated_at = now \<rparr>"
  have ids: "map ln_id base_rows = map ln_id ?ls" by (simp add: base_rows_def)
  then have idset: "ln_id ` set base_rows = ln_id ` set ?ls" by (metis set_map)
  have others: "\<forall>r \<in> set base_rows. ln_default r \<longrightarrow> is_default \<longrightarrow> ln_id r = i"
    using step_down_facts(1) [OF ok] by (simp add: base_rows_def)
  have revs: "\<forall>r \<in> set base_rows. 1 \<le> ln_revision r"
    using step_down_facts(2) [OF ok] ok by (simp add: base_rows_def lineages_ok_def)
  have free: "\<not> (ln_default l \<and> list_ex (\<lambda>r. ln_default r \<and> ln_id r \<noteq> ln_id l) base_rows)"
    using others by (auto simp: l_def list_ex_iff)
  define rows where "rows = (if list_ex (\<lambda>r. ln_id r = i) base_rows
      then update_rows (\<lambda>r. ln_id r = i) (\<lambda>r. l\<lparr> ln_created_at := ln_created_at r \<rparr>) base_rows else base_rows @ [l])"
  have "upsert_lineage l base_rows = Inr rows" using free by (simp add: upsert_lineage_def rows_def) (simp add: l_def)
  then have res: "set_lineage i name description sd expected now db = (Inr (Applied l), db\<lparr> sm_lineages := rows \<rparr>)"
    unfolding set_lineage_def Inr b sum.case prod.case Let_def is_default_def [symmetric] base_rows_def [symmetric] l_def [symmetric]
    by (simp add: try_tx_def)
  have kept: "ln_created_at r = created \<and> ln_default r = was" if "r \<in> set ?ls" "ln_id r = i" for r
    using base find_row_key [OF d that(1)] that(2) by (simp add: get_lineage_def)
  have created: "ln_created_at r = created" if "r \<in> set base_rows" "ln_id r = i" for r
    using that kept by (auto simp: base_rows_def step_down_def set_update_rows split: if_splits)
  have known: "list_ex (\<lambda>r. ln_id r = i) base_rows \<longleftrightarrow> i \<in> ln_id ` set ?ls" unfolding idset [symmetric] by (auto simp: list_ex_iff)
  have mapl: "map ln_id (update_rows (\<lambda>r. ln_id r = i) (\<lambda>r. l\<lparr> ln_created_at := ln_created_at r \<rparr>) base_rows) = map ln_id ?ls"
    using ids by (subst map_update_rows) (simp_all add: l_def)
  have in_rows: "l \<in> set rows"
  proof (cases "list_ex (\<lambda>r. ln_id r = i) base_rows")
    case True
    then obtain r where r: "r \<in> set base_rows" "ln_id r = i" by (auto simp: list_ex_iff)
    then have "l = l\<lparr> ln_created_at := ln_created_at r \<rparr>" using created [OF r] by (simp add: l_def)
    then show ?thesis using True r by (auto simp: rows_def set_update_rows image_iff)
  qed (simp add: rows_def)
  have rows_ids: "ln_id ` set rows = insert i (ln_id ` set ?ls)"
  proof (cases "list_ex (\<lambda>r. ln_id r = i) base_rows")
    case True
    then have "ln_id ` set rows = ln_id ` set ?ls" using mapl by (simp add: rows_def) (metis set_map)
    then show ?thesis using True known by auto
  qed (simp add: rows_def idset l_def)
  have dist: "distinct (map ln_id rows)"
    using d mapl ids known by (auto simp: rows_def l_def simp flip: idset)
  have "length (filter ln_default rows) = 1"
  proof (cases is_default)
    case True
    have "\<forall>r \<in> set rows. ln_default r \<longrightarrow> ln_id r = ln_id l"
      using others True by (auto simp: rows_def set_update_rows l_def)
    moreover have "ln_default l" using True by (simp add: l_def)
    ultimately show ?thesis using filter_one_default [OF dist in_rows] by blast
  next
    case False
    then have b': "base_rows = ?ls" and was: "\<not> was" and "?ls \<noteq> []" by (auto simp: base_rows_def is_default_def)
    have "map ln_default (update_rows (\<lambda>r. ln_id r = i) (\<lambda>r. l\<lparr> ln_created_at := ln_created_at r \<rparr>) ?ls) = map ln_default ?ls"
      using kept was False by (auto simp: update_rows_def l_def)
    then have "length (filter ln_default (update_rows (\<lambda>r. ln_id r = i) (\<lambda>r. l\<lparr> ln_created_at := ln_created_at r \<rparr>) ?ls))
        = length (filter ln_default ?ls)" by (metis filter_map length_map comp_id id_comp)
    then show ?thesis using one \<open>?ls \<noteq> []\<close> False by (simp add: rows_def b') (simp add: l_def)
  qed
  moreover have "rows \<noteq> []" using in_rows by auto
  moreover have "\<forall>r \<in> set rows. 1 \<le> ln_revision r"
    using revs base by (auto simp: rows_def set_update_rows l_def)
  ultimately have "lineages_ok rows" using dist by (simp add: lineages_ok_def)
  then show thesis using applied [OF res _ rows_ids in_rows] by (simp add: l_def)
qed

section \<open>Reviews\<close>

text \<open>One entry of the review log and the observation it moves.\<close>

definition settle :: "observation \<Rightarrow> observation_status \<Rightarrow> rstr \<Rightarrow> rstr \<Rightarrow> int \<Rightarrow> self_db \<Rightarrow> self_db" where
  "settle x st reviewer reason now db =
     db\<lparr> sm_observations := update_rows (\<lambda>y. so_id y = so_id x)
           (\<lambda>y. y\<lparr> so_status := st, so_revision := so_revision x + 1, so_updated_at := now \<rparr>) (sm_observations db),
         sm_reviews := sm_reviews db @ [review_row (so_id x) (so_revision x + 1) (so_status x) st reviewer reason now] \<rparr>"

lemma replay_snoc:
  "replay_reviews st r (ws @ [w]) = (case replay_reviews st r ws of
     None \<Rightarrow> None
   | Some (st', r') \<Rightarrow> if ow_prior w = st' \<and> ow_revision w = r' + 1 then Some (ow_new w, r' + 1) else None)"
  by (induction st r ws rule: replay_reviews.induct) auto

lemma links_back_fixed:
  assumes same: "map fixed ys = map fixed xs" and xs: "links_back xs"
  shows "links_back ys"
  unfolding links_back_def
proof (intro allI impI)
  fix k j
  assume k: "k < length ys" and j: "so_supersedes (ys ! k) = Some j"
  have len: "length ys = length xs" using same by (metis length_map)
  have "fixed (ys ! n) = fixed (xs ! n)" if "n < length xs" for n using same that len by (metis nth_map)
  note f = fixed_fields [OF this]
  obtain i where "i < k" "so_id (xs ! i) = j" "so_lineage (xs ! i) = so_lineage (xs ! k)"
    using xs k j f [of k] len unfolding links_back_def by auto
  then show "\<exists>i < k. so_id (ys ! i) = j \<and> so_lineage (ys ! i) = so_lineage (ys ! k)"
    using f [of i] f [of k] k len by (intro exI [of _ i]) simp
qed

lemma settle_fixed: "map fixed (sm_observations (settle x st reviewer reason now db)) = map fixed (sm_observations db)"
  unfolding settle_def by (simp add: map_update_rows fixed_def)

lemma settle_ids: "map so_id (sm_observations (settle x st reviewer reason now db)) = map so_id (sm_observations db)"
  unfolding settle_def by (simp add: map_update_rows)

lemma settle_le:
  assumes "distinct (map so_id (sm_observations db))" "x \<in> set (sm_observations db)"
  shows "sm_le db (settle x st reviewer reason now db)"
proof -
  have "y = x" if "y \<in> set (sm_observations db)" "so_id y = so_id x" for y
    using assms that by (auto simp: distinct_map dest: inj_onD)
  have "\<exists>z \<in> set (sm_observations (settle x st reviewer reason now db)). fixed z = fixed y \<and> so_revision y \<le> so_revision z"
    if y: "y \<in> set (sm_observations db)" for y
  proof (intro bexI conjI)
    let ?z = "if so_id y = so_id x then y\<lparr> so_status := st, so_revision := so_revision x + 1, so_updated_at := now \<rparr> else y"
    show "?z \<in> set (sm_observations (settle x st reviewer reason now db))" using y by (auto simp: settle_def set_update_rows)
    show "fixed ?z = fixed y" by (simp add: fixed_def)
    show "so_revision y \<le> so_revision ?z" using \<open>\<And>y. y \<in> _ \<Longrightarrow> _ \<Longrightarrow> y = x\<close> [OF y] by auto
  qed
  then show ?thesis by (auto simp: sm_le_def) (simp add: settle_def)
qed

lemma settle_inv:
  assumes inv: "sm_inv db" and x: "x \<in> set (sm_observations db)"
    and st: "st \<in> {ObsPromoted, ObsRetired} \<or> so_status x = ObsPromoted \<and> st = ObsSuperseded"
    and why: "st = ObsSuperseded \<Longrightarrow> \<exists>y \<in> set (sm_observations db). so_supersedes y = Some (so_id x) \<and> was_promoted db (so_id y)"
  shows "sm_inv (settle x st reviewer reason now db)"
proof -
  let ?db = "settle x st reviewer reason now db" and ?w = "review_row (so_id x) (so_revision x + 1) (so_status x) st reviewer reason now"
  let ?u = "\<lambda>y. if so_id y = so_id x then y\<lparr> so_status := st, so_revision := so_revision x + 1, so_updated_at := now \<rparr> else y"
  have d: "distinct (map so_id (sm_observations db))" using inv by (simp add: sm_inv_def)
  have same: "y = x" if "y \<in> set (sm_observations db)" "so_id y = so_id x" for y
    using x d that by (auto simp: distinct_map dest: inj_onD)
  have obs: "set (sm_observations ?db) = ?u ` set (sm_observations db)" by (simp add: settle_def set_update_rows)
  have ids: "so_id ` set (sm_observations ?db) = so_id ` set (sm_observations db)" using settle_ids by (metis set_map)
  have trail: "review_trail ?db i = review_trail db i @ (if i = so_id x then [?w] else [])" for i
    by (simp add: review_trail_def settle_def review_row_def)
  have "replays ?db (?u y)" if "y \<in> set (sm_observations db)" for y
  proof (cases "so_id y = so_id x")
    case True
    then show ?thesis using same [OF that] inv x by (simp add: sm_inv_def replays_def trail replay_snoc) (simp add: review_row_def)
  next
    case False
    then show ?thesis using inv that by (simp add: sm_inv_def replays_def trail)
  qed
  moreover have "observation_ok (?u y) \<and> so_lineage (?u y) \<in> ln_id ` set (sm_lineages ?db)" if "y \<in> set (sm_observations db)" for y
    using inv that by (simp add: sm_inv_def observation_ok_def settle_def)
  ultimately have each: "\<forall>y \<in> set (sm_observations ?db). observation_ok y \<and> so_lineage y \<in> ln_id ` set (sm_lineages ?db) \<and> replays ?db y"
    unfolding obs by blast
  have promoted: "was_promoted ?db i" if "was_promoted db i" for i using that by (auto simp: was_promoted_def settle_def)
  have sup: "\<exists>z \<in> set (sm_observations ?db). so_supersedes z = Some (so_id (?u y)) \<and> was_promoted ?db (so_id z)"
    if y: "y \<in> set (sm_observations db)" and s: "so_status (?u y) = ObsSuperseded" for y
  proof -
    have "\<exists>z \<in> set (sm_observations db). so_supersedes z = Some (so_id y) \<and> was_promoted db (so_id z)"
    proof (cases "so_id y = so_id x")
      case True
      then show ?thesis using why s same [OF y] by simp
    next
      case False
      then show ?thesis using inv y s by (simp add: sm_inv_def)
    qed
    then obtain z where "z \<in> set (sm_observations db)" "so_supersedes z = Some (so_id y)" "was_promoted db (so_id z)" by blast
    then show ?thesis using promoted by (intro bexI [of _ "?u z"]) (auto simp: obs)
  qed
  then have "\<forall>y \<in> set (sm_observations ?db). so_status y = ObsSuperseded \<longrightarrow>
      (\<exists>z \<in> set (sm_observations ?db). so_supersedes z = Some (so_id y) \<and> was_promoted ?db (so_id z))"
    unfolding obs by blast
  moreover have "\<forall>w \<in> set (sm_reviews ?db). review_ok w \<and> ow_observation w \<in> so_id ` set (sm_observations ?db)"
    unfolding ids using inv x st by (auto simp: sm_inv_def settle_def review_ok_def review_row_def)
  moreover have "links_back (sm_observations ?db)" using inv links_back_fixed [OF settle_fixed] by (simp add: sm_inv_def)
  moreover have "distinct (map so_id (sm_observations ?db))" using d by (simp add: settle_ids)
  ultimately show ?thesis using inv each by (simp add: sm_inv_def) (simp add: settle_def)
qed

lemma links_back_other:
  assumes "links_back xs" "distinct (map so_id xs)" "x \<in> set xs" "so_supersedes x = Some j"
  shows "j \<noteq> so_id x \<and> (\<exists>y \<in> set xs. so_id y = j \<and> so_lineage y = so_lineage x)"
proof -
  obtain k where k: "k < length xs" "xs ! k = x" using assms(3) by (auto simp: in_set_conv_nth)
  then obtain i where i: "i < k" "so_id (xs ! i) = j" "so_lineage (xs ! i) = so_lineage x"
    using assms(1,4) by (auto simp: links_back_def)
  then have "so_id (xs ! i) \<noteq> so_id (xs ! k)" using assms(2) k(1) by (auto simp: distinct_conv_nth)
  with i k show ?thesis by (metis in_set_conv_nth less_trans)
qed

lemma update_rows_known:
  assumes "distinct (map key xs)" "x \<in> set xs" "p x"
  shows "update_rows (\<lambda>y. key y = key x \<and> p y) f xs = update_rows (\<lambda>y. key y = key x) f xs"
    "length (filter (\<lambda>y. key y = key x \<and> p y) xs) = 1"
proof -
  have same: "key y = key x \<and> p y \<longleftrightarrow> key y = key x" if "y \<in> set xs" for y
    using assms that by (auto simp: distinct_map dest: inj_onD)
  then show "update_rows (\<lambda>y. key y = key x \<and> p y) f xs = update_rows (\<lambda>y. key y = key x) f xs"
    by (auto simp: update_rows_def)
  show "length (filter (\<lambda>y. key y = key x \<and> p y) xs) = 1" using count_rows_key [of key xs x p] assms by (simp add: count_rows_def)
qed

lemma review_cases:
  assumes inv: "sm_inv db"
  obtains (conflict) "review_self_observation i e st rv rs now db =
          (Inr (Conflict (map_option so_revision (get_self_observation db i))), db)"
        "map_option so_revision (get_self_observation db i) \<noteq> Some e"
    | (failed) x old where "x \<in> set (sm_observations db)" "so_id x = i" "so_revision x = e"
        "review_self_observation i e st rv rs now db =
          (Inl (Invariant (lit ''superseded observation `'' @ so_id old @ lit ''` must currently be promoted'')), db)"
        "st = ObsPromoted" "so_supersedes x = Some (so_id old)" "old \<in> set (sm_observations db)" "so_id old \<noteq> i"
        "so_lineage old = so_lineage x" "so_status old \<noteq> ObsPromoted"
    | (settled) x db' where "x \<in> set (sm_observations db)" "so_id x = i" "so_revision x = e"
        "review_self_observation i e st rv rs now db = (Inr (Applied (x\<lparr> so_status := st, so_revision := e + 1, so_updated_at := now \<rparr>)), db')"
        "st \<noteq> ObsPromoted \<or> so_supersedes x = None" "db' = settle x st rv rs now db"
    | (replaced) x old db' where "x \<in> set (sm_observations db)" "so_id x = i" "so_revision x = e"
        "review_self_observation i e st rv rs now db = (Inr (Applied (x\<lparr> so_status := st, so_revision := e + 1, so_updated_at := now \<rparr>)), db')"
        "st = ObsPromoted" "so_supersedes x = Some (so_id old)" "old \<in> set (sm_observations db)" "so_id old \<noteq> i"
        "so_lineage old = so_lineage x" "so_status old = ObsPromoted"
        "db' = settle old ObsSuperseded rv (lit ''superseded by `'' @ i @ lit ''`: '' @ rs) now (settle x st rv rs now db)"
proof (cases "get_self_observation db i")
  case None
  then show thesis using conflict by (simp add: review_self_observation_def)
next
  case (Some x)
  have d: "distinct (map so_id (sm_observations db))" and links: "links_back (sm_observations db)" using inv by (simp_all add: sm_inv_def)
  have x: "x \<in> set (sm_observations db)" "so_id x = i" using get_Some [OF Some] by simp_all
  show thesis
  proof (cases "so_revision x = e")
    case False
    then have "review_self_observation i e st rv rs now db = (Inr (Conflict (Some (so_revision x))), db)"
      using Some by (simp add: review_self_observation_def)
    then show thesis using conflict Some False by simp
  next
    case e: True
    let ?cur = "x\<lparr> so_status := st, so_revision := e + 1, so_updated_at := now \<rparr>" and ?db = "settle x st rv rs now db"
    have move: "(let db1 = move_observation i (\<lambda>y. so_revision y = e) st (so_revision ?cur) now db in
        db1\<lparr> sm_reviews := sm_reviews db1 @ [review_row i (so_revision ?cur) (so_status x) st rv rs now] \<rparr>) = ?db"
      using update_rows_known(1) [where key = so_id and p = "\<lambda>y. so_revision y = e", OF d x(1) e] x(2) e
      by (simp add: move_observation_def settle_def Let_def)
    have res: "review_self_observation i e st rv rs now db =
        (case (st, so_supersedes x) of
           (ObsPromoted, Some j) \<Rightarrow> try_tx db (supersede j (so_lineage x) i rv rs now ?db) (\<lambda>db3. (Inr (Applied ?cur), db3))
         | _ \<Rightarrow> (Inr (Applied ?cur), ?db))"
      using Some e move by (cases st; cases "so_supersedes x") (simp_all add: review_self_observation_def Let_def)
    show thesis
    proof (cases "st = ObsPromoted \<and> so_supersedes x \<noteq> None")
      case False
      then have "review_self_observation i e st rv rs now db = (Inr (Applied ?cur), ?db)"
        unfolding res by (cases st; cases "so_supersedes x") auto
      then show thesis using settled [OF x e] False by blast
    next
      case True
      then obtain j where st: "st = ObsPromoted" and j: "so_supersedes x = Some j" by blast
      have ji: "j \<noteq> i" using links_back_other [OF links d x(1) j] x(2) by simp
      have d': "distinct (map so_id (sm_observations ?db))" using d by (simp add: settle_ids)
      have get: "get_self_observation ?db j = Some y \<longleftrightarrow> y \<in> set (sm_observations db) \<and> so_id y = j" for y
        unfolding get_iff [OF d'] using ji x(2) by (auto simp: settle_def set_update_rows)
      obtain old where old: "old \<in> set (sm_observations db)" "so_id old = j" and lineage: "so_lineage old = so_lineage x"
        using links_back_other [OF links d x(1) j] by blast
      then have Some: "get_self_observation ?db j = Some old" using get by blast
      then have old': "old \<in> set (sm_observations ?db)" using get_Some by blast
      show thesis
      proof (cases "so_status old = ObsPromoted")
        case False
        then have "supersede j (so_lineage x) i rv rs now ?db =
            Inl (Invariant (lit ''superseded observation `'' @ so_id old @ lit ''` must currently be promoted''))"
          using Some lineage old(2) by (simp add: supersede_def)
        then have "review_self_observation i e st rv rs now db =
            (Inl (Invariant (lit ''superseded observation `'' @ so_id old @ lit ''` must currently be promoted'')), db)"
          using res st j by simp
        then show thesis using failed [OF x e _ st _ old(1) _ lineage False] j ji old(2) by blast
      next
        case ok: True
        let ?same = "\<lambda>y. so_status y = ObsPromoted \<and> so_revision y = so_revision old"
        note k = update_rows_known [where key = so_id and p = ?same, OF d' old' conjI [OF ok refl]]
        have "supersede j (so_lineage x) i rv rs now ?db =
            Inr (settle old ObsSuperseded rv (lit ''superseded by `'' @ i @ lit ''`: '' @ rs) now ?db)"
          using Some ok lineage k old(2) by (simp add: supersede_def Let_def move_observation_def) (simp add: settle_def)
        then have "review_self_observation i e st rv rs now db = (Inr (Applied ?cur),
            settle old ObsSuperseded rv (lit ''superseded by `'' @ i @ lit ''`: '' @ rs) now ?db)"
          using res st j by simp
        then show thesis using replaced [OF x e _ st _ old(1)] j ji old(2) ok lineage by blast
      qed
    qed
  qed
qed

section \<open>The operations keep the invariant\<close>

lemma set_lineage_inv:
  assumes inv: "sm_inv db"
  shows "sm_inv (snd (set_lineage i name description sd expected now db)) \<and> sm_le db (snd (set_lineage i name description sd expected now db))"
proof -
  have "lineages_ok (sm_lineages db)" using inv by (simp add: sm_inv_def)
  then show ?thesis
  proof (cases rule: set_lineage_cases [of db i name description sd expected now])
    case (conflict actual)
    then show ?thesis using inv by simp
  next
    case (applied l rows)
    have le: "sm_le db (db\<lparr> sm_lineages := rows \<rparr>)" using applied(3) by (auto simp: sm_le_def)
    have "replays (db\<lparr> sm_lineages := rows \<rparr>) x = replays db x" "was_promoted (db\<lparr> sm_lineages := rows \<rparr>) j = was_promoted db j" for x j
      by (simp_all add: replays_def review_trail_def was_promoted_def)
    then have "sm_inv (db\<lparr> sm_lineages := rows \<rparr>)" using inv applied(2,3) by (simp add: sm_inv_def)
    then show ?thesis using le by (simp add: applied(1))
  qed
qed

lemma links_back_snoc:
  assumes "links_back xs" "\<And>j. so_supersedes x = Some j \<Longrightarrow> \<exists>y \<in> set xs. so_id y = j \<and> so_lineage y = so_lineage x"
  shows "links_back (xs @ [x])"
  unfolding links_back_def
proof (intro allI impI)
  fix k j
  assume k: "k < length (xs @ [x])" and j: "so_supersedes ((xs @ [x]) ! k) = Some j"
  show "\<exists>i < k. so_id ((xs @ [x]) ! i) = j \<and> so_lineage ((xs @ [x]) ! i) = so_lineage ((xs @ [x]) ! k)"
  proof (cases "k < length xs")
    case True
    then obtain i where "i < k" "so_id (xs ! i) = j" "so_lineage (xs ! i) = so_lineage (xs ! k)"
      using assms(1) j unfolding links_back_def by (auto simp: nth_append)
    then show ?thesis using True by (intro exI [of _ i]) (simp add: nth_append)
  next
    case False
    then have "k = length xs" using k by simp
    then obtain y where "y \<in> set xs" "so_id y = j" "so_lineage y = so_lineage x" using assms(2) j by auto
    then obtain i where "i < length xs" "so_id (xs ! i) = j" "so_lineage (xs ! i) = so_lineage x" by (metis in_set_conv_nth)
    then show ?thesis using \<open>k = length xs\<close> by (intro exI [of _ i]) (simp add: nth_append)
  qed
qed

lemma propose_inv:
  assumes inv: "sm_inv db" and x: "so_status x = ObsCandidate" "so_revision x = 1" "so_evidence x \<noteq> []"
      "so_scope x = ObsEngine \<longrightarrow> so_model x \<noteq> None \<or> so_harness x \<noteq> None"
    and sup: "\<And>j. so_supersedes x = Some j \<Longrightarrow> \<exists>y \<in> set (sm_observations db). so_id y = j \<and> so_lineage y = so_lineage x"
  shows "sm_inv (snd (propose_self_observation x db)) \<and> sm_le db (snd (propose_self_observation x db))"
proof (cases "propose_self_observation x db")
  case (Pair r db')
  show ?thesis
  proof (cases r)
    case (Inl e)
    then have "db' = db" using Pair by (auto simp: propose_self_observation_def split: if_splits)
    then show ?thesis using inv Pair by simp
  next
    case (Inr u)
    let ?db = "db\<lparr> sm_observations := sm_observations db @ [x] \<rparr>"
    have new: "db' = ?db" "confidence_ok (so_confidence x)" "so_id x \<notin> so_id ` set (sm_observations db)" "so_lineage x \<in> ln_id ` set (sm_lineages db)"
      using Pair Inr get_None [of db "so_id x"] lineage_None [of db "so_lineage x"]
      by (auto simp: propose_self_observation_def split: if_splits)
    have trail: "review_trail ?db i = review_trail db i" for i by (simp add: review_trail_def)
    have "\<forall>w \<in> set (sm_reviews db). ow_observation w \<in> so_id ` set (sm_observations db)" using inv by (simp add: sm_inv_def)
    then have "review_trail db (so_id x) = []" using new(3) unfolding review_trail_def filter_empty_conv by metis
    then have "replays ?db x" using x by (simp add: replays_def trail)
    moreover have "replays ?db y = replays db y" for y by (simp add: replays_def trail)
    moreover have "was_promoted ?db j = was_promoted db j" for j by (simp add: was_promoted_def)
    moreover have "links_back (sm_observations ?db)" using inv links_back_snoc [OF _ sup] by (simp add: sm_inv_def)
    ultimately have "sm_inv ?db" using inv new(2-4) x unfolding sm_inv_def by (auto simp: observation_ok_def)
    moreover have "sm_le db ?db" by (auto simp: sm_le_def)
    ultimately show ?thesis using Pair new(1) by simp
  qed
qed

lemma review_inv:
  assumes inv: "sm_inv db" and st: "st \<in> {ObsPromoted, ObsRetired}"
  shows "sm_inv (snd (review_self_observation i e st rv rs now db)) \<and> sm_le db (snd (review_self_observation i e st rv rs now db))"
proof -
  have d: "distinct (map so_id (sm_observations db))" using inv by (simp add: sm_inv_def)
  from inv show ?thesis
  proof (cases rule: review_cases [of db i e st rv rs now])
    case (settled x db')
    then show ?thesis using settle_inv [OF inv settled(1), of st] st settle_le [OF d settled(1)] by auto
  next
    case (replaced x old db')
    let ?db = "settle x st rv rs now db"
    have inv1: "sm_inv ?db" using settle_inv [OF inv replaced(1), of st] st by auto
    have old: "old \<in> set (sm_observations ?db)" using replaced(2,7,8) by (auto simp: settle_def set_update_rows image_iff)
    have prom: "was_promoted ?db (so_id x)" using replaced(5) by (simp add: was_promoted_def settle_def review_row_def)
    have "x\<lparr> so_status := st, so_revision := so_revision x + 1, so_updated_at := now \<rparr> \<in> set (sm_observations ?db)"
      using replaced(1) by (auto simp: settle_def set_update_rows image_iff)
    then have "\<exists>y \<in> set (sm_observations ?db). so_supersedes y = Some (so_id old) \<and> was_promoted ?db (so_id y)"
      using replaced(6) prom by (intro bexI) auto
    then have "sm_inv db'" unfolding replaced(11) using settle_inv [OF inv1 old] replaced(10) by blast
    moreover have "sm_le ?db db'" unfolding replaced(11) using inv1 old by (intro settle_le) (simp_all add: sm_inv_def)
    ultimately show ?thesis using replaced(4) settle_le [OF d replaced(1)] sm_le_trans by fastforce
  qed (use inv in simp_all)
qed

lemma migration_inv:
  assumes inv: "sm_inv db" and m: "mg_evidence m \<noteq> []"
  shows "sm_inv (snd (record_lineage_migration m db)) \<and> sm_le db (snd (record_lineage_migration m db))"
proof -
  let ?db = "db\<lparr> sm_migrations := sm_migrations db @ [m] \<rparr>"
  have "replays ?db x = replays db x" "was_promoted ?db j = was_promoted db j" for x j
    by (simp_all add: replays_def review_trail_def was_promoted_def)
  then have "\<forall>r \<in> set (sm_migrations db). mg_id r \<noteq> mg_id m \<Longrightarrow> get_lineage db (mg_lineage m) \<noteq> None \<Longrightarrow> sm_inv ?db"
    using inv m unfolding lineage_None by (auto simp: sm_inv_def)
  moreover have "sm_le db ?db" by (auto simp: sm_le_def)
  ultimately show ?thesis using inv by (simp add: record_lineage_migration_def list_ex_iff)
qed

end
