(* ===== verification/Self_Props.thy ===== *)
theory Self_Props
  imports Self_Inv
begin

text \<open>
  What the tools of the self model promise in every run: consistency of the tables, and what a review does
  on each of its branches.
\<close>

section \<open>The tools keep the invariant\<close>

lemma bindE_InrD: "bindE m f = Inr y \<Longrightarrow> \<exists>x. m = Inr x \<and> f x = Inr y"
  by (cases m) auto

lemma snd_try_tx: "P s \<Longrightarrow> (\<And>y. m = Inr y \<Longrightarrow> P (snd (k y))) \<Longrightarrow> P (snd (try_tx s m k))"
  by (cases m) (simp_all add: try_tx_def)

lemma snd_on_db:
  assumes "P (snd (f (sh_db h)))" "\<And>y db. f (sh_db h) = (Inr y, db) \<Longrightarrow> sh_db (snd (k y (h\<lparr> sh_db := db \<rparr>))) = db"
  shows "P (sh_db (snd (on_db h f k)))"
  using assms by (cases "f (sh_db h)") (auto simp: on_db_def split: sum.split)

lemma log_tool_db [simp]: "sh_db (log_tool_change te kind entity actor details h) = sh_db h"
  by (simp add: log_tool_change_def)

definition kept_db :: "self_db \<Rightarrow> self_db \<Rightarrow> bool" where
  "kept_db db db' \<longleftrightarrow> sm_inv db' \<and> sm_le db db'"

lemma kept_refl: "sm_inv db \<Longrightarrow> kept_db db db"
  by (simp add: kept_db_def)

lemma lineage_tool_kept:
  assumes "sm_inv (sh_db h)"
  shows "kept_db (sh_db h) (sh_db (snd (tool_lineage_set te args h)))"
  unfolding tool_lineage_set_def
proof (intro snd_try_tx [where P = "\<lambda>h'. kept_db (sh_db h) (sh_db h')"] kept_refl assms)
  fix i name description expected sd actor
  show "kept_db (sh_db h) (sh_db (snd (on_db h (set_lineage i name description (sd = Some True) (Some expected) (te_now te))
      (\<lambda>w h. case w of Applied l \<Rightarrow> (Inr (LineageReply l), log_tool_change te (lit ''lineage_set'') i actor
            [(lit ''display_name'', JString (ln_display_name l)), (lit ''revision'', JNumber (JInt (ln_revision l))),
             (lit ''is_default'', JBool (ln_default l))] h)
         | Conflict actual \<Rightarrow> (Inr (ConflictReply expected actual), h)))))"
    using set_lineage_inv [OF assms]
    by (intro snd_on_db [where P = "kept_db (sh_db h)"]) (auto simp: kept_db_def split: revisioned_write.split)
qed

lemma check_supersededD:
  "check_superseded seen lineage_id j = Inr u \<Longrightarrow> \<exists>y \<in> set (sm_observations seen). so_id y = j \<and> so_lineage y = lineage_id"
  by (auto simp: check_superseded_def split: option.splits if_splits dest: get_Some)

lemma proposed_observationD:
  assumes "proposed_observation te args seen1 seen2 = Inr x"
  shows "so_status x = ObsCandidate" "so_revision x = 1" "so_evidence x \<noteq> []"
    "so_scope x = ObsEngine \<longrightarrow> so_model x \<noteq> None \<or> so_harness x \<noteq> None"
    "so_supersedes x = Some j \<Longrightarrow> \<exists>y \<in> set (sm_observations seen2). so_id y = j \<and> so_lineage y = so_lineage x"
proof -
  have ev: "required_string_array args f True = Inr e \<Longrightarrow> e \<noteq> []" for f e
    by (auto simp: required_string_array_def bindE_eq_Inr split: option.splits json.splits if_splits)
  note p = assms [unfolded proposed_observation_def]
  show "so_status x = ObsCandidate" "so_revision x = 1" "so_evidence x \<noteq> []"
    "so_scope x = ObsEngine \<longrightarrow> so_model x \<noteq> None \<or> so_harness x \<noteq> None"
    using p ev by (auto simp: bindE_eq_Inr split: if_splits)
  show "\<exists>y \<in> set (sm_observations seen2). so_id y = j \<and> so_lineage y = so_lineage x" if "so_supersedes x = Some j"
    using p that by (auto simp: bindE_eq_Inr dest: check_supersededD)
qed

lemma sm_le_observation:
  "sm_le a b \<Longrightarrow> y \<in> set (sm_observations a) \<Longrightarrow>
     \<exists>z \<in> set (sm_observations b). so_id z = so_id y \<and> so_lineage z = so_lineage y"
  unfolding sm_le_def by (metis fixed_fields)

lemma propose_tool_kept:
  assumes inv: "sm_inv (sh_db h)" and seen: "sm_le seen2 (sh_db h)"
  shows "kept_db (sh_db h) (sh_db (snd (tool_self_observation_propose te args seen1 seen2 h)))"
  unfolding tool_self_observation_propose_def
proof (intro snd_try_tx [where P = "\<lambda>h'. kept_db (sh_db h) (sh_db h')"] kept_refl inv)
  fix x
  assume x: "proposed_observation te args seen1 seen2 = Inr x"
  note facts = proposed_observationD [OF x]
  have "\<exists>y \<in> set (sm_observations (sh_db h)). so_id y = j \<and> so_lineage y = so_lineage x" if "so_supersedes x = Some j" for j
    using facts(5) [OF that] sm_le_observation [OF seen] by metis
  from propose_inv [OF inv facts(1-4) this] show
    "kept_db (sh_db h) (sh_db (snd (on_db h (propose_self_observation x) (\<lambda>_ h.
       (Inr (ObservationReply x),
        log_tool_change te (lit ''self_observation_proposed'') (so_id x) (so_author x)
          [(lit ''lineage_id'', JString (so_lineage x)), (lit ''scope'', JString (scope_str (so_scope x))),
           (lit ''statement'', JString (so_statement x))] h)))))"
    by (intro snd_on_db [where P = "kept_db (sh_db h)"]) (auto simp: kept_db_def)
qed

lemma decided_statusD: "decided_status d = Inr st \<Longrightarrow> st \<in> {ObsPromoted, ObsRetired}"
  by (auto simp: decided_status_def split: if_splits)

lemma review_requestD:
  "review_request args seen = Inr (i, decision, expected, reviewer, reason, st) \<Longrightarrow>
     st \<in> {ObsPromoted, ObsRetired} \<and> check_candidate seen i = Inr ()"
  by (auto simp: review_request_def bindE_eq_Inr dest: decided_statusD)

lemma log_tool_known [simp]:
  "change_id_known (sh_log (log_tool_change te kind entity actor details h)) (show_int (te_now te) @ lit '':'' @ entity)"
  by (auto simp: log_tool_change_def append_change_def append_event_inner_def change_id_known_def find_row_None change_id_for_event_def log_row_of_def)

text \<open>What the handler of a review makes of the store's answer.\<close>

lemma review_tool_request:
  assumes "review_request args seen = Inr (i, decision, e, rv, rs, st)"
  shows "tool_self_observation_review te args seen h =
    (case review_self_observation i e st rv rs (te_now te) (sh_db h) of
       (Inl m, db') \<Rightarrow> (Inl (ToolInternal m), h\<lparr> sh_db := db' \<rparr>)
     | (Inr (Conflict a), db') \<Rightarrow> (Inr (ConflictReply e a), h\<lparr> sh_db := db' \<rparr>)
     | (Inr (Applied x), db') \<Rightarrow>
         (Inr (ObservationReply x),
          log_tool_change te (lit ''self_observation_reviewed'') i rv
            [(lit ''lineage_id'', JString (so_lineage x)), (lit ''decision'', JString decision),
             (lit ''status'', JString (observation_status_str (so_status x))),
             (lit ''revision'', JNumber (JInt (so_revision x))), (lit ''reason'', JString rs)] (h\<lparr> sh_db := db' \<rparr>)))"
  using assms by (simp add: tool_self_observation_review_def try_tx_def on_db_def split: prod.split sum.split revisioned_write.split)

lemma hub_same [simp]: "(h :: self_hub)\<lparr> sh_db := sh_db h \<rparr> = h"
  by simp

lemma review_tool_cases:
  assumes inv: "sm_inv (sh_db h)"
  obtains (refused) e where "tool_self_observation_review te args seen h = (Inl e, h)"
    | (conflict) i e st rv rs a where "tool_self_observation_review te args seen h = (Inr (ConflictReply e a), h)"
        "review_self_observation i e st rv rs (te_now te) (sh_db h) = (Inr (Conflict a), sh_db h)"
    | (applied) i e st rv rs x h' where
        "tool_self_observation_review te args seen h = (Inr (ObservationReply x), h')"
        "review_self_observation i e st rv rs (te_now te) (sh_db h) = (Inr (Applied x), sh_db h')"
        "st \<in> {ObsPromoted, ObsRetired}" "check_candidate seen i = Inr ()"
        "change_id_known (sh_log h') (show_int (te_now te) @ lit '':'' @ i)"
proof (cases "review_request args seen")
  case (Inl e)
  then show thesis using refused by (simp add: tool_self_observation_review_def try_tx_def)
next
  case (Inr q)
  obtain i decision e rv rs st where q: "q = (i, decision, e, rv, rs, st)" by (cases q)
  note tool = review_tool_request [OF Inr [unfolded q], of te h]
  note req = review_requestD [OF Inr [unfolded q]]
  show thesis
  proof (cases "review_self_observation i e st rv rs (te_now te) (sh_db h)")
    case (Pair r db')
    from inv have same: "db' = sh_db h" if "\<forall>x. r \<noteq> Inr (Applied x)"
      using that Pair by (cases rule: review_cases [of "sh_db h" i e st rv rs "te_now te"]) auto
    show thesis
    proof (cases r)
      case (Inl m)
      then show thesis using refused tool Pair same by simp
    next
      case (Inr w)
      show thesis
      proof (cases w)
        case (Conflict a)
        then show thesis using conflict [of e a i st rv rs] tool Pair Inr same by simp
      next
        case (Applied x)
        let ?h' = "snd (tool_self_observation_review te args seen h)"
        have "tool_self_observation_review te args seen h = (Inr (ObservationReply x), ?h')" "sh_db ?h' = db'"
            "change_id_known (sh_log ?h') (show_int (te_now te) @ lit '':'' @ i)"
          using tool Pair Inr Applied by simp_all
        then show thesis using applied Pair Inr Applied req by blast
      qed
    qed
  qed
qed

lemma review_tool_kept:
  assumes inv: "sm_inv (sh_db h)"
  shows "kept_db (sh_db h) (sh_db (snd (tool_self_observation_review te args seen h)))"
  using inv
proof (cases rule: review_tool_cases [of h te args seen])
  case (applied i e st rv rs x h')
  then show ?thesis using review_inv [OF inv applied(3), of i e rv rs "te_now te"] by (simp add: kept_db_def)
qed (use inv kept_refl in simp_all)

lemma described_migrationD: "described_migration te args seen = Inr m \<Longrightarrow> mg_evidence m \<noteq> []"
proof -
  have ev: "required_string_array args f True = Inr e \<Longrightarrow> e \<noteq> []" for f e
    by (auto simp: required_string_array_def bindE_eq_Inr split: option.splits json.splits if_splits)
  show "described_migration te args seen = Inr m \<Longrightarrow> mg_evidence m \<noteq> []"
    using ev by (auto simp: described_migration_def bindE_eq_Inr)
qed

lemma migration_tool_kept:
  assumes inv: "sm_inv (sh_db h)"
  shows "kept_db (sh_db h) (sh_db (snd (tool_migration_record te args seen h)))"
  unfolding tool_migration_record_def
proof (intro snd_try_tx [where P = "\<lambda>h'. kept_db (sh_db h) (sh_db h')"] kept_refl inv)
  fix m
  assume "described_migration te args seen = Inr m"
  from migration_inv [OF inv described_migrationD [OF this]] show
    "kept_db (sh_db h) (sh_db (snd (on_db h (record_lineage_migration m) (\<lambda>_ h.
       (Inr (MigrationReply m),
        log_tool_change te (lit ''lineage_migration_recorded'') (mg_id m) (mg_author m)
          [(lit ''lineage_id'', JString (mg_lineage m)), (lit ''from_model'', json_opt (mg_from_model m)),
           (lit ''from_harness'', json_opt (mg_from_harness m)), (lit ''to_model'', JString (mg_to_model m)),
           (lit ''to_harness'', JString (mg_to_harness m))] h)))))"
    by (intro snd_on_db [where P = "kept_db (sh_db h)"]) (auto simp: kept_db_def)
qed

section \<open>Runs\<close>

definition run_ok :: "self_hub \<times> self_db list \<Rightarrow> bool" where
  "run_ok s \<longleftrightarrow> (case s of (h, past) \<Rightarrow> sm_inv (sh_db h) \<and> past \<noteq> [] \<and> (\<forall>p \<in> set past. sm_inv p \<and> sm_le p (sh_db h)))"

lemma read_at_in: "past \<noteq> [] \<Longrightarrow> read_at past i \<in> set past"
  by (simp add: read_at_def)

lemma self_exec_kept:
  assumes "run_ok (h, past)"
  shows "kept_db (sh_db h) (sh_db (snd (self_exec c past h)))"
proof (cases c)
  case (SelfPropose te args i j)
  have "sm_le (read_at past j) (sh_db h)" using assms read_at_in by (auto simp: run_ok_def)
  then show ?thesis using SelfPropose assms propose_tool_kept by (simp add: run_ok_def)
qed (use assms lineage_tool_kept review_tool_kept migration_tool_kept in \<open>simp_all add: run_ok_def\<close>)

lemma self_run_ok: "run_ok (self_run calls)"
proof -
  have step: "run_ok (self_step c s)" if ok: "run_ok s" for c s
  proof -
    obtain h past where s: "s = (h, past)" by (cases s)
    note kept = self_exec_kept [OF ok [unfolded s], of c, unfolded kept_db_def]
    then show ?thesis using ok s by (auto simp: self_step_def run_ok_def Let_def intro: sm_le_trans)
  qed
  have "run_ok s \<Longrightarrow> run_ok (fold self_step calls s)" for s
    by (induction calls arbitrary: s) (simp_all add: step)
  moreover have "run_ok (self_hub_init, [self_db_init])"
    by (simp add: run_ok_def self_hub_init_def self_db_init_def sm_inv_def lineages_ok_def links_back_def)
  ultimately show ?thesis by (simp add: self_run_def)
qed

section \<open>Reviews\<close>

lemma replay_revision: "replay_reviews st r ws = Some (st', r') \<Longrightarrow> r' = r + int (length ws)"
  by (induction st r ws rule: replay_reviews.induct) (auto split: if_splits)

lemma unreviewed_candidate:
  assumes "sm_inv db" "x \<in> set (sm_observations db)" "so_revision x = 1"
  shows "so_status x = ObsCandidate"
proof -
  have r: "replay_reviews ObsCandidate 1 (review_trail db (so_id x)) = Some (so_status x, 1)"
    using assms by (simp add: sm_inv_def replays_def)
  from replay_revision [OF this] have "review_trail db (so_id x) = []" by simp
  with r show ?thesis by simp
qed

text \<open>An observation with a new status, one revision up.\<close>

definition decided :: "observation_status \<Rightarrow> int \<Rightarrow> observation \<Rightarrow> observation" where
  "decided st now x = x\<lparr> so_status := st, so_revision := so_revision x + 1, so_updated_at := now \<rparr>"

lemma settle_rows:
  assumes "distinct (map so_id (sm_observations db))" "x \<in> set (sm_observations db)"
  shows "sm_observations (settle x st rv rs now db) = map (\<lambda>y. if y = x then decided st now x else y) (sm_observations db)"
proof -
  have "y = x" if "y \<in> set (sm_observations db)" "so_id y = so_id x" for y
    using assms that by (auto simp: distinct_map dest: inj_onD)
  then show ?thesis by (auto simp: settle_def update_rows_def decided_def)
qed

lemma settle_two_rows:
  assumes d: "distinct (map so_id (sm_observations db))" and x: "x \<in> set (sm_observations db)"
    and y: "y \<in> set (sm_observations db)" "so_id y \<noteq> so_id x"
  shows "sm_observations (settle y st' rv rs' now (settle x st rv rs now db)) =
    map (\<lambda>z. if z = x then decided st now x else if z = y then decided st' now y else z) (sm_observations db)"
proof -
  have "y \<in> set (sm_observations (settle x st rv rs now db))" using y by (auto simp: settle_def set_update_rows image_iff)
  moreover have "distinct (map so_id (sm_observations (settle x st rv rs now db)))" using d by (simp add: settle_ids)
  moreover have "decided st now x \<noteq> y" using y(2) by (auto simp: decided_def)
  ultimately show ?thesis using y(2) by (subst settle_rows) (auto simp: settle_rows [OF d x])
qed

lemma run_sm_inv: "self_run calls = (h, past) \<Longrightarrow> sm_inv (sh_db h)"
  using self_run_ok [of calls] by (simp add: run_ok_def)

text \<open>
  C38: in every run of the self-model tools, in which each handler may have read any earlier database before
  it writes, at most one lineage is the default (exactly one once there is any), identifiers are unique,
  every observation has evidence, a confidence from 0 to 1, a lineage and - when it is engine-scoped - a
  model or a harness, an observation only supersedes an earlier one of its lineage, the review log replays
  to the status and revision of every observation, a superseded observation has a successor that was
  promoted, and every migration has evidence and a lineage.
\<close>

theorem self_model_reachable: "sm_inv (sh_db (fst (self_run calls)))"
  using self_run_ok [of calls] by (simp add: run_ok_def split: prod.splits)


end
