(* ===== verification/Self_Packet.thy ===== *)
theory Self_Packet
  imports Self_Props "HOL-Library.Multiset"
begin

text \<open>
  The observations of an identity packet: reading the newest of each lineage and merging them gives the newest
  of all that are eligible, provided the stored texts of times are in the order of the times. The runtime's
  filter comes after the limit.
\<close>

section \<open>The order of a packet\<close>

definition newest_first :: "observation \<Rightarrow> int \<times> rstr" where
  "newest_first x = (- so_updated_at x, so_id x)"

lemma sort_desc_mset [simp]: "mset (sort_desc f xs) = mset xs"
  by (simp add: sort_desc_def)

lemma sorted_ties:
  fixes f :: "'a \<Rightarrow> 'k::linorder" and g :: "'a \<Rightarrow> 'l::linorder"
  assumes "sorted_wrt (\<lambda>a b. g b < g a) ys"
  shows "sorted_wrt (\<lambda>a b. f a < f b \<or> f a = f b \<and> g b < g a) (sort_key f ys)"
proof -
  let ?R = "\<lambda>a b. f a < f b \<or> f a = f b \<and> g b < g a"
  have insert: "sorted_wrt ?R (insort_key f x zs)" if "sorted_wrt ?R zs" "\<forall>z \<in> set zs. g z < g x" for x zs
    using that
  proof (induction zs)
    case (Cons z zs)
    then show ?case by (auto simp: set_insort_key)
  qed simp
  show ?thesis using assms by (induction ys) (auto intro!: insert)
qed

lemma sort_desc_ties:
  assumes d: "distinct (map so_id xs)"
    and order: "\<And>a b. a \<in> set xs \<Longrightarrow> b \<in> set xs \<Longrightarrow> so_updated_at a < so_updated_at b \<longleftrightarrow> f a < f b"
  shows "sort_desc f (sort_key so_id xs) = sort_key newest_first xs"
proof -
  let ?ys = "sort_desc f (sort_key so_id xs)"
  have "distinct (map so_id (sort_key so_id xs))" using d by (metis distinct_map mset_eq_imp_distinct_iff mset_sort set_sort)
  moreover have "sorted (map so_id (sort_key so_id xs))" by simp
  ultimately have "sorted_wrt (<) (map so_id (sort_key so_id xs))" by (metis strict_sorted_iff)
  then have "sorted_wrt (\<lambda>a b. so_id b < so_id a) (rev (sort_key so_id xs))" by (simp add: sorted_wrt_map sorted_wrt_rev)
  from sorted_ties [OF this, of f] have "sorted_wrt (\<lambda>b a. f a < f b \<or> f a = f b \<and> so_id b < so_id a) ?ys"
    by (simp add: sort_desc_def sorted_wrt_rev)
  then have "sorted_wrt (\<lambda>b a. newest_first b \<le> newest_first a) ?ys"
  proof (rule sorted_wrt_mono_rel [rotated])
    fix b a
    assume ab: "b \<in> set ?ys" "a \<in> set ?ys" and r: "f a < f b \<or> f a = f b \<and> so_id b < so_id a"
    have "b \<in> set xs" "a \<in> set xs" using ab by (simp_all add: sort_desc_def)
    then show "newest_first b \<le> newest_first a"
      using r order [of a b] order [of b a] by (auto simp: newest_first_def less_eq_prod_def)
  qed
  then have "sorted (map newest_first ?ys)" by (simp add: sorted_map)
  moreover have "inj_on newest_first (set xs)" using d by (auto simp: inj_on_def newest_first_def distinct_map)
  ultimately show ?thesis by (intro sort_key_inj_key_eq [symmetric]) simp_all
qed

section \<open>The first of the merged lists\<close>

lemma take_insort: "take n (insort_key k x (take n ys)) = take n (insort_key k x ys)"
proof (induction ys arbitrary: n)
  case (Cons y ys)
  then show ?case by (cases n) (auto simp: take_Cons')
qed simp

lemma take_insorts: "take n (foldr (insort_key k) zs (take n ys)) = take n (foldr (insort_key k) zs ys)"
proof (induction zs)
  case (Cons z zs)
  have "take n (insort_key k z (foldr (insort_key k) zs (take n ys)))
      = take n (insort_key k z (take n (foldr (insort_key k) zs (take n ys))))" by (simp only: take_insort)
  also have "\<dots> = take n (insort_key k z (foldr (insort_key k) zs ys))" by (simp only: Cons.IH take_insort)
  finally show ?case by simp
qed simp

lemma sorted_take_sort: "sort_key k (take n (sort_key k xs)) = take n (sort_key k xs)"
  by (intro sort_key_id_if_sorted) (simp add: take_map [symmetric] sorted_wrt_take)

lemma take_sort_append: "take n (sort_key k (zs @ take n (sort_key k xs))) = take n (sort_key k (zs @ xs))"
proof -
  have "sort_key k (zs @ ys) = foldr (insort_key k) zs (sort_key k ys)" for ys by (simp add: sort_key_def)
  then show ?thesis by (simp add: sorted_take_sort take_insorts)
qed

lemma sort_key_perm:
  assumes "mset xs = mset ys" "inj_on k (set xs)"
  shows "sort_key k xs = sort_key k ys"
  using assms by (intro sort_key_inj_key_eq) simp_all

lemma take_sort_merge:
  assumes "inj_on k (set (zs @ concat xss))"
  shows "take n (sort_key k (zs @ concat (map (\<lambda>xs. take n (sort_key k xs)) xss))) = take n (sort_key k (zs @ concat xss))"
  using assms
proof (induction xss arbitrary: zs)
  case (Cons xs xss)
  let ?t = "take n (sort_key k xs)" and ?r = "concat xss"
  have t: "set ?t \<subseteq> set xs" by (metis set_sort set_take_subset)
  have inj: "inj_on k (set ((zs @ ?t) @ ?r))" using Cons.prems t by (auto intro: inj_on_subset)
  have "take n (sort_key k (zs @ concat (map (\<lambda>xs. take n (sort_key k xs)) (xs # xss)))) = take n (sort_key k ((zs @ ?t) @ ?r))"
    using Cons.IH [OF inj] by simp
  also have "sort_key k ((zs @ ?t) @ ?r) = sort_key k ((zs @ ?r) @ ?t)"
    using inj by (intro sort_key_perm) (simp_all add: ac_simps)
  also have "take n \<dots> = take n (sort_key k ((zs @ ?r) @ xs))" by (rule take_sort_append)
  also have "sort_key k ((zs @ ?r) @ xs) = sort_key k (zs @ concat (xs # xss))"
    using Cons.prems by (intro sort_key_perm) (simp_all add: ac_simps Un_ac)
  finally show ?case .
qed simp

lemma mset_filter_disjoint:
  "(\<And>x. x \<in> set xs \<Longrightarrow> \<not> (p x \<and> q x)) \<Longrightarrow> mset (filter (\<lambda>x. p x \<or> q x) xs) = mset (filter p xs) + mset (filter q xs)"
proof (induction xs)
  case (Cons x xs)
  then have "mset (filter (\<lambda>x. p x \<or> q x) xs) = mset (filter p xs) + mset (filter q xs)" "\<not> (p x \<and> q x)" by auto
  then show ?case by auto
qed simp

lemma mset_filter_by_key:
  assumes "distinct ks"
  shows "mset (concat (map (\<lambda>k. filter (\<lambda>x. f x = k \<and> p k x) xs) ks)) = mset (filter (\<lambda>x. f x \<in> set ks \<and> p (f x) x) xs)"
  using assms
proof (induction ks)
  case (Cons k ks)
  have "mset (filter (\<lambda>x. (f x = k \<and> p k x) \<or> (f x \<in> set ks \<and> p (f x) x)) xs)
      = mset (filter (\<lambda>x. f x = k \<and> p k x) xs) + mset (filter (\<lambda>x. f x \<in> set ks \<and> p (f x) x) xs)"
    using Cons.prems by (intro mset_filter_disjoint) auto
  moreover have "filter (\<lambda>x. (f x = k \<and> p k x) \<or> (f x \<in> set ks \<and> p (f x) x)) xs
      = filter (\<lambda>x. f x \<in> set (k # ks) \<and> p (f x) x) xs" by (intro filter_cong) auto
  ultimately show ?case using Cons by simp
qed simp

lemma mset_take: "mset (take n ys) \<subseteq># mset ys"
proof -
  have "mset (take n ys) \<subseteq># mset (take n ys) + mset (drop n ys)" by simp
  then show ?thesis by (simp flip: mset_append)
qed

lemma merged_subset: "mset (concat (map (\<lambda>xs. take n (sort_key k xs)) xss)) \<subseteq># mset (concat xss)"
proof (induction xss)
  case (Cons xs xss)
  have "mset (take n (sort_key k xs)) \<subseteq># mset xs" using mset_take [of n "sort_key k xs"] by simp
  from subset_mset.add_mono [OF this Cons.IH] show ?case by simp
qed simp

lemma distinct_subset: "distinct ys \<Longrightarrow> mset xs \<subseteq># mset ys \<Longrightarrow> distinct xs"
proof -
  assume d: "distinct ys" and "mset xs \<subseteq># mset ys"
  then obtain M where "mset ys = mset xs + M" by (auto simp: mset_subset_eq_exists_conv)
  moreover obtain zs where "mset zs = M" by (rule exE [OF ex_mset])
  ultimately have "mset (xs @ zs) = mset ys" by simp
  from mset_eq_imp_distinct_iff [OF this] d show "distinct xs" by simp
qed

lemma first_of_each_distinct: "distinct (map so_id xs) \<Longrightarrow> so_id ` set xs \<inter> seen = {} \<Longrightarrow> first_of_each seen xs = xs"
  by (induction seen xs rule: first_of_each.induct) auto

section \<open>The packet\<close>

definition packet_eligible :: "lineage \<Rightarrow> observation_status list \<Rightarrow> observation \<Rightarrow> bool" where
  "packet_eligible l statuses x \<longleftrightarrow>
     (so_lineage x = ln_id l \<or> so_scope x = ObsShared) \<and> (statuses = [] \<or> so_status x \<in> set statuses)"

text \<open>The texts of the times in the table are in the order of the times.\<close>

definition times_in_order :: "(int \<Rightarrow> rstr) \<Rightarrow> self_db \<Rightarrow> bool" where
  "times_in_order enc db \<longleftrightarrow>
     list_all (\<lambda>a. list_all (\<lambda>b. (so_updated_at a < so_updated_at b) = (enc (so_updated_at a) < enc (so_updated_at b)))
       (sm_observations db)) (sm_observations db)"

lemma listed_observations:
  assumes d: "distinct (map so_id (sm_observations db))" and order: "times_in_order enc db"
  shows "list_self_observations_scoped enc db i statuses scope limit =
    take limit (sort_key newest_first (filter (\<lambda>x. so_lineage x = i \<and> none_or (\<lambda>s. so_scope x = s) scope
      \<and> (statuses = [] \<or> so_status x \<in> set statuses)) (sm_observations db)))"
proof -
  let ?xs = "filter (\<lambda>x. so_lineage x = i \<and> none_or (\<lambda>s. so_scope x = s) scope) (sm_observations db)"
  have d': "distinct (map so_id ?xs)" using d by (rule distinct_map_filter)
  have "sort_desc (\<lambda>x. enc (so_updated_at x)) (sort_key so_id ?xs) = sort_key newest_first ?xs"
    using order d' by (intro sort_desc_ties) (simp_all add: times_in_order_def list_all_iff)
  then show ?thesis by (simp add: list_self_observations_scoped_def filter_sort conj_assoc)
qed

lemma collected_observations:
  assumes inv: "sm_inv db" and order: "times_in_order enc db"
  shows "collect_packet_observations enc db l statuses limit =
    take limit (sort_key newest_first (filter (packet_eligible l statuses) (sm_observations db)))"
proof (cases "limit = 0")
  case False
  let ?obs = "sm_observations db" and ?ids = "map ln_id (list_lineages db)"
  let ?p = "\<lambda>k x. (k = ln_id l \<or> so_scope x = ObsShared) \<and> (statuses = [] \<or> so_status x \<in> set statuses)"
  let ?xss = "map (\<lambda>k. filter (\<lambda>x. so_lineage x = k \<and> ?p k x) ?obs) ?ids"
  let ?all = "filter (packet_eligible l statuses) ?obs"
  have d: "distinct (map so_id ?obs)" using inv by (simp add: sm_inv_def)
  have lineages: "so_lineage x \<in> set ?ids" if "x \<in> set ?obs" for x using inv that by (simp add: sm_inv_def list_lineages_def)
  have "mset ?ids = mset (map ln_id (sm_lineages db))" by (simp add: list_lineages_def)
  then have "distinct ?ids = distinct (map ln_id (sm_lineages db))" by (rule mset_eq_imp_distinct_iff)
  then have ids: "distinct ?ids" using inv by (simp add: sm_inv_def lineages_ok_def)
  have inj: "inj_on newest_first (set ?obs)" using d by (auto simp: inj_on_def newest_first_def distinct_map)
  have "filter (\<lambda>x. so_lineage x \<in> set ?ids \<and> ?p (so_lineage x) x) ?obs = ?all"
    using lineages by (intro filter_cong) (auto simp: packet_eligible_def)
  then have all: "mset (concat ?xss) = mset ?all" using mset_filter_by_key [OF ids, of so_lineage ?p ?obs] by simp
  then have set_all: "set (concat ?xss) = set ?all" by (rule mset_eq_setD)
  then have inj': "inj_on newest_first (set (concat ?xss))" using inj by (auto intro: inj_on_subset)
  have each: "list_self_observations_scoped enc db (ln_id l') statuses (if ln_id l' \<noteq> ln_id l then Some ObsShared else None) limit =
      take limit (sort_key newest_first (filter (\<lambda>x. so_lineage x = ln_id l' \<and> ?p (ln_id l') x) ?obs))" for l'
    unfolding listed_observations [OF d order]
    by (intro arg_cong [where f = "\<lambda>xs. take limit (sort_key newest_first xs)"] filter_cong) (auto simp: none_or_def)
  let ?merged = "concat (map (\<lambda>xs. take limit (sort_key newest_first xs)) ?xss)"
  have merged: "concat (map (\<lambda>l'. list_self_observations_scoped enc db (ln_id l') statuses
      (if ln_id l' \<noteq> ln_id l then Some ObsShared else None) limit) (list_lineages db)) = ?merged"
    by (simp only: each map_map comp_def)
  have "mset ?merged \<subseteq># mset (concat ?xss)" by (rule merged_subset)
  then have sub: "mset ?merged \<subseteq># mset ?all" unfolding all .
  have "distinct (map so_id ?all)" using d by (rule distinct_map_filter)
  moreover have "mset (map so_id ?merged) \<subseteq># mset (map so_id ?all)"
    unfolding mset_map by (rule image_mset_subseteq_mono [OF sub])
  ultimately have dm: "distinct (map so_id ?merged)" by (rule distinct_subset)
  have sorted: "sort_desc so_updated_at (sort_key so_id ?merged) = sort_key newest_first ?merged"
    using dm by (rule sort_desc_ties) simp
  have "mset (map so_id (sort_key newest_first ?merged)) = mset (map so_id ?merged)" unfolding mset_map mset_sort ..
  then have "distinct (map so_id (sort_key newest_first ?merged)) = distinct (map so_id ?merged)" by (rule mset_eq_imp_distinct_iff)
  then have "distinct (map so_id (sort_key newest_first ?merged))" using dm by (rule iffD2)
  then have "collect_packet_observations enc db l statuses limit = take limit (sort_key newest_first ?merged)"
    using False unfolding collect_packet_observations_def Let_def merged sorted by (simp add: first_of_each_distinct)
  also have "\<dots> = take limit (sort_key newest_first (concat ?xss))" using take_sort_merge [of newest_first "[]" ?xss limit] inj' by simp
  also have "sort_key newest_first (concat ?xss) = sort_key newest_first ?all" using all inj' by (rule sort_key_perm)
  finally show ?thesis .
qed (simp add: collect_packet_observations_def)


section \<open>Two runs\<close>

text \<open>A server whose bound lineage, clock and hash are fixed.\<close>

definition packet_env :: "int \<Rightarrow> tool_env" where
  "packet_env now = \<lparr> te_enc = (\<lambda>t. [nat t]), te_now = now, te_blake3_hex = (\<lambda>s. s), te_int_f64 = (\<lambda>_. 0),
     te_f32 = (\<lambda>_. 0), te_json_text = (\<lambda>_. []), te_bound_lineage = None \<rparr>"

definition packet_lineage :: lineage where
  "packet_lineage = \<lparr> ln_id = lit ''me'', ln_display_name = lit ''Me'', ln_description = lit ''d'', ln_revision = 1,
     ln_default = True, ln_created_at = 1, ln_updated_at = 1 \<rparr>"

definition packet_observation :: "char list \<Rightarrow> observation_scope \<Rightarrow> int \<Rightarrow> observation" where
  "packet_observation name scope t = \<lparr> so_id = lit name, so_lineage = lit ''me'', so_status = ObsPromoted, so_scope = scope,
     so_statement = lit ''s'', so_consequence = lit ''c'', so_confidence = 0, so_author = lit ''a'',
     so_model = (if scope = ObsEngine then Some (lit ''other'') else None), so_harness = None, so_evidence = [lit ''e''],
     so_counterevidence = [], so_supersedes = None, so_revision = 2, so_created_at = t, so_updated_at = t \<rparr>"

definition packet_db :: self_db where
  "packet_db = \<lparr> sm_lineages = [packet_lineage],
     sm_observations = [packet_observation ''own'' ObsLineage 1, packet_observation ''engine'' ObsEngine 2],
     sm_reviews = map (\<lambda>i. review_row (lit i) 2 ObsCandidate ObsPromoted (lit ''r'') (lit ''w'') 2) [''own'', ''engine''],
     sm_migrations = [] \<rparr>"

text \<open>The limit comes before the filter: an observation about another model uses up the only place, and the
  packet shows nothing although one observation applies.\<close>

lemma packet_collected:
  "collect_packet_observations (te_enc (packet_env now)) packet_db packet_lineage [ObsPromoted] 1 = [packet_observation ''engine'' ObsEngine 2]"
  by (simp add: collect_packet_observations_def list_lineages_def list_self_observations_scoped_def packet_db_def packet_lineage_def
      packet_observation_def packet_env_def sort_desc_def none_or_def lit_def)

lemma packet_parts:
  "select_lineage packet_db None = (Some packet_lineage, PalaceDefault (Some (lit ''me'')))"
  "te_bound_lineage (packet_env now) = None"
  "list_lineage_migrations enc packet_db i n = []"
  "observation_applies_to_runtime (packet_observation ''engine'' ObsEngine 2) (Some (lit ''mine'')) None = False"
  by (simp_all add: select_lineage_def get_default_lineage_def packet_db_def packet_lineage_def packet_env_def
      list_lineage_migrations_def sort_desc_def observation_applies_to_runtime_def packet_observation_def none_or_def lit_def)

lemma trim_mine: "trim (lit ''mine'') = lit ''mine''" "lit ''mine'' \<noteq> []"
  by (simp_all add: lit_def trim_def trim_start_def trim_end_def is_whitespace_def)

lemma other_runtimes_crowd_packet:
  "compile_identity_packet (packet_env 3) (JObject [(lit ''model'', JString (lit ''mine'')),
       (lit ''observation_limit'', JNumber (JInt 1))]) packet_db =
     Inr (Packet packet_lineage (PalaceDefault (Some (lit ''me''))) [] None []
       \<lparr> pr_agent_name = None, pr_model = Some (lit ''mine''), pr_harness = None \<rparr>)"
  "\<exists>x \<in> set (sm_observations packet_db). packet_eligible packet_lineage [ObsPromoted] x
     \<and> observation_applies_to_runtime x (Some (lit ''mine'')) None"
proof -
  show "compile_identity_packet (packet_env 3) (JObject [(lit ''model'', JString (lit ''mine'')),
       (lit ''observation_limit'', JNumber (JInt 1))]) packet_db =
     Inr (Packet packet_lineage (PalaceDefault (Some (lit ''me''))) [] None []
       \<lparr> pr_agent_name = None, pr_model = Some (lit ''mine''), pr_harness = None \<rparr>)"
    unfolding compile_identity_packet_def
    by (simp add: optional_non_blank_string_def optional_string_def optional_bool_def optional_usize_def trim_mine packet_parts
        packet_collected [unfolded One_nat_def] Let_def)
qed (simp add: packet_db_def packet_observation_def packet_eligible_def packet_lineage_def observation_applies_to_runtime_def)

text \<open>The check that an observation is a candidate is made on what the handler read before the transaction: a
  handler that read the candidate and expects the revision that its promotion made retires it.\<close>

definition packet_past :: self_db where
  "packet_past = packet_db\<lparr> sm_observations :=
     map (\<lambda>x. x\<lparr> so_status := ObsCandidate, so_revision := 1 \<rparr>) (sm_observations packet_db), sm_reviews := [] \<rparr>"

definition stale_review :: json where
  "stale_review = JObject [(lit ''observation_id'', JString (lit ''own'')), (lit ''decision'', JString (lit ''retire'')),
     (lit ''expected_revision'', JNumber (JInt 2)), (lit ''reviewer'', JString (lit ''r'')), (lit ''reason'', JString (lit ''w''))]"

lemma own_record_id: "validate_record_id_value (lit ''own'') = Inr (lit ''own'')"
proof -
  have "trim (lit ''own'') = lit ''own''" by (simp add: lit_def trim_def trim_start_def trim_end_def is_whitespace_def)
  then show ?thesis
    by (simp add: validate_record_id_value_def Let_def)
      (simp add: lit_def str_len_def utf8_width_def is_ascii_digit_def record_id_char_def is_ascii_alphanumeric_def is_ascii_lower_def is_ascii_upper_def)
qed

lemma stale_texts:
  "trim (lit ''retire'') = lit ''retire''" "trim (lit ''r'') = lit ''r''" "trim (lit ''w'') = lit ''w''"
  by (simp_all add: lit_def trim_def trim_start_def trim_end_def is_whitespace_def)

lemma stale_texts_distinct:
  "lit ''retire'' \<noteq> []" "lit ''r'' \<noteq> []" "lit ''w'' \<noteq> []" "lit ''retire'' \<noteq> lit ''promote''"
  by (simp_all add: lit_def)

lemma stale_request:
  "review_request stale_review packet_past = Inr (lit ''own'', lit ''retire'', 2, lit ''r'', lit ''w'', ObsRetired)"
  by (simp add: review_request_def stale_review_def required_record_id_def required_string_def check_record_id_def
      required_non_blank_string_def required_positive_i64_def required_non_negative_i64_def decided_status_def stale_texts stale_texts_distinct own_record_id
      check_candidate_def get_self_observation_def packet_past_def packet_db_def packet_observation_def)

lemma stale_read_reviews_promoted:
  "map so_status (sm_observations packet_db) = [ObsPromoted, ObsPromoted]"
  "case tool_self_observation_review (packet_env 3) stale_review packet_past \<lparr> sh_db = packet_db, sh_log = [] \<rparr> of
     (reply, h) \<Rightarrow> map so_status (sm_observations (sh_db h)) = [ObsRetired, ObsPromoted]"
  unfolding review_tool_request [OF stale_request]
  by (simp_all add: review_self_observation_def get_self_observation_def packet_db_def packet_observation_def move_observation_def
      update_rows_def Let_def lit_def)

end
